(* ===== verification/Soroban.thy ===== *)
theory Soroban
  imports Main "HOL-Library.Signed_Division" "HOL-Library.Code_Target_Numeral"
begin

text \<open>
  Prelude: what every contract of the repository takes from the Soroban host and from Rust.

  \<^item> \<open>env\<close> is the part of \<open>soroban_sdk::Env\<close> that an invocation can observe: the ledger
    timestamp and the addresses that authorised the call. Storage is the contract's own state
    record in each component theory.
  \<^item> A call that returns \<open>Err\<close> or panics is rolled back by the host, so a failing operation
    is an \<open>Inl\<close> that carries no state: \<open>fault\<close> separates the contract's error codes, panics
    with their message, a failed \<open>require_auth\<close> and an arithmetic trap.
  \<^item> The release profile sets \<open>overflow-checks = true\<close>: \<open>+ - *\<close> on machine integers trap, so
    they are operations into \<open>fault + value\<close>; the \<open>checked_\<close> and \<open>saturating_\<close> families are
    separate. Unsigned integers are \<open>nat\<close>, signed ones \<open>int\<close>, with the bound of their width.
  \<^item> \<open>run\<close> executes a history of invocations with the host's rollback, and the locale
    \<open>contract_invariant\<close> is the interface by which every component's invariant is lifted to
    all its histories.
\<close>

section \<open>Faults, results and the invocation environment\<close>

type_synonym address = string

record env =
  timestamp :: nat
  auths :: "address list"

datatype 'e fault = Err 'e | Panic string | AuthFailed | Trap

type_synonym ('e, 'a) res = "'e fault + 'a"

text \<open>\<open>and_then\<close> is Rust's \<open>?\<close> operator; \<open>ensure\<close> an early return or an \<open>assert!\<close>.\<close>

fun and_then :: "'f + 'a \<Rightarrow> ('a \<Rightarrow> 'f + 'b) \<Rightarrow> 'f + 'b" where
  "and_then (Inl f) k = Inl f"
| "and_then (Inr x) k = k x"

definition ensure :: "bool \<Rightarrow> 'f \<Rightarrow> 'f + unit" where
  "ensure c f = (if c then Inr () else Inl f)"

definition ok_or :: "'a option \<Rightarrow> 'f \<Rightarrow> 'f + 'a" where
  "ok_or x f = (case x of None \<Rightarrow> Inl f | Some v \<Rightarrow> Inr v)"

definition unwrap_or :: "'a option \<Rightarrow> 'a \<Rightarrow> 'a" where
  "unwrap_or x d = (case x of None \<Rightarrow> d | Some v \<Rightarrow> v)"

definition unwrap :: "'a option \<Rightarrow> 'e fault + 'a" where
  "unwrap x = ok_or x (Panic ''called Option::unwrap() on a None value'')"

definition require_auth :: "env \<Rightarrow> address \<Rightarrow> 'e fault + unit" where
  "require_auth env a = ensure (a \<in> set (auths env)) AuthFailed"

definition is_ok :: "'f + 'a \<Rightarrow> bool" where
  "is_ok r = (case r of Inl _ \<Rightarrow> False | Inr _ \<Rightarrow> True)"

lemma and_then_eq_Inr [simp]: "and_then m k = Inr y \<longleftrightarrow> (\<exists>x. m = Inr x \<and> k x = Inr y)"
  by (cases m) auto

lemma and_then_eq_Inl: "and_then m k = Inl f \<longleftrightarrow> m = Inl f \<or> (\<exists>x. m = Inr x \<and> k x = Inl f)"
  by (cases m) auto

lemma and_then_cong [fundef_cong]:
  "m = m' \<Longrightarrow> (\<And>x. m' = Inr x \<Longrightarrow> k x = k' x) \<Longrightarrow> and_then m k = and_then m' k'"
  by (cases m') auto

lemma and_then_assoc: "and_then (and_then m k) l = and_then m (\<lambda>x. and_then (k x) l)"
  by (cases m) auto

lemma ensure_eq_Inr [simp]: "ensure c f = Inr u \<longleftrightarrow> c"
  by (simp add: ensure_def)

lemma ensure_eq_Inl [simp]: "ensure c f = Inl g \<longleftrightarrow> \<not> c \<and> g = f"
  by (auto simp: ensure_def)

lemma ensure_True [simp]: "ensure True f = Inr ()"
  by (simp add: ensure_def)

lemma ensure_False [simp]: "ensure False f = Inl f"
  by (simp add: ensure_def)

lemma ok_or_eq_Inr [simp]: "ok_or x f = Inr v \<longleftrightarrow> x = Some v"
  by (simp add: ok_or_def split: option.splits)

lemma ok_or_simps [simp]: "ok_or None f = Inl f" "ok_or (Some v) f = Inr v"
  by (simp_all add: ok_or_def)

lemma unwrap_eq_Inr [simp]: "unwrap x = Inr v \<longleftrightarrow> x = Some v"
  by (simp add: unwrap_def)

lemma unwrap_Some [simp]: "unwrap (Some v) = Inr v"
  by simp

lemma unwrap_or_simps [simp]: "unwrap_or None d = d" "unwrap_or (Some v) d = v"
  by (simp_all add: unwrap_or_def)

lemma require_auth_eq_Inr [simp]: "require_auth env a = Inr u \<longleftrightarrow> a \<in> set (auths env)"
  by (simp add: require_auth_def)

lemma require_auth_simps [simp]:
  "a \<in> set (auths env) \<Longrightarrow> require_auth env a = Inr ()"
  "a \<notin> set (auths env) \<Longrightarrow> require_auth env a = Inl AuthFailed"
  by (simp_all add: require_auth_def)

lemma is_ok_iff: "is_ok r \<longleftrightarrow> (\<exists>x. r = Inr x)"
  by (cases r) (auto simp: is_ok_def)

lemma is_ok_simps [simp]: "is_ok (Inr x)" "\<not> is_ok (Inl f)"
  by (simp_all add: is_ok_def)

section \<open>Machine integers with overflow checks\<close>

definition u32_max :: nat where "u32_max = 4294967295"
definition u64_max :: nat where "u64_max = 18446744073709551615"
definition u128_max :: nat where "u128_max = 340282366920938463463374607431768211455"
definition i128_max :: int where "i128_max = 170141183460469231731687303715884105727"
definition i128_min :: int where "i128_min = - 170141183460469231731687303715884105728"

named_theorems width_defs \<open>the bounds of the machine integers\<close>

declare u32_max_def [width_defs] u64_max_def [width_defs] u128_max_def [width_defs]
  i128_max_def [width_defs] i128_min_def [width_defs]

definition in_i128 :: "int \<Rightarrow> bool" where
  "in_i128 x \<longleftrightarrow> i128_min \<le> x \<and> x \<le> i128_max"

definition u_checked :: "nat \<Rightarrow> nat \<Rightarrow> 'e fault + nat" where
  "u_checked w x = (if x \<le> w then Inr x else Inl Trap)"

definition i_checked :: "int \<Rightarrow> 'e fault + int" where
  "i_checked x = (if in_i128 x then Inr x else Inl Trap)"

abbreviation add_u32 :: "nat \<Rightarrow> nat \<Rightarrow> 'e fault + nat" where
  "add_u32 a b \<equiv> u_checked u32_max (a + b)"

abbreviation add_u64 :: "nat \<Rightarrow> nat \<Rightarrow> 'e fault + nat" where
  "add_u64 a b \<equiv> u_checked u64_max (a + b)"

abbreviation mul_u32 :: "nat \<Rightarrow> nat \<Rightarrow> 'e fault + nat" where
  "mul_u32 a b \<equiv> u_checked u32_max (a * b)"

abbreviation mul_u64 :: "nat \<Rightarrow> nat \<Rightarrow> 'e fault + nat" where
  "mul_u64 a b \<equiv> u_checked u64_max (a * b)"

definition u_sub :: "nat \<Rightarrow> nat \<Rightarrow> 'e fault + nat" where
  "u_sub a b = (if b \<le> a then Inr (a - b) else Inl Trap)"

abbreviation add_i128 :: "int \<Rightarrow> int \<Rightarrow> 'e fault + int" where
  "add_i128 a b \<equiv> i_checked (a + b)"

abbreviation sub_i128 :: "int \<Rightarrow> int \<Rightarrow> 'e fault + int" where
  "sub_i128 a b \<equiv> i_checked (a - b)"

abbreviation mul_i128 :: "int \<Rightarrow> int \<Rightarrow> 'e fault + int" where
  "mul_i128 a b \<equiv> i_checked (a * b)"

text \<open>Rust's \<open>/\<close> truncates towards zero and traps on a zero divisor and on \<open>MIN / -1\<close>.\<close>

definition div_i128 :: "int \<Rightarrow> int \<Rightarrow> 'e fault + int" where
  "div_i128 a b = (if b = 0 then Inl Trap else i_checked (a sdiv b))"

definition sat_u64 :: "nat \<Rightarrow> nat" where
  "sat_u64 x = min u64_max x"

definition sat_u32 :: "nat \<Rightarrow> nat" where
  "sat_u32 x = min u32_max x"

definition sat_i128 :: "int \<Rightarrow> int" where
  "sat_i128 x = max i128_min (min i128_max x)"

definition checked_i128 :: "int \<Rightarrow> int option" where
  "checked_i128 x = (if in_i128 x then Some x else None)"

text \<open>\<open>checked_mul\<close> and \<open>checked_div\<close> return \<open>None\<close> instead of trapping.\<close>

definition checked_mul :: "int \<Rightarrow> int \<Rightarrow> int option" where
  "checked_mul a b = checked_i128 (a * b)"

definition checked_div :: "int \<Rightarrow> int \<Rightarrow> int option" where
  "checked_div a b = (if b = 0 then None else checked_i128 (a sdiv b))"

lemma u_checked_eq_Inr [simp]: "u_checked w x = Inr y \<longleftrightarrow> x \<le> w \<and> y = x"
  by (auto simp: u_checked_def)

lemma i_checked_eq_Inr [simp]: "i_checked x = Inr y \<longleftrightarrow> in_i128 x \<and> y = x"
  by (auto simp: i_checked_def)

lemma u_sub_eq_Inr [simp]: "u_sub a b = Inr y \<longleftrightarrow> b \<le> a \<and> y = a - b"
  by (auto simp: u_sub_def)

lemma checked_i128_eq_Some [simp]: "checked_i128 x = Some y \<longleftrightarrow> in_i128 x \<and> y = x"
  by (auto simp: checked_i128_def)

lemma sat_i128_id [simp]: "in_i128 x \<Longrightarrow> sat_i128 x = x"
  by (auto simp: sat_i128_def in_i128_def)

lemma sat_i128_in [simp]: "in_i128 (sat_i128 x)"
  by (auto simp: sat_i128_def in_i128_def i128_min_def i128_max_def)

lemma in_i128_between: "in_i128 b \<Longrightarrow> 0 \<le> x \<Longrightarrow> x \<le> b \<Longrightarrow> in_i128 x"
  by (auto simp: in_i128_def i128_min_def)

lemma in_i128_0 [simp]: "in_i128 0"
  by (simp add: in_i128_def i128_min_def i128_max_def)

lemma sdiv_nonneg: "0 \<le> (a :: int) \<Longrightarrow> 0 < b \<Longrightarrow> a sdiv b = a div b"
  by (cases "a = 0") (simp_all add: signed_divide_int_def)

lemma zdiv_le_self: "0 \<le> (a :: int) \<Longrightarrow> 0 < b \<Longrightarrow> a div b \<le> a"
  using zdiv_mono2 [of a 1 b] by simp

lemma le_zdiv_iff: "0 < b \<Longrightarrow> c \<le> a div b \<longleftrightarrow> c * b \<le> (a :: int)"
proof
  assume "0 < b" "c \<le> a div b"
  then have "c * b \<le> a div b * b" by simp
  also have "\<dots> \<le> a" using \<open>0 < b\<close> by (simp add: minus_mod_eq_div_mult [symmetric])
  finally show "c * b \<le> a" .
next
  assume "0 < b" "c * b \<le> a"
  with zdiv_mono1 [of "c * b" a b] show "c \<le> a div b" by simp
qed

lemma div_i128_pos:
  assumes "in_i128 a" "0 \<le> a" "0 < b"
  shows "div_i128 a b = Inr (a div b)"
proof -
  have "0 \<le> a div b" "a div b \<le> a" using assms by (simp_all add: pos_imp_zdiv_nonneg_iff zdiv_le_self)
  with assms show ?thesis
    by (auto simp: div_i128_def i_checked_def sdiv_nonneg intro: in_i128_between)
qed

lemma in_i128_diff: "in_i128 x \<Longrightarrow> 0 \<le> y \<Longrightarrow> y \<le> x \<Longrightarrow> in_i128 (x - y)"
  by (auto simp: in_i128_def i128_min_def)

lemma sdiv_in_i128: "in_i128 x \<Longrightarrow> 0 \<le> x \<Longrightarrow> 0 < c \<Longrightarrow> in_i128 (x sdiv c)"
  using zdiv_le_self [of x c] by (auto simp: sdiv_nonneg pos_imp_zdiv_nonneg_iff intro: in_i128_between)

lemma sat_u64_le [simp]: "sat_u64 x \<le> u64_max"
  by (simp add: sat_u64_def)

section \<open>Histories of invocations and the invariant interface\<close>

text \<open>
  One invocation: a fault rolls the contract back, as the host does. A history is a list of
  invocations, each with its own timestamp and authorisations.
\<close>

definition invoke :: "(env \<Rightarrow> 'c \<Rightarrow> 's \<Rightarrow> 'f + 's) \<Rightarrow> env \<Rightarrow> 'c \<Rightarrow> 's \<Rightarrow> 's" where
  "invoke exec env c s = (case exec env c s of Inl _ \<Rightarrow> s | Inr s' \<Rightarrow> s')"

fun run :: "(env \<Rightarrow> 'c \<Rightarrow> 's \<Rightarrow> 'f + 's) \<Rightarrow> 's \<Rightarrow> (env \<times> 'c) list \<Rightarrow> 's" where
  "run exec s [] = s"
| "run exec s ((env, c) # h) = run exec (invoke exec env c s) h"

definition chronological :: "(env \<times> 'c) list \<Rightarrow> bool" where
  "chronological h \<longleftrightarrow> sorted (map (timestamp \<circ> fst) h)"

text \<open>Operations return a value and the new state; a history only needs the state.\<close>

definition state_of :: "'f + ('a \<times> 's) \<Rightarrow> 'f + 's" where
  "state_of r = and_then r (\<lambda>(_, s). Inr s)"

lemma state_of_eq_Inr [simp]: "state_of r = Inr s \<longleftrightarrow> (\<exists>x. r = Inr (x, s))"
  by (auto simp: state_of_def)

lemma run_append: "run exec s (h @ h') = run exec (run exec s h) h'"
  by (induction exec s h rule: run.induct) auto

lemma invoke_cases:
  obtains (rolled_back) "invoke exec env c s = s"
    | (performed) s' where "exec env c s = Inr s'" "invoke exec env c s = s'"
  by (cases "exec env c s") (auto simp: invoke_def)

locale contract_invariant =
  fixes exec :: "env \<Rightarrow> 'c \<Rightarrow> 's \<Rightarrow> 'f + 's"
    and start :: "'s \<Rightarrow> bool"
    and allowed :: "'c \<Rightarrow> bool"
    and inv :: "'s \<Rightarrow> bool"
  assumes start_inv: "start s \<Longrightarrow> inv s"
    and step_inv: "inv s \<Longrightarrow> allowed c \<Longrightarrow> exec env c s = Inr s' \<Longrightarrow> inv s'"
begin

lemma invoke_inv: "inv s \<Longrightarrow> allowed c \<Longrightarrow> inv (invoke exec env c s)"
  by (rule invoke_cases [of exec env c s]) (auto intro: step_inv)

lemma run_keeps: "inv s \<Longrightarrow> list_all (allowed \<circ> snd) h \<Longrightarrow> inv (run exec s h)"
  by (induction h arbitrary: s) (auto simp: invoke_inv)

lemma run_inv: "start s \<Longrightarrow> list_all (allowed \<circ> snd) h \<Longrightarrow> inv (run exec s h)"
  by (rule run_keeps [OF start_inv])

lemma prefix_inv: "start s \<Longrightarrow> list_all (allowed \<circ> snd) (h @ h') \<Longrightarrow> inv (run exec s h)"
  by (rule run_inv) auto

end

text \<open>
  A second interface: a relation between the state before and after a call, reflexive and
  transitive (a field that is never written, a counter that only grows, a terminal state).
\<close>

locale contract_progress =
  fixes exec :: "env \<Rightarrow> 'c \<Rightarrow> 's \<Rightarrow> 'f + 's"
    and inv :: "'s \<Rightarrow> bool"
    and rel :: "'s \<Rightarrow> 's \<Rightarrow> bool"
  assumes rel_refl: "rel s s"
    and rel_trans: "rel s t \<Longrightarrow> rel t u \<Longrightarrow> rel s u"
    and step_keeps_inv: "inv s \<Longrightarrow> exec env c s = Inr s' \<Longrightarrow> inv s'"
    and step_rel: "inv s \<Longrightarrow> exec env c s = Inr s' \<Longrightarrow> rel s s'"
begin

lemma invoke_rel: "inv s \<Longrightarrow> rel s (invoke exec env c s)"
  by (rule invoke_cases [of exec env c s]) (auto intro: step_rel rel_refl)

lemma invoke_keeps_inv: "inv s \<Longrightarrow> inv (invoke exec env c s)"
  by (rule invoke_cases [of exec env c s]) (auto intro: step_keeps_inv)

lemma run_rel: "inv s \<Longrightarrow> rel s (run exec s h)"
proof (induction h arbitrary: s)
  case Nil
  then show ?case by (simp add: rel_refl)
next
  case (Cons ec h)
  then show ?case
    by (cases ec) (auto intro: rel_trans [OF invoke_rel Cons.IH [OF invoke_keeps_inv]])
qed

end

section \<open>Generic lemmas\<close>

lemma sum_list_map_append1 [simp]:
  "sum_list (map f (xs @ [x])) = sum_list (map f xs) + (f x :: 'b :: comm_monoid_add)"
  by simp

lemma length_filter_le_length: "length (filter P xs) \<le> length xs"
  by simp

lemma map_upd_eq_Some:
  "(m(k \<mapsto> v)) x = Some y \<longleftrightarrow> (if x = k then y = v else m x = Some y)"
  by auto

section \<open>Sums over a finite map\<close>

definition sum_entries :: "('k \<Rightarrow> 'v \<Rightarrow> int) \<Rightarrow> ('k \<Rightarrow> 'v option) \<Rightarrow> int" where
  "sum_entries f m = (\<Sum>k\<in>dom m. f k (the (m k)))"

definition entry :: "('k \<Rightarrow> 'v \<Rightarrow> int) \<Rightarrow> ('k \<Rightarrow> 'v option) \<Rightarrow> 'k \<Rightarrow> int" where
  "entry f m k = (case m k of None \<Rightarrow> 0 | Some v \<Rightarrow> f k v)"

lemma sum_entries_empty [simp]: "sum_entries f (\<lambda>_. None) = 0"
  by (simp add: sum_entries_def dom_def)

lemma sum_entries_split:
  assumes "finite (dom m)"
  shows "sum_entries f m = entry f m k + (\<Sum>j\<in>dom m - {k}. f j (the (m j)))"
proof (cases "k \<in> dom m")
  case True
  then show ?thesis
    using assms by (auto simp: sum_entries_def entry_def sum.remove [of "dom m" k])
next
  case False
  then show ?thesis by (auto simp: sum_entries_def entry_def domIff)
qed

lemma sum_entries_upd:
  assumes "finite (dom m)"
  shows "sum_entries f (m(k \<mapsto> v)) = sum_entries f m - entry f m k + f k v"
proof -
  have "sum_entries f (m(k \<mapsto> v)) = f k v + (\<Sum>j\<in>dom m - {k}. f j (the ((m(k \<mapsto> v)) j)))"
    using sum_entries_split [of "m(k \<mapsto> v)" f k] assms by (simp add: entry_def)
  also have "(\<Sum>j\<in>dom m - {k}. f j (the ((m(k \<mapsto> v)) j))) = (\<Sum>j\<in>dom m - {k}. f j (the (m j)))"
    by (rule sum.cong) auto
  finally show ?thesis using sum_entries_split [OF assms, of f k] by linarith
qed

lemma sum_entries_nonneg: "(\<And>k v. m k = Some v \<Longrightarrow> 0 \<le> f k v) \<Longrightarrow> 0 \<le> sum_entries f m"
  unfolding sum_entries_def by (rule sum_nonneg) auto

lemma entry_le_sum:
  assumes "finite (dom m)" "\<And>k v. m k = Some v \<Longrightarrow> 0 \<le> f k v"
  shows "entry f m k \<le> sum_entries f m"
proof -
  have "0 \<le> (\<Sum>j\<in>dom m - {k}. f j (the (m j)))"
    by (rule sum_nonneg) (use assms(2) in auto)
  with sum_entries_split [OF assms(1), of f k] show ?thesis by simp
qed

section \<open>Lists with a key: the update-or-append loop\<close>

text \<open>The loop that overwrites the first entry satisfying a test and returns, and its common
  completion by an append when there is none.\<close>

primrec replace_first :: "('a \<Rightarrow> bool) \<Rightarrow> ('a \<Rightarrow> 'a) \<Rightarrow> 'a list \<Rightarrow> 'a list option" where
  "replace_first P f [] = None"
| "replace_first P f (x # xs) =
     (if P x then Some (f x # xs) else map_option ((#) x) (replace_first P f xs))"

definition upsert :: "('a \<Rightarrow> bool) \<Rightarrow> ('a \<Rightarrow> 'a) \<Rightarrow> 'a \<Rightarrow> 'a list \<Rightarrow> 'a list" where
  "upsert P f x xs = (case replace_first P f xs of Some ys \<Rightarrow> ys | None \<Rightarrow> xs @ [x])"

definition find_key :: "('a \<Rightarrow> 'k) \<Rightarrow> 'k \<Rightarrow> 'a list \<Rightarrow> 'a option" where
  "find_key key k xs = List.find (\<lambda>x. key x = k) xs"

lemma upsert_simps [simp]:
  "upsert P f x [] = [x]"
  "upsert P f x (y # ys) = (if P y then f y # ys else y # upsert P f x ys)"
  by (simp_all add: upsert_def split: option.split)

text \<open>
  The interface of a keyed list: \<open>put\<close> overwrites the entry with the same key or appends,
  \<open>del\<close> filters the key out. Its clients only use that lookups behave as on a map and that
  keys stay distinct.
\<close>

locale keyed_list =
  fixes key :: "'a \<Rightarrow> 'k" and put :: "'a \<Rightarrow> 'a list \<Rightarrow> 'a list" and del :: "'k \<Rightarrow> 'a list \<Rightarrow> 'a list"
  assumes put_is: "put x xs = upsert (\<lambda>y. key y = key x) (\<lambda>_. x) x xs"
    and del_is: "del k xs = filter (\<lambda>y. key y \<noteq> k) xs"
begin

lemma key_put: "key ` set (put x xs) = insert (key x) (key ` set xs)"
  unfolding put_is by (induction xs) auto

lemma distinct_put: "distinct (map key xs) \<Longrightarrow> distinct (map key (put x xs))"
proof (induction xs)
  case (Cons y ys)
  then show ?case using key_put [of x ys] by (auto simp: put_is image_iff)
qed (simp add: put_is)

lemma distinct_del: "distinct (map key xs) \<Longrightarrow> distinct (map key (del k xs))"
  by (simp add: del_is distinct_map_filter)

lemma find_key_put: "find_key key k (put x xs) = (if k = key x then Some x else find_key key k xs)"
  unfolding put_is find_key_def by (induction xs) auto

lemma find_key_del: "find_key key k (del k' xs) = (if k = k' then None else find_key key k xs)"
  by (induction xs) (auto simp: find_key_def del_is)

lemma find_key_Some:
  "distinct (map key xs) \<Longrightarrow> find_key key k xs = Some x \<longleftrightarrow> x \<in> set xs \<and> key x = k"
  by (induction xs) (auto simp: find_key_def image_iff)

lemma ex_find_key:
  "distinct (map key xs) \<Longrightarrow>
     (\<exists>x\<in>set xs. key x = k \<and> P x) \<longleftrightarrow> (\<exists>x. find_key key k xs = Some x \<and> P x)"
  by (auto simp: find_key_Some)

end

end
