(* ===== verification/Escrow.thy ===== *)
theory Escrow
  imports Soroban
begin

text \<open>
  The time-locked escrow contract (\<open>escrow_contract/src/lib.rs\<close>): its storage as the record
  \<open>escrow_state\<close> (one field per \<open>DataKey\<close>, plus the published events), one definition per
  entry point and helper, the dispatcher \<open>escrow_exec\<close>, and the lemmas that make it correct:
  the accounting and dispute invariant, conservation of the deposited amount, the exact
  conditions under which funds are released or refunded, and the batch release.
\<close>

section \<open>Data\<close>

datatype escrow_error =
    NotAuthorized | InvalidAmount | InvalidLockConfig | EscrowNotFound | LockNotElapsed
  | AlreadyChallenged | NoChallenge | ChallengeWindowClosed | InvalidEscrowState
  | VerificationPending | VerificationFailed | AlreadyApproved | InvalidDisputeDecision
  | MetadataTooLarge | EmergencyNotEnabled | FeeConfigInvalid | NothingToRelease
  | NothingToRefund | CircuitBreakerTripped

datatype escrow_status = Pending | Challenged | Released | Refunded

record escrow_deposit =
  ed_escrow_id :: nat
  ed_depositor :: address
  ed_recipient :: address
  ed_bridge_id :: string
  ed_asset_type :: string
  ed_amount :: int
  ed_fee_total :: int
  ed_released_amount :: int
  ed_lock_until :: nat
  ed_status :: escrow_status
  ed_metadata :: string
  ed_verification_contract :: address
  ed_verification_ref :: string
  ed_verified :: bool

record challenge_info =
  ci_escrow_id :: nat
  ci_challenger :: address
  ci_reason :: string
  ci_timestamp :: nat

record dispute_resolution =
  dr_escrow_id :: nat
  dr_decision_release :: bool
  dr_approvals :: "address list"
  dr_required_approvals :: nat
  dr_resolved :: bool

record breaker_state =
  br_tripped :: bool
  br_reason :: string
  br_actor :: address
  br_timestamp :: nat

text \<open>The published events: the topic's name with its subject and payload.\<close>

datatype escrow_event =
    EvLockConfigSet address string string nat
  | EvBreakerTripped address string nat
  | EvBreakerReset address nat
  | EvCreated nat string string int int nat
  | EvVerificationSynced nat bool
  | EvChallenged nat nat
  | EvChallengeResolved nat bool nat nat bool
  | EvReleased nat int int
  | EvBatchReleased address nat int
  | EvRefunded nat int
  | EvExtended nat nat
  | EvEmergencyRecovery nat address int
  | EvFeesCollected address int int

record escrow_state =
  es_admin :: "address option"
  es_fee_collector :: "address option"
  es_fee_bps :: "nat option"
  es_escrow_seq :: "nat option"
  es_escrows :: "nat \<rightharpoonup> escrow_deposit"
  es_challenges :: "nat \<rightharpoonup> challenge_info"
  es_disputes :: "nat \<rightharpoonup> dispute_resolution"
  es_lock_period :: "string \<times> string \<rightharpoonup> nat"
  es_approvers :: "address list option"
  es_approval_threshold :: "nat option"
  es_emergency_pause :: "bool option"
  es_accrued_fees :: "int option"
  es_circuit_breaker :: "breaker_state option"
  es_breaker_guardian :: "address option"
  es_events :: "escrow_event list"

definition escrow_empty :: escrow_state where
  "escrow_empty = \<lparr>es_admin = None, es_fee_collector = None, es_fee_bps = None,
     es_escrow_seq = None, es_escrows = Map.empty, es_challenges = Map.empty,
     es_disputes = Map.empty, es_lock_period = Map.empty, es_approvers = None,
     es_approval_threshold = None, es_emergency_pause = None, es_accrued_fees = None,
     es_circuit_breaker = None, es_breaker_guardian = None, es_events = []\<rparr>"

type_synonym 'a escrow_res = "(escrow_error, 'a) res"

definition bps_denominator :: int where "bps_denominator = 10000"
definition default_lock_secs :: nat where "default_lock_secs = 3600"
definition max_metadata_len :: nat where "max_metadata_len = 512"

definition es_emit :: "escrow_event \<Rightarrow> escrow_state \<Rightarrow> escrow_state" where
  "es_emit ev s = s\<lparr>es_events := es_events s @ [ev]\<rparr>"

definition es_set_escrow :: "nat \<Rightarrow> escrow_deposit \<Rightarrow> escrow_state \<Rightarrow> escrow_state" where
  "es_set_escrow i e s = s\<lparr>es_escrows := (es_escrows s)(i \<mapsto> e)\<rparr>"

section \<open>Helpers\<close>

definition next_id :: "escrow_state \<Rightarrow> nat \<times> escrow_state" where
  "next_id s =
     (let current = unwrap_or (es_escrow_seq s) 0
      in (current, s\<lparr>es_escrow_seq := Some (sat_u64 (current + 1))\<rparr>))"

definition get_escrow_mut :: "escrow_state \<Rightarrow> nat \<Rightarrow> escrow_deposit escrow_res" where
  "get_escrow_mut s i = ok_or (es_escrows s i) (Err EscrowNotFound)"

definition escrow_require_admin :: "env \<Rightarrow> escrow_state \<Rightarrow> address \<Rightarrow> unit escrow_res" where
  "escrow_require_admin env s admin =
     and_then (require_auth env admin) (\<lambda>_.
     and_then (unwrap (es_admin s)) (\<lambda>stored.
     ensure (stored = admin) (Err NotAuthorized)))"

definition require_not_paused :: "escrow_state \<Rightarrow> unit escrow_res" where
  "require_not_paused s =
     ensure (\<not> unwrap_or (es_emergency_pause s) False) (Err EmergencyNotEnabled)"

definition require_breaker_guardian :: "env \<Rightarrow> escrow_state \<Rightarrow> address \<Rightarrow> unit escrow_res" where
  "require_breaker_guardian env s caller =
     and_then (require_auth env caller) (\<lambda>_.
     and_then (unwrap (es_admin s)) (\<lambda>admin.
     let guardian = unwrap_or (es_breaker_guardian s) admin in
     ensure (caller = admin \<or> caller = guardian) (Err NotAuthorized)))"

definition is_circuit_breaker_tripped :: "escrow_state \<Rightarrow> bool" where
  "is_circuit_breaker_tripped s = unwrap_or (map_option br_tripped (es_circuit_breaker s)) False"

definition require_breaker_not_tripped :: "escrow_state \<Rightarrow> unit escrow_res" where
  "require_breaker_not_tripped s =
     ensure (\<not> is_circuit_breaker_tripped s) (Err CircuitBreakerTripped)"

primrec contains_addr :: "address list \<Rightarrow> address \<Rightarrow> bool" where
  "contains_addr [] who = False"
| "contains_addr (a # as) who = (a = who \<or> contains_addr as who)"

definition require_approver :: "escrow_state \<Rightarrow> address \<Rightarrow> unit escrow_res" where
  "require_approver s approver =
     and_then (unwrap (es_approvers s)) (\<lambda>approvers.
     ensure (contains_addr approvers approver) (Err NotAuthorized))"

definition load_dispute :: "escrow_state \<Rightarrow> nat \<Rightarrow> bool \<Rightarrow> dispute_resolution" where
  "load_dispute s escrow_id release_allowed =
     (let required = unwrap_or (es_approval_threshold s) 1
      in unwrap_or (es_disputes s escrow_id)
           \<lparr>dr_escrow_id = escrow_id, dr_decision_release = release_allowed,
            dr_approvals = [], dr_required_approvals = required, dr_resolved = False\<rparr>)"

section \<open>Configuration\<close>

definition escrow_initialize ::
  "env \<Rightarrow> address \<Rightarrow> address \<Rightarrow> nat \<Rightarrow> address list \<Rightarrow> nat \<Rightarrow> escrow_state
     \<Rightarrow> (unit \<times> escrow_state) escrow_res" where
  "escrow_initialize env admin fee_collector fee_bps approvers approval_threshold s =
     and_then (require_auth env admin) (\<lambda>_.
     if es_admin s \<noteq> None then Inl (Err NotAuthorized)
     else if fee_bps > 2000 then Inl (Err FeeConfigInvalid)
     else if approvers = [] \<or> approval_threshold = 0 \<or> approval_threshold > length approvers
       then Inl (Err InvalidDisputeDecision)
     else Inr ((), s\<lparr>es_admin := Some admin, es_fee_collector := Some fee_collector,
       es_fee_bps := Some fee_bps, es_approvers := Some approvers,
       es_approval_threshold := Some approval_threshold, es_escrow_seq := Some 0,
       es_emergency_pause := Some False, es_accrued_fees := Some 0\<rparr>))"

definition set_lock_period ::
  "env \<Rightarrow> address \<Rightarrow> string \<Rightarrow> string \<Rightarrow> nat \<Rightarrow> escrow_state \<Rightarrow> (unit \<times> escrow_state) escrow_res"
where
  "set_lock_period env admin bridge_id asset_type lock_secs s =
     and_then (escrow_require_admin env s admin) (\<lambda>_.
     if lock_secs = 0 then Inl (Err InvalidLockConfig)
     else Inr ((), es_emit (EvLockConfigSet admin bridge_id asset_type lock_secs)
       (s\<lparr>es_lock_period := (es_lock_period s)((bridge_id, asset_type) \<mapsto> lock_secs)\<rparr>)))"

definition set_fee_config ::
  "env \<Rightarrow> address \<Rightarrow> address \<Rightarrow> nat \<Rightarrow> escrow_state \<Rightarrow> (unit \<times> escrow_state) escrow_res" where
  "set_fee_config env admin fee_collector fee_bps s =
     and_then (escrow_require_admin env s admin) (\<lambda>_.
     if fee_bps > 2000 then Inl (Err FeeConfigInvalid)
     else Inr ((), s\<lparr>es_fee_collector := Some fee_collector, es_fee_bps := Some fee_bps\<rparr>))"

definition set_approvers ::
  "env \<Rightarrow> address \<Rightarrow> address list \<Rightarrow> nat \<Rightarrow> escrow_state \<Rightarrow> (unit \<times> escrow_state) escrow_res"
where
  "set_approvers env admin approvers approval_threshold s =
     and_then (escrow_require_admin env s admin) (\<lambda>_.
     if approvers = [] \<or> approval_threshold = 0 \<or> approval_threshold > length approvers
     then Inl (Err InvalidDisputeDecision)
     else Inr ((), s\<lparr>es_approvers := Some approvers,
       es_approval_threshold := Some approval_threshold\<rparr>))"

definition set_emergency_pause ::
  "env \<Rightarrow> address \<Rightarrow> bool \<Rightarrow> escrow_state \<Rightarrow> (unit \<times> escrow_state) escrow_res" where
  "set_emergency_pause env admin paused s =
     and_then (escrow_require_admin env s admin) (\<lambda>_.
     Inr ((), s\<lparr>es_emergency_pause := Some paused\<rparr>))"

definition set_breaker_guardian ::
  "env \<Rightarrow> address \<Rightarrow> address \<Rightarrow> escrow_state \<Rightarrow> (unit \<times> escrow_state) escrow_res" where
  "set_breaker_guardian env admin guardian s =
     and_then (escrow_require_admin env s admin) (\<lambda>_.
     Inr ((), s\<lparr>es_breaker_guardian := Some guardian\<rparr>))"

definition trip_circuit_breaker ::
  "env \<Rightarrow> address \<Rightarrow> string \<Rightarrow> escrow_state \<Rightarrow> (unit \<times> escrow_state) escrow_res" where
  "trip_circuit_breaker env caller reason s =
     and_then (require_breaker_guardian env s caller) (\<lambda>_.
     Inr ((), es_emit (EvBreakerTripped caller reason (timestamp env))
       (s\<lparr>es_circuit_breaker := Some \<lparr>br_tripped = True, br_reason = reason,
          br_actor = caller, br_timestamp = timestamp env\<rparr>\<rparr>)))"

definition escrow_reset_circuit_breaker ::
  "env \<Rightarrow> address \<Rightarrow> escrow_state \<Rightarrow> (unit \<times> escrow_state) escrow_res" where
  "escrow_reset_circuit_breaker env caller s =
     and_then (require_breaker_guardian env s caller) (\<lambda>_.
     Inr ((), es_emit (EvBreakerReset caller (timestamp env))
       (s\<lparr>es_circuit_breaker := Some \<lparr>br_tripped = False, br_reason = '''',
          br_actor = caller, br_timestamp = timestamp env\<rparr>\<rparr>)))"

section \<open>The life of an escrow\<close>

definition create_escrow ::
  "env \<Rightarrow> address \<Rightarrow> address \<Rightarrow> string \<Rightarrow> string \<Rightarrow> int \<Rightarrow> string \<Rightarrow> address \<Rightarrow> string
     \<Rightarrow> escrow_state \<Rightarrow> (nat \<times> escrow_state) escrow_res" where
  "create_escrow env depositor recipient bridge_id asset_type amount metadata
      verification_contract verification_ref s =
     and_then (require_not_paused s) (\<lambda>_.
     and_then (require_auth env depositor) (\<lambda>_.
     if amount \<le> 0 then Inl (Err InvalidAmount)
     else if length metadata > max_metadata_len then Inl (Err MetadataTooLarge)
     else
     let fee_bps = unwrap_or (es_fee_bps s) 0 in
     and_then (ok_or (map_option (\<lambda>v. v sdiv bps_denominator)
       (checked_i128 (amount * int fee_bps))) (Err InvalidAmount)) (\<lambda>fee_total.
     let lock_period = unwrap_or (es_lock_period s (bridge_id, asset_type)) default_lock_secs;
         lock_until = sat_u64 (timestamp env + lock_period);
         (escrow_id, s1) = next_id s;
         escrow = \<lparr>ed_escrow_id = escrow_id, ed_depositor = depositor,
           ed_recipient = recipient, ed_bridge_id = bridge_id, ed_asset_type = asset_type,
           ed_amount = amount, ed_fee_total = fee_total, ed_released_amount = 0,
           ed_lock_until = lock_until, ed_status = Pending, ed_metadata = metadata,
           ed_verification_contract = verification_contract,
           ed_verification_ref = verification_ref, ed_verified = False\<rparr>;
         accrued = unwrap_or (es_accrued_fees s1) 0 in
     and_then (add_i128 accrued fee_total) (\<lambda>accrued'.
     Inr (escrow_id,
       es_emit (EvCreated escrow_id bridge_id asset_type amount fee_total lock_until)
         (es_set_escrow escrow_id escrow (s1\<lparr>es_accrued_fees := Some accrued'\<rparr>)))))))"

definition sync_verification ::
  "env \<Rightarrow> address \<Rightarrow> nat \<Rightarrow> bool \<Rightarrow> escrow_state \<Rightarrow> (unit \<times> escrow_state) escrow_res" where
  "sync_verification env verifier_contract escrow_id verified s =
     and_then (require_auth env verifier_contract) (\<lambda>_.
     and_then (get_escrow_mut s escrow_id) (\<lambda>escrow.
     if verifier_contract \<noteq> ed_verification_contract escrow then Inl (Err NotAuthorized)
     else if ed_status escrow = Released \<or> ed_status escrow = Refunded
       then Inl (Err InvalidEscrowState)
     else Inr ((), es_emit (EvVerificationSynced escrow_id verified)
       (es_set_escrow escrow_id (escrow\<lparr>ed_verified := verified\<rparr>) s))))"

definition challenge_escrow ::
  "env \<Rightarrow> address \<Rightarrow> nat \<Rightarrow> string \<Rightarrow> escrow_state \<Rightarrow> (unit \<times> escrow_state) escrow_res" where
  "challenge_escrow env challenger escrow_id reason s =
     and_then (require_not_paused s) (\<lambda>_.
     and_then (require_auth env challenger) (\<lambda>_.
     and_then (get_escrow_mut s escrow_id) (\<lambda>escrow.
     if ed_status escrow \<noteq> Pending then Inl (Err InvalidEscrowState)
     else if timestamp env \<ge> ed_lock_until escrow then Inl (Err ChallengeWindowClosed)
     else if es_challenges s escrow_id \<noteq> None then Inl (Err AlreadyChallenged)
     else
     let s1 = es_set_escrow escrow_id (escrow\<lparr>ed_status := Challenged\<rparr>) s;
         challenge = \<lparr>ci_escrow_id = escrow_id, ci_challenger = challenger,
           ci_reason = reason, ci_timestamp = timestamp env\<rparr> in
     Inr ((), es_emit (EvChallenged escrow_id (timestamp env))
       (s1\<lparr>es_challenges := (es_challenges s1)(escrow_id \<mapsto> challenge)\<rparr>)))))"

definition resolve_challenge ::
  "env \<Rightarrow> address \<Rightarrow> nat \<Rightarrow> bool \<Rightarrow> escrow_state \<Rightarrow> (bool \<times> escrow_state) escrow_res" where
  "resolve_challenge env approver escrow_id release_allowed s =
     and_then (require_not_paused s) (\<lambda>_.
     and_then (require_auth env approver) (\<lambda>_.
     and_then (require_approver s approver) (\<lambda>_.
     and_then (get_escrow_mut s escrow_id) (\<lambda>escrow.
     if ed_status escrow \<noteq> Challenged then Inl (Err NoChallenge)
     else
     let dispute = load_dispute s escrow_id release_allowed in
     if dr_resolved dispute then Inr (True, s)
     else if dr_decision_release dispute \<noteq> release_allowed
       then Inl (Err InvalidDisputeDecision)
     else if contains_addr (dr_approvals dispute) approver then Inl (Err AlreadyApproved)
     else
     let approvals = dr_approvals dispute @ [approver];
         resolved = (length approvals \<ge> dr_required_approvals dispute);
         dispute' = dispute\<lparr>dr_approvals := approvals, dr_resolved := resolved\<rparr>;
         escrow' = (if resolved \<and> dr_decision_release dispute
           then escrow\<lparr>ed_status := Pending\<rparr> else escrow);
         s1 = s\<lparr>es_disputes := (es_disputes s)(escrow_id \<mapsto> dispute')\<rparr> in
     Inr (resolved, es_emit (EvChallengeResolved escrow_id (dr_decision_release dispute')
         (length approvals) (dr_required_approvals dispute') resolved)
       (es_set_escrow escrow_id escrow' s1))))))"

definition release_escrow_internal ::
  "env \<Rightarrow> address \<Rightarrow> nat \<Rightarrow> int \<Rightarrow> bool \<Rightarrow> escrow_state \<Rightarrow> (int \<times> escrow_state) escrow_res"
where
  "release_escrow_internal env caller escrow_id release_amount enforce_auth s =
     and_then (require_not_paused s) (\<lambda>_.
     and_then (require_breaker_not_tripped s) (\<lambda>_.
     and_then (if enforce_auth then require_auth env caller else Inr ()) (\<lambda>_.
     and_then (unwrap (es_admin s)) (\<lambda>admin.
     and_then (get_escrow_mut s escrow_id) (\<lambda>escrow.
     if caller \<noteq> ed_recipient escrow \<and> caller \<noteq> admin then Inl (Err NotAuthorized)
     else if ed_status escrow = Refunded \<or> ed_status escrow = Released
       then Inl (Err InvalidEscrowState)
     else if ed_status escrow = Challenged then Inl (Err NoChallenge)
     else if \<not> ed_verified escrow then Inl (Err VerificationPending)
     else if timestamp env < ed_lock_until escrow then Inl (Err LockNotElapsed)
     else if release_amount \<le> 0 then Inl (Err InvalidAmount)
     else
     let releasable_total = sat_i128 (ed_amount escrow - ed_fee_total escrow);
         remaining = sat_i128 (releasable_total - ed_released_amount escrow) in
     if remaining \<le> 0 then Inl (Err NothingToRelease)
     else if release_amount > remaining then Inl (Err InvalidAmount)
     else
     let released = sat_i128 (ed_released_amount escrow + release_amount);
         escrow' = escrow\<lparr>ed_released_amount := released,
           ed_status := (if released \<ge> releasable_total then Released else ed_status escrow)\<rparr> in
     Inr (release_amount, es_emit (EvReleased escrow_id release_amount released)
       (es_set_escrow escrow_id escrow' s)))))))"

definition release_escrow ::
  "env \<Rightarrow> address \<Rightarrow> nat \<Rightarrow> int \<Rightarrow> escrow_state \<Rightarrow> (int \<times> escrow_state) escrow_res" where
  "release_escrow env caller escrow_id release_amount s =
     release_escrow_internal env caller escrow_id release_amount True s"

fun batch_release_loop ::
  "env \<Rightarrow> address \<Rightarrow> int \<Rightarrow> nat list \<Rightarrow> int list \<Rightarrow> int \<Rightarrow> escrow_state
     \<Rightarrow> (int list \<times> int \<times> escrow_state) escrow_res" where
  "batch_release_loop env caller release_amount [] released tot s = Inr (released, tot, s)"
| "batch_release_loop env caller release_amount (i # ids) released tot s =
     and_then (release_escrow_internal env caller i release_amount False s) (\<lambda>(amt, s').
     batch_release_loop env caller release_amount ids (released @ [amt])
       (sat_i128 (tot + amt)) s')"

definition batch_release ::
  "env \<Rightarrow> address \<Rightarrow> nat list \<Rightarrow> int \<Rightarrow> escrow_state \<Rightarrow> (int list \<times> escrow_state) escrow_res"
where
  "batch_release env caller escrow_ids release_amount s =
     and_then (require_not_paused s) (\<lambda>_.
     and_then (require_breaker_not_tripped s) (\<lambda>_.
     and_then (require_auth env caller) (\<lambda>_.
     if escrow_ids = [] then Inr ([], s)
     else
     and_then (batch_release_loop env caller release_amount escrow_ids [] 0 s)
       (\<lambda>(released, tot, s').
     Inr (released, es_emit (EvBatchReleased caller (length escrow_ids) tot) s')))))"

definition refund_escrow ::
  "env \<Rightarrow> address \<Rightarrow> nat \<Rightarrow> escrow_state \<Rightarrow> (int \<times> escrow_state) escrow_res" where
  "refund_escrow env caller escrow_id s =
     and_then (require_not_paused s) (\<lambda>_.
     and_then (require_breaker_not_tripped s) (\<lambda>_.
     and_then (require_auth env caller) (\<lambda>_.
     and_then (unwrap (es_admin s)) (\<lambda>admin.
     and_then (get_escrow_mut s escrow_id) (\<lambda>escrow.
     if caller \<noteq> ed_depositor escrow \<and> caller \<noteq> admin then Inl (Err NotAuthorized)
     else if ed_status escrow = Released \<or> ed_status escrow = Refunded
       then Inl (Err InvalidEscrowState)
     else
     and_then (if ed_status escrow = Challenged
       then and_then (ok_or (es_disputes s escrow_id) (Err NoChallenge)) (\<lambda>dispute.
         ensure (dr_resolved dispute \<and> \<not> dr_decision_release dispute) (Err InvalidEscrowState))
       else ensure (\<not> ed_verified escrow) (Err VerificationFailed)) (\<lambda>_.
     let refund_amount = sat_i128 (sat_i128 (ed_amount escrow - ed_released_amount escrow)
           - ed_fee_total escrow) in
     if refund_amount \<le> 0 then Inl (Err NothingToRefund)
     else Inr (refund_amount, es_emit (EvRefunded escrow_id refund_amount)
       (es_set_escrow escrow_id (escrow\<lparr>ed_status := Refunded\<rparr>) s))))))))"

definition extend_lock ::
  "env \<Rightarrow> address \<Rightarrow> nat \<Rightarrow> nat \<Rightarrow> escrow_state \<Rightarrow> (nat \<times> escrow_state) escrow_res" where
  "extend_lock env admin escrow_id extra_secs s =
     and_then (escrow_require_admin env s admin) (\<lambda>_.
     if extra_secs = 0 then Inl (Err InvalidLockConfig)
     else
     and_then (get_escrow_mut s escrow_id) (\<lambda>escrow.
     if ed_status escrow = Released \<or> ed_status escrow = Refunded
     then Inl (Err InvalidEscrowState)
     else
     let lock_until = sat_u64 (ed_lock_until escrow + extra_secs) in
     Inr (lock_until, es_emit (EvExtended escrow_id lock_until)
       (es_set_escrow escrow_id (escrow\<lparr>ed_lock_until := lock_until\<rparr>) s))))"

definition emergency_recover ::
  "env \<Rightarrow> address \<Rightarrow> nat \<Rightarrow> address \<Rightarrow> int \<Rightarrow> escrow_state \<Rightarrow> (unit \<times> escrow_state) escrow_res"
where
  "emergency_recover env admin escrow_id recipient amount s =
     and_then (escrow_require_admin env s admin) (\<lambda>_.
     if \<not> unwrap_or (es_emergency_pause s) False then Inl (Err EmergencyNotEnabled)
     else
     and_then (get_escrow_mut s escrow_id) (\<lambda>escrow.
     if amount \<le> 0 \<or> amount > sat_i128 (ed_amount escrow - ed_released_amount escrow)
     then Inl (Err InvalidAmount)
     else
     let released = sat_i128 (ed_released_amount escrow + amount);
         escrow' = escrow\<lparr>ed_released_amount := released,
           ed_status := (if released \<ge> sat_i128 (ed_amount escrow - ed_fee_total escrow)
             then Released else ed_status escrow)\<rparr> in
     Inr ((), es_emit (EvEmergencyRecovery escrow_id recipient amount)
       (es_set_escrow escrow_id escrow' s))))"

definition collect_fees ::
  "env \<Rightarrow> address \<Rightarrow> int \<Rightarrow> escrow_state \<Rightarrow> (int \<times> escrow_state) escrow_res" where
  "collect_fees env collector amount s =
     and_then (require_auth env collector) (\<lambda>_.
     and_then (unwrap (es_fee_collector s)) (\<lambda>configured.
     if collector \<noteq> configured then Inl (Err NotAuthorized)
     else if amount \<le> 0 then Inl (Err InvalidAmount)
     else
     let accrued = unwrap_or (es_accrued_fees s) 0 in
     if amount > accrued then Inl (Err InvalidAmount)
     else
     and_then (sub_i128 accrued amount) (\<lambda>remaining.
     Inr (amount, es_emit (EvFeesCollected collector amount remaining)
       (s\<lparr>es_accrued_fees := Some remaining\<rparr>)))))"

definition get_escrow :: "escrow_state \<Rightarrow> nat \<Rightarrow> escrow_deposit option" where
  "get_escrow s escrow_id = es_escrows s escrow_id"

definition get_challenge :: "escrow_state \<Rightarrow> nat \<Rightarrow> challenge_info option" where
  "get_challenge s escrow_id = es_challenges s escrow_id"

definition get_dispute :: "escrow_state \<Rightarrow> nat \<Rightarrow> dispute_resolution option" where
  "get_dispute s escrow_id = es_disputes s escrow_id"

definition get_accrued_fees :: "escrow_state \<Rightarrow> int" where
  "get_accrued_fees s = unwrap_or (es_accrued_fees s) 0"

definition get_circuit_breaker_state :: "escrow_state \<Rightarrow> breaker_state option" where
  "get_circuit_breaker_state s = es_circuit_breaker s"

section \<open>The contract's entry points as one transition function\<close>

datatype escrow_call =
    Initialize address address nat "address list" nat
  | SetLockPeriod address string string nat
  | SetFeeConfig address address nat
  | SetApprovers address "address list" nat
  | SetEmergencyPause address bool
  | SetBreakerGuardian address address
  | TripCircuitBreaker address string
  | ResetCircuitBreaker address
  | CreateEscrow address address string string int string address string
  | SyncVerification address nat bool
  | ChallengeEscrow address nat string
  | ResolveChallenge address nat bool
  | ReleaseEscrow address nat int
  | BatchRelease address "nat list" int
  | RefundEscrow address nat
  | ExtendLock address nat nat
  | EmergencyRecover address nat address int
  | CollectFees address int

text \<open>
  The dispatcher. An \<open>i128\<close> argument arrives within its width: the one deposited amount,
  from which all other amounts are bounded, is checked here.
\<close>

fun escrow_exec :: "env \<Rightarrow> escrow_call \<Rightarrow> escrow_state \<Rightarrow> escrow_state escrow_res" where
  "escrow_exec env (Initialize a fc b ap th) s = state_of (escrow_initialize env a fc b ap th s)"
| "escrow_exec env (SetLockPeriod a b t l) s = state_of (set_lock_period env a b t l s)"
| "escrow_exec env (SetFeeConfig a fc b) s = state_of (set_fee_config env a fc b s)"
| "escrow_exec env (SetApprovers a ap th) s = state_of (set_approvers env a ap th s)"
| "escrow_exec env (SetEmergencyPause a p) s = state_of (set_emergency_pause env a p s)"
| "escrow_exec env (SetBreakerGuardian a g) s = state_of (set_breaker_guardian env a g s)"
| "escrow_exec env (TripCircuitBreaker c r) s = state_of (trip_circuit_breaker env c r s)"
| "escrow_exec env (ResetCircuitBreaker c) s = state_of (escrow_reset_circuit_breaker env c s)"
| "escrow_exec env (CreateEscrow d r b t amt m vc vr) s =
     and_then (i_checked amt) (\<lambda>amt. state_of (create_escrow env d r b t amt m vc vr s))"
| "escrow_exec env (SyncVerification v i ok) s = state_of (sync_verification env v i ok s)"
| "escrow_exec env (ChallengeEscrow c i r) s = state_of (challenge_escrow env c i r s)"
| "escrow_exec env (ResolveChallenge a i ok) s = state_of (resolve_challenge env a i ok s)"
| "escrow_exec env (ReleaseEscrow c i amt) s = state_of (release_escrow env c i amt s)"
| "escrow_exec env (BatchRelease c ids amt) s = state_of (batch_release env c ids amt s)"
| "escrow_exec env (RefundEscrow c i) s = state_of (refund_escrow env c i s)"
| "escrow_exec env (ExtendLock a i x) s = state_of (extend_lock env a i x s)"
| "escrow_exec env (EmergencyRecover a i r amt) s = state_of (emergency_recover env a i r amt s)"
| "escrow_exec env (CollectFees c amt) s = state_of (collect_fees env c amt s)"

definition escrow_start :: "escrow_state \<Rightarrow> bool" where
  "escrow_start s \<longleftrightarrow>
     (\<exists>env a fc b ap th. escrow_initialize env a fc b ap th escrow_empty = Inr ((), s))"

section \<open>The accounting and dispute invariant\<close>


definition deposit_ok :: "escrow_deposit \<Rightarrow> bool" where
  "deposit_ok e \<longleftrightarrow> 0 < ed_amount e \<and> in_i128 (ed_amount e) \<and> 0 \<le> ed_fee_total e
     \<and> 5 * ed_fee_total e \<le> ed_amount e
     \<and> 0 \<le> ed_released_amount e \<and> ed_released_amount e \<le> ed_amount e
     \<and> (ed_status e = Released \<longleftrightarrow> ed_amount e - ed_fee_total e \<le> ed_released_amount e)"

definition dispute_ok :: "dispute_resolution \<Rightarrow> bool" where
  "dispute_ok d \<longleftrightarrow> 0 < dr_required_approvals d \<and> distinct (dr_approvals d)
     \<and> length (dr_approvals d) \<le> dr_required_approvals d
     \<and> (dr_resolved d \<longleftrightarrow> length (dr_approvals d) = dr_required_approvals d)"

definition case_ok :: "challenge_info option \<Rightarrow> dispute_resolution option \<Rightarrow> escrow_deposit option \<Rightarrow> bool"
where
  "case_ok c d e \<longleftrightarrow> (d \<noteq> None \<longrightarrow> c \<noteq> None)
     \<and> (e \<noteq> None \<and> ed_status (the e) = Challenged \<longrightarrow> c \<noteq> None
        \<and> (d \<noteq> None \<and> dr_resolved (the d) \<longrightarrow> \<not> dr_decision_release (the d)))"

definition escrow_inv :: "escrow_state \<Rightarrow> bool" where
  "escrow_inv s \<longleftrightarrow> es_admin s \<noteq> None
     \<and> unwrap_or (es_fee_bps s) 0 \<le> 2000 \<and> 0 < unwrap_or (es_approval_threshold s) 1
     \<and> (\<forall>i e. es_escrows s i = Some e \<longrightarrow> deposit_ok e)
     \<and> (\<forall>i d. es_disputes s i = Some d \<longrightarrow> dispute_ok d)
     \<and> (\<forall>i. case_ok (es_challenges s i) (es_disputes s i) (es_escrows s i))"

lemma fee_bound:
  assumes "0 < (amt :: int)" "b \<le> 2000"
  shows "0 \<le> (amt * int b) sdiv bps_denominator \<and> 5 * ((amt * int b) sdiv bps_denominator) \<le> amt"
proof -
  have nn: "0 \<le> amt * int b" using assms by simp
  have "amt * int b \<le> amt * 2000" using assms by simp
  moreover have "(amt * int b) sdiv bps_denominator = (amt * int b) div 10000"
    using nn by (simp add: sdiv_nonneg bps_denominator_def)
  moreover have "5 * ((amt * int b) div 10000) \<le> amt"
    using \<open>amt * int b \<le> amt * 2000\<close> by linarith
  ultimately show ?thesis using nn by simp
qed

lemma contains_addr_iff [simp]: "contains_addr as who \<longleftrightarrow> who \<in> set as"
  by (induction as) auto

lemmas escrow_checks [simp] = get_escrow_mut_def escrow_require_admin_def require_not_paused_def
  require_breaker_guardian_def require_breaker_not_tripped_def require_approver_def Let_def

lemma escrow_inv_emit [simp]: "escrow_inv (es_emit ev s) = escrow_inv s"
  by (simp add: escrow_inv_def es_emit_def)

lemma es_emit_simps [simp]:
  "es_admin (es_emit ev s) = es_admin s" "es_fee_bps (es_emit ev s) = es_fee_bps s"
  "es_approval_threshold (es_emit ev s) = es_approval_threshold s"
  "es_escrows (es_emit ev s) = es_escrows s" "es_disputes (es_emit ev s) = es_disputes s"
  "es_challenges (es_emit ev s) = es_challenges s" "es_escrow_seq (es_emit ev s) = es_escrow_seq s"
  "es_accrued_fees (es_emit ev s) = es_accrued_fees s"
  "es_events (es_emit ev s) = es_events s @ [ev]"
  by (simp_all add: es_emit_def)

lemma es_set_escrow_simps [simp]:
  "es_escrows (es_set_escrow i e s) = (es_escrows s)(i \<mapsto> e)"
  "es_escrow_seq (es_set_escrow i e s) = es_escrow_seq s"
  "es_events (es_set_escrow i e s) = es_events s"
  "es_accrued_fees (es_set_escrow i e s) = es_accrued_fees s"
  "es_admin (es_set_escrow i e s) = es_admin s"
  by (simp_all add: es_set_escrow_def)

lemma deposit_ok_frame [simp]:
  "deposit_ok (e\<lparr>ed_verified := v\<rparr>) = deposit_ok e"
  "deposit_ok (e\<lparr>ed_lock_until := l\<rparr>) = deposit_ok e"
  by (simp_all add: deposit_ok_def)

lemma case_ok_frame [simp]:
  "case_ok c d (Some (e\<lparr>ed_verified := v\<rparr>)) = case_ok c d (Some e)"
  "case_ok c d (Some (e\<lparr>ed_lock_until := l\<rparr>)) = case_ok c d (Some e)"
  by (simp_all add: case_ok_def)

lemma escrow_inv_put:
  assumes "escrow_inv s" "deposit_ok e" "case_ok (es_challenges s i) (es_disputes s i) (Some e)"
  shows "escrow_inv (es_set_escrow i e s)"
  using assms by (auto simp: escrow_inv_def es_set_escrow_def)

lemma escrow_inv_getD:
  assumes "escrow_inv s" "es_escrows s i = Some e"
  shows "deposit_ok e" "case_ok (es_challenges s i) (es_disputes s i) (Some e)"
  using assms(1) unfolding escrow_inv_def by (metis assms(2))+

lemma deposit_ok_amounts:
  assumes "deposit_ok e"
  shows "in_i128 (ed_amount e - ed_fee_total e)" "in_i128 (ed_amount e - ed_released_amount e)"
    "in_i128 (ed_amount e - ed_fee_total e - ed_released_amount e)"
    "in_i128 (ed_amount e - ed_released_amount e - ed_fee_total e)"
    "0 \<le> x \<Longrightarrow> x \<le> ed_amount e \<Longrightarrow> in_i128 x"
  using assms by (auto simp: deposit_ok_def in_i128_def i128_min_def i128_max_def)

lemma release_internal_ok:
  assumes "escrow_inv s" "release_escrow_internal env caller i amt b s = Inr (r, s')"
  shows "\<exists>e. es_escrows s i = Some e \<and> ed_status e = Pending \<and> r = amt \<and> 0 < amt
     \<and> amt \<le> ed_amount e - ed_fee_total e - ed_released_amount e
     \<and> s' = es_emit (EvReleased i amt (ed_released_amount e + amt)) (es_set_escrow i
       (e\<lparr>ed_released_amount := ed_released_amount e + amt,
          ed_status := (if ed_released_amount e + amt \<ge> ed_amount e - ed_fee_total e
            then Released else Pending)\<rparr>) s)"
proof -
  from assms(2) obtain e where e: "es_escrows s i = Some e"
    by (auto simp: release_escrow_internal_def)
  then have ok: "deposit_ok e" by (rule escrow_inv_getD [OF assms(1)])
  note am = deposit_ok_amounts [OF ok]
  have "\<And>x. ed_status e \<noteq> Released \<and> ed_status e \<noteq> Refunded \<and> ed_status e \<noteq> Challenged \<longleftrightarrow> ed_status e = Pending"
    by (cases "ed_status e") auto
  with assms(2) e am ok show ?thesis
    by (auto simp: release_escrow_internal_def deposit_ok_def split: if_splits)
qed


lemma release_internal_inv:
  assumes "escrow_inv s" "release_escrow_internal env caller i amt b s = Inr (r, s')"
  shows "escrow_inv s'"
proof -
  obtain e where e: "es_escrows s i = Some e" "ed_status e = Pending" "0 < amt"
      "amt \<le> ed_amount e - ed_fee_total e - ed_released_amount e"
    and s': "s' = es_emit (EvReleased i amt (ed_released_amount e + amt)) (es_set_escrow i
       (e\<lparr>ed_released_amount := ed_released_amount e + amt,
          ed_status := (if ed_released_amount e + amt \<ge> ed_amount e - ed_fee_total e
            then Released else Pending)\<rparr>) s)"
    using release_internal_ok [OF assms] by blast
  from e(2-4) escrow_inv_getD [OF assms(1) e(1)] show ?thesis
    unfolding s' escrow_inv_emit
    by (intro escrow_inv_put [OF assms(1)]) (auto simp: deposit_ok_def case_ok_def)
qed

lemma batch_loop_inv:
  "escrow_inv s \<Longrightarrow> batch_release_loop env c amt ids rel tot s = Inr (rel', tot', s')
     \<Longrightarrow> escrow_inv s'"
  by (induction env c amt ids rel tot s rule: batch_release_loop.induct)
    (auto dest: release_internal_inv)

lemma batch_release_inv:
  "escrow_inv s \<Longrightarrow> batch_release env c ids amt s = Inr (r, s') \<Longrightarrow> escrow_inv s'"
  by (auto simp: batch_release_def split: if_splits dest: batch_loop_inv)

lemma create_escrow_ok:
  assumes "create_escrow env d r b t amt m vc vr s = Inr (i, s')"
  shows "\<exists>fee lock e. fee = (amt * int (unwrap_or (es_fee_bps s) 0)) sdiv bps_denominator
     \<and> 0 < amt \<and> i = unwrap_or (es_escrow_seq s) 0
     \<and> lock = sat_u64 (timestamp env + unwrap_or (es_lock_period s (b, t)) default_lock_secs)
     \<and> in_i128 (unwrap_or (es_accrued_fees s) 0 + fee)
     \<and> e = \<lparr>ed_escrow_id = i, ed_depositor = d, ed_recipient = r, ed_bridge_id = b,
           ed_asset_type = t, ed_amount = amt, ed_fee_total = fee, ed_released_amount = 0,
           ed_lock_until = lock, ed_status = Pending, ed_metadata = m,
           ed_verification_contract = vc, ed_verification_ref = vr, ed_verified = False\<rparr>
     \<and> s' = es_emit (EvCreated i b t amt fee lock) (es_set_escrow i e
         (s\<lparr>es_escrow_seq := Some (sat_u64 (i + 1)),
            es_accrued_fees := Some (unwrap_or (es_accrued_fees s) 0 + fee)\<rparr>))"
  using assms by (auto simp: create_escrow_def next_id_def split: if_splits)

lemma create_escrow_inv:
  assumes inv: "escrow_inv s" and "in_i128 amt"
    and c: "create_escrow env d r b t amt m vc vr s = Inr (i, s')"
  shows "escrow_inv s'"
proof -
  obtain fee lock e where fee: "fee = (amt * int (unwrap_or (es_fee_bps s) 0)) sdiv bps_denominator"
    and amt: "0 < amt" and e: "ed_amount e = amt" "ed_fee_total e = fee" "ed_released_amount e = 0"
      "ed_status e = Pending"
    and s': "s' = es_emit (EvCreated i b t amt fee lock) (es_set_escrow i e
         (s\<lparr>es_escrow_seq := Some (sat_u64 (i + 1)),
            es_accrued_fees := Some (unwrap_or (es_accrued_fees s) 0 + fee)\<rparr>))"
    using create_escrow_ok [OF c] by (elim exE conjE) (rule that, simp_all)
  from inv have bps: "unwrap_or (es_fee_bps s) 0 \<le> 2000"
    by (simp add: escrow_inv_def)
  have "deposit_ok e"
    using fee_bound [OF amt bps] amt assms(2) by (simp add: deposit_ok_def e fee)
  moreover have "case_ok (es_challenges s i) (es_disputes s i) (es_escrows s i)"
    using inv by (simp add: escrow_inv_def)
  ultimately show ?thesis
    unfolding s' escrow_inv_emit
    by (intro escrow_inv_put) (use inv in \<open>auto simp: escrow_inv_def case_ok_def e\<close>)
qed

lemma resolve_challenge_inv:
  assumes inv: "escrow_inv s" and r: "resolve_challenge env a i ok s = Inr (b, s')"
  shows "escrow_inv s'"
proof -
  from r obtain e where e: "es_escrows s i = Some e" and ch: "ed_status e = Challenged"
    by (auto simp: resolve_challenge_def split: if_splits)
  define d where "d = load_dispute s i ok"
  have d: "dispute_ok d"
    using inv unfolding escrow_inv_def d_def dispute_ok_def load_dispute_def
    by (cases "es_disputes s i") auto
  note dep = escrow_inv_getD [OF inv e]
  show ?thesis
  proof (cases "dr_resolved d")
    case True
    with r e ch have "s' = s" by (auto simp: resolve_challenge_def d_def)
    with inv show ?thesis by simp
  next
    case False
    define d' where "d' = d\<lparr>dr_approvals := dr_approvals d @ [a],
       dr_resolved := length (dr_approvals d @ [a]) \<ge> dr_required_approvals d\<rparr>"
    define e' where "e' = (if dr_resolved d' \<and> dr_decision_release d
       then e\<lparr>ed_status := Pending\<rparr> else e)"
    define s1 where "s1 = s\<lparr>es_disputes := (es_disputes s)(i \<mapsto> d')\<rparr>"
    from False r e ch have new: "a \<notin> set (dr_approvals d)"
      and s': "s' = es_emit (EvChallengeResolved i (dr_decision_release d')
         (length (dr_approvals d @ [a])) (dr_required_approvals d') (dr_resolved d'))
       (es_set_escrow i e' s1)"
      unfolding resolve_challenge_def
      by (auto simp: d_def [symmetric] d'_def e'_def s1_def split: if_splits)
    from d False new have d': "dispute_ok d'"
      unfolding dispute_ok_def d'_def by simp linarith
    have e': "deposit_ok e'"
      using dep(1) ch by (auto simp: e'_def deposit_ok_def)
    have i: "case_ok (es_challenges s i) (Some d') (Some e')"
      using dep(2) ch by (auto simp: case_ok_def e'_def d'_def)
    show ?thesis
      unfolding s' escrow_inv_emit
      using inv d' e' i by (auto simp: escrow_inv_def es_set_escrow_def s1_def)
  qed
qed

lemma refund_ok:
  assumes inv: "escrow_inv s" and r: "refund_escrow env c i s = Inr (amt, s')"
  shows "\<exists>e. es_escrows s i = Some e \<and> (ed_status e = Pending \<or> ed_status e = Challenged)
     \<and> amt = ed_amount e - ed_released_amount e - ed_fee_total e \<and> 0 < amt
     \<and> s' = es_emit (EvRefunded i amt) (es_set_escrow i (e\<lparr>ed_status := Refunded\<rparr>) s)"
proof -
  from r obtain e where e: "es_escrows s i = Some e"
    by (auto simp: refund_escrow_def)
  then have ok: "deposit_ok e" by (rule escrow_inv_getD [OF inv])
  have "ed_status e \<noteq> Released \<and> ed_status e \<noteq> Refunded \<longleftrightarrow> ed_status e = Pending \<or> ed_status e = Challenged"
    by (cases "ed_status e") auto
  with r e deposit_ok_amounts [OF ok] show ?thesis
    by (auto simp: refund_escrow_def split: if_splits)
qed

lemma refund_inv:
  assumes inv: "escrow_inv s" and r: "refund_escrow env c i s = Inr (amt, s')"
  shows "escrow_inv s'"
proof -
  obtain e where e: "es_escrows s i = Some e" and amt: "0 < amt"
      "amt = ed_amount e - ed_released_amount e - ed_fee_total e"
    and s': "s' = es_emit (EvRefunded i amt) (es_set_escrow i (e\<lparr>ed_status := Refunded\<rparr>) s)"
    using refund_ok [OF assms] by blast
  from amt escrow_inv_getD [OF inv e] show ?thesis
    unfolding s' escrow_inv_emit
    by (intro escrow_inv_put [OF inv]) (auto simp: deposit_ok_def case_ok_def)
qed

lemma emergency_ok:
  assumes inv: "escrow_inv s" and r: "emergency_recover env a i rc amt s = Inr (u, s')"
  shows "\<exists>e. es_escrows s i = Some e \<and> 0 < amt \<and> amt \<le> ed_amount e - ed_released_amount e
     \<and> s' = es_emit (EvEmergencyRecovery i rc amt) (es_set_escrow i
         (e\<lparr>ed_released_amount := ed_released_amount e + amt,
            ed_status := (if ed_released_amount e + amt \<ge> ed_amount e - ed_fee_total e
              then Released else ed_status e)\<rparr>) s)"
proof -
  from r obtain e where e: "es_escrows s i = Some e"
    by (auto simp: emergency_recover_def split: if_splits)
  then have ok: "deposit_ok e" by (rule escrow_inv_getD [OF inv])
  with r e deposit_ok_amounts [OF ok] show ?thesis
    by (auto simp: emergency_recover_def deposit_ok_def split: if_splits)
qed

lemma emergency_inv:
  assumes inv: "escrow_inv s" and r: "emergency_recover env a i rc amt s = Inr (u, s')"
  shows "escrow_inv s'"
proof -
  obtain e where e: "es_escrows s i = Some e" and amt: "0 < amt" "amt \<le> ed_amount e - ed_released_amount e"
    and s': "s' = es_emit (EvEmergencyRecovery i rc amt) (es_set_escrow i
         (e\<lparr>ed_released_amount := ed_released_amount e + amt,
            ed_status := (if ed_released_amount e + amt \<ge> ed_amount e - ed_fee_total e
              then Released else ed_status e)\<rparr>) s)"
    using emergency_ok [OF assms] by blast
  from amt escrow_inv_getD [OF inv e] show ?thesis
    unfolding s' escrow_inv_emit
    by (intro escrow_inv_put [OF inv]) (auto simp: deposit_ok_def case_ok_def)
qed

lemma sync_inv: "escrow_inv s \<Longrightarrow> sync_verification env v i ok s = Inr (u, s') \<Longrightarrow> escrow_inv s'"
  by (auto simp: sync_verification_def escrow_inv_getD split: if_splits intro!: escrow_inv_put)

lemma extend_inv: "escrow_inv s \<Longrightarrow> extend_lock env a i x s = Inr (u, s') \<Longrightarrow> escrow_inv s'"
  by (auto simp: extend_lock_def escrow_inv_getD split: if_splits intro!: escrow_inv_put)

lemma challenge_inv:
  assumes inv: "escrow_inv s" and c: "challenge_escrow env ch i rs s = Inr (u, s')"
  shows "escrow_inv s'"
proof -
  define ci where "ci = \<lparr>ci_escrow_id = i, ci_challenger = ch, ci_reason = rs, ci_timestamp = timestamp env\<rparr>"
  from c obtain e where e: "es_escrows s i = Some e" "ed_status e = Pending"
      "es_challenges s i = None"
    and s': "s' = es_emit (EvChallenged i (timestamp env))
       (s\<lparr>es_escrows := (es_escrows s)(i \<mapsto> e\<lparr>ed_status := Challenged\<rparr>),
          es_challenges := (es_challenges s)(i \<mapsto> ci)\<rparr>)"
    by (auto simp: challenge_escrow_def es_set_escrow_def ci_def split: if_splits)
  note dep = escrow_inv_getD [OF inv e(1)]
  have no: "es_disputes s i = None"
    using dep(2) e(3) by (auto simp: case_ok_def)
  show ?thesis
    unfolding s' escrow_inv_emit
    using inv dep e no by (auto simp: escrow_inv_def deposit_ok_def case_ok_def)
qed

lemmas escrow_config_defs = set_lock_period_def set_fee_config_def set_approvers_def
  set_emergency_pause_def set_breaker_guardian_def trip_circuit_breaker_def
  escrow_reset_circuit_breaker_def collect_fees_def escrow_initialize_def

lemma escrow_config_inv:
  assumes "escrow_inv s"
  shows "escrow_initialize env a fc b ap th s = Inr (u, s') \<Longrightarrow> escrow_inv s'"
    and "set_lock_period env a br t l s = Inr (u, s') \<Longrightarrow> escrow_inv s'"
    and "set_fee_config env a fc b s = Inr (u, s') \<Longrightarrow> escrow_inv s'"
    and "set_approvers env a ap th s = Inr (u, s') \<Longrightarrow> escrow_inv s'"
    and "set_emergency_pause env a p s = Inr (u, s') \<Longrightarrow> escrow_inv s'"
    and "set_breaker_guardian env a g s = Inr (u, s') \<Longrightarrow> escrow_inv s'"
    and "trip_circuit_breaker env a r s = Inr (u, s') \<Longrightarrow> escrow_inv s'"
    and "escrow_reset_circuit_breaker env a s = Inr (u, s') \<Longrightarrow> escrow_inv s'"
    and "collect_fees env a amt s = Inr (x, s') \<Longrightarrow> escrow_inv s'"
  using assms by (auto simp: escrow_config_defs escrow_inv_def split: if_splits)

lemmas escrow_op_inv = escrow_config_inv create_escrow_inv resolve_challenge_inv refund_inv
  emergency_inv sync_inv extend_inv challenge_inv batch_release_inv
  release_internal_inv [where b = True, folded release_escrow_def]

lemma escrow_exec_inv: "escrow_inv s \<Longrightarrow> escrow_exec env c s = Inr s' \<Longrightarrow> escrow_inv s'"
  by (cases c) (auto dest: escrow_op_inv)

lemma escrow_start_inv: "escrow_start s \<Longrightarrow> escrow_inv s"
  by (auto simp: escrow_start_def escrow_initialize_def escrow_empty_def escrow_inv_def
      case_ok_def split: if_splits)

interpretation esc: contract_invariant escrow_exec escrow_start "\<lambda>_. True" escrow_inv
  by unfold_locales (auto intro: escrow_start_inv escrow_exec_inv)

section \<open>The ledger of published events\<close>

text \<open>What an event pays out of escrow \<open>i\<close>, and what it moves in or out of the contract.\<close>

fun paid_from :: "nat \<Rightarrow> escrow_event \<Rightarrow> int" where
  "paid_from i (EvReleased j amt _) = (if j = i then amt else 0)"
| "paid_from i (EvEmergencyRecovery j _ amt) = (if j = i then amt else 0)"
| "paid_from i _ = 0"

fun refunded_from :: "nat \<Rightarrow> escrow_event \<Rightarrow> int" where
  "refunded_from i (EvRefunded j amt) = (if j = i then amt else 0)"
| "refunded_from i _ = 0"

fun net_inflow :: "escrow_event \<Rightarrow> int" where
  "net_inflow (EvCreated _ _ _ amt _ _) = amt"
| "net_inflow (EvReleased _ amt _) = - amt"
| "net_inflow (EvEmergencyRecovery _ _ amt) = - amt"
| "net_inflow (EvRefunded _ amt) = - amt"
| "net_inflow (EvFeesCollected _ amt _) = - amt"
| "net_inflow _ = 0"

definition paid :: "nat \<Rightarrow> escrow_state \<Rightarrow> int" where
  "paid i s = sum_list (map (paid_from i) (es_events s))"

definition refunded :: "nat \<Rightarrow> escrow_state \<Rightarrow> int" where
  "refunded i s = sum_list (map (refunded_from i) (es_events s))"

definition holdings :: "escrow_state \<Rightarrow> int" where
  "holdings s = sum_list (map net_inflow (es_events s))"

lemma ledger_emit [simp]:
  "paid i (es_emit ev s) = paid i s + paid_from i ev"
  "refunded i (es_emit ev s) = refunded i s + refunded_from i ev"
  "holdings (es_emit ev s) = holdings s + net_inflow ev"
  by (simp_all add: paid_def refunded_def holdings_def)

lemma ledger_frame [simp]:
  "paid i (es_set_escrow j e s) = paid i s" "refunded i (es_set_escrow j e s) = refunded i s"
  "holdings (es_set_escrow j e s) = holdings s"
  by (simp_all add: paid_def refunded_def holdings_def)

lemma ledger_cong:
  "es_events s' = es_events s \<Longrightarrow> paid i s' = paid i s"
  "es_events s' = es_events s \<Longrightarrow> refunded i s' = refunded i s"
  "es_events s' = es_events s \<Longrightarrow> holdings s' = holdings s"
  by (simp_all add: paid_def refunded_def holdings_def)

definition escrow_seq :: "escrow_state \<Rightarrow> nat" where
  "escrow_seq s = unwrap_or (es_escrow_seq s) 0"

definition liability :: "escrow_deposit option \<Rightarrow> int" where
  "liability x = (case x of None \<Rightarrow> 0 | Some e \<Rightarrow>
     if ed_status e = Released \<or> ed_status e = Refunded then 0
     else ed_amount e - ed_fee_total e - ed_released_amount e)"

definition outstanding :: "escrow_state \<Rightarrow> int" where
  "outstanding s = (\<Sum>i<escrow_seq s. liability (es_escrows s i))"

definition entry_ok :: "escrow_state \<Rightarrow> nat \<Rightarrow> bool" where
  "entry_ok s i = (case es_escrows s i of
     None \<Rightarrow> paid i s = 0 \<and> refunded i s = 0
   | Some e \<Rightarrow> i < escrow_seq s \<and> paid i s = ed_released_amount e
       \<and> ed_released_amount e \<le> ed_amount e - ed_fee_total e
       \<and> refunded i s = (if ed_status e = Refunded
           then ed_amount e - ed_fee_total e - ed_released_amount e else 0))"

definition ledger_inv :: "escrow_state \<Rightarrow> bool" where
  "ledger_inv s \<longleftrightarrow> escrow_inv s \<and> 0 \<le> get_accrued_fees s \<and>
     (escrow_seq s < u64_max \<longrightarrow>
        (\<forall>i. entry_ok s i) \<and> holdings s = get_accrued_fees s + outstanding s)"

lemma sum_upd_liability:
  fixes n :: nat
  assumes "k < n"
  shows "(\<Sum>i<n. liability ((m(k \<mapsto> e)) i))
    = (\<Sum>i<n. liability (m i)) - liability (m k) + liability (Some e)"
proof -
  have k: "k \<in> {..<n}" using assms by simp
  have "(\<Sum>i<n. liability ((m(k \<mapsto> e)) i))
    = liability (Some e) + (\<Sum>i\<in>{..<n} - {k}. liability ((m(k \<mapsto> e)) i))"
    by (subst sum.remove [OF finite_lessThan [of n] k]) simp_all
  also have "(\<Sum>i\<in>{..<n} - {k}. liability ((m(k \<mapsto> e)) i)) = (\<Sum>i\<in>{..<n} - {k}. liability (m i))"
    by (rule sum.cong) auto
  also have "\<dots> = (\<Sum>i<n. liability (m i)) - liability (m k)"
    by (subst sum.remove [OF finite_lessThan [of n] k]) simp
  finally show ?thesis by simp
qed

text \<open>A write to one escrow that the event log accounts for keeps the ledger.\<close>

lemma ledger_put:
  assumes inv: "ledger_inv s" and s': "escrow_inv s'"
    and e: "es_escrows s i = Some e"
    and esc: "es_escrows s' = (es_escrows s)(i \<mapsto> e')"
    and frame: "es_escrow_seq s' = es_escrow_seq s" "es_accrued_fees s' = es_accrued_fees s"
    and ev: "es_events s' = es_events s @ [ev]"
    and other: "\<And>j. j \<noteq> i \<Longrightarrow> paid_from j ev = 0 \<and> refunded_from j ev = 0"
    and amt: "ed_amount e' = ed_amount e" "ed_fee_total e' = ed_fee_total e"
      "ed_released_amount e' = ed_released_amount e + paid_from i ev"
      "ed_released_amount e' \<le> ed_amount e - ed_fee_total e"
    and ref: "(if ed_status e' = Refunded then ed_amount e - ed_fee_total e - ed_released_amount e' else 0)
      = (if ed_status e = Refunded then ed_amount e - ed_fee_total e - ed_released_amount e else 0)
        + refunded_from i ev"
    and liab: "liability (Some e') = liability (Some e) + net_inflow ev"
  shows "ledger_inv s'"
proof -
  have seq: "escrow_seq s' = escrow_seq s" and acc: "get_accrued_fees s' = get_accrued_fees s"
    using frame by (simp_all add: escrow_seq_def get_accrued_fees_def)
  have p: "paid j s' = paid j s + paid_from j ev" "refunded j s' = refunded j s + refunded_from j ev"
    "holdings s' = holdings s + net_inflow ev" for j
    using ev by (simp_all add: paid_def refunded_def holdings_def)
  show ?thesis
  proof (cases "escrow_seq s < u64_max")
    case False
    with inv s' show ?thesis by (simp add: ledger_inv_def seq acc)
  next
    case True
    with inv have ok: "\<And>j. entry_ok s j" and h: "holdings s = get_accrued_fees s + outstanding s"
      by (simp_all add: ledger_inv_def)
    have "entry_ok s' j" for j
      using ok [of j] e amt ref other [of j]
      by (cases "j = i") (auto simp: entry_ok_def esc p seq split: option.splits)
    moreover have "holdings s' = get_accrued_fees s' + outstanding s'"
    proof -
      have "i < escrow_seq s" using ok [of i] e by (simp add: entry_ok_def)
      then have "outstanding s' = outstanding s - liability (Some e) + liability (Some e')"
        using e by (simp add: outstanding_def seq esc sum_upd_liability del: fun_upd_apply)
      then show ?thesis using h liab by (simp add: p acc)
    qed
    ultimately show ?thesis using inv s' by (simp add: ledger_inv_def seq acc)
  qed
qed

text \<open>A write that touches neither an escrow, a counter nor the amounts.\<close>

lemma ledger_frame_inv:
  assumes "ledger_inv s" "escrow_inv s'" "es_escrows s' = es_escrows s"
    "es_escrow_seq s' = es_escrow_seq s" "es_accrued_fees s' = es_accrued_fees s"
    "es_events s' = es_events s \<or> (\<exists>ev. es_events s' = es_events s @ [ev] \<and> net_inflow ev = 0
       \<and> (\<forall>i. paid_from i ev = 0 \<and> refunded_from i ev = 0))"
  shows "ledger_inv s'"
proof -
  have p: "paid j s' = paid j s" "refunded j s' = refunded j s" "holdings s' = holdings s" for j
    using assms(6) by (auto simp: paid_def refunded_def holdings_def)
  have "escrow_seq s' = escrow_seq s" "get_accrued_fees s' = get_accrued_fees s"
    "outstanding s' = outstanding s"
    using assms(3-5) by (simp_all add: escrow_seq_def get_accrued_fees_def outstanding_def)
  with assms(3) p have "entry_ok s' i = entry_ok s i" for i
    by (simp add: entry_ok_def split: option.split)
  with assms(1-3) p \<open>escrow_seq s' = escrow_seq s\<close> \<open>get_accrued_fees s' = get_accrued_fees s\<close>
    \<open>outstanding s' = outstanding s\<close>
  show ?thesis by (simp add: ledger_inv_def)
qed

lemma release_internal_ledger:
  assumes l: "ledger_inv s" and r: "release_escrow_internal env c i amt b s = Inr (x, s')"
  shows "ledger_inv s'"
proof -
  have inv: "escrow_inv s" using l by (simp add: ledger_inv_def)
  obtain e where e: "es_escrows s i = Some e" "ed_status e = Pending" "0 < amt"
      "amt \<le> ed_amount e - ed_fee_total e - ed_released_amount e"
    and s': "s' = es_emit (EvReleased i amt (ed_released_amount e + amt)) (es_set_escrow i
       (e\<lparr>ed_released_amount := ed_released_amount e + amt,
          ed_status := (if ed_released_amount e + amt \<ge> ed_amount e - ed_fee_total e
            then Released else Pending)\<rparr>) s)"
    using release_internal_ok [OF inv r] by blast
  show ?thesis
    by (rule ledger_put [OF l release_internal_inv [OF inv r] e(1), where e' = "e\<lparr>
          ed_released_amount := ed_released_amount e + amt,
          ed_status := (if ed_released_amount e + amt \<ge> ed_amount e - ed_fee_total e
            then Released else Pending)\<rparr>" and ev = "EvReleased i amt (ed_released_amount e + amt)"])
      (use e in \<open>auto simp: s' liability_def es_emit_def es_set_escrow_def\<close>)
qed

lemma batch_loop_ledger:
  "ledger_inv s \<Longrightarrow> batch_release_loop env c amt ids rel tot s = Inr (rel', tot', s')
     \<Longrightarrow> ledger_inv s'"
  by (induction env c amt ids rel tot s rule: batch_release_loop.induct)
    (auto dest: release_internal_ledger)

lemma batch_release_ledger:
  assumes l: "ledger_inv s" and b: "batch_release env c ids amt s = Inr (r, s')"
  shows "ledger_inv s'"
proof (cases "ids = []")
  case True
  with b l show ?thesis by (simp add: batch_release_def)
next
  case False
  with b obtain tot s1 where loop: "batch_release_loop env c amt ids [] 0 s = Inr (r, tot, s1)"
    and s': "s' = es_emit (EvBatchReleased c (length ids) tot) s1"
    by (auto simp: batch_release_def)
  have "ledger_inv s1" by (rule batch_loop_ledger [OF l loop])
  then show ?thesis
    by (rule ledger_frame_inv) (use \<open>ledger_inv s1\<close> in
      \<open>auto simp: s' ledger_inv_def es_emit_def escrow_inv_def\<close>)
qed

lemma refund_ledger:
  assumes l: "ledger_inv s" and r: "refund_escrow env c i s = Inr (amt, s')"
  shows "ledger_inv s'"
proof -
  have inv: "escrow_inv s" using l by (simp add: ledger_inv_def)
  obtain e where e: "es_escrows s i = Some e" "ed_status e = Pending \<or> ed_status e = Challenged"
      "0 < amt" "amt = ed_amount e - ed_released_amount e - ed_fee_total e"
    and s': "s' = es_emit (EvRefunded i amt) (es_set_escrow i (e\<lparr>ed_status := Refunded\<rparr>) s)"
    using refund_ok [OF inv r] by blast
  show ?thesis
    by (rule ledger_put [OF l refund_inv [OF inv r] e(1),
          where e' = "e\<lparr>ed_status := Refunded\<rparr>" and ev = "EvRefunded i amt"])
      (use e in \<open>auto simp: s' liability_def es_emit_def es_set_escrow_def\<close>)
qed

lemma resolve_ok:
  assumes "resolve_challenge env a i ok s = Inr (b, s')"
  shows "\<exists>e. es_escrows s i = Some e \<and> ed_status e = Challenged \<and> (s' = s \<or>
    (\<exists>d st ev. s' = es_emit ev (es_set_escrow i (e\<lparr>ed_status := st\<rparr>)
        (s\<lparr>es_disputes := (es_disputes s)(i \<mapsto> d)\<rparr>))
      \<and> (st = Pending \<or> st = Challenged) \<and> net_inflow ev = 0
      \<and> (\<forall>j. paid_from j ev = 0 \<and> refunded_from j ev = 0)))"
proof -
  from assms obtain e where e: "es_escrows s i = Some e" "ed_status e = Challenged"
    by (auto simp: resolve_challenge_def split: if_splits)
  then have same: "e = e\<lparr>ed_status := Challenged\<rparr>" by simp
  show ?thesis
  proof (cases "s' = s")
    case True
    with e show ?thesis by blast
  next
    case False
    let ?d = "load_dispute s i ok"
    let ?r = "dr_required_approvals ?d \<le> length (dr_approvals ?d @ [a])"
    let ?d' = "?d\<lparr>dr_approvals := dr_approvals ?d @ [a], dr_resolved := ?r\<rparr>"
    let ?st = "if ?r \<and> dr_decision_release ?d then Pending else Challenged"
    have "s' = es_emit (EvChallengeResolved i (dr_decision_release ?d)
        (length (dr_approvals ?d @ [a])) (dr_required_approvals ?d) ?r)
      (es_set_escrow i (e\<lparr>ed_status := ?st\<rparr>) (s\<lparr>es_disputes := (es_disputes s)(i \<mapsto> ?d')\<rparr>))"
      using assms e False by (auto simp: resolve_challenge_def same [symmetric] split: if_splits)
    then have "\<exists>d st ev. s' = es_emit ev (es_set_escrow i (e\<lparr>ed_status := st\<rparr>)
        (s\<lparr>es_disputes := (es_disputes s)(i \<mapsto> d)\<rparr>))
      \<and> (st = Pending \<or> st = Challenged) \<and> net_inflow ev = 0
      \<and> (\<forall>j. paid_from j ev = 0 \<and> refunded_from j ev = 0)"
      by (intro exI conjI, assumption) auto
    with e show ?thesis by blast
  qed
qed

lemma resolve_ledger:
  assumes l: "ledger_inv s" and r: "resolve_challenge env a i ok s = Inr (b, s')"
  shows "ledger_inv s'"
proof -
  have inv: "escrow_inv s" using l by (simp add: ledger_inv_def)
  obtain e where e: "es_escrows s i = Some e" "ed_status e = Challenged"
    and alt: "s' = s \<or> (\<exists>d st ev. s' = es_emit ev (es_set_escrow i (e\<lparr>ed_status := st\<rparr>)
        (s\<lparr>es_disputes := (es_disputes s)(i \<mapsto> d)\<rparr>))
      \<and> (st = Pending \<or> st = Challenged) \<and> net_inflow ev = 0
      \<and> (\<forall>j. paid_from j ev = 0 \<and> refunded_from j ev = 0))"
    using resolve_ok [OF r] by blast
  have ok: "ed_released_amount e \<le> ed_amount e - ed_fee_total e"
    using escrow_inv_getD(1) [OF inv e(1)] e(2) by (simp add: deposit_ok_def)
  show ?thesis
  proof (cases "s' = s")
    case False
    with alt obtain d st ev where "s' = es_emit ev (es_set_escrow i (e\<lparr>ed_status := st\<rparr>)
        (s\<lparr>es_disputes := (es_disputes s)(i \<mapsto> d)\<rparr>))" "net_inflow ev = 0"
      "\<forall>j. paid_from j ev = 0 \<and> refunded_from j ev = 0" "st = Pending \<or> st = Challenged"
      by blast
    then show ?thesis
      by (intro ledger_put [OF l resolve_challenge_inv [OF inv r] e(1),
            where e' = "e\<lparr>ed_status := st\<rparr>" and ev = ev])
        (use e ok in \<open>auto simp: liability_def es_emit_def es_set_escrow_def\<close>)
  qed (use l in simp)
qed


lemma create_ledger:
  assumes l: "ledger_inv s" and "in_i128 amt"
    and c: "create_escrow env d r b t amt m vc vr s = Inr (i, s')"
  shows "ledger_inv s'"
proof -
  have inv: "escrow_inv s" using l by (simp add: ledger_inv_def)
  have inv': "escrow_inv s'" by (rule create_escrow_inv [OF inv assms(2) c])
  obtain fee lock e where fee: "fee = (amt * int (unwrap_or (es_fee_bps s) 0)) sdiv bps_denominator"
    and amt: "0 < amt" and e: "ed_amount e = amt" "ed_fee_total e = fee" "ed_released_amount e = 0"
      "ed_status e = Pending" and i: "i = escrow_seq s"
    and s': "s' = es_emit (EvCreated i b t amt fee lock) (es_set_escrow i e
         (s\<lparr>es_escrow_seq := Some (sat_u64 (i + 1)),
            es_accrued_fees := Some (get_accrued_fees s + fee)\<rparr>))"
    using create_escrow_ok [OF c]
    by (elim exE conjE) (rule that, simp_all add: escrow_seq_def get_accrued_fees_def)
  have bps: "unwrap_or (es_fee_bps s) 0 \<le> 2000" using inv by (simp add: escrow_inv_def)
  have fee': "0 \<le> fee" "5 * fee \<le> amt" using fee_bound [OF amt bps] by (simp_all add: fee)
  have acc: "get_accrued_fees s' = get_accrued_fees s + fee"
    by (simp add: s' get_accrued_fees_def es_emit_def es_set_escrow_def)
  have seq: "escrow_seq s' = sat_u64 (i + 1)" by (simp add: s' escrow_seq_def)
  show ?thesis
  proof (cases "escrow_seq s' < u64_max")
    case False
    with l inv' fee' acc show ?thesis by (simp add: ledger_inv_def)
  next
    case True
    then have lt: "escrow_seq s < u64_max" and seq': "escrow_seq s' = Suc (escrow_seq s)"
      using seq i by (auto simp: sat_u64_def)
    with l have ok: "\<And>j. entry_ok s j" and h: "holdings s = get_accrued_fees s + outstanding s"
      by (simp_all add: ledger_inv_def)
    have none: "es_escrows s (escrow_seq s) = None"
      using ok [of "escrow_seq s"] by (auto simp: entry_ok_def split: option.splits)
    have p: "paid j s' = paid j s" "refunded j s' = refunded j s" "holdings s' = holdings s + amt" for j
      by (simp_all add: s' paid_def refunded_def holdings_def)
    have esc: "es_escrows s' = (es_escrows s)(i \<mapsto> e)" by (simp add: s')
    have "entry_ok s' j" for j
    proof (cases "j = i")
      case True
      with ok [of j] none e fee' show ?thesis
        by (simp add: entry_ok_def esc p seq' i)
    next
      case False
      with ok [of j] show ?thesis
        by (auto simp: entry_ok_def esc p seq' split: option.splits)
    qed
    moreover have "outstanding s' = outstanding s + (amt - fee)"
      by (simp add: outstanding_def seq' esc i liability_def e)
    ultimately show ?thesis using l inv' fee' h by (simp add: ledger_inv_def acc p)
  qed
qed

lemma collect_ledger:
  assumes l: "ledger_inv s" and c: "collect_fees env cl amt s = Inr (x, s')"
  shows "ledger_inv s'"
proof -
  have inv': "escrow_inv s'"
    by (rule escrow_config_inv(9) [OF _ c]) (use l in \<open>simp add: ledger_inv_def\<close>)
  from c have amt: "0 < amt" "amt \<le> get_accrued_fees s"
    and s': "s' = es_emit (EvFeesCollected cl amt (get_accrued_fees s - amt))
         (s\<lparr>es_accrued_fees := Some (get_accrued_fees s - amt)\<rparr>)"
    by (auto simp: collect_fees_def get_accrued_fees_def split: if_splits)
  have p: "paid j s' = paid j s" "refunded j s' = refunded j s" "holdings s' = holdings s - amt" for j
    by (simp_all add: s' paid_def refunded_def holdings_def)
  have fr: "es_escrows s' = es_escrows s" "escrow_seq s' = escrow_seq s"
    "get_accrued_fees s' = get_accrued_fees s - amt"
    by (simp_all add: s' es_emit_def escrow_seq_def get_accrued_fees_def)
  have "entry_ok s' j = entry_ok s j" for j
    by (simp add: entry_ok_def p fr split: option.split)
  then show ?thesis
    using l inv' amt p fr by (simp add: ledger_inv_def outstanding_def)
qed

lemma sync_ledger:
  assumes l: "ledger_inv s" and c: "sync_verification env v i ok s = Inr (u, s')"
  shows "ledger_inv s'"
proof -
  have inv: "escrow_inv s" using l by (simp add: ledger_inv_def)
  from c obtain e where e: "es_escrows s i = Some e" "ed_status e \<noteq> Released"
    and s': "s' = es_emit (EvVerificationSynced i ok) (es_set_escrow i (e\<lparr>ed_verified := ok\<rparr>) s)"
    by (auto simp: sync_verification_def split: if_splits)
  show ?thesis
    by (rule ledger_put [OF l sync_inv [OF inv c] e(1), where e' = "e\<lparr>ed_verified := ok\<rparr>"
          and ev = "EvVerificationSynced i ok"])
      (use e escrow_inv_getD(1) [OF inv e(1)] in
        \<open>auto simp: s' liability_def es_emit_def es_set_escrow_def deposit_ok_def\<close>)
qed

lemma extend_ledger:
  assumes l: "ledger_inv s" and c: "extend_lock env a i x s = Inr (u, s')"
  shows "ledger_inv s'"
proof -
  have inv: "escrow_inv s" using l by (simp add: ledger_inv_def)
  from c obtain e n where e: "es_escrows s i = Some e" "ed_status e \<noteq> Released"
    and s': "s' = es_emit (EvExtended i n) (es_set_escrow i (e\<lparr>ed_lock_until := n\<rparr>) s)"
    by (auto simp: extend_lock_def split: if_splits)
  show ?thesis
    by (rule ledger_put [OF l extend_inv [OF inv c] e(1), where e' = "e\<lparr>ed_lock_until := n\<rparr>"
          and ev = "EvExtended i n"])
      (use e escrow_inv_getD(1) [OF inv e(1)] in
        \<open>auto simp: s' liability_def es_emit_def es_set_escrow_def deposit_ok_def\<close>)
qed

lemma challenge_ledger:
  assumes l: "ledger_inv s" and c: "challenge_escrow env ch i rs s = Inr (u, s')"
  shows "ledger_inv s'"
proof -
  have inv: "escrow_inv s" using l by (simp add: ledger_inv_def)
  define ci where "ci = \<lparr>ci_escrow_id = i, ci_challenger = ch, ci_reason = rs, ci_timestamp = timestamp env\<rparr>"
  from c obtain e where e: "es_escrows s i = Some e" "ed_status e = Pending"
    and s': "s' = es_emit (EvChallenged i (timestamp env))
       (s\<lparr>es_escrows := (es_escrows s)(i \<mapsto> e\<lparr>ed_status := Challenged\<rparr>),
          es_challenges := (es_challenges s)(i \<mapsto> ci)\<rparr>)"
    by (auto simp: challenge_escrow_def es_set_escrow_def ci_def split: if_splits)
  show ?thesis
    by (rule ledger_put [OF l challenge_inv [OF inv c] e(1), where e' = "e\<lparr>ed_status := Challenged\<rparr>"
          and ev = "EvChallenged i (timestamp env)"])
      (use e escrow_inv_getD(1) [OF inv e(1)] in
        \<open>auto simp: s' liability_def es_emit_def es_set_escrow_def deposit_ok_def\<close>)
qed

lemma escrow_config_ledger:
  assumes "ledger_inv s"
  shows "escrow_initialize env a fc b ap th s = Inr (u, s') \<Longrightarrow> ledger_inv s'"
    and "set_lock_period env a br t l s = Inr (u, s') \<Longrightarrow> ledger_inv s'"
    and "set_fee_config env a fc b s = Inr (u, s') \<Longrightarrow> ledger_inv s'"
    and "set_approvers env a ap th s = Inr (u, s') \<Longrightarrow> ledger_inv s'"
    and "set_emergency_pause env a p s = Inr (u, s') \<Longrightarrow> ledger_inv s'"
    and "set_breaker_guardian env a g s = Inr (u, s') \<Longrightarrow> ledger_inv s'"
    and "trip_circuit_breaker env a r s = Inr (u, s') \<Longrightarrow> ledger_inv s'"
    and "escrow_reset_circuit_breaker env a s = Inr (u, s') \<Longrightarrow> ledger_inv s'"
proof -
  have inv: "escrow_inv s" using assms by (simp add: ledger_inv_def)
  note frame = ledger_frame_inv [OF assms escrow_config_inv(2) [OF inv]]
    ledger_frame_inv [OF assms escrow_config_inv(3) [OF inv]]
    ledger_frame_inv [OF assms escrow_config_inv(4) [OF inv]]
    ledger_frame_inv [OF assms escrow_config_inv(5) [OF inv]]
    ledger_frame_inv [OF assms escrow_config_inv(6) [OF inv]]
    ledger_frame_inv [OF assms escrow_config_inv(7) [OF inv]]
    ledger_frame_inv [OF assms escrow_config_inv(8) [OF inv]]
  show "escrow_initialize env a fc b ap th s = Inr (u, s') \<Longrightarrow> ledger_inv s'"
    using inv by (auto simp: escrow_initialize_def escrow_inv_def)
  show "set_lock_period env a br t l s = Inr (u, s') \<Longrightarrow> ledger_inv s'"
    by (rule frame(1), assumption) (auto simp: set_lock_period_def es_emit_def split: if_splits)
  show "set_fee_config env a fc b s = Inr (u, s') \<Longrightarrow> ledger_inv s'"
    by (rule frame(2), assumption) (auto simp: set_fee_config_def split: if_splits)
  show "set_approvers env a ap th s = Inr (u, s') \<Longrightarrow> ledger_inv s'"
    by (rule frame(3), assumption) (auto simp: set_approvers_def split: if_splits)
  show "set_emergency_pause env a p s = Inr (u, s') \<Longrightarrow> ledger_inv s'"
    by (rule frame(4), assumption) (auto simp: set_emergency_pause_def)
  show "set_breaker_guardian env a g s = Inr (u, s') \<Longrightarrow> ledger_inv s'"
    by (rule frame(5), assumption) (auto simp: set_breaker_guardian_def)
  show "trip_circuit_breaker env a r s = Inr (u, s') \<Longrightarrow> ledger_inv s'"
    by (rule frame(6), assumption) (auto simp: trip_circuit_breaker_def es_emit_def)
  show "escrow_reset_circuit_breaker env a s = Inr (u, s') \<Longrightarrow> ledger_inv s'"
    by (rule frame(7), assumption) (auto simp: escrow_reset_circuit_breaker_def es_emit_def)
qed

fun ordinary_call :: "escrow_call \<Rightarrow> bool" where
  "ordinary_call (EmergencyRecover _ _ _ _) = False"
| "ordinary_call _ = True"

lemmas escrow_op_ledger = escrow_config_ledger create_ledger collect_ledger resolve_ledger
  refund_ledger sync_ledger extend_ledger challenge_ledger batch_release_ledger
  release_internal_ledger [where b = True, folded release_escrow_def]

lemma escrow_exec_ledger:
  "ledger_inv s \<Longrightarrow> ordinary_call c \<Longrightarrow> escrow_exec env c s = Inr s' \<Longrightarrow> ledger_inv s'"
  by (cases c) (auto dest: escrow_op_ledger)

lemma escrow_start_ledger: "escrow_start s \<Longrightarrow> ledger_inv s"
  by (frule escrow_start_inv)
    (auto simp: escrow_start_def escrow_initialize_def escrow_empty_def ledger_inv_def entry_ok_def
      paid_def refunded_def holdings_def outstanding_def get_accrued_fees_def escrow_seq_def
      split: if_splits)

interpretation ledger: contract_invariant escrow_exec escrow_start ordinary_call ledger_inv
  by unfold_locales (auto intro: escrow_start_ledger escrow_exec_ledger)

section \<open>Deposits keep their terms\<close>

text \<open>What no call changes once an escrow exists: its parties, amount and fee; payments only
  grow, and a released escrow stays released. New escrows never take an id in use.\<close>

definition same_terms :: "escrow_deposit \<Rightarrow> escrow_deposit \<Rightarrow> bool" where
  "same_terms e e' \<longleftrightarrow> ed_depositor e' = ed_depositor e \<and> ed_recipient e' = ed_recipient e
     \<and> ed_amount e' = ed_amount e \<and> ed_fee_total e' = ed_fee_total e
     \<and> ed_verification_contract e' = ed_verification_contract e
     \<and> ed_lock_until e \<le> ed_lock_until e'
     \<and> ed_released_amount e \<le> ed_released_amount e'
     \<and> (ed_status e = Released \<longrightarrow> ed_status e' = Released)"

definition numbered :: "escrow_state \<Rightarrow> bool" where
  "numbered s \<longleftrightarrow> escrow_inv s \<and> escrow_seq s \<le> u64_max
     \<and> (\<forall>i. escrow_seq s \<le> i \<and> i < u64_max \<longrightarrow> es_escrows s i = None)
     \<and> (\<forall>i e. es_escrows s i = Some e \<longrightarrow> ed_lock_until e \<le> u64_max)"

definition terms_kept :: "escrow_state \<Rightarrow> escrow_state \<Rightarrow> bool" where
  "terms_kept s s' \<longleftrightarrow> escrow_seq s \<le> escrow_seq s' \<and> es_admin s' = es_admin s
     \<and> (\<forall>i < u64_max. \<forall>e. es_escrows s i = Some e \<longrightarrow>
          (\<exists>e'. es_escrows s' i = Some e' \<and> same_terms e e'))"

lemma same_terms_refl [simp]: "same_terms e e"
  by (simp add: same_terms_def)

lemma same_terms_trans: "same_terms e f \<Longrightarrow> same_terms f g \<Longrightarrow> same_terms e g"
  by (simp add: same_terms_def)

lemma terms_kept_refl: "terms_kept s s"
  by (simp add: terms_kept_def)

lemma terms_kept_trans: "terms_kept s t \<Longrightarrow> terms_kept t u \<Longrightarrow> terms_kept s u"
  unfolding terms_kept_def by (metis le_trans same_terms_trans)

lemma progress_put:
  assumes n: "numbered s" and e: "es_escrows s i = Some e" and t: "same_terms e e'"
    and l: "ed_lock_until e' \<le> u64_max"
    and esc: "es_escrows s' = (es_escrows s)(i \<mapsto> e')"
    and fr: "es_escrow_seq s' = es_escrow_seq s" "es_admin s' = es_admin s" and inv: "escrow_inv s'"
  shows "numbered s' \<and> terms_kept s s'"
proof -
  have seq: "escrow_seq s' = escrow_seq s" using fr(1) by (simp add: escrow_seq_def)
  show ?thesis
    using n e t l inv unfolding numbered_def terms_kept_def
    by (auto simp: seq esc fr(2))
qed

lemma progress_frame:
  assumes n: "numbered s" and esc: "es_escrows s' = es_escrows s"
    and fr: "es_escrow_seq s' = es_escrow_seq s" "es_admin s' = es_admin s" and inv: "escrow_inv s'"
  shows "numbered s' \<and> terms_kept s s'"
  using assms by (simp add: numbered_def terms_kept_def escrow_seq_def)

lemma numberedD:
  assumes "numbered s"
  shows "escrow_inv s" "es_escrows s i = Some e \<Longrightarrow> ed_lock_until e \<le> u64_max"
  using assms by (auto simp: numbered_def)

lemma release_internal_progress:
  assumes n: "numbered s" and r: "release_escrow_internal env c i amt b s = Inr (x, s')"
  shows "numbered s' \<and> terms_kept s s'"
proof -
  note inv = numberedD [OF n]
  obtain e where e: "es_escrows s i = Some e" "ed_status e = Pending" "0 < amt"
    and s': "s' = es_emit (EvReleased i amt (ed_released_amount e + amt)) (es_set_escrow i
       (e\<lparr>ed_released_amount := ed_released_amount e + amt,
          ed_status := (if ed_released_amount e + amt \<ge> ed_amount e - ed_fee_total e
            then Released else Pending)\<rparr>) s)"
    using release_internal_ok [OF inv(1) r] by blast
  show ?thesis
    by (rule progress_put [OF n e(1) _ _ _ _ _ release_internal_inv [OF inv(1) r]])
      (use e inv(2) [OF e(1)] in \<open>simp_all add: s' same_terms_def\<close>)
qed

lemma batch_loop_progress:
  "numbered s \<Longrightarrow> batch_release_loop env c amt ids rel tot s = Inr (rel', tot', s')
     \<Longrightarrow> numbered s' \<and> terms_kept s s'"
proof (induction ids arbitrary: rel tot s)
  case (Cons i ids)
  then obtain x s1 where r: "release_escrow_internal env c i amt False s = Inr (x, s1)"
    and rest: "batch_release_loop env c amt ids (rel @ [x]) (sat_i128 (tot + x)) s1
       = Inr (rel', tot', s')"
    by auto
  from release_internal_progress [OF Cons.prems(1) r] Cons.IH [OF _ rest]
  show ?case by (blast intro: terms_kept_trans)
qed (simp add: terms_kept_refl)

lemma batch_release_progress:
  assumes n: "numbered s" and b: "batch_release env c ids amt s = Inr (r, s')"
  shows "numbered s' \<and> terms_kept s s'"
proof (cases "ids = []")
  case False
  with b obtain tot s1 where loop: "batch_release_loop env c amt ids [] 0 s = Inr (r, tot, s1)"
    and s': "s' = es_emit (EvBatchReleased c (length ids) tot) s1"
    by (auto simp: batch_release_def)
  from batch_loop_progress [OF n loop]
  show ?thesis unfolding s' by (simp add: numbered_def terms_kept_def escrow_seq_def)
qed (use n b in \<open>simp add: batch_release_def terms_kept_refl\<close>)

lemma create_progress:
  assumes n: "numbered s" and amt: "in_i128 amt"
    and c: "create_escrow env d r b t amt m vc vr s = Inr (i, s')"
  shows "numbered s' \<and> terms_kept s s'"
proof -
  note inv = numberedD [OF n]
  obtain e ev ac where i: "i = escrow_seq s" and l: "ed_lock_until e \<le> u64_max"
    and s': "s' = es_emit ev (es_set_escrow i e
         (s\<lparr>es_escrow_seq := Some (sat_u64 (i + 1)), es_accrued_fees := Some ac\<rparr>))"
    using create_escrow_ok [OF c] by (elim exE conjE) (rule that, auto simp: escrow_seq_def)
  have inv': "escrow_inv s'" by (rule create_escrow_inv [OF inv(1) amt c])
  have seq: "escrow_seq s' = sat_u64 (escrow_seq s + 1)" by (simp add: s' i escrow_seq_def)
  have esc: "es_escrows s' = (es_escrows s)(escrow_seq s \<mapsto> e)" by (simp add: s' i)
  have adm: "es_admin s' = es_admin s" by (simp add: s')
  show ?thesis
    using n inv' l unfolding numbered_def terms_kept_def
    by (auto simp: esc adm seq sat_u64_def less_Suc_eq)
qed

lemma refund_progress:
  assumes n: "numbered s" and r: "refund_escrow env c i s = Inr (amt, s')"
  shows "numbered s' \<and> terms_kept s s'"
proof -
  note inv = numberedD [OF n]
  obtain e where e: "es_escrows s i = Some e" "ed_status e = Pending \<or> ed_status e = Challenged"
    and s': "s' = es_emit (EvRefunded i amt) (es_set_escrow i (e\<lparr>ed_status := Refunded\<rparr>) s)"
    using refund_ok [OF inv(1) r] by blast
  show ?thesis
    by (rule progress_put [OF n e(1) _ _ _ _ _ refund_inv [OF inv(1) r]])
      (use e inv(2) [OF e(1)] in \<open>auto simp: s' same_terms_def\<close>)
qed

lemma emergency_progress:
  assumes n: "numbered s" and r: "emergency_recover env a i rc amt s = Inr (u, s')"
  shows "numbered s' \<and> terms_kept s s'"
proof -
  note inv = numberedD [OF n]
  obtain e where e: "es_escrows s i = Some e" "0 < amt"
    and s': "s' = es_emit (EvEmergencyRecovery i rc amt) (es_set_escrow i
         (e\<lparr>ed_released_amount := ed_released_amount e + amt,
            ed_status := (if ed_released_amount e + amt \<ge> ed_amount e - ed_fee_total e
              then Released else ed_status e)\<rparr>) s)"
    using emergency_ok [OF inv(1) r] by blast
  show ?thesis
    by (rule progress_put [OF n e(1) _ _ _ _ _ emergency_inv [OF inv(1) r]])
      (use e inv(2) [OF e(1)] in \<open>auto simp: s' same_terms_def\<close>)
qed

lemma sync_progress:
  assumes n: "numbered s" and c: "sync_verification env v i ok s = Inr (u, s')"
  shows "numbered s' \<and> terms_kept s s'"
proof -
  note inv = numberedD [OF n]
  from c obtain e where e: "es_escrows s i = Some e"
    and s': "s' = es_emit (EvVerificationSynced i ok) (es_set_escrow i (e\<lparr>ed_verified := ok\<rparr>) s)"
    by (auto simp: sync_verification_def split: if_splits)
  show ?thesis
    by (rule progress_put [OF n e(1) _ _ _ _ _ sync_inv [OF inv(1) c]])
      (use e inv(2) [OF e(1)] in \<open>auto simp: s' same_terms_def\<close>)
qed

lemma extend_progress:
  assumes n: "numbered s" and c: "extend_lock env a i x s = Inr (u, s')"
  shows "numbered s' \<and> terms_kept s s'"
proof -
  note inv = numberedD [OF n]
  from c obtain e where e: "es_escrows s i = Some e"
    and s': "s' = es_emit (EvExtended i (sat_u64 (ed_lock_until e + x)))
      (es_set_escrow i (e\<lparr>ed_lock_until := sat_u64 (ed_lock_until e + x)\<rparr>) s)"
    by (auto simp: extend_lock_def split: if_splits)
  show ?thesis
    by (rule progress_put [OF n e(1) _ _ _ _ _ extend_inv [OF inv(1) c]])
      (use e inv(2) [OF e(1)] in \<open>auto simp: s' same_terms_def sat_u64_def\<close>)
qed

lemma challenge_progress:
  assumes n: "numbered s" and c: "challenge_escrow env ch i rs s = Inr (u, s')"
  shows "numbered s' \<and> terms_kept s s'"
proof -
  note inv = numberedD [OF n]
  from c obtain e ci where e: "es_escrows s i = Some e" "ed_status e = Pending"
    and s': "s' = es_emit (EvChallenged i (timestamp env))
       (s\<lparr>es_escrows := (es_escrows s)(i \<mapsto> e\<lparr>ed_status := Challenged\<rparr>),
          es_challenges := (es_challenges s)(i \<mapsto> ci)\<rparr>)"
    by (auto simp: challenge_escrow_def es_set_escrow_def split: if_splits)
  show ?thesis
    by (rule progress_put [OF n e(1) _ _ _ _ _ challenge_inv [OF inv(1) c]])
      (use e inv(2) [OF e(1)] in \<open>auto simp: s' same_terms_def es_emit_def\<close>)
qed

lemma resolve_progress:
  assumes n: "numbered s" and r: "resolve_challenge env a i ok s = Inr (b, s')"
  shows "numbered s' \<and> terms_kept s s'"
proof -
  note inv = numberedD [OF n]
  obtain e where e: "es_escrows s i = Some e" "ed_status e = Challenged"
    and alt: "s' = s \<or> (\<exists>d st ev. s' = es_emit ev (es_set_escrow i (e\<lparr>ed_status := st\<rparr>)
        (s\<lparr>es_disputes := (es_disputes s)(i \<mapsto> d)\<rparr>)))"
    using resolve_ok [OF r] by blast
  from alt show ?thesis
  proof (elim disjE exE)
    fix d st ev
    assume s': "s' = es_emit ev (es_set_escrow i (e\<lparr>ed_status := st\<rparr>)
        (s\<lparr>es_disputes := (es_disputes s)(i \<mapsto> d)\<rparr>))"
    show ?thesis
      by (rule progress_put [OF n e(1) _ _ _ _ _ resolve_challenge_inv [OF inv(1) r]])
        (use e inv(2) [OF e(1)] in \<open>auto simp: s' same_terms_def\<close>)
  qed (use n in \<open>simp add: terms_kept_refl\<close>)
qed

definition same_book :: "escrow_state \<Rightarrow> escrow_state \<Rightarrow> bool" where
  "same_book s s' \<longleftrightarrow> es_escrows s' = es_escrows s \<and> es_escrow_seq s' = es_escrow_seq s
     \<and> es_admin s' = es_admin s"

lemma escrow_config_frame:
  assumes "es_admin s \<noteq> None"
  shows "escrow_initialize env a fc b ap th s = Inr (u, s') \<Longrightarrow> same_book s s'"
    and "set_lock_period env a br t l s = Inr (u, s') \<Longrightarrow> same_book s s'"
    and "set_fee_config env a fc b s = Inr (u, s') \<Longrightarrow> same_book s s'"
    and "set_approvers env a ap th s = Inr (u, s') \<Longrightarrow> same_book s s'"
    and "set_emergency_pause env a p s = Inr (u, s') \<Longrightarrow> same_book s s'"
    and "set_breaker_guardian env a g s = Inr (u, s') \<Longrightarrow> same_book s s'"
    and "trip_circuit_breaker env a r s = Inr (u, s') \<Longrightarrow> same_book s s'"
    and "escrow_reset_circuit_breaker env a s = Inr (u, s') \<Longrightarrow> same_book s s'"
    and "collect_fees env a amt s = Inr (x, s') \<Longrightarrow> same_book s s'"
  using assms by (auto simp: escrow_config_defs same_book_def split: if_splits)

lemma escrow_config_progress:
  assumes n: "numbered s"
  shows "escrow_initialize env a fc b ap th s = Inr (u, s') \<Longrightarrow> numbered s' \<and> terms_kept s s'"
    and "set_lock_period env a br t l s = Inr (u, s') \<Longrightarrow> numbered s' \<and> terms_kept s s'"
    and "set_fee_config env a fc b s = Inr (u, s') \<Longrightarrow> numbered s' \<and> terms_kept s s'"
    and "set_approvers env a ap th s = Inr (u, s') \<Longrightarrow> numbered s' \<and> terms_kept s s'"
    and "set_emergency_pause env a p s = Inr (u, s') \<Longrightarrow> numbered s' \<and> terms_kept s s'"
    and "set_breaker_guardian env a g s = Inr (u, s') \<Longrightarrow> numbered s' \<and> terms_kept s s'"
    and "trip_circuit_breaker env a r s = Inr (u, s') \<Longrightarrow> numbered s' \<and> terms_kept s s'"
    and "escrow_reset_circuit_breaker env a s = Inr (u, s') \<Longrightarrow> numbered s' \<and> terms_kept s s'"
    and "collect_fees env a amt s = Inr (x, s') \<Longrightarrow> numbered s' \<and> terms_kept s s'"
proof -
  note inv = numberedD(1) [OF n]
  have "es_admin s \<noteq> None" using inv by (simp add: escrow_inv_def)
  note frame = escrow_config_frame [OF this] and keep = escrow_config_inv [OF inv]
  have step: "numbered s' \<and> terms_kept s s'" if "same_book s s'" "escrow_inv s'"
    using that progress_frame [OF n] by (simp add: same_book_def)
  show "escrow_initialize env a fc b ap th s = Inr (u, s') \<Longrightarrow> numbered s' \<and> terms_kept s s'"
    by (rule step [OF frame(1) keep(1)])
  show "set_lock_period env a br t l s = Inr (u, s') \<Longrightarrow> numbered s' \<and> terms_kept s s'"
    by (rule step [OF frame(2) keep(2)])
  show "set_fee_config env a fc b s = Inr (u, s') \<Longrightarrow> numbered s' \<and> terms_kept s s'"
    by (rule step [OF frame(3) keep(3)])
  show "set_approvers env a ap th s = Inr (u, s') \<Longrightarrow> numbered s' \<and> terms_kept s s'"
    by (rule step [OF frame(4) keep(4)])
  show "set_emergency_pause env a p s = Inr (u, s') \<Longrightarrow> numbered s' \<and> terms_kept s s'"
    by (rule step [OF frame(5) keep(5)])
  show "set_breaker_guardian env a g s = Inr (u, s') \<Longrightarrow> numbered s' \<and> terms_kept s s'"
    by (rule step [OF frame(6) keep(6)])
  show "trip_circuit_breaker env a r s = Inr (u, s') \<Longrightarrow> numbered s' \<and> terms_kept s s'"
    by (rule step [OF frame(7) keep(7)])
  show "escrow_reset_circuit_breaker env a s = Inr (u, s') \<Longrightarrow> numbered s' \<and> terms_kept s s'"
    by (rule step [OF frame(8) keep(8)])
  show "collect_fees env a amt s = Inr (x, s') \<Longrightarrow> numbered s' \<and> terms_kept s s'"
    by (rule step [OF frame(9) keep(9)])
qed

lemmas escrow_op_progress = escrow_config_progress create_progress resolve_progress refund_progress
  emergency_progress sync_progress extend_progress challenge_progress batch_release_progress
  release_internal_progress [where b = True, folded release_escrow_def]

lemma escrow_exec_progress:
  "numbered s \<Longrightarrow> escrow_exec env c s = Inr s' \<Longrightarrow> numbered s' \<and> terms_kept s s'"
  by (cases c) (auto dest: escrow_op_progress)

interpretation terms: contract_progress escrow_exec numbered terms_kept
  by unfold_locales (auto intro: terms_kept_refl terms_kept_trans dest: escrow_exec_progress)

lemma escrow_start_numbered: "escrow_start s \<Longrightarrow> numbered s"
  by (frule escrow_start_inv)
    (auto simp: escrow_start_def escrow_initialize_def escrow_empty_def numbered_def escrow_seq_def
      split: if_splits)

interpretation numbering: contract_invariant escrow_exec escrow_start "\<lambda>_. True" numbered
  by unfold_locales (auto intro: escrow_start_numbered dest: escrow_exec_progress)

section \<open>Properties\<close>

text \<open>A concrete history, for the witnesses: two escrows, one verified and released in two
  parts after its lock, one challenged and refunded by two approvers.\<close>

definition esc_env :: "nat \<Rightarrow> env" where
  "esc_env t = \<lparr>timestamp = t, auths = [''A'', ''D'', ''R'', ''V'', ''P'', ''Q'']\<rparr>"

definition esc_demo :: escrow_state where
  "esc_demo = (case escrow_initialize (esc_env 0) ''A'' ''F'' 100 [''P'', ''Q''] 2 escrow_empty of
     Inl _ \<Rightarrow> escrow_empty | Inr (_, s) \<Rightarrow> s)"

definition esc_history :: "(env \<times> escrow_call) list" where
  "esc_history = [
     (esc_env 1, CreateEscrow ''D'' ''R'' ''b'' ''t'' 1000 ''m'' ''V'' ''x''),
     (esc_env 2, CreateEscrow ''D'' ''R'' ''b'' ''t'' 500 ''m'' ''V'' ''x''),
     (esc_env 3, ChallengeEscrow ''D'' 1 ''late''),
     (esc_env 4, ResolveChallenge ''P'' 1 False),
     (esc_env 5, ResolveChallenge ''Q'' 1 False),
     (esc_env 6, RefundEscrow ''D'' 1),
     (esc_env 7, SyncVerification ''V'' 0 True),
     (esc_env 4000, ReleaseEscrow ''R'' 0 90),
     (esc_env 4001, ReleaseEscrow ''R'' 0 1000),
     (esc_env 4002, ReleaseEscrow ''R'' 0 900)]"

lemma esc_demo_start: "escrow_start esc_demo"
proof -
  have "escrow_initialize (esc_env 0) ''A'' ''F'' 100 [''P'', ''Q''] 2 escrow_empty
    = Inr ((), esc_demo)"
    by (simp add: esc_demo_def escrow_initialize_def escrow_empty_def esc_env_def require_auth_def)
  then show ?thesis unfolding escrow_start_def by blast
qed

lemma esc_history_ordinary: "list_all (ordinary_call \<circ> snd) esc_history"
  by (simp add: esc_history_def)

text \<open>C1: take any history that begins right after the successful initialize call, with no escrow
  created before it, that does not use the admin's emergency recovery and creates fewer than
  2^64-1 escrows (the id counter saturates there). In it no escrow ever pays out more than was
  deposited into it: the published releases and refunds plus the fee never exceed the deposit,
  exhaust it once the escrow is released or refunded, and only a refunded escrow has a refund.
  Both conditions are needed: see escrow_ids_reused_after_initialize and
  emergency_recover_pays_twice.\<close>

theorem escrow_conservation:
  assumes "escrow_start s0" "list_all (ordinary_call \<circ> snd) h"
    and "escrow_seq (run escrow_exec s0 h) < u64_max"
    and "es_escrows (run escrow_exec s0 h) i = Some e"
  shows "paid i (run escrow_exec s0 h) + refunded i (run escrow_exec s0 h) + ed_fee_total e
      \<le> ed_amount e
    \<and> paid i (run escrow_exec s0 h) = ed_released_amount e
    \<and> (ed_status e = Released \<or> ed_status e = Refunded \<longrightarrow>
        paid i (run escrow_exec s0 h) + refunded i (run escrow_exec s0 h) + ed_fee_total e
          = ed_amount e)
    \<and> (ed_status e \<noteq> Refunded \<longrightarrow> refunded i (run escrow_exec s0 h) = 0)"
proof -
  have l: "ledger_inv (run escrow_exec s0 h)" by (rule ledger.run_inv [OF assms(1,2)])
  then have "entry_ok (run escrow_exec s0 h) i" "deposit_ok e"
    using assms(3,4) by (auto simp: ledger_inv_def escrow_inv_def)
  with assms(4) show ?thesis by (auto simp: entry_ok_def deposit_ok_def)
qed

theorem escrow_conservation_witness:
  "\<exists>e. es_escrows (run escrow_exec esc_demo esc_history) 0 = Some e \<and> ed_fee_total e = 10
     \<and> paid 0 (run escrow_exec esc_demo esc_history)
       + refunded 0 (run escrow_exec esc_demo esc_history) + 10 = ed_amount e"
proof -
  have "map_option (\<lambda>e. (ed_status e, ed_fee_total e))
      (es_escrows (run escrow_exec esc_demo esc_history) 0) = Some (Released, 10)"
    by code_simp
  then obtain e where e: "es_escrows (run escrow_exec esc_demo esc_history) 0 = Some e"
    "ed_status e = Released" "ed_fee_total e = 10" by auto
  have "escrow_seq (run escrow_exec esc_demo esc_history) < u64_max" by code_simp
  from escrow_conservation [OF esc_demo_start esc_history_ordinary this e(1)] e
  show ?thesis by simp
qed

text \<open>C3: in the same histories (they begin right after the successful initialize call, with no
  escrow created before it, use no emergency recovery and create fewer than 2^64-1 escrows) the
  contract is solvent at every moment: what was deposited minus everything that was paid out (the
  balance an asset ledger would hold for it) is exactly the accrued fees plus what it still owes
  to the open escrows, and both are nonnegative.\<close>

theorem escrow_solvency:
  assumes "escrow_start s0" "list_all (ordinary_call \<circ> snd) h"
    and "escrow_seq (run escrow_exec s0 h) < u64_max"
  shows "holdings (run escrow_exec s0 h)
      = get_accrued_fees (run escrow_exec s0 h) + outstanding (run escrow_exec s0 h)
    \<and> 0 \<le> get_accrued_fees (run escrow_exec s0 h) \<and> 0 \<le> outstanding (run escrow_exec s0 h)"
proof -
  let ?s = "run escrow_exec s0 h"
  have l: "ledger_inv ?s" by (rule ledger.run_inv [OF assms(1,2)])
  have "0 \<le> liability (es_escrows ?s i)" for i
    using l assms(3)
    by (auto simp: ledger_inv_def entry_ok_def liability_def split: option.splits)
  then have "0 \<le> outstanding ?s" by (simp add: outstanding_def sum_nonneg)
  with l assms(3) show ?thesis by (simp add: ledger_inv_def)
qed

theorem escrow_solvency_witness:
  "holdings (run escrow_exec esc_demo (take 6 esc_history))
     = get_accrued_fees (run escrow_exec esc_demo (take 6 esc_history))
       + outstanding (run escrow_exec esc_demo (take 6 esc_history))
   \<and> holdings (run escrow_exec esc_demo (take 6 esc_history)) = 1005"
proof -
  have "list_all (ordinary_call \<circ> snd) (take 6 esc_history)" by (simp add: esc_history_def)
  moreover have "escrow_seq (run escrow_exec esc_demo (take 6 esc_history)) < u64_max" by code_simp
  moreover have "holdings (run escrow_exec esc_demo (take 6 esc_history)) = 1005" by code_simp
  ultimately show ?thesis
    using escrow_solvency [OF esc_demo_start, of "take 6 esc_history"] by blast
qed

text \<open>C5: in every reachable state a release succeeds under exactly the documented conditions:
  not paused, breaker not tripped, authorised by the recipient or the admin, the escrow pending
  (neither challenged nor settled), verified, its lock elapsed, and a positive amount within
  what is left after the fee.\<close>

theorem escrow_release_iff:
  assumes "escrow_start s0"
  shows "is_ok (release_escrow env c i amt (run escrow_exec s0 h)) \<longleftrightarrow>
    (\<exists>e. es_escrows (run escrow_exec s0 h) i = Some e
      \<and> \<not> unwrap_or (es_emergency_pause (run escrow_exec s0 h)) False
      \<and> \<not> is_circuit_breaker_tripped (run escrow_exec s0 h)
      \<and> c \<in> set (auths env)
      \<and> (c = ed_recipient e \<or> es_admin (run escrow_exec s0 h) = Some c)
      \<and> ed_status e = Pending \<and> ed_verified e \<and> ed_lock_until e \<le> timestamp env
      \<and> 0 < amt \<and> amt \<le> ed_amount e - ed_fee_total e - ed_released_amount e)"
proof -
  define s where "s = run escrow_exec s0 h"
  have inv: "escrow_inv s" unfolding s_def by (rule esc.run_inv [OF assms]) (simp add: list_all_iff)
  obtain admin where a: "es_admin s = Some admin" using inv by (auto simp: escrow_inv_def)
  show ?thesis
  proof (cases "es_escrows s i")
    case None
    then show ?thesis
      by (simp add: s_def [symmetric] is_ok_iff release_escrow_def release_escrow_internal_def)
  next
    case (Some e)
    note am = deposit_ok_amounts [OF escrow_inv_getD(1) [OF inv Some]]
    have "ed_status e = Pending \<longleftrightarrow>
        ed_status e \<noteq> Released \<and> ed_status e \<noteq> Refunded \<and> ed_status e \<noteq> Challenged"
      by (cases "ed_status e") auto
    with a Some am show ?thesis
      by (auto simp: s_def [symmetric] is_ok_iff release_escrow_def release_escrow_internal_def)
  qed
qed

theorem escrow_release_iff_witness:
  "is_ok (release_escrow (esc_env 4000) ''R'' 0 90 (run escrow_exec esc_demo (take 7 esc_history)))
   \<and> (\<exists>e. es_escrows (run escrow_exec esc_demo (take 7 esc_history)) 0 = Some e
      \<and> ed_lock_until e \<le> 4000 \<and> ed_verified e)"
proof -
  have "is_ok (release_escrow (esc_env 4000) ''R'' 0 90 (run escrow_exec esc_demo (take 7 esc_history)))"
    by code_simp
  moreover from this escrow_release_iff [OF esc_demo_start, of "esc_env 4000" "''R''" 0 90 "take 7 esc_history"]
  obtain e where "es_escrows (run escrow_exec esc_demo (take 7 esc_history)) 0 = Some e"
    "ed_lock_until e \<le> timestamp (esc_env 4000)" "ed_verified e"
    by blast
  ultimately show ?thesis by (auto simp: esc_env_def)
qed

text \<open>Also: in every reachable state a refund succeeds exactly for an open escrow with something
  left, at the request of its depositor or the admin, when it is challenged and its dispute was
  resolved against release, or when it is not challenged and its verification has not succeeded;
  it then pays the whole rest after the fee and settles the escrow.\<close>

theorem escrow_refund_iff:
  assumes "escrow_start s0"
  shows "is_ok (refund_escrow env c i (run escrow_exec s0 h)) \<longleftrightarrow>
    (\<exists>e. es_escrows (run escrow_exec s0 h) i = Some e
      \<and> \<not> unwrap_or (es_emergency_pause (run escrow_exec s0 h)) False
      \<and> \<not> is_circuit_breaker_tripped (run escrow_exec s0 h)
      \<and> c \<in> set (auths env)
      \<and> (c = ed_depositor e \<or> es_admin (run escrow_exec s0 h) = Some c)
      \<and> (ed_status e = Pending \<and> \<not> ed_verified e
         \<or> ed_status e = Challenged \<and> (\<exists>d. es_disputes (run escrow_exec s0 h) i = Some d
             \<and> dr_resolved d \<and> \<not> dr_decision_release d
             \<and> length (dr_approvals d) = dr_required_approvals d \<and> distinct (dr_approvals d)))
      \<and> ed_released_amount e < ed_amount e - ed_fee_total e)"
proof -
  define s where "s = run escrow_exec s0 h"
  have inv: "escrow_inv s" unfolding s_def by (rule esc.run_inv [OF assms]) (simp add: list_all_iff)
  obtain admin where a: "es_admin s = Some admin" using inv by (auto simp: escrow_inv_def)
  show ?thesis
  proof (cases "es_escrows s i")
    case None
    then show ?thesis by (simp add: s_def [symmetric] is_ok_iff refund_escrow_def)
  next
    case (Some e)
    note am = deposit_ok_amounts [OF escrow_inv_getD(1) [OF inv Some]]
    have d: "dr_resolved d \<longrightarrow> length (dr_approvals d) = dr_required_approvals d \<and> distinct (dr_approvals d)"
      if "es_disputes s i = Some d" for d
      using that inv by (auto simp: escrow_inv_def dispute_ok_def)
    show ?thesis
      using a Some am d unfolding s_def [symmetric]
      by (cases "ed_status e") (auto simp: is_ok_iff refund_escrow_def)
  qed
qed

theorem escrow_refund_iff_witness:
  "is_ok (refund_escrow (esc_env 6) ''D'' 1 (run escrow_exec esc_demo (take 5 esc_history)))
   \<and> (\<exists>e. es_escrows (run escrow_exec esc_demo (take 5 esc_history)) 1 = Some e
      \<and> ed_released_amount e < ed_amount e - ed_fee_total e)"
proof -
  have "is_ok (refund_escrow (esc_env 6) ''D'' 1 (run escrow_exec esc_demo (take 5 esc_history)))"
    by code_simp
  with escrow_refund_iff [OF esc_demo_start, of "esc_env 6" "''D''" 1 "take 5 esc_history"]
  show ?thesis by blast
qed

text \<open>The batch release as the reference reads it: one authorised release after the other.\<close>

fun release_each :: "env \<Rightarrow> address \<Rightarrow> int \<Rightarrow> nat list \<Rightarrow> escrow_state \<Rightarrow> escrow_state escrow_res" where
  "release_each env c amt [] s = Inr s"
| "release_each env c amt (i # ids) s =
     and_then (release_escrow env c i amt s) (\<lambda>(_, s'). release_each env c amt ids s')"

lemma release_internal_amount:
  "release_escrow_internal env c i amt b s = Inr (x, s') \<Longrightarrow> x = amt \<and> 0 < amt"
  by (auto simp: release_escrow_internal_def split: if_splits)

lemma release_internal_auth:
  "c \<in> set (auths env) \<Longrightarrow>
     release_escrow_internal env c i amt b s = release_escrow_internal env c i amt True s"
  by (simp add: release_escrow_internal_def require_auth_def)

lemma release_each_eq:
  assumes "c \<in> set (auths env)"
  shows "batch_release_loop env c amt ids rel tot s =
    and_then (release_each env c amt ids s) (\<lambda>s'.
      Inr (rel @ replicate (length ids) amt, ((\<lambda>t. sat_i128 (t + amt)) ^^ length ids) tot, s'))"
proof (induction ids arbitrary: rel tot s)
  case (Cons i ids)
  show ?case
  proof (cases "release_escrow env c i amt s")
    case (Inl f)
    with assms show ?thesis by (simp add: release_escrow_def release_internal_auth [where b = False])
  next
    case (Inr r)
    then obtain x s' where r: "release_escrow_internal env c i amt True s = Inr (x, s')"
      by (cases r) (auto simp: release_escrow_def)
    from assms r release_internal_amount [OF r] show ?thesis
      by (simp add: Cons.IH release_escrow_def release_internal_auth [where b = False]
          funpow_Suc_right del: funpow.simps)
  qed
qed simp

lemma sat_sum: "0 < amt \<Longrightarrow> ((\<lambda>t. sat_i128 (t + amt)) ^^ n) 0 = sat_i128 (int n * amt)"
proof (induction n)
  case (Suc n)
  then have "0 \<le> int n * amt" by simp
  moreover have "int (Suc n) * amt = int n * amt + amt" by (simp add: algebra_simps)
  moreover have "((\<lambda>t. sat_i128 (t + amt)) ^^ Suc n) 0 = sat_i128 (sat_i128 (int n * amt) + amt)"
    using Suc by simp
  ultimately show ?case
    using Suc.prems by (simp only: sat_i128_def width_defs) linarith
qed simp

lemma release_each_positive:
  "release_each env c amt (i # ids) s = Inr s' \<Longrightarrow> 0 < amt"
  using release_internal_amount by (auto simp: release_escrow_def)

text \<open>Also: a batch release is exactly the sequence of the single releases, in order and all or
  nothing: the first escrow that cannot be released makes the whole call fail with that
  error, and otherwise the final state is the one after all of them, with the requested
  amount reported once per escrow and their (saturating) sum in the event.\<close>

theorem batch_release_sequence:
  "batch_release env c (i # ids) amt s =
     and_then (release_each env c amt (i # ids) s) (\<lambda>s'.
       Inr (replicate (Suc (length ids)) amt,
         es_emit (EvBatchReleased c (Suc (length ids)) (sat_i128 (int (Suc (length ids)) * amt))) s'))"
proof -
  consider (paused) "unwrap_or (es_emergency_pause s) False"
    | (tripped) "\<not> unwrap_or (es_emergency_pause s) False" "is_circuit_breaker_tripped s"
    | (unauthorised) "\<not> unwrap_or (es_emergency_pause s) False" "\<not> is_circuit_breaker_tripped s"
        "c \<notin> set (auths env)"
    | (running) "\<not> unwrap_or (es_emergency_pause s) False" "\<not> is_circuit_breaker_tripped s"
        "c \<in> set (auths env)"
    by blast
  then show ?thesis
  proof cases
    case running
    then have "batch_release env c (i # ids) amt s =
      and_then (release_each env c amt (i # ids) s) (\<lambda>s'.
        Inr (replicate (length (i # ids)) amt, es_emit (EvBatchReleased c (length (i # ids))
          (((\<lambda>t. sat_i128 (t + amt)) ^^ length (i # ids)) 0)) s'))"
      by (simp add: batch_release_def release_each_eq and_then_assoc
          del: release_each.simps batch_release_loop.simps funpow.simps replicate.simps length_Cons)
    then show ?thesis
      by (cases "release_each env c amt (i # ids) s")
        (simp_all add: sat_sum [OF release_each_positive]
          del: release_each.simps funpow.simps of_nat_Suc)
  qed (simp_all add: batch_release_def release_escrow_def release_escrow_internal_def)
qed

text \<open>Also: in every reachable state a dispute is resolved exactly when the required number of
  distinct approvers has voted on it, disputes and challenges exist together with the escrow
  they are about, and an escrow that is still challenged after its dispute was resolved was
  decided against release.\<close>

theorem escrow_dispute_invariant:
  assumes "escrow_start s0" "es_disputes (run escrow_exec s0 h) i = Some d"
  shows "(dr_resolved d \<longleftrightarrow> length (dr_approvals d) = dr_required_approvals d)
    \<and> length (dr_approvals d) \<le> dr_required_approvals d \<and> distinct (dr_approvals d)
    \<and> es_challenges (run escrow_exec s0 h) i \<noteq> None
    \<and> (\<forall>e. es_escrows (run escrow_exec s0 h) i = Some e \<and> ed_status e = Challenged \<and> dr_resolved d
        \<longrightarrow> \<not> dr_decision_release d)"
proof -
  have inv: "escrow_inv (run escrow_exec s0 h)"
    by (rule esc.run_inv [OF assms(1)]) (simp add: list_all_iff)
  then have "dispute_ok d"
    and "case_ok (es_challenges (run escrow_exec s0 h) i) (Some d) (es_escrows (run escrow_exec s0 h) i)"
    using assms(2) by (auto simp: escrow_inv_def) metis
  then show ?thesis by (auto simp: dispute_ok_def case_ok_def)
qed

theorem escrow_dispute_invariant_witness:
  "\<exists>d. es_disputes (run escrow_exec esc_demo (take 5 esc_history)) 1 = Some d
     \<and> dr_resolved d \<and> length (dr_approvals d) = 2"
proof -
  have "map_option (\<lambda>d. (dr_resolved d, dr_required_approvals d))
    (es_disputes (run escrow_exec esc_demo (take 5 esc_history)) 1) = Some (True, 2)" by code_simp
  then obtain d where d: "es_disputes (run escrow_exec esc_demo (take 5 esc_history)) 1 = Some d"
    "dr_resolved d" "dr_required_approvals d = 2" by auto
  from escrow_dispute_invariant [OF esc_demo_start d(1)] d show ?thesis by auto
qed

text \<open>Also: from the moment an escrow exists, whatever is called afterwards (emergency recovery
  included), it keeps its parties, amount, fee and verifier, its lock is never shortened, its
  released amount never decreases, and once released it stays released.\<close>

theorem escrow_terms_kept:
  assumes "escrow_start s0" "es_escrows (run escrow_exec s0 h) i = Some e" "i < u64_max"
  shows "\<exists>e'. es_escrows (run escrow_exec s0 (h @ h')) i = Some e'
    \<and> ed_depositor e' = ed_depositor e \<and> ed_recipient e' = ed_recipient e
    \<and> ed_amount e' = ed_amount e \<and> ed_fee_total e' = ed_fee_total e
    \<and> ed_verification_contract e' = ed_verification_contract e
    \<and> ed_lock_until e \<le> ed_lock_until e' \<and> ed_released_amount e \<le> ed_released_amount e'
    \<and> (ed_status e = Released \<longrightarrow> ed_status e' = Released)"
proof -
  have "numbered (run escrow_exec s0 h)"
    by (rule numbering.run_inv [OF assms(1)]) (simp add: list_all_iff)
  then have "terms_kept (run escrow_exec s0 h) (run escrow_exec s0 (h @ h'))"
    unfolding run_append by (rule terms.run_rel)
  with assms(2,3) show ?thesis by (auto simp: terms_kept_def same_terms_def)
qed

theorem escrow_terms_kept_witness:
  "\<exists>e e'. es_escrows (run escrow_exec esc_demo (take 2 esc_history)) 0 = Some e
     \<and> es_escrows (run escrow_exec esc_demo (take 2 esc_history @ drop 2 esc_history)) 0 = Some e'
     \<and> ed_amount e' = ed_amount e \<and> ed_released_amount e \<le> ed_released_amount e'"
proof -
  have "es_escrows (run escrow_exec esc_demo (take 2 esc_history)) 0 \<noteq> None" by code_simp
  then obtain e where e: "es_escrows (run escrow_exec esc_demo (take 2 esc_history)) 0 = Some e"
    by blast
  have "(0 :: nat) < u64_max" by (simp add: u64_max_def)
  from escrow_terms_kept [OF esc_demo_start e this, of "drop 2 esc_history"] e show ?thesis by blast
qed

definition esc_double_history :: "(env \<times> escrow_call) list" where
  "esc_double_history = [
     (esc_env 1, CreateEscrow ''D'' ''R'' ''b'' ''t'' 1000 ''m'' ''V'' ''x''),
     (esc_env 2, RefundEscrow ''D'' 0),
     (esc_env 3, SetEmergencyPause ''A'' True),
     (esc_env 4, EmergencyRecover ''A'' 0 ''R'' 1000)]"

text \<open>Also: why the conservation theorem excludes emergency recovery: it does not look at the
  status, so an escrow of 1000 that was refunded in full (990 after the fee) is paid out a
  second time.\<close>

lemma emergency_recover_pays_twice:
  "refunded 0 (run escrow_exec esc_demo esc_double_history) = 990
   \<and> paid 0 (run escrow_exec esc_demo esc_double_history) = 1000
   \<and> map_option ed_amount (es_escrows (run escrow_exec esc_demo esc_double_history) 0) = Some 1000"
  by code_simp

text \<open>Also: why the accounting theorems start right after initialize: create_escrow works before
  it, and initialize sets the counter of escrow ids back to 0. On the first history below the
  escrow 0 of 1000 is paid out in full and its id is then given to an escrow of 10, so more has
  been paid on it than its record holds; on the second the escrow of 1000 is lost when its id is
  given away, and the contract owes 10 of the 1010 that came in.\<close>

definition esc_early_history :: "(env \<times> escrow_call) list" where
  "esc_early_history = [
     (esc_env 1, CreateEscrow ''D'' ''R'' ''b'' ''t'' 1000 ''m'' ''V'' ''x''),
     (esc_env 2, SyncVerification ''V'' 0 True),
     (esc_env 3, Initialize ''A'' ''F'' 0 [''P''] 1)]"

definition esc_second :: "escrow_call" where
  "esc_second = CreateEscrow ''D'' ''R'' ''b'' ''t'' 10 ''m'' ''V'' ''x''"

lemma escrow_ids_reused_after_initialize:
  "paid 0 (run escrow_exec escrow_empty
      (esc_early_history @ [(esc_env 1000000, ReleaseEscrow ''R'' 0 1000), (esc_env 1000001, esc_second)]))
     = 1000
   \<and> map_option ed_amount (es_escrows (run escrow_exec escrow_empty
      (esc_early_history @ [(esc_env 1000000, ReleaseEscrow ''R'' 0 1000), (esc_env 1000001, esc_second)]))
      0) = Some 10
   \<and> holdings (run escrow_exec escrow_empty (esc_early_history @ [(esc_env 4, esc_second)])) = 1010
   \<and> outstanding (run escrow_exec escrow_empty (esc_early_history @ [(esc_env 4, esc_second)])) = 10"
  by (intro conjI; code_simp)

end
