(* ===== verification/Transfer_Machine.thy ===== *)
theory Transfer_Machine
  imports Soroban
begin

text \<open>
  The bridge-transfer state machine (\<open>transfer_state_machine/src/lib.rs\<close>): its storage as
  \<open>tsm_state\<close>, one definition per entry point and helper, the dispatcher \<open>tsm_exec\<close> from empty
  storage. The abstract machine is the inductive relation \<open>machine_step\<close>; the lemmas show that
  the code's transition table implements it, that every stored history is one of its paths,
  that a completed transfer was verified and attested, that final states are final, and that
  a transfer can always be timed out or rolled back.
\<close>

section \<open>Data\<close>

datatype bridge_type = LockMint | BurnRelease | NativeWrapped | Cctp | CustomBridge

datatype transfer_mode = Standard | FastTrack | Insured

datatype transfer_state =
    Initiated | AwaitingSource | EscrowPending | EscrowLocked | VerificationPending
  | OraclePending | ReleasePending | Completed | Failed | RollingBack | RolledBack | TimedOut

record bridge_transfer =
  bt_id :: nat
  bt_initiator :: address
  bt_bridge_type :: bridge_type
  bt_mode :: transfer_mode
  bt_asset :: string
  bt_amount :: int
  bt_dest_hint :: string
  bt_state :: transfer_state
  bt_state_deadline :: nat
  bt_created_at :: nat
  bt_updated_at :: nat
  bt_verification_ok :: bool
  bt_oracle_ok :: bool

record transition_log =
  tl_from_state :: transfer_state
  tl_to_state :: transfer_state
  tl_timestamp :: nat
  tl_actor :: address
  tl_note :: string

datatype tsm_event =
    TrInit nat transfer_state | TrAdv nat transfer_state transfer_state | TrTimeout nat
  | TrRollback nat | TrAdmin nat transfer_state | TrVerified nat bool | TrOracle nat bool
  | TrAuto nat transfer_state

record tsm_state =
  ts_admin :: "address option"
  ts_initialized :: "bool option"
  ts_transfer_seq :: "nat option"
  ts_transfers :: "nat \<rightharpoonup> bridge_transfer"
  ts_history :: "nat \<rightharpoonup> transition_log list"
  ts_timeout :: "transfer_state \<rightharpoonup> nat"
  ts_default_timeout :: "nat option"
  ts_escrow_contract :: "address option"
  ts_verifier_contract :: "address option"
  ts_oracle_contract :: "address option"
  ts_events :: "tsm_event list"

definition tsm_empty :: tsm_state where
  "tsm_empty = \<lparr>ts_admin = None, ts_initialized = None, ts_transfer_seq = None,
     ts_transfers = Map.empty, ts_history = Map.empty, ts_timeout = Map.empty,
     ts_default_timeout = None, ts_escrow_contract = None, ts_verifier_contract = None,
     ts_oracle_contract = None, ts_events = []\<rparr>"

text \<open>The contract has no error codes: every failure is a panic with a message.\<close>

type_synonym 'a tsm_res = "(unit, 'a) res"

definition max_history_per_transfer :: nat where "max_history_per_transfer = 48"

definition ts_emit :: "tsm_event \<Rightarrow> tsm_state \<Rightarrow> tsm_state" where
  "ts_emit ev s = s\<lparr>ts_events := ts_events s @ [ev]\<rparr>"

section \<open>Internal functions\<close>

definition default_timeouts :: "(transfer_state \<times> nat) list" where
  "default_timeouts = [(Initiated, 3600), (AwaitingSource, 86400), (EscrowPending, 86400),
     (EscrowLocked, 172800), (VerificationPending, 43200), (OraclePending, 7200),
     (ReleasePending, 86400), (RollingBack, 86400), (Failed, 60)]"

definition seed_default_timeouts :: "tsm_state \<Rightarrow> tsm_state" where
  "seed_default_timeouts s =
     fold (\<lambda>(st, secs) s. s\<lparr>ts_timeout := (ts_timeout s)(st \<mapsto> secs)\<rparr>) default_timeouts s"

definition timeout_secs_for :: "tsm_state \<Rightarrow> transfer_state \<Rightarrow> nat" where
  "timeout_secs_for s st =
     unwrap_or (ts_timeout s st) (unwrap_or (ts_default_timeout s) 86400)"

fun is_terminal :: "transfer_state \<Rightarrow> bool" where
  "is_terminal Completed = True"
| "is_terminal Failed = True"
| "is_terminal RolledBack = True"
| "is_terminal TimedOut = True"
| "is_terminal _ = False"

fun can_rollback_from :: "transfer_state \<Rightarrow> bool" where
  "can_rollback_from Initiated = True"
| "can_rollback_from AwaitingSource = True"
| "can_rollback_from EscrowPending = True"
| "can_rollback_from EscrowLocked = True"
| "can_rollback_from VerificationPending = True"
| "can_rollback_from OraclePending = True"
| "can_rollback_from ReleasePending = True"
| "can_rollback_from _ = False"

definition transition_allowed ::
  "bridge_transfer \<Rightarrow> transfer_state \<Rightarrow> transfer_state \<Rightarrow> bool" where
  "transition_allowed t from to =
     (if from = to then False
      else case (from, to) of
        (Initiated, AwaitingSource) \<Rightarrow> True
      | (Initiated, EscrowPending) \<Rightarrow> bt_mode t = FastTrack
      | (AwaitingSource, EscrowPending) \<Rightarrow> True
      | (EscrowPending, EscrowLocked) \<Rightarrow> True
      | (EscrowLocked, VerificationPending) \<Rightarrow> True
      | (VerificationPending, OraclePending) \<Rightarrow> bt_verification_ok t
      | (OraclePending, ReleasePending) \<Rightarrow> bt_oracle_ok t
      | (ReleasePending, Completed) \<Rightarrow> True
      | (Initiated, Failed) \<Rightarrow> True
      | (AwaitingSource, Failed) \<Rightarrow> True
      | (EscrowPending, Failed) \<Rightarrow> True
      | (EscrowLocked, Failed) \<Rightarrow> True
      | (VerificationPending, Failed) \<Rightarrow> True
      | (OraclePending, Failed) \<Rightarrow> True
      | (ReleasePending, Failed) \<Rightarrow> True
      | (Initiated, TimedOut) \<Rightarrow> True
      | (AwaitingSource, TimedOut) \<Rightarrow> True
      | (EscrowPending, TimedOut) \<Rightarrow> True
      | (EscrowLocked, TimedOut) \<Rightarrow> True
      | (VerificationPending, TimedOut) \<Rightarrow> True
      | (OraclePending, TimedOut) \<Rightarrow> True
      | (ReleasePending, TimedOut) \<Rightarrow> True
      | (Initiated, RollingBack) \<Rightarrow> True
      | (AwaitingSource, RollingBack) \<Rightarrow> True
      | (EscrowPending, RollingBack) \<Rightarrow> True
      | (EscrowLocked, RollingBack) \<Rightarrow> True
      | (VerificationPending, RollingBack) \<Rightarrow> True
      | (OraclePending, RollingBack) \<Rightarrow> True
      | (ReleasePending, RollingBack) \<Rightarrow> True
      | (RollingBack, RolledBack) \<Rightarrow> True
      | _ \<Rightarrow> False)"

definition admin_override_allowed :: "transfer_state \<Rightarrow> transfer_state \<Rightarrow> bool" where
  "admin_override_allowed from to = (case (from, to) of
       (TimedOut, Failed) \<Rightarrow> True
     | (TimedOut, RolledBack) \<Rightarrow> True
     | (TimedOut, EscrowLocked) \<Rightarrow> True
     | (TimedOut, ReleasePending) \<Rightarrow> True
     | (Failed, RollingBack) \<Rightarrow> True
     | (OraclePending, ReleasePending) \<Rightarrow> True
     | (VerificationPending, OraclePending) \<Rightarrow> True
     | _ \<Rightarrow> False)"

definition tsm_is_admin :: "tsm_state \<Rightarrow> address \<Rightarrow> bool tsm_res" where
  "tsm_is_admin s caller = and_then (unwrap (ts_admin s)) (\<lambda>admin. Inr (caller = admin))"

definition assert_admin :: "env \<Rightarrow> tsm_state \<Rightarrow> address \<Rightarrow> unit tsm_res" where
  "assert_admin env s caller =
     and_then (require_auth env caller) (\<lambda>_.
     and_then (tsm_is_admin s caller) (\<lambda>ok.
     ensure ok (Panic ''admin only'')))"

definition assert_advance_auth ::
  "tsm_state \<Rightarrow> address \<Rightarrow> bridge_transfer \<Rightarrow> transfer_state \<Rightarrow> transfer_state \<Rightarrow> unit tsm_res"
where
  "assert_advance_auth s caller t from to =
     and_then (unwrap (ts_escrow_contract s)) (\<lambda>escrow.
     and_then (tsm_is_admin s caller) (\<lambda>admin_ok.
     let initiator_ok = (caller = bt_initiator t) in
     case (from, to) of
       (EscrowPending, EscrowLocked) \<Rightarrow>
         if caller \<noteq> escrow \<and> \<not> admin_ok then Inl (Panic ''escrow or admin only'') else Inr ()
     | (VerificationPending, OraclePending) \<Rightarrow>
         if \<not> bt_verification_ok t then Inl (Panic ''verification not ok'')
         else if \<not> initiator_ok \<and> \<not> admin_ok then Inl (Panic ''initiator or admin'') else Inr ()
     | (OraclePending, ReleasePending) \<Rightarrow>
         if \<not> bt_oracle_ok t then Inl (Panic ''oracle not ok'')
         else if \<not> initiator_ok \<and> \<not> admin_ok then Inl (Panic ''initiator or admin'') else Inr ()
     | (_, Failed) \<Rightarrow>
         if \<not> initiator_ok \<and> \<not> admin_ok then Inl (Panic ''initiator or admin'') else Inr ()
     | _ \<Rightarrow>
         if \<not> initiator_ok \<and> \<not> admin_ok then Inl (Panic ''initiator or admin only'')
         else Inr ()))"

definition apply_transition ::
  "env \<Rightarrow> bridge_transfer \<Rightarrow> address \<Rightarrow> transfer_state \<Rightarrow> transfer_state \<Rightarrow> string \<Rightarrow> tsm_state
     \<Rightarrow> (bridge_transfer \<times> tsm_state) tsm_res" where
  "apply_transition env t actor from to note s =
     (let now = timestamp env;
          t1 = t\<lparr>bt_state := to, bt_updated_at := now\<rparr> in
     and_then (if \<not> is_terminal to
         then and_then (add_u64 now (timeout_secs_for s to)) (\<lambda>d. Inr (t1\<lparr>bt_state_deadline := d\<rparr>))
         else Inr t1) (\<lambda>t2.
     let s1 = s\<lparr>ts_transfers := (ts_transfers s)(bt_id t2 \<mapsto> t2)\<rparr>;
         hist = unwrap_or (ts_history s1 (bt_id t2)) [] in
     if length hist \<ge> max_history_per_transfer then Inl (Panic ''history overflow'')
     else
     let entry = \<lparr>tl_from_state = from, tl_to_state = to, tl_timestamp = now,
           tl_actor = actor, tl_note = note\<rparr>;
         s2 = s1\<lparr>ts_history := (ts_history s1)(bt_id t2 \<mapsto> hist @ [entry])\<rparr> in
     Inr (t2, ts_emit (TrAdv (bt_id t2) from to) s2)))"

definition load_transfer :: "tsm_state \<Rightarrow> nat \<Rightarrow> bridge_transfer tsm_res" where
  "load_transfer s transfer_id = ok_or (ts_transfers s transfer_id) (Panic ''unknown transfer'')"

section \<open>Entry points\<close>

definition tsm_initialize :: "env \<Rightarrow> address \<Rightarrow> tsm_state \<Rightarrow> (unit \<times> tsm_state) tsm_res" where
  "tsm_initialize env admin s =
     (if ts_initialized s \<noteq> None then Inl (Panic ''already initialized'')
      else and_then (require_auth env admin) (\<lambda>_.
      Inr ((), (seed_default_timeouts (s\<lparr>ts_admin := Some admin, ts_initialized := Some True,
          ts_transfer_seq := Some 0, ts_default_timeout := Some 86400\<rparr>))
        \<lparr>ts_escrow_contract := Some admin, ts_verifier_contract := Some admin,
         ts_oracle_contract := Some admin\<rparr>)))"

definition set_integration_contracts ::
  "env \<Rightarrow> address \<Rightarrow> address \<Rightarrow> address \<Rightarrow> address \<Rightarrow> tsm_state \<Rightarrow> (unit \<times> tsm_state) tsm_res"
where
  "set_integration_contracts env caller escrow verifier oracle s =
     and_then (assert_admin env s caller) (\<lambda>_.
     Inr ((), s\<lparr>ts_escrow_contract := Some escrow, ts_verifier_contract := Some verifier,
       ts_oracle_contract := Some oracle\<rparr>))"

definition set_default_timeout ::
  "env \<Rightarrow> address \<Rightarrow> nat \<Rightarrow> tsm_state \<Rightarrow> (unit \<times> tsm_state) tsm_res" where
  "set_default_timeout env caller secs s =
     and_then (assert_admin env s caller) (\<lambda>_.
     if secs = 0 then Inl (Panic ''timeout must be positive'')
     else Inr ((), s\<lparr>ts_default_timeout := Some secs\<rparr>))"

definition set_state_timeout ::
  "env \<Rightarrow> address \<Rightarrow> transfer_state \<Rightarrow> nat \<Rightarrow> tsm_state \<Rightarrow> (unit \<times> tsm_state) tsm_res" where
  "set_state_timeout env caller st secs s =
     and_then (assert_admin env s caller) (\<lambda>_.
     if secs = 0 then Inl (Panic ''timeout must be positive'')
     else Inr ((), s\<lparr>ts_timeout := (ts_timeout s)(st \<mapsto> secs)\<rparr>))"

definition initiate_transfer ::
  "env \<Rightarrow> address \<Rightarrow> bridge_type \<Rightarrow> transfer_mode \<Rightarrow> string \<Rightarrow> int \<Rightarrow> string \<Rightarrow> tsm_state
     \<Rightarrow> (nat \<times> tsm_state) tsm_res" where
  "initiate_transfer env initiator bt mode asset amount dest_hint s =
     and_then (require_auth env initiator) (\<lambda>_.
     if amount \<le> 0 then Inl (Panic ''amount must be positive'')
     else
     and_then (ok_or (ts_transfer_seq s) (Panic ''not initialized'')) (\<lambda>seq.
     and_then (add_u64 seq 1) (\<lambda>tid.
     let s1 = s\<lparr>ts_transfer_seq := Some tid\<rparr>;
         now = timestamp env in
     and_then (add_u64 now (timeout_secs_for s1 Initiated)) (\<lambda>deadline.
     let t = \<lparr>bt_id = tid, bt_initiator = initiator, bt_bridge_type = bt, bt_mode = mode,
           bt_asset = asset, bt_amount = amount, bt_dest_hint = dest_hint,
           bt_state = Initiated, bt_state_deadline = deadline, bt_created_at = now,
           bt_updated_at = now, bt_verification_ok = False, bt_oracle_ok = False\<rparr> in
     Inr (tid, ts_emit (TrInit tid Initiated)
       (s1\<lparr>ts_transfers := (ts_transfers s1)(tid \<mapsto> t),
           ts_history := (ts_history s1)(tid \<mapsto> [])\<rparr>))))))"

definition verify_transition ::
  "tsm_state \<Rightarrow> nat \<Rightarrow> transfer_state \<Rightarrow> transfer_state \<Rightarrow> bool" where
  "verify_transition s transfer_id from_state to_state =
     (case ts_transfers s transfer_id of
        None \<Rightarrow> False
      | Some tr \<Rightarrow> if bt_state tr \<noteq> from_state then False
          else transition_allowed tr from_state to_state)"

definition advance_state ::
  "env \<Rightarrow> address \<Rightarrow> nat \<Rightarrow> transfer_state \<Rightarrow> tsm_state \<Rightarrow> (unit \<times> tsm_state) tsm_res" where
  "advance_state env caller transfer_id nxt s =
     and_then (require_auth env caller) (\<lambda>_.
     and_then (load_transfer s transfer_id) (\<lambda>t.
     let from = bt_state t in
     if \<not> transition_allowed t from nxt then Inl (Panic ''invalid transition'')
     else
     and_then (assert_advance_auth s caller t from nxt) (\<lambda>_.
     and_then (apply_transition env t caller from nxt '''' s) (\<lambda>(_, s').
     Inr ((), s')))))"

definition handle_timeout :: "env \<Rightarrow> nat \<Rightarrow> tsm_state \<Rightarrow> (unit \<times> tsm_state) tsm_res" where
  "handle_timeout env transfer_id s =
     and_then (load_transfer s transfer_id) (\<lambda>t.
     if is_terminal (bt_state t) then Inr ((), s)
     else if timestamp env \<le> bt_state_deadline t then Inl (Panic ''timeout not reached'')
     else
     let from = bt_state t in
     if \<not> transition_allowed t from TimedOut then Inl (Panic ''cannot timeout from this state'')
     else
     let system = bt_initiator t in
     and_then (apply_transition env t system from TimedOut ''timeout'' s) (\<lambda>(_, s').
     Inr ((), ts_emit (TrTimeout transfer_id) s')))"

definition rollback_transfer ::
  "env \<Rightarrow> address \<Rightarrow> nat \<Rightarrow> string \<Rightarrow> tsm_state \<Rightarrow> (unit \<times> tsm_state) tsm_res" where
  "rollback_transfer env caller transfer_id reason s =
     and_then (require_auth env caller) (\<lambda>_.
     and_then (load_transfer s transfer_id) (\<lambda>t.
     and_then (if caller = bt_initiator t then Inr True else tsm_is_admin s caller) (\<lambda>ok.
     if \<not> ok then Inl (Panic ''unauthorized rollback'')
     else if is_terminal (bt_state t) then Inl (Panic ''cannot rollback terminal transfer'')
     else
     let from = bt_state t in
     if \<not> can_rollback_from from then Inl (Panic ''rollback not allowed from this state'')
     else
     and_then (apply_transition env t caller from RollingBack reason s) (\<lambda>(t1, s1).
     let from2 = bt_state t1 in
     and_then (apply_transition env t1 caller from2 RolledBack reason s1) (\<lambda>(_, s2).
     Inr ((), ts_emit (TrRollback transfer_id) s2))))))"

definition admin_override_state ::
  "env \<Rightarrow> address \<Rightarrow> nat \<Rightarrow> transfer_state \<Rightarrow> string \<Rightarrow> tsm_state
     \<Rightarrow> (unit \<times> tsm_state) tsm_res" where
  "admin_override_state env admin transfer_id nxt note s =
     and_then (assert_admin env s admin) (\<lambda>_.
     and_then (load_transfer s transfer_id) (\<lambda>t.
     let from = bt_state t in
     if from = Completed \<or> from = Failed \<or> from = RolledBack
     then Inl (Panic ''cannot override terminal state'')
     else if \<not> admin_override_allowed from nxt
     then Inl (Panic ''override transition not permitted'')
     else
     and_then (apply_transition env t admin from nxt note s) (\<lambda>(_, s').
     Inr ((), ts_emit (TrAdmin transfer_id nxt) s'))))"

definition submit_verification_result ::
  "env \<Rightarrow> address \<Rightarrow> nat \<Rightarrow> bool \<Rightarrow> tsm_state \<Rightarrow> (unit \<times> tsm_state) tsm_res" where
  "submit_verification_result env caller transfer_id ok s =
     and_then (require_auth env caller) (\<lambda>_.
     and_then (ok_or (ts_verifier_contract s) (Panic ''not initialized'')) (\<lambda>verifier.
     if caller \<noteq> verifier then Inl (Panic ''only verifier contract'')
     else
     and_then (load_transfer s transfer_id) (\<lambda>t.
     if bt_state t \<noteq> VerificationPending then Inl (Panic ''wrong state for verification'')
     else
     let t' = t\<lparr>bt_verification_ok := ok, bt_updated_at := timestamp env\<rparr> in
     Inr ((), ts_emit (TrVerified transfer_id ok)
       (s\<lparr>ts_transfers := (ts_transfers s)(transfer_id \<mapsto> t')\<rparr>)))))"

definition submit_oracle_result ::
  "env \<Rightarrow> address \<Rightarrow> nat \<Rightarrow> bool \<Rightarrow> tsm_state \<Rightarrow> (unit \<times> tsm_state) tsm_res" where
  "submit_oracle_result env caller transfer_id ok s =
     and_then (require_auth env caller) (\<lambda>_.
     and_then (ok_or (ts_oracle_contract s) (Panic ''not initialized'')) (\<lambda>oracle.
     if caller \<noteq> oracle then Inl (Panic ''only oracle contract'')
     else
     and_then (load_transfer s transfer_id) (\<lambda>t.
     if bt_state t \<noteq> OraclePending then Inl (Panic ''wrong state for oracle'')
     else
     let t' = t\<lparr>bt_oracle_ok := ok, bt_updated_at := timestamp env\<rparr> in
     Inr ((), ts_emit (TrOracle transfer_id ok)
       (s\<lparr>ts_transfers := (ts_transfers s)(transfer_id \<mapsto> t')\<rparr>)))))"

definition try_auto_progress :: "env \<Rightarrow> nat \<Rightarrow> tsm_state \<Rightarrow> (unit \<times> tsm_state) tsm_res" where
  "try_auto_progress env transfer_id s =
     and_then (load_transfer s transfer_id) (\<lambda>t.
     if is_terminal (bt_state t) then Inr ((), s)
     else
     let from = bt_state t;
         maybe_next =
           (if bt_state t = VerificationPending \<and> bt_verification_ok t then Some OraclePending
            else if bt_state t = OraclePending \<and> bt_oracle_ok t then Some ReleasePending
            else None) in
     case maybe_next of
       None \<Rightarrow> Inr ((), s)
     | Some nxt \<Rightarrow>
         if transition_allowed t from nxt
         then and_then (apply_transition env t (bt_initiator t) from nxt ''auto'' s) (\<lambda>(_, s').
           Inr ((), ts_emit (TrAuto transfer_id nxt) s'))
         else Inr ((), s))"

definition get_transfer :: "tsm_state \<Rightarrow> nat \<Rightarrow> bridge_transfer option" where
  "get_transfer s transfer_id = ts_transfers s transfer_id"

definition get_transition_history :: "tsm_state \<Rightarrow> nat \<Rightarrow> transition_log list" where
  "get_transition_history s transfer_id = unwrap_or (ts_history s transfer_id) []"

definition get_timeout_for_state :: "tsm_state \<Rightarrow> transfer_state \<Rightarrow> nat" where
  "get_timeout_for_state s st = timeout_secs_for s st"

datatype tsm_call =
    TsmInitialize address
  | SetIntegrationContracts address address address address
  | SetDefaultTimeout address nat
  | SetStateTimeout address transfer_state nat
  | InitiateTransfer address bridge_type transfer_mode string int string
  | AdvanceState address nat transfer_state
  | HandleTimeout nat
  | RollbackTransfer address nat string
  | AdminOverrideState address nat transfer_state string
  | SubmitVerificationResult address nat bool
  | SubmitOracleResult address nat bool
  | TryAutoProgress nat

fun tsm_exec :: "env \<Rightarrow> tsm_call \<Rightarrow> tsm_state \<Rightarrow> tsm_state tsm_res" where
  "tsm_exec env (TsmInitialize a) s = state_of (tsm_initialize env a s)"
| "tsm_exec env (SetIntegrationContracts a e v q) s =
     state_of (set_integration_contracts env a e v q s)"
| "tsm_exec env (SetDefaultTimeout a n) s = state_of (set_default_timeout env a n s)"
| "tsm_exec env (SetStateTimeout a st n) s = state_of (set_state_timeout env a st n s)"
| "tsm_exec env (InitiateTransfer a b m x amt d) s =
     state_of (initiate_transfer env a b m x amt d s)"
| "tsm_exec env (AdvanceState a i st) s = state_of (advance_state env a i st s)"
| "tsm_exec env (HandleTimeout i) s = state_of (handle_timeout env i s)"
| "tsm_exec env (RollbackTransfer a i r) s = state_of (rollback_transfer env a i r s)"
| "tsm_exec env (AdminOverrideState a i st n) s = state_of (admin_override_state env a i st n s)"
| "tsm_exec env (SubmitVerificationResult a i ok) s =
     state_of (submit_verification_result env a i ok s)"
| "tsm_exec env (SubmitOracleResult a i ok) s = state_of (submit_oracle_result env a i ok s)"
| "tsm_exec env (TryAutoProgress i) s = state_of (try_auto_progress env i s)"

section \<open>The abstract machine\<close>

text \<open>In flight: neither final nor rolling back. A transfer moves forward one stage at a time,
  needs its two attestations at the gates, and may fail, time out or start its rollback from
  any stage in flight.\<close>

definition in_flight :: "transfer_state \<Rightarrow> bool" where
  "in_flight st \<longleftrightarrow> \<not> is_terminal st \<and> st \<noteq> RollingBack"

inductive machine_step :: "transfer_mode \<Rightarrow> bool \<Rightarrow> bool \<Rightarrow> transfer_state \<Rightarrow> transfer_state \<Rightarrow> bool"
  for m v q where
  acknowledge: "machine_step m v q Initiated AwaitingSource"
| fast_track: "m = FastTrack \<Longrightarrow> machine_step m v q Initiated EscrowPending"
| finality: "machine_step m v q AwaitingSource EscrowPending"
| lock: "machine_step m v q EscrowPending EscrowLocked"
| verify: "machine_step m v q EscrowLocked VerificationPending"
| verified: "v \<Longrightarrow> machine_step m v q VerificationPending OraclePending"
| attested: "q \<Longrightarrow> machine_step m v q OraclePending ReleasePending"
| complete: "machine_step m v q ReleasePending Completed"
| fail: "in_flight st \<Longrightarrow> machine_step m v q st Failed"
| time_out: "in_flight st \<Longrightarrow> machine_step m v q st TimedOut"
| roll_back: "in_flight st \<Longrightarrow> machine_step m v q st RollingBack"
| returned: "machine_step m v q RollingBack RolledBack"

inductive_simps machine_step_simps: "machine_step m v q a b"
inductive_cases machine_stepE: "machine_step m v q a b"

lemma transition_allowed_step:
  "transition_allowed t a b \<longleftrightarrow>
     machine_step (bt_mode t) (bt_verification_ok t) (bt_oracle_ok t) a b"
  by (cases a; cases b) (simp_all add: transition_allowed_def machine_step_simps in_flight_def)

text \<open>The stages in order; a step without override always goes up.\<close>

fun stage :: "transfer_state \<Rightarrow> nat" where
  "stage Initiated = 0" | "stage AwaitingSource = 1" | "stage EscrowPending = 2"
| "stage EscrowLocked = 3" | "stage VerificationPending = 4" | "stage OraclePending = 5"
| "stage ReleasePending = 6" | "stage RollingBack = 7" | "stage Completed = 8"
| "stage Failed = 8" | "stage RolledBack = 8" | "stage TimedOut = 8"

lemma stage_le [simp]: "stage st \<le> 8"
  by (cases st) auto

lemma machine_step_stage: "machine_step m v q a b \<Longrightarrow> stage a < stage b"
  by (erule machine_stepE; simp add: in_flight_def; cases a; simp)

section \<open>The contract simulates it, transfer by transfer\<close>

text \<open>An entry is a transfer with its history; \<open>evolves ov\<close> is one step of it, with \<open>ov\<close> telling
  whether admin overrides are part of the histories considered.\<close>

type_synonym entry = "bridge_transfer \<times> transition_log list"

definition moved :: "bridge_transfer \<Rightarrow> transfer_state \<Rightarrow> nat \<Rightarrow> nat \<Rightarrow> bridge_transfer" where
  "moved t to n d = t\<lparr>bt_state := to, bt_updated_at := n, bt_state_deadline := d\<rparr>"

inductive evolves :: "bool \<Rightarrow> entry \<Rightarrow> entry \<Rightarrow> bool" for ov where
  move: "machine_step (bt_mode t) (bt_verification_ok t) (bt_oracle_ok t) (bt_state t) to
    \<Longrightarrow> length h < max_history_per_transfer
    \<Longrightarrow> evolves ov (t, h) (moved t to n d, h @ [\<lparr>tl_from_state = bt_state t, tl_to_state = to,
          tl_timestamp = n, tl_actor = a, tl_note = note\<rparr>])"
| override: "ov \<Longrightarrow> admin_override_allowed (bt_state t) to
    \<Longrightarrow> bt_state t \<noteq> Completed \<and> bt_state t \<noteq> Failed \<and> bt_state t \<noteq> RolledBack
    \<Longrightarrow> length h < max_history_per_transfer
    \<Longrightarrow> evolves ov (t, h) (moved t to n d, h @ [\<lparr>tl_from_state = bt_state t, tl_to_state = to,
          tl_timestamp = n, tl_actor = a, tl_note = note\<rparr>])"
| verifier_result: "bt_state t = VerificationPending
    \<Longrightarrow> evolves ov (t, h) (t\<lparr>bt_verification_ok := ok, bt_updated_at := n\<rparr>, h)"
| oracle_result: "bt_state t = OraclePending
    \<Longrightarrow> evolves ov (t, h) (t\<lparr>bt_oracle_ok := ok, bt_updated_at := n\<rparr>, h)"

inductive_cases evolvesE: "evolves ov e e'"

definition fresh :: "bridge_transfer \<Rightarrow> bool" where
  "fresh t \<longleftrightarrow> bt_state t = Initiated \<and> \<not> bt_verification_ok t \<and> \<not> bt_oracle_ok t \<and> 0 < bt_amount t"

definition reachable_entry :: "bool \<Rightarrow> entry \<Rightarrow> bool" where
  "reachable_entry ov e \<longleftrightarrow> (\<exists>t. fresh t \<and> (evolves ov)\<^sup>*\<^sup>* (t, []) e)"

definition entry_of :: "tsm_state \<Rightarrow> nat \<Rightarrow> entry option" where
  "entry_of s i = map_option (\<lambda>t. (t, get_transition_history s i)) (ts_transfers s i)"

definition simulates :: "bool \<Rightarrow> tsm_state \<Rightarrow> tsm_state \<Rightarrow> bool" where
  "simulates ov s s' \<longleftrightarrow> (\<forall>i. case entry_of s i of
       None \<Rightarrow> (\<forall>e. entry_of s' i = Some e \<longrightarrow> reachable_entry ov e)
     | Some e \<Rightarrow> (\<exists>e'. entry_of s' i = Some e' \<and> (evolves ov)\<^sup>*\<^sup>* e e'))"

definition tsm_wf :: "tsm_state \<Rightarrow> bool" where
  "tsm_wf s \<longleftrightarrow>
     (ts_transfer_seq s \<noteq> None \<longleftrightarrow> ts_initialized s \<noteq> None)
     \<and> (ts_initialized s \<noteq> None \<longrightarrow> ts_admin s \<noteq> None \<and> ts_escrow_contract s \<noteq> None)
     \<and> (\<forall>i t. ts_transfers s i = Some t \<longrightarrow>
          bt_id t = i \<and> (\<exists>n. ts_transfer_seq s = Some n \<and> i \<le> n))"

lemma reachable_entry_trans:
  "reachable_entry ov e \<Longrightarrow> (evolves ov)\<^sup>*\<^sup>* e e' \<Longrightarrow> reachable_entry ov e'"
  unfolding reachable_entry_def by (blast intro: rtranclp_trans)

lemma simulates_refl: "simulates ov s s"
  by (simp add: simulates_def split: option.split)

lemma simulates_trans:
  assumes "simulates ov s t" "simulates ov t u" shows "simulates ov s u"
  unfolding simulates_def
proof
  fix i
  show "case entry_of s i of
       None \<Rightarrow> (\<forall>e. entry_of u i = Some e \<longrightarrow> reachable_entry ov e)
     | Some e \<Rightarrow> (\<exists>e'. entry_of u i = Some e' \<and> (evolves ov)\<^sup>*\<^sup>* e e')"
    using assms(1) [unfolded simulates_def, rule_format, of i]
      assms(2) [unfolded simulates_def, rule_format, of i]
    by (cases "entry_of s i"; cases "entry_of t i")
      (auto simp: reachable_entry_def dest: rtranclp_trans)
qed

lemma simulates_frame:
  assumes "ts_transfers s' = ts_transfers s" "ts_history s' = ts_history s"
  shows "simulates ov s s'"
proof -
  have "entry_of s' = entry_of s"
    using assms by (simp add: entry_of_def get_transition_history_def fun_eq_iff)
  then show ?thesis by (simp add: simulates_def split: option.split)
qed

lemma simulates_put:
  assumes "entry_of s i = Some e" "evolves ov e e'"
    and "entry_of s' = (entry_of s)(i \<mapsto> e')"
  shows "simulates ov s s'"
  unfolding simulates_def using assms by (cases e') (auto split: option.split)

lemma load_transfer_ok [simp]: "load_transfer s i = Inr t \<longleftrightarrow> ts_transfers s i = Some t"
  by (simp add: load_transfer_def)

lemma entry_of_emit [simp]: "entry_of (ts_emit ev s) = entry_of s"
  by (simp add: entry_of_def get_transition_history_def ts_emit_def fun_eq_iff)

lemma tsm_wf_emit [simp]: "tsm_wf (ts_emit ev s) = tsm_wf s"
  by (simp add: tsm_wf_def ts_emit_def)

lemma simulates_emit [simp]: "simulates ov s (ts_emit ev s') = simulates ov s s'"
  unfolding simulates_def entry_of_emit ..

lemma ts_emit_simps [simp]: "ts_transfers (ts_emit ev s) = ts_transfers s"
  by (simp add: ts_emit_def)

lemma apply_transition_ok:
  assumes wf: "tsm_wf s" and t: "ts_transfers s i = Some t"
    and a: "apply_transition env t actor from to note s = Inr (t', s')"
  shows "\<exists>d. t' = moved t to (timestamp env) d \<and> tsm_wf s' \<and> ts_transfers s' i = Some t'
    \<and> length (get_transition_history s i) < max_history_per_transfer
    \<and> entry_of s' = (entry_of s)(i \<mapsto> (t', get_transition_history s i
        @ [\<lparr>tl_from_state = from, tl_to_state = to, tl_timestamp = timestamp env,
             tl_actor = actor, tl_note = note\<rparr>]))"
proof -
  have i: "bt_id t = i" and n: "\<exists>n. ts_transfer_seq s = Some n \<and> i \<le> n"
    using wf t by (auto simp: tsm_wf_def)
  obtain d where t': "t' = moved t to (timestamp env) d"
    and len: "length (unwrap_or (ts_history s i) []) < max_history_per_transfer"
    and s': "s' = ts_emit (TrAdv i from to) (s\<lparr>ts_transfers := (ts_transfers s)(i \<mapsto> t'),
        ts_history := (ts_history s)(i \<mapsto> unwrap_or (ts_history s i) []
          @ [\<lparr>tl_from_state = from, tl_to_state = to, tl_timestamp = timestamp env,
               tl_actor = actor, tl_note = note\<rparr>])\<rparr>)"
    using a that [of "bt_state_deadline t"] that
    by (cases t) (auto simp: apply_transition_def Let_def moved_def i [symmetric] split: if_splits)
  have "tsm_wf s'"
    unfolding s' tsm_wf_emit using wf n i by (auto simp: tsm_wf_def t' moved_def)
  with t' len show ?thesis
    by (auto simp: s' entry_of_def get_transition_history_def fun_eq_iff)
qed

text \<open>One transition of the code, allowed by its table or by the override table, is one step
  of the entry.\<close>

lemma transition_simulates:
  assumes wf: "tsm_wf s" and t: "ts_transfers s i = Some t"
    and a: "apply_transition env t actor (bt_state t) to note s = Inr (t', s')"
    and edge: "transition_allowed t (bt_state t) to
      \<or> ov \<and> admin_override_allowed (bt_state t) to
        \<and> bt_state t \<noteq> Completed \<and> bt_state t \<noteq> Failed \<and> bt_state t \<noteq> RolledBack"
  shows "tsm_wf s' \<and> simulates ov s s' \<and> ts_transfers s' i = Some t' \<and> bt_state t' = to"
proof -
  obtain d where t': "t' = moved t to (timestamp env) d" and wf': "tsm_wf s'"
    and i: "ts_transfers s' i = Some t'"
    and len: "length (get_transition_history s i) < max_history_per_transfer"
    and e: "entry_of s' = (entry_of s)(i \<mapsto> (t', get_transition_history s i
        @ [\<lparr>tl_from_state = bt_state t, tl_to_state = to, tl_timestamp = timestamp env,
             tl_actor = actor, tl_note = note\<rparr>]))"
    using apply_transition_ok [OF wf t a] by blast
  have "simulates ov s s'"
  proof (rule simulates_put [OF _ _ e])
    show "entry_of s i = Some (t, get_transition_history s i)"
      using t by (simp add: entry_of_def)
    show "evolves ov (t, get_transition_history s i) (t', get_transition_history s i
        @ [\<lparr>tl_from_state = bt_state t, tl_to_state = to, tl_timestamp = timestamp env,
             tl_actor = actor, tl_note = note\<rparr>])"
      using edge len unfolding t' transition_allowed_step
      by (elim disjE conjE) (intro evolves.move evolves.override; simp)+
  qed
  with wf' i show ?thesis by (simp add: t' moved_def)
qed

lemma advance_simulates:
  assumes "tsm_wf s" "advance_state env c i st s = Inr (u, s')"
  shows "tsm_wf s' \<and> simulates ov s s'"
proof -
  from assms(2) obtain t t' where "ts_transfers s i = Some t"
    "apply_transition env t c (bt_state t) st [] s = Inr (t', s')"
    "transition_allowed t (bt_state t) st"
    by (auto simp: advance_state_def Let_def split: if_splits)
  from transition_simulates [OF assms(1) this(1,2) disjI1 [OF this(3)]] show ?thesis by blast
qed

lemma timeout_simulates:
  assumes "tsm_wf s" "handle_timeout env i s = Inr (u, s')"
  shows "tsm_wf s' \<and> simulates ov s s'"
proof (cases "s' = s")
  case False
  with assms(2) obtain t t' s1 where "ts_transfers s i = Some t"
    "apply_transition env t (bt_initiator t) (bt_state t) TimedOut ''timeout'' s = Inr (t', s1)"
    "transition_allowed t (bt_state t) TimedOut" and s': "s' = ts_emit (TrTimeout i) s1"
    by (auto simp: handle_timeout_def Let_def split: if_splits)
  from transition_simulates [OF assms(1) this(1,2) disjI1 [OF this(3)], where ov = ov]
  show ?thesis by (simp add: s')
qed (simp add: assms(1) simulates_refl)

lemma rollback_simulates:
  assumes wf: "tsm_wf s" and r: "rollback_transfer env c i rs s = Inr (u, s')"
  shows "tsm_wf s' \<and> simulates ov s s'"
proof -
  from r obtain t t1 s1 t2 s2 where t: "ts_transfers s i = Some t" and c: "can_rollback_from (bt_state t)"
    and a: "apply_transition env t c (bt_state t) RollingBack rs s = Inr (t1, s1)"
    and b: "apply_transition env t1 c (bt_state t1) RolledBack rs s1 = Inr (t2, s2)"
    and s': "s' = ts_emit (TrRollback i) s2"
    by (auto simp: rollback_transfer_def Let_def split: if_splits)
  have "transition_allowed t (bt_state t) RollingBack"
    using c by (cases "bt_state t") (auto simp: transition_allowed_def)
  from transition_simulates [OF wf t a disjI1 [OF this], where ov = ov]
  have s1: "tsm_wf s1" "simulates ov s s1" "ts_transfers s1 i = Some t1" "bt_state t1 = RollingBack"
    by auto
  have "transition_allowed t1 (bt_state t1) RolledBack" by (simp add: s1(4) transition_allowed_def)
  from transition_simulates [OF s1(1,3) b disjI1 [OF this], where ov = ov] s1(2)
  show ?thesis by (auto simp: s' intro: simulates_trans)
qed

lemma admin_override_simulates:
  assumes "tsm_wf s" "admin_override_state env a i st n s = Inr (u, s')"
  shows "tsm_wf s' \<and> simulates True s s'"
proof -
  from assms(2) obtain t t' s1 where t: "ts_transfers s i = Some t"
    "apply_transition env t a (bt_state t) st n s = Inr (t', s1)"
    and edge: "True \<and> admin_override_allowed (bt_state t) st
        \<and> bt_state t \<noteq> Completed \<and> bt_state t \<noteq> Failed \<and> bt_state t \<noteq> RolledBack"
    and s': "s' = ts_emit (TrAdmin i st) s1"
    by (auto simp: admin_override_state_def Let_def split: if_splits)
  from transition_simulates [OF assms(1) t disjI2 [OF edge]] show ?thesis by (simp add: s')
qed

lemma auto_simulates:
  assumes wf: "tsm_wf s" and r: "try_auto_progress env i s = Inr (u, s')"
  shows "tsm_wf s' \<and> simulates ov s s'"
proof (cases "s' = s")
  case False
  with assms(2) obtain t t' s1 st where "ts_transfers s i = Some t"
    "apply_transition env t (bt_initiator t) (bt_state t) st ''auto'' s = Inr (t', s1)"
    "transition_allowed t (bt_state t) st" and s': "s' = ts_emit (TrAuto i st) s1"
    by (auto simp: try_auto_progress_def Let_def split: if_splits)
  from transition_simulates [OF assms(1) this(1,2) disjI1 [OF this(3)], where ov = ov]
  show ?thesis by (simp add: s')
qed (simp add: assms(1) simulates_refl)

lemma flag_simulates:
  assumes wf: "tsm_wf s" and t: "ts_transfers s i = Some t" and "bt_id t' = bt_id t"
    and "evolves ov (t, get_transition_history s i) (t', get_transition_history s i)"
  shows "tsm_wf (s\<lparr>ts_transfers := (ts_transfers s)(i \<mapsto> t')\<rparr>)
    \<and> simulates ov s (s\<lparr>ts_transfers := (ts_transfers s)(i \<mapsto> t')\<rparr>)"
proof -
  have "entry_of (s\<lparr>ts_transfers := (ts_transfers s)(i \<mapsto> t')\<rparr>)
      = (entry_of s)(i \<mapsto> (t', get_transition_history s i))"
    by (simp add: entry_of_def get_transition_history_def fun_eq_iff)
  then have "simulates ov s (s\<lparr>ts_transfers := (ts_transfers s)(i \<mapsto> t')\<rparr>)"
    by (intro simulates_put [OF _ assms(4)]) (simp_all add: entry_of_def t)
  moreover have "tsm_wf (s\<lparr>ts_transfers := (ts_transfers s)(i \<mapsto> t')\<rparr>)"
    using wf t assms(3) by (auto simp: tsm_wf_def)
  ultimately show ?thesis by simp
qed

lemma verification_simulates:
  assumes "tsm_wf s" "submit_verification_result env c i ok s = Inr (u, s')"
  shows "tsm_wf s' \<and> simulates ov s s'"
proof -
  from assms(2) obtain t where t: "ts_transfers s i = Some t" "bt_state t = VerificationPending"
    and s': "s' = ts_emit (TrVerified i ok) (s\<lparr>ts_transfers := (ts_transfers s)
        (i \<mapsto> t\<lparr>bt_verification_ok := ok, bt_updated_at := timestamp env\<rparr>)\<rparr>)"
    by (auto simp: submit_verification_result_def Let_def split: if_splits)
  from flag_simulates [OF assms(1) t(1) _ evolves.verifier_result [OF t(2)]]
  show ?thesis unfolding s' tsm_wf_emit simulates_emit by simp
qed

lemma oracle_simulates:
  assumes "tsm_wf s" "submit_oracle_result env c i ok s = Inr (u, s')"
  shows "tsm_wf s' \<and> simulates ov s s'"
proof -
  from assms(2) obtain t where t: "ts_transfers s i = Some t" "bt_state t = OraclePending"
    and s': "s' = ts_emit (TrOracle i ok) (s\<lparr>ts_transfers := (ts_transfers s)
        (i \<mapsto> t\<lparr>bt_oracle_ok := ok, bt_updated_at := timestamp env\<rparr>)\<rparr>)"
    by (auto simp: submit_oracle_result_def Let_def split: if_splits)
  from flag_simulates [OF assms(1) t(1) _ evolves.oracle_result [OF t(2)]]
  show ?thesis unfolding s' tsm_wf_emit simulates_emit by simp
qed

lemma initiate_simulates:
  assumes wf: "tsm_wf s" and r: "initiate_transfer env a b m x amt d s = Inr (i, s')"
  shows "tsm_wf s' \<and> simulates ov s s'"
proof -
  from r obtain n t where n: "ts_transfer_seq s = Some n" and i: "i = n + 1"
    and t: "fresh t" "bt_id t = i"
    and s': "s' = ts_emit (TrInit i Initiated) (s\<lparr>ts_transfer_seq := Some i,
       ts_transfers := (ts_transfers s)(i \<mapsto> t), ts_history := (ts_history s)(i \<mapsto> [])\<rparr>)"
    unfolding initiate_transfer_def Let_def
    by (clarsimp split: if_splits) (rule that, simp_all add: fresh_def)
  have none: "ts_transfers s i = None"
  proof (rule ccontr)
    assume "ts_transfers s i \<noteq> None"
    then have "i \<le> n" using wf n unfolding tsm_wf_def by (metis option.exhaust option.inject)
    then show False using i by simp
  qed
  have "entry_of s' = (entry_of s)(i \<mapsto> (t, []))"
    by (auto simp: s' entry_of_def get_transition_history_def fun_eq_iff)
  moreover have "entry_of s i = None" using none by (simp add: entry_of_def)
  moreover have "reachable_entry ov (t, [])" using t by (auto simp: reachable_entry_def)
  ultimately have "simulates ov s s'"
    by (auto simp: simulates_def split: option.split)
  moreover have "tsm_wf s'"
    unfolding s' tsm_wf_emit using wf n t i by (auto simp: tsm_wf_def) (metis Suc_eq_plus1 le_SucI option.inject)
  ultimately show ?thesis by simp
qed

lemma config_simulates:
  assumes wf: "tsm_wf s"
  shows "tsm_initialize env a s = Inr (u, s') \<Longrightarrow> tsm_wf s' \<and> simulates ov s s'"
    and "set_integration_contracts env a e v q s = Inr (u, s') \<Longrightarrow> tsm_wf s' \<and> simulates ov s s'"
    and "set_default_timeout env a n s = Inr (u, s') \<Longrightarrow> tsm_wf s' \<and> simulates ov s s'"
    and "set_state_timeout env a st n s = Inr (u, s') \<Longrightarrow> tsm_wf s' \<and> simulates ov s s'"
proof -
  show "tsm_initialize env a s = Inr (u, s') \<Longrightarrow> tsm_wf s' \<and> simulates ov s s'"
    using wf by (auto simp: tsm_initialize_def seed_default_timeouts_def default_timeouts_def
        tsm_wf_def split: if_splits intro!: simulates_frame)
qed (use wf in \<open>auto simp: set_integration_contracts_def set_default_timeout_def
    set_state_timeout_def tsm_wf_def split: if_splits intro!: simulates_frame\<close>)

fun is_override :: "tsm_call \<Rightarrow> bool" where
  "is_override (AdminOverrideState _ _ _ _) = True"
| "is_override _ = False"

lemmas tsm_op_simulates = config_simulates initiate_simulates advance_simulates
  timeout_simulates rollback_simulates verification_simulates oracle_simulates auto_simulates

lemma tsm_exec_simulates:
  assumes "tsm_wf s" "ov \<or> \<not> is_override c" "tsm_exec env c s = Inr s'"
  shows "tsm_wf s' \<and> simulates ov s s'"
proof (cases "is_override c")
  case True
  with assms show ?thesis by (cases c) (auto dest: admin_override_simulates)
next
  case False
  with assms(1,3) show ?thesis
    by (cases c) (auto dest: tsm_op_simulates [where ov = ov])
qed

definition all_reachable :: "bool \<Rightarrow> tsm_state \<Rightarrow> bool" where
  "all_reachable ov s \<longleftrightarrow> tsm_wf s \<and> (\<forall>i e. entry_of s i = Some e \<longrightarrow> reachable_entry ov e)"

lemma all_reachable_step:
  assumes "all_reachable ov s" "ov \<or> \<not> is_override c" "tsm_exec env c s = Inr s'"
  shows "all_reachable ov s'"
proof -
  from assms have "tsm_wf s" by (simp add: all_reachable_def)
  from tsm_exec_simulates [OF this assms(2,3)] have s': "tsm_wf s'" "simulates ov s s'" by auto
  have "reachable_entry ov e" if "entry_of s' i = Some e" for i e
    using that s'(2) [unfolded simulates_def, rule_format, of i] assms(1)
    by (cases "entry_of s i") (auto simp: all_reachable_def intro: reachable_entry_trans)
  with s'(1) show ?thesis by (simp add: all_reachable_def)
qed

lemma all_reachable_empty: "all_reachable ov tsm_empty"
  by (simp add: all_reachable_def tsm_wf_def tsm_empty_def entry_of_def)

interpretation tsm: contract_invariant tsm_exec "\<lambda>s. s = tsm_empty" "\<lambda>_. True" "all_reachable True"
  by unfold_locales (auto intro: all_reachable_empty all_reachable_step)

interpretation plain: contract_invariant tsm_exec "\<lambda>s. s = tsm_empty" "\<lambda>c. \<not> is_override c"
  "all_reachable False"
  by unfold_locales (auto intro: all_reachable_empty all_reachable_step)

interpretation evolution: contract_progress tsm_exec tsm_wf "simulates True"
  by unfold_locales (auto intro: simulates_refl simulates_trans dest: tsm_exec_simulates [where ov = True])

section \<open>What holds of every entry\<close>

fun linked :: "transfer_state \<Rightarrow> transition_log list \<Rightarrow> transfer_state \<Rightarrow> bool" where
  "linked a [] b \<longleftrightarrow> a = b"
| "linked a (x # xs) b \<longleftrightarrow> tl_from_state x = a \<and> linked (tl_to_state x) xs b"

lemma linked_snoc [simp]: "linked a (h @ [x]) c \<longleftrightarrow> linked a h (tl_from_state x) \<and> tl_to_state x = c"
  by (induction h arbitrary: a) auto

text \<open>An edge of the machine, its two gates open, or one of the admin's overrides.\<close>

definition log_edge :: "transfer_mode \<Rightarrow> bool \<Rightarrow> transition_log \<Rightarrow> bool" where
  "log_edge m ov x \<longleftrightarrow> machine_step m True True (tl_from_state x) (tl_to_state x)
     \<or> ov \<and> admin_override_allowed (tl_from_state x) (tl_to_state x)"

definition path_ok :: "bool \<Rightarrow> entry \<Rightarrow> bool" where
  "path_ok ov e \<longleftrightarrow> linked Initiated (snd e) (bt_state (fst e))
     \<and> list_all (log_edge (bt_mode (fst e)) ov) (snd e)
     \<and> length (snd e) \<le> max_history_per_transfer \<and> 0 < bt_amount (fst e)"

definition gates_ok :: "entry \<Rightarrow> bool" where
  "gates_ok e \<longleftrightarrow> length (snd e) \<le> stage (bt_state (fst e))
     \<and> (bt_state (fst e) \<in> {OraclePending, ReleasePending, Completed} \<longrightarrow> bt_verification_ok (fst e))
     \<and> (bt_state (fst e) \<in> {ReleasePending, Completed} \<longrightarrow> bt_oracle_ok (fst e))"

lemma reachable_entry_induct [consumes 1, case_names start step]:
  assumes "reachable_entry ov e"
    and "\<And>t. fresh t \<Longrightarrow> P (t, [])" and "\<And>e e'. P e \<Longrightarrow> evolves ov e e' \<Longrightarrow> P e'"
  shows "P e"
proof -
  obtain t where "fresh t" "(evolves ov)\<^sup>*\<^sup>* (t, []) e"
    using assms(1) by (auto simp: reachable_entry_def)
  from this(2,1) show ?thesis
    by (induction rule: rtranclp_induct) (auto intro: assms(2,3))
qed

lemma machine_step_gates: "machine_step m v q a b \<Longrightarrow> machine_step m True True a b"
  by (auto simp: machine_step_simps)

lemma moved_simps [simp]:
  "bt_state (moved t to n d) = to" "bt_mode (moved t to n d) = bt_mode t"
  "bt_amount (moved t to n d) = bt_amount t" "bt_id (moved t to n d) = bt_id t"
  "bt_initiator (moved t to n d) = bt_initiator t"
  "bt_verification_ok (moved t to n d) = bt_verification_ok t"
  "bt_oracle_ok (moved t to n d) = bt_oracle_ok t"
  by (simp_all add: moved_def)

lemma evolves_path: "path_ok ov e \<Longrightarrow> evolves ov e e' \<Longrightarrow> path_ok ov e'"
  by (erule evolvesE) (auto simp: path_ok_def log_edge_def dest: machine_step_gates)

lemma path_reachable: "reachable_entry ov e \<Longrightarrow> path_ok ov e"
  by (induction rule: reachable_entry_induct) (simp add: path_ok_def fresh_def, rule evolves_path)

lemma evolves_gates:
  assumes "gates_ok e" "evolves False e e'" shows "gates_ok e'"
  using assms(2)
proof cases
  case (move t to h n d a nt)
  from machine_step_stage [OF move(3)] assms(1)
  have "Suc (length h) \<le> stage to" by (simp add: gates_ok_def move)
  with move(3) assms(1) show ?thesis
    by (auto simp: gates_ok_def move(1,2) machine_step_simps in_flight_def)
qed (use assms(1) in \<open>auto simp: gates_ok_def\<close>)

lemma gates_length: "gates_ok (t, h) \<Longrightarrow> length h \<le> 8"
  by (auto simp: gates_ok_def intro: order_trans [OF _ stage_le])

lemma gates_reachable: "reachable_entry False e \<Longrightarrow> gates_ok e"
  by (induction rule: reachable_entry_induct) (simp add: gates_ok_def fresh_def, rule evolves_gates)

definition same_transfer :: "entry \<Rightarrow> entry \<Rightarrow> bool" where
  "same_transfer e e' \<longleftrightarrow> (\<exists>k. snd e' = snd e @ k)
     \<and> bt_id (fst e') = bt_id (fst e) \<and> bt_initiator (fst e') = bt_initiator (fst e)
     \<and> bt_mode (fst e') = bt_mode (fst e) \<and> bt_asset (fst e') = bt_asset (fst e)
     \<and> bt_amount (fst e') = bt_amount (fst e) \<and> bt_dest_hint (fst e') = bt_dest_hint (fst e)
     \<and> (bt_state (fst e) \<in> {Completed, Failed, RolledBack} \<longrightarrow> e' = e)"

lemma machine_step_final [simp]:
  "\<not> machine_step m v q Completed b" "\<not> machine_step m v q Failed b"
  "\<not> machine_step m v q RolledBack b" "\<not> machine_step m v q TimedOut b"
  by (simp_all add: machine_step_simps in_flight_def)

lemma evolves_same: "evolves ov e e' \<Longrightarrow> same_transfer e e'"
  by (erule evolvesE) (auto simp: same_transfer_def moved_def)

lemma same_transfer_trans: "same_transfer a b \<Longrightarrow> same_transfer b c \<Longrightarrow> same_transfer a c"
  unfolding same_transfer_def by auto

lemma evolves_star_same: "(evolves ov)\<^sup>*\<^sup>* e e' \<Longrightarrow> same_transfer e e'"
  by (induction rule: rtranclp_induct)
    (auto simp: same_transfer_def [of e e] intro: same_transfer_trans evolves_same)

section \<open>Properties\<close>

definition tsm_env :: "nat \<Rightarrow> env" where
  "tsm_env t = \<lparr>timestamp = t, auths = [''A'', ''U'', ''V'', ''O'', ''E'']\<rparr>"

definition tsm_history :: "(env \<times> tsm_call) list" where
  "tsm_history = [
     (tsm_env 1, TsmInitialize ''A''),
     (tsm_env 1, SetIntegrationContracts ''A'' ''E'' ''V'' ''O''),
     (tsm_env 2, InitiateTransfer ''U'' Cctp FastTrack ''usdc'' 500 ''x''),
     (tsm_env 2, InitiateTransfer ''U'' Cctp Standard ''usdc'' 700 ''x''),
     (tsm_env 3, AdvanceState ''U'' 1 EscrowPending),
     (tsm_env 4, AdvanceState ''E'' 1 EscrowLocked),
     (tsm_env 5, AdvanceState ''U'' 1 VerificationPending),
     (tsm_env 6, TryAutoProgress 1),
     (tsm_env 6, SubmitVerificationResult ''V'' 1 True),
     (tsm_env 7, TryAutoProgress 1),
     (tsm_env 8, SubmitOracleResult ''O'' 1 True),
     (tsm_env 9, TryAutoProgress 1),
     (tsm_env 10, AdvanceState ''U'' 1 Completed)]"

lemma tsm_history_plain: "list_all ((\<lambda>c. \<not> is_override c) \<circ> snd) tsm_history"
  by (simp add: tsm_history_def)

lemma tsm_demo:
  "map_option bt_state (ts_transfers (run tsm_exec tsm_empty tsm_history) 1) = Some Completed"
  "map_option (\<lambda>t. (bt_state t, bt_initiator t, bt_state_deadline t))
     (ts_transfers (run tsm_exec tsm_empty tsm_history) 2) = Some (Initiated, ''U'', 3602)"
  by code_simp+

text \<open>Also: the code's transition table is exactly the abstract machine: a transfer may move from
  one state to another if and only if the machine, with the transfer's mode and its recorded
  attestations, has that step.\<close>

theorem transition_table_machine:
  "transition_allowed t a b \<longleftrightarrow>
     machine_step (bt_mode t) (bt_verification_ok t) (bt_oracle_ok t) a b"
  by (rule transition_allowed_step)

text \<open>C9: whatever calls are made, in any order, the stored history of a transfer is a path of
  the machine from Initiated to its current state, each entry starting where the one before
  ended and being an edge of the machine or an admin override, and at most 48 long.\<close>

theorem history_is_path:
  assumes "ts_transfers (run tsm_exec tsm_empty h) i = Some t"
  shows "bt_id t = i
    \<and> linked Initiated (get_transition_history (run tsm_exec tsm_empty h) i) (bt_state t)
    \<and> list_all (log_edge (bt_mode t) True) (get_transition_history (run tsm_exec tsm_empty h) i)
    \<and> length (get_transition_history (run tsm_exec tsm_empty h) i) \<le> max_history_per_transfer"
proof -
  have all: "all_reachable True (run tsm_exec tsm_empty h)"
    by (rule tsm.run_inv) (simp_all add: list_all_iff)
  with assms have "reachable_entry True (t, get_transition_history (run tsm_exec tsm_empty h) i)"
    and "bt_id t = i"
    by (auto simp: all_reachable_def entry_of_def tsm_wf_def)
  then show ?thesis by (auto dest: path_reachable simp: path_ok_def)
qed

theorem history_is_path_witness:
  "\<exists>t. ts_transfers (run tsm_exec tsm_empty tsm_history) 1 = Some t \<and> bt_id t = 1
     \<and> linked Initiated (get_transition_history (run tsm_exec tsm_empty tsm_history) 1) Completed"
  using tsm_demo(1) history_is_path [of tsm_history 1] by auto

text \<open>C7: without admin overrides nothing is released unattested: a transfer past the
  verification stage has its verification recorded as passed, one past the oracle stage both
  attestations, so a completed transfer was verified and attested; and a transfer makes at most
  eight transitions, so the history limit is never reached.\<close>

theorem completed_was_attested:
  assumes "list_all ((\<lambda>c. \<not> is_override c) \<circ> snd) h"
    and "ts_transfers (run tsm_exec tsm_empty h) i = Some t"
  shows "(bt_state t \<in> {OraclePending, ReleasePending, Completed} \<longrightarrow> bt_verification_ok t)
    \<and> (bt_state t \<in> {ReleasePending, Completed} \<longrightarrow> bt_oracle_ok t)
    \<and> length (get_transition_history (run tsm_exec tsm_empty h) i) \<le> 8"
proof -
  have "all_reachable False (run tsm_exec tsm_empty h)"
    by (rule plain.run_inv [OF refl assms(1)])
  with assms(2)
  have "reachable_entry False (t, get_transition_history (run tsm_exec tsm_empty h) i)"
    by (auto simp: all_reachable_def entry_of_def)
  from gates_reachable [OF this] gates_length [OF gates_reachable [OF this]] show ?thesis
    by (simp add: gates_ok_def)
qed

theorem completed_was_attested_witness:
  "\<exists>t. ts_transfers (run tsm_exec tsm_empty tsm_history) 1 = Some t \<and> bt_state t = Completed
     \<and> bt_verification_ok t \<and> bt_oracle_ok t"
  using tsm_demo(1) completed_was_attested [OF tsm_history_plain, of 1] by auto

text \<open>Also: from any reachable state on, whatever is called (overrides included), a transfer keeps
  its parties, mode, asset and amount, its history only grows at the end, and once it is
  completed, failed or rolled back neither it nor its history ever changes again.\<close>

theorem transfer_final:
  assumes "ts_transfers (run tsm_exec tsm_empty h) i = Some t"
  shows "\<exists>t' k. ts_transfers (run tsm_exec tsm_empty (h @ h')) i = Some t'
    \<and> get_transition_history (run tsm_exec tsm_empty (h @ h')) i
        = get_transition_history (run tsm_exec tsm_empty h) i @ k
    \<and> bt_initiator t' = bt_initiator t \<and> bt_mode t' = bt_mode t \<and> bt_asset t' = bt_asset t
    \<and> bt_amount t' = bt_amount t
    \<and> (bt_state t \<in> {Completed, Failed, RolledBack} \<longrightarrow> t' = t \<and> k = [])"
proof -
  have "all_reachable True (run tsm_exec tsm_empty h)"
    by (rule tsm.run_inv) (simp_all add: list_all_iff)
  then have "tsm_wf (run tsm_exec tsm_empty h)" by (simp add: all_reachable_def)
  from evolution.run_rel [OF this, of h'] assms
  obtain t' where "ts_transfers (run tsm_exec tsm_empty (h @ h')) i = Some t'"
    and "same_transfer (t, get_transition_history (run tsm_exec tsm_empty h) i)
      (t', get_transition_history (run tsm_exec tsm_empty (h @ h')) i)"
    unfolding simulates_def run_append entry_of_def
    by (auto dest!: spec [of _ i] evolves_star_same)
  then show ?thesis by (auto simp: same_transfer_def)
qed

theorem transfer_final_witness:
  "\<exists>t t'. ts_transfers (run tsm_exec tsm_empty tsm_history) 1 = Some t \<and> bt_state t = Completed
     \<and> ts_transfers (run tsm_exec tsm_empty
         (tsm_history @ [(tsm_env 11, RollbackTransfer ''U'' 1 ''no'')])) 1 = Some t' \<and> t' = t"
  using tsm_demo(1) transfer_final [of tsm_history 1 _ "[(tsm_env 11, RollbackTransfer ''U'' 1 ''no'')]"]
  by fastforce

text \<open>C12: nothing in flight is stuck. In every state reached without admin overrides, a transfer in
  flight (neither final nor timed out nor rolling back) whose deadline has passed can be timed out by
  anyone, and the call succeeds; before that it is refused. And its initiator can roll it back at
  any time by a signed call, which succeeds and leaves it rolled back exactly when the ledger time
  plus the timeout configured for the rolling-back state fits a u64: the admin's choice of that
  timeout can therefore block rollbacks by an overflow trap.\<close>

theorem in_flight_can_end:
  assumes "list_all ((\<lambda>c. \<not> is_override c) \<circ> snd) h"
    and "ts_transfers (run tsm_exec tsm_empty h) i = Some t" "in_flight (bt_state t)"
  shows "(if bt_state_deadline t < timestamp env
      then \<exists>s'. tsm_exec env (HandleTimeout i) (run tsm_exec tsm_empty h) = Inr s'
        \<and> map_option bt_state (ts_transfers s' i) = Some TimedOut
      else \<not> is_ok (tsm_exec env (HandleTimeout i) (run tsm_exec tsm_empty h)))
    \<and> (bt_initiator t \<in> set (auths env) \<longrightarrow>
      (if timestamp env + timeout_secs_for (run tsm_exec tsm_empty h) RollingBack \<le> u64_max
       then \<exists>s'. tsm_exec env (RollbackTransfer (bt_initiator t) i r) (run tsm_exec tsm_empty h) = Inr s'
        \<and> map_option bt_state (ts_transfers s' i) = Some RolledBack
       else \<not> is_ok (tsm_exec env (RollbackTransfer (bt_initiator t) i r) (run tsm_exec tsm_empty h))))"
proof -
  define s where "s = run tsm_exec tsm_empty h"
  have "all_reachable False s" unfolding s_def by (rule plain.run_inv [OF refl assms(1)])
  with assms(2) have re: "reachable_entry False (t, get_transition_history s i)" and bi: "bt_id t = i"
    by (auto simp: all_reachable_def entry_of_def tsm_wf_def s_def [symmetric])
  have hl: "length (unwrap_or (ts_history s i) []) \<le> 8"
    using gates_length [OF gates_reachable [OF re]] by (simp add: get_transition_history_def)
  have st: "\<not> is_terminal (bt_state t)" "can_rollback_from (bt_state t)"
    "transition_allowed t (bt_state t) TimedOut"
    using assms(3) by (cases "bt_state t"; simp add: in_flight_def transition_allowed_def)+
  note ops = handle_timeout_def rollback_transfer_def apply_transition_def Let_def bi
        max_history_per_transfer_def state_of_def ts_emit_def load_transfer_def
  have late: "bt_state_deadline t < timestamp env \<Longrightarrow> \<exists>s'. tsm_exec env (HandleTimeout i) s = Inr s'
        \<and> map_option bt_state (ts_transfers s' i) = Some TimedOut"
    and early: "\<not> bt_state_deadline t < timestamp env \<Longrightarrow> \<not> is_ok (tsm_exec env (HandleTimeout i) s)"
    and rolled: "bt_initiator t \<in> set (auths env) \<Longrightarrow> timestamp env + timeout_secs_for s RollingBack \<le> u64_max \<Longrightarrow>
        \<exists>s'. tsm_exec env (RollbackTransfer (bt_initiator t) i r) s = Inr s'
          \<and> map_option bt_state (ts_transfers s' i) = Some RolledBack"
    and trap: "bt_initiator t \<in> set (auths env) \<Longrightarrow> \<not> timestamp env + timeout_secs_for s RollingBack \<le> u64_max \<Longrightarrow>
        \<not> is_ok (tsm_exec env (RollbackTransfer (bt_initiator t) i r) s)"
    using assms(2) st hl unfolding s_def [symmetric] by (auto simp: ops is_ok_iff)
  show ?thesis unfolding s_def [symmetric] using late early rolled trap by auto
qed

theorem in_flight_can_end_witness:
  "(\<exists>s'. tsm_exec (tsm_env 4000) (HandleTimeout 2) (run tsm_exec tsm_empty tsm_history) = Inr s'
     \<and> map_option bt_state (ts_transfers s' 2) = Some TimedOut)
   \<and> \<not> is_ok (tsm_exec (tsm_env 3602) (HandleTimeout 2) (run tsm_exec tsm_empty tsm_history))
   \<and> (\<exists>s'. tsm_exec (tsm_env 100) (RollbackTransfer ''U'' 2 ''changed my mind'') (run tsm_exec tsm_empty tsm_history) = Inr s'
     \<and> map_option bt_state (ts_transfers s' 2) = Some RolledBack)"
proof -
  obtain t where t: "ts_transfers (run tsm_exec tsm_empty tsm_history) 2 = Some t"
    "bt_state t = Initiated" "bt_state_deadline t = 3602"
    using tsm_demo(2) by auto
  have "map_option bt_initiator (ts_transfers (run tsm_exec tsm_empty tsm_history) 2) = Some ''U''" by code_simp
  then have u: "bt_initiator t = ''U''" using t(1) by simp
  have "100 + timeout_secs_for (run tsm_exec tsm_empty tsm_history) RollingBack \<le> u64_max" by code_simp
  with t u in_flight_can_end [OF tsm_history_plain t(1), of "tsm_env 4000"]
    in_flight_can_end [OF tsm_history_plain t(1), of "tsm_env 3602"]
    in_flight_can_end [OF tsm_history_plain t(1), of "tsm_env 100" "''changed my mind''"]
  show ?thesis by (auto simp: in_flight_def tsm_env_def)
qed

end
