(* ===== verification/Access_Control.thy ===== *)
theory Access_Control
  imports Soroban
begin

text \<open>
  The access control list (\<open>soroban/src/acl.rs\<close>) and its entry points in the main contract
  (\<open>acl_*\<close> of \<open>soroban/src/lib.rs\<close>): role grants and direct permission grants with expiry, the
  inheritance table, and the permission check used by the other modules. \<open>acl_state\<close> holds the
  two grant lists with the admin and the global pause flag the entry points read; it is an
  extensible record, so that a module that relies on the check extends it. Lemmas: the grant
  lists are finite maps, the check is the union of the inherited and direct permissions, and no
  permission can be gained without the admin or a holder of \<open>ManagePermissions\<close>.
\<close>

section \<open>Data\<close>

datatype permission =
    SubmitHealth | SubmitPrice | ManageAssets | ManageAlerts | ManageConfig | ViewAnalytics
  | ViewHealth | ViewPrice | ManagePermissions | EmergencyPause | ManageUpgrades

datatype role = SuperAdmin | Admin | Operator | ReadOnly

record role_grant =
  rg_grantee :: address
  rg_role :: role
  rg_granted_by :: address
  rg_granted_at :: nat
  rg_expires_at :: nat

record permission_grant =
  pg_grantee :: address
  pg_permission :: permission
  pg_granted_by :: address
  pg_granted_at :: nat
  pg_expires_at :: nat

record bulk_role_entry =
  bre_grantee :: address
  bre_role :: role
  bre_expires_at :: nat

record bulk_permission_entry =
  bpe_grantee :: address
  bpe_permission :: permission
  bpe_expires_at :: nat

datatype acl_event =
    AclRoleGranted address role nat | AclRoleRevoked address role
  | AclPermissionGranted address permission nat | AclPermissionRevoked address permission

record acl_state =
  ac_admin :: "address option"
  ac_global_paused :: "bool option"
  ac_role_grants :: "role_grant list option"
  ac_permission_grants :: "permission_grant list option"
  ac_events :: "acl_event list"

type_synonym 'a acl_res = "(unit, 'a) res"

definition ac_emit :: "acl_event \<Rightarrow> 'z acl_state_scheme \<Rightarrow> 'z acl_state_scheme" where
  "ac_emit ev s = s\<lparr>ac_events := ac_events s @ [ev]\<rparr>"

fun role_permissions :: "role \<Rightarrow> permission list" where
  "role_permissions SuperAdmin = [SubmitHealth, SubmitPrice, ManageAssets, ManageAlerts,
     ManageConfig, ViewAnalytics, ViewHealth, ViewPrice, ManagePermissions, EmergencyPause,
     ManageUpgrades]"
| "role_permissions Admin = [SubmitHealth, SubmitPrice, ManageAssets, ManageAlerts,
     ManageConfig, ViewAnalytics, ViewHealth, ViewPrice]"
| "role_permissions Operator = [SubmitHealth, SubmitPrice, ManageAlerts, ViewAnalytics,
     ViewHealth, ViewPrice]"
| "role_permissions ReadOnly = [ViewAnalytics, ViewHealth, ViewPrice]"

section \<open>The check\<close>

definition role_grants :: "'z acl_state_scheme \<Rightarrow> role_grant list" where
  "role_grants s = unwrap_or (ac_role_grants s) []"

definition permission_grants :: "'z acl_state_scheme \<Rightarrow> permission_grant list" where
  "permission_grants s = unwrap_or (ac_permission_grants s) []"

primrec role_loop :: "nat \<Rightarrow> address \<Rightarrow> role \<Rightarrow> role_grant list \<Rightarrow> bool" where
  "role_loop now who r [] = False"
| "role_loop now who r (g # gs) =
     (if rg_grantee g = who \<and> rg_role g = r \<and> (rg_expires_at g = 0 \<or> rg_expires_at g > now)
      then True else role_loop now who r gs)"

definition has_role_internal :: "env \<Rightarrow> 'z acl_state_scheme \<Rightarrow> address \<Rightarrow> role \<Rightarrow> bool" where
  "has_role_internal env s who r = role_loop (timestamp env) who r (role_grants s)"

primrec inherited_loop :: "nat \<Rightarrow> address \<Rightarrow> permission \<Rightarrow> role_grant list \<Rightarrow> bool" where
  "inherited_loop now who p [] = False"
| "inherited_loop now who p (g # gs) =
     (if rg_grantee g \<noteq> who then inherited_loop now who p gs
      else if rg_expires_at g \<noteq> 0 \<and> rg_expires_at g \<le> now then inherited_loop now who p gs
      else if rg_role g = SuperAdmin then True
      else if p \<in> set (role_permissions (rg_role g)) then True
      else inherited_loop now who p gs)"

primrec direct_loop :: "nat \<Rightarrow> address \<Rightarrow> permission \<Rightarrow> permission_grant list \<Rightarrow> bool" where
  "direct_loop now who p [] = False"
| "direct_loop now who p (g # gs) =
     (if pg_grantee g = who \<and> pg_permission g = p
         \<and> (pg_expires_at g = 0 \<or> pg_expires_at g > now)
      then True else direct_loop now who p gs)"

definition has_permission_internal ::
  "env \<Rightarrow> 'z acl_state_scheme \<Rightarrow> address \<Rightarrow> permission \<Rightarrow> bool" where
  "has_permission_internal env s who p =
     (if inherited_loop (timestamp env) who p (role_grants s) then True
      else direct_loop (timestamp env) who p (permission_grants s))"

definition require_permission ::
  "env \<Rightarrow> 'z acl_state_scheme \<Rightarrow> address \<Rightarrow> address \<Rightarrow> permission \<Rightarrow> unit acl_res" where
  "require_permission env s caller admin p =
     and_then (require_auth env caller) (\<lambda>_.
     if caller = admin then Inr ()
     else if \<not> has_permission_internal env s caller p
     then Inl (Panic ''unauthorized: caller lacks the required permission'')
     else Inr ())"

section \<open>Grants and revocations\<close>

definition grant_role_internal ::
  "env \<Rightarrow> address \<Rightarrow> role \<Rightarrow> address \<Rightarrow> nat \<Rightarrow> 'z acl_state_scheme \<Rightarrow> 'z acl_state_scheme" where
  "grant_role_internal env grantee r granted_by expires_at s =
     (let g' = \<lparr>rg_grantee = grantee, rg_role = r, rg_granted_by = granted_by,
            rg_granted_at = timestamp env, rg_expires_at = expires_at\<rparr> in
      s\<lparr>ac_role_grants := Some (upsert (\<lambda>g. rg_grantee g = grantee \<and> rg_role g = r)
          (\<lambda>g. g\<lparr>rg_granted_by := granted_by, rg_granted_at := timestamp env,
                 rg_expires_at := expires_at\<rparr>) g' (role_grants s))\<rparr>)"

definition revoke_role_internal ::
  "address \<Rightarrow> role \<Rightarrow> 'z acl_state_scheme \<Rightarrow> 'z acl_state_scheme" where
  "revoke_role_internal grantee r s =
     s\<lparr>ac_role_grants := Some (filter (\<lambda>g. \<not> (rg_grantee g = grantee \<and> rg_role g = r))
         (role_grants s))\<rparr>"

definition grant_permission_internal ::
  "env \<Rightarrow> address \<Rightarrow> permission \<Rightarrow> address \<Rightarrow> nat \<Rightarrow> 'z acl_state_scheme \<Rightarrow> 'z acl_state_scheme"
where
  "grant_permission_internal env grantee p granted_by expires_at s =
     (let g' = \<lparr>pg_grantee = grantee, pg_permission = p, pg_granted_by = granted_by,
            pg_granted_at = timestamp env, pg_expires_at = expires_at\<rparr> in
      s\<lparr>ac_permission_grants := Some (upsert (\<lambda>g. pg_grantee g = grantee \<and> pg_permission g = p)
          (\<lambda>g. g\<lparr>pg_granted_by := granted_by, pg_granted_at := timestamp env,
                 pg_expires_at := expires_at\<rparr>) g' (permission_grants s))\<rparr>)"

definition revoke_permission_internal ::
  "address \<Rightarrow> permission \<Rightarrow> 'z acl_state_scheme \<Rightarrow> 'z acl_state_scheme" where
  "revoke_permission_internal grantee p s =
     s\<lparr>ac_permission_grants := Some (filter (\<lambda>g. \<not> (pg_grantee g = grantee \<and> pg_permission g = p))
         (permission_grants s))\<rparr>"

section \<open>Entry points of the main contract\<close>

definition assert_not_globally_paused :: "'z acl_state_scheme \<Rightarrow> unit acl_res" where
  "assert_not_globally_paused s = ensure (\<not> unwrap_or (ac_global_paused s) False)
     (Panic ''contract is globally paused; all write operations are halted'')"

definition acl_grant_role ::
  "env \<Rightarrow> address \<Rightarrow> address \<Rightarrow> role \<Rightarrow> nat \<Rightarrow> 'z acl_state_scheme
     \<Rightarrow> (unit \<times> 'z acl_state_scheme) acl_res" where
  "acl_grant_role env caller grantee r expires_at s =
     and_then (assert_not_globally_paused s) (\<lambda>_.
     and_then (unwrap (ac_admin s)) (\<lambda>admin.
     and_then (require_permission env s caller admin ManagePermissions) (\<lambda>_.
     Inr ((), ac_emit (AclRoleGranted grantee r expires_at)
       (grant_role_internal env grantee r caller expires_at s)))))"

definition acl_revoke_role ::
  "env \<Rightarrow> address \<Rightarrow> address \<Rightarrow> role \<Rightarrow> 'z acl_state_scheme
     \<Rightarrow> (unit \<times> 'z acl_state_scheme) acl_res" where
  "acl_revoke_role env caller grantee r s =
     and_then (assert_not_globally_paused s) (\<lambda>_.
     and_then (unwrap (ac_admin s)) (\<lambda>admin.
     and_then (require_permission env s caller admin ManagePermissions) (\<lambda>_.
     Inr ((), ac_emit (AclRoleRevoked grantee r) (revoke_role_internal grantee r s)))))"

definition acl_grant_permission ::
  "env \<Rightarrow> address \<Rightarrow> address \<Rightarrow> permission \<Rightarrow> nat \<Rightarrow> 'z acl_state_scheme
     \<Rightarrow> (unit \<times> 'z acl_state_scheme) acl_res" where
  "acl_grant_permission env caller grantee p expires_at s =
     and_then (assert_not_globally_paused s) (\<lambda>_.
     and_then (unwrap (ac_admin s)) (\<lambda>admin.
     and_then (require_permission env s caller admin ManagePermissions) (\<lambda>_.
     Inr ((), ac_emit (AclPermissionGranted grantee p expires_at)
       (grant_permission_internal env grantee p caller expires_at s)))))"

definition acl_revoke_permission ::
  "env \<Rightarrow> address \<Rightarrow> address \<Rightarrow> permission \<Rightarrow> 'z acl_state_scheme
     \<Rightarrow> (unit \<times> 'z acl_state_scheme) acl_res" where
  "acl_revoke_permission env caller grantee p s =
     and_then (assert_not_globally_paused s) (\<lambda>_.
     and_then (unwrap (ac_admin s)) (\<lambda>admin.
     and_then (require_permission env s caller admin ManagePermissions) (\<lambda>_.
     Inr ((), ac_emit (AclPermissionRevoked grantee p) (revoke_permission_internal grantee p s)))))"

definition acl_has_role :: "env \<Rightarrow> 'z acl_state_scheme \<Rightarrow> address \<Rightarrow> role \<Rightarrow> bool" where
  "acl_has_role env s who r = has_role_internal env s who r"

definition acl_has_permission ::
  "env \<Rightarrow> 'z acl_state_scheme \<Rightarrow> address \<Rightarrow> permission \<Rightarrow> bool acl_res" where
  "acl_has_permission env s who p =
     and_then (unwrap (ac_admin s)) (\<lambda>admin.
     if who = admin then Inr True else Inr (has_permission_internal env s who p))"

definition acl_get_roles_for :: "'z acl_state_scheme \<Rightarrow> address \<Rightarrow> role_grant list" where
  "acl_get_roles_for s who = filter (\<lambda>g. rg_grantee g = who) (role_grants s)"

definition acl_get_permissions_for :: "'z acl_state_scheme \<Rightarrow> address \<Rightarrow> permission_grant list" where
  "acl_get_permissions_for s who = filter (\<lambda>g. pg_grantee g = who) (permission_grants s)"

definition acl_bulk_grant_roles ::
  "env \<Rightarrow> address \<Rightarrow> bulk_role_entry list \<Rightarrow> 'z acl_state_scheme
     \<Rightarrow> (unit \<times> 'z acl_state_scheme) acl_res" where
  "acl_bulk_grant_roles env caller entries s =
     and_then (assert_not_globally_paused s) (\<lambda>_.
     and_then (unwrap (ac_admin s)) (\<lambda>admin.
     and_then (require_permission env s caller admin ManagePermissions) (\<lambda>_.
     if length entries > 20 then Inl (Panic ''bulk grant exceeds maximum of 20 entries'')
     else Inr ((), fold (\<lambda>e s. ac_emit (AclRoleGranted (bre_grantee e) (bre_role e) (bre_expires_at e))
       (grant_role_internal env (bre_grantee e) (bre_role e) caller (bre_expires_at e) s))
       entries s))))"

definition acl_bulk_revoke_roles ::
  "env \<Rightarrow> address \<Rightarrow> bulk_role_entry list \<Rightarrow> 'z acl_state_scheme
     \<Rightarrow> (unit \<times> 'z acl_state_scheme) acl_res" where
  "acl_bulk_revoke_roles env caller entries s =
     and_then (assert_not_globally_paused s) (\<lambda>_.
     and_then (unwrap (ac_admin s)) (\<lambda>admin.
     and_then (require_permission env s caller admin ManagePermissions) (\<lambda>_.
     if length entries > 20 then Inl (Panic ''bulk revoke exceeds maximum of 20 entries'')
     else Inr ((), fold (\<lambda>e s. ac_emit (AclRoleRevoked (bre_grantee e) (bre_role e))
       (revoke_role_internal (bre_grantee e) (bre_role e) s)) entries s))))"

definition acl_bulk_grant_permissions ::
  "env \<Rightarrow> address \<Rightarrow> bulk_permission_entry list \<Rightarrow> 'z acl_state_scheme
     \<Rightarrow> (unit \<times> 'z acl_state_scheme) acl_res" where
  "acl_bulk_grant_permissions env caller entries s =
     and_then (assert_not_globally_paused s) (\<lambda>_.
     and_then (unwrap (ac_admin s)) (\<lambda>admin.
     and_then (require_permission env s caller admin ManagePermissions) (\<lambda>_.
     if length entries > 20 then Inl (Panic ''bulk grant exceeds maximum of 20 entries'')
     else Inr ((), fold (\<lambda>e s.
       ac_emit (AclPermissionGranted (bpe_grantee e) (bpe_permission e) (bpe_expires_at e))
         (grant_permission_internal env (bpe_grantee e) (bpe_permission e) caller
           (bpe_expires_at e) s)) entries s))))"

definition acl_bulk_revoke_permissions ::
  "env \<Rightarrow> address \<Rightarrow> bulk_permission_entry list \<Rightarrow> 'z acl_state_scheme
     \<Rightarrow> (unit \<times> 'z acl_state_scheme) acl_res" where
  "acl_bulk_revoke_permissions env caller entries s =
     and_then (assert_not_globally_paused s) (\<lambda>_.
     and_then (unwrap (ac_admin s)) (\<lambda>admin.
     and_then (require_permission env s caller admin ManagePermissions) (\<lambda>_.
     if length entries > 20 then Inl (Panic ''bulk revoke exceeds maximum of 20 entries'')
     else Inr ((), fold (\<lambda>e s. ac_emit (AclPermissionRevoked (bpe_grantee e) (bpe_permission e))
       (revoke_permission_internal (bpe_grantee e) (bpe_permission e) s)) entries s))))"

datatype acl_call =
    AclGrantRole address address role nat
  | AclRevokeRole address address role
  | AclGrantPermission address address permission nat
  | AclRevokePermission address address permission
  | AclBulkGrantRoles address "bulk_role_entry list"
  | AclBulkRevokeRoles address "bulk_role_entry list"
  | AclBulkGrantPermissions address "bulk_permission_entry list"
  | AclBulkRevokePermissions address "bulk_permission_entry list"

fun acl_exec ::
  "env \<Rightarrow> acl_call \<Rightarrow> 'z acl_state_scheme \<Rightarrow> 'z acl_state_scheme acl_res" where
  "acl_exec env (AclGrantRole c a r e) s = state_of (acl_grant_role env c a r e s)"
| "acl_exec env (AclRevokeRole c a r) s = state_of (acl_revoke_role env c a r s)"
| "acl_exec env (AclGrantPermission c a p e) s = state_of (acl_grant_permission env c a p e s)"
| "acl_exec env (AclRevokePermission c a p) s = state_of (acl_revoke_permission env c a p s)"
| "acl_exec env (AclBulkGrantRoles c es) s = state_of (acl_bulk_grant_roles env c es s)"
| "acl_exec env (AclBulkRevokeRoles c es) s = state_of (acl_bulk_revoke_roles env c es s)"
| "acl_exec env (AclBulkGrantPermissions c es) s = state_of (acl_bulk_grant_permissions env c es s)"
| "acl_exec env (AclBulkRevokePermissions c es) s = state_of (acl_bulk_revoke_permissions env c es s)"

text \<open>The initialised contract before its first grant.\<close>

definition acl_initial :: "address \<Rightarrow> acl_state" where
  "acl_initial admin = \<lparr>ac_admin = Some admin, ac_global_paused = None, ac_role_grants = None,
     ac_permission_grants = None, ac_events = []\<rparr>"

section \<open>The grant lists as maps\<close>

definition role_key :: "role_grant \<Rightarrow> address \<times> role" where
  "role_key g = (rg_grantee g, rg_role g)"

definition permission_key :: "permission_grant \<Rightarrow> address \<times> permission" where
  "permission_key g = (pg_grantee g, pg_permission g)"

definition put_role :: "role_grant \<Rightarrow> role_grant list \<Rightarrow> role_grant list" where
  "put_role g gs = upsert (\<lambda>g'. rg_grantee g' = rg_grantee g \<and> rg_role g' = rg_role g)
     (\<lambda>g'. g'\<lparr>rg_granted_by := rg_granted_by g, rg_granted_at := rg_granted_at g,
              rg_expires_at := rg_expires_at g\<rparr>) g gs"

definition put_permission :: "permission_grant \<Rightarrow> permission_grant list \<Rightarrow> permission_grant list" where
  "put_permission g gs = upsert (\<lambda>g'. pg_grantee g' = pg_grantee g \<and> pg_permission g' = pg_permission g)
     (\<lambda>g'. g'\<lparr>pg_granted_by := pg_granted_by g, pg_granted_at := pg_granted_at g,
              pg_expires_at := pg_expires_at g\<rparr>) g gs"

definition del_role :: "address \<times> role \<Rightarrow> role_grant list \<Rightarrow> role_grant list" where
  "del_role k gs = filter (\<lambda>g. \<not> (rg_grantee g = fst k \<and> rg_role g = snd k)) gs"

definition del_permission :: "address \<times> permission \<Rightarrow> permission_grant list \<Rightarrow> permission_grant list" where
  "del_permission k gs = filter (\<lambda>g. \<not> (pg_grantee g = fst k \<and> pg_permission g = snd k)) gs"

lemma put_role_upsert: "put_role x xs = upsert (\<lambda>y. role_key y = role_key x) (\<lambda>_. x) x xs"
  by (induction xs) (auto simp: put_role_def role_key_def)

lemma put_permission_upsert:
  "put_permission x xs = upsert (\<lambda>y. permission_key y = permission_key x) (\<lambda>_. x) x xs"
  by (induction xs) (auto simp: put_permission_def permission_key_def)

interpretation roles: keyed_list role_key put_role del_role
  by unfold_locales (auto simp: put_role_upsert del_role_def role_key_def intro!: filter_cong)

interpretation permissions: keyed_list permission_key put_permission del_permission
  by unfold_locales (auto simp: put_permission_upsert del_permission_def permission_key_def
      intro!: filter_cong)

lemma acl_internal [simp]:
  "role_grants (grant_role_internal env a r by t s) = put_role \<lparr>rg_grantee = a, rg_role = r,
     rg_granted_by = by, rg_granted_at = timestamp env, rg_expires_at = t\<rparr> (role_grants s)"
  "permission_grants (grant_role_internal env a r by t s) = permission_grants s"
  "role_grants (revoke_role_internal a r s) = del_role (a, r) (role_grants s)"
  "permission_grants (revoke_role_internal a r s) = permission_grants s"
  "permission_grants (grant_permission_internal env a p by t s) = put_permission \<lparr>pg_grantee = a,
     pg_permission = p, pg_granted_by = by, pg_granted_at = timestamp env, pg_expires_at = t\<rparr>
     (permission_grants s)"
  "role_grants (grant_permission_internal env a p by t s) = role_grants s"
  "permission_grants (revoke_permission_internal a p s) = del_permission (a, p) (permission_grants s)"
  "role_grants (revoke_permission_internal a p s) = role_grants s"
  by (simp_all add: grant_role_internal_def revoke_role_internal_def grant_permission_internal_def
      revoke_permission_internal_def role_grants_def permission_grants_def put_role_def
      put_permission_def del_role_def del_permission_def Let_def)

lemma acl_emit [simp]:
  "role_grants (ac_emit ev s) = role_grants s" "permission_grants (ac_emit ev s) = permission_grants s"
  by (simp_all add: ac_emit_def role_grants_def permission_grants_def)

text \<open>The abstract access control list: two maps from who and what to the expiry.\<close>

type_synonym acl_maps =
  "(address \<times> role \<rightharpoonup> nat) \<times> (address \<times> permission \<rightharpoonup> nat)"

definition acl_abs :: "'z acl_state_scheme \<Rightarrow> acl_maps" where
  "acl_abs s = (\<lambda>k. map_option rg_expires_at (find_key role_key k (role_grants s)),
     \<lambda>k. map_option pg_expires_at (find_key permission_key k (permission_grants s)))"

definition active :: "nat \<Rightarrow> nat \<Rightarrow> bool" where
  "active now expires \<longleftrightarrow> expires = 0 \<or> now < expires"

definition permitted :: "nat \<Rightarrow> acl_maps \<Rightarrow> address \<Rightarrow> permission \<Rightarrow> bool" where
  "permitted now m who p \<longleftrightarrow>
     (\<exists>r t. fst m (who, r) = Some t \<and> active now t \<and> p \<in> set (role_permissions r))
     \<or> (\<exists>t. snd m (who, p) = Some t \<and> active now t)"

fun acl_spec :: "acl_call \<Rightarrow> acl_maps \<Rightarrow> acl_maps" where
  "acl_spec (AclGrantRole c a r t) (R, P) = (R((a, r) \<mapsto> t), P)"
| "acl_spec (AclRevokeRole c a r) (R, P) = (R((a, r) := None), P)"
| "acl_spec (AclGrantPermission c a p t) (R, P) = (R, P((a, p) \<mapsto> t))"
| "acl_spec (AclRevokePermission c a p) (R, P) = (R, P((a, p) := None))"
| "acl_spec (AclBulkGrantRoles c es) (R, P) =
     (fold (\<lambda>e R. R((bre_grantee e, bre_role e) \<mapsto> bre_expires_at e)) es R, P)"
| "acl_spec (AclBulkRevokeRoles c es) (R, P) =
     (fold (\<lambda>e R. R((bre_grantee e, bre_role e) := None)) es R, P)"
| "acl_spec (AclBulkGrantPermissions c es) (R, P) =
     (R, fold (\<lambda>e P. P((bpe_grantee e, bpe_permission e) \<mapsto> bpe_expires_at e)) es P)"
| "acl_spec (AclBulkRevokePermissions c es) (R, P) =
     (R, fold (\<lambda>e P. P((bpe_grantee e, bpe_permission e) := None)) es P)"

lemma acl_abs_internal [simp]:
  "acl_abs (grant_role_internal env a r by t s) = ((fst (acl_abs s))((a, r) \<mapsto> t), snd (acl_abs s))"
  "acl_abs (revoke_role_internal a r s) = ((fst (acl_abs s))((a, r) := None), snd (acl_abs s))"
  "acl_abs (grant_permission_internal env a p by t s)
     = (fst (acl_abs s), (snd (acl_abs s))((a, p) \<mapsto> t))"
  "acl_abs (revoke_permission_internal a p s) = (fst (acl_abs s), (snd (acl_abs s))((a, p) := None))"
  by (auto simp: acl_abs_def fun_eq_iff roles.find_key_put roles.find_key_del role_key_def
      permissions.find_key_put permissions.find_key_del permission_key_def)

lemma acl_abs_emit [simp]: "acl_abs (ac_emit ev s) = acl_abs s"
  by (simp add: acl_abs_def)

lemma acl_abs_bulk [simp]:
  "acl_abs (fold (\<lambda>e s. ac_emit (AclRoleGranted (bre_grantee e) (bre_role e) (bre_expires_at e))
       (grant_role_internal env (bre_grantee e) (bre_role e) c (bre_expires_at e) s)) es s)
   = (fold (\<lambda>e R. R((bre_grantee e, bre_role e) \<mapsto> bre_expires_at e)) es (fst (acl_abs s)),
      snd (acl_abs s))"
  "acl_abs (fold (\<lambda>e s. ac_emit (AclRoleRevoked (bre_grantee e) (bre_role e))
       (revoke_role_internal (bre_grantee e) (bre_role e) s)) es s)
   = (fold (\<lambda>e R. R((bre_grantee e, bre_role e) := None)) es (fst (acl_abs s)), snd (acl_abs s))"
  "acl_abs (fold (\<lambda>e s.
       ac_emit (AclPermissionGranted (bpe_grantee e) (bpe_permission e) (bpe_expires_at e))
         (grant_permission_internal env (bpe_grantee e) (bpe_permission e) c (bpe_expires_at e) s))
       ps s)
   = (fst (acl_abs s),
      fold (\<lambda>e P. P((bpe_grantee e, bpe_permission e) \<mapsto> bpe_expires_at e)) ps (snd (acl_abs s)))"
  "acl_abs (fold (\<lambda>e s. ac_emit (AclPermissionRevoked (bpe_grantee e) (bpe_permission e))
       (revoke_permission_internal (bpe_grantee e) (bpe_permission e) s)) ps s)
   = (fst (acl_abs s),
      fold (\<lambda>e P. P((bpe_grantee e, bpe_permission e) := None)) ps (snd (acl_abs s)))"
  by (induction es arbitrary: s; simp; fail | induction ps arbitrary: s; simp; fail)+

section \<open>The check\<close>

lemma super_admin_all [simp]: "p \<in> set (role_permissions SuperAdmin)"
  by (cases p) auto

declare role_permissions.simps(1) [simp del]

lemma inherited_loop_iff:
  "inherited_loop now who p gs \<longleftrightarrow> (\<exists>g\<in>set gs. rg_grantee g = who \<and> active now (rg_expires_at g)
     \<and> p \<in> set (role_permissions (rg_role g)))"
  by (induction gs) (auto simp: active_def)

lemma direct_loop_iff:
  "direct_loop now who p gs \<longleftrightarrow> (\<exists>g\<in>set gs. pg_grantee g = who \<and> pg_permission g = p
     \<and> active now (pg_expires_at g))"
  by (induction gs) (auto simp: active_def)

lemma role_loop_iff:
  "role_loop now who r gs \<longleftrightarrow> (\<exists>g\<in>set gs. rg_grantee g = who \<and> rg_role g = r
     \<and> active now (rg_expires_at g))"
  by (induction gs) (auto simp: active_def)

definition acl_inv :: "'z acl_state_scheme \<Rightarrow> bool" where
  "acl_inv s \<longleftrightarrow> distinct (map role_key (role_grants s))
     \<and> distinct (map permission_key (permission_grants s))"

lemma has_permission_permitted:
  assumes "acl_inv s"
  shows "has_permission_internal env s who p \<longleftrightarrow> permitted (timestamp env) (acl_abs s) who p"
proof -
  have r: "inherited_loop (timestamp env) who p (role_grants s) \<longleftrightarrow>
      (\<exists>r t. fst (acl_abs s) (who, r) = Some t \<and> active (timestamp env) t
        \<and> p \<in> set (role_permissions r))"
    using assms by (force simp: inherited_loop_iff acl_abs_def acl_inv_def roles.find_key_Some
        role_key_def)
  have "direct_loop (timestamp env) who p (permission_grants s) \<longleftrightarrow>
      (\<exists>t. snd (acl_abs s) (who, p) = Some t \<and> active (timestamp env) t)"
    using assms by (force simp: direct_loop_iff acl_abs_def acl_inv_def permissions.find_key_Some
        permission_key_def)
  with r show ?thesis unfolding has_permission_internal_def permitted_def by argo
qed

lemma acl_inv_internal [simp]:
  "acl_inv s \<Longrightarrow> acl_inv (grant_role_internal env a r by t s)"
  "acl_inv s \<Longrightarrow> acl_inv (revoke_role_internal a r s)"
  "acl_inv s \<Longrightarrow> acl_inv (grant_permission_internal env a p by t s)"
  "acl_inv s \<Longrightarrow> acl_inv (revoke_permission_internal a p s)"
  by (simp_all add: acl_inv_def roles.distinct_put roles.distinct_del permissions.distinct_put
      permissions.distinct_del)

lemma acl_inv_emit [simp]: "acl_inv (ac_emit ev s) = acl_inv s"
  by (simp add: acl_inv_def)

lemma acl_inv_fold: "(\<And>e s. acl_inv s \<Longrightarrow> acl_inv (f e s)) \<Longrightarrow> acl_inv s \<Longrightarrow> acl_inv (fold f es s)"
  by (induction es arbitrary: s) auto

lemmas acl_op_defs = acl_grant_role_def acl_revoke_role_def acl_grant_permission_def
  acl_revoke_permission_def acl_bulk_grant_roles_def acl_bulk_revoke_roles_def
  acl_bulk_grant_permissions_def acl_bulk_revoke_permissions_def

text \<open>The list's operations leave the state of a module that extends the record alone.\<close>

lemma more_fold:
  "(\<And>e s. acl_state.more (f e s) = acl_state.more s) \<Longrightarrow> acl_state.more (fold f es s) = acl_state.more s"
  by (induction es arbitrary: s) auto

lemma acl_exec_more: "acl_exec env c s = Inr s' \<Longrightarrow> acl_state.more s' = acl_state.more s"
  by (cases c) (auto simp: acl_op_defs grant_role_internal_def revoke_role_internal_def
      grant_permission_internal_def revoke_permission_internal_def ac_emit_def Let_def
      intro!: more_fold split: if_splits)

lemma acl_exec_inv: "acl_inv s \<Longrightarrow> acl_exec env c s = Inr s' \<Longrightarrow> acl_inv s'"
  by (cases c) (auto simp: acl_op_defs split: if_splits intro!: acl_inv_fold)

lemma acl_initial_inv: "acl_inv (acl_initial admin)"
  by (simp add: acl_inv_def acl_initial_def role_grants_def permission_grants_def)

interpretation acl: contract_invariant "acl_exec :: env \<Rightarrow> acl_call \<Rightarrow> acl_state \<Rightarrow> acl_state acl_res"
    "\<lambda>s. \<exists>admin. s = acl_initial admin" "\<lambda>_. True" acl_inv
  by unfold_locales (auto intro: acl_initial_inv acl_exec_inv)

text \<open>The check as its clients rely on it: it passes for exactly the authorised admin or holder.\<close>

locale permission_service =
  fixes holds :: "env \<Rightarrow> 's \<Rightarrow> address \<Rightarrow> permission \<Rightarrow> bool"
    and require :: "env \<Rightarrow> 's \<Rightarrow> address \<Rightarrow> address \<Rightarrow> permission \<Rightarrow> unit acl_res"
  assumes require_ok: "require env s c admin p = Inr u \<longleftrightarrow>
      c \<in> set (auths env) \<and> (c = admin \<or> holds env s c p)"
    and require_error: "require env s c admin p = Inl f \<Longrightarrow> f = AuthFailed \<or> (\<exists>m. f = Panic m)"
begin

lemma guarded: "and_then (require env s c admin p) k = Inr r \<longleftrightarrow>
    c \<in> set (auths env) \<and> (c = admin \<or> holds env s c p) \<and> k () = Inr r"
  using require_ok [of env s c admin p "()"] by auto

lemma admin_passes: "c \<in> set (auths env) \<Longrightarrow> c = admin \<Longrightarrow> require env s c admin p = Inr ()"
  by (simp add: require_ok)

lemma stranger_fails:
  "c \<noteq> admin \<Longrightarrow> \<not> holds env s c p \<Longrightarrow> \<exists>f. require env s c admin p = Inl f"
  using require_ok [of env s c admin p "()"] by (cases "require env s c admin p") auto

end

interpretation check: permission_service has_permission_internal require_permission
  by unfold_locales (auto simp: require_permission_def and_then_eq_Inl require_auth_def ensure_def
      split: if_splits)

lemma acl_exec_guard:
  assumes "acl_exec env c s = Inr s'"
  obtains caller admin where "caller \<in> set (auths env)" "ac_admin s = Some admin"
    "caller = admin \<or> has_permission_internal env s caller ManagePermissions"
  using assms by (cases c) (auto simp: acl_op_defs check.require_ok split: if_splits)

section \<open>Properties\<close>

definition acl_env :: "nat \<Rightarrow> address list \<Rightarrow> env" where
  "acl_env t as = \<lparr>timestamp = t, auths = as\<rparr>"

definition acl_demo :: "(env \<times> acl_call) list" where
  "acl_demo = [
     (acl_env 1 [''A''], AclGrantRole ''A'' ''U'' Operator 100),
     (acl_env 2 [''A''], AclGrantPermission ''A'' ''M'' ManagePermissions 0),
     (acl_env 3 [''M''], AclBulkGrantRoles ''M''
        [\<lparr>bre_grantee = ''U'', bre_role = Admin, bre_expires_at = 50\<rparr>])]"

text \<open>Also: the access control list implements two maps: a successful call changes the map of role
  expiries and the map of permission expiries exactly as its specification says (a grant sets
  one key, also when it was set before; a revocation removes it; the bulk calls do so in order).\<close>

theorem acl_refines_maps:
  assumes "acl_exec env c s = Inr s'"
  shows "acl_abs s' = acl_spec c (acl_abs s)"
  using assms by (cases c; cases "acl_abs s") (auto simp: acl_op_defs split: if_splits)

theorem acl_refines_maps_witness:
  "\<exists>s'. acl_exec (acl_env 1 [''A'']) (AclGrantRole ''A'' ''U'' Operator 100) (acl_initial ''A'') = Inr s'
     \<and> acl_abs s' = acl_spec (AclGrantRole ''A'' ''U'' Operator 100) (acl_abs (acl_initial ''A''))"
proof -
  obtain s' where "acl_exec (acl_env 1 [''A'']) (AclGrantRole ''A'' ''U'' Operator 100)
      (acl_initial ''A'') = Inr s'"
    by (simp add: acl_op_defs acl_env_def acl_initial_def require_permission_def
        assert_not_globally_paused_def)
  with acl_refines_maps [OF this] show ?thesis by blast
qed

text \<open>C14: in every reachable state the permission check answers exactly by these maps: an address
  has a permission iff an unexpired role grant inherits it or an unexpired direct grant names it,
  and it holds a role iff an unexpired grant of that role is stored.\<close>

theorem acl_check_exact:
  "has_permission_internal env (run acl_exec (acl_initial admin) h) who p \<longleftrightarrow>
     (\<exists>r t. fst (acl_abs (run acl_exec (acl_initial admin) h)) (who, r) = Some t
        \<and> (t = 0 \<or> timestamp env < t) \<and> p \<in> set (role_permissions r))
     \<or> (\<exists>t. snd (acl_abs (run acl_exec (acl_initial admin) h)) (who, p) = Some t
        \<and> (t = 0 \<or> timestamp env < t))"
proof -
  have "acl_inv (run acl_exec (acl_initial admin) h)"
    by (rule acl.run_inv) (auto simp: list_all_iff)
  from has_permission_permitted [OF this] show ?thesis by (simp add: permitted_def active_def)
qed

text \<open>C16: no escalation. Whoever is neither the admin nor, at the time of the call, a holder of
  \<open>ManagePermissions\<close> cannot change the list: a history all of whose calls are authorised only
  by such addresses leaves the contract as it was.\<close>

theorem acl_no_escalation:
  assumes "ac_admin s = Some admin"
    and "\<forall>(env, c)\<in>set h. admin \<notin> set (auths env)
      \<and> (\<forall>a\<in>set (auths env). \<not> has_permission_internal env s a ManagePermissions)"
  shows "run acl_exec s h = s"
  using assms(2)
proof (induction h)
  case (Cons ec h)
  obtain env c where ec: "ec = (env, c)" by (cases ec)
  have "invoke acl_exec env c s = s"
  proof (cases rule: invoke_cases [of acl_exec env c s])
    case (performed s')
    then show ?thesis using Cons.prems assms(1) by (auto simp: ec elim: acl_exec_guard)
  qed
  with Cons show ?case by (simp add: ec)
qed simp

theorem acl_no_escalation_witness:
  "run acl_exec (run acl_exec (acl_initial ''A'') (take 1 acl_demo))
     [(acl_env 5 [''U''], AclGrantRole ''U'' ''U'' SuperAdmin 0)]
   = run acl_exec (acl_initial ''A'') (take 1 acl_demo)
   \<and> has_permission_internal (acl_env 5 []) (run acl_exec (acl_initial ''A'') (take 1 acl_demo))
       ''U'' SubmitPrice"
proof -
  have "ac_admin (run acl_exec (acl_initial ''A'') (take 1 acl_demo)) = Some ''A''"
    "\<not> has_permission_internal (acl_env 5 [''U''])
       (run acl_exec (acl_initial ''A'') (take 1 acl_demo)) ''U'' ManagePermissions"
    "has_permission_internal (acl_env 5 []) (run acl_exec (acl_initial ''A'') (take 1 acl_demo))
       ''U'' SubmitPrice"
    by code_simp+
  then show ?thesis
    using acl_no_escalation [of "run acl_exec (acl_initial ''A'') (take 1 acl_demo)" "''A''"
        "[(acl_env 5 [''U''], AclGrantRole ''U'' ''U'' SuperAdmin 0)]"]
    by (simp add: acl_env_def)
qed

end
