(* ===== verification/Operator_Rotation.thy ===== *)
theory Operator_Rotation
  imports Access_Control
begin

text \<open>
  The operator registry with its time-locked rotation (\<open>soroban/src/operator_rotation.rs\<close>).
  \<open>rotation_state\<close> extends the access control state, which the module reads for the admin and
  for the \<open>EmergencyPause\<close> permission, by its own storage keys. The dispatcher interleaves the
  registry's calls with those of the access control list. Lemmas: the registry stays coherent
  and is never emptied of active operators, a rotation is executed only inside its window, and
  it can be cancelled by exactly the admin and the holders of the permission.
\<close>

section \<open>Data\<close>

record operator_record =
  op_address :: address
  op_name :: string
  op_added_by :: address
  op_added_at :: nat
  op_is_active :: bool
  op_removed_by :: "address option"
  op_removed_at :: "nat option"

record operator_entry =
  oe_address :: address
  oe_name :: string
  oe_is_active :: bool
  oe_added_at :: nat

datatype rotation_action = RotAdd address string | RotRemove address

record rotation_config =
  rc_delay_secs :: nat
  rc_grace_period_secs :: nat

record pending_rotation =
  pr_action :: rotation_action
  pr_proposed_by :: address
  pr_proposed_at :: nat
  pr_executes_at :: nat
  pr_expires_at :: nat

datatype rotation_event =
    OperatorAdded address string address nat | OperatorRemoved address address nat
  | RotationProposed address pending_rotation | RotationExecuted address pending_rotation
  | RotationCancelled address pending_rotation

record rotation_state = acl_state +
  or_operators :: "address \<rightharpoonup> operator_record"
  or_all_operators :: "address list option"
  or_config :: "rotation_config option"
  or_pending :: "pending_rotation option"
  or_events :: "rotation_event list"

type_synonym 'a rot_res = "(unit, 'a) res"

definition default_rotation_delay_secs :: nat where "default_rotation_delay_secs = 86400"
definition default_rotation_grace_period_secs :: nat where
  "default_rotation_grace_period_secs = 86400"

definition or_emit :: "rotation_event \<Rightarrow> rotation_state \<Rightarrow> rotation_state" where
  "or_emit ev s = s\<lparr>or_events := or_events s @ [ev]\<rparr>"

section \<open>The registry\<close>

definition rot_require_admin :: "env \<Rightarrow> rotation_state \<Rightarrow> address \<Rightarrow> unit rot_res" where
  "rot_require_admin env s caller =
     and_then (require_auth env caller) (\<lambda>_.
     and_then (ok_or (ac_admin s) (Panic ''contract not initialized'')) (\<lambda>admin.
     ensure (caller = admin) (Panic ''only admin can manage operators'')))"

definition apply_add_operator ::
  "env \<Rightarrow> address \<Rightarrow> address \<Rightarrow> string \<Rightarrow> rotation_state \<Rightarrow> rotation_state rot_res" where
  "apply_add_operator env caller operator_address name s =
     (if name = [] then Inl (Panic ''operator name cannot be empty'')
      else
      let now = timestamp env;
          operator = (case or_operators s operator_address of
            Some existing \<Rightarrow> existing\<lparr>op_is_active := True, op_name := name, op_added_by := caller,
              op_added_at := now, op_removed_by := None, op_removed_at := None\<rparr>
          | None \<Rightarrow> \<lparr>op_address = operator_address, op_name = name, op_added_by = caller,
              op_added_at = now, op_is_active = True, op_removed_by = None, op_removed_at = None\<rparr>);
          s1 = s\<lparr>or_operators := (or_operators s)(operator_address \<mapsto> operator)\<rparr>;
          all = unwrap_or (or_all_operators s1) [];
          found = list_ex (\<lambda>a. a = operator_address) all;
          s2 = (if \<not> found then s1\<lparr>or_all_operators := Some (all @ [operator_address])\<rparr> else s1) in
      Inr (or_emit (OperatorAdded operator_address name caller now) s2))"

definition add_operator ::
  "env \<Rightarrow> address \<Rightarrow> address \<Rightarrow> string \<Rightarrow> rotation_state \<Rightarrow> rotation_state rot_res" where
  "add_operator env caller operator_address name s =
     and_then (rot_require_admin env s caller) (\<lambda>_.
     apply_add_operator env caller operator_address name s)"

text \<open>The \<open>u32\<close> count of the other active operators, with its overflow check.\<close>

primrec count_active ::
  "(address \<rightharpoonup> operator_record) \<Rightarrow> address \<Rightarrow> address list \<Rightarrow> nat \<Rightarrow> nat rot_res" where
  "count_active ops skip [] n = Inr n"
| "count_active ops skip (a # as) n =
     (if a = skip then count_active ops skip as n
      else case ops a of
        Some op \<Rightarrow> if op_is_active op then and_then (add_u32 n 1) (count_active ops skip as)
                   else count_active ops skip as n
      | None \<Rightarrow> count_active ops skip as n)"

definition apply_remove_operator ::
  "env \<Rightarrow> address \<Rightarrow> address \<Rightarrow> rotation_state \<Rightarrow> rotation_state rot_res" where
  "apply_remove_operator env caller operator_address s =
     and_then (ok_or (or_operators s operator_address) (Panic ''operator not found'')) (\<lambda>operator.
     if \<not> op_is_active operator then Inl (Panic ''operator is already removed'')
     else
     and_then (count_active (or_operators s) operator_address (unwrap_or (or_all_operators s) []) 0)
       (\<lambda>active_count.
     if active_count = 0 then Inl (Panic ''cannot remove the last active operator'')
     else
     let now = timestamp env;
         operator' = operator\<lparr>op_is_active := False, op_removed_by := Some caller,
           op_removed_at := Some now\<rparr> in
     Inr (or_emit (OperatorRemoved operator_address caller now)
       (s\<lparr>or_operators := (or_operators s)(operator_address \<mapsto> operator')\<rparr>))))"

definition remove_operator ::
  "env \<Rightarrow> address \<Rightarrow> address \<Rightarrow> rotation_state \<Rightarrow> rotation_state rot_res" where
  "remove_operator env caller operator_address s =
     and_then (rot_require_admin env s caller) (\<lambda>_.
     apply_remove_operator env caller operator_address s)"

definition is_operator :: "rotation_state \<Rightarrow> address \<Rightarrow> bool" where
  "is_operator s a = (case or_operators s a of Some op \<Rightarrow> op_is_active op | None \<Rightarrow> False)"

definition get_operator :: "rotation_state \<Rightarrow> address \<Rightarrow> operator_record option" where
  "get_operator s a = or_operators s a"

primrec entries_loop :: "(address \<rightharpoonup> operator_record) \<Rightarrow> address list \<Rightarrow> operator_entry list" where
  "entries_loop ops [] = []"
| "entries_loop ops (a # as) = (case ops a of
     Some op \<Rightarrow> \<lparr>oe_address = op_address op, oe_name = op_name op,
         oe_is_active = op_is_active op, oe_added_at = op_added_at op\<rparr> # entries_loop ops as
   | None \<Rightarrow> entries_loop ops as)"

definition get_all_operators :: "rotation_state \<Rightarrow> operator_entry list" where
  "get_all_operators s = entries_loop (or_operators s) (unwrap_or (or_all_operators s) [])"

definition get_active_operators :: "rotation_state \<Rightarrow> operator_entry list" where
  "get_active_operators s = filter oe_is_active (get_all_operators s)"

section \<open>The time-locked rotation\<close>

definition set_rotation_config ::
  "env \<Rightarrow> address \<Rightarrow> nat \<Rightarrow> nat \<Rightarrow> rotation_state \<Rightarrow> rotation_state rot_res" where
  "set_rotation_config env caller delay_secs grace_period_secs s =
     and_then (rot_require_admin env s caller) (\<lambda>_.
     if delay_secs = 0 then Inl (Panic ''rotation delay must be greater than 0'')
     else if grace_period_secs = 0
     then Inl (Panic ''rotation grace period must be greater than 0'')
     else Inr (s\<lparr>or_config := Some \<lparr>rc_delay_secs = delay_secs,
       rc_grace_period_secs = grace_period_secs\<rparr>\<rparr>))"

definition get_rotation_config :: "rotation_state \<Rightarrow> rotation_config" where
  "get_rotation_config s = unwrap_or (or_config s)
     \<lparr>rc_delay_secs = default_rotation_delay_secs,
      rc_grace_period_secs = default_rotation_grace_period_secs\<rparr>"

definition propose_rotation ::
  "env \<Rightarrow> address \<Rightarrow> rotation_action \<Rightarrow> rotation_state \<Rightarrow> rotation_state rot_res" where
  "propose_rotation env caller action s =
     and_then (rot_require_admin env s caller) (\<lambda>_.
     if or_pending s \<noteq> None then Inl (Panic ''a rotation is already pending'')
     else
     and_then (case action of
         RotAdd _ name \<Rightarrow> ensure (name \<noteq> []) (Panic ''operator name cannot be empty'')
       | RotRemove operator \<Rightarrow>
           ensure (is_operator s operator) (Panic ''operator not found or not active'')) (\<lambda>_.
     let now = timestamp env;
         config = get_rotation_config s in
     and_then (add_u64 now (rc_delay_secs config)) (\<lambda>executes_at.
     and_then (add_u64 executes_at (rc_grace_period_secs config)) (\<lambda>expires_at.
     let pending = \<lparr>pr_action = action, pr_proposed_by = caller, pr_proposed_at = now,
           pr_executes_at = executes_at, pr_expires_at = expires_at\<rparr> in
     Inr (or_emit (RotationProposed caller pending) (s\<lparr>or_pending := Some pending\<rparr>))))))"

definition execute_rotation :: "env \<Rightarrow> address \<Rightarrow> rotation_state \<Rightarrow> rotation_state rot_res" where
  "execute_rotation env caller s =
     and_then (rot_require_admin env s caller) (\<lambda>_.
     and_then (ok_or (or_pending s) (Panic ''no rotation is pending'')) (\<lambda>pending.
     let now = timestamp env in
     if now < pr_executes_at pending then Inl (Panic ''rotation delay has not elapsed'')
     else if now > pr_expires_at pending then Inl (Panic ''rotation grace period has expired'')
     else
     and_then (case pr_action pending of
         RotAdd operator name \<Rightarrow> apply_add_operator env caller operator name s
       | RotRemove operator \<Rightarrow> apply_remove_operator env caller operator s) (\<lambda>s1.
     Inr (or_emit (RotationExecuted caller pending) (s1\<lparr>or_pending := None\<rparr>)))))"

definition cancel_rotation :: "env \<Rightarrow> address \<Rightarrow> rotation_state \<Rightarrow> rotation_state rot_res" where
  "cancel_rotation env caller s =
     and_then (ok_or (ac_admin s) (Panic ''contract not initialized'')) (\<lambda>admin.
     and_then (require_permission env s caller admin EmergencyPause) (\<lambda>_.
     and_then (ok_or (or_pending s) (Panic ''no rotation is pending'')) (\<lambda>pending.
     Inr (or_emit (RotationCancelled caller pending) (s\<lparr>or_pending := None\<rparr>)))))"

definition get_pending_rotation :: "rotation_state \<Rightarrow> pending_rotation option" where
  "get_pending_rotation s = or_pending s"

datatype rotation_call =
    AddOperator address address string
  | RemoveOperator address address
  | SetRotationConfig address nat nat
  | ProposeRotation address rotation_action
  | ExecuteRotation address
  | CancelRotation address
  | RotationAcl acl_call

fun rotation_exec :: "env \<Rightarrow> rotation_call \<Rightarrow> rotation_state \<Rightarrow> rotation_state rot_res" where
  "rotation_exec env (AddOperator c a n) s = add_operator env c a n s"
| "rotation_exec env (RemoveOperator c a) s = remove_operator env c a s"
| "rotation_exec env (SetRotationConfig c d g) s = set_rotation_config env c d g s"
| "rotation_exec env (ProposeRotation c a) s = propose_rotation env c a s"
| "rotation_exec env (ExecuteRotation c) s = execute_rotation env c s"
| "rotation_exec env (CancelRotation c) s = cancel_rotation env c s"
| "rotation_exec env (RotationAcl c) s = acl_exec env c s"

definition rotation_initial :: "address \<Rightarrow> rotation_state" where
  "rotation_initial admin = \<lparr>ac_admin = Some admin, ac_global_paused = None,
     ac_role_grants = None, ac_permission_grants = None, ac_events = [],
     or_operators = Map.empty, or_all_operators = None, or_config = None, or_pending = None,
     or_events = []\<rparr>"

section \<open>The registry's invariant\<close>

definition all_operators :: "rotation_state \<Rightarrow> address list" where
  "all_operators s = unwrap_or (or_all_operators s) []"

definition registry_ok :: "(address \<rightharpoonup> operator_record) \<Rightarrow> address list \<Rightarrow> bool" where
  "registry_ok ops all \<longleftrightarrow>
     (\<forall>a op. ops a = Some op \<longrightarrow> op_address op = a \<and> (op_is_active op \<longleftrightarrow> op_removed_by op = None))
     \<and> distinct all \<and> set all = dom ops
     \<and> (all \<noteq> [] \<longrightarrow> (\<exists>a op. ops a = Some op \<and> op_is_active op))"

definition rotation_inv :: "rotation_state \<Rightarrow> bool" where
  "rotation_inv s \<longleftrightarrow> acl_inv s \<and> registry_ok (or_operators s) (all_operators s)
     \<and> (\<forall>c. or_config s = Some c \<longrightarrow> 0 < rc_delay_secs c \<and> 0 < rc_grace_period_secs c)
     \<and> (\<forall>p. or_pending s = Some p \<longrightarrow>
          pr_proposed_at p < pr_executes_at p \<and> pr_executes_at p < pr_expires_at p)"

lemma or_emit_simps [simp]:
  "or_operators (or_emit ev s) = or_operators s" "all_operators (or_emit ev s) = all_operators s"
  "or_pending (or_emit ev s) = or_pending s" "or_config (or_emit ev s) = or_config s"
  "acl_inv (or_emit ev s) = acl_inv s" "rotation_inv (or_emit ev s) = rotation_inv s"
  by (simp_all add: or_emit_def all_operators_def acl_inv_def role_grants_def
      permission_grants_def rotation_inv_def)

lemma acl_inv_frame [simp]:
  "acl_inv (s\<lparr>or_operators := x\<rparr>) = acl_inv s" "acl_inv (s\<lparr>or_all_operators := y\<rparr>) = acl_inv s"
  "acl_inv (s\<lparr>or_config := z\<rparr>) = acl_inv s" "acl_inv (s\<lparr>or_pending := p\<rparr>) = acl_inv s"
  by (simp_all add: acl_inv_def role_grants_def permission_grants_def)

lemma rotation_frame:
  assumes "acl_state.more (s' :: rotation_state) = acl_state.more s"
  shows "or_operators s' = or_operators s" "all_operators s' = all_operators s"
    "or_config s' = or_config s" "or_pending s' = or_pending s"
  using assms by (cases s; cases s'; simp add: all_operators_def)+

lemma rot_require_admin_ok [simp]: "rot_require_admin env s c = Inr u \<longleftrightarrow>
    c \<in> set (auths env) \<and> ac_admin s = Some c"
  by (auto simp: rot_require_admin_def)

lemma count_active_ok:
  "count_active ops skip as n = Inr m \<Longrightarrow>
     m = n + length (filter (\<lambda>a. a \<noteq> skip \<and> (\<exists>op. ops a = Some op \<and> op_is_active op)) as)"
proof (induction as arbitrary: n)
  case (Cons a as)
  then show ?case by (cases "ops a") (auto split: if_splits dest!: Cons.IH)
qed simp

lemma apply_add_ok:
  assumes "apply_add_operator env c a n s = Inr s'"
  shows "n \<noteq> [] \<and> (\<exists>op. or_operators s' = (or_operators s)(a \<mapsto> op) \<and> op_is_active op
      \<and> op_name op = n \<and> op_removed_by op = None \<and> op_added_by op = c
      \<and> (\<forall>old. or_operators s a = Some old \<longrightarrow> op_address op = op_address old)
      \<and> (or_operators s a = None \<longrightarrow> op_address op = a))
    \<and> all_operators s' = (if a \<in> set (all_operators s) then all_operators s else all_operators s @ [a])
    \<and> or_config s' = or_config s \<and> or_pending s' = or_pending s \<and> acl_inv s' = acl_inv s"
  using assms
  by (auto simp: apply_add_operator_def Let_def all_operators_def list_ex_iff or_emit_def
      acl_inv_def role_grants_def permission_grants_def split: if_splits option.splits)

lemma apply_remove_ok:
  assumes "apply_remove_operator env c a s = Inr s'"
  shows "(\<exists>op. or_operators s a = Some op \<and> op_is_active op
      \<and> or_operators s' = (or_operators s)(a \<mapsto> op\<lparr>op_is_active := False,
          op_removed_by := Some c, op_removed_at := Some (timestamp env)\<rparr>))
    \<and> (\<exists>b op. b \<noteq> a \<and> or_operators s b = Some op \<and> op_is_active op)
    \<and> all_operators s' = all_operators s
    \<and> or_config s' = or_config s \<and> or_pending s' = or_pending s \<and> acl_inv s' = acl_inv s"
proof -
  from assms obtain op m where op: "or_operators s a = Some op" "op_is_active op"
    and m: "count_active (or_operators s) a (all_operators s) 0 = Inr m" "0 < m"
    and s': "s' = or_emit (OperatorRemoved a c (timestamp env)) (s\<lparr>or_operators :=
        (or_operators s)(a \<mapsto> op\<lparr>op_is_active := False, op_removed_by := Some c,
          op_removed_at := Some (timestamp env)\<rparr>)\<rparr>)"
    by (auto simp: apply_remove_operator_def all_operators_def Let_def split: if_splits)
  from count_active_ok [OF m(1)] m(2)
  have "\<exists>b op. b \<noteq> a \<and> or_operators s b = Some op \<and> op_is_active op"
    by (auto simp: length_greater_0_conv filter_empty_conv)
  with op show ?thesis by (auto simp: s' or_emit_def all_operators_def acl_inv_def
      role_grants_def permission_grants_def)
qed

lemma apply_add_inv:
  assumes inv: "rotation_inv s" and a: "apply_add_operator env c a n s = Inr s'"
  shows "rotation_inv s'"
proof -
  obtain op where op: "or_operators s' = (or_operators s)(a \<mapsto> op)" "op_is_active op"
      "op_removed_by op = None" "\<forall>old. or_operators s a = Some old \<longrightarrow> op_address op = op_address old"
      "or_operators s a = None \<longrightarrow> op_address op = a"
    and rest: "all_operators s' = (if a \<in> set (all_operators s) then all_operators s
        else all_operators s @ [a])" "or_config s' = or_config s" "or_pending s' = or_pending s"
      "acl_inv s' = acl_inv s"
    using apply_add_ok [OF a] by (elim conjE exE) (rule that, assumption+)
  have "op_address op = a"
    using inv op(4,5) by (cases "or_operators s a") (auto simp: rotation_inv_def registry_ok_def)
  with inv op(1-3) rest show ?thesis
    by (auto simp: rotation_inv_def registry_ok_def)
qed

lemma apply_remove_inv:
  assumes inv: "rotation_inv s" and a: "apply_remove_operator env c a s = Inr s'"
  shows "rotation_inv s'"
proof -
  obtain op b op' where op: "or_operators s a = Some op"
      "or_operators s' = (or_operators s)(a \<mapsto> op\<lparr>op_is_active := False,
          op_removed_by := Some c, op_removed_at := Some (timestamp env)\<rparr>)"
      "b \<noteq> a" "or_operators s b = Some op'" "op_is_active op'"
    and rest: "all_operators s' = all_operators s" "or_config s' = or_config s"
      "or_pending s' = or_pending s" "acl_inv s' = acl_inv s"
    using apply_remove_ok [OF a] by (elim conjE exE) (rule that)
  have reg: "registry_ok (or_operators s) (all_operators s)" using inv by (simp add: rotation_inv_def)
  have "registry_ok (or_operators s') (all_operators s')"
    unfolding registry_ok_def op(2) rest(1)
  proof (intro conjI)
    show "all_operators s \<noteq> [] \<longrightarrow> (\<exists>x y. ((or_operators s)(a \<mapsto> op\<lparr>op_is_active := False,
        op_removed_by := Some c, op_removed_at := Some (timestamp env)\<rparr>)) x = Some y \<and> op_is_active y)"
      using op(3-5) by (intro impI exI [of _ b] exI [of _ op']) simp
  next
    show "\<forall>x y. ((or_operators s)(a \<mapsto> op\<lparr>op_is_active := False, op_removed_by := Some c,
        op_removed_at := Some (timestamp env)\<rparr>)) x = Some y \<longrightarrow>
        op_address y = x \<and> (op_is_active y \<longleftrightarrow> op_removed_by y = None)"
      using reg op(1) by (simp add: registry_ok_def)
    show "distinct (all_operators s)" using reg by (simp add: registry_ok_def)
    show "set (all_operators s) = dom ((or_operators s)(a \<mapsto> op\<lparr>op_is_active := False,
        op_removed_by := Some c, op_removed_at := Some (timestamp env)\<rparr>))"
      using reg op(1) by (auto simp: registry_ok_def)
  qed
  with inv rest show ?thesis by (simp add: rotation_inv_def)
qed

lemma set_pending_inv:
  "rotation_inv s \<Longrightarrow> (\<forall>p. x = Some p \<longrightarrow>
      pr_proposed_at p < pr_executes_at p \<and> pr_executes_at p < pr_expires_at p)
    \<Longrightarrow> rotation_inv (s\<lparr>or_pending := x\<rparr>)"
  by (simp add: rotation_inv_def all_operators_def)

lemma rotation_config_positive:
  "rotation_inv s \<Longrightarrow> 0 < rc_delay_secs (get_rotation_config s)
     \<and> 0 < rc_grace_period_secs (get_rotation_config s)"
  by (cases "or_config s") (auto simp: rotation_inv_def get_rotation_config_def
      default_rotation_delay_secs_def default_rotation_grace_period_secs_def)

lemma propose_ok:
  assumes "propose_rotation env c act s = Inr s'"
  shows "c \<in> set (auths env) \<and> ac_admin s = Some c \<and> or_pending s = None
    \<and> (\<exists>p. s' = or_emit (RotationProposed c p) (s\<lparr>or_pending := Some p\<rparr>)
        \<and> pr_action p = act \<and> pr_proposed_by p = c \<and> pr_proposed_at p = timestamp env
        \<and> pr_executes_at p = timestamp env + rc_delay_secs (get_rotation_config s)
        \<and> pr_expires_at p = pr_executes_at p + rc_grace_period_secs (get_rotation_config s))"
  using assms by (auto simp: propose_rotation_def Let_def split: if_splits)

lemma execute_ok:
  assumes "execute_rotation env c s = Inr s'"
  shows "c \<in> set (auths env) \<and> ac_admin s = Some c
    \<and> (\<exists>p s1. or_pending s = Some p \<and> pr_executes_at p \<le> timestamp env
        \<and> timestamp env \<le> pr_expires_at p
        \<and> (case pr_action p of RotAdd a n \<Rightarrow> apply_add_operator env c a n s = Inr s1
           | RotRemove a \<Rightarrow> apply_remove_operator env c a s = Inr s1)
        \<and> s' = or_emit (RotationExecuted c p) (s1\<lparr>or_pending := None\<rparr>))"
  using assms
  by (auto simp: execute_rotation_def Let_def split: if_splits rotation_action.splits)

lemma rotation_exec_inv:
  assumes inv: "rotation_inv s" and e: "rotation_exec env c s = Inr s'"
  shows "rotation_inv s'"
proof (cases c)
  case (SetRotationConfig a d g)
  with inv e show ?thesis
    by (auto simp: set_rotation_config_def rotation_inv_def all_operators_def split: if_splits)
next
  case (ProposeRotation a act)
  with propose_ok [of env a act s s'] e inv rotation_config_positive [OF inv] show ?thesis
    by (auto intro!: set_pending_inv)
next
  case (ExecuteRotation a)
  then obtain p s1 where act: "case pr_action p of
        RotAdd o' n \<Rightarrow> apply_add_operator env a o' n s = Inr s1
      | RotRemove o' \<Rightarrow> apply_remove_operator env a o' s = Inr s1"
    and s': "s' = or_emit (RotationExecuted a p) (s1\<lparr>or_pending := None\<rparr>)"
    using execute_ok [of env a s s'] e by auto
  have "rotation_inv s1"
    using act inv by (cases "pr_action p") (auto intro: apply_add_inv apply_remove_inv)
  then show ?thesis by (auto simp: s' intro: set_pending_inv)
next
  case (RotationAcl a)
  with inv e acl_exec_inv [of s env a s'] rotation_frame [OF acl_exec_more [of env a s s']]
  show ?thesis by (simp add: rotation_inv_def)
qed (use inv e in \<open>auto simp: add_operator_def remove_operator_def cancel_rotation_def
    intro: apply_add_inv apply_remove_inv set_pending_inv\<close>)

lemma rotation_initial_inv: "rotation_inv (rotation_initial admin)"
  by (simp add: rotation_inv_def rotation_initial_def registry_ok_def all_operators_def acl_inv_def
      role_grants_def permission_grants_def)

interpretation rotation: contract_invariant rotation_exec "\<lambda>s. \<exists>admin. s = rotation_initial admin"
  "\<lambda>_. True" rotation_inv
  by unfold_locales (auto intro: rotation_initial_inv rotation_exec_inv)

lemma entries_loop_addresses:
  assumes "\<forall>a op. ops a = Some op \<longrightarrow> op_address op = a"
  shows "map oe_address (filter oe_is_active (entries_loop ops as))
    = filter (\<lambda>a. \<exists>op. ops a = Some op \<and> op_is_active op) as"
  using assms by (induction as) (auto split: option.split)

text \<open>A pending rotation was proposed: its proposal is a call of the history, made and signed by the
  admin of its moment, and its window was computed from the configuration of that moment.\<close>

definition proposed_by_admin :: "rotation_state \<Rightarrow> env \<Rightarrow> rotation_call \<Rightarrow> pending_rotation \<Rightarrow> bool" where
  "proposed_by_admin s env c p \<longleftrightarrow> c = ProposeRotation (pr_proposed_by p) (pr_action p)
     \<and> pr_proposed_by p \<in> set (auths env) \<and> ac_admin s = Some (pr_proposed_by p)
     \<and> or_pending s = None \<and> is_ok (rotation_exec env c s)
     \<and> pr_executes_at p = timestamp env + rc_delay_secs (get_rotation_config s)
     \<and> pr_expires_at p = timestamp env + rc_delay_secs (get_rotation_config s)
         + rc_grace_period_secs (get_rotation_config s)"

definition proposed_in :: "rotation_state \<Rightarrow> (env \<times> rotation_call) list \<Rightarrow> pending_rotation \<Rightarrow> bool" where
  "proposed_in s0 h p \<longleftrightarrow> (\<exists>h1 env c h2. h = h1 @ (env, c) # h2
     \<and> proposed_by_admin (run rotation_exec s0 h1) env c p)"

lemma pending_step:
  assumes "rotation_exec env c s = Inr s'" "or_pending s' = Some p"
  shows "or_pending s = Some p \<or> proposed_by_admin s env c p"
proof (cases c)
  case (ProposeRotation a act)
  with propose_ok [of env a act s s'] assms show ?thesis
    by (auto simp: proposed_by_admin_def is_ok_iff)
next
  case (ExecuteRotation a)
  with execute_ok [of env a s s'] assms show ?thesis by auto
next
  case (RotationAcl a)
  with assms rotation_frame [OF acl_exec_more [of env a s s']] show ?thesis by simp
qed (use assms in \<open>auto simp: add_operator_def remove_operator_def cancel_rotation_def
    set_rotation_config_def split: if_splits dest!: apply_add_ok apply_remove_ok\<close>)

lemma proposed_in_extend: "proposed_in s0 h p \<Longrightarrow> proposed_in s0 (h @ [x]) p"
  unfolding proposed_in_def by fastforce

lemma pending_was_proposed:
  "or_pending (run rotation_exec (rotation_initial admin) h) = Some p
     \<Longrightarrow> proposed_in (rotation_initial admin) h p"
proof (induction h rule: rev_induct)
  case Nil
  then show ?case by (simp add: rotation_initial_def)
next
  case (snoc ec h)
  obtain env c where ec: "ec = (env, c)" by (cases ec)
  let ?s = "run rotation_exec (rotation_initial admin) h"
  have "or_pending ?s = Some p \<or> proposed_by_admin ?s env c p"
  proof (cases rule: invoke_cases [of rotation_exec env c ?s])
    case rolled_back
    with snoc.prems show ?thesis by (simp add: run_append ec)
  next
    case (performed s')
    with snoc.prems have "or_pending s' = Some p" by (simp add: run_append ec)
    from pending_step [OF performed(1) this] show ?thesis .
  qed
  then show ?case
  proof
    assume "or_pending ?s = Some p"
    with snoc.IH show ?thesis by (blast intro: proposed_in_extend)
  next
    assume "proposed_by_admin ?s env c p"
    then show ?thesis unfolding proposed_in_def ec by blast
  qed
qed

section \<open>Properties\<close>

definition rot_env :: "nat \<Rightarrow> env" where
  "rot_env t = \<lparr>timestamp = t, auths = [''A'', ''G'']\<rparr>"

definition rot_history :: "(env \<times> rotation_call) list" where
  "rot_history = [
     (rot_env 1, AddOperator ''A'' ''x'' ''first''),
     (rot_env 2, AddOperator ''A'' ''y'' ''second''),
     (rot_env 3, RemoveOperator ''A'' ''x''),
     (rot_env 4, RemoveOperator ''A'' ''y''),
     (rot_env 5, RotationAcl (AclGrantPermission ''A'' ''G'' EmergencyPause 0)),
     (rot_env 6, SetRotationConfig ''A'' 10 20),
     (rot_env 7, ProposeRotation ''A'' (RotAdd ''z'' ''third''))]"

text \<open>Also: in every reachable state the registry is coherent: its list of addresses has no
  duplicates and is the domain of the stored records, every record is under its own address
  and is active iff it has no remover, the active listing is exactly the addresses for which
  \<open>is_operator\<close> holds, and once any operator was added there is an active one.\<close>

theorem operator_registry_invariant:
  "distinct (all_operators (run rotation_exec (rotation_initial admin) h))
   \<and> set (all_operators (run rotation_exec (rotation_initial admin) h))
       = dom (or_operators (run rotation_exec (rotation_initial admin) h))
   \<and> set (map oe_address (get_active_operators (run rotation_exec (rotation_initial admin) h)))
       = {a. is_operator (run rotation_exec (rotation_initial admin) h) a}
   \<and> (or_operators (run rotation_exec (rotation_initial admin) h) = Map.empty
       \<or> (\<exists>a. is_operator (run rotation_exec (rotation_initial admin) h) a))"
proof -
  let ?s = "run rotation_exec (rotation_initial admin) h"
  have "rotation_inv ?s" by (rule rotation.run_inv) (auto simp: list_all_iff)
  then have r: "registry_ok (or_operators ?s) (all_operators ?s)" by (simp add: rotation_inv_def)
  have "map oe_address (get_active_operators ?s)
      = filter (\<lambda>a. \<exists>op. or_operators ?s a = Some op \<and> op_is_active op) (all_operators ?s)"
    using r unfolding get_active_operators_def get_all_operators_def all_operators_def
    by (intro entries_loop_addresses) (auto simp: registry_ok_def)
  moreover have "is_operator ?s a \<longleftrightarrow> (\<exists>op. or_operators ?s a = Some op \<and> op_is_active op)" for a
    by (simp add: is_operator_def split: option.split)
  ultimately show ?thesis
    using r by (auto simp: registry_ok_def simp flip: dom_eq_empty_conv)
qed

text \<open>C21: a rotation takes effect only after its delay and inside its grace period, and only if the
  admin announced it. In every history from deployment, when \<open>execute_rotation\<close> succeeds, its caller
  signed and is the admin of that moment, and the history splits at the successful call that
  proposed exactly this action: it was signed by the admin of its own moment, and with the delay and
  the grace period configured then, the execution comes at least the delay after the proposal and at
  most the delay plus the grace period after it; the delay is positive. The action has been applied
  to the operator it names, and nothing is pending any more. (The same action can be made at once
  through add_operator and remove_operator, which this theorem does not concern.)\<close>

theorem rotation_timelock:
  assumes "rotation_exec env (ExecuteRotation c) (run rotation_exec (rotation_initial admin) h) = Inr s'"
  shows "\<exists>h1 env0 x act h2 delay grace. h = h1 @ (env0, ProposeRotation x act) # h2
    \<and> is_ok (rotation_exec env0 (ProposeRotation x act) (run rotation_exec (rotation_initial admin) h1))
    \<and> x \<in> set (auths env0) \<and> ac_admin (run rotation_exec (rotation_initial admin) h1) = Some x
    \<and> delay = rc_delay_secs (get_rotation_config (run rotation_exec (rotation_initial admin) h1))
    \<and> grace = rc_grace_period_secs (get_rotation_config (run rotation_exec (rotation_initial admin) h1))
    \<and> 0 < delay \<and> timestamp env0 + delay \<le> timestamp env \<and> timestamp env \<le> timestamp env0 + delay + grace
    \<and> c \<in> set (auths env) \<and> ac_admin (run rotation_exec (rotation_initial admin) h) = Some c
    \<and> or_pending s' = None
    \<and> (case act of RotAdd a n \<Rightarrow> is_operator s' a | RotRemove a \<Rightarrow> \<not> is_operator s' a)"
proof -
  let ?s = "run rotation_exec (rotation_initial admin) h"
  obtain p s1 where p: "or_pending ?s = Some p" "pr_executes_at p \<le> timestamp env"
      "timestamp env \<le> pr_expires_at p"
    and act: "case pr_action p of RotAdd a n \<Rightarrow> apply_add_operator env c a n ?s = Inr s1
        | RotRemove a \<Rightarrow> apply_remove_operator env c a ?s = Inr s1"
    and s': "s' = or_emit (RotationExecuted c p) (s1\<lparr>or_pending := None\<rparr>)"
    and caller: "c \<in> set (auths env)" "ac_admin ?s = Some c"
    using execute_ok [of env c ?s s'] assms by auto
  obtain h1 env0 d h2 where h: "h = h1 @ (env0, d) # h2"
      and by_admin: "proposed_by_admin (run rotation_exec (rotation_initial admin) h1) env0 d p"
    using pending_was_proposed [OF p(1)] unfolding proposed_in_def by blast
  have "rotation_inv (run rotation_exec (rotation_initial admin) h1)"
    by (rule rotation.run_inv) (auto simp: list_all_iff)
  note positive = rotation_config_positive [OF this]
  have applied: "case pr_action p of RotAdd a n \<Rightarrow> is_operator s' a | RotRemove a \<Rightarrow> \<not> is_operator s' a"
    using act by (auto simp: s' is_operator_def split: rotation_action.splits
        dest!: apply_add_ok apply_remove_ok)
  have "or_pending s' = None" by (simp add: s')
  moreover have "h = h1 @ (env0, ProposeRotation (pr_proposed_by p) (pr_action p)) # h2"
    using h by_admin by (simp add: proposed_by_admin_def)
  ultimately show ?thesis
    using by_admin positive applied caller p(2,3) unfolding proposed_by_admin_def by metis
qed

theorem rotation_timelock_witness:
  "\<exists>s'. rotation_exec (rot_env 17) (ExecuteRotation ''A'')
        (run rotation_exec (rotation_initial ''A'') rot_history) = Inr s'
     \<and> or_pending s' = None \<and> is_ok (rotation_exec (rot_env 17) (ExecuteRotation ''A'')
        (run rotation_exec (rotation_initial ''A'') rot_history))
     \<and> \<not> is_ok (rotation_exec (rot_env 16) (ExecuteRotation ''A'')
        (run rotation_exec (rotation_initial ''A'') rot_history))"
proof -
  have ok: "is_ok (rotation_exec (rot_env 17) (ExecuteRotation ''A'')
        (run rotation_exec (rotation_initial ''A'') rot_history))"
    and early: "\<not> is_ok (rotation_exec (rot_env 16) (ExecuteRotation ''A'')
        (run rotation_exec (rotation_initial ''A'') rot_history))"
    by code_simp+
  then obtain s' where s': "rotation_exec (rot_env 17) (ExecuteRotation ''A'')
        (run rotation_exec (rotation_initial ''A'') rot_history) = Inr s'"
    by (auto simp: is_ok_iff)
  from rotation_timelock [OF s'] s' ok early show ?thesis by blast
qed

text \<open>Also: in every reachable state a pending rotation can be cancelled by exactly the admin and
  the addresses that the access control list permits the emergency pause, and by nobody else;
  the cancellation removes it.\<close>

theorem rotation_cancel_iff:
  "is_ok (rotation_exec env (CancelRotation c) (run rotation_exec (rotation_initial admin) h)) \<longleftrightarrow>
     or_pending (run rotation_exec (rotation_initial admin) h) \<noteq> None
     \<and> c \<in> set (auths env)
     \<and> (ac_admin (run rotation_exec (rotation_initial admin) h) = Some c
        \<or> ac_admin (run rotation_exec (rotation_initial admin) h) \<noteq> None
          \<and> permitted (timestamp env) (acl_abs (run rotation_exec (rotation_initial admin) h)) c
              EmergencyPause)"
proof -
  have "rotation_inv (run rotation_exec (rotation_initial admin) h)"
    by (rule rotation.run_inv) (auto simp: list_all_iff)
  then have "acl_inv (run rotation_exec (rotation_initial admin) h)" by (simp add: rotation_inv_def)
  from has_permission_permitted [OF this, of env c EmergencyPause] show ?thesis
    by (auto simp: is_ok_iff cancel_rotation_def check.require_ok)
qed

end
