(* ===== verification/Threshold_Window.thy ===== *)
theory Threshold_Window
  imports Soroban
begin

text \<open>
  Threshold windows (\<open>soroban/src/threshold_window.rs\<close>): named window configurations managed by
  the admin, at most ten, and the evaluation of a deviation against a window's threshold in
  checked \<open>i128\<close> arithmetic. Lemmas: the id list is duplicate-free and indexes exactly the
  stored, valid configurations; the evaluation reports a breach exactly when the relative
  deviation is above the threshold.
\<close>

section \<open>Data\<close>

datatype window_unit = Seconds | Minutes | Hours

record window_config =
  wc_window_id :: string
  wc_length :: nat
  wc_unit :: window_unit
  wc_threshold_bps :: nat
  wc_created_at :: nat
  wc_updated_at :: nat

record window_evaluation =
  we_window_id :: string
  we_value :: int
  we_threshold_bps :: nat
  we_is_breached :: bool
  we_breach_bps :: int
  we_evaluated_at :: nat

datatype window_event =
    WindowCreated string nat nat | WindowUpdated string nat nat | WindowRemoved string

record window_state =
  tw_admin :: "address option"
  tw_configs :: "string \<rightharpoonup> window_config"
  tw_all_windows :: "string list option"
  tw_events :: "window_event list"

type_synonym 'a window_res = "(unit, 'a) res"

definition max_windows :: nat where "max_windows = 10"

definition tw_emit :: "window_event \<Rightarrow> window_state \<Rightarrow> window_state" where
  "tw_emit ev s = s\<lparr>tw_events := tw_events s @ [ev]\<rparr>"

section \<open>Operations\<close>

definition window_require_admin :: "env \<Rightarrow> window_state \<Rightarrow> address \<Rightarrow> unit window_res" where
  "window_require_admin env s caller =
     and_then (require_auth env caller) (\<lambda>_.
     and_then (ok_or (tw_admin s) (Panic ''contract not initialized'')) (\<lambda>admin.
     ensure (caller = admin) (Panic ''only admin can manage threshold windows'')))"

definition create_window ::
  "env \<Rightarrow> address \<Rightarrow> string \<Rightarrow> nat \<Rightarrow> window_unit \<Rightarrow> nat \<Rightarrow> window_state
     \<Rightarrow> window_state window_res" where
  "create_window env caller window_id len unit threshold_bps s =
     and_then (window_require_admin env s caller) (\<lambda>_.
     if window_id = [] then Inl (Panic ''window_id cannot be empty'')
     else if len = 0 then Inl (Panic ''window length must be greater than 0'')
     else if threshold_bps = 0 \<or> threshold_bps > 10000
     then Inl (Panic ''threshold must be between 1 and 10_000 bps'')
     else if tw_configs s window_id \<noteq> None then Inl (Panic ''window already exists'')
     else
     let all = unwrap_or (tw_all_windows s) [] in
     if length all \<ge> max_windows then Inl (Panic ''maximum number of windows reached'')
     else
     let now = timestamp env;
         config = \<lparr>wc_window_id = window_id, wc_length = len, wc_unit = unit,
           wc_threshold_bps = threshold_bps, wc_created_at = now, wc_updated_at = now\<rparr> in
     Inr (tw_emit (WindowCreated window_id len threshold_bps)
       (s\<lparr>tw_configs := (tw_configs s)(window_id \<mapsto> config),
          tw_all_windows := Some (all @ [window_id])\<rparr>)))"

definition update_window ::
  "env \<Rightarrow> address \<Rightarrow> string \<Rightarrow> nat \<Rightarrow> window_unit \<Rightarrow> nat \<Rightarrow> window_state
     \<Rightarrow> window_state window_res" where
  "update_window env caller window_id len unit threshold_bps s =
     and_then (window_require_admin env s caller) (\<lambda>_.
     if len = 0 then Inl (Panic ''window length must be greater than 0'')
     else if threshold_bps = 0 \<or> threshold_bps > 10000
     then Inl (Panic ''threshold must be between 1 and 10_000 bps'')
     else
     and_then (ok_or (tw_configs s window_id) (Panic ''window not found'')) (\<lambda>config.
     let config' = config\<lparr>wc_length := len, wc_unit := unit, wc_threshold_bps := threshold_bps,
           wc_updated_at := timestamp env\<rparr> in
     Inr (tw_emit (WindowUpdated window_id len threshold_bps)
       (s\<lparr>tw_configs := (tw_configs s)(window_id \<mapsto> config')\<rparr>))))"

definition remove_window ::
  "env \<Rightarrow> address \<Rightarrow> string \<Rightarrow> window_state \<Rightarrow> window_state window_res" where
  "remove_window env caller window_id s =
     and_then (window_require_admin env s caller) (\<lambda>_.
     if tw_configs s window_id = None then Inl (Panic ''window not found'')
     else
     let all = unwrap_or (tw_all_windows s) [];
         updated = filter (\<lambda>w. w \<noteq> window_id) all in
     Inr (tw_emit (WindowRemoved window_id)
       (s\<lparr>tw_configs := (tw_configs s)(window_id := None), tw_all_windows := Some updated\<rparr>)))"

definition get_window :: "window_state \<Rightarrow> string \<Rightarrow> window_config option" where
  "get_window s window_id = tw_configs s window_id"

primrec windows_loop :: "(string \<rightharpoonup> window_config) \<Rightarrow> string list \<Rightarrow> window_config list" where
  "windows_loop m [] = []"
| "windows_loop m (w # ws) =
     (case m w of Some config \<Rightarrow> config # windows_loop m ws | None \<Rightarrow> windows_loop m ws)"

definition get_all_windows :: "window_state \<Rightarrow> window_config list" where
  "get_all_windows s = windows_loop (tw_configs s) (unwrap_or (tw_all_windows s) [])"

definition get_window_seconds :: "window_config \<Rightarrow> nat window_res" where
  "get_window_seconds config = (case wc_unit config of
       Seconds \<Rightarrow> Inr (wc_length config)
     | Minutes \<Rightarrow> mul_u64 (wc_length config) 60
     | Hours \<Rightarrow> mul_u64 (wc_length config) 3600)"

text \<open>The window length in seconds is computed and discarded, but its multiplication may trap.\<close>

definition evaluate_threshold ::
  "env \<Rightarrow> window_state \<Rightarrow> string \<Rightarrow> int \<Rightarrow> int \<Rightarrow> window_evaluation option window_res" where
  "evaluate_threshold env s window_id reference_value current_value =
     and_then (ok_or (tw_configs s window_id) (Panic ''window not found'')) (\<lambda>config.
     and_then (case wc_unit config of
         Seconds \<Rightarrow> Inr (wc_length config)
       | Minutes \<Rightarrow> mul_u64 (wc_length config) 60
       | Hours \<Rightarrow> mul_u64 (wc_length config) 3600) (\<lambda>_.
     if reference_value = 0
     then Inr (Some \<lparr>we_window_id = window_id, we_value = current_value,
       we_threshold_bps = wc_threshold_bps config, we_is_breached = False, we_breach_bps = 0,
       we_evaluated_at = timestamp env\<rparr>)
     else
     and_then (if current_value > reference_value then sub_i128 current_value reference_value
               else sub_i128 reference_value current_value) (\<lambda>diff.
     and_then (mul_i128 diff 10000) (\<lambda>scaled.
     and_then (div_i128 scaled reference_value) (\<lambda>deviation_bps.
     let is_breached = (deviation_bps > int (wc_threshold_bps config)) in
     Inr (Some \<lparr>we_window_id = window_id, we_value = current_value,
       we_threshold_bps = wc_threshold_bps config, we_is_breached = is_breached,
       we_breach_bps = deviation_bps, we_evaluated_at = timestamp env\<rparr>))))))"

datatype window_call =
    CreateWindow address string nat window_unit nat
  | UpdateWindow address string nat window_unit nat
  | RemoveWindow address string

fun window_exec :: "env \<Rightarrow> window_call \<Rightarrow> window_state \<Rightarrow> window_state window_res" where
  "window_exec env (CreateWindow c w l u t) s = create_window env c w l u t s"
| "window_exec env (UpdateWindow c w l u t) s = update_window env c w l u t s"
| "window_exec env (RemoveWindow c w) s = remove_window env c w s"

definition window_initial :: "address \<Rightarrow> window_state" where
  "window_initial admin =
     \<lparr>tw_admin = Some admin, tw_configs = Map.empty, tw_all_windows = None, tw_events = []\<rparr>"

section \<open>The registry's invariant\<close>

definition all_windows :: "window_state \<Rightarrow> string list" where
  "all_windows s = unwrap_or (tw_all_windows s) []"

definition window_inv :: "window_state \<Rightarrow> bool" where
  "window_inv s \<longleftrightarrow> distinct (all_windows s) \<and> set (all_windows s) = dom (tw_configs s)
     \<and> length (all_windows s) \<le> max_windows
     \<and> (\<forall>w c. tw_configs s w = Some c \<longrightarrow> wc_window_id c = w \<and> 0 < wc_length c
          \<and> 0 < wc_threshold_bps c \<and> wc_threshold_bps c \<le> 10000)"

lemma tw_emit_inv [simp]: "window_inv (tw_emit ev s) = window_inv s"
  by (simp add: tw_emit_def window_inv_def all_windows_def)

lemma window_require_admin_ok [simp]: "window_require_admin env s c = Inr u \<longleftrightarrow>
    c \<in> set (auths env) \<and> tw_admin s = Some c"
  by (auto simp: window_require_admin_def)

lemma create_window_inv: "window_inv s \<Longrightarrow> create_window env c w l u t s = Inr s' \<Longrightarrow> window_inv s'"
  by (auto simp: create_window_def window_inv_def all_windows_def Let_def tw_emit_def
      split: if_splits)

lemma update_window_inv: "window_inv s \<Longrightarrow> update_window env c w l u t s = Inr s' \<Longrightarrow> window_inv s'"
  by (auto simp: update_window_def window_inv_def all_windows_def Let_def tw_emit_def
      split: if_splits)

lemma remove_window_inv:
  assumes "window_inv s" "remove_window env c w s = Inr s'" shows "window_inv s'"
  using assms
  by (auto simp: remove_window_def window_inv_def all_windows_def Let_def tw_emit_def
      split: if_splits intro: order_trans [OF length_filter_le])

lemma window_initial_inv: "window_inv (window_initial admin)"
  by (simp add: window_inv_def window_initial_def all_windows_def)

interpretation windows: contract_invariant window_exec "\<lambda>s. \<exists>admin. s = window_initial admin"
  "\<lambda>_. True" window_inv
proof
  fix env c s s' assume "window_inv s" "window_exec env c s = Inr s'"
  then show "window_inv s'"
    by (cases c) (auto intro: create_window_inv update_window_inv remove_window_inv)
qed (auto intro: window_initial_inv)

lemma windows_loop_ids:
  "\<forall>w\<in>set ws. \<exists>c. m w = Some c \<and> wc_window_id c = w \<Longrightarrow> map wc_window_id (windows_loop m ws) = ws"
  by (induction ws) auto

section \<open>Properties\<close>

text \<open>Also: in every reachable state the listing of the windows has no duplicate, at most ten
  entries, and contains exactly the stored configurations, each under its own id with a
  positive length and a threshold between 1 and 10000 basis points.\<close>

theorem window_registry_invariant:
  "distinct (map wc_window_id (get_all_windows (run window_exec (window_initial admin) h)))
   \<and> length (get_all_windows (run window_exec (window_initial admin) h)) \<le> 10
   \<and> (\<forall>w. get_window (run window_exec (window_initial admin) h) w \<noteq> None \<longleftrightarrow>
        w \<in> set (map wc_window_id (get_all_windows (run window_exec (window_initial admin) h))))
   \<and> list_all (\<lambda>c. 0 < wc_length c \<and> 0 < wc_threshold_bps c \<and> wc_threshold_bps c \<le> 10000)
       (get_all_windows (run window_exec (window_initial admin) h))"
proof -
  let ?s = "run window_exec (window_initial admin) h"
  have inv: "window_inv ?s" by (rule windows.run_inv) (auto simp: list_all_iff)
  have sub: "set (windows_loop (tw_configs ?s) ws) \<subseteq> ran (tw_configs ?s)" for ws
    by (induction ws) (auto intro: ranI split: option.splits)
  have ids: "map wc_window_id (get_all_windows ?s) = all_windows ?s"
    using inv unfolding get_all_windows_def all_windows_def [symmetric]
    by (intro windows_loop_ids) (auto simp: window_inv_def)
  have len: "length (get_all_windows ?s) \<le> 10"
    using inv arg_cong [OF ids, of length] by (simp add: window_inv_def max_windows_def)
  have "list_all (\<lambda>c. 0 < wc_length c \<and> 0 < wc_threshold_bps c \<and> wc_threshold_bps c \<le> 10000)
       (get_all_windows ?s)"
    using inv sub unfolding get_all_windows_def
    by (auto simp: window_inv_def list_all_iff ran_def dest!: subsetD [OF sub])
  with inv ids len show ?thesis
    unfolding ids by (auto simp: window_inv_def get_window_def)
qed

text \<open>Also: against a positive reference whose scaled deviation fits \<open>i128\<close>, the evaluation always
  returns, reports the relative deviation in basis points rounded down, and a breach exactly
  when that is above the threshold, in other words when the distance of the value from the
  reference, times 10000, reaches the threshold plus one times the reference; it does not
  depend on the side the value deviates to.\<close>

theorem evaluate_threshold_exact:
  assumes "tw_configs s w = Some c" "wc_length c * 3600 \<le> u64_max"
    and "0 < r" "in_i128 (\<bar>v - r\<bar> * 10000)"
  shows "evaluate_threshold env s w r v = Inr (Some \<lparr>we_window_id = w, we_value = v,
      we_threshold_bps = wc_threshold_bps c,
      we_is_breached = ((int (wc_threshold_bps c) + 1) * r \<le> \<bar>v - r\<bar> * 10000),
      we_breach_bps = \<bar>v - r\<bar> * 10000 div r, we_evaluated_at = timestamp env\<rparr>)"
proof -
  define d where "d = \<bar>v - r\<bar>"
  have d: "0 \<le> d" "in_i128 (d * 10000)" using assms(4) by (simp_all add: d_def)
  then have "in_i128 d" by (auto intro: in_i128_between)
  then have diff: "(if v > r then sub_i128 v r else sub_i128 r v) = (Inr d :: int window_res)"
    by (cases "v > r") (simp_all add: i_checked_def d_def)
  have q: "div_i128 (d * 10000) r = (Inr (d * 10000 div r) :: int window_res)"
    using d assms(3) by (intro div_i128_pos) auto
  have breach: "d * 10000 div r > int (wc_threshold_bps c) \<longleftrightarrow> (int (wc_threshold_bps c) + 1) * r \<le> d * 10000"
    using assms(3) by (simp add: le_zdiv_iff [OF assms(3), symmetric] add1_zle_eq)
  have secs: "\<exists>n. (case wc_unit c of Seconds \<Rightarrow> Inr (wc_length c)
       | Minutes \<Rightarrow> mul_u64 (wc_length c) 60 | Hours \<Rightarrow> mul_u64 (wc_length c) 3600) = (Inr n :: nat window_res)"
    using assms(2) by (auto simp: u_checked_def split: window_unit.split)
  then show ?thesis
    using d assms(1,3) diff q breach unfolding evaluate_threshold_def d_def [symmetric]
    by (auto simp: i_checked_def Let_def)
qed

theorem evaluate_threshold_exact_witness:
  "\<exists>ev. evaluate_threshold \<lparr>timestamp = 9, auths = []\<rparr>
      (run window_exec (window_initial ''A'')
         [(\<lparr>timestamp = 1, auths = [''A'']\<rparr>, CreateWindow ''A'' ''w'' 5 Hours 200)]) ''w'' 1000 979
      = Inr (Some ev) \<and> we_is_breached ev \<and> we_breach_bps ev = 210"
proof -
  let ?s = "run window_exec (window_initial ''A'')
         [(\<lparr>timestamp = 1, auths = [''A'']\<rparr>, CreateWindow ''A'' ''w'' 5 Hours 200)]"
  have "map_option (\<lambda>c. (wc_length c, wc_threshold_bps c)) (tw_configs ?s ''w'') = Some (5, 200)"
    by code_simp
  then obtain c where "tw_configs ?s ''w'' = Some c" "wc_length c = 5" "wc_threshold_bps c = 200"
    by auto
  with evaluate_threshold_exact [OF this(1), of 1000 979 "\<lparr>timestamp = 9, auths = []\<rparr>"]
  show ?thesis by (simp add: width_defs in_i128_def)
qed

text \<open>Also: the deviation is divided by the signed reference, so against a negative one it is never
  positive: an evaluation against a negative reference never reports a breach, however far
  the value is from it.\<close>

theorem negative_reference_never_breaches:
  assumes "evaluate_threshold env s w r v = Inr (Some ev)" "r < 0"
  shows "\<not> we_is_breached ev \<and> we_breach_bps ev \<le> 0"
proof -
  have "\<exists>d. 0 \<le> d \<and> d = (if v > r then v - r else r - v)" by simp
  with assms obtain d where d: "0 \<le> d" "we_breach_bps ev = (d * 10000) sdiv r"
      "we_is_breached ev \<longleftrightarrow> we_breach_bps ev > int (we_threshold_bps ev)"
    unfolding evaluate_threshold_def div_i128_def Let_def
    by (cases "v > r") (auto intro: that [of "v - r"] that [of "r - v"])
  have "(d * 10000) sdiv r = - (d * 10000 div - r)"
    using assms(2) d(1) by (cases "d = 0") (simp_all add: signed_divide_int_def)
  moreover have "0 \<le> d * 10000 div - r" using d(1) assms(2) by (simp add: pos_imp_zdiv_nonneg_iff)
  ultimately show ?thesis using d by simp
qed

theorem negative_reference_never_breaches_witness:
  "\<exists>ev. evaluate_threshold \<lparr>timestamp = 9, auths = []\<rparr>
      (run window_exec (window_initial ''A'')
         [(\<lparr>timestamp = 1, auths = [''A'']\<rparr>, CreateWindow ''A'' ''w'' 5 Hours 200)])
      ''w'' (-1000) 5000 = Inr (Some ev) \<and> \<not> we_is_breached ev \<and> we_breach_bps ev = - 60000"
proof -
  let ?s = "run window_exec (window_initial ''A'')
         [(\<lparr>timestamp = 1, auths = [''A'']\<rparr>, CreateWindow ''A'' ''w'' 5 Hours 200)]"
  have "(case evaluate_threshold \<lparr>timestamp = 9, auths = []\<rparr> ?s ''w'' (-1000) 5000 of
      Inr (Some ev) \<Rightarrow> we_breach_bps ev = - 60000 | _ \<Rightarrow> False)" by code_simp
  then obtain ev where "evaluate_threshold \<lparr>timestamp = 9, auths = []\<rparr> ?s ''w'' (-1000) 5000
      = Inr (Some ev)" "we_breach_bps ev = - 60000"
    by (auto split: sum.splits option.splits)
  with negative_reference_never_breaches [OF this(1)] show ?thesis by simp
qed

end
