(* ===== verification/Message_Relay.thy ===== *)
theory Message_Relay
  imports Soroban
begin

text \<open>
  The cross-chain message relay (\<open>soroban/src/relay/\<close>): message queue by priority, per-sender
  nonces, relay operators, state proofs, single and batched relaying, expiry and cleanup.
  \<open>sha256\<close> is the host's hash function, a parameter of every definition that hashes; messages
  are encoded to bytes as the code does it. Lemmas: identifiers are never reused, so no message
  is relayed twice or overwritten; the queue is duplicate-free, ordered by priority and holds
  every message that can still be relayed; what a successful relay needs.
\<close>

section \<open>Data\<close>

type_synonym bytes = "nat list"

datatype chain_id = Stellar | Ethereum | Polygon | Base

datatype message_status = Pending | Verified | Relayed | Failed | Expired

datatype message_priority = Critical | High | Medium | Low

fun message_priority_value :: "message_priority \<Rightarrow> nat" where
  "message_priority_value Critical = 0"
| "message_priority_value High = 1"
| "message_priority_value Medium = 2"
| "message_priority_value Low = 3"

text \<open>Priorities are ordered by their value, the most urgent first.\<close>

instantiation message_priority :: linorder
begin

definition less_eq_message_priority :: "message_priority \<Rightarrow> message_priority \<Rightarrow> bool" where
  "less_eq_message_priority p q \<longleftrightarrow> message_priority_value p \<le> message_priority_value q"

definition less_message_priority :: "message_priority \<Rightarrow> message_priority \<Rightarrow> bool" where
  "less_message_priority p q \<longleftrightarrow> message_priority_value p < message_priority_value q"

instance
proof
  fix p q :: message_priority
  assume "p \<le> q" "q \<le> p"
  then show "p = q"
    by (cases p; cases q) (simp_all add: less_eq_message_priority_def)
qed (auto simp: less_eq_message_priority_def less_message_priority_def)

end

record message =
  cm_message_id :: bytes
  cm_source_chain :: chain_id
  cm_dest_chain :: chain_id
  cm_sender :: address
  cm_payload :: bytes
  cm_nonce :: nat
  cm_timestamp :: nat
  cm_expiry :: nat
  cm_priority :: message_priority
  cm_status :: message_status
  cm_fee :: int

record state_proof =
  sp_chain_id :: chain_id
  sp_block_number :: nat
  sp_state_root :: bytes
  sp_proof_data :: bytes
  sp_validator_key :: bytes
  sp_signature :: bytes

record relay_operator =
  ro_operator :: address
  ro_public_key :: bytes
  ro_is_active :: bool
  ro_messages_relayed :: nat
  ro_registered_at :: nat

record chain_config =
  cc_chain_id :: chain_id
  cc_base_fee :: int
  cc_fee_per_byte :: int
  cc_is_enabled :: bool

record batch_relay_item =
  bi_message_id :: bytes
  bi_signature :: bytes

record relay_result =
  rr_success_count :: nat
  rr_failure_count :: nat
  rr_relayed_ids :: "bytes list"

datatype relay_error =
    AlreadyInitialized | NotInitialized | Unauthorized | InvalidNonce | MessageExpired
  | MessageNotFound | InvalidMessageStatus | OperatorNotActive | OperatorAlreadyRegistered
  | InvalidSignature | InvalidStateProof | ChainNotEnabled | ChainConfigNotFound
  | InsufficientFee | PayloadTooLarge | EmptyBatch | InvalidTtl

datatype relay_event =
    EvOperatorRegistered address | EvOperatorDeactivated address
  | EvMessageSent bytes address chain_id
  | EvStatusChanged bytes message_status message_status
  | EvMessageRelayed bytes address | EvBatchRelayed nat nat
  | EvStateProofVerified chain_id nat | EvMessagesCleaned nat

record relay_state =
  rs_admin :: "address option"
  rs_initialized :: "bool option"
  rs_messages :: "bytes \<rightharpoonup> message"
  rs_queue :: "bytes list option"
  rs_nonce :: "address \<rightharpoonup> nat"
  rs_operators :: "address \<rightharpoonup> relay_operator"
  rs_operator_list :: "address list option"
  rs_chain_config :: "nat \<rightharpoonup> chain_config"
  rs_total_messages :: "nat option"
  rs_total_relayed :: "nat option"
  rs_total_fees :: "int option"
  rs_default_ttl :: "nat option"
  rs_events :: "relay_event list"

definition relay_empty :: relay_state where
  "relay_empty = \<lparr>rs_admin = None, rs_initialized = None, rs_messages = Map.empty,
     rs_queue = None, rs_nonce = Map.empty, rs_operators = Map.empty, rs_operator_list = None,
     rs_chain_config = Map.empty, rs_total_messages = None, rs_total_relayed = None,
     rs_total_fees = None, rs_default_ttl = None, rs_events = []\<rparr>"

type_synonym 'a relay_res = "(relay_error, 'a) res"

definition rs_emit :: "relay_event \<Rightarrow> relay_state \<Rightarrow> relay_state" where
  "rs_emit ev s = s\<lparr>rs_events := rs_events s @ [ev]\<rparr>"

definition rs_set_message :: "bytes \<Rightarrow> message \<Rightarrow> relay_state \<Rightarrow> relay_state" where
  "rs_set_message i m s = s\<lparr>rs_messages := (rs_messages s)(i \<mapsto> m)\<rparr>"

section \<open>Internal helpers\<close>

definition require_initialized :: "relay_state \<Rightarrow> unit relay_res" where
  "require_initialized s = ensure (rs_initialized s \<noteq> None) (Err NotInitialized)"

definition relay_require_admin :: "env \<Rightarrow> relay_state \<Rightarrow> unit relay_res" where
  "relay_require_admin env s =
     and_then (require_initialized s) (\<lambda>_.
     and_then (ok_or (rs_admin s) (Err NotInitialized)) (\<lambda>admin.
     require_auth env admin))"

fun chain_to_u32 :: "chain_id \<Rightarrow> nat" where
  "chain_to_u32 Stellar = 0"
| "chain_to_u32 Ethereum = 1"
| "chain_to_u32 Polygon = 2"
| "chain_to_u32 Base = 3"

definition set_chain_config_internal :: "chain_config \<Rightarrow> relay_state \<Rightarrow> relay_state" where
  "set_chain_config_internal config s =
     s\<lparr>rs_chain_config := (rs_chain_config s)(chain_to_u32 (cc_chain_id config) \<mapsto> config)\<rparr>"

definition get_chain_config :: "relay_state \<Rightarrow> chain_id \<Rightarrow> chain_config relay_res" where
  "get_chain_config s chain =
     ok_or (rs_chain_config s (chain_to_u32 chain)) (Err ChainConfigNotFound)"

definition get_nonce :: "relay_state \<Rightarrow> address \<Rightarrow> nat" where
  "get_nonce s sender = unwrap_or (rs_nonce s sender) 0"

definition set_nonce :: "address \<Rightarrow> nat \<Rightarrow> relay_state \<Rightarrow> relay_state" where
  "set_nonce sender nonce s = s\<lparr>rs_nonce := (rs_nonce s)(sender \<mapsto> nonce)\<rparr>"

definition estimate_fee_internal :: "bytes \<Rightarrow> chain_config \<Rightarrow> int" where
  "estimate_fee_internal payload cfg =
     sat_i128 (cc_base_fee cfg + sat_i128 (cc_fee_per_byte cfg * int (length payload)))"

definition is_expired :: "env \<Rightarrow> message \<Rightarrow> bool" where
  "is_expired env m \<longleftrightarrow> timestamp env \<ge> cm_expiry m"

text \<open>\<open>to_be_bytes\<close>, on as many bytes as the integer has.\<close>

primrec be_bytes :: "nat \<Rightarrow> nat \<Rightarrow> bytes" where
  "be_bytes 0 v = []"
| "be_bytes (Suc k) v = be_bytes k (v div 256) @ [v mod 256]"

definition append_u32 :: "bytes \<Rightarrow> nat \<Rightarrow> bytes" where
  "append_u32 buf v = buf @ be_bytes 4 v"

definition append_u64 :: "bytes \<Rightarrow> nat \<Rightarrow> bytes" where
  "append_u64 buf v = buf @ be_bytes 8 v"

definition append_bytesn :: "bytes \<Rightarrow> bytes \<Rightarrow> bytes" where
  "append_bytesn buf b = buf @ b"

definition address_bytes :: "address \<Rightarrow> bytes" where
  "address_bytes a = map of_char a"

definition message_encoding ::
  "chain_id \<Rightarrow> chain_id \<Rightarrow> address \<Rightarrow> bytes \<Rightarrow> nat \<Rightarrow> nat \<Rightarrow> bytes" where
  "message_encoding source_chain dest_chain sender payload nonce ts =
     append_u64 (append_u64 (append_u32 (append_u32 [] (chain_to_u32 source_chain))
       (chain_to_u32 dest_chain)) nonce) ts @ address_bytes sender @ payload"

text \<open>The sender's text is copied through a 56-byte buffer: a longer one is out of bounds.\<close>

definition hash_message ::
  "(bytes \<Rightarrow> bytes) \<Rightarrow> chain_id \<Rightarrow> chain_id \<Rightarrow> address \<Rightarrow> bytes \<Rightarrow> nat \<Rightarrow> nat \<Rightarrow> bytes relay_res" where
  "hash_message sha256 source_chain dest_chain sender payload nonce ts =
     (if length sender > 56 then Inl (Panic ''range end index out of range'')
      else Inr (sha256 (message_encoding source_chain dest_chain sender payload nonce ts)))"

definition get_message_or_err :: "relay_state \<Rightarrow> bytes \<Rightarrow> relay_error + message" where
  "get_message_or_err s i = ok_or (rs_messages s i) MessageNotFound"

definition get_operator_or_err :: "relay_state \<Rightarrow> address \<Rightarrow> relay_error + relay_operator" where
  "get_operator_or_err s a = ok_or (rs_operators s a) OperatorNotActive"

definition relay_queue :: "relay_state \<Rightarrow> bytes list" where
  "relay_queue s = unwrap_or (rs_queue s) []"

fun insert_position ::
  "(bytes \<rightharpoonup> message) \<Rightarrow> message_priority \<Rightarrow> bytes list \<Rightarrow> bytes \<Rightarrow> bytes list" where
  "insert_position msgs p [] i = [i]"
| "insert_position msgs p (q # qs) i =
     (case msgs q of
        Some qm \<Rightarrow> if message_priority_value p < message_priority_value (cm_priority qm)
            then i # q # qs else q # insert_position msgs p qs i
      | None \<Rightarrow> q # insert_position msgs p qs i)"

definition insert_queue_by_priority :: "bytes \<Rightarrow> relay_state \<Rightarrow> relay_error + relay_state" where
  "insert_queue_by_priority i s =
     and_then (get_message_or_err s i) (\<lambda>m.
     Inr (s\<lparr>rs_queue := Some (insert_position (rs_messages s) (cm_priority m) (relay_queue s) i)\<rparr>))"

definition remove_from_queue :: "bytes \<Rightarrow> relay_state \<Rightarrow> relay_state" where
  "remove_from_queue i s = s\<lparr>rs_queue := Some (remove1 i (relay_queue s))\<rparr>"

definition verify_operator_signature ::
  "(bytes \<Rightarrow> bytes) \<Rightarrow> bytes \<Rightarrow> bytes \<Rightarrow> bytes \<Rightarrow> relay_error + unit" where
  "verify_operator_signature sha256 message_id public_key sig =
     (let digest = sha256 (append_bytesn (append_bytesn [] message_id) public_key) in
      if list_ex (\<lambda>i. sig ! i \<noteq> digest ! i \<or> sig ! (i + 32) \<noteq> digest ! i) [0..<32]
      then Inl InvalidSignature else Inr ())"

definition increment_relayed :: "relay_state \<Rightarrow> relay_state" where
  "increment_relayed s =
     s\<lparr>rs_total_relayed := Some (sat_u64 (unwrap_or (rs_total_relayed s) 0 + 1))\<rparr>"

text \<open>
  The internal relay returns its error together with the state it leaves: an expired message
  has been marked before the error is returned. The caller decides what becomes of it.
\<close>

definition relay_message_internal ::
  "(bytes \<Rightarrow> bytes) \<Rightarrow> env \<Rightarrow> address \<Rightarrow> bytes \<Rightarrow> bytes \<Rightarrow> relay_state
     \<Rightarrow> (relay_error + bool) \<times> relay_state" where
  "relay_message_internal sha256 env operator message_id sig s =
     (case get_operator_or_err s operator of
        Inl e \<Rightarrow> (Inl e, s)
      | Inr rop \<Rightarrow>
        if \<not> ro_is_active rop then (Inl OperatorNotActive, s)
        else (case get_message_or_err s message_id of
          Inl e \<Rightarrow> (Inl e, s)
        | Inr m \<Rightarrow>
          if is_expired env m
          then (Inl MessageExpired,
            rs_emit (EvStatusChanged message_id (cm_status m) Expired)
              (rs_set_message message_id (m\<lparr>cm_status := Expired\<rparr>) s))
          else if cm_status m \<noteq> Pending \<and> cm_status m \<noteq> Verified
          then (Inl InvalidMessageStatus, s)
          else (case verify_operator_signature sha256 message_id (ro_public_key rop) sig of
            Inl e \<Rightarrow> (Inl e, s)
          | Inr _ \<Rightarrow>
            let s1 = rs_set_message message_id (m\<lparr>cm_status := Relayed\<rparr>) s;
                rop' = rop\<lparr>ro_messages_relayed := sat_u64 (ro_messages_relayed rop + 1)\<rparr>;
                s2 = s1\<lparr>rs_operators := (rs_operators s1)(operator \<mapsto> rop')\<rparr>;
                s3 = increment_relayed (remove_from_queue message_id s2) in
            (Inr True, rs_emit (EvMessageRelayed message_id operator)
               (rs_emit (EvStatusChanged message_id (cm_status m) Relayed) s3)))))"

primrec find_active_validator ::
  "(address \<rightharpoonup> relay_operator) \<Rightarrow> bytes \<Rightarrow> address list \<Rightarrow> bool" where
  "find_active_validator ops k [] = False"
| "find_active_validator ops k (a # as) =
     (case ops a of
        Some op \<Rightarrow> if ro_is_active op \<and> ro_public_key op = k then True
            else find_active_validator ops k as
      | None \<Rightarrow> find_active_validator ops k as)"

definition verify_state_proof_internal ::
  "(bytes \<Rightarrow> bytes) \<Rightarrow> state_proof \<Rightarrow> relay_state \<Rightarrow> (bool \<times> relay_state) relay_res" where
  "verify_state_proof_internal sha256 proof s =
     and_then (get_chain_config s (sp_chain_id proof)) (\<lambda>config.
     if \<not> cc_is_enabled config then Inl (Err ChainNotEnabled)
     else if sha256 (sp_proof_data proof) \<noteq> sp_state_root proof then Inl (Err InvalidStateProof)
     else if \<not> find_active_validator (rs_operators s) (sp_validator_key proof)
         (unwrap_or (rs_operator_list s) [])
     then Inl (Err OperatorNotActive)
     else
     let attestation = append_bytesn (append_bytesn (append_u64 (append_u32 []
           (chain_to_u32 (sp_chain_id proof))) (sp_block_number proof)) (sp_state_root proof))
           (sp_validator_key proof);
         digest = sha256 attestation;
         sig = sp_signature proof in
     if list_ex (\<lambda>j. sig ! j \<noteq> digest ! j \<or> sig ! (j + 32) \<noteq> digest ! j) [0..<32]
     then Inl (Err InvalidSignature)
     else Inr (True, rs_emit (EvStateProofVerified (sp_chain_id proof) (sp_block_number proof)) s))"

section \<open>Setup\<close>

definition relay_initialize ::
  "env \<Rightarrow> address \<Rightarrow> nat \<Rightarrow> relay_state \<Rightarrow> (unit \<times> relay_state) relay_res" where
  "relay_initialize env admin default_ttl s =
     (if default_ttl = 0 then Inl (Err InvalidTtl)
      else if rs_initialized s \<noteq> None then Inl (Err AlreadyInitialized)
      else and_then (require_auth env admin) (\<lambda>_.
      let s1 = s\<lparr>rs_admin := Some admin, rs_initialized := Some True,
            rs_default_ttl := Some default_ttl, rs_queue := Some [], rs_operator_list := Some [],
            rs_total_messages := Some 0, rs_total_relayed := Some 0, rs_total_fees := Some 0\<rparr>;
          s2 = set_chain_config_internal \<lparr>cc_chain_id = Ethereum, cc_base_fee = 1500,
            cc_fee_per_byte = 6, cc_is_enabled = True\<rparr> s1;
          s3 = set_chain_config_internal \<lparr>cc_chain_id = Polygon, cc_base_fee = 800,
            cc_fee_per_byte = 3, cc_is_enabled = True\<rparr> s2;
          s4 = set_chain_config_internal \<lparr>cc_chain_id = Base, cc_base_fee = 1000,
            cc_fee_per_byte = 4, cc_is_enabled = True\<rparr> s3 in
      Inr ((), s4)))"

definition configure_chain ::
  "env \<Rightarrow> chain_config \<Rightarrow> relay_state \<Rightarrow> (unit \<times> relay_state) relay_res" where
  "configure_chain env config s =
     and_then (relay_require_admin env s) (\<lambda>_. Inr ((), set_chain_config_internal config s))"

definition register_relay_operator ::
  "env \<Rightarrow> address \<Rightarrow> bytes \<Rightarrow> relay_state \<Rightarrow> (unit \<times> relay_state) relay_res" where
  "register_relay_operator env operator public_key s =
     and_then (relay_require_admin env s) (\<lambda>_.
     if rs_operators s operator \<noteq> None then Inl (Err OperatorAlreadyRegistered)
     else
     let rop = \<lparr>ro_operator = operator, ro_public_key = public_key, ro_is_active = True,
           ro_messages_relayed = 0, ro_registered_at = timestamp env\<rparr>;
         operator_list = unwrap_or (rs_operator_list s) [] in
     Inr ((), rs_emit (EvOperatorRegistered operator)
       (s\<lparr>rs_operators := (rs_operators s)(operator \<mapsto> rop),
          rs_operator_list := Some (operator_list @ [operator])\<rparr>)))"

definition deactivate_relay_operator ::
  "env \<Rightarrow> address \<Rightarrow> relay_state \<Rightarrow> (unit \<times> relay_state) relay_res" where
  "deactivate_relay_operator env operator s =
     and_then (relay_require_admin env s) (\<lambda>_.
     and_then (ok_or (rs_operators s operator) (Err OperatorNotActive)) (\<lambda>rop.
     Inr ((), rs_emit (EvOperatorDeactivated operator)
       (s\<lparr>rs_operators := (rs_operators s)(operator \<mapsto> rop\<lparr>ro_is_active := False\<rparr>)\<rparr>))))"

section \<open>Message flow\<close>

definition send_message ::
  "(bytes \<Rightarrow> bytes) \<Rightarrow> env \<Rightarrow> chain_id \<Rightarrow> chain_id \<Rightarrow> address \<Rightarrow> bytes \<Rightarrow> nat \<Rightarrow> message_priority
     \<Rightarrow> nat \<Rightarrow> int \<Rightarrow> relay_state \<Rightarrow> (bytes \<times> relay_state) relay_res" where
  "send_message sha256 env source_chain dest_chain sender payload nonce prio ttl_override fee_paid s =
     and_then (require_initialized s) (\<lambda>_.
     and_then (require_auth env sender) (\<lambda>_.
     if length payload > 16384 then Inl (Err PayloadTooLarge)
     else
     and_then (get_chain_config s dest_chain) (\<lambda>chain_config.
     if \<not> cc_is_enabled chain_config then Inl (Err ChainNotEnabled)
     else
     let expected_nonce = get_nonce s sender in
     if nonce \<noteq> expected_nonce then Inl (Err InvalidNonce)
     else
     let estimated_fee = estimate_fee_internal payload chain_config in
     if fee_paid < estimated_fee then Inl (Err InsufficientFee)
     else
     let now = timestamp env in
     and_then (ok_or (rs_default_ttl s) (Err NotInitialized)) (\<lambda>default_ttl.
     let ttl = (if ttl_override = 0 then default_ttl else ttl_override) in
     if ttl = 0 then Inl (Err InvalidTtl)
     else
     let expiry = sat_u64 (now + ttl) in
     and_then (hash_message sha256 source_chain dest_chain sender payload nonce now) (\<lambda>message_id.
     let m = \<lparr>cm_message_id = message_id, cm_source_chain = source_chain,
           cm_dest_chain = dest_chain, cm_sender = sender, cm_payload = payload, cm_nonce = nonce,
           cm_timestamp = now, cm_expiry = expiry, cm_priority = prio, cm_status = Pending,
           cm_fee = estimated_fee\<rparr> in
     (case insert_queue_by_priority message_id (rs_set_message message_id m s) of
        Inl e \<Rightarrow> Inl (Err e)
      | Inr s1 \<Rightarrow>
        let s2 = set_nonce sender (sat_u64 (expected_nonce + 1)) s1;
            s3 = s2\<lparr>rs_total_messages := Some (sat_u64 (unwrap_or (rs_total_messages s2) 0 + 1))\<rparr>;
            s4 = s3\<lparr>rs_total_fees :=
              Some (sat_i128 (unwrap_or (rs_total_fees s3) 0 + estimated_fee))\<rparr> in
        Inr (message_id, rs_emit (EvMessageSent message_id sender dest_chain) s4)))))))"

text \<open>The expired mark of \<open>verify_message\<close> is written before it returns its error, so the host
  rolls it back with the failed call.\<close>

definition verify_message ::
  "(bytes \<Rightarrow> bytes) \<Rightarrow> env \<Rightarrow> bytes \<Rightarrow> state_proof \<Rightarrow> relay_state \<Rightarrow> (bool \<times> relay_state) relay_res"
where
  "verify_message sha256 env message_id proof s =
     and_then (require_initialized s) (\<lambda>_.
     and_then (ok_or (rs_messages s message_id) (Err MessageNotFound)) (\<lambda>m.
     if is_expired env m then Inl (Err MessageExpired)
     else if cm_status m \<noteq> Pending then Inl (Err InvalidMessageStatus)
     else if sp_chain_id proof \<noteq> cm_source_chain m then Inl (Err InvalidStateProof)
     else
     and_then (verify_state_proof_internal sha256 proof s) (\<lambda>(proof_ok, s1).
     if \<not> proof_ok then Inl (Err InvalidStateProof)
     else Inr (True, rs_emit (EvStatusChanged message_id (cm_status m) Verified)
       (rs_set_message message_id (m\<lparr>cm_status := Verified\<rparr>) s1)))))"

definition relay_message ::
  "(bytes \<Rightarrow> bytes) \<Rightarrow> env \<Rightarrow> address \<Rightarrow> bytes \<Rightarrow> bytes \<Rightarrow> relay_state
     \<Rightarrow> (bool \<times> relay_state) relay_res" where
  "relay_message sha256 env operator message_id sig s =
     and_then (require_initialized s) (\<lambda>_.
     and_then (require_auth env operator) (\<lambda>_.
     case relay_message_internal sha256 env operator message_id sig s of
       (Inl e, _) \<Rightarrow> Inl (Err e)
     | (Inr b, s') \<Rightarrow> Inr (b, s')))"

definition verify_state_proof ::
  "(bytes \<Rightarrow> bytes) \<Rightarrow> state_proof \<Rightarrow> relay_state \<Rightarrow> (bool \<times> relay_state) relay_res" where
  "verify_state_proof sha256 proof s =
     and_then (require_initialized s) (\<lambda>_. verify_state_proof_internal sha256 proof s)"

text \<open>Here the error of one item is counted and its state kept.\<close>

fun batch_relay_loop ::
  "(bytes \<Rightarrow> bytes) \<Rightarrow> env \<Rightarrow> address \<Rightarrow> batch_relay_item list \<Rightarrow> relay_result \<Rightarrow> relay_state
     \<Rightarrow> relay_result \<times> relay_state" where
  "batch_relay_loop sha256 env operator [] r s = (r, s)"
| "batch_relay_loop sha256 env operator (item # items) r s =
     (case relay_message_internal sha256 env operator (bi_message_id item) (bi_signature item) s of
        (Inr _, s') \<Rightarrow> batch_relay_loop sha256 env operator items
          (r\<lparr>rr_success_count := sat_u32 (rr_success_count r + 1),
             rr_relayed_ids := rr_relayed_ids r @ [bi_message_id item]\<rparr>) s'
      | (Inl _, s') \<Rightarrow> batch_relay_loop sha256 env operator items
          (r\<lparr>rr_failure_count := sat_u32 (rr_failure_count r + 1)\<rparr>) s')"

definition batch_relay ::
  "(bytes \<Rightarrow> bytes) \<Rightarrow> env \<Rightarrow> address \<Rightarrow> batch_relay_item list \<Rightarrow> relay_state
     \<Rightarrow> (relay_result \<times> relay_state) relay_res" where
  "batch_relay sha256 env operator items s =
     and_then (require_initialized s) (\<lambda>_.
     and_then (require_auth env operator) (\<lambda>_.
     if items = [] then Inl (Err EmptyBatch)
     else
     let (r, s') = batch_relay_loop sha256 env operator items
           \<lparr>rr_success_count = 0, rr_failure_count = 0, rr_relayed_ids = []\<rparr> s in
     Inr (r, rs_emit (EvBatchRelayed (rr_success_count r) (rr_failure_count r)) s')))"

section \<open>Views and cleanup\<close>

definition get_message :: "relay_state \<Rightarrow> bytes \<Rightarrow> message option" where
  "get_message s i = rs_messages s i"

definition get_message_queue :: "relay_state \<Rightarrow> bytes list" where
  "get_message_queue s = relay_queue s"

definition peek_next_message :: "relay_state \<Rightarrow> bytes option" where
  "peek_next_message s = (case relay_queue s of [] \<Rightarrow> None | i # _ \<Rightarrow> Some i)"

definition estimate_fee :: "relay_state \<Rightarrow> chain_id \<Rightarrow> bytes \<Rightarrow> int relay_res" where
  "estimate_fee s dest_chain payload =
     and_then (get_chain_config s dest_chain) (\<lambda>config.
     if \<not> cc_is_enabled config then Inl (Err ChainNotEnabled)
     else Inr (estimate_fee_internal payload config))"

text \<open>The scan: what was kept so far (its length is the code's \<open>scanned\<close>), then the rest.\<close>

fun cleanup_loop ::
  "env \<Rightarrow> nat \<Rightarrow> bytes list \<Rightarrow> bytes list \<Rightarrow> nat \<Rightarrow> relay_state \<Rightarrow> bytes list \<times> nat \<times> relay_state"
where
  "cleanup_loop env max_items kept [] cleaned s = (kept, cleaned, s)"
| "cleanup_loop env max_items kept (i # rest) cleaned s =
     (if \<not> length kept < max_items then (kept @ i # rest, cleaned, s)
      else
      let (remove, s') = (case rs_messages s i of
            Some m \<Rightarrow>
              if is_expired env m \<and> (cm_status m = Pending \<or> cm_status m = Verified)
              then (True, rs_emit (EvStatusChanged i (cm_status m) Expired)
                (rs_set_message i (m\<lparr>cm_status := Expired\<rparr>) s))
              else if cm_status m = Relayed \<or> cm_status m = Expired then (True, s)
              else (False, s)
          | None \<Rightarrow> (True, s)) in
      if remove then cleanup_loop env max_items kept rest (sat_u32 (cleaned + 1)) s'
      else cleanup_loop env max_items (kept @ [i]) rest cleaned s')"

definition cleanup_expired_messages ::
  "env \<Rightarrow> nat \<Rightarrow> relay_state \<Rightarrow> (nat \<times> relay_state) relay_res" where
  "cleanup_expired_messages env max_items s =
     and_then (require_initialized s) (\<lambda>_.
     if max_items = 0 then Inr (0, s)
     else
     let (queue, cleaned, s1) = cleanup_loop env max_items [] (relay_queue s) 0 s;
         s2 = s1\<lparr>rs_queue := Some queue\<rparr>;
         s3 = (if cleaned > 0 then rs_emit (EvMessagesCleaned cleaned) s2 else s2) in
     Inr (cleaned, s3))"

definition get_metrics :: "relay_state \<Rightarrow> (string \<times> int) list" where
  "get_metrics s =
     [(''total_messages'', int (unwrap_or (rs_total_messages s) 0)),
      (''total_relayed'', int (unwrap_or (rs_total_relayed s) 0)),
      (''total_fees'', unwrap_or (rs_total_fees s) 0)]"

datatype relay_call =
    RelayInitialize address nat
  | ConfigureChain chain_config
  | RegisterRelayOperator address bytes
  | DeactivateRelayOperator address
  | SendMessage chain_id chain_id address bytes nat message_priority nat int
  | VerifyMessage bytes state_proof
  | RelayMessage address bytes bytes
  | VerifyStateProof state_proof
  | BatchRelay address "batch_relay_item list"
  | CleanupExpired nat

fun relay_exec ::
  "(bytes \<Rightarrow> bytes) \<Rightarrow> env \<Rightarrow> relay_call \<Rightarrow> relay_state \<Rightarrow> relay_state relay_res" where
  "relay_exec H env (RelayInitialize a ttl) s = state_of (relay_initialize env a ttl s)"
| "relay_exec H env (ConfigureChain c) s = state_of (configure_chain env c s)"
| "relay_exec H env (RegisterRelayOperator a k) s = state_of (register_relay_operator env a k s)"
| "relay_exec H env (DeactivateRelayOperator a) s = state_of (deactivate_relay_operator env a s)"
| "relay_exec H env (SendMessage sc dc a p n pr ttl fee) s =
     state_of (send_message H env sc dc a p n pr ttl fee s)"
| "relay_exec H env (VerifyMessage i p) s = state_of (verify_message H env i p s)"
| "relay_exec H env (RelayMessage a i sg) s = state_of (relay_message H env a i sg s)"
| "relay_exec H env (VerifyStateProof p) s = state_of (verify_state_proof H p s)"
| "relay_exec H env (BatchRelay a is) s = state_of (batch_relay H env a is s)"
| "relay_exec H env (CleanupExpired n) s = state_of (cleanup_expired_messages env n s)"

section \<open>The encoding separates messages\<close>

lemma length_be_bytes [simp]: "length (be_bytes k v) = k"
  by (induction k arbitrary: v) auto

primrec be_value :: "bytes \<Rightarrow> nat \<Rightarrow> nat" where
  "be_value [] acc = acc"
| "be_value (b # bs) acc = be_value bs (256 * acc + b)"

lemma be_value_append: "be_value (xs @ ys) acc = be_value ys (be_value xs acc)"
  by (induction xs arbitrary: acc) auto

lemma be_value_bytes: "v < 256 ^ k \<Longrightarrow> be_value (be_bytes k v) 0 = v"
  by (induction k arbitrary: v) (auto simp: be_value_append less_mult_imp_div_less)

lemma be_bytes_inject: "v < 256 ^ k \<Longrightarrow> w < 256 ^ k \<Longrightarrow> be_bytes k v = be_bytes k w \<longleftrightarrow> v = w"
  by (metis be_value_bytes)

lemma address_bytes_inject: "address_bytes a = address_bytes b \<longleftrightarrow> a = b"
proof -
  have "inj (of_char :: char \<Rightarrow> nat)" by (auto intro: injI)
  then show ?thesis by (simp add: address_bytes_def inj_map_eq_map)
qed

lemma message_encoding_inject:
  assumes "message_encoding sc dc a p n t = message_encoding sc' dc' a' p' n' t'"
    and "length a = length a'" "n \<le> u64_max" "n' \<le> u64_max"
  shows "a = a' \<and> n = n' \<and> p = p'"
proof -
  have "length (address_bytes a) = length (address_bytes a')"
    using assms(2) by (simp add: address_bytes_def)
  with assms(1) have "be_bytes 8 n = be_bytes 8 n'" "address_bytes a = address_bytes a'" "p = p'"
    by (simp_all add: message_encoding_def append_u32_def append_u64_def)
  moreover have "n < 256 ^ 8" "n' < 256 ^ 8" using assms(3,4) by (simp_all add: u64_max_def)
  ultimately show ?thesis by (simp add: be_bytes_inject address_bytes_inject)
qed

section \<open>The invariant of messages, queue and nonces\<close>

fun relays :: "bytes \<Rightarrow> relay_event \<Rightarrow> bool" where
  "relays i (EvMessageRelayed j _) = (j = i)"
| "relays i _ = False"

definition relayed_count :: "bytes \<Rightarrow> relay_state \<Rightarrow> nat" where
  "relayed_count i s = length (filter (relays i) (rs_events s))"

definition open_message :: "message \<Rightarrow> bool" where
  "open_message m \<longleftrightarrow> cm_status m = Pending \<or> cm_status m = Verified"

definition message_ok :: "bytes set \<Rightarrow> (bytes \<Rightarrow> bytes) \<Rightarrow> relay_state \<Rightarrow> bytes \<Rightarrow> message \<Rightarrow> bool" where
  "message_ok E H s i m \<longleftrightarrow> cm_message_id m = i \<and> length (cm_sender m) = 56
     \<and> i = H (message_encoding (cm_source_chain m) (cm_dest_chain m) (cm_sender m)
         (cm_payload m) (cm_nonce m) (cm_timestamp m))
     \<and> message_encoding (cm_source_chain m) (cm_dest_chain m) (cm_sender m)
         (cm_payload m) (cm_nonce m) (cm_timestamp m) \<in> E
     \<and> cm_nonce m < get_nonce s (cm_sender m) \<and> cm_nonce m \<le> u64_max"

definition queue_ok :: "(bytes \<rightharpoonup> message) \<Rightarrow> bytes list \<Rightarrow> bool" where
  "queue_ok msgs q \<longleftrightarrow> distinct q
     \<and> (\<forall>i\<in>set q. \<exists>m. msgs i = Some m \<and> (open_message m \<or> cm_status m = Expired))
     \<and> (\<forall>i m. msgs i = Some m \<and> open_message m \<longrightarrow> i \<in> set q)
     \<and> sorted (map (\<lambda>i. cm_priority (the (msgs i))) q)"

definition count_ok :: "message option \<Rightarrow> nat \<Rightarrow> bool" where
  "count_ok x n \<longleftrightarrow> (case x of None \<Rightarrow> n = 0
     | Some m \<Rightarrow> cm_status m \<noteq> Failed \<and> n \<le> 1 \<and> (open_message m \<longrightarrow> n = 0)
         \<and> (cm_status m = Relayed \<longrightarrow> n = 1))"

definition relay_inv :: "bytes set \<Rightarrow> (bytes \<Rightarrow> bytes) \<Rightarrow> relay_state \<Rightarrow> bool" where
  "relay_inv E H s \<longleftrightarrow>
     (rs_initialized s = None \<longrightarrow> rs_messages s = Map.empty \<and> relay_queue s = [])
     \<and> (\<forall>i m. rs_messages s i = Some m \<longrightarrow> message_ok E H s i m)
     \<and> queue_ok (rs_messages s) (relay_queue s)
     \<and> (\<forall>i. count_ok (rs_messages s i) (relayed_count i s))"

lemma rs_emit_simps [simp]:
  "rs_messages (rs_emit ev s) = rs_messages s" "relay_queue (rs_emit ev s) = relay_queue s"
  "rs_nonce (rs_emit ev s) = rs_nonce s" "rs_initialized (rs_emit ev s) = rs_initialized s"
  "get_nonce (rs_emit ev s) = get_nonce s" "rs_operators (rs_emit ev s) = rs_operators s"
  "relayed_count i (rs_emit ev s) = relayed_count i s + (if relays i ev then 1 else 0)"
  by (simp_all add: rs_emit_def relay_queue_def get_nonce_def relayed_count_def fun_eq_iff)

lemma rs_set_message_simps [simp]:
  "rs_messages (rs_set_message i m s) = (rs_messages s)(i \<mapsto> m)"
  "relay_queue (rs_set_message i m s) = relay_queue s"
  "get_nonce (rs_set_message i m s) = get_nonce s"
  "rs_initialized (rs_set_message i m s) = rs_initialized s"
  "rs_operators (rs_set_message i m s) = rs_operators s"
  "relayed_count j (rs_set_message i m s) = relayed_count j s"
  by (simp_all add: rs_set_message_def relay_queue_def get_nonce_def relayed_count_def fun_eq_iff)

lemma relay_inv_frame:
  assumes "relay_inv E H s" "rs_messages s' = rs_messages s" "relay_queue s' = relay_queue s"
    and "get_nonce s' = get_nonce s" "\<And>i. relayed_count i s' = relayed_count i s"
    and "rs_initialized s' = rs_initialized s \<or> rs_initialized s' \<noteq> None"
  shows "relay_inv E H s'"
  using assms by (auto simp: relay_inv_def message_ok_def)

lemma message_status_ok [simp]:
  "message_ok E H s i (m\<lparr>cm_status := st\<rparr>) = message_ok E H s i m"
  by (simp add: message_ok_def)

lemma queue_priorities:
  "map (\<lambda>j. cm_priority (the ((msgs(i \<mapsto> m\<lparr>cm_status := st\<rparr>)) j))) q
     = map (\<lambda>j. cm_priority (the (msgs j))) q" if "msgs i = Some m"
  using that by auto

text \<open>A change of status: to \<open>Verified\<close> or \<open>Expired\<close> the queue may stay.\<close>

lemma relay_inv_status:
  assumes inv: "relay_inv E H s" and m: "rs_messages s i = Some m"
    and st: "st = Expired \<or> st = Verified \<and> cm_status m = Pending"
  shows "relay_inv E H (rs_set_message i (m\<lparr>cm_status := st\<rparr>) s)"
proof -
  have q: "queue_ok (rs_messages s) (relay_queue s)" using inv by (simp add: relay_inv_def)
  have "queue_ok ((rs_messages s)(i \<mapsto> m\<lparr>cm_status := st\<rparr>)) (relay_queue s)"
    unfolding queue_ok_def queue_priorities [of "rs_messages s" i m, OF m]
  proof (intro conjI)
    show "\<forall>j\<in>set (relay_queue s). \<exists>m'. ((rs_messages s)(i \<mapsto> m\<lparr>cm_status := st\<rparr>)) j = Some m'
        \<and> (open_message m' \<or> cm_status m' = Expired)"
      using q st by (auto simp: queue_ok_def open_message_def)
    show "\<forall>j m'. ((rs_messages s)(i \<mapsto> m\<lparr>cm_status := st\<rparr>)) j = Some m' \<and> open_message m'
        \<longrightarrow> j \<in> set (relay_queue s)"
      using q st m by (auto simp: queue_ok_def open_message_def)
  qed (use q in \<open>simp_all add: queue_ok_def\<close>)
  moreover have "count_ok (Some (m\<lparr>cm_status := st\<rparr>)) (relayed_count i s)"
    using inv m st by (auto simp: relay_inv_def count_ok_def open_message_def dest!: spec [of _ i]
        split: option.splits)
  ultimately show ?thesis
    using inv m by (auto simp: relay_inv_def message_ok_def)
qed

lemma queue_ok_remove1:
  assumes "queue_ok msgs q" "msgs i = Some m"
  shows "queue_ok (msgs(i \<mapsto> m\<lparr>cm_status := Relayed\<rparr>)) (remove1 i q)"
proof -
  have d: "distinct q" using assms(1) by (simp add: queue_ok_def)
  have "sorted (map (\<lambda>j. cm_priority (the (msgs j))) (remove1 i q))"
    using assms(1) by (simp add: queue_ok_def sorted_map_remove1)
  with assms d show ?thesis
    unfolding queue_ok_def queue_priorities [of msgs i m, OF assms(2)]
    by (auto simp: open_message_def)
qed

lemma internal_inv:
  assumes inv: "relay_inv E H s" and r: "relay_message_internal K env a i sg s = (r, s')"
  shows "relay_inv E H s'"
proof (cases "s' = s")
  case False
  with r obtain rop m where rop: "rs_operators s a = Some rop" and m: "rs_messages s i = Some m"
    and alt: "s' = rs_emit (EvStatusChanged i (cm_status m) Expired)
          (rs_set_message i (m\<lparr>cm_status := Expired\<rparr>) s)
      \<or> open_message m \<and> (\<exists>rop'. s' = rs_emit (EvMessageRelayed i a)
          (rs_emit (EvStatusChanged i (cm_status m) Relayed)
            (increment_relayed (remove_from_queue i ((rs_set_message i (m\<lparr>cm_status := Relayed\<rparr>) s)
              \<lparr>rs_operators := (rs_operators s)(a \<mapsto> rop')\<rparr>)))))"
    by (auto simp: relay_message_internal_def get_operator_or_err_def get_message_or_err_def
        ok_or_def Let_def open_message_def split: if_splits sum.splits option.splits)
  from alt show ?thesis
  proof (elim disjE conjE exE)
    assume s': "s' = rs_emit (EvStatusChanged i (cm_status m) Expired)
          (rs_set_message i (m\<lparr>cm_status := Expired\<rparr>) s)"
    show ?thesis unfolding s'
      by (rule relay_inv_frame [OF relay_inv_status [OF inv m]]) simp_all
  next
    fix rop'
    assume op: "open_message m" and s': "s' = rs_emit (EvMessageRelayed i a)
          (rs_emit (EvStatusChanged i (cm_status m) Relayed)
            (increment_relayed (remove_from_queue i ((rs_set_message i (m\<lparr>cm_status := Relayed\<rparr>) s)
              \<lparr>rs_operators := (rs_operators s)(a \<mapsto> rop')\<rparr>))))"
    have fr: "rs_messages s' = (rs_messages s)(i \<mapsto> m\<lparr>cm_status := Relayed\<rparr>)"
      "relay_queue s' = remove1 i (relay_queue s)" "get_nonce s' = get_nonce s"
      "rs_initialized s' = rs_initialized s"
      "relayed_count j s' = relayed_count j s + (if j = i then 1 else 0)" for j
      by (auto simp: s' increment_relayed_def remove_from_queue_def rs_emit_def rs_set_message_def
          relay_queue_def get_nonce_def relayed_count_def fun_eq_iff)
    have "count_ok (Some m) (relayed_count i s)" using inv m by (metis relay_inv_def)
    then have "count_ok (Some (m\<lparr>cm_status := Relayed\<rparr>)) (relayed_count i s + 1)"
      using op by (auto simp: count_ok_def open_message_def)
    moreover have "queue_ok ((rs_messages s)(i \<mapsto> m\<lparr>cm_status := Relayed\<rparr>)) (remove1 i (relay_queue s))"
      by (rule queue_ok_remove1 [of "rs_messages s" _ i m, OF _ m]) (use inv in \<open>simp add: relay_inv_def\<close>)
    ultimately show ?thesis
      using inv m by (auto simp: relay_inv_def fr message_ok_def)
  qed
qed (use inv in simp)

lemma batch_relay_loop_inv:
  "relay_inv E H s \<Longrightarrow> batch_relay_loop K env a items r s = (r', s') \<Longrightarrow> relay_inv E H s'"
proof (induction items arbitrary: r s)
  case (Cons item items)
  obtain x s1 where i: "relay_message_internal K env a (bi_message_id item) (bi_signature item) s = (x, s1)"
    by (cases "relay_message_internal K env a (bi_message_id item) (bi_signature item) s")
  from Cons.IH [OF internal_inv [OF Cons.prems(1) i]] Cons.prems(2) i show ?case
    by (auto split: sum.splits)
qed simp

text \<open>Inserting by priority keeps the queue ordered, the new message behind its equals.\<close>

lemma set_insert_position [simp]: "set (insert_position msgs p q i) = insert i (set q)"
  by (induction msgs p q i rule: insert_position.induct) (auto split: option.split)

lemma distinct_insert_position:
  "i \<notin> set q \<Longrightarrow> distinct (insert_position msgs p q i) = distinct q"
  by (induction msgs p q i rule: insert_position.induct) (auto split: option.split)

lemma insert_position_sorted:
  assumes "\<forall>j\<in>set q. msgs j \<noteq> None" "msgs i = Some m" "cm_priority m = p"
    and "sorted (map (\<lambda>j. cm_priority (the (msgs j))) q)"
  shows "sorted (map (\<lambda>j. cm_priority (the (msgs j))) (insert_position msgs p q i))"
  using assms
  by (induction msgs p q i rule: insert_position.induct)
    (auto simp: less_eq_message_priority_def split: option.splits)

lemma send_ok:
  assumes "send_message H env sc dc a p n pr ttl fee s = Inr (i, s')"
  shows "rs_initialized s \<noteq> None \<and> a \<in> set (auths env) \<and> n = get_nonce s a
    \<and> i = H (message_encoding sc dc a p n (timestamp env))
    \<and> (\<exists>m. cm_message_id m = i \<and> cm_source_chain m = sc \<and> cm_dest_chain m = dc
        \<and> cm_sender m = a \<and> cm_payload m = p \<and> cm_nonce m = n \<and> cm_timestamp m = timestamp env
        \<and> cm_status m = Pending \<and> cm_priority m = pr
        \<and> rs_messages s' = (rs_messages s)(i \<mapsto> m)
        \<and> relay_queue s' = insert_position (rs_messages s') pr (relay_queue s) i)
    \<and> get_nonce s' = (get_nonce s)(a := sat_u64 (n + 1))
    \<and> rs_initialized s' = rs_initialized s \<and> (\<forall>j. relayed_count j s' = relayed_count j s)"
  using assms
  by (auto simp: send_message_def hash_message_def insert_queue_by_priority_def get_chain_config_def
      get_message_or_err_def Let_def require_initialized_def set_nonce_def get_nonce_def fun_eq_iff
      rs_emit_def rs_set_message_def relay_queue_def relayed_count_def
      split: if_splits sum.splits)

text \<open>What a call hashes to name a message, and all of it in a history.\<close>

fun call_inputs :: "env \<Rightarrow> relay_call \<Rightarrow> bytes set" where
  "call_inputs env (SendMessage sc dc a p n _ _ _) = {message_encoding sc dc a p n (timestamp env)}"
| "call_inputs env _ = {}"

definition hashed_inputs :: "(env \<times> relay_call) list \<Rightarrow> bytes set" where
  "hashed_inputs h = (\<Union>(env, c)\<in>set h. call_inputs env c)"

fun small_nonce :: "relay_call \<Rightarrow> bool" where
  "small_nonce (SendMessage _ _ a _ n _ _ _) \<longleftrightarrow> length a = 56 \<and> n < u64_max"
| "small_nonce _ \<longleftrightarrow> True"

lemma send_fresh:
  assumes inv: "relay_inv E H s" and H: "inj_on H E" and "length a = 56" "n < u64_max"
    and E: "message_encoding sc dc a p n (timestamp env) \<in> E"
    and sd: "send_message H env sc dc a p n pr ttl fee s = Inr (i, s')"
  shows "rs_messages s i = None"
proof (cases "rs_messages s i")
  case (Some m)
  note ok = send_ok [OF sd]
  have m: "message_ok E H s i m" using inv Some by (simp add: relay_inv_def)
  have "message_encoding (cm_source_chain m) (cm_dest_chain m) (cm_sender m)
         (cm_payload m) (cm_nonce m) (cm_timestamp m) = message_encoding sc dc a p n (timestamp env)"
  proof (rule inj_onD [OF H _ _ E])
    show "H (message_encoding (cm_source_chain m) (cm_dest_chain m) (cm_sender m)
         (cm_payload m) (cm_nonce m) (cm_timestamp m)) = H (message_encoding sc dc a p n (timestamp env))"
      using m ok unfolding message_ok_def by metis
    show "message_encoding (cm_source_chain m) (cm_dest_chain m) (cm_sender m)
         (cm_payload m) (cm_nonce m) (cm_timestamp m) \<in> E"
      using m by (simp add: message_ok_def)
  qed
  then have "cm_sender m = a \<and> cm_nonce m = n"
    using message_encoding_inject m assms(3,4) by (simp add: message_ok_def)
  with m ok show ?thesis by (simp add: message_ok_def)
qed (simp add: assms)

lemma send_inv:
  assumes inv: "relay_inv E H s" and H: "inj_on H E" and a: "length a = 56" "n < u64_max"
      "message_encoding sc dc a p n (timestamp env) \<in> E"
    and sd: "send_message H env sc dc a p n pr ttl fee s = Inr (i, s')"
  shows "relay_inv E H s'"
proof -
  have none: "rs_messages s i = None" by (rule send_fresh [OF inv H a sd])
  obtain m where m: "cm_message_id m = i" "cm_sender m = a" "cm_nonce m = n" "cm_status m = Pending"
      "cm_priority m = pr" "i = H (message_encoding (cm_source_chain m) (cm_dest_chain m)
        (cm_sender m) (cm_payload m) (cm_nonce m) (cm_timestamp m))"
    and fr: "rs_messages s' = (rs_messages s)(i \<mapsto> m)"
      "relay_queue s' = insert_position (rs_messages s') pr (relay_queue s) i"
      "get_nonce s' = (get_nonce s)(a := sat_u64 (n + 1))" "n = get_nonce s a"
      "rs_initialized s' \<noteq> None" "\<forall>j. relayed_count j s' = relayed_count j s"
    and sent: "cm_source_chain m = sc" "cm_dest_chain m = dc" "cm_payload m = p" "cm_timestamp m = timestamp env"
    using send_ok [OF sd] by (elim conjE exE) (rule that; (assumption | simp))
  have q: "queue_ok (rs_messages s) (relay_queue s)" using inv by (simp add: relay_inv_def)
  then have i: "i \<notin> set (relay_queue s)" using none by (auto simp: queue_ok_def)
  have prio: "map (\<lambda>j. cm_priority (the (rs_messages s' j))) (relay_queue s)
      = map (\<lambda>j. cm_priority (the (rs_messages s j))) (relay_queue s)"
    using i by (auto simp: fr(1))
  have "sorted (map (\<lambda>j. cm_priority (the (rs_messages s' j))) (relay_queue s'))"
    unfolding fr(2)
  proof (rule insert_position_sorted [where m = m])
    show "\<forall>j\<in>set (relay_queue s). rs_messages s' j \<noteq> None" using q by (auto simp: queue_ok_def fr(1))
    show "sorted (map (\<lambda>j. cm_priority (the (rs_messages s' j))) (relay_queue s))"
      using q by (simp add: prio queue_ok_def)
  qed (simp_all add: fr(1) m(5))
  then have "queue_ok (rs_messages s') (relay_queue s')"
    using q i m by (auto simp: queue_ok_def fr(1,2) distinct_insert_position open_message_def)
  moreover have "message_ok E H s' j m'" if "rs_messages s' j = Some m'" for j m'
  proof (cases "j = i")
    case True
    with that have "m' = m" by (simp add: fr(1))
    moreover have "message_encoding (cm_source_chain m) (cm_dest_chain m)
        (cm_sender m) (cm_payload m) (cm_nonce m) (cm_timestamp m) \<in> E" using a(3) unfolding m(2,3) sent .
    ultimately show ?thesis using True m(1-6) a(1,2) fr(4) by (simp add: message_ok_def fr(3) sat_u64_def)
  next
    case False
    with that inv have "message_ok E H s j m'" by (simp add: relay_inv_def fr(1))
    then show ?thesis using a fr(4) by (auto simp: message_ok_def fr(3) sat_u64_def)
  qed
  moreover have "count_ok (rs_messages s' j) (relayed_count j s')" for j
  proof (cases "j = i")
    case True
    have "count_ok (rs_messages s i) (relayed_count i s)" using inv by (simp add: relay_inv_def)
    with True none m fr(6) show ?thesis by (simp add: count_ok_def fr(1))
  next
    case False
    with inv fr(6) show ?thesis by (simp add: relay_inv_def fr(1))
  qed
  ultimately show ?thesis using fr(5) by (auto simp: relay_inv_def)
qed

text \<open>The cleanup: the queue it writes at the end is kept valid during the scan.\<close>

definition with_queue :: "relay_state \<Rightarrow> bytes list \<Rightarrow> relay_state" where
  "with_queue s q = s\<lparr>rs_queue := Some q\<rparr>"

lemma with_queue_simps [simp]:
  "rs_messages (with_queue s q) = rs_messages s" "relay_queue (with_queue s q) = q"
  "get_nonce (with_queue s q) = get_nonce s" "rs_initialized (with_queue s q) = rs_initialized s"
  "relayed_count i (with_queue s q) = relayed_count i s"
  by (simp_all add: with_queue_def relay_queue_def get_nonce_def relayed_count_def fun_eq_iff)

lemma relay_inv_drop:
  assumes "relay_inv E H (with_queue s (kept @ i # rest))"
    and "\<forall>m. rs_messages s i = Some m \<longrightarrow> \<not> open_message m"
  shows "relay_inv E H (with_queue s (kept @ rest))"
proof -
  have q: "queue_ok (rs_messages s) (kept @ i # rest)" using assms(1) by (simp add: relay_inv_def)
  then have "queue_ok (rs_messages s) (kept @ rest)"
    using assms(2) by (auto simp: queue_ok_def sorted_append)
  with assms(1) show ?thesis by (auto simp: relay_inv_def message_ok_def)
qed

lemma cleanup_loop_inv:
  "relay_inv E H (with_queue s (kept @ rest)) \<Longrightarrow>
     cleanup_loop env mx kept rest n s = (q, n', s') \<Longrightarrow>
     relay_inv E H (with_queue s' q) \<and> rs_initialized s' = rs_initialized s"
proof (induction rest arbitrary: kept n s)
  case (Cons i rest)
  show ?case
  proof (cases "length kept < mx")
    case False
    with Cons.prems show ?thesis by simp
  next
    case True
    obtain m where m: "rs_messages s i = Some m"
      using Cons.prems(1) by (auto simp: relay_inv_def queue_ok_def)
    consider (expire) "is_expired env m" "open_message m"
      | (drop) "\<not> (is_expired env m \<and> open_message m)" "cm_status m = Relayed \<or> cm_status m = Expired"
      | (keep) "\<not> (is_expired env m \<and> open_message m)" "cm_status m \<noteq> Relayed" "cm_status m \<noteq> Expired"
      by blast
    then show ?thesis
    proof cases
      case expire
      let ?s = "rs_emit (EvStatusChanged i (cm_status m) Expired)
                (rs_set_message i (m\<lparr>cm_status := Expired\<rparr>) s)"
      have "relay_inv E H (rs_set_message i (m\<lparr>cm_status := Expired\<rparr>) (with_queue s (kept @ i # rest)))"
        by (rule relay_inv_status [OF Cons.prems(1)]) (use m in simp_all)
      then have "relay_inv E H (with_queue ?s (kept @ i # rest))"
        by (rule relay_inv_frame) simp_all
      then have "relay_inv E H (with_queue ?s (kept @ rest))"
        by (rule relay_inv_drop) (auto simp: open_message_def)
      from Cons.IH [OF this] Cons.prems(2) True m expire show ?thesis
        by (simp add: open_message_def)
    next
      case drop
      have "relay_inv E H (with_queue s (kept @ rest))"
        by (rule relay_inv_drop [OF Cons.prems(1)]) (use m drop in \<open>auto simp: open_message_def\<close>)
      from Cons.IH [OF this] Cons.prems(2) True m drop show ?thesis
        by (auto simp: open_message_def)
    next
      case keep
      from Cons.IH [of s "kept @ [i]"] Cons.prems True m keep show ?thesis
        by (auto simp: open_message_def)
    qed
  qed
qed simp

lemma cleanup_inv:
  assumes inv: "relay_inv E H s" and c: "cleanup_expired_messages env mx s = Inr (n, s')"
  shows "relay_inv E H s'"
proof (cases "mx = 0")
  case False
  obtain q n1 s1 where l: "cleanup_loop env mx [] (relay_queue s) 0 s = (q, n1, s1)"
    by (cases "cleanup_loop env mx [] (relay_queue s) 0 s")
  have "relay_inv E H (with_queue s ([] @ relay_queue s))"
    by (rule relay_inv_frame [OF inv]) simp_all
  from cleanup_loop_inv [OF this l] have q: "relay_inv E H (with_queue s1 q)" by simp
  have "s' = with_queue s1 q \<or> s' = rs_emit (EvMessagesCleaned n1) (with_queue s1 q)"
    using c False l by (auto simp: cleanup_expired_messages_def with_queue_def Let_def split: if_splits)
  then show ?thesis by (elim disjE) (auto intro: q relay_inv_frame [OF q])
qed (use inv c in \<open>simp add: cleanup_expired_messages_def\<close>)

lemma verify_inv:
  assumes inv: "relay_inv E H s" and v: "verify_message K env i p s = Inr (b, s')"
  shows "relay_inv E H s'"
proof -
  from v obtain m s1 c n where m: "rs_messages s i = Some m" "cm_status m = Pending"
    and s1: "s1 = rs_emit (EvStateProofVerified c n) s"
    and s': "s' = rs_emit (EvStatusChanged i Pending Verified)
       (rs_set_message i (m\<lparr>cm_status := Verified\<rparr>) s1)"
    by (auto simp: verify_message_def verify_state_proof_internal_def Let_def split: if_splits)
  have "relay_inv E H s1" unfolding s1 by (rule relay_inv_frame [OF inv]) simp_all
  from relay_inv_status [OF this, of i m Verified] m s1
  have "relay_inv E H (rs_set_message i (m\<lparr>cm_status := Verified\<rparr>) s1)" by simp
  then show ?thesis unfolding s' by (rule relay_inv_frame) simp_all
qed

lemma relay_setup_inv:
  assumes inv: "relay_inv E H s"
  shows "relay_initialize env a ttl s = Inr (u, s') \<Longrightarrow> relay_inv E H s'"
    and "configure_chain env c s = Inr (u, s') \<Longrightarrow> relay_inv E H s'"
    and "register_relay_operator env a k s = Inr (u, s') \<Longrightarrow> relay_inv E H s'"
    and "deactivate_relay_operator env a s = Inr (u, s') \<Longrightarrow> relay_inv E H s'"
    and "verify_state_proof K p s = Inr (b, s') \<Longrightarrow> relay_inv E H s'"
proof -
  show "relay_initialize env a ttl s = Inr (u, s') \<Longrightarrow> relay_inv E H s'"
    by (rule relay_inv_frame [OF inv]) (use inv in \<open>auto simp: relay_initialize_def Let_def
        set_chain_config_internal_def relay_inv_def relay_queue_def get_nonce_def
        relayed_count_def fun_eq_iff split: if_splits\<close>)
qed (rule relay_inv_frame [OF inv]; auto simp: configure_chain_def register_relay_operator_def
    deactivate_relay_operator_def verify_state_proof_def verify_state_proof_internal_def Let_def
    set_chain_config_internal_def relay_queue_def get_nonce_def relayed_count_def rs_emit_def
    fun_eq_iff split: if_splits)+

lemma relay_exec_inv:
  assumes inv: "relay_inv E H s" and H: "inj_on H E" and c: "small_nonce c" "call_inputs env c \<subseteq> E"
    and e: "relay_exec H env c s = Inr s'"
  shows "relay_inv E H s'"
proof (cases c)
  case (SendMessage sc dc a p n pr ttl fee)
  with c e show ?thesis by (auto intro: send_inv [OF inv H])
next
  case (RelayMessage a i sg)
  with e show ?thesis
    by (auto simp: relay_message_def intro: internal_inv [OF inv] split: prod.splits sum.splits)
next
  case (BatchRelay a items)
  with e obtain r s1 where l: "batch_relay_loop H env a items
        \<lparr>rr_success_count = 0, rr_failure_count = 0, rr_relayed_ids = []\<rparr> s = (r, s1)"
    and s': "s' = rs_emit (EvBatchRelayed (rr_success_count r) (rr_failure_count r)) s1"
    by (auto simp: batch_relay_def Let_def split: if_splits prod.splits)
  show ?thesis unfolding s' by (rule relay_inv_frame [OF batch_relay_loop_inv [OF inv l]]) simp_all
qed (use e in \<open>auto intro: relay_setup_inv [OF inv] verify_inv [OF inv] cleanup_inv [OF inv]\<close>)

lemma relay_empty_inv: "relay_inv E H relay_empty"
  by (simp add: relay_inv_def relay_empty_def relay_queue_def queue_ok_def count_ok_def relayed_count_def)

lemma relay_run_inv:
  "list_all (small_nonce \<circ> snd) h \<Longrightarrow> hashed_inputs h \<subseteq> E \<Longrightarrow> inj_on H E
     \<Longrightarrow> relay_inv E H (run (relay_exec H) relay_empty h)"
proof (induction h rule: rev_induct)
  case (snoc x h)
  obtain env c where x: "x = (env, c)" by (cases x)
  have inv: "relay_inv E H (run (relay_exec H) relay_empty h)"
    using snoc by (simp add: hashed_inputs_def)
  have c: "small_nonce c" "call_inputs env c \<subseteq> E" using snoc.prems by (auto simp: x hashed_inputs_def)
  show ?case
    by (cases rule: invoke_cases [of "relay_exec H" env c "run (relay_exec H) relay_empty h"])
      (use inv relay_exec_inv [OF inv snoc.prems(3) c] in \<open>simp_all add: run_append x\<close>)
qed (simp add: relay_empty_inv)

section \<open>Nonces only grow\<close>

definition nonces_bounded :: "relay_state \<Rightarrow> bool" where
  "nonces_bounded s \<longleftrightarrow> (\<forall>a. get_nonce s a \<le> u64_max)"

definition nonces_grow :: "relay_state \<Rightarrow> relay_state \<Rightarrow> bool" where
  "nonces_grow s s' \<longleftrightarrow> (\<forall>a. get_nonce s a \<le> get_nonce s' a)"

lemma internal_nonce:
  "relay_message_internal K env a i sg s = (r, s') \<Longrightarrow> get_nonce s' = get_nonce s"
  by (auto simp: relay_message_internal_def Let_def increment_relayed_def remove_from_queue_def
      rs_emit_def rs_set_message_def get_nonce_def fun_eq_iff split: if_splits sum.splits)

lemma batch_loop_nonce:
  "batch_relay_loop K env a items r s = (r', s') \<Longrightarrow> get_nonce s' = get_nonce s"
proof (induction items arbitrary: r s)
  case (Cons item items)
  obtain x s1 where i: "relay_message_internal K env a (bi_message_id item) (bi_signature item) s = (x, s1)"
    by (cases "relay_message_internal K env a (bi_message_id item) (bi_signature item) s")
  from Cons.prems i internal_nonce [OF i] show ?case
    by (cases x) (auto dest: Cons.IH)
qed simp

lemma cleanup_loop_nonce:
  "cleanup_loop env mx kept rest n s = (q, n', s') \<Longrightarrow> get_nonce s' = get_nonce s"
  by (induction env mx kept rest n s rule: cleanup_loop.induct)
    (auto simp: Let_def split: if_splits option.splits prod.splits)

lemma relay_exec_nonce:
  assumes "relay_exec H env c s = Inr s'"
  shows "get_nonce s' = get_nonce s \<or> (\<exists>a. a \<in> set (auths env) \<and>
     get_nonce s' = (get_nonce s)(a := sat_u64 (get_nonce s a + 1)))"
proof (cases c)
  case (SendMessage sc dc a p n pr ttl fee)
  with assms send_ok [of H env sc dc a p n pr ttl fee s] show ?thesis by auto
next
  case (BatchRelay a items)
  with assms show ?thesis
    by (auto simp: batch_relay_def Let_def dest: batch_loop_nonce split: if_splits prod.splits)
next
  case (CleanupExpired n)
  with assms cleanup_loop_nonce [of env n "[]" "relay_queue s" 0 s] show ?thesis
    by (auto simp: cleanup_expired_messages_def Let_def get_nonce_def rs_emit_def fun_eq_iff
        split: if_splits prod.splits)
qed (use assms in \<open>auto simp: relay_initialize_def configure_chain_def register_relay_operator_def
    deactivate_relay_operator_def verify_message_def verify_state_proof_def relay_message_def
    verify_state_proof_internal_def set_chain_config_internal_def Let_def get_nonce_def
    rs_set_message_def rs_emit_def fun_eq_iff
    dest!: internal_nonce split: if_splits prod.splits sum.splits\<close>)

lemma relay_exec_nonces:
  assumes "nonces_bounded s" "relay_exec H env c s = Inr s'"
  shows "nonces_bounded s' \<and> nonces_grow s s'"
  using relay_exec_nonce [OF assms(2)] assms(1)
  by (auto simp: nonces_bounded_def nonces_grow_def sat_u64_def)

interpretation nonces: contract_progress "relay_exec H" nonces_bounded nonces_grow for H
  by unfold_locales (auto simp: nonces_grow_def intro: order_trans dest: relay_exec_nonces)

lemma relay_empty_nonces: "nonces_bounded relay_empty"
  by (simp add: nonces_bounded_def relay_empty_def get_nonce_def)

interpretation bounded: contract_invariant "relay_exec H" "\<lambda>s. s = relay_empty" "\<lambda>_. True"
  nonces_bounded for H
  by unfold_locales (auto intro: relay_empty_nonces dest: relay_exec_nonces)

section \<open>Properties\<close>

text \<open>For the witnesses the hash is the identity, whose digests are long enough to be read
  by the signature check; a signature is then any 64 bytes of the right form.\<close>

definition relay_env :: "nat \<Rightarrow> env" where
  "relay_env t = \<lparr>timestamp = t, auths = [''A'', ''O'', replicate 56 CHR ''G'']\<rparr>"

definition relay_sig :: "bytes \<Rightarrow> bytes \<Rightarrow> bytes" where
  "relay_sig i k = take 32 (i @ k) @ take 32 (i @ k)"

definition relay_id :: "nat \<Rightarrow> nat \<Rightarrow> bytes" where
  "relay_id n t = message_encoding Stellar Base (replicate 56 CHR ''G'') [7] n t"

definition relay_history :: "(env \<times> relay_call) list" where
  "relay_history = [
     (relay_env 1, RelayInitialize ''A'' 100),
     (relay_env 2, RegisterRelayOperator ''O'' [5]),
     (relay_env 3, SendMessage Stellar Base (replicate 56 CHR ''G'') [7] 0 Low 0 5000),
     (relay_env 4, SendMessage Stellar Base (replicate 56 CHR ''G'') [7] 1 Critical 0 5000),
     (relay_env 5, SendMessage Stellar Base (replicate 56 CHR ''G'') [7] 1 High 0 5000),
     (relay_env 6, RelayMessage ''O'' (relay_id 1 4) (relay_sig (relay_id 1 4) [5])),
     (relay_env 7, RelayMessage ''O'' (relay_id 1 4) (relay_sig (relay_id 1 4) [5]))]"

lemma relay_history_small: "list_all (small_nonce \<circ> snd) relay_history"
  by (simp add: relay_history_def u64_max_def)

lemma relay_demo:
  "relayed_count (relay_id 1 4) (run (relay_exec (\<lambda>x. x)) relay_empty relay_history) = 1"
  "relay_queue (run (relay_exec (\<lambda>x. x)) relay_empty relay_history) = [relay_id 0 3]"
  "relay_queue (run (relay_exec (\<lambda>x. x)) relay_empty (take 5 relay_history)) = [relay_id 1 4, relay_id 0 3]"
  by code_simp+


text \<open>C26: no message is relayed twice and none that can still be relayed has been. Take any history
  from deployment whose senders are addresses of 56 characters (the length of every Stellar address)
  with nonces below 2^64-1, in which the hash gives different identifiers to different messages that
  are sent: injectivity is required only on the encodings the send_message calls of this very history
  hash, not of the hash function as such. Then the relay of an identifier is published at most once,
  not at all while the message is pending or verified, and exactly once when its status is relayed.\<close>

theorem relayed_at_most_once:
  assumes "inj_on H (hashed_inputs h)" "list_all (small_nonce \<circ> snd) h"
  shows "relayed_count i (run (relay_exec H) relay_empty h) \<le> 1
    \<and> (\<forall>m. rs_messages (run (relay_exec H) relay_empty h) i = Some m \<longrightarrow>
        (cm_status m = Pending \<or> cm_status m = Verified \<longrightarrow>
           relayed_count i (run (relay_exec H) relay_empty h) = 0)
        \<and> (cm_status m = Relayed \<longrightarrow> relayed_count i (run (relay_exec H) relay_empty h) = 1))"
proof -
  let ?s = "run (relay_exec H) relay_empty h"
  have "relay_inv (hashed_inputs h) H ?s" by (rule relay_run_inv [OF assms(2) subset_refl assms(1)])
  then have "count_ok (rs_messages ?s i) (relayed_count i ?s)" by (simp add: relay_inv_def)
  then show ?thesis by (auto simp: count_ok_def open_message_def split: option.splits)
qed

theorem relayed_at_most_once_witness:
  "relayed_count (relay_id 1 4) (run (relay_exec (\<lambda>x. x)) relay_empty relay_history) = 1
   \<and> relayed_count (relay_id 0 3) (run (relay_exec (\<lambda>x. x)) relay_empty relay_history) \<le> 1"
  using relayed_at_most_once [OF _ relay_history_small, of "\<lambda>x. x" "relay_id 0 3"] relay_demo(1)
  by (simp add: inj_on_def)

text \<open>Also: under the same conditions the queue is always usable: it has no duplicates, is ordered
  by priority, contains every pending or verified message, and nothing but stored messages that
  are still open or have expired; in particular its head is a most urgent open message or an
  expired one.\<close>

theorem queue_sound_and_complete:
  assumes "inj_on H (hashed_inputs h)" "list_all (small_nonce \<circ> snd) h"
  shows "distinct (get_message_queue (run (relay_exec H) relay_empty h))
    \<and> sorted (map (\<lambda>i. cm_priority (the (rs_messages (run (relay_exec H) relay_empty h) i)))
        (get_message_queue (run (relay_exec H) relay_empty h)))
    \<and> {i. \<exists>m. rs_messages (run (relay_exec H) relay_empty h) i = Some m
          \<and> (cm_status m = Pending \<or> cm_status m = Verified)}
        \<subseteq> set (get_message_queue (run (relay_exec H) relay_empty h))
    \<and> set (get_message_queue (run (relay_exec H) relay_empty h))
        \<subseteq> {i. \<exists>m. rs_messages (run (relay_exec H) relay_empty h) i = Some m
             \<and> (cm_status m = Pending \<or> cm_status m = Verified \<or> cm_status m = Expired)}"
proof -
  let ?s = "run (relay_exec H) relay_empty h"
  have "relay_inv (hashed_inputs h) H ?s" by (rule relay_run_inv [OF assms(2) subset_refl assms(1)])
  then have "queue_ok (rs_messages ?s) (relay_queue ?s)" by (simp add: relay_inv_def)
  then show ?thesis
    by (auto simp: queue_ok_def open_message_def get_message_queue_def)
qed

theorem queue_sound_and_complete_witness:
  "get_message_queue (run (relay_exec (\<lambda>x. x)) relay_empty (take 5 relay_history))
     = [relay_id 1 4, relay_id 0 3]
   \<and> sorted (map (\<lambda>i. cm_priority (the (rs_messages
        (run (relay_exec (\<lambda>x. x)) relay_empty (take 5 relay_history)) i))) [relay_id 1 4, relay_id 0 3])"
proof -
  have "list_all (small_nonce \<circ> snd) (take 5 relay_history)"
    by (simp add: relay_history_def u64_max_def)
  from queue_sound_and_complete [OF _ this, of "\<lambda>x. x"] relay_demo(3)
  show ?thesis by (simp add: inj_on_def get_message_queue_def)
qed

text \<open>C31: replay protection. A nonce that a sender has used is dead for ever: after a successful
  send with a nonce below 2^64-1 (there the counter saturates), whatever calls follow, no further message of that sender with the same nonce is
  accepted, on any chain and with any payload.\<close>

theorem nonce_never_reused:
  assumes "relay_exec H env (SendMessage sc dc a p n pr ttl fee) (run (relay_exec H) relay_empty h)
      = Inr s'" "n < u64_max"
  shows "\<not> is_ok (relay_exec H env' (SendMessage sc' dc' a p' n pr' ttl' fee')
      (run (relay_exec H) s' h'))"
proof
  let ?t = "run (relay_exec H) s' h'"
  assume "is_ok (relay_exec H env' (SendMessage sc' dc' a p' n pr' ttl' fee') ?t)"
  then have n: "n = get_nonce ?t a" by (auto simp: is_ok_iff dest: send_ok)
  have b: "nonces_bounded (run (relay_exec H) relay_empty h)"
    by (rule bounded.run_inv) (simp_all add: list_all_iff)
  from assms have "get_nonce s' a = n + 1" by (auto simp: sat_u64_def dest!: send_ok)
  moreover have "nonces_grow s' ?t"
    using relay_exec_nonces [OF b assms(1)] by (intro nonces.run_rel) simp
  ultimately show False using n by (auto simp: nonces_grow_def dest: spec [of _ a])
qed

theorem nonce_never_reused_witness:
  "is_ok (relay_exec (\<lambda>x. x) (relay_env 3)
      (SendMessage Stellar Base (replicate 56 CHR ''G'') [7] 0 Low 0 5000)
      (run (relay_exec (\<lambda>x. x)) relay_empty (take 2 relay_history)))
   \<and> \<not> is_ok (relay_exec (\<lambda>x. x) (relay_env 9)
      (SendMessage Stellar Polygon (replicate 56 CHR ''G'') [8] 0 Low 0 5000)
      (run (relay_exec (\<lambda>x. x)) relay_empty (take 3 relay_history)))"
proof -
  let ?s = "run (relay_exec (\<lambda>x. x)) relay_empty (take 2 relay_history)"
  let ?c = "SendMessage Stellar Base (replicate 56 CHR ''G'') [7] 0 Low 0 5000"
  have ok: "is_ok (relay_exec (\<lambda>x. x) (relay_env 3) ?c ?s)" by code_simp
  then obtain s' where s': "relay_exec (\<lambda>x. x) (relay_env 3) ?c ?s = Inr s'" by (auto simp: is_ok_iff)
  have "take 3 relay_history = take 2 relay_history @ [(relay_env 3, ?c)]"
    by (simp add: relay_history_def)
  then have "run (relay_exec (\<lambda>x. x)) relay_empty (take 3 relay_history) = s'"
    using s' by (simp add: run_append invoke_def del: relay_exec.simps)
  with nonce_never_reused [OF s', of _ _ _ _ _ _ _ "[]"] ok show ?thesis
    by (simp add: u64_max_def)
qed

text \<open>Also: a relay succeeds under exactly these conditions: an initialised contract, the operator's
  authorisation, an active operator, a stored message that is pending or verified and not
  expired, and both halves of the signature equal to the digest of the identifier and the
  operator's key; the message is then marked relayed and leaves the queue.\<close>

theorem relay_message_iff:
  "is_ok (relay_exec H env (RelayMessage a i sg) s) \<longleftrightarrow>
     rs_initialized s \<noteq> None \<and> a \<in> set (auths env)
     \<and> (\<exists>rop m. rs_operators s a = Some rop \<and> ro_is_active rop \<and> rs_messages s i = Some m
        \<and> timestamp env < cm_expiry m \<and> (cm_status m = Pending \<or> cm_status m = Verified)
        \<and> list_all (\<lambda>j. sg ! j = H (i @ ro_public_key rop) ! j
             \<and> sg ! (j + 32) = H (i @ ro_public_key rop) ! j) [0..<32])"
proof -
  have sig: "verify_operator_signature H i k sg = Inr () \<longleftrightarrow>
      list_all (\<lambda>j. sg ! j = H (i @ k) ! j \<and> sg ! (j + 32) = H (i @ k) ! j) [0..<32]" for k
    unfolding list_all_iff
    by (auto simp: verify_operator_signature_def append_bytesn_def Let_def list_ex_iff)
  have sig': "verify_operator_signature H i k sg = Inl e \<Longrightarrow>
      \<not> list_all (\<lambda>j. sg ! j = H (i @ k) ! j \<and> sg ! (j + 32) = H (i @ k) ! j) [0..<32]" for k e
    using sig [of k] by (simp del: upt_Suc)
  show ?thesis
    by (auto simp: is_ok_iff relay_message_def relay_message_internal_def get_operator_or_err_def
        get_message_or_err_def require_initialized_def is_expired_def ok_or_def Let_def sig
        split: option.splits sum.splits if_splits dest!: sig')
qed

end
