(* ===== verification/Int_Sqrt.thy ===== *)
theory Int_Sqrt
  imports Soroban
begin

text \<open>
  The three integer square roots of the contracts, each a Newton iteration on machine integers:
  \<open>isqrt\<close> of \<open>soroban/src/governance.rs\<close> (\<open>u128\<close>, quadratic voting), \<open>isqrt\<close> of
  \<open>soroban/src/liquidity_pool.rs\<close> (\<open>i128\<close>, impermanent loss) and \<open>integer_sqrt\<close> of
  \<open>soroban/src/lib.rs\<close> (\<open>i128\<close>, standard deviation). The loops keep every check the code is
  compiled with: a zero divisor and an overflowing sum are traps. The locale \<open>floor_root\<close> is
  the contract a caller uses; the three routines are its interpretations.
\<close>

section \<open>The contract of an integer square root\<close>

locale floor_root =
  fixes root :: "'n :: discrete_linordered_semidom \<Rightarrow> 'e fault + 'n" and domain :: "'n \<Rightarrow> bool"
  assumes root_bracket: "domain n \<Longrightarrow> \<exists>r. root n = Inr r \<and> 0 \<le> r \<and> r * r \<le> n \<and> n < (r + 1) * (r + 1)"
begin

lemma root_unique:
  assumes "domain n" "0 \<le> q" "q * q \<le> n" "n < (q + 1) * (q + 1)"
  shows "root n = Inr q"
proof -
  obtain r where r: "root n = Inr r" "0 \<le> r" "r * r \<le> n" "n < (r + 1) * (r + 1)"
    using root_bracket [OF assms(1)] by blast
  have "r < q + 1"
  proof (rule ccontr)
    assume "\<not> r < q + 1"
    with assms(2) r(2) have "(q + 1) * (q + 1) \<le> r * r" by (intro mult_mono) auto
    with r(3) assms(4) show False by simp
  qed
  moreover have "q < r + 1"
  proof (rule ccontr)
    assume "\<not> q < r + 1"
    with r(2) assms(2) have "(r + 1) * (r + 1) \<le> q * q" by (intro mult_mono) auto
    with assms(3) r(4) show False by simp
  qed
  ultimately have "r = q" by (simp flip: less_eq_iff_succ_less)
  with r show ?thesis by simp
qed

lemma root_square: "domain (q * q) \<Longrightarrow> 0 \<le> q \<Longrightarrow> root (q * q) = Inr q"
  by (rule root_unique) (auto intro!: mult_strict_mono less_add_one intro: add_nonneg_pos)

lemma root_le:
  assumes "domain n" "root n = Inr r"
  shows "r \<le> n"
proof -
  have r: "0 \<le> r" "r * r \<le> n" using root_bracket [OF assms(1)] assms(2) by auto
  show ?thesis
  proof (cases "r = 0")
    case False
    with r(1) have "1 \<le> r" using less_iff_succ_less_eq [of 0 r] by auto
    with r have "r \<le> r * r" using mult_left_mono [of 1 r r] by simp
    with r(2) show ?thesis by simp
  qed (use r in simp)
qed

lemma root_mono:
  assumes "domain m" "domain n" "m \<le> n" "root m = Inr p" "root n = Inr q"
  shows "p \<le> q"
proof (rule ccontr)
  have p: "0 \<le> p" "p * p \<le> m" and q: "0 \<le> q" "n < (q + 1) * (q + 1)"
    using root_bracket [OF assms(1)] root_bracket [OF assms(2)] assms(4,5) by auto
  assume "\<not> p \<le> q"
  then have "q + 1 \<le> p" by (simp flip: less_iff_succ_less_eq)
  with p(1) q(1) have "(q + 1) * (q + 1) \<le> p * p" by (intro mult_mono) auto
  with p(2) q(2) assms(3) show False by simp
qed

end

section \<open>Newton's step\<close>

lemma floor_sqrt_exists: "\<exists>r :: nat. r * r \<le> n \<and> n < (r + 1) * (r + 1)"
proof (induction n)
  case (Suc n)
  then obtain r where r: "r * r \<le> n" "n < (r + 1) * (r + 1)" by blast
  show ?case
  proof (cases "Suc n = (r + 1) * (r + 1)")
    case True
    then show ?thesis by (intro exI [of _ "r + 1"]) simp
  next
    case False
    with r show ?thesis by (intro exI [of _ r]) auto
  qed
qed (rule exI [of _ 0], simp)

lemma floor_sqrt_exists_int:
  assumes "0 \<le> (n :: int)"
  shows "\<exists>r\<ge>0. r * r \<le> n \<and> n < (r + 1) * (r + 1)"
proof -
  obtain r where "r * r \<le> nat n" "nat n < (r + 1) * (r + 1)" using floor_sqrt_exists by blast
  then have "int (r * r) \<le> n" "n < int ((r + 1) * (r + 1))" using assms by linarith+
  then show ?thesis by (intro exI [of _ "int r"]) (simp add: algebra_simps)
qed

lemma newton_ge:
  fixes r n y :: int
  assumes "0 < y" "r * r \<le> n"
  shows "r \<le> (y + n div y) div 2"
proof -
  have "(2 * r - y) * y \<le> r * r" using zero_le_square [of "r - y"] by (simp add: algebra_simps)
  with assms have "2 * r - y \<le> n div y" by (simp add: le_zdiv_iff)
  then show ?thesis by simp
qed

lemma newton_stop:
  fixes n x :: int
  assumes "0 < x" "x \<le> (x + n div x) div 2"
  shows "x * x \<le> n"
  using assms by (simp add: le_zdiv_iff [symmetric])

lemma newton_sum:
  fixes r n y :: int
  assumes "0 < n" "r * r \<le> n" "n < (r + 1) * (r + 1)" "0 \<le> r" "r \<le> y" "y \<le> (n + 1) div 2"
  shows "y + n div y \<le> max n 4"
proof (cases "2 \<le> r")
  case True
  with assms have "n div y \<le> n div 2" by (intro zdiv_mono2) auto
  with assms have "y + n div y \<le> (n + 1) div 2 + n div 2" by simp
  moreover have "(n + 1) div 2 + n div 2 = n" by presburger
  ultimately show ?thesis by simp
next
  case False
  with assms have "r = 0 \<or> r = 1" by auto
  with assms have r: "r = 1" "n < 4" by auto
  with assms have "n div y \<le> n" by (intro zdiv_le_self) auto
  moreover have "y \<le> 2" "1 \<le> y" using assms r by auto
  ultimately show ?thesis using r assms zdiv_mono2 [of n 2 y]
    by (cases "y = 1") auto
qed

lemma newton_start: "0 < n \<Longrightarrow> r * r \<le> n \<Longrightarrow> r \<le> (n + 1) div (2 :: int)"
  using zero_le_square [of "r - 1"] by (simp add: algebra_simps)

lemma newton_next:
  fixes r n y :: int
  assumes "0 < n" "r * r \<le> n" "n < (r + 1) * (r + 1)" "0 \<le> r" "r \<le> y" "y \<le> (n + 1) div 2"
  defines "z \<equiv> (y + n div y) div 2"
  shows "0 < y" "r \<le> z" "z \<le> (n + 1) div 2" "y \<le> z \<Longrightarrow> y = r"
proof -
  have r: "0 < r" using assms by (cases "r = 0") auto
  then show y: "0 < y" using assms by simp
  show rz: "r \<le> z" unfolding z_def by (rule newton_ge [OF y assms(2)])
  show "z \<le> (n + 1) div 2"
  proof (cases "n < 4")
    case True
    with assms(1) have n: "n = 1 \<or> n = 2 \<or> n = 3" by auto
    with assms(6) y have "y = 1 \<or> y = 2" by auto
    with n assms(6) show ?thesis unfolding z_def by auto
  next
    case False
    with newton_sum [OF assms(1-6)] show ?thesis unfolding z_def by auto
  qed
  assume "y \<le> z"
  then have "y * y \<le> n" unfolding z_def by (rule newton_stop [OF y])
  moreover have "(r + 1) * (r + 1) \<le> y * y" if "r < y" using that r by (intro mult_mono) auto
  ultimately show "y = r" using assms(3,5) by fastforce
qed

section \<open>\<open>governance.rs\<close>: \<open>isqrt\<close> on \<open>u128\<close>\<close>

function isqrt_u128_loop :: "nat \<Rightarrow> nat \<Rightarrow> nat \<Rightarrow> 'e fault + nat" where
  "isqrt_u128_loop n x y =
     (if y < x
      then and_then (if y = 0 then Inl Trap else Inr (n div y)) (\<lambda>q.
           and_then (u_checked u128_max (y + q)) (\<lambda>t.
           isqrt_u128_loop n y (t div 2)))
      else Inr x)"
  by pat_completeness auto

termination isqrt_u128_loop
  by (relation "measure (\<lambda>(n, x, y). x)") auto

declare isqrt_u128_loop.simps [simp del]

text \<open>\<open>x.div_ceil(2)\<close> does not overflow on any \<open>u128\<close>.\<close>

definition isqrt :: "nat \<Rightarrow> 'e fault + nat" where
  "isqrt n = (if n = 0 then Inr 0 else isqrt_u128_loop n n (n div 2 + n mod 2))"

lemma isqrt_u128_loop_correct:
  assumes "0 < n" "n \<le> u128_max" "r * r \<le> n" "n < (r + 1) * (r + 1)"
    and "r \<le> y" "y \<le> (n + 1) div 2" "x \<le> y \<Longrightarrow> x = r"
  shows "isqrt_u128_loop n x y = (Inr r :: 'e fault + nat)"
  using assms
proof (induction n x y rule: isqrt_u128_loop.induct [where 'a = 'e])
  case (1 n x y)
  show ?case
  proof (cases "y < x")
    case True
    have "int n < int ((r + 1) * (r + 1))" using 1(5) by linarith
    then have bounds: "int r * int r \<le> int n" "int n < (int r + 1) * (int r + 1)" "int r \<le> int y"
      "int y \<le> (int n + 1) div 2" "0 < int n"
      using 1(2,4,6,7) by (simp_all flip: of_nat_mult) (simp_all add: zdiv_int algebra_simps)
    have nonneg: "0 \<le> int r" by simp
    have next_bounds: "0 < y" "int r \<le> (int y + int n div int y) div 2"
      "(int y + int n div int y) div 2 \<le> (int n + 1) div 2"
      "int y \<le> (int y + int n div int y) div 2 \<Longrightarrow> int y = int r"
      using newton_next [OF bounds(5,1,2) nonneg bounds(3,4)] by simp_all
    have conv: "int ((y + n div y) div 2) = (int y + int n div int y) div 2"
      and conv': "int ((n + 1) div 2) = (int n + 1) div 2"
      by (simp_all add: zdiv_int)
    have "int (y + n div y) \<le> max (int n) 4"
      using newton_sum [OF bounds(5,1,2) nonneg bounds(3,4)] by (simp add: zdiv_int)
    then have fits: "y + n div y \<le> u128_max" using 1(3) by (auto simp: u128_max_def)
    note pos = next_bounds(1)
    have "isqrt_u128_loop n y ((y + n div y) div 2) = (Inr r :: 'e fault + nat)"
    proof (rule "1.IH")
      show "r \<le> (y + n div y) div 2" "(y + n div y) div 2 \<le> (n + 1) div 2"
        using next_bounds(2,3) conv conv' by linarith+
      show "y \<le> (y + n div y) div 2 \<Longrightarrow> y = r"
        using next_bounds(4) conv by linarith
    qed (use 1(2-5) fits pos True in auto)
    then show ?thesis using True fits pos by (simp add: isqrt_u128_loop.simps [of n x y] u_checked_def)
  next
    case False
    with 1(8) have "x = r" by simp
    with False show ?thesis by (subst isqrt_u128_loop.simps) simp
  qed
qed

lemma isqrt_bracket:
  assumes "n \<le> u128_max"
  shows "\<exists>r. isqrt n = Inr r \<and> r * r \<le> n \<and> n < (r + 1) * (r + 1)"
proof (cases "n = 0")
  case True
  then show ?thesis by (simp add: isqrt_def)
next
  case False
  obtain r where r: "r * r \<le> n" "n < (r + 1) * (r + 1)" using floor_sqrt_exists by blast
  have half: "n div 2 + n mod 2 = (n + 1) div 2" by presburger
  have "int r \<le> (int n + 1) div 2"
    using False r(1) by (intro newton_start) (simp_all flip: of_nat_mult)
  then have "r \<le> (n + 1) div 2" by (simp flip: of_nat_le_iff add: zdiv_int)
  moreover have "n = r" if "n \<le> (n + 1) div 2"
  proof -
    have "n = 1" using that False by presburger
    moreover have "r = 0 \<or> r = 1 \<or> 4 \<le> r * r" using mult_le_mono [of 2 r 2 r] by fastforce
    ultimately show ?thesis using r by auto
  qed
  ultimately have "isqrt n = Inr r"
    unfolding isqrt_def half using False assms r
    by (auto intro: isqrt_u128_loop_correct)
  with r show ?thesis by blast
qed

interpretation gov_root: floor_root isqrt "\<lambda>n. n \<le> u128_max"
  by unfold_locales (use isqrt_bracket in fastforce)

section \<open>\<open>liquidity_pool.rs\<close> and \<open>lib.rs\<close>: the square roots on \<open>i128\<close>\<close>

text \<open>The two routines are the same code. The measure covers every integer: below the range of
  \<open>i128\<close> the loop runs at most once.\<close>

lemma sdiv2_ge: "in_i128 t \<Longrightarrow> i128_min \<le> t sdiv 2"
  by (cases "t = 0"; cases "0 < t") (auto simp: signed_divide_int_def in_i128_def i128_min_def)

function newton_i128_loop :: "int \<Rightarrow> int \<Rightarrow> int \<Rightarrow> 'e fault + int" where
  "newton_i128_loop n x y =
     (if y < x
      then and_then (div_i128 n y) (\<lambda>q.
           and_then (add_i128 y q) (\<lambda>t.
           newton_i128_loop n y (t sdiv 2)))
      else Inr x)"
  by pat_completeness auto

termination newton_i128_loop
proof (relation "measure (\<lambda>(n, x, y). if y < x then nat (x - i128_min) + 1 else 0)")
  fix n x y q t :: int
  assume "y < x" and t: "add_i128 y q = (Inr t :: 'e fault + int)"
  then show "((n, y, t sdiv 2), (n, x, y))
      \<in> measure (\<lambda>(n, x, y). if y < x then nat (x - i128_min) + 1 else 0)"
    using sdiv2_ge [of t] by auto
qed simp

declare newton_i128_loop.simps [simp del]

definition lp_isqrt :: "int \<Rightarrow> 'e fault + int" where
  "lp_isqrt n =
     (if n \<le> 0 then Inr 0
      else if n = 1 then Inr 1
      else and_then (add_i128 n 1) (\<lambda>t. newton_i128_loop n n (t sdiv 2)))"

definition integer_sqrt :: "int \<Rightarrow> 'e fault + int" where
  "integer_sqrt x =
     (if x \<le> 0 then Inr 0
      else if x = 1 then Inr 1
      else and_then (add_i128 x 1) (\<lambda>t. newton_i128_loop x x (t sdiv 2)))"

lemma newton_i128_loop_correct:
  assumes "0 < n" "n \<le> i128_max" "r * r \<le> n" "n < (r + 1) * (r + 1)" "0 \<le> r"
    and "r \<le> y" "y \<le> (n + 1) div 2" "x \<le> y \<Longrightarrow> x = r"
  shows "newton_i128_loop n x y = (Inr r :: 'e fault + int)"
  using assms
proof (induction n x y rule: newton_i128_loop.induct [where 'a = 'e])
  case (1 n x y)
  show ?case
  proof (cases "y < x")
    case True
    note step = newton_next [OF 1(2,4-8)]
    have "0 \<le> n div y" using 1(2) step(1) by (simp add: pos_imp_zdiv_nonneg_iff)
    moreover have "y + n div y \<le> max n 4" by (rule newton_sum [OF 1(2,4-8)])
    ultimately have fits: "in_i128 (y + n div y)" and half: "(y + n div y) sdiv 2 = (y + n div y) div 2"
      using 1(3) step(1) by (auto simp: in_i128_def i128_max_def i128_min_def sdiv_nonneg)
    have quot: "div_i128 n y = (Inr (n div y) :: 'e fault + int)"
      using 1(2,3) step(1) by (intro div_i128_pos) (auto simp: in_i128_def i128_min_def)
    have "newton_i128_loop n y ((y + n div y) sdiv 2) = (Inr r :: 'e fault + int)"
      using 1(2-6) step fits quot by (intro "1.IH" [OF True quot]) (auto simp: half i_checked_def)
    then show ?thesis
      using True fits quot by (simp add: newton_i128_loop.simps [of n x y] i_checked_def)
  next
    case False
    with 1(9) have "x = r" by simp
    with False show ?thesis by (subst newton_i128_loop.simps) simp
  qed
qed

lemma newton_i128_root:
  assumes "1 < n" "n < i128_max"
  shows "\<exists>r. and_then (add_i128 n 1) (\<lambda>t. newton_i128_loop n n (t sdiv 2)) = (Inr r :: 'e fault + int)
    \<and> 0 \<le> r \<and> r * r \<le> n \<and> n < (r + 1) * (r + 1)"
proof -
  obtain r where r: "0 \<le> r" "r * r \<le> n" "n < (r + 1) * (r + 1)"
    using floor_sqrt_exists_int [of n] assms by auto
  have "r \<le> (n + 1) div 2" using assms r by (intro newton_start) auto
  moreover have "(n + 1) sdiv 2 = (n + 1) div 2" using assms by (simp add: sdiv_nonneg)
  ultimately have "newton_i128_loop n n ((n + 1) sdiv 2) = (Inr r :: 'e fault + int)"
    using assms r by (intro newton_i128_loop_correct) auto
  then show ?thesis using assms r by (simp add: i_checked_def in_i128_def i128_min_def)
qed

lemma i128_root_bracket:
  assumes "0 \<le> n" "n < i128_max"
  shows "\<exists>r. lp_isqrt n = Inr r \<and> 0 \<le> r \<and> r * r \<le> n \<and> n < (r + 1) * (r + 1)"
    "\<exists>r. integer_sqrt n = Inr r \<and> 0 \<le> r \<and> r * r \<le> n \<and> n < (r + 1) * (r + 1)"
proof -
  consider "n = 0" | "n = 1" | "1 < n" using assms by linarith
  then show "\<exists>r. lp_isqrt n = Inr r \<and> 0 \<le> r \<and> r * r \<le> n \<and> n < (r + 1) * (r + 1)"
    "\<exists>r. integer_sqrt n = Inr r \<and> 0 \<le> r \<and> r * r \<le> n \<and> n < (r + 1) * (r + 1)"
    by (cases; use newton_i128_root [of n] assms in \<open>auto simp: lp_isqrt_def integer_sqrt_def\<close>)+
qed

interpretation lp_root: floor_root lp_isqrt "\<lambda>n. 0 \<le> n \<and> n < i128_max"
  by unfold_locales (use i128_root_bracket(1) in blast)

interpretation stats_root: floor_root integer_sqrt "\<lambda>n. 0 \<le> n \<and> n < i128_max"
  by unfold_locales (use i128_root_bracket(2) in blast)

lemma integer_sqrt_max: "integer_sqrt i128_max = Inl Trap" "lp_isqrt i128_max = Inl Trap"
  by (simp_all add: integer_sqrt_def lp_isqrt_def i_checked_def in_i128_def i128_max_def)

section \<open>Properties\<close>

text \<open>Also: \<open>isqrt\<close> of the governance contract returns the exact floor of the square root on every
  \<open>u128\<close>, the largest one included: no division by zero and no overflow on the way.\<close>

theorem isqrt_exact:
  assumes "n \<le> u128_max"
  shows "\<exists>r. isqrt n = Inr r \<and> r * r \<le> n \<and> n < (r + 1) * (r + 1)"
  using gov_root.root_bracket [OF assms] by auto

lemma isqrt_exact_witness:
  "\<exists>r. isqrt u128_max = Inr r \<and> r * r \<le> u128_max \<and> u128_max < (r + 1) * (r + 1)"
  by (rule isqrt_exact) simp

text \<open>Also: the square root of the statistics (and the same routine of the liquidity pools) on
  every \<open>i128\<close>: zero up to zero, the exact floor of the root below the maximum, and a trap
  on \<open>i128::MAX\<close>, where \<open>x + 1\<close> overflows.\<close>

theorem integer_sqrt_every_i128:
  assumes "in_i128 x"
  shows "(if x \<le> 0 then integer_sqrt x = (Inr 0 :: 'e fault + int)
          else if x = i128_max then integer_sqrt x = (Inl Trap :: 'e fault + int)
          else \<exists>r. integer_sqrt x = (Inr r :: 'e fault + int) \<and> 0 < r \<and> r * r \<le> x \<and> x < (r + 1) * (r + 1))
    \<and> lp_isqrt x = (integer_sqrt x :: 'e fault + int)"
proof -
  have "\<exists>r. integer_sqrt x = (Inr r :: 'e fault + int) \<and> 0 < r \<and> r * r \<le> x \<and> x < (r + 1) * (r + 1)"
    if pos: "0 < x" "x \<noteq> i128_max"
  proof -
    obtain r where r: "integer_sqrt x = (Inr r :: 'e fault + int)" "0 \<le> r" "r * r \<le> x" "x < (r + 1) * (r + 1)"
      using stats_root.root_bracket [of x] pos assms by (auto simp: in_i128_def)
    moreover have "r \<noteq> 0" using r(4) pos(1) by auto
    ultimately show ?thesis by auto
  qed
  then show ?thesis
    using integer_sqrt_max by (auto simp: lp_isqrt_def integer_sqrt_def)
qed

lemma integer_sqrt_every_i128_witness:
  "(\<exists>r. integer_sqrt 50 = (Inr r :: 'e fault + int) \<and> 0 < r \<and> r * r \<le> 50 \<and> 50 < (r + 1) * (r + 1))
    \<and> lp_isqrt 50 = (integer_sqrt 50 :: 'e fault + int)"
  using integer_sqrt_every_i128 [of 50] by (simp add: in_i128_def i128_min_def i128_max_def)

end
