(* ===== verification/Governance.thy ===== *)
theory Governance
  imports Soroban Int_Sqrt
begin

text \<open>
  \<open>soroban/src/governance.rs\<close>: proposals, weighted (optionally quadratic) votes, delegation,
  a timelock and an emergency path by guardians. One record field per constructor of
  \<open>DataKey\<close>; \<open>gs_events\<close> is the log of published events, oldest first.
\<close>

section \<open>Data\<close>

datatype proposal_type = ParameterChange | OperatorApproval | EmergencyPause

datatype proposal_status = GPending | GActive | GPassed | GFailed | GQueued | GExecuted | GCancelled

datatype vote_choice = VFor | VAgainst | VAbstain

datatype governance_event_type = ConfigUpdated | QuorumChanged | ThresholdChanged
  | VotingDelayChanged | VotingPeriodChanged | TimelockDelayChanged

record proposal =
  pr_id :: nat
  pr_proposer :: address
  pr_type :: proposal_type
  pr_title :: string
  pr_description :: string
  pr_target_contract :: address
  pr_calldata :: string
  pr_deposit :: int
  pr_status :: proposal_status
  pr_votes_for :: int
  pr_votes_against :: int
  pr_votes_abstain :: int
  pr_start_time :: nat
  pr_end_time :: nat
  pr_execute_after :: nat
  pr_created_at :: nat
  pr_executed_at :: nat

record vote_record =
  vr_voter :: address
  vr_proposal_id :: nat
  vr_choice :: vote_choice
  vr_voting_power :: int
  vr_effective_votes :: int
  vr_timestamp :: nat

record gov_config =
  gc_timelock_delay :: nat
  gc_voting_period :: nat
  gc_voting_delay :: nat
  gc_quorum_bps :: nat
  gc_pass_threshold_bps :: nat
  gc_proposal_deposit :: int
  gc_use_quadratic :: bool
  gc_guardian_threshold :: nat

text \<open>Every event also carries \<open>version: 1\<close>.\<close>

datatype gov_event =
    EvConfigUpdated governance_event_type
  | EvParameterChanged governance_event_type nat
  | EvProposalCreated nat address proposal_type
  | EvStatusChanged nat proposal_status
  | EvVoteCast nat address vote_choice int
  | EvProposalExecuted nat bool

record gov_state =
  gs_admin :: "address option"
  gs_config :: "gov_config option"
  gs_proposal_count :: "nat option"
  gs_total_supply :: "int option"
  gs_guardian_count :: "nat option"
  gs_proposals :: "nat \<Rightarrow> proposal option"
  gs_votes :: "nat \<times> address \<Rightarrow> vote_record option"
  gs_delegation :: "address \<Rightarrow> address option"
  gs_delegated_power :: "address \<Rightarrow> int option"
  gs_voting_power :: "address \<Rightarrow> int option"
  gs_guardian :: "address \<Rightarrow> bool option"
  gs_approval :: "nat \<times> address \<Rightarrow> bool option"
  gs_approval_count :: "nat \<Rightarrow> nat option"
  gs_events :: "gov_event list"

text \<open>The contract has no error codes: every failure is a panic.\<close>

type_synonym 'a gres = "(unit, 'a) res"

definition gov_start :: gov_state where
  "gov_start = \<lparr> gs_admin = None, gs_config = None, gs_proposal_count = None, gs_total_supply = None,
     gs_guardian_count = None, gs_proposals = (\<lambda>_. None), gs_votes = (\<lambda>_. None),
     gs_delegation = (\<lambda>_. None), gs_delegated_power = (\<lambda>_. None), gs_voting_power = (\<lambda>_. None),
     gs_guardian = (\<lambda>_. None), gs_approval = (\<lambda>_. None), gs_approval_count = (\<lambda>_. None),
     gs_events = [] \<rparr>"

definition gov_publish :: "gov_event \<Rightarrow> gov_state \<Rightarrow> gov_state" where
  "gov_publish e s = s\<lparr> gs_events := gs_events s @ [e] \<rparr>"

section \<open>Private helpers\<close>

definition only_admin :: "env \<Rightarrow> gov_state \<Rightarrow> unit gres" where
  "only_admin env s = and_then (unwrap (gs_admin s)) (\<lambda>admin. require_auth env admin)"

definition load_proposal :: "nat \<Rightarrow> gov_state \<Rightarrow> proposal gres" where
  "load_proposal pid s = ok_or (gs_proposals s pid) (Panic ''proposal not found'')"

definition store_proposal :: "nat \<Rightarrow> proposal \<Rightarrow> gov_state \<Rightarrow> gov_state" where
  "store_proposal pid p s = s\<lparr> gs_proposals := (gs_proposals s)(pid \<mapsto> p) \<rparr>"

definition raw_power :: "gov_state \<Rightarrow> address \<Rightarrow> int" where
  "raw_power s voter = unwrap_or (gs_voting_power s voter) 0"

definition received_power :: "gov_state \<Rightarrow> address \<Rightarrow> int" where
  "received_power s voter = unwrap_or (gs_delegated_power s voter) 0"

definition effective_power :: "gov_state \<Rightarrow> address \<Rightarrow> int gres" where
  "effective_power s voter =
     (let has_delegated = gs_delegation s voter \<noteq> None;
          own = (if has_delegated then 0 else raw_power s voter);
          received = received_power s voter
      in add_i128 own received)"

definition remove_delegation_internal :: "address \<Rightarrow> gov_state \<Rightarrow> gov_state gres" where
  "remove_delegation_internal delegator s =
     (case gs_delegation s delegator of
        None \<Rightarrow> Inr s
      | Some delegatee \<Rightarrow>
          and_then (sub_i128 (received_power s delegatee) (raw_power s delegator)) (\<lambda>d.
          Inr (s\<lparr> gs_delegated_power := (gs_delegated_power s)(delegatee \<mapsto> max d 0),
                 gs_delegation := (gs_delegation s)(delegator := None) \<rparr>)))"

definition validate_governance_params :: "gov_config \<Rightarrow> unit gres" where
  "validate_governance_params c =
     and_then (ensure (gc_quorum_bps c \<le> 10000) (Panic ''quorum > 100%'')) (\<lambda>_.
     and_then (ensure (0 < gc_pass_threshold_bps c) (Panic ''threshold must be > 0%'')) (\<lambda>_.
     and_then (ensure (gc_pass_threshold_bps c \<le> 10000) (Panic ''threshold > 100%'')) (\<lambda>_.
     and_then (ensure (0 < gc_voting_period c) (Panic ''voting period must be non-zero'')) (\<lambda>_.
     ensure (0 \<le> gc_proposal_deposit c) (Panic ''proposal deposit cannot be negative'')))))"

section \<open>Initialisation, voting power, guardians, delegation\<close>

text \<open>The eight configuration arguments of \<open>initialize\<close> and \<open>update_config\<close> are passed as the
  record they are stored in.\<close>

definition gov_initialize :: "env \<Rightarrow> address \<Rightarrow> gov_config \<Rightarrow> gov_state \<Rightarrow> gov_state gres" where
  "gov_initialize env admin cfg s =
     and_then (require_auth env admin) (\<lambda>_.
     and_then (ensure (gs_admin s = None) (Panic ''already initialised'')) (\<lambda>_.
     and_then (validate_governance_params cfg) (\<lambda>_.
     Inr (gov_publish (EvConfigUpdated ConfigUpdated)
       (s\<lparr> gs_admin := Some admin, gs_proposal_count := Some 0, gs_total_supply := Some 0,
          gs_guardian_count := Some 0, gs_config := Some cfg \<rparr>)))))"

definition set_voting_power :: "env \<Rightarrow> address \<Rightarrow> int \<Rightarrow> gov_state \<Rightarrow> gov_state gres" where
  "set_voting_power env voter pow s =
     and_then (only_admin env s) (\<lambda>_.
     and_then (ensure (0 \<le> pow) (Panic ''power < 0'')) (\<lambda>_.
     let old = unwrap_or (gs_voting_power s voter) 0;
         s1 = s\<lparr> gs_voting_power := (gs_voting_power s)(voter \<mapsto> pow) \<rparr>
     in and_then (sub_i128 (unwrap_or (gs_total_supply s1) 0) old) (\<lambda>d.
        and_then (add_i128 d pow) (\<lambda>tot.
        Inr (s1\<lparr> gs_total_supply := Some tot \<rparr>)))))"

definition add_guardian :: "env \<Rightarrow> address \<Rightarrow> gov_state \<Rightarrow> gov_state gres" where
  "add_guardian env guardian s =
     and_then (only_admin env s) (\<lambda>_.
     if \<not> unwrap_or (gs_guardian s guardian) False
     then and_then (add_u32 (unwrap_or (gs_guardian_count s) 0) 1) (\<lambda>count.
          Inr (s\<lparr> gs_guardian := (gs_guardian s)(guardian \<mapsto> True), gs_guardian_count := Some count \<rparr>))
     else Inr s)"

definition remove_guardian :: "env \<Rightarrow> address \<Rightarrow> gov_state \<Rightarrow> gov_state gres" where
  "remove_guardian env guardian s =
     and_then (only_admin env s) (\<lambda>_.
     if unwrap_or (gs_guardian s guardian) False
     then Inr (s\<lparr> gs_guardian := (gs_guardian s)(guardian \<mapsto> False),
                 gs_guardian_count := Some (unwrap_or (gs_guardian_count s) 0 - 1) \<rparr>)
     else Inr s)"

definition delegate_votes :: "env \<Rightarrow> address \<Rightarrow> address \<Rightarrow> gov_state \<Rightarrow> gov_state gres" where
  "delegate_votes env delegator delegatee s =
     and_then (require_auth env delegator) (\<lambda>_.
     and_then (ensure (delegator \<noteq> delegatee) (Panic ''cannot self-delegate'')) (\<lambda>_.
     and_then (remove_delegation_internal delegator s) (\<lambda>s1.
     let power = raw_power s1 delegator;
         s2 = s1\<lparr> gs_delegation := (gs_delegation s1)(delegator \<mapsto> delegatee) \<rparr>
     in and_then (add_i128 (received_power s2 delegatee) power) (\<lambda>received.
        Inr (s2\<lparr> gs_delegated_power := (gs_delegated_power s2)(delegatee \<mapsto> received) \<rparr>)))))"

definition undelegate_votes :: "env \<Rightarrow> address \<Rightarrow> gov_state \<Rightarrow> gov_state gres" where
  "undelegate_votes env delegator s =
     and_then (require_auth env delegator) (\<lambda>_. remove_delegation_internal delegator s)"

section \<open>Proposal lifecycle\<close>

definition create_proposal :: "env \<Rightarrow> address \<Rightarrow> proposal_type \<Rightarrow> string \<Rightarrow> string \<Rightarrow> address
    \<Rightarrow> string \<Rightarrow> gov_state \<Rightarrow> (nat \<times> gov_state) gres" where
  "create_proposal env proposer ptype title description target_contract calldata s =
     and_then (require_auth env proposer) (\<lambda>_.
     and_then (unwrap (gs_config s)) (\<lambda>cfg.
     and_then (effective_power s proposer) (\<lambda>proposer_power.
     and_then (ensure (gc_proposal_deposit cfg \<le> proposer_power)
       (Panic ''insufficient voting power for deposit'')) (\<lambda>_.
     and_then (add_u64 (timestamp env) (gc_voting_delay cfg)) (\<lambda>start_time.
     and_then (add_u64 start_time (gc_voting_period cfg)) (\<lambda>end_time.
     and_then (unwrap (gs_proposal_count s)) (\<lambda>pid.
     and_then (add_u32 pid 1) (\<lambda>count.
     let p = \<lparr> pr_id = pid, pr_proposer = proposer, pr_type = ptype, pr_title = title,
               pr_description = description, pr_target_contract = target_contract,
               pr_calldata = calldata, pr_deposit = gc_proposal_deposit cfg, pr_status = GPending,
               pr_votes_for = 0, pr_votes_against = 0, pr_votes_abstain = 0,
               pr_start_time = start_time, pr_end_time = end_time, pr_execute_after = 0,
               pr_created_at = timestamp env, pr_executed_at = 0 \<rparr>
     in Inr (pid, gov_publish (EvProposalCreated pid proposer ptype)
          (store_proposal pid p (s\<lparr> gs_proposal_count := Some count \<rparr>)))))))))))"

definition activate_proposal :: "env \<Rightarrow> nat \<Rightarrow> gov_state \<Rightarrow> gov_state gres" where
  "activate_proposal env pid s =
     and_then (load_proposal pid s) (\<lambda>p.
     and_then (ensure (pr_status p = GPending) (Panic ''not pending'')) (\<lambda>_.
     and_then (ensure (pr_start_time p \<le> timestamp env) (Panic ''voting delay not elapsed'')) (\<lambda>_.
     Inr (gov_publish (EvStatusChanged pid GActive)
       (store_proposal pid (p\<lparr> pr_status := GActive \<rparr>) s)))))"

definition add_votes :: "vote_choice \<Rightarrow> int \<Rightarrow> proposal \<Rightarrow> proposal gres" where
  "add_votes choice votes p =
     (case choice of
        VFor \<Rightarrow> and_then (add_i128 (pr_votes_for p) votes) (\<lambda>v. Inr (p\<lparr> pr_votes_for := v \<rparr>))
      | VAgainst \<Rightarrow> and_then (add_i128 (pr_votes_against p) votes) (\<lambda>v. Inr (p\<lparr> pr_votes_against := v \<rparr>))
      | VAbstain \<Rightarrow> and_then (add_i128 (pr_votes_abstain p) votes) (\<lambda>v. Inr (p\<lparr> pr_votes_abstain := v \<rparr>)))"

definition vote_weight :: "gov_config \<Rightarrow> int \<Rightarrow> int gres" where
  "vote_weight cfg pow =
     (if gc_use_quadratic cfg then and_then (isqrt (nat pow)) (\<lambda>r. Inr (int r)) else Inr pow)"

definition cast_vote :: "env \<Rightarrow> address \<Rightarrow> nat \<Rightarrow> vote_choice \<Rightarrow> gov_state \<Rightarrow> gov_state gres" where
  "cast_vote env voter pid choice s =
     and_then (require_auth env voter) (\<lambda>_.
     and_then (load_proposal pid s) (\<lambda>p.
     and_then (ensure (pr_status p = GActive) (Panic ''not active'')) (\<lambda>_.
     and_then (ensure (pr_start_time p \<le> timestamp env \<and> timestamp env \<le> pr_end_time p)
       (Panic ''outside voting window'')) (\<lambda>_.
     and_then (ensure (gs_votes s (pid, voter) = None) (Panic ''already voted'')) (\<lambda>_.
     and_then (unwrap (gs_config s)) (\<lambda>cfg.
     and_then (effective_power s voter) (\<lambda>power.
     and_then (ensure (0 < power) (Panic ''no voting power'')) (\<lambda>_.
     and_then (vote_weight cfg power) (\<lambda>votes.
     let rec = \<lparr> vr_voter = voter, vr_proposal_id = pid, vr_choice = choice,
                 vr_voting_power = power, vr_effective_votes = votes, vr_timestamp = timestamp env \<rparr>;
         s1 = s\<lparr> gs_votes := (gs_votes s)((pid, voter) \<mapsto> rec) \<rparr>
     in and_then (add_votes choice votes p) (\<lambda>p'.
        Inr (gov_publish (EvVoteCast pid voter choice votes) (store_proposal pid p' s1))))))))))))"

text \<open>The two tests of \<open>finalize_proposal\<close>; \<open>&&\<close> does not evaluate its right operand when the
  left one is false.\<close>

definition quorum_met :: "gov_config \<Rightarrow> int \<Rightarrow> int \<Rightarrow> bool gres" where
  "quorum_met cfg total_supply total_votes =
     (if 0 < total_supply
      then and_then (mul_i128 total_votes 10000) (\<lambda>m.
           and_then (div_i128 m total_supply) (\<lambda>q. Inr (int (gc_quorum_bps cfg) \<le> q)))
      else Inr False)"

definition threshold_met :: "gov_config \<Rightarrow> proposal \<Rightarrow> bool gres" where
  "threshold_met cfg p =
     and_then (add_i128 (pr_votes_for p) (pr_votes_against p)) (\<lambda>decided.
     if 0 < decided
     then and_then (mul_i128 (pr_votes_for p) 10000) (\<lambda>m.
          and_then (div_i128 m decided) (\<lambda>q. Inr (int (gc_pass_threshold_bps cfg) \<le> q)))
     else Inr False)"

definition finalize_proposal :: "env \<Rightarrow> nat \<Rightarrow> gov_state \<Rightarrow> gov_state gres" where
  "finalize_proposal env pid s =
     and_then (load_proposal pid s) (\<lambda>p.
     and_then (ensure (pr_status p = GActive) (Panic ''not active'')) (\<lambda>_.
     and_then (ensure (pr_end_time p < timestamp env) (Panic ''voting still open'')) (\<lambda>_.
     and_then (unwrap (gs_config s)) (\<lambda>cfg.
     and_then (add_i128 (pr_votes_for p) (pr_votes_against p)) (\<lambda>v.
     and_then (add_i128 v (pr_votes_abstain p)) (\<lambda>total_votes.
     and_then (quorum_met cfg (unwrap_or (gs_total_supply s) 0) total_votes) (\<lambda>q.
     and_then (threshold_met cfg p) (\<lambda>t.
     let st = (if q \<and> t then GPassed else GFailed)
     in Inr (gov_publish (EvStatusChanged pid st)
          (store_proposal pid (p\<lparr> pr_status := st \<rparr>) s))))))))))"

definition queue_proposal :: "env \<Rightarrow> nat \<Rightarrow> gov_state \<Rightarrow> gov_state gres" where
  "queue_proposal env pid s =
     and_then (load_proposal pid s) (\<lambda>p.
     and_then (ensure (pr_status p = GPassed) (Panic ''not passed'')) (\<lambda>_.
     and_then (unwrap (gs_config s)) (\<lambda>cfg.
     and_then (add_u64 (timestamp env) (gc_timelock_delay cfg)) (\<lambda>after.
     Inr (gov_publish (EvStatusChanged pid GQueued)
       (store_proposal pid (p\<lparr> pr_execute_after := after, pr_status := GQueued \<rparr>) s))))))"

definition execute_proposal :: "env \<Rightarrow> address \<Rightarrow> nat \<Rightarrow> gov_state \<Rightarrow> gov_state gres" where
  "execute_proposal env executor pid s =
     and_then (require_auth env executor) (\<lambda>_.
     and_then (load_proposal pid s) (\<lambda>p.
     and_then (ensure (pr_status p = GQueued) (Panic ''not queued'')) (\<lambda>_.
     and_then (ensure (pr_execute_after p \<le> timestamp env) (Panic ''timelock not expired'')) (\<lambda>_.
     Inr (gov_publish (EvProposalExecuted pid False)
       (store_proposal pid (p\<lparr> pr_status := GExecuted, pr_executed_at := timestamp env \<rparr>) s))))))"

section \<open>Guardian multisig, cancellation, configuration\<close>

definition guardian_approve :: "env \<Rightarrow> address \<Rightarrow> nat \<Rightarrow> gov_state \<Rightarrow> gov_state gres" where
  "guardian_approve env guardian pid s =
     and_then (require_auth env guardian) (\<lambda>_.
     and_then (ensure (unwrap_or (gs_guardian s guardian) False) (Panic ''not a guardian'')) (\<lambda>_.
     and_then (ensure (\<not> unwrap_or (gs_approval s (pid, guardian)) False)
       (Panic ''already approved'')) (\<lambda>_.
     and_then (add_u32 (unwrap_or (gs_approval_count s pid) 0) 1) (\<lambda>count.
     Inr (s\<lparr> gs_approval := (gs_approval s)((pid, guardian) \<mapsto> True),
            gs_approval_count := (gs_approval_count s)(pid \<mapsto> count) \<rparr>)))))"

definition guardian_execute :: "env \<Rightarrow> address \<Rightarrow> nat \<Rightarrow> gov_state \<Rightarrow> gov_state gres" where
  "guardian_execute env executor pid s =
     and_then (require_auth env executor) (\<lambda>_.
     and_then (ensure (unwrap_or (gs_guardian s executor) False) (Panic ''not a guardian'')) (\<lambda>_.
     and_then (unwrap (gs_config s)) (\<lambda>cfg.
     and_then (ensure (gc_guardian_threshold cfg \<le> unwrap_or (gs_approval_count s pid) 0)
       (Panic ''insufficient approvals'')) (\<lambda>_.
     and_then (load_proposal pid s) (\<lambda>p.
     and_then (ensure (pr_type p = EmergencyPause) (Panic ''only emergency proposals'')) (\<lambda>_.
     and_then (ensure (pr_status p = GActive \<or> pr_status p = GPassed \<or> pr_status p = GQueued)
       (Panic ''invalid status'')) (\<lambda>_.
     Inr (gov_publish (EvProposalExecuted pid True)
       (store_proposal pid (p\<lparr> pr_status := GExecuted, pr_executed_at := timestamp env \<rparr>) s)))))))))"

definition cancel_proposal :: "env \<Rightarrow> address \<Rightarrow> nat \<Rightarrow> gov_state \<Rightarrow> gov_state gres" where
  "cancel_proposal env caller pid s =
     and_then (require_auth env caller) (\<lambda>_.
     and_then (unwrap (gs_admin s)) (\<lambda>admin.
     and_then (load_proposal pid s) (\<lambda>p.
     and_then (ensure (caller = pr_proposer p \<or> caller = admin) (Panic ''unauthorised'')) (\<lambda>_.
     and_then (ensure (pr_status p \<in> {GPending, GActive, GPassed, GQueued})
       (Panic ''cannot cancel in current state'')) (\<lambda>_.
     Inr (gov_publish (EvStatusChanged pid GCancelled)
       (store_proposal pid (p\<lparr> pr_status := GCancelled \<rparr>) s)))))))"

definition default_config :: gov_config where
  "default_config = \<lparr> gc_timelock_delay = 0, gc_voting_period = 0, gc_voting_delay = 0,
     gc_quorum_bps = 0, gc_pass_threshold_bps = 0, gc_proposal_deposit = 0,
     gc_use_quadratic = False, gc_guardian_threshold = 0 \<rparr>"

definition param_event :: "governance_event_type \<Rightarrow> nat \<Rightarrow> nat \<Rightarrow> gov_state \<Rightarrow> gov_state" where
  "param_event t old new s = (if old \<noteq> new then gov_publish (EvParameterChanged t new) s else s)"

definition update_config :: "env \<Rightarrow> gov_config \<Rightarrow> gov_state \<Rightarrow> gov_state gres" where
  "update_config env cfg s =
     and_then (only_admin env s) (\<lambda>_.
     and_then (validate_governance_params cfg) (\<lambda>_.
     let old = unwrap_or (gs_config s) default_config;
         s1 = gov_publish (EvConfigUpdated ConfigUpdated) (s\<lparr> gs_config := Some cfg \<rparr>);
         s2 = param_event QuorumChanged (gc_quorum_bps old) (gc_quorum_bps cfg) s1;
         s3 = param_event ThresholdChanged (gc_pass_threshold_bps old) (gc_pass_threshold_bps cfg) s2;
         s4 = param_event VotingDelayChanged (gc_voting_delay old) (gc_voting_delay cfg) s3;
         s5 = param_event VotingPeriodChanged (gc_voting_period old) (gc_voting_period cfg) s4
     in Inr (param_event TimelockDelayChanged (gc_timelock_delay old) (gc_timelock_delay cfg) s5)))"

section \<open>Getters\<close>

definition get_proposal :: "nat \<Rightarrow> gov_state \<Rightarrow> proposal gres" where
  "get_proposal pid s = load_proposal pid s"

definition get_vote :: "nat \<Rightarrow> address \<Rightarrow> gov_state \<Rightarrow> vote_record option" where
  "get_vote pid voter s = gs_votes s (pid, voter)"

definition get_gov_config :: "gov_state \<Rightarrow> gov_config gres" where
  "get_gov_config s = unwrap (gs_config s)"

definition get_voting_power :: "address \<Rightarrow> gov_state \<Rightarrow> int gres" where
  "get_voting_power voter s = effective_power s voter"

definition get_delegation :: "address \<Rightarrow> gov_state \<Rightarrow> address option" where
  "get_delegation delegator s = gs_delegation s delegator"

definition proposal_count :: "gov_state \<Rightarrow> nat" where
  "proposal_count s = unwrap_or (gs_proposal_count s) 0"

definition is_guardian :: "address \<Rightarrow> gov_state \<Rightarrow> bool" where
  "is_guardian a s = unwrap_or (gs_guardian s a) False"

definition get_guardian_approvals :: "nat \<Rightarrow> gov_state \<Rightarrow> nat" where
  "get_guardian_approvals pid s = unwrap_or (gs_approval_count s pid) 0"

definition total_supply :: "gov_state \<Rightarrow> int" where
  "total_supply s = unwrap_or (gs_total_supply s) 0"

section \<open>Invocations\<close>

datatype gov_call =
    GInitialize address gov_config
  | SetVotingPower address int
  | AddGuardian address
  | RemoveGuardian address
  | DelegateVotes address address
  | UndelegateVotes address
  | CreateProposal address proposal_type string string address string
  | ActivateProposal nat
  | CastVote address nat vote_choice
  | FinalizeProposal nat
  | QueueProposal nat
  | ExecuteProposal address nat
  | GuardianApprove address nat
  | GuardianExecute address nat
  | CancelProposal address nat
  | UpdateConfig gov_config

fun gov_exec :: "env \<Rightarrow> gov_call \<Rightarrow> gov_state \<Rightarrow> gov_state gres" where
  "gov_exec env (GInitialize a c) s = gov_initialize env a c s"
| "gov_exec env (SetVotingPower v p) s = set_voting_power env v p s"
| "gov_exec env (AddGuardian g) s = add_guardian env g s"
| "gov_exec env (RemoveGuardian g) s = remove_guardian env g s"
| "gov_exec env (DelegateVotes d e) s = delegate_votes env d e s"
| "gov_exec env (UndelegateVotes d) s = undelegate_votes env d s"
| "gov_exec env (CreateProposal a t ti de ta ca) s = state_of (create_proposal env a t ti de ta ca s)"
| "gov_exec env (ActivateProposal i) s = activate_proposal env i s"
| "gov_exec env (CastVote v i c) s = cast_vote env v i c s"
| "gov_exec env (FinalizeProposal i) s = finalize_proposal env i s"
| "gov_exec env (QueueProposal i) s = queue_proposal env i s"
| "gov_exec env (ExecuteProposal a i) s = execute_proposal env a i s"
| "gov_exec env (GuardianApprove g i) s = guardian_approve env g i s"
| "gov_exec env (GuardianExecute a i) s = guardian_execute env a i s"
| "gov_exec env (CancelProposal a i) s = cancel_proposal env a i s"
| "gov_exec env (UpdateConfig c) s = update_config env c s"

section \<open>The state machine the contract implements\<close>

text \<open>
  The state machine of a proposal, as the contract promises it: \<open>now\<close> is the ledger time of
  the call. \<open>gov_step\<close> classifies what one successful call may do to proposals and votes; that
  every operation refines it is \<open>gov_exec_refines\<close>.
\<close>

inductive proposal_move :: "nat \<Rightarrow> proposal \<Rightarrow> proposal \<Rightarrow> bool" for now :: nat where
  move_activate: "pr_status p = GPending \<Longrightarrow> pr_start_time p \<le> now
    \<Longrightarrow> proposal_move now p (p\<lparr> pr_status := GActive \<rparr>)"
| move_finalize: "pr_status p = GActive \<Longrightarrow> pr_end_time p < now
    \<Longrightarrow> st = GPassed \<and> 0 < pr_votes_for p \<or> st = GFailed
    \<Longrightarrow> proposal_move now p (p\<lparr> pr_status := st \<rparr>)"
| move_queue: "pr_status p = GPassed \<Longrightarrow> now \<le> after
    \<Longrightarrow> proposal_move now p (p\<lparr> pr_execute_after := after, pr_status := GQueued \<rparr>)"
| move_execute: "pr_status p = GQueued \<Longrightarrow> pr_execute_after p \<le> now
    \<Longrightarrow> proposal_move now p (p\<lparr> pr_status := GExecuted, pr_executed_at := now \<rparr>)"
| move_emergency: "pr_type p = EmergencyPause
    \<Longrightarrow> pr_status p = GActive \<or> pr_status p = GPassed \<or> pr_status p = GQueued
    \<Longrightarrow> proposal_move now p (p\<lparr> pr_status := GExecuted, pr_executed_at := now \<rparr>)"
| move_cancel: "pr_status p \<in> {GPending, GActive, GPassed, GQueued}
    \<Longrightarrow> proposal_move now p (p\<lparr> pr_status := GCancelled \<rparr>)"

fun is_vote :: "gov_event \<Rightarrow> bool" where
  "is_vote (EvVoteCast _ _ _ _) = True"
| "is_vote _ = False"

definition count_ok :: "gov_state \<Rightarrow> gov_state \<Rightarrow> bool" where
  "count_ok s s' \<longleftrightarrow> gs_admin s' = gs_admin s \<and> gs_proposal_count s' = gs_proposal_count s
     \<or> gs_admin s = None \<and> gs_admin s' \<noteq> None \<and> gs_proposal_count s' = Some 0"

inductive gov_step :: "nat \<Rightarrow> gov_state \<Rightarrow> gov_state \<Rightarrow> bool" for now :: nat where
  step_quiet: "gs_proposals s' = gs_proposals s \<Longrightarrow> gs_votes s' = gs_votes s \<Longrightarrow> count_ok s s'
    \<Longrightarrow> gs_events s' = gs_events s @ es \<Longrightarrow> list_all (\<lambda>e. \<not> is_vote e) es \<Longrightarrow> gov_step now s s'"
| step_create: "gs_proposal_count s = Some pid \<Longrightarrow> gs_proposal_count s' = Some (Suc pid)
    \<Longrightarrow> pr_id p = pid \<Longrightarrow> pr_status p = GPending
    \<Longrightarrow> pr_votes_for p = 0 \<Longrightarrow> pr_votes_against p = 0 \<Longrightarrow> pr_votes_abstain p = 0
    \<Longrightarrow> gs_proposals s' = (gs_proposals s)(pid \<mapsto> p) \<Longrightarrow> gs_votes s' = gs_votes s
    \<Longrightarrow> gs_admin s' = gs_admin s
    \<Longrightarrow> gs_events s' = gs_events s @ [e] \<Longrightarrow> \<not> is_vote e \<Longrightarrow> gov_step now s s'"
| step_move: "gs_proposals s pid = Some p \<Longrightarrow> proposal_move now p p'
    \<Longrightarrow> gs_proposals s' = (gs_proposals s)(pid \<mapsto> p') \<Longrightarrow> gs_votes s' = gs_votes s
    \<Longrightarrow> gs_admin s' = gs_admin s \<Longrightarrow> gs_proposal_count s' = gs_proposal_count s
    \<Longrightarrow> gs_events s' = gs_events s @ [e] \<Longrightarrow> \<not> is_vote e \<Longrightarrow> gov_step now s s'"
| step_vote: "gs_proposals s pid = Some p \<Longrightarrow> pr_status p = GActive
    \<Longrightarrow> pr_start_time p \<le> now \<Longrightarrow> now \<le> pr_end_time p
    \<Longrightarrow> gs_votes s (pid, v) = None \<Longrightarrow> add_votes ch n p = Inr p'
    \<Longrightarrow> gs_proposals s' = (gs_proposals s)(pid \<mapsto> p')
    \<Longrightarrow> gs_votes s' = (gs_votes s)((pid, v) \<mapsto> r)
    \<Longrightarrow> gs_admin s' = gs_admin s \<Longrightarrow> gs_proposal_count s' = gs_proposal_count s
    \<Longrightarrow> gs_events s' = gs_events s @ [EvVoteCast pid v ch n] \<Longrightarrow> gov_step now s s'"

lemmas gov_op_defs = only_admin_def load_proposal_def store_proposal_def gov_publish_def
  effective_power_def remove_delegation_internal_def gov_initialize_def set_voting_power_def
  add_guardian_def remove_guardian_def delegate_votes_def undelegate_votes_def
  create_proposal_def activate_proposal_def cast_vote_def finalize_proposal_def
  queue_proposal_def execute_proposal_def guardian_approve_def guardian_execute_def
  cancel_proposal_def update_config_def param_event_def

lemma param_event_fields [simp]:
  "gs_admin (param_event t a b s) = gs_admin s" "gs_config (param_event t a b s) = gs_config s"
  "gs_proposal_count (param_event t a b s) = gs_proposal_count s"
  "gs_total_supply (param_event t a b s) = gs_total_supply s"
  "gs_guardian_count (param_event t a b s) = gs_guardian_count s"
  "gs_proposals (param_event t a b s) = gs_proposals s" "gs_votes (param_event t a b s) = gs_votes s"
  "gs_delegation (param_event t a b s) = gs_delegation s"
  "gs_delegated_power (param_event t a b s) = gs_delegated_power s"
  "gs_voting_power (param_event t a b s) = gs_voting_power s"
  "gs_guardian (param_event t a b s) = gs_guardian s"
  "gs_approval (param_event t a b s) = gs_approval s"
  "gs_approval_count (param_event t a b s) = gs_approval_count s"
  by (simp_all add: param_event_def gov_publish_def)

lemma param_event_log:
  "gs_events (param_event t a b s) = gs_events s @ (if a \<noteq> b then [EvParameterChanged t b] else [])"
  by (simp add: param_event_def gov_publish_def)

definition gov_frame :: "gov_state \<Rightarrow> gov_state \<Rightarrow> bool" where
  "gov_frame s s' \<longleftrightarrow> gs_proposals s' = gs_proposals s \<and> gs_votes s' = gs_votes s
     \<and> gs_admin s' = gs_admin s \<and> gs_proposal_count s' = gs_proposal_count s
     \<and> gs_events s' = gs_events s"

lemma frame_step: "gov_frame s s' \<Longrightarrow> gov_step now s s'"
  by (rule step_quiet [where es = "[]"]) (simp_all add: gov_frame_def count_ok_def)

lemma remove_delegation_frame: "remove_delegation_internal d s = Inr s' \<Longrightarrow> gov_frame s s'"
  by (auto simp: remove_delegation_internal_def gov_frame_def split: option.splits)

lemma gov_frames:
  "set_voting_power env a n s = Inr s' \<Longrightarrow> gov_frame s s'"
  "add_guardian env a s = Inr s' \<Longrightarrow> gov_frame s s'"
  "remove_guardian env a s = Inr s' \<Longrightarrow> gov_frame s s'"
  "delegate_votes env a b s = Inr s' \<Longrightarrow> gov_frame s s'"
  "undelegate_votes env a s = Inr s' \<Longrightarrow> gov_frame s s'"
  "guardian_approve env a i s = Inr s' \<Longrightarrow> gov_frame s s'"
proof -
  show "delegate_votes env a b s = Inr s' \<Longrightarrow> gov_frame s s'"
    using remove_delegation_frame [of a s] by (auto simp: delegate_votes_def Let_def gov_frame_def)
  show "undelegate_votes env a s = Inr s' \<Longrightarrow> gov_frame s s'"
    using remove_delegation_frame [of a s] by (auto simp: undelegate_votes_def)
qed (auto simp: gov_frame_def set_voting_power_def add_guardian_def remove_guardian_def
    guardian_approve_def Let_def split: if_splits)

lemma config_steps:
  "gov_initialize env a cfg s = Inr s' \<Longrightarrow> gov_step now s s'"
  "update_config env cfg s = Inr s' \<Longrightarrow> gov_step now s s'"
proof -
  assume "gov_initialize env a cfg s = Inr s'"
  then show "gov_step now s s'"
    by (intro step_quiet [where es = "[EvConfigUpdated ConfigUpdated]"])
      (auto simp: gov_initialize_def gov_publish_def count_ok_def)
next
  assume u: "update_config env cfg s = Inr s'"
  show "gov_step now s s'"
  proof (rule step_quiet)
    show "gs_events s' = gs_events s @ drop (length (gs_events s)) (gs_events s')"
      "list_all (\<lambda>e. \<not> is_vote e) (drop (length (gs_events s)) (gs_events s'))"
      using u by (auto simp: update_config_def Let_def param_event_log gov_publish_def)
  qed (use u in \<open>auto simp: update_config_def Let_def gov_publish_def count_ok_def\<close>)
qed

definition config_ok :: "gov_state \<Rightarrow> bool" where
  "config_ok s \<longleftrightarrow> (\<forall>cfg. gs_config s = Some cfg \<longrightarrow> 0 < gc_pass_threshold_bps cfg)"

lemma sdiv_nonpos: "a \<le> 0 \<Longrightarrow> 0 < b \<Longrightarrow> a sdiv b \<le> (0 :: int)"
  by (cases "a = 0") (auto simp: signed_divide_int_def pos_imp_zdiv_nonneg_iff)

lemma threshold_met_votes:
  assumes "threshold_met cfg p = Inr True" "0 < gc_pass_threshold_bps cfg"
  shows "0 < pr_votes_for p"
proof (rule ccontr)
  assume "\<not> 0 < pr_votes_for p"
  then have "pr_votes_for p * 10000 \<le> 0" by simp
  then show False
    using assms sdiv_nonpos [of "pr_votes_for p * 10000" "pr_votes_for p + pr_votes_against p"]
    by (auto simp: threshold_met_def div_i128_def split: if_splits)
qed

lemma move_steps:
  "config_ok s \<Longrightarrow> finalize_proposal env pid s = Inr s' \<Longrightarrow> gov_step (timestamp env) s s'"
  "activate_proposal env pid s = Inr s' \<Longrightarrow> gov_step (timestamp env) s s'"
  "queue_proposal env pid s = Inr s' \<Longrightarrow> gov_step (timestamp env) s s'"
  "execute_proposal env a pid s = Inr s' \<Longrightarrow> gov_step (timestamp env) s s'"
  "guardian_execute env a pid s = Inr s' \<Longrightarrow> gov_step (timestamp env) s s'"
  "cancel_proposal env a pid s = Inr s' \<Longrightarrow> gov_step (timestamp env) s s'"
proof -
  have *: "gs_proposals s pid = Some p \<Longrightarrow> proposal_move (timestamp env) p p' \<Longrightarrow> \<not> is_vote e
      \<Longrightarrow> gov_step (timestamp env) s (gov_publish e (store_proposal pid p' s))" for p p' e
    by (rule step_move) (simp_all add: gov_publish_def store_proposal_def)
  show "activate_proposal env pid s = Inr s' \<Longrightarrow> gov_step (timestamp env) s s'"
    by (auto simp: activate_proposal_def load_proposal_def intro!: * move_activate)
  show "config_ok s \<Longrightarrow> finalize_proposal env pid s = Inr s' \<Longrightarrow> gov_step (timestamp env) s s'"
    by (auto simp: finalize_proposal_def load_proposal_def Let_def config_ok_def split: if_splits
        intro!: * move_finalize dest: threshold_met_votes)
  show "queue_proposal env pid s = Inr s' \<Longrightarrow> gov_step (timestamp env) s s'"
    by (auto simp: queue_proposal_def load_proposal_def intro!: * move_queue)
  show "execute_proposal env a pid s = Inr s' \<Longrightarrow> gov_step (timestamp env) s s'"
    by (auto simp: execute_proposal_def load_proposal_def intro!: * move_execute)
  show "guardian_execute env a pid s = Inr s' \<Longrightarrow> gov_step (timestamp env) s s'"
    by (auto simp: guardian_execute_def load_proposal_def intro!: * move_emergency)
  show "cancel_proposal env a pid s = Inr s' \<Longrightarrow> gov_step (timestamp env) s s'"
    by (auto simp: cancel_proposal_def load_proposal_def intro!: * move_cancel)
qed

lemma create_step:
  assumes "create_proposal env a t ti de ta ca s = Inr (pid, s')"
  shows "gov_step (timestamp env) s s'"
  by (rule step_create [where pid = pid and p = "the (gs_proposals s' pid)" and e = "EvProposalCreated pid a t"])
    (use assms in \<open>auto simp: create_proposal_def gov_publish_def store_proposal_def Let_def\<close>)

lemma vote_step:
  assumes "cast_vote env v pid ch s = Inr s'"
  shows "gov_step (timestamp env) s s'"
proof -
  obtain p n r p' where "gs_proposals s pid = Some p" "pr_status p = GActive"
    "pr_start_time p \<le> timestamp env" "timestamp env \<le> pr_end_time p" "gs_votes s (pid, v) = None"
    "add_votes ch n p = Inr p'"
    "s' = gov_publish (EvVoteCast pid v ch n)
       (store_proposal pid p' (s\<lparr> gs_votes := (gs_votes s)((pid, v) \<mapsto> r) \<rparr>))"
    using assms unfolding cast_vote_def load_proposal_def Let_def by auto
  then show ?thesis
    by (intro step_vote [where pid = pid and p = p and n = n and p' = p' and v = v and ch = ch and r = r])
      (simp_all add: gov_publish_def store_proposal_def)
qed

lemma gov_exec_refines: "config_ok s \<Longrightarrow> gov_exec env c s = Inr s' \<Longrightarrow> gov_step (timestamp env) s s'"
  by (cases c)
    (auto intro: gov_frames [THEN frame_step] config_steps move_steps create_step vote_step)

text \<open>The votes of a choice and the voters of a proposal, read off the published events.\<close>

fun vote_in :: "nat \<Rightarrow> vote_choice \<Rightarrow> gov_event \<Rightarrow> int" where
  "vote_in pid choice (EvVoteCast i v c n) = (if i = pid \<and> c = choice then n else 0)"
| "vote_in pid choice _ = 0"

fun voter_in :: "nat \<Rightarrow> gov_event \<Rightarrow> address option" where
  "voter_in pid (EvVoteCast i v c n) = (if i = pid then Some v else None)"
| "voter_in pid _ = None"

definition votes_cast :: "nat \<Rightarrow> vote_choice \<Rightarrow> gov_event list \<Rightarrow> int" where
  "votes_cast pid choice evs = sum_list (map (vote_in pid choice) evs)"

definition voters :: "nat \<Rightarrow> gov_event list \<Rightarrow> address list" where
  "voters pid evs = List.map_filter (voter_in pid) evs"

lemma votes_cast_append [simp]:
  "votes_cast pid c (evs @ [e]) = votes_cast pid c evs + vote_in pid c e"
  by (simp add: votes_cast_def)

lemma voters_append [simp]:
  "voters pid (evs @ [e]) = voters pid evs @ (case voter_in pid e of None \<Rightarrow> [] | Some v \<Rightarrow> [v])"
  by (auto simp: voters_def List.map_filter_def split: option.splits)

lemma votes_cast_empty: "voters pid evs = [] \<Longrightarrow> votes_cast pid c evs = 0"
proof (induction evs)
  case (Cons e evs)
  then show ?case by (cases e) (auto simp: votes_cast_def voters_def List.map_filter_def split: if_splits)
qed (simp add: votes_cast_def)

definition tally_ok :: "gov_state \<Rightarrow> nat \<Rightarrow> bool" where
  "tally_ok s pid \<longleftrightarrow>
     distinct (voters pid (gs_events s)) \<and>
     set (voters pid (gs_events s)) = {v. gs_votes s (pid, v) \<noteq> None} \<and>
     (case gs_proposals s pid of
        None \<Rightarrow> voters pid (gs_events s) = []
      | Some p \<Rightarrow> pr_id p = pid \<and> (\<exists>n. gs_proposal_count s = Some n \<and> pid < n)
          \<and> pr_votes_for p = votes_cast pid VFor (gs_events s)
          \<and> pr_votes_against p = votes_cast pid VAgainst (gs_events s)
          \<and> pr_votes_abstain p = votes_cast pid VAbstain (gs_events s))"

definition passed_ok :: "proposal \<Rightarrow> bool" where
  "passed_ok p \<longleftrightarrow>
     (pr_status p = GPassed \<or> pr_status p = GQueued \<or> pr_status p = GExecuted \<and> pr_type p \<noteq> EmergencyPause
        \<longrightarrow> 0 < pr_votes_for p)
     \<and> (pr_status p = GExecuted \<and> pr_type p \<noteq> EmergencyPause \<longrightarrow> pr_execute_after p \<le> pr_executed_at p)"

definition gov_inv :: "gov_state \<Rightarrow> bool" where
  "gov_inv s \<longleftrightarrow> (\<forall>pid p. gs_proposals s pid = Some p \<longrightarrow> passed_ok p) \<and> (\<forall>pid. tally_ok s pid) \<and> (gs_admin s = None \<longrightarrow> gs_proposal_count s = None)"

lemma gov_inv_start: "gov_inv gov_start"
  by (simp add: gov_inv_def tally_ok_def gov_start_def passed_ok_def voters_def List.map_filter_def)

lemma non_vote [simp]: "\<not> is_vote e \<Longrightarrow> vote_in pid c e = 0" "\<not> is_vote e \<Longrightarrow> voter_in pid e = None"
  by (cases e; simp)+

lemma quiet_log:
  "list_all (\<lambda>e. \<not> is_vote e) es \<Longrightarrow> voters pid (evs @ es) = voters pid evs"
  "list_all (\<lambda>e. \<not> is_vote e) es \<Longrightarrow> votes_cast pid c (evs @ es) = votes_cast pid c evs"
  by (induction es) (auto simp: voters_def votes_cast_def List.map_filter_def)

lemma move_keeps:
  "proposal_move now p p' \<Longrightarrow> pr_id p' = pr_id p \<and> pr_votes_for p' = pr_votes_for p
     \<and> pr_votes_against p' = pr_votes_against p \<and> pr_votes_abstain p' = pr_votes_abstain p"
  by (auto elim: proposal_move.cases)

lemma add_votes_tally:
  "add_votes ch n p = Inr p' \<Longrightarrow> pr_id p' = pr_id p
     \<and> pr_votes_for p' = pr_votes_for p + (if ch = VFor then n else 0)
     \<and> pr_votes_against p' = pr_votes_against p + (if ch = VAgainst then n else 0)
     \<and> pr_votes_abstain p' = pr_votes_abstain p + (if ch = VAbstain then n else 0)"
  by (cases ch) (auto simp: add_votes_def)

lemma gov_inv_step:
  assumes inv: "gov_inv s" and step: "gov_step now s s'"
  shows "gov_inv s'"
  using step
proof cases
  case (step_quiet es)
  have "tally_ok s' q" for q
  proof -
    have "tally_ok s q" "gs_admin s = None \<longrightarrow> gs_proposal_count s = None"
      using inv by (auto simp: gov_inv_def)
    then show ?thesis
      using step_quiet by (cases "gs_proposals s q") (auto simp: tally_ok_def quiet_log count_ok_def)
  qed
  with inv step_quiet show ?thesis by (auto simp: gov_inv_def count_ok_def)
next
  case (step_create pid p e)
  have "gs_proposals s pid = None"
    using inv step_create(1) by (auto simp: gov_inv_def tally_ok_def split: option.splits)
  moreover have "tally_ok s pid" using inv by (simp add: gov_inv_def)
  ultimately have none: "voters pid (gs_events s) = []" by (simp add: tally_ok_def)
  have "tally_ok s' q" for q
  proof -
    have "tally_ok s q" using inv by (simp add: gov_inv_def)
    then show ?thesis
      using step_create none by (cases "q = pid") (auto simp: tally_ok_def votes_cast_empty split: option.splits)
  qed
  with inv step_create show ?thesis by (auto simp: gov_inv_def passed_ok_def)
next
  case (step_move pid p p' e)
  note keeps = move_keeps [OF step_move(2)]
  have "tally_ok s' q" for q
  proof -
    have "tally_ok s q" using inv by (simp add: gov_inv_def)
    then show ?thesis
      using step_move keeps by (cases "q = pid") (auto simp: tally_ok_def split: option.splits)
  qed
  moreover have "passed_ok p'"
    using inv step_move(1,2) by (auto simp: gov_inv_def passed_ok_def elim!: proposal_move.cases)
  ultimately show ?thesis using inv step_move by (auto simp: gov_inv_def)
next
  case (step_vote pid p v ch n p' r)
  note adds = add_votes_tally [OF step_vote(6)]
  have "tally_ok s pid" using inv by (simp add: gov_inv_def)
  then have "tally_ok s' pid"
    using step_vote adds by (cases ch) (auto simp: tally_ok_def split: option.splits)
  moreover have "tally_ok s' q" if "q \<noteq> pid" for q
  proof -
    have "tally_ok s q" using inv by (simp add: gov_inv_def)
    then show ?thesis using that step_vote by (auto simp: tally_ok_def split: option.splits)
  qed
  ultimately have "tally_ok s' q" for q by (cases "q = pid") auto
  moreover have "pr_status p' = GActive"
    using step_vote(2,6) by (cases ch) (auto simp: add_votes_def)
  then have "passed_ok p'" by (simp add: passed_ok_def)
  ultimately show ?thesis using inv step_vote by (auto simp: gov_inv_def)
qed

lemma config_ok_step:
  assumes "config_ok s" "gov_exec env c s = Inr s'"
  shows "config_ok s'"
proof -
  have same: "gs_config s' = gs_config s \<Longrightarrow> config_ok s'" using assms(1) by (simp add: config_ok_def)
  show ?thesis
  proof (cases "(\<exists>a cfg. c = GInitialize a cfg) \<or> (\<exists>cfg. c = UpdateConfig cfg)")
    case True
    with assms(2) show ?thesis
      by (auto simp: gov_initialize_def update_config_def config_ok_def gov_publish_def Let_def
          validate_governance_params_def)
  next
    case False
    have "remove_delegation_internal a s = Inr s1 \<Longrightarrow> gs_config s1 = gs_config s" for a s1
      by (auto simp: remove_delegation_internal_def split: option.splits)
    with False assms(2) show ?thesis
      by (cases c)
        (force intro!: same simp: set_voting_power_def add_guardian_def remove_guardian_def delegate_votes_def
          undelegate_votes_def create_proposal_def activate_proposal_def cast_vote_def
          finalize_proposal_def queue_proposal_def execute_proposal_def guardian_approve_def
          guardian_execute_def cancel_proposal_def gov_publish_def store_proposal_def Let_def
          split: if_splits)+
  qed
qed

interpretation gov: contract_invariant gov_exec "\<lambda>s. s = gov_start" "\<lambda>_. True"
  "\<lambda>s. config_ok s \<and> gov_inv s"
proof unfold_locales
  show "s = gov_start \<Longrightarrow> config_ok s \<and> gov_inv s" for s
    using gov_inv_start by (simp add: config_ok_def) (simp add: gov_start_def)
qed (blast intro: config_ok_step gov_inv_step gov_exec_refines)

lemma gov_reachable:
  "config_ok (run gov_exec gov_start h)" "gov_inv (run gov_exec gov_start h)"
  using gov.run_inv [of gov_start h] by (simp_all add: list_all_iff)

section \<open>Progress of a proposal\<close>

text \<open>What later calls may still do to a proposal: its content is fixed at creation, its status
  only moves forward, the tally is frozen once voting is over, and a proposal in a final status
  does not change at all.\<close>

fun status_reach :: "proposal_status \<Rightarrow> proposal_status \<Rightarrow> bool" where
  "status_reach GPending b = True"
| "status_reach GActive b = (b \<noteq> GPending)"
| "status_reach GPassed b = (b \<in> {GPassed, GQueued, GExecuted, GCancelled})"
| "status_reach GQueued b = (b \<in> {GQueued, GExecuted, GCancelled})"
| "status_reach a b = (a = b)"

definition proposal_later :: "proposal \<Rightarrow> proposal \<Rightarrow> bool" where
  "proposal_later p p' \<longleftrightarrow>
     pr_id p' = pr_id p \<and> pr_proposer p' = pr_proposer p \<and> pr_type p' = pr_type p
     \<and> pr_title p' = pr_title p \<and> pr_description p' = pr_description p
     \<and> pr_target_contract p' = pr_target_contract p \<and> pr_calldata p' = pr_calldata p
     \<and> pr_deposit p' = pr_deposit p \<and> pr_start_time p' = pr_start_time p
     \<and> pr_end_time p' = pr_end_time p \<and> pr_created_at p' = pr_created_at p
     \<and> status_reach (pr_status p) (pr_status p')
     \<and> (pr_status p \<notin> {GPending, GActive} \<longrightarrow> pr_votes_for p' = pr_votes_for p
          \<and> pr_votes_against p' = pr_votes_against p \<and> pr_votes_abstain p' = pr_votes_abstain p)
     \<and> (pr_status p \<in> {GFailed, GExecuted, GCancelled} \<longrightarrow> p' = p)"

lemma status_reach_refl [simp]: "status_reach a a"
  by (cases a) auto

lemma status_reach_trans: "status_reach a b \<Longrightarrow> status_reach b c \<Longrightarrow> status_reach a c"
  by (cases a; cases b) auto

lemma proposal_later_refl: "proposal_later p p"
  by (simp add: proposal_later_def)

lemma proposal_later_trans:
  assumes "proposal_later p q" "proposal_later q r"
  shows "proposal_later p r"
proof -
  have "status_reach (pr_status p) (pr_status r)"
    using assms by (auto simp: proposal_later_def intro: status_reach_trans)
  moreover have "pr_status p \<notin> {GPending, GActive} \<Longrightarrow> pr_status q \<notin> {GPending, GActive}"
    using assms(1) by (cases "pr_status p") (auto simp: proposal_later_def)
  ultimately show ?thesis using assms by (auto simp: proposal_later_def)
qed

lemma move_later: "proposal_move now p p' \<Longrightarrow> proposal_later p p'"
  by (erule proposal_move.cases) (auto simp: proposal_later_def)

lemma add_votes_later: "pr_status p = GActive \<Longrightarrow> add_votes ch n p = Inr p' \<Longrightarrow> proposal_later p p'"
  by (cases ch) (auto simp: proposal_later_def add_votes_def)

definition proposals_later :: "gov_state \<Rightarrow> gov_state \<Rightarrow> bool" where
  "proposals_later s s' \<longleftrightarrow> (\<forall>pid p. gs_proposals s pid = Some p \<longrightarrow>
     (\<exists>p'. gs_proposals s' pid = Some p' \<and> proposal_later p p'))"

lemma gov_step_later:
  assumes inv: "gov_inv s" and step: "gov_step now s s'"
  shows "proposals_later s s'"
  using step
proof cases
  case (step_quiet es)
  then show ?thesis by (simp add: proposals_later_def proposal_later_refl)
next
  case (step_create pid p e)
  have "tally_ok s pid" using inv by (simp add: gov_inv_def)
  then have "gs_proposals s pid = None"
    using step_create(1) by (auto simp: tally_ok_def split: option.splits)
  with step_create show ?thesis by (auto simp: proposals_later_def proposal_later_refl)
next
  case (step_move pid p p' e)
  with move_later show ?thesis by (auto simp: proposals_later_def proposal_later_refl)
next
  case (step_vote pid p v ch n p' r)
  with add_votes_later show ?thesis by (auto simp: proposals_later_def proposal_later_refl)
qed

interpretation gov_progress: contract_progress gov_exec "\<lambda>s. config_ok s \<and> gov_inv s" proposals_later
proof unfold_locales
  show "proposals_later s s" for s by (simp add: proposals_later_def proposal_later_refl)
  show "proposals_later s u" if "proposals_later s t" "proposals_later t u" for s t u
    using that unfolding proposals_later_def by (meson proposal_later_trans)
qed (blast intro: config_ok_step gov_inv_step gov_exec_refines gov_step_later)+

section \<open>The books: supply, guardians, approvals\<close>

text \<open>Every stored counter is the size of what it counts.\<close>

definition gov_books :: "gov_state \<Rightarrow> bool" where
  "gov_books s \<longleftrightarrow>
     finite (dom (gs_voting_power s)) \<and> finite {g. gs_guardian s g = Some True}
     \<and> (\<forall>pid. finite {g. gs_approval s (pid, g) = Some True})
     \<and> unwrap_or (gs_total_supply s) 0 = (\<Sum>v\<in>dom (gs_voting_power s). raw_power s v)
     \<and> (\<forall>v. 0 \<le> raw_power s v)
     \<and> unwrap_or (gs_guardian_count s) 0 = card {g. gs_guardian s g = Some True}
     \<and> (\<forall>pid. unwrap_or (gs_approval_count s pid) 0 = card {g. gs_approval s (pid, g) = Some True})
     \<and> (gs_admin s = None \<longrightarrow> dom (gs_voting_power s) = {} \<and> {g. gs_guardian s g = Some True} = {})"

definition same_books :: "gov_state \<Rightarrow> gov_state \<Rightarrow> bool" where
  "same_books s s' \<longleftrightarrow> gs_admin s' = gs_admin s \<and> gs_voting_power s' = gs_voting_power s
     \<and> gs_total_supply s' = gs_total_supply s \<and> gs_guardian s' = gs_guardian s
     \<and> gs_guardian_count s' = gs_guardian_count s \<and> gs_approval s' = gs_approval s
     \<and> gs_approval_count s' = gs_approval_count s"

lemma same_books_keep: "same_books s s' \<Longrightarrow> gov_books s \<Longrightarrow> gov_books s'"
  by (simp add: same_books_def gov_books_def raw_power_def)

lemma remove_delegation_books: "remove_delegation_internal a s = Inr s' \<Longrightarrow> same_books s s'"
  by (auto simp: remove_delegation_internal_def same_books_def split: option.splits)

lemma same_books_simps [simp]:
  "same_books s s" "same_books s (gov_publish e t) = same_books s t"
  "same_books s (store_proposal i p t) = same_books s t"
  "same_books s (gs_votes_update f t) = same_books s t"
  "same_books s (gs_config_update f' t) = same_books s t"
  "same_books s (gs_proposal_count_update f'' t) = same_books s t"
  "same_books s (param_event ty x y t) = same_books s t"
  by (simp_all add: same_books_def gov_publish_def store_proposal_def)

lemma proposal_ops_books:
  "delegate_votes env a b s = Inr s' \<Longrightarrow> same_books s s'"
  "undelegate_votes env a s = Inr s' \<Longrightarrow> same_books s s'"
  "create_proposal env a t ti de ta ca s = Inr (pid, s') \<Longrightarrow> same_books s s'"
  "activate_proposal env pid s = Inr s' \<Longrightarrow> same_books s s'"
  "cast_vote env a pid ch s = Inr s' \<Longrightarrow> same_books s s'"
  "finalize_proposal env pid s = Inr s' \<Longrightarrow> same_books s s'"
  "queue_proposal env pid s = Inr s' \<Longrightarrow> same_books s s'"
  "execute_proposal env a pid s = Inr s' \<Longrightarrow> same_books s s'"
  "guardian_execute env a pid s = Inr s' \<Longrightarrow> same_books s s'"
  "cancel_proposal env a pid s = Inr s' \<Longrightarrow> same_books s s'"
  "update_config env cfg s = Inr s' \<Longrightarrow> same_books s s'"
proof -
  show "delegate_votes env a b s = Inr s' \<Longrightarrow> same_books s s'"
    using remove_delegation_books [of a s] by (auto simp: delegate_votes_def Let_def same_books_def)
  show "undelegate_votes env a s = Inr s' \<Longrightarrow> same_books s s'"
    using remove_delegation_books [of a s] by (auto simp: undelegate_votes_def)
qed (auto simp: create_proposal_def activate_proposal_def cast_vote_def finalize_proposal_def
    queue_proposal_def execute_proposal_def guardian_execute_def cancel_proposal_def
    update_config_def Let_def)

lemma sum_update:
  assumes "finite (dom m)" "\<And>v. f v = unwrap_or (m v) (0 :: int)"
  shows "(\<Sum>v\<in>dom (m(a \<mapsto> n)). unwrap_or ((m(a \<mapsto> n)) v) 0) = (\<Sum>v\<in>dom m. f v) - f a + n"
proof -
  have old: "(\<Sum>v\<in>dom m. f v) = f a + (\<Sum>v\<in>dom m - {a}. f v)"
  proof (cases "a \<in> dom m")
    case True
    with assms(1) show ?thesis by (rule sum.remove)
  next
    case False
    then show ?thesis by (simp add: domIff assms(2))
  qed
  have "(\<Sum>v\<in>insert a (dom m - {a}). unwrap_or ((m(a \<mapsto> n)) v) 0)
      = n + (\<Sum>v\<in>dom m - {a}. unwrap_or ((m(a \<mapsto> n)) v) 0)"
    by (subst sum.insert) (use assms(1) in simp_all)
  also have "(\<Sum>v\<in>dom m - {a}. unwrap_or ((m(a \<mapsto> n)) v) 0) = (\<Sum>v\<in>dom m - {a}. f v)"
    by (rule sum.cong) (auto simp: assms(2))
  finally show ?thesis using old by (simp add: insert_Diff_if)
qed

lemma set_voting_power_books:
  assumes "gov_books s" "set_voting_power env a n s = Inr s'"
  shows "gov_books s'"
proof -
  from assms(2) have s': "s' = s\<lparr> gs_voting_power := (gs_voting_power s)(a \<mapsto> n),
      gs_total_supply := Some (unwrap_or (gs_total_supply s) 0 - raw_power s a + n) \<rparr>"
    and n: "0 \<le> n" "gs_admin s \<noteq> None"
    by (auto simp: set_voting_power_def Let_def raw_power_def only_admin_def)
  have raw: "raw_power s' v = unwrap_or (((gs_voting_power s)(a \<mapsto> n)) v) 0" for v
    by (simp add: s' raw_power_def)
  have "(\<Sum>v\<in>dom (gs_voting_power s'). raw_power s' v)
      = (\<Sum>v\<in>dom (gs_voting_power s). raw_power s v) - raw_power s a + n"
    unfolding raw using assms(1) sum_update [of "gs_voting_power s" "raw_power s" a n]
    by (simp add: s' gov_books_def raw_power_def del: fun_upd_apply dom_fun_upd)
  moreover have "0 \<le> raw_power s' v" for v
    using assms(1) n by (cases "v = a") (auto simp: s' gov_books_def raw_power_def)
  ultimately show ?thesis using assms(1) n by (simp add: gov_books_def s')
qed

lemma add_guardian_books:
  assumes "gov_books s" "add_guardian env a s = Inr s'"
  shows "gov_books s'"
proof (cases "gs_guardian s a = Some True")
  case True
  with assms show ?thesis by (auto simp: add_guardian_def)
next
  case False
  with assms(2) have s': "s' = s\<lparr> gs_guardian := (gs_guardian s)(a \<mapsto> True),
      gs_guardian_count := Some (unwrap_or (gs_guardian_count s) 0 + 1) \<rparr>" "gs_admin s \<noteq> None"
    by (auto simp: add_guardian_def only_admin_def unwrap_or_def split: if_splits option.splits)
  have eqs: "{x. gs_guardian s' x = Some True} = insert a {x. gs_guardian s x = Some True}"
    "unwrap_or (gs_guardian_count s') 0 = unwrap_or (gs_guardian_count s) 0 + 1"
    "gs_voting_power s' = gs_voting_power s" "gs_total_supply s' = gs_total_supply s"
    "gs_approval s' = gs_approval s" "gs_approval_count s' = gs_approval_count s"
    "gs_admin s' = gs_admin s" "raw_power s' = raw_power s"
    by (auto simp: s'(1) raw_power_def fun_eq_iff)
  show ?thesis
    using assms(1) False s'(2) unfolding gov_books_def eqs by simp
qed

lemma remove_guardian_books:
  assumes "gov_books s" "remove_guardian env a s = Inr s'"
  shows "gov_books s'"
proof (cases "gs_guardian s a = Some True")
  case False
  with assms show ?thesis
    by (auto simp: remove_guardian_def unwrap_or_def split: if_splits option.splits)
next
  case True
  with assms(2) have s': "s' = s\<lparr> gs_guardian := (gs_guardian s)(a \<mapsto> False),
      gs_guardian_count := Some (unwrap_or (gs_guardian_count s) 0 - 1) \<rparr>" "gs_admin s \<noteq> None"
    by (auto simp: remove_guardian_def only_admin_def)
  have eqs: "{x. gs_guardian s' x = Some True} = {x. gs_guardian s x = Some True} - {a}"
    "unwrap_or (gs_guardian_count s') 0 = unwrap_or (gs_guardian_count s) 0 - 1"
    "gs_voting_power s' = gs_voting_power s" "gs_total_supply s' = gs_total_supply s"
    "gs_approval s' = gs_approval s" "gs_approval_count s' = gs_approval_count s"
    "gs_admin s' = gs_admin s" "raw_power s' = raw_power s"
    by (auto simp: s'(1) raw_power_def fun_eq_iff)
  show ?thesis
    using assms(1) True s'(2) unfolding gov_books_def eqs by auto
qed

lemma guardian_approve_books:
  assumes "gov_books s" "guardian_approve env a i s = Inr s'"
  shows "gov_books s'"
proof -
  from assms(2) have s': "s' = s\<lparr> gs_approval := (gs_approval s)((i, a) \<mapsto> True),
      gs_approval_count := (gs_approval_count s)(i \<mapsto> unwrap_or (gs_approval_count s i) 0 + 1) \<rparr>"
    and new: "gs_approval s (i, a) \<noteq> Some True"
    by (auto simp: guardian_approve_def)
  have app: "{x. gs_approval s' (j, x) = Some True} =
      (if j = i then insert a {x. gs_approval s (i, x) = Some True}
       else {x. gs_approval s (j, x) = Some True})" for j
    by (auto simp: s')
  have cnt: "unwrap_or (gs_approval_count s' j) 0 = unwrap_or (gs_approval_count s j) 0 + (if j = i then 1 else 0)" for j
    by (simp add: s')
  have same: "gs_voting_power s' = gs_voting_power s" "gs_guardian s' = gs_guardian s"
    "gs_total_supply s' = gs_total_supply s" "gs_guardian_count s' = gs_guardian_count s"
    "gs_admin s' = gs_admin s" "raw_power s' = raw_power s"
    by (simp_all add: s' raw_power_def fun_eq_iff)
  show ?thesis
    using assms(1) new unfolding gov_books_def app cnt same by simp
qed

lemma gov_initialize_books: "gov_books s \<Longrightarrow> gov_initialize env a cfg s = Inr s' \<Longrightarrow> gov_books s'"
  by (auto simp: gov_initialize_def gov_books_def gov_publish_def raw_power_def)

lemma gov_books_step: "gov_books s \<Longrightarrow> gov_exec env c s = Inr s' \<Longrightarrow> gov_books s'"
  by (cases c) (auto intro: proposal_ops_books [THEN same_books_keep] set_voting_power_books
      add_guardian_books remove_guardian_books guardian_approve_books gov_initialize_books)

interpretation gov_book: contract_invariant gov_exec "\<lambda>s. s = gov_start" "\<lambda>_. True" gov_books
proof unfold_locales
  show "s = gov_start \<Longrightarrow> gov_books s" for s
    by (simp add: gov_books_def gov_start_def raw_power_def)
qed (rule gov_books_step)

lemma gov_books_reachable: "gov_books (run gov_exec gov_start h)"
  by (rule gov_book.run_inv) (simp_all add: list_all_iff)

section \<open>Delegation\<close>

text \<open>As long as no voting power is reset, what a delegate has received is the raw power of its
  delegators.\<close>

definition delegators :: "gov_state \<Rightarrow> address \<Rightarrow> address set" where
  "delegators s d = {u. gs_delegation s u = Some d}"

definition delegation_ok :: "gov_state \<Rightarrow> bool" where
  "delegation_ok s \<longleftrightarrow> (\<forall>v. 0 \<le> raw_power s v)
     \<and> (\<forall>d. finite (delegators s d) \<and> received_power s d = (\<Sum>u\<in>delegators s d. raw_power s u))"

definition same_delegation :: "gov_state \<Rightarrow> gov_state \<Rightarrow> bool" where
  "same_delegation s s' \<longleftrightarrow> gs_voting_power s' = gs_voting_power s \<and> gs_delegation s' = gs_delegation s
     \<and> gs_delegated_power s' = gs_delegated_power s"

lemma same_delegation_keep: "same_delegation s s' \<Longrightarrow> delegation_ok s \<Longrightarrow> delegation_ok s'"
  by (simp add: same_delegation_def delegation_ok_def raw_power_def received_power_def delegators_def)

lemma same_delegation_simps [simp]:
  "same_delegation s s" "same_delegation s (gov_publish e t) = same_delegation s t"
  "same_delegation s (store_proposal i p t) = same_delegation s t"
  "same_delegation s (gs_votes_update f t) = same_delegation s t"
  "same_delegation s (gs_config_update f1 t) = same_delegation s t"
  "same_delegation s (gs_proposal_count_update f2 t) = same_delegation s t"
  "same_delegation s (gs_guardian_update f3 t) = same_delegation s t"
  "same_delegation s (gs_guardian_count_update f4 t) = same_delegation s t"
  "same_delegation s (gs_approval_update f5 t) = same_delegation s t"
  "same_delegation s (gs_approval_count_update f6 t) = same_delegation s t"
  "same_delegation s (gs_admin_update f7 t) = same_delegation s t"
  "same_delegation s (gs_total_supply_update f8 t) = same_delegation s t"
  "same_delegation s (param_event ty x y t) = same_delegation s t"
  by (simp_all add: same_delegation_def gov_publish_def store_proposal_def)

lemma other_ops_delegation:
  "gov_initialize env a cfg s = Inr s' \<Longrightarrow> same_delegation s s'"
  "add_guardian env a s = Inr s' \<Longrightarrow> same_delegation s s'"
  "remove_guardian env a s = Inr s' \<Longrightarrow> same_delegation s s'"
  "create_proposal env a t ti de ta ca s = Inr (pid, s') \<Longrightarrow> same_delegation s s'"
  "activate_proposal env pid s = Inr s' \<Longrightarrow> same_delegation s s'"
  "cast_vote env a pid ch s = Inr s' \<Longrightarrow> same_delegation s s'"
  "finalize_proposal env pid s = Inr s' \<Longrightarrow> same_delegation s s'"
  "queue_proposal env pid s = Inr s' \<Longrightarrow> same_delegation s s'"
  "execute_proposal env a pid s = Inr s' \<Longrightarrow> same_delegation s s'"
  "guardian_approve env a pid s = Inr s' \<Longrightarrow> same_delegation s s'"
  "guardian_execute env a pid s = Inr s' \<Longrightarrow> same_delegation s s'"
  "cancel_proposal env a pid s = Inr s' \<Longrightarrow> same_delegation s s'"
  "update_config env cfg s = Inr s' \<Longrightarrow> same_delegation s s'"
  by (auto simp: gov_initialize_def add_guardian_def remove_guardian_def create_proposal_def
      activate_proposal_def cast_vote_def finalize_proposal_def
      queue_proposal_def execute_proposal_def guardian_approve_def guardian_execute_def
      cancel_proposal_def update_config_def Let_def split: if_splits)

lemma remove_delegation_ok:
  assumes "delegation_ok s" "remove_delegation_internal a s = Inr s'"
  shows "delegation_ok s'" "gs_delegation s' a = None" "raw_power s' = raw_power s"
proof -
  show "gs_delegation s' a = None" and raw: "raw_power s' = raw_power s"
    using assms(2) by (auto simp: remove_delegation_internal_def raw_power_def fun_eq_iff split: option.splits)
  show "delegation_ok s'"
  proof (cases "gs_delegation s a")
    case None
    with assms show ?thesis by (simp add: remove_delegation_internal_def)
  next
    case (Some e)
    with assms(2) have s': "s' = s\<lparr> gs_delegated_power := (gs_delegated_power s)(e \<mapsto> max (received_power s e - raw_power s a) 0),
        gs_delegation := (gs_delegation s)(a := None) \<rparr>"
      by (auto simp: remove_delegation_internal_def)
    have mem: "a \<in> delegators s e" using Some by (simp add: delegators_def)
    have set: "delegators s' d = (if d = e then delegators s e - {a} else delegators s d)" for d
      using Some by (auto simp: s' delegators_def)
    have rest: "received_power s e = raw_power s a + (\<Sum>u\<in>delegators s e - {a}. raw_power s u)"
      using assms(1) mem by (simp add: delegation_ok_def sum.remove)
    have "0 \<le> (\<Sum>u\<in>delegators s e - {a}. raw_power s u)"
      using assms(1) by (intro sum_nonneg) (simp add: delegation_ok_def)
    with rest have rec: "received_power s' d = (if d = e then (\<Sum>u\<in>delegators s e - {a}. raw_power s u)
        else received_power s d)" for d
      by (simp add: s' received_power_def)
    show ?thesis using assms(1) unfolding delegation_ok_def raw set rec by simp
  qed
qed

lemma delegate_votes_ok:
  assumes "delegation_ok s" "delegate_votes env a e s = Inr s'"
  shows "delegation_ok s'"
proof -
  obtain s1 where s1: "remove_delegation_internal a s = Inr s1"
    and s': "s' = s1\<lparr> gs_delegation := (gs_delegation s1)(a \<mapsto> e),
      gs_delegated_power := (gs_delegated_power s1)(e \<mapsto> received_power s1 e + raw_power s1 a) \<rparr>"
    using assms(2) by (auto simp: delegate_votes_def Let_def received_power_def)
  note ok = remove_delegation_ok [OF assms(1) s1]
  have raw: "raw_power s' = raw_power s1" by (simp add: s' raw_power_def fun_eq_iff)
  have set: "delegators s' d = (if d = e then insert a (delegators s1 e) else delegators s1 d)" for d
    using ok(2) by (auto simp: s' delegators_def)
  have new: "a \<notin> delegators s1 e" using ok(2) by (simp add: delegators_def)
  have rec: "received_power s' d = (if d = e then received_power s1 e + raw_power s1 a else received_power s1 d)" for d
    by (simp add: s' received_power_def)
  show ?thesis using ok(1) new unfolding delegation_ok_def raw set rec by simp
qed

fun resets_power :: "gov_call \<Rightarrow> bool" where
  "resets_power (SetVotingPower _ _) = True"
| "resets_power _ = False"

fun delegates :: "gov_call \<Rightarrow> bool" where
  "delegates (DelegateVotes _ _) = True"
| "delegates _ = False"

lemma delegation_ok_step:
  "delegation_ok s \<Longrightarrow> \<not> resets_power c \<Longrightarrow> gov_exec env c s = Inr s' \<Longrightarrow> delegation_ok s'"
  by (cases c) (auto simp: undelegate_votes_def intro: other_ops_delegation [THEN same_delegation_keep]
      delegate_votes_ok remove_delegation_ok(1))

definition undelegated :: "gov_state \<Rightarrow> bool" where
  "undelegated s \<longleftrightarrow> (\<forall>v. gs_delegation s v = None \<and> gs_delegated_power s v = None) \<and> (\<forall>v. 0 \<le> raw_power s v)"

lemma undelegated_ok: "undelegated s \<Longrightarrow> delegation_ok s"
  by (simp add: undelegated_def delegation_ok_def delegators_def received_power_def)

lemma undelegated_step:
  assumes "undelegated s" "\<not> delegates c" "gov_exec env c s = Inr s'"
  shows "undelegated s'"
proof -
  have same: "same_delegation s s' \<Longrightarrow> undelegated s'"
    using assms(1) by (simp add: same_delegation_def undelegated_def raw_power_def)
  show ?thesis
  proof (cases c)
    case (SetVotingPower v n)
    with assms show ?thesis
      by (auto simp: set_voting_power_def undelegated_def raw_power_def Let_def)
  next
    case (UndelegateVotes d)
    with assms show ?thesis
      by (auto simp: undelegate_votes_def undelegated_def remove_delegation_internal_def)
  qed (use assms(2,3) same in \<open>auto intro: other_ops_delegation\<close>)
qed

interpretation gov_setup: contract_invariant gov_exec "\<lambda>s. s = gov_start" "\<lambda>c. \<not> delegates c" undelegated
proof unfold_locales
  show "s = gov_start \<Longrightarrow> undelegated s" for s
    by (simp add: undelegated_def gov_start_def raw_power_def)
qed (rule undelegated_step)

interpretation gov_delegation: contract_invariant gov_exec undelegated "\<lambda>c. \<not> resets_power c" delegation_ok
  by unfold_locales (auto intro: undelegated_ok delegation_ok_step)

section \<open>Properties\<close>

definition demo_gov_env :: "nat \<Rightarrow> env" where
  "demo_gov_env t = \<lparr> timestamp = t, auths = [''admin'', ''alice'', ''bob'', ''carol''] \<rparr>"

definition demo_gov_config :: gov_config where
  "demo_gov_config = \<lparr> gc_timelock_delay = 50, gc_voting_period = 100, gc_voting_delay = 10,
     gc_quorum_bps = 1000, gc_pass_threshold_bps = 5000, gc_proposal_deposit = 1,
     gc_use_quadratic = True, gc_guardian_threshold = 2 \<rparr>"

text \<open>A set-up without delegations, and a life of two proposals.\<close>

definition demo_gov_setup :: "(env \<times> gov_call) list" where
  "demo_gov_setup =
    [(demo_gov_env 0, GInitialize ''admin'' demo_gov_config),
     (demo_gov_env 0, SetVotingPower ''alice'' 100), (demo_gov_env 0, SetVotingPower ''bob'' 30),
     (demo_gov_env 0, AddGuardian ''bob''), (demo_gov_env 0, AddGuardian ''carol'')]"

definition demo_gov_life :: "(env \<times> gov_call) list" where
  "demo_gov_life =
    [(demo_gov_env 5, CreateProposal ''alice'' ParameterChange ''t'' ''d'' ''target'' ''x''),
     (demo_gov_env 5, CreateProposal ''alice'' EmergencyPause ''t'' ''d'' ''target'' ''x''),
     (demo_gov_env 20, ActivateProposal 0), (demo_gov_env 20, ActivateProposal 1),
     (demo_gov_env 20, CastVote ''alice'' 0 VFor), (demo_gov_env 21, CastVote ''bob'' 0 VAgainst)]"

definition demo_gov_end :: "(env \<times> gov_call) list" where
  "demo_gov_end =
    [(demo_gov_env 200, FinalizeProposal 0), (demo_gov_env 200, QueueProposal 0),
     (demo_gov_env 260, ExecuteProposal ''carol'' 0),
     (demo_gov_env 260, GuardianApprove ''bob'' 1), (demo_gov_env 260, GuardianApprove ''carol'' 1)]"

text \<open>C33: in every history, the three tallies of a proposal are the sums of the effective votes
  published for it, and no voter has voted on it twice.\<close>

theorem gov_tally_exact:
  assumes "gs_proposals (run gov_exec gov_start h) pid = Some p"
  shows "pr_votes_for p = votes_cast pid VFor (gs_events (run gov_exec gov_start h))
    \<and> pr_votes_against p = votes_cast pid VAgainst (gs_events (run gov_exec gov_start h))
    \<and> pr_votes_abstain p = votes_cast pid VAbstain (gs_events (run gov_exec gov_start h))
    \<and> distinct (voters pid (gs_events (run gov_exec gov_start h)))"
proof -
  have "tally_ok (run gov_exec gov_start h) pid" using gov_reachable(2) [of h] by (simp add: gov_inv_def)
  with assms show ?thesis by (simp add: tally_ok_def)
qed

lemma gov_tally_exact_witness:
  "votes_cast 0 VFor (gs_events (run gov_exec gov_start (demo_gov_setup @ demo_gov_life))) = 10"
proof -
  have "map_option pr_votes_for (gs_proposals (run gov_exec gov_start (demo_gov_setup @ demo_gov_life)) 0) = Some 10"
    by code_simp
  then obtain p where "gs_proposals (run gov_exec gov_start (demo_gov_setup @ demo_gov_life)) 0 = Some p"
    "pr_votes_for p = 10" by (auto simp only: map_option_eq_Some)
  with gov_tally_exact [OF this(1)] show ?thesis by simp
qed

text \<open>C36: whatever calls come later, a proposal keeps its content and its voting window, its
  status only moves forward along the lifecycle, its tally is frozen once voting is over, and a
  failed, executed or cancelled proposal never changes again.\<close>

theorem gov_proposal_progress:
  assumes "gs_proposals (run gov_exec gov_start h) pid = Some p"
  shows "\<exists>p'. gs_proposals (run gov_exec gov_start (h @ h')) pid = Some p' \<and> proposal_later p p'"
proof -
  have "proposals_later (run gov_exec gov_start h) (run gov_exec (run gov_exec gov_start h) h')"
    using gov_reachable [of h] by (intro gov_progress.run_rel) simp
  with assms show ?thesis by (simp add: proposals_later_def run_append)
qed

lemma gov_proposal_progress_witness:
  "\<exists>p p'. gs_proposals (run gov_exec gov_start (demo_gov_setup @ demo_gov_life)) 0 = Some p
     \<and> gs_proposals (run gov_exec gov_start ((demo_gov_setup @ demo_gov_life) @ demo_gov_end)) 0 = Some p'
     \<and> proposal_later p p'"
proof -
  have "gs_proposals (run gov_exec gov_start (demo_gov_setup @ demo_gov_life)) 0 \<noteq> None" by code_simp
  then obtain p where p: "gs_proposals (run gov_exec gov_start (demo_gov_setup @ demo_gov_life)) 0 = Some p"
    by blast
  with gov_proposal_progress [OF p, of demo_gov_end] show ?thesis by blast
qed

text \<open>Also: a proposal that is not an emergency pause and has been executed was voted for, and was
  executed no earlier than its timelock allowed.\<close>

theorem gov_executed_was_passed:
  assumes "gs_proposals (run gov_exec gov_start h) pid = Some p"
    and "pr_status p = GExecuted" "pr_type p \<noteq> EmergencyPause"
  shows "0 < pr_votes_for p \<and> pr_execute_after p \<le> pr_executed_at p"
  using gov_reachable(2) [of h] assms by (auto simp: gov_inv_def passed_ok_def)

lemma gov_executed_was_passed_witness:
  "\<exists>p. gs_proposals (run gov_exec gov_start (demo_gov_setup @ demo_gov_life @ demo_gov_end)) 0 = Some p
     \<and> pr_status p = GExecuted \<and> 0 < pr_votes_for p \<and> pr_execute_after p \<le> pr_executed_at p"
proof -
  have "map_option (\<lambda>p. (pr_status p, pr_type p))
      (gs_proposals (run gov_exec gov_start (demo_gov_setup @ demo_gov_life @ demo_gov_end)) 0)
      = Some (GExecuted, ParameterChange)"
    by code_simp
  then obtain p where p: "gs_proposals (run gov_exec gov_start (demo_gov_setup @ demo_gov_life @ demo_gov_end)) 0 = Some p"
    "pr_status p = GExecuted" "pr_type p \<noteq> EmergencyPause"
    by auto
  with gov_executed_was_passed [OF p] show ?thesis by blast
qed

text \<open>Also: in every reachable state the total supply is the sum of the registered voting powers,
  the guardian count is the number of guardians, and the approval count of a proposal is the
  number of distinct addresses that approved it.\<close>

theorem gov_books_balance:
  "total_supply (run gov_exec gov_start h)
      = (\<Sum>v\<in>dom (gs_voting_power (run gov_exec gov_start h)). raw_power (run gov_exec gov_start h) v)
    \<and> unwrap_or (gs_guardian_count (run gov_exec gov_start h)) 0
      = card {g. is_guardian g (run gov_exec gov_start h)}
    \<and> get_guardian_approvals pid (run gov_exec gov_start h)
      = card {g. gs_approval (run gov_exec gov_start h) (pid, g) = Some True}"
proof -
  have "is_guardian g s \<longleftrightarrow> gs_guardian s g = Some True" for g s
    by (simp add: is_guardian_def unwrap_or_def split: option.splits)
  then show ?thesis
    using gov_books_reachable [of h]
    by (simp add: gov_books_def total_supply_def get_guardian_approvals_def)
qed

text \<open>Also: in every reachable state the emergency path succeeds exactly for an authorised guardian
  and an emergency proposal that is active, passed or queued and that at least the threshold of
  distinct guardians have approved; it is then executed at the time of the call.\<close>

theorem guardian_execute_iff:
  "let s = run gov_exec gov_start h in guardian_execute env a pid s = Inr s' \<longleftrightarrow>
    (\<exists>cfg p. gs_config s = Some cfg \<and> gs_proposals s pid = Some p \<and> a \<in> set (auths env)
       \<and> is_guardian a s \<and> pr_type p = EmergencyPause \<and> pr_status p \<in> {GActive, GPassed, GQueued}
       \<and> gc_guardian_threshold cfg \<le> card {g. gs_approval s (pid, g) = Some True}
       \<and> s' = gov_publish (EvProposalExecuted pid True)
           (store_proposal pid (p\<lparr> pr_status := GExecuted, pr_executed_at := timestamp env \<rparr>) s))"
proof -
  have "unwrap_or (gs_approval_count (run gov_exec gov_start h) pid) 0
      = card {g. gs_approval (run gov_exec gov_start h) (pid, g) = Some True}"
    using gov_books_reachable [of h] by (simp add: gov_books_def)
  then show ?thesis
    by (auto simp: Let_def guardian_execute_def load_proposal_def is_guardian_def)
qed

text \<open>Also: while voting powers are set up before the first delegation and not reset afterwards,
  the effective power of an address is its own power unless it delegated it, plus exactly the
  raw powers of its delegators, under any sequence of delegations and undelegations.\<close>

theorem effective_power_is_delegated_sum:
  assumes "list_all (\<lambda>ec. \<not> delegates (snd ec)) setup" "list_all (\<lambda>ec. \<not> resets_power (snd ec)) h"
  shows "let s = run gov_exec gov_start (setup @ h) in effective_power s v =
    add_i128 (if gs_delegation s v = None then raw_power s v else 0)
      (\<Sum>u | gs_delegation s u = Some v. raw_power s u)"
proof -
  have "undelegated (run gov_exec gov_start setup)"
    using assms(1) by (intro gov_setup.run_inv) (simp_all add: comp_def)
  then have "delegation_ok (run gov_exec gov_start (setup @ h))"
    using assms(2) unfolding run_append by (intro gov_delegation.run_inv) (simp_all add: comp_def)
  then show ?thesis by (simp add: Let_def effective_power_def delegation_ok_def delegators_def)
qed

lemma effective_power_is_delegated_sum_witness:
  "effective_power (run gov_exec gov_start (demo_gov_setup @ [(demo_gov_env 1, DelegateVotes ''alice'' ''bob'')])) ''bob''
     = Inr 130 \<and>
   effective_power (run gov_exec gov_start (demo_gov_setup @ [(demo_gov_env 1, DelegateVotes ''alice'' ''bob'')])) ''carol''
     = add_i128 (if gs_delegation (run gov_exec gov_start (demo_gov_setup @ [(demo_gov_env 1, DelegateVotes ''alice'' ''bob'')])) ''carol'' = None
          then raw_power (run gov_exec gov_start (demo_gov_setup @ [(demo_gov_env 1, DelegateVotes ''alice'' ''bob'')])) ''carol'' else 0)
        (\<Sum>u | gs_delegation (run gov_exec gov_start (demo_gov_setup @ [(demo_gov_env 1, DelegateVotes ''alice'' ''bob'')])) u = Some ''carol''.
          raw_power (run gov_exec gov_start (demo_gov_setup @ [(demo_gov_env 1, DelegateVotes ''alice'' ''bob'')])) u)"
proof
  show "effective_power (run gov_exec gov_start (demo_gov_setup @ [(demo_gov_env 1, DelegateVotes ''alice'' ''bob'')])) ''bob''
     = Inr 130" by code_simp
qed (rule effective_power_is_delegated_sum [unfolded Let_def]; code_simp)

text \<open>A history in which a vote is cast before its power is delegated.\<close>

definition double_vote_history :: "(env \<times> gov_call) list" where
  "double_vote_history =
    [(demo_gov_env 0, GInitialize ''admin'' (demo_gov_config\<lparr> gc_use_quadratic := False \<rparr>)),
     (demo_gov_env 0, SetVotingPower ''alice'' 100),
     (demo_gov_env 0, CreateProposal ''alice'' ParameterChange ''t'' ''d'' ''target'' ''x''),
     (demo_gov_env 10, ActivateProposal 0), (demo_gov_env 10, CastVote ''alice'' 0 VFor),
     (demo_gov_env 11, DelegateVotes ''alice'' ''bob''), (demo_gov_env 12, CastVote ''bob'' 0 VFor)]"

text \<open>Also: an address that votes and then delegates lets its delegate vote with the same power
  again: the tally of a proposal can exceed the total supply.\<close>

theorem delegation_votes_twice:
  "let s = run gov_exec gov_start double_vote_history
   in total_supply s = 100 \<and> map_option pr_votes_for (gs_proposals s 0) = Some 200"
  by code_simp

end
