(* ===== verification/Multisig_Treasury.thy ===== *)
theory Multisig_Treasury
  imports Soroban
begin

text \<open>
  \<open>soroban/src/multisig_treasury.rs\<close>: proposals of payments, collection of signatures,
  execution, and the administration of signers, threshold and whitelist. One record field per
  constructor of \<open>DataKey\<close> the code uses (\<open>SpendingLimit\<close> is declared there and never used).
  \<open>Address::from_string\<close>, which the host may reject, is the parameter \<open>from_string\<close>.
\<close>

section \<open>Data\<close>

definition max_signers :: nat where "max_signers = 100"
definition default_spending_limit :: int where "default_spending_limit = 10000"

datatype treasury_role = TrAdmin | TrOperator | TrGuardian

datatype transaction_status = TxPending | TxApproved | TxExecuted | TxCancelled | TxExpired

record treasury_tx =
  tx_id :: nat
  tx_creator :: address
  tx_destination :: address
  tx_amount :: int
  tx_asset :: address
  tx_description :: string
  tx_status :: transaction_status
  tx_required_signatures :: nat
  tx_current_signatures :: nat
  tx_signers :: "address list"
  tx_time_delay :: nat
  tx_execution_time :: nat
  tx_created_at :: nat
  tx_executed_at :: nat
  tx_is_emergency :: bool

record signer_data =
  sd_address :: address
  sd_role :: treasury_role
  sd_weight :: nat
  sd_is_active :: bool
  sd_added_at :: nat

record multisig_config =
  mc_threshold :: nat
  mc_emergency_threshold :: nat
  mc_time_delay :: nat
  mc_max_transactions_per_day :: nat
  mc_require_emergency_approval :: bool

record transaction_log =
  tl_transaction_id :: nat
  tl_action :: string
  tl_actor :: address
  tl_timestamp :: nat
  tl_details :: string

record treasury_state =
  ts_admin :: "address option"
  ts_config :: "multisig_config option"
  ts_signer :: "address \<Rightarrow> signer_data option"
  ts_signer_count :: "nat option"
  ts_transaction :: "nat \<Rightarrow> treasury_tx option"
  ts_transaction_count :: "nat option"
  ts_nonce :: "nat option"
  ts_role :: "address \<Rightarrow> treasury_role option"
  ts_whitelisted_asset :: "address \<Rightarrow> bool option"
  ts_transaction_history :: "nat \<Rightarrow> transaction_log list option"

type_synonym 'a tres = "(unit, 'a) res"

definition treasury_start :: treasury_state where
  "treasury_start = \<lparr> ts_admin = None, ts_config = None, ts_signer = (\<lambda>_. None),
     ts_signer_count = None, ts_transaction = (\<lambda>_. None), ts_transaction_count = None,
     ts_nonce = None, ts_role = (\<lambda>_. None), ts_whitelisted_asset = (\<lambda>_. None),
     ts_transaction_history = (\<lambda>_. None) \<rparr>"

section \<open>Internal helpers\<close>

definition log_transaction_action :: "env \<Rightarrow> nat \<Rightarrow> string \<Rightarrow> address \<Rightarrow> string
    \<Rightarrow> treasury_state \<Rightarrow> treasury_state" where
  "log_transaction_action env i action actor details s =
     (let entry = \<lparr> tl_transaction_id = i, tl_action = action, tl_actor = actor,
                    tl_timestamp = timestamp env, tl_details = details \<rparr>;
          logs = unwrap_or (ts_transaction_history s i) []
      in s\<lparr> ts_transaction_history := (ts_transaction_history s)(i \<mapsto> logs @ [entry]) \<rparr>)"

definition load_transaction :: "nat \<Rightarrow> treasury_state \<Rightarrow> treasury_tx tres" where
  "load_transaction i s = ok_or (ts_transaction s i) (Panic ''Transaction not found'')"

definition add_signature :: "address \<Rightarrow> treasury_tx \<Rightarrow> treasury_tx" where
  "add_signature signer t =
     (let t1 = t\<lparr> tx_signers := tx_signers t @ [signer] \<rparr>;
          t2 = t1\<lparr> tx_current_signatures := length (tx_signers t1) \<rparr>
      in if tx_required_signatures t2 \<le> tx_current_signatures t2
         then t2\<lparr> tx_status := TxApproved \<rparr> else t2)"

definition sign_transaction_internal :: "env \<Rightarrow> nat \<Rightarrow> address \<Rightarrow> treasury_state \<Rightarrow> treasury_state tres" where
  "sign_transaction_internal env i signer s =
     and_then (load_transaction i s) (\<lambda>t.
     and_then (ensure (\<not> list_ex (\<lambda>x. x = signer) (tx_signers t))
       (Panic ''Already signed this transaction'')) (\<lambda>_.
     Inr (log_transaction_action env i ''Signed'' signer ''Signature added''
       (s\<lparr> ts_transaction := (ts_transaction s)(i \<mapsto> add_signature signer t) \<rparr>))))"

definition treasury_admin_auth :: "env \<Rightarrow> treasury_state \<Rightarrow> unit tres" where
  "treasury_admin_auth env s = and_then (unwrap (ts_admin s)) (\<lambda>admin. require_auth env admin)"

section \<open>Operations\<close>

definition store_signer :: "env \<Rightarrow> address \<Rightarrow> treasury_role \<Rightarrow> treasury_state \<Rightarrow> treasury_state" where
  "store_signer env a r s =
     s\<lparr> ts_signer := (ts_signer s)(a \<mapsto> \<lparr> sd_address = a, sd_role = r, sd_weight = 1,
          sd_is_active = True, sd_added_at = timestamp env \<rparr>),
        ts_role := (ts_role s)(a \<mapsto> r) \<rparr>"

definition treasury_initialize :: "env \<Rightarrow> address \<Rightarrow> multisig_config \<Rightarrow> address list
    \<Rightarrow> treasury_role list \<Rightarrow> treasury_state \<Rightarrow> treasury_state tres" where
  "treasury_initialize env admin config signers roles s =
     and_then (require_auth env admin) (\<lambda>_.
     and_then (ensure (length signers = length roles)
       (Panic ''Signers and roles must have same length'')) (\<lambda>_.
     and_then (ensure (mc_threshold config \<le> length signers)
       (Panic ''Initial signers must meet threshold'')) (\<lambda>_.
     let s1 = s\<lparr> ts_admin := Some admin, ts_config := Some config, ts_nonce := Some 0,
                 ts_transaction_count := Some 0, ts_signer_count := Some 0 \<rparr>;
         s2 = fold (\<lambda>(a, r). store_signer env a r) (zip signers roles) s1
     in Inr (s2\<lparr> ts_signer_count := Some (length signers) \<rparr>))))"

definition propose_transaction :: "env \<Rightarrow> address \<Rightarrow> address \<Rightarrow> int \<Rightarrow> address \<Rightarrow> string \<Rightarrow> bool
    \<Rightarrow> treasury_state \<Rightarrow> (nat \<times> treasury_state) tres" where
  "propose_transaction env creator destination amount asset description is_emergency s =
     and_then (require_auth env creator) (\<lambda>_.
     and_then (ensure (ts_signer s creator \<noteq> None) (Panic ''Only signers can propose transactions'')) (\<lambda>_.
     and_then (unwrap (ts_config s)) (\<lambda>config.
     and_then (unwrap (ts_transaction_count s)) (\<lambda>count.
     and_then (ensure (count < mc_max_transactions_per_day config)
       (Panic ''Daily transaction limit reached'')) (\<lambda>_.
     let required = (if is_emergency \<and> mc_require_emergency_approval config
                     then mc_emergency_threshold config else mc_threshold config);
         delay = (if default_spending_limit < amount then mc_time_delay config else 0)
     in and_then (add_u64 (timestamp env) delay) (\<lambda>execution_time.
        and_then (unwrap (ts_nonce s)) (\<lambda>n.
        and_then (add_u64 n 1) (\<lambda>nonce.
        and_then (add_u64 count 1) (\<lambda>tx_count.
        let t = \<lparr> tx_id = nonce, tx_creator = creator, tx_destination = destination,
                  tx_amount = amount, tx_asset = asset, tx_description = description,
                  tx_status = TxPending, tx_required_signatures = required,
                  tx_current_signatures = 0, tx_signers = [], tx_time_delay = delay,
                  tx_execution_time = execution_time, tx_created_at = timestamp env,
                  tx_executed_at = 0, tx_is_emergency = is_emergency \<rparr>;
            s1 = s\<lparr> ts_nonce := Some nonce, ts_transaction_count := Some tx_count,
                    ts_transaction := (ts_transaction s)(nonce \<mapsto> t) \<rparr>
        in and_then (sign_transaction_internal env nonce creator s1) (\<lambda>s2.
           Inr (nonce, log_transaction_action env nonce ''Created'' creator
             ''Transaction proposed'' s2)))))))))))"

definition sign_transaction :: "env \<Rightarrow> nat \<Rightarrow> address \<Rightarrow> treasury_state \<Rightarrow> treasury_state tres" where
  "sign_transaction env i signer s =
     and_then (require_auth env signer) (\<lambda>_.
     and_then (ok_or (ts_signer s signer) (Panic ''Not authorized to sign'')) (\<lambda>data.
     and_then (ensure (sd_is_active data) (Panic ''Signer is not active'')) (\<lambda>_.
     sign_transaction_internal env i signer s)))"

text \<open>The name of the native asset is parsed only here, before the whitelist is read.\<close>

definition execute_transaction :: "(string \<Rightarrow> address tres) \<Rightarrow> env \<Rightarrow> nat \<Rightarrow> address
    \<Rightarrow> treasury_state \<Rightarrow> treasury_state tres" where
  "execute_transaction from_string env i executor s =
     and_then (require_auth env executor) (\<lambda>_.
     and_then (load_transaction i s) (\<lambda>t.
     and_then (ensure (tx_status t = TxPending) (Panic ''Transaction is not pending'')) (\<lambda>_.
     and_then (ensure (tx_required_signatures t \<le> tx_current_signatures t)
       (Panic ''Not enough signatures'')) (\<lambda>_.
     and_then (ensure (tx_execution_time t \<le> timestamp env) (Panic ''Time delay not elapsed'')) (\<lambda>_.
     and_then (from_string ''native'') (\<lambda>native.
     and_then (ensure (\<not> (tx_asset t \<noteq> native \<and> ts_whitelisted_asset s (tx_asset t) = None))
       (Panic ''Asset not whitelisted'')) (\<lambda>_.
     Inr (log_transaction_action env i ''Executed'' executor ''Transaction executed successfully''
       (s\<lparr> ts_transaction := (ts_transaction s)(i \<mapsto>
            t\<lparr> tx_status := TxExecuted, tx_executed_at := timestamp env \<rparr>) \<rparr>)))))))))"

definition cancel_transaction :: "env \<Rightarrow> nat \<Rightarrow> address \<Rightarrow> treasury_state \<Rightarrow> treasury_state tres" where
  "cancel_transaction env i canceller s =
     and_then (require_auth env canceller) (\<lambda>_.
     and_then (load_transaction i s) (\<lambda>t.
     and_then (ensure (tx_status t = TxPending) (Panic ''Transaction is not pending'')) (\<lambda>_.
     and_then (unwrap (ts_admin s)) (\<lambda>admin.
     and_then (ensure (\<not> (tx_creator t \<noteq> canceller \<and> admin \<noteq> canceller))
       (Panic ''Not authorized to cancel'')) (\<lambda>_.
     Inr (log_transaction_action env i ''Cancelled'' canceller ''Transaction cancelled''
       (s\<lparr> ts_transaction := (ts_transaction s)(i \<mapsto> t\<lparr> tx_status := TxCancelled \<rparr>) \<rparr>)))))))"

definition add_signer :: "env \<Rightarrow> address \<Rightarrow> treasury_role \<Rightarrow> treasury_state \<Rightarrow> treasury_state tres" where
  "add_signer env new_signer role s =
     and_then (treasury_admin_auth env s) (\<lambda>_.
     and_then (ensure (ts_signer s new_signer = None) (Panic ''Signer already exists'')) (\<lambda>_.
     and_then (unwrap (ts_signer_count s)) (\<lambda>count.
     and_then (ensure (count < max_signers) (Panic ''Maximum signers reached'')) (\<lambda>_.
     and_then (add_u32 count 1) (\<lambda>new_count.
     Inr ((store_signer env new_signer role s)\<lparr> ts_signer_count := Some new_count \<rparr>))))))"

definition remove_signer :: "env \<Rightarrow> address \<Rightarrow> treasury_state \<Rightarrow> treasury_state tres" where
  "remove_signer env signer s =
     and_then (treasury_admin_auth env s) (\<lambda>_.
     and_then (ensure (ts_signer s signer \<noteq> None) (Panic ''Signer not found'')) (\<lambda>_.
     and_then (unwrap (ts_config s)) (\<lambda>config.
     and_then (unwrap (ts_signer_count s)) (\<lambda>count.
     and_then (u_sub count 1) (\<lambda>new_count.
     and_then (ensure (mc_threshold config \<le> new_count)
       (Panic ''Cannot remove signer: would break threshold'')) (\<lambda>_.
     Inr (s\<lparr> ts_signer := (ts_signer s)(signer := None), ts_role := (ts_role s)(signer := None),
            ts_signer_count := Some new_count \<rparr>)))))))"

definition update_threshold :: "env \<Rightarrow> nat \<Rightarrow> treasury_state \<Rightarrow> treasury_state tres" where
  "update_threshold env new_threshold s =
     and_then (treasury_admin_auth env s) (\<lambda>_.
     and_then (unwrap (ts_signer_count s)) (\<lambda>count.
     and_then (ensure (new_threshold \<le> count)
       (Panic ''Threshold cannot exceed number of signers'')) (\<lambda>_.
     and_then (ensure (new_threshold \<noteq> 0) (Panic ''Threshold cannot be zero'')) (\<lambda>_.
     and_then (unwrap (ts_config s)) (\<lambda>config.
     Inr (s\<lparr> ts_config := Some (config\<lparr> mc_threshold := new_threshold \<rparr>) \<rparr>))))))"

definition whitelist_asset :: "env \<Rightarrow> address \<Rightarrow> treasury_state \<Rightarrow> treasury_state tres" where
  "whitelist_asset env asset s =
     and_then (treasury_admin_auth env s) (\<lambda>_.
     Inr (s\<lparr> ts_whitelisted_asset := (ts_whitelisted_asset s)(asset \<mapsto> True) \<rparr>))"

definition remove_whitelisted_asset :: "env \<Rightarrow> address \<Rightarrow> treasury_state \<Rightarrow> treasury_state tres" where
  "remove_whitelisted_asset env asset s =
     and_then (treasury_admin_auth env s) (\<lambda>_.
     Inr (s\<lparr> ts_whitelisted_asset := (ts_whitelisted_asset s)(asset := None) \<rparr>))"

section \<open>Getters\<close>

definition get_transaction :: "nat \<Rightarrow> treasury_state \<Rightarrow> treasury_tx option" where
  "get_transaction i s = ts_transaction s i"

definition get_signer :: "address \<Rightarrow> treasury_state \<Rightarrow> signer_data option" where
  "get_signer a s = ts_signer s a"

definition get_all_signers :: "treasury_state \<Rightarrow> signer_data list" where
  "get_all_signers s = []"

definition treasury_get_config :: "treasury_state \<Rightarrow> multisig_config tres" where
  "treasury_get_config s = ok_or (ts_config s) (Panic ''Config not initialized'')"

definition is_asset_whitelisted :: "address \<Rightarrow> treasury_state \<Rightarrow> bool" where
  "is_asset_whitelisted a s \<longleftrightarrow> ts_whitelisted_asset s a \<noteq> None"

definition get_pending_transactions_count :: "treasury_state \<Rightarrow> nat tres" where
  "get_pending_transactions_count s = unwrap (ts_transaction_count s)"

section \<open>Invocations\<close>

datatype treasury_call =
    TInitialize address multisig_config "address list" "treasury_role list"
  | ProposeTransaction address address int address string bool
  | SignTransaction nat address
  | ExecuteTransaction nat address
  | CancelTransaction nat address
  | AddSigner address treasury_role
  | RemoveSigner address
  | UpdateThreshold nat
  | WhitelistAsset address
  | RemoveWhitelistedAsset address

fun treasury_exec :: "(string \<Rightarrow> address tres) \<Rightarrow> env \<Rightarrow> treasury_call \<Rightarrow> treasury_state \<Rightarrow> treasury_state tres" where
  "treasury_exec fs env (TInitialize a c ss rs) s = treasury_initialize env a c ss rs s"
| "treasury_exec fs env (ProposeTransaction c d n a t e) s = state_of (propose_transaction env c d n a t e s)"
| "treasury_exec fs env (SignTransaction i a) s = sign_transaction env i a s"
| "treasury_exec fs env (ExecuteTransaction i a) s = execute_transaction fs env i a s"
| "treasury_exec fs env (CancelTransaction i a) s = cancel_transaction env i a s"
| "treasury_exec fs env (AddSigner a r) s = add_signer env a r s"
| "treasury_exec fs env (RemoveSigner a) s = remove_signer env a s"
| "treasury_exec fs env (UpdateThreshold n) s = update_threshold env n s"
| "treasury_exec fs env (WhitelistAsset a) s = whitelist_asset env a s"
| "treasury_exec fs env (RemoveWhitelistedAsset a) s = remove_whitelisted_asset env a s"

section \<open>Signatures\<close>

text \<open>Every stored transaction keeps one signature per signer, and is approved as soon as the
  required number is reached: a pending transaction never has enough.\<close>

definition tx_ok :: "treasury_tx \<Rightarrow> bool" where
  "tx_ok t \<longleftrightarrow> distinct (tx_signers t) \<and> tx_current_signatures t = length (tx_signers t)
     \<and> tx_creator t \<in> set (tx_signers t)
     \<and> (tx_status t = TxPending \<longrightarrow> tx_current_signatures t < tx_required_signatures t)
     \<and> (tx_status t = TxApproved \<longrightarrow> tx_required_signatures t \<le> tx_current_signatures t)
     \<and> tx_status t \<in> {TxPending, TxApproved, TxCancelled}"

definition treasury_inv :: "treasury_state \<Rightarrow> bool" where
  "treasury_inv s \<longleftrightarrow> (\<forall>i t. ts_transaction s i = Some t \<longrightarrow> tx_ok t)"

lemma log_transaction [simp]: "ts_transaction (log_transaction_action env i a b c s) = ts_transaction s"
  by (simp add: log_transaction_action_def Let_def)

lemma add_signature_ok:
  "tx_ok t \<Longrightarrow> a \<notin> set (tx_signers t) \<Longrightarrow> tx_ok (add_signature a t)"
  by (auto simp: tx_ok_def add_signature_def Let_def)

lemma add_first_signature_ok:
  "tx_signers t = [] \<Longrightarrow> tx_creator t = a \<Longrightarrow> tx_status t = TxPending \<Longrightarrow> tx_ok (add_signature a t)"
  by (auto simp: tx_ok_def add_signature_def Let_def)

lemma execute_pending_fails:
  assumes "treasury_inv s"
  shows "\<not> is_ok (execute_transaction fs env i a s)"
proof -
  have "tx_status t = TxPending \<Longrightarrow> \<not> tx_required_signatures t \<le> tx_current_signatures t"
    if "ts_transaction s i = Some t" for t
    using assms that unfolding treasury_inv_def tx_ok_def by fastforce
  then show ?thesis by (auto simp: is_ok_iff execute_transaction_def load_transaction_def)
qed

lemma propose_stores:
  assumes "propose_transaction env a d n as txt e s = Inr (i, s')"
  shows "\<exists>t. ts_transaction s' = (ts_transaction s)(i \<mapsto> add_signature a t)
     \<and> tx_signers t = [] \<and> tx_creator t = a \<and> tx_status t = TxPending"
proof -
  have "\<exists>r w x k. ts_transaction s' = (ts_transaction s)(i \<mapsto> add_signature a
      \<lparr> tx_id = i, tx_creator = a, tx_destination = d, tx_amount = n, tx_asset = as,
        tx_description = txt, tx_status = TxPending, tx_required_signatures = r,
        tx_current_signatures = 0, tx_signers = [], tx_time_delay = w, tx_execution_time = x,
        tx_created_at = k, tx_executed_at = 0, tx_is_emergency = e \<rparr>)"
    using assms
    by (auto simp: propose_transaction_def sign_transaction_internal_def load_transaction_def Let_def
        simp del: fun_upd_apply) auto
  then show ?thesis by force
qed

lemma fold_store_signer [simp]:
  "ts_transaction (fold (\<lambda>(a, r). store_signer env a r) xs s) = ts_transaction s"
  by (induction xs arbitrary: s) (auto simp: store_signer_def)

lemma treasury_inv_step:
  assumes inv: "treasury_inv s" and step: "treasury_exec fs env c s = Inr s'"
  shows "treasury_inv s'"
proof -
  have same: "ts_transaction s' = ts_transaction s \<Longrightarrow> treasury_inv s'"
    using inv by (simp add: treasury_inv_def)
  have upd: "ts_transaction u = (ts_transaction s)(i \<mapsto> t) \<Longrightarrow> tx_ok t \<Longrightarrow> treasury_inv u" for i t u
    using inv by (auto simp: treasury_inv_def)
  show ?thesis
  proof (cases c)
    case (ProposeTransaction cr d n a t e)
    with step obtain i where "propose_transaction env cr d n a t e s = Inr (i, s')" by auto
    from propose_stores [OF this] show ?thesis by (auto intro: upd add_first_signature_ok)
  next
    case (SignTransaction i a)
    with step inv show ?thesis
      by (auto simp: sign_transaction_def sign_transaction_internal_def load_transaction_def
          list_ex_iff treasury_inv_def split: if_splits
          intro!: add_signature_ok)
  next
    case (ExecuteTransaction i a)
    with step execute_pending_fails [OF inv, of fs env i a] show ?thesis by (simp add: is_ok_iff)
  next
    case (CancelTransaction i a)
    with step obtain t where t: "ts_transaction s i = Some t"
      "ts_transaction s' = (ts_transaction s)(i \<mapsto> t\<lparr> tx_status := TxCancelled \<rparr>)"
      by (auto simp: cancel_transaction_def load_transaction_def)
    moreover have "tx_ok t" using inv t(1) by (simp add: treasury_inv_def)
    ultimately show ?thesis by (auto intro!: upd simp: tx_ok_def)
  qed (use step in \<open>auto intro!: same simp: treasury_initialize_def add_signer_def remove_signer_def
      update_threshold_def whitelist_asset_def remove_whitelisted_asset_def store_signer_def Let_def\<close>)
qed

interpretation treasury: contract_invariant "treasury_exec fs" "\<lambda>s. s = treasury_start" "\<lambda>_. True" treasury_inv
  for fs
proof unfold_locales
  show "s = treasury_start \<Longrightarrow> treasury_inv s" for s
    by (simp add: treasury_inv_def treasury_start_def)
qed (rule treasury_inv_step)

lemma treasury_reachable: "treasury_inv (run (treasury_exec fs) treasury_start h)"
  by (rule treasury.run_inv) (simp_all add: list_all_iff)

section \<open>Properties\<close>

text \<open>Also: in every history, a stored transaction carries distinct signatures, the creator's among
  them, and its counter is their number; it is pending only while the required number has not
  been reached, and approved only when it has.\<close>

theorem treasury_signatures:
  assumes "ts_transaction (run (treasury_exec fs) treasury_start h) i = Some t"
  shows "distinct (tx_signers t) \<and> tx_creator t \<in> set (tx_signers t)
    \<and> tx_current_signatures t = card (set (tx_signers t))
    \<and> (tx_status t = TxPending \<longrightarrow> tx_current_signatures t < tx_required_signatures t)
    \<and> (tx_status t = TxApproved \<longrightarrow> tx_required_signatures t \<le> tx_current_signatures t)"
proof -
  have "tx_ok t" using treasury_reachable [of fs h] assms by (simp add: treasury_inv_def)
  then show ?thesis unfolding tx_ok_def by (auto simp: distinct_card)
qed

definition demo_treasury_env :: "nat \<Rightarrow> env" where
  "demo_treasury_env t = \<lparr> timestamp = t, auths = [''admin'', ''s1'', ''s2'', ''mallory''] \<rparr>"

definition demo_multisig_config :: multisig_config where
  "demo_multisig_config = \<lparr> mc_threshold = 2, mc_emergency_threshold = 3, mc_time_delay = 3600,
     mc_max_transactions_per_day = 100, mc_require_emergency_approval = True \<rparr>"

definition demo_treasury :: "(env \<times> treasury_call) list" where
  "demo_treasury =
    [(demo_treasury_env 0, TInitialize ''admin'' demo_multisig_config [''s1'', ''s2''] [TrOperator, TrGuardian]),
     (demo_treasury_env 0, WhitelistAsset ''usdc''),
     (demo_treasury_env 1, ProposeTransaction ''s1'' ''dest'' 500 ''usdc'' ''rent'' False)]"

lemma treasury_signatures_witness:
  "\<exists>t. ts_transaction (run (treasury_exec Inr) treasury_start demo_treasury) 1 = Some t
     \<and> tx_status t = TxPending \<and> tx_current_signatures t = card (set (tx_signers t))"
proof -
  have "map_option tx_status (ts_transaction (run (treasury_exec Inr) treasury_start demo_treasury) 1) = Some TxPending"
    by code_simp
  then obtain t where t: "ts_transaction (run (treasury_exec Inr) treasury_start demo_treasury) 1 = Some t"
    "tx_status t = TxPending" by auto
  with treasury_signatures [OF t(1)] show ?thesis by blast
qed

text \<open>Also: no transaction is ever executed. The last signature needed turns a transaction from
  pending to approved, while execution asks for a pending transaction with enough signatures: in
  every reachable state and for every caller, time and whitelist it fails, and no stored
  transaction ever has the status executed.\<close>

theorem treasury_never_executes:
  "\<not> is_ok (execute_transaction fs env i a (run (treasury_exec fs) treasury_start h))
   \<and> map_option tx_status (ts_transaction (run (treasury_exec fs) treasury_start h) j) \<noteq> Some TxExecuted"
proof
  show "\<not> is_ok (execute_transaction fs env i a (run (treasury_exec fs) treasury_start h))"
    by (rule execute_pending_fails [OF treasury_reachable])
  show "map_option tx_status (ts_transaction (run (treasury_exec fs) treasury_start h) j) \<noteq> Some TxExecuted"
    using treasury_reachable [of fs h] unfolding treasury_inv_def tx_ok_def by force
qed

text \<open>Also: initialisation is not guarded. In any state, any address that authorises the call and
  passes a consistent signer list succeeds; it becomes the administrator, its configuration
  replaces the old one and transaction numbers start again from one.\<close>

theorem treasury_reinitialize:
  "if a \<in> set (auths env) \<and> length signers = length roles \<and> mc_threshold cfg \<le> length signers
   then \<exists>s'. treasury_initialize env a cfg signers roles s = Inr s' \<and> ts_admin s' = Some a
     \<and> ts_config s' = Some cfg \<and> ts_nonce s' = Some 0 \<and> ts_transaction_count s' = Some 0
     \<and> ts_transaction s' = ts_transaction s
   else \<not> is_ok (treasury_initialize env a cfg signers roles s)"
proof -
  have "ts_admin (fold (\<lambda>(a, r). store_signer env a r) xs u) = ts_admin u"
    "ts_config (fold (\<lambda>(a, r). store_signer env a r) xs u) = ts_config u"
    "ts_nonce (fold (\<lambda>(a, r). store_signer env a r) xs u) = ts_nonce u"
    "ts_transaction_count (fold (\<lambda>(a, r). store_signer env a r) xs u) = ts_transaction_count u" for xs u
    by (induction xs arbitrary: u) (auto simp: store_signer_def)
  then show ?thesis by (auto simp: is_ok_iff treasury_initialize_def Let_def)
qed

end
