(* ===== verification/Circuit_Breaker.thy ===== *)
theory Circuit_Breaker
  imports Soroban
begin

text \<open>
  \<open>soroban/src/circuit_breaker.rs\<close>: pauses of the whole system, of a bridge or of an asset,
  triggered by guardians; recovery by guardian approvals; trigger configurations and whitelists.
  One record field per constructor of \<open>DataKey\<close> the code uses (\<open>GuardianApprovals\<close> and
  \<open>RecoveryApprovals\<close> are declared there and never used). \<open>self\<close> is the contract's own address,
  \<open>env.current_contract_address()\<close>.
\<close>

section \<open>Data\<close>

datatype pause_level = LevelNone | LevelWarning | LevelPartial | LevelFull

datatype guardian_role = StandardGuardian | EmergencyGuardian | AdminGuardian

datatype breaker_alert_type = HealthScore | PriceDeviation | SupplyMismatch | BridgeDowntime
  | VolumeSpike | ReserveRatio

datatype pause_scope = ScopeGlobal | ScopeBridge string | ScopeAsset string

record pause_state =
  ps_scope :: pause_scope
  ps_level :: pause_level
  ps_triggered_by :: address
  ps_trigger_reason :: string
  ps_timestamp :: nat
  ps_recovery_deadline :: nat
  ps_guardian_approvals :: nat
  ps_guardian_threshold :: nat

record trigger_config =
  tc_alert_type :: breaker_alert_type
  tc_threshold :: int
  tc_pause_level :: pause_level
  tc_cooldown_period :: nat
  tc_last_trigger :: nat

record guardian_info =
  gi_address :: address
  gi_role :: guardian_role
  gi_added_at :: nat
  gi_active :: bool

record recovery_request =
  rq_pause_id :: nat
  rq_requested_by :: address
  rq_timestamp :: nat
  rq_approvals :: nat
  rq_threshold :: nat

record breaker_config =
  bc_admin :: address
  bc_guardian_threshold :: nat
  bc_recovery_delay_warning :: nat
  bc_recovery_delay_partial :: nat
  bc_recovery_delay_full :: nat
  bc_max_whitelist_size :: nat

datatype breaker_event =
    CbGuardianAdded address guardian_role
  | CbGuardianRemoved address
  | CbPauseTriggered nat pause_scope pause_level
  | CbRecoveryRequested nat address
  | CbGuardianApproved nat address
  | CbRecoveryExecuted nat
  | CbTriggerUpdated breaker_alert_type int pause_level
  | CbWhitelistUpdated string string bool

record cb_state =
  cb_config :: "breaker_config option"
  cb_pause_count :: "nat option"
  cb_pause_state :: "nat \<Rightarrow> pause_state option"
  cb_trigger_configs :: "(breaker_alert_type \<Rightarrow> trigger_config option) option"
  cb_guardians :: "guardian_info list option"
  cb_whitelist_addresses :: "address list option"
  cb_whitelist_assets :: "string list option"
  cb_whitelist_bridges :: "string list option"
  cb_recovery_requests :: "recovery_request list option"
  cb_events :: "breaker_event list"

type_synonym 'a bres = "(unit, 'a) res"

definition breaker_start :: cb_state where
  "breaker_start = \<lparr> cb_config = None, cb_pause_count = None, cb_pause_state = (\<lambda>_. None),
     cb_trigger_configs = None, cb_guardians = None, cb_whitelist_addresses = None,
     cb_whitelist_assets = None, cb_whitelist_bridges = None, cb_recovery_requests = None,
     cb_events = [] \<rparr>"

definition cb_publish :: "breaker_event \<Rightarrow> cb_state \<Rightarrow> cb_state" where
  "cb_publish e s = s\<lparr> cb_events := cb_events s @ [e] \<rparr>"

section \<open>Helpers\<close>

definition breaker_get_config :: "cb_state \<Rightarrow> breaker_config bres" where
  "breaker_get_config s = ok_or (cb_config s) (Panic ''contract not initialized'')"

definition get_next_pause_id :: "cb_state \<Rightarrow> (nat \<times> cb_state) bres" where
  "get_next_pause_id s =
     and_then (add_u32 (unwrap_or (cb_pause_count s) 0) 1) (\<lambda>count.
     Inr (count, s\<lparr> cb_pause_count := Some count \<rparr>))"

definition breaker_only_admin :: "env \<Rightarrow> address \<Rightarrow> cb_state \<Rightarrow> unit bres" where
  "breaker_only_admin env caller s =
     and_then (breaker_get_config s) (\<lambda>config.
     and_then (ensure (caller = bc_admin config) (Panic ''not admin'')) (\<lambda>_.
     require_auth env caller))"

fun role_allows :: "guardian_role \<Rightarrow> guardian_role \<Rightarrow> bool" where
  "role_allows AdminGuardian _ = True"
| "role_allows EmergencyGuardian EmergencyGuardian = True"
| "role_allows EmergencyGuardian StandardGuardian = True"
| "role_allows StandardGuardian StandardGuardian = True"
| "role_allows _ _ = False"

text \<open>The code asks for no authorisation of \<open>caller\<close> here, so there is no \<open>env\<close> to read it from.\<close>

definition check_guardian_permission :: "address \<Rightarrow> guardian_role \<Rightarrow> cb_state \<Rightarrow> unit bres" where
  "check_guardian_permission caller required s =
     ensure (list_ex (\<lambda>g. gi_address g = caller \<and> gi_active g \<and> role_allows (gi_role g) required)
               (unwrap_or (cb_guardians s) []))
       (Panic ''insufficient guardian permissions'')"

section \<open>Queries\<close>

definition get_guardians :: "cb_state \<Rightarrow> guardian_info list" where
  "get_guardians s = unwrap_or (cb_guardians s) []"

definition get_pause_state :: "address \<Rightarrow> nat \<Rightarrow> cb_state \<Rightarrow> pause_state" where
  "get_pause_state self i s =
     unwrap_or (cb_pause_state s i)
       \<lparr> ps_scope = ScopeGlobal, ps_level = LevelNone, ps_triggered_by = self, ps_trigger_reason = [],
         ps_timestamp = 0, ps_recovery_deadline = 0, ps_guardian_approvals = 0,
         ps_guardian_threshold = 0 \<rparr>"

fun scope_covers :: "pause_scope \<Rightarrow> pause_scope \<Rightarrow> bool" where
  "scope_covers ScopeGlobal _ = True"
| "scope_covers (ScopeBridge i) (ScopeBridge j) = (i = j)"
| "scope_covers (ScopeAsset c) (ScopeAsset d) = (c = d)"
| "scope_covers _ _ = False"

definition is_paused :: "address \<Rightarrow> pause_scope \<Rightarrow> cb_state \<Rightarrow> bool" where
  "is_paused self scope s =
     list_ex (\<lambda>i. let p = get_pause_state self i s
                  in ps_level p \<noteq> LevelNone \<and> scope_covers (ps_scope p) scope)
       [1 ..< unwrap_or (cb_pause_count s) 0 + 1]"

definition is_whitelisted_address :: "address \<Rightarrow> cb_state \<Rightarrow> bool" where
  "is_whitelisted_address a s = list_ex (\<lambda>x. x = a) (unwrap_or (cb_whitelist_addresses s) [])"

definition is_whitelisted_asset :: "string \<Rightarrow> cb_state \<Rightarrow> bool" where
  "is_whitelisted_asset c s = list_ex (\<lambda>x. x = c) (unwrap_or (cb_whitelist_assets s) [])"

section \<open>Initialisation and guardians\<close>

definition breaker_initialize :: "env \<Rightarrow> breaker_config \<Rightarrow> cb_state \<Rightarrow> cb_state bres" where
  "breaker_initialize env config s =
     and_then (require_auth env (bc_admin config)) (\<lambda>_.
     and_then (ensure (cb_config s = None) (Panic ''already initialized'')) (\<lambda>_.
     Inr (s\<lparr> cb_config := Some config, cb_pause_count := Some 0,
            cb_trigger_configs := Some (\<lambda>_. None), cb_guardians := Some [],
            cb_whitelist_addresses := Some [], cb_whitelist_assets := Some [],
            cb_whitelist_bridges := Some [], cb_recovery_requests := Some [] \<rparr>)))"

definition breaker_add_guardian :: "env \<Rightarrow> address \<Rightarrow> address \<Rightarrow> guardian_role
    \<Rightarrow> cb_state \<Rightarrow> cb_state bres" where
  "breaker_add_guardian env caller guardian role s =
     and_then (breaker_only_admin env caller s) (\<lambda>_.
     let gs = unwrap_or (cb_guardians s) []
     in and_then (ensure (\<not> list_ex (\<lambda>g. gi_address g = guardian) gs)
          (Panic ''guardian already exists'')) (\<lambda>_.
        Inr (cb_publish (CbGuardianAdded guardian role)
          (s\<lparr> cb_guardians := Some (gs @ [\<lparr> gi_address = guardian, gi_role = role,
               gi_added_at = timestamp env, gi_active = True \<rparr>]) \<rparr>))))"

definition breaker_remove_guardian :: "env \<Rightarrow> address \<Rightarrow> address \<Rightarrow> cb_state \<Rightarrow> cb_state bres" where
  "breaker_remove_guardian env caller guardian s =
     and_then (breaker_only_admin env caller s) (\<lambda>_.
     let gs = unwrap_or (cb_guardians s) []
     in and_then (ensure (list_ex (\<lambda>g. gi_address g = guardian) gs) (Panic ''guardian not found'')) (\<lambda>_.
        Inr (cb_publish (CbGuardianRemoved guardian)
          (s\<lparr> cb_guardians := Some (filter (\<lambda>g. gi_address g \<noteq> guardian) gs) \<rparr>))))"

section \<open>Pauses\<close>

definition store_pause :: "env \<Rightarrow> address \<Rightarrow> pause_scope \<Rightarrow> pause_level \<Rightarrow> (breaker_config \<Rightarrow> nat)
    \<Rightarrow> string \<Rightarrow> cb_state \<Rightarrow> cb_state bres" where
  "store_pause env caller scope level delay reason s =
     and_then (get_next_pause_id s) (\<lambda>(i, s1).
     and_then (breaker_get_config s1) (\<lambda>config.
     and_then (add_u64 (timestamp env) (delay config)) (\<lambda>deadline.
     Inr (cb_publish (CbPauseTriggered i scope level)
       (s1\<lparr> cb_pause_state := (cb_pause_state s1)(i \<mapsto>
          \<lparr> ps_scope = scope, ps_level = level, ps_triggered_by = caller,
            ps_trigger_reason = reason, ps_timestamp = timestamp env,
            ps_recovery_deadline = deadline, ps_guardian_approvals = 1,
            ps_guardian_threshold = bc_guardian_threshold config \<rparr>) \<rparr>)))))"

definition pause_global :: "env \<Rightarrow> address \<Rightarrow> string \<Rightarrow> cb_state \<Rightarrow> cb_state bres" where
  "pause_global env caller reason s =
     and_then (check_guardian_permission caller EmergencyGuardian s) (\<lambda>_.
     store_pause env caller ScopeGlobal LevelFull bc_recovery_delay_full reason s)"

definition pause_bridge :: "env \<Rightarrow> address \<Rightarrow> string \<Rightarrow> string \<Rightarrow> cb_state \<Rightarrow> cb_state bres" where
  "pause_bridge env caller bridge_id reason s =
     and_then (check_guardian_permission caller StandardGuardian s) (\<lambda>_.
     store_pause env caller (ScopeBridge bridge_id) LevelPartial bc_recovery_delay_partial reason s)"

definition pause_asset :: "env \<Rightarrow> address \<Rightarrow> string \<Rightarrow> string \<Rightarrow> cb_state \<Rightarrow> cb_state bres" where
  "pause_asset env caller asset_code reason s =
     and_then (check_guardian_permission caller StandardGuardian s) (\<lambda>_.
     store_pause env caller (ScopeAsset asset_code) LevelWarning bc_recovery_delay_warning reason s)"

section \<open>Recovery\<close>

definition request_recovery :: "address \<Rightarrow> env \<Rightarrow> address \<Rightarrow> nat \<Rightarrow> cb_state \<Rightarrow> cb_state bres" where
  "request_recovery self env caller i s =
     and_then (check_guardian_permission caller StandardGuardian s) (\<lambda>_.
     and_then (ensure (ps_level (get_pause_state self i s) \<noteq> LevelNone) (Panic ''pause not active'')) (\<lambda>_.
     let rs = unwrap_or (cb_recovery_requests s) []
     in and_then (ensure (\<not> list_ex (\<lambda>r. rq_pause_id r = i) rs) (Panic ''recovery already requested'')) (\<lambda>_.
        and_then (breaker_get_config s) (\<lambda>config.
        Inr (cb_publish (CbRecoveryRequested i caller)
          (s\<lparr> cb_recovery_requests := Some (rs @ [\<lparr> rq_pause_id = i, rq_requested_by = caller,
               rq_timestamp = timestamp env, rq_approvals = 1,
               rq_threshold = bc_guardian_threshold config \<rparr>]) \<rparr>))))))"

text \<open>The loop over the requests: the first one with the identifier gets one more approval.\<close>

fun approve_first :: "nat \<Rightarrow> recovery_request list \<Rightarrow> recovery_request list bres" where
  "approve_first i [] = Inl (Panic ''recovery request not found'')"
| "approve_first i (r # rs) =
     (if rq_pause_id r = i
      then and_then (add_u32 (rq_approvals r) 1) (\<lambda>a. Inr (r\<lparr> rq_approvals := a \<rparr> # rs))
      else and_then (approve_first i rs) (\<lambda>rs'. Inr (r # rs')))"

definition approve_recovery :: "address \<Rightarrow> nat \<Rightarrow> cb_state \<Rightarrow> cb_state bres" where
  "approve_recovery caller i s =
     and_then (check_guardian_permission caller StandardGuardian s) (\<lambda>_.
     and_then (approve_first i (unwrap_or (cb_recovery_requests s) [])) (\<lambda>rs.
     Inr (cb_publish (CbGuardianApproved i caller) (s\<lparr> cb_recovery_requests := Some rs \<rparr>))))"

text \<open>The loop that finds the request: it stops at the first one with the identifier.\<close>

fun executable_request :: "nat \<Rightarrow> recovery_request list \<Rightarrow> nat option" where
  "executable_request i [] = None"
| "executable_request i (r # rs) =
     (if rq_pause_id r = i then (if rq_threshold r \<le> rq_approvals r then Some 0 else None)
      else map_option Suc (executable_request i rs))"

definition execute_recovery :: "address \<Rightarrow> nat \<Rightarrow> cb_state \<Rightarrow> cb_state bres" where
  "execute_recovery caller i s =
     and_then (check_guardian_permission caller StandardGuardian s) (\<lambda>_.
     let rs = unwrap_or (cb_recovery_requests s) []
     in and_then (ok_or (executable_request i rs) (Panic ''insufficient approvals'')) (\<lambda>n.
        Inr (cb_publish (CbRecoveryExecuted i)
          (s\<lparr> cb_recovery_requests := Some (take n rs @ drop (Suc n) rs),
             cb_pause_state := (cb_pause_state s)(i := None) \<rparr>))))"

section \<open>Triggers and whitelists\<close>

definition set_trigger_config :: "env \<Rightarrow> address \<Rightarrow> breaker_alert_type \<Rightarrow> int \<Rightarrow> pause_level \<Rightarrow> nat
    \<Rightarrow> cb_state \<Rightarrow> cb_state bres" where
  "set_trigger_config env caller alert threshold level cooldown s =
     and_then (breaker_only_admin env caller s) (\<lambda>_.
     let m = unwrap_or (cb_trigger_configs s) (\<lambda>_. None);
         c = \<lparr> tc_alert_type = alert, tc_threshold = threshold, tc_pause_level = level,
               tc_cooldown_period = cooldown, tc_last_trigger = 0 \<rparr>
     in Inr (cb_publish (CbTriggerUpdated alert threshold level)
          (s\<lparr> cb_trigger_configs := Some (m(alert \<mapsto> c)) \<rparr>)))"

definition add_to_address_whitelist :: "env \<Rightarrow> address \<Rightarrow> address \<Rightarrow> cb_state \<Rightarrow> cb_state bres" where
  "add_to_address_whitelist env caller a s =
     and_then (breaker_only_admin env caller s) (\<lambda>_.
     let ws = unwrap_or (cb_whitelist_addresses s) []
     in and_then (breaker_get_config s) (\<lambda>config.
        and_then (ensure (length ws < bc_max_whitelist_size config) (Panic ''whitelist full'')) (\<lambda>_.
        and_then (ensure (\<not> list_ex (\<lambda>x. x = a) ws) (Panic ''address already whitelisted'')) (\<lambda>_.
        Inr (cb_publish (CbWhitelistUpdated ''address'' a True)
          (s\<lparr> cb_whitelist_addresses := Some (ws @ [a]) \<rparr>))))))"

definition add_asset_to_whitelist :: "env \<Rightarrow> address \<Rightarrow> string \<Rightarrow> cb_state \<Rightarrow> cb_state bres" where
  "add_asset_to_whitelist env caller code s =
     and_then (breaker_only_admin env caller s) (\<lambda>_.
     let ws = unwrap_or (cb_whitelist_assets s) []
     in and_then (breaker_get_config s) (\<lambda>config.
        and_then (ensure (length ws < bc_max_whitelist_size config) (Panic ''whitelist full'')) (\<lambda>_.
        and_then (ensure (\<not> list_ex (\<lambda>x. x = code) ws) (Panic ''asset already whitelisted'')) (\<lambda>_.
        Inr (cb_publish (CbWhitelistUpdated ''asset'' code True)
          (s\<lparr> cb_whitelist_assets := Some (ws @ [code]) \<rparr>))))))"

section \<open>Invocations\<close>

datatype breaker_call =
    BInitialize breaker_config
  | BAddGuardian address address guardian_role
  | BRemoveGuardian address address
  | PauseGlobal address string
  | PauseBridge address string string
  | PauseAsset address string string
  | RequestRecovery address nat
  | ApproveRecovery address nat
  | ExecuteRecovery address nat
  | SetTriggerConfig address breaker_alert_type int pause_level nat
  | AddToAddressWhitelist address address
  | AddAssetToWhitelist address string

fun breaker_exec :: "address \<Rightarrow> env \<Rightarrow> breaker_call \<Rightarrow> cb_state \<Rightarrow> cb_state bres" where
  "breaker_exec self env (BInitialize c) s = breaker_initialize env c s"
| "breaker_exec self env (BAddGuardian c g r) s = breaker_add_guardian env c g r s"
| "breaker_exec self env (BRemoveGuardian c g) s = breaker_remove_guardian env c g s"
| "breaker_exec self env (PauseGlobal c r) s = pause_global env c r s"
| "breaker_exec self env (PauseBridge c b r) s = pause_bridge env c b r s"
| "breaker_exec self env (PauseAsset c a r) s = pause_asset env c a r s"
| "breaker_exec self env (RequestRecovery c i) s = request_recovery self env c i s"
| "breaker_exec self env (ApproveRecovery c i) s = approve_recovery c i s"
| "breaker_exec self env (ExecuteRecovery c i) s = execute_recovery c i s"
| "breaker_exec self env (SetTriggerConfig c a t l d) s = set_trigger_config env c a t l d s"
| "breaker_exec self env (AddToAddressWhitelist c a) s = add_to_address_whitelist env c a s"
| "breaker_exec self env (AddAssetToWhitelist c a) s = add_asset_to_whitelist env c a s"

section \<open>Invariant\<close>

definition breaker_inv :: "cb_state \<Rightarrow> bool" where
  "breaker_inv s \<longleftrightarrow>
     (cb_config s = None \<longrightarrow> (\<forall>i. cb_pause_state s i = None))
     \<and> (\<forall>i p. cb_pause_state s i = Some p \<longrightarrow>
          0 < i \<and> i \<le> unwrap_or (cb_pause_count s) 0 \<and> ps_level p \<noteq> LevelNone)
     \<and> distinct (map rq_pause_id (unwrap_or (cb_recovery_requests s) []))
     \<and> rq_pause_id ` set (unwrap_or (cb_recovery_requests s) []) \<subseteq> dom (cb_pause_state s)
     \<and> distinct (map gi_address (get_guardians s))"

definition whitelist_inv :: "cb_state \<Rightarrow> bool" where
  "whitelist_inv s \<longleftrightarrow>
     distinct (unwrap_or (cb_whitelist_addresses s) []) \<and> distinct (unwrap_or (cb_whitelist_assets s) [])
     \<and> (case cb_config s of
          None \<Rightarrow> cb_whitelist_addresses s = None \<and> cb_whitelist_assets s = None
        | Some c \<Rightarrow> length (unwrap_or (cb_whitelist_addresses s) []) \<le> bc_max_whitelist_size c
            \<and> length (unwrap_or (cb_whitelist_assets s) []) \<le> bc_max_whitelist_size c)"

lemma approve_first_ids: "approve_first i rs = Inr rs' \<Longrightarrow> map rq_pause_id rs' = map rq_pause_id rs"
  by (induction rs arbitrary: rs') (auto split: if_splits)

lemma executable_request_Some:
  "executable_request i rs = Some n \<Longrightarrow> n < length rs \<and> rq_pause_id (rs ! n) = i"
  by (induction rs arbitrary: n) (auto split: if_splits)

lemma remove_nth_distinct:
  assumes "distinct (map f xs)" "n < length xs"
  shows "distinct (map f (take n xs @ drop (Suc n) xs))"
    "f ` set (take n xs @ drop (Suc n) xs) = f ` set xs - {f (xs ! n)}"
proof -
  have xs: "xs = take n xs @ xs ! n # drop (Suc n) xs" by (rule id_take_nth_drop [OF assms(2)])
  have d: "distinct (map f (take n xs @ xs ! n # drop (Suc n) xs))" using assms(1) xs by simp
  then show "distinct (map f (take n xs @ drop (Suc n) xs))" by auto
  have notin: "f (xs ! n) \<notin> f ` set (take n xs @ drop (Suc n) xs)" using d by auto
  have "f ` set xs = set (map f (take n xs @ xs ! n # drop (Suc n) xs))" using xs by simp
  also have "\<dots> = insert (f (xs ! n)) (f ` set (take n xs @ drop (Suc n) xs))" by auto
  finally show "f ` set (take n xs @ drop (Suc n) xs) = f ` set xs - {f (xs ! n)}"
    using notin by blast
qed

lemma store_pause_inv:
  assumes "breaker_inv s" "store_pause env a sc lv d r s = Inr s'" "lv \<noteq> LevelNone"
  shows "breaker_inv s'"
proof -
  obtain cfg p where c: "cb_config s = Some cfg" and s': "s' = cb_publish (CbPauseTriggered (unwrap_or (cb_pause_count s) 0 + 1) sc lv)
      (s\<lparr> cb_pause_count := Some (unwrap_or (cb_pause_count s) 0 + 1),
         cb_pause_state := (cb_pause_state s)(unwrap_or (cb_pause_count s) 0 + 1 \<mapsto> p) \<rparr>)"
    and p: "ps_level p = lv"
    using assms(2) by (fastforce simp: store_pause_def get_next_pause_id_def breaker_get_config_def)
  show ?thesis
    using assms(1,3) c p unfolding breaker_inv_def s'
    by (auto simp: cb_publish_def get_guardians_def) (metis le_SucI)
qed

lemma breaker_inv_step:
  assumes inv: "breaker_inv s" and step: "breaker_exec self env c s = Inr s'"
  shows "breaker_inv s'"
proof (cases c)
  case (RequestRecovery a i)
  let ?rs = "unwrap_or (cb_recovery_requests s) []"
  have active: "ps_level (get_pause_state self i s) \<noteq> LevelNone"
    and new: "\<forall>r\<in>set ?rs. rq_pause_id r \<noteq> i"
    and s': "\<exists>cfg :: breaker_config. s' = cb_publish (CbRecoveryRequested i a) (s\<lparr> cb_recovery_requests := Some (?rs @
        [\<lparr> rq_pause_id = i, rq_requested_by = a, rq_timestamp = timestamp env, rq_approvals = 1,
           rq_threshold = bc_guardian_threshold cfg \<rparr>]) \<rparr>)"
    using RequestRecovery step by (auto simp: request_recovery_def Let_def list_ex_iff)
  have "i \<in> dom (cb_pause_state s)"
    using active by (auto simp: get_pause_state_def unwrap_or_def split: option.splits)
  with inv new s' show ?thesis
    by (auto simp: breaker_inv_def image_subset_iff cb_publish_def get_guardians_def)
next
  case (ApproveRecovery a i)
  with step obtain rs where rs: "approve_first i (unwrap_or (cb_recovery_requests s) []) = Inr rs"
    and s': "s' = cb_publish (CbGuardianApproved i a) (s\<lparr> cb_recovery_requests := Some rs \<rparr>)"
    by (auto simp: approve_recovery_def)
  have "rq_pause_id ` set rs = rq_pause_id ` set (unwrap_or (cb_recovery_requests s) [])"
    using arg_cong [OF approve_first_ids [OF rs], of set] by simp
  with inv approve_first_ids [OF rs] show ?thesis
    by (simp add: s' breaker_inv_def cb_publish_def get_guardians_def)
next
  case (ExecuteRecovery a i)
  with step obtain n where n: "executable_request i (unwrap_or (cb_recovery_requests s) []) = Some n"
    and s': "s' = cb_publish (CbRecoveryExecuted i) (s\<lparr> cb_recovery_requests :=
         Some (take n (unwrap_or (cb_recovery_requests s) []) @ drop (Suc n) (unwrap_or (cb_recovery_requests s) [])),
         cb_pause_state := (cb_pause_state s)(i := None) \<rparr>)"
    by (auto simp: execute_recovery_def Let_def)
  note ids = executable_request_Some [OF n]
  have d: "distinct (map rq_pause_id (unwrap_or (cb_recovery_requests s) []))"
    using inv by (simp add: breaker_inv_def)
  note rest = remove_nth_distinct [OF d conjunct1 [OF ids]]
  have "rq_pause_id ` set (unwrap_or (cb_recovery_requests s') []) \<subseteq> dom (cb_pause_state s')"
    using inv ids unfolding s' by (simp add: cb_publish_def rest(2) del: set_append) (auto simp: breaker_inv_def)
  moreover have "distinct (map rq_pause_id (unwrap_or (cb_recovery_requests s') []))"
    using rest(1) by (simp add: s' cb_publish_def)
  ultimately show ?thesis
    using inv unfolding breaker_inv_def by (auto simp: s' cb_publish_def get_guardians_def)
next
  case (BAddGuardian a g r)
  with step inv show ?thesis
    by (auto simp: breaker_add_guardian_def breaker_inv_def cb_publish_def Let_def get_guardians_def
        list_ex_iff image_subset_iff)
next
  case (BRemoveGuardian a g)
  with step inv show ?thesis
    by (auto simp: breaker_remove_guardian_def breaker_inv_def cb_publish_def Let_def get_guardians_def
        distinct_map_filter image_subset_iff)
next
  case (PauseGlobal a r)
  with step show ?thesis by (auto simp: pause_global_def intro: store_pause_inv [OF inv])
next
  case (PauseBridge a b r)
  with step show ?thesis by (auto simp: pause_bridge_def intro: store_pause_inv [OF inv])
next
  case (PauseAsset a b r)
  with step show ?thesis by (auto simp: pause_asset_def intro: store_pause_inv [OF inv])
qed (use step inv in \<open>auto simp: breaker_initialize_def set_trigger_config_def
    add_to_address_whitelist_def add_asset_to_whitelist_def breaker_inv_def cb_publish_def Let_def
    get_guardians_def image_subset_iff\<close>)

lemma whitelist_inv_step:
  assumes "whitelist_inv s" "breaker_exec self env c s = Inr s'"
  shows "whitelist_inv s'"
proof -
  have same: "cb_config u = cb_config s \<Longrightarrow> cb_whitelist_addresses u = cb_whitelist_addresses s \<Longrightarrow>
      cb_whitelist_assets u = cb_whitelist_assets s \<Longrightarrow> whitelist_inv u" for u
    using assms(1) by (auto simp: whitelist_inv_def split: option.splits)
  show ?thesis
  proof (cases "(\<exists>cfg. c = BInitialize cfg) \<or> (\<exists>a b. c = AddToAddressWhitelist a b) \<or> (\<exists>a b. c = AddAssetToWhitelist a b)")
    case True
    with assms show ?thesis
      by (auto simp: breaker_initialize_def add_to_address_whitelist_def add_asset_to_whitelist_def
          whitelist_inv_def breaker_get_config_def cb_publish_def Let_def list_ex_iff)
  next
    case False
    with assms(2) show ?thesis
      by (cases c) (auto intro!: same simp: breaker_add_guardian_def breaker_remove_guardian_def pause_global_def
          pause_bridge_def pause_asset_def store_pause_def get_next_pause_id_def request_recovery_def
          approve_recovery_def execute_recovery_def set_trigger_config_def cb_publish_def Let_def)
  qed
qed

interpretation breaker: contract_invariant "breaker_exec self" "\<lambda>s. s = breaker_start" "\<lambda>_. True"
  "\<lambda>s. breaker_inv s \<and> whitelist_inv s" for self
proof unfold_locales
  show "s = breaker_start \<Longrightarrow> breaker_inv s \<and> whitelist_inv s" for s
    by (simp add: breaker_inv_def whitelist_inv_def breaker_start_def get_guardians_def)
qed (blast intro: breaker_inv_step whitelist_inv_step)

lemma breaker_reachable:
  "breaker_inv (run (breaker_exec self) breaker_start h)"
  "whitelist_inv (run (breaker_exec self) breaker_start h)"
  using breaker.run_inv [of breaker_start h self] by (simp_all add: list_all_iff)

section \<open>One guardian alone\<close>

text \<open>Repeated approvals by one caller: the loop of calls and its effect on the request.\<close>

lemma approve_first_append:
  assumes "i \<notin> rq_pause_id ` set rs" "rq_pause_id r = i" "rq_approvals r < u32_max"
  shows "approve_first i (rs @ [r]) = Inr (rs @ [r\<lparr> rq_approvals := rq_approvals r + 1 \<rparr>])"
  using assms by (induction rs) (auto simp: u_checked_def)

lemma executable_append:
  assumes "i \<notin> rq_pause_id ` set rs" "rq_pause_id r = i"
  shows "executable_request i (rs @ [r]) = (if rq_threshold r \<le> rq_approvals r then Some (length rs) else None)"
  using assms by (induction rs) auto

definition awaiting :: "nat \<Rightarrow> address \<Rightarrow> recovery_request list \<Rightarrow> nat \<Rightarrow> nat \<Rightarrow> cb_state \<Rightarrow> bool" where
  "awaiting i g rs n t s \<longleftrightarrow>
     check_guardian_permission g StandardGuardian s = Inr () \<and> i \<notin> rq_pause_id ` set rs
     \<and> (\<exists>r. cb_recovery_requests s = Some (rs @ [r]) \<and> rq_pause_id r = i \<and> rq_approvals r = n
          \<and> rq_threshold r = t)"

lemma permission_publish [simp]:
  "check_guardian_permission g q (cb_publish e s) = check_guardian_permission g q s"
  "check_guardian_permission g q (cb_recovery_requests_update f s) = check_guardian_permission g q s"
  by (simp_all add: check_guardian_permission_def cb_publish_def)

lemma awaiting_approve:
  assumes "awaiting i g rs n t s" "n < u32_max"
  shows "awaiting i g rs (n + 1) t (invoke (breaker_exec self) env (ApproveRecovery g i) s)"
proof -
  obtain r where r: "cb_recovery_requests s = Some (rs @ [r])" "rq_pause_id r = i" "rq_approvals r = n"
    "rq_threshold r = t" and perm: "check_guardian_permission g StandardGuardian s = Inr ()"
    and new: "i \<notin> rq_pause_id ` set rs"
    using assms(1) by (auto simp: awaiting_def)
  have "approve_recovery g i s = Inr (cb_publish (CbGuardianApproved i g)
      (s\<lparr> cb_recovery_requests := Some (rs @ [r\<lparr> rq_approvals := n + 1 \<rparr>]) \<rparr>))"
    using r perm new assms(2) by (simp add: approve_recovery_def approve_first_append)
  then show ?thesis
    using r perm new by (simp add: invoke_def awaiting_def) (simp add: cb_publish_def)
qed

lemma awaiting_approvals:
  assumes "awaiting i g rs n t s" "n + k \<le> u32_max"
  shows "awaiting i g rs (n + k) t (run (breaker_exec self) s (replicate k (env, ApproveRecovery g i)))"
  using assms
proof (induction k arbitrary: n s)
  case (Suc k)
  have "awaiting i g rs (n + 1) t (invoke (breaker_exec self) env (ApproveRecovery g i) s)"
    by (rule awaiting_approve) (use Suc.prems in simp_all)
  from Suc.IH [OF this] Suc.prems(2) show ?case by (simp del: breaker_exec.simps)
qed simp

lemma awaiting_execute:
  assumes "awaiting i g rs n t s" "t \<le> n"
  shows "cb_pause_state (invoke (breaker_exec self) env (ExecuteRecovery g i) s) i = None"
proof -
  obtain r where "cb_recovery_requests s = Some (rs @ [r])" "rq_pause_id r = i" "rq_approvals r = n"
    "rq_threshold r = t" "check_guardian_permission g StandardGuardian s = Inr ()"
    "i \<notin> rq_pause_id ` set rs"
    using assms(1) by (auto simp: awaiting_def)
  with assms(2) show ?thesis
    by (simp add: invoke_def execute_recovery_def executable_append cb_publish_def)
qed

section \<open>Properties\<close>

text \<open>Also: in every reachable state a scope is paused exactly when some stored pause covers it: the
  scan over the pause numbers misses none, and no stored pause is inactive.\<close>

theorem is_paused_exact:
  "is_paused self scope (run (breaker_exec self') breaker_start h) \<longleftrightarrow>
     (\<exists>i p. cb_pause_state (run (breaker_exec self') breaker_start h) i = Some p
        \<and> scope_covers (ps_scope p) scope)"
proof -
  define s where "s = run (breaker_exec self') breaker_start h"
  have stored: "0 < i \<and> i \<le> unwrap_or (cb_pause_count s) 0 \<and> ps_level p \<noteq> LevelNone"
    if "cb_pause_state s i = Some p" for i p
    using breaker_reachable(1) [of self' h] that by (simp add: breaker_inv_def s_def)
  have active: "ps_level (get_pause_state self i s) \<noteq> LevelNone \<longleftrightarrow> cb_pause_state s i \<noteq> None" for i
    using stored by (auto simp: get_pause_state_def unwrap_or_def split: option.split)
  have "is_paused self scope s \<longleftrightarrow> (\<exists>i p. cb_pause_state s i = Some p \<and> scope_covers (ps_scope p) scope)"
    (is "?l \<longleftrightarrow> ?r")
  proof
    assume ?l
    then show ?r
      unfolding is_paused_def Let_def active list_ex_iff by (auto simp: get_pause_state_def) blast+
  next
    assume ?r
    then obtain i p where p: "cb_pause_state s i = Some p" "scope_covers (ps_scope p) scope" by blast
    with stored [OF p(1)] show ?l
      unfolding is_paused_def Let_def active list_ex_iff
      by (auto simp: get_pause_state_def intro!: bexI [of _ i])
  qed
  then show ?thesis by (simp add: s_def)
qed

text \<open>Also: both whitelists of a reachable state are duplicate-free and never longer than the
  configured maximum.\<close>

theorem whitelist_bounds:
  assumes "cb_config (run (breaker_exec self) breaker_start h) = Some c"
  shows "length (unwrap_or (cb_whitelist_addresses (run (breaker_exec self) breaker_start h)) []) \<le> bc_max_whitelist_size c
    \<and> length (unwrap_or (cb_whitelist_assets (run (breaker_exec self) breaker_start h)) []) \<le> bc_max_whitelist_size c
    \<and> distinct (unwrap_or (cb_whitelist_addresses (run (breaker_exec self) breaker_start h)) [])
    \<and> distinct (unwrap_or (cb_whitelist_assets (run (breaker_exec self) breaker_start h)) [])"
  using breaker_reachable(2) [of self h] assms by (simp add: whitelist_inv_def)

definition demo_breaker_env :: env where
  "demo_breaker_env = \<lparr> timestamp = 100, auths = [''admin''] \<rparr>"

definition demo_breaker_config :: breaker_config where
  "demo_breaker_config = \<lparr> bc_admin = ''admin'', bc_guardian_threshold = 3, bc_recovery_delay_warning = 1,
     bc_recovery_delay_partial = 2, bc_recovery_delay_full = 3, bc_max_whitelist_size = 1 \<rparr>"

definition demo_breaker :: "(env \<times> breaker_call) list" where
  "demo_breaker =
    [(demo_breaker_env, BInitialize demo_breaker_config),
     (demo_breaker_env, BAddGuardian ''admin'' ''g1'' EmergencyGuardian),
     (demo_breaker_env, BAddGuardian ''admin'' ''g2'' StandardGuardian),
     (demo_breaker_env, AddToAddressWhitelist ''admin'' ''a''),
     (demo_breaker_env, AddToAddressWhitelist ''admin'' ''b''),
     (demo_breaker_env, PauseGlobal ''g1'' ''attack'')]"

lemma whitelist_bounds_witness:
  "unwrap_or (cb_whitelist_addresses (run (breaker_exec ''cb'') breaker_start demo_breaker)) [] = [''a'']
    \<and> distinct (unwrap_or (cb_whitelist_assets (run (breaker_exec ''cb'') breaker_start demo_breaker)) [])"
proof
  show "unwrap_or (cb_whitelist_addresses (run (breaker_exec ''cb'') breaker_start demo_breaker)) [] = [''a'']"
    by code_simp
  have "cb_config (run (breaker_exec ''cb'') breaker_start demo_breaker) = Some demo_breaker_config"
    by code_simp
  from whitelist_bounds [OF this]
  show "distinct (unwrap_or (cb_whitelist_assets (run (breaker_exec ''cb'') breaker_start demo_breaker)) [])"
    by blast
qed

text \<open>Also: the calls reserved to guardians never ask for the guardian's authorisation: their result
  is the same when nobody has signed.\<close>

theorem guardian_calls_ignore_auth:
  assumes "c = PauseGlobal a r \<or> c = PauseBridge a b r \<or> c = PauseAsset a b r \<or>
    c = RequestRecovery a i \<or> c = ApproveRecovery a i \<or> c = ExecuteRecovery a i"
  shows "breaker_exec self (env\<lparr> auths := [] \<rparr>) c s = breaker_exec self env c s"
  using assms by (auto simp: pause_global_def pause_bridge_def pause_asset_def store_pause_def
      request_recovery_def approve_recovery_def execute_recovery_def)

lemma guardian_calls_ignore_auth_witness:
  "breaker_exec ''cb'' (demo_breaker_env\<lparr> auths := [] \<rparr>) (RequestRecovery ''g2'' 1)
       (run (breaker_exec ''cb'') breaker_start demo_breaker)
     = breaker_exec ''cb'' demo_breaker_env (RequestRecovery ''g2'' 1)
       (run (breaker_exec ''cb'') breaker_start demo_breaker)
   \<and> is_ok (breaker_exec ''cb'' demo_breaker_env (RequestRecovery ''g2'' 1)
       (run (breaker_exec ''cb'') breaker_start demo_breaker))"
proof
  show "is_ok (breaker_exec ''cb'' demo_breaker_env (RequestRecovery ''g2'' 1)
       (run (breaker_exec ''cb'') breaker_start demo_breaker))" by code_simp
qed (rule guardian_calls_ignore_auth, simp)

text \<open>Also: a single guardian of the lowest role lifts any pause nobody has asked to lift yet: it
  requests the recovery, approves it itself as often as the threshold asks, and executes it. None
  of the calls needs a signature.\<close>

theorem one_guardian_lifts_pause:
  assumes "check_guardian_permission g StandardGuardian s = Inr ()"
    and "ps_level (get_pause_state self i s) \<noteq> LevelNone"
    and "i \<notin> rq_pause_id ` set (unwrap_or (cb_recovery_requests s) [])"
    and "cb_config s = Some cfg" "bc_guardian_threshold cfg \<le> u32_max"
  shows "cb_pause_state (run (breaker_exec self) s
     ((env, RequestRecovery g i) # replicate (bc_guardian_threshold cfg - 1) (env, ApproveRecovery g i)
       @ [(env, ExecuteRecovery g i)])) i = None"
proof -
  let ?rs = "unwrap_or (cb_recovery_requests s) []" and ?k = "bc_guardian_threshold cfg - 1"
  let ?r = "\<lparr> rq_pause_id = i, rq_requested_by = g, rq_timestamp = timestamp env, rq_approvals = 1,
               rq_threshold = bc_guardian_threshold cfg \<rparr>"
  let ?s1 = "cb_publish (CbRecoveryRequested i g) (s\<lparr> cb_recovery_requests := Some (?rs @ [?r]) \<rparr>)"
  have "\<not> list_ex (\<lambda>r. rq_pause_id r = i) ?rs" using assms(3) by (auto simp: list_ex_iff)
  then have req: "invoke (breaker_exec self) env (RequestRecovery g i) s = ?s1"
    using assms by (simp add: invoke_def request_recovery_def Let_def breaker_get_config_def)
  have "awaiting i g ?rs 1 (bc_guardian_threshold cfg) ?s1"
    unfolding awaiting_def using assms(1,3) by (simp add: cb_publish_def check_guardian_permission_def)
  from awaiting_approvals [OF this, of ?k self env] assms(5)
  have "awaiting i g ?rs (1 + ?k) (bc_guardian_threshold cfg)
      (run (breaker_exec self) ?s1 (replicate ?k (env, ApproveRecovery g i)))"
    by (auto simp: u32_max_def)
  from awaiting_execute [OF this, of self env] show ?thesis
    by (simp add: run_append req del: breaker_exec.simps)
qed

lemma one_guardian_lifts_pause_witness:
  "cb_pause_state (run (breaker_exec ''cb'') (run (breaker_exec ''cb'') breaker_start demo_breaker)
     ((demo_breaker_env, RequestRecovery ''g2'' 1) # replicate (bc_guardian_threshold demo_breaker_config - 1)
       (demo_breaker_env, ApproveRecovery ''g2'' 1) @ [(demo_breaker_env, ExecuteRecovery ''g2'' 1)])) 1 = None
   \<and> is_paused ''cb'' ScopeGlobal (run (breaker_exec ''cb'') breaker_start demo_breaker)"
proof
  show "is_paused ''cb'' ScopeGlobal (run (breaker_exec ''cb'') breaker_start demo_breaker)" by code_simp
qed (rule one_guardian_lifts_pause; code_simp)

end
