(* ===== verification/Insurance_Pool.thy ===== *)
theory Insurance_Pool
  imports Soroban
begin

text \<open>
  \<open>soroban/src/insurance_pool.rs\<close>: stakers provide liquidity to coverage pools and earn premiums,
  buyers purchase coverage, claims are verified, approved by a set of approvers and paid. One
  record field per constructor of \<open>DataKey\<close>; the contract publishes no events.
\<close>

section \<open>Data\<close>

definition bps_denom :: int where "bps_denom = 10000"
definition reward_scale :: int where "reward_scale = 1000000000"
definition default_withdraw_delay_secs :: nat where "default_withdraw_delay_secs = 86400"
definition default_max_claim_bps :: nat where "default_max_claim_bps = 2000"
definition default_claim_cooldown_secs :: nat where "default_claim_cooldown_secs = 86400"

datatype coverage_tier = Conservative | Balanced | Aggressive

datatype claim_status = ClSubmitted | ClVerified | ClApproved | ClRejected | ClPaid

record insurance_governance =
  ig_approvers :: "address list"
  ig_approval_threshold :: nat
  ig_withdrawal_delay_secs :: nat

record insurance_pool =
  po_pool_id :: string
  po_asset_code :: string
  po_total_liquidity :: int
  po_staked_liquidity :: int
  po_queued_withdrawals :: int
  po_active_coverage :: int
  po_premium_rate_bps :: nat
  po_risk_score_bps :: nat
  po_acc_premium_per_share :: int
  po_premium_collected_total :: int
  po_payout_total :: int
  po_paid_claims :: nat
  po_rejected_claims :: nat
  po_max_claim_amount :: int
  po_max_claim_bps :: nat
  po_claim_cooldown_secs :: nat

record staker_position =
  sp_staker :: address
  sp_pool_id :: string
  sp_staked_amount :: int
  sp_pending_withdrawal :: int
  sp_reward_debt :: int
  sp_accrued_premium :: int
  sp_claimed_premium :: int
  sp_slashed_total :: int

record withdrawal_request =
  wr_request_id :: nat
  wr_staker :: address
  wr_pool_id :: string
  wr_amount :: int
  wr_unlock_time :: nat
  wr_claimed :: bool

record claim_info =
  ci_claim_id :: nat
  ci_claimant :: address
  ci_pool_id :: string
  ci_amount :: int
  ci_evidence_hash :: string
  ci_status :: claim_status
  ci_approvals :: "address list"
  ci_slash_bps :: nat
  ci_slashed_amount :: int

record insurance_state =
  ip_admin :: "address option"
  ip_governance :: "insurance_governance option"
  ip_pool :: "string \<Rightarrow> insurance_pool option"
  ip_position :: "address \<times> string \<Rightarrow> staker_position option"
  ip_claim :: "nat \<Rightarrow> claim_info option"
  ip_withdrawal :: "nat \<Rightarrow> withdrawal_request option"
  ip_claim_count :: "nat option"
  ip_withdrawal_count :: "nat option"
  ip_claim_cooldown :: "address \<times> string \<Rightarrow> nat option"

type_synonym 'a ires = "(unit, 'a) res"

definition insurance_start :: insurance_state where
  "insurance_start = \<lparr> ip_admin = None, ip_governance = None, ip_pool = (\<lambda>_. None),
     ip_position = (\<lambda>_. None), ip_claim = (\<lambda>_. None), ip_withdrawal = (\<lambda>_. None),
     ip_claim_count = None, ip_withdrawal_count = None, ip_claim_cooldown = (\<lambda>_. None) \<rparr>"

section \<open>Storage helpers\<close>

definition insurance_require_admin :: "env \<Rightarrow> address \<Rightarrow> insurance_state \<Rightarrow> unit ires" where
  "insurance_require_admin env caller s =
     and_then (require_auth env caller) (\<lambda>_.
     and_then (ok_or (ip_admin s) (Panic ''not initialized'')) (\<lambda>admin.
     ensure (admin = caller) (Panic ''not admin'')))"

definition load_governance :: "insurance_state \<Rightarrow> insurance_governance ires" where
  "load_governance s = ok_or (ip_governance s) (Panic ''governance not set'')"

definition load_pool :: "string \<Rightarrow> insurance_state \<Rightarrow> insurance_pool ires" where
  "load_pool pid s = ok_or (ip_pool s pid) (Panic ''pool not found'')"

definition save_pool :: "insurance_pool \<Rightarrow> insurance_state \<Rightarrow> insurance_state" where
  "save_pool p s = s\<lparr> ip_pool := (ip_pool s)(po_pool_id p \<mapsto> p) \<rparr>"

definition load_position :: "address \<Rightarrow> string \<Rightarrow> insurance_state \<Rightarrow> staker_position" where
  "load_position staker pid s =
     unwrap_or (ip_position s (staker, pid))
       \<lparr> sp_staker = staker, sp_pool_id = pid, sp_staked_amount = 0, sp_pending_withdrawal = 0,
         sp_reward_debt = 0, sp_accrued_premium = 0, sp_claimed_premium = 0, sp_slashed_total = 0 \<rparr>"

definition save_position :: "staker_position \<Rightarrow> insurance_state \<Rightarrow> insurance_state" where
  "save_position q s = s\<lparr> ip_position := (ip_position s)((sp_staker q, sp_pool_id q) \<mapsto> q) \<rparr>"

definition load_claim :: "nat \<Rightarrow> insurance_state \<Rightarrow> claim_info ires" where
  "load_claim i s = ok_or (ip_claim s i) (Panic ''claim not found'')"

definition save_claim :: "claim_info \<Rightarrow> insurance_state \<Rightarrow> insurance_state" where
  "save_claim c s = s\<lparr> ip_claim := (ip_claim s)(ci_claim_id c \<mapsto> c) \<rparr>"

definition next_claim_id :: "insurance_state \<Rightarrow> (nat \<times> insurance_state) ires" where
  "next_claim_id s =
     (let i = unwrap_or (ip_claim_count s) 0
      in and_then (ensure (i + 1 \<le> u64_max) (Panic ''id overflow'')) (\<lambda>_.
         Inr (i, s\<lparr> ip_claim_count := Some (i + 1) \<rparr>)))"

definition next_withdrawal_id :: "insurance_state \<Rightarrow> (nat \<times> insurance_state) ires" where
  "next_withdrawal_id s =
     (let i = unwrap_or (ip_withdrawal_count s) 0
      in and_then (ensure (i + 1 \<le> u64_max) (Panic ''id overflow'')) (\<lambda>_.
         Inr (i, s\<lparr> ip_withdrawal_count := Some (i + 1) \<rparr>)))"

section \<open>Arithmetic helpers\<close>

definition checked_add_or :: "int \<Rightarrow> int \<Rightarrow> string \<Rightarrow> int ires" where
  "checked_add_or a b msg = ok_or (checked_i128 (a + b)) (Panic msg)"

definition checked_sub_or :: "int \<Rightarrow> int \<Rightarrow> string \<Rightarrow> int ires" where
  "checked_sub_or a b msg = ok_or (checked_i128 (a - b)) (Panic msg)"

text \<open>The repeated \<open>a.checked_mul(b).and_then(|v| v.checked_div(d)).unwrap_or_else(panic)\<close>.\<close>

definition mul_div_or :: "int \<Rightarrow> int \<Rightarrow> int \<Rightarrow> string \<Rightarrow> int ires" where
  "mul_div_or a b d msg = ok_or (Option.bind (checked_mul a b) (\<lambda>v. checked_div v d)) (Panic msg)"

definition calc_reward_debt :: "int \<Rightarrow> int \<Rightarrow> int ires" where
  "calc_reward_debt staked acc = mul_div_or staked acc reward_scale ''reward debt overflow''"

definition sync_rewards :: "insurance_pool \<Rightarrow> staker_position \<Rightarrow> staker_position ires" where
  "sync_rewards p q =
     and_then (calc_reward_debt (sp_staked_amount q) (po_acc_premium_per_share p)) (\<lambda>expected.
     and_then (sub_i128 expected (sp_reward_debt q)) (\<lambda>pending.
     and_then (if 0 < pending then checked_add_or (sp_accrued_premium q) pending ''overflow''
               else Inr (sp_accrued_premium q)) (\<lambda>accrued.
     Inr (q\<lparr> sp_accrued_premium := accrued, sp_reward_debt := expected \<rparr>))))"

text \<open>\<open>position.reward_debt = calc_reward_debt(position.staked_amount, pool.acc_premium_per_share)\<close>.\<close>

definition reset_debt :: "insurance_pool \<Rightarrow> staker_position \<Rightarrow> staker_position ires" where
  "reset_debt p q =
     and_then (calc_reward_debt (sp_staked_amount q) (po_acc_premium_per_share p)) (\<lambda>d.
     Inr (q\<lparr> sp_reward_debt := d \<rparr>))"

definition is_approver :: "address list \<Rightarrow> address \<Rightarrow> bool" where
  "is_approver xs a = list_ex (\<lambda>x. x = a) xs"

fun tier_premium_multiplier_bps :: "coverage_tier \<Rightarrow> int" where
  "tier_premium_multiplier_bps Conservative = 800"
| "tier_premium_multiplier_bps Balanced = 1000"
| "tier_premium_multiplier_bps Aggressive = 1400"

fun tier_coverage_cap_bps :: "coverage_tier \<Rightarrow> int" where
  "tier_coverage_cap_bps Conservative = 5000"
| "tier_coverage_cap_bps Balanced = 7000"
| "tier_coverage_cap_bps Aggressive = 8500"

definition calculate_premium :: "insurance_pool \<Rightarrow> int \<Rightarrow> coverage_tier \<Rightarrow> int ires" where
  "calculate_premium p coverage_amount tier =
     and_then (mul_div_or coverage_amount (int (po_premium_rate_bps p)) bps_denom ''premium overflow'') (\<lambda>base.
     let risk_multiplier = bps_denom + int (po_risk_score_bps p);
         tier_multiplier = tier_premium_multiplier_bps tier
     in ok_or (Option.bind (checked_mul base risk_multiplier) (\<lambda>v.
               Option.bind (checked_mul v tier_multiplier) (\<lambda>w.
               Option.bind (checked_div w bps_denom) (\<lambda>x.
               checked_div x bps_denom)))) (Panic ''premium overflow''))"

definition enforce_claim_caps :: "insurance_pool \<Rightarrow> int \<Rightarrow> unit ires" where
  "enforce_claim_caps p amount =
     and_then (ensure (\<not> (0 < po_max_claim_amount p \<and> po_max_claim_amount p < amount))
       (Panic ''claim exceeds maximum claim amount'')) (\<lambda>_.
     if 0 < po_max_claim_bps p
     then and_then (mul_div_or (po_total_liquidity p) (int (po_max_claim_bps p)) bps_denom
            ''claim cap overflow'') (\<lambda>max_by_pct.
          ensure (amount \<le> max_by_pct) (Panic ''claim exceeds maximum claim percentage of pool''))
     else Inr ())"

definition require_claim_cooldown_elapsed :: "env \<Rightarrow> address \<Rightarrow> string \<Rightarrow> nat
    \<Rightarrow> insurance_state \<Rightarrow> unit ires" where
  "require_claim_cooldown_elapsed env claimant pid cooldown s =
     (if cooldown = 0 then Inr ()
      else let last = unwrap_or (ip_claim_cooldown s (claimant, pid)) 0;
               cooldown_until = sat_u64 (last + cooldown)
           in ensure (cooldown_until \<le> timestamp env) (Panic ''claim cooldown active''))"

definition record_claim_time :: "env \<Rightarrow> address \<Rightarrow> string \<Rightarrow> insurance_state \<Rightarrow> insurance_state" where
  "record_claim_time env claimant pid s =
     s\<lparr> ip_claim_cooldown := (ip_claim_cooldown s)((claimant, pid) \<mapsto> timestamp env) \<rparr>"

section \<open>Administration\<close>

definition insurance_initialize :: "env \<Rightarrow> address \<Rightarrow> insurance_state \<Rightarrow> insurance_state ires" where
  "insurance_initialize env admin s =
     and_then (require_auth env admin) (\<lambda>_.
     and_then (ensure (ip_admin s = None) (Panic ''already initialized'')) (\<lambda>_.
     Inr (s\<lparr> ip_admin := Some admin,
            ip_governance := Some \<lparr> ig_approvers = [admin], ig_approval_threshold = 1,
              ig_withdrawal_delay_secs = default_withdraw_delay_secs \<rparr>,
            ip_claim_count := Some 0, ip_withdrawal_count := Some 0 \<rparr>)))"

definition configure_governance :: "env \<Rightarrow> address \<Rightarrow> insurance_governance
    \<Rightarrow> insurance_state \<Rightarrow> insurance_state ires" where
  "configure_governance env admin g s =
     and_then (insurance_require_admin env admin s) (\<lambda>_.
     and_then (ensure (ig_approvers g \<noteq> []) (Panic ''approvers required'')) (\<lambda>_.
     and_then (ensure (\<not> (ig_approval_threshold g = 0 \<or> length (ig_approvers g) < ig_approval_threshold g))
       (Panic ''invalid threshold'')) (\<lambda>_.
     Inr (s\<lparr> ip_governance := Some g \<rparr>))))"

definition create_pool :: "env \<Rightarrow> address \<Rightarrow> string \<Rightarrow> string \<Rightarrow> nat \<Rightarrow> nat
    \<Rightarrow> insurance_state \<Rightarrow> insurance_state ires" where
  "create_pool env admin pid asset rate risk s =
     and_then (insurance_require_admin env admin s) (\<lambda>_.
     and_then (ensure (\<not> (rate = 0 \<or> 5000 < rate)) (Panic ''invalid premium rate'')) (\<lambda>_.
     and_then (ensure (risk \<le> 10000) (Panic ''invalid risk score'')) (\<lambda>_.
     let p = (case ip_pool s pid of
                Some p \<Rightarrow> p\<lparr> po_asset_code := asset, po_premium_rate_bps := rate, po_risk_score_bps := risk \<rparr>
              | None \<Rightarrow> \<lparr> po_pool_id = pid, po_asset_code = asset, po_total_liquidity = 0,
                  po_staked_liquidity = 0, po_queued_withdrawals = 0, po_active_coverage = 0,
                  po_premium_rate_bps = rate, po_risk_score_bps = risk, po_acc_premium_per_share = 0,
                  po_premium_collected_total = 0, po_payout_total = 0, po_paid_claims = 0,
                  po_rejected_claims = 0, po_max_claim_amount = 0,
                  po_max_claim_bps = default_max_claim_bps,
                  po_claim_cooldown_secs = default_claim_cooldown_secs \<rparr>)
     in Inr (s\<lparr> ip_pool := (ip_pool s)(pid \<mapsto> p) \<rparr>))))"

definition set_risk_score :: "env \<Rightarrow> address \<Rightarrow> string \<Rightarrow> nat \<Rightarrow> insurance_state \<Rightarrow> insurance_state ires" where
  "set_risk_score env admin pid risk s =
     and_then (insurance_require_admin env admin s) (\<lambda>_.
     and_then (ensure (risk \<le> 10000) (Panic ''invalid risk score'')) (\<lambda>_.
     and_then (load_pool pid s) (\<lambda>p.
     Inr (s\<lparr> ip_pool := (ip_pool s)(pid \<mapsto> p\<lparr> po_risk_score_bps := risk \<rparr>) \<rparr>))))"

definition configure_claim_limits :: "env \<Rightarrow> address \<Rightarrow> string \<Rightarrow> int \<Rightarrow> nat \<Rightarrow> nat
    \<Rightarrow> insurance_state \<Rightarrow> insurance_state ires" where
  "configure_claim_limits env admin pid max_amount max_bps cooldown s =
     and_then (insurance_require_admin env admin s) (\<lambda>_.
     and_then (ensure (0 \<le> max_amount) (Panic ''max claim amount cannot be negative'')) (\<lambda>_.
     and_then (ensure (max_bps \<le> 10000) (Panic ''invalid max claim bps'')) (\<lambda>_.
     and_then (load_pool pid s) (\<lambda>p.
     Inr (s\<lparr> ip_pool := (ip_pool s)(pid \<mapsto> p\<lparr> po_max_claim_amount := max_amount,
            po_max_claim_bps := max_bps, po_claim_cooldown_secs := cooldown \<rparr>) \<rparr>)))))"

section \<open>Stakers\<close>

definition stake_liquidity :: "env \<Rightarrow> address \<Rightarrow> string \<Rightarrow> int \<Rightarrow> insurance_state \<Rightarrow> insurance_state ires" where
  "stake_liquidity env staker pid amount s =
     and_then (require_auth env staker) (\<lambda>_.
     and_then (ensure (0 < amount) (Panic ''amount must be positive'')) (\<lambda>_.
     and_then (load_pool pid s) (\<lambda>p.
     and_then (sync_rewards p (load_position staker pid s)) (\<lambda>q.
     and_then (checked_add_or (sp_staked_amount q) amount ''overflow'') (\<lambda>staked.
     and_then (checked_add_or (po_total_liquidity p) amount ''overflow'') (\<lambda>total.
     and_then (checked_add_or (po_staked_liquidity p) amount ''overflow'') (\<lambda>pool_staked.
     let p' = p\<lparr> po_total_liquidity := total, po_staked_liquidity := pool_staked \<rparr>
     in and_then (reset_debt p' (q\<lparr> sp_staked_amount := staked \<rparr>)) (\<lambda>q'.
        Inr (save_pool p' (save_position q' s))))))))))"

definition request_withdrawal :: "env \<Rightarrow> address \<Rightarrow> string \<Rightarrow> int \<Rightarrow> insurance_state
    \<Rightarrow> (nat \<times> insurance_state) ires" where
  "request_withdrawal env staker pid amount s =
     and_then (require_auth env staker) (\<lambda>_.
     and_then (ensure (0 < amount) (Panic ''amount must be positive'')) (\<lambda>_.
     and_then (load_governance s) (\<lambda>g.
     and_then (load_pool pid s) (\<lambda>p.
     and_then (sync_rewards p (load_position staker pid s)) (\<lambda>q.
     and_then (ensure (amount \<le> sp_staked_amount q) (Panic ''insufficient staked balance'')) (\<lambda>_.
     and_then (checked_sub_or (sp_staked_amount q) amount ''underflow'') (\<lambda>staked.
     and_then (checked_add_or (sp_pending_withdrawal q) amount ''overflow'') (\<lambda>pending.
     and_then (checked_sub_or (po_staked_liquidity p) amount ''underflow'') (\<lambda>pool_staked.
     and_then (checked_add_or (po_queued_withdrawals p) amount ''overflow'') (\<lambda>queued.
     and_then (next_withdrawal_id s) (\<lambda>(rid, s1).
     and_then (ensure (timestamp env + ig_withdrawal_delay_secs g \<le> u64_max) (Panic ''time overflow'')) (\<lambda>_.
     let r = \<lparr> wr_request_id = rid, wr_staker = staker, wr_pool_id = pid, wr_amount = amount,
               wr_unlock_time = timestamp env + ig_withdrawal_delay_secs g, wr_claimed = False \<rparr>;
         p' = p\<lparr> po_staked_liquidity := pool_staked, po_queued_withdrawals := queued \<rparr>
     in and_then (reset_debt p' (q\<lparr> sp_staked_amount := staked, sp_pending_withdrawal := pending \<rparr>)) (\<lambda>q'.
        let s2 = save_pool p' (save_position q' s1)
        in Inr (rid, s2\<lparr> ip_withdrawal := (ip_withdrawal s2)(rid \<mapsto> r) \<rparr>))))))))))))))"

definition execute_withdrawal :: "env \<Rightarrow> address \<Rightarrow> string \<Rightarrow> nat \<Rightarrow> insurance_state
    \<Rightarrow> (int \<times> insurance_state) ires" where
  "execute_withdrawal env staker pid rid s =
     and_then (require_auth env staker) (\<lambda>_.
     and_then (ok_or (ip_withdrawal s rid) (Panic ''request not found'')) (\<lambda>r.
     and_then (ensure (wr_staker r = staker \<and> wr_pool_id r = pid) (Panic ''request owner mismatch'')) (\<lambda>_.
     and_then (ensure (\<not> wr_claimed r) (Panic ''request already claimed'')) (\<lambda>_.
     and_then (ensure (wr_unlock_time r \<le> timestamp env) (Panic ''withdrawal still locked'')) (\<lambda>_.
     and_then (load_pool pid s) (\<lambda>p.
     and_then (sync_rewards p (load_position staker pid s)) (\<lambda>q.
     and_then (ensure (wr_amount r \<le> sp_pending_withdrawal q) (Panic ''pending withdrawal mismatch'')) (\<lambda>_.
     and_then (ensure (\<not> (po_total_liquidity p < wr_amount r \<or> po_queued_withdrawals p < wr_amount r))
       (Panic ''pool accounting mismatch'')) (\<lambda>_.
     and_then (checked_sub_or (sp_pending_withdrawal q) (wr_amount r) ''underflow'') (\<lambda>pending.
     and_then (checked_sub_or (po_total_liquidity p) (wr_amount r) ''underflow'') (\<lambda>total.
     and_then (checked_sub_or (po_queued_withdrawals p) (wr_amount r) ''underflow'') (\<lambda>queued.
     let p' = p\<lparr> po_total_liquidity := total, po_queued_withdrawals := queued \<rparr>
     in and_then (reset_debt p' (q\<lparr> sp_pending_withdrawal := pending \<rparr>)) (\<lambda>q'.
        let s1 = save_pool p' (save_position q' s)
        in Inr (wr_amount r,
             s1\<lparr> ip_withdrawal := (ip_withdrawal s1)(rid \<mapsto> r\<lparr> wr_claimed := True \<rparr>) \<rparr>))))))))))))))"

definition claim_premium :: "env \<Rightarrow> address \<Rightarrow> string \<Rightarrow> insurance_state \<Rightarrow> (int \<times> insurance_state) ires" where
  "claim_premium env staker pid s =
     and_then (require_auth env staker) (\<lambda>_.
     and_then (load_pool pid s) (\<lambda>p.
     and_then (sync_rewards p (load_position staker pid s)) (\<lambda>q.
     let amount = sp_accrued_premium q
     in and_then (checked_add_or (sp_claimed_premium q) amount ''overflow'') (\<lambda>claimed.
        and_then (reset_debt p (q\<lparr> sp_accrued_premium := 0, sp_claimed_premium := claimed \<rparr>)) (\<lambda>q'.
        Inr (amount, save_position q' s))))))"

section \<open>Coverage\<close>

definition quote_premium :: "string \<Rightarrow> int \<Rightarrow> coverage_tier \<Rightarrow> insurance_state \<Rightarrow> int ires" where
  "quote_premium pid coverage tier s =
     and_then (ensure (0 < coverage) (Panic ''coverage amount must be positive'')) (\<lambda>_.
     and_then (load_pool pid s) (\<lambda>p. calculate_premium p coverage tier))"

definition purchase_coverage :: "env \<Rightarrow> address \<Rightarrow> string \<Rightarrow> int \<Rightarrow> coverage_tier \<Rightarrow> int
    \<Rightarrow> insurance_state \<Rightarrow> (int \<times> insurance_state) ires" where
  "purchase_coverage env buyer pid coverage tier paid s =
     and_then (require_auth env buyer) (\<lambda>_.
     and_then (ensure (0 < coverage) (Panic ''coverage amount must be positive'')) (\<lambda>_.
     and_then (load_pool pid s) (\<lambda>p.
     and_then (calculate_premium p coverage tier) (\<lambda>required.
     and_then (ensure (required \<le> paid) (Panic ''insufficient premium'')) (\<lambda>_.
     and_then (mul_div_or (po_staked_liquidity p) (tier_coverage_cap_bps tier) bps_denom
       ''coverage cap overflow'') (\<lambda>max_coverage.
     and_then (checked_add_or (po_active_coverage p) coverage ''overflow'') (\<lambda>new_active.
     and_then (ensure (new_active \<le> max_coverage) (Panic ''insufficient available liquidity'')) (\<lambda>_.
     and_then (checked_add_or (po_premium_collected_total p) required ''overflow'') (\<lambda>collected.
     and_then (if 0 < po_staked_liquidity p
               then and_then (mul_div_or required reward_scale (po_staked_liquidity p) ''reward overflow'') (\<lambda>delta.
                    checked_add_or (po_acc_premium_per_share p) delta ''overflow'')
               else Inr (po_acc_premium_per_share p)) (\<lambda>acc.
     Inr (required, save_pool (p\<lparr> po_active_coverage := new_active,
            po_premium_collected_total := collected, po_acc_premium_per_share := acc \<rparr>) s)))))))))))"

section \<open>Claims\<close>

definition submit_claim :: "env \<Rightarrow> address \<Rightarrow> string \<Rightarrow> int \<Rightarrow> string \<Rightarrow> insurance_state
    \<Rightarrow> (nat \<times> insurance_state) ires" where
  "submit_claim env claimant pid amount evidence s =
     and_then (require_auth env claimant) (\<lambda>_.
     and_then (ensure (0 < amount) (Panic ''claim amount must be positive'')) (\<lambda>_.
     and_then (load_pool pid s) (\<lambda>p.
     and_then (ensure (amount \<le> po_active_coverage p) (Panic ''claim exceeds active coverage'')) (\<lambda>_.
     and_then (enforce_claim_caps p amount) (\<lambda>_.
     and_then (require_claim_cooldown_elapsed env claimant pid (po_claim_cooldown_secs p) s) (\<lambda>_.
     and_then (next_claim_id (record_claim_time env claimant pid s)) (\<lambda>(i, s1).
     Inr (i, s1\<lparr> ip_claim := (ip_claim s1)(i \<mapsto>
       \<lparr> ci_claim_id = i, ci_claimant = claimant, ci_pool_id = pid, ci_amount = amount,
         ci_evidence_hash = evidence, ci_status = ClSubmitted, ci_approvals = [],
         ci_slash_bps = 0, ci_slashed_amount = 0 \<rparr>) \<rparr>))))))))"

definition apply_slash :: "int \<Rightarrow> insurance_pool \<Rightarrow> staker_position
    \<Rightarrow> (insurance_pool \<times> staker_position) ires" where
  "apply_slash slashed p q =
     (if 0 < slashed
      then and_then (checked_sub_or (sp_staked_amount q) slashed ''underflow'') (\<lambda>staked.
           and_then (checked_add_or (sp_slashed_total q) slashed ''overflow'') (\<lambda>slashed_total.
           and_then (checked_sub_or (po_staked_liquidity p) slashed ''underflow'') (\<lambda>pool_staked.
           and_then (checked_sub_or (po_total_liquidity p) slashed ''underflow'') (\<lambda>total.
           Inr (p\<lparr> po_staked_liquidity := pool_staked, po_total_liquidity := total \<rparr>,
                q\<lparr> sp_staked_amount := staked, sp_slashed_total := slashed_total \<rparr>)))))
      else Inr (p, q))"

definition verify_claim :: "env \<Rightarrow> address \<Rightarrow> nat \<Rightarrow> bool \<Rightarrow> nat \<Rightarrow> insurance_state \<Rightarrow> insurance_state ires" where
  "verify_claim env admin i is_valid slash_bps s =
     and_then (insurance_require_admin env admin s) (\<lambda>_.
     and_then (load_claim i s) (\<lambda>c.
     and_then (ensure (ci_status c = ClSubmitted) (Panic ''invalid claim status'')) (\<lambda>_.
     if is_valid
     then Inr (save_claim (c\<lparr> ci_status := ClVerified, ci_slash_bps := 0, ci_slashed_amount := 0 \<rparr>) s)
     else
       and_then (ensure (slash_bps \<le> 10000) (Panic ''invalid slash bps'')) (\<lambda>_.
       and_then (load_pool (ci_pool_id c) s) (\<lambda>p.
       and_then (sync_rewards p (load_position (ci_claimant c) (ci_pool_id c) s)) (\<lambda>q.
       and_then (mul_div_or (ci_amount c) (int slash_bps) bps_denom ''slash overflow'') (\<lambda>slash_amount.
       let slashed = (if sp_staked_amount q < slash_amount then sp_staked_amount q else slash_amount)
       in and_then (apply_slash slashed p q) (\<lambda>(p1, q1).
          let p2 = p1\<lparr> po_rejected_claims := sat_u32 (po_rejected_claims p1 + 1) \<rparr>
          in and_then (reset_debt p2 q1) (\<lambda>q2.
             Inr (save_claim (c\<lparr> ci_status := ClRejected, ci_slash_bps := slash_bps,
                    ci_slashed_amount := slashed \<rparr>)
               (save_pool p2 (save_position q2 s))))))))))))"

definition approve_claim :: "env \<Rightarrow> address \<Rightarrow> nat \<Rightarrow> insurance_state \<Rightarrow> insurance_state ires" where
  "approve_claim env approver i s =
     and_then (require_auth env approver) (\<lambda>_.
     and_then (load_governance s) (\<lambda>g.
     and_then (ensure (is_approver (ig_approvers g) approver) (Panic ''not authorized approver'')) (\<lambda>_.
     and_then (load_claim i s) (\<lambda>c.
     and_then (ensure (\<not> (ci_status c \<noteq> ClVerified \<and> ci_status c \<noteq> ClApproved))
       (Panic ''claim not verifiable for approval'')) (\<lambda>_.
     and_then (ensure (\<not> is_approver (ci_approvals c) approver) (Panic ''already approved by approver'')) (\<lambda>_.
     let c1 = c\<lparr> ci_approvals := ci_approvals c @ [approver] \<rparr>;
         c2 = (if ig_approval_threshold g \<le> length (ci_approvals c1)
               then c1\<lparr> ci_status := ClApproved \<rparr> else c1)
     in Inr (save_claim c2 s)))))))"

definition execute_payout :: "env \<Rightarrow> address \<Rightarrow> nat \<Rightarrow> insurance_state \<Rightarrow> insurance_state ires" where
  "execute_payout env admin i s =
     and_then (insurance_require_admin env admin s) (\<lambda>_.
     and_then (load_claim i s) (\<lambda>c.
     and_then (ensure (ci_status c = ClApproved) (Panic ''claim not approved'')) (\<lambda>_.
     and_then (load_pool (ci_pool_id c) s) (\<lambda>p.
     and_then (ensure (ci_amount c \<le> po_total_liquidity p) (Panic ''insufficient pool liquidity'')) (\<lambda>_.
     and_then (ensure (ci_amount c \<le> po_active_coverage p) (Panic ''coverage accounting mismatch'')) (\<lambda>_.
     and_then (checked_sub_or (po_total_liquidity p) (ci_amount c) ''underflow'') (\<lambda>total.
     and_then (checked_sub_or (po_active_coverage p) (ci_amount c) ''underflow'') (\<lambda>active.
     and_then (checked_add_or (po_payout_total p) (ci_amount c) ''overflow'') (\<lambda>paid.
     Inr (save_claim (c\<lparr> ci_status := ClPaid \<rparr>)
       (save_pool (p\<lparr> po_total_liquidity := total, po_active_coverage := active,
          po_payout_total := paid, po_paid_claims := sat_u32 (po_paid_claims p + 1) \<rparr>) s)))))))))))"

section \<open>Getters\<close>

definition get_pool :: "string \<Rightarrow> insurance_state \<Rightarrow> insurance_pool option" where
  "get_pool pid s = ip_pool s pid"

definition get_claim :: "nat \<Rightarrow> insurance_state \<Rightarrow> claim_info option" where
  "get_claim i s = ip_claim s i"

definition get_staker_position :: "address \<Rightarrow> string \<Rightarrow> insurance_state \<Rightarrow> staker_position option" where
  "get_staker_position staker pid s = ip_position s (staker, pid)"

section \<open>Invocations\<close>

datatype insurance_call =
    IInitialize address
  | ConfigureGovernance address insurance_governance
  | CreatePool address string string nat nat
  | SetRiskScore address string nat
  | ConfigureClaimLimits address string int nat nat
  | StakeLiquidity address string int
  | RequestWithdrawal address string int
  | ExecuteWithdrawal address string nat
  | PurchaseCoverage address string int coverage_tier int
  | SubmitClaim address string int string
  | VerifyClaim address nat bool nat
  | ApproveClaim address nat
  | ExecutePayout address nat
  | ClaimPremium address string

fun insurance_exec :: "env \<Rightarrow> insurance_call \<Rightarrow> insurance_state \<Rightarrow> insurance_state ires" where
  "insurance_exec env (IInitialize a) s = insurance_initialize env a s"
| "insurance_exec env (ConfigureGovernance a g) s = configure_governance env a g s"
| "insurance_exec env (CreatePool a p c r k) s = create_pool env a p c r k s"
| "insurance_exec env (SetRiskScore a p k) s = set_risk_score env a p k s"
| "insurance_exec env (ConfigureClaimLimits a p m b c) s = configure_claim_limits env a p m b c s"
| "insurance_exec env (StakeLiquidity a p n) s = stake_liquidity env a p n s"
| "insurance_exec env (RequestWithdrawal a p n) s = state_of (request_withdrawal env a p n s)"
| "insurance_exec env (ExecuteWithdrawal a p i) s = state_of (execute_withdrawal env a p i s)"
| "insurance_exec env (PurchaseCoverage a p n t m) s = state_of (purchase_coverage env a p n t m s)"
| "insurance_exec env (SubmitClaim a p n e) s = state_of (submit_claim env a p n e s)"
| "insurance_exec env (VerifyClaim a i v b) s = verify_claim env a i v b s"
| "insurance_exec env (ApproveClaim a i) s = approve_claim env a i s"
| "insurance_exec env (ExecutePayout a i) s = execute_payout env a i s"
| "insurance_exec env (ClaimPremium a p) s = state_of (claim_premium env a p s)"

section \<open>The books of a pool\<close>

text \<open>What the positions, requests and claims of a pool add up to.\<close>

definition staked_sum :: "insurance_state \<Rightarrow> string \<Rightarrow> int" where
  "staked_sum s pid = sum_entries (\<lambda>k q. if snd k = pid then sp_staked_amount q else 0) (ip_position s)"

definition pending_sum :: "insurance_state \<Rightarrow> string \<Rightarrow> int" where
  "pending_sum s pid = sum_entries (\<lambda>k q. if snd k = pid then sp_pending_withdrawal q else 0) (ip_position s)"

definition open_requests :: "insurance_state \<Rightarrow> string \<Rightarrow> int" where
  "open_requests s pid =
     sum_entries (\<lambda>i r. if wr_pool_id r = pid \<and> \<not> wr_claimed r then wr_amount r else 0) (ip_withdrawal s)"

definition paid_claims :: "insurance_state \<Rightarrow> string \<Rightarrow> int" where
  "paid_claims s pid =
     sum_entries (\<lambda>i c. if ci_pool_id c = pid \<and> ci_status c = ClPaid then ci_amount c else 0) (ip_claim s)"

definition pool_value :: "(insurance_pool \<Rightarrow> int) \<Rightarrow> insurance_state \<Rightarrow> string \<Rightarrow> int" where
  "pool_value f s pid = (case ip_pool s pid of None \<Rightarrow> 0 | Some p \<Rightarrow> f p)"

definition pool_books :: "insurance_state \<Rightarrow> string \<Rightarrow> bool" where
  "pool_books s pid \<longleftrightarrow>
     pool_value po_staked_liquidity s pid = staked_sum s pid
     \<and> pool_value po_queued_withdrawals s pid = pending_sum s pid
     \<and> pool_value po_queued_withdrawals s pid = open_requests s pid
     \<and> pool_value po_payout_total s pid = paid_claims s pid
     \<and> pool_value po_total_liquidity s pid
         = pool_value po_staked_liquidity s pid + pool_value po_queued_withdrawals s pid
           - pool_value po_payout_total s pid
     \<and> 0 \<le> pool_value po_active_coverage s pid"

definition insurance_wf :: "insurance_state \<Rightarrow> bool" where
  "insurance_wf s \<longleftrightarrow>
     finite (dom (ip_position s)) \<and> finite (dom (ip_withdrawal s)) \<and> finite (dom (ip_claim s))
     \<and> (\<forall>pid p. ip_pool s pid = Some p \<longrightarrow> po_pool_id p = pid)
     \<and> (\<forall>a pid q. ip_position s (a, pid) = Some q \<longrightarrow> sp_staker q = a \<and> sp_pool_id q = pid)
     \<and> (\<forall>a pid q. ip_position s (a, pid) = Some q \<longrightarrow> 0 \<le> sp_staked_amount q \<and> 0 \<le> sp_pending_withdrawal q)
     \<and> (\<forall>i c. ip_claim s i = Some c \<longrightarrow> ci_claim_id c = i \<and> i < unwrap_or (ip_claim_count s) 0
          \<and> 0 < ci_amount c \<and> distinct (ci_approvals c) \<and> (ci_status c \<in> {ClApproved, ClPaid} \<longrightarrow> ci_approvals c \<noteq> []))
     \<and> (\<forall>i r. ip_withdrawal s i = Some r \<longrightarrow> i < unwrap_or (ip_withdrawal_count s) 0 \<and> 0 < wr_amount r)
     \<and> (ip_admin s = None \<longrightarrow> ip_claim_count s = None \<and> ip_withdrawal_count s = None
          \<and> (\<forall>pid. ip_pool s pid = None))
     \<and> (\<forall>g. ip_governance s = Some g \<longrightarrow> 0 < ig_approval_threshold g)"

definition insurance_inv :: "insurance_state \<Rightarrow> bool" where
  "insurance_inv s \<longleftrightarrow> insurance_wf s \<and> (\<forall>pid. pool_books s pid)"

section \<open>Effect of the storage helpers\<close>

lemma save_fields [simp]:
  "ip_position (save_pool p s) = ip_position s" "ip_claim (save_pool p s) = ip_claim s"
  "ip_withdrawal (save_pool p s) = ip_withdrawal s" "ip_claim_count (save_pool p s) = ip_claim_count s"
  "ip_withdrawal_count (save_pool p s) = ip_withdrawal_count s" "ip_admin (save_pool p s) = ip_admin s"
  "ip_governance (save_pool p s) = ip_governance s" "ip_pool (save_pool p s) = (ip_pool s)(po_pool_id p \<mapsto> p)"
  "ip_pool (save_position q s) = ip_pool s" "ip_claim (save_position q s) = ip_claim s"
  "ip_withdrawal (save_position q s) = ip_withdrawal s" "ip_claim_count (save_position q s) = ip_claim_count s"
  "ip_withdrawal_count (save_position q s) = ip_withdrawal_count s" "ip_admin (save_position q s) = ip_admin s"
  "ip_governance (save_position q s) = ip_governance s"
  "ip_position (save_position q s) = (ip_position s)((sp_staker q, sp_pool_id q) \<mapsto> q)"
  "ip_pool (save_claim c s) = ip_pool s" "ip_position (save_claim c s) = ip_position s"
  "ip_withdrawal (save_claim c s) = ip_withdrawal s" "ip_claim_count (save_claim c s) = ip_claim_count s"
  "ip_withdrawal_count (save_claim c s) = ip_withdrawal_count s" "ip_admin (save_claim c s) = ip_admin s"
  "ip_governance (save_claim c s) = ip_governance s" "ip_claim (save_claim c s) = (ip_claim s)(ci_claim_id c \<mapsto> c)"
  by (simp_all add: save_pool_def save_position_def save_claim_def)

lemma load_pool_Inr [simp]: "load_pool pid s = Inr p \<longleftrightarrow> ip_pool s pid = Some p"
  by (simp add: load_pool_def)

lemma load_claim_Inr [simp]: "load_claim i s = Inr c \<longleftrightarrow> ip_claim s i = Some c"
  by (simp add: load_claim_def)

lemma checked_or_Inr [simp]:
  "checked_add_or a b m = Inr x \<longleftrightarrow> in_i128 (a + b) \<and> x = a + b"
  "checked_sub_or a b m = Inr x \<longleftrightarrow> in_i128 (a - b) \<and> x = a - b"
  by (simp_all add: checked_add_or_def checked_sub_or_def)

definition same_stake :: "staker_position \<Rightarrow> staker_position \<Rightarrow> bool" where
  "same_stake q q' \<longleftrightarrow> sp_staker q' = sp_staker q \<and> sp_pool_id q' = sp_pool_id q
     \<and> sp_staked_amount q' = sp_staked_amount q \<and> sp_pending_withdrawal q' = sp_pending_withdrawal q"

lemma sync_rewards_stake: "sync_rewards p q = Inr q' \<Longrightarrow> same_stake q q'"
  by (auto simp: sync_rewards_def same_stake_def split: if_splits)

lemma reset_debt_stake: "reset_debt p q = Inr q' \<Longrightarrow> same_stake q q'"
  by (auto simp: reset_debt_def same_stake_def)

lemma load_position_key:
  "insurance_wf s \<Longrightarrow> sp_staker (load_position a pid s) = a \<and> sp_pool_id (load_position a pid s) = pid"
  by (auto simp: insurance_wf_def load_position_def unwrap_or_def split: option.splits)

lemma load_position_nonneg:
  "insurance_wf s \<Longrightarrow> 0 \<le> sp_staked_amount (load_position a pid s) \<and> 0 \<le> sp_pending_withdrawal (load_position a pid s)"
  by (auto simp: insurance_wf_def load_position_def unwrap_or_def split: option.splits)

lemma position_sums_upd:
  assumes "finite (dom (ip_position s))"
    and "ip_position s' = (ip_position s)((a, pid) \<mapsto> q)"
  shows "staked_sum s' x = staked_sum s x
      + (if x = pid then sp_staked_amount q - sp_staked_amount (load_position a pid s) else 0)"
    "pending_sum s' x = pending_sum s x
      + (if x = pid then sp_pending_withdrawal q - sp_pending_withdrawal (load_position a pid s) else 0)"
  using assms
  by (auto simp: staked_sum_def pending_sum_def sum_entries_upd entry_def load_position_def unwrap_or_def
      split: option.splits)

lemma open_requests_upd:
  assumes "finite (dom (ip_withdrawal s))" "ip_withdrawal s' = (ip_withdrawal s)(i \<mapsto> r)"
  shows "open_requests s' x = open_requests s x
      - (case ip_withdrawal s i of None \<Rightarrow> 0
         | Some r0 \<Rightarrow> if wr_pool_id r0 = x \<and> \<not> wr_claimed r0 then wr_amount r0 else 0)
      + (if wr_pool_id r = x \<and> \<not> wr_claimed r then wr_amount r else 0)"
  using assms by (auto simp: open_requests_def sum_entries_upd entry_def split: option.splits)

lemma paid_claims_upd:
  assumes "finite (dom (ip_claim s))" "ip_claim s' = (ip_claim s)(i \<mapsto> c)"
  shows "paid_claims s' x = paid_claims s x
      - (case ip_claim s i of None \<Rightarrow> 0
         | Some c0 \<Rightarrow> if ci_pool_id c0 = x \<and> ci_status c0 = ClPaid then ci_amount c0 else 0)
      + (if ci_pool_id c = x \<and> ci_status c = ClPaid then ci_amount c else 0)"
  using assms by (auto simp: paid_claims_def sum_entries_upd entry_def split: option.splits)

lemma sums_same:
  "ip_position s' = ip_position s \<Longrightarrow> staked_sum s' x = staked_sum s x"
  "ip_position s' = ip_position s \<Longrightarrow> pending_sum s' x = pending_sum s x"
  "ip_withdrawal s' = ip_withdrawal s \<Longrightarrow> open_requests s' x = open_requests s x"
  "ip_claim s' = ip_claim s \<Longrightarrow> paid_claims s' x = paid_claims s x"
  by (simp_all add: staked_sum_def pending_sum_def open_requests_def paid_claims_def)

lemma pool_value_upd:
  "ip_pool s' = (ip_pool s)(pid \<mapsto> p) \<Longrightarrow>
     pool_value f s' x = (if x = pid then f p else pool_value f s x)"
  "ip_pool s' = ip_pool s \<Longrightarrow> pool_value f s' x = pool_value f s x"
  by (simp_all add: pool_value_def)

section \<open>Every call keeps the books\<close>

text \<open>One step of bookkeeping: a position and its pool change by the same amounts, and so do the
  open requests and the paid claims.\<close>

lemma books_upd:
  assumes inv: "insurance_inv s" and p: "ip_pool s pid = Some p"
    and pool: "ip_pool s' = (ip_pool s)(pid \<mapsto> p')"
    and pos: "ip_position s' = (ip_position s)((a, pid) \<mapsto> q)"
    and staked: "po_staked_liquidity p' - po_staked_liquidity p
      = sp_staked_amount q - sp_staked_amount (load_position a pid s)"
    and queued: "po_queued_withdrawals p' - po_queued_withdrawals p
      = sp_pending_withdrawal q - sp_pending_withdrawal (load_position a pid s)"
    and req: "open_requests s' x = open_requests s x
      + (if x = pid then po_queued_withdrawals p' - po_queued_withdrawals p else 0)"
    and paid: "paid_claims s' x = paid_claims s x
      + (if x = pid then po_payout_total p' - po_payout_total p else 0)"
    and tot: "po_total_liquidity p' = po_total_liquidity p
      + (po_staked_liquidity p' - po_staked_liquidity p)
      + (po_queued_withdrawals p' - po_queued_withdrawals p) - (po_payout_total p' - po_payout_total p)"
    and act: "0 \<le> po_active_coverage p'"
  shows "pool_books s' x"
proof -
  have books: "pool_books s x" and fin: "finite (dom (ip_position s))"
    using inv by (simp_all add: insurance_inv_def insurance_wf_def)
  note sums = position_sums_upd [OF fin pos, of x] req paid
  note vals = pool_value_upd(1) [OF pool, of _ x]
  have "pool_value f s pid = f p" for f using p by (simp add: pool_value_def)
  then show ?thesis
    using books staked queued tot act unfolding pool_books_def vals sums
    by (cases "x = pid") simp_all
qed

lemma active_nonneg: "insurance_inv s \<Longrightarrow> ip_pool s pid = Some p \<Longrightarrow> 0 \<le> po_active_coverage p"
  by (auto simp: insurance_inv_def pool_books_def pool_value_def split: option.splits)

lemma stake_liquidity_inv:
  assumes inv: "insurance_inv s" and call: "stake_liquidity env a pid n s = Inr s'"
  shows "insurance_inv s'"
proof -
  have wf: "insurance_wf s" using inv by (simp add: insurance_inv_def)
  obtain p q0 q where p: "ip_pool s pid = Some p" and n: "0 < n"
    and sync: "sync_rewards p (load_position a pid s) = Inr q0"
    and debt: "reset_debt (p\<lparr> po_total_liquidity := po_total_liquidity p + n,
        po_staked_liquidity := po_staked_liquidity p + n \<rparr>)
      (q0\<lparr> sp_staked_amount := sp_staked_amount q0 + n \<rparr>) = Inr q"
    and s': "s' = save_pool (p\<lparr> po_total_liquidity := po_total_liquidity p + n,
        po_staked_liquidity := po_staked_liquidity p + n \<rparr>) (save_position q s)"
    using call by (auto simp: stake_liquidity_def Let_def)
  have q: "sp_staker q = a" "sp_pool_id q = pid"
      "sp_staked_amount q = sp_staked_amount (load_position a pid s) + n"
      "sp_pending_withdrawal q = sp_pending_withdrawal (load_position a pid s)"
    using sync_rewards_stake [OF sync] reset_debt_stake [OF debt] load_position_key [OF wf]
    by (simp_all add: same_stake_def)
  have id: "po_pool_id p = pid" using wf p by (simp add: insurance_wf_def)
  have fin: "finite (dom (ip_position s))" using wf by (simp add: insurance_wf_def)
  have pos: "ip_position s' = (ip_position s)((a, pid) \<mapsto> q)" using q by (simp add: s')
  have "insurance_wf s'"
    using wf p q n id load_position_nonneg [OF wf, of a pid] by (auto simp: insurance_wf_def s')
  moreover have "pool_books s' x" for x
  proof (rule books_upd [OF inv p _ pos])
    show "ip_pool s' = (ip_pool s)(pid \<mapsto> p\<lparr> po_total_liquidity := po_total_liquidity p + n,
        po_staked_liquidity := po_staked_liquidity p + n \<rparr>)" using id by (simp add: s')
  qed (use q n active_nonneg [OF inv p] in \<open>auto simp: s' intro!: sums_same\<close>)
  ultimately show ?thesis by (simp add: insurance_inv_def)
qed

lemma wf_fields:
  "insurance_wf s \<Longrightarrow> finite (dom (ip_position s))" "insurance_wf s \<Longrightarrow> finite (dom (ip_withdrawal s))"
  "insurance_wf s \<Longrightarrow> finite (dom (ip_claim s))"
  "insurance_wf s \<Longrightarrow> ip_pool s pid = Some p \<Longrightarrow> po_pool_id p = pid"
  "insurance_wf s \<Longrightarrow> ip_claim s i = Some c \<Longrightarrow> ci_claim_id c = i"
  by (simp_all add: insurance_wf_def)

lemma fresh_ids:
  "insurance_wf s \<Longrightarrow> ip_withdrawal s (unwrap_or (ip_withdrawal_count s) 0) = None"
  "insurance_wf s \<Longrightarrow> ip_claim s (unwrap_or (ip_claim_count s) 0) = None"
  unfolding insurance_wf_def by (metis less_irrefl not_None_eq)+

lemma inv_wf: "insurance_inv s \<Longrightarrow> insurance_wf s"
  by (simp add: insurance_inv_def)

lemma request_withdrawal_inv:
  assumes inv: "insurance_inv s" and call: "request_withdrawal env a pid n s = Inr (rid, s')"
  shows "insurance_inv s'"
proof -
  note wf = inv_wf [OF inv]
  let ?upd = "\<lambda>p. p\<lparr> po_staked_liquidity := po_staked_liquidity p - n,
        po_queued_withdrawals := po_queued_withdrawals p + n \<rparr> :: insurance_pool"
  obtain p q0 q and g :: insurance_governance where p: "ip_pool s pid = Some p" and n: "0 < n" "n \<le> sp_staked_amount q0"
    and sync: "sync_rewards p (load_position a pid s) = Inr q0"
    and rid: "rid = unwrap_or (ip_withdrawal_count s) 0"
    and debt: "reset_debt (?upd p) (q0\<lparr> sp_staked_amount := sp_staked_amount q0 - n,
        sp_pending_withdrawal := sp_pending_withdrawal q0 + n \<rparr>) = Inr q"
    and s': "s' = (save_pool (?upd p) (save_position q (s\<lparr> ip_withdrawal_count := Some (rid + 1) \<rparr>)))
        \<lparr> ip_withdrawal := (ip_withdrawal s)(rid \<mapsto> \<lparr> wr_request_id = rid, wr_staker = a,
          wr_pool_id = pid, wr_amount = n, wr_unlock_time = timestamp env + ig_withdrawal_delay_secs g,
          wr_claimed = False \<rparr>) \<rparr>"
    using call by (auto simp: request_withdrawal_def load_governance_def next_withdrawal_id_def Let_def)
  have q: "sp_staker q = a" "sp_pool_id q = pid"
      "sp_staked_amount q = sp_staked_amount (load_position a pid s) - n"
      "sp_pending_withdrawal q = sp_pending_withdrawal (load_position a pid s) + n"
      "n \<le> sp_staked_amount (load_position a pid s)"
    using sync_rewards_stake [OF sync] reset_debt_stake [OF debt] load_position_key [OF wf] n
    by (simp_all add: same_stake_def)
  have id: "po_pool_id p = pid" using wf p by (rule wf_fields)
  have wd: "ip_withdrawal s' = (ip_withdrawal s)(rid \<mapsto> \<lparr> wr_request_id = rid, wr_staker = a,
        wr_pool_id = pid, wr_amount = n, wr_unlock_time = timestamp env + ig_withdrawal_delay_secs g,
        wr_claimed = False \<rparr>)" by (simp add: s')
  have pos': "ip_position s' = (ip_position s)((a, pid) \<mapsto> q)" using q by (simp add: s')
  have pool': "ip_pool s' = (ip_pool s)(pid \<mapsto> ?upd p)" using id by (simp add: s')
  have adm: "ip_admin s \<noteq> None" using wf p by (auto simp: insurance_wf_def)
  have "insurance_wf s'"
    using wf q n rid adm load_position_nonneg [OF wf, of a pid]
    unfolding insurance_wf_def pos' pool' wd by (auto simp: s' id intro: less_SucI)
  moreover have "pool_books s' x" for x
  proof (rule books_upd [OF inv p pool' pos'])
    show "open_requests s' x = open_requests s x
        + (if x = pid then po_queued_withdrawals (?upd p) - po_queued_withdrawals p else 0)"
      using open_requests_upd [OF wf_fields(2) [OF wf] wd, of x] fresh_ids(1) [OF wf] rid by simp
    show "paid_claims s' x = paid_claims s x + (if x = pid then po_payout_total (?upd p) - po_payout_total p else 0)"
      by (simp add: s' paid_claims_def)
  qed (use q n active_nonneg [OF inv p] in simp_all)
  ultimately show ?thesis by (simp add: insurance_inv_def)
qed

lemma execute_withdrawal_inv:
  assumes inv: "insurance_inv s" and call: "execute_withdrawal env a pid rid s = Inr (m, s')"
  shows "insurance_inv s'"
proof -
  note wf = inv_wf [OF inv]
  let ?upd = "\<lambda>p n. p\<lparr> po_total_liquidity := po_total_liquidity p - n,
        po_queued_withdrawals := po_queued_withdrawals p - n \<rparr> :: insurance_pool"
  obtain p q0 q r where r: "ip_withdrawal s rid = Some r" "wr_staker r = a" "wr_pool_id r = pid" "\<not> wr_claimed r"
    and p: "ip_pool s pid = Some p" and n: "wr_amount r \<le> sp_pending_withdrawal q0"
    and sync: "sync_rewards p (load_position a pid s) = Inr q0"
    and debt: "reset_debt (?upd p (wr_amount r)) (q0\<lparr>
        sp_pending_withdrawal := sp_pending_withdrawal q0 - wr_amount r \<rparr>) = Inr q"
    and s': "s' = (save_pool (?upd p (wr_amount r)) (save_position q s))
        \<lparr> ip_withdrawal := (ip_withdrawal s)(rid \<mapsto> r\<lparr> wr_claimed := True \<rparr>) \<rparr>"
    using call by (auto simp: execute_withdrawal_def Let_def)
  have q: "sp_staker q = a" "sp_pool_id q = pid"
      "sp_staked_amount q = sp_staked_amount (load_position a pid s)"
      "sp_pending_withdrawal q = sp_pending_withdrawal (load_position a pid s) - wr_amount r"
      "wr_amount r \<le> sp_pending_withdrawal (load_position a pid s)"
    using sync_rewards_stake [OF sync] reset_debt_stake [OF debt] load_position_key [OF wf] n
    by (simp_all add: same_stake_def)
  have id: "po_pool_id p = pid" using wf p by (rule wf_fields)
  have wd: "ip_withdrawal s' = (ip_withdrawal s)(rid \<mapsto> r\<lparr> wr_claimed := True \<rparr>)" by (simp add: s')
  have pos': "ip_position s' = (ip_position s)((a, pid) \<mapsto> q)" using q by (simp add: s')
  have pool': "ip_pool s' = (ip_pool s)(pid \<mapsto> ?upd p (wr_amount r))" using id by (simp add: s')
  have "insurance_wf s'"
    using wf q r(1) p load_position_nonneg [OF wf, of a pid]
    unfolding insurance_wf_def pos' pool' wd by (auto simp: s' id)
  moreover have "pool_books s' x" for x
  proof (rule books_upd [OF inv p pool' pos'])
    show "open_requests s' x = open_requests s x
        + (if x = pid then po_queued_withdrawals (?upd p (wr_amount r)) - po_queued_withdrawals p else 0)"
      using open_requests_upd [OF wf_fields(2) [OF wf] wd, of x] r by simp
    show "paid_claims s' x = paid_claims s x
        + (if x = pid then po_payout_total (?upd p (wr_amount r)) - po_payout_total p else 0)"
      by (simp add: s' paid_claims_def)
  qed (use q active_nonneg [OF inv p] in simp_all)
  ultimately show ?thesis by (simp add: insurance_inv_def)
qed

lemma claim_premium_inv:
  assumes inv: "insurance_inv s" and call: "claim_premium env a pid s = Inr (m, s')"
  shows "insurance_inv s'"
proof -
  note wf = inv_wf [OF inv]
  obtain p q0 q where p: "ip_pool s pid = Some p"
    and sync: "sync_rewards p (load_position a pid s) = Inr q0"
    and debt: "reset_debt p (q0\<lparr> sp_accrued_premium := 0,
        sp_claimed_premium := sp_claimed_premium q0 + sp_accrued_premium q0 \<rparr>) = Inr q"
    and s': "s' = save_position q s"
    using call by (auto simp: claim_premium_def Let_def)
  have q: "sp_staker q = a" "sp_pool_id q = pid"
      "sp_staked_amount q = sp_staked_amount (load_position a pid s)"
      "sp_pending_withdrawal q = sp_pending_withdrawal (load_position a pid s)"
    using sync_rewards_stake [OF sync] reset_debt_stake [OF debt] load_position_key [OF wf]
    by (simp_all add: same_stake_def)
  have pos': "ip_position s' = (ip_position s)((a, pid) \<mapsto> q)" using q by (simp add: s')
  have pool': "ip_pool s' = (ip_pool s)(pid \<mapsto> p)" using p by (auto simp: s')
  have "insurance_wf s'"
    using wf q p load_position_nonneg [OF wf, of a pid]
    unfolding insurance_wf_def pos' by (auto simp: s')
  moreover have "pool_books s' x" for x
    by (rule books_upd [OF inv p pool' pos'])
      (use q active_nonneg [OF inv p] in \<open>simp_all add: s' paid_claims_def open_requests_def\<close>)
  ultimately show ?thesis by (simp add: insurance_inv_def)
qed

text \<open>Calls that touch neither positions nor requests.\<close>

lemma books_same_position:
  assumes inv: "insurance_inv s" and p: "ip_pool s pid = Some p"
    and pool: "ip_pool s' = (ip_pool s)(pid \<mapsto> p')"
    and same: "ip_position s' = ip_position s" "ip_withdrawal s' = ip_withdrawal s"
      "po_staked_liquidity p' = po_staked_liquidity p" "po_queued_withdrawals p' = po_queued_withdrawals p"
    and paid: "paid_claims s' x = paid_claims s x
      + (if x = pid then po_payout_total p' - po_payout_total p else 0)"
    and tot: "po_total_liquidity p' = po_total_liquidity p - (po_payout_total p' - po_payout_total p)"
    and act: "0 \<le> po_active_coverage p'"
  shows "pool_books s' x"
proof -
  have books: "pool_books s x" using inv by (simp add: insurance_inv_def)
  note sums = sums_same(1,2) [OF same(1)] sums_same(3) [OF same(2)] paid
  note vals = pool_value_upd(1) [OF pool, of _ x]
  have "pool_value f s pid = f p" for f using p by (simp add: pool_value_def)
  then show ?thesis
    using books same(3,4) tot act unfolding pool_books_def vals sums by (cases "x = pid") simp_all
qed

lemma wf_pool_upd:
  assumes "insurance_wf s" "po_pool_id p = pid" "ip_admin s \<noteq> None"
    and "ip_pool s' = (ip_pool s)(pid \<mapsto> p)" "ip_position s' = ip_position s" "ip_withdrawal s' = ip_withdrawal s"
    "ip_claim s' = ip_claim s" "ip_claim_count s' = ip_claim_count s" "ip_withdrawal_count s' = ip_withdrawal_count s"
    "ip_admin s' = ip_admin s" "ip_governance s' = ip_governance s"
  shows "insurance_wf s'"
  using assms by (auto simp: insurance_wf_def)

lemma pool_admin: "insurance_wf s \<Longrightarrow> ip_pool s pid = Some p \<Longrightarrow> ip_admin s \<noteq> None"
  by (auto simp: insurance_wf_def)

lemma purchase_coverage_inv:
  assumes inv: "insurance_inv s" and call: "purchase_coverage env b pid n t m s = Inr (x, s')"
  shows "insurance_inv s'"
proof -
  note wf = inv_wf [OF inv]
  obtain p c acc where p: "ip_pool s pid = Some p" and n: "0 < n"
    and s': "s' = save_pool (p\<lparr> po_active_coverage := po_active_coverage p + n,
        po_premium_collected_total := c, po_acc_premium_per_share := acc \<rparr>) s"
    using call by (auto simp: purchase_coverage_def)
  have id: "po_pool_id p = pid" using wf p by (rule wf_fields)
  have pool': "ip_pool s' = (ip_pool s)(pid \<mapsto> p\<lparr> po_active_coverage := po_active_coverage p + n,
        po_premium_collected_total := c, po_acc_premium_per_share := acc \<rparr>)" using id by (simp add: s')
  have "insurance_wf s'"
    by (rule wf_pool_upd [OF wf _ pool_admin [OF wf p] pool']) (use id in \<open>simp_all add: s'\<close>)
  moreover have "pool_books s' x" for x
    by (rule books_same_position [OF inv p pool'])
      (use n active_nonneg [OF inv p] in \<open>simp_all add: s' paid_claims_def\<close>)
  ultimately show ?thesis by (simp add: insurance_inv_def)
qed

text \<open>Calls that only rewrite one claim.\<close>

lemma claim_upd_inv:
  assumes inv: "insurance_inv s" and admin: "ip_admin s \<noteq> None"
    and s': "ip_claim s' = (ip_claim s)(i \<mapsto> c)" "ip_pool s' = ip_pool s" "ip_position s' = ip_position s"
      "ip_withdrawal s' = ip_withdrawal s" "ip_withdrawal_count s' = ip_withdrawal_count s"
      "ip_admin s' = ip_admin s" "ip_governance s' = ip_governance s"
    and count: "unwrap_or (ip_claim_count s) 0 \<le> unwrap_or (ip_claim_count s') 0" "i < unwrap_or (ip_claim_count s') 0"
    and c: "ci_claim_id c = i" "0 < ci_amount c" "distinct (ci_approvals c)"
      "ci_status c = ClApproved \<Longrightarrow> ci_approvals c \<noteq> []" "ci_status c \<noteq> ClPaid"
    and old: "\<And>c0. ip_claim s i = Some c0 \<Longrightarrow> ci_status c0 \<noteq> ClPaid"
  shows "insurance_inv s'"
proof -
  note wf = inv_wf [OF inv]
  have less: "j < unwrap_or (ip_claim_count s) 0 \<Longrightarrow> j < unwrap_or (ip_claim_count s') 0" for j
    using count(1) by simp
  have "insurance_wf s'"
    using wf admin count c unfolding insurance_wf_def s' by (auto intro: less)
  moreover have "pool_books s' x" for x
  proof -
    have paid: "paid_claims s' x = paid_claims s x"
      using paid_claims_upd [OF wf_fields(3) [OF wf] s'(1), of x] old c(5) by (auto split: option.splits)
    have "pool_books s x" using inv by (simp add: insurance_inv_def)
    then show ?thesis
      unfolding pool_books_def pool_value_upd(2) [OF s'(2)] sums_same(1,2) [OF s'(3)] sums_same(3) [OF s'(4)] paid .
  qed
  ultimately show ?thesis by (simp add: insurance_inv_def)
qed

lemma claim_wf:
  assumes "insurance_wf s" "ip_claim s i = Some c"
  shows "ci_claim_id c = i" "i < unwrap_or (ip_claim_count s) 0" "0 < ci_amount c" "distinct (ci_approvals c)"
    "ci_status c \<in> {ClApproved, ClPaid} \<Longrightarrow> ci_approvals c \<noteq> []" "ip_admin s \<noteq> None"
  using assms unfolding insurance_wf_def by (metis, metis, metis, metis, metis, auto)

lemma submit_claim_inv:
  assumes inv: "insurance_inv s" and call: "submit_claim env a pid n e s = Inr (i, s')"
  shows "insurance_inv s'"
proof -
  note wf = inv_wf [OF inv]
  obtain p where p: "ip_pool s pid = Some p" and n: "0 < n" and i: "i = unwrap_or (ip_claim_count s) 0"
    and s': "s' = (record_claim_time env a pid s)\<lparr> ip_claim_count := Some (i + 1),
        ip_claim := (ip_claim s)(i \<mapsto> \<lparr> ci_claim_id = i, ci_claimant = a, ci_pool_id = pid,
          ci_amount = n, ci_evidence_hash = e, ci_status = ClSubmitted, ci_approvals = [],
          ci_slash_bps = 0, ci_slashed_amount = 0 \<rparr>) \<rparr>"
    using call by (auto simp: submit_claim_def next_claim_id_def record_claim_time_def Let_def)
  show ?thesis
    by (rule claim_upd_inv [OF inv pool_admin [OF wf p], of _ i "\<lparr> ci_claim_id = i, ci_claimant = a,
          ci_pool_id = pid, ci_amount = n, ci_evidence_hash = e, ci_status = ClSubmitted,
          ci_approvals = [], ci_slash_bps = 0, ci_slashed_amount = 0 \<rparr>"])
      (use n i fresh_ids(2) [OF wf] in \<open>simp_all add: s' record_claim_time_def\<close>)
qed

lemma approve_claim_inv:
  assumes inv: "insurance_inv s" and call: "approve_claim env a i s = Inr s'"
  shows "insurance_inv s'"
proof -
  note wf = inv_wf [OF inv]
  let ?new = "\<lambda>b c. if b then c\<lparr> ci_approvals := ci_approvals c @ [a], ci_status := ClApproved \<rparr>
      else c\<lparr> ci_approvals := ci_approvals c @ [a] \<rparr> :: claim_info"
  obtain c b where c: "ip_claim s i = Some c" "ci_status c \<noteq> ClPaid" "a \<notin> set (ci_approvals c)"
    and s': "s' = save_claim (?new b c) s"
    using call by (auto simp: approve_claim_def Let_def is_approver_def list_ex_iff split del: if_split)
  show ?thesis
    by (rule claim_upd_inv [OF inv claim_wf(6) [OF wf c(1)], of _ i "?new b c"])
      (use c claim_wf [OF wf c(1)] in \<open>auto simp: s'\<close>)
qed

lemma execute_payout_inv:
  assumes inv: "insurance_inv s" and call: "execute_payout env a i s = Inr s'"
  shows "insurance_inv s'"
proof -
  note wf = inv_wf [OF inv]
  let ?upd = "\<lambda>p n. p\<lparr> po_total_liquidity := po_total_liquidity p - n,
      po_active_coverage := po_active_coverage p - n, po_payout_total := po_payout_total p + n,
      po_paid_claims := sat_u32 (po_paid_claims p + 1) \<rparr> :: insurance_pool"
  obtain c p where c: "ip_claim s i = Some c" "ci_status c = ClApproved"
    and p: "ip_pool s (ci_pool_id c) = Some p" "ci_amount c \<le> po_active_coverage p"
    and s': "s' = save_claim (c\<lparr> ci_status := ClPaid \<rparr>) (save_pool (?upd p (ci_amount c)) s)"
    using call by (auto simp: execute_payout_def)
  have id: "po_pool_id p = ci_pool_id c" using wf p(1) by (rule wf_fields)
  note cw = claim_wf [OF wf c(1)]
  have pool': "ip_pool s' = (ip_pool s)(ci_pool_id c \<mapsto> ?upd p (ci_amount c))" using id by (simp add: s')
  have claim': "ip_claim s' = (ip_claim s)(i \<mapsto> c\<lparr> ci_status := ClPaid \<rparr>)" using cw(1) by (simp add: s')
  have "insurance_wf s'"
    using wf cw c unfolding insurance_wf_def pool' claim' by (auto simp: s' id)
  moreover have "pool_books s' x" for x
  proof (rule books_same_position [OF inv p(1) pool'])
    show "paid_claims s' x = paid_claims s x
        + (if x = ci_pool_id c then po_payout_total (?upd p (ci_amount c)) - po_payout_total p else 0)"
      using paid_claims_upd [OF wf_fields(3) [OF wf] claim', of x] c by simp
  qed (use p(2) in \<open>simp_all add: s'\<close>)
  ultimately show ?thesis by (simp add: insurance_inv_def)
qed

text \<open>A rejected claim may take stake from the claimant: the same amount leaves the position and
  the pool.\<close>

definition slashed_by :: "int \<Rightarrow> insurance_pool \<Rightarrow> staker_position \<Rightarrow> insurance_pool \<Rightarrow> staker_position \<Rightarrow> bool" where
  "slashed_by n p q p' q' \<longleftrightarrow>
     po_pool_id p' = po_pool_id p \<and> po_payout_total p' = po_payout_total p
     \<and> po_queued_withdrawals p' = po_queued_withdrawals p \<and> po_active_coverage p' = po_active_coverage p
     \<and> po_staked_liquidity p' = po_staked_liquidity p - n \<and> po_total_liquidity p' = po_total_liquidity p - n
     \<and> sp_staker q' = sp_staker q \<and> sp_pool_id q' = sp_pool_id q
     \<and> sp_staked_amount q' = sp_staked_amount q - n \<and> sp_pending_withdrawal q' = sp_pending_withdrawal q"

lemma apply_slash_effect:
  "apply_slash n p q = Inr (p', q') \<Longrightarrow> slashed_by (max n 0) p q p' q'"
  by (auto simp: apply_slash_def slashed_by_def split: if_splits)

lemma verify_claim_reject_inv:
  assumes inv: "insurance_inv s" and call: "verify_claim env a i False b s = Inr s'"
  shows "insurance_inv s'"
proof -
  note wf = inv_wf [OF inv]
  let ?rej = "\<lambda>p. p\<lparr> po_rejected_claims := sat_u32 (po_rejected_claims p + 1) \<rparr> :: insurance_pool"
  obtain c p q0 m n p1 q1 q where c: "ip_claim s i = Some c" "ci_status c = ClSubmitted"
    and p: "ip_pool s (ci_pool_id c) = Some p"
    and sync: "sync_rewards p (load_position (ci_claimant c) (ci_pool_id c) s) = Inr q0"
    and m: "m = (if sp_staked_amount q0 < n then sp_staked_amount q0 else n)"
    and slash: "apply_slash m p q0 = Inr (p1, q1)"
    and debt: "reset_debt (?rej p1) q1 = Inr q"
    and s': "s' = save_claim (c\<lparr> ci_status := ClRejected, ci_slash_bps := b, ci_slashed_amount := m \<rparr>)
        (save_pool (?rej p1) (save_position q s))"
    using call by (auto simp: verify_claim_def Let_def simp del: if_split_asm split del: if_split)
  define k where "k = max m 0"
  have eff: "slashed_by k p q0 p1 q1" unfolding k_def by (rule apply_slash_effect [OF slash])
  note cw = claim_wf [OF wf c(1)]
  have q: "sp_staker q = ci_claimant c" "sp_pool_id q = ci_pool_id c"
      "sp_staked_amount q = sp_staked_amount (load_position (ci_claimant c) (ci_pool_id c) s) - k"
      "sp_pending_withdrawal q = sp_pending_withdrawal (load_position (ci_claimant c) (ci_pool_id c) s)"
      "k \<le> sp_staked_amount (load_position (ci_claimant c) (ci_pool_id c) s)"
    using sync_rewards_stake [OF sync] reset_debt_stake [OF debt] load_position_key [OF wf] eff m
      load_position_nonneg [OF wf, of "ci_claimant c" "ci_pool_id c"]
    by (auto simp: same_stake_def slashed_by_def k_def)
  have id: "po_pool_id p1 = ci_pool_id c" using wf_fields(4) [OF wf p] eff by (simp add: slashed_by_def)
  have pool': "ip_pool s' = (ip_pool s)(ci_pool_id c \<mapsto> ?rej p1)" using id by (simp add: s')
  have pos': "ip_position s' = (ip_position s)((ci_claimant c, ci_pool_id c) \<mapsto> q)" using q by (simp add: s')
  have claim': "ip_claim s' = (ip_claim s)(i \<mapsto> c\<lparr> ci_status := ClRejected, ci_slash_bps := b, ci_slashed_amount := m \<rparr>)"
    using cw(1) by (simp add: s')
  have "insurance_wf s'"
    using wf cw c q id load_position_nonneg [OF wf, of "ci_claimant c" "ci_pool_id c"]
    unfolding insurance_wf_def pool' pos' claim' by (auto simp: s')
  moreover have "pool_books s' x" for x
  proof (rule books_upd [OF inv p pool' pos'])
    show "paid_claims s' x = paid_claims s x
        + (if x = ci_pool_id c then po_payout_total (?rej p1) - po_payout_total p else 0)"
      using paid_claims_upd [OF wf_fields(3) [OF wf] claim', of x] c eff by (simp add: slashed_by_def)
    show "open_requests s' x = open_requests s x
        + (if x = ci_pool_id c then po_queued_withdrawals (?rej p1) - po_queued_withdrawals p else 0)"
      using eff by (simp add: s' open_requests_def slashed_by_def)
  qed (use q eff active_nonneg [OF inv p] in \<open>simp_all add: slashed_by_def\<close>)
  ultimately show ?thesis by (simp add: insurance_inv_def)
qed

lemma verify_claim_accept_inv:
  assumes inv: "insurance_inv s" and call: "verify_claim env a i True b s = Inr s'"
  shows "insurance_inv s'"
proof -
  note wf = inv_wf [OF inv]
  obtain c where c: "ip_claim s i = Some c" "ci_status c = ClSubmitted"
    and s': "s' = save_claim (c\<lparr> ci_status := ClVerified, ci_slash_bps := 0, ci_slashed_amount := 0 \<rparr>) s"
    using call by (auto simp: verify_claim_def)
  show ?thesis
    by (rule claim_upd_inv [OF inv claim_wf(6) [OF wf c(1)], of _ i
          "c\<lparr> ci_status := ClVerified, ci_slash_bps := 0, ci_slashed_amount := 0 \<rparr>"])
      (use c claim_wf [OF wf c(1)] in \<open>auto simp: s'\<close>)
qed

lemma admin_calls_inv:
  assumes inv: "insurance_inv s"
  shows "insurance_initialize env a s = Inr s' \<Longrightarrow> insurance_inv s'"
    "configure_governance env a g s = Inr s' \<Longrightarrow> insurance_inv s'"
proof -
  have books: "pool_books u x" if same: "ip_pool u = ip_pool s" "ip_position u = ip_position s"
      "ip_withdrawal u = ip_withdrawal s" "ip_claim u = ip_claim s" for u x
  proof -
    have "pool_books s x" using inv by (simp add: insurance_inv_def)
    then show ?thesis
      unfolding pool_books_def pool_value_upd(2) [OF same(1)] sums_same(1,2) [OF same(2)]
        sums_same(3) [OF same(3)] sums_same(4) [OF same(4)] .
  qed
  show "insurance_initialize env a s = Inr s' \<Longrightarrow> insurance_inv s'"
    using inv books by (auto simp: insurance_initialize_def insurance_inv_def insurance_wf_def)
  show "configure_governance env a g s = Inr s' \<Longrightarrow> insurance_inv s'"
    using inv books by (auto simp: configure_governance_def insurance_inv_def insurance_wf_def)
qed

lemma pool_settings_inv:
  assumes inv: "insurance_inv s" and admin: "ip_admin s \<noteq> None" and p: "ip_pool s pid = Some p"
    and same: "po_pool_id p' = pid" "po_staked_liquidity p' = po_staked_liquidity p"
      "po_queued_withdrawals p' = po_queued_withdrawals p" "po_payout_total p' = po_payout_total p"
      "po_total_liquidity p' = po_total_liquidity p" "po_active_coverage p' = po_active_coverage p"
    and s': "s' = s\<lparr> ip_pool := (ip_pool s)(pid \<mapsto> p') \<rparr>"
  shows "insurance_inv s'"
proof -
  have pool': "ip_pool s' = (ip_pool s)(pid \<mapsto> p')" by (simp add: s')
  have "insurance_wf s'"
    by (rule wf_pool_upd [OF inv_wf [OF inv] same(1) admin pool']) (simp_all add: s')
  moreover have "pool_books s' x" for x
    by (rule books_same_position [OF inv p pool'])
      (use same active_nonneg [OF inv p] in \<open>simp_all add: s' paid_claims_def\<close>)
  ultimately show ?thesis by (simp add: insurance_inv_def)
qed

lemma require_admin_Some: "insurance_require_admin env a s = Inr u \<Longrightarrow> ip_admin s \<noteq> None"
  by (auto simp: insurance_require_admin_def)

lemma new_pool_inv:
  assumes inv: "insurance_inv s" and admin: "ip_admin s \<noteq> None" and p: "ip_pool s pid = None"
    and fresh: "po_pool_id p' = pid" "po_staked_liquidity p' = 0" "po_queued_withdrawals p' = 0"
      "po_payout_total p' = 0" "po_total_liquidity p' = 0" "po_active_coverage p' = 0"
    and s': "s' = s\<lparr> ip_pool := (ip_pool s)(pid \<mapsto> p') \<rparr>"
  shows "insurance_inv s'"
proof -
  have pool': "ip_pool s' = (ip_pool s)(pid \<mapsto> p')" by (simp add: s')
  have "insurance_wf s'"
    by (rule wf_pool_upd [OF inv_wf [OF inv] fresh(1) admin pool']) (simp_all add: s')
  moreover have "pool_books s' x" for x
  proof -
    have "pool_books s x" using inv by (simp add: insurance_inv_def)
    moreover have "pool_value f s' x = pool_value f s x" if "f p' = 0" for f
      using that p by (simp add: pool_value_def pool')
    ultimately show ?thesis
      using fresh by (simp add: pool_books_def s' staked_sum_def pending_sum_def open_requests_def paid_claims_def)
  qed
  ultimately show ?thesis by (simp add: insurance_inv_def)
qed

lemma create_pool_inv:
  assumes inv: "insurance_inv s" and call: "create_pool env a pid as rate risk s = Inr s'"
  shows "insurance_inv s'"
proof (cases "ip_pool s pid")
  case None
  show ?thesis
    by (rule new_pool_inv [OF inv _ None]) (use call None in \<open>auto simp: create_pool_def dest: require_admin_Some\<close>)
next
  case (Some p)
  show ?thesis
    by (rule pool_settings_inv [OF inv _ Some, of "p\<lparr> po_asset_code := as, po_premium_rate_bps := rate, po_risk_score_bps := risk \<rparr>"])
      (use call Some wf_fields(4) [OF inv_wf [OF inv] Some] in \<open>auto simp: create_pool_def dest: require_admin_Some\<close>)
qed

lemma set_risk_score_inv:
  assumes inv: "insurance_inv s" and call: "set_risk_score env a pid risk s = Inr s'"
  shows "insurance_inv s'"
proof -
  obtain p where p: "ip_pool s pid = Some p" and adm: "ip_admin s \<noteq> None"
    and s': "s' = s\<lparr> ip_pool := (ip_pool s)(pid \<mapsto> p\<lparr> po_risk_score_bps := risk \<rparr>) \<rparr>"
    using call by (auto simp: set_risk_score_def dest: require_admin_Some)
  show ?thesis
    by (rule pool_settings_inv [OF inv adm p _ _ _ _ _ _ s']) (simp_all add: wf_fields(4) [OF inv_wf [OF inv] p])
qed

lemma configure_claim_limits_inv:
  assumes inv: "insurance_inv s" and call: "configure_claim_limits env a pid m b cd s = Inr s'"
  shows "insurance_inv s'"
proof -
  obtain p where p: "ip_pool s pid = Some p" and adm: "ip_admin s \<noteq> None"
    and s': "s' = s\<lparr> ip_pool := (ip_pool s)(pid \<mapsto> p\<lparr> po_max_claim_amount := m,
        po_max_claim_bps := b, po_claim_cooldown_secs := cd \<rparr>) \<rparr>"
    using call by (auto simp: configure_claim_limits_def dest: require_admin_Some)
  show ?thesis
    by (rule pool_settings_inv [OF inv adm p _ _ _ _ _ _ s']) (simp_all add: wf_fields(4) [OF inv_wf [OF inv] p])
qed

lemma insurance_inv_step:
  assumes "insurance_inv s" "insurance_exec env c s = Inr s'"
  shows "insurance_inv s'"
proof (cases c)
  case (VerifyClaim a i v b)
  with assms show ?thesis
    by (cases v) (auto intro: verify_claim_reject_inv verify_claim_accept_inv)
qed (use assms in \<open>auto intro: admin_calls_inv create_pool_inv set_risk_score_inv configure_claim_limits_inv
    stake_liquidity_inv request_withdrawal_inv execute_withdrawal_inv purchase_coverage_inv submit_claim_inv
    approve_claim_inv execute_payout_inv claim_premium_inv\<close>)

interpretation insurance: contract_invariant insurance_exec "\<lambda>s. s = insurance_start" "\<lambda>_. True" insurance_inv
proof unfold_locales
  show "s = insurance_start \<Longrightarrow> insurance_inv s" for s
    by (simp add: insurance_inv_def insurance_wf_def insurance_start_def pool_books_def pool_value_def
        staked_sum_def pending_sum_def open_requests_def paid_claims_def)
qed (rule insurance_inv_step)

lemma insurance_reachable: "insurance_inv (run insurance_exec insurance_start h)"
  by (rule insurance.run_inv) (simp_all add: list_all_iff)

section \<open>Properties\<close>

definition demo_ins_env :: "nat \<Rightarrow> env" where
  "demo_ins_env t = \<lparr> timestamp = t, auths = [''admin'', ''a'', ''b1'', ''b2'', ''b3'', ''buyer''] \<rparr>"

definition demo_insurance :: "(env \<times> insurance_call) list" where
  "demo_insurance =
    [(demo_ins_env 0, IInitialize ''admin''),
     (demo_ins_env 0, CreatePool ''admin'' ''p'' ''USDC'' 5000 10000),
     (demo_ins_env 0, StakeLiquidity ''a'' ''p'' 100),
     (demo_ins_env 0, PurchaseCoverage ''buyer'' ''p'' 66 Aggressive 9),
     (demo_ins_env 90000, SubmitClaim ''buyer'' ''p'' 20 ''hash''),
     (demo_ins_env 90000, VerifyClaim ''admin'' 0 True 0),
     (demo_ins_env 90000, ApproveClaim ''admin'' 0),
     (demo_ins_env 90000, ExecutePayout ''admin'' 0),
     (demo_ins_env 90000, RequestWithdrawal ''a'' ''p'' 30)]"

text \<open>C15: in every reachable state the books of a pool balance: its staked liquidity is the sum of
  the stakes, its queue the sum of the pending withdrawals and of the open requests, its payouts
  the sum of the paid claims, and its total liquidity is what is staked and queued less what was
  paid out.\<close>

theorem insurance_books_balance:
  assumes "ip_pool (run insurance_exec insurance_start h) pid = Some p"
  shows "po_staked_liquidity p = staked_sum (run insurance_exec insurance_start h) pid
    \<and> po_queued_withdrawals p = pending_sum (run insurance_exec insurance_start h) pid
    \<and> po_queued_withdrawals p = open_requests (run insurance_exec insurance_start h) pid
    \<and> po_payout_total p = paid_claims (run insurance_exec insurance_start h) pid
    \<and> po_total_liquidity p = po_staked_liquidity p + po_queued_withdrawals p - po_payout_total p
    \<and> 0 \<le> po_active_coverage p"
proof -
  have "pool_books (run insurance_exec insurance_start h) pid"
    using insurance_reachable [of h] by (simp add: insurance_inv_def)
  with assms show ?thesis by (simp add: pool_books_def pool_value_def)
qed

lemma insurance_books_balance_witness:
  "staked_sum (run insurance_exec insurance_start demo_insurance) ''p'' = 70
   \<and> paid_claims (run insurance_exec insurance_start demo_insurance) ''p'' = 20
   \<and> open_requests (run insurance_exec insurance_start demo_insurance) ''p'' = 30"
proof -
  have "map_option (\<lambda>p. (po_staked_liquidity p, po_payout_total p, po_queued_withdrawals p))
     (ip_pool (run insurance_exec insurance_start demo_insurance) ''p'') = Some (70, 20, 30)"
    by code_simp
  then obtain p where p: "ip_pool (run insurance_exec insurance_start demo_insurance) ''p'' = Some p"
    "po_staked_liquidity p = 70" "po_payout_total p = 20" "po_queued_withdrawals p = 30" by auto
  with insurance_books_balance [OF p(1)] show ?thesis by simp
qed

lemma mul_div_or_nonneg:
  assumes "0 \<le> a" "0 \<le> b" "0 < d" "mul_div_or a b d m = Inr x"
  shows "x = a * b div d"
  using assms by (auto simp: mul_div_or_def checked_mul_def checked_div_def bind_eq_Some_conv sdiv_nonneg)

text \<open>Also: with the rates the administrator can set, a quoted premium is never negative and never
  more than fourteen percent of the coverage, and it is zero for any coverage whose base premium
  rounds down to nothing.\<close>

theorem premium_bounds:
  assumes "calculate_premium p n tier = Inr x" "0 \<le> n"
    and "po_premium_rate_bps p \<le> 5000" "po_risk_score_bps p \<le> 10000"
  shows "0 \<le> x \<and> 100 * x \<le> 14 * n \<and> (n * int (po_premium_rate_bps p) < 10000 \<longrightarrow> x = 0)"
proof -
  define base where "base = n * int (po_premium_rate_bps p) div 10000"
  define r where "r = 10000 + int (po_risk_score_bps p)"
  define t where "t = tier_premium_multiplier_bps tier"
  have t: "0 < t" "t \<le> 1400" by (cases tier; simp add: t_def)+
  have r: "0 < r" "r \<le> 20000" using assms(4) by (simp_all add: r_def)
  have base: "0 \<le> base" "2 * base \<le> n"
  proof -
    show "0 \<le> base" using assms(2) by (simp add: base_def pos_imp_zdiv_nonneg_iff)
    have "base * 10000 \<le> n * int (po_premium_rate_bps p)"
      by (rule le_zdiv_iff [THEN iffD1]) (simp_all add: base_def)
    also have "\<dots> \<le> n * 5000" using assms(2,3) by (intro mult_left_mono) auto
    finally show "2 * base \<le> n" by simp
  qed
  have pos: "0 \<le> base * r * t" using base t r by simp
  have "x = base * r * t sdiv 10000 sdiv 10000"
    using assms(1) mul_div_or_nonneg [OF assms(2), of "int (po_premium_rate_bps p)" 10000]
    by (auto simp: calculate_premium_def bps_denom_def Let_def checked_mul_def checked_div_def
        bind_eq_Some_conv base_def r_def t_def)
  with pos have x: "x = base * r * t div 10000 div 10000"
    by (simp add: sdiv_nonneg pos_imp_zdiv_nonneg_iff)
  have "0 \<le> x" using pos by (simp add: x pos_imp_zdiv_nonneg_iff)
  have "x * 10000 \<le> base * r * t div 10000"
    by (rule le_zdiv_iff [THEN iffD1]) (simp_all add: x)
  then have "x * 100000000 \<le> base * r * t"
    using le_zdiv_iff [of 10000 "x * 10000" "base * r * t"] by simp
  also have "\<dots> \<le> base * 20000 * 1400"
    using base t r by (intro mult_mono) auto
  finally have "100 * x \<le> 14 * n" using base by simp
  moreover have "x = 0" if "n * int (po_premium_rate_bps p) < 10000"
  proof -
    have "base = 0" using that assms(2) by (simp add: base_def div_pos_pos_trivial)
    then show ?thesis by (simp add: x)
  qed
  ultimately show ?thesis using \<open>0 \<le> x\<close> by simp
qed

lemma premium_bounds_witness:
  "(\<exists>x. quote_premium ''p'' 66 Aggressive (run insurance_exec insurance_start demo_insurance) = Inr x
     \<and> 0 \<le> x \<and> 100 * x \<le> 14 * 66)
   \<and> quote_premium ''p'' 66 Aggressive (run insurance_exec insurance_start demo_insurance) = Inr 9"
proof
  show q: "quote_premium ''p'' 66 Aggressive (run insurance_exec insurance_start demo_insurance) = Inr 9"
    by code_simp
  have "map_option (\<lambda>p. (po_premium_rate_bps p, po_risk_score_bps p))
      (ip_pool (run insurance_exec insurance_start demo_insurance) ''p'') = Some (5000, 10000)"
    by code_simp
  then obtain p where p: "ip_pool (run insurance_exec insurance_start demo_insurance) ''p'' = Some p"
    "po_premium_rate_bps p = 5000" "po_risk_score_bps p = 10000" by auto
  then have "calculate_premium p 66 Aggressive = Inr 9" using q by (auto simp: quote_premium_def)
  from premium_bounds [OF this] p
  show "\<exists>x. quote_premium ''p'' 66 Aggressive (run insurance_exec insurance_start demo_insurance) = Inr x
     \<and> 0 \<le> x \<and> 100 * x \<le> 14 * 66"
    using q by simp
qed

text \<open>A history in which three stakers join just before the accumulated reward per share makes
  each of their positions round up.\<close>

definition dust_history :: "(env \<times> insurance_call) list" where
  "dust_history =
    [(demo_ins_env 0, IInitialize ''admin''),
     (demo_ins_env 0, CreatePool ''admin'' ''p'' ''USDC'' 5000 10000),
     (demo_ins_env 0, StakeLiquidity ''a'' ''p'' 100),
     (demo_ins_env 0, PurchaseCoverage ''buyer'' ''p'' 66 Aggressive 9),
     (demo_ins_env 1, StakeLiquidity ''b1'' ''p'' 11), (demo_ins_env 1, StakeLiquidity ''b2'' ''p'' 11),
     (demo_ins_env 1, StakeLiquidity ''b3'' ''p'' 11),
     (demo_ins_env 1, PurchaseCoverage ''buyer'' ''p'' 8 Aggressive 1),
     (demo_ins_env 2, ClaimPremium ''a'' ''p''), (demo_ins_env 2, ClaimPremium ''b1'' ''p''),
     (demo_ins_env 2, ClaimPremium ''b2'' ''p''), (demo_ins_env 2, ClaimPremium ''b3'' ''p'')]"

text \<open>Also: premiums are not conserved: rounding the reward debt down when a staker joins lets the
  stakers of a pool claim twelve units of premium out of ten collected.\<close>

theorem rewards_exceed_premiums:
  "let s = run insurance_exec insurance_start dust_history
   in map_option po_premium_collected_total (ip_pool s ''p'') = Some 10
      \<and> sum_list (map (\<lambda>a. sp_claimed_premium (load_position a ''p'' s)) [''a'', ''b1'', ''b2'', ''b3'']) = 12"
  by code_simp

end
