(* ===== verification/Liquidity_Monitor.thy ===== *)
theory Liquidity_Monitor
  imports Soroban Int_Sqrt
begin

text \<open>
  \<open>soroban/src/liquidity_pool.rs\<close>: snapshots of liquidity pools in a ring buffer of 720 entries
  per pool, daily buckets in a ring buffer of 90, and the metrics computed from them. The module
  has no access control of its own; the calling contract authorises. One record field per
  constructor of \<open>LiquidityKey\<close>, and the log of published events. Ring positions are below twice
  the capacity, so the index arithmetic is written on \<open>nat\<close> without a check; the counters that
  grow for ever keep theirs.
\<close>

section \<open>Data\<close>

definition max_snapshots :: nat where "max_snapshots = 720"
definition max_daily_buckets :: nat where "max_daily_buckets = 90"
definition day_secs :: nat where "day_secs = 86400"
definition significant_change_bps :: nat where "significant_change_bps = 1000"
definition price_precision :: int where "price_precision = 10000000"

datatype pool_type = Sdex | Amm

record pool_snapshot =
  sn_pool_id :: string
  sn_reserve_a :: int
  sn_reserve_b :: int
  sn_total_shares :: int
  sn_price :: int
  sn_volume :: int
  sn_fees_collected :: int
  sn_pool_type :: pool_type
  sn_timestamp :: nat

record daily_bucket =
  db_day_timestamp :: nat
  db_open_price :: int
  db_high_price :: int
  db_low_price :: int
  db_close_price :: int
  db_total_volume :: int
  db_total_fees :: int
  db_avg_reserve_a :: int
  db_avg_reserve_b :: int
  db_snapshot_count :: nat

record pool_metrics =
  pm_pool_id :: string
  pm_total_volume :: int
  pm_avg_depth :: int
  pm_price_change :: int
  pm_total_fees :: int
  pm_fee_apr :: int
  pm_data_points :: nat
  pm_window_start :: nat
  pm_window_end :: nat

record impermanent_loss =
  il_pool_id :: string
  il_percentage :: int
  il_current_value :: int
  il_hodl_value :: int
  il_net_loss :: int
  il_entry_price :: int
  il_current_price :: int

record liquidity_depth =
  ld_pool_id :: string
  ld_reserve_a :: int
  ld_reserve_b :: int
  ld_total_value_locked :: int
  ld_depth_score :: nat
  ld_timestamp :: nat

text \<open>\<open>RingBufferMeta\<close> and \<open>DailyRingMeta\<close> have the same fields; the model uses one record for
  both.\<close>

record ring_meta =
  rm_head :: nat
  rm_count :: nat
  rm_capacity :: nat

datatype liquidity_event =
    LqSnapshot string nat
  | LqChange string int nat

record liquidity_state =
  lq_ring_meta :: "string \<Rightarrow> ring_meta option"
  lq_snapshot :: "string \<times> nat \<Rightarrow> pool_snapshot option"
  lq_daily_meta :: "string \<Rightarrow> ring_meta option"
  lq_daily_bucket :: "string \<times> nat \<Rightarrow> daily_bucket option"
  lq_registered_pools :: "string list option"
  lq_events :: "liquidity_event list"

type_synonym 'a lres = "(unit, 'a) res"

definition liquidity_start :: liquidity_state where
  "liquidity_start = \<lparr> lq_ring_meta = (\<lambda>_. None), lq_snapshot = (\<lambda>_. None),
     lq_daily_meta = (\<lambda>_. None), lq_daily_bucket = (\<lambda>_. None), lq_registered_pools = None,
     lq_events = [] \<rparr>"

section \<open>Reading the rings\<close>

definition ring_meta_of :: "string \<Rightarrow> liquidity_state \<Rightarrow> ring_meta" where
  "ring_meta_of pid s =
     unwrap_or (lq_ring_meta s pid) \<lparr> rm_head = 0, rm_count = 0, rm_capacity = max_snapshots \<rparr>"

definition daily_meta_of :: "string \<Rightarrow> liquidity_state \<Rightarrow> ring_meta" where
  "daily_meta_of pid s =
     unwrap_or (lq_daily_meta s pid) \<lparr> rm_head = 0, rm_count = 0, rm_capacity = max_daily_buckets \<rparr>"

definition previous_index :: "nat \<Rightarrow> nat \<Rightarrow> nat" where
  "previous_index cap i = (if i = 0 then cap - 1 else i - 1)"

text \<open>The loop over a ring from its oldest to its newest entry, keeping those that pass a test.\<close>

definition walk_ring :: "ring_meta \<Rightarrow> (nat \<Rightarrow> 'a option) \<Rightarrow> ('a \<Rightarrow> bool) \<Rightarrow> 'a list" where
  "walk_ring m slot keep =
     (let actual_count = (if rm_capacity m < rm_count m then rm_capacity m else rm_count m);
          start_idx = (if rm_capacity m < rm_count m then rm_head m else 0)
      in if actual_count = 0 then []
         else List.map_filter
           (\<lambda>i. case slot ((start_idx + i) mod rm_capacity m) of
                  None \<Rightarrow> None | Some x \<Rightarrow> if keep x then Some x else None)
           [0 ..< actual_count])"

definition get_latest_snapshot :: "string \<Rightarrow> liquidity_state \<Rightarrow> pool_snapshot option" where
  "get_latest_snapshot pid s =
     (case lq_ring_meta s pid of
        Some m \<Rightarrow> if 0 < rm_count m
                  then lq_snapshot s (pid, previous_index (rm_capacity m) (rm_head m)) else None
      | None \<Rightarrow> None)"

definition get_snapshots_in_window :: "string \<Rightarrow> nat \<Rightarrow> nat \<Rightarrow> liquidity_state \<Rightarrow> pool_snapshot list" where
  "get_snapshots_in_window pid from_t to_t s =
     walk_ring (ring_meta_of pid s) (\<lambda>i. lq_snapshot s (pid, i))
       (\<lambda>x. from_t \<le> sn_timestamp x \<and> sn_timestamp x \<le> to_t)"

definition get_pool_history :: "string \<Rightarrow> nat \<Rightarrow> nat \<Rightarrow> liquidity_state \<Rightarrow> pool_snapshot list" where
  "get_pool_history pid from_t to_t s = get_snapshots_in_window pid from_t to_t s"

definition get_daily_history :: "string \<Rightarrow> nat \<Rightarrow> nat \<Rightarrow> liquidity_state \<Rightarrow> daily_bucket list" where
  "get_daily_history pid from_t to_t s =
     walk_ring (daily_meta_of pid s) (\<lambda>i. lq_daily_bucket s (pid, i))
       (\<lambda>b. from_t \<le> db_day_timestamp b \<and> db_day_timestamp b \<le> to_t)"

definition get_registered_pools :: "liquidity_state \<Rightarrow> string list" where
  "get_registered_pools s = unwrap_or (lq_registered_pools s) []"

section \<open>Recording\<close>

definition ring_advance :: "ring_meta \<Rightarrow> ring_meta lres" where
  "ring_advance m =
     and_then (add_u32 (rm_count m) 1) (\<lambda>c.
     Inr (m\<lparr> rm_head := (rm_head m + 1) mod rm_capacity m, rm_count := c \<rparr>))"

definition new_bucket :: "nat \<Rightarrow> pool_snapshot \<Rightarrow> daily_bucket" where
  "new_bucket day x =
     \<lparr> db_day_timestamp = day, db_open_price = sn_price x, db_high_price = sn_price x,
       db_low_price = sn_price x, db_close_price = sn_price x, db_total_volume = sn_volume x,
       db_total_fees = sn_fees_collected x, db_avg_reserve_a = sn_reserve_a x,
       db_avg_reserve_b = sn_reserve_b x, db_snapshot_count = 1 \<rparr>"

definition running_average :: "int \<Rightarrow> nat \<Rightarrow> int \<Rightarrow> int lres" where
  "running_average avg n x =
     and_then (mul_i128 avg (int n)) (\<lambda>t.
     and_then (add_i128 t x) (\<lambda>u.
     div_i128 u (int n + 1)))"

definition merge_bucket :: "daily_bucket \<Rightarrow> pool_snapshot \<Rightarrow> daily_bucket lres" where
  "merge_bucket b x =
     and_then (add_i128 (db_total_volume b) (sn_volume x)) (\<lambda>volume.
     and_then (add_i128 (db_total_fees b) (sn_fees_collected x)) (\<lambda>fees.
     and_then (running_average (db_avg_reserve_a b) (db_snapshot_count b) (sn_reserve_a x)) (\<lambda>avg_a.
     and_then (running_average (db_avg_reserve_b b) (db_snapshot_count b) (sn_reserve_b x)) (\<lambda>avg_b.
     and_then (add_u32 (db_snapshot_count b) 1) (\<lambda>n.
     Inr (b\<lparr> db_high_price := (if db_high_price b < sn_price x then sn_price x else db_high_price b),
            db_low_price := (if sn_price x < db_low_price b then sn_price x else db_low_price b),
            db_close_price := sn_price x, db_total_volume := volume, db_total_fees := fees,
            db_avg_reserve_a := avg_a, db_avg_reserve_b := avg_b, db_snapshot_count := n \<rparr>))))))"

definition update_daily_bucket :: "string \<Rightarrow> pool_snapshot \<Rightarrow> liquidity_state \<Rightarrow> liquidity_state lres" where
  "update_daily_bucket pid x s =
     (let day = sn_timestamp x div day_secs * day_secs;
          m = daily_meta_of pid s;
          last_idx = previous_index (rm_capacity m) (rm_head m);
          existing = (if 0 < rm_count m
                      then case lq_daily_bucket s (pid, last_idx) of
                             Some b \<Rightarrow> if db_day_timestamp b = day then Some b else None
                           | None \<Rightarrow> None
                      else None)
      in case existing of
           Some b \<Rightarrow> and_then (merge_bucket b x) (\<lambda>b'.
             Inr (s\<lparr> lq_daily_bucket := (lq_daily_bucket s)((pid, last_idx) \<mapsto> b') \<rparr>))
         | None \<Rightarrow> and_then (ring_advance m) (\<lambda>m'.
             Inr (s\<lparr> lq_daily_bucket := (lq_daily_bucket s)((pid, rm_head m) \<mapsto> new_bucket day x),
                    lq_daily_meta := (lq_daily_meta s)(pid \<mapsto> m') \<rparr>)))"

definition abs_i128 :: "int \<Rightarrow> int lres" where
  "abs_i128 x = i_checked \<bar>x\<bar>"

definition check_significant_change :: "pool_snapshot \<Rightarrow> pool_snapshot \<Rightarrow> liquidity_state
    \<Rightarrow> liquidity_state lres" where
  "check_significant_change prev cur s =
     and_then (add_i128 (sn_reserve_a prev) (sn_reserve_b prev)) (\<lambda>prev_depth.
     if prev_depth = 0 then Inr s
     else
       and_then (add_i128 (sn_reserve_a cur) (sn_reserve_b cur)) (\<lambda>cur_depth.
       and_then (sub_i128 cur_depth prev_depth) (\<lambda>d.
       and_then (abs_i128 d) (\<lambda>a.
       and_then (mul_i128 a 10000) (\<lambda>m.
       and_then (div_i128 m prev_depth) (\<lambda>change_bps.
       if int significant_change_bps \<le> change_bps
       then Inr (s\<lparr> lq_events := lq_events s @ [LqChange (sn_pool_id cur) change_bps (sn_timestamp cur)] \<rparr>)
       else Inr s))))))"

definition ensure_pool_registered :: "string \<Rightarrow> liquidity_state \<Rightarrow> liquidity_state" where
  "ensure_pool_registered pid s =
     (let pools = unwrap_or (lq_registered_pools s) []
      in if list_ex (\<lambda>p. p = pid) pools then s
         else s\<lparr> lq_registered_pools := Some (pools @ [pid]) \<rparr>)"

definition spot_price :: "int \<Rightarrow> int \<Rightarrow> int lres" where
  "spot_price reserve_a reserve_b =
     (if 0 < reserve_a
      then and_then (mul_i128 reserve_b price_precision) (\<lambda>v. div_i128 v reserve_a)
      else Inr 0)"

definition record_pool_state :: "env \<Rightarrow> string \<Rightarrow> int \<Rightarrow> int \<Rightarrow> int \<Rightarrow> int \<Rightarrow> int \<Rightarrow> pool_type
    \<Rightarrow> liquidity_state \<Rightarrow> (pool_snapshot \<times> liquidity_state) lres" where
  "record_pool_state env pid ra rb shares volume fees ty s =
     and_then (spot_price ra rb) (\<lambda>price.
     let x = \<lparr> sn_pool_id = pid, sn_reserve_a = ra, sn_reserve_b = rb, sn_total_shares = shares,
               sn_price = price, sn_volume = volume, sn_fees_collected = fees, sn_pool_type = ty,
               sn_timestamp = timestamp env \<rparr>;
         m = ring_meta_of pid s;
         s1 = s\<lparr> lq_snapshot := (lq_snapshot s)((pid, rm_head m) \<mapsto> x) \<rparr>
     in and_then (ring_advance m) (\<lambda>m'.
        and_then (update_daily_bucket pid x (s1\<lparr> lq_ring_meta := (lq_ring_meta s1)(pid \<mapsto> m') \<rparr>)) (\<lambda>s2.
        and_then (if 1 < rm_count m'
                  then case lq_snapshot s2 (pid, previous_index (rm_capacity m') (rm_head m)) of
                         Some prev \<Rightarrow> check_significant_change prev x s2
                       | None \<Rightarrow> Inr s2
                  else Inr s2) (\<lambda>s3.
        let s4 = ensure_pool_registered pid s3
        in Inr (x, s4\<lparr> lq_events := lq_events s4 @ [LqSnapshot pid (timestamp env)] \<rparr>)))))"

section \<open>Metrics\<close>

fun sum_metrics :: "pool_snapshot list \<Rightarrow> int \<times> int \<times> int \<Rightarrow> (int \<times> int \<times> int) lres" where
  "sum_metrics [] acc = Inr acc"
| "sum_metrics (x # xs) (volume, fees, depth) =
     and_then (add_i128 volume (sn_volume x)) (\<lambda>v.
     and_then (add_i128 fees (sn_fees_collected x)) (\<lambda>f.
     and_then (add_i128 (sn_reserve_a x) (sn_reserve_b x)) (\<lambda>r.
     and_then (div_i128 r 2) (\<lambda>h.
     and_then (add_i128 depth h) (\<lambda>d.
     sum_metrics xs (v, f, d))))))"

definition price_change_of :: "int \<Rightarrow> int \<Rightarrow> int lres" where
  "price_change_of p0 p1 =
     (if 0 < p0
      then and_then (sub_i128 p1 p0) (\<lambda>d.
           and_then (mul_i128 d price_precision) (\<lambda>m. div_i128 m p0))
      else Inr 0)"

definition fee_apr_of :: "int \<Rightarrow> int \<Rightarrow> nat \<Rightarrow> int lres" where
  "fee_apr_of total_fees avg_depth window_secs =
     (if 0 < avg_depth \<and> 0 < window_secs
      then and_then (mul_i128 total_fees price_precision) (\<lambda>a.
           and_then (mul_i128 a (365 * int day_secs)) (\<lambda>b.
           and_then (mul_i128 avg_depth (int window_secs)) (\<lambda>c.
           div_i128 b c)))
      else Inr 0)"

definition calculate_pool_metrics :: "env \<Rightarrow> string \<Rightarrow> nat \<Rightarrow> liquidity_state \<Rightarrow> pool_metrics lres" where
  "calculate_pool_metrics env pid window_secs s =
     (let now = timestamp env;
          window_start = now - window_secs;
          xs = get_snapshots_in_window pid window_start now s
      in if xs = []
         then Inr \<lparr> pm_pool_id = pid, pm_total_volume = 0, pm_avg_depth = 0, pm_price_change = 0,
                pm_total_fees = 0, pm_fee_apr = 0, pm_data_points = 0,
                pm_window_start = window_start, pm_window_end = now \<rparr>
         else
           and_then (sum_metrics xs (0, 0, 0)) (\<lambda>(volume, fees, depth_sum).
           and_then (div_i128 depth_sum (int (length xs))) (\<lambda>avg_depth.
           and_then (price_change_of (sn_price (hd xs)) (sn_price (last xs))) (\<lambda>price_change.
           and_then (fee_apr_of fees avg_depth window_secs) (\<lambda>fee_apr.
           Inr \<lparr> pm_pool_id = pid, pm_total_volume = volume, pm_avg_depth = avg_depth,
                 pm_price_change = price_change, pm_total_fees = fees, pm_fee_apr = fee_apr,
                 pm_data_points = length xs, pm_window_start = window_start, pm_window_end = now \<rparr>)))))"

definition loss_factor :: "int \<Rightarrow> int lres" where
  "loss_factor price_ratio =
     and_then (mul_i128 price_ratio price_precision) (\<lambda>scaled.
     and_then (lp_isqrt scaled) (\<lambda>sqrt_ratio.
     and_then (mul_i128 2 sqrt_ratio) (\<lambda>numerator.
     and_then (add_i128 price_precision price_ratio) (\<lambda>denominator.
     if 0 < denominator
     then and_then (mul_i128 numerator price_precision) (\<lambda>m.
          and_then (div_i128 m denominator) (\<lambda>q. sub_i128 price_precision q))
     else Inr 0))))"

definition calculate_impermanent_loss :: "string \<Rightarrow> int \<Rightarrow> int \<Rightarrow> liquidity_state \<Rightarrow> impermanent_loss lres" where
  "calculate_impermanent_loss pid entry_price initial_value s =
     (let current_price = (case get_latest_snapshot pid s of Some x \<Rightarrow> sn_price x | None \<Rightarrow> 0)
      in if entry_price \<le> 0 \<or> current_price \<le> 0
         then Inr \<lparr> il_pool_id = pid, il_percentage = 0, il_current_value = initial_value,
                il_hodl_value = initial_value, il_net_loss = 0, il_entry_price = entry_price,
                il_current_price = current_price \<rparr>
         else
           and_then (mul_i128 current_price price_precision) (\<lambda>a.
           and_then (div_i128 a entry_price) (\<lambda>price_ratio.
           and_then (loss_factor price_ratio) (\<lambda>il_factor.
           let percentage = (if 0 < il_factor then il_factor else 0)
           in and_then (add_i128 price_precision price_ratio) (\<lambda>b.
              and_then (mul_i128 initial_value b) (\<lambda>c.
              and_then (div_i128 c (2 * price_precision)) (\<lambda>hodl_value.
              and_then (sub_i128 price_precision percentage) (\<lambda>d.
              and_then (mul_i128 hodl_value d) (\<lambda>e.
              and_then (div_i128 e price_precision) (\<lambda>current_value.
              and_then (sub_i128 hodl_value current_value) (\<lambda>net_loss.
              Inr \<lparr> il_pool_id = pid, il_percentage = percentage, il_current_value = current_value,
                    il_hodl_value = hodl_value, il_net_loss = net_loss, il_entry_price = entry_price,
                    il_current_price = current_price \<rparr>)))))))))))"

definition depth_score_of :: "int \<Rightarrow> nat lres" where
  "depth_score_of locked =
     (let baseline = 1000000 * price_precision
      in if baseline \<le> locked then Inr 100
         else if locked \<le> 0 then Inr 0
         else and_then (mul_i128 locked 100) (\<lambda>m.
              and_then (div_i128 m baseline) (\<lambda>q. Inr (nat q mod 2 ^ 32))))"

definition get_liquidity_depth :: "string \<Rightarrow> liquidity_state \<Rightarrow> liquidity_depth lres" where
  "get_liquidity_depth pid s =
     (case get_latest_snapshot pid s of
        Some x \<Rightarrow>
          and_then (mul_i128 (sn_reserve_a x) (sn_price x)) (\<lambda>a.
          and_then (div_i128 a price_precision) (\<lambda>b.
          and_then (add_i128 b (sn_reserve_b x)) (\<lambda>locked.
          and_then (depth_score_of locked) (\<lambda>score.
          Inr \<lparr> ld_pool_id = pid, ld_reserve_a = sn_reserve_a x, ld_reserve_b = sn_reserve_b x,
                ld_total_value_locked = locked, ld_depth_score = score, ld_timestamp = sn_timestamp x \<rparr>))))
      | None \<Rightarrow>
          Inr \<lparr> ld_pool_id = pid, ld_reserve_a = 0, ld_reserve_b = 0, ld_total_value_locked = 0,
                ld_depth_score = 0, ld_timestamp = 0 \<rparr>)"

section \<open>Invocations\<close>

datatype liquidity_call = RecordPoolState string int int int int int pool_type

fun liquidity_exec :: "env \<Rightarrow> liquidity_call \<Rightarrow> liquidity_state \<Rightarrow> liquidity_state lres" where
  "liquidity_exec env (RecordPoolState pid ra rb sh v f ty) s = state_of (record_pool_state env pid ra rb sh v f ty s)"

section \<open>The ring buffer\<close>

text \<open>
  A ring holds a log when it has counted every entry, its head is the count modulo the capacity,
  and the slots of the last \<open>rm_capacity\<close> entries still hold them. The same four facts serve the
  ring of snapshots and the ring of daily buckets.
\<close>

definition ring_holds :: "ring_meta \<Rightarrow> (nat \<Rightarrow> 'a option) \<Rightarrow> 'a list \<Rightarrow> bool" where
  "ring_holds m slot log \<longleftrightarrow> 0 < rm_capacity m \<and> rm_count m = length log
     \<and> rm_head m = length log mod rm_capacity m
     \<and> (\<forall>k<length log. length log \<le> k + rm_capacity m \<longrightarrow> slot (k mod rm_capacity m) = Some (log ! k))"

lemma mod_window_neq [simp]: "k < n \<Longrightarrow> Suc n \<le> k + c \<Longrightarrow> k mod c \<noteq> n mod (c :: nat)"
proof
  assume a: "k < n" "Suc n \<le> k + c" "k mod c = n mod c"
  then have "c dvd n - k" by (metis mod_eq_dvd_iff_nat less_imp_le)
  with a show False by (auto dest: dvd_imp_le)
qed

lemma previous_index_mod:
  assumes "0 < n" "0 < c"
  shows "previous_index c (n mod c) = (n - 1) mod c"
proof -
  obtain k where n: "n = Suc k" using assms(1) by (cases n) auto
  show ?thesis unfolding n previous_index_def by (auto simp: mod_Suc)
qed

lemma ring_empty: "0 < c \<Longrightarrow> ring_holds \<lparr> rm_head = 0, rm_count = 0, rm_capacity = c \<rparr> slot []"
  by (simp add: ring_holds_def)

lemma ring_push:
  assumes "ring_holds m slot log"
  shows "ring_holds (m\<lparr> rm_head := (rm_head m + 1) mod rm_capacity m, rm_count := rm_count m + 1 \<rparr>)
    (slot(rm_head m \<mapsto> x)) (log @ [x])"
  using assms by (auto simp: ring_holds_def nth_append mod_Suc_eq less_Suc_eq)

lemma ring_replace:
  assumes "ring_holds m slot (log @ [y])"
  shows "ring_holds m (slot(previous_index (rm_capacity m) (rm_head m) \<mapsto> x)) (log @ [x])"
proof -
  have c: "0 < rm_capacity m" and h: "rm_head m = Suc (length log) mod rm_capacity m"
    using assms by (auto simp: ring_holds_def)
  have "previous_index (rm_capacity m) (rm_head m) = length log mod rm_capacity m"
    unfolding h using previous_index_mod [OF _ c, of "Suc (length log)"] by simp
  with assms show ?thesis
    by (auto simp: ring_holds_def nth_append less_Suc_eq)
qed

lemma ring_latest:
  assumes "ring_holds m slot log"
  shows "0 < rm_count m \<longleftrightarrow> log \<noteq> []"
    "log \<noteq> [] \<Longrightarrow> slot (previous_index (rm_capacity m) (rm_head m)) = Some (last log)"
proof -
  show "0 < rm_count m \<longleftrightarrow> log \<noteq> []" using assms by (auto simp: ring_holds_def)
  assume "log \<noteq> []"
  then have "0 < length log" by simp
  moreover from this have "length log - 1 < length log" "length log \<le> length log - 1 + rm_capacity m"
    using assms by (auto simp: ring_holds_def)
  ultimately show "slot (previous_index (rm_capacity m) (rm_head m)) = Some (last log)"
    using assms previous_index_mod [of "length log" "rm_capacity m"]
    unfolding ring_holds_def by (metis last_conv_nth \<open>log \<noteq> []\<close>)
qed

lemma map_filter_total:
  "(\<And>i. i \<in> set is \<Longrightarrow> f i = Some (g i)) \<Longrightarrow>
     List.map_filter (\<lambda>i. case f i of None \<Rightarrow> None | Some x \<Rightarrow> if P x then Some x else None) is
       = filter P (map g is)"
  by (induction "is") (auto simp: List.map_filter_def)

lemma ring_walk:
  assumes "ring_holds m slot log"
  shows "walk_ring m slot P = filter P (drop (length log - rm_capacity m) log)"
proof -
  let ?c = "rm_capacity m" and ?n = "length log"
  have c: "0 < ?c" and n: "rm_count m = ?n" and h: "rm_head m = ?n mod ?c"
    and held: "\<And>k. k < ?n \<Longrightarrow> ?n \<le> k + ?c \<Longrightarrow> slot (k mod ?c) = Some (log ! k)"
    using assms by (auto simp: ring_holds_def)
  define a where "a = (if ?c < ?n then ?c else ?n)"
  define b where "b = (if ?c < ?n then rm_head m else 0)"
  have pos: "slot ((b + i) mod ?c) = Some (log ! (?n - ?c + i))" if "i < a" for i
  proof (cases "?c < ?n")
    case True
    then have "(b + i) mod ?c = (?n - ?c + i) mod ?c"
      by (simp add: b_def h mod_add_left_eq le_mod_geq)
    with True that held [of "?n - ?c + i"] show ?thesis by (simp add: a_def)
  next
    case False
    with that held [of i] show ?thesis by (simp add: a_def b_def)
  qed
  have "walk_ring m slot P = List.map_filter (\<lambda>i. case slot ((b + i) mod ?c) of
      None \<Rightarrow> None | Some x \<Rightarrow> if P x then Some x else None) [0..<a]"
    by (simp add: walk_ring_def n a_def b_def Let_def)
  also have "\<dots> = filter P (map (\<lambda>i. log ! (?n - ?c + i)) [0..<a])"
    by (rule map_filter_total) (use pos in auto)
  also have "map (\<lambda>i. log ! (?n - ?c + i)) [0..<a] = drop (?n - ?c) log"
    by (rule nth_equalityI) (auto simp: a_def)
  finally show ?thesis .
qed

section \<open>What recording writes\<close>

lemma update_daily_bucket_frame:
  assumes "update_daily_bucket pid x s = Inr s'"
  shows "lq_snapshot s' = lq_snapshot s" "lq_ring_meta s' = lq_ring_meta s"
    "lq_registered_pools s' = lq_registered_pools s" "lq_events s' = lq_events s"
  using assms by (auto simp: update_daily_bucket_def Let_def split: option.splits if_splits)

lemma check_significant_change_frame:
  assumes "check_significant_change p x s = Inr s'"
  shows "\<exists>ev. s' = s\<lparr> lq_events := ev \<rparr>"
proof -
  have "\<exists>ev. s = s\<lparr> lq_events := ev \<rparr>" by (rule exI [of _ "lq_events s"]) simp
  with assms show ?thesis by (fastforce simp: check_significant_change_def split: if_splits)
qed

lemma record_pool_state_effect:
  assumes "record_pool_state env pid ra rb sh v f ty s = Inr (x, s')"
  obtains m m' s2 where
    "m = ring_meta_of pid s" "ring_advance m = Inr m'"
    "update_daily_bucket pid x (s\<lparr> lq_snapshot := (lq_snapshot s)((pid, rm_head m) \<mapsto> x),
        lq_ring_meta := (lq_ring_meta s)(pid \<mapsto> m') \<rparr>) = Inr s2"
    "lq_snapshot s' = lq_snapshot s2" "lq_ring_meta s' = lq_ring_meta s2"
    "lq_daily_meta s' = lq_daily_meta s2" "lq_daily_bucket s' = lq_daily_bucket s2"
    "set (get_registered_pools s') = insert pid (set (get_registered_pools s))"
    "distinct (get_registered_pools s) \<Longrightarrow> distinct (get_registered_pools s')"
    "sn_pool_id x = pid" "sn_timestamp x = timestamp env" "sn_reserve_a x = ra" "sn_reserve_b x = rb"
    "sn_volume x = v" "sn_fees_collected x = f"
proof -
  let ?m = "ring_meta_of pid s"
  from assms obtain price m' s2 s3 where
    x: "x = \<lparr> sn_pool_id = pid, sn_reserve_a = ra, sn_reserve_b = rb, sn_total_shares = sh,
               sn_price = price, sn_volume = v, sn_fees_collected = f, sn_pool_type = ty,
               sn_timestamp = timestamp env \<rparr>" and
    m': "ring_advance ?m = Inr m'" and
    s2: "update_daily_bucket pid x (s\<lparr> lq_snapshot := (lq_snapshot s)((pid, rm_head ?m) \<mapsto> x),
        lq_ring_meta := (lq_ring_meta s)(pid \<mapsto> m') \<rparr>) = Inr s2" and
    s3: "(if 1 < rm_count m'
          then case lq_snapshot s2 (pid, previous_index (rm_capacity m') (rm_head ?m)) of
                 Some prev \<Rightarrow> check_significant_change prev x s2 | None \<Rightarrow> Inr s2
          else Inr s2) = Inr s3" and
    s': "s' = (ensure_pool_registered pid s3)\<lparr> lq_events := lq_events (ensure_pool_registered pid s3) @ [LqSnapshot pid (timestamp env)] \<rparr>"
    unfolding record_pool_state_def Let_def and_then_eq_Inr by auto
  have "\<exists>ev. s3 = s2\<lparr> lq_events := ev \<rparr>"
  proof (cases "s3 = s2")
    case True
    then have "s3 = s2\<lparr> lq_events := lq_events s2 \<rparr>" by simp
    then show ?thesis by blast
  next
    case False
    with s3 show ?thesis by (auto split: if_splits option.splits dest: check_significant_change_frame)
  qed
  then obtain ev where s3': "s3 = s2\<lparr> lq_events := ev \<rparr>" by blast
  note frame = update_daily_bucket_frame [OF s2]
  have pools: "lq_registered_pools s3 = lq_registered_pools s" by (simp add: s3' frame)
  show thesis
    by (rule that [OF refl m' s2])
      (use pools in \<open>auto simp: s' s3' x ensure_pool_registered_def Let_def get_registered_pools_def
        list_ex_iff frame\<close>)
qed

section \<open>The recorded log and its days\<close>

text \<open>\<open>recorded\<close> is the specification of the snapshot storage: every snapshot of a pool, oldest
  first, in an unbounded list. \<open>day_runs\<close> splits such a list into its maximal runs of snapshots
  of one day, and \<open>summarises\<close> says what a daily bucket promises of its run.\<close>

fun recorded :: "string \<Rightarrow> liquidity_state \<Rightarrow> (env \<times> liquidity_call) list \<Rightarrow> pool_snapshot list" where
  "recorded pid s [] = []"
| "recorded pid s ((env, RecordPoolState p ra rb sh v f ty) # h) =
     (case record_pool_state env p ra rb sh v f ty s of
        Inl _ \<Rightarrow> recorded pid s h
      | Inr (x, s') \<Rightarrow> (if p = pid then x # recorded pid s' h else recorded pid s' h))"

definition snapshot_day :: "pool_snapshot \<Rightarrow> nat" where
  "snapshot_day x = sn_timestamp x div day_secs * day_secs"

definition add_to_days :: "pool_snapshot \<Rightarrow> pool_snapshot list list \<Rightarrow> pool_snapshot list list" where
  "add_to_days x gs =
     (if gs \<noteq> [] \<and> snapshot_day (last (last gs)) = snapshot_day x
      then butlast gs @ [last gs @ [x]] else gs @ [[x]])"

definition day_runs :: "pool_snapshot list \<Rightarrow> pool_snapshot list list" where
  "day_runs xs = fold add_to_days xs []"

definition summarises :: "daily_bucket \<Rightarrow> pool_snapshot list \<Rightarrow> bool" where
  "summarises b xs \<longleftrightarrow> xs \<noteq> [] \<and> list_all (\<lambda>x. snapshot_day x = db_day_timestamp b) xs
     \<and> db_open_price b = sn_price (hd xs) \<and> db_close_price b = sn_price (last xs)
     \<and> db_high_price b = Max (sn_price ` set xs) \<and> db_low_price b = Min (sn_price ` set xs)
     \<and> db_total_volume b = sum_list (map sn_volume xs)
     \<and> db_total_fees b = sum_list (map sn_fees_collected xs)
     \<and> db_snapshot_count b = length xs"

lemma summarises_new: "summarises (new_bucket (snapshot_day x) x) [x]"
  by (simp add: summarises_def new_bucket_def)

lemma summarises_merge:
  assumes "summarises b xs" "merge_bucket b x = Inr b'" "snapshot_day x = db_day_timestamp b"
  shows "summarises b' (xs @ [x])" "db_day_timestamp b' = db_day_timestamp b"
proof -
  from assms(1) have ne: "sn_price ` set xs \<noteq> {}" by (simp add: summarises_def)
  have hi: "Max (sn_price ` set (xs @ [x])) = max (sn_price x) (Max (sn_price ` set xs))"
    and lo: "Min (sn_price ` set (xs @ [x])) = min (sn_price x) (Min (sn_price ` set xs))"
    using ne by simp_all
  have b': "db_day_timestamp b' = db_day_timestamp b" "db_open_price b' = db_open_price b"
    "db_high_price b' = max (sn_price x) (db_high_price b)"
    "db_low_price b' = min (sn_price x) (db_low_price b)" "db_close_price b' = sn_price x"
    "db_total_volume b' = db_total_volume b + sn_volume x"
    "db_total_fees b' = db_total_fees b + sn_fees_collected x"
    "db_snapshot_count b' = db_snapshot_count b + 1"
    using assms(2) unfolding merge_bucket_def and_then_eq_Inr by auto
  show "db_day_timestamp b' = db_day_timestamp b" by (rule b')
  have "xs \<noteq> []" using ne by simp
  then show "summarises b' (xs @ [x])"
    using assms(1,3) unfolding summarises_def hi lo b' by simp
qed

definition pool_ok :: "string \<Rightarrow> pool_snapshot list \<Rightarrow> liquidity_state \<Rightarrow> bool" where
  "pool_ok pid log s \<longleftrightarrow>
     rm_capacity (ring_meta_of pid s) = max_snapshots
     \<and> ring_holds (ring_meta_of pid s) (\<lambda>i. lq_snapshot s (pid, i)) log
     \<and> rm_capacity (daily_meta_of pid s) = max_daily_buckets
     \<and> (\<exists>bs. ring_holds (daily_meta_of pid s) (\<lambda>i. lq_daily_bucket s (pid, i)) bs
          \<and> list_all2 summarises bs (day_runs log))
     \<and> (lq_ring_meta s pid = None \<longleftrightarrow> log = [])"

lemma day_runs_snoc: "day_runs (xs @ [x]) = add_to_days x (day_runs xs)"
  by (simp add: day_runs_def)

lemma pool_ok_start: "pool_ok pid [] liquidity_start"
  by (auto simp: pool_ok_def liquidity_start_def ring_meta_of_def daily_meta_of_def ring_empty
      day_runs_def max_snapshots_def max_daily_buckets_def intro: exI [of _ "[]"])

lemma daily_ring_step:
  assumes "update_daily_bucket pid x s = Inr s'"
    and "rm_capacity (daily_meta_of pid s) = max_daily_buckets"
    and ring: "ring_holds (daily_meta_of pid s) (\<lambda>i. lq_daily_bucket s (pid, i)) bs"
    and sums: "list_all2 summarises bs gs"
  shows "rm_capacity (daily_meta_of pid s') = max_daily_buckets
    \<and> (\<exists>bs'. ring_holds (daily_meta_of pid s') (\<lambda>i. lq_daily_bucket s' (pid, i)) bs'
          \<and> list_all2 summarises bs' (add_to_days x gs))"
proof -
  let ?m = "daily_meta_of pid s"
  let ?last = "previous_index (rm_capacity ?m) (rm_head ?m)"
  note latest = ring_latest [OF ring]
  show ?thesis
  proof (cases "bs \<noteq> [] \<and> db_day_timestamp (last bs) = snapshot_day x")
    case True
    then obtain bs0 b where bs: "bs = bs0 @ [b]" by (metis append_butlast_last_id)
    with sums obtain gs0 g where gs: "gs = gs0 @ [g]" "list_all2 summarises bs0 gs0" "summarises b g"
      by (auto simp: list_all2_append1 list_all2_Cons1)
    from True bs have day: "db_day_timestamp b = snapshot_day x" by simp
    from assms(1) True latest bs obtain b' where b': "merge_bucket b x = Inr b'"
      and s': "s' = s\<lparr> lq_daily_bucket := (lq_daily_bucket s)((pid, ?last) \<mapsto> b') \<rparr>"
      by (auto simp: update_daily_bucket_def Let_def snapshot_day_def)
    have "snapshot_day (last g) = snapshot_day x" "g \<noteq> []"
      using gs(3) day by (auto simp: summarises_def list_all_iff)
    then have "add_to_days x gs = gs0 @ [g @ [x]]" by (simp add: add_to_days_def gs)
    moreover have "ring_holds ?m ((\<lambda>i. lq_daily_bucket s (pid, i))(?last \<mapsto> b')) (bs0 @ [b'])"
      by (rule ring_replace) (use ring bs in simp)
    moreover have "summarises b' (g @ [x])" by (rule summarises_merge [OF gs(3) b']) (simp add: day)
    ultimately show ?thesis using gs(2) assms(2)
      by (intro conjI exI [of _ "bs0 @ [b']"])
         (auto simp: s' daily_meta_of_def fun_upd_def list_all2_append [OF list_all2_lengthD [OF gs(2)]])
  next
    case False
    from assms(1) False latest obtain m' where m': "ring_advance ?m = Inr m'"
      and s': "s' = s\<lparr> lq_daily_bucket := (lq_daily_bucket s)((pid, rm_head ?m) \<mapsto> new_bucket (snapshot_day x) x),
                    lq_daily_meta := (lq_daily_meta s)(pid \<mapsto> m') \<rparr>"
      by (auto simp: update_daily_bucket_def Let_def snapshot_day_def split: option.splits if_splits)
    have "gs = [] \<or> snapshot_day (last (last gs)) \<noteq> snapshot_day x"
    proof (cases "bs = []")
      case True
      with sums show ?thesis by simp
    next
      case nonempty: False
      then obtain bs0 b where bs: "bs = bs0 @ [b]" by (metis append_butlast_last_id)
      with sums obtain gs0 g where "gs = gs0 @ [g]" "summarises b g"
        by (auto simp: list_all2_append1 list_all2_Cons1)
      with False nonempty bs show ?thesis by (auto simp: summarises_def list_all_iff)
    qed
    then have "add_to_days x gs = gs @ [[x]]" by (auto simp: add_to_days_def)
    moreover have "ring_holds m' ((\<lambda>i. lq_daily_bucket s (pid, i))(rm_head ?m \<mapsto> new_bucket (snapshot_day x) x))
        (bs @ [new_bucket (snapshot_day x) x])"
      using ring_push [OF ring] m' by (simp add: ring_advance_def)
    ultimately show ?thesis using sums assms(2) m'
      by (intro conjI exI [of _ "bs @ [new_bucket (snapshot_day x) x]"])
        (auto simp: s' daily_meta_of_def fun_upd_def ring_advance_def list_all2_append summarises_new list_all2_lengthD)
  qed
qed

lemma pool_ok_cong:
  assumes "lq_ring_meta s' pid = lq_ring_meta s pid" "\<And>i. lq_snapshot s' (pid, i) = lq_snapshot s (pid, i)"
    "lq_daily_meta s' pid = lq_daily_meta s pid" "\<And>i. lq_daily_bucket s' (pid, i) = lq_daily_bucket s (pid, i)"
  shows "pool_ok pid log s' = pool_ok pid log s"
  by (simp add: pool_ok_def ring_meta_of_def daily_meta_of_def assms)

lemma update_daily_bucket_others:
  assumes "update_daily_bucket p x s = Inr s'" "pid \<noteq> p"
  shows "lq_daily_meta s' pid = lq_daily_meta s pid" "lq_daily_bucket s' (pid, i) = lq_daily_bucket s (pid, i)"
  using assms by (auto simp: update_daily_bucket_def Let_def split: option.splits if_splits)

lemma record_pool_ok:
  assumes "record_pool_state env p ra rb sh v f ty s = Inr (x, s')" "pool_ok pid log s"
  shows "pool_ok pid (if p = pid then log @ [x] else log) s'"
proof -
  let ?m = "ring_meta_of p s"
  obtain m' s2 where m': "ring_advance ?m = Inr m'" and
    s2: "update_daily_bucket p x (s\<lparr> lq_snapshot := (lq_snapshot s)((p, rm_head ?m) \<mapsto> x),
        lq_ring_meta := (lq_ring_meta s)(p \<mapsto> m') \<rparr>) = Inr s2" and
    s': "lq_snapshot s' = lq_snapshot s2" "lq_ring_meta s' = lq_ring_meta s2"
      "lq_daily_meta s' = lq_daily_meta s2" "lq_daily_bucket s' = lq_daily_bucket s2"
    using record_pool_state_effect [OF assms(1)] by metis
  note frame = update_daily_bucket_frame [OF s2]
  show ?thesis
  proof (cases "p = pid")
    case False
    then have "pool_ok pid log s' = pool_ok pid log s"
      using update_daily_bucket_others [OF s2, of pid] by (intro pool_ok_cong) (auto simp: s' frame)
    with False assms(2) show ?thesis by simp
  next
    case True
    let ?s1 = "s\<lparr> lq_snapshot := (lq_snapshot s)((p, rm_head ?m) \<mapsto> x), lq_ring_meta := (lq_ring_meta s)(p \<mapsto> m') \<rparr>"
    from assms(2) True obtain bs where ring: "ring_holds ?m (\<lambda>i. lq_snapshot s (p, i)) log"
      and cap: "rm_capacity ?m = max_snapshots" "rm_capacity (daily_meta_of p s) = max_daily_buckets"
      and daily: "ring_holds (daily_meta_of p s) (\<lambda>i. lq_daily_bucket s (p, i)) bs"
        "list_all2 summarises bs (day_runs log)"
      by (auto simp: pool_ok_def)
    have same: "daily_meta_of p ?s1 = daily_meta_of p s" by (simp add: daily_meta_of_def)
    have "rm_capacity (daily_meta_of p s2) = max_daily_buckets
      \<and> (\<exists>bs'. ring_holds (daily_meta_of p s2) (\<lambda>i. lq_daily_bucket s2 (p, i)) bs'
          \<and> list_all2 summarises bs' (add_to_days x (day_runs log)))"
      by (rule daily_ring_step [OF s2, of bs]) (use cap daily in \<open>simp_all add: same\<close>)
    then have "rm_capacity (daily_meta_of p s') = max_daily_buckets
      \<and> (\<exists>bs'. ring_holds (daily_meta_of p s') (\<lambda>i. lq_daily_bucket s' (p, i)) bs'
          \<and> list_all2 summarises bs' (day_runs (log @ [x])))"
      by (simp add: daily_meta_of_def s' day_runs_snoc)
    moreover have "ring_meta_of p s' = m'" by (simp add: ring_meta_of_def s' frame)
    moreover have "(\<lambda>i. lq_snapshot s' (p, i)) = (\<lambda>i. lq_snapshot s (p, i))(rm_head ?m \<mapsto> x)"
      by (auto simp: s' frame)
    moreover have "rm_capacity m' = max_snapshots" using m' cap by (auto simp: ring_advance_def)
    ultimately show ?thesis using True ring_push [OF ring, of x] m' cap
      by (simp add: pool_ok_def ring_advance_def) (auto simp: s' frame)
  qed
qed

lemma run_pool_ok: "pool_ok pid log s \<Longrightarrow> pool_ok pid (log @ recorded pid s h) (run liquidity_exec s h)"
proof (induction pid s h arbitrary: log rule: recorded.induct)
  case (2 pid s env p ra rb sh v f ty h)
  show ?case
  proof (cases "record_pool_state env p ra rb sh v f ty s")
    case (Inl e)
    with 2 show ?thesis by (simp add: invoke_def state_of_def)
  next
    case (Inr r)
    obtain x s' where r: "r = (x, s')" by (cases r)
    from record_pool_ok [OF Inr [unfolded r] 2(4)]
    have "pool_ok pid (if p = pid then log @ [x] else log) s'" .
    from 2(2,3) [OF _ _ _ this] 2(2,3) this Inr r show ?thesis by (auto simp: invoke_def state_of_def)
  qed
qed simp

lemmas reachable_pool_ok = run_pool_ok [OF pool_ok_start, simplified]

section \<open>Properties\<close>

text \<open>C37: the ring buffer refines an unbounded log: after any history, the history query of a pool
  returns exactly the recorded snapshots of the window among the newest 720, oldest first, and
  the latest snapshot is the last one recorded.\<close>

theorem history_refines_log:
  "get_pool_history pid a b (run liquidity_exec liquidity_start h)
     = filter (\<lambda>x. a \<le> sn_timestamp x \<and> sn_timestamp x \<le> b)
         (drop (length (recorded pid liquidity_start h) - 720) (recorded pid liquidity_start h))
   \<and> get_latest_snapshot pid (run liquidity_exec liquidity_start h)
     = (if recorded pid liquidity_start h = [] then None else Some (last (recorded pid liquidity_start h)))"
proof -
  let ?s = "run liquidity_exec liquidity_start h" and ?log = "recorded pid liquidity_start h"
  from reachable_pool_ok [of pid h] have ring: "ring_holds (ring_meta_of pid ?s) (\<lambda>i. lq_snapshot ?s (pid, i)) ?log"
    and cap: "rm_capacity (ring_meta_of pid ?s) = 720" and none: "lq_ring_meta ?s pid = None \<longleftrightarrow> ?log = []"
    by (auto simp: pool_ok_def max_snapshots_def)
  have "get_latest_snapshot pid ?s = (if ?log = [] then None else Some (last ?log))"
  proof (cases "lq_ring_meta ?s pid")
    case (Some m)
    then have "ring_meta_of pid ?s = m" by (simp add: ring_meta_of_def)
    with Some none ring_latest [OF ring] show ?thesis by (auto simp: get_latest_snapshot_def)
  qed (use none in \<open>simp add: get_latest_snapshot_def\<close>)
  then show ?thesis
    using ring_walk [OF ring] by (simp add: get_pool_history_def get_snapshots_in_window_def cap)
qed

lemma recorded_append:
  "recorded p s (h @ h') = recorded p s h @ recorded p (run liquidity_exec s h) h'"
  by (induction p s h rule: recorded.induct) (auto split: sum.split simp: invoke_def state_of_def)

text \<open>Also: what is recorded can be read back: the new snapshot is the latest of its pool, carries the
  values it was given and the price they imply, is the newest entry of the history, and the
  snapshots of every other pool are untouched.\<close>

theorem record_then_read:
  assumes "record_pool_state env pid ra rb sh v f ty (run liquidity_exec liquidity_start h) = Inr (x, s')"
  shows "get_latest_snapshot pid s' = Some x
    \<and> (sn_reserve_a x, sn_reserve_b x, sn_total_shares x, sn_volume x, sn_fees_collected x, sn_pool_type x, sn_timestamp x)
        = (ra, rb, sh, v, f, ty, timestamp env)
    \<and> spot_price ra rb = Inr (sn_price x)
    \<and> (\<exists>xs. get_pool_history pid 0 (timestamp env) s' = xs @ [x])
    \<and> (q \<noteq> pid \<longrightarrow> get_pool_history q a b s' = get_pool_history q a b (run liquidity_exec liquidity_start h))"
proof -
  let ?h' = "h @ [(env, RecordPoolState pid ra rb sh v f ty)]"
  have s': "run liquidity_exec liquidity_start ?h' = s'"
    using assms by (simp add: run_append invoke_def state_of_def)
  have log: "recorded p liquidity_start ?h' = recorded p liquidity_start h @ (if p = pid then [x] else [])" for p
    using assms by (simp add: recorded_append)
  have fields: "(sn_reserve_a x, sn_reserve_b x, sn_total_shares x, sn_volume x, sn_fees_collected x, sn_pool_type x, sn_timestamp x)
        = (ra, rb, sh, v, f, ty, timestamp env)" "spot_price ra rb = Inr (sn_price x)"
    using assms unfolding record_pool_state_def and_then_eq_Inr Let_def by auto
  note spec = history_refines_log [where h = ?h', unfolded s' log]
  have 1: "get_latest_snapshot pid s' = Some x" using spec [of pid 0 "timestamp env"] by simp
  have 2: "\<exists>xs. get_pool_history pid 0 (timestamp env) s' = xs @ [x]"
    using spec [of pid 0 "timestamp env"] fields(1) by (auto simp: Suc_diff_le)
  have 3: "q \<noteq> pid \<longrightarrow> get_pool_history q a b s' = get_pool_history q a b (run liquidity_exec liquidity_start h)"
    by (simp add: spec [of q a b, THEN conjunct1] history_refines_log [of q a b h, THEN conjunct1])
  show ?thesis by (rule conjI [OF 1 conjI [OF fields(1) conjI [OF fields(2) conjI [OF 2 3]]]])
qed

definition demo_lq_env :: "nat \<Rightarrow> env" where
  "demo_lq_env t = \<lparr> timestamp = t, auths = [''admin''] \<rparr>"

definition demo_lq :: "(env \<times> liquidity_call) list" where
  "demo_lq = [(demo_lq_env 100, RecordPoolState ''p'' 1000 2000 10 5 1 Amm),
              (demo_lq_env 200, RecordPoolState ''p'' 1000 8000 10 7 2 Amm)]"

lemma record_then_read_witness:
  "\<exists>x s'. record_pool_state (demo_lq_env 300) ''p'' 500 500 1 2 3 Sdex (run liquidity_exec liquidity_start demo_lq) = Inr (x, s')
     \<and> get_latest_snapshot ''p'' s' = Some x \<and> sn_reserve_a x = 500"
proof -
  have "is_ok (record_pool_state (demo_lq_env 300) ''p'' 500 500 1 2 3 Sdex (run liquidity_exec liquidity_start demo_lq))"
    by code_simp
  then obtain x s' where r: "record_pool_state (demo_lq_env 300) ''p'' 500 500 1 2 3 Sdex (run liquidity_exec liquidity_start demo_lq) = Inr (x, s')"
    unfolding is_ok_iff by auto
  from record_then_read [OF r] r show ?thesis by blast
qed

text \<open>Also: the daily ring refines the log as well: the query returns, among the newest 90 buckets,
  those of the window, and the buckets are, in order, the summaries of the maximal runs of
  snapshots of one day: opening, closing, highest and lowest price, the totals and the count.\<close>

theorem daily_history_refines_log:
  "\<exists>bs. list_all2 summarises bs (day_runs (recorded pid liquidity_start h))
     \<and> (\<forall>a b. get_daily_history pid a b (run liquidity_exec liquidity_start h)
          = filter (\<lambda>d. a \<le> db_day_timestamp d \<and> db_day_timestamp d \<le> b) (drop (length bs - 90) bs))"
proof -
  let ?s = "run liquidity_exec liquidity_start h"
  from reachable_pool_ok [of pid h] obtain bs where
    ring: "ring_holds (daily_meta_of pid ?s) (\<lambda>i. lq_daily_bucket ?s (pid, i)) bs" and
    cap: "rm_capacity (daily_meta_of pid ?s) = 90" and
    sums: "list_all2 summarises bs (day_runs (recorded pid liquidity_start h))"
    by (auto simp: pool_ok_def max_daily_buckets_def)
  show ?thesis using sums ring_walk [OF ring] by (auto simp: get_daily_history_def cap)
qed

lemma am_gm_int: "0 \<le> (q :: int) \<Longrightarrow> q * q \<le> a * b \<Longrightarrow> 0 \<le> a \<Longrightarrow> 0 \<le> b \<Longrightarrow> 2 * q \<le> a + b"
proof (rule ccontr)
  assume a: "0 \<le> q" "q * q \<le> a * b" "0 \<le> a" "0 \<le> b" "\<not> 2 * q \<le> a + b"
  then have "(a + b) * (a + b) < (2 * q) * (2 * q)" by (intro mult_strict_mono) auto
  also have "\<dots> \<le> 4 * (a * b)" using a(2) by simp
  finally have "(a - b) * (a - b) < 0" by (simp add: algebra_simps)
  with zero_le_square [of "a - b"] show False by simp
qed

lemma loss_factor_bounds:
  assumes "loss_factor r = Inr k" "0 \<le> r"
  shows "0 \<le> k" "k \<le> price_precision" "r = price_precision \<Longrightarrow> k = 0"
proof -
  let ?P = price_precision
  have P: "0 < ?P" by (simp add: price_precision_def)
  from P assms(2) have pos: "0 < ?P + r" by simp
  from assms obtain q where s: "in_i128 (r * ?P)" "lp_isqrt (r * ?P) = (Inr q :: (unit, int) res)"
    and d: "div_i128 (2 * q * ?P) (?P + r) = (Inr (?P - k) :: (unit, int) res)"
    unfolding loss_factor_def and_then_eq_Inr using pos by auto
  have rP: "0 \<le> r * ?P" using assms(2) P by simp
  have "r * ?P \<noteq> i128_max" using s(2) by (auto simp: integer_sqrt_max)
  with s(1) rP have dom: "0 \<le> r * ?P \<and> r * ?P < i128_max" by (simp add: in_i128_def)
  then obtain q' where "lp_isqrt (r * ?P) = (Inr q' :: (unit, int) res)" "0 \<le> q'" "q' * q' \<le> r * ?P"
    using lp_root.root_bracket by blast
  with s(2) have q: "0 \<le> q" "q * q \<le> r * ?P" by auto
  have le: "2 * q \<le> ?P + r" using am_gm_int [OF q] assms(2) P by simp
  have k: "?P - k = 2 * q * ?P div (?P + r)"
    using d q(1) P assms(2) by (auto simp: div_i128_def sdiv_nonneg split: if_splits)
  have "2 * q * ?P div (?P + r) \<le> (?P + r) * ?P div (?P + r)"
    using le P assms(2) by (intro zdiv_mono1 mult_right_mono) auto
  also have "\<dots> = ?P" using P assms(2) by simp
  finally show "0 \<le> k" using k by simp
  have "0 \<le> 2 * q * ?P div (?P + r)" using q(1) P assms(2) by (simp add: pos_imp_zdiv_nonneg_iff)
  with k show "k \<le> ?P" by simp
  assume "r = ?P"
  moreover from this have "lp_isqrt (r * ?P) = (Inr ?P :: (unit, int) res)"
    using lp_root.root_square [of ?P] dom P by simp
  ultimately show "k = 0" using s(2) k P by simp
qed

text \<open>Also: a reported impermanent loss lies between zero and one hundred percent, is zero when the
  price is where it was at entry, and for a position of non-negative value the value of the
  position never exceeds that of holding: the net loss is what lies between the two.\<close>

theorem impermanent_loss_bounds:
  assumes "calculate_impermanent_loss pid entry_price initial_value s = Inr r"
  shows "0 \<le> il_percentage r \<and> il_percentage r \<le> price_precision
    \<and> (il_current_price r = entry_price \<longrightarrow> il_percentage r = 0)
    \<and> il_net_loss r = il_hodl_value r - il_current_value r
    \<and> (0 \<le> initial_value \<longrightarrow> 0 \<le> il_current_value r \<and> il_current_value r \<le> il_hodl_value r)"
proof -
  let ?P = price_precision
  let ?cur = "case get_latest_snapshot pid s of Some x \<Rightarrow> sn_price x | None \<Rightarrow> 0"
  have P: "0 < ?P" by (simp add: price_precision_def)
  show ?thesis
  proof (cases "entry_price \<le> 0 \<or> ?cur \<le> 0")
    case True
    with assms P show ?thesis by (auto simp: calculate_impermanent_loss_def Let_def)
  next
    case False
    with assms obtain ratio k where
      ratio: "div_i128 (?cur * ?P) entry_price = (Inr ratio :: (unit, int) res)" and
      k: "loss_factor ratio = Inr k" and
      r: "il_percentage r = (if 0 < k then k else 0)" "il_current_price r = ?cur"
        "il_net_loss r = il_hodl_value r - il_current_value r"
        "div_i128 (initial_value * (?P + ratio)) (2 * ?P) = (Inr (il_hodl_value r) :: (unit, int) res)"
        "div_i128 (il_hodl_value r * (?P - (if 0 < k then k else 0))) ?P = (Inr (il_current_value r) :: (unit, int) res)"
      unfolding calculate_impermanent_loss_def Let_def if_not_P [OF False] and_then_eq_Inr by auto
    have rat: "ratio = ?cur * ?P div entry_price"
      using ratio False P by (auto simp: div_i128_def sdiv_nonneg split: if_splits)
    then have nonneg: "0 \<le> ratio" using False P by (simp add: pos_imp_zdiv_nonneg_iff)
    note bounds = loss_factor_bounds [OF k nonneg]
    have "?cur = entry_price \<longrightarrow> ratio = ?P" using rat False by auto
    moreover have "0 \<le> il_current_value r \<and> il_current_value r \<le> il_hodl_value r" if "0 \<le> initial_value"
    proof -
      have h: "0 \<le> il_hodl_value r" using r(4) that nonneg P
        by (auto simp: div_i128_def sdiv_nonneg pos_imp_zdiv_nonneg_iff split: if_splits)
      have c: "il_current_value r = il_hodl_value r * (?P - k) div ?P"
        using r(5) h bounds P by (auto simp: div_i128_def sdiv_nonneg split: if_splits)
      have "il_hodl_value r * (?P - k) div ?P \<le> il_hodl_value r * ?P div ?P"
        using h bounds P by (intro zdiv_mono1 mult_left_mono) auto
      with c h bounds P show ?thesis by (simp add: pos_imp_zdiv_nonneg_iff)
    qed
    ultimately show ?thesis using r bounds by auto
  qed
qed

lemma impermanent_loss_bounds_witness:
  "\<exists>r. calculate_impermanent_loss ''p'' 20000000 1000000000 (run liquidity_exec liquidity_start demo_lq) = Inr r
     \<and> il_percentage r = 2000000 \<and> 0 \<le> il_current_value r \<and> il_current_value r \<le> il_hodl_value r"
proof -
  have "map_sum (\<lambda>_. ()) il_percentage
      (calculate_impermanent_loss ''p'' 20000000 1000000000 (run liquidity_exec liquidity_start demo_lq)) = Inr 2000000"
    by code_simp
  then obtain r where r: "calculate_impermanent_loss ''p'' 20000000 1000000000
      (run liquidity_exec liquidity_start demo_lq) = Inr r" "il_percentage r = 2000000"
    by (cases "calculate_impermanent_loss ''p'' 20000000 1000000000 (run liquidity_exec liquidity_start demo_lq)") auto
  from impermanent_loss_bounds [OF r(1)] r show ?thesis by auto
qed

text \<open>Also: the depth score is a percentage, linear in the locked value up to the baseline; a pool
  without snapshots scores zero.\<close>

theorem depth_score_bounds:
  assumes "get_liquidity_depth pid s = Inr d"
  shows "ld_depth_score d \<le> 100
    \<and> (0 \<le> ld_total_value_locked d \<longrightarrow>
        int (ld_depth_score d) = min 100 (ld_total_value_locked d * 100 div (1000000 * price_precision)))"
proof -
  let ?B = "1000000 * price_precision"
  have B: "0 < ?B" by (simp add: price_precision_def)
  have score: "n \<le> 100 \<and> (0 \<le> t \<longrightarrow> int n = min 100 (t * 100 div ?B))"
    if "depth_score_of t = Inr n" for t n
  proof (cases "?B \<le> t \<or> t \<le> 0")
    case True
    with that B show ?thesis
      by (cases "?B \<le> t") (auto simp: depth_score_of_def le_zdiv_iff min_def)
  next
    case False
    with that have q: "n = nat (t * 100 div ?B) mod 2 ^ 32"
      by (auto simp: depth_score_of_def Let_def div_i128_def sdiv_nonneg split: if_splits)
    have lo: "0 \<le> t * 100 div ?B" using False B by (simp add: pos_imp_zdiv_nonneg_iff)
    have hi: "t * 100 div ?B < 100" using False le_zdiv_iff [OF B, of 100 "t * 100"] by linarith
    from q lo hi have "n = nat (t * 100 div ?B)" by simp
    with lo hi show ?thesis by simp
  qed
  show ?thesis
  proof (cases "get_latest_snapshot pid s")
    case None
    with assms show ?thesis by (auto simp: get_liquidity_depth_def)
  next
    case (Some x)
    with assms have "depth_score_of (ld_total_value_locked d) = Inr (ld_depth_score d)"
      by (auto simp: get_liquidity_depth_def)
    from score [OF this] show ?thesis .
  qed
qed

lemma depth_score_bounds_witness:
  "\<exists>d. get_liquidity_depth ''p'' (run liquidity_exec liquidity_start demo_lq) = Inr d \<and> ld_depth_score d \<le> 100"
proof -
  have "is_ok (get_liquidity_depth ''p'' (run liquidity_exec liquidity_start demo_lq))" by code_simp
  then obtain d where d: "get_liquidity_depth ''p'' (run liquidity_exec liquidity_start demo_lq) = Inr d"
    unfolding is_ok_iff by auto
  from depth_score_bounds [OF d] d show ?thesis by auto
qed

end
