(* ===== verification/Fee_Distribution.thy ===== *)
theory Fee_Distribution
  imports Soroban
begin

text \<open>
  \<open>soroban/src/fee_distribution.rs\<close>: protocol fees are collected per token, split between
  stakers (a dividend-per-share accumulator), a governance pool (linear vesting schedules) and
  the treasury. One record field per constructor of \<open>FeeDistDataKey\<close>.

  The token contracts are not part of the repository. A transfer is appended to the log
  \<open>fd_transfers\<close>; whether the token contract lets it pass is the parameter
  \<open>accepts\<close>, a function of the transfers made so far and the one asked for. \<open>self\<close> is the
  address of this contract.
\<close>

section \<open>Data\<close>

definition fee_precision :: int where "fee_precision = 1000000000000"
definition fee_bps_denom :: nat where "fee_bps_denom = 10000"

record distribution_ratios =
  dr_stakers_bps :: nat
  dr_governance_bps :: nat
  dr_treasury_bps :: nat

record fee_pool =
  fp_token :: address
  fp_total_collected :: int
  fp_total_distributed :: int
  fp_pending :: int
  fp_acc_fee_per_share :: int
  fp_governance_pool :: int
  fp_last_distribution_time :: nat

record vesting_schedule =
  vs_beneficiary :: address
  vs_token :: address
  vs_total_amount :: int
  vs_claimed_amount :: int
  vs_start_time :: nat
  vs_duration :: nat
  vs_cliff :: nat

record distribution_record =
  rec_token :: address
  rec_total_amount :: int
  rec_stakers_amount :: int
  rec_governance_amount :: int
  rec_treasury_amount :: int
  rec_timestamp :: nat
  rec_distribution_id :: nat

record token_transfer =
  tt_token :: address
  tt_from :: address
  tt_to :: address
  tt_amount :: int

type_synonym token_contract = "token_transfer list \<Rightarrow> token_transfer \<Rightarrow> bool"

record fee_state =
  fd_admin :: "address option"
  fd_treasury :: "address option"
  fd_staking_token :: "address option"
  fd_total_staked :: "int option"
  fd_ratios :: "distribution_ratios option"
  fd_pools :: "address \<Rightarrow> fee_pool option"
  fd_staker_amount :: "address \<Rightarrow> int option"
  fd_staker_debt :: "address \<times> address \<Rightarrow> int option"
  fd_staker_pending :: "address \<times> address \<Rightarrow> int option"
  fd_staker_time :: "address \<Rightarrow> nat option"
  fd_staker_compound :: "address \<Rightarrow> bool option"
  fd_vesting :: "nat \<Rightarrow> vesting_schedule option"
  fd_vesting_count :: "nat option"
  fd_distribution :: "nat \<Rightarrow> distribution_record option"
  fd_distribution_count :: "nat option"
  fd_collectors :: "address list option"
  fd_tokens :: "address list option"
  fd_emergency :: "bool option"
  fd_interval :: "nat option"
  fd_last_auto :: "nat option"
  fd_transfers :: "token_transfer list"

type_synonym 'a fres = "(unit, 'a) res"

definition fee_start :: fee_state where
  "fee_start = \<lparr> fd_admin = None, fd_treasury = None, fd_staking_token = None, fd_total_staked = None,
     fd_ratios = None, fd_pools = (\<lambda>_. None), fd_staker_amount = (\<lambda>_. None),
     fd_staker_debt = (\<lambda>_. None), fd_staker_pending = (\<lambda>_. None), fd_staker_time = (\<lambda>_. None),
     fd_staker_compound = (\<lambda>_. None), fd_vesting = (\<lambda>_. None), fd_vesting_count = None,
     fd_distribution = (\<lambda>_. None), fd_distribution_count = None, fd_collectors = None,
     fd_tokens = None, fd_emergency = None, fd_interval = None, fd_last_auto = None,
     fd_transfers = [] \<rparr>"

section \<open>Helpers\<close>

text \<open>\<open>checked_add(..).expect("overflow")\<close> and its relatives.\<close>

definition expect_i128 :: "string \<Rightarrow> int \<Rightarrow> int fres" where
  "expect_i128 msg x = ok_or (checked_i128 x) (Panic msg)"

definition expect_u32 :: "nat \<Rightarrow> nat fres" where
  "expect_u32 x = (if x \<le> u32_max then Inr x else Inl (Panic ''overflow''))"

definition pay :: "token_contract \<Rightarrow> address \<Rightarrow> address \<Rightarrow> address \<Rightarrow> int \<Rightarrow> fee_state \<Rightarrow> fee_state fres" where
  "pay accepts tk from to amount s =
     (let t = \<lparr> tt_token = tk, tt_from = from, tt_to = to, tt_amount = amount \<rparr>
      in if accepts (fd_transfers s) t then Inr (s\<lparr> fd_transfers := fd_transfers s @ [t] \<rparr>)
         else Inl (Panic ''token transfer''))"

definition fee_require_admin :: "env \<Rightarrow> fee_state \<Rightarrow> unit fres" where
  "fee_require_admin env s = and_then (unwrap (fd_admin s)) (\<lambda>admin. require_auth env admin)"

definition require_not_emergency :: "fee_state \<Rightarrow> unit fres" where
  "require_not_emergency s =
     and_then (unwrap (fd_emergency s)) (\<lambda>e. ensure (\<not> e) (Panic ''contract is in emergency mode''))"

definition require_token_supported :: "address \<Rightarrow> fee_state \<Rightarrow> unit fres" where
  "require_token_supported tk s =
     and_then (unwrap (fd_tokens s)) (\<lambda>ts.
     ensure (list_ex (\<lambda>t. t = tk) ts) (Panic ''token not supported''))"

definition validate_ratios :: "distribution_ratios \<Rightarrow> unit fres" where
  "validate_ratios r =
     and_then (expect_u32 (dr_stakers_bps r + dr_governance_bps r)) (\<lambda>x.
     and_then (expect_u32 (x + dr_treasury_bps r)) (\<lambda>sum.
     ensure (sum = fee_bps_denom) (Panic ''ratios must sum to 10000'')))"

definition bps_of :: "int \<Rightarrow> nat \<Rightarrow> int fres" where
  "bps_of amount bps =
     and_then (expect_i128 ''overflow'' (amount * int bps)) (\<lambda>x. Inr (x sdiv int fee_bps_denom))"

text \<open>\<open>harvest_rewards\<close>: the loop over the tokens, then the routine with its early return.\<close>

fun harvest_tokens :: "address \<Rightarrow> int \<Rightarrow> address list \<Rightarrow> fee_state \<Rightarrow> fee_state fres" where
  "harvest_tokens staker stake [] s = Inr s"
| "harvest_tokens staker stake (tk # tks) s =
     (case fd_pools s tk of
        None \<Rightarrow> harvest_tokens staker stake tks s
      | Some pool \<Rightarrow>
          let debt = unwrap_or (fd_staker_debt s (staker, tk)) 0
          in and_then (expect_i128 ''overflow'' (stake * fp_acc_fee_per_share pool)) (\<lambda>x.
             let accrued = x sdiv fee_precision;
                 new_rewards = sat_i128 (accrued - debt)
             in if 0 < new_rewards
                then let existing = unwrap_or (fd_staker_pending s (staker, tk)) 0
                     in and_then (expect_i128 ''overflow'' (existing + new_rewards)) (\<lambda>p.
                        harvest_tokens staker stake tks
                          (s\<lparr> fd_staker_pending := (fd_staker_pending s)((staker, tk) \<mapsto> p),
                             fd_staker_debt := (fd_staker_debt s)((staker, tk) \<mapsto> accrued) \<rparr>))
                else harvest_tokens staker stake tks s))"

definition harvest_rewards :: "address \<Rightarrow> address list \<Rightarrow> fee_state \<Rightarrow> fee_state fres" where
  "harvest_rewards staker tokens s =
     (let stake = unwrap_or (fd_staker_amount s staker) 0
      in if stake = 0 then Inr s else harvest_tokens staker stake tokens s)"

fun sync_debts :: "address \<Rightarrow> int \<Rightarrow> address list \<Rightarrow> fee_state \<Rightarrow> fee_state fres" where
  "sync_debts staker new_stake [] s = Inr s"
| "sync_debts staker new_stake (tk # tks) s =
     (case fd_pools s tk of
        None \<Rightarrow> sync_debts staker new_stake tks s
      | Some pool \<Rightarrow>
          and_then (expect_i128 ''overflow'' (new_stake * fp_acc_fee_per_share pool)) (\<lambda>x.
          sync_debts staker new_stake tks
            (s\<lparr> fd_staker_debt := (fd_staker_debt s)((staker, tk) \<mapsto> x sdiv fee_precision) \<rparr>)))"

section \<open>Distribution\<close>

text \<open>One iteration of \<open>do_distribute\<close>: the split, the accumulator, the governance pool, the sweep
  to the treasury and the record.\<close>

definition credit_stakers :: "int \<Rightarrow> int \<Rightarrow> fee_pool \<Rightarrow> fee_pool fres" where
  "credit_stakers total_staked stakers_amt pool =
     (if 0 < total_staked \<and> 0 < stakers_amt
      then and_then (expect_i128 ''overflow'' (stakers_amt * fee_precision)) (\<lambda>x.
           and_then (expect_i128 ''overflow'' (fp_acc_fee_per_share pool + x sdiv total_staked)) (\<lambda>acc.
           Inr (pool\<lparr> fp_acc_fee_per_share := acc \<rparr>)))
      else if 0 < stakers_amt
      then and_then (expect_i128 ''overflow'' (fp_governance_pool pool + stakers_amt)) (\<lambda>g.
           Inr (pool\<lparr> fp_governance_pool := g \<rparr>))
      else Inr pool)"

definition write_record :: "distribution_record \<Rightarrow> fee_state \<Rightarrow> fee_state fres" where
  "write_record r s =
     and_then (unwrap (fd_distribution_count s)) (\<lambda>count.
     and_then (expect_u32 (count + 1)) (\<lambda>count'.
     Inr (s\<lparr> fd_distribution := (fd_distribution s)(count \<mapsto> r\<lparr> rec_distribution_id := count \<rparr>),
            fd_distribution_count := Some count' \<rparr>)))"

definition distribute_pool :: "token_contract \<Rightarrow> address \<Rightarrow> env \<Rightarrow> distribution_ratios \<Rightarrow> int \<Rightarrow> address
    \<Rightarrow> address \<Rightarrow> fee_pool \<Rightarrow> fee_state \<Rightarrow> fee_state fres" where
  "distribute_pool accepts self env ratios total_staked treasury tk pool s =
     (let pending = fp_pending pool
      in and_then (bps_of pending (dr_stakers_bps ratios)) (\<lambda>stakers_amt.
         and_then (bps_of pending (dr_governance_bps ratios)) (\<lambda>governance_amt.
         and_then (expect_i128 ''underflow'' (pending - stakers_amt)) (\<lambda>rest.
         and_then (expect_i128 ''underflow'' (rest - governance_amt)) (\<lambda>treasury_amt.
         and_then (credit_stakers total_staked stakers_amt pool) (\<lambda>pool1.
         and_then (expect_i128 ''overflow'' (fp_governance_pool pool1 + governance_amt)) (\<lambda>g.
         and_then (if 0 < treasury_amt then pay accepts tk self treasury treasury_amt s else Inr s) (\<lambda>s1.
         and_then (expect_i128 ''overflow'' (fp_total_distributed pool1 + pending)) (\<lambda>d.
         write_record
           \<lparr> rec_token = tk, rec_total_amount = pending, rec_stakers_amount = stakers_amt,
             rec_governance_amount = governance_amt, rec_treasury_amount = treasury_amt,
             rec_timestamp = timestamp env, rec_distribution_id = 0 \<rparr>
           (s1\<lparr> fd_pools := (fd_pools s1)(tk \<mapsto> pool1\<lparr> fp_governance_pool := g, fp_total_distributed := d,
                  fp_pending := 0, fp_last_distribution_time := timestamp env \<rparr>) \<rparr>))))))))))"

fun distribute_tokens :: "token_contract \<Rightarrow> address \<Rightarrow> env \<Rightarrow> distribution_ratios \<Rightarrow> int \<Rightarrow> address
    \<Rightarrow> address list \<Rightarrow> fee_state \<Rightarrow> fee_state fres" where
  "distribute_tokens accepts self env ratios total_staked treasury [] s = Inr s"
| "distribute_tokens accepts self env ratios total_staked treasury (tk # tks) s =
     (case fd_pools s tk of
        None \<Rightarrow> distribute_tokens accepts self env ratios total_staked treasury tks s
      | Some pool \<Rightarrow>
          if fp_pending pool = 0
          then distribute_tokens accepts self env ratios total_staked treasury tks s
          else and_then (distribute_pool accepts self env ratios total_staked treasury tk pool s)
                 (distribute_tokens accepts self env ratios total_staked treasury tks))"

definition do_distribute :: "token_contract \<Rightarrow> address \<Rightarrow> env \<Rightarrow> address list \<Rightarrow> fee_state \<Rightarrow> fee_state fres" where
  "do_distribute accepts self env tokens s =
     and_then (unwrap (fd_ratios s)) (\<lambda>ratios.
     and_then (unwrap (fd_total_staked s)) (\<lambda>total_staked.
     and_then (unwrap (fd_treasury s)) (\<lambda>treasury.
     and_then (distribute_tokens accepts self env ratios total_staked treasury tokens s) (\<lambda>s'.
     Inr (s'\<lparr> fd_last_auto := Some (timestamp env) \<rparr>)))))"

definition maybe_auto_distribute :: "token_contract \<Rightarrow> address \<Rightarrow> env \<Rightarrow> fee_state \<Rightarrow> fee_state fres" where
  "maybe_auto_distribute accepts self env s =
     and_then (unwrap (fd_interval s)) (\<lambda>interval.
     if interval = 0 then Inr s
     else and_then (unwrap (fd_last_auto s)) (\<lambda>last_time.
          if sat_u64 (last_time + interval) \<le> timestamp env
          then and_then (unwrap (fd_tokens s)) (\<lambda>ts. do_distribute accepts self env ts s)
          else Inr s))"

section \<open>Entry points\<close>

definition fee_initialize :: "env \<Rightarrow> address \<Rightarrow> address \<Rightarrow> address \<Rightarrow> distribution_ratios
    \<Rightarrow> fee_state \<Rightarrow> fee_state fres" where
  "fee_initialize env admin treasury staking_token ratios s =
     and_then (ensure (fd_admin s = None) (Panic ''already initialized'')) (\<lambda>_.
     and_then (require_auth env admin) (\<lambda>_.
     and_then (validate_ratios ratios) (\<lambda>_.
     Inr (s\<lparr> fd_admin := Some admin, fd_treasury := Some treasury,
            fd_staking_token := Some staking_token, fd_ratios := Some ratios,
            fd_total_staked := Some 0, fd_vesting_count := Some 0, fd_distribution_count := Some 0,
            fd_emergency := Some False, fd_interval := Some 0, fd_last_auto := Some 0,
            fd_collectors := Some [], fd_tokens := Some [] \<rparr>))))"

definition update_ratios :: "env \<Rightarrow> distribution_ratios \<Rightarrow> fee_state \<Rightarrow> fee_state fres" where
  "update_ratios env ratios s =
     and_then (fee_require_admin env s) (\<lambda>_.
     and_then (validate_ratios ratios) (\<lambda>_.
     Inr (s\<lparr> fd_ratios := Some ratios \<rparr>)))"

definition add_fee_token :: "env \<Rightarrow> address \<Rightarrow> fee_state \<Rightarrow> fee_state fres" where
  "add_fee_token env tk s =
     and_then (fee_require_admin env s) (\<lambda>_.
     and_then (unwrap (fd_tokens s)) (\<lambda>ts.
     if list_ex (\<lambda>t. t = tk) ts then Inr s
     else
       let s1 = s\<lparr> fd_tokens := Some (ts @ [tk]) \<rparr>
       in if fd_pools s1 tk = None
          then Inr (s1\<lparr> fd_pools := (fd_pools s1)(tk \<mapsto>
                 \<lparr> fp_token = tk, fp_total_collected = 0, fp_total_distributed = 0, fp_pending = 0,
                   fp_acc_fee_per_share = 0, fp_governance_pool = 0,
                   fp_last_distribution_time = timestamp env \<rparr>) \<rparr>)
          else Inr s1))"

definition add_collector :: "env \<Rightarrow> address \<Rightarrow> fee_state \<Rightarrow> fee_state fres" where
  "add_collector env collector s =
     and_then (fee_require_admin env s) (\<lambda>_.
     and_then (unwrap (fd_collectors s)) (\<lambda>cs.
     if list_ex (\<lambda>c. c = collector) cs then Inr s
     else Inr (s\<lparr> fd_collectors := Some (cs @ [collector]) \<rparr>)))"

definition remove_collector :: "env \<Rightarrow> address \<Rightarrow> fee_state \<Rightarrow> fee_state fres" where
  "remove_collector env collector s =
     and_then (fee_require_admin env s) (\<lambda>_.
     and_then (unwrap (fd_collectors s)) (\<lambda>cs.
     Inr (s\<lparr> fd_collectors := Some (filter (\<lambda>c. c \<noteq> collector) cs) \<rparr>)))"

definition set_distribution_interval :: "env \<Rightarrow> nat \<Rightarrow> fee_state \<Rightarrow> fee_state fres" where
  "set_distribution_interval env interval_secs s =
     and_then (fee_require_admin env s) (\<lambda>_. Inr (s\<lparr> fd_interval := Some interval_secs \<rparr>))"

definition update_treasury :: "env \<Rightarrow> address \<Rightarrow> fee_state \<Rightarrow> fee_state fres" where
  "update_treasury env new_treasury s =
     and_then (fee_require_admin env s) (\<lambda>_. Inr (s\<lparr> fd_treasury := Some new_treasury \<rparr>))"

definition fee_collect :: "token_contract \<Rightarrow> address \<Rightarrow> env \<Rightarrow> address \<Rightarrow> address \<Rightarrow> int
    \<Rightarrow> fee_state \<Rightarrow> fee_state fres" where
  "fee_collect accepts self env collector tk amount s =
     and_then (require_auth env collector) (\<lambda>_.
     and_then (require_not_emergency s) (\<lambda>_.
     and_then (ensure (0 < amount) (Panic ''amount must be positive'')) (\<lambda>_.
     and_then (unwrap (fd_admin s)) (\<lambda>admin.
     and_then (if admin \<noteq> collector
               then and_then (unwrap (fd_collectors s)) (\<lambda>cs.
                    ensure (list_ex (\<lambda>c. c = collector) cs) (Panic ''unauthorized collector''))
               else Inr ()) (\<lambda>_.
     and_then (require_token_supported tk s) (\<lambda>_.
     and_then (pay accepts tk collector self amount s) (\<lambda>s1.
     and_then (unwrap (fd_pools s1 tk)) (\<lambda>pool.
     and_then (expect_i128 ''overflow'' (fp_total_collected pool + amount)) (\<lambda>c.
     and_then (expect_i128 ''overflow'' (fp_pending pool + amount)) (\<lambda>p.
     maybe_auto_distribute accepts self env
       (s1\<lparr> fd_pools := (fd_pools s1)(tk \<mapsto> pool\<lparr> fp_total_collected := c, fp_pending := p \<rparr>) \<rparr>)))))))))))"

definition distribute_fees :: "token_contract \<Rightarrow> address \<Rightarrow> env \<Rightarrow> address list \<Rightarrow> fee_state \<Rightarrow> fee_state fres" where
  "distribute_fees accepts self env tokens s =
     and_then (require_not_emergency s) (\<lambda>_.
     and_then (if tokens = [] then unwrap (fd_tokens s) else Inr tokens) (\<lambda>ts.
     do_distribute accepts self env ts s))"

definition stake_for_fees :: "token_contract \<Rightarrow> address \<Rightarrow> env \<Rightarrow> address \<Rightarrow> int \<Rightarrow> bool
    \<Rightarrow> fee_state \<Rightarrow> fee_state fres" where
  "stake_for_fees accepts self env staker amount enable_compound s =
     and_then (require_auth env staker) (\<lambda>_.
     and_then (require_not_emergency s) (\<lambda>_.
     and_then (ensure (0 < amount) (Panic ''amount must be positive'')) (\<lambda>_.
     and_then (unwrap (fd_tokens s)) (\<lambda>ts.
     and_then (harvest_rewards staker ts s) (\<lambda>s1.
     and_then (unwrap (fd_staking_token s1)) (\<lambda>st.
     and_then (pay accepts st staker self amount s1) (\<lambda>s2.
     let current_stake = unwrap_or (fd_staker_amount s2 staker) 0
     in and_then (expect_i128 ''overflow'' (current_stake + amount)) (\<lambda>new_stake.
     and_then (sync_debts staker new_stake ts
                 (s2\<lparr> fd_staker_amount := (fd_staker_amount s2)(staker \<mapsto> new_stake) \<rparr>)) (\<lambda>s3.
     and_then (unwrap (fd_total_staked s3)) (\<lambda>total_staked.
     and_then (expect_i128 ''overflow'' (total_staked + amount)) (\<lambda>total'.
     Inr (s3\<lparr> fd_staker_time := (if current_stake = 0 then (fd_staker_time s3)(staker \<mapsto> timestamp env)
                                else fd_staker_time s3),
             fd_staker_compound := (fd_staker_compound s3)(staker \<mapsto> enable_compound),
             fd_total_staked := Some total' \<rparr>))))))))))))"

definition fee_unstake :: "token_contract \<Rightarrow> address \<Rightarrow> env \<Rightarrow> address \<Rightarrow> int \<Rightarrow> fee_state \<Rightarrow> fee_state fres" where
  "fee_unstake accepts self env staker amount s =
     and_then (require_auth env staker) (\<lambda>_.
     let current_stake = unwrap_or (fd_staker_amount s staker) 0
     in and_then (ensure (\<not> (amount \<le> 0 \<or> current_stake < amount)) (Panic ''invalid unstake amount'')) (\<lambda>_.
     and_then (unwrap (fd_tokens s)) (\<lambda>ts.
     and_then (harvest_rewards staker ts s) (\<lambda>s1.
     and_then (expect_i128 ''underflow'' (current_stake - amount)) (\<lambda>new_stake.
     and_then (sync_debts staker new_stake ts
                 (s1\<lparr> fd_staker_amount := (fd_staker_amount s1)(staker \<mapsto> new_stake) \<rparr>)) (\<lambda>s2.
     and_then (unwrap (fd_staking_token s2)) (\<lambda>st.
     and_then (pay accepts st self staker amount s2) (\<lambda>s3.
     and_then (unwrap (fd_total_staked s3)) (\<lambda>total_staked.
     and_then (expect_i128 ''underflow'' (total_staked - amount)) (\<lambda>total'.
     Inr (s3\<lparr> fd_total_staked := Some total' \<rparr>)))))))))))"

text \<open>The re-staking branch of \<open>claim_fees\<close> and the end of \<open>compound_rewards\<close> are the same code.\<close>

definition restake :: "address \<Rightarrow> int \<Rightarrow> address list \<Rightarrow> fee_state \<Rightarrow> fee_state fres" where
  "restake staker pending ts s =
     (let current_stake = unwrap_or (fd_staker_amount s staker) 0
      in and_then (expect_i128 ''overflow'' (current_stake + pending)) (\<lambda>new_stake.
         and_then (sync_debts staker new_stake ts
                     (s\<lparr> fd_staker_amount := (fd_staker_amount s)(staker \<mapsto> new_stake) \<rparr>)) (\<lambda>s1.
         and_then (unwrap (fd_total_staked s1)) (\<lambda>total_staked.
         and_then (expect_i128 ''overflow'' (total_staked + pending)) (\<lambda>total'.
         Inr (s1\<lparr> fd_total_staked := Some total' \<rparr>))))))"

definition claim_fees :: "token_contract \<Rightarrow> address \<Rightarrow> env \<Rightarrow> address \<Rightarrow> address \<Rightarrow> fee_state \<Rightarrow> fee_state fres" where
  "claim_fees accepts self env staker tk s =
     and_then (require_auth env staker) (\<lambda>_.
     and_then (require_not_emergency s) (\<lambda>_.
     and_then (unwrap (fd_tokens s)) (\<lambda>ts.
     and_then (harvest_rewards staker ts s) (\<lambda>s1.
     let pending = unwrap_or (fd_staker_pending s1 (staker, tk)) 0
     in and_then (ensure (pending \<noteq> 0) (Panic ''nothing to claim'')) (\<lambda>_.
     let s2 = s1\<lparr> fd_staker_pending := (fd_staker_pending s1)((staker, tk) \<mapsto> 0) \<rparr>
     in if unwrap_or (fd_staker_compound s2 staker) False
        then restake staker pending ts s2
        else pay accepts tk self staker pending s2)))))"

definition compound_rewards :: "address \<Rightarrow> address \<Rightarrow> fee_state \<Rightarrow> fee_state fres" where
  "compound_rewards staker tk s =
     and_then (ensure (unwrap_or (fd_staker_compound s staker) False)
                 (Panic ''compounding not enabled for staker'')) (\<lambda>_.
     and_then (unwrap (fd_tokens s)) (\<lambda>ts.
     and_then (harvest_rewards staker ts s) (\<lambda>s1.
     let pending = unwrap_or (fd_staker_pending s1 (staker, tk)) 0
     in if pending = 0 then Inr s1
        else restake staker pending ts
               (s1\<lparr> fd_staker_pending := (fd_staker_pending s1)((staker, tk) \<mapsto> 0) \<rparr>))))"

definition create_vesting_schedule :: "env \<Rightarrow> address \<Rightarrow> address \<Rightarrow> int \<Rightarrow> nat \<Rightarrow> nat
    \<Rightarrow> fee_state \<Rightarrow> fee_state fres" where
  "create_vesting_schedule env beneficiary tk amount duration_secs cliff_secs s =
     and_then (fee_require_admin env s) (\<lambda>_.
     and_then (require_not_emergency s) (\<lambda>_.
     and_then (ensure (0 < amount) (Panic ''amount must be positive'')) (\<lambda>_.
     and_then (ensure (duration_secs \<noteq> 0) (Panic ''duration must be positive'')) (\<lambda>_.
     and_then (ensure (cliff_secs \<le> duration_secs) (Panic ''cliff cannot exceed duration'')) (\<lambda>_.
     and_then (ok_or (fd_pools s tk) (Panic ''unknown token'')) (\<lambda>pool.
     and_then (ensure (\<not> fp_governance_pool pool < amount)
                 (Panic ''insufficient governance pool balance'')) (\<lambda>_.
     and_then (expect_i128 ''underflow'' (fp_governance_pool pool - amount)) (\<lambda>g.
     and_then (unwrap (fd_vesting_count s)) (\<lambda>count.
     and_then (expect_u32 (count + 1)) (\<lambda>count'.
     Inr (s\<lparr> fd_pools := (fd_pools s)(tk \<mapsto> pool\<lparr> fp_governance_pool := g \<rparr>),
            fd_vesting := (fd_vesting s)(count \<mapsto>
              \<lparr> vs_beneficiary = beneficiary, vs_token = tk, vs_total_amount = amount,
                vs_claimed_amount = 0, vs_start_time = timestamp env, vs_duration = duration_secs,
                vs_cliff = cliff_secs \<rparr>),
            fd_vesting_count := Some count' \<rparr>)))))))))))"

text \<open>\<open>as u128\<close> and \<open>as i128\<close> keep the low 128 bits.\<close>

definition cast_u128 :: "int \<Rightarrow> nat" where
  "cast_u128 x = nat (x mod 2 ^ 128)"

definition cast_i128 :: "nat \<Rightarrow> int" where
  "cast_i128 n = (let m = int n mod 2 ^ 128 in if m \<le> i128_max then m else m - 2 ^ 128)"

definition vested_amount :: "vesting_schedule \<Rightarrow> nat \<Rightarrow> int fres" where
  "vested_amount v elapsed =
     (if vs_duration v \<le> elapsed then Inr (vs_total_amount v)
      else let num = cast_u128 (vs_total_amount v) * elapsed
           in and_then (ensure (num \<le> u128_max) (Panic ''overflow'')) (\<lambda>_.
              if vs_duration v = 0 then Inl Trap else Inr (cast_i128 (num div vs_duration v))))"

definition claim_vested :: "token_contract \<Rightarrow> address \<Rightarrow> env \<Rightarrow> nat \<Rightarrow> fee_state \<Rightarrow> fee_state fres" where
  "claim_vested accepts self env vesting_id s =
     and_then (ok_or (fd_vesting s vesting_id) (Panic ''vesting schedule not found'')) (\<lambda>v.
     and_then (require_auth env (vs_beneficiary v)) (\<lambda>_.
     let elapsed = timestamp env - vs_start_time v
     in and_then (ensure (vs_cliff v \<le> elapsed) (Panic ''cliff period not reached'')) (\<lambda>_.
     and_then (vested_amount v elapsed) (\<lambda>vested_total.
     and_then (expect_i128 ''underflow'' (vested_total - vs_claimed_amount v)) (\<lambda>claimable.
     and_then (ensure (0 < claimable) (Panic ''nothing vested to claim'')) (\<lambda>_.
     and_then (expect_i128 ''overflow'' (vs_claimed_amount v + claimable)) (\<lambda>c.
     pay accepts (vs_token v) self (vs_beneficiary v) claimable
       (s\<lparr> fd_vesting := (fd_vesting s)(vesting_id \<mapsto> v\<lparr> vs_claimed_amount := c \<rparr>) \<rparr>))))))))"

definition set_emergency :: "env \<Rightarrow> bool \<Rightarrow> fee_state \<Rightarrow> fee_state fres" where
  "set_emergency env active s =
     and_then (fee_require_admin env s) (\<lambda>_. Inr (s\<lparr> fd_emergency := Some active \<rparr>))"

definition fee_emergency_withdraw :: "token_contract \<Rightarrow> address \<Rightarrow> env \<Rightarrow> address \<Rightarrow> address \<Rightarrow> int
    \<Rightarrow> fee_state \<Rightarrow> fee_state fres" where
  "fee_emergency_withdraw accepts self env tk recipient amount s =
     and_then (fee_require_admin env s) (\<lambda>_.
     and_then (unwrap (fd_emergency s)) (\<lambda>e.
     and_then (ensure e (Panic ''emergency mode not active'')) (\<lambda>_.
     pay accepts tk self recipient amount s)))"

section \<open>Queries\<close>

definition get_ratios :: "fee_state \<Rightarrow> distribution_ratios fres" where
  "get_ratios s = unwrap (fd_ratios s)"

definition get_total_staked :: "fee_state \<Rightarrow> int fres" where
  "get_total_staked s = unwrap (fd_total_staked s)"

definition get_staker_amount :: "address \<Rightarrow> fee_state \<Rightarrow> int" where
  "get_staker_amount staker s = unwrap_or (fd_staker_amount s staker) 0"

definition get_pending_rewards :: "address \<Rightarrow> address \<Rightarrow> fee_state \<Rightarrow> int fres" where
  "get_pending_rewards staker tk s =
     (let stake = unwrap_or (fd_staker_amount s staker) 0
      in if stake = 0 then Inr 0
         else case fd_pools s tk of
                None \<Rightarrow> Inr 0
              | Some pool \<Rightarrow>
                  let debt = unwrap_or (fd_staker_debt s (staker, tk)) 0;
                      stored = unwrap_or (fd_staker_pending s (staker, tk)) 0
                  in and_then (expect_i128 ''overflow'' (stake * fp_acc_fee_per_share pool)) (\<lambda>x.
                     expect_i128 ''overflow'' (stored + sat_i128 (x sdiv fee_precision - debt))))"

section \<open>Invocations\<close>

datatype fee_call =
    FInitialize address address address distribution_ratios
  | UpdateRatios distribution_ratios
  | AddFeeToken address
  | AddCollector address
  | RemoveCollector address
  | SetDistributionInterval nat
  | UpdateTreasury address
  | CollectFees address address int
  | DistributeFees "address list"
  | StakeForFees address int bool
  | FUnstake address int
  | ClaimFees address address
  | CompoundRewards address address
  | CreateVestingSchedule address address int nat nat
  | ClaimVested nat
  | SetEmergency bool
  | FEmergencyWithdraw address address int

fun fee_exec :: "token_contract \<Rightarrow> address \<Rightarrow> env \<Rightarrow> fee_call \<Rightarrow> fee_state \<Rightarrow> fee_state fres" where
  "fee_exec accepts self env (FInitialize a t st r) s = fee_initialize env a t st r s"
| "fee_exec accepts self env (UpdateRatios r) s = update_ratios env r s"
| "fee_exec accepts self env (AddFeeToken tk) s = add_fee_token env tk s"
| "fee_exec accepts self env (AddCollector c) s = add_collector env c s"
| "fee_exec accepts self env (RemoveCollector c) s = remove_collector env c s"
| "fee_exec accepts self env (SetDistributionInterval i) s = set_distribution_interval env i s"
| "fee_exec accepts self env (UpdateTreasury t) s = update_treasury env t s"
| "fee_exec accepts self env (CollectFees c tk a) s = fee_collect accepts self env c tk a s"
| "fee_exec accepts self env (DistributeFees ts) s = distribute_fees accepts self env ts s"
| "fee_exec accepts self env (StakeForFees st a b) s = stake_for_fees accepts self env st a b s"
| "fee_exec accepts self env (FUnstake st a) s = fee_unstake accepts self env st a s"
| "fee_exec accepts self env (ClaimFees st tk) s = claim_fees accepts self env st tk s"
| "fee_exec accepts self env (CompoundRewards st tk) s = compound_rewards st tk s"
| "fee_exec accepts self env (CreateVestingSchedule b tk a d c) s = create_vesting_schedule env b tk a d c s"
| "fee_exec accepts self env (ClaimVested i) s = claim_vested accepts self env i s"
| "fee_exec accepts self env (SetEmergency b) s = set_emergency env b s"
| "fee_exec accepts self env (FEmergencyWithdraw tk r a) s = fee_emergency_withdraw accepts self env tk r a s"

section \<open>What each helper changes\<close>

lemma expect_i128_eq_Inr [simp]: "expect_i128 msg x = Inr y \<longleftrightarrow> in_i128 x \<and> y = x"
  by (auto simp: expect_i128_def)

lemma expect_u32_eq_Inr [simp]: "expect_u32 x = Inr y \<longleftrightarrow> x \<le> u32_max \<and> y = x"
  by (auto simp: expect_u32_def)

lemma pay_eq_Inr [simp]:
  "pay accepts tk from to amount s = Inr s' \<longleftrightarrow>
     accepts (fd_transfers s) \<lparr> tt_token = tk, tt_from = from, tt_to = to, tt_amount = amount \<rparr>
     \<and> s' = s\<lparr> fd_transfers := fd_transfers s @ [\<lparr> tt_token = tk, tt_from = from, tt_to = to, tt_amount = amount \<rparr>] \<rparr>"
  by (auto simp: pay_def Let_def)

lemma bps_of_eq_Inr [simp]:
  "bps_of x b = Inr y \<longleftrightarrow> in_i128 (x * int b) \<and> y = x * int b sdiv int fee_bps_denom"
  by (auto simp: bps_of_def)

lemma fee_require_admin_eq_Inr [simp]:
  "fee_require_admin env s = Inr u \<longleftrightarrow> (\<exists>a. fd_admin s = Some a \<and> a \<in> set (auths env))"
  by (auto simp: fee_require_admin_def)

lemma require_not_emergency_eq_Inr [simp]:
  "require_not_emergency s = Inr u \<longleftrightarrow> fd_emergency s = Some False"
  by (auto simp: require_not_emergency_def)

lemma validate_ratios_eq_Inr [simp]:
  "validate_ratios r = Inr u \<longleftrightarrow> dr_stakers_bps r + dr_governance_bps r + dr_treasury_bps r = fee_bps_denom"
  by (auto simp: validate_ratios_def fee_bps_denom_def u32_max_def)

lemma harvest_tokens_frame:
  "harvest_tokens a x tks s = Inr s' \<Longrightarrow> \<exists>p d. s' = s\<lparr> fd_staker_pending := p, fd_staker_debt := d \<rparr>"
proof (induction a x tks s rule: harvest_tokens.induct)
  case (1 a x s)
  then have "s' = s\<lparr> fd_staker_pending := fd_staker_pending s, fd_staker_debt := fd_staker_debt s \<rparr>" by simp
  then show ?case by blast
next
  case (2 a x tk tks s)
  then show ?case by (fastforce simp: Let_def split: option.splits if_splits)
qed

lemma harvest_rewards_frame:
  assumes "harvest_rewards a tks s = Inr s'"
  shows "\<exists>p d. s' = s\<lparr> fd_staker_pending := p, fd_staker_debt := d \<rparr>"
proof (cases "unwrap_or (fd_staker_amount s a) 0 = 0")
  case True
  with assms have "s' = s\<lparr> fd_staker_pending := fd_staker_pending s, fd_staker_debt := fd_staker_debt s \<rparr>"
    by (simp add: harvest_rewards_def)
  then show ?thesis by blast
next
  case False
  with assms show ?thesis by (simp add: harvest_rewards_def harvest_tokens_frame)
qed

text \<open>\<open>sync_debts\<close> writes exactly the debts of the staker for the listed tokens that have a pool.\<close>

definition synced_debts :: "address \<Rightarrow> int \<Rightarrow> address list \<Rightarrow> fee_state \<Rightarrow> address \<times> address \<Rightarrow> int option" where
  "synced_debts a x tks s = (\<lambda>(b, tk). if b = a \<and> tk \<in> set tks \<and> fd_pools s tk \<noteq> None
     then Some (x * fp_acc_fee_per_share (the (fd_pools s tk)) sdiv fee_precision) else fd_staker_debt s (b, tk))"

lemma sync_debts_effect:
  "sync_debts a x tks s = Inr s' \<Longrightarrow> s' = s\<lparr> fd_staker_debt := synced_debts a x tks s \<rparr>"
proof (induction a x tks s rule: sync_debts.induct)
  case (1 a x s)
  have "synced_debts a x [] s = fd_staker_debt s" by (auto simp: synced_debts_def)
  with 1 show ?case by simp
next
  case (2 a x tk tks s)
  show ?case
  proof (cases "fd_pools s tk")
    case None
    then have "synced_debts a x (tk # tks) s = synced_debts a x tks s" by (auto simp: synced_debts_def fun_eq_iff)
    with None 2 show ?thesis by simp
  next
    case (Some pool)
    let ?s1 = "s\<lparr> fd_staker_debt := (fd_staker_debt s)((a, tk) \<mapsto> x * fp_acc_fee_per_share pool sdiv fee_precision) \<rparr>"
    have "synced_debts a x (tk # tks) s = synced_debts a x tks ?s1"
      using Some by (auto simp: synced_debts_def fun_eq_iff)
    with Some 2 show ?thesis by simp
  qed
qed

lemma sync_debts_fits:
  "sync_debts a x tks s = Inr s' \<Longrightarrow> tk \<in> set tks \<Longrightarrow> fd_pools s tk = Some p \<Longrightarrow> in_i128 (x * fp_acc_fee_per_share p)"
proof (induction tks arbitrary: s)
  case (Cons q tks)
  then show ?case by (cases "fd_pools s q"; cases "q = tk") auto
qed simp

lemma sync_debts_both:
  "sync_debts a x tks s = Inr s' \<Longrightarrow> s' = s\<lparr> fd_staker_debt := synced_debts a x tks s \<rparr>
     \<and> (\<forall>tk p. tk \<in> set tks \<longrightarrow> fd_pools s tk = Some p \<longrightarrow> in_i128 (x * fp_acc_fee_per_share p))"
  using sync_debts_effect sync_debts_fits by blast

section \<open>The books\<close>

text \<open>
  The invariant of the books: the total stake is the sum of the stakes; every pool has collected
  what it has distributed and still holds; the records are numbered without gaps, each splits
  its amount exactly, and together they make up what the pools have distributed; a schedule has
  paid at most its amount, and the ratios sum to one.
\<close>

definition pool_inv :: "fee_pool \<Rightarrow> bool" where
  "pool_inv p \<longleftrightarrow> fp_total_collected p = fp_total_distributed p + fp_pending p
     \<and> 0 \<le> fp_pending p \<and> 0 \<le> fp_governance_pool p \<and> 0 \<le> fp_acc_fee_per_share p"

definition record_inv :: "nat \<Rightarrow> distribution_record \<Rightarrow> bool" where
  "record_inv i r \<longleftrightarrow> rec_distribution_id r = i \<and> 0 < rec_total_amount r
     \<and> 0 \<le> rec_stakers_amount r \<and> 0 \<le> rec_governance_amount r \<and> 0 \<le> rec_treasury_amount r
     \<and> rec_total_amount r = rec_stakers_amount r + rec_governance_amount r + rec_treasury_amount r"

definition vesting_inv :: "vesting_schedule \<Rightarrow> bool" where
  "vesting_inv v \<longleftrightarrow> 0 \<le> vs_claimed_amount v \<and> vs_claimed_amount v \<le> vs_total_amount v
     \<and> 0 < vs_total_amount v \<and> in_i128 (vs_total_amount v) \<and> 0 < vs_duration v \<and> vs_cliff v \<le> vs_duration v"

definition recorded_for :: "address \<Rightarrow> nat \<Rightarrow> distribution_record \<Rightarrow> int" where
  "recorded_for tk i r = (if rec_token r = tk then rec_total_amount r else 0)"

definition distributed :: "address \<Rightarrow> fee_state \<Rightarrow> int" where
  "distributed tk s = (case fd_pools s tk of None \<Rightarrow> 0 | Some p \<Rightarrow> fp_total_distributed p)"

definition fee_inv :: "fee_state \<Rightarrow> bool" where
  "fee_inv s \<longleftrightarrow>
     (fd_admin s = None \<longrightarrow> s = fee_start)
     \<and> finite (dom (fd_staker_amount s)) \<and> (\<forall>a x. fd_staker_amount s a = Some x \<longrightarrow> 0 \<le> x)
     \<and> unwrap_or (fd_total_staked s) 0 = sum_entries (\<lambda>_ x. x) (fd_staker_amount s)
     \<and> (\<forall>tk p. fd_pools s tk = Some p \<longrightarrow> pool_inv p)
     \<and> dom (fd_pools s) = set (unwrap_or (fd_tokens s) [])
     \<and> dom (fd_distribution s) = {..< unwrap_or (fd_distribution_count s) 0}
     \<and> (\<forall>i r. fd_distribution s i = Some r \<longrightarrow> record_inv i r)
     \<and> (\<forall>tk. distributed tk s = sum_entries (recorded_for tk) (fd_distribution s))
     \<and> (\<forall>i v. fd_vesting s i = Some v \<longrightarrow> vesting_inv v)
     \<and> (\<forall>r. fd_ratios s = Some r \<longrightarrow> dr_stakers_bps r + dr_governance_bps r + dr_treasury_bps r = fee_bps_denom)"

lemma fee_inv_start: "fee_inv fee_start"
  by (simp add: fee_inv_def fee_start_def distributed_def)

text \<open>Fields the invariant does not look at.\<close>

lemma fee_inv_irrelevant [simp]:
  "fd_admin s \<noteq> None \<Longrightarrow> fee_inv (s\<lparr> fd_staker_pending := p \<rparr>) = fee_inv s"
  "fd_admin s \<noteq> None \<Longrightarrow> fee_inv (s\<lparr> fd_staker_debt := d \<rparr>) = fee_inv s"
  "fd_admin s \<noteq> None \<Longrightarrow> fee_inv (s\<lparr> fd_transfers := t \<rparr>) = fee_inv s"
  "fd_admin s \<noteq> None \<Longrightarrow> fee_inv (s\<lparr> fd_staker_time := ti \<rparr>) = fee_inv s"
  "fd_admin s \<noteq> None \<Longrightarrow> fee_inv (s\<lparr> fd_staker_compound := c \<rparr>) = fee_inv s"
  "fd_admin s \<noteq> None \<Longrightarrow> fee_inv (s\<lparr> fd_last_auto := la \<rparr>) = fee_inv s"
  "fd_admin s \<noteq> None \<Longrightarrow> fee_inv (s\<lparr> fd_collectors := cs \<rparr>) = fee_inv s"
  "fd_admin s \<noteq> None \<Longrightarrow> fee_inv (s\<lparr> fd_interval := iv \<rparr>) = fee_inv s"
  "fd_admin s \<noteq> None \<Longrightarrow> fee_inv (s\<lparr> fd_treasury := tr \<rparr>) = fee_inv s"
  "fd_admin s \<noteq> None \<Longrightarrow> fee_inv (s\<lparr> fd_emergency := e \<rparr>) = fee_inv s"
  by (cases "fd_admin s"; simp add: fee_inv_def distributed_def)+

lemma fee_inv_stake:
  assumes "fee_inv s" "fd_admin s \<noteq> None" "0 \<le> unwrap_or (fd_staker_amount s a) 0 + y"
    "t = unwrap_or (fd_total_staked s) 0 + y" "x = unwrap_or (fd_staker_amount s a) 0 + y"
  shows "fee_inv (s\<lparr> fd_staker_amount := (fd_staker_amount s)(a \<mapsto> x), fd_total_staked := Some t \<rparr>)"
proof -
  have "finite (dom (fd_staker_amount s))" using assms(1) by (simp add: fee_inv_def)
  from sum_entries_upd [OF this, of "\<lambda>_ x. x" a x]
  show ?thesis using assms
    by (auto simp: fee_inv_def distributed_def entry_def unwrap_or_def split: option.splits)
qed

lemma fee_inv_pool:
  assumes "fee_inv s" "fd_admin s \<noteq> None" "fd_pools s tk = Some p" "pool_inv p'"
    "fp_total_distributed p' = fp_total_distributed p"
  shows "fee_inv (s\<lparr> fd_pools := (fd_pools s)(tk \<mapsto> p') \<rparr>)"
proof -
  have "distributed q (s\<lparr> fd_pools := (fd_pools s)(tk \<mapsto> p') \<rparr>) = distributed q s" for q
    using assms by (simp add: distributed_def)
  with assms show ?thesis by (auto simp: fee_inv_def)
qed

lemma fee_inv_admin: "fee_inv s \<Longrightarrow> fd_pools s tk = Some p \<Longrightarrow> fd_admin s \<noteq> None"
  by (auto simp: fee_inv_def fee_start_def)

text \<open>The split of one distribution.\<close>

lemma bps_split:
  assumes "0 \<le> (x :: int)" "a + b \<le> fee_bps_denom"
  shows "0 \<le> x * int a sdiv int fee_bps_denom" "0 \<le> x * int b sdiv int fee_bps_denom"
    "x * int a sdiv int fee_bps_denom + x * int b sdiv int fee_bps_denom \<le> x"
proof -
  have d: "0 < int fee_bps_denom" by (simp add: fee_bps_denom_def)
  have a: "x * int a sdiv int fee_bps_denom = x * int a div int fee_bps_denom"
    and b: "x * int b sdiv int fee_bps_denom = x * int b div int fee_bps_denom"
    using assms(1) d by (simp_all add: sdiv_nonneg)
  show "0 \<le> x * int a sdiv int fee_bps_denom" "0 \<le> x * int b sdiv int fee_bps_denom"
    unfolding a b using assms(1) d by (simp_all add: pos_imp_zdiv_nonneg_iff)
  have "x * int a div int fee_bps_denom * int fee_bps_denom \<le> x * int a"
    "x * int b div int fee_bps_denom * int fee_bps_denom \<le> x * int b"
    using d by (simp_all add: le_zdiv_iff [symmetric])
  then have "(x * int a div int fee_bps_denom + x * int b div int fee_bps_denom) * int fee_bps_denom
      \<le> x * (int a + int b)"
    by (simp add: algebra_simps)
  also have "\<dots> \<le> x * int fee_bps_denom" using assms by (intro mult_left_mono) auto
  finally show "x * int a sdiv int fee_bps_denom + x * int b sdiv int fee_bps_denom \<le> x"
    unfolding a b using d by simp
qed

lemma credit_stakers_effect:
  assumes "credit_stakers t x p = Inr p'" "0 \<le> fp_acc_fee_per_share p" "0 \<le> fp_governance_pool p"
  shows "fp_total_collected p' = fp_total_collected p" "fp_total_distributed p' = fp_total_distributed p"
    "fp_pending p' = fp_pending p" "fp_acc_fee_per_share p \<le> fp_acc_fee_per_share p'"
    "0 \<le> fp_governance_pool p'"
proof -
  have "0 \<le> x * fee_precision sdiv t" if "0 < x" "0 < t"
    using that by (simp add: sdiv_nonneg fee_precision_def pos_imp_zdiv_nonneg_iff)
  with assms show "fp_total_collected p' = fp_total_collected p" "fp_total_distributed p' = fp_total_distributed p"
    "fp_pending p' = fp_pending p" "fp_acc_fee_per_share p \<le> fp_acc_fee_per_share p'"
    "0 \<le> fp_governance_pool p'"
    by (auto simp: credit_stakers_def split: if_splits)
qed

lemma distribute_pool_effect:
  assumes "distribute_pool accepts self env ratios t treasury tk p s = Inr s'" "0 < fp_pending p" "pool_inv p"
    and "dr_stakers_bps ratios + dr_governance_bps ratios \<le> fee_bps_denom"
  obtains p' r n ts where
    "s' = s\<lparr> fd_transfers := ts, fd_pools := (fd_pools s)(tk \<mapsto> p'),
        fd_distribution := (fd_distribution s)(n \<mapsto> r), fd_distribution_count := Some (n + 1) \<rparr>"
    "fd_distribution_count s = Some n" "record_inv n r" "rec_token r = tk" "rec_total_amount r = fp_pending p"
    "pool_inv p'" "fp_total_distributed p' = fp_total_distributed p + fp_pending p"
    "fp_acc_fee_per_share p \<le> fp_acc_fee_per_share p'"
    "ts = fd_transfers s \<or> (\<exists>x. ts = fd_transfers s @ [\<lparr> tt_token = tk, tt_from = self, tt_to = treasury, tt_amount = x \<rparr>])"
proof -
  let ?x = "fp_pending p" and ?D = "int fee_bps_denom"
  let ?a = "?x * int (dr_stakers_bps ratios) sdiv ?D" and ?b = "?x * int (dr_governance_bps ratios) sdiv ?D"
  from assms(1) obtain p1 s1 n where
    p1: "credit_stakers t ?a p = Inr p1" and
    s1: "(if 0 < ?x - ?a - ?b then pay accepts tk self treasury (?x - ?a - ?b) s else Inr s) = Inr s1" and
    n: "fd_distribution_count s1 = Some n" and
    s': "s' = s1\<lparr> fd_pools := (fd_pools s1)(tk \<mapsto> p1\<lparr> fp_governance_pool := fp_governance_pool p1 + ?b,
          fp_total_distributed := fp_total_distributed p1 + ?x, fp_pending := 0,
          fp_last_distribution_time := timestamp env \<rparr>),
        fd_distribution := (fd_distribution s1)(n \<mapsto>
          \<lparr> rec_token = tk, rec_total_amount = ?x, rec_stakers_amount = ?a, rec_governance_amount = ?b,
            rec_treasury_amount = ?x - ?a - ?b, rec_timestamp = timestamp env, rec_distribution_id = n \<rparr>),
        fd_distribution_count := Some (n + 1) \<rparr>"
    unfolding distribute_pool_def Let_def and_then_eq_Inr write_record_def by auto
  from s1 obtain ts where ts: "s1 = s\<lparr> fd_transfers := ts \<rparr>"
    "ts = fd_transfers s \<or> (\<exists>x. ts = fd_transfers s @ [\<lparr> tt_token = tk, tt_from = self, tt_to = treasury, tt_amount = x \<rparr>])"
  proof (cases "0 < ?x - ?a - ?b")
    case False
    with s1 that [of "fd_transfers s"] show ?thesis by simp
  next
    case True
    with s1 that show ?thesis by auto
  qed
  have "0 \<le> ?x" using assms(2) by simp
  note split = bps_split [OF this assms(4)]
  have inv: "0 \<le> fp_acc_fee_per_share p" "0 \<le> fp_governance_pool p"
    "fp_total_collected p = fp_total_distributed p + ?x"
    using assms(3) by (auto simp: pool_inv_def)
  note p1_effect = credit_stakers_effect [OF p1 inv(1,2)]
  show thesis
  proof (rule that)
    show "s' = s\<lparr> fd_transfers := ts, fd_pools := (fd_pools s)(tk \<mapsto> p1\<lparr> fp_governance_pool := fp_governance_pool p1 + ?b,
          fp_total_distributed := fp_total_distributed p1 + ?x, fp_pending := 0,
          fp_last_distribution_time := timestamp env \<rparr>),
        fd_distribution := (fd_distribution s)(n \<mapsto>
          \<lparr> rec_token = tk, rec_total_amount = ?x, rec_stakers_amount = ?a, rec_governance_amount = ?b,
            rec_treasury_amount = ?x - ?a - ?b, rec_timestamp = timestamp env, rec_distribution_id = n \<rparr>),
        fd_distribution_count := Some (n + 1) \<rparr>"
      by (simp add: s' ts)
  qed (use n ts(1) split assms(2) inv p1_effect ts(2) in \<open>simp_all add: record_inv_def pool_inv_def\<close>)
qed

lemma fee_inv_distribution:
  assumes "fee_inv s" "fd_admin s \<noteq> None" "fd_pools s tk = Some p" "pool_inv p'"
    "fp_total_distributed p' = fp_total_distributed p + rec_total_amount r"
    "fd_distribution_count s = Some n" "record_inv n r" "rec_token r = tk"
  shows "fee_inv (s\<lparr> fd_transfers := ts, fd_pools := (fd_pools s)(tk \<mapsto> p'),
      fd_distribution := (fd_distribution s)(n \<mapsto> r), fd_distribution_count := Some (n + 1) \<rparr>)"
    (is "fee_inv ?s'")
proof -
  have dom: "dom (fd_distribution s) = {..<n}" using assms(1,6) by (simp add: fee_inv_def)
  then have "fd_distribution s n = None" by (metis domIff lessThan_iff less_irrefl)
  then have sums: "sum_entries (recorded_for q) ((fd_distribution s)(n \<mapsto> r))
      = sum_entries (recorded_for q) (fd_distribution s) + recorded_for q n r" for q
    using sum_entries_upd [of "fd_distribution s" "recorded_for q" n r] dom by (simp add: entry_def)
  have dist: "distributed q ?s' = distributed q s + recorded_for q n r" for q
    using assms(3,5,8) by (auto simp: distributed_def recorded_for_def)
  have "distributed q s = sum_entries (recorded_for q) (fd_distribution s)" for q
    using assms(1) by (simp add: fee_inv_def)
  with sums dist have "distributed q ?s' = sum_entries (recorded_for q) (fd_distribution ?s')" for q
    by simp
  moreover have "dom (fd_distribution ?s') = {..< n + 1}" using dom by auto
  ultimately show ?thesis using assms unfolding fee_inv_def by auto
qed

text \<open>What the contract holds of a token by its own log of transfers, and how a distribution moves
  the pools: accumulators only grow, no pool appears or disappears, stakes and rewards stay, and
  only tokens with a pool are transferred.\<close>

definition net_of :: "address \<Rightarrow> address \<Rightarrow> token_transfer list \<Rightarrow> int" where
  "net_of self tk ts = sum_list (map (\<lambda>t. if tt_token t = tk
     then (if tt_to t = self then tt_amount t else 0) - (if tt_from t = self then tt_amount t else 0) else 0) ts)"

definition pools_grow :: "address \<Rightarrow> fee_state \<Rightarrow> fee_state \<Rightarrow> bool" where
  "pools_grow self s s' \<longleftrightarrow> fd_staker_pending s' = fd_staker_pending s \<and> fd_staker_debt s' = fd_staker_debt s
     \<and> fd_staker_amount s' = fd_staker_amount s \<and> fd_vesting s' = fd_vesting s
     \<and> fd_staker_compound s' = fd_staker_compound s \<and> fd_staking_token s' = fd_staking_token s
     \<and> fd_total_staked s' = fd_total_staked s \<and> fd_admin s' = fd_admin s
     \<and> (\<forall>tk p. fd_pools s tk = Some p \<longrightarrow> (\<exists>p'. fd_pools s' tk = Some p' \<and> fp_acc_fee_per_share p \<le> fp_acc_fee_per_share p'))
     \<and> (\<forall>tk. fd_pools s tk = None \<longrightarrow> fd_pools s' tk = None
          \<and> net_of self tk (fd_transfers s') = net_of self tk (fd_transfers s))"

lemma net_of_append [simp]:
  "net_of self tk (ts @ us) = net_of self tk ts + net_of self tk us"
  "net_of self tk [] = 0"
  "net_of self tk [t] = (if tt_token t = tk
     then (if tt_to t = self then tt_amount t else 0) - (if tt_from t = self then tt_amount t else 0) else 0)"
  by (simp_all add: net_of_def)

lemma pools_grow_refl: "pools_grow self s s"
  by (simp add: pools_grow_def)

lemma pools_grow_trans: "pools_grow self s s1 \<Longrightarrow> pools_grow self s1 s2 \<Longrightarrow> pools_grow self s s2"
  unfolding pools_grow_def by (auto 0 3) (meson order_trans)

lemma distribute_tokens_inv:
  assumes "distribute_tokens accepts self env ratios t treasury tks s = Inr s'" "fee_inv s"
    "dr_stakers_bps ratios + dr_governance_bps ratios \<le> fee_bps_denom" "fd_admin s \<noteq> None"
  shows "fee_inv s' \<and> pools_grow self s s'"
  using assms
proof (induction accepts self env ratios t treasury tks s rule: distribute_tokens.induct)
  case (2 accepts self env ratios t treasury tk tks s)
  show ?case
  proof (cases "fd_pools s tk")
    case None
    with 2 show ?thesis by simp
  next
    case (Some p)
    from 2(5) Some have p: "pool_inv p" by (simp add: fee_inv_def)
    show ?thesis
    proof (cases "fp_pending p = 0")
      case True
      with Some 2 show ?thesis by simp
    next
      case False
      with p have "0 < fp_pending p" by (simp add: pool_inv_def)
      moreover from False Some 2(4) obtain s1 where
        s1: "distribute_pool accepts self env ratios t treasury tk p s = Inr s1"
        and s': "distribute_tokens accepts self env ratios t treasury tks s1 = Inr s'" by auto
      ultimately obtain p' r n ts where e: "s1 = s\<lparr> fd_transfers := ts, fd_pools := (fd_pools s)(tk \<mapsto> p'),
        fd_distribution := (fd_distribution s)(n \<mapsto> r), fd_distribution_count := Some (n + 1) \<rparr>"
        "fd_distribution_count s = Some n" "record_inv n r" "rec_token r = tk" "rec_total_amount r = fp_pending p"
        "pool_inv p'" "fp_total_distributed p' = fp_total_distributed p + fp_pending p"
        "fp_acc_fee_per_share p \<le> fp_acc_fee_per_share p'"
        "ts = fd_transfers s \<or> (\<exists>x. ts = fd_transfers s @ [\<lparr> tt_token = tk, tt_from = self, tt_to = treasury, tt_amount = x \<rparr>])"
        using p 2(6) by (metis distribute_pool_effect)
      have "fee_inv s1"
        unfolding e(1) by (rule fee_inv_distribution [OF 2(5,7) Some]) (simp_all add: e)
      moreover have "fd_admin s1 \<noteq> None" using 2(7) by (simp add: e(1))
      ultimately have "fee_inv s' \<and> pools_grow self s1 s'" using 2(3) [OF Some False s1 s'] 2(6) by blast
      moreover have "pools_grow self s s1"
        using Some e(8,9) unfolding pools_grow_def e(1) by auto
      ultimately show ?thesis by (blast intro: pools_grow_trans)
    qed
  qed
qed (simp add: pools_grow_refl)

lemma do_distribute_inv:
  assumes "do_distribute accepts self env tks s = Inr s'" "fee_inv s" "fd_admin s \<noteq> None"
  shows "fee_inv s' \<and> pools_grow self s s'"
proof -
  from assms(1) obtain ratios t treasury s1 where r: "fd_ratios s = Some ratios"
    and s1: "distribute_tokens accepts self env ratios t treasury tks s = Inr s1"
    and s': "s' = s1\<lparr> fd_last_auto := Some (timestamp env) \<rparr>"
    by (auto simp: do_distribute_def)
  from r assms(2) have "dr_stakers_bps ratios + dr_governance_bps ratios \<le> fee_bps_denom"
    by (auto simp: fee_inv_def)
  from distribute_tokens_inv [OF s1 assms(2) this assms(3)] show ?thesis
    using assms(3) by (auto simp: s' pools_grow_def)
qed

lemma maybe_auto_distribute_inv:
  assumes "maybe_auto_distribute accepts self env s = Inr s'" "fee_inv s" "fd_admin s \<noteq> None"
  shows "fee_inv s' \<and> pools_grow self s s'"
  using assms
  by (auto simp: maybe_auto_distribute_def Let_def pools_grow_refl split: if_splits dest: do_distribute_inv)

lemma harvest_inv:
  assumes "harvest_rewards a tks s = Inr s1" "fee_inv s" "fd_admin s \<noteq> None"
  obtains p d where "s1 = s\<lparr> fd_staker_pending := p, fd_staker_debt := d \<rparr>" "fee_inv s1"
  using harvest_rewards_frame [OF assms(1)] assms(2,3) by auto

text \<open>The invariant reads only these fields.\<close>

lemma fee_inv_eq:
  assumes "fee_inv s" "fd_admin s \<noteq> None" "fd_admin s' = fd_admin s"
    "fd_staker_amount s' = fd_staker_amount s" "fd_total_staked s' = fd_total_staked s"
    "fd_pools s' = fd_pools s" "fd_tokens s' = fd_tokens s" "fd_distribution s' = fd_distribution s"
    "fd_distribution_count s' = fd_distribution_count s" "fd_vesting s' = fd_vesting s" "fd_ratios s' = fd_ratios s"
  shows "fee_inv s'"
  using assms by (auto simp: fee_inv_def distributed_def)

text \<open>A new stake and its total, as the staking operations write them, whatever else changes.\<close>

lemma fee_inv_restake:
  assumes "fee_inv s" "fd_admin s \<noteq> None" "0 \<le> unwrap_or (fd_staker_amount s a) 0 + y" "fd_total_staked s = Some t"
    and "fd_admin s' = fd_admin s" "fd_total_staked s' = Some (t + y)"
    "fd_staker_amount s' = (fd_staker_amount s)(a \<mapsto> unwrap_or (fd_staker_amount s a) 0 + y)"
    "fd_pools s' = fd_pools s" "fd_tokens s' = fd_tokens s" "fd_distribution s' = fd_distribution s"
    "fd_distribution_count s' = fd_distribution_count s" "fd_vesting s' = fd_vesting s" "fd_ratios s' = fd_ratios s"
  shows "fee_inv s'"
proof -
  have "fee_inv (s\<lparr> fd_staker_amount := (fd_staker_amount s)(a \<mapsto> unwrap_or (fd_staker_amount s a) 0 + y),
      fd_total_staked := Some (t + y) \<rparr>)"
    by (rule fee_inv_stake) (use assms in simp_all)
  then show ?thesis by (rule fee_inv_eq) (use assms in simp_all)
qed

lemma stake_nonneg: "fee_inv s \<Longrightarrow> 0 \<le> unwrap_or (fd_staker_amount s a) 0"
  by (cases "fd_staker_amount s a") (auto simp: fee_inv_def)

lemma restake_inv:
  assumes "restake a y tks s = Inr s'" "fee_inv s" "fd_admin s \<noteq> None" "0 \<le> y"
  shows "fee_inv s'"
proof -
  from assms(1) obtain t where t: "fd_total_staked s = Some t" and s': "s' = s\<lparr>
      fd_staker_amount := (fd_staker_amount s)(a \<mapsto> unwrap_or (fd_staker_amount s a) 0 + y),
      fd_staker_debt := synced_debts a (unwrap_or (fd_staker_amount s a) 0 + y) tks
        (s\<lparr> fd_staker_amount := (fd_staker_amount s)(a \<mapsto> unwrap_or (fd_staker_amount s a) 0 + y) \<rparr>),
      fd_total_staked := Some (t + y) \<rparr>"
    by (auto simp: restake_def Let_def dest!: sync_debts_effect)
  show ?thesis unfolding s'
    by (rule fee_inv_restake [OF assms(2,3) _ t]) (use stake_nonneg [OF assms(2), of a] assms(4) in simp_all)
qed

lemma stake_for_fees_inv:
  assumes "stake_for_fees accepts self env a y c s = Inr s'" "fee_inv s" "fd_admin s \<noteq> None"
  shows "fee_inv s'"
proof -
  from assms(1) obtain tks s1 st t time where y: "0 < y" and s1: "harvest_rewards a tks s = Inr s1"
    and t: "fd_total_staked s1 = Some t"
    and s': "s' = s1\<lparr> fd_transfers := fd_transfers s1 @ [\<lparr> tt_token = st, tt_from = a, tt_to = self, tt_amount = y \<rparr>],
      fd_staker_amount := (fd_staker_amount s1)(a \<mapsto> unwrap_or (fd_staker_amount s1 a) 0 + y),
      fd_staker_debt := synced_debts a (unwrap_or (fd_staker_amount s1 a) 0 + y) tks
        (s1\<lparr> fd_transfers := fd_transfers s1 @ [\<lparr> tt_token = st, tt_from = a, tt_to = self, tt_amount = y \<rparr>],
            fd_staker_amount := (fd_staker_amount s1)(a \<mapsto> unwrap_or (fd_staker_amount s1 a) 0 + y) \<rparr>),
      fd_staker_time := time, fd_staker_compound := (fd_staker_compound s1)(a \<mapsto> c),
      fd_total_staked := Some (t + y) \<rparr>"
    by (auto simp: stake_for_fees_def Let_def dest!: sync_debts_effect)
  from s1 assms(2,3) obtain p d where s1': "s1 = s\<lparr> fd_staker_pending := p, fd_staker_debt := d \<rparr>" "fee_inv s1"
    by (rule harvest_inv)
  then have admin: "fd_admin s1 \<noteq> None" using assms(3) by simp
  show ?thesis unfolding s'
    by (rule fee_inv_restake [OF s1'(2) admin _ t]) (use stake_nonneg [OF s1'(2), of a] y in simp_all)
qed

lemma fee_unstake_inv:
  assumes "fee_unstake accepts self env a y s = Inr s'" "fee_inv s" "fd_admin s \<noteq> None"
  shows "fee_inv s'"
proof -
  let ?x = "unwrap_or (fd_staker_amount s a) 0"
  from assms(1) obtain tks s1 st t where y: "0 < y" "y \<le> ?x" and s1: "harvest_rewards a tks s = Inr s1"
    and t: "fd_total_staked s1 = Some t"
    and s': "s' = s1\<lparr> fd_staker_amount := (fd_staker_amount s1)(a \<mapsto> ?x - y),
      fd_staker_debt := synced_debts a (?x - y) tks (s1\<lparr> fd_staker_amount := (fd_staker_amount s1)(a \<mapsto> ?x - y) \<rparr>),
      fd_transfers := fd_transfers s1 @ [\<lparr> tt_token = st, tt_from = self, tt_to = a, tt_amount = y \<rparr>],
      fd_total_staked := Some (t - y) \<rparr>"
    by (auto simp: fee_unstake_def Let_def not_less dest!: sync_debts_effect)
  from s1 assms(2,3) obtain p d where s1': "s1 = s\<lparr> fd_staker_pending := p, fd_staker_debt := d \<rparr>" "fee_inv s1"
    by (rule harvest_inv)
  then have admin: "fd_admin s1 \<noteq> None" and x: "?x = unwrap_or (fd_staker_amount s1 a) 0" using assms(3) by simp_all
  show ?thesis unfolding s'
    by (rule fee_inv_restake [OF s1'(2) admin _ t, of a "- y"]) (use y x in simp_all)
qed

section \<open>The rewards\<close>

text \<open>What a staker has been credited in total since the last change of stake, and the invariant of
  the rewards: no pending reward is negative, no debt exceeds what the stake has accrued, and
  rewards and schedules only name tokens with a pool.\<close>

definition accrued_of :: "address \<Rightarrow> address \<Rightarrow> fee_state \<Rightarrow> int" where
  "accrued_of a tk s = (case fd_pools s tk of None \<Rightarrow> 0
     | Some p \<Rightarrow> unwrap_or (fd_staker_amount s a) 0 * fp_acc_fee_per_share p div fee_precision)"

definition reward_inv :: "fee_state \<Rightarrow> bool" where
  "reward_inv s \<longleftrightarrow> (\<forall>a tk x. fd_staker_pending s (a, tk) = Some x \<longrightarrow> fd_pools s tk \<noteq> None \<and> 0 \<le> x)
     \<and> (\<forall>i v. fd_vesting s i = Some v \<longrightarrow> fd_pools s (vs_token v) \<noteq> None)
     \<and> (\<forall>a tk d. fd_staker_debt s (a, tk) = Some d \<longrightarrow> fd_pools s tk \<noteq> None \<and> 0 \<le> d \<and> d \<le> accrued_of a tk s)"

lemma fee_precision_pos: "0 < fee_precision"
  by (simp add: fee_precision_def)

lemma reward_inv_eq:
  assumes "reward_inv s" "fd_staker_pending s' = fd_staker_pending s" "fd_staker_debt s' = fd_staker_debt s"
    "fd_pools s' = fd_pools s" "fd_staker_amount s' = fd_staker_amount s" "fd_vesting s' = fd_vesting s"
  shows "reward_inv s'"
  using assms unfolding reward_inv_def accrued_of_def by (simp cong: option.case_cong)

lemma pending_nonneg: "reward_inv s \<Longrightarrow> 0 \<le> unwrap_or (fd_staker_pending s k) 0"
  unfolding reward_inv_def by (cases k; cases "fd_staker_pending s k") auto

lemma accrued_sdiv:
  assumes "fee_inv s" "fd_pools s tk = Some p"
  shows "unwrap_or (fd_staker_amount s a) 0 * fp_acc_fee_per_share p sdiv fee_precision = accrued_of a tk s"
    "0 \<le> accrued_of a tk s"
proof -
  have "0 \<le> unwrap_or (fd_staker_amount s a) 0 * fp_acc_fee_per_share p"
    using stake_nonneg [OF assms(1), of a] assms by (intro mult_nonneg_nonneg) (auto simp: fee_inv_def pool_inv_def)
  with assms(2) fee_precision_pos
  show "unwrap_or (fd_staker_amount s a) 0 * fp_acc_fee_per_share p sdiv fee_precision = accrued_of a tk s"
    "0 \<le> accrued_of a tk s"
    by (simp_all add: accrued_of_def sdiv_nonneg pos_imp_zdiv_nonneg_iff)
qed

text \<open>One token of \<open>harvest_rewards\<close>, and the whole loop: the debt of every listed token catches up
  with what has accrued, the difference goes to the pending rewards, nothing else moves.\<close>

definition owed :: "address \<Rightarrow> address \<Rightarrow> fee_state \<Rightarrow> int" where
  "owed a tk s = unwrap_or (fd_staker_pending s (a, tk)) 0 + (accrued_of a tk s - unwrap_or (fd_staker_debt s (a, tk)) 0)"

lemma debt_bounds:
  assumes "fee_inv s" "reward_inv s"
  shows "0 \<le> unwrap_or (fd_staker_debt s (a, tk)) 0" "unwrap_or (fd_staker_debt s (a, tk)) 0 \<le> accrued_of a tk s"
proof -
  have "0 \<le> accrued_of a tk s"
    by (cases "fd_pools s tk") (use accrued_sdiv [OF assms(1)] in \<open>auto simp: accrued_of_def\<close>)
  with assms(2) show "0 \<le> unwrap_or (fd_staker_debt s (a, tk)) 0" "unwrap_or (fd_staker_debt s (a, tk)) 0 \<le> accrued_of a tk s"
    by (cases "fd_staker_debt s (a, tk)"; auto simp: reward_inv_def)+
qed

definition settles :: "address \<Rightarrow> address set \<Rightarrow> fee_state \<Rightarrow> fee_state \<Rightarrow> bool" where
  "settles a T s s' \<longleftrightarrow> (\<exists>p d. s' = s\<lparr> fd_staker_pending := p, fd_staker_debt := d \<rparr>) \<and> reward_inv s'
     \<and> (\<forall>b tk. owed b tk s' = owed b tk s)
     \<and> (\<forall>b tk. b \<noteq> a \<longrightarrow> fd_staker_pending s' (b, tk) = fd_staker_pending s (b, tk) \<and> fd_staker_debt s' (b, tk) = fd_staker_debt s (b, tk))
     \<and> (\<forall>tk. unwrap_or (fd_staker_debt s' (a, tk)) 0
          = (if tk \<in> T then accrued_of a tk s else unwrap_or (fd_staker_debt s (a, tk)) 0))"

lemma accrued_of_upd [simp]:
  "accrued_of a tk (s\<lparr> fd_staker_pending := p \<rparr>) = accrued_of a tk s"
  "accrued_of a tk (s\<lparr> fd_staker_debt := d \<rparr>) = accrued_of a tk s"
  by (simp_all add: accrued_of_def cong: option.case_cong)

lemma settles_refl: "reward_inv s \<Longrightarrow> settles a {} s s"
  unfolding settles_def by (intro conjI exI [of _ "fd_staker_pending s"] exI [of _ "fd_staker_debt s"]) simp_all

lemma settles_trans:
  assumes "settles a T s s1" "settles a U s1 s2"
  shows "settles a (T \<union> U) s s2"
proof -
  obtain p d where s1: "s1 = s\<lparr> fd_staker_pending := p, fd_staker_debt := d \<rparr>"
    using assms(1) unfolding settles_def by blast
  obtain p' d' where s2: "s2 = s1\<lparr> fd_staker_pending := p', fd_staker_debt := d' \<rparr>"
    using assms(2) unfolding settles_def by blast
  have "\<exists>p d. s2 = s\<lparr> fd_staker_pending := p, fd_staker_debt := d \<rparr>" unfolding s1 s2 by auto
  moreover have "accrued_of a tk s1 = accrued_of a tk s" for tk unfolding s1 by simp
  ultimately show ?thesis using assms unfolding settles_def by simp
qed

lemma settles_one:
  assumes "fee_inv s" "reward_inv s" "unwrap_or (fd_staker_debt s (a, tk)) 0 \<noteq> accrued_of a tk s"
    "fd_pools s tk \<noteq> None"
  shows "settles a {tk} s (s\<lparr> fd_staker_pending := (fd_staker_pending s)((a, tk) \<mapsto>
        unwrap_or (fd_staker_pending s (a, tk)) 0 + (accrued_of a tk s - unwrap_or (fd_staker_debt s (a, tk)) 0)),
      fd_staker_debt := (fd_staker_debt s)((a, tk) \<mapsto> accrued_of a tk s) \<rparr>)" (is "settles _ _ _ ?s'")
proof -
  note debt = debt_bounds [OF assms(1,2), of a tk] and pending = pending_nonneg [OF assms(2), of "(a, tk)"]
  have "reward_inv ?s'"
    using assms(2,4) debt pending unfolding reward_inv_def by auto
  then show ?thesis unfolding settles_def
    by (intro conjI exI) (auto simp: owed_def)
qed

lemma settles_none:
  assumes "reward_inv s" "unwrap_or (fd_staker_debt s (a, tk)) 0 = accrued_of a tk s"
  shows "settles a {tk} s s"
  using settles_refl [OF assms(1), of a] assms(2) by (auto simp: settles_def)

lemma settles_inv:
  "settles a T s s' \<Longrightarrow> fee_inv s \<Longrightarrow> fd_admin s \<noteq> None \<Longrightarrow> fee_inv s' \<and> reward_inv s' \<and> fd_admin s' \<noteq> None
     \<and> fd_staker_amount s' = fd_staker_amount s"
  by (auto simp: settles_def)

lemma harvest_tokens_settles:
  "harvest_tokens a x tks s = Inr s' \<Longrightarrow> x = unwrap_or (fd_staker_amount s a) 0 \<Longrightarrow>
    fee_inv s \<Longrightarrow> fd_admin s \<noteq> None \<Longrightarrow> reward_inv s \<Longrightarrow> settles a (set tks) s s'"
proof (induction tks arbitrary: s)
  case Nil
  then show ?case by (simp add: settles_refl)
next
  case (Cons tk tks)
  have "\<exists>s1. settles a {tk} s s1 \<and> harvest_tokens a x tks s1 = Inr s'"
  proof (cases "fd_pools s tk")
    case None
    then have "fd_staker_debt s (a, tk) = None"
      using Cons.prems(5) unfolding reward_inv_def by (metis not_None_eq)
    with None have "settles a {tk} s s" by (intro settles_none Cons.prems) (simp add: accrued_of_def)
    with None Cons.prems(1) show ?thesis by (intro exI [of _ s]) simp
  next
    case (Some p)
    note acc = accrued_sdiv [OF Cons.prems(3) Some, of a, folded Cons.prems(2)]
    note debt = debt_bounds [OF Cons.prems(3,5), of a tk]
    from Cons.prems(1) Some have fits: "in_i128 (x * fp_acc_fee_per_share p)" by (auto simp: Let_def)
    have nonneg: "0 \<le> x * fp_acc_fee_per_share p"
      unfolding Cons.prems(2) using stake_nonneg [OF Cons.prems(3), of a] Cons.prems(3) Some
      by (intro mult_nonneg_nonneg) (auto simp: fee_inv_def pool_inv_def)
    have "in_i128 (accrued_of a tk s)" using sdiv_in_i128 [OF fits nonneg fee_precision_pos] acc by simp
    then have sat: "sat_i128 (accrued_of a tk s - unwrap_or (fd_staker_debt s (a, tk)) 0)
        = accrued_of a tk s - unwrap_or (fd_staker_debt s (a, tk)) 0"
      using debt by (simp add: in_i128_diff)
    show ?thesis
    proof (cases "unwrap_or (fd_staker_debt s (a, tk)) 0 = accrued_of a tk s")
      case True
      with Cons.prems(1) Some acc have "harvest_tokens a x tks s = Inr s'" by (simp add: Let_def)
      with settles_none [OF Cons.prems(5) True] show ?thesis by blast
    next
      case False
      with debt Cons.prems(1) Some acc sat
      have "harvest_tokens a x tks (s\<lparr> fd_staker_pending := (fd_staker_pending s)((a, tk) \<mapsto>
            unwrap_or (fd_staker_pending s (a, tk)) 0 + (accrued_of a tk s - unwrap_or (fd_staker_debt s (a, tk)) 0)),
          fd_staker_debt := (fd_staker_debt s)((a, tk) \<mapsto> accrued_of a tk s) \<rparr>) = Inr s'"
        by (auto simp: Let_def)
      with settles_one [OF Cons.prems(3,5) False] Some show ?thesis by blast
    qed
  qed
  then obtain s1 where s1: "settles a {tk} s s1" "harvest_tokens a x tks s1 = Inr s'" by blast
  from settles_inv [OF s1(1) Cons.prems(3,4)] Cons.prems(2)
  have "settles a (set tks) s1 s'" by (intro Cons.IH [OF s1(2)]) auto
  from settles_trans [OF s1(1) this] show ?case by simp
qed

text \<open>With no stake nothing accrues, so the early return settles the same tokens.\<close>

lemma harvest_rewards_settles:
  assumes "harvest_rewards a tks s = Inr s'" "fee_inv s" "fd_admin s \<noteq> None" "reward_inv s"
  shows "settles a (set tks) s s'"
proof (cases "unwrap_or (fd_staker_amount s a) 0 = 0")
  case True
  with assms(1) have "s' = s" by (simp add: harvest_rewards_def)
  moreover have "unwrap_or (fd_staker_debt s (a, tk)) 0 = accrued_of a tk s" for tk
  proof -
    have "accrued_of a tk s = 0" using True by (simp add: accrued_of_def split: option.split)
    with debt_bounds [OF assms(2,4), of a tk] show ?thesis by simp
  qed
  ultimately show ?thesis using settles_refl [OF assms(4), of a] by (auto simp: settles_def)
next
  case False
  with assms show ?thesis by (intro harvest_tokens_settles) (auto simp: harvest_rewards_def)
qed

section \<open>Every operation keeps the books and the rewards\<close>

definition fee_ok :: "fee_state \<Rightarrow> bool" where
  "fee_ok s \<longleftrightarrow> fee_inv s \<and> reward_inv s"

lemma settled_ok:
  assumes "harvest_rewards a tks s = Inr s1" "fee_ok s" "fd_admin s \<noteq> None"
  shows "settles a (set tks) s s1" "fee_ok s1" "fd_admin s1 \<noteq> None" "fd_tokens s1 = fd_tokens s"
    "fd_staker_amount s1 = fd_staker_amount s" "fd_pools s1 = fd_pools s"
    "fd_staker_compound s1 = fd_staker_compound s" "fd_transfers s1 = fd_transfers s"
    "fd_total_staked s1 = fd_total_staked s" "fd_staking_token s1 = fd_staking_token s"
proof -
  show st: "settles a (set tks) s s1" using assms by (intro harvest_rewards_settles) (auto simp: fee_ok_def)
  from settles_inv [OF st] assms show "fee_ok s1" "fd_admin s1 \<noteq> None" by (auto simp: fee_ok_def)
  from st obtain p d where "s1 = s\<lparr> fd_staker_pending := p, fd_staker_debt := d \<rparr>" by (auto simp: settles_def)
  then show "fd_tokens s1 = fd_tokens s" "fd_staker_amount s1 = fd_staker_amount s" "fd_pools s1 = fd_pools s"
    "fd_staker_compound s1 = fd_staker_compound s" "fd_transfers s1 = fd_transfers s"
    "fd_total_staked s1 = fd_total_staked s" "fd_staking_token s1 = fd_staking_token s" by simp_all
qed

lemma no_pool_no_debt: "reward_inv s \<Longrightarrow> fd_pools s tk = None \<Longrightarrow> fd_staker_debt s (a, tk) = None"
  unfolding reward_inv_def by (metis not_None_eq)

lemma tokens_are_pools: "fee_inv s \<Longrightarrow> fd_tokens s = Some tks \<Longrightarrow> fd_pools s tk \<noteq> None \<longleftrightarrow> tk \<in> set tks"
  unfolding fee_inv_def by (metis domIff unwrap_or_simps(2))

text \<open>After the debts of a staker are rewritten to the new stake they are what it has accrued.\<close>

lemma reward_inv_restaked:
  assumes "fee_ok s" "fd_tokens s = Some tks" "0 \<le> x"
    and "fd_staker_amount s' = (fd_staker_amount s)(a \<mapsto> x)"
    and "fd_staker_debt s' = synced_debts a x tks u" "fd_pools u = fd_pools s" "fd_staker_debt u = fd_staker_debt s"
    and "fd_pools s' = fd_pools s" "fd_staker_pending s' = fd_staker_pending s" "fd_vesting s' = fd_vesting s"
  shows "reward_inv s'"
proof -
  have other: "accrued_of b tk s' = accrued_of b tk s" if "b \<noteq> a" for b tk
    using that by (simp add: accrued_of_def assms cong: option.case_cong)
  have own: "fd_staker_debt s' (a, tk) = Some d \<Longrightarrow> fd_pools s tk \<noteq> None \<and> 0 \<le> d \<and> d \<le> accrued_of a tk s'" for tk d
  proof (cases "fd_pools s tk")
    case None
    assume "fd_staker_debt s' (a, tk) = Some d"
    with None assms have "fd_staker_debt s (a, tk) = Some d" by (simp add: synced_debts_def)
    with None assms(1) no_pool_no_debt show ?thesis by (simp add: fee_ok_def)
  next
    case (Some p)
    assume d: "fd_staker_debt s' (a, tk) = Some d"
    have "tk \<in> set tks" using Some assms(1,2) tokens_are_pools by (metis fee_ok_def option.distinct(1))
    with d Some assms have d: "d = x * fp_acc_fee_per_share p sdiv fee_precision" by (simp add: synced_debts_def)
    have "0 \<le> x * fp_acc_fee_per_share p"
      using Some assms(1,3) by (intro mult_nonneg_nonneg) (auto simp: fee_ok_def fee_inv_def pool_inv_def)
    with d Some fee_precision_pos show ?thesis
      by (simp add: accrued_of_def assms sdiv_nonneg pos_imp_zdiv_nonneg_iff)
  qed
  have inv: "reward_inv s" using assms(1) by (simp add: fee_ok_def)
  show ?thesis unfolding reward_inv_def
  proof (intro conjI allI impI)
    fix b tk d assume d: "fd_staker_debt s' (b, tk) = Some d"
    show "fd_pools s' tk \<noteq> None" "0 \<le> d" "d \<le> accrued_of b tk s'"
    proof -
      have "fd_pools s tk \<noteq> None \<and> 0 \<le> d \<and> d \<le> accrued_of b tk s'"
      proof (cases "b = a")
        case True
        with own d show ?thesis by simp
      next
        case False
        then have "fd_staker_debt s (b, tk) = Some d" using d assms by (simp add: synced_debts_def)
        with inv other [OF False] show ?thesis by (simp add: reward_inv_def)
      qed
      then show "fd_pools s' tk \<noteq> None" "0 \<le> d" "d \<le> accrued_of b tk s'" by (simp_all add: assms)
    qed
  qed (use inv in \<open>auto simp: reward_inv_def assms\<close>)
qed

lemma reward_inv_grow:
  assumes "fee_inv s" "reward_inv s"
    and same: "fd_staker_pending s' = fd_staker_pending s" "fd_staker_debt s' = fd_staker_debt s"
    "fd_staker_amount s' = fd_staker_amount s" "fd_vesting s' = fd_vesting s"
    and grow: "\<And>tk p. fd_pools s tk = Some p \<Longrightarrow>
      \<exists>p'. fd_pools s' tk = Some p' \<and> fp_acc_fee_per_share p \<le> fp_acc_fee_per_share p'"
  shows "reward_inv s'"
proof -
  have kept: "fd_pools s tk \<noteq> None \<Longrightarrow> fd_pools s' tk \<noteq> None" for tk
    using grow by (metis option.exhaust_sel option.distinct(1))
  have "accrued_of a tk s \<le> accrued_of a tk s'" if pool: "fd_pools s tk \<noteq> None" for a tk
  proof -
    from pool obtain p where p: "fd_pools s tk = Some p" by blast
    from grow [OF this] obtain p' where "fd_pools s' tk = Some p'" "fp_acc_fee_per_share p \<le> fp_acc_fee_per_share p'"
      by blast
    with p same stake_nonneg [OF assms(1), of a] fee_precision_pos show ?thesis
      by (auto simp: accrued_of_def intro!: zdiv_mono1 mult_left_mono)
  qed
  with assms(2) kept show ?thesis unfolding reward_inv_def same by (meson order_trans)
qed

text \<open>What the staking operations leave behind, from the settled state.\<close>

lemma restake_effect:
  assumes "restake a y tks s = Inr s'"
  obtains t x where "fd_total_staked s = Some t" "x = unwrap_or (fd_staker_amount s a) 0 + y"
    "s' = s\<lparr> fd_staker_amount := (fd_staker_amount s)(a \<mapsto> x),
      fd_staker_debt := synced_debts a x tks (s\<lparr> fd_staker_amount := (fd_staker_amount s)(a \<mapsto> x) \<rparr>),
      fd_total_staked := Some (t + y) \<rparr>"
  using assms by (auto simp: restake_def Let_def dest!: sync_debts_effect)

lemma stake_effect:
  assumes "stake_for_fees accepts self env a y c s = Inr s'"
  obtains tks s1 st t x time u where "0 < y" "a \<in> set (auths env)" "fd_emergency s = Some False"
    "fd_tokens s = Some tks" "harvest_rewards a tks s = Inr s1"
    "fd_staking_token s1 = Some st" "fd_total_staked s1 = Some t" "x = unwrap_or (fd_staker_amount s1 a) 0 + y"
    "fd_pools u = fd_pools s1" "fd_staker_debt u = fd_staker_debt s1"
    "\<forall>tk p. tk \<in> set tks \<longrightarrow> fd_pools s1 tk = Some p \<longrightarrow> in_i128 (x * fp_acc_fee_per_share p)"
    "s' = s1\<lparr> fd_transfers := fd_transfers s1 @ [\<lparr> tt_token = st, tt_from = a, tt_to = self, tt_amount = y \<rparr>],
      fd_staker_amount := (fd_staker_amount s1)(a \<mapsto> x), fd_staker_debt := synced_debts a x tks u,
      fd_staker_time := time, fd_staker_compound := (fd_staker_compound s1)(a \<mapsto> c),
      fd_total_staked := Some (t + y) \<rparr>"
proof -
  from assms obtain tks s1 st t time where *: "0 < y" "a \<in> set (auths env)" "fd_emergency s = Some False"
    "fd_tokens s = Some tks" "harvest_rewards a tks s = Inr s1"
    "fd_staking_token s1 = Some st" "fd_total_staked s1 = Some t"
    "\<forall>tk p. tk \<in> set tks \<longrightarrow> fd_pools s1 tk = Some p \<longrightarrow>
       in_i128 ((unwrap_or (fd_staker_amount s1 a) 0 + y) * fp_acc_fee_per_share p)"
    "s' = s1\<lparr> fd_transfers := fd_transfers s1 @ [\<lparr> tt_token = st, tt_from = a, tt_to = self, tt_amount = y \<rparr>],
      fd_staker_amount := (fd_staker_amount s1)(a \<mapsto> unwrap_or (fd_staker_amount s1 a) 0 + y),
      fd_staker_debt := synced_debts a (unwrap_or (fd_staker_amount s1 a) 0 + y) tks
        (s1\<lparr> fd_transfers := fd_transfers s1 @ [\<lparr> tt_token = st, tt_from = a, tt_to = self, tt_amount = y \<rparr>],
            fd_staker_amount := (fd_staker_amount s1)(a \<mapsto> unwrap_or (fd_staker_amount s1 a) 0 + y) \<rparr>),
      fd_staker_time := time, fd_staker_compound := (fd_staker_compound s1)(a \<mapsto> c),
      fd_total_staked := Some (t + y) \<rparr>"
    by (auto simp: stake_for_fees_def Let_def dest!: sync_debts_both)
  show thesis by (rule that [OF *(1-7) refl _ _ *(8) *(9)]) simp_all
qed

lemma unstake_effect:
  assumes "fee_unstake accepts self env a y s = Inr s'" "fd_admin s \<noteq> None"
  obtains tks s1 st t x u where "0 < y" "y \<le> unwrap_or (fd_staker_amount s a) 0"
    "fd_tokens s = Some tks" "harvest_rewards a tks s = Inr s1"
    "fd_staking_token s1 = Some st" "fd_total_staked s1 = Some t" "x = unwrap_or (fd_staker_amount s1 a) 0 - y"
    "fd_pools u = fd_pools s1" "fd_staker_debt u = fd_staker_debt s1"
    "\<forall>tk p. tk \<in> set tks \<longrightarrow> fd_pools s1 tk = Some p \<longrightarrow> in_i128 (x * fp_acc_fee_per_share p)"
    "s' = s1\<lparr> fd_staker_amount := (fd_staker_amount s1)(a \<mapsto> x), fd_staker_debt := synced_debts a x tks u,
      fd_transfers := fd_transfers s1 @ [\<lparr> tt_token = st, tt_from = self, tt_to = a, tt_amount = y \<rparr>],
      fd_total_staked := Some (t - y) \<rparr>"
proof -
  let ?x = "unwrap_or (fd_staker_amount s a) 0"
  from assms(1) obtain tks s1 st t where *: "0 < y" "y \<le> ?x" "fd_tokens s = Some tks" "harvest_rewards a tks s = Inr s1"
    "fd_staking_token s1 = Some st" "fd_total_staked s1 = Some t"
    "\<forall>tk p. tk \<in> set tks \<longrightarrow> fd_pools s1 tk = Some p \<longrightarrow> in_i128 ((?x - y) * fp_acc_fee_per_share p)"
    "s' = s1\<lparr> fd_staker_amount := (fd_staker_amount s1)(a \<mapsto> ?x - y),
      fd_staker_debt := synced_debts a (?x - y) tks (s1\<lparr> fd_staker_amount := (fd_staker_amount s1)(a \<mapsto> ?x - y) \<rparr>),
      fd_transfers := fd_transfers s1 @ [\<lparr> tt_token = st, tt_from = self, tt_to = a, tt_amount = y \<rparr>],
      fd_total_staked := Some (t - y) \<rparr>"
    by (auto simp: fee_unstake_def Let_def not_less dest!: sync_debts_both)
  from harvest_rewards_frame [OF *(4)] have "?x = unwrap_or (fd_staker_amount s1 a) 0" by auto
  show thesis by (rule that [OF *(1-6) _ _ _ *(7,8)]) (simp_all add: \<open>?x = _\<close>)
qed

lemma stake_ok:
  assumes "stake_for_fees accepts self env a y c s = Inr s'" "fee_ok s" "fd_admin s \<noteq> None"
  shows "fee_ok s'"
proof (rule stake_effect [OF assms(1)])
  fix tks s1 st t x time u
  assume y: "0 < y" and tks: "fd_tokens s = Some tks" and s1: "harvest_rewards a tks s = Inr s1"
    and x: "x = unwrap_or (fd_staker_amount s1 a) 0 + y"
    and u: "fd_pools u = fd_pools s1" "fd_staker_debt u = fd_staker_debt s1"
    and s': "s' = s1\<lparr> fd_transfers := fd_transfers s1 @ [\<lparr> tt_token = st, tt_from = a, tt_to = self, tt_amount = y \<rparr>],
      fd_staker_amount := (fd_staker_amount s1)(a \<mapsto> x), fd_staker_debt := synced_debts a x tks u,
      fd_staker_time := time, fd_staker_compound := (fd_staker_compound s1)(a \<mapsto> c),
      fd_total_staked := Some (t + y) \<rparr>"
  note ok = settled_ok [OF s1 assms(2,3)]
  have "0 \<le> x" using stake_nonneg [of s1 a] ok(2) y x by (simp add: fee_ok_def)
  have "fd_tokens s1 = Some tks" using ok(4) tks by simp
  have r: "reward_inv s'"
    unfolding s' by (rule reward_inv_restaked [OF ok(2) \<open>fd_tokens s1 = Some tks\<close> \<open>0 \<le> x\<close> _ _ u]) simp_all
  have "fee_inv s'" using stake_for_fees_inv [OF assms(1) _ assms(3)] assms(2) by (simp add: fee_ok_def)
  then show ?thesis using r by (simp add: fee_ok_def)
qed

lemma unstake_ok:
  assumes "fee_unstake accepts self env a y s = Inr s'" "fee_ok s" "fd_admin s \<noteq> None"
  shows "fee_ok s'"
proof (rule unstake_effect [OF assms(1,3)])
  fix tks s1 st t x u
  assume y: "y \<le> unwrap_or (fd_staker_amount s a) 0" and tks: "fd_tokens s = Some tks"
    and s1: "harvest_rewards a tks s = Inr s1" and x: "x = unwrap_or (fd_staker_amount s1 a) 0 - y"
    and u: "fd_pools u = fd_pools s1" "fd_staker_debt u = fd_staker_debt s1"
    and s': "s' = s1\<lparr> fd_staker_amount := (fd_staker_amount s1)(a \<mapsto> x), fd_staker_debt := synced_debts a x tks u,
      fd_transfers := fd_transfers s1 @ [\<lparr> tt_token = st, tt_from = self, tt_to = a, tt_amount = y \<rparr>],
      fd_total_staked := Some (t - y) \<rparr>"
  from settled_ok(2-5) [OF s1 assms(2,3)] tks y x have ok: "fee_ok s1" "fd_tokens s1 = Some tks" "0 \<le> x" by auto
  have "reward_inv s'"
    unfolding s' by (rule reward_inv_restaked [OF ok _ _ u]) simp_all
  moreover have "fee_inv s'" using fee_unstake_inv [OF assms(1) _ assms(3)] assms(2) by (simp add: fee_ok_def)
  ultimately show ?thesis by (simp add: fee_ok_def)
qed

lemma restake_ok:
  assumes "restake a y tks s = Inr s'" "fee_ok s" "fd_admin s \<noteq> None" "0 \<le> y" "fd_tokens s = Some tks"
  shows "fee_ok s'"
proof (rule restake_effect [OF assms(1)])
  fix t x
  assume x: "x = unwrap_or (fd_staker_amount s a) 0 + y"
    and s': "s' = s\<lparr> fd_staker_amount := (fd_staker_amount s)(a \<mapsto> x),
      fd_staker_debt := synced_debts a x tks (s\<lparr> fd_staker_amount := (fd_staker_amount s)(a \<mapsto> x) \<rparr>),
      fd_total_staked := Some (t + y) \<rparr>"
  have "0 \<le> x" using stake_nonneg [of s a] assms(2,4) x by (simp add: fee_ok_def)
  then have "reward_inv s'"
    unfolding s'
    by (rule reward_inv_restaked [OF assms(2,5), where u = "s\<lparr> fd_staker_amount := (fd_staker_amount s)(a \<mapsto> x) \<rparr>"])
      simp_all
  moreover have "fee_inv s'" using restake_inv [OF assms(1) _ assms(3,4)] assms(2) by (simp add: fee_ok_def)
  ultimately show ?thesis by (simp add: fee_ok_def)
qed

lemma paid_out_ok:
  "fee_ok s \<Longrightarrow> fd_admin s \<noteq> None \<Longrightarrow> fd_staker_pending s (a, tk) \<noteq> None \<Longrightarrow>
     fee_ok (s\<lparr> fd_staker_pending := (fd_staker_pending s)((a, tk) \<mapsto> 0) \<rparr>)"
  unfolding fee_ok_def reward_inv_def by auto

lemma claim_ok:
  assumes "claim_fees accepts self env a tk s = Inr s'" "fee_ok s" "fd_admin s \<noteq> None"
  shows "fee_ok s'"
proof -
  from assms(1) obtain tks s1 where tks: "fd_tokens s = Some tks" and s1: "harvest_rewards a tks s = Inr s1"
    and nz: "unwrap_or (fd_staker_pending s1 (a, tk)) 0 \<noteq> 0"
    and s': "(if unwrap_or (fd_staker_compound s1 a) False
        then restake a (unwrap_or (fd_staker_pending s1 (a, tk)) 0) tks
          (s1\<lparr> fd_staker_pending := (fd_staker_pending s1)((a, tk) \<mapsto> 0) \<rparr>)
        else pay accepts tk self a (unwrap_or (fd_staker_pending s1 (a, tk)) 0)
          (s1\<lparr> fd_staker_pending := (fd_staker_pending s1)((a, tk) \<mapsto> 0) \<rparr>)) = Inr s'"
    by (auto simp: claim_fees_def Let_def simp del: pay_eq_Inr)
  from settled_ok(2-5) [OF s1 assms(2,3)] tks have ok: "fee_ok s1" "fd_admin s1 \<noteq> None" "fd_tokens s1 = Some tks" by auto
  from nz have "fd_staker_pending s1 (a, tk) \<noteq> None" by (metis unwrap_or_simps(1))
  from paid_out_ok [OF ok(1,2) this]
  have ok2: "fee_ok (s1\<lparr> fd_staker_pending := (fd_staker_pending s1)((a, tk) \<mapsto> 0) \<rparr>)" .
  have "0 \<le> unwrap_or (fd_staker_pending s1 (a, tk)) 0" using ok(1) by (intro pending_nonneg) (simp add: fee_ok_def)
  note nonneg = this
  let ?s2 = "s1\<lparr> fd_staker_pending := (fd_staker_pending s1)((a, tk) \<mapsto> 0) \<rparr>"
  show ?thesis
  proof (cases "unwrap_or (fd_staker_compound s1 a) False")
    case True
    with s' have "restake a (unwrap_or (fd_staker_pending s1 (a, tk)) 0) tks ?s2 = Inr s'" by simp
    from restake_ok [OF this ok2 _ nonneg] ok show ?thesis by simp
  next
    case False
    with s' have s': "s' = ?s2\<lparr> fd_transfers := fd_transfers s' \<rparr>" by auto
    from ok ok2 have "fee_inv (?s2\<lparr> fd_transfers := ts \<rparr>)" for ts by (simp add: fee_ok_def)
    moreover have "reward_inv (?s2\<lparr> fd_transfers := ts \<rparr>)" for ts
      by (rule reward_inv_eq [of ?s2]) (use ok2 in \<open>simp_all add: fee_ok_def\<close>)
    ultimately show ?thesis by (subst s') (simp add: fee_ok_def)
  qed
qed

lemma compound_ok:
  assumes "compound_rewards a tk s = Inr s'" "fee_ok s" "fd_admin s \<noteq> None"
  shows "fee_ok s'"
proof -
  from assms(1) obtain tks s1 where tks: "fd_tokens s = Some tks" and s1: "harvest_rewards a tks s = Inr s1"
    and s': "(if unwrap_or (fd_staker_pending s1 (a, tk)) 0 = 0 then Inr s1
        else restake a (unwrap_or (fd_staker_pending s1 (a, tk)) 0) tks
          (s1\<lparr> fd_staker_pending := (fd_staker_pending s1)((a, tk) \<mapsto> 0) \<rparr>)) = Inr s'"
    by (auto simp: compound_rewards_def Let_def)
  from settled_ok(2-5) [OF s1 assms(2,3)] tks have ok: "fee_ok s1" "fd_admin s1 \<noteq> None" "fd_tokens s1 = Some tks" by auto
  show ?thesis
  proof (cases "unwrap_or (fd_staker_pending s1 (a, tk)) 0 = 0")
    case True
    with s' ok show ?thesis by simp
  next
    case False
    then have "fd_staker_pending s1 (a, tk) \<noteq> None" by (metis unwrap_or_simps(1))
    from paid_out_ok [OF ok(1,2) this]
    have ok2: "fee_ok (s1\<lparr> fd_staker_pending := (fd_staker_pending s1)((a, tk) \<mapsto> 0) \<rparr>)" .
    have "0 \<le> unwrap_or (fd_staker_pending s1 (a, tk)) 0" using ok(1) by (intro pending_nonneg) (simp add: fee_ok_def)
    with s' False ok show ?thesis by (auto intro: restake_ok [OF _ ok2])
  qed
qed

lemma fee_ok_eq:
  assumes "fee_ok s" "fd_admin s \<noteq> None" "fd_admin s' = fd_admin s"
    "fd_staker_amount s' = fd_staker_amount s" "fd_total_staked s' = fd_total_staked s"
    "fd_pools s' = fd_pools s" "fd_tokens s' = fd_tokens s" "fd_distribution s' = fd_distribution s"
    "fd_distribution_count s' = fd_distribution_count s" "fd_vesting s' = fd_vesting s" "fd_ratios s' = fd_ratios s"
    "fd_staker_pending s' = fd_staker_pending s" "fd_staker_debt s' = fd_staker_debt s"
  shows "fee_ok s'"
  using fee_inv_eq [OF _ assms(2-11)] reward_inv_eq [OF _ assms(12,13,6,4,10)] assms(1) by (simp add: fee_ok_def)

lemma add_fee_token_ok:
  assumes "add_fee_token env tk s = Inr s'" "fee_ok s" "fd_admin s \<noteq> None"
  shows "fee_ok s'"
proof -
  from assms(1) obtain tks where tks: "fd_tokens s = Some tks" by (auto simp: add_fee_token_def)
  show ?thesis
  proof (cases "tk \<in> set tks")
    case True
    with assms tks show ?thesis by (auto simp: add_fee_token_def list_ex_iff)
  next
    case False
    have fi: "fee_inv s" and ri: "reward_inv s" using assms(2) by (simp_all add: fee_ok_def)
    from False tks tokens_are_pools [OF fi tks] have none: "fd_pools s tk = None" by blast
    let ?p = "\<lparr> fp_token = tk, fp_total_collected = 0, fp_total_distributed = 0, fp_pending = 0,
                   fp_acc_fee_per_share = 0, fp_governance_pool = 0,
                   fp_last_distribution_time = timestamp env \<rparr>"
    have s': "s' = s\<lparr> fd_tokens := Some (tks @ [tk]), fd_pools := (fd_pools s)(tk \<mapsto> ?p) \<rparr>"
      using assms(1) tks False none by (auto simp: add_fee_token_def list_ex_iff Let_def)
    have "distributed q s' = distributed q s" for q
      using none by (simp add: distributed_def s')
    moreover have "pool_inv ?p" by (simp add: pool_inv_def)
    ultimately have "fee_inv s'" using fi tks assms(3) unfolding s' fee_inv_def by auto
    moreover have "reward_inv s'"
      by (rule reward_inv_grow [OF fi ri]) (use none in \<open>auto simp: s'\<close>)
    ultimately show ?thesis by (simp add: fee_ok_def)
  qed
qed


lemma grown_ok:
  assumes "fee_inv s' \<and> pools_grow self s s'" "fee_ok s"
  shows "fee_ok s'"
  using assms reward_inv_grow [of s s'] by (auto simp: fee_ok_def pools_grow_def)

lemma fee_collect_effect:
  assumes "fee_collect accepts self env c tk y s = Inr s'"
  obtains p where "0 < y" "fd_pools s tk = Some p" "c \<in> set (auths env)" "fd_emergency s = Some False"
    "fd_admin s \<noteq> None" "fd_admin s = Some c \<or> c \<in> set (the (fd_collectors s))"
    "tk \<in> set (the (fd_tokens s))"
    "maybe_auto_distribute accepts self env
       (s\<lparr> fd_transfers := fd_transfers s @ [\<lparr> tt_token = tk, tt_from = c, tt_to = self, tt_amount = y \<rparr>],
          fd_pools := (fd_pools s)(tk \<mapsto> p\<lparr> fp_total_collected := fp_total_collected p + y,
            fp_pending := fp_pending p + y \<rparr>) \<rparr>) = Inr s'"
  using assms by (auto simp: fee_collect_def require_token_supported_def list_ex_iff split: if_splits)

lemma collected_ok:
  assumes "fee_ok s" "fd_admin s \<noteq> None" "fd_pools s tk = Some p" "0 < y"
  shows "fee_ok (s\<lparr> fd_transfers := ts, fd_pools := (fd_pools s)(tk \<mapsto> p\<lparr> fp_total_collected := fp_total_collected p + y,
            fp_pending := fp_pending p + y \<rparr>) \<rparr>)" (is "fee_ok ?s'")
proof -
  have fi: "fee_inv s" and ri: "reward_inv s" using assms(1) by (simp_all add: fee_ok_def)
  from fi assms(3) have "pool_inv p" by (simp add: fee_inv_def)
  with assms(4) have p: "pool_inv (p\<lparr> fp_total_collected := fp_total_collected p + y, fp_pending := fp_pending p + y \<rparr>)"
    by (auto simp: pool_inv_def)
  let ?s1 = "s\<lparr> fd_transfers := ts \<rparr>"
  have "fee_inv (?s1\<lparr> fd_pools := (fd_pools ?s1)(tk \<mapsto> p\<lparr> fp_total_collected := fp_total_collected p + y,
            fp_pending := fp_pending p + y \<rparr>) \<rparr>)"
    by (rule fee_inv_pool [OF _ _ _ p]) (use fi assms in simp_all)
  moreover have "reward_inv ?s'" by (rule reward_inv_grow [OF fi ri]) (use assms in auto)
  ultimately show ?thesis by (simp add: fee_ok_def)
qed

lemma collect_ok:
  assumes "fee_collect accepts self env c tk y s = Inr s'" "fee_ok s" "fd_admin s \<noteq> None"
  shows "fee_ok s'"
proof (rule fee_collect_effect [OF assms(1)])
  fix p
  let ?s1 = "s\<lparr> fd_transfers := fd_transfers s @ [\<lparr> tt_token = tk, tt_from = c, tt_to = self, tt_amount = y \<rparr>],
          fd_pools := (fd_pools s)(tk \<mapsto> p\<lparr> fp_total_collected := fp_total_collected p + y,
            fp_pending := fp_pending p + y \<rparr>) \<rparr>"
  assume "0 < y" "fd_pools s tk = Some p" and s1: "maybe_auto_distribute accepts self env ?s1 = Inr s'"
  then have ok: "fee_ok ?s1" using assms by (intro collected_ok) auto
  then have "fee_inv ?s1" by (simp add: fee_ok_def)
  from maybe_auto_distribute_inv [OF s1 this] assms(3) have "fee_inv s' \<and> pools_grow self ?s1 s'" by simp
  from grown_ok [OF this ok] show ?thesis .
qed

lemma distribute_fees_ok:
  assumes "distribute_fees accepts self env tks s = Inr s'" "fee_ok s" "fd_admin s \<noteq> None"
  shows "fee_ok s'" "pools_grow self s s'"
proof -
  from assms(1) obtain ts where "do_distribute accepts self env ts s = Inr s'" by (auto simp: distribute_fees_def)
  from do_distribute_inv [OF this _ assms(3)] assms(2) have "fee_inv s' \<and> pools_grow self s s'" by (simp add: fee_ok_def)
  with grown_ok [OF this assms(2)] show "fee_ok s'" "pools_grow self s s'" by auto
qed

lemma create_vesting_ok:
  assumes "create_vesting_schedule env b tk y du cl s = Inr s'" "fee_ok s" "fd_admin s \<noteq> None" "in_i128 y"
  shows "fee_ok s'"
proof -
  from assms(1) obtain p n where p: "fd_pools s tk = Some p" and y: "0 < y" "y \<le> fp_governance_pool p" and
    d: "du \<noteq> 0" "cl \<le> du" and
    s': "s' = s\<lparr> fd_pools := (fd_pools s)(tk \<mapsto> p\<lparr> fp_governance_pool := fp_governance_pool p - y \<rparr>),
            fd_vesting := (fd_vesting s)(n \<mapsto>
              \<lparr> vs_beneficiary = b, vs_token = tk, vs_total_amount = y, vs_claimed_amount = 0,
                vs_start_time = timestamp env, vs_duration = du, vs_cliff = cl \<rparr>),
            fd_vesting_count := Some (n + 1) \<rparr>"
    by (auto simp: create_vesting_schedule_def not_less)
  have fi: "fee_inv s" and ri: "reward_inv s" using assms(2) by (simp_all add: fee_ok_def)
  have "fee_inv (s\<lparr> fd_pools := (fd_pools s)(tk \<mapsto> p\<lparr> fp_governance_pool := fp_governance_pool p - y \<rparr>) \<rparr>)"
    by (rule fee_inv_pool [OF fi assms(3) p]) (use fi p y in \<open>auto simp: fee_inv_def pool_inv_def\<close>)
  then have "fee_inv s'" using y d assms(3,4) unfolding s' fee_inv_def
    by (auto simp: vesting_inv_def distributed_def)
  moreover have "reward_inv (s\<lparr> fd_pools := (fd_pools s)(tk \<mapsto> p\<lparr> fp_governance_pool := fp_governance_pool p - y \<rparr>) \<rparr>)"
    by (rule reward_inv_grow [OF fi ri]) (use p in auto)
  then have "reward_inv s'" unfolding s' reward_inv_def accrued_of_def by (auto cong: option.case_cong)
  ultimately show ?thesis by (simp add: fee_ok_def)
qed

section \<open>Vesting\<close>

text \<open>Within its bounds the arithmetic of \<open>claim_vested\<close> is the linear schedule, casts included.\<close>

definition vested :: "vesting_schedule \<Rightarrow> nat \<Rightarrow> int" where
  "vested v elapsed = vs_total_amount v * int (min elapsed (vs_duration v)) div int (vs_duration v)"

lemma vested_bounds:
  assumes "vesting_inv v"
  shows "0 \<le> vested v e" "vested v e \<le> vs_total_amount v" "e \<le> e' \<Longrightarrow> vested v e \<le> vested v e'"
proof -
  have d: "0 < int (vs_duration v)" and t: "0 < vs_total_amount v" using assms by (simp_all add: vesting_inv_def)
  show "0 \<le> vested v e" using d t by (simp add: vested_def pos_imp_zdiv_nonneg_iff)
  have "vested v e \<le> vs_total_amount v * int (vs_duration v) div int (vs_duration v)"
    unfolding vested_def using d t by (intro zdiv_mono1 mult_left_mono) auto
  then show "vested v e \<le> vs_total_amount v" using d by simp
  show "vested v e \<le> vested v e'" if "e \<le> e'"
    unfolding vested_def using d t that by (intro zdiv_mono1 mult_left_mono) auto
qed

lemma vested_amount_exact:
  assumes "vesting_inv v"
  shows "vested_amount v e = (if vs_duration v \<le> e \<or> nat (vs_total_amount v) * e \<le> u128_max
    then Inr (vested v e) else Inl (Panic ''overflow''))"
proof -
  have t: "0 < vs_total_amount v" "vs_total_amount v \<le> i128_max" and d: "vs_duration v \<noteq> 0"
    using assms by (simp_all add: vesting_inv_def in_i128_def)
  have cast: "cast_u128 (vs_total_amount v) = nat (vs_total_amount v)"
    using t by (simp add: cast_u128_def i128_max_def)
  show ?thesis
  proof (cases "vs_duration v \<le> e")
    case True
    then show ?thesis using d by (simp add: vested_amount_def vested_def min_absorb2)
  next
    case False
    then have v: "vested v e = int (nat (vs_total_amount v) * e div vs_duration v)"
      using t by (simp add: vested_def zdiv_int)
    have "vested v e \<le> i128_max" "0 \<le> vested v e" using vested_bounds [OF assms, of e] t by auto
    then have "cast_i128 (nat (vs_total_amount v) * e div vs_duration v) = vested v e"
      unfolding cast_i128_def v [symmetric] by (simp add: Let_def i128_max_def)
    with False d show ?thesis by (auto simp: vested_amount_def cast Let_def ensure_def)
  qed
qed

lemma claim_vested_effect:
  assumes "claim_vested accepts self env i s = Inr s'" "fee_inv s"
  obtains v x where "fd_vesting s i = Some v" "vs_beneficiary v \<in> set (auths env)"
    "x = vested v (timestamp env - vs_start_time v)"
    "vs_cliff v \<le> timestamp env - vs_start_time v" "vs_claimed_amount v < x"
    "s' = s\<lparr> fd_vesting := (fd_vesting s)(i \<mapsto> v\<lparr> vs_claimed_amount := x \<rparr>),
      fd_transfers := fd_transfers s @ [\<lparr> tt_token = vs_token v, tt_from = self, tt_to = vs_beneficiary v,
        tt_amount = x - vs_claimed_amount v \<rparr>] \<rparr>"
proof -
  from assms(1) obtain v where v: "fd_vesting s i = Some v" by (auto simp: claim_vested_def)
  with assms(2) have "vesting_inv v" by (simp add: fee_inv_def)
  from vested_amount_exact [OF this] v assms(1) show thesis
    by (auto simp: claim_vested_def Let_def split: if_splits intro!: that [OF v])
qed

lemma claim_vested_ok:
  assumes "claim_vested accepts self env i s = Inr s'" "fee_ok s" "fd_admin s \<noteq> None"
  shows "fee_ok s'"
proof -
  have fi: "fee_inv s" and ri: "reward_inv s" using assms(2) by (simp_all add: fee_ok_def)
  show ?thesis
  proof (rule claim_vested_effect [OF assms(1) fi])
    fix v x assume v: "fd_vesting s i = Some v" and x: "x = vested v (timestamp env - vs_start_time v)" "vs_claimed_amount v < x"
      and s': "s' = s\<lparr> fd_vesting := (fd_vesting s)(i \<mapsto> v\<lparr> vs_claimed_amount := x \<rparr>),
      fd_transfers := fd_transfers s @ [\<lparr> tt_token = vs_token v, tt_from = self, tt_to = vs_beneficiary v,
        tt_amount = x - vs_claimed_amount v \<rparr>] \<rparr>"
    from v fi have vi: "vesting_inv v" by (simp add: fee_inv_def)
    from vested_bounds(1,2) [OF vi, of "timestamp env - vs_start_time v"] vi
    have "vesting_inv (v\<lparr> vs_claimed_amount := x \<rparr>)" by (simp add: vesting_inv_def x(1))
    then have "fee_inv s'" using fi assms(3) unfolding s' fee_inv_def by (auto simp: distributed_def)
    moreover have "reward_inv s'"
      using ri v unfolding s' reward_inv_def accrued_of_def by (auto cong: option.case_cong)
    ultimately show ?thesis by (simp add: fee_ok_def)
  qed
qed

lemma update_ratios_ok:
  assumes "update_ratios env r s = Inr s'" "fee_ok s" "fd_admin s \<noteq> None"
  shows "fee_ok s'"
proof -
  from assms(1) have s': "s' = s\<lparr> fd_ratios := Some r \<rparr>"
    and r: "dr_stakers_bps r + dr_governance_bps r + dr_treasury_bps r = fee_bps_denom"
    by (auto simp: update_ratios_def)
  have "fee_inv s'" using assms(2,3) r unfolding s' fee_ok_def fee_inv_def
    by (cases "fd_admin s") (simp_all add: distributed_def)
  moreover have "reward_inv s'" by (rule reward_inv_eq [of s]) (use assms(2) s' in \<open>simp_all add: fee_ok_def\<close>)
  ultimately show ?thesis by (simp add: fee_ok_def)
qed

text \<open>The setters write one field the invariants do not read.\<close>

lemma fee_ok_minor:
  assumes "fee_ok s" "fd_admin s \<noteq> None"
  shows "fee_ok (s\<lparr> fd_collectors := cs \<rparr>)" "fee_ok (s\<lparr> fd_interval := iv \<rparr>)"
    "fee_ok (s\<lparr> fd_treasury := tr \<rparr>)" "fee_ok (s\<lparr> fd_emergency := em \<rparr>)" "fee_ok (s\<lparr> fd_transfers := ts \<rparr>)"
  by (rule fee_ok_eq [OF assms]; simp)+

lemma setters_ok:
  assumes "fee_ok s" "fd_admin s \<noteq> None"
  shows "fee_initialize env a t st r s \<noteq> Inr s'" "add_collector env c s = Inr s' \<Longrightarrow> fee_ok s'"
    "remove_collector env c s = Inr s' \<Longrightarrow> fee_ok s'" "set_distribution_interval env i s = Inr s' \<Longrightarrow> fee_ok s'"
    "update_treasury env t s = Inr s' \<Longrightarrow> fee_ok s'" "set_emergency env b s = Inr s' \<Longrightarrow> fee_ok s'"
    "fee_emergency_withdraw accepts self env tk rc y s = Inr s' \<Longrightarrow> fee_ok s'"
proof -
  note minor = fee_ok_minor [OF assms]
  show "fee_initialize env a t st r s \<noteq> Inr s'" using assms(2) by (auto simp: fee_initialize_def)
  show "fee_ok s'" if add: "add_collector env c s = Inr s'"
  proof -
    from add obtain cs where "(if list_ex (\<lambda>d. d = c) cs then Inr s
        else Inr (s\<lparr> fd_collectors := Some (cs @ [c]) \<rparr>) :: fee_state fres) = Inr s'"
      unfolding add_collector_def and_then_eq_Inr by blast
    then show ?thesis by (cases "list_ex (\<lambda>d. d = c) cs") (use assms(1) minor(1) in auto)
  qed
  show "remove_collector env c s = Inr s' \<Longrightarrow> fee_ok s'" by (auto simp: remove_collector_def minor)
  show "set_distribution_interval env i s = Inr s' \<Longrightarrow> fee_ok s'" by (auto simp: set_distribution_interval_def minor)
  show "update_treasury env t s = Inr s' \<Longrightarrow> fee_ok s'" by (auto simp: update_treasury_def minor)
  show "set_emergency env b s = Inr s' \<Longrightarrow> fee_ok s'" by (auto simp: set_emergency_def minor)
  show "fee_emergency_withdraw accepts self env tk rc y s = Inr s' \<Longrightarrow> fee_ok s'"
    by (auto simp: fee_emergency_withdraw_def minor)
qed

definition fee_call_ok :: "fee_call \<Rightarrow> bool" where
  "fee_call_ok c = (case c of CreateVestingSchedule b tk a d cl \<Rightarrow> in_i128 a | _ \<Rightarrow> True)"

lemma fee_first_call:
  assumes "fd_admin s = None" "fee_ok s" "fee_exec accepts self env c s = Inr s'"
  shows "fee_ok s'"
proof -
  have s: "s = fee_start" using assms by (auto simp: fee_ok_def fee_inv_def)
  show ?thesis using assms(3) unfolding s
    by (cases c) (auto simp: fee_start_def fee_initialize_def update_ratios_def add_fee_token_def add_collector_def
      remove_collector_def set_distribution_interval_def update_treasury_def fee_collect_def distribute_fees_def
      stake_for_fees_def fee_unstake_def claim_fees_def compound_rewards_def create_vesting_schedule_def
      claim_vested_def set_emergency_def fee_emergency_withdraw_def Let_def fee_ok_def fee_inv_def reward_inv_def distributed_def)
qed

lemma fee_ok_step:
  assumes "fee_ok s" "fee_call_ok c" "fee_exec accepts self env c s = Inr s'"
  shows "fee_ok s'"
proof (cases "fd_admin s = None")
  case True
  with fee_first_call assms show ?thesis by blast
next
  case False
  note set_ok = setters_ok [OF assms(1) False]
  show ?thesis
  proof (cases c)
    case (CreateVestingSchedule b tk a d cl)
    from assms(2) have "in_i128 a" by (simp add: fee_call_ok_def CreateVestingSchedule)
    from assms(3) show ?thesis unfolding CreateVestingSchedule fee_exec.simps
      by (rule create_vesting_ok [OF _ assms(1) False \<open>in_i128 a\<close>])
  next
    case (FInitialize a t st r)
    from assms(3) show ?thesis unfolding FInitialize fee_exec.simps by (simp add: set_ok(1))
  next
    case (AddCollector a)
    from assms(3) show ?thesis unfolding AddCollector fee_exec.simps by (rule set_ok(2))
  next
    case (RemoveCollector a)
    from assms(3) show ?thesis unfolding RemoveCollector fee_exec.simps by (rule set_ok(3))
  next
    case (SetDistributionInterval i)
    from assms(3) show ?thesis unfolding SetDistributionInterval fee_exec.simps by (rule set_ok(4))
  next
    case (UpdateTreasury t)
    from assms(3) show ?thesis unfolding UpdateTreasury fee_exec.simps by (rule set_ok(5))
  next
    case (SetEmergency b)
    from assms(3) show ?thesis unfolding SetEmergency fee_exec.simps by (rule set_ok(6))
  next
    case (FEmergencyWithdraw tk r a)
    from assms(3) show ?thesis unfolding FEmergencyWithdraw fee_exec.simps by (rule set_ok(7))
  next
    case (UpdateRatios r)
    from assms(3) show ?thesis unfolding UpdateRatios fee_exec.simps by (rule update_ratios_ok [OF _ assms(1) False])
  next
    case (AddFeeToken tk)
    from assms(3) show ?thesis unfolding AddFeeToken fee_exec.simps by (rule add_fee_token_ok [OF _ assms(1) False])
  next
    case (CollectFees a tk y)
    from assms(3) show ?thesis unfolding CollectFees fee_exec.simps by (rule collect_ok [OF _ assms(1) False])
  next
    case (DistributeFees ts)
    from assms(3) show ?thesis unfolding DistributeFees fee_exec.simps by (rule distribute_fees_ok(1) [OF _ assms(1) False])
  next
    case (StakeForFees a y b)
    from assms(3) show ?thesis unfolding StakeForFees fee_exec.simps by (rule stake_ok [OF _ assms(1) False])
  next
    case (FUnstake a y)
    from assms(3) show ?thesis unfolding FUnstake fee_exec.simps by (rule unstake_ok [OF _ assms(1) False])
  next
    case (ClaimFees a tk)
    from assms(3) show ?thesis unfolding ClaimFees fee_exec.simps by (rule claim_ok [OF _ assms(1) False])
  next
    case (CompoundRewards a tk)
    from assms(3) show ?thesis unfolding CompoundRewards fee_exec.simps by (rule compound_ok [OF _ assms(1) False])
  next
    case (ClaimVested i)
    from assms(3) show ?thesis unfolding ClaimVested fee_exec.simps by (rule claim_vested_ok [OF _ assms(1) False])
  qed
qed

interpretation fees: contract_invariant "fee_exec accepts self" "\<lambda>s. s = fee_start" fee_call_ok fee_ok
proof
  show "s = fee_start \<Longrightarrow> fee_ok s" for s
    using fee_inv_start by (simp add: fee_ok_def reward_inv_def fee_start_def)
qed (rule fee_ok_step)

section \<open>The backing of the stakes\<close>

text \<open>Calls without compounding stakers, emergency withdrawals, or this contract as a staker of its own.\<close>

definition fee_call_plain :: "address \<Rightarrow> fee_call \<Rightarrow> bool" where
  "fee_call_plain self c = (case c of StakeForFees a y b \<Rightarrow> \<not> b \<and> a \<noteq> self | FUnstake a y \<Rightarrow> a \<noteq> self
     | FEmergencyWithdraw tk r y \<Rightarrow> False | CreateVestingSchedule bn tk y d cl \<Rightarrow> in_i128 y | _ \<Rightarrow> True)"

definition backed :: "address \<Rightarrow> fee_state \<Rightarrow> bool" where
  "backed self s \<longleftrightarrow> (\<forall>a. fd_staker_compound s a \<noteq> Some True)
     \<and> (\<forall>st. fd_staking_token s = Some st \<and> fd_pools s st = None \<longrightarrow>
          net_of self st (fd_transfers s) = unwrap_or (fd_total_staked s) 0)"

definition plain_inv :: "address \<Rightarrow> fee_state \<Rightarrow> bool" where
  "plain_inv self s \<longleftrightarrow> fee_ok s \<and> backed self s"

lemma backed_eq:
  assumes "backed self s" "fd_staker_compound s' = fd_staker_compound s" "fd_staking_token s' = fd_staking_token s"
    "\<And>st. fd_pools s' st = None \<Longrightarrow> fd_pools s st = None" "fd_total_staked s' = fd_total_staked s"
    "\<And>st. fd_pools s' st = None \<Longrightarrow> net_of self st (fd_transfers s') = net_of self st (fd_transfers s)"
  shows "backed self s'"
  using assms by (auto simp: backed_def)

lemma grown_backed: "pools_grow self s s' \<Longrightarrow> backed self s \<Longrightarrow> backed self s'"
  unfolding pools_grow_def by (erule backed_eq) (auto, (metis option.exhaust option.distinct(1))+)

lemma not_compounding: "backed self s \<Longrightarrow> \<not> unwrap_or (fd_staker_compound s a) False"
  unfolding backed_def by (cases "fd_staker_compound s a") (simp_all, metis)

lemma stake_backed:
  assumes "stake_for_fees accepts self env a y False s = Inr s'" "fee_ok s" "fd_admin s \<noteq> None" "backed self s" "a \<noteq> self"
  shows "backed self s'"
proof (rule stake_effect [OF assms(1)])
  fix tks s1 st t x time u
  assume s1: "harvest_rewards a tks s = Inr s1" and st: "fd_staking_token s1 = Some st" "fd_total_staked s1 = Some t"
    and s': "s' = s1\<lparr> fd_transfers := fd_transfers s1 @ [\<lparr> tt_token = st, tt_from = a, tt_to = self, tt_amount = y \<rparr>],
      fd_staker_amount := (fd_staker_amount s1)(a \<mapsto> x), fd_staker_debt := synced_debts a x tks u,
      fd_staker_time := time, fd_staker_compound := (fd_staker_compound s1)(a \<mapsto> False),
      fd_total_staked := Some (t + y) \<rparr>"
  note same = settled_ok(6-10) [OF s1 assms(2,3)]
  show ?thesis using assms(4,5) st unfolding s' backed_def by (auto simp: same)
qed

lemma unstake_backed:
  assumes "fee_unstake accepts self env a y s = Inr s'" "fee_ok s" "fd_admin s \<noteq> None" "backed self s" "a \<noteq> self"
  shows "backed self s'"
proof (rule unstake_effect [OF assms(1,3)])
  fix tks s1 st t x u
  assume s1: "harvest_rewards a tks s = Inr s1" and st: "fd_staking_token s1 = Some st" "fd_total_staked s1 = Some t"
    and s': "s' = s1\<lparr> fd_staker_amount := (fd_staker_amount s1)(a \<mapsto> x), fd_staker_debt := synced_debts a x tks u,
      fd_transfers := fd_transfers s1 @ [\<lparr> tt_token = st, tt_from = self, tt_to = a, tt_amount = y \<rparr>],
      fd_total_staked := Some (t - y) \<rparr>"
  note same = settled_ok(6-10) [OF s1 assms(2,3)]
  show ?thesis using assms(4,5) st unfolding s' backed_def by (auto simp: same)
qed

lemma claim_backed:
  assumes "claim_fees accepts self env a tk s = Inr s'" "fee_ok s" "fd_admin s \<noteq> None" "backed self s"
  shows "backed self s'"
proof -
  from assms(1) obtain tks s1 where s1: "harvest_rewards a tks s = Inr s1"
    and nz: "unwrap_or (fd_staker_pending s1 (a, tk)) 0 \<noteq> 0"
    and s': "(if unwrap_or (fd_staker_compound s1 a) False
        then restake a (unwrap_or (fd_staker_pending s1 (a, tk)) 0) tks
          (s1\<lparr> fd_staker_pending := (fd_staker_pending s1)((a, tk) \<mapsto> 0) \<rparr>)
        else pay accepts tk self a (unwrap_or (fd_staker_pending s1 (a, tk)) 0)
          (s1\<lparr> fd_staker_pending := (fd_staker_pending s1)((a, tk) \<mapsto> 0) \<rparr>)) = Inr s'"
    by (auto simp: claim_fees_def Let_def simp del: pay_eq_Inr)
  note same = settled_ok(2,6-10) [OF s1 assms(2,3)]
  from nz obtain x where "fd_staker_pending s1 (a, tk) = Some x" by (metis unwrap_or_simps(1) option.exhaust)
  with same(1) obtain p where p: "fd_pools s tk = Some p"
    unfolding fee_ok_def reward_inv_def same(2) by (metis option.exhaust)
  have "s' = s1\<lparr> fd_staker_pending := (fd_staker_pending s1)((a, tk) \<mapsto> 0),
      fd_transfers := fd_transfers s1 @ [\<lparr> tt_token = tk, tt_from = self, tt_to = a,
        tt_amount = unwrap_or (fd_staker_pending s1 (a, tk)) 0 \<rparr>] \<rparr>"
    using s' not_compounding [OF assms(4), of a] by (simp add: same)
  then show ?thesis using assms(4) p by (intro backed_eq [OF assms(4)]) (auto simp: same)
qed

lemma compound_backed:
  assumes "compound_rewards a tk s = Inr s'" "backed self s"
  shows "backed self s'"
  using not_compounding [OF assms(2), of a] assms(1) by (simp add: compound_rewards_def)

lemma collect_backed:
  assumes "fee_collect accepts self env c tk y s = Inr s'" "fee_ok s" "fd_admin s \<noteq> None" "backed self s"
  shows "backed self s'"
proof (rule fee_collect_effect [OF assms(1)])
  fix p
  let ?s1 = "s\<lparr> fd_transfers := fd_transfers s @ [\<lparr> tt_token = tk, tt_from = c, tt_to = self, tt_amount = y \<rparr>],
          fd_pools := (fd_pools s)(tk \<mapsto> p\<lparr> fp_total_collected := fp_total_collected p + y,
            fp_pending := fp_pending p + y \<rparr>) \<rparr>"
  assume "0 < y" "fd_pools s tk = Some p" and s1: "maybe_auto_distribute accepts self env ?s1 = Inr s'"
  then have "fee_ok ?s1" using assms by (intro collected_ok) auto
  then have "fee_inv ?s1" by (simp add: fee_ok_def)
  from maybe_auto_distribute_inv [OF s1 this] assms(3) have "pools_grow self ?s1 s'" by simp
  moreover have "backed self ?s1" by (rule backed_eq [OF assms(4)]) (auto split: if_splits)
  ultimately show ?thesis by (rule grown_backed)
qed

lemma vesting_backed:
  assumes "claim_vested accepts self env i s = Inr s'" "fee_ok s" "backed self s"
  shows "backed self s'"
proof -
  have "fee_inv s" using assms(2) by (simp add: fee_ok_def)
  show ?thesis
  proof (rule claim_vested_effect [OF assms(1) \<open>fee_inv s\<close>])
    fix v x assume v: "fd_vesting s i = Some v"
      and s': "s' = s\<lparr> fd_vesting := (fd_vesting s)(i \<mapsto> v\<lparr> vs_claimed_amount := x \<rparr>),
      fd_transfers := fd_transfers s @ [\<lparr> tt_token = vs_token v, tt_from = self, tt_to = vs_beneficiary v,
        tt_amount = x - vs_claimed_amount v \<rparr>] \<rparr>"
    from v assms(2) have "fd_pools s (vs_token v) \<noteq> None" by (auto simp: fee_ok_def reward_inv_def)
    then show ?thesis unfolding s' by (intro backed_eq [OF assms(3)]) auto
  qed
qed

lemma others_backed:
  assumes "backed self s" "fd_admin s \<noteq> None"
  shows "update_ratios env r s = Inr s' \<Longrightarrow> backed self s'" "add_fee_token env tk s = Inr s' \<Longrightarrow> backed self s'"
    "add_collector env c s = Inr s' \<Longrightarrow> backed self s'" "remove_collector env c s = Inr s' \<Longrightarrow> backed self s'"
    "set_distribution_interval env i s = Inr s' \<Longrightarrow> backed self s'" "update_treasury env t s = Inr s' \<Longrightarrow> backed self s'"
    "set_emergency env b s = Inr s' \<Longrightarrow> backed self s'"
    "create_vesting_schedule env bn tk y du cl s = Inr s' \<Longrightarrow> backed self s'"
proof -
  show "update_ratios env r s = Inr s' \<Longrightarrow> backed self s'" "remove_collector env c s = Inr s' \<Longrightarrow> backed self s'"
    "set_distribution_interval env i s = Inr s' \<Longrightarrow> backed self s'" "update_treasury env t s = Inr s' \<Longrightarrow> backed self s'"
    "set_emergency env b s = Inr s' \<Longrightarrow> backed self s'"
    using assms(1) by (auto simp: update_ratios_def remove_collector_def set_distribution_interval_def
        update_treasury_def set_emergency_def backed_def)
  show "create_vesting_schedule env bn tk y du cl s = Inr s' \<Longrightarrow> backed self s'"
    using assms(1) by (auto simp: create_vesting_schedule_def backed_def split: if_split_asm)
  show "backed self s'" if "add_collector env c s = Inr s'"
  proof -
    from that obtain cs where "(if list_ex (\<lambda>d. d = c) cs then Inr s
        else Inr (s\<lparr> fd_collectors := Some (cs @ [c]) \<rparr>) :: fee_state fres) = Inr s'"
      unfolding add_collector_def and_then_eq_Inr by blast
    then show ?thesis by (cases "list_ex (\<lambda>d. d = c) cs") (use assms(1) in \<open>auto simp: backed_def\<close>)
  qed
  show "backed self s'" if add: "add_fee_token env tk s = Inr s'"
  proof (rule backed_eq [OF assms(1)])
    from add have "s' = s \<or> (\<exists>ts. s' = s\<lparr> fd_tokens := ts \<rparr>) \<or> (\<exists>ts p. s' = s\<lparr> fd_tokens := ts, fd_pools := (fd_pools s)(tk \<mapsto> p) \<rparr>)"
      unfolding add_fee_token_def and_then_eq_Inr Let_def by (auto split: if_split_asm)
    then show "fd_staker_compound s' = fd_staker_compound s" "fd_staking_token s' = fd_staking_token s"
      "\<And>st. fd_pools s' st = None \<Longrightarrow> fd_pools s st = None" "fd_total_staked s' = fd_total_staked s"
      "\<And>st. fd_pools s' st = None \<Longrightarrow> net_of self st (fd_transfers s') = net_of self st (fd_transfers s)"
      by (auto split: if_split_asm)
  qed
qed

lemma first_backed:
  assumes "fee_exec accepts self env c fee_start = Inr s'"
  shows "backed self s'"
  using assms
    by (cases c) (auto simp: fee_start_def fee_initialize_def update_ratios_def add_fee_token_def add_collector_def
      remove_collector_def set_distribution_interval_def update_treasury_def fee_collect_def distribute_fees_def
      stake_for_fees_def fee_unstake_def claim_fees_def compound_rewards_def create_vesting_schedule_def
      claim_vested_def set_emergency_def fee_emergency_withdraw_def Let_def backed_def)

lemma plain_step:
  assumes "plain_inv self s" "fee_call_plain self c" "fee_exec accepts self env c s = Inr s'"
  shows "plain_inv self s'"
proof -
  have ok: "fee_ok s" and ba: "backed self s" using assms(1) by (simp_all add: plain_inv_def)
  have "fee_call_ok c" using assms(2) by (auto simp: fee_call_plain_def fee_call_ok_def split: fee_call.splits)
  from fee_ok_step [OF ok this assms(3)] have ok': "fee_ok s'" .
  have "backed self s'"
  proof (cases "fd_admin s = None")
    case True
    then have "s = fee_start" using ok by (auto simp: fee_ok_def fee_inv_def)
    with first_backed assms(3) show ?thesis by blast
  next
    case False
    note other = others_backed [OF ba False]
    show ?thesis
    proof (cases c)
      case (FInitialize a t st r)
      with assms(3) setters_ok(1) [OF ok False] show ?thesis by simp
    next
      case (UpdateRatios r)
      from assms(3) show ?thesis unfolding UpdateRatios fee_exec.simps by (rule other(1))
    next
      case (AddFeeToken tk)
      from assms(3) show ?thesis unfolding AddFeeToken fee_exec.simps by (rule other(2))
    next
      case (AddCollector a)
      from assms(3) show ?thesis unfolding AddCollector fee_exec.simps by (rule other(3))
    next
      case (RemoveCollector a)
      from assms(3) show ?thesis unfolding RemoveCollector fee_exec.simps by (rule other(4))
    next
      case (SetDistributionInterval i)
      from assms(3) show ?thesis unfolding SetDistributionInterval fee_exec.simps by (rule other(5))
    next
      case (UpdateTreasury t)
      from assms(3) show ?thesis unfolding UpdateTreasury fee_exec.simps by (rule other(6))
    next
      case (CollectFees a tk y)
      from assms(3) show ?thesis unfolding CollectFees fee_exec.simps by (rule collect_backed [OF _ ok False ba])
    next
      case (DistributeFees ts)
      from assms(3) have "pools_grow self s s'" unfolding DistributeFees fee_exec.simps
        by (rule distribute_fees_ok(2) [OF _ ok False])
      from grown_backed [OF this ba] show ?thesis .
    next
      case (StakeForFees a y b)
      from assms(2) have "\<not> b" "a \<noteq> self" by (simp_all add: StakeForFees fee_call_plain_def)
      from assms(3) this(1) have "stake_for_fees accepts self env a y False s = Inr s'" by (simp add: StakeForFees)
      from stake_backed [OF this ok False ba \<open>a \<noteq> self\<close>] show ?thesis .
    next
      case (FUnstake a y)
      from assms(2) have "a \<noteq> self" by (simp add: FUnstake fee_call_plain_def)
      from assms(3) this show ?thesis unfolding FUnstake fee_exec.simps by (rule unstake_backed [OF _ ok False ba])
    next
      case (ClaimFees a tk)
      from assms(3) show ?thesis unfolding ClaimFees fee_exec.simps by (rule claim_backed [OF _ ok False ba])
    next
      case (CompoundRewards a tk)
      from assms(3) show ?thesis unfolding CompoundRewards fee_exec.simps by (rule compound_backed [OF _ ba])
    next
      case (CreateVestingSchedule b tk a d cl)
      from assms(3) show ?thesis unfolding CreateVestingSchedule fee_exec.simps by (rule other(8))
    next
      case (ClaimVested i)
      from assms(3) show ?thesis unfolding ClaimVested fee_exec.simps by (rule vesting_backed [OF _ ok ba])
    next
      case (SetEmergency b)
      from assms(3) show ?thesis unfolding SetEmergency fee_exec.simps by (rule other(7))
    next
      case (FEmergencyWithdraw tk r a)
      with assms(2) show ?thesis by (simp add: fee_call_plain_def)
    qed
  qed
  with ok' show ?thesis by (simp add: plain_inv_def)
qed

interpretation backed_stakes: contract_invariant "fee_exec accepts self" "\<lambda>s. s = fee_start" "fee_call_plain self" "plain_inv self"
proof
  show "s = fee_start \<Longrightarrow> plain_inv self s" for s
    using fee_inv_start by (simp add: plain_inv_def fee_ok_def reward_inv_def fee_start_def backed_def)
qed (rule plain_step)

section \<open>Properties\<close>

text \<open>C17: in every history the books of the fee contract balance: the total stake is the sum of the
  stakes, every pool has collected exactly what it distributed and still holds, what it
  distributed is the sum of its records, the records are numbered without gaps, and each splits
  its amount without remainder.\<close>

theorem fee_books_balance:
  assumes "list_all (fee_call_ok \<circ> snd) h"
  shows "let s = run (fee_exec accepts self) fee_start h in
    unwrap_or (fd_total_staked s) 0 = sum_entries (\<lambda>_ x. x) (fd_staker_amount s)
    \<and> (\<forall>tk p. fd_pools s tk = Some p \<longrightarrow>
         fp_total_collected p = fp_total_distributed p + fp_pending p \<and> 0 \<le> fp_pending p \<and> 0 \<le> fp_governance_pool p
         \<and> fp_total_distributed p = sum_entries (recorded_for tk) (fd_distribution s))
    \<and> dom (fd_distribution s) = {..< unwrap_or (fd_distribution_count s) 0}
    \<and> (\<forall>i r. fd_distribution s i = Some r \<longrightarrow> rec_distribution_id r = i
         \<and> rec_total_amount r = rec_stakers_amount r + rec_governance_amount r + rec_treasury_amount r
         \<and> 0 \<le> rec_stakers_amount r \<and> 0 \<le> rec_governance_amount r \<and> 0 \<le> rec_treasury_amount r)"
proof -
  let ?s = "run (fee_exec accepts self) fee_start h"
  have fi: "fee_inv ?s" using fees.run_inv [OF refl assms] by (simp add: fee_ok_def)
  have "distributed tk ?s = fp_total_distributed p" if "fd_pools ?s tk = Some p" for tk p
    using that by (simp add: distributed_def)
  with fi show ?thesis unfolding fee_inv_def Let_def by (auto simp: pool_inv_def record_inv_def)
qed

text \<open>A token that refuses to pay out more of the contract's funds than it has taken in, and a
  history: two stakers of the same amount, the first one compounding, and one round of fees.\<close>

definition demo_token :: token_contract where
  "demo_token log t \<longleftrightarrow> 0 \<le> tt_amount t
     \<and> (tt_from t = ''fees'' \<longrightarrow> tt_amount t \<le> net_of ''fees'' (tt_token t) log)"

definition demo_fee_env :: "nat \<Rightarrow> env" where
  "demo_fee_env t = \<lparr> timestamp = t, auths = [''admin'', ''alice'', ''bob''] \<rparr>"

definition demo_fees :: "bool \<Rightarrow> (env \<times> fee_call) list" where
  "demo_fees compound =
    [(demo_fee_env 0, FInitialize ''admin'' ''treasury'' ''STK''
        \<lparr> dr_stakers_bps = 5000, dr_governance_bps = 3000, dr_treasury_bps = 2000 \<rparr>),
     (demo_fee_env 0, AddFeeToken ''FEE''),
     (demo_fee_env 1, StakeForFees ''alice'' 1000 compound),
     (demo_fee_env 1, StakeForFees ''bob'' 1000 False),
     (demo_fee_env 2, CollectFees ''admin'' ''FEE'' 4000),
     (demo_fee_env 3, DistributeFees []),
     (demo_fee_env 4, CreateVestingSchedule ''bob'' ''FEE'' 1200 100 10)]"

lemma fee_books_balance_witness:
  "sum_entries (\<lambda>_ x. x) (fd_staker_amount (run (fee_exec demo_token ''fees'') fee_start (demo_fees True))) = 2000"
proof -
  have "list_all (fee_call_ok \<circ> snd) (demo_fees True)" by code_simp
  from fee_books_balance [OF this, of demo_token "''fees''"]
  have "sum_entries (\<lambda>_ x. x) (fd_staker_amount (run (fee_exec demo_token ''fees'') fee_start (demo_fees True)))
      = unwrap_or (fd_total_staked (run (fee_exec demo_token ''fees'') fee_start (demo_fees True))) 0"
    by (simp add: Let_def)
  also have "\<dots> = 2000" by code_simp
  finally show ?thesis .
qed

text \<open>C22: take a history from deployment in which every stake is made with the compounding flag off, no
  staker is the contract itself, emergency_withdraw is not called and the amounts of new vesting
  schedules are i128 values. If in the state it reaches the staking token is not also registered as
  a fee token, the contract holds exactly the sum of the stakes of the staking token: every stake can
  be returned.\<close>

theorem stakes_are_backed:
  assumes "list_all (fee_call_plain self \<circ> snd) h"
    and "fd_staking_token (run (fee_exec accepts self) fee_start h) = Some st"
    and "fd_pools (run (fee_exec accepts self) fee_start h) st = None"
  shows "net_of self st (fd_transfers (run (fee_exec accepts self) fee_start h))
    = sum_entries (\<lambda>_ x. x) (fd_staker_amount (run (fee_exec accepts self) fee_start h))"
proof -
  have "plain_inv self (run (fee_exec accepts self) fee_start h)"
    by (rule backed_stakes.run_inv [OF refl assms(1)])
  with assms(2,3) show ?thesis by (simp add: plain_inv_def backed_def fee_ok_def fee_inv_def)
qed

lemma stakes_are_backed_witness:
  "net_of ''fees'' ''STK'' (fd_transfers (run (fee_exec demo_token ''fees'') fee_start (demo_fees False)))
    = sum_entries (\<lambda>_ x. x) (fd_staker_amount (run (fee_exec demo_token ''fees'') fee_start (demo_fees False)))"
  by (rule stakes_are_backed; code_simp)

text \<open>C27: compounding breaks this, in every history: a successful compound_rewards or claim_fees of a
  compounding staker, for a reward of whatever token, moves no token at all but raises the stake of
  the staker by the whole reward owed. So for any token the sum of the stakes less what the contract
  holds of it, the part of the stakes that cannot be returned when it is the staking token, grows by
  exactly that reward; the stakes of the others are unchanged. (The history is one from deployment
  whose vesting amounts are i128 values.)\<close>

theorem compounding_unbacks_stakes:
  assumes "list_all (fee_call_ok \<circ> snd) h" "s = run (fee_exec accepts self) fee_start h"
    and "c = CompoundRewards a tk \<or> c = ClaimFees a tk \<and> unwrap_or (fd_staker_compound s a) False"
    and "fee_exec accepts self env c s = Inr s'"
  shows "0 \<le> owed a tk s \<and> fd_transfers s' = fd_transfers s
    \<and> (\<forall>b. get_staker_amount b s' = get_staker_amount b s + (if b = a then owed a tk s else 0))
    \<and> sum_entries (\<lambda>_ x. x) (fd_staker_amount s') - net_of self st (fd_transfers s')
      = sum_entries (\<lambda>_ x. x) (fd_staker_amount s) - net_of self st (fd_transfers s) + owed a tk s"
proof -
  have ok: "fee_ok s" using fees.run_inv [OF refl assms(1)] by (simp add: assms(2))
  have "fee_call_ok c" using assms(3) by (auto simp: fee_call_ok_def)
  from fee_ok_step [OF ok this assms(4)] have ok': "fee_ok s'" .
  obtain tks s1 where s1: "fd_tokens s = Some tks" "harvest_rewards a tks s = Inr s1"
    and s': "s' = s1 \<and> unwrap_or (fd_staker_pending s1 (a, tk)) 0 = 0
      \<or> restake a (unwrap_or (fd_staker_pending s1 (a, tk)) 0) tks
          (s1\<lparr> fd_staker_pending := (fd_staker_pending s1)((a, tk) \<mapsto> 0) \<rparr>) = Inr s'"
  proof (rule disjE [OF assms(3)])
    assume "c = CompoundRewards a tk"
    then show thesis using assms(4) that by (auto simp: compound_rewards_def Let_def split: if_splits)
  next
    assume c: "c = ClaimFees a tk \<and> unwrap_or (fd_staker_compound s a) False"
    then have "claim_fees accepts self env a tk s = Inr s'" using assms(4) by simp
    then obtain tks s1 where *: "fd_tokens s = Some tks" "harvest_rewards a tks s = Inr s1"
      "(if unwrap_or (fd_staker_compound s1 a) False
        then restake a (unwrap_or (fd_staker_pending s1 (a, tk)) 0) tks
          (s1\<lparr> fd_staker_pending := (fd_staker_pending s1)((a, tk) \<mapsto> 0) \<rparr>)
        else pay accepts tk self a (unwrap_or (fd_staker_pending s1 (a, tk)) 0)
          (s1\<lparr> fd_staker_pending := (fd_staker_pending s1)((a, tk) \<mapsto> 0) \<rparr>)) = Inr s'"
      by (auto simp: claim_fees_def Let_def simp del: pay_eq_Inr)
    have "fd_staker_compound s1 = fd_staker_compound s" using harvest_rewards_frame [OF *(2)] by auto
    with * c that show thesis by simp
  qed
  let ?p = "unwrap_or (fd_staker_pending s1 (a, tk)) 0"
  have admin: "fd_admin s \<noteq> None" using ok s1(1) by (auto simp: fee_ok_def fee_inv_def fee_start_def)
  note settled = settled_ok [OF s1(2) ok admin]
  have fi: "fee_inv s" and ri: "reward_inv s" using ok by (simp_all add: fee_ok_def)
  have nonneg: "0 \<le> ?p" using settled(2) by (intro pending_nonneg) (simp add: fee_ok_def)
  have "accrued_of a tk s1 = accrued_of a tk s" unfolding accrued_of_def settled(5,6) ..
  moreover have "unwrap_or (fd_staker_debt s1 (a, tk)) 0 = accrued_of a tk s"
  proof (cases "tk \<in> set tks")
    case True
    then show ?thesis using settled(1) by (simp add: settles_def)
  next
    case False
    then have "fd_pools s tk = None" using tokens_are_pools [OF fi s1(1), of tk] by blast
    then show ?thesis using settled(1) no_pool_no_debt [OF ri, of tk a] False by (simp add: settles_def accrued_of_def)
  qed
  moreover have "owed a tk s1 = owed a tk s" using settled(1) by (simp add: settles_def)
  ultimately have p: "?p = owed a tk s" by (simp add: owed_def)
  have "fd_transfers s' = fd_transfers s \<and> (\<forall>b. get_staker_amount b s' = get_staker_amount b s + (if b = a then ?p else 0))
      \<and> unwrap_or (fd_total_staked s') 0 = unwrap_or (fd_total_staked s) 0 + ?p"
    using s'
  proof
    assume "s' = s1 \<and> ?p = 0"
    then show ?thesis using settled(5,8,9) by (simp add: get_staker_amount_def)
  next
    assume "restake a ?p tks (s1\<lparr> fd_staker_pending := (fd_staker_pending s1)((a, tk) \<mapsto> 0) \<rparr>) = Inr s'"
    then show ?thesis
      by (rule restake_effect) (use settled(5,8,9) in \<open>auto simp: get_staker_amount_def\<close>)
  qed
  moreover have "unwrap_or (fd_total_staked s) 0 = sum_entries (\<lambda>_ x. x) (fd_staker_amount s)"
    "unwrap_or (fd_total_staked s') 0 = sum_entries (\<lambda>_ x. x) (fd_staker_amount s')"
    using fi ok' by (simp_all add: fee_ok_def fee_inv_def)
  ultimately show ?thesis using nonneg p by simp
qed

lemma compounding_unbacks_stakes_witness:
  "\<exists>s'. fee_exec demo_token ''fees'' (demo_fee_env 5) (CompoundRewards ''alice'' ''FEE'')
        (run (fee_exec demo_token ''fees'') fee_start (demo_fees True)) = Inr s'
     \<and> get_staker_amount ''alice'' s' = 2000 \<and> get_staker_amount ''bob'' s' = 1000
     \<and> sum_entries (\<lambda>_ x. x) (fd_staker_amount s') - net_of ''fees'' ''STK'' (fd_transfers s')
       = sum_entries (\<lambda>_ x. x) (fd_staker_amount (run (fee_exec demo_token ''fees'') fee_start (demo_fees True)))
         - net_of ''fees'' ''STK'' (fd_transfers (run (fee_exec demo_token ''fees'') fee_start (demo_fees True))) + 1000"
proof -
  let ?s = "run (fee_exec demo_token ''fees'') fee_start (demo_fees True)" and ?c = "CompoundRewards ''alice'' ''FEE''"
  have "is_ok (fee_exec demo_token ''fees'' (demo_fee_env 5) ?c ?s)" by code_simp
  then obtain s' where s': "fee_exec demo_token ''fees'' (demo_fee_env 5) ?c ?s = Inr s'" by (auto simp: is_ok_iff)
  have ok: "list_all (fee_call_ok \<circ> snd) (demo_fees True)" by code_simp
  have v: "owed ''alice'' ''FEE'' ?s = 1000" "get_staker_amount ''alice'' ?s = 1000" "get_staker_amount ''bob'' ?s = 1000"
    by code_simp+
  have "?c = CompoundRewards ''alice'' ''FEE'' \<or> ?c = ClaimFees ''alice'' ''FEE'' \<and> unwrap_or (fd_staker_compound ?s ''alice'') False"
    by simp
  from compounding_unbacks_stakes [OF ok refl this s', of "''STK''"] s' v show ?thesis by auto
qed

text \<open>One such history to its end: after alice has compounded and withdrawn, she has taken out more of the
  staking token than she put in, and bob, whose recorded stake is intact, cannot get his stake back
  from a token contract that pays no more than there is.\<close>

lemma compounding_takes_others_stake:
  "let s = run (fee_exec demo_token ''fees'') fee_start (demo_fees True @
       [(demo_fee_env 5, CompoundRewards ''alice'' ''FEE''), (demo_fee_env 6, FUnstake ''alice'' 2000)])
   in get_staker_amount ''bob'' s = 1000 \<and> net_of ''fees'' ''STK'' (fd_transfers s) = 0
      \<and> net_of ''alice'' ''STK'' (fd_transfers s) = 1000
      \<and> is_ok (fee_unstake demo_token ''fees'' (demo_fee_env 7) ''bob'' 1000 s) = False"
  by code_simp

text \<open>Also: a vesting claim of a reachable state succeeds exactly for an existing schedule whose
  beneficiary has signed, after the cliff, when the linear schedule has vested more than was
  claimed, the token contract pays, and, before the end, total times elapsed fits in 128 bits; it
  pays the difference and records the vested amount as claimed.\<close>

theorem claim_vested_iff:
  assumes "list_all (fee_call_ok \<circ> snd) h"
  shows "claim_vested accepts self env i (run (fee_exec accepts self) fee_start h) = Inr s' \<longleftrightarrow>
    (\<exists>v. let s = run (fee_exec accepts self) fee_start h; e = timestamp env - vs_start_time v;
          t = \<lparr> tt_token = vs_token v, tt_from = self, tt_to = vs_beneficiary v, tt_amount = vested v e - vs_claimed_amount v \<rparr>
       in fd_vesting s i = Some v \<and> vs_beneficiary v \<in> set (auths env) \<and> vs_cliff v \<le> e
          \<and> vs_claimed_amount v < vested v e \<and> (vs_duration v \<le> e \<or> nat (vs_total_amount v) * e \<le> u128_max)
          \<and> accepts (fd_transfers s) t
          \<and> s' = s\<lparr> fd_vesting := (fd_vesting s)(i \<mapsto> v\<lparr> vs_claimed_amount := vested v e \<rparr>),
                    fd_transfers := fd_transfers s @ [t] \<rparr>)"
proof -
  let ?s = "run (fee_exec accepts self) fee_start h"
  have fi: "fee_inv ?s" using fees.run_inv [OF refl assms] by (simp add: fee_ok_def)
  show ?thesis
  proof (cases "fd_vesting ?s i")
    case None
    then show ?thesis by (simp add: claim_vested_def Let_def)
  next
    case (Some v)
    let ?e = "timestamp env - vs_start_time v"
    from Some fi have vi: "vesting_inv v" by (simp add: fee_inv_def)
    then have b: "in_i128 (vested v ?e)" "0 \<le> vs_claimed_amount v"
      using vested_bounds(1,2) [OF vi, of ?e] in_i128_between by (auto simp: vesting_inv_def)
    then have "in_i128 (vested v ?e - vs_claimed_amount v)" if "vs_claimed_amount v < vested v ?e"
      using that by (intro in_i128_diff) auto
    with Some b vested_amount_exact [OF vi, of ?e] show ?thesis
      by (auto simp: claim_vested_def Let_def split: if_splits)
  qed
qed

lemma claim_vested_iff_witness:
  "is_ok (claim_vested demo_token ''fees'' (demo_fee_env 54) 0 (run (fee_exec demo_token ''fees'') fee_start (demo_fees False)))
   \<and> (\<forall>s'. claim_vested demo_token ''fees'' (demo_fee_env 54) 0 (run (fee_exec demo_token ''fees'') fee_start (demo_fees False)) = Inr s'
       \<longrightarrow> map_option vs_claimed_amount (fd_vesting s' 0) = Some 600)"
proof -
  let ?s = "run (fee_exec demo_token ''fees'') fee_start (demo_fees False)"
  have ok: "list_all (fee_call_ok \<circ> snd) (demo_fees False)" by code_simp
  have v: "map_option (\<lambda>v. (vs_start_time v, vested v 50)) (fd_vesting ?s 0) = Some (4, 600)" by code_simp
  have "is_ok (claim_vested demo_token ''fees'' (demo_fee_env 54) 0 ?s)" by code_simp
  moreover have "map_option vs_claimed_amount (fd_vesting s' 0) = Some 600"
    if "claim_vested demo_token ''fees'' (demo_fee_env 54) 0 ?s = Inr s'" for s'
    using claim_vested_iff [OF ok, THEN iffD1, OF that] v by (auto simp: Let_def demo_fee_env_def)
  ultimately show ?thesis by blast
qed

lemma get_pending_owed:
  assumes "fee_ok s" "unwrap_or (fd_staker_amount s a) 0 \<noteq> 0" "fd_pools s tk = Some p"
    "in_i128 (unwrap_or (fd_staker_amount s a) 0 * fp_acc_fee_per_share p)"
  shows "get_pending_rewards a tk s = (if in_i128 (owed a tk s) then Inr (owed a tk s) else Inl (Panic ''overflow''))"
proof -
  have fi: "fee_inv s" and ri: "reward_inv s" using assms(1) by (simp_all add: fee_ok_def)
  note acc = accrued_sdiv [OF fi assms(3), of a] and debt = debt_bounds [OF fi ri, of a tk]
  have nonneg: "0 \<le> unwrap_or (fd_staker_amount s a) 0 * fp_acc_fee_per_share p"
    using stake_nonneg [OF fi, of a] fi assms(3) by (intro mult_nonneg_nonneg) (auto simp: fee_inv_def pool_inv_def)
  have "in_i128 (accrued_of a tk s)" using sdiv_in_i128 [OF assms(4) nonneg fee_precision_pos] acc by simp
  then have "sat_i128 (accrued_of a tk s - unwrap_or (fd_staker_debt s (a, tk)) 0)
        = accrued_of a tk s - unwrap_or (fd_staker_debt s (a, tk)) 0"
    using debt by (simp add: in_i128_diff)
  with assms acc show ?thesis
    by (simp add: get_pending_rewards_def Let_def owed_def expect_i128_def checked_i128_def)
qed

text \<open>Rewriting the debts to a new stake right after settling leaves what is owed as it was.\<close>

lemma restaked_owed:
  assumes "settles a (set tks) s s1" "fee_inv s" "fd_tokens s = Some tks" "fd_pools s tk = Some p" "0 \<le> x"
    and "fd_staker_amount s' = (fd_staker_amount s1)(a \<mapsto> x)"
    and "fd_staker_debt s' = synced_debts a x tks u" "fd_pools u = fd_pools s1"
    and "fd_pools s' = fd_pools s1" "fd_staker_pending s' = fd_staker_pending s1"
  shows "owed a tk s' = owed a tk s"
proof -
  from assms(1) have st: "fd_pools s1 = fd_pools s" "owed a tk s1 = owed a tk s"
    and debt: "unwrap_or (fd_staker_debt s1 (a, tk)) 0 = (if tk \<in> set tks then accrued_of a tk s else unwrap_or (fd_staker_debt s (a, tk)) 0)"
    and acc: "accrued_of a tk s1 = accrued_of a tk s"
    unfolding settles_def by auto
  have tk: "tk \<in> set tks" using tokens_are_pools [OF assms(2,3), of tk] assms(4) by simp
  have "0 \<le> x * fp_acc_fee_per_share p" using assms(2,4,5)
    by (intro mult_nonneg_nonneg) (auto simp: fee_inv_def pool_inv_def)
  then have "unwrap_or (fd_staker_debt s' (a, tk)) 0 = accrued_of a tk s'"
    using assms st tk fee_precision_pos by (simp add: synced_debts_def accrued_of_def sdiv_nonneg)
  then have "owed a tk s' = owed a tk s1" using debt tk assms(10) by (simp add: owed_def acc)
  with st show ?thesis by simp
qed

text \<open>Also: changing a stake neither creates nor destroys rewards: if a staker's reward for a token can be
  read before, the same reward is read after any successful stake or partial unstake.\<close>

theorem restaking_keeps_rewards:
  assumes "list_all (fee_call_ok \<circ> snd) h" "s = run (fee_exec accepts self) fee_start h"
    and "c = StakeForFees a y b \<or> c = FUnstake a y" "fee_exec accepts self env c s = Inr s'"
    and "get_staker_amount a s \<noteq> 0" "get_staker_amount a s' \<noteq> 0" "get_pending_rewards a tk s = Inr r"
  shows "get_pending_rewards a tk s' = Inr r"
proof -
  have ok: "fee_ok s" using fees.run_inv [OF refl assms(1)] by (simp add: assms(2))
  then have fi: "fee_inv s" by (simp add: fee_ok_def)
  have "fee_call_ok c" using assms(3) by (auto simp: fee_call_ok_def)
  from fee_ok_step [OF ok this assms(4)] have ok': "fee_ok s'" .
  have admin: "fd_admin s \<noteq> None"
    using assms(5) fi by (auto simp: fee_inv_def fee_start_def get_staker_amount_def)
  obtain tks s1 x u where
    s1: "fd_tokens s = Some tks" "harvest_rewards a tks s = Inr s1" and
    s': "fd_staker_amount s' = (fd_staker_amount s1)(a \<mapsto> x)" "fd_staker_debt s' = synced_debts a x tks u"
      "fd_pools u = fd_pools s1" "fd_pools s' = fd_pools s1" "fd_staker_pending s' = fd_staker_pending s1" and
    fits: "\<forall>tk p. tk \<in> set tks \<longrightarrow> fd_pools s1 tk = Some p \<longrightarrow> in_i128 (x * fp_acc_fee_per_share p)"
    using assms(3)
  proof
    assume "c = StakeForFees a y b"
    with assms(4) have "stake_for_fees accepts self env a y b s = Inr s'" by simp
    then show thesis by (rule stake_effect) (rule that, assumption, assumption, simp, simp, simp, simp, simp, simp)
  next
    assume "c = FUnstake a y"
    with assms(4) have "fee_unstake accepts self env a y s = Inr s'" by simp
    then show thesis using admin by (rule unstake_effect) (rule that, assumption, assumption, simp, simp, simp, simp, simp, simp)
  qed
  note same = settled_ok [OF s1(2) ok admin]
  have x: "unwrap_or (fd_staker_amount s' a) 0 = x" by (simp add: s')
  have "0 \<le> x" using stake_nonneg [of s' a] ok' x by (simp add: fee_ok_def)
  show ?thesis
  proof (cases "fd_pools s tk")
    case None
    with assms(5,7) have "r = 0" by (simp add: get_pending_rewards_def get_staker_amount_def Let_def)
    with None show ?thesis by (simp add: get_pending_rewards_def s'(4) same(6) Let_def)
  next
    case (Some p)
    have tk: "tk \<in> set tks" using tokens_are_pools [OF fi s1(1), of tk] Some by simp
    from assms(5,7) Some have fits_s: "in_i128 (unwrap_or (fd_staker_amount s a) 0 * fp_acc_fee_per_share p)"
      by (auto simp: get_pending_rewards_def Let_def get_staker_amount_def)
    from get_pending_owed [OF ok _ Some fits_s] assms(5,7) have r: "in_i128 (owed a tk s)" "r = owed a tk s"
      by (auto simp: get_staker_amount_def split: if_splits)
    have pool': "fd_pools s' tk = Some p" by (simp add: s' same(6) Some)
    have "owed a tk s' = owed a tk s"
      by (rule restaked_owed [OF same(1) fi s1(1) Some \<open>0 \<le> x\<close> s'])
    moreover have "in_i128 (unwrap_or (fd_staker_amount s' a) 0 * fp_acc_fee_per_share p)"
      unfolding x using fits tk Some same(6) by simp
    ultimately show ?thesis
      using get_pending_owed [OF ok' _ pool'] assms(6) r by (simp add: get_staker_amount_def)
  qed
qed

lemma restaking_keeps_rewards_witness:
  "\<exists>s'. fee_exec demo_token ''fees'' (demo_fee_env 9) (FUnstake ''bob'' 300)
       (run (fee_exec demo_token ''fees'') fee_start (demo_fees False)) = Inr s'
     \<and> get_pending_rewards ''bob'' ''FEE'' s' = Inr 1000"
proof -
  let ?s = "run (fee_exec demo_token ''fees'') fee_start (demo_fees False)"
  have "map_sum (\<lambda>_. ()) (get_staker_amount ''bob'') (fee_exec demo_token ''fees'' (demo_fee_env 9) (FUnstake ''bob'' 300) ?s) = Inr 700"
    by code_simp
  then obtain s' where s': "fee_exec demo_token ''fees'' (demo_fee_env 9) (FUnstake ''bob'' 300) ?s = Inr s'"
    "get_staker_amount ''bob'' s' = 700"
    by (cases "fee_exec demo_token ''fees'' (demo_fee_env 9) (FUnstake ''bob'' 300) ?s") (auto simp del: fee_exec.simps)
  have "get_pending_rewards ''bob'' ''FEE'' s' = Inr 1000"
    by (rule restaking_keeps_rewards [where h = "demo_fees False" and c = "FUnstake ''bob'' 300" and b = False and y = 300,
          OF _ refl _ s'(1)]; (simp add: s'(2); fail | code_simp))
  with s' show ?thesis by blast
qed

text \<open>Also: in emergency mode collecting, distributing, staking, claiming and creating vesting schedules
  fail with the contract's message whoever signs. Unstaking, claiming vested amounts and
  compounding for somebody else do not look at the flag.\<close>

theorem emergency_blocks:
  assumes "fd_emergency s = Some True" "fd_admin s = Some adm" "adm \<in> set (auths env)" "a \<in> set (auths env)"
    and "c = CollectFees a tk y \<or> c = DistributeFees ts \<or> c = StakeForFees a y b \<or> c = ClaimFees a tk
      \<or> c = CreateVestingSchedule bn tk y du cl"
  shows "fee_exec accepts self env c s = Inl (Panic ''contract is in emergency mode'')"
  using assms by (auto simp: fee_collect_def distribute_fees_def stake_for_fees_def claim_fees_def
      create_vesting_schedule_def require_not_emergency_def fee_require_admin_def)

lemma emergency_blocks_witness:
  "fee_exec demo_token ''fees'' (demo_fee_env 9) (ClaimFees ''bob'' ''FEE'')
     (run (fee_exec demo_token ''fees'') fee_start (demo_fees True @ [(demo_fee_env 8, SetEmergency True)]))
     = Inl (Panic ''contract is in emergency mode'')
   \<and> is_ok (fee_exec demo_token ''fees'' (demo_fee_env 9) (CompoundRewards ''alice'' ''FEE'')
     (run (fee_exec demo_token ''fees'') fee_start (demo_fees True @ [(demo_fee_env 8, SetEmergency True)])))"
proof
  show "is_ok (fee_exec demo_token ''fees'' (demo_fee_env 9) (CompoundRewards ''alice'' ''FEE'')
     (run (fee_exec demo_token ''fees'') fee_start (demo_fees True @ [(demo_fee_env 8, SetEmergency True)])))" by code_simp
qed (rule emergency_blocks [where adm = "''admin''" and a = "''bob''" and tk = "''FEE''"]; (code_simp | simp))

end
