(* ===== verification/Rate_Limiter.thy ===== *)
theory Rate_Limiter
  imports Soroban
begin

text \<open>
  \<open>soroban/src/rate_limiter.rs\<close>: transfer limits per user and for the whole protocol in daily,
  weekly and monthly windows, adjusted by whitelist, risk score and tenure, with cooldowns after
  a breach, a circuit breaker and an emergency mode. One record field per constructor of
  \<open>DataKey\<close>, and the log of published events.
\<close>

section \<open>Data\<close>

definition rl_day_secs :: nat where "rl_day_secs = 86400"
definition rl_week_secs :: nat where "rl_week_secs = 604800"
definition rl_month_secs :: nat where "rl_month_secs = 2592000"
definition rl_bps_denom :: nat where "rl_bps_denom = 10000"
definition default_cooldown_secs :: nat where "default_cooldown_secs = 3600"
definition default_daily_limit :: int where "default_daily_limit = 1000000000"
definition default_weekly_limit :: int where "default_weekly_limit = 5000000000"
definition default_monthly_limit :: int where "default_monthly_limit = 15000000000"
definition default_daily_count :: nat where "default_daily_count = 100"
definition default_weekly_count :: nat where "default_weekly_count = 500"
definition default_monthly_count :: nat where "default_monthly_count = 1500"
definition whitelist_multiplier :: nat where "whitelist_multiplier = 2"
definition circuit_breaker_threshold :: nat where "circuit_breaker_threshold = 8000"
definition max_usage_history :: nat where "max_usage_history = 90"
definition high_risk_threshold :: nat where "high_risk_threshold = 7000"
definition low_risk_threshold :: nat where "low_risk_threshold = 2000"
definition graduated_tenure_secs :: nat where "graduated_tenure_secs = 30 * rl_day_secs"
definition graduated_bonus_bps :: nat where "graduated_bonus_bps = 500"
definition max_graduated_bonus_bps :: nat where "max_graduated_bonus_bps = 5000"

datatype rate_limit_error =
    RlNotAuthorized | RlAlreadyInitialized | DailyValueLimitExceeded | WeeklyValueLimitExceeded
  | MonthlyValueLimitExceeded | DailyCountLimitExceeded | WeeklyCountLimitExceeded
  | MonthlyCountLimitExceeded | GlobalDailyLimitExceeded | GlobalWeeklyLimitExceeded
  | CooldownActive | RlCircuitBreakerTripped | InvalidLimit | InvalidRiskScore | UserNotFound
  | EmergencyModeActive

record user_limits =
  ul_daily_value :: int
  ul_weekly_value :: int
  ul_monthly_value :: int
  ul_daily_count :: nat
  ul_weekly_count :: nat
  ul_monthly_count :: nat

record usage_window =
  uw_value_used :: int
  uw_count_used :: nat
  uw_window_start :: nat

record user_usage =
  uu_daily :: usage_window
  uu_weekly :: usage_window
  uu_monthly :: usage_window
  uu_cooldown_until :: nat
  uu_lifetime_value :: int
  uu_lifetime_count :: nat
  uu_first_activity :: nat

record global_limits =
  gl_daily_value :: int
  gl_weekly_value :: int

record global_usage =
  gu_daily :: usage_window
  gu_weekly :: usage_window

record user_risk_profile =
  ur_risk_score :: nat
  ur_breach_count :: nat
  ur_last_updated :: nat
  ur_adjustment_factor_bps :: nat

record circuit_breaker_state =
  cbs_tripped :: bool
  cbs_anomaly_score :: nat
  cbs_tripped_at :: nat
  cbs_trip_count :: nat

record usage_record =
  us_day_timestamp :: nat
  us_daily_value :: int
  us_daily_count :: nat

record limit_check_result =
  lc_allowed :: bool
  lc_daily_remaining_value :: int
  lc_daily_remaining_count :: nat
  lc_weekly_remaining_value :: int
  lc_monthly_remaining_value :: int
  lc_effective_daily_limit :: int
  lc_is_whitelisted :: bool

text \<open>\<open>Rejected\<close> carries the discriminant of the error; the model keeps the error itself.\<close>

datatype consume_result = Allowed | Rejected rate_limit_error

datatype limiter_event =
    RlUsed address int
  | RlWhitelist address bool
  | RlRisk address nat
  | RlBreaker nat
  | RlEmergency bool
  | RlReduced nat
  | RlBreach address nat

record limiter_state =
  rl_admin :: "address option"
  rl_user_limits :: "address \<Rightarrow> user_limits option"
  rl_user_usage :: "address \<Rightarrow> user_usage option"
  rl_user_risk :: "address \<Rightarrow> user_risk_profile option"
  rl_user_history :: "address \<Rightarrow> usage_record list option"
  rl_global_limits :: "global_limits option"
  rl_global_usage :: "global_usage option"
  rl_whitelist :: "address \<Rightarrow> bool option"
  rl_circuit_breaker :: "circuit_breaker_state option"
  rl_emergency_mode :: "bool option"
  rl_cooldown_duration :: "nat option"
  rl_default_limits :: "user_limits option"
  rl_events :: "limiter_event list"

type_synonym 'a rres = "(rate_limit_error, 'a) res"

definition limiter_start :: limiter_state where
  "limiter_start = \<lparr> rl_admin = None, rl_user_limits = (\<lambda>_. None), rl_user_usage = (\<lambda>_. None),
     rl_user_risk = (\<lambda>_. None), rl_user_history = (\<lambda>_. None), rl_global_limits = None,
     rl_global_usage = None, rl_whitelist = (\<lambda>_. None), rl_circuit_breaker = None,
     rl_emergency_mode = None, rl_cooldown_duration = None, rl_default_limits = None, rl_events = [] \<rparr>"

section \<open>Helpers\<close>

definition rl_publish :: "limiter_event \<Rightarrow> limiter_state \<Rightarrow> limiter_state" where
  "rl_publish e s = s\<lparr> rl_events := rl_events s @ [e] \<rparr>"

definition rl_require_admin :: "env \<Rightarrow> address \<Rightarrow> limiter_state \<Rightarrow> unit rres" where
  "rl_require_admin env caller s =
     and_then (require_auth env caller) (\<lambda>_.
     and_then (ok_or (rl_admin s) (Err RlNotAuthorized)) (\<lambda>admin.
     ensure (caller = admin) (Err RlNotAuthorized)))"

definition is_emergency_mode :: "limiter_state \<Rightarrow> bool" where
  "is_emergency_mode s = unwrap_or (rl_emergency_mode s) False"

definition is_whitelisted_internal :: "address \<Rightarrow> limiter_state \<Rightarrow> bool" where
  "is_whitelisted_internal user s = unwrap_or (rl_whitelist s user) False"

definition empty_window :: "nat \<Rightarrow> usage_window" where
  "empty_window now = \<lparr> uw_value_used = 0, uw_count_used = 0, uw_window_start = now \<rparr>"

definition get_or_init_usage :: "address \<Rightarrow> nat \<Rightarrow> limiter_state \<Rightarrow> user_usage" where
  "get_or_init_usage user now s = unwrap_or (rl_user_usage s user)
     \<lparr> uu_daily = empty_window now, uu_weekly = empty_window now, uu_monthly = empty_window now,
       uu_cooldown_until = 0, uu_lifetime_value = 0, uu_lifetime_count = 0, uu_first_activity = now \<rparr>"

definition decayed_usage :: "usage_window \<Rightarrow> nat \<Rightarrow> nat \<Rightarrow> usage_window rres" where
  "decayed_usage w now window_secs =
     and_then (add_u64 (uw_window_start w) window_secs) (\<lambda>e.
     Inr (if e \<le> now then empty_window now else w))"

definition decay_user :: "user_usage \<Rightarrow> nat \<Rightarrow> user_usage rres" where
  "decay_user u now =
     and_then (decayed_usage (uu_daily u) now rl_day_secs) (\<lambda>d.
     and_then (decayed_usage (uu_weekly u) now rl_week_secs) (\<lambda>w.
     and_then (decayed_usage (uu_monthly u) now rl_month_secs) (\<lambda>m.
     Inr (u\<lparr> uu_daily := d, uu_weekly := w, uu_monthly := m \<rparr>))))"

definition decay_global :: "global_usage \<Rightarrow> nat \<Rightarrow> global_usage rres" where
  "decay_global g now =
     and_then (decayed_usage (gu_daily g) now rl_day_secs) (\<lambda>d.
     and_then (decayed_usage (gu_weekly g) now rl_week_secs) (\<lambda>w.
     Inr (g\<lparr> gu_daily := d, gu_weekly := w \<rparr>)))"

definition get_risk_profile :: "address \<Rightarrow> limiter_state \<Rightarrow> user_risk_profile" where
  "get_risk_profile user s = unwrap_or (rl_user_risk s user)
     \<lparr> ur_risk_score = 0, ur_breach_count = 0, ur_last_updated = 0, ur_adjustment_factor_bps = rl_bps_denom \<rparr>"

text \<open>The products are below \<open>2 ^ 32 * 7000\<close>, so the \<open>u64\<close> arithmetic cannot trap.\<close>

definition calculate_adjustment_factor :: "nat \<Rightarrow> nat" where
  "calculate_adjustment_factor risk_score =
     (if risk_score \<le> low_risk_threshold then 12000
      else if high_risk_threshold \<le> risk_score then 5000
      else let range = high_risk_threshold - low_risk_threshold;
               progress = risk_score - low_risk_threshold;
               decrease = progress * 7000 div range mod 2 ^ 32
           in 12000 - decrease)"

section \<open>Effective limits\<close>

definition map_values :: "(int \<Rightarrow> int rres) \<Rightarrow> user_limits \<Rightarrow> user_limits rres" where
  "map_values f l =
     and_then (f (ul_daily_value l)) (\<lambda>d.
     and_then (f (ul_weekly_value l)) (\<lambda>w.
     and_then (f (ul_monthly_value l)) (\<lambda>m.
     Inr (l\<lparr> ul_daily_value := d, ul_weekly_value := w, ul_monthly_value := m \<rparr>))))"

definition double_counts :: "user_limits \<Rightarrow> user_limits rres" where
  "double_counts l =
     and_then (mul_u32 (ul_daily_count l) whitelist_multiplier) (\<lambda>d.
     and_then (mul_u32 (ul_weekly_count l) whitelist_multiplier) (\<lambda>w.
     and_then (mul_u32 (ul_monthly_count l) whitelist_multiplier) (\<lambda>m.
     Inr (l\<lparr> ul_daily_count := d, ul_weekly_count := w, ul_monthly_count := m \<rparr>))))"

definition scale_bps :: "int \<Rightarrow> int \<Rightarrow> int rres" where
  "scale_bps factor x = and_then (mul_i128 x factor) (\<lambda>p. div_i128 p (int rl_bps_denom))"

definition at_least_one :: "user_limits \<Rightarrow> user_limits" where
  "at_least_one l = l\<lparr> ul_daily_value := (if ul_daily_value l < 1 then 1 else ul_daily_value l),
     ul_weekly_value := (if ul_weekly_value l < 1 then 1 else ul_weekly_value l),
     ul_monthly_value := (if ul_monthly_value l < 1 then 1 else ul_monthly_value l) \<rparr>"

definition tenure_bonus :: "nat \<Rightarrow> user_usage option \<Rightarrow> user_limits \<Rightarrow> user_limits rres" where
  "tenure_bonus now usage l =
     (case usage of
        None \<Rightarrow> Inr l
      | Some u \<Rightarrow>
          let tenure = now - uu_first_activity u
          in if graduated_tenure_secs \<le> tenure
             then and_then (mul_u64 (tenure div graduated_tenure_secs) graduated_bonus_bps) (\<lambda>b.
                  let bonus_bps = min b max_graduated_bonus_bps
                  in map_values (scale_bps (int rl_bps_denom + int bonus_bps)) l)
             else Inr l)"

definition compute_effective_limits :: "env \<Rightarrow> address \<Rightarrow> bool \<Rightarrow> limiter_state \<Rightarrow> user_limits rres" where
  "compute_effective_limits env user is_whitelisted s =
     and_then (case rl_user_limits s user of Some l \<Rightarrow> Inr l | None \<Rightarrow> unwrap (rl_default_limits s)) (\<lambda>base.
     and_then (if is_whitelisted
               then and_then (map_values (\<lambda>v. mul_i128 v (int whitelist_multiplier)) base) double_counts
               else Inr base) (\<lambda>l1.
     and_then (map_values (scale_bps (int (ur_adjustment_factor_bps (get_risk_profile user s)))) l1) (\<lambda>l2.
     and_then (tenure_bonus (timestamp env) (rl_user_usage s user) l2) (\<lambda>l3.
     Inr (at_least_one l3)))))"

section \<open>Consuming\<close>

definition handle_breach :: "address \<Rightarrow> user_usage \<Rightarrow> nat \<Rightarrow> limiter_state \<Rightarrow> limiter_state rres" where
  "handle_breach user usage now s =
     (let cooldown = unwrap_or (rl_cooldown_duration s) default_cooldown_secs
      in and_then (add_u64 now cooldown) (\<lambda>until.
         let s1 = s\<lparr> rl_user_usage := (rl_user_usage s)(user \<mapsto> usage\<lparr> uu_cooldown_until := until \<rparr>) \<rparr>;
             profile = get_risk_profile user s1
         in and_then (add_u32 (ur_breach_count profile) 1) (\<lambda>n.
            Inr (rl_publish (RlBreach user n)
              (s1\<lparr> rl_user_risk := (rl_user_risk s1)(user \<mapsto>
                     profile\<lparr> ur_breach_count := n, ur_last_updated := now \<rparr>) \<rparr>)))))"

definition new_usage_record :: "nat \<Rightarrow> int \<Rightarrow> usage_record" where
  "new_usage_record day amount =
     \<lparr> us_day_timestamp = day, us_daily_value = amount, us_daily_count = 1 \<rparr>"

text \<open>The vector is overwritten at its last index, or shifted by one and extended.\<close>

definition updated_history :: "nat \<Rightarrow> int \<Rightarrow> usage_record list \<Rightarrow> usage_record list rres" where
  "updated_history day amount hist =
     (if 0 < length hist
      then if us_day_timestamp (last hist) = day
           then and_then (add_i128 (us_daily_value (last hist)) amount) (\<lambda>v.
                and_then (add_u32 (us_daily_count (last hist)) 1) (\<lambda>n.
                Inr (hist[length hist - 1 :=
                  \<lparr> us_day_timestamp = day, us_daily_value = v, us_daily_count = n \<rparr>])))
           else Inr ((if max_usage_history \<le> length hist then tl hist else hist) @ [new_usage_record day amount])
      else Inr [new_usage_record day amount])"

definition record_history :: "address \<Rightarrow> nat \<Rightarrow> int \<Rightarrow> limiter_state \<Rightarrow> limiter_state rres" where
  "record_history user now amount s =
     and_then (updated_history (now div rl_day_secs * rl_day_secs) amount (unwrap_or (rl_user_history s user) []))
       (\<lambda>hist. Inr (s\<lparr> rl_user_history := (rl_user_history s)(user \<mapsto> hist) \<rparr>))"

text \<open>The six checks of a user, in the order of the code: the first that fails is the result.\<close>

fun first_failing :: "(rate_limit_error \<times> bool rres) list \<Rightarrow> rate_limit_error option rres" where
  "first_failing [] = Inr None"
| "first_failing ((e, exceeded) # rest) =
     and_then exceeded (\<lambda>b. if b then Inr (Some e) else first_failing rest)"

definition value_exceeded :: "usage_window \<Rightarrow> int \<Rightarrow> int \<Rightarrow> bool rres" where
  "value_exceeded w amount limit = and_then (add_i128 (uw_value_used w) amount) (\<lambda>v. Inr (limit < v))"

definition count_exceeded :: "usage_window \<Rightarrow> nat \<Rightarrow> bool rres" where
  "count_exceeded w limit = and_then (add_u32 (uw_count_used w) 1) (\<lambda>n. Inr (limit < n))"

definition user_breach :: "user_usage \<Rightarrow> user_limits \<Rightarrow> int \<Rightarrow> rate_limit_error option rres" where
  "user_breach u l amount = first_failing
     [(DailyValueLimitExceeded, value_exceeded (uu_daily u) amount (ul_daily_value l)),
      (WeeklyValueLimitExceeded, value_exceeded (uu_weekly u) amount (ul_weekly_value l)),
      (MonthlyValueLimitExceeded, value_exceeded (uu_monthly u) amount (ul_monthly_value l)),
      (DailyCountLimitExceeded, count_exceeded (uu_daily u) (ul_daily_count l)),
      (WeeklyCountLimitExceeded, count_exceeded (uu_weekly u) (ul_weekly_count l)),
      (MonthlyCountLimitExceeded, count_exceeded (uu_monthly u) (ul_monthly_count l))]"

definition global_breach :: "global_usage \<Rightarrow> global_limits \<Rightarrow> int \<Rightarrow> rate_limit_error option rres" where
  "global_breach g l amount = first_failing
     [(GlobalDailyLimitExceeded, value_exceeded (gu_daily g) amount (gl_daily_value l)),
      (GlobalWeeklyLimitExceeded, value_exceeded (gu_weekly g) amount (gl_weekly_value l))]"

definition consume_window :: "usage_window \<Rightarrow> int \<Rightarrow> usage_window rres" where
  "consume_window w amount =
     and_then (add_i128 (uw_value_used w) amount) (\<lambda>v.
     and_then (add_u32 (uw_count_used w) 1) (\<lambda>n.
     Inr (w\<lparr> uw_value_used := v, uw_count_used := n \<rparr>)))"

definition consume_user :: "user_usage \<Rightarrow> int \<Rightarrow> user_usage rres" where
  "consume_user u amount =
     and_then (consume_window (uu_daily u) amount) (\<lambda>d.
     and_then (consume_window (uu_weekly u) amount) (\<lambda>w.
     and_then (consume_window (uu_monthly u) amount) (\<lambda>m.
     and_then (add_i128 (uu_lifetime_value u) amount) (\<lambda>v.
     and_then (add_u32 (uu_lifetime_count u) 1) (\<lambda>n.
     Inr (u\<lparr> uu_daily := d, uu_weekly := w, uu_monthly := m, uu_lifetime_value := v, uu_lifetime_count := n \<rparr>))))))"

definition consume_global :: "global_usage \<Rightarrow> int \<Rightarrow> global_usage rres" where
  "consume_global g amount =
     and_then (consume_window (gu_daily g) amount) (\<lambda>d.
     and_then (consume_window (gu_weekly g) amount) (\<lambda>w.
     Inr (g\<lparr> gu_daily := d, gu_weekly := w \<rparr>)))"

definition consume_limit :: "env \<Rightarrow> address \<Rightarrow> int \<Rightarrow> limiter_state \<Rightarrow> (consume_result \<times> limiter_state) rres" where
  "consume_limit env user amount s =
     and_then (require_auth env user) (\<lambda>_.
     and_then (ensure (\<not> is_emergency_mode s) (Err EmergencyModeActive)) (\<lambda>_.
     and_then (unwrap (rl_circuit_breaker s)) (\<lambda>cb.
     and_then (ensure (\<not> cbs_tripped cb) (Err RlCircuitBreakerTripped)) (\<lambda>_.
     and_then (ensure (0 < amount) (Err InvalidLimit)) (\<lambda>_.
     let now = timestamp env
     in and_then (compute_effective_limits env user (is_whitelisted_internal user s) s) (\<lambda>limits.
     let usage0 = get_or_init_usage user now s
     in and_then (ensure (\<not> now < uu_cooldown_until usage0) (Err CooldownActive)) (\<lambda>_.
     and_then (decay_user usage0 now) (\<lambda>usage.
     and_then (user_breach usage limits amount) (\<lambda>breach.
     case breach of
       Some e \<Rightarrow> and_then (handle_breach user usage now s) (\<lambda>s'. Inr (Rejected e, s'))
     | None \<Rightarrow>
         and_then (unwrap (rl_global_usage s)) (\<lambda>g0.
         and_then (unwrap (rl_global_limits s)) (\<lambda>gl.
         and_then (decay_global g0 now) (\<lambda>g.
         and_then (global_breach g gl amount) (\<lambda>gbreach.
         case gbreach of
           Some e \<Rightarrow> Inr (Rejected e, s)
         | None \<Rightarrow>
             and_then (consume_user usage amount) (\<lambda>usage'.
             and_then (consume_global g amount) (\<lambda>g'.
             and_then (record_history user now amount
                 (s\<lparr> rl_user_usage := (rl_user_usage s)(user \<mapsto> usage'), rl_global_usage := Some g' \<rparr>)) (\<lambda>s1.
             Inr (Allowed, rl_publish (RlUsed user amount) s1)))))))))))))))))"

definition check_limit :: "env \<Rightarrow> address \<Rightarrow> int \<Rightarrow> limiter_state \<Rightarrow> limit_check_result rres" where
  "check_limit env user amount s =
     and_then (ensure (\<not> is_emergency_mode s) (Err EmergencyModeActive)) (\<lambda>_.
     and_then (unwrap (rl_circuit_breaker s)) (\<lambda>cb.
     and_then (ensure (\<not> cbs_tripped cb) (Err RlCircuitBreakerTripped)) (\<lambda>_.
     let now = timestamp env;
         is_wl = is_whitelisted_internal user s
     in and_then (compute_effective_limits env user is_wl s) (\<lambda>limits.
     let usage = get_or_init_usage user now s
     in and_then (ensure (\<not> now < uu_cooldown_until usage) (Err CooldownActive)) (\<lambda>_.
     and_then (decayed_usage (uu_daily usage) now rl_day_secs) (\<lambda>d.
     and_then (decayed_usage (uu_weekly usage) now rl_week_secs) (\<lambda>w.
     and_then (decayed_usage (uu_monthly usage) now rl_month_secs) (\<lambda>m.
     and_then (sub_i128 (ul_daily_value limits) (uw_value_used d)) (\<lambda>daily_value.
     and_then (sub_i128 (ul_weekly_value limits) (uw_value_used w)) (\<lambda>weekly_value.
     and_then (sub_i128 (ul_monthly_value limits) (uw_value_used m)) (\<lambda>monthly_value.
     let daily_count = ul_daily_count limits - uw_count_used d
     in Inr \<lparr> lc_allowed = (amount \<le> daily_value \<and> amount \<le> weekly_value \<and> amount \<le> monthly_value \<and> 0 < daily_count),
              lc_daily_remaining_value = daily_value, lc_daily_remaining_count = daily_count,
              lc_weekly_remaining_value = weekly_value, lc_monthly_remaining_value = monthly_value,
              lc_effective_daily_limit = ul_daily_value limits, lc_is_whitelisted = is_wl \<rparr>)))))))))))"

definition cross_contract_check :: "env \<Rightarrow> address \<Rightarrow> int \<Rightarrow> address \<Rightarrow> limiter_state \<Rightarrow> limit_check_result rres" where
  "cross_contract_check env user amount contract_id s = check_limit env user amount s"

section \<open>Administration\<close>

definition limiter_initialize :: "env \<Rightarrow> address \<Rightarrow> limiter_state \<Rightarrow> limiter_state rres" where
  "limiter_initialize env admin s =
     and_then (require_auth env admin) (\<lambda>_.
     and_then (ensure (rl_admin s = None) (Err RlAlreadyInitialized)) (\<lambda>_.
     Inr (s\<lparr> rl_admin := Some admin,
       rl_default_limits := Some \<lparr> ul_daily_value = default_daily_limit, ul_weekly_value = default_weekly_limit,
         ul_monthly_value = default_monthly_limit, ul_daily_count = default_daily_count,
         ul_weekly_count = default_weekly_count, ul_monthly_count = default_monthly_count \<rparr>,
       rl_global_limits := Some \<lparr> gl_daily_value = default_daily_limit * 10, gl_weekly_value = default_weekly_limit * 10 \<rparr>,
       rl_global_usage := Some \<lparr> gu_daily = empty_window (timestamp env), gu_weekly = empty_window (timestamp env) \<rparr>,
       rl_circuit_breaker := Some \<lparr> cbs_tripped = False, cbs_anomaly_score = 0, cbs_tripped_at = 0, cbs_trip_count = 0 \<rparr>,
       rl_cooldown_duration := Some default_cooldown_secs,
       rl_emergency_mode := Some False \<rparr>)))"

definition update_user_limit :: "env \<Rightarrow> address \<Rightarrow> address \<Rightarrow> user_limits \<Rightarrow> limiter_state \<Rightarrow> limiter_state rres" where
  "update_user_limit env admin user l s =
     and_then (rl_require_admin env admin s) (\<lambda>_.
     and_then (ensure (\<not> (ul_daily_value l \<le> 0 \<or> ul_weekly_value l \<le> 0 \<or> ul_monthly_value l \<le> 0)) (Err InvalidLimit)) (\<lambda>_.
     and_then (ensure (\<not> (ul_weekly_value l < ul_daily_value l \<or> ul_monthly_value l < ul_weekly_value l)) (Err InvalidLimit)) (\<lambda>_.
     Inr (s\<lparr> rl_user_limits := (rl_user_limits s)(user \<mapsto> l) \<rparr>))))"

definition update_global_limit :: "env \<Rightarrow> address \<Rightarrow> global_limits \<Rightarrow> limiter_state \<Rightarrow> limiter_state rres" where
  "update_global_limit env admin l s =
     and_then (rl_require_admin env admin s) (\<lambda>_.
     and_then (ensure (\<not> (gl_daily_value l \<le> 0 \<or> gl_weekly_value l \<le> 0)) (Err InvalidLimit)) (\<lambda>_.
     Inr (s\<lparr> rl_global_limits := Some l \<rparr>)))"

definition update_default_limits :: "env \<Rightarrow> address \<Rightarrow> user_limits \<Rightarrow> limiter_state \<Rightarrow> limiter_state rres" where
  "update_default_limits env admin l s =
     and_then (rl_require_admin env admin s) (\<lambda>_.
     and_then (ensure (\<not> (ul_daily_value l \<le> 0 \<or> ul_weekly_value l \<le> 0 \<or> ul_monthly_value l \<le> 0)) (Err InvalidLimit)) (\<lambda>_.
     Inr (s\<lparr> rl_default_limits := Some l \<rparr>)))"

definition add_to_whitelist :: "env \<Rightarrow> address \<Rightarrow> address \<Rightarrow> limiter_state \<Rightarrow> limiter_state rres" where
  "add_to_whitelist env admin user s =
     and_then (rl_require_admin env admin s) (\<lambda>_.
     Inr (rl_publish (RlWhitelist user True) (s\<lparr> rl_whitelist := (rl_whitelist s)(user \<mapsto> True) \<rparr>)))"

definition remove_from_whitelist :: "env \<Rightarrow> address \<Rightarrow> address \<Rightarrow> limiter_state \<Rightarrow> limiter_state rres" where
  "remove_from_whitelist env admin user s =
     and_then (rl_require_admin env admin s) (\<lambda>_.
     Inr (rl_publish (RlWhitelist user False) (s\<lparr> rl_whitelist := (rl_whitelist s)(user \<mapsto> False) \<rparr>)))"

definition update_risk_score :: "env \<Rightarrow> address \<Rightarrow> address \<Rightarrow> nat \<Rightarrow> limiter_state \<Rightarrow> limiter_state rres" where
  "update_risk_score env admin user risk_score s =
     and_then (rl_require_admin env admin s) (\<lambda>_.
     and_then (ensure (\<not> rl_bps_denom < risk_score) (Err InvalidRiskScore)) (\<lambda>_.
     Inr (rl_publish (RlRisk user risk_score) (s\<lparr> rl_user_risk := (rl_user_risk s)(user \<mapsto>
       \<lparr> ur_risk_score = risk_score, ur_breach_count = ur_breach_count (get_risk_profile user s),
         ur_last_updated = timestamp env,
         ur_adjustment_factor_bps = calculate_adjustment_factor risk_score \<rparr>) \<rparr>))))"

definition update_anomaly_score :: "env \<Rightarrow> address \<Rightarrow> nat \<Rightarrow> limiter_state \<Rightarrow> limiter_state rres" where
  "update_anomaly_score env admin score s =
     and_then (rl_require_admin env admin s) (\<lambda>_.
     and_then (ensure (\<not> rl_bps_denom < score) (Err InvalidRiskScore)) (\<lambda>_.
     and_then (unwrap (rl_circuit_breaker s)) (\<lambda>cb.
     if circuit_breaker_threshold \<le> score
     then and_then (add_u32 (cbs_trip_count cb) 1) (\<lambda>n.
          Inr ((rl_publish (RlBreaker score) s)\<lparr> rl_circuit_breaker := Some (cb\<lparr> cbs_anomaly_score := score,
            cbs_tripped := True, cbs_tripped_at := timestamp env, cbs_trip_count := n \<rparr>) \<rparr>))
     else Inr (s\<lparr> rl_circuit_breaker := Some (cb\<lparr> cbs_anomaly_score := score \<rparr>) \<rparr>))))"

definition reset_circuit_breaker :: "env \<Rightarrow> address \<Rightarrow> limiter_state \<Rightarrow> limiter_state rres" where
  "reset_circuit_breaker env admin s =
     and_then (rl_require_admin env admin s) (\<lambda>_.
     and_then (unwrap (rl_circuit_breaker s)) (\<lambda>cb.
     Inr (s\<lparr> rl_circuit_breaker := Some (cb\<lparr> cbs_tripped := False, cbs_anomaly_score := 0 \<rparr>) \<rparr>)))"

definition set_emergency_mode :: "env \<Rightarrow> address \<Rightarrow> bool \<Rightarrow> limiter_state \<Rightarrow> limiter_state rres" where
  "set_emergency_mode env admin enabled s =
     and_then (rl_require_admin env admin s) (\<lambda>_.
     Inr (rl_publish (RlEmergency enabled) (s\<lparr> rl_emergency_mode := Some enabled \<rparr>)))"

definition emergency_reduce_limits :: "env \<Rightarrow> address \<Rightarrow> nat \<Rightarrow> limiter_state \<Rightarrow> limiter_state rres" where
  "emergency_reduce_limits env admin reduction_bps s =
     and_then (rl_require_admin env admin s) (\<lambda>_.
     and_then (ensure (\<not> (reduction_bps = 0 \<or> rl_bps_denom < reduction_bps)) (Err InvalidLimit)) (\<lambda>_.
     and_then (unwrap (rl_default_limits s)) (\<lambda>l.
     and_then (map_values (scale_bps (int rl_bps_denom - int reduction_bps)) l) (\<lambda>l1.
     Inr (rl_publish (RlReduced reduction_bps) (s\<lparr> rl_default_limits := Some (at_least_one l1) \<rparr>))))))"

definition set_cooldown_duration :: "env \<Rightarrow> address \<Rightarrow> nat \<Rightarrow> limiter_state \<Rightarrow> limiter_state rres" where
  "set_cooldown_duration env admin duration_secs s =
     and_then (rl_require_admin env admin s) (\<lambda>_. Inr (s\<lparr> rl_cooldown_duration := Some duration_secs \<rparr>))"

definition clear_cooldown :: "env \<Rightarrow> address \<Rightarrow> address \<Rightarrow> limiter_state \<Rightarrow> limiter_state rres" where
  "clear_cooldown env admin user s =
     and_then (rl_require_admin env admin s) (\<lambda>_.
     Inr (s\<lparr> rl_user_usage := (rl_user_usage s)(user \<mapsto>
       (get_or_init_usage user (timestamp env) s)\<lparr> uu_cooldown_until := 0 \<rparr>) \<rparr>))"

section \<open>Queries\<close>

definition get_user_usage :: "env \<Rightarrow> address \<Rightarrow> limiter_state \<Rightarrow> user_usage rres" where
  "get_user_usage env user s = decay_user (get_or_init_usage user (timestamp env) s) (timestamp env)"

definition get_effective_limits :: "env \<Rightarrow> address \<Rightarrow> limiter_state \<Rightarrow> user_limits rres" where
  "get_effective_limits env user s = compute_effective_limits env user (is_whitelisted_internal user s) s"

definition get_usage_history :: "address \<Rightarrow> limiter_state \<Rightarrow> usage_record list" where
  "get_usage_history user s = unwrap_or (rl_user_history s user) []"

definition get_global_usage :: "env \<Rightarrow> limiter_state \<Rightarrow> global_usage rres" where
  "get_global_usage env s = and_then (unwrap (rl_global_usage s)) (\<lambda>g. decay_global g (timestamp env))"

section \<open>Invocations\<close>

datatype limiter_call =
    RlInitialize address
  | ConsumeLimit address int
  | UpdateUserLimit address address user_limits
  | UpdateGlobalLimit address global_limits
  | UpdateDefaultLimits address user_limits
  | AddToWhitelist address address
  | RemoveFromWhitelist address address
  | UpdateRiskScore address address nat
  | UpdateAnomalyScore address nat
  | ResetCircuitBreaker address
  | SetEmergencyMode address bool
  | EmergencyReduceLimits address nat
  | SetCooldownDuration address nat
  | ClearCooldown address address

fun limiter_exec :: "env \<Rightarrow> limiter_call \<Rightarrow> limiter_state \<Rightarrow> limiter_state rres" where
  "limiter_exec env (RlInitialize a) s = limiter_initialize env a s"
| "limiter_exec env (ConsumeLimit u x) s = state_of (consume_limit env u x s)"
| "limiter_exec env (UpdateUserLimit a u l) s = update_user_limit env a u l s"
| "limiter_exec env (UpdateGlobalLimit a l) s = update_global_limit env a l s"
| "limiter_exec env (UpdateDefaultLimits a l) s = update_default_limits env a l s"
| "limiter_exec env (AddToWhitelist a u) s = add_to_whitelist env a u s"
| "limiter_exec env (RemoveFromWhitelist a u) s = remove_from_whitelist env a u s"
| "limiter_exec env (UpdateRiskScore a u r) s = update_risk_score env a u r s"
| "limiter_exec env (UpdateAnomalyScore a r) s = update_anomaly_score env a r s"
| "limiter_exec env (ResetCircuitBreaker a) s = reset_circuit_breaker env a s"
| "limiter_exec env (SetEmergencyMode a b) s = set_emergency_mode env a b s"
| "limiter_exec env (EmergencyReduceLimits a r) s = emergency_reduce_limits env a r s"
| "limiter_exec env (SetCooldownDuration a d) s = set_cooldown_duration env a d s"
| "limiter_exec env (ClearCooldown a u) s = clear_cooldown env a u s"

section \<open>The log of allowed transfers\<close>

text \<open>The specification the windows are measured against: every allowed transfer of a history with
  its user and its time.\<close>

definition allowed_entry :: "env \<Rightarrow> limiter_call \<Rightarrow> limiter_state \<Rightarrow> (address \<times> nat \<times> int) list" where
  "allowed_entry env c s = (case c of
     ConsumeLimit u x \<Rightarrow> (case consume_limit env u x s of Inr (Allowed, s') \<Rightarrow> [(u, timestamp env, x)] | _ \<Rightarrow> [])
   | _ \<Rightarrow> [])"

fun allowed_log :: "limiter_state \<Rightarrow> (env \<times> limiter_call) list \<Rightarrow> (address \<times> nat \<times> int) list" where
  "allowed_log s [] = []"
| "allowed_log s ((env, c) # h) = allowed_entry env c s @ allowed_log (invoke limiter_exec env c s) h"

definition log_of :: "address \<Rightarrow> (address \<times> nat \<times> int) list \<Rightarrow> (nat \<times> int) list" where
  "log_of u log = map snd (filter (\<lambda>e. fst e = u) log)"

definition since :: "nat \<Rightarrow> (nat \<times> int) list \<Rightarrow> int list" where
  "since t log = map snd (filter (\<lambda>e. t \<le> fst e) log)"

text \<open>A window holds a log when it counts exactly the entries since its start, and no entry is older
  than the window is long. \<open>now\<close> bounds the start.\<close>

definition window_holds :: "nat \<Rightarrow> nat \<Rightarrow> usage_window \<Rightarrow> (nat \<times> int) list \<Rightarrow> bool" where
  "window_holds now secs w log \<longleftrightarrow> uw_window_start w \<le> now
     \<and> uw_value_used w = sum_list (since (uw_window_start w) log)
     \<and> uw_count_used w = length (since (uw_window_start w) log)
     \<and> (\<forall>e\<in>set log. fst e < uw_window_start w + secs)"

definition usage_holds :: "nat \<Rightarrow> user_usage \<Rightarrow> (nat \<times> int) list \<Rightarrow> bool" where
  "usage_holds now u log \<longleftrightarrow> window_holds now rl_day_secs (uu_daily u) log
     \<and> window_holds now rl_week_secs (uu_weekly u) log \<and> window_holds now rl_month_secs (uu_monthly u) log
     \<and> uu_lifetime_value u = sum_list (map snd log) \<and> uu_lifetime_count u = length log"

definition global_holds :: "nat \<Rightarrow> global_usage \<Rightarrow> (nat \<times> int) list \<Rightarrow> bool" where
  "global_holds now g log \<longleftrightarrow> window_holds now rl_day_secs (gu_daily g) log \<and> window_holds now rl_week_secs (gu_weekly g) log"

definition limiter_inv :: "nat \<Rightarrow> (address \<times> nat \<times> int) list \<Rightarrow> limiter_state \<Rightarrow> bool" where
  "limiter_inv now log s \<longleftrightarrow> (rl_admin s = None \<longrightarrow> s = limiter_start \<and> log = [])
     \<and> (\<forall>u. rl_user_usage s u = None \<longrightarrow> log_of u log = [])
     \<and> (\<forall>u us. rl_user_usage s u = Some us \<longrightarrow> usage_holds now us (log_of u log))
     \<and> (\<forall>g. rl_global_usage s = Some g \<longrightarrow> global_holds now g (map snd log))"

lemma log_of_simps [simp]:
  "log_of u [] = []" "log_of u (xs @ ys) = log_of u xs @ log_of u ys"
  "log_of u [(v, e)] = (if v = u then [e] else [])"
  by (auto simp: log_of_def)

lemma since_simps [simp]:
  "since t [] = []" "since t (xs @ ys) = since t xs @ since t ys"
  "since t [(n, x)] = (if t \<le> n then [x] else [])"
  by (auto simp: since_def)

lemma window_holds_empty: "window_holds now secs (empty_window now) []"
  by (simp add: window_holds_def empty_window_def)

lemma window_holds_later: "window_holds t secs w log \<Longrightarrow> t \<le> now \<Longrightarrow> window_holds now secs w log"
  by (simp add: window_holds_def)

lemma usage_holds_later: "usage_holds t u log \<Longrightarrow> t \<le> now \<Longrightarrow> usage_holds now u log"
  by (auto simp: usage_holds_def intro: window_holds_later)

lemma limiter_inv_later: "limiter_inv t log s \<Longrightarrow> t \<le> now \<Longrightarrow> limiter_inv now log s"
  by (auto simp: limiter_inv_def global_holds_def intro: usage_holds_later window_holds_later)

text \<open>A reset drops the entries exactly because all of them are older than the window.\<close>

lemma decayed_holds:
  assumes "window_holds now secs w log" "decayed_usage w now secs = Inr w'" "0 < secs"
  shows "window_holds now secs w' log" "now < uw_window_start w' + secs"
proof -
  have "window_holds now secs w' log \<and> now < uw_window_start w' + secs"
  proof (cases "uw_window_start w + secs \<le> now")
    case True
    then have w': "w' = empty_window now" using assms(2) by (auto simp: decayed_usage_def)
    have old: "\<forall>e\<in>set log. fst e < now" using assms(1) True by (auto simp: window_holds_def)
    then have "since now log = []" by (auto simp: since_def filter_empty_conv)
    with old assms(3) show ?thesis by (auto simp: w' window_holds_def empty_window_def)
  next
    case False
    with assms show ?thesis by (auto simp: decayed_usage_def)
  qed
  then show "window_holds now secs w' log" "now < uw_window_start w' + secs" by auto
qed

lemma consumed_holds:
  assumes "window_holds now secs w log" "now < uw_window_start w + secs" "consume_window w x = Inr w'"
  shows "window_holds now secs w' (log @ [(now, x)])"
  using assms by (auto simp: consume_window_def window_holds_def)

lemma secs_pos: "0 < rl_day_secs" "0 < rl_week_secs" "0 < rl_month_secs"
  by (simp_all add: rl_day_secs_def rl_week_secs_def rl_month_secs_def)

lemma decay_user_holds:
  assumes "usage_holds now u log" "decay_user u now = Inr u'"
  shows "usage_holds now u' log" "now < uw_window_start (uu_daily u') + rl_day_secs"
    "now < uw_window_start (uu_weekly u') + rl_week_secs" "now < uw_window_start (uu_monthly u') + rl_month_secs"
    "uu_cooldown_until u' = uu_cooldown_until u"
proof -
  from assms(2) obtain d w m where u': "u' = u\<lparr> uu_daily := d, uu_weekly := w, uu_monthly := m \<rparr>"
    "decayed_usage (uu_daily u) now rl_day_secs = Inr d" "decayed_usage (uu_weekly u) now rl_week_secs = Inr w"
    "decayed_usage (uu_monthly u) now rl_month_secs = Inr m"
    unfolding decay_user_def and_then_eq_Inr by auto
  from assms(1) have "window_holds now rl_day_secs (uu_daily u) log" "window_holds now rl_week_secs (uu_weekly u) log"
    "window_holds now rl_month_secs (uu_monthly u) log" by (simp_all add: usage_holds_def)
  from decayed_holds [OF this(1) u'(2) secs_pos(1)] decayed_holds [OF this(2) u'(3) secs_pos(2)]
    decayed_holds [OF this(3) u'(4) secs_pos(3)] assms(1)
  show "usage_holds now u' log" "now < uw_window_start (uu_daily u') + rl_day_secs"
    "now < uw_window_start (uu_weekly u') + rl_week_secs" "now < uw_window_start (uu_monthly u') + rl_month_secs"
    "uu_cooldown_until u' = uu_cooldown_until u"
    by (simp_all add: usage_holds_def u'(1))
qed

lemma consume_user_holds:
  assumes "usage_holds now u log" "now < uw_window_start (uu_daily u) + rl_day_secs"
    "now < uw_window_start (uu_weekly u) + rl_week_secs" "now < uw_window_start (uu_monthly u) + rl_month_secs"
    "consume_user u x = Inr u'"
  shows "usage_holds now u' (log @ [(now, x)])"
proof -
  from assms(5) obtain d w m where u': "u' = u\<lparr> uu_daily := d, uu_weekly := w, uu_monthly := m,
      uu_lifetime_value := uu_lifetime_value u + x, uu_lifetime_count := uu_lifetime_count u + 1 \<rparr>"
    and wins: "consume_window (uu_daily u) x = Inr d" "consume_window (uu_weekly u) x = Inr w" "consume_window (uu_monthly u) x = Inr m"
    unfolding consume_user_def and_then_eq_Inr by auto
  from assms(1) have "window_holds now rl_day_secs (uu_daily u) log" "window_holds now rl_week_secs (uu_weekly u) log"
    "window_holds now rl_month_secs (uu_monthly u) log" by (simp_all add: usage_holds_def)
  from consumed_holds [OF this(1) assms(2) wins(1)] consumed_holds [OF this(2) assms(3) wins(2)]
    consumed_holds [OF this(3) assms(4) wins(3)] assms(1)
  show ?thesis by (simp add: usage_holds_def u')
qed

lemma global_consumed_holds:
  assumes "global_holds now g0 log" "decay_global g0 now = Inr g" "consume_global g x = Inr g'"
  shows "global_holds now g' (log @ [(now, x)])"
proof -
  from assms(2) obtain d w where g: "g = g0\<lparr> gu_daily := d, gu_weekly := w \<rparr>"
    "decayed_usage (gu_daily g0) now rl_day_secs = Inr d" "decayed_usage (gu_weekly g0) now rl_week_secs = Inr w"
    unfolding decay_global_def and_then_eq_Inr by auto
  from assms(3) obtain d' w' where g': "g' = g\<lparr> gu_daily := d', gu_weekly := w' \<rparr>"
    "consume_window (gu_daily g) x = Inr d'" "consume_window (gu_weekly g) x = Inr w'"
    unfolding consume_global_def and_then_eq_Inr by auto
  from assms(1) have h: "window_holds now rl_day_secs (gu_daily g0) log" "window_holds now rl_week_secs (gu_weekly g0) log"
    by (simp_all add: global_holds_def)
  from consumed_holds [OF decayed_holds [OF h(1) g(2) secs_pos(1)], of x d']
    consumed_holds [OF decayed_holds [OF h(2) g(3) secs_pos(2)], of x w'] g g'
  show ?thesis by (simp add: global_holds_def)
qed

lemma get_or_init_holds:
  assumes "limiter_inv now log s"
  shows "usage_holds now (get_or_init_usage u now s) (log_of u log)"
proof (cases "rl_user_usage s u")
  case None
  with assms have "log_of u log = []" by (simp add: limiter_inv_def)
  with None show ?thesis by (simp add: get_or_init_usage_def usage_holds_def window_holds_empty)
next
  case (Some us)
  with assms show ?thesis by (simp add: get_or_init_usage_def limiter_inv_def)
qed

section \<open>What consuming does\<close>

lemma handle_breach_effect:
  assumes "handle_breach u us now s = Inr s'"
  obtains r ev where "s' = s\<lparr> rl_user_usage := (rl_user_usage s)(u \<mapsto>
      us\<lparr> uu_cooldown_until := now + unwrap_or (rl_cooldown_duration s) default_cooldown_secs \<rparr>),
    rl_user_risk := (rl_user_risk s)(u \<mapsto> r), rl_events := ev \<rparr>"
    "ur_adjustment_factor_bps r = ur_adjustment_factor_bps (get_risk_profile u s)"
  using assms by (auto simp: handle_breach_def Let_def rl_publish_def get_risk_profile_def)

lemma consume_limit_cases:
  assumes "consume_limit env u x s = Inr (r, s')"
  obtains (allowed) l us g0 g gl us' g' hist where "r = Allowed"
      "compute_effective_limits env u (is_whitelisted_internal u s) s = Inr l"
      "decay_user (get_or_init_usage u (timestamp env) s) (timestamp env) = Inr us" "user_breach us l x = Inr None"
      "rl_global_usage s = Some g0" "rl_global_limits s = Some gl" "decay_global g0 (timestamp env) = Inr g"
      "global_breach g gl x = Inr None" "consume_user us x = Inr us'" "consume_global g x = Inr g'" "0 < x"
      "updated_history (timestamp env div rl_day_secs * rl_day_secs) x (unwrap_or (rl_user_history s u) []) = Inr hist"
      "s' = s\<lparr> rl_user_usage := (rl_user_usage s)(u \<mapsto> us'), rl_global_usage := Some g',
        rl_user_history := (rl_user_history s)(u \<mapsto> hist), rl_events := rl_events s @ [RlUsed u x] \<rparr>"
  | (breach) l us e where "r = Rejected e"
      "compute_effective_limits env u (is_whitelisted_internal u s) s = Inr l"
      "decay_user (get_or_init_usage u (timestamp env) s) (timestamp env) = Inr us" "user_breach us l x = Inr (Some e)"
      "handle_breach u us (timestamp env) s = Inr s'"
  | (global) e where "r = Rejected e" "e = GlobalDailyLimitExceeded \<or> e = GlobalWeeklyLimitExceeded" "s' = s"
proof -
  from assms obtain l us b where *: "0 < x" "compute_effective_limits env u (is_whitelisted_internal u s) s = Inr l"
    "decay_user (get_or_init_usage u (timestamp env) s) (timestamp env) = Inr us" "user_breach us l x = Inr b"
    and rest: "(case b of
       Some e \<Rightarrow> and_then (handle_breach u us (timestamp env) s) (\<lambda>s'. Inr (Rejected e, s'))
     | None \<Rightarrow>
         and_then (unwrap (rl_global_usage s)) (\<lambda>g0.
         and_then (unwrap (rl_global_limits s)) (\<lambda>gl.
         and_then (decay_global g0 (timestamp env)) (\<lambda>g.
         and_then (global_breach g gl x) (\<lambda>gbreach.
         case gbreach of
           Some e \<Rightarrow> Inr (Rejected e, s)
         | None \<Rightarrow>
             and_then (consume_user us x) (\<lambda>usage'.
             and_then (consume_global g x) (\<lambda>g'.
             and_then (record_history u (timestamp env) x
                 (s\<lparr> rl_user_usage := (rl_user_usage s)(u \<mapsto> usage'), rl_global_usage := Some g' \<rparr>)) (\<lambda>s1.
             Inr (Allowed, rl_publish (RlUsed u x) s1))))))))) = Inr (r, s')"
    unfolding consume_limit_def Let_def and_then_eq_Inr by (auto simp del: and_then_eq_Inr)
  show thesis
  proof (cases b)
    case (Some e)
    with rest have "handle_breach u us (timestamp env) s = Inr s'" "r = Rejected e" by auto
    with breach * Some show thesis by blast
  next
    case None
    with rest obtain g0 gl g gb where g: "rl_global_usage s = Some g0" "rl_global_limits s = Some gl"
      "decay_global g0 (timestamp env) = Inr g" "global_breach g gl x = Inr gb" and
      rest2: "(case gb of
           Some e \<Rightarrow> Inr (Rejected e, s)
         | None \<Rightarrow>
             and_then (consume_user us x) (\<lambda>usage'.
             and_then (consume_global g x) (\<lambda>g'.
             and_then (record_history u (timestamp env) x
                 (s\<lparr> rl_user_usage := (rl_user_usage s)(u \<mapsto> usage'), rl_global_usage := Some g' \<rparr>)) (\<lambda>s1.
             Inr (Allowed, rl_publish (RlUsed u x) s1))))) = Inr (r, s')"
      by (auto simp del: and_then_eq_Inr simp: and_then_eq_Inr [of "unwrap _"] and_then_eq_Inr [of "decay_global _ _"]
          and_then_eq_Inr [of "global_breach _ _ _"])
    show thesis
    proof (cases gb)
      case (Some e)
      with rest2 have e: "r = Rejected e" "s' = s" by auto
      from g(4) Some have "e = GlobalDailyLimitExceeded \<or> e = GlobalWeeklyLimitExceeded"
        by (auto simp: global_breach_def split: if_splits)
      with e global show thesis by blast
    next
      case gNone: None
      with rest2 obtain us' g' hist where "consume_user us x = Inr us'" "consume_global g x = Inr g'"
        "updated_history (timestamp env div rl_day_secs * rl_day_secs) x (unwrap_or (rl_user_history s u) []) = Inr hist"
        "r = Allowed" "s' = s\<lparr> rl_user_usage := (rl_user_usage s)(u \<mapsto> us'), rl_global_usage := Some g',
        rl_user_history := (rl_user_history s)(u \<mapsto> hist), rl_events := rl_events s @ [RlUsed u x] \<rparr>"
        by (auto simp: record_history_def rl_publish_def)
      with allowed * g None gNone show thesis by blast
    qed
  qed
qed


section \<open>The invariant\<close>

lemma only_initialize_first: "limiter_exec env c limiter_start = Inr s' \<Longrightarrow> \<exists>a. c = RlInitialize a"
  by (cases c) (auto simp: limiter_start_def rl_require_admin_def consume_limit_def update_user_limit_def
      update_global_limit_def update_default_limits_def add_to_whitelist_def remove_from_whitelist_def
      update_risk_score_def update_anomaly_score_def reset_circuit_breaker_def set_emergency_mode_def
      emergency_reduce_limits_def set_cooldown_duration_def clear_cooldown_def is_emergency_mode_def)

lemma limiter_inv_eq:
  assumes "limiter_inv now log s" "rl_admin s \<noteq> None" "rl_admin s' = rl_admin s"
    "rl_user_usage s' = rl_user_usage s" "rl_global_usage s' = rl_global_usage s"
  shows "limiter_inv now log s'"
  using assms by (cases "rl_admin s") (simp_all add: limiter_inv_def)

lemma limiter_inv_usage:
  assumes "limiter_inv now log s" "rl_admin s \<noteq> None" "rl_admin s' = rl_admin s"
    "rl_user_usage s' = (rl_user_usage s)(u \<mapsto> us)" "usage_holds now us (log_of u log)"
    "rl_global_usage s' = rl_global_usage s"
  shows "limiter_inv now log s'"
  using assms by (cases "rl_admin s") (simp_all add: limiter_inv_def)

lemma cooldown_usage_holds: "usage_holds now (us\<lparr> uu_cooldown_until := t \<rparr>) log = usage_holds now us log"
  by (simp add: usage_holds_def)

lemma consume_inv:
  assumes "consume_limit env u x s = Inr (r, s')" "limiter_inv (timestamp env) log s" "rl_admin s \<noteq> None"
  shows "limiter_inv (timestamp env) (log @ allowed_entry env (ConsumeLimit u x) s) s'"
  using assms(1)
proof (cases rule: consume_limit_cases)
  case (allowed l us g0 g gl us' g' hist)
  note d = decay_user_holds [OF get_or_init_holds [OF assms(2), of u] allowed(3)]
  note c = consume_user_holds [OF d(1-4) allowed(9)]
  have "global_holds (timestamp env) g0 (map snd log)" using assms(2) allowed(5) by (simp add: limiter_inv_def)
  note g = global_consumed_holds [OF this allowed(7,10)]
  have "allowed_entry env (ConsumeLimit u x) s = [(u, timestamp env, x)]"
    using assms(1) allowed(1) by (simp add: allowed_entry_def)
  then show ?thesis using assms(2,3) c g unfolding allowed(13) by (auto simp: limiter_inv_def)
next
  case (breach l us e)
  note d = decay_user_holds [OF get_or_init_holds [OF assms(2), of u] breach(3)]
  have "allowed_entry env (ConsumeLimit u x) s = []"
    using assms(1) breach(1) by (simp add: allowed_entry_def)
  moreover have "limiter_inv (timestamp env) log s'"
    using breach(5)
  proof (rule handle_breach_effect)
    fix rr ev
    assume "s' = s\<lparr> rl_user_usage := (rl_user_usage s)(u \<mapsto>
      us\<lparr> uu_cooldown_until := timestamp env + unwrap_or (rl_cooldown_duration s) default_cooldown_secs \<rparr>),
    rl_user_risk := (rl_user_risk s)(u \<mapsto> rr), rl_events := ev \<rparr>"
    then show ?thesis
      by (intro limiter_inv_usage [OF assms(2,3), where u = u and us =
          "us\<lparr> uu_cooldown_until := timestamp env + unwrap_or (rl_cooldown_duration s) default_cooldown_secs \<rparr>"])
        (simp_all add: cooldown_usage_holds d(1))
  qed
  ultimately show ?thesis by simp
next
  case (global e)
  have "allowed_entry env (ConsumeLimit u x) s = []"
    using assms(1) global(1) by (simp add: allowed_entry_def)
  with global assms(2) show ?thesis by simp
qed

definition same_usage :: "limiter_state \<Rightarrow> limiter_state \<Rightarrow> bool" where
  "same_usage s s' \<longleftrightarrow> rl_admin s' = rl_admin s \<and> rl_user_usage s' = rl_user_usage s \<and> rl_global_usage s' = rl_global_usage s"

lemma same_usage_publish [simp]: "same_usage s (rl_publish e s') = same_usage s s'"
  by (simp add: same_usage_def rl_publish_def)

text \<open>The administrative operations leave the usage alone.\<close>

lemma admin_same_usage:
  "update_user_limit env a u l s = Inr s' \<Longrightarrow> same_usage s s'"
  "update_global_limit env a gl s = Inr s' \<Longrightarrow> same_usage s s'"
  "update_default_limits env a l s = Inr s' \<Longrightarrow> same_usage s s'"
  "add_to_whitelist env a u s = Inr s' \<Longrightarrow> same_usage s s'"
  "remove_from_whitelist env a u s = Inr s' \<Longrightarrow> same_usage s s'"
  "update_risk_score env a u r s = Inr s' \<Longrightarrow> same_usage s s'"
  "update_anomaly_score env a r s = Inr s' \<Longrightarrow> same_usage s s'"
  "reset_circuit_breaker env a s = Inr s' \<Longrightarrow> same_usage s s'"
  "set_emergency_mode env a b s = Inr s' \<Longrightarrow> same_usage s s'"
  "emergency_reduce_limits env a r s = Inr s' \<Longrightarrow> same_usage s s'"
  "set_cooldown_duration env a d s = Inr s' \<Longrightarrow> same_usage s s'"
  by (auto simp: update_user_limit_def update_global_limit_def
      update_default_limits_def add_to_whitelist_def remove_from_whitelist_def update_risk_score_def
      update_anomaly_score_def reset_circuit_breaker_def set_emergency_mode_def emergency_reduce_limits_def
      set_cooldown_duration_def same_usage_def rl_publish_def split: if_split_asm)

lemma limiter_step:
  assumes "limiter_exec env c s = Inr s'" "limiter_inv (timestamp env) log s"
  shows "limiter_inv (timestamp env) (log @ allowed_entry env c s) s'"
proof (cases "rl_admin s = None")
  case True
  then have s: "s = limiter_start" "log = []" using assms(2) by (simp_all add: limiter_inv_def)
  from only_initialize_first [OF assms(1) [unfolded s]] obtain a where c: "c = RlInitialize a" by blast
  with assms(1) s show ?thesis
    by (auto simp: limiter_initialize_def allowed_entry_def limiter_inv_def limiter_start_def global_holds_def
        window_holds_empty)
next
  case False
  note keep = limiter_inv_eq [OF assms(2) False]
  show ?thesis
  proof (cases "\<exists>u x. c = ConsumeLimit u x")
    case True
    then obtain u x where c: "c = ConsumeLimit u x" by blast
    with assms(1) obtain r where "consume_limit env u x s = Inr (r, s')" by auto
    from consume_inv [OF this assms(2) False] show ?thesis by (simp add: c)
  next
    case noconsume: False
    then have e: "allowed_entry env c s = []" by (auto simp: allowed_entry_def split: limiter_call.split)
    show ?thesis
    proof (cases "\<exists>a u. c = ClearCooldown a u")
      case True
      then obtain a u where c: "c = ClearCooldown a u" by blast
      with assms(1) have "s' = s\<lparr> rl_user_usage := (rl_user_usage s)(u \<mapsto>
          (get_or_init_usage u (timestamp env) s)\<lparr> uu_cooldown_until := 0 \<rparr>) \<rparr>"
        by (auto simp: clear_cooldown_def)
      then have "limiter_inv (timestamp env) log s'"
        by (intro limiter_inv_usage [OF assms(2) False, where u = u and us =
            "(get_or_init_usage u (timestamp env) s)\<lparr> uu_cooldown_until := 0 \<rparr>"])
          (simp_all add: cooldown_usage_holds get_or_init_holds [OF assms(2)])
      then show ?thesis by (simp add: e)
    next
      case noclear: False
      have "same_usage s s'"
      proof (cases c)
        case (RlInitialize a)
        with assms(1) False show ?thesis by (auto simp: limiter_initialize_def)
      next
        case (ConsumeLimit u x)
        with noconsume show ?thesis by simp
      next
        case (ClearCooldown a u)
        with noclear show ?thesis by simp
      next
        case (UpdateUserLimit a u l)
        from assms(1) show ?thesis unfolding UpdateUserLimit limiter_exec.simps by (rule admin_same_usage(1))
      next
        case (UpdateGlobalLimit a l)
        from assms(1) show ?thesis unfolding UpdateGlobalLimit limiter_exec.simps by (rule admin_same_usage(2))
      next
        case (UpdateDefaultLimits a l)
        from assms(1) show ?thesis unfolding UpdateDefaultLimits limiter_exec.simps by (rule admin_same_usage(3))
      next
        case (AddToWhitelist a u)
        from assms(1) show ?thesis unfolding AddToWhitelist limiter_exec.simps by (rule admin_same_usage(4))
      next
        case (RemoveFromWhitelist a u)
        from assms(1) show ?thesis unfolding RemoveFromWhitelist limiter_exec.simps by (rule admin_same_usage(5))
      next
        case (UpdateRiskScore a u r)
        from assms(1) show ?thesis unfolding UpdateRiskScore limiter_exec.simps by (rule admin_same_usage(6))
      next
        case (UpdateAnomalyScore a r)
        from assms(1) show ?thesis unfolding UpdateAnomalyScore limiter_exec.simps by (rule admin_same_usage(7))
      next
        case (ResetCircuitBreaker a)
        from assms(1) show ?thesis unfolding ResetCircuitBreaker limiter_exec.simps by (rule admin_same_usage(8))
      next
        case (SetEmergencyMode a b)
        from assms(1) show ?thesis unfolding SetEmergencyMode limiter_exec.simps by (rule admin_same_usage(9))
      next
        case (EmergencyReduceLimits a r)
        from assms(1) show ?thesis unfolding EmergencyReduceLimits limiter_exec.simps by (rule admin_same_usage(10))
      next
        case (SetCooldownDuration a d)
        from assms(1) show ?thesis unfolding SetCooldownDuration limiter_exec.simps by (rule admin_same_usage(11))
      qed
      then have "limiter_inv (timestamp env) log s'" by (intro keep) (simp_all add: same_usage_def)
      then show ?thesis by (simp add: e)
    qed
  qed
qed

lemma failed_entry: "limiter_exec env c s = Inl f \<Longrightarrow> allowed_entry env c s = []"
  by (cases c) (auto simp: allowed_entry_def state_of_def split: sum.splits consume_result.splits)

lemma limiter_run_inv:
  "limiter_inv t log s \<Longrightarrow> chronological h \<Longrightarrow> \<forall>(env, c)\<in>set h. t \<le> timestamp env \<Longrightarrow> t \<le> now \<Longrightarrow>
    \<forall>(env, c)\<in>set h. timestamp env \<le> now \<Longrightarrow> limiter_inv now (log @ allowed_log s h) (run limiter_exec s h)"
proof (induction h arbitrary: t log s)
  case Nil
  then show ?case by (auto intro: limiter_inv_later)
next
  case (Cons ec h)
  obtain env c where ec: "ec = (env, c)" by (cases ec)
  from Cons.prems(1,3) have inv: "limiter_inv (timestamp env) log s"
    by (auto simp: ec intro: limiter_inv_later)
  have "limiter_inv (timestamp env) (log @ allowed_entry env c s) (invoke limiter_exec env c s)"
  proof (cases "limiter_exec env c s")
    case (Inl f)
    with inv failed_entry [OF Inl] show ?thesis by (simp add: invoke_def)
  next
    case (Inr s')
    from limiter_step [OF Inr inv] Inr show ?thesis by (simp add: invoke_def)
  qed
  from Cons.IH [OF this] Cons.prems show ?case
    by (force simp: ec chronological_def)
qed

lemma limiter_inv_start: "limiter_inv t [] limiter_start"
  by (simp add: limiter_inv_def limiter_start_def)

lemma limiter_reachable:
  assumes "chronological h" "\<forall>(env, c)\<in>set h. timestamp env \<le> now"
  shows "limiter_inv now (allowed_log limiter_start h) (run limiter_exec limiter_start h)"
  using limiter_run_inv [OF limiter_inv_start [of 0] assms(1) _ _ assms(2)] by auto

lemma user_breach_None:
  "user_breach us l x = Inr None \<Longrightarrow>
     uw_value_used (uu_daily us) + x \<le> ul_daily_value l \<and> uw_value_used (uu_weekly us) + x \<le> ul_weekly_value l
     \<and> uw_value_used (uu_monthly us) + x \<le> ul_monthly_value l \<and> uw_count_used (uu_daily us) < ul_daily_count l
     \<and> uw_count_used (uu_weekly us) < ul_weekly_count l \<and> uw_count_used (uu_monthly us) < ul_monthly_count l"
  by (auto simp: user_breach_def value_exceeded_def count_exceeded_def not_less split: if_splits)

lemma global_breach_None:
  "global_breach g l x = Inr None \<Longrightarrow>
     uw_value_used (gu_daily g) + x \<le> gl_daily_value l \<and> uw_value_used (gu_weekly g) + x \<le> gl_weekly_value l"
  by (auto simp: global_breach_def value_exceeded_def not_less split: if_splits)

lemma consume_user_values:
  assumes "consume_user us x = Inr us'"
  shows "uw_value_used (uu_daily us') = uw_value_used (uu_daily us) + x"
    "uw_value_used (uu_weekly us') = uw_value_used (uu_weekly us) + x"
    "uw_value_used (uu_monthly us') = uw_value_used (uu_monthly us) + x"
    "uw_count_used (uu_daily us') = uw_count_used (uu_daily us) + 1"
    "uw_count_used (uu_weekly us') = uw_count_used (uu_weekly us) + 1"
    "uw_count_used (uu_monthly us') = uw_count_used (uu_monthly us) + 1"
  using assms by (auto simp: consume_user_def consume_window_def)

lemma consume_global_values:
  assumes "consume_global g x = Inr g'"
  shows "uw_value_used (gu_daily g') = uw_value_used (gu_daily g) + x"
    "uw_value_used (gu_weekly g') = uw_value_used (gu_weekly g) + x"
  using assms by (auto simp: consume_global_def consume_window_def)

section \<open>Properties\<close>

text \<open>C18: the windows are exact: after any chronological history the stored usage of a user's daily,
  weekly and monthly window is the sum (and the number) of the transfers allowed to the user since
  the window began, the lifetime figures cover all of them, and the amounts of the global windows
  cover the transfers of all users (nothing is said of the global counts).\<close>

theorem windows_are_exact:
  assumes "chronological h"
  shows "let s = run limiter_exec limiter_start h; log = allowed_log limiter_start h in
    (\<forall>u us. rl_user_usage s u = Some us \<longrightarrow>
       (\<forall>w\<in>{uu_daily us, uu_weekly us, uu_monthly us}.
          uw_value_used w = sum_list (since (uw_window_start w) (log_of u log))
          \<and> uw_count_used w = length (since (uw_window_start w) (log_of u log)))
       \<and> uu_lifetime_value us = sum_list (map snd (log_of u log)) \<and> uu_lifetime_count us = length (log_of u log))
    \<and> (\<forall>g. rl_global_usage s = Some g \<longrightarrow>
       (\<forall>w\<in>{gu_daily g, gu_weekly g}. uw_value_used w = sum_list (since (uw_window_start w) (map snd log))))"
proof -
  have "\<forall>(env, c)\<in>set h. timestamp env \<le> Max ((timestamp \<circ> fst) ` set h)" by (force intro!: Max_ge)
  from limiter_reachable [OF assms this] show ?thesis
    by (auto simp: Let_def limiter_inv_def usage_holds_def global_holds_def window_holds_def)
qed

definition demo_rl_env :: "nat \<Rightarrow> env" where
  "demo_rl_env t = \<lparr> timestamp = t, auths = [''admin'', ''u'', ''v''] \<rparr>"

definition demo_limiter :: "(env \<times> limiter_call) list" where
  "demo_limiter =
    [(demo_rl_env 0, RlInitialize ''admin''), (demo_rl_env 10, ConsumeLimit ''u'' 1),
     (demo_rl_env 86409, ConsumeLimit ''u'' 999999999), (demo_rl_env 86410, ConsumeLimit ''u'' 1000000000),
     (demo_rl_env 86411, ConsumeLimit ''v'' 7)]"

lemma windows_are_exact_witness:
  "map_option (\<lambda>g. sum_list (since (uw_window_start (gu_weekly g)) (map snd (allowed_log limiter_start demo_limiter))))
     (rl_global_usage (run limiter_exec limiter_start demo_limiter)) = Some 2000000007"
proof -
  have "chronological demo_limiter" by (simp add: chronological_def demo_limiter_def demo_rl_env_def)
  note exact = windows_are_exact [OF this]
  have "map_option (\<lambda>g. uw_value_used (gu_weekly g)) (rl_global_usage (run limiter_exec limiter_start demo_limiter)) = Some 2000000007"
    by code_simp
  with exact show ?thesis by (auto simp: Let_def)
qed

text \<open>C23: an allowed transfer never exceeds a limit: with it, the transfers allowed to the user since
  the start of the daily, weekly and monthly window stay within the effective limits of that
  moment, in value and in number, and all transfers together within the global limits.\<close>

theorem allowed_within_limits:
  assumes "chronological (h @ [(env, ConsumeLimit u x)])"
    and "s = run limiter_exec limiter_start h" "log = allowed_log limiter_start h @ [(u, timestamp env, x)]"
    and "consume_limit env u x s = Inr (Allowed, s')"
  shows "0 < x \<and> (\<exists>l us g gl. get_effective_limits env u s = Inr l \<and> rl_user_usage s' u = Some us
    \<and> rl_global_usage s' = Some g \<and> rl_global_limits s = Some gl
    \<and> sum_list (since (uw_window_start (uu_daily us)) (log_of u log)) \<le> ul_daily_value l
    \<and> sum_list (since (uw_window_start (uu_weekly us)) (log_of u log)) \<le> ul_weekly_value l
    \<and> sum_list (since (uw_window_start (uu_monthly us)) (log_of u log)) \<le> ul_monthly_value l
    \<and> length (since (uw_window_start (uu_daily us)) (log_of u log)) \<le> ul_daily_count l
    \<and> length (since (uw_window_start (uu_weekly us)) (log_of u log)) \<le> ul_weekly_count l
    \<and> length (since (uw_window_start (uu_monthly us)) (log_of u log)) \<le> ul_monthly_count l
    \<and> sum_list (since (uw_window_start (gu_daily g)) (map snd log)) \<le> gl_daily_value gl
    \<and> sum_list (since (uw_window_start (gu_weekly g)) (map snd log)) \<le> gl_weekly_value gl)"
  using assms(4)
proof (cases rule: consume_limit_cases)
  case (allowed l us g0 g gl us' g' hist)
  have "chronological h" "\<forall>(e, c)\<in>set h. timestamp e \<le> timestamp env"
    using assms(1) by (auto simp: chronological_def sorted_append)
  from limiter_reachable [OF this] have inv: "limiter_inv (timestamp env) (allowed_log limiter_start h) s"
    by (simp add: assms(2))
  note d = decay_user_holds [OF get_or_init_holds [OF inv, of u] allowed(3)]
  note c = consume_user_holds [OF d(1-4) allowed(9)]
  have "global_holds (timestamp env) g0 (map snd (allowed_log limiter_start h))" using inv allowed(5) by (simp add: limiter_inv_def)
  note gc = global_consumed_holds [OF this allowed(7,10)]
  show ?thesis
    using user_breach_None [OF allowed(4)] global_breach_None [OF allowed(8)] consume_user_values [OF allowed(9)]
      consume_global_values [OF allowed(10)] c gc allowed(2,6,11)
    unfolding assms(3) allowed(13) get_effective_limits_def
    by (auto simp: usage_holds_def global_holds_def window_holds_def)
next
  case (breach l us e)
  then show ?thesis by simp
next
  case (global e)
  then show ?thesis by simp
qed

lemma allowed_within_limits_witness:
  "\<exists>s'. consume_limit (demo_rl_env 86412) ''v'' 5 (run limiter_exec limiter_start demo_limiter) = Inr (Allowed, s')
     \<and> (\<exists>us. rl_user_usage s' ''v'' = Some us \<and>
          sum_list (since (uw_window_start (uu_daily us))
            (log_of ''v'' (allowed_log limiter_start demo_limiter @ [(''v'', 86412, 5)]))) \<le> 1000000000)"
proof -
  let ?s = "run limiter_exec limiter_start demo_limiter"
  have "map_sum (\<lambda>_. ()) fst (consume_limit (demo_rl_env 86412) ''v'' 5 ?s) = Inr Allowed" by code_simp
  then obtain s' where s': "consume_limit (demo_rl_env 86412) ''v'' 5 ?s = Inr (Allowed, s')"
    by (cases "consume_limit (demo_rl_env 86412) ''v'' 5 ?s") auto
  have "chronological (demo_limiter @ [(demo_rl_env 86412, ConsumeLimit ''v'' 5)])"
    by (simp add: chronological_def demo_limiter_def demo_rl_env_def)
  from allowed_within_limits [OF this refl refl s']
  obtain l us where l: "get_effective_limits (demo_rl_env 86412) ''v'' ?s = Inr l" and us: "rl_user_usage s' ''v'' = Some us"
    "sum_list (since (uw_window_start (uu_daily us)) (log_of ''v'' (allowed_log limiter_start demo_limiter @ [(''v'', timestamp (demo_rl_env 86412), 5)])))
      \<le> ul_daily_value l" by blast
  have "map_sum (\<lambda>_. ()) ul_daily_value (get_effective_limits (demo_rl_env 86412) ''v'' ?s) = Inr 1000000000" by code_simp
  with l have "ul_daily_value l = 1000000000" by simp
  with us s' show ?thesis by (simp add: demo_rl_env_def)
qed

text \<open>Also: the windows do not roll: they start afresh a full period after their first use, so twice the
  daily limit of a user is allowed within two seconds.\<close>

theorem twice_the_limit_in_two_seconds:
  "sum_list (since 86409 (log_of ''u'' (allowed_log limiter_start demo_limiter))) = 1999999999
   \<and> map_sum (\<lambda>_. ()) ul_daily_value
       (get_effective_limits (demo_rl_env 86410) ''u'' (run limiter_exec limiter_start (take 3 demo_limiter))) = Inr 1000000000"
  by code_simp

lemma consume_positive: "consume_limit env u x s = Inr r \<Longrightarrow> 0 < x"
  by (auto simp: consume_limit_def)

lemma allowed_log_positive: "e \<in> set (allowed_log s h) \<Longrightarrow> 0 < snd (snd e)"
proof (induction s h rule: allowed_log.induct)
  case (2 s env c h)
  have "e \<in> set (allowed_entry env c s) \<Longrightarrow> 0 < snd (snd e)"
    by (cases c) (auto simp: allowed_entry_def dest: consume_positive [OF sym] split: sum.splits consume_result.splits)
  with 2 show ?case by auto
qed simp

lemma since_nonneg: "(\<And>e. e \<in> set log \<Longrightarrow> 0 < snd e) \<Longrightarrow> 0 \<le> sum_list (since t log)"
  unfolding since_def by (rule sum_list_nonneg) (force intro: less_imp_le)

text \<open>The effective limits are machine integers and at least one.\<close>

lemma map_values_eq_Inr:
  "map_values f l = Inr l' \<longleftrightarrow> (\<exists>d w m. f (ul_daily_value l) = Inr d \<and> f (ul_weekly_value l) = Inr w
     \<and> f (ul_monthly_value l) = Inr m \<and> l' = l\<lparr> ul_daily_value := d, ul_weekly_value := w, ul_monthly_value := m \<rparr>)"
  by (auto simp: map_values_def)

lemma scale_bps_eq_Inr: "scale_bps f x = Inr y \<longleftrightarrow> in_i128 (x * f) \<and> in_i128 y \<and> y = x * f sdiv int rl_bps_denom"
  by (auto simp: scale_bps_def div_i128_def rl_bps_denom_def)

definition limits_in :: "user_limits \<Rightarrow> bool" where
  "limits_in l \<longleftrightarrow> in_i128 (ul_daily_value l) \<and> in_i128 (ul_weekly_value l) \<and> in_i128 (ul_monthly_value l)"

lemma scaled_in: "map_values (scale_bps f) l = Inr l' \<Longrightarrow> limits_in l'"
  by (auto simp: map_values_eq_Inr scale_bps_eq_Inr limits_in_def)

lemma in_i128_1: "in_i128 1"
  by (simp add: in_i128_def i128_min_def i128_max_def)

lemma effective_limits_in:
  assumes "compute_effective_limits env u b s = Inr l"
  shows "limits_in l" "1 \<le> ul_daily_value l" "1 \<le> ul_weekly_value l" "1 \<le> ul_monthly_value l"
proof -
  from assms obtain l1 l2 l3 where l2: "map_values (scale_bps (int (ur_adjustment_factor_bps (get_risk_profile u s)))) l1 = Inr l2"
    and l3: "tenure_bonus (timestamp env) (rl_user_usage s u) l2 = Inr l3" and l: "l = at_least_one l3"
    unfolding compute_effective_limits_def and_then_eq_Inr by auto
  have "limits_in l3" using l3 scaled_in [OF l2]
    by (auto simp: tenure_bonus_def Let_def dest: scaled_in split: option.splits if_splits)
  then show "limits_in l" "1 \<le> ul_daily_value l" "1 \<le> ul_weekly_value l" "1 \<le> ul_monthly_value l"
    by (auto simp: l at_least_one_def limits_in_def in_i128_1)
qed

text \<open>Also: a transfer that is allowed would also have passed the read-only check: the check is
  never stricter than the operation.\<close>

theorem allowed_implies_check:
  assumes "chronological (h @ [(env, ConsumeLimit u x)])"
    and "consume_limit env u x (run limiter_exec limiter_start h) = Inr (Allowed, s')"
  shows "\<exists>r. check_limit env u x (run limiter_exec limiter_start h) = Inr r \<and> lc_allowed r"
  using assms(2)
proof (cases rule: consume_limit_cases)
  case (allowed l us g0 g gl us' g' hist)
  let ?s = "run limiter_exec limiter_start h"
  let ?u0 = "get_or_init_usage u (timestamp env) ?s"
  have "chronological h" "\<forall>(e, c)\<in>set h. timestamp e \<le> timestamp env"
    using assms(1) by (auto simp: chronological_def sorted_append)
  from limiter_reachable [OF this] have inv: "limiter_inv (timestamp env) (allowed_log limiter_start h) ?s" .
  have pos: "0 < snd e" if "e \<in> set (log_of u (allowed_log limiter_start h))" for e
    using that allowed_log_positive by (auto simp: log_of_def)
  from assms(2) obtain cb where start: "\<not> is_emergency_mode ?s" "rl_circuit_breaker ?s = Some cb" "\<not> cbs_tripped cb"
    "\<not> timestamp env < uu_cooldown_until ?u0"
    by (auto simp: consume_limit_def Let_def)
  from allowed(3) obtain d w m where dec: "decayed_usage (uu_daily ?u0) (timestamp env) rl_day_secs = Inr d"
    "decayed_usage (uu_weekly ?u0) (timestamp env) rl_week_secs = Inr w"
    "decayed_usage (uu_monthly ?u0) (timestamp env) rl_month_secs = Inr m"
    "us = ?u0\<lparr> uu_daily := d, uu_weekly := w, uu_monthly := m \<rparr>"
    unfolding decay_user_def and_then_eq_Inr by auto
  from decay_user_holds(1) [OF get_or_init_holds [OF inv, of u] allowed(3)]
  have nonneg: "0 \<le> uw_value_used d" "0 \<le> uw_value_used w" "0 \<le> uw_value_used m"
    using since_nonneg [OF pos] by (simp_all add: usage_holds_def window_holds_def dec(4))
  note b = user_breach_None [OF allowed(4)]
  have lim: "in_i128 (ul_daily_value l)" "in_i128 (ul_weekly_value l)" "in_i128 (ul_monthly_value l)"
    using effective_limits_in(1) [OF allowed(2)] by (simp_all add: limits_in_def)
  have sub: "sub_i128 (ul_daily_value l) (uw_value_used d) = (Inr (ul_daily_value l - uw_value_used d) :: int rres)"
    "sub_i128 (ul_weekly_value l) (uw_value_used w) = (Inr (ul_weekly_value l - uw_value_used w) :: int rres)"
    "sub_i128 (ul_monthly_value l) (uw_value_used m) = (Inr (ul_monthly_value l - uw_value_used m) :: int rres)"
    using lim nonneg b allowed(11) by (auto simp: i_checked_def dec(4) intro!: in_i128_diff)
  show ?thesis using start allowed(2) dec b sub
    by (simp add: check_limit_def Let_def)
next
  case (breach l us e)
  then show ?thesis by simp
next
  case (global e)
  then show ?thesis by simp
qed

lemma allowed_implies_check_witness:
  "\<exists>r. check_limit (demo_rl_env 86412) ''v'' 5 (run limiter_exec limiter_start demo_limiter) = Inr r \<and> lc_allowed r"
proof -
  let ?s = "run limiter_exec limiter_start demo_limiter"
  have "map_sum (\<lambda>_. ()) fst (consume_limit (demo_rl_env 86412) ''v'' 5 ?s) = Inr Allowed" by code_simp
  then obtain s' where "consume_limit (demo_rl_env 86412) ''v'' 5 ?s = Inr (Allowed, s')"
    by (cases "consume_limit (demo_rl_env 86412) ''v'' 5 ?s") auto
  moreover have "chronological (demo_limiter @ [(demo_rl_env 86412, ConsumeLimit ''v'' 5)])"
    by (simp add: chronological_def demo_limiter_def demo_rl_env_def)
  ultimately show ?thesis by (intro allowed_implies_check)
qed

text \<open>Also: a breach of a user limit is recorded: the user cools down for the configured time and every
  transfer until then fails with the cooldown error, unless the administrator intervenes. A breach
  of a global limit leaves no trace at all.\<close>

theorem rejection_effect:
  assumes "consume_limit env u x s = Inr (Rejected e, s')"
  shows "if e = GlobalDailyLimitExceeded \<or> e = GlobalWeeklyLimitExceeded then s' = s
    else \<forall>env' y. u \<in> set (auths env') \<and> 0 < y \<and> timestamp env' < timestamp env + unwrap_or (rl_cooldown_duration s) default_cooldown_secs
           \<and> is_ok (get_effective_limits env' u s')
         \<longrightarrow> consume_limit env' u y s' = Inl (Err CooldownActive)"
  using assms
proof (cases rule: consume_limit_cases)
  case (allowed l us g0 g gl us' g' hist)
  then show ?thesis by simp
next
  case (global e')
  then show ?thesis by simp
next
  case (breach l us e')
  then have "e = e'" by simp
  with breach(4) have "e \<noteq> GlobalDailyLimitExceeded \<and> e \<noteq> GlobalWeeklyLimitExceeded"
    by (auto simp: user_breach_def split: if_splits)
  moreover from assms obtain cb where start: "\<not> is_emergency_mode s" "rl_circuit_breaker s = Some cb" "\<not> cbs_tripped cb"
    by (auto simp: consume_limit_def Let_def)
  from breach(5) obtain r ev where s': "s' = s\<lparr> rl_user_usage := (rl_user_usage s)(u \<mapsto>
      us\<lparr> uu_cooldown_until := timestamp env + unwrap_or (rl_cooldown_duration s) default_cooldown_secs \<rparr>),
    rl_user_risk := (rl_user_risk s)(u \<mapsto> r), rl_events := ev \<rparr>"
    by (rule handle_breach_effect)
  have "consume_limit env' u y s' = Inl (Err CooldownActive)"
    if that: "u \<in> set (auths env')" "0 < y" "timestamp env' < timestamp env + unwrap_or (rl_cooldown_duration s) default_cooldown_secs"
      "is_ok (get_effective_limits env' u s')" for env' y
  proof -
    from that(4) obtain l' where "compute_effective_limits env' u (is_whitelisted_internal u s') s' = Inr l'"
      by (auto simp: get_effective_limits_def is_ok_iff)
    moreover have "\<not> is_emergency_mode s'" "rl_circuit_breaker s' = Some cb"
      "uu_cooldown_until (get_or_init_usage u (timestamp env') s') = timestamp env + unwrap_or (rl_cooldown_duration s) default_cooldown_secs"
      using start by (simp_all add: s' is_emergency_mode_def get_or_init_usage_def)
    ultimately show ?thesis using that start(3) by (simp add: consume_limit_def Let_def ensure_def)
  qed
  ultimately show ?thesis by auto
qed

lemma rejection_effect_witness:
  "\<exists>s'. consume_limit (demo_rl_env 86412) ''u'' 5 (run limiter_exec limiter_start demo_limiter) = Inr (Rejected DailyValueLimitExceeded, s')
     \<and> consume_limit (demo_rl_env 90000) ''u'' 1 s' = Inl (Err CooldownActive)"
proof -
  let ?s = "run limiter_exec limiter_start demo_limiter"
  have "map_sum (\<lambda>_. ()) (\<lambda>(r, s'). (r, is_ok (get_effective_limits (demo_rl_env 90000) ''u'' s')))
      (consume_limit (demo_rl_env 86412) ''u'' 5 ?s) = Inr (Rejected DailyValueLimitExceeded, True)" by code_simp
  then obtain s' where s': "consume_limit (demo_rl_env 86412) ''u'' 5 ?s = Inr (Rejected DailyValueLimitExceeded, s')"
    "is_ok (get_effective_limits (demo_rl_env 90000) ''u'' s')"
    by (cases "consume_limit (demo_rl_env 86412) ''u'' 5 ?s") auto
  have "rl_cooldown_duration ?s = Some 3600" by code_simp
  with rejection_effect [OF s'(1)] s'(2) have "consume_limit (demo_rl_env 90000) ''u'' 1 s' = Inl (Err CooldownActive)"
    by (simp add: demo_rl_env_def)
  with s'(1) show ?thesis by blast
qed

text \<open>Also: the risk adjustment lies between 50 and 120 percent, never rises with the score, and meets
  both ends of the interpolation.\<close>

theorem adjustment_factor_bounds:
  "5000 \<le> calculate_adjustment_factor r \<and> calculate_adjustment_factor r \<le> 12000
   \<and> calculate_adjustment_factor (r + d) \<le> calculate_adjustment_factor r
   \<and> (low_risk_threshold \<le> r \<and> r \<le> high_risk_threshold \<longrightarrow>
        calculate_adjustment_factor r = 12000 - (r - low_risk_threshold) * 7 div 5)"
proof -
  have f: "calculate_adjustment_factor q = (if q \<le> 2000 then 12000 else if 7000 \<le> q then 5000 else 12000 - (q - 2000) * 7 div 5)" for q
  proof -
    have "(q - 2000) * 7000 div 5000 = (q - 2000) * 7 div 5"
      using div_mult_mult1 [of 1000 "(q - 2000) * 7" 5] by (simp add: mult.commute mult.left_commute)
    moreover have "(q - 2000) * 7 div 5 < 2 ^ 32" if "q < 7000" using that by simp
    ultimately show ?thesis
      by (simp add: calculate_adjustment_factor_def low_risk_threshold_def high_risk_threshold_def Let_def)
  qed
  show ?thesis
    unfolding f low_risk_threshold_def high_risk_threshold_def by (auto intro: diff_le_mono2 div_le_mono)
qed

lemma adjustment_factor_bounds_witness: "calculate_adjustment_factor 4500 = 8500"
  using adjustment_factor_bounds [of 4500 0] by (simp add: low_risk_threshold_def high_risk_threshold_def)

end
