(* ===== verification/Statistics.thy ===== *)
theory Statistics
  imports Soroban Int_Sqrt "HOL-Library.Multiset"
begin

text \<open>
  The calculations of the main contract (\<open>soroban/src/lib.rs\<close>): composite health and risk scores,
  and the statistics of a price series: average, weighted average, standard deviation,
  volatility, extrema, median and percentiles by quickselect, rolling windows, correlation and
  the exponential average. The state is the part of the contract's storage these functions use.
  A vector has fewer than \<open>2 ^ 32\<close> elements, so indices are \<open>nat\<close>; the one index that can leave
  \<open>u32\<close>, the start of the rolling window, keeps its check.
\<close>

section \<open>Scores\<close>

record health_weights =
  hw_liquidity_weight :: nat
  hw_price_stability_weight :: nat
  hw_bridge_uptime_weight :: nat
  hw_version :: nat

record risk_score_config =
  rc_health_weight_bps :: nat
  rc_price_weight_bps :: nat
  rc_volatility_weight_bps :: nat
  rc_max_price_deviation_bps :: nat
  rc_max_volatility_bps :: nat
  rc_version :: nat

record risk_score_result =
  rr_risk_score_bps :: nat
  rr_normalized_health_risk_bps :: nat
  rr_normalized_price_risk_bps :: nat
  rr_normalized_volatility_risk_bps :: nat
  rr_health_score :: nat
  rr_price_deviation_bps :: nat
  rr_volatility_bps :: nat
  rr_config :: risk_score_config
  rr_timestamp :: nat

type_synonym 'a sres = "(unit, 'a) res"

definition default_health_weights :: health_weights where
  "default_health_weights = \<lparr> hw_liquidity_weight = 30, hw_price_stability_weight = 40,
     hw_bridge_uptime_weight = 30, hw_version = 1 \<rparr>"

definition default_risk_score_config :: risk_score_config where
  "default_risk_score_config = \<lparr> rc_health_weight_bps = 5000, rc_price_weight_bps = 2500,
     rc_volatility_weight_bps = 2500, rc_max_price_deviation_bps = 2000, rc_max_volatility_bps = 5000,
     rc_version = 1 \<rparr>"

definition validate_weights :: "nat \<Rightarrow> nat \<Rightarrow> nat \<Rightarrow> unit sres" where
  "validate_weights liq stab up =
     and_then (ensure (\<not> (100 < liq \<or> 100 < stab \<or> 100 < up)) (Panic ''each weight must be between 0 and 100'')) (\<lambda>_.
     ensure (liq + stab + up = 100) (Panic ''weights must sum to 100''))"

definition validate_score_range :: "nat \<Rightarrow> string \<Rightarrow> unit sres" where
  "validate_score_range score name = ensure (\<not> 100 < score) (Panic (name @ '' must be between 0 and 100''))"

definition validate_risk_score_config :: "risk_score_config \<Rightarrow> unit sres" where
  "validate_risk_score_config c =
     and_then (ensure (\<not> (10000 < rc_health_weight_bps c \<or> 10000 < rc_price_weight_bps c \<or> 10000 < rc_volatility_weight_bps c))
       (Panic ''risk weights must be between 0 and 10000'')) (\<lambda>_.
     and_then (ensure (rc_health_weight_bps c + rc_price_weight_bps c + rc_volatility_weight_bps c = 10000)
       (Panic ''risk weights must sum to 10000'')) (\<lambda>_.
     and_then (ensure (rc_max_price_deviation_bps c \<noteq> 0) (Panic ''max_price_deviation_bps must be greater than zero'')) (\<lambda>_.
     and_then (ensure (rc_max_volatility_bps c \<noteq> 0) (Panic ''max_volatility_bps must be greater than zero'')) (\<lambda>_.
     ensure (rc_version c \<noteq> 0) (Panic ''risk score config version must be greater than 0'')))))"

definition compute_composite :: "nat \<Rightarrow> nat \<Rightarrow> nat \<Rightarrow> health_weights \<Rightarrow> nat sres" where
  "compute_composite liq stab up w =
     and_then (mul_u64 liq (hw_liquidity_weight w)) (\<lambda>a.
     and_then (mul_u64 stab (hw_price_stability_weight w)) (\<lambda>b.
     and_then (add_u64 a b) (\<lambda>ab.
     and_then (mul_u64 up (hw_bridge_uptime_weight w)) (\<lambda>c.
     and_then (add_u64 ab c) (\<lambda>sum.
     Inr (sum div 100 mod 2 ^ 32))))))"

definition normalize_signal_to_bps :: "nat \<Rightarrow> nat \<Rightarrow> nat sres" where
  "normalize_signal_to_bps raw max_signal =
     (let clamped = (if max_signal < raw then max_signal else raw)
      in and_then (mul_u64 clamped 10000) (\<lambda>p.
         if max_signal = 0 then Inl Trap else Inr (p div max_signal mod 2 ^ 32)))"

definition clamp_bps_u64 :: "nat \<Rightarrow> nat" where
  "clamp_bps_u64 value = (if 10000 < value then 10000 else value)"

definition clamp_i128_to_u32 :: "int \<Rightarrow> nat" where
  "clamp_i128_to_u32 value = (if value \<le> 0 then 0 else if int u32_max < value then u32_max else nat value)"

definition build_risk_score_result :: "env \<Rightarrow> risk_score_config \<Rightarrow> nat \<Rightarrow> nat \<Rightarrow> nat \<Rightarrow> risk_score_result sres" where
  "build_risk_score_result env c health_score deviation volatility =
     and_then (mul_u32 (100 - health_score) 100) (\<lambda>h.
     and_then (normalize_signal_to_bps deviation (rc_max_price_deviation_bps c)) (\<lambda>p.
     and_then (normalize_signal_to_bps volatility (rc_max_volatility_bps c)) (\<lambda>v.
     and_then (mul_u64 h (rc_health_weight_bps c)) (\<lambda>a.
     and_then (mul_u64 p (rc_price_weight_bps c)) (\<lambda>b.
     and_then (add_u64 a b) (\<lambda>ab.
     and_then (mul_u64 v (rc_volatility_weight_bps c)) (\<lambda>d.
     and_then (add_u64 ab d) (\<lambda>sum.
     Inr \<lparr> rr_risk_score_bps = clamp_bps_u64 (sum div 10000), rr_normalized_health_risk_bps = h,
           rr_normalized_price_risk_bps = p, rr_normalized_volatility_risk_bps = v,
           rr_health_score = health_score, rr_price_deviation_bps = deviation, rr_volatility_bps = volatility,
           rr_config = c, rr_timestamp = timestamp env \<rparr>))))))))"

section \<open>Statistics of a series\<close>

text \<open>\<open>sum.checked_add(v).unwrap_or(sum)\<close>: an element that overflows is left out.\<close>

definition add_or_keep :: "int \<Rightarrow> int \<Rightarrow> int" where
  "add_or_keep acc v = unwrap_or (checked_i128 (acc + v)) acc"

definition calculate_average :: "int list \<Rightarrow> int sres" where
  "calculate_average values =
     (if values = [] then Inr 0
      else div_i128 (fold (\<lambda>v acc. add_or_keep acc v) values 0) (int (length values)))"

fun vwap_loop :: "(int \<times> int) list \<Rightarrow> int \<Rightarrow> int \<Rightarrow> (int \<times> int) sres" where
  "vwap_loop [] weighted volumes = Inr (weighted, volumes)"
| "vwap_loop ((v, volume) # rest) weighted volumes =
     and_then (mul_i128 v volume) (\<lambda>p.
     vwap_loop rest (add_or_keep weighted p) (add_or_keep volumes volume))"

definition volume_weighted_avg :: "int list \<Rightarrow> int list \<Rightarrow> int sres" where
  "volume_weighted_avg values volumes =
     and_then (ensure (length values = length volumes) (Panic ''values and volumes must have same length'')) (\<lambda>_.
     if values = [] then Inr 0
     else and_then (vwap_loop (zip values volumes) 0 0) (\<lambda>(weighted, volume).
          if volume = 0 then Inr 0 else div_i128 weighted volume))"

fun sum_squares :: "int \<Rightarrow> int list \<Rightarrow> int \<Rightarrow> int sres" where
  "sum_squares mean [] acc = Inr acc"
| "sum_squares mean (v # vs) acc =
     and_then (sub_i128 v mean) (\<lambda>diff.
     and_then (mul_i128 diff diff) (\<lambda>sq.
     sum_squares mean vs (add_or_keep acc sq)))"

definition calculate_stddev :: "int list \<Rightarrow> int sres" where
  "calculate_stddev values =
     (if length values < 2 then Inr 0
      else and_then (calculate_average values) (\<lambda>mean.
           and_then (sum_squares mean values 0) (\<lambda>s.
           and_then (div_i128 s (int (length values))) integer_sqrt)))"

fun price_returns :: "int list \<Rightarrow> int list sres" where
  "price_returns (p # q # rest) =
     and_then (if p = 0 then Inr 0
               else and_then (sub_i128 q p) (\<lambda>d. and_then (mul_i128 d 10000) (\<lambda>m. div_i128 m p))) (\<lambda>r.
     and_then (price_returns (q # rest)) (\<lambda>rs. Inr (r # rs)))"
| "price_returns _ = Inr []"

definition calculate_volatility :: "int list \<Rightarrow> nat \<Rightarrow> int sres" where
  "calculate_volatility prices period_secs =
     (if length prices < 2 then Inr 0
      else and_then (price_returns prices) (\<lambda>returns.
           and_then (calculate_stddev returns) (\<lambda>stddev.
           if period_secs = 0 then Inr stddev
           else and_then (div_i128 (31536000 * 10000) (int period_secs)) (\<lambda>q.
                and_then (integer_sqrt q) (\<lambda>factor.
                and_then (mul_i128 stddev factor) (\<lambda>m. div_i128 m 100))))))"

definition calculate_min_max :: "int list \<Rightarrow> int \<times> int" where
  "calculate_min_max values = (case values of
     [] \<Rightarrow> (0, 0)
   | x # _ \<Rightarrow> fold (\<lambda>v (lo, hi). (if v < lo then v else lo, if hi < v then v else hi)) values (x, x))"

text \<open>The insertion sort of small vectors, on indices as in the code.\<close>

fun sift :: "int \<Rightarrow> nat \<Rightarrow> int list \<Rightarrow> int list" where
  "sift key 0 xs = xs[0 := key]"
| "sift key (Suc j) xs = (if key < xs ! j then sift key j (xs[Suc j := xs ! j]) else xs[Suc j := key])"

definition insertion_sort :: "int list \<Rightarrow> int list" where
  "insertion_sort xs = fold (\<lambda>i ys. sift (ys ! i) i ys) [1 ..< length xs] xs"

function quick_select :: "int list \<Rightarrow> nat \<Rightarrow> int" where
  "quick_select values k =
     (if length values = 0 \<or> length values \<le> k then 0
      else if length values \<le> 5 then insertion_sort values ! k
      else
        let pivot = values ! (length values div 2);
            lows = filter (\<lambda>v. v < pivot) values;
            highs = filter (\<lambda>v. pivot < v) values;
            pivots = filter (\<lambda>v. \<not> v < pivot \<and> \<not> pivot < v) values
        in if k < length lows then quick_select lows k
           else if k < length lows + length pivots then pivot
           else quick_select highs (k - length lows - length pivots))"
  by pat_completeness auto

termination quick_select
  by (relation "measure (\<lambda>(values, k). length values)") (auto intro!: length_filter_less)

declare quick_select.simps [simp del]

text \<open>The bubble-sort loops of \<open>calculate_median\<close> have an empty body and no effect.\<close>

definition middle :: "int list \<Rightarrow> int sres" where
  "middle values =
     (let n = length values; mid = n div 2
      in if n mod 2 = 1 then Inr (quick_select values mid)
         else and_then (add_i128 (quick_select values (mid - 1)) (quick_select values mid)) (\<lambda>s. div_i128 s 2))"

definition calculate_median :: "int list \<Rightarrow> int sres" where
  "calculate_median values = (if length values = 0 then Inr 0 else middle values)"

definition calculate_percentiles :: "int list \<Rightarrow> (int \<times> int \<times> int) sres" where
  "calculate_percentiles values =
     (let n = length values
      in if n = 0 then Inr (0, 0, 0)
         else if n = 1 then Inr (values ! 0, values ! 0, values ! 0)
         else and_then (mul_u32 3 (n - 1)) (\<lambda>m.
              and_then (middle values) (\<lambda>p50.
              Inr (quick_select values ((n - 1) div 4), p50, quick_select values (m div 4)))))"

text \<open>
  The rolling window: a \<open>while\<close> loop, so that not returning is the value \<open>None\<close>. Both
  \<open>start + window_size\<close> and \<open>start += step\<close> are \<open>u32\<close> additions.
\<close>

partial_function (option) rolling_loop :: "int list \<Rightarrow> nat \<Rightarrow> nat \<Rightarrow> nat \<Rightarrow> int list \<Rightarrow> int list sres option" where
  "rolling_loop values window_size step start results =
     (case add_u32 start window_size of
        Inl f \<Rightarrow> Some (Inl f)
      | Inr stop \<Rightarrow>
          if stop \<le> length values then
            (case calculate_average (take window_size (drop start values)) of
               Inl f \<Rightarrow> Some (Inl f)
             | Inr avg \<Rightarrow>
                 (case add_u32 start step of
                    Inl f \<Rightarrow> Some (Inl f)
                  | Inr next_start \<Rightarrow> rolling_loop values window_size step next_start (results @ [avg])))
          else Some (Inr results))"

definition calculate_rolling_statistics :: "int list \<Rightarrow> nat \<Rightarrow> nat \<Rightarrow> int list sres option" where
  "calculate_rolling_statistics values window_size step =
     (if window_size = 0 \<or> step = 0 \<or> length values < window_size then Some (Inr [])
      else rolling_loop values window_size step 0 [])"

fun correlation_loop :: "int \<Rightarrow> int \<Rightarrow> (int \<times> int) list \<Rightarrow> int \<Rightarrow> int \<Rightarrow> int \<Rightarrow> (int \<times> int \<times> int) sres" where
  "correlation_loop mean_x mean_y [] cov var_x var_y = Inr (cov, var_x, var_y)"
| "correlation_loop mean_x mean_y ((xi, yi) # rest) cov var_x var_y =
     and_then (sub_i128 xi mean_x) (\<lambda>dx.
     and_then (sub_i128 yi mean_y) (\<lambda>dy.
     and_then (mul_i128 dx dy) (\<lambda>dxy.
     and_then (mul_i128 dx dx) (\<lambda>dxx.
     and_then (mul_i128 dy dy) (\<lambda>dyy.
     correlation_loop mean_x mean_y rest (add_or_keep cov dxy) (add_or_keep var_x dxx) (add_or_keep var_y dyy))))))"

definition calculate_correlation :: "int list \<Rightarrow> int list \<Rightarrow> int sres" where
  "calculate_correlation x y =
     (if length x \<noteq> length y \<or> length x < 2 then Inr 0
      else and_then (calculate_average x) (\<lambda>mean_x.
           and_then (calculate_average y) (\<lambda>mean_y.
           and_then (correlation_loop mean_x mean_y (zip x y) 0 0 0) (\<lambda>(cov, var_x, var_y).
           and_then (div_i128 cov (int (length x))) (\<lambda>cov.
           and_then (div_i128 var_x (int (length x))) (\<lambda>var_x.
           and_then (div_i128 var_y (int (length x))) (\<lambda>var_y.
           and_then (integer_sqrt var_x) (\<lambda>std_x.
           and_then (integer_sqrt var_y) (\<lambda>std_y.
           if std_x = 0 \<or> std_y = 0 then Inr 0
           else and_then (mul_i128 cov 10000) (\<lambda>c.
                and_then (mul_i128 std_x std_y) (\<lambda>d. div_i128 c d)))))))))))"

definition ema_step :: "int \<Rightarrow> int \<Rightarrow> int \<Rightarrow> int sres" where
  "ema_step alpha v ema =
     and_then (mul_i128 alpha v) (\<lambda>a.
     and_then (sub_i128 10000 alpha) (\<lambda>rest.
     and_then (mul_i128 rest ema) (\<lambda>b.
     and_then (add_i128 a b) (\<lambda>s. div_i128 s 10000))))"

fun ema_loop :: "int \<Rightarrow> int list \<Rightarrow> int \<Rightarrow> int sres" where
  "ema_loop alpha [] ema = Inr ema"
| "ema_loop alpha (v # vs) ema = and_then (ema_step alpha v ema) (ema_loop alpha vs)"

definition calculate_ema :: "int list \<Rightarrow> int \<Rightarrow> int sres" where
  "calculate_ema values smoothing_factor = (case values of
     [] \<Rightarrow> Inr 0
   | v # vs \<Rightarrow>
       and_then (ensure (\<not> (smoothing_factor \<le> 0 \<or> 10000 < smoothing_factor))
         (Panic ''smoothing factor must be between 1 and 10000'')) (\<lambda>_.
       ema_loop smoothing_factor vs v))"

definition calculate_latest_price_deviation_bps :: "int list \<Rightarrow> nat sres" where
  "calculate_latest_price_deviation_bps prices =
     (if prices = [] then Inr 0
      else and_then (calculate_average prices) (\<lambda>average.
           if average \<le> 0 then Inr 0
           else let latest = prices ! (length prices - 1)
                in and_then (if average < latest then sub_i128 latest average else sub_i128 average latest) (\<lambda>diff.
                   and_then (mul_i128 diff 10000) (\<lambda>m.
                   and_then (div_i128 m average) (\<lambda>q. Inr (clamp_i128_to_u32 q))))))"

section \<open>Quickselect finds the order statistics\<close>

lemma sorted_mset_unique: "sorted xs \<Longrightarrow> sorted ys \<Longrightarrow> mset xs = mset ys \<Longrightarrow> xs = (ys :: int list)"
  by (metis properties_for_sort sorted_sort_id)

lemma sift_insort: "sorted ys \<Longrightarrow> sift key (length ys) (ys @ x # zs) = insort key ys @ zs"
proof (induction ys arbitrary: x zs rule: rev_induct)
  case (snoc u us)
  have at: "(us @ [u] @ x # zs) ! length us = u" by (simp add: nth_append)
  show ?case
  proof (cases "key < u")
    case True
    have "insort key (us @ [u]) = insort key us @ [u]"
    proof (rule sorted_mset_unique)
      show "sorted (insort key us @ [u])"
        using snoc.prems True by (auto simp: sorted_append sorted_insort set_insort_key)
    qed (use snoc.prems in \<open>auto simp: sorted_insort\<close>)
    with snoc.IH [of u "u # zs"] snoc.prems True at show ?thesis
      by (simp add: list_update_append sorted_append)
  next
    case False
    have "insort key (us @ [u]) = us @ [u, key]"
    proof (rule sorted_mset_unique)
      show "sorted (us @ [u, key])"
        using snoc.prems False by (force simp: sorted_append)
    qed (use snoc.prems in \<open>auto simp: sorted_insort\<close>)
    with False at show ?thesis by (simp add: list_update_append)
  qed
qed simp

lemma insertion_sort_prefix:
  "Suc i \<le> length xs \<Longrightarrow>
   fold (\<lambda>i ys. sift (ys ! i) i ys) [1 ..< Suc i] xs = sort (take (Suc i) xs) @ drop (Suc i) xs"
proof (induction i)
  case 0
  then show ?case by (cases xs) simp_all
next
  case (Suc i)
  let ?s = "sort (take (Suc i) xs)"
  have len: "length ?s = Suc i" using Suc.prems by simp
  have split: "drop (Suc i) xs = xs ! Suc i # drop (Suc (Suc i)) xs"
    using Suc.prems by (simp add: Cons_nth_drop_Suc)
  have at: "(?s @ drop (Suc i) xs) ! Suc i = xs ! Suc i" using len Suc.prems by (simp add: nth_append)
  have ins: "insort (xs ! Suc i) ?s = sort (take (Suc (Suc i)) xs)"
    by (rule sorted_mset_unique) (use Suc.prems in \<open>auto simp: sorted_insort take_Suc_conv_app_nth\<close>)
  have "fold (\<lambda>i ys. sift (ys ! i) i ys) [1 ..< Suc (Suc i)] xs
      = sift (xs ! Suc i) (Suc i) (?s @ drop (Suc i) xs)"
    using Suc.IH Suc.prems at by simp
  also have "\<dots> = insort (xs ! Suc i) ?s @ drop (Suc (Suc i)) xs"
    using sift_insort [of ?s "xs ! Suc i" "xs ! Suc i" "drop (Suc (Suc i)) xs"] len split by simp
  finally show ?case using ins by simp
qed

lemma insertion_sort_sort: "insertion_sort xs = sort xs"
proof (cases xs)
  case (Cons a as)
  then show ?thesis using insertion_sort_prefix [of "length as" xs] by (simp add: insertion_sort_def)
qed (simp add: insertion_sort_def)

lemma sort_by_pivot:
  "sort (xs :: int list) =
     sort (filter (\<lambda>v. v < p) xs) @ filter (\<lambda>v. \<not> v < p \<and> \<not> p < v) xs @ sort (filter (\<lambda>v. p < v) xs)"
proof (rule sorted_mset_unique)
  let ?m = "filter (\<lambda>v. \<not> v < p \<and> \<not> p < v) xs"
  have "sorted ?m" by (induction xs) auto
  then show "sorted (sort (filter (\<lambda>v. v < p) xs) @ ?m @ sort (filter (\<lambda>v. p < v) xs))"
    by (auto simp: sorted_append)
  show "mset (sort xs) = mset (sort (filter (\<lambda>v. v < p) xs) @ ?m @ sort (filter (\<lambda>v. p < v) xs))"
    by (simp, induction xs) auto
qed simp

lemma pivot_middle:
  "i < length (filter (\<lambda>v. \<not> v < p \<and> \<not> p < v) xs) \<Longrightarrow> filter (\<lambda>v. \<not> v < p \<and> \<not> p < v) xs ! i = (p :: int)"
  by (drule nth_mem) simp

text \<open>C28: \<open>quick_select\<close>, the three-way partition with an insertion sort for short vectors, returns
  for every index inside the vector the element that sorting the vector would put there; outside
  it returns \<open>0\<close>.\<close>

theorem quick_select_order_statistic:
  "quick_select xs k = (if k < length xs then sort xs ! k else 0)"
proof (induction xs k rule: quick_select.induct)
  case (1 xs k)
  let ?n = "length xs"
  let ?p = "xs ! (?n div 2)"
  let ?lows = "filter (\<lambda>v. v < ?p) xs"
  let ?pivots = "filter (\<lambda>v. \<not> v < ?p \<and> \<not> ?p < v) xs"
  let ?highs = "filter (\<lambda>v. ?p < v) xs"
  show ?case
  proof (cases "k < ?n \<and> \<not> ?n \<le> 5")
    case False
    then show ?thesis by (subst quick_select.simps) (auto simp: insertion_sort_sort)
  next
    case True
    then have guard: "\<not> (?n = 0 \<or> ?n \<le> k)" by auto
    have parts: "length ?lows + length ?pivots + length ?highs = ?n" 
      using arg_cong [OF sort_by_pivot [of xs ?p], of length] by simp
    have step: "quick_select xs k =
       (if k < length ?lows then quick_select ?lows k
        else if k < length ?lows + length ?pivots then ?p
        else quick_select ?highs (k - length ?lows - length ?pivots))"
      using True by (subst quick_select.simps) (simp only: Let_def if_False guard)
    have low: "k < length ?lows \<Longrightarrow> quick_select ?lows k = sort ?lows ! k"
      using "1.IH"(1) [OF guard _ refl refl refl refl] True by simp
    have in_highs: "\<not> k < length ?lows + length ?pivots \<Longrightarrow> k - length ?lows - length ?pivots < length ?highs"
      using True parts by linarith
    have high: "\<not> k < length ?lows \<Longrightarrow> \<not> k < length ?lows + length ?pivots \<Longrightarrow>
       quick_select ?highs (k - length ?lows - length ?pivots) = sort ?highs ! (k - length ?lows - length ?pivots)"
      using "1.IH"(2) [OF guard _ refl refl refl refl] in_highs True by simp
    have nth: "sort xs ! k =
       (if k < length ?lows then sort ?lows ! k
        else if k < length ?lows + length ?pivots then ?p
        else sort ?highs ! (k - length ?lows - length ?pivots))"
      using pivot_middle [of "k - length ?lows" ?p xs]
      by (subst sort_by_pivot [of xs ?p]) (auto simp: nth_append)
    have "quick_select xs k = sort xs ! k"
    proof (cases "k < length ?lows")
      case False
      then show ?thesis
        by (cases "k < length ?lows + length ?pivots") (simp_all only: step nth high if_True if_False not_False_eq_True)
    qed (simp only: step nth low if_True)
    with True show ?thesis by simp
  qed
qed

section \<open>Averages, rolling windows and the exponential average\<close>

lemma sdiv_between:
  assumes "0 < (c :: int)" "lo * c \<le> x" "x \<le> hi * c"
  shows "lo \<le> x sdiv c \<and> x sdiv c \<le> hi"
proof (cases "0 \<le> x")
  case True
  then have "x sdiv c = x div c" using assms(1) by (simp add: sdiv_nonneg)
  moreover have "lo \<le> x div c" using assms le_zdiv_iff [of c lo x] by simp
  moreover have "x div c \<le> hi" using zdiv_mono1 [OF assms(3, 1)] assms(1) by simp
  ultimately show ?thesis by simp
next
  case False
  then have eq: "x sdiv c = - ((- x) div c)" using assms(1) by (simp add: signed_divide_int_def)
  have "- hi \<le> (- x) div c" using assms le_zdiv_iff [of c "- hi" "- x"] by simp
  moreover have "(- x) div c \<le> - lo" using zdiv_mono1 [of "- x" "(- lo) * c" c] assms by (simp del: mult_minus_left)
  ultimately show ?thesis using eq by simp
qed

lemma div_i128_between:
  assumes "0 < c" "lo * c \<le> x" "x \<le> hi * c" "in_i128 lo" "in_i128 hi"
  obtains q where "div_i128 x c = Inr q" "q = x sdiv c" "lo \<le> q" "q \<le> hi"
  using assms sdiv_between [OF assms(1-3)] by (auto simp: div_i128_def in_i128_def)

lemma add_or_keep_in: "in_i128 acc \<Longrightarrow> in_i128 (add_or_keep acc v)"
  by (cases "in_i128 (acc + v)") (auto simp: add_or_keep_def checked_i128_def)

lemma fold_add_in: "in_i128 acc \<Longrightarrow> in_i128 (fold (\<lambda>v acc. add_or_keep acc v) xs acc)"
  by (induction xs arbitrary: acc) (auto intro: add_or_keep_in)

lemma div_i128_total: "in_i128 x \<Longrightarrow> 0 < c \<Longrightarrow> div_i128 x c = Inr (x sdiv c)"
proof -
  assume a: "in_i128 x" "0 < c"
  have "i128_min * c \<le> x" "x \<le> i128_max * c"
  proof -
    have "i128_min * c \<le> i128_min * 1" using a(2) by (simp add: i128_min_def)
    then show "i128_min * c \<le> x" using a(1) by (simp add: in_i128_def)
    have "i128_max * 1 \<le> i128_max * c" using a(2) by (simp add: i128_max_def)
    then show "x \<le> i128_max * c" using a(1) by (simp add: in_i128_def)
  qed
  from sdiv_between [OF a(2) this] a(2) show ?thesis by (simp add: div_i128_def i_checked_def in_i128_def)
qed

definition average :: "int list \<Rightarrow> int" where
  "average xs = (if xs = [] then 0 else fold (\<lambda>v acc. add_or_keep acc v) xs 0 sdiv int (length xs))"

lemma calculate_average_total [simp]: "calculate_average xs = Inr (average xs)"
  using div_i128_total [OF fold_add_in [OF in_i128_0, of xs], of "int (length xs)"]
  by (cases xs) (auto simp: calculate_average_def average_def)

lemma fold_add_exact:
  assumes "\<And>i. i \<le> length xs \<Longrightarrow> in_i128 (acc + sum_list (take i xs))"
  shows "fold (\<lambda>v acc. add_or_keep acc v) xs acc = acc + sum_list xs"
  using assms
proof (induction xs arbitrary: acc)
  case (Cons x xs)
  have "in_i128 (acc + x)" using Cons.prems [of 1] by simp
  then have "add_or_keep acc x = acc + x" by (simp add: add_or_keep_def checked_i128_def)
  moreover have "in_i128 (acc + x + sum_list (take i xs))" if "i \<le> length xs" for i
    using Cons.prems [of "Suc i"] that by (simp add: add.assoc)
  ultimately show ?case using Cons.IH [of "acc + x"] by (simp add: add.assoc)
qed simp

lemma sum_list_bounds:
  "(\<And>v. v \<in> set xs \<Longrightarrow> lo \<le> v \<and> v \<le> hi) \<Longrightarrow>
   lo * int (length xs) \<le> sum_list xs \<and> sum_list xs \<le> hi * int (length xs)"
proof (induction xs)
  case (Cons x xs)
  then have "lo \<le> x \<and> x \<le> hi" "lo * int (length xs) \<le> sum_list xs \<and> sum_list xs \<le> hi * int (length xs)"
    by simp_all
  then show ?case by (simp add: algebra_simps)
qed simp

lemma prefix_sum_in:
  assumes "\<And>v. v \<in> set xs \<Longrightarrow> \<bar>v\<bar> \<le> B" "B * int (length xs) \<le> i128_max" "0 \<le> B" "i \<le> length xs"
  shows "in_i128 (sum_list (take i xs))"
proof -
  have "- B \<le> v \<and> v \<le> B" if "v \<in> set (take i xs)" for v
    using assms(1) [OF in_set_takeD [OF that]] by linarith
  from sum_list_bounds [of "take i xs" "- B" B, OF this] assms(4)
  have "- (B * int i) \<le> sum_list (take i xs)" "sum_list (take i xs) \<le> B * int i" by simp_all
  moreover have "B * int i \<le> B * int (length xs)" using assms(3, 4) by (simp add: mult_left_mono)
  ultimately show ?thesis using assms(2) by (simp add: in_i128_def i128_min_def i128_max_def)
qed

lemma min_max_fold:
  "fold (\<lambda>v (lo, hi). (if v < lo then v else lo, if hi < v then v else hi)) xs (lo, hi)
     = (Min (insert lo (set xs)), Max (insert (hi :: int) (set xs)))"
proof (induction xs arbitrary: lo hi)
  case (Cons v vs)
  have "Min (insert (if v < lo then v else lo) (set vs)) = Min (insert lo (insert v (set vs)))"
    by (cases "set vs = {}") (auto simp: min_def)
  moreover have "Max (insert (if hi < v then v else hi) (set vs)) = Max (insert hi (insert v (set vs)))"
    by (cases "set vs = {}") (auto simp: max_def)
  ultimately show ?case using Cons.IH by (simp only: fold_simps case_prod_conv list.set o_apply)
qed simp

lemma calculate_min_max_eq:
  "xs \<noteq> [] \<Longrightarrow> calculate_min_max xs = (Min (set xs), Max (set xs))"
  by (cases xs) (simp_all add: calculate_min_max_def min_max_fold insert_absorb)

text \<open>Also: When the sum of the magnitudes fits in \<open>i128\<close>, the average of a series is its sum divided
  by its length, rounded towards zero, and lies between the extrema that \<open>calculate_min_max\<close>
  returns. (An element whose addition would overflow is silently left out of the sum.)\<close>

theorem average_between_extrema:
  assumes "xs \<noteq> []" "\<forall>v\<in>set xs. \<bar>v\<bar> \<le> B" "B * int (length xs) \<le> i128_max"
  shows "calculate_average xs = Inr (sum_list xs sdiv int (length xs))
    \<and> fst (calculate_min_max xs) \<le> sum_list xs sdiv int (length xs)
    \<and> sum_list xs sdiv int (length xs) \<le> snd (calculate_min_max xs)"
proof -
  have "0 \<le> B" using assms(1, 2) by (cases xs) force+
  then have "fold (\<lambda>v acc. add_or_keep acc v) xs 0 = sum_list xs"
    using fold_add_exact [of xs 0] prefix_sum_in [of xs B] assms(2, 3) by simp
  moreover have "Min (set xs) \<le> v \<and> v \<le> Max (set xs)" if "v \<in> set xs" for v using that by simp
  from sdiv_between [OF _ conjunct1 [OF sum_list_bounds [OF this]] conjunct2 [OF sum_list_bounds [OF this]]] assms(1)
  have "Min (set xs) \<le> sum_list xs sdiv int (length xs) \<and> sum_list xs sdiv int (length xs) \<le> Max (set xs)" by simp
  ultimately show ?thesis using assms(1) by (simp add: average_def calculate_min_max_eq)
qed

lemma average_between_extrema_witness:
  "calculate_average [7, -2, 4] = Inr 3 \<and> fst (calculate_min_max [7, -2, 4]) \<le> 3"
  using average_between_extrema [of "[7, -2, 4]" 7] by (simp add: i128_max_def signed_divide_int_def)

lemma rolling_from:
  assumes "0 < step" "w \<le> length xs" "length xs \<le> u32_max" "i \<le> Suc ((length xs - w) div step)" "i * step \<le> u32_max"
  shows "rolling_loop xs w step (i * step) results =
    Some (if Suc ((length xs - w) div step) * step + w \<le> u32_max
          then Inr (results @ map (\<lambda>j. average (take w (drop (j * step) xs))) [i ..< Suc ((length xs - w) div step)])
          else Inl Trap)"
  using assms(4, 5)
proof (induction "Suc ((length xs - w) div step) - i" arbitrary: i results)
  case 0
  let ?m = "(length xs - w) div step"
  have i: "i = Suc ?m" using 0 by simp
  have "length xs - w < Suc ?m * step" using assms(1) by (simp add: dividend_less_div_times)
  then have "\<not> i * step + w \<le> length xs" unfolding i by linarith
  then show ?case unfolding i by (subst rolling_loop.simps) (auto simp: u_checked_def)
next
  case (Suc d)
  let ?m = "(length xs - w) div step"
  have i: "i \<le> ?m" using Suc.hyps(2) by simp
  then have "i * step \<le> length xs - w" using assms(1) by (simp add: less_eq_div_iff_mult_less_eq)
  then have fits: "i * step + w \<le> length xs" using assms(2) by linarith
  have range: "[i ..< Suc ?m] = i # [Suc i ..< Suc ?m]" using i by (simp add: upt_conv_Cons)
  show ?case
  proof (cases "Suc i * step \<le> u32_max")
    case True
    have "rolling_loop xs w step (Suc i * step) (results @ [average (take w (drop (i * step) xs))]) =
      Some (if Suc ?m * step + w \<le> u32_max
          then Inr ((results @ [average (take w (drop (i * step) xs))])
            @ map (\<lambda>j. average (take w (drop (j * step) xs))) [Suc i ..< Suc ?m])
          else Inl Trap)"
      by (rule Suc.hyps(1)) (use Suc.hyps(2) i True in simp_all)
    moreover have "i * step + step = Suc i * step" by simp
    ultimately show ?thesis
      using True fits assms(3) unfolding range
      by (subst rolling_loop.simps) (simp add: u_checked_def del: mult_Suc)
  next
    case False
    have "Suc i * step \<le> Suc ?m * step" using i by (intro mult_le_mono) simp_all
    with False have "\<not> Suc ?m * step + w \<le> u32_max" by linarith
    with False fits assms(3) show ?thesis
      by (subst rolling_loop.simps) (auto simp: u_checked_def)
  qed
qed

text \<open>C32: The rolling window always returns: with a window and a step that are not zero it yields
  the averages of exactly the windows starting at \<open>0, step, 2 * step, \<dots>\<close> that lie inside the
  series, \<open>(n - window) div step + 1\<close> of them, unless the start of the window after the last one
  leaves \<open>u32\<close>, when the call traps although every window was computed.\<close>

theorem rolling_statistics_result:
  assumes "length xs \<le> u32_max"
  shows "calculate_rolling_statistics xs w step =
    (if w = 0 \<or> step = 0 \<or> length xs < w then Some (Inr [])
     else if ((length xs - w) div step + 1) * step + w \<le> u32_max
     then Some (Inr (map (\<lambda>j. average (take w (drop (j * step) xs))) [0 ..< (length xs - w) div step + 1]))
     else Some (Inl Trap))"
  using rolling_from [of step w xs 0 "[]"] assms
  by (simp add: calculate_rolling_statistics_def del: upt_Suc mult_Suc)

lemma rolling_statistics_result_witness:
  "calculate_rolling_statistics [1, 3, 5, 9, 11] 2 2 = Some (Inr [2, 7])
   \<and> calculate_rolling_statistics [1, 3] 1 4294967295 = Some (Inl Trap)"
  using rolling_statistics_result [of "[1, 3, 5, 9, 11]" 2 2] rolling_statistics_result [of "[1, 3]" 1 4294967295]
  by (simp add: u32_max_def average_def add_or_keep_def in_i128_def i128_min_def i128_max_def
      checked_i128_def signed_divide_int_def upt_rec)

section \<open>The exponential average\<close>

lemma weighted_between:
  assumes "0 \<le> a" "a \<le> (c :: int)" "lo \<le> v" "v \<le> hi" "lo \<le> e" "e \<le> hi"
  shows "lo * c \<le> a * v + (c - a) * e \<and> a * v + (c - a) * e \<le> hi * c"
proof -
  have "a * lo \<le> a * v" "a * v \<le> a * hi" using assms by (simp_all add: mult_left_mono)
  moreover have "(c - a) * lo \<le> (c - a) * e" "(c - a) * e \<le> (c - a) * hi" using assms by (simp_all add: mult_left_mono)
  ultimately show ?thesis by (simp add: algebra_simps)
qed

lemma small_product_in: "0 \<le> a \<Longrightarrow> a \<le> 10000 \<Longrightarrow> \<bar>v\<bar> * 10000 \<le> i128_max \<Longrightarrow> in_i128 (a * v)"
proof -
  assume a: "0 \<le> a" "a \<le> 10000" "\<bar>v\<bar> * 10000 \<le> i128_max"
  have "\<bar>a * v\<bar> \<le> 10000 * \<bar>v\<bar>" using a(1, 2) by (simp add: abs_mult mult_right_mono)
  with a(3) show ?thesis unfolding in_i128_def i128_min_def i128_max_def by linarith
qed

lemma ema_step_between:
  assumes "0 \<le> a" "a \<le> 10000" "lo \<le> v" "v \<le> hi" "lo \<le> e" "e \<le> hi"
    "\<bar>lo\<bar> * 10000 \<le> i128_max" "\<bar>hi\<bar> * 10000 \<le> i128_max"
  obtains r where "ema_step a v e = Inr r" "lo \<le> r" "r \<le> hi"
proof -
  let ?s = "a * v + (10000 - a) * e"
  have s: "lo * 10000 \<le> ?s" "?s \<le> hi * 10000" using weighted_between [OF assms(1-6)] by simp_all
  have v: "\<bar>v\<bar> * 10000 \<le> i128_max" and e: "\<bar>e\<bar> * 10000 \<le> i128_max" using assms by simp_all
  have "in_i128 (a * v)" "in_i128 ((10000 - a) * e)" "in_i128 (10000 - a)" "in_i128 ?s" "in_i128 lo" "in_i128 hi"
    using small_product_in [OF assms(1, 2) v] small_product_in [of "10000 - a" e] e s assms
    unfolding in_i128_def i128_min_def i128_max_def by linarith+
  moreover obtain q where "div_i128 ?s 10000 = (Inr q :: int sres)" "lo \<le> q" "q \<le> hi"
    using div_i128_between [of 10000 lo ?s hi] s \<open>in_i128 lo\<close> \<open>in_i128 hi\<close> by auto
  ultimately show thesis by (intro that [of q]) (simp_all add: ema_step_def i_checked_def)
qed

lemma ema_loop_between:
  assumes "0 \<le> a" "a \<le> 10000" "\<bar>lo\<bar> * 10000 \<le> i128_max" "\<bar>hi\<bar> * 10000 \<le> i128_max"
    "lo \<le> e" "e \<le> hi" "\<forall>v\<in>set vs. lo \<le> v \<and> v \<le> hi"
  shows "\<exists>r. ema_loop a vs e = Inr r \<and> lo \<le> r \<and> r \<le> hi"
  using assms(5-7)
proof (induction vs arbitrary: e)
  case (Cons v vs)
  obtain r where "ema_step a v e = Inr r" "lo \<le> r" "r \<le> hi"
    using ema_step_between [of a lo v hi e] assms(1-4) Cons.prems by auto
  with Cons show ?case by simp
qed simp

text \<open>Also: For a smoothing factor between 1 and 10000 and values small enough that ten thousand times
  their magnitude fits in \<open>i128\<close>, the exponential average never traps and stays between the
  smallest and the largest value of the series, also for negative values; any other factor is
  refused.\<close>

theorem ema_between_extrema:
  assumes "xs \<noteq> []" "\<forall>v\<in>set xs. \<bar>v\<bar> * 10000 \<le> i128_max"
  shows "(if 1 \<le> factor \<and> factor \<le> 10000
      then \<exists>r. calculate_ema xs factor = Inr r \<and> fst (calculate_min_max xs) \<le> r \<and> r \<le> snd (calculate_min_max xs)
      else calculate_ema xs factor = Inl (Panic ''smoothing factor must be between 1 and 10000''))"
proof (cases "1 \<le> factor \<and> factor \<le> 10000")
  case True
  obtain v vs where xs: "xs = v # vs" using assms(1) by (cases xs) auto
  have "Min (set xs) \<in> set xs" "Max (set xs) \<in> set xs" using assms(1) by simp_all
  then have "\<exists>r. ema_loop factor vs v = Inr r \<and> Min (set xs) \<le> r \<and> r \<le> Max (set xs)"
    using True xs assms(2) by (intro ema_loop_between) auto
  with True xs show ?thesis by (simp add: calculate_ema_def calculate_min_max_eq)
next
  case False
  with assms(1) show ?thesis by (cases xs) (auto simp: calculate_ema_def ensure_def)
qed

lemma ema_between_extrema_witness:
  "(\<exists>r. calculate_ema [10, -30, 5] 2500 = Inr r \<and> -30 \<le> r \<and> r \<le> 10)
   \<and> calculate_ema [10, -30, 5] 0 = Inl (Panic ''smoothing factor must be between 1 and 10000'')"
  using ema_between_extrema [of "[10, -30, 5]" 2500] ema_between_extrema [of "[10, -30, 5]" 0]
  by (simp add: i128_max_def calculate_min_max_def)

section \<open>Median and percentiles\<close>

text \<open>The middle of the sorted vector.\<close>

definition sorted_middle :: "int list \<Rightarrow> int" where
  "sorted_middle s = (let mid = length s div 2
     in if length s mod 2 = 1 then s ! mid else (s ! (mid - 1) + s ! mid) sdiv 2)"

lemma half_sum_between: "lo \<le> (a :: int) \<Longrightarrow> a \<le> b \<Longrightarrow> b \<le> hi \<Longrightarrow> a \<le> (a + b) sdiv 2 \<and> (a + b) sdiv 2 \<le> b"
  by (rule sdiv_between) simp_all

lemma middle_sorted:
  assumes "xs \<noteq> []" "\<forall>v\<in>set xs. \<bar>v\<bar> * 2 \<le> i128_max"
  shows "middle xs = Inr (sorted_middle (sort xs))"
proof -
  let ?s = "sort xs" and ?mid = "length xs div 2"
  have idx: "?mid < length xs" "?mid - 1 < length xs" using assms(1) by (auto simp: div_less_dividend less_imp_diff_less)
  have small: "\<bar>?s ! i\<bar> * 2 \<le> i128_max" if "i < length xs" for i
    using assms(2) that nth_mem [of i ?s] by simp
  have sum: "in_i128 (?s ! (?mid - 1) + ?s ! ?mid)"
    using small [OF idx(1)] small [OF idx(2)] unfolding in_i128_def i128_min_def i128_max_def by linarith
  with idx show ?thesis
    by (simp add: middle_def Let_def sorted_middle_def quick_select_order_statistic i_checked_def div_i128_total)
qed

text \<open>Also: The median depends only on the multiset of the values: it is the middle of the sorted
  vector, or the mean of its two middle elements rounded towards zero, whatever the order in which
  the values were recorded.\<close>

theorem median_order_independent:
  assumes "\<forall>v\<in>set xs. \<bar>v\<bar> * 2 \<le> i128_max" "mset ys = mset xs"
  shows "calculate_median xs = Inr (if xs = [] then 0 else sorted_middle (sort xs))
    \<and> calculate_median ys = (calculate_median xs :: int sres)"
proof -
  have same: "set ys = set xs" "sort ys = sort xs"
    using assms(2) mset_eq_setD by (blast, metis properties_for_sort mset_sort sorted_sort)
  show ?thesis
  proof (cases "xs = []")
    case True
    then show ?thesis using same(1) by (simp add: calculate_median_def)
  next
    case False
    then have "ys \<noteq> []" using same(1) by auto
    with False show ?thesis
      using middle_sorted [of xs] middle_sorted [of ys] same assms(1) by (simp add: calculate_median_def)
  qed
qed

lemma median_order_independent_witness:
  "calculate_median [8, 1, 5, 2] = Inr 3 \<and> calculate_median [1, 2, 5, 8] = (calculate_median [8, 1, 5, 2] :: int sres)"
  using median_order_independent [of "[8, 1, 5, 2]" "[1, 2, 5, 8]"]
  by (simp add: i128_max_def sorted_middle_def signed_divide_int_def)

lemma sorted_middle_between:
  assumes "sorted s" "s \<noteq> []"
  shows "s ! ((length s - 1) div 2) \<le> sorted_middle s \<and> sorted_middle s \<le> s ! (length s div 2)"
proof (cases "length s mod 2 = 1")
  case True
  then have "(length s - 1) div 2 = length s div 2" by presburger
  with True show ?thesis by (simp add: sorted_middle_def)
next
  case False
  then have i: "(length s - 1) div 2 = length s div 2 - 1" using assms(2) by (cases s) (simp_all, presburger)
  have "s ! (length s div 2 - 1) \<le> s ! (length s div 2)"
    using assms by (intro sorted_nth_mono) (auto intro: div_less_dividend)
  from half_sum_between [OF order_refl this order_refl] show ?thesis
    using False i by (simp add: sorted_middle_def Let_def)
qed

lemma sorted_nth_extrema:
  assumes "i < length xs"
  shows "Min (set xs) \<le> sort xs ! i \<and> sort xs ! i \<le> Max (set (xs :: int list))"
  using assms nth_mem [of i "sort xs"] by simp

text \<open>Also: The percentiles of a series that is neither empty nor of length two are ordered,
  \<open>p25 \<le> p50 \<le> p75\<close>, and lie between its extrema. A series of exactly two values breaks the order:
  the index \<open>3 * (n - 1) / 4\<close> is \<open>0\<close> there, so \<open>p75\<close> is the smaller value and equals \<open>p25\<close>.\<close>

theorem percentiles_ordered:
  assumes "xs \<noteq> []" "\<forall>v\<in>set xs. \<bar>v\<bar> * 2 \<le> i128_max" "3 * length xs \<le> u32_max"
  shows "\<exists>p25 p50 p75. calculate_percentiles xs = Inr (p25, p50, p75)
    \<and> fst (calculate_min_max xs) \<le> p25 \<and> p25 \<le> p50 \<and> p75 \<le> snd (calculate_min_max xs)
    \<and> (if length xs = 2 then p75 = p25 else p50 \<le> p75)"
proof (cases "length xs = 1")
  case True
  then obtain v where "xs = [v]" by (cases xs) auto
  then show ?thesis by (simp add: calculate_percentiles_def calculate_min_max_def)
next
  case False
  let ?n = "length xs" and ?s = "sort xs"
  let ?lo = "?s ! ((?n - 1) div 4)" and ?hi = "?s ! (3 * (?n - 1) div 4)"
  from False assms(1) have n: "2 \<le> ?n" by (cases xs; cases "tl xs") auto
  have idx: "(?n - 1) div 4 < ?n" "3 * (?n - 1) div 4 < ?n" using n by presburger+
  have run: "calculate_percentiles xs = Inr (?lo, sorted_middle ?s, ?hi)"
    using n idx assms(1, 3) middle_sorted [OF assms(1, 2)]
    by (simp add: calculate_percentiles_def Let_def quick_select_order_statistic u_checked_def)
  have "?lo \<le> ?s ! ((?n - 1) div 2)" using n by (intro sorted_nth_mono) simp_all
  moreover have ne: "?s \<noteq> []" using assms(1) by (metis length_0_conv length_sort)
  ultimately have lo: "?lo \<le> sorted_middle ?s"
    using sorted_middle_between [OF sorted_sort ne] by simp
  have hi: "sorted_middle ?s \<le> ?hi" if "?n \<noteq> 2"
  proof -
    have "?n div 2 \<le> 3 * (?n - 1) div 4" using that n by presburger
    then have "?s ! (?n div 2) \<le> ?hi" using n by (intro sorted_nth_mono) simp_all
    then show ?thesis using sorted_middle_between [OF sorted_sort ne] by simp
  qed
  have "Min (set xs) \<le> ?lo" "?hi \<le> Max (set xs)"
    using n sorted_nth_extrema [of "(?n - 1) div 4" xs] sorted_nth_extrema [of "3 * (?n - 1) div 4" xs] by simp_all
  with run lo hi show ?thesis using assms(1) by (auto simp: calculate_min_max_eq)
qed

lemma percentiles_ordered_witness:
  "\<exists>p25 p50 p75. calculate_percentiles [0, 10] = Inr (p25, p50, p75) \<and> p25 \<le> p50 \<and> p75 = p25"
  using percentiles_ordered [of "[0, 10]"] by (auto simp: i128_max_def u32_max_def)

lemma percentiles_of_two: "calculate_percentiles [0, 10] = Inr (0, 5, 0)"
  by (simp add: calculate_percentiles_def middle_def quick_select_order_statistic div_i128_def i_checked_def
      in_i128_def u_checked_def u32_max_def i128_min_def i128_max_def signed_divide_int_def)

section \<open>Scores\<close>

lemma weighted_nat_between:
  assumes "u + v + w = (c :: nat)" "lo \<le> a" "lo \<le> b" "lo \<le> d" "a \<le> hi" "b \<le> hi" "d \<le> hi"
  shows "lo * c \<le> a * u + b * v + d * w \<and> a * u + b * v + d * w \<le> hi * c"
proof -
  have "x * c = x * u + x * v + x * w" for x by (simp add: assms(1) [symmetric] distrib_left)
  then show ?thesis using assms(2-7) by (simp only:) (intro conjI add_mono mult_le_mono1; assumption)
qed

lemma div_nat_between: "0 < c \<Longrightarrow> lo * c \<le> x \<Longrightarrow> x \<le> hi * c \<Longrightarrow> lo \<le> x div c \<and> x div c \<le> (hi :: nat)"
  using div_le_mono [of x "hi * c" c] div_le_mono [of "lo * c" x c] by simp

text \<open>C34: With weights that \<open>set_health_weights\<close> accepts and component scores that
  \<open>submit_calculated_health\<close> accepts, the composite score is computed without a trap or a
  truncation, lies between the smallest and the largest component score, and so is a score
  itself.\<close>

theorem composite_is_score:
  assumes "validate_weights (hw_liquidity_weight w) (hw_price_stability_weight w) (hw_bridge_uptime_weight w) = Inr ()"
    "validate_score_range liq a = Inr ()" "validate_score_range stab b = Inr ()" "validate_score_range up c = Inr ()"
  shows "\<exists>score. compute_composite liq stab up w = Inr score
    \<and> min liq (min stab up) \<le> score \<and> score \<le> max liq (max stab up) \<and> score \<le> 100"
proof -
  let ?sum = "liq * hw_liquidity_weight w + stab * hw_price_stability_weight w + up * hw_bridge_uptime_weight w"
  have w: "hw_liquidity_weight w + hw_price_stability_weight w + hw_bridge_uptime_weight w = 100"
    and s: "liq \<le> 100" "stab \<le> 100" "up \<le> 100"
    using assms by (auto simp: validate_weights_def validate_score_range_def)
  have range: "min liq (min stab up) * 100 \<le> ?sum" "?sum \<le> max liq (max stab up) * 100"
    using weighted_nat_between [OF w, of "min liq (min stab up)" liq stab up "max liq (max stab up)"] by auto
  have "?sum \<le> 10000" using range(2) s by simp
  then have "compute_composite liq stab up w = Inr (?sum div 100)"
    by (simp add: compute_composite_def u_checked_def u64_max_def)
  with div_nat_between [OF _ range] s show ?thesis by auto
qed

lemma composite_is_score_witness:
  "\<exists>score. compute_composite 90 70 80 default_health_weights = Inr score \<and> 70 \<le> score \<and> score \<le> 90"
  using composite_is_score [of default_health_weights 90 "''l''" 70 "''p''" 80 "''u''"]
  by (auto simp: default_health_weights_def validate_weights_def validate_score_range_def)

lemma normalize_signal:
  assumes "raw \<le> u32_max" "0 < max_signal" "max_signal \<le> u32_max"
  shows "normalize_signal_to_bps raw max_signal = Inr (min raw max_signal * 10000 div max_signal)"
    "min raw max_signal * 10000 div max_signal \<le> 10000"
proof -
  have "min raw max_signal * 10000 \<le> max_signal * 10000" by simp
  from div_le_mono [OF this, of max_signal] assms(2)
  show le: "min raw max_signal * 10000 div max_signal \<le> 10000" by simp
  have "min raw max_signal * 10000 \<le> u64_max" using assms by (auto simp: u32_max_def u64_max_def min_def)
  then show "normalize_signal_to_bps raw max_signal = Inr (min raw max_signal * 10000 div max_signal)"
    using le assms(2) by (simp add: normalize_signal_to_bps_def Let_def min_def u_checked_def split: if_splits)
qed

lemma risk_score_value:
  assumes "validate_risk_score_config c = Inr ()" "h \<le> 100" "dev \<le> u32_max" "vol \<le> u32_max"
    "rc_max_price_deviation_bps c \<le> u32_max" "rc_max_volatility_bps c \<le> u32_max"
  defines "p \<equiv> min dev (rc_max_price_deviation_bps c) * 10000 div rc_max_price_deviation_bps c"
    and "v \<equiv> min vol (rc_max_volatility_bps c) * 10000 div rc_max_volatility_bps c"
  defines "total_risk \<equiv> (100 - h) * 100 * rc_health_weight_bps c + p * rc_price_weight_bps c + v * rc_volatility_weight_bps c"
  shows "total_risk \<le> 10000 * 10000"
    "\<exists>r. build_risk_score_result env c h dev vol = Inr r \<and> rr_risk_score_bps r = total_risk div 10000
      \<and> rr_normalized_health_risk_bps r = (100 - h) * 100 \<and> rr_normalized_price_risk_bps r = p
      \<and> rr_normalized_volatility_risk_bps r = v"
proof -
  have c: "rc_health_weight_bps c + rc_price_weight_bps c + rc_volatility_weight_bps c = 10000"
    "0 < rc_max_price_deviation_bps c" "0 < rc_max_volatility_bps c"
    using assms(1) by (auto simp: validate_risk_score_config_def)
  note p = normalize_signal [OF assms(3) c(2) assms(5), folded p_def]
  note v = normalize_signal [OF assms(4) c(3) assms(6), folded v_def]
  show le: "total_risk \<le> 10000 * 10000"
    using weighted_nat_between [OF c(1), of 0 "(100 - h) * 100" p v 10000] p(2) v(2) unfolding total_risk_def by simp
  from div_le_mono [OF this, of 10000] have "total_risk div 10000 \<le> 10000" by simp
  moreover have "(100 - h) * 100 \<le> u32_max" by (simp add: u32_max_def)
  moreover have "total_risk \<le> u64_max" using le by (simp add: u64_max_def)
  moreover have "(100 - h) * 100 * rc_health_weight_bps c \<le> u64_max" "p * rc_price_weight_bps c \<le> u64_max"
    "v * rc_volatility_weight_bps c \<le> u64_max"
    "(100 - h) * 100 * rc_health_weight_bps c + p * rc_price_weight_bps c \<le> u64_max"
    using \<open>total_risk \<le> u64_max\<close> unfolding total_risk_def by linarith+
  ultimately show "\<exists>r. build_risk_score_result env c h dev vol = Inr r \<and> rr_risk_score_bps r = total_risk div 10000
      \<and> rr_normalized_health_risk_bps r = (100 - h) * 100 \<and> rr_normalized_price_risk_bps r = p
      \<and> rr_normalized_volatility_risk_bps r = v"
    using p(1) v(1) unfolding total_risk_def
    by (simp add: build_risk_score_result_def u_checked_def clamp_bps_u64_def)
qed

text \<open>Also: With a configuration that \<open>set_risk_score_config\<close> accepts, the risk score of any health
  score up to 100 and any two signals is a number of basis points, at most 10000, computed without
  a trap, and it is monotone: a lower health score, a larger price deviation or a larger
  volatility never lowers it.\<close>

theorem risk_score_monotone:
  assumes "validate_risk_score_config c = Inr ()"
    "rc_max_price_deviation_bps c \<le> u32_max" "rc_max_volatility_bps c \<le> u32_max"
    "h' \<le> h" "h \<le> 100" "dev \<le> dev'" "dev' \<le> u32_max" "vol \<le> vol'" "vol' \<le> u32_max"
  shows "\<exists>r r'. build_risk_score_result env c h dev vol = Inr r \<and> build_risk_score_result env c h' dev' vol' = Inr r'
    \<and> rr_risk_score_bps r \<le> rr_risk_score_bps r' \<and> rr_risk_score_bps r' \<le> 10000"
proof -
  have mono: "min x m * 10000 div m \<le> min y m * 10000 div m" if "x \<le> y" for x y m :: nat
    using that by (intro div_le_mono mult_le_mono1) auto
  let ?p = "\<lambda>d. min d (rc_max_price_deviation_bps c) * 10000 div rc_max_price_deviation_bps c"
  let ?v = "\<lambda>d. min d (rc_max_volatility_bps c) * 10000 div rc_max_volatility_bps c"
  let ?sum = "\<lambda>h d v. (100 - h) * 100 * rc_health_weight_bps c + ?p d * rc_price_weight_bps c + ?v v * rc_volatility_weight_bps c"
  obtain r where r: "build_risk_score_result env c h dev vol = Inr r" "rr_risk_score_bps r = ?sum h dev vol div 10000"
    using risk_score_value(2) [OF assms(1, 5) _ _ assms(2, 3), of dev vol env] assms by auto
  obtain r' where r': "build_risk_score_result env c h' dev' vol' = Inr r'" "rr_risk_score_bps r' = ?sum h' dev' vol' div 10000"
    using risk_score_value(2) [OF assms(1) _ assms(7, 9, 2, 3), of h' env] assms by auto
  have "?sum h' dev' vol' \<le> 10000 * 10000"
    using risk_score_value(1) [OF assms(1) _ assms(7, 9, 2, 3), of h'] assms by auto
  from div_le_mono [OF this, of 10000] r'(2) have "rr_risk_score_bps r' \<le> 10000" by simp
  moreover have "?sum h dev vol \<le> ?sum h' dev' vol'"
    by (intro add_mono mult_le_mono1 mono diff_le_mono2 assms)
  then have "rr_risk_score_bps r \<le> rr_risk_score_bps r'" unfolding r(2) r'(2) by (rule div_le_mono)
  ultimately show ?thesis using r(1) r'(1) by blast
qed

lemma risk_score_monotone_witness:
  "\<exists>r r'. build_risk_score_result \<lparr> timestamp = 0, auths = [] \<rparr> default_risk_score_config 80 100 300 = Inr r
     \<and> build_risk_score_result \<lparr> timestamp = 0, auths = [] \<rparr> default_risk_score_config 60 500 300 = Inr r'
     \<and> rr_risk_score_bps r \<le> rr_risk_score_bps r' \<and> rr_risk_score_bps r' \<le> 10000"
proof -
  have "validate_risk_score_config default_risk_score_config = Inr ()"
    by (simp add: default_risk_score_config_def validate_risk_score_config_def)
  moreover have "rc_max_price_deviation_bps default_risk_score_config \<le> u32_max"
    "rc_max_volatility_bps default_risk_score_config \<le> u32_max"
    by (simp_all add: default_risk_score_config_def u32_max_def)
  ultimately show ?thesis
    using risk_score_monotone [of default_risk_score_config 60 80 100 500 300 300] u32_max_def by simp
qed

end
