(* ===== verification/Watch_Core.thy ===== *)
theory Watch_Core
  imports Access_Control
begin

text \<open>
  The administration of the watch contract (\<open>soroban/src/lib.rs\<close>): administrative roles, the
  two-step transfer of the admin, the global pause with its timelock, contract upgrades behind
  governance approvals, recovery mode, and the two bounded logs (admin activity and event replay)
  other entry points append to. \<open>core_state\<close> extends the access control state, and every
  operation is defined on all its extensions, so that the records of the assets can extend it
  again. Lemmas: the invariant of roles, approvals, upgrade history and logs, lifted to all
  histories.
\<close>

section \<open>Data\<close>

datatype admin_role = SuperAdminRole | HealthSubmitter | PriceSubmitter | AssetManager

record role_assignment =
  ra_address :: address
  ra_role :: admin_role

record pause_record =
  pz_paused :: bool
  pz_reason :: string
  pz_caller :: address
  pz_timestamp :: nat

record global_pause_state =
  gp_is_paused :: bool
  gp_reason :: string
  gp_paused_at :: nat
  gp_unpause_available_at :: nat
  gp_emergency_contact :: string

record pending_admin_transfer =
  pt_proposed_admin :: address
  pt_proposed_at :: nat
  pt_timeout_at :: nat

type_synonym wasm_hash = string

record upgrade_proposal =
  up_proposal_id :: nat
  up_proposer :: address
  up_new_wasm_hash :: wasm_hash
  up_proposed_at :: nat
  up_execute_after :: nat
  up_required_approvals :: nat
  up_approvals :: "address list"
  up_emergency :: bool
  up_migration_callback :: "address option"
  up_migration_payload :: "string option"
  up_is_rollback :: bool

record upgrade_execution_record =
  ue_proposal_id :: nat
  ue_executed_by :: address
  ue_from_version :: nat
  ue_to_version :: nat
  ue_has_from_wasm_hash :: bool
  ue_from_wasm_hash :: wasm_hash
  ue_to_wasm_hash :: wasm_hash
  ue_executed_at :: nat
  ue_emergency :: bool
  ue_is_rollback :: bool
  ue_has_migration_callback :: bool
  ue_migration_callback :: address

datatype admin_activity_action =
    HealthSubmittedAct | PriceSubmittedAct | AssetRegisteredAct | RoleGrantedAct | RoleRevokedAct
  | ContractPausedAct | ContractUnpausedAct | ConfigUpdatedAct | RecoveryEnteredAct | RecoveryExitedAct

record admin_activity_entry =
  aa_sequence :: nat
  aa_action :: admin_activity_action
  aa_actor :: address
  aa_detail :: string
  aa_timestamp :: nat

record event_replay_entry =
  er_event_id :: nat
  er_event_type :: string
  er_actor :: address
  er_subject :: string
  er_value :: int
  er_timestamp :: nat
  er_ordering_key :: nat
  er_schema_version :: nat

record recovery_step =
  rs_description :: string
  rs_completed :: bool
  rs_recorded_at :: nat
  rs_actor :: address

record recovery_summary =
  ry_active :: bool
  ry_reason :: string
  ry_entered_at :: nat
  ry_entered_by :: address
  ry_step_count :: nat

record core_state = acl_state +
  co_role_key :: "address \<rightharpoonup> admin_role list"
  co_roles_list :: "role_assignment list option"
  co_pause_guardian :: "address option"
  co_pause_reason :: "string option"
  co_paused_at :: "nat option"
  co_unpause_available_at :: "nat option"
  co_pause_history :: "pause_record list option"
  co_emergency_contact :: "string option"
  co_pending_transfer :: "pending_admin_transfer option"
  co_pending_upgrade :: "upgrade_proposal option"
  co_upgrade_counter :: "nat option"
  co_upgrade_history :: "upgrade_execution_record list option"
  co_contract_version :: "nat option"
  co_current_wasm_hash :: "wasm_hash option"
  co_rollback_target_hash :: "wasm_hash option"
  co_recovery_mode :: "bool option"
  co_recovery_reason :: "string option"
  co_recovery_entered_at :: "nat option"
  co_recovery_entered_by :: "address option"
  co_recovery_steps :: "recovery_step list option"
  co_activity_counter :: "nat option"
  co_activity_log :: "admin_activity_entry list option"
  co_replay_counter :: "nat option"
  co_replay_log :: "event_replay_entry list option"

type_synonym 'a wres = "(unit, 'a) res"

section \<open>Guards\<close>

definition admin_has_role :: "'z core_state_scheme \<Rightarrow> address \<Rightarrow> admin_role \<Rightarrow> bool" where
  "admin_has_role s a r = list_ex (\<lambda>x. x = r) (unwrap_or (co_role_key s a) [])"

definition check_permission :: "env \<Rightarrow> 'z core_state_scheme \<Rightarrow> address \<Rightarrow> admin_role \<Rightarrow> unit wres" where
  "check_permission env s caller required =
     and_then (require_auth env caller) (\<lambda>_.
     and_then (unwrap (ac_admin s)) (\<lambda>admin.
     if caller = admin then Inr ()
     else ensure (admin_has_role s caller SuperAdminRole \<or> admin_has_role s caller required)
       (Panic ''unauthorized: caller does not have the required role'')))"

definition check_no_pending_transfer :: "env \<Rightarrow> 'z core_state_scheme \<Rightarrow> unit wres" where
  "check_no_pending_transfer env s = (case co_pending_transfer s of
     None \<Rightarrow> Inr ()
   | Some p \<Rightarrow> ensure (\<not> timestamp env < pt_timeout_at p)
       (Panic ''admin functions are locked during a pending admin transfer''))"

text \<open>The checks of the functions that only the admin may call, with their own message.\<close>

definition require_contract_admin :: "env \<Rightarrow> 'z core_state_scheme \<Rightarrow> address \<Rightarrow> string \<Rightarrow> unit wres" where
  "require_contract_admin env s caller msg =
     and_then (require_auth env caller) (\<lambda>_.
     and_then (unwrap (ac_admin s)) (\<lambda>admin.
     ensure (caller = admin) (Panic msg)))"

text \<open>The same for the admin or a super admin, behind the pause and the pending transfer.\<close>

definition require_super_admin :: "env \<Rightarrow> 'z core_state_scheme \<Rightarrow> address \<Rightarrow> string \<Rightarrow> unit wres" where
  "require_super_admin env s caller msg =
     and_then (assert_not_globally_paused s) (\<lambda>_.
     and_then (require_auth env caller) (\<lambda>_.
     and_then (unwrap (ac_admin s)) (\<lambda>admin.
     and_then (check_no_pending_transfer env s) (\<lambda>_.
     ensure (caller = admin \<or> admin_has_role s caller SuperAdminRole) (Panic msg)))))"

section \<open>The logs\<close>

definition append_admin_activity :: "env \<Rightarrow> admin_activity_action \<Rightarrow> address \<Rightarrow> string
    \<Rightarrow> 'z core_state_scheme \<Rightarrow> 'z core_state_scheme wres" where
  "append_admin_activity env act actor detail s =
     and_then (add_u32 (unwrap_or (co_activity_counter s) 0) 1) (\<lambda>seq.
     let rec = \<lparr> aa_sequence = seq, aa_action = act, aa_actor = actor, aa_detail = detail,
                 aa_timestamp = timestamp env \<rparr>;
         log = unwrap_or (co_activity_log s) [] @ [rec]
     in Inr (s\<lparr> co_activity_counter := Some seq,
               co_activity_log := Some (if 500 < length log then tl log else log) \<rparr>))"

definition event_schema_version :: nat where "event_schema_version = 1"

text \<open>\<open>(now << 32) | (seq as u64)\<close> on \<open>u64\<close>: the shift drops the high bits.\<close>

definition ordering_key :: "nat \<Rightarrow> nat \<Rightarrow> nat" where
  "ordering_key now seq = or (push_bit 32 now mod 2 ^ 64) seq"

definition append_replay_event :: "env \<Rightarrow> string \<Rightarrow> address \<Rightarrow> string \<Rightarrow> int
    \<Rightarrow> 'z core_state_scheme \<Rightarrow> 'z core_state_scheme wres" where
  "append_replay_event env event_type actor subject v s =
     and_then (add_u32 (unwrap_or (co_replay_counter s) 0) 1) (\<lambda>seq.
     let now = timestamp env;
         rec = \<lparr> er_event_id = seq, er_event_type = event_type, er_actor = actor, er_subject = subject,
                 er_value = v, er_timestamp = now, er_ordering_key = ordering_key now seq,
                 er_schema_version = event_schema_version \<rparr>;
         log = unwrap_or (co_replay_log s) [] @ [rec]
     in Inr (s\<lparr> co_replay_counter := Some seq,
               co_replay_log := Some (if 1000 < length log then tl log else log) \<rparr>))"

fun replay_scan :: "nat \<Rightarrow> nat \<Rightarrow> event_replay_entry list \<Rightarrow> event_replay_entry list \<Rightarrow> event_replay_entry list" where
  "replay_scan from_key limit [] page = page"
| "replay_scan from_key limit (e # rest) page =
     (if limit \<le> length page then page
      else replay_scan from_key limit rest (if from_key \<le> er_ordering_key e then page @ [e] else page))"

definition get_replay_events :: "nat \<Rightarrow> nat \<Rightarrow> 'z core_state_scheme \<Rightarrow> (event_replay_entry list \<times> nat \<times> nat) wres" where
  "get_replay_events from_key limit s =
     and_then (ensure (\<not> 100 < limit) (Panic ''limit must not exceed 100'')) (\<lambda>_.
     let log = unwrap_or (co_replay_log s) []
     in Inr (replay_scan from_key limit log [], length log, event_schema_version))"

definition get_admin_activity :: "nat \<Rightarrow> nat \<Rightarrow> 'z core_state_scheme \<Rightarrow> (admin_activity_entry list \<times> nat) wres" where
  "get_admin_activity limit offset s =
     and_then (ensure (\<not> 50 < limit) (Panic ''limit must not exceed 50'')) (\<lambda>_.
     let log = unwrap_or (co_activity_log s) []
     in and_then (add_u32 offset limit) (\<lambda>e.
        let stop = (if e < length log then e else length log)
        in Inr (map (\<lambda>i. log ! i) [offset ..< stop], length log)))"

fun actor_scan :: "address \<Rightarrow> nat \<Rightarrow> admin_activity_entry list \<Rightarrow> nat \<Rightarrow> admin_activity_entry list \<Rightarrow> admin_activity_entry list" where
  "actor_scan actor limit log 0 result = result"
| "actor_scan actor limit log (Suc i) result =
     (if limit \<le> length result then result
      else actor_scan actor limit log i (if aa_actor (log ! i) = actor then result @ [log ! i] else result))"

definition get_admin_activity_by_actor :: "address \<Rightarrow> nat \<Rightarrow> 'z core_state_scheme \<Rightarrow> admin_activity_entry list wres" where
  "get_admin_activity_by_actor actor limit s =
     and_then (ensure (\<not> 50 < limit) (Panic ''limit must not exceed 50'')) (\<lambda>_.
     let log = unwrap_or (co_activity_log s) []
     in Inr (actor_scan actor limit log (length log) []))"

section \<open>Roles\<close>

definition core_initialize :: "env \<Rightarrow> address \<Rightarrow> 'z core_state_scheme \<Rightarrow> 'z core_state_scheme wres" where
  "core_initialize env admin s =
     and_then (require_auth env admin) (\<lambda>_.
     Inr (s\<lparr> ac_admin := Some admin, co_contract_version := Some 1, co_upgrade_counter := Some 0,
            co_upgrade_history := Some [] \<rparr>))"

definition grant_admin_role :: "env \<Rightarrow> address \<Rightarrow> address \<Rightarrow> admin_role \<Rightarrow> 'z core_state_scheme \<Rightarrow> 'z core_state_scheme wres" where
  "grant_admin_role env granter grantee r s =
     and_then (require_super_admin env s granter ''only SuperAdmin can grant roles'') (\<lambda>_.
     let roles = unwrap_or (co_role_key s grantee) []
     in if list_ex (\<lambda>x. x = r) roles then Inr s
        else Inr (s\<lparr> co_role_key := (co_role_key s)(grantee \<mapsto> roles @ [r]),
                    co_roles_list := Some (unwrap_or (co_roles_list s) [] @ [\<lparr> ra_address = grantee, ra_role = r \<rparr>]) \<rparr>))"

definition revoke_admin_role :: "env \<Rightarrow> address \<Rightarrow> address \<Rightarrow> admin_role \<Rightarrow> 'z core_state_scheme \<Rightarrow> 'z core_state_scheme wres" where
  "revoke_admin_role env revoker target r s =
     and_then (require_super_admin env s revoker ''only SuperAdmin can revoke roles'') (\<lambda>_.
     Inr (s\<lparr> co_role_key := (co_role_key s)(target \<mapsto> filter (\<lambda>x. x \<noteq> r) (unwrap_or (co_role_key s target) [])),
            co_roles_list := Some (filter (\<lambda>x. \<not> (ra_address x = target \<and> ra_role x = r))
                                     (unwrap_or (co_roles_list s) [])) \<rparr>))"

section \<open>Global pause\<close>

definition pause_log :: "env \<Rightarrow> bool \<Rightarrow> string \<Rightarrow> address \<Rightarrow> 'z core_state_scheme \<Rightarrow> 'z core_state_scheme" where
  "pause_log env paused reason caller s =
     s\<lparr> co_pause_history := Some (unwrap_or (co_pause_history s) []
          @ [\<lparr> pz_paused = paused, pz_reason = reason, pz_caller = caller, pz_timestamp = timestamp env \<rparr>]) \<rparr>"

definition emergency_pause :: "env \<Rightarrow> address \<Rightarrow> string \<Rightarrow> 'z core_state_scheme \<Rightarrow> 'z core_state_scheme wres" where
  "emergency_pause env caller reason s =
     and_then (require_auth env caller) (\<lambda>_.
     and_then (unwrap (ac_admin s)) (\<lambda>admin.
     and_then (ensure (caller = admin \<or> co_pause_guardian s = Some caller)
       (Panic ''only admin or pause guardian can trigger emergency pause'')) (\<lambda>_.
     and_then (add_u64 (timestamp env) 86400) (\<lambda>available.
     append_admin_activity env ContractPausedAct caller reason
       (pause_log env True reason caller
         (s\<lparr> ac_global_paused := Some True, co_pause_reason := Some reason,
            co_paused_at := Some (timestamp env), co_unpause_available_at := Some available \<rparr>))))))"

definition unpause :: "env \<Rightarrow> address \<Rightarrow> string \<Rightarrow> 'z core_state_scheme \<Rightarrow> 'z core_state_scheme wres" where
  "unpause env caller reason s =
     and_then (require_contract_admin env s caller ''only admin can unpause the contract'') (\<lambda>_.
     and_then (ensure (\<not> timestamp env < unwrap_or (co_unpause_available_at s) 0)
       (Panic ''unpause timelock has not elapsed yet'')) (\<lambda>_.
     append_admin_activity env ContractUnpausedAct caller reason
       (pause_log env False reason caller (s\<lparr> ac_global_paused := Some False \<rparr>))))"

definition set_pause_guardian :: "env \<Rightarrow> address \<Rightarrow> address \<Rightarrow> 'z core_state_scheme \<Rightarrow> 'z core_state_scheme wres" where
  "set_pause_guardian env caller guardian s =
     and_then (require_contract_admin env s caller ''only admin can set pause guardian'') (\<lambda>_.
     Inr (s\<lparr> co_pause_guardian := Some guardian \<rparr>))"

definition set_emergency_contact :: "env \<Rightarrow> address \<Rightarrow> string \<Rightarrow> 'z core_state_scheme \<Rightarrow> 'z core_state_scheme wres" where
  "set_emergency_contact env caller contact s =
     and_then (require_contract_admin env s caller ''only admin can set emergency contact'') (\<lambda>_.
     Inr (s\<lparr> co_emergency_contact := Some contact \<rparr>))"

definition watch_is_paused :: "'z core_state_scheme \<Rightarrow> bool" where
  "watch_is_paused s = unwrap_or (ac_global_paused s) False"

definition get_pause_status :: "'z core_state_scheme \<Rightarrow> global_pause_state" where
  "get_pause_status s = \<lparr> gp_is_paused = unwrap_or (ac_global_paused s) False,
     gp_reason = unwrap_or (co_pause_reason s) '''', gp_paused_at = unwrap_or (co_paused_at s) 0,
     gp_unpause_available_at = unwrap_or (co_unpause_available_at s) 0,
     gp_emergency_contact = unwrap_or (co_emergency_contact s) '''' \<rparr>"

section \<open>Transfer of the admin\<close>

definition propose_admin_transfer :: "env \<Rightarrow> address \<Rightarrow> address \<Rightarrow> 'z core_state_scheme \<Rightarrow> 'z core_state_scheme wres" where
  "propose_admin_transfer env caller proposed s =
     and_then (require_contract_admin env s caller ''only the current admin can propose a transfer'') (\<lambda>_.
     and_then (case co_pending_transfer s of None \<Rightarrow> Inr ()
               | Some p \<Rightarrow> ensure (\<not> timestamp env < pt_timeout_at p)
                   (Panic ''a pending transfer already exists; cancel it first'')) (\<lambda>_.
     and_then (add_u64 (timestamp env) 604800) (\<lambda>timeout.
     Inr (s\<lparr> co_pending_transfer := Some \<lparr> pt_proposed_admin = proposed, pt_proposed_at = timestamp env,
                                              pt_timeout_at = timeout \<rparr> \<rparr>))))"

definition accept_admin_transfer :: "env \<Rightarrow> address \<Rightarrow> 'z core_state_scheme \<Rightarrow> 'z core_state_scheme wres" where
  "accept_admin_transfer env caller s =
     and_then (require_auth env caller) (\<lambda>_.
     and_then (ok_or (co_pending_transfer s) (Panic ''no pending admin transfer'')) (\<lambda>p.
     and_then (ensure (\<not> pt_timeout_at p \<le> timestamp env) (Panic ''admin transfer proposal has expired'')) (\<lambda>_.
     and_then (ensure (caller = pt_proposed_admin p) (Panic ''caller is not the nominated new admin'')) (\<lambda>_.
     Inr (s\<lparr> ac_admin := Some caller, co_pending_transfer := None \<rparr>)))))"

definition cancel_admin_transfer :: "env \<Rightarrow> address \<Rightarrow> 'z core_state_scheme \<Rightarrow> 'z core_state_scheme wres" where
  "cancel_admin_transfer env caller s =
     and_then (require_contract_admin env s caller ''only the current admin can cancel a transfer'') (\<lambda>_.
     and_then (ensure (co_pending_transfer s \<noteq> None) (Panic ''no pending admin transfer to cancel'')) (\<lambda>_.
     Inr (s\<lparr> co_pending_transfer := None \<rparr>)))"

definition get_pending_transfer :: "env \<Rightarrow> 'z core_state_scheme \<Rightarrow> pending_admin_transfer option" where
  "get_pending_transfer env s = (case co_pending_transfer s of
     None \<Rightarrow> None
   | Some p \<Rightarrow> if pt_timeout_at p \<le> timestamp env then None else Some p)"

section \<open>Upgrades\<close>

definition vec_contains_address :: "address list \<Rightarrow> address \<Rightarrow> bool" where
  "vec_contains_address xs a = list_ex (\<lambda>x. x = a) xs"

definition governance_member_count :: "'z core_state_scheme \<Rightarrow> nat wres" where
  "governance_member_count s =
     and_then (unwrap (ac_admin s)) (\<lambda>admin.
     Inr (length (fold (\<lambda>x members.
            if ra_role x = SuperAdminRole \<and> \<not> vec_contains_address members (ra_address x)
            then members @ [ra_address x] else members)
          (unwrap_or (co_roles_list s) []) [admin])))"

definition div_ceil :: "nat \<Rightarrow> nat \<Rightarrow> nat" where
  "div_ceil a b = (a + b - 1) div b"

definition upgrade_approval_threshold :: "bool \<Rightarrow> 'z core_state_scheme \<Rightarrow> nat wres" where
  "upgrade_approval_threshold emergency s =
     and_then (governance_member_count s) (\<lambda>members.
     and_then (ensure (members \<noteq> 0) (Panic ''no governance members configured'')) (\<lambda>_.
     let standard = div_ceil members 2
     in if \<not> emergency then Inr standard
        else and_then (ensure (\<not> members < 2)
               (Panic ''emergency upgrades require at least two governance members'')) (\<lambda>_.
             and_then (mul_u32 members 2) (\<lambda>double.
             let e1 = div_ceil double 3;
                 e2 = (if e1 \<le> standard then standard + 1 else e1)
             in Inr (if members < e2 then members else e2)))))"

definition create_upgrade_proposal :: "env \<Rightarrow> address \<Rightarrow> wasm_hash \<Rightarrow> bool \<Rightarrow> address option \<Rightarrow> string option
    \<Rightarrow> bool \<Rightarrow> 'z core_state_scheme \<Rightarrow> (nat \<times> 'z core_state_scheme) wres" where
  "create_upgrade_proposal env caller new_hash emergency callback payload is_rollback s =
     and_then (ensure (\<not> (payload \<noteq> None \<and> callback = None))
       (Panic ''migration payload requires a migration callback'')) (\<lambda>_.
     and_then (upgrade_approval_threshold emergency s) (\<lambda>required.
     and_then (add_u64 (unwrap_or (co_upgrade_counter s) 0) 1) (\<lambda>pid.
     and_then (add_u64 (timestamp env) (if emergency then 0 else 172800)) (\<lambda>execute_after.
     Inr (pid, s\<lparr> co_upgrade_counter := Some pid,
       co_pending_upgrade := Some \<lparr> up_proposal_id = pid, up_proposer = caller, up_new_wasm_hash = new_hash,
         up_proposed_at = timestamp env, up_execute_after = execute_after, up_required_approvals = required,
         up_approvals = [caller], up_emergency = emergency, up_migration_callback = callback,
         up_migration_payload = payload, up_is_rollback = is_rollback \<rparr> \<rparr>)))))"

definition propose_upgrade :: "env \<Rightarrow> address \<Rightarrow> wasm_hash \<Rightarrow> bool \<Rightarrow> address option \<Rightarrow> string option
    \<Rightarrow> 'z core_state_scheme \<Rightarrow> (nat \<times> 'z core_state_scheme) wres" where
  "propose_upgrade env caller new_hash emergency callback payload s =
     and_then (check_permission env s caller SuperAdminRole) (\<lambda>_.
     and_then (check_no_pending_transfer env s) (\<lambda>_.
     and_then (ensure (co_pending_upgrade s = None) (Panic ''an upgrade proposal is already pending'')) (\<lambda>_.
     create_upgrade_proposal env caller new_hash emergency callback payload False s)))"

definition propose_rollback :: "env \<Rightarrow> address \<Rightarrow> bool \<Rightarrow> address option \<Rightarrow> string option
    \<Rightarrow> 'z core_state_scheme \<Rightarrow> (nat \<times> 'z core_state_scheme) wres" where
  "propose_rollback env caller emergency callback payload s =
     and_then (check_permission env s caller SuperAdminRole) (\<lambda>_.
     and_then (check_no_pending_transfer env s) (\<lambda>_.
     and_then (ensure (co_pending_upgrade s = None) (Panic ''an upgrade proposal is already pending'')) (\<lambda>_.
     and_then (ok_or (co_rollback_target_hash s) (Panic ''no rollback target is currently tracked'')) (\<lambda>h.
     create_upgrade_proposal env caller h emergency callback payload True s))))"

definition load_pending_upgrade :: "'z core_state_scheme \<Rightarrow> upgrade_proposal wres" where
  "load_pending_upgrade s = ok_or (co_pending_upgrade s) (Panic ''no pending upgrade proposal'')"

definition approve_upgrade :: "env \<Rightarrow> address \<Rightarrow> nat \<Rightarrow> 'z core_state_scheme \<Rightarrow> (nat \<times> 'z core_state_scheme) wres" where
  "approve_upgrade env caller pid s =
     and_then (check_permission env s caller SuperAdminRole) (\<lambda>_.
     and_then (check_no_pending_transfer env s) (\<lambda>_.
     and_then (load_pending_upgrade s) (\<lambda>p.
     and_then (ensure (up_proposal_id p = pid) (Panic ''upgrade proposal id does not match the pending proposal'')) (\<lambda>_.
     and_then (ensure (\<not> vec_contains_address (up_approvals p) caller)
       (Panic ''caller has already approved this upgrade proposal'')) (\<lambda>_.
     let p' = p\<lparr> up_approvals := up_approvals p @ [caller] \<rparr>
     in Inr (length (up_approvals p'), s\<lparr> co_pending_upgrade := Some p' \<rparr>))))))"

text \<open>\<open>self\<close> is \<open>env.current_contract_address()\<close>, the placeholder of an absent callback.\<close>

definition execution_record :: "address \<Rightarrow> env \<Rightarrow> address \<Rightarrow> upgrade_proposal \<Rightarrow> nat \<Rightarrow> wasm_hash option
    \<Rightarrow> upgrade_execution_record" where
  "execution_record self env caller p from_version from_hash =
     \<lparr> ue_proposal_id = up_proposal_id p, ue_executed_by = caller, ue_from_version = from_version,
       ue_to_version = sat_u32 (from_version + 1), ue_has_from_wasm_hash = (from_hash \<noteq> None),
       ue_from_wasm_hash = unwrap_or from_hash (replicate 32 (CHR 0x00)),
       ue_to_wasm_hash = up_new_wasm_hash p, ue_executed_at = timestamp env, ue_emergency = up_emergency p,
       ue_is_rollback = up_is_rollback p, ue_has_migration_callback = (up_migration_callback p \<noteq> None),
       ue_migration_callback = unwrap_or (up_migration_callback p) self \<rparr>"

definition execute_upgrade :: "address \<Rightarrow> env \<Rightarrow> address \<Rightarrow> nat \<Rightarrow> 'z core_state_scheme \<Rightarrow> 'z core_state_scheme wres" where
  "execute_upgrade self env caller pid s =
     and_then (check_permission env s caller SuperAdminRole) (\<lambda>_.
     and_then (check_no_pending_transfer env s) (\<lambda>_.
     and_then (load_pending_upgrade s) (\<lambda>p.
     and_then (ensure (up_proposal_id p = pid) (Panic ''upgrade proposal id does not match the pending proposal'')) (\<lambda>_.
     and_then (ensure (\<not> timestamp env < up_execute_after p) (Panic ''upgrade timelock has not elapsed'')) (\<lambda>_.
     and_then (ensure (\<not> length (up_approvals p) < up_required_approvals p)
       (Panic ''insufficient governance approvals'')) (\<lambda>_.
     let from_version = unwrap_or (co_contract_version s) 1;
         from_hash = co_current_wasm_hash s
     in Inr (s\<lparr> co_rollback_target_hash := (case from_hash of None \<Rightarrow> co_rollback_target_hash s | Some h \<Rightarrow> Some h),
               co_current_wasm_hash := Some (up_new_wasm_hash p),
               co_contract_version := Some (sat_u32 (from_version + 1)),
               co_upgrade_history := Some (unwrap_or (co_upgrade_history s) []
                 @ [execution_record self env caller p from_version from_hash]),
               co_pending_upgrade := None \<rparr>)))))))"

definition cancel_upgrade :: "env \<Rightarrow> address \<Rightarrow> nat \<Rightarrow> 'z core_state_scheme \<Rightarrow> 'z core_state_scheme wres" where
  "cancel_upgrade env caller pid s =
     and_then (check_permission env s caller SuperAdminRole) (\<lambda>_.
     and_then (load_pending_upgrade s) (\<lambda>p.
     and_then (ensure (up_proposal_id p = pid) (Panic ''upgrade proposal id does not match the pending proposal'')) (\<lambda>_.
     Inr (s\<lparr> co_pending_upgrade := None \<rparr>))))"

section \<open>Recovery mode\<close>

definition enter_recovery_mode :: "env \<Rightarrow> address \<Rightarrow> string \<Rightarrow> 'z core_state_scheme \<Rightarrow> 'z core_state_scheme wres" where
  "enter_recovery_mode env caller reason s =
     and_then (require_contract_admin env s caller ''only admin can enter recovery mode'') (\<lambda>_.
     and_then (ensure (\<not> unwrap_or (co_recovery_mode s) False) (Panic ''recovery mode already active'')) (\<lambda>_.
     and_then (append_replay_event env ''rec_entr'' caller reason 0
       (s\<lparr> co_recovery_mode := Some True, co_recovery_reason := Some reason,
          co_recovery_entered_at := Some (timestamp env), co_recovery_entered_by := Some caller,
          co_recovery_steps := Some [] \<rparr>)) (\<lambda>s1.
     append_admin_activity env RecoveryEnteredAct caller reason s1)))"

definition exit_recovery_mode :: "env \<Rightarrow> address \<Rightarrow> 'z core_state_scheme \<Rightarrow> 'z core_state_scheme wres" where
  "exit_recovery_mode env caller s =
     and_then (require_contract_admin env s caller ''only admin can exit recovery mode'') (\<lambda>_.
     and_then (ensure (unwrap_or (co_recovery_mode s) False) (Panic ''recovery mode is not active'')) (\<lambda>_.
     append_admin_activity env RecoveryExitedAct caller ''recovery mode ended''
       (s\<lparr> co_recovery_mode := Some False \<rparr>)))"

definition record_recovery_step :: "env \<Rightarrow> address \<Rightarrow> string \<Rightarrow> 'z core_state_scheme \<Rightarrow> 'z core_state_scheme wres" where
  "record_recovery_step env caller description s =
     and_then (require_contract_admin env s caller ''only admin can record recovery steps'') (\<lambda>_.
     and_then (ensure (unwrap_or (co_recovery_mode s) False) (Panic ''recovery mode is not active'')) (\<lambda>_.
     let steps = unwrap_or (co_recovery_steps s) []
     in and_then (ensure (\<not> 50 \<le> length steps) (Panic ''recovery step log is full (max 50)'')) (\<lambda>_.
        Inr (s\<lparr> co_recovery_steps := Some (steps @ [\<lparr> rs_description = description, rs_completed = True,
                 rs_recorded_at = timestamp env, rs_actor = caller \<rparr>]) \<rparr>))))"

definition get_recovery_state :: "address \<Rightarrow> 'z core_state_scheme \<Rightarrow> recovery_summary" where
  "get_recovery_state self s = \<lparr> ry_active = unwrap_or (co_recovery_mode s) False,
     ry_reason = unwrap_or (co_recovery_reason s) '''', ry_entered_at = unwrap_or (co_recovery_entered_at s) 0,
     ry_entered_by = unwrap_or (co_recovery_entered_by s) self,
     ry_step_count = length (unwrap_or (co_recovery_steps s) []) \<rparr>"

section \<open>Invocations\<close>

datatype core_call =
    CoInitialize address
  | CoGrantRole address address admin_role
  | CoRevokeRole address address admin_role
  | CoEmergencyPause address string
  | CoUnpause address string
  | CoSetPauseGuardian address address
  | CoSetEmergencyContact address string
  | CoProposeTransfer address address
  | CoAcceptTransfer address
  | CoCancelTransfer address
  | CoProposeUpgrade address wasm_hash bool "address option" "string option"
  | CoProposeRollback address bool "address option" "string option"
  | CoApproveUpgrade address nat
  | CoExecuteUpgrade address nat
  | CoCancelUpgrade address nat
  | CoEnterRecovery address string
  | CoExitRecovery address
  | CoRecordStep address string

fun core_exec :: "address \<Rightarrow> env \<Rightarrow> core_call \<Rightarrow> 'z core_state_scheme \<Rightarrow> 'z core_state_scheme wres" where
  "core_exec self env (CoInitialize a) s = core_initialize env a s"
| "core_exec self env (CoGrantRole g a r) s = grant_admin_role env g a r s"
| "core_exec self env (CoRevokeRole g a r) s = revoke_admin_role env g a r s"
| "core_exec self env (CoEmergencyPause c m) s = emergency_pause env c m s"
| "core_exec self env (CoUnpause c m) s = unpause env c m s"
| "core_exec self env (CoSetPauseGuardian c g) s = set_pause_guardian env c g s"
| "core_exec self env (CoSetEmergencyContact c m) s = set_emergency_contact env c m s"
| "core_exec self env (CoProposeTransfer c a) s = propose_admin_transfer env c a s"
| "core_exec self env (CoAcceptTransfer c) s = accept_admin_transfer env c s"
| "core_exec self env (CoCancelTransfer c) s = cancel_admin_transfer env c s"
| "core_exec self env (CoProposeUpgrade c h e cb pl) s = state_of (propose_upgrade env c h e cb pl s)"
| "core_exec self env (CoProposeRollback c e cb pl) s = state_of (propose_rollback env c e cb pl s)"
| "core_exec self env (CoApproveUpgrade c i) s = state_of (approve_upgrade env c i s)"
| "core_exec self env (CoExecuteUpgrade c i) s = execute_upgrade self env c i s"
| "core_exec self env (CoCancelUpgrade c i) s = cancel_upgrade env c i s"
| "core_exec self env (CoEnterRecovery c m) s = enter_recovery_mode env c m s"
| "core_exec self env (CoExitRecovery c) s = exit_recovery_mode env c s"
| "core_exec self env (CoRecordStep c d) s = record_recovery_step env c d s"

definition core_start :: core_state where
  "core_start = \<lparr> ac_admin = None, ac_global_paused = None, ac_role_grants = None, ac_permission_grants = None,
     ac_events = [], co_role_key = Map.empty, co_roles_list = None, co_pause_guardian = None, co_pause_reason = None,
     co_paused_at = None, co_unpause_available_at = None, co_pause_history = None, co_emergency_contact = None,
     co_pending_transfer = None, co_pending_upgrade = None, co_upgrade_counter = None, co_upgrade_history = None,
     co_contract_version = None, co_current_wasm_hash = None, co_rollback_target_hash = None,
     co_recovery_mode = None, co_recovery_reason = None, co_recovery_entered_at = None,
     co_recovery_entered_by = None, co_recovery_steps = None, co_activity_counter = None, co_activity_log = None,
     co_replay_counter = None, co_replay_log = None \<rparr>"

section \<open>What each call changes\<close>

lemmas core_guard_defs = check_permission_def check_no_pending_transfer_def require_contract_admin_def
  require_super_admin_def assert_not_globally_paused_def

lemmas core_log_defs = append_admin_activity_def append_replay_event_def pause_log_def

lemmas core_op_defs = core_initialize_def grant_admin_role_def revoke_admin_role_def emergency_pause_def unpause_def
  set_pause_guardian_def set_emergency_contact_def propose_admin_transfer_def accept_admin_transfer_def
  cancel_admin_transfer_def propose_upgrade_def propose_rollback_def create_upgrade_proposal_def
  load_pending_upgrade_def approve_upgrade_def execute_upgrade_def cancel_upgrade_def enter_recovery_mode_def
  exit_recovery_mode_def record_recovery_step_def

lemma if_Inr_eq: "(if b then Inr x else Inr y) = Inr z \<longleftrightarrow> z = (if b then x else y)"
  by auto

lemma core_frame_roles:
  assumes "core_exec self env c s = Inr s'"
  shows "(\<exists>g a r. c = CoGrantRole g a r \<or> c = CoRevokeRole g a r)
    \<or> co_role_key s' = co_role_key s \<and> co_roles_list s' = co_roles_list s"
  using assms by (cases c) (auto simp: core_op_defs core_log_defs Let_def if_Inr_eq)

lemma core_frame_admin:
  assumes "core_exec self env c s = Inr s'"
  shows "(\<exists>a. c = CoInitialize a \<or> c = CoAcceptTransfer a) \<or> ac_admin s' = ac_admin s"
  using assms by (cases c) (auto simp: core_op_defs core_log_defs Let_def if_Inr_eq)

lemma core_frame_transfer:
  assumes "core_exec self env c s = Inr s'"
  shows "(\<exists>x a. c = CoProposeTransfer x a) \<or> co_pending_transfer s' = None \<or> co_pending_transfer s' = co_pending_transfer s"
  using assms by (cases c) (auto simp: core_op_defs core_log_defs Let_def if_Inr_eq)

lemma core_frame_upgrade:
  assumes "core_exec self env c s = Inr s'"
  shows "(\<exists>a h e cb pl i. c = CoProposeUpgrade a h e cb pl \<or> c = CoProposeRollback a e cb pl \<or> c = CoApproveUpgrade a i)
    \<or> co_pending_upgrade s' = None \<or> co_pending_upgrade s' = co_pending_upgrade s"
  using assms by (cases c) (auto simp: core_op_defs core_log_defs Let_def if_Inr_eq)

lemma core_frame_history:
  assumes "core_exec self env c s = Inr s'"
  shows "(\<exists>a i. c = CoInitialize a \<or> c = CoExecuteUpgrade a i)
    \<or> co_upgrade_history s' = co_upgrade_history s \<and> co_contract_version s' = co_contract_version s
      \<and> co_current_wasm_hash s' = co_current_wasm_hash s \<and> co_rollback_target_hash s' = co_rollback_target_hash s"
  using assms by (cases c) (auto simp: core_op_defs core_log_defs Let_def if_Inr_eq)

lemma core_frame_pause:
  assumes "core_exec self env c s = Inr s'"
  shows "(\<exists>a m. c = CoEmergencyPause a m \<or> c = CoUnpause a m)
    \<or> co_unpause_available_at s' = co_unpause_available_at s \<and> co_pause_history s' = co_pause_history s
      \<and> ac_global_paused s' = ac_global_paused s"
  using assms by (cases c) (auto simp: core_op_defs core_log_defs Let_def if_Inr_eq)

lemma core_frame_replay:
  assumes "core_exec self env c s = Inr s'"
  shows "(\<exists>a m. c = CoEnterRecovery a m)
    \<or> co_replay_counter s' = co_replay_counter s \<and> co_replay_log s' = co_replay_log s"
  using assms by (cases c) (auto simp: core_op_defs core_log_defs Let_def if_Inr_eq)

section \<open>Roles\<close>

definition roles_of :: "'z core_state_scheme \<Rightarrow> address \<Rightarrow> admin_role list" where
  "roles_of s a = unwrap_or (co_role_key s a) []"

definition listed_roles :: "'z core_state_scheme \<Rightarrow> (address \<times> admin_role) list" where
  "listed_roles s = map (\<lambda>x. (ra_address x, ra_role x)) (unwrap_or (co_roles_list s) [])"

text \<open>The listing of the assignments holds every role of every address exactly once.\<close>

definition roles_exact :: "'z core_state_scheme \<Rightarrow> bool" where
  "roles_exact s \<longleftrightarrow> distinct (listed_roles s) \<and> (\<forall>a. distinct (roles_of s a))
     \<and> (\<forall>a r. (a, r) \<in> set (listed_roles s) \<longleftrightarrow> r \<in> set (roles_of s a))"

lemma admin_has_role_iff: "admin_has_role s a r \<longleftrightarrow> r \<in> set (roles_of s a)"
  by (auto simp: admin_has_role_def roles_of_def list_ex_iff)

lemma listed_filter:
  "map (\<lambda>x. (ra_address x, ra_role x)) (filter (\<lambda>x. ra_address x = t \<longrightarrow> ra_role x \<noteq> r) xs)
     = filter (\<lambda>p. p \<noteq> (t, r)) (map (\<lambda>x. (ra_address x, ra_role x)) xs)"
  by (induction xs) auto

lemma grant_keeps_roles:
  assumes "roles_exact s" "grant_admin_role env g a r s = Inr s'"
  shows "roles_exact s'"
proof (cases "r \<in> set (roles_of s a)")
  case True
  then have "s' = s" using assms(2) by (auto simp: grant_admin_role_def Let_def list_ex_iff roles_of_def split: if_splits)
  with assms(1) show ?thesis by simp
next
  case False
  then have "listed_roles s' = listed_roles s @ [(a, r)]"
    and "roles_of s' = (roles_of s)(a := roles_of s a @ [r])"
    using assms(2) by (auto simp: grant_admin_role_def Let_def list_ex_iff roles_of_def listed_roles_def split: if_splits)
  with assms(1) False show ?thesis by (auto simp: roles_exact_def)
qed

lemma revoke_keeps_roles:
  assumes "roles_exact s" "revoke_admin_role env g t r s = Inr s'"
  shows "roles_exact s'"
proof -
  have "listed_roles s' = filter (\<lambda>p. p \<noteq> (t, r)) (listed_roles s)"
    and "roles_of s' = (roles_of s)(t := filter (\<lambda>x. x \<noteq> r) (roles_of s t))"
    using assms(2) by (auto simp: revoke_admin_role_def roles_of_def listed_roles_def listed_filter)
  with assms(1) show ?thesis by (auto simp: roles_exact_def)
qed

lemma core_keeps_roles:
  assumes "roles_exact s" "core_exec self env c s = Inr s'"
  shows "roles_exact s'"
proof -
  consider (grant) g a r where "c = CoGrantRole g a r" | (revoke) g a r where "c = CoRevokeRole g a r"
    | (same) "co_role_key s' = co_role_key s" "co_roles_list s' = co_roles_list s"
    using core_frame_roles [OF assms(2)] by blast
  then show ?thesis
  proof cases
    case grant
    then show ?thesis using assms grant_keeps_roles by simp
  next
    case revoke
    then show ?thesis using assms revoke_keeps_roles by simp
  next
    case same
    then show ?thesis using assms(1) by (simp add: roles_exact_def roles_of_def listed_roles_def)
  qed
qed

text \<open>The governance members are the admin and the super admins, counted once each.\<close>

definition governance_members :: "'z core_state_scheme \<Rightarrow> address \<Rightarrow> address set" where
  "governance_members s admin = insert admin {a. SuperAdminRole \<in> set (roles_of s a)}"

lemma member_fold:
  "distinct ms \<Longrightarrow>
   (let ms' = fold (\<lambda>x members. if ra_role x = SuperAdminRole \<and> \<not> vec_contains_address members (ra_address x)
                                then members @ [ra_address x] else members) xs ms
    in distinct ms' \<and> set ms' = set ms \<union> {ra_address x |x. x \<in> set xs \<and> ra_role x = SuperAdminRole})"
  by (induction xs arbitrary: ms) (auto simp: Let_def vec_contains_address_def list_ex_iff)

lemma governance_member_count_card:
  assumes "roles_exact s" "ac_admin s = Some admin"
  shows "governance_member_count s = Inr (card (governance_members s admin))"
proof -
  let ?ms = "fold (\<lambda>x members. if ra_role x = SuperAdminRole \<and> \<not> vec_contains_address members (ra_address x)
      then members @ [ra_address x] else members) (unwrap_or (co_roles_list s) []) [admin]"
  have "distinct ?ms" "set ?ms = {admin} \<union> {ra_address x |x. x \<in> set (unwrap_or (co_roles_list s) []) \<and> ra_role x = SuperAdminRole}"
    using member_fold [of "[admin]" "unwrap_or (co_roles_list s) []"] by (simp_all add: Let_def)
  moreover have "{ra_address x |x. x \<in> set (unwrap_or (co_roles_list s) []) \<and> ra_role x = SuperAdminRole}
      = {a. (a, SuperAdminRole) \<in> set (listed_roles s)}"
    by (auto simp: listed_roles_def image_iff)
  ultimately have "length ?ms = card (governance_members s admin)"
    using assms(1) by (simp add: governance_members_def roles_exact_def distinct_card [symmetric])
  with assms(2) show ?thesis by (simp add: governance_member_count_def)
qed

lemma threshold_bounds:
  assumes "governance_member_count s = Inr m" "upgrade_approval_threshold emergency s = Inr k"
  shows "k \<le> m" "m \<le> 2 * k" "emergency \<Longrightarrow> 2 \<le> k" "1 \<le> k"
  using assms by (auto simp: upgrade_approval_threshold_def Let_def div_ceil_def split: if_splits)

section \<open>Reachable states\<close>

text \<open>A fresh contract of any extension of the core state.\<close>

definition core_fresh :: "'z core_state_scheme \<Rightarrow> bool" where
  "core_fresh s \<longleftrightarrow> core_state.truncate s = core_start"

lemma core_fresh_start [simp]: "core_fresh core_start"
  by (simp add: core_fresh_def core_start_def core_state.truncate_def)

lemma core_fresh_fields:
  assumes "core_fresh s"
  shows "ac_admin s = None" "co_role_key s = Map.empty" "co_roles_list s = None" "co_pending_transfer s = None"
    "co_pending_upgrade s = None" "co_upgrade_history s = None" "co_contract_version s = None"
    "co_current_wasm_hash s = None" "co_rollback_target_hash s = None" "co_pause_history s = None"
    "co_unpause_available_at s = None" "ac_global_paused s = None" "co_replay_counter s = None" "co_replay_log s = None"
  using assms by (simp_all add: core_fresh_def core_start_def core_state.truncate_def)

interpretation core_roles: contract_invariant "core_exec self :: env \<Rightarrow> core_call \<Rightarrow> 'z core_state_scheme \<Rightarrow> 'z core_state_scheme wres"
  core_fresh "\<lambda>_. True" roles_exact for self
proof
  fix s :: "'z core_state_scheme"
  assume "core_fresh s"
  then show "roles_exact s" by (simp add: roles_exact_def roles_of_def listed_roles_def core_fresh_fields)
next
  fix s s' :: "'z core_state_scheme" and c env
  assume "roles_exact s" "core_exec self env c s = Inr s'"
  then show "roles_exact s'" by (rule core_keeps_roles)
qed

lemma run_snoc: "run exec s (h @ [(e, c)]) = invoke exec e c (run exec s h)"
  by (simp add: run_append)

section \<open>Where a pending upgrade comes from\<close>

text \<open>Who may decide about the code: the admin of the state and its super admins.\<close>

definition is_governor :: "'z core_state_scheme \<Rightarrow> address \<Rightarrow> bool" where
  "is_governor s a \<longleftrightarrow> (\<exists>admin. ac_admin s = Some admin \<and> a \<in> governance_members s admin)"

text \<open>A call that proposes the code \<open>w\<close>: the hash itself, or a rollback to the tracked target.\<close>

fun proposes_upgrade :: "'z core_state_scheme \<Rightarrow> core_call \<Rightarrow> address \<Rightarrow> bool \<Rightarrow> wasm_hash \<Rightarrow> bool" where
  "proposes_upgrade s (CoProposeUpgrade a w' em _ _) x e w = (a = x \<and> em = e \<and> w' = w)"
| "proposes_upgrade s (CoProposeRollback a em _ _) x e w = (a = x \<and> em = e \<and> co_rollback_target_hash s = Some w)"
| "proposes_upgrade s _ x e w = False"

text \<open>A governor \<open>a\<close> signed the successful call \<open>c\<close> in the state \<open>s\<close>.\<close>

definition governed_call :: "address \<Rightarrow> 'z core_state_scheme \<Rightarrow> env \<Rightarrow> core_call \<Rightarrow> address \<Rightarrow> bool" where
  "governed_call self s e c a \<longleftrightarrow> is_governor s a \<and> a \<in> set (auths e) \<and> is_ok (core_exec self e c s)"

text \<open>The calls of \<open>h\<close> that put the proposal \<open>p\<close> on the table: the successful proposal by a governor,
  with the threshold of that moment, and later one successful approval per further approver, who was
  a governor when approving.\<close>

definition upgrade_trace :: "address \<Rightarrow> 'z core_state_scheme \<Rightarrow> (env \<times> core_call) list \<Rightarrow> upgrade_proposal
    \<Rightarrow> (env \<times> core_call) list \<Rightarrow> env \<Rightarrow> core_call \<Rightarrow> (env \<times> core_call) list \<Rightarrow> bool" where
  "upgrade_trace self s0 h p h1 e c h2 \<longleftrightarrow>
     h = h1 @ (e, c) # h2
     \<and> proposes_upgrade (run (core_exec self) s0 h1) c (up_proposer p) (up_emergency p) (up_new_wasm_hash p)
     \<and> governed_call self (run (core_exec self) s0 h1) e c (up_proposer p) \<and> up_proposed_at p = timestamp e
     \<and> up_execute_after p = timestamp e + (if up_emergency p then 0 else 172800)
     \<and> upgrade_approval_threshold (up_emergency p) (run (core_exec self) s0 h1) = Inr (up_required_approvals p)
     \<and> (\<exists>rest. up_approvals p = up_proposer p # rest \<and> distinct (up_approvals p)
         \<and> (\<forall>a\<in>set rest. \<exists>g1 e' g2. h2 = g1 @ (e', CoApproveUpgrade a (up_proposal_id p)) # g2
               \<and> governed_call self (run (core_exec self) s0 (h1 @ (e, c) # g1)) e'
                   (CoApproveUpgrade a (up_proposal_id p)) a))"

lemma upgrade_trace_extend:
  "upgrade_trace self s0 h p h1 e c h2 \<Longrightarrow> upgrade_trace self s0 (h @ [x]) p h1 e c (h2 @ [x])"
  unfolding upgrade_trace_def by fastforce

lemma permission_governor:
  "check_permission env s caller SuperAdminRole = Inr u \<Longrightarrow> is_governor s caller \<and> caller \<in> set (auths env)"
  by (auto simp: check_permission_def is_governor_def governance_members_def admin_has_role_iff split: if_splits)

lemma create_effect:
  assumes "create_upgrade_proposal env a w em cb pl rb s = Inr (n, s')"
  shows "co_pending_upgrade s' = Some (the (co_pending_upgrade s'))" "up_proposer (the (co_pending_upgrade s')) = a"
    "up_emergency (the (co_pending_upgrade s')) = em" "up_proposed_at (the (co_pending_upgrade s')) = timestamp env"
    "up_execute_after (the (co_pending_upgrade s')) = timestamp env + (if em then 0 else 172800)"
    "upgrade_approval_threshold em s = Inr (up_required_approvals (the (co_pending_upgrade s')))"
    "up_approvals (the (co_pending_upgrade s')) = [a]" "up_new_wasm_hash (the (co_pending_upgrade s')) = w"
  using assms by (auto simp: create_upgrade_proposal_def)

lemma propose_trace:
  assumes "core_exec self env c s = Inr s'" "s = run (core_exec self) s0 h"
    "c = CoProposeUpgrade a w em cb pl \<or> c = CoProposeRollback a em cb pl"
  shows "\<exists>p. co_pending_upgrade s' = Some p \<and> upgrade_trace self s0 (h @ [(env, c)]) p h env c []"
proof -
  have "\<exists>w' rb n. create_upgrade_proposal env a w' em cb pl rb s = Inr (n, s') \<and> proposes_upgrade s c a em w'
      \<and> is_governor s a \<and> a \<in> set (auths env)"
    using assms(3)
  proof
    assume c: "c = CoProposeUpgrade a w em cb pl"
    then have "\<exists>n. create_upgrade_proposal env a w em cb pl False s = Inr (n, s')"
      and "is_governor s a \<and> a \<in> set (auths env)"
      using assms(1) by (auto simp: propose_upgrade_def dest: permission_governor)
    then show ?thesis using c by auto
  next
    assume c: "c = CoProposeRollback a em cb pl"
    then have "\<exists>h n. create_upgrade_proposal env a h em cb pl True s = Inr (n, s') \<and> co_rollback_target_hash s = Some h"
      and "is_governor s a \<and> a \<in> set (auths env)"
      using assms(1) by (auto simp: propose_rollback_def dest: permission_governor)
    then show ?thesis using c by auto
  qed
  then obtain w' rb n where create: "create_upgrade_proposal env a w' em cb pl rb s = Inr (n, s')"
    and by_governor: "proposes_upgrade s c a em w'" "is_governor s a" "a \<in> set (auths env)" by blast
  note p = create_effect [OF create]
  have "governed_call self s env c a" using by_governor assms(1) by (simp add: governed_call_def is_ok_iff)
  with p by_governor(1) assms(2)
  have "upgrade_trace self s0 (h @ [(env, c)]) (the (co_pending_upgrade s')) h env c []"
    by (simp add: upgrade_trace_def)
  with p(1) show ?thesis by blast
qed

lemma approve_trace:
  assumes "core_exec self env (CoApproveUpgrade a i) s = Inr s'" "s = run (core_exec self) s0 h"
    "co_pending_upgrade s = Some p" "upgrade_trace self s0 h p h1 e c h2"
  shows "\<exists>p'. co_pending_upgrade s' = Some p'
    \<and> upgrade_trace self s0 (h @ [(env, CoApproveUpgrade a i)]) p' h1 e c (h2 @ [(env, CoApproveUpgrade a i)])"
proof -
  let ?p = "p\<lparr> up_approvals := up_approvals p @ [a] \<rparr>"
  have s: "co_pending_upgrade s' = Some ?p" "a \<notin> set (up_approvals p)" "up_proposal_id p = i"
    and g: "is_governor s a \<and> a \<in> set (auths env)"
    using assms(1, 3)
    by (auto simp: approve_upgrade_def load_pending_upgrade_def vec_contains_address_def list_ex_iff Let_def
        dest: permission_governor)
  from assms(4) obtain rest where rest: "up_approvals p = up_proposer p # rest" "distinct (up_approvals p)"
    "\<forall>a\<in>set rest. \<exists>g1 e' g2. h2 = g1 @ (e', CoApproveUpgrade a (up_proposal_id p)) # g2
       \<and> governed_call self (run (core_exec self) s0 (h1 @ (e, c) # g1)) e' (CoApproveUpgrade a (up_proposal_id p)) a"
    unfolding upgrade_trace_def by blast
  have h: "h = h1 @ (e, c) # h2" using assms(4) by (simp add: upgrade_trace_def)
  have new: "governed_call self (run (core_exec self) s0 (h1 @ (e, c) # h2)) env (CoApproveUpgrade a i) a"
    using g assms(1, 2) h unfolding governed_call_def is_ok_iff by blast
  have "\<exists>g1 e' g2. h2 @ [(env, CoApproveUpgrade a i)] = g1 @ (e', CoApproveUpgrade b i) # g2
       \<and> governed_call self (run (core_exec self) s0 (h1 @ (e, c) # g1)) e' (CoApproveUpgrade b i) b"
    if "b \<in> set (rest @ [a])" for b
  proof (cases "b = a")
    case True
    with new show ?thesis by blast
  next
    case False
    with that rest(3) s(3) obtain g1 e' g2 where "h2 = g1 @ (e', CoApproveUpgrade b i) # g2"
      "governed_call self (run (core_exec self) s0 (h1 @ (e, c) # g1)) e' (CoApproveUpgrade b i) b" by auto
    then show ?thesis by (intro exI [of _ g1] exI [of _ e'] exI [of _ "g2 @ [(env, CoApproveUpgrade a i)]"]) simp
  qed
  moreover have "up_proposer p \<noteq> a" using s(2) rest(1) by auto
  ultimately
  have "upgrade_trace self s0 (h @ [(env, CoApproveUpgrade a i)]) ?p h1 e c (h2 @ [(env, CoApproveUpgrade a i)])"
    using assms(4) rest s unfolding upgrade_trace_def by simp
  with s(1) show ?thesis by blast
qed

lemma pending_upgrade_traced:
  assumes "core_fresh s0" "co_pending_upgrade (run (core_exec self) s0 h) = Some p"
  shows "\<exists>h1 e c h2. upgrade_trace self s0 h p h1 e c h2"
  using assms(2)
proof (induction h arbitrary: p rule: rev_induct)
  case Nil
  with assms(1) show ?case by (simp add: core_fresh_fields)
next
  case (snoc x h)
  obtain env c where x: "x = (env, c)" by (cases x)
  let ?s = "run (core_exec self) s0 h" and ?t = "run (core_exec self) s0 (h @ [x])"
  have extend: "\<exists>h1 e c h2. upgrade_trace self s0 (h @ [x]) p h1 e c h2"
    if "co_pending_upgrade ?t = co_pending_upgrade ?s"
    using snoc.IH [of p] snoc.prems that upgrade_trace_extend by metis
  have t: "?t = invoke (core_exec self) env c ?s" unfolding x by (rule run_snoc)
  show ?case
  proof (rule invoke_cases [of "core_exec self" env c ?s])
    assume "invoke (core_exec self) env c ?s = ?s"
    with t extend show ?thesis by simp
  next
    fix s' assume s': "core_exec self env c ?s = Inr s'" "invoke (core_exec self) env c ?s = s'"
    consider (propose) a w em cb pl where "c = CoProposeUpgrade a w em cb pl \<or> c = CoProposeRollback a em cb pl"
      | (approve) a i where "c = CoApproveUpgrade a i"
      | (other) "co_pending_upgrade s' = None \<or> co_pending_upgrade s' = co_pending_upgrade ?s"
      using core_frame_upgrade [OF s'(1)] by blast
    then show ?thesis
    proof cases
      case propose
      from propose_trace [OF s'(1) refl this] show ?thesis using snoc.prems t s'(2) x by auto
    next
      case approve
      then have ap: "core_exec self env (CoApproveUpgrade a i) ?s = Inr s'" using s'(1) by simp
      then obtain q where q: "co_pending_upgrade ?s = Some q"
        by (auto simp: approve_upgrade_def load_pending_upgrade_def)
      obtain h1 e d h2 where "upgrade_trace self s0 h q h1 e d h2" using snoc.IH [OF q] by blast
      from approve_trace [OF ap refl q this] show ?thesis using snoc.prems t s'(2) x approve by auto
    next
      case other
      then show ?thesis using snoc.prems t s'(2) extend by auto
    qed
  qed
qed

section \<open>The upgrade history\<close>

text \<open>The executed upgrades form a chain: versions count up from 1, every entry starts from the code
  the previous one installed, and the stored version, code and rollback target are those of the
  last entry.\<close>

definition upgrade_chain :: "'z core_state_scheme \<Rightarrow> bool" where
  "upgrade_chain s \<longleftrightarrow> (let hs = unwrap_or (co_upgrade_history s) [] in
     unwrap_or (co_contract_version s) 1 = sat_u32 (1 + length hs)
   \<and> (\<forall>i<length hs. ue_from_version (hs ! i) = sat_u32 (1 + i) \<and> ue_to_version (hs ! i) = sat_u32 (2 + i))
   \<and> (\<forall>i. Suc i < length hs \<longrightarrow> ue_has_from_wasm_hash (hs ! Suc i)
        \<and> ue_from_wasm_hash (hs ! Suc i) = ue_to_wasm_hash (hs ! i))
   \<and> (hs \<noteq> [] \<longrightarrow> co_current_wasm_hash s = Some (ue_to_wasm_hash (last hs))
        \<and> (ue_has_from_wasm_hash (last hs) \<longrightarrow> co_rollback_target_hash s = Some (ue_from_wasm_hash (last hs)))))"

lemma sat_u32_Suc: "sat_u32 (sat_u32 n + 1) = sat_u32 (n + 1)"
  by (simp add: sat_u32_def)

lemma execute_keeps_chain:
  assumes "upgrade_chain s" "execute_upgrade self env c i s = Inr s'"
  shows "upgrade_chain s'"
proof -
  let ?hs = "unwrap_or (co_upgrade_history s) []"
  obtain p where p: "co_pending_upgrade s = Some p"
    and s': "co_upgrade_history s' = Some (?hs @ [execution_record self env c p (unwrap_or (co_contract_version s) 1) (co_current_wasm_hash s)])"
      "co_contract_version s' = Some (sat_u32 (unwrap_or (co_contract_version s) 1 + 1))"
      "co_current_wasm_hash s' = Some (up_new_wasm_hash p)"
      "co_rollback_target_hash s' = (case co_current_wasm_hash s of None \<Rightarrow> co_rollback_target_hash s | Some h \<Rightarrow> Some h)"
    using assms(2) by (auto simp: execute_upgrade_def load_pending_upgrade_def Let_def)
  have v: "unwrap_or (co_contract_version s) 1 = sat_u32 (1 + length ?hs)"
    and nth: "\<And>i. i < length ?hs \<Longrightarrow> ue_from_version (?hs ! i) = sat_u32 (1 + i) \<and> ue_to_version (?hs ! i) = sat_u32 (2 + i)"
    and link: "\<And>i. Suc i < length ?hs \<Longrightarrow> ue_has_from_wasm_hash (?hs ! Suc i) \<and> ue_from_wasm_hash (?hs ! Suc i) = ue_to_wasm_hash (?hs ! i)"
    and cur: "?hs \<noteq> [] \<Longrightarrow> co_current_wasm_hash s = Some (ue_to_wasm_hash (last ?hs))"
    using assms(1) by (auto simp: upgrade_chain_def Let_def)
  have last_link: "co_current_wasm_hash s = Some (ue_to_wasm_hash (?hs ! i))" if "Suc i = length ?hs" for i
  proof -
    have "?hs \<noteq> []" "length ?hs - 1 = i" using that by auto
    with cur show ?thesis by (simp add: last_conv_nth)
  qed
  have s1: "sat_u32 (sat_u32 (1 + length ?hs) + 1) = sat_u32 (2 + length ?hs)" using sat_u32_Suc [of "1 + length ?hs"] by simp
  show ?thesis
    unfolding upgrade_chain_def s' Let_def unwrap_or_simps v
  proof (intro conjI allI impI)
    fix i assume "i < length (?hs @ [execution_record self env c p (sat_u32 (1 + length ?hs)) (co_current_wasm_hash s)])"
    then show "ue_from_version ((?hs @ [execution_record self env c p (sat_u32 (1 + length ?hs)) (co_current_wasm_hash s)]) ! i) = sat_u32 (1 + i)"
      "ue_to_version ((?hs @ [execution_record self env c p (sat_u32 (1 + length ?hs)) (co_current_wasm_hash s)]) ! i) = sat_u32 (2 + i)"
      using nth s1 by (auto simp: nth_append execution_record_def less_Suc_eq)
  next
    fix i assume "Suc i < length (?hs @ [execution_record self env c p (sat_u32 (1 + length ?hs)) (co_current_wasm_hash s)])"
    then show "ue_has_from_wasm_hash ((?hs @ [execution_record self env c p (sat_u32 (1 + length ?hs)) (co_current_wasm_hash s)]) ! Suc i)"
      "ue_from_wasm_hash ((?hs @ [execution_record self env c p (sat_u32 (1 + length ?hs)) (co_current_wasm_hash s)]) ! Suc i)
        = ue_to_wasm_hash ((?hs @ [execution_record self env c p (sat_u32 (1 + length ?hs)) (co_current_wasm_hash s)]) ! i)"
      using link last_link by (auto simp: nth_append execution_record_def less_Suc_eq)
  next
    show "sat_u32 (sat_u32 (1 + length ?hs) + 1)
        = sat_u32 (1 + length (?hs @ [execution_record self env c p (sat_u32 (1 + length ?hs)) (co_current_wasm_hash s)]))"
      using s1 by simp
  qed (auto simp: execution_record_def split: option.splits)
qed

lemma core_keeps_chain:
  assumes "upgrade_chain s" "core_exec self env c s = Inr s'"
  shows "upgrade_chain s'"
proof -
  consider (init) a where "c = CoInitialize a" | (execute) a i where "c = CoExecuteUpgrade a i"
    | (same) "co_upgrade_history s' = co_upgrade_history s" "co_contract_version s' = co_contract_version s"
        "co_current_wasm_hash s' = co_current_wasm_hash s" "co_rollback_target_hash s' = co_rollback_target_hash s"
    using core_frame_history [OF assms(2)] by blast
  then show ?thesis
  proof cases
    case init
    then show ?thesis using assms(2) by (auto simp: core_initialize_def upgrade_chain_def sat_u32_def u32_max_def)
  next
    case execute
    then show ?thesis using assms execute_keeps_chain by simp
  next
    case same
    then show ?thesis using assms(1) by (simp add: upgrade_chain_def)
  qed
qed

interpretation core_chain: contract_invariant "core_exec self :: env \<Rightarrow> core_call \<Rightarrow> 'z core_state_scheme \<Rightarrow> 'z core_state_scheme wres"
  core_fresh "\<lambda>_. True" upgrade_chain for self
proof
  fix s :: "'z core_state_scheme"
  assume "core_fresh s"
  then show "upgrade_chain s" by (simp add: upgrade_chain_def core_fresh_fields sat_u32_def u32_max_def)
next
  fix s s' :: "'z core_state_scheme" and c env
  assume "upgrade_chain s" "core_exec self env c s = Inr s'"
  then show "upgrade_chain s'" by (rule core_keeps_chain)
qed

section \<open>The hand-over of the admin\<close>

text \<open>A nomination of \<open>b\<close> in the history: signed by the admin of that moment.\<close>

definition nomination :: "address \<Rightarrow> 'z core_state_scheme \<Rightarrow> (env \<times> core_call) list \<Rightarrow> address
    \<Rightarrow> (env \<times> core_call) list \<Rightarrow> env \<Rightarrow> (env \<times> core_call) list \<Rightarrow> bool" where
  "nomination self s0 h b h1 e h2 \<longleftrightarrow>
     (\<exists>x. h = h1 @ (e, CoProposeTransfer x b) # h2 \<and> x \<in> set (auths e)
       \<and> ac_admin (run (core_exec self) s0 h1) = Some x)"

lemma nomination_extend: "nomination self s0 h b h1 e h2 \<Longrightarrow> nomination self s0 (h @ h') b h1 e (h2 @ h')"
  by (auto simp: nomination_def)

lemma pending_transfer_nominated:
  assumes "core_fresh s0" "co_pending_transfer (run (core_exec self) s0 h) = Some p"
  shows "\<exists>h1 e h2. nomination self s0 h (pt_proposed_admin p) h1 e h2 \<and> pt_timeout_at p = timestamp e + 604800"
  using assms(2)
proof (induction h arbitrary: p rule: rev_induct)
  case Nil
  with assms(1) show ?case by (simp add: core_fresh_fields)
next
  case (snoc x h)
  obtain env c where x: "x = (env, c)" by (cases x)
  let ?s = "run (core_exec self) s0 h" and ?t = "run (core_exec self) s0 (h @ [x])"
  have t: "?t = invoke (core_exec self) env c ?s" unfolding x by (rule run_snoc)
  have extend: ?case if "co_pending_transfer ?t = co_pending_transfer ?s"
    using snoc.IH [of p] snoc.prems that nomination_extend by metis
  show ?case
  proof (rule invoke_cases [of "core_exec self" env c ?s])
    assume "invoke (core_exec self) env c ?s = ?s"
    with t extend show ?thesis by simp
  next
    fix s' assume s': "core_exec self env c ?s = Inr s'" "invoke (core_exec self) env c ?s = s'"
    consider (propose) y b where "c = CoProposeTransfer y b"
      | (other) "co_pending_transfer s' = None \<or> co_pending_transfer s' = co_pending_transfer ?s"
      using core_frame_transfer [OF s'(1)] by blast
    then show ?thesis
    proof cases
      case propose
      then have "co_pending_transfer s' = Some \<lparr> pt_proposed_admin = b, pt_proposed_at = timestamp env,
          pt_timeout_at = timestamp env + 604800 \<rparr>" "y \<in> set (auths env)" "ac_admin ?s = Some y"
        using s'(1) by (auto simp: propose_admin_transfer_def require_contract_admin_def)
      then have "nomination self s0 (h @ [x]) (pt_proposed_admin p) h env [] \<and> pt_timeout_at p = timestamp env + 604800"
        using snoc.prems t s'(2) x propose by (auto simp: nomination_def)
      then show ?thesis by blast
    next
      case other
      then show ?thesis using snoc.prems t s'(2) extend by auto
    qed
  qed
qed

section \<open>The pause and its timelock\<close>

text \<open>\<open>now\<close> bounds every recorded timestamp: the history is chronological.\<close>

definition pause_ok :: "nat \<Rightarrow> 'z core_state_scheme \<Rightarrow> bool" where
  "pause_ok now s \<longleftrightarrow> (let hs = unwrap_or (co_pause_history s) [] in
     (\<forall>r\<in>set hs. pz_timestamp r \<le> now \<and> (pz_paused r \<longrightarrow> pz_timestamp r + 86400 \<le> unwrap_or (co_unpause_available_at s) 0))
   \<and> (watch_is_paused s \<longleftrightarrow> hs \<noteq> [] \<and> pz_paused (last hs)))"

lemma core_keeps_pause:
  assumes "pause_ok now s" "core_exec self env c s = Inr s'" "now \<le> timestamp env"
  shows "pause_ok (timestamp env) s'"
proof -
  have old: "\<And>r. r \<in> set (unwrap_or (co_pause_history s) []) \<Longrightarrow> pz_timestamp r \<le> timestamp env
      \<and> (pz_paused r \<longrightarrow> pz_timestamp r + 86400 \<le> unwrap_or (co_unpause_available_at s) 0)"
    using assms(1, 3) by (auto simp: pause_ok_def Let_def)
  consider (pause) a m where "c = CoEmergencyPause a m" | (unpause) a m where "c = CoUnpause a m"
    | (same) "co_unpause_available_at s' = co_unpause_available_at s" "co_pause_history s' = co_pause_history s"
        "ac_global_paused s' = ac_global_paused s"
    using core_frame_pause [OF assms(2)] by blast
  then show ?thesis
  proof cases
    case pause
    have "unwrap_or (co_pause_history s') [] = unwrap_or (co_pause_history s) []
          @ [\<lparr> pz_paused = True, pz_reason = m, pz_caller = a, pz_timestamp = timestamp env \<rparr>]"
        "co_unpause_available_at s' = Some (timestamp env + 86400)" "watch_is_paused s'"
      using assms(2) unfolding pause
      by (auto simp: emergency_pause_def append_admin_activity_def pause_log_def watch_is_paused_def Let_def)
    with old show ?thesis by (auto simp: pause_ok_def Let_def)
  next
    case unpause
    have "unwrap_or (co_pause_history s') [] = unwrap_or (co_pause_history s) []
          @ [\<lparr> pz_paused = False, pz_reason = m, pz_caller = a, pz_timestamp = timestamp env \<rparr>]"
        "co_unpause_available_at s' = co_unpause_available_at s" "\<not> watch_is_paused s'"
      using assms(2) unfolding unpause
      by (auto simp: unpause_def append_admin_activity_def pause_log_def watch_is_paused_def Let_def)
    with old show ?thesis by (auto simp: pause_ok_def Let_def)
  next
    case same
    then show ?thesis using assms(1) old by (simp add: pause_ok_def watch_is_paused_def Let_def)
  qed
qed

lemma pause_ok_run:
  assumes "core_fresh s0" "chronological h" "\<forall>(e, c)\<in>set h. timestamp e \<le> now"
  shows "pause_ok now (run (core_exec self) s0 h)"
  using assms(2, 3)
proof (induction h arbitrary: now rule: rev_induct)
  case Nil
  with assms(1) show ?case by (simp add: pause_ok_def core_fresh_fields watch_is_paused_def)
next
  case (snoc x h)
  obtain env c where x: "x = (env, c)" by (cases x)
  have "pause_ok (timestamp env) (run (core_exec self) s0 h)"
    using snoc.prems x by (intro snoc.IH) (auto simp: chronological_def sorted_append)
  then have "pause_ok (timestamp env) (run (core_exec self) s0 (h @ [x]))"
    unfolding x run_snoc by (cases rule: invoke_cases [of "core_exec self" env c]) (auto intro: core_keeps_pause)
  moreover have "timestamp env \<le> now" using snoc.prems x by auto
  ultimately show ?case by (auto simp: pause_ok_def Let_def)
qed

section \<open>The replay log\<close>

lemma replay_scan_eq:
  "replay_scan k n log page = page @ take (n - length page) (filter (\<lambda>e. k \<le> er_ordering_key e) log)"
proof (induction k n log page rule: replay_scan.induct)
  case (2 k n e rest page)
  then show ?case by (auto simp: Suc_diff_le [symmetric] take_Cons' not_le)
qed simp

lemma ordering_key_value:
  assumes "now < 2 ^ 32" "seq < 2 ^ 32"
  shows "ordering_key now seq = now * 2 ^ 32 + seq"
proof -
  have seq: "take_bit 32 seq = seq" using assms(2) by (simp add: take_bit_nat_eq_self_iff)
  have "and (push_bit 32 now) (take_bit 32 seq) = 0"
    by (rule bit_eqI) (auto simp: bit_simps)
  moreover have "push_bit 32 now mod 2 ^ 64 = push_bit 32 now"
    using assms(1) by (simp add: push_bit_eq_mult)
  ultimately show ?thesis
    by (simp add: ordering_key_def disjunctive_add_eq_or [symmetric] push_bit_eq_mult seq)
qed

lemma ordering_key_less:
  assumes "t \<le> t'" "i < j" "t' < 2 ^ 32" "j < 2 ^ 32"
  shows "ordering_key t i < ordering_key t' j"
  using assms by (simp add: ordering_key_value)

text \<open>The log holds the last entries, numbered without a gap, in the order of their keys.\<close>

definition replay_ok :: "nat \<Rightarrow> 'z core_state_scheme \<Rightarrow> bool" where
  "replay_ok now s \<longleftrightarrow> (let log = unwrap_or (co_replay_log s) []; ctr = unwrap_or (co_replay_counter s) 0 in
     length log \<le> 1000 \<and> length log \<le> ctr \<and> ctr \<le> u32_max
   \<and> map er_event_id log = [Suc (ctr - length log) ..< Suc ctr]
   \<and> (\<forall>e\<in>set log. er_timestamp e \<le> now \<and> er_ordering_key e = ordering_key (er_timestamp e) (er_event_id e))
   \<and> sorted (map er_timestamp log))"

lemma upt_snoc_window:
  "n \<le> c \<Longrightarrow> [Suc (c - n) ..< Suc c] @ [Suc c] = [Suc (Suc c - Suc n) ..< Suc (Suc c)]"
  by simp

lemma append_keeps_replay:
  assumes "replay_ok now s" "append_replay_event env et a sub v s = Inr s'" "now \<le> timestamp env"
  shows "replay_ok (timestamp env) s'"
proof -
  let ?log = "unwrap_or (co_replay_log s) []" and ?ctr = "unwrap_or (co_replay_counter s) 0"
  let ?e = "\<lparr> er_event_id = ?ctr + 1, er_event_type = et, er_actor = a, er_subject = sub, er_value = v,
      er_timestamp = timestamp env, er_ordering_key = ordering_key (timestamp env) (?ctr + 1),
      er_schema_version = event_schema_version \<rparr>"
  let ?log' = "if 1000 < length (?log @ [?e]) then tl (?log @ [?e]) else ?log @ [?e]"
  have s': "co_replay_counter s' = Some (?ctr + 1)" "co_replay_log s' = Some ?log'" "?ctr + 1 \<le> u32_max"
    using assms(2) by (auto simp: append_replay_event_def Let_def)
  have inv: "length ?log \<le> 1000" "length ?log \<le> ?ctr" "map er_event_id ?log = [Suc (?ctr - length ?log) ..< Suc ?ctr]"
    "\<And>e. e \<in> set ?log \<Longrightarrow> er_timestamp e \<le> timestamp env \<and> er_ordering_key e = ordering_key (er_timestamp e) (er_event_id e)"
    "sorted (map er_timestamp ?log)"
    using assms(1, 3) by (auto simp: replay_ok_def Let_def)
  have long: "map er_event_id (?log @ [?e]) = [Suc (?ctr - length ?log) ..< Suc (Suc ?ctr)]"
    using inv(2, 3) upt_Suc [of "Suc (?ctr - length ?log)" "Suc ?ctr"] by (simp del: upt_Suc)
  have sorted: "sorted (map er_timestamp (?log @ [?e]))" using inv(4, 5) by (auto simp: sorted_append)
  have entries: "er_timestamp e \<le> timestamp env \<and> er_ordering_key e = ordering_key (er_timestamp e) (er_event_id e)"
    if "e \<in> set (?log @ [?e])" for e using that inv(4) by auto
  show ?thesis
  proof (cases "1000 < length (?log @ [?e])")
    case True
    then have full: "length ?log = 1000" using inv(1) by simp
    have "map er_event_id (tl (?log @ [?e])) = tl [Suc (?ctr - 1000) ..< Suc (Suc ?ctr)]"
      using long full by (simp only: map_tl)
    also have "\<dots> = [Suc (Suc (?ctr - 1000)) ..< Suc (Suc ?ctr)]" by (simp add: tl_upt del: upt_Suc)
    also have "Suc (?ctr - 1000) = ?ctr + 1 - 1000" using inv(2) full by linarith
    finally have ids: "map er_event_id (tl (?log @ [?e])) = [Suc (?ctr + 1 - 1000) ..< Suc (?ctr + 1)]"
      by (simp del: upt_Suc)
    have "sorted (map er_timestamp (tl (?log @ [?e])))" using sorted by (simp add: map_tl sorted_tl del: map_append)
    moreover have "length (tl (?log @ [?e])) = 1000" using full by simp
    moreover have "set (tl (?log @ [?e])) \<subseteq> set (?log @ [?e])" by (cases "?log @ [?e]") auto
    ultimately show ?thesis
      using True ids s' entries inv(2) full unfolding replay_ok_def Let_def by (auto simp del: upt_Suc map_tl)
  next
    case False
    then show ?thesis
      using long sorted entries s' inv(1, 2) unfolding replay_ok_def Let_def by (auto simp del: upt_Suc)
  qed
qed

lemma core_keeps_replay:
  assumes "replay_ok now s" "core_exec self env c s = Inr s'" "now \<le> timestamp env"
  shows "replay_ok (timestamp env) s'"
proof -
  have later: "replay_ok (timestamp env) s" using assms(1, 3) by (auto simp: replay_ok_def Let_def)
  consider (enter) a m where "c = CoEnterRecovery a m"
    | (same) "co_replay_counter s' = co_replay_counter s" "co_replay_log s' = co_replay_log s"
    using core_frame_replay [OF assms(2)] by blast
  then show ?thesis
  proof cases
    case enter
    let ?s = "s\<lparr> co_recovery_mode := Some True, co_recovery_reason := Some m, co_recovery_entered_at := Some (timestamp env),
        co_recovery_entered_by := Some a, co_recovery_steps := Some [] \<rparr>"
    obtain s1 where s1: "append_replay_event env ''rec_entr'' a m 0 ?s = Inr s1"
      "append_admin_activity env RecoveryEnteredAct a m s1 = Inr s'"
      using assms(2) enter by (auto simp: enter_recovery_mode_def)
    have "replay_ok now ?s" using assms(1) by (simp add: replay_ok_def)
    from append_keeps_replay [OF this s1(1) assms(3)] s1(2) show ?thesis
      by (auto simp: replay_ok_def append_admin_activity_def Let_def)
  next
    case same
    with later show ?thesis by (simp add: replay_ok_def)
  qed
qed

lemma replay_ok_run:
  assumes "core_fresh s0" "chronological h" "\<forall>(e, c)\<in>set h. timestamp e \<le> now"
  shows "replay_ok now (run (core_exec self) s0 h)"
  using assms(2, 3)
proof (induction h arbitrary: now rule: rev_induct)
  case Nil
  with assms(1) show ?case by (simp add: replay_ok_def core_fresh_fields)
next
  case (snoc x h)
  obtain env c where x: "x = (env, c)" by (cases x)
  have "replay_ok (timestamp env) (run (core_exec self) s0 h)"
    using snoc.prems x by (intro snoc.IH) (auto simp: chronological_def sorted_append)
  then have "replay_ok (timestamp env) (run (core_exec self) s0 (h @ [x]))"
    unfolding x run_snoc by (cases rule: invoke_cases [of "core_exec self" env c]) (auto intro: core_keeps_replay)
  moreover have "timestamp env \<le> now" using snoc.prems x by auto
  ultimately show ?case by (auto simp: replay_ok_def Let_def)
qed

lemma replay_keys_sorted:
  assumes "replay_ok now s" "now < 2 ^ 32"
  shows "sorted_wrt (\<lambda>x y. er_ordering_key x < er_ordering_key y) (unwrap_or (co_replay_log s) [])"
  unfolding sorted_wrt_iff_nth_less
proof (intro allI impI)
  let ?log = "unwrap_or (co_replay_log s) []" and ?ctr = "unwrap_or (co_replay_counter s) 0"
  fix i j assume ij: "i < j" "j < length ?log"
  have ids: "map er_event_id ?log = [Suc (?ctr - length ?log) ..< Suc ?ctr]" and bound: "?ctr \<le> u32_max"
    and len: "length ?log \<le> ?ctr"
    and es: "\<And>e. e \<in> set ?log \<Longrightarrow> er_timestamp e \<le> now \<and> er_ordering_key e = ordering_key (er_timestamp e) (er_event_id e)"
    and sorted: "sorted (map er_timestamp ?log)"
    using assms(1) by (auto simp: replay_ok_def Let_def)
  have id: "er_event_id (?log ! k) = Suc (?ctr - length ?log) + k" if "k < length ?log" for k
    using arg_cong [OF ids, of "\<lambda>xs. xs ! k"] that len by (simp del: upt_Suc)
  have "er_timestamp (?log ! i) \<le> er_timestamp (?log ! j)" using sorted ij by (simp add: sorted_iff_nth_mono)
  moreover have "er_timestamp (?log ! j) < 2 ^ 32" using es [of "?log ! j"] ij assms(2) by auto
  moreover have "er_event_id (?log ! i) < er_event_id (?log ! j)" using id ij by simp
  moreover have "er_event_id (?log ! j) < 2 ^ 32" using id [OF ij(2)] ij len bound by (simp add: u32_max_def)
  ultimately show "er_ordering_key (?log ! i) < er_ordering_key (?log ! j)"
    using es [of "?log ! i"] es [of "?log ! j"] ij ordering_key_less by simp
qed

lemma sorted_wrt_continue:
  assumes "sorted_wrt (\<lambda>x y. f x < f y) (xs @ ys)" "xs \<noteq> []"
  shows "filter (\<lambda>x. Suc (f (last xs)) \<le> f x) (xs @ ys) = ys"
proof -
  have le: "f x \<le> f (last xs)" if "x \<in> set xs" for x
  proof -
    have "xs = butlast xs @ [last xs]" using assms(2) by simp
    then have "x \<in> set (butlast xs) \<or> x = last xs" using that by (metis Un_iff append_Nil2 empty_iff in_set_conv_decomp_last insert_iff list.set(1) list.set(2) set_append)
    moreover have "sorted_wrt (\<lambda>x y. f x < f y) (butlast xs @ [last xs])" using assms by (simp add: sorted_wrt_append)
    ultimately show ?thesis by (auto simp: sorted_wrt_append)
  qed
  then have "filter (\<lambda>x. Suc (f (last xs)) \<le> f x) xs = []" by (auto simp: filter_empty_conv Suc_le_eq dest: leD)
  moreover have "filter (\<lambda>x. Suc (f (last xs)) \<le> f x) ys = ys"
    using assms by (auto simp: sorted_wrt_append filter_id_conv Suc_le_eq)
  ultimately show ?thesis by simp
qed

section \<open>Properties\<close>

definition demo_watch_env :: "nat \<Rightarrow> address \<Rightarrow> env" where
  "demo_watch_env t a = \<lparr> timestamp = t, auths = [a] \<rparr>"

definition demo_upgrade :: "(env \<times> core_call) list" where
  "demo_upgrade = [(demo_watch_env 5 ''A'', CoInitialize ''A''), (demo_watch_env 6 ''A'', CoGrantRole ''A'' ''B'' SuperAdminRole),
     (demo_watch_env 7 ''B'', CoProposeUpgrade ''B'' ''w1'' True None None),
     (demo_watch_env 8 ''A'', CoApproveUpgrade ''A'' 1)]"

text \<open>C8: An upgrade is only executed behind its governance. A governor of a state is its admin or one
  of its super admins. In any history from deployment, when \<open>execute_upgrade\<close> succeeds, the caller
  signed and is a governor of that moment, and the code installed was proposed by a successful call of
  the history that a governor of its moment signed; after that call the history holds one successful
  approval of the proposal for every further approver, signed by the approver, who was a governor when
  approving. The approvers are distinct and at least half of the governors of the moment of the
  proposal; an emergency upgrade has at least two approvers, and any other is executed at least
  48 hours after it was proposed. (An approver may have lost the role by the time of the execution.)\<close>

theorem upgrade_needs_approval:
  fixes s0 :: "'z core_state_scheme"
  assumes "core_fresh s0" "execute_upgrade self env caller pid (run (core_exec self) s0 h) = Inr s'"
  shows "caller \<in> set (auths env) \<and> is_governor (run (core_exec self) s0 h) caller
    \<and> (\<exists>p h1 e c h2 admin. co_pending_upgrade (run (core_exec self) s0 h) = Some p \<and> up_proposal_id p = pid
    \<and> co_current_wasm_hash s' = Some (up_new_wasm_hash p)
    \<and> h = h1 @ (e, c) # h2
    \<and> proposes_upgrade (run (core_exec self) s0 h1) c (up_proposer p) (up_emergency p) (up_new_wasm_hash p)
    \<and> governed_call self (run (core_exec self) s0 h1) e c (up_proposer p)
    \<and> distinct (up_approvals p)
    \<and> (\<forall>a\<in>set (up_approvals p). a = up_proposer p
         \<or> (\<exists>g1 e' g2. h2 = g1 @ (e', CoApproveUpgrade a pid) # g2
             \<and> governed_call self (run (core_exec self) s0 (h1 @ (e, c) # g1)) e' (CoApproveUpgrade a pid) a))
    \<and> ac_admin (run (core_exec self) s0 h1) = Some admin
    \<and> card (governance_members (run (core_exec self) s0 h1) admin) \<le> 2 * length (up_approvals p)
    \<and> (if up_emergency p then 2 \<le> length (up_approvals p) else timestamp e + 172800 \<le> timestamp env))"
proof -
  let ?s = "run (core_exec self) s0 h"
  have caller: "caller \<in> set (auths env) \<and> is_governor ?s caller"
    using assms(2) by (auto simp: execute_upgrade_def dest: permission_governor)
  obtain p where p: "co_pending_upgrade ?s = Some p" "up_proposal_id p = pid" "up_execute_after p \<le> timestamp env"
    "up_required_approvals p \<le> length (up_approvals p)" "co_current_wasm_hash s' = Some (up_new_wasm_hash p)"
    using assms(2) by (auto simp: execute_upgrade_def load_pending_upgrade_def Let_def)
  obtain h1 e c h2 where tr: "upgrade_trace self s0 h p h1 e c h2"
    using pending_upgrade_traced [OF assms(1) p(1)] by blast
  then obtain rest where rest: "up_approvals p = up_proposer p # rest" "distinct (up_approvals p)"
    "\<forall>a\<in>set rest. \<exists>g1 e' g2. h2 = g1 @ (e', CoApproveUpgrade a (up_proposal_id p)) # g2
       \<and> governed_call self (run (core_exec self) s0 (h1 @ (e, c) # g1)) e' (CoApproveUpgrade a (up_proposal_id p)) a"
    unfolding upgrade_trace_def by blast
  from tr have t: "h = h1 @ (e, c) # h2"
    "proposes_upgrade (run (core_exec self) s0 h1) c (up_proposer p) (up_emergency p) (up_new_wasm_hash p)"
    "governed_call self (run (core_exec self) s0 h1) e c (up_proposer p)"
    "up_execute_after p = timestamp e + (if up_emergency p then 0 else 172800)"
    "upgrade_approval_threshold (up_emergency p) (run (core_exec self) s0 h1) = Inr (up_required_approvals p)"
    unfolding upgrade_trace_def by blast+
  obtain admin where admin: "ac_admin (run (core_exec self) s0 h1) = Some admin"
    using t(5) by (auto simp: upgrade_approval_threshold_def governance_member_count_def)
  have "roles_exact (run (core_exec self) s0 h1)" using core_roles.run_inv [OF assms(1)] by (simp add: list_all_iff)
  note bounds = threshold_bounds [OF governance_member_count_card [OF this admin] t(5)]
  have card: "card (governance_members (run (core_exec self) s0 h1) admin) \<le> 2 * length (up_approvals p)"
    using bounds(2) p(4) by linarith
  have moment: "if up_emergency p then 2 \<le> length (up_approvals p) else timestamp e + 172800 \<le> timestamp env"
    using bounds(3) p(3, 4) t(4) by (auto split: if_splits)
  have approvals: "\<forall>a\<in>set (up_approvals p). a = up_proposer p
      \<or> (\<exists>g1 e' g2. h2 = g1 @ (e', CoApproveUpgrade a pid) # g2
          \<and> governed_call self (run (core_exec self) s0 (h1 @ (e, c) # g1)) e' (CoApproveUpgrade a pid) a)"
    using rest(1, 3) unfolding p(2) by auto
  show ?thesis
    using caller p(1, 2, 5) t(1-3) rest(2) approvals admin card moment by blast
qed

lemma upgrade_needs_approval_witness:
  "\<exists>p h1 e c h2. co_pending_upgrade (run (core_exec ''W'') core_start demo_upgrade) = Some p
    \<and> demo_upgrade = h1 @ (e, c) # h2
    \<and> governed_call ''W'' (run (core_exec ''W'') core_start h1) e c (up_proposer p)
    \<and> (if up_emergency p then 2 \<le> length (up_approvals p) else timestamp e + 172800 \<le> 9)"
proof -
  have "is_ok (execute_upgrade ''W'' (demo_watch_env 9 ''A'') ''A'' 1 (run (core_exec ''W'') core_start demo_upgrade))"
    by code_simp
  then obtain s' where "execute_upgrade ''W'' (demo_watch_env 9 ''A'') ''A'' 1 (run (core_exec ''W'') core_start demo_upgrade) = Inr s'"
    by (auto simp: is_ok_iff)
  moreover have "timestamp (demo_watch_env 9 ''A'') = 9" by (simp add: demo_watch_env_def)
  ultimately show ?thesis using upgrade_needs_approval [OF core_fresh_start] by metis
qed

text \<open>C38: In every reachable state the executed upgrades form a chain: versions count up by one from
  version 1 (until the counter saturates), every upgrade replaces the code the previous one
  installed, and the tracked code and rollback target are those of the last upgrade.\<close>

theorem upgrade_history_chained:
  fixes s0 :: "'z core_state_scheme"
  assumes "core_fresh s0"
  shows "upgrade_chain (run (core_exec self) s0 h)"
  using core_chain.run_inv [OF assms] by (simp add: list_all_iff)

lemma upgrade_history_chained_witness:
  "upgrade_chain (run (core_exec ''W'') core_start (demo_upgrade @ [(demo_watch_env 9 ''A'', CoExecuteUpgrade ''A'' 1)]))"
  by (rule upgrade_history_chained [OF core_fresh_start])

text \<open>C24: The admin is never replaced without consent: in every history the admin of the contract
  either signed an \<open>initialize\<close> call, or was nominated by a call signed by the admin of that
  moment and accepted it with a signed call less than seven days later.\<close>

theorem admin_was_nominated:
  fixes s0 :: "'z core_state_scheme"
  assumes "core_fresh s0" "ac_admin (run (core_exec self) s0 h) = Some b"
  shows "(\<exists>e. (e, CoInitialize b) \<in> set h \<and> b \<in> set (auths e))
    \<or> (\<exists>h1 e1 x h2 e2 h3. h = h1 @ (e1, CoProposeTransfer x b) # h2 @ (e2, CoAcceptTransfer b) # h3
        \<and> ac_admin (run (core_exec self) s0 h1) = Some x \<and> x \<in> set (auths e1) \<and> b \<in> set (auths e2)
        \<and> timestamp e2 < timestamp e1 + 604800)"
  using assms(2)
proof (induction h arbitrary: b rule: rev_induct)
  case Nil
  with assms(1) show ?case by (simp add: core_fresh_fields)
next
  case (snoc x h)
  obtain env c where x: "x = (env, c)" by (cases x)
  let ?s = "run (core_exec self) s0 h" and ?t = "run (core_exec self) s0 (h @ [x])"
  have t: "?t = invoke (core_exec self) env c ?s" unfolding x by (rule run_snoc)
  have extend: ?case if "ac_admin ?t = ac_admin ?s"
    using snoc.IH [of b] snoc.prems that by fastforce
  show ?case
  proof (rule invoke_cases [of "core_exec self" env c ?s])
    assume "invoke (core_exec self) env c ?s = ?s"
    with t extend show ?thesis by simp
  next
    fix s' assume s': "core_exec self env c ?s = Inr s'" "invoke (core_exec self) env c ?s = s'"
    consider (init) a where "c = CoInitialize a" | (accept) a where "c = CoAcceptTransfer a"
      | (same) "ac_admin s' = ac_admin ?s"
      using core_frame_admin [OF s'(1)] by blast
    then show ?thesis
    proof cases
      case init
      then have "ac_admin s' = Some a" "a \<in> set (auths env)" using s'(1) by (auto simp: core_initialize_def)
      moreover have "b = a" using calculation(1) snoc.prems t s'(2) by simp
      ultimately have "(env, CoInitialize b) \<in> set (h @ [x])" "b \<in> set (auths env)" using x init by simp_all
      then show ?thesis by blast
    next
      case accept
      then obtain p where p: "co_pending_transfer ?s = Some p" "a \<in> set (auths env)" "timestamp env < pt_timeout_at p"
        "a = pt_proposed_admin p" "ac_admin s' = Some a"
        using s'(1) by (auto simp: accept_admin_transfer_def)
      obtain h1 e1 h2 where n: "nomination self s0 h a h1 e1 h2" "pt_timeout_at p = timestamp e1 + 604800"
        using pending_transfer_nominated [OF assms(1) p(1)] p(4) by blast
      have "b = a" using p(5) snoc.prems t s'(2) by simp
      moreover obtain y where "h = h1 @ (e1, CoProposeTransfer y a) # h2" "y \<in> set (auths e1)"
        "ac_admin (run (core_exec self) s0 h1) = Some y"
        using n(1) unfolding nomination_def by blast
      moreover have "timestamp env < timestamp e1 + 604800" using n(2) p(3) by simp
      ultimately have "h @ [x] = h1 @ (e1, CoProposeTransfer y b) # h2 @ (env, CoAcceptTransfer b) # []
          \<and> ac_admin (run (core_exec self) s0 h1) = Some y \<and> y \<in> set (auths e1) \<and> b \<in> set (auths env)
          \<and> timestamp env < timestamp e1 + 604800"
        using p(2) x accept by simp
      then show ?thesis by blast
    next
      case same
      then show ?thesis using t s'(2) extend by simp
    qed
  qed
qed

definition demo_handover :: "(env \<times> core_call) list" where
  "demo_handover = [(demo_watch_env 5 ''A'', CoInitialize ''A''), (demo_watch_env 6 ''A'', CoProposeTransfer ''A'' ''B''),
     (demo_watch_env 7 ''B'', CoAcceptTransfer ''B'')]"

lemma admin_was_nominated_witness:
  "\<exists>h1 e1 x h2 e2 h3. demo_handover = h1 @ (e1, CoProposeTransfer x ''B'') # h2 @ (e2, CoAcceptTransfer ''B'') # h3
      \<and> x \<in> set (auths e1) \<and> ''B'' \<in> set (auths e2) \<and> timestamp e2 < timestamp e1 + 604800"
proof -
  have "ac_admin (run (core_exec ''W'') core_start demo_handover) = Some ''B''" by code_simp
  from admin_was_nominated [OF core_fresh_start this]
  have "\<exists>h1 e1 x h2 e2 h3. demo_handover = h1 @ (e1, CoProposeTransfer x ''B'') # h2 @ (e2, CoAcceptTransfer ''B'') # h3
      \<and> ac_admin (run (core_exec ''W'') core_start h1) = Some x \<and> x \<in> set (auths e1) \<and> ''B'' \<in> set (auths e2)
      \<and> timestamp e2 < timestamp e1 + 604800"
    by (simp add: demo_handover_def)
  then show ?thesis by blast
qed

text \<open>Also: The pause holds for a day: in every chronological history the contract is paused exactly
  when the last entry of the pause log is a pause, and when \<open>unpause\<close> succeeds at least 86400
  seconds have passed since every recorded pause.\<close>

theorem unpause_waits_a_day:
  fixes s0 :: "'z core_state_scheme"
  assumes "core_fresh s0" "chronological (h @ [(env, CoUnpause caller reason)])"
    "unpause env caller reason (run (core_exec self) s0 h) = Inr s'"
  shows "(\<forall>r\<in>set (unwrap_or (co_pause_history (run (core_exec self) s0 h)) []). pz_paused r \<longrightarrow>
      pz_timestamp r + 86400 \<le> timestamp env)
    \<and> (watch_is_paused (run (core_exec self) s0 h) \<longleftrightarrow>
        unwrap_or (co_pause_history (run (core_exec self) s0 h)) [] \<noteq> []
        \<and> pz_paused (last (unwrap_or (co_pause_history (run (core_exec self) s0 h)) [])))
    \<and> \<not> watch_is_paused s'"
proof -
  have "pause_ok (timestamp env) (run (core_exec self) s0 h)"
    using assms(2) by (intro pause_ok_run [OF assms(1)]) (auto simp: chronological_def sorted_append)
  moreover have "unwrap_or (co_unpause_available_at (run (core_exec self) s0 h)) 0 \<le> timestamp env" "\<not> watch_is_paused s'"
    using assms(3) by (auto simp: unpause_def append_admin_activity_def pause_log_def watch_is_paused_def Let_def)
  ultimately show ?thesis unfolding pause_ok_def Let_def by fastforce
qed

definition demo_pause :: "(env \<times> core_call) list" where
  "demo_pause = [(demo_watch_env 5 ''A'', CoInitialize ''A''), (demo_watch_env 6 ''A'', CoEmergencyPause ''A'' ''hack'')]"

lemma unpause_waits_a_day_witness:
  "\<exists>s'. unpause (demo_watch_env 86406 ''A'') ''A'' ''ok'' (run (core_exec ''W'') core_start demo_pause) = Inr s'
      \<and> \<not> watch_is_paused s'"
proof -
  have "is_ok (unpause (demo_watch_env 86406 ''A'') ''A'' ''ok'' (run (core_exec ''W'') core_start demo_pause))" by code_simp
  then obtain s' where u: "unpause (demo_watch_env 86406 ''A'') ''A'' ''ok'' (run (core_exec ''W'') core_start demo_pause) = Inr s'"
    by (auto simp: is_ok_iff)
  have c: "chronological (demo_pause @ [(demo_watch_env 86406 ''A'', CoUnpause ''A'' ''ok'')])"
    by (simp add: chronological_def demo_pause_def demo_watch_env_def)
  from unpause_waits_a_day [OF core_fresh_start c u] u show ?thesis by blast
qed

text \<open>Also: Paging through the replay log loses nothing: in every chronological history of administration
  calls (the submissions of health, which append to the same log, are not among them) before the year
  2106 (timestamps below \<open>2 ^ 32\<close>) the ordering keys of the log strictly increase, so that a page
  of at most 100 entries from a key followed by the page from one after its last key are together
  exactly the entries from the first key on, in order and without repetition.\<close>

theorem replay_pages_complete:
  fixes s0 :: "'z core_state_scheme"
  assumes "core_fresh s0" "chronological h" "\<forall>(e, c)\<in>set h. timestamp e < 2 ^ 32"
    "get_replay_events from_key limit (run (core_exec self) s0 h) = Inr (page, n, v)" "page \<noteq> []"
  shows "filter (\<lambda>x. from_key \<le> er_ordering_key x) (unwrap_or (co_replay_log (run (core_exec self) s0 h)) [])
      = page @ filter (\<lambda>x. Suc (er_ordering_key (last page)) \<le> er_ordering_key x)
                (unwrap_or (co_replay_log (run (core_exec self) s0 h)) [])
    \<and> length page \<le> limit \<and> n \<le> 1000 \<and> sorted_wrt (\<lambda>x y. er_ordering_key x < er_ordering_key y) page"
proof -
  let ?s = "run (core_exec self) s0 h"
  let ?log = "unwrap_or (co_replay_log ?s) []"
  let ?xs = "filter (\<lambda>x. from_key \<le> er_ordering_key x) ?log"
  have "\<forall>(e, c)\<in>set h. timestamp e \<le> 2 ^ 32 - 1" using assms(3) by fastforce
  then have ok: "replay_ok (2 ^ 32 - 1) ?s" by (rule replay_ok_run [OF assms(1, 2)])
  have page: "page = take limit ?xs" "n = length ?log"
    using assms(4) by (auto simp: get_replay_events_def Let_def replay_scan_eq)
  have sorted: "sorted_wrt (\<lambda>x y. er_ordering_key x < er_ordering_key y) ?log" by (rule replay_keys_sorted [OF ok]) simp
  then have split: "sorted_wrt (\<lambda>x y. er_ordering_key x < er_ordering_key y) (page @ drop limit ?xs)"
    unfolding page(1) append_take_drop_id by (rule sorted_wrt_filter)
  have "last page \<in> set ?xs" using assms(5) page(1) in_set_takeD last_in_set by metis
  then have "from_key \<le> er_ordering_key (last page)" by simp
  then have "filter (\<lambda>x. Suc (er_ordering_key (last page)) \<le> er_ordering_key x) ?log
      = filter (\<lambda>x. Suc (er_ordering_key (last page)) \<le> er_ordering_key x) ?xs"
    by (auto simp: filter_filter intro!: filter_cong)
  also have "\<dots> = filter (\<lambda>x. Suc (er_ordering_key (last page)) \<le> er_ordering_key x) (page @ drop limit ?xs)"
    unfolding page(1) append_take_drop_id ..
  also have "\<dots> = drop limit ?xs" by (rule sorted_wrt_continue [OF split assms(5)])
  finally have "?xs = page @ filter (\<lambda>x. Suc (er_ordering_key (last page)) \<le> er_ordering_key x) ?log"
    using page(1) by simp
  moreover have "sorted_wrt (\<lambda>x y. er_ordering_key x < er_ordering_key y) page" using split by (simp add: sorted_wrt_append)
  moreover have "n \<le> 1000" using ok page(2) by (simp add: replay_ok_def Let_def)
  ultimately show ?thesis using page(1) by simp
qed

definition demo_recovery :: "(env \<times> core_call) list" where
  "demo_recovery = [(demo_watch_env 5 ''A'', CoInitialize ''A''), (demo_watch_env 6 ''A'', CoEnterRecovery ''A'' ''r1''),
     (demo_watch_env 6 ''A'', CoExitRecovery ''A''), (demo_watch_env 7 ''A'', CoEnterRecovery ''A'' ''r2'')]"

lemma replay_pages_complete_witness:
  "\<exists>page n v. get_replay_events 0 1 (run (core_exec ''W'') core_start demo_recovery) = Inr (page, n, v)
    \<and> filter (\<lambda>x. 0 \<le> er_ordering_key x) (unwrap_or (co_replay_log (run (core_exec ''W'') core_start demo_recovery)) [])
      = page @ filter (\<lambda>x. Suc (er_ordering_key (last page)) \<le> er_ordering_key x)
                (unwrap_or (co_replay_log (run (core_exec ''W'') core_start demo_recovery)) [])"
proof -
  have "map_sum (\<lambda>_. ()) (\<lambda>(page, n, v). map er_event_id page) (get_replay_events 0 1 (run (core_exec ''W'') core_start demo_recovery)) = Inr [1]"
    by code_simp
  then obtain page n v where p: "get_replay_events 0 1 (run (core_exec ''W'') core_start demo_recovery) = Inr (page, n, v)"
    "page \<noteq> []" by (cases "get_replay_events 0 1 (run (core_exec ''W'') core_start demo_recovery)") auto
  have "chronological demo_recovery" "\<forall>(e, c)\<in>set demo_recovery. timestamp e < 2 ^ 32"
    by (simp_all add: chronological_def demo_recovery_def demo_watch_env_def)
  from replay_pages_complete [OF core_fresh_start this p] p(1) show ?thesis by blast
qed

text \<open>Also: In every reachable state the public listing of role assignments holds each role of each
  address exactly once, so the number of governance members that the approval thresholds use is
  the number of distinct addresses that are the admin or a super admin.\<close>

theorem governance_members_counted:
  fixes s0 :: "'z core_state_scheme"
  assumes "core_fresh s0" "ac_admin (run (core_exec self) s0 h) = Some admin"
  shows "roles_exact (run (core_exec self) s0 h)
    \<and> governance_member_count (run (core_exec self) s0 h) = Inr (card (governance_members (run (core_exec self) s0 h) admin))"
proof -
  have "roles_exact (run (core_exec self) s0 h)" using core_roles.run_inv [OF assms(1)] by (simp add: list_all_iff)
  with governance_member_count_card [OF this assms(2)] show ?thesis by blast
qed

lemma governance_members_counted_witness:
  "governance_member_count (run (core_exec ''W'') core_start demo_upgrade)
     = Inr (card (governance_members (run (core_exec ''W'') core_start demo_upgrade) ''A''))"
proof -
  have "ac_admin (run (core_exec ''W'') core_start demo_upgrade) = Some ''A''" by code_simp
  from governance_members_counted [OF core_fresh_start this] show ?thesis by blast
qed

text \<open>Also: While a nomination of a new admin is pending and has not timed out, no call can grant or
  revoke a role or propose, approve or execute an upgrade, whoever signs it.\<close>

theorem pending_transfer_locks:
  assumes "co_pending_transfer s = Some p" "timestamp env < pt_timeout_at p"
    "c = CoGrantRole a b r \<or> c = CoRevokeRole a b r \<or> c = CoProposeUpgrade a w em cb pl \<or> c = CoProposeRollback a em cb pl
      \<or> c = CoApproveUpgrade a i \<or> c = CoExecuteUpgrade a i"
  shows "\<not> is_ok (core_exec self env c s) \<and> invoke (core_exec self) env c s = s"
proof -
  have "core_exec self env c s \<noteq> Inr s'" for s'
    using assms by (auto simp: grant_admin_role_def revoke_admin_role_def propose_upgrade_def propose_rollback_def
        approve_upgrade_def execute_upgrade_def require_super_admin_def check_no_pending_transfer_def)
  then show ?thesis by (cases "core_exec self env c s") (auto simp: invoke_def is_ok_def)
qed

lemma pending_transfer_locks_witness:
  "\<not> is_ok (core_exec ''W'' (demo_watch_env 8 ''A'') (CoGrantRole ''A'' ''C'' SuperAdminRole)
      (run (core_exec ''W'') core_start (take 2 demo_handover)))"
proof -
  have "map_option (\<lambda>p. (pt_proposed_admin p, pt_timeout_at p))
      (co_pending_transfer (run (core_exec ''W'') core_start (take 2 demo_handover))) = Some (''B'', 604806)"
    by code_simp
  then obtain p where "co_pending_transfer (run (core_exec ''W'') core_start (take 2 demo_handover)) = Some p"
    "pt_timeout_at p = 604806" by auto
  then show ?thesis
    using pending_transfer_locks [of "run (core_exec ''W'') core_start (take 2 demo_handover)" p "demo_watch_env 8 ''A''"
        "CoGrantRole ''A'' ''C'' SuperAdminRole"]
    by (simp add: demo_watch_env_def)
qed

text \<open>Also: \<open>initialize\<close> has no guard: in any state any address that signs the call becomes the admin of
  the contract, also of one that has an admin already.\<close>

theorem watch_reinitialize:
  assumes "a \<in> set (auths env)"
  shows "\<exists>s'. core_exec self env (CoInitialize a) s = Inr s' \<and> ac_admin s' = Some a"
  using assms by (simp add: core_initialize_def)

lemma watch_reinitialize_witness:
  "\<exists>s'. core_exec ''W'' (demo_watch_env 9 ''E'') (CoInitialize ''E'') (run (core_exec ''W'') core_start demo_upgrade) = Inr s'
     \<and> ac_admin s' = Some ''E''"
  by (rule watch_reinitialize) (simp add: demo_watch_env_def)

end
