(* ===== verification/Watch_Checkpoint.thy ===== *)
theory Watch_Checkpoint
  imports Watch_Core Statistics "HOL-Library.Multiset" "HOL-Library.Sublist"
begin

text \<open>
  The checkpoints of the watch contract and the retention of its historical data
  (\<open>soroban/src/lib.rs\<close>): the serialisation a checkpoint's hash is computed over, manual,
  automatic and restoring checkpoints, pruning, validation and comparison, and the cleanup of old
  supply mismatches, liquidity snapshots and checkpoints, which every checkpoint triggers.
  \<open>vault_state\<close> extends the administrative state by the records these operations read; SHA-256 is
  the parameter \<open>sha\<close>, a function of bytes. Lemmas: a well-formed store of checkpoints, what a
  cleanup keeps, and the effect of a restore.
\<close>

section \<open>Data\<close>

record asset_health =
  ah_asset_code :: string
  ah_health_score :: nat
  ah_liquidity_score :: nat
  ah_price_stability_score :: nat
  ah_bridge_uptime_score :: nat
  ah_paused :: bool
  ah_active :: bool
  ah_timestamp :: nat
  ah_expires_at :: nat

record price_record =
  pr_asset_code :: string
  pr_price :: int
  pr_source :: string
  pr_timestamp :: nat
  pr_expires_at :: nat

record health_score_result =
  hr_composite_score :: nat
  hr_liquidity_score :: nat
  hr_price_stability_score :: nat
  hr_bridge_uptime_score :: nat
  hr_weights :: health_weights
  hr_timestamp :: nat
  hr_expires_at :: nat

record supply_mismatch =
  sm_bridge_id :: string
  sm_asset_code :: string
  sm_stellar_supply :: int
  sm_source_chain_supply :: int
  sm_mismatch_bps :: int
  sm_is_critical :: bool
  sm_timestamp :: nat
  sm_expires_at :: nat

record pair_depth =
  pd_asset_pair :: string
  pd_total_liquidity :: int
  pd_depth_0_1_pct :: int
  pd_depth_0_5_pct :: int
  pd_depth_1_pct :: int
  pd_depth_5_pct :: int
  pd_sources :: "string list"
  pd_timestamp :: nat
  pd_expires_at :: nat

datatype checkpoint_trigger = AutomaticTrigger | ManualTrigger | RestoreTrigger

record checkpoint_config =
  kc_interval_secs :: nat
  kc_max_checkpoints :: nat
  kc_format_version :: nat

record checkpoint_asset_state =
  ka_asset_code :: string
  ka_health :: asset_health
  ka_has_latest_price :: bool
  ka_latest_price :: price_record
  ka_has_health_result :: bool
  ka_health_result :: health_score_result

record checkpoint_snapshot =
  ks_checkpoint_id :: nat
  ks_format_version :: nat
  ks_created_at :: nat
  ks_trigger :: checkpoint_trigger
  ks_created_by :: address
  ks_label :: string
  ks_monitored_assets :: "string list"
  ks_health_weights :: health_weights
  ks_risk_score_config :: risk_score_config
  ks_assets :: "checkpoint_asset_state list"
  ks_restored_from :: "nat option"

type_synonym bytes = "nat list"

record checkpoint_metadata =
  km_checkpoint_id :: nat
  km_format_version :: nat
  km_created_at :: nat
  km_trigger :: checkpoint_trigger
  km_created_by :: address
  km_label :: string
  km_monitored_asset_count :: nat
  km_asset_count :: nat
  km_state_hash :: bytes
  km_restored_from :: "nat option"

record checkpoint_asset_diff =
  kd_asset_code :: string
  kd_health_changed :: bool
  kd_price_changed :: bool
  kd_health_result_changed :: bool

record checkpoint_comparison =
  kx_from_checkpoint_id :: nat
  kx_to_checkpoint_id :: nat
  kx_timestamp_delta :: nat
  kx_state_hash_changed :: bool
  kx_weights_changed :: bool
  kx_added_assets :: "string list"
  kx_removed_assets :: "string list"
  kx_changed_assets :: "checkpoint_asset_diff list"

record checkpoint_validation =
  kv_checkpoint_id :: nat
  kv_is_valid :: bool
  kv_message :: string

datatype retention_data_type = SupplyMismatches | LiquidityHistory | Checkpoints

record retention_policy =
  rp_data_type :: retention_data_type
  rp_retention_secs :: nat
  rp_trigger_interval_secs :: nat
  rp_max_deletions_per_run :: nat
  rp_archive_before_delete :: bool
  rp_enabled :: bool

record cleanup_data_type_result =
  cd_data_type :: retention_data_type
  cd_deleted :: nat
  cd_archived :: nat

record cleanup_result =
  cu_executed_at :: nat
  cu_total_deleted :: nat
  cu_total_archived :: nat
  cu_details :: "cleanup_data_type_result list"

record storage_usage_entry =
  su_data_type :: retention_data_type
  su_tracked_keys :: nat
  su_active_records :: nat
  su_archived_records :: nat

record storage_stats =
  ss_generated_at :: nat
  ss_total_tracked_keys :: nat
  ss_total_active_records :: nat
  ss_total_archived_records :: nat
  ss_entries :: "storage_usage_entry list"

record vault_state = core_state +
  va_monitored_assets :: "string list option"
  va_health :: "string \<rightharpoonup> asset_health"
  va_price :: "string \<rightharpoonup> price_record"
  va_health_result :: "string \<rightharpoonup> health_score_result"
  va_health_weights :: "health_weights option"
  va_risk_score_config :: "risk_score_config option"
  va_checkpoint_config :: "checkpoint_config option"
  va_checkpoint_counter :: "nat option"
  va_checkpoint_metadata :: "checkpoint_metadata list option"
  va_checkpoint_snapshot :: "nat \<rightharpoonup> checkpoint_snapshot"
  va_last_checkpoint_at :: "nat option"
  va_last_checkpoint_id :: "nat option"
  va_archived_metadata :: "checkpoint_metadata list option"
  va_archived_snapshot :: "nat \<rightharpoonup> checkpoint_snapshot"
  va_retention_policy :: "retention_data_type \<rightharpoonup> retention_policy"
  va_last_cleanup :: "retention_data_type \<rightharpoonup> nat"
  va_retention_override :: "string \<times> retention_data_type \<rightharpoonup> nat"
  va_bridge_ids :: "string list option"
  va_mismatches :: "string \<rightharpoonup> supply_mismatch list"
  va_archived_mismatches :: "string \<rightharpoonup> supply_mismatch list"
  va_liquidity_pairs :: "string list option"
  va_liquidity_history :: "string \<rightharpoonup> pair_depth list"
  va_archived_liquidity :: "string \<rightharpoonup> pair_depth list"

section \<open>Bytes\<close>

text \<open>\<open>to_be_bytes\<close> of an integer of \<open>n\<close> bytes.\<close>

definition to_be_bytes :: "nat \<Rightarrow> nat \<Rightarrow> bytes" where
  "to_be_bytes n v = map (\<lambda>i. v div 256 ^ (n - 1 - i) mod 256) [0 ..< n]"

definition append_u32_watch :: "nat \<Rightarrow> bytes \<Rightarrow> bytes" where
  "append_u32_watch v buf = buf @ to_be_bytes 4 v"

definition append_u64_watch :: "nat \<Rightarrow> bytes \<Rightarrow> bytes" where
  "append_u64_watch v buf = buf @ to_be_bytes 8 v"

definition append_i128 :: "int \<Rightarrow> bytes \<Rightarrow> bytes" where
  "append_i128 v buf = buf @ to_be_bytes 16 (nat (v mod 2 ^ 128))"

definition append_bool :: "bool \<Rightarrow> bytes \<Rightarrow> bytes" where
  "append_bool b buf = buf @ [if b then 1 else 0]"

text \<open>The string is copied into a slice of at most 256 bytes; \<open>copy_into_slice\<close> panics when the
  lengths differ.\<close>

definition str_to_bytes :: "string \<Rightarrow> bytes wres" where
  "str_to_bytes x =
     (let safe_len = min (length x) 256
      in and_then (ensure (length x = safe_len) (Panic ''String::copy_into_slice with mismatched slice length'')) (\<lambda>_.
         Inr (map of_char x)))"

definition append_string :: "string \<Rightarrow> bytes \<Rightarrow> bytes wres" where
  "append_string x buf = and_then (str_to_bytes x) (\<lambda>raw. Inr (append_u32_watch (length raw) buf @ raw))"

definition append_asset_health :: "asset_health \<Rightarrow> bytes \<Rightarrow> bytes wres" where
  "append_asset_health h buf =
     and_then (append_string (ah_asset_code h) buf) (\<lambda>b.
     Inr (append_u64_watch (ah_timestamp h) (append_bool (ah_active h) (append_bool (ah_paused h)
         (append_u32_watch (ah_bridge_uptime_score h) (append_u32_watch (ah_price_stability_score h)
         (append_u32_watch (ah_liquidity_score h) (append_u32_watch (ah_health_score h) b))))))))"

definition append_price_record :: "price_record \<Rightarrow> bytes \<Rightarrow> bytes wres" where
  "append_price_record p buf =
     and_then (append_string (pr_asset_code p) buf) (\<lambda>b1.
     and_then (append_string (pr_source p) (append_i128 (pr_price p) b1)) (\<lambda>b2.
     Inr (append_u64_watch (pr_timestamp p) b2)))"

definition append_weights :: "health_weights \<Rightarrow> bytes \<Rightarrow> bytes" where
  "append_weights w buf = append_u32_watch (hw_version w) (append_u32_watch (hw_bridge_uptime_weight w)
     (append_u32_watch (hw_price_stability_weight w) (append_u32_watch (hw_liquidity_weight w) buf)))"

definition append_health_score_result :: "health_score_result \<Rightarrow> bytes \<Rightarrow> bytes" where
  "append_health_score_result r buf = append_u64_watch (hr_timestamp r) (append_weights (hr_weights r)
     (append_u32_watch (hr_bridge_uptime_score r) (append_u32_watch (hr_price_stability_score r)
     (append_u32_watch (hr_liquidity_score r) (append_u32_watch (hr_composite_score r) buf)))))"

section \<open>Loads and guards\<close>

definition load_registered_assets_raw :: "'z vault_state_scheme \<Rightarrow> string list" where
  "load_registered_assets_raw s = unwrap_or (va_monitored_assets s) []"

definition load_asset_health :: "string \<Rightarrow> 'z vault_state_scheme \<Rightarrow> asset_health wres" where
  "load_asset_health code s = ok_or (va_health s code) (Panic ''asset is not registered'')"

definition load_health_weights :: "'z vault_state_scheme \<Rightarrow> health_weights" where
  "load_health_weights s = unwrap_or (va_health_weights s) default_health_weights"

definition load_risk_score_config :: "'z vault_state_scheme \<Rightarrow> risk_score_config" where
  "load_risk_score_config s = unwrap_or (va_risk_score_config s) default_risk_score_config"

definition default_checkpoint_config :: checkpoint_config where
  "default_checkpoint_config = \<lparr> kc_interval_secs = 86400, kc_max_checkpoints = 25, kc_format_version = 1 \<rparr>"

definition load_checkpoint_config :: "'z vault_state_scheme \<Rightarrow> checkpoint_config" where
  "load_checkpoint_config s = unwrap_or (va_checkpoint_config s) default_checkpoint_config"

definition load_checkpoint_metadata :: "'z vault_state_scheme \<Rightarrow> checkpoint_metadata list" where
  "load_checkpoint_metadata s = unwrap_or (va_checkpoint_metadata s) []"

definition load_checkpoint_metadata_by_id :: "nat \<Rightarrow> 'z vault_state_scheme \<Rightarrow> checkpoint_metadata wres" where
  "load_checkpoint_metadata_by_id cid s =
     ok_or (List.find (\<lambda>m. km_checkpoint_id m = cid) (load_checkpoint_metadata s)) (Panic ''checkpoint metadata not found'')"

definition get_checkpoint_or_panic :: "nat \<Rightarrow> 'z vault_state_scheme \<Rightarrow> checkpoint_snapshot wres" where
  "get_checkpoint_or_panic cid s = ok_or (va_checkpoint_snapshot s cid) (Panic ''checkpoint not found'')"

definition vec_contains_string :: "string list \<Rightarrow> string \<Rightarrow> bool" where
  "vec_contains_string xs x = list_ex (\<lambda>y. y = x) xs"

text \<open>\<open>assert_admin_or_super_admin\<close> and its twin for retention, which differ in the message.\<close>

definition assert_admin_or_super_admin :: "env \<Rightarrow> 'z core_state_scheme \<Rightarrow> address \<Rightarrow> unit wres" where
  "assert_admin_or_super_admin env s caller =
     require_super_admin env s caller ''only admin or SuperAdmin can manage checkpoints''"

definition assert_admin_or_super_admin_retention :: "env \<Rightarrow> 'z core_state_scheme \<Rightarrow> address \<Rightarrow> unit wres" where
  "assert_admin_or_super_admin_retention env s caller =
     require_super_admin env s caller ''only admin or SuperAdmin can manage retention policies''"

section \<open>The hash of a checkpoint\<close>

fun append_strings :: "string list \<Rightarrow> bytes \<Rightarrow> bytes wres" where
  "append_strings [] buf = Inr buf"
| "append_strings (x # xs) buf = and_then (append_string x buf) (append_strings xs)"

definition append_checkpoint_asset :: "checkpoint_asset_state \<Rightarrow> bytes \<Rightarrow> bytes wres" where
  "append_checkpoint_asset a buf =
     and_then (append_string (ka_asset_code a) buf) (\<lambda>b1.
     and_then (append_asset_health (ka_health a) b1) (\<lambda>b2.
     let b3 = append_bool (ka_has_latest_price a) b2 in
     and_then (if ka_has_latest_price a then append_price_record (ka_latest_price a) b3 else Inr b3) (\<lambda>b4.
     let b5 = append_bool (ka_has_health_result a) b4 in
     Inr (if ka_has_health_result a then append_health_score_result (ka_health_result a) b5 else b5))))"

fun append_checkpoint_assets :: "checkpoint_asset_state list \<Rightarrow> bytes \<Rightarrow> bytes wres" where
  "append_checkpoint_assets [] buf = Inr buf"
| "append_checkpoint_assets (a # rest) buf = and_then (append_checkpoint_asset a buf) (append_checkpoint_assets rest)"

definition append_risk_config :: "risk_score_config \<Rightarrow> bytes \<Rightarrow> bytes" where
  "append_risk_config c buf = append_u32_watch (rc_version c) (append_u32_watch (rc_max_volatility_bps c)
     (append_u32_watch (rc_max_price_deviation_bps c) (append_u32_watch (rc_volatility_weight_bps c)
     (append_u32_watch (rc_price_weight_bps c) (append_u32_watch (rc_health_weight_bps c) buf)))))"

definition checkpoint_bytes :: "checkpoint_snapshot \<Rightarrow> bytes wres" where
  "checkpoint_bytes k =
     and_then (append_strings (ks_monitored_assets k)
       (append_risk_config (ks_risk_score_config k) (append_weights (ks_health_weights k)
         (append_u32_watch (ks_format_version k) [])))) (append_checkpoint_assets (ks_assets k))"

definition compute_checkpoint_hash :: "(bytes \<Rightarrow> bytes) \<Rightarrow> checkpoint_snapshot \<Rightarrow> bytes wres" where
  "compute_checkpoint_hash sha k = and_then (checkpoint_bytes k) (\<lambda>data. Inr (sha data))"

section \<open>Retention policies\<close>

definition retention_data_types :: "retention_data_type list" where
  "retention_data_types = [SupplyMismatches, LiquidityHistory, Checkpoints]"

definition default_retention_policy :: "retention_data_type \<Rightarrow> retention_policy" where
  "default_retention_policy t =
     \<lparr> rp_data_type = t,
       rp_retention_secs = (case t of SupplyMismatches \<Rightarrow> 30 * 24 * 60 * 60 | LiquidityHistory \<Rightarrow> 30 * 24 * 60 * 60
                            | Checkpoints \<Rightarrow> 90 * 24 * 60 * 60),
       rp_trigger_interval_secs = 3600, rp_max_deletions_per_run = 50, rp_archive_before_delete = False,
       rp_enabled = True \<rparr>"

definition initialize_retention_policies :: "'z vault_state_scheme \<Rightarrow> 'z vault_state_scheme" where
  "initialize_retention_policies s = fold (\<lambda>t s.
     s\<lparr> va_retention_policy := (va_retention_policy s)(t \<mapsto> default_retention_policy t),
        va_last_cleanup := (va_last_cleanup s)(t \<mapsto> 0) \<rparr>) retention_data_types s"

definition load_retention_policy :: "retention_data_type \<Rightarrow> 'z vault_state_scheme \<Rightarrow> retention_policy" where
  "load_retention_policy t s = unwrap_or (va_retention_policy s t) (default_retention_policy t)"

definition validate_retention_policy_inputs :: "nat \<Rightarrow> nat \<Rightarrow> nat \<Rightarrow> unit wres" where
  "validate_retention_policy_inputs retention trigger max_del =
     and_then (ensure (retention \<noteq> 0) (Panic ''retention_secs must be greater than zero'')) (\<lambda>_.
     and_then (ensure (trigger \<noteq> 0) (Panic ''trigger_interval_secs must be greater than zero'')) (\<lambda>_.
     ensure (max_del \<noteq> 0) (Panic ''max_deletions_per_run must be greater than zero'')))"

definition resolve_retention_secs :: "'z vault_state_scheme \<Rightarrow> retention_data_type \<Rightarrow> string option \<Rightarrow> nat \<Rightarrow> nat" where
  "resolve_retention_secs s t code default_secs = (case code of
     Some c \<Rightarrow> unwrap_or (va_retention_override s (c, t)) default_secs
   | None \<Rightarrow> default_secs)"

definition is_expired_watch :: "nat \<Rightarrow> nat \<Rightarrow> nat \<Rightarrow> bool" where
  "is_expired_watch now at retention = (retention < now - at)"

text \<open>The loop over a vector of records: all but the last one are deleted, oldest first, when they
  are expired and the budget of the run is not used up. Result: the new count of deletions, what
  is kept and what is removed.\<close>

fun split_expired :: "('a \<Rightarrow> bool) \<Rightarrow> nat \<Rightarrow> nat \<Rightarrow> 'a list \<Rightarrow> nat \<times> 'a list \<times> 'a list" where
  "split_expired expired max_del deleted [] = (deleted, [], [])"
| "split_expired expired max_del deleted (x # rest) =
     (let is_latest = (rest = []) in
      if \<not> is_latest \<and> deleted < max_del \<and> expired x
      then (let (d, kept, removed) = split_expired expired max_del (deleted + 1) rest in (d, kept, x # removed))
      else (let (d, kept, removed) = split_expired expired max_del deleted rest in (d, x # kept, removed)))"

section \<open>Cleanup\<close>

definition cleanup_bridge :: "env \<Rightarrow> retention_policy \<Rightarrow> nat \<Rightarrow> string \<Rightarrow> 'z vault_state_scheme \<times> nat \<times> nat
    \<Rightarrow> 'z vault_state_scheme \<times> nat \<times> nat" where
  "cleanup_bridge env policy max_del bridge = (\<lambda>(s, deleted, archived).
     let records = unwrap_or (va_mismatches s bridge) [] in
     if max_del \<le> deleted \<or> length records \<le> 1 then (s, deleted, archived)
     else (let (d, kept, removed) = split_expired (\<lambda>r. is_expired_watch (timestamp env) (sm_timestamp r)
                  (resolve_retention_secs s SupplyMismatches (Some (sm_asset_code r)) (rp_retention_secs policy)))
                max_del deleted records
           in if removed = [] then (s, deleted, archived)
              else (let s1 = s\<lparr> va_mismatches := (va_mismatches s)(bridge \<mapsto> kept) \<rparr>
                    in if rp_archive_before_delete policy
                       then (s1\<lparr> va_archived_mismatches := (va_archived_mismatches s1)
                                   (bridge \<mapsto> unwrap_or (va_archived_mismatches s1 bridge) [] @ removed) \<rparr>,
                             d, archived + length removed)
                       else (s1, d, archived))))"

definition cleanup_supply_mismatches :: "env \<Rightarrow> retention_policy \<Rightarrow> nat \<Rightarrow> 'z vault_state_scheme
    \<Rightarrow> 'z vault_state_scheme \<times> nat \<times> nat" where
  "cleanup_supply_mismatches env policy max_del s =
     fold (cleanup_bridge env policy max_del) (unwrap_or (va_bridge_ids s) []) (s, 0, 0)"

definition cleanup_pair :: "env \<Rightarrow> retention_policy \<Rightarrow> nat \<Rightarrow> string \<Rightarrow> 'z vault_state_scheme \<times> nat \<times> nat
    \<Rightarrow> 'z vault_state_scheme \<times> nat \<times> nat" where
  "cleanup_pair env policy max_del pair = (\<lambda>(s, deleted, archived).
     let history = unwrap_or (va_liquidity_history s pair) [] in
     if max_del \<le> deleted \<or> length history \<le> 1 then (s, deleted, archived)
     else (let (d, kept, removed) = split_expired (\<lambda>r. is_expired_watch (timestamp env) (pd_timestamp r)
                  (resolve_retention_secs s LiquidityHistory (Some (pd_asset_pair r)) (rp_retention_secs policy)))
                max_del deleted history
           in if removed = [] then (s, deleted, archived)
              else (let s1 = s\<lparr> va_liquidity_history := (va_liquidity_history s)(pair \<mapsto> kept) \<rparr>
                    in if rp_archive_before_delete policy
                       then (s1\<lparr> va_archived_liquidity := (va_archived_liquidity s1)
                                   (pair \<mapsto> unwrap_or (va_archived_liquidity s1 pair) [] @ removed) \<rparr>,
                             d, archived + length removed)
                       else (s1, d, archived))))"

definition cleanup_liquidity_history :: "env \<Rightarrow> retention_policy \<Rightarrow> nat \<Rightarrow> 'z vault_state_scheme
    \<Rightarrow> 'z vault_state_scheme \<times> nat \<times> nat" where
  "cleanup_liquidity_history env policy max_del s =
     fold (cleanup_pair env policy max_del) (unwrap_or (va_liquidity_pairs s) []) (s, 0, 0)"

definition drop_snapshot :: "retention_policy \<Rightarrow> checkpoint_metadata \<Rightarrow> 'z vault_state_scheme \<Rightarrow> 'z vault_state_scheme" where
  "drop_snapshot policy m s =
     (let s1 = (if rp_archive_before_delete policy
                then (case va_checkpoint_snapshot s (km_checkpoint_id m) of
                        None \<Rightarrow> s
                      | Some k \<Rightarrow> s\<lparr> va_archived_snapshot := (va_archived_snapshot s)(km_checkpoint_id m \<mapsto> k) \<rparr>)
                else s)
      in s1\<lparr> va_checkpoint_snapshot := (va_checkpoint_snapshot s1)(km_checkpoint_id m := None) \<rparr>)"

definition cleanup_checkpoints :: "env \<Rightarrow> retention_policy \<Rightarrow> nat \<Rightarrow> 'z vault_state_scheme
    \<Rightarrow> 'z vault_state_scheme \<times> nat \<times> nat" where
  "cleanup_checkpoints env policy max_del s =
     (let metadata = load_checkpoint_metadata s in
      if length metadata \<le> 1 then (s, 0, 0)
      else (let (deleted, kept, removed) = split_expired (\<lambda>m. is_expired_watch (timestamp env) (km_created_at m)
                   (rp_retention_secs policy)) max_del 0 metadata;
                s1 = fold (drop_snapshot policy) removed s;
                s2 = (if 0 < deleted then s1\<lparr> va_checkpoint_metadata := Some kept \<rparr> else s1)
            in if rp_archive_before_delete policy \<and> removed \<noteq> []
               then (s2\<lparr> va_archived_metadata := Some (unwrap_or (va_archived_metadata s2) [] @ removed) \<rparr>,
                     deleted, length removed)
               else (s2, deleted, 0)))"

definition cleanup_data_type_internal :: "env \<Rightarrow> retention_data_type \<Rightarrow> retention_policy \<Rightarrow> nat \<Rightarrow> 'z vault_state_scheme
    \<Rightarrow> 'z vault_state_scheme \<times> nat \<times> nat" where
  "cleanup_data_type_internal env t policy max_del s =
     (if max_del = 0 then (s, 0, 0)
      else (case t of SupplyMismatches \<Rightarrow> cleanup_supply_mismatches env policy max_del s
            | LiquidityHistory \<Rightarrow> cleanup_liquidity_history env policy max_del s
            | Checkpoints \<Rightarrow> cleanup_checkpoints env policy max_del s))"

definition set_last_cleanup :: "env \<Rightarrow> retention_data_type \<Rightarrow> 'z vault_state_scheme \<Rightarrow> 'z vault_state_scheme" where
  "set_last_cleanup env t s = s\<lparr> va_last_cleanup := (va_last_cleanup s)(t \<mapsto> timestamp env) \<rparr>"

text \<open>The body of the loop over the buckets: skipped when disabled, or when the last run is less than
  the trigger interval ago. The totals are \<open>u32\<close>.\<close>

definition auto_cleanup_step :: "env \<Rightarrow> retention_data_type \<Rightarrow> 'z vault_state_scheme \<times> nat \<times> nat
    \<Rightarrow> ('z vault_state_scheme \<times> nat \<times> nat) wres" where
  "auto_cleanup_step env t = (\<lambda>(s, total_deleted, total_archived).
     let policy = load_retention_policy t s in
     if \<not> rp_enabled policy then Inr (s, total_deleted, total_archived)
     else (let last_at = unwrap_or (va_last_cleanup s t) 0 in
       and_then (if last_at = 0 then Inr 0 else add_u64 last_at (rp_trigger_interval_secs policy)) (\<lambda>due.
       if last_at \<noteq> 0 \<and> timestamp env < due then Inr (s, total_deleted, total_archived)
       else (let (s1, deleted, archived) = cleanup_data_type_internal env t policy (rp_max_deletions_per_run policy) s
             in and_then (add_u32 total_deleted deleted) (\<lambda>td.
                and_then (add_u32 total_archived archived) (\<lambda>ta.
                Inr (set_last_cleanup env t s1, td, ta)))))))"

definition maybe_trigger_auto_cleanup :: "env \<Rightarrow> 'z vault_state_scheme \<Rightarrow> 'z vault_state_scheme wres" where
  "maybe_trigger_auto_cleanup env s =
     and_then (auto_cleanup_step env SupplyMismatches (s, 0, 0)) (\<lambda>x1.
     and_then (auto_cleanup_step env LiquidityHistory x1) (\<lambda>x2.
     and_then (auto_cleanup_step env Checkpoints x2) (\<lambda>x3. Inr (fst x3))))"

section \<open>Creating checkpoints\<close>

definition absent_price :: "string \<Rightarrow> price_record" where
  "absent_price code = \<lparr> pr_asset_code = code, pr_price = 0, pr_source = '''', pr_timestamp = 0, pr_expires_at = 0 \<rparr>"

definition absent_result :: health_score_result where
  "absent_result = \<lparr> hr_composite_score = 0, hr_liquidity_score = 0, hr_price_stability_score = 0,
     hr_bridge_uptime_score = 0, hr_weights = default_health_weights, hr_timestamp = 0, hr_expires_at = 0 \<rparr>"

definition capture_asset :: "'z vault_state_scheme \<Rightarrow> string \<Rightarrow> checkpoint_asset_state wres" where
  "capture_asset s code =
     and_then (load_asset_health code s) (\<lambda>health.
     Inr \<lparr> ka_asset_code = code, ka_health = health,
           ka_has_latest_price = (va_price s code \<noteq> None),
           ka_latest_price = unwrap_or (va_price s code) (absent_price code),
           ka_has_health_result = (va_health_result s code \<noteq> None),
           ka_health_result = unwrap_or (va_health_result s code) absent_result \<rparr>)"

fun capture_assets :: "'z vault_state_scheme \<Rightarrow> string list \<Rightarrow> checkpoint_asset_state list wres" where
  "capture_assets s [] = Inr []"
| "capture_assets s (code # rest) =
     and_then (capture_asset s code) (\<lambda>a. and_then (capture_assets s rest) (\<lambda>xs. Inr (a # xs)))"

text \<open>The loop that drops the oldest checkpoint while there are too many.\<close>

fun prune_loop :: "nat \<Rightarrow> checkpoint_metadata list \<Rightarrow> 'z vault_state_scheme \<Rightarrow> checkpoint_metadata list \<times> 'z vault_state_scheme" where
  "prune_loop max_checkpoints [] s = ([], s)"
| "prune_loop max_checkpoints (oldest # rest) s =
     (if max_checkpoints < length (oldest # rest)
      then prune_loop max_checkpoints rest
             (s\<lparr> va_checkpoint_snapshot := (va_checkpoint_snapshot s)(km_checkpoint_id oldest := None) \<rparr>)
      else (oldest # rest, s))"

definition prune_checkpoints :: "checkpoint_config \<Rightarrow> 'z vault_state_scheme \<Rightarrow> 'z vault_state_scheme" where
  "prune_checkpoints config s =
     (let metadata = load_checkpoint_metadata s;
          (kept, s1) = prune_loop (kc_max_checkpoints config) metadata s
      in if length kept < length metadata then s1\<lparr> va_checkpoint_metadata := Some kept \<rparr> else s1)"

definition take_snapshot :: "env \<Rightarrow> address \<Rightarrow> checkpoint_trigger \<Rightarrow> string \<Rightarrow> nat option \<Rightarrow> nat \<Rightarrow> 'z vault_state_scheme
    \<Rightarrow> checkpoint_snapshot wres" where
  "take_snapshot env caller trigger label restored_from next_id s =
     and_then (capture_assets s (load_registered_assets_raw s)) (\<lambda>assets.
     Inr \<lparr> ks_checkpoint_id = next_id, ks_format_version = kc_format_version (load_checkpoint_config s),
           ks_created_at = timestamp env, ks_trigger = trigger, ks_created_by = caller, ks_label = label,
           ks_monitored_assets = load_registered_assets_raw s, ks_health_weights = load_health_weights s,
           ks_risk_score_config = load_risk_score_config s, ks_assets = assets, ks_restored_from = restored_from \<rparr>)"

definition metadata_of :: "checkpoint_snapshot \<Rightarrow> bytes \<Rightarrow> checkpoint_metadata" where
  "metadata_of k state_hash =
     \<lparr> km_checkpoint_id = ks_checkpoint_id k, km_format_version = ks_format_version k, km_created_at = ks_created_at k,
       km_trigger = ks_trigger k, km_created_by = ks_created_by k, km_label = ks_label k,
       km_monitored_asset_count = length (ks_monitored_assets k), km_asset_count = length (ks_assets k),
       km_state_hash = state_hash, km_restored_from = ks_restored_from k \<rparr>"

definition store_checkpoint :: "checkpoint_snapshot \<Rightarrow> checkpoint_metadata \<Rightarrow> 'z vault_state_scheme \<Rightarrow> 'z vault_state_scheme" where
  "store_checkpoint k m s = s\<lparr> va_checkpoint_snapshot := (va_checkpoint_snapshot s)(ks_checkpoint_id k \<mapsto> k),
     va_checkpoint_metadata := Some (load_checkpoint_metadata s @ [m]),
     va_checkpoint_counter := Some (ks_checkpoint_id k), va_last_checkpoint_at := Some (ks_created_at k),
     va_last_checkpoint_id := Some (ks_checkpoint_id k) \<rparr>"

definition persist_checkpoint :: "(bytes \<Rightarrow> bytes) \<Rightarrow> env \<Rightarrow> address \<Rightarrow> checkpoint_trigger \<Rightarrow> string \<Rightarrow> nat option
    \<Rightarrow> 'z vault_state_scheme \<Rightarrow> (checkpoint_metadata \<times> 'z vault_state_scheme) wres" where
  "persist_checkpoint sha env caller trigger label restored_from s =
     and_then (add_u64 (unwrap_or (va_checkpoint_counter s) 0) 1) (\<lambda>next_id.
     and_then (take_snapshot env caller trigger label restored_from next_id s) (\<lambda>k.
     and_then (compute_checkpoint_hash sha k) (\<lambda>state_hash.
     let m = metadata_of k state_hash
     in and_then (maybe_trigger_auto_cleanup env
               (prune_checkpoints (load_checkpoint_config s) (store_checkpoint k m s))) (\<lambda>s1.
        Inr (m, s1)))))"

definition maybe_create_auto_checkpoint :: "(bytes \<Rightarrow> bytes) \<Rightarrow> env \<Rightarrow> address \<Rightarrow> 'z vault_state_scheme \<Rightarrow> 'z vault_state_scheme wres" where
  "maybe_create_auto_checkpoint sha env caller s =
     (let last_at = unwrap_or (va_last_checkpoint_at s) 0 in
      and_then (if last_at = 0 then Inr 0 else add_u64 last_at (kc_interval_secs (load_checkpoint_config s))) (\<lambda>due.
      if last_at \<noteq> 0 \<and> timestamp env < due then Inr s
      else state_of (persist_checkpoint sha env caller AutomaticTrigger ''auto'' None s)))"

section \<open>Entry points of the checkpoints\<close>

definition set_checkpoint_config :: "env \<Rightarrow> address \<Rightarrow> nat \<Rightarrow> nat \<Rightarrow> nat \<Rightarrow> 'z vault_state_scheme \<Rightarrow> 'z vault_state_scheme wres" where
  "set_checkpoint_config env caller interval max_checkpoints format_version s =
     and_then (assert_admin_or_super_admin env s caller) (\<lambda>_.
     and_then (ensure (max_checkpoints \<noteq> 0) (Panic ''max_checkpoints must be greater than zero'')) (\<lambda>_.
     and_then (ensure (format_version \<noteq> 0) (Panic ''format_version must be greater than zero'')) (\<lambda>_.
     let config = \<lparr> kc_interval_secs = interval, kc_max_checkpoints = max_checkpoints, kc_format_version = format_version \<rparr>
     in Inr (prune_checkpoints config (s\<lparr> va_checkpoint_config := Some config \<rparr>)))))"

definition create_checkpoint :: "(bytes \<Rightarrow> bytes) \<Rightarrow> env \<Rightarrow> address \<Rightarrow> string \<Rightarrow> 'z vault_state_scheme
    \<Rightarrow> (checkpoint_metadata \<times> 'z vault_state_scheme) wres" where
  "create_checkpoint sha env caller label s =
     and_then (assert_admin_or_super_admin env s caller) (\<lambda>_.
     persist_checkpoint sha env caller ManualTrigger label None s)"

definition get_latest_checkpoint :: "'z vault_state_scheme \<Rightarrow> checkpoint_metadata option" where
  "get_latest_checkpoint s = (let metadata = load_checkpoint_metadata s in
     if metadata = [] then None else Some (metadata ! (length metadata - 1)))"

definition validate_checkpoint :: "(bytes \<Rightarrow> bytes) \<Rightarrow> nat \<Rightarrow> 'z vault_state_scheme \<Rightarrow> checkpoint_validation wres" where
  "validate_checkpoint sha cid s =
     and_then (get_checkpoint_or_panic cid s) (\<lambda>k.
     and_then (load_checkpoint_metadata_by_id cid s) (\<lambda>m.
     and_then (compute_checkpoint_hash sha k) (\<lambda>computed.
     let valid = (km_state_hash m = computed)
     in Inr \<lparr> kv_checkpoint_id = cid, kv_is_valid = valid,
              kv_message = (if valid then ''checkpoint hash verified'' else ''checkpoint hash mismatch'') \<rparr>)))"

definition find_checkpoint_asset :: "checkpoint_asset_state list \<Rightarrow> string \<Rightarrow> checkpoint_asset_state option" where
  "find_checkpoint_asset xs code = List.find (\<lambda>a. ka_asset_code a = code) xs"

definition asset_diff :: "checkpoint_asset_state \<Rightarrow> checkpoint_asset_state \<Rightarrow> checkpoint_asset_diff" where
  "asset_diff x y = \<lparr> kd_asset_code = ka_asset_code y, kd_health_changed = (ka_health x \<noteq> ka_health y),
     kd_price_changed = (ka_latest_price x \<noteq> ka_latest_price y),
     kd_health_result_changed = (ka_health_result x \<noteq> ka_health_result y) \<rparr>"

definition build_checkpoint_comparison :: "(bytes \<Rightarrow> bytes) \<Rightarrow> checkpoint_snapshot \<Rightarrow> checkpoint_snapshot \<Rightarrow> nat \<Rightarrow> nat
    \<Rightarrow> checkpoint_comparison wres" where
  "build_checkpoint_comparison sha k1 k2 id1 id2 =
     (let (added, changed) = fold (\<lambda>y (added, changed).
            case find_checkpoint_asset (ks_assets k1) (ka_asset_code y) of
              None \<Rightarrow> (added @ [ka_asset_code y], changed)
            | Some x \<Rightarrow> (let d = asset_diff x y in
                if kd_health_changed d \<or> kd_price_changed d \<or> kd_health_result_changed d
                then (added, changed @ [d]) else (added, changed))) (ks_assets k2) ([], []);
          removed = map ka_asset_code
            (filter (\<lambda>x. find_checkpoint_asset (ks_assets k2) (ka_asset_code x) = None) (ks_assets k1))
      in and_then (compute_checkpoint_hash sha k1) (\<lambda>h1.
         and_then (compute_checkpoint_hash sha k2) (\<lambda>h2.
         Inr \<lparr> kx_from_checkpoint_id = id1, kx_to_checkpoint_id = id2,
               kx_timestamp_delta = ks_created_at k2 - ks_created_at k1, kx_state_hash_changed = (h1 \<noteq> h2),
               kx_weights_changed = (ks_health_weights k1 \<noteq> ks_health_weights k2),
               kx_added_assets = added, kx_removed_assets = removed, kx_changed_assets = changed \<rparr>)))"

definition compare_checkpoints :: "(bytes \<Rightarrow> bytes) \<Rightarrow> nat \<Rightarrow> nat \<Rightarrow> 'z vault_state_scheme \<Rightarrow> checkpoint_comparison wres" where
  "compare_checkpoints sha id1 id2 s =
     and_then (get_checkpoint_or_panic id1 s) (\<lambda>k1.
     and_then (get_checkpoint_or_panic id2 s) (\<lambda>k2.
     build_checkpoint_comparison sha k1 k2 id1 id2))"

text \<open>A restore first drops the records of the assets the snapshot does not have, then writes the
  snapshot back, then records a checkpoint of the result.\<close>

definition drop_asset_records :: "string list \<Rightarrow> string \<Rightarrow> 'z vault_state_scheme \<Rightarrow> 'z vault_state_scheme" where
  "drop_asset_records restored code s =
     (if vec_contains_string restored code then s
      else s\<lparr> va_health := (va_health s)(code := None), va_price := (va_price s)(code := None),
              va_health_result := (va_health_result s)(code := None) \<rparr>)"

definition restore_asset :: "checkpoint_asset_state \<Rightarrow> 'z vault_state_scheme \<Rightarrow> 'z vault_state_scheme" where
  "restore_asset a s = s\<lparr> va_health := (va_health s)(ka_asset_code a \<mapsto> ka_health a),
     va_price := (va_price s)(ka_asset_code a := (if ka_has_latest_price a then Some (ka_latest_price a) else None)),
     va_health_result := (va_health_result s)(ka_asset_code a :=
       (if ka_has_health_result a then Some (ka_health_result a) else None)) \<rparr>"

definition apply_snapshot :: "checkpoint_snapshot \<Rightarrow> 'z vault_state_scheme \<Rightarrow> 'z vault_state_scheme" where
  "apply_snapshot k s =
     fold restore_asset (ks_assets k)
       ((fold (drop_asset_records (ks_monitored_assets k)) (load_registered_assets_raw s) s)
          \<lparr> va_monitored_assets := Some (ks_monitored_assets k), va_health_weights := Some (ks_health_weights k),
            va_risk_score_config := Some (ks_risk_score_config k) \<rparr>)"

definition restore_from_checkpoint :: "(bytes \<Rightarrow> bytes) \<Rightarrow> env \<Rightarrow> address \<Rightarrow> nat \<Rightarrow> 'z vault_state_scheme
    \<Rightarrow> (checkpoint_metadata \<times> 'z vault_state_scheme) wres" where
  "restore_from_checkpoint sha env caller cid s =
     and_then (assert_admin_or_super_admin env s caller) (\<lambda>_.
     and_then (get_checkpoint_or_panic cid s) (\<lambda>k.
     persist_checkpoint sha env caller RestoreTrigger ''restore'' (Some cid) (apply_snapshot k s)))"

section \<open>Entry points of the retention\<close>

definition set_retention_policy :: "env \<Rightarrow> address \<Rightarrow> retention_data_type \<Rightarrow> nat \<Rightarrow> nat \<Rightarrow> nat \<Rightarrow> bool \<Rightarrow> bool
    \<Rightarrow> 'z vault_state_scheme \<Rightarrow> 'z vault_state_scheme wres" where
  "set_retention_policy env caller t retention trigger max_del archive enabled s =
     and_then (assert_admin_or_super_admin_retention env s caller) (\<lambda>_.
     and_then (validate_retention_policy_inputs retention trigger max_del) (\<lambda>_.
     Inr (s\<lparr> va_retention_policy := (va_retention_policy s)(t \<mapsto>
       \<lparr> rp_data_type = t, rp_retention_secs = retention, rp_trigger_interval_secs = trigger,
         rp_max_deletions_per_run = max_del, rp_archive_before_delete = archive, rp_enabled = enabled \<rparr>) \<rparr>)))"

definition list_retention_policies :: "'z vault_state_scheme \<Rightarrow> retention_policy list" where
  "list_retention_policies s = map (\<lambda>t. load_retention_policy t s) retention_data_types"

definition set_asset_retention_override :: "env \<Rightarrow> address \<Rightarrow> string \<Rightarrow> retention_data_type \<Rightarrow> nat option
    \<Rightarrow> 'z vault_state_scheme \<Rightarrow> 'z vault_state_scheme wres" where
  "set_asset_retention_override env caller code t retention s =
     and_then (assert_admin_or_super_admin_retention env s caller) (\<lambda>_.
     case retention of
       Some v \<Rightarrow> and_then (ensure (v \<noteq> 0) (Panic ''asset retention override must be greater than zero'')) (\<lambda>_.
         Inr (s\<lparr> va_retention_override := (va_retention_override s)((code, t) \<mapsto> v) \<rparr>))
     | None \<Rightarrow> Inr (s\<lparr> va_retention_override := (va_retention_override s)((code, t) := None) \<rparr>))"

text \<open>One bucket of \<open>cleanup_old_data\<close>; the accumulator holds the details and the totals.\<close>

definition cleanup_old_step :: "env \<Rightarrow> nat \<Rightarrow> retention_data_type
    \<Rightarrow> 'z vault_state_scheme \<times> cleanup_data_type_result list \<times> nat \<times> nat
    \<Rightarrow> ('z vault_state_scheme \<times> cleanup_data_type_result list \<times> nat \<times> nat) wres" where
  "cleanup_old_step env max_total t = (\<lambda>(s, details, total_deleted, total_archived).
     let policy = load_retention_policy t s in
     if max_total \<le> total_deleted \<or> \<not> rp_enabled policy then Inr (s, details, total_deleted, total_archived)
     else (let remaining = max_total - total_deleted;
               budget = (if rp_max_deletions_per_run policy < remaining then rp_max_deletions_per_run policy else remaining)
           in if budget = 0 then Inr (s, details, total_deleted, total_archived)
              else (let (s1, deleted, archived) = cleanup_data_type_internal env t policy budget s
                    in and_then (add_u32 total_deleted deleted) (\<lambda>td.
                       and_then (add_u32 total_archived archived) (\<lambda>ta.
                       Inr (set_last_cleanup env t s1,
                            details @ [\<lparr> cd_data_type = t, cd_deleted = deleted, cd_archived = archived \<rparr>], td, ta))))))"

definition cleanup_old_data :: "env \<Rightarrow> address \<Rightarrow> nat \<Rightarrow> 'z vault_state_scheme \<Rightarrow> (cleanup_result \<times> 'z vault_state_scheme) wres" where
  "cleanup_old_data env caller max_total s =
     and_then (assert_admin_or_super_admin_retention env s caller) (\<lambda>_.
     and_then (ensure (max_total \<noteq> 0) (Panic ''max_total_deletions must be greater than zero'')) (\<lambda>_.
     and_then (cleanup_old_step env max_total SupplyMismatches (s, [], 0, 0)) (\<lambda>x1.
     and_then (cleanup_old_step env max_total LiquidityHistory x1) (\<lambda>x2.
     and_then (cleanup_old_step env max_total Checkpoints x2) (\<lambda>(s1, details, td, ta).
     Inr (\<lparr> cu_executed_at = timestamp env, cu_total_deleted = td, cu_total_archived = ta, cu_details = details \<rparr>, s1))))))"

definition cleanup_data_type :: "env \<Rightarrow> address \<Rightarrow> retention_data_type \<Rightarrow> nat \<Rightarrow> 'z vault_state_scheme
    \<Rightarrow> (cleanup_data_type_result \<times> 'z vault_state_scheme) wres" where
  "cleanup_data_type env caller t max_del s =
     and_then (assert_admin_or_super_admin_retention env s caller) (\<lambda>_.
     and_then (ensure (max_del \<noteq> 0) (Panic ''max_deletions must be greater than zero'')) (\<lambda>_.
     let policy = load_retention_policy t s in
     if \<not> rp_enabled policy then Inr (\<lparr> cd_data_type = t, cd_deleted = 0, cd_archived = 0 \<rparr>, s)
     else (let budget = (if rp_max_deletions_per_run policy < max_del then rp_max_deletions_per_run policy else max_del);
               (s1, deleted, archived) = cleanup_data_type_internal env t policy budget s
           in Inr (\<lparr> cd_data_type = t, cd_deleted = deleted, cd_archived = archived \<rparr>, set_last_cleanup env t s1))))"

text \<open>The counters of one bucket: a fold of checked additions over its keys.\<close>

fun count_records :: "('k \<Rightarrow> 'a list option) \<Rightarrow> ('k \<Rightarrow> 'a list option) \<Rightarrow> 'k list \<Rightarrow> nat \<Rightarrow> nat \<Rightarrow> (nat \<times> nat) wres" where
  "count_records live archive [] n k = Inr (n, k)"
| "count_records live archive (x # xs) n k =
     and_then (add_u32 n (length (unwrap_or (live x) []))) (\<lambda>n'.
     and_then (add_u32 k (length (unwrap_or (archive x) []))) (\<lambda>k'. count_records live archive xs n' k'))"

definition supply_storage_usage :: "'z vault_state_scheme \<Rightarrow> storage_usage_entry wres" where
  "supply_storage_usage s =
     (let ids = unwrap_or (va_bridge_ids s) [] in
      and_then (count_records (va_mismatches s) (va_archived_mismatches s) ids 0 0) (\<lambda>(n, k).
      Inr \<lparr> su_data_type = SupplyMismatches, su_tracked_keys = length ids, su_active_records = n, su_archived_records = k \<rparr>))"

definition liquidity_storage_usage :: "'z vault_state_scheme \<Rightarrow> storage_usage_entry wres" where
  "liquidity_storage_usage s =
     (let pairs = unwrap_or (va_liquidity_pairs s) [] in
      and_then (count_records (va_liquidity_history s) (va_archived_liquidity s) pairs 0 0) (\<lambda>(n, k).
      Inr \<lparr> su_data_type = LiquidityHistory, su_tracked_keys = length pairs, su_active_records = n, su_archived_records = k \<rparr>))"

definition checkpoint_storage_usage :: "'z vault_state_scheme \<Rightarrow> storage_usage_entry" where
  "checkpoint_storage_usage s =
     \<lparr> su_data_type = Checkpoints, su_tracked_keys = length (load_checkpoint_metadata s),
       su_active_records = length (load_checkpoint_metadata s),
       su_archived_records = length (unwrap_or (va_archived_metadata s) []) \<rparr>"

definition get_storage_stats :: "env \<Rightarrow> 'z vault_state_scheme \<Rightarrow> storage_stats wres" where
  "get_storage_stats env s =
     and_then (supply_storage_usage s) (\<lambda>a. and_then (liquidity_storage_usage s) (\<lambda>b.
     let c = checkpoint_storage_usage s in
     and_then (and_then (add_u32 (su_tracked_keys a) (su_tracked_keys b)) (\<lambda>n. add_u32 n (su_tracked_keys c))) (\<lambda>keys.
     and_then (and_then (add_u32 (su_active_records a) (su_active_records b)) (\<lambda>n. add_u32 n (su_active_records c))) (\<lambda>act.
     and_then (and_then (add_u32 (su_archived_records a) (su_archived_records b)) (\<lambda>n. add_u32 n (su_archived_records c))) (\<lambda>arch.
     Inr \<lparr> ss_generated_at = timestamp env, ss_total_tracked_keys = keys, ss_total_active_records = act,
           ss_total_archived_records = arch, ss_entries = [a, b, c] \<rparr>)))))"

section \<open>Initialisation\<close>

definition watch_initialize :: "env \<Rightarrow> address \<Rightarrow> 'z vault_state_scheme \<Rightarrow> 'z vault_state_scheme wres" where
  "watch_initialize env admin s =
     and_then (core_initialize env admin s) (\<lambda>s1.
     Inr (initialize_retention_policies (s1\<lparr> va_monitored_assets := Some [],
       va_checkpoint_config := Some default_checkpoint_config, va_checkpoint_metadata := Some [],
       va_archived_metadata := Some [], va_checkpoint_counter := Some 0, va_last_checkpoint_at := Some 0 \<rparr>)))"

section \<open>What a cleanup keeps\<close>

text \<open>The deleted records are the oldest expired ones, never the last record, at most the budget.\<close>

lemma split_expired_removed:
  "split_expired P mx d xs = (d', kept, removed) \<Longrightarrow>
     removed = take (mx - d) (filter P (butlast xs)) \<and> d' = d + length removed"
proof (induction P mx d xs arbitrary: d' kept removed rule: split_expired.induct)
  case (2 P mx d x rest)
  show ?case
  proof (cases "rest \<noteq> [] \<and> d < mx \<and> P x")
    case True
    then have "mx - d = Suc (mx - (d + 1))" by auto
    with True 2 show ?thesis by (auto simp: Let_def split: prod.splits)
  next
    case False
    with 2 show ?thesis by (cases "rest = []") (auto simp: Let_def split: prod.splits)
  qed
qed simp

lemma split_expired_kept:
  "split_expired P mx d xs = (d', kept, removed) \<Longrightarrow>
     mset xs = mset kept + mset removed \<and> subseq kept xs \<and> (xs \<noteq> [] \<longrightarrow> kept \<noteq> [] \<and> last kept = last xs)"
proof (induction P mx d xs arbitrary: d' kept removed rule: split_expired.induct)
  case (2 P mx d x rest)
  show ?case
  proof (cases "rest \<noteq> [] \<and> d < mx \<and> P x")
    case True
    obtain d1 k1 r1 where s: "split_expired P mx (d + 1) rest = (d1, k1, r1)" by (metis prod_cases3)
    from 2(1) [OF refl _ s] True 2(3) s show ?thesis by auto
  next
    case False
    obtain d1 k1 r1 where s: "split_expired P mx d rest = (d1, k1, r1)" by (metis prod_cases3)
    have "kept = x # k1" "removed = r1" using 2(3) False s by (auto simp: Let_def)
    with 2(2) [OF refl _ s] False show ?thesis by (cases "rest = []") auto
  qed
qed simp

lemma split_expired_budget:
  assumes "split_expired P mx d xs = (d', kept, removed)" "d \<le> mx"
  shows "d' \<le> mx" "length kept + length removed = length xs" "\<forall>x\<in>set removed. P x \<and> x \<in> set xs"
proof -
  note r = split_expired_removed [OF assms(1)]
  show "d' \<le> mx" using r assms(2) by auto
  have "size (mset xs) = size (mset kept + mset removed)" using split_expired_kept [OF assms(1)] by simp
  then show "length kept + length removed = length xs" by simp
  show "\<forall>x\<in>set removed. P x \<and> x \<in> set xs" using r by (auto dest!: in_set_takeD in_set_butlastD)
qed

lemma split_expired_old: "split_expired P mx d xs = (d', kept, removed) \<Longrightarrow> \<forall>x\<in>set removed. P x"
  by (drule split_expired_removed) (auto dest: in_set_takeD)

section \<open>What a cleanup changes\<close>

text \<open>A cleanup touches only the archives, the histories, the list of checkpoints and its own timer.\<close>

definition wipe :: "'z vault_state_scheme \<Rightarrow> 'z vault_state_scheme" where
  "wipe s = s\<lparr> va_mismatches := Map.empty, va_archived_mismatches := Map.empty, va_liquidity_history := Map.empty,
     va_archived_liquidity := Map.empty, va_checkpoint_snapshot := Map.empty, va_archived_snapshot := Map.empty,
     va_checkpoint_metadata := None, va_archived_metadata := None, va_last_cleanup := Map.empty \<rparr>"

definition cleans :: "'z vault_state_scheme \<Rightarrow> 'z vault_state_scheme \<Rightarrow> bool" where
  "cleans s s' \<longleftrightarrow> wipe s' = wipe s"

lemmas cleans_eq = cleans_def wipe_def

lemma cleans_refl [simp]: "cleans s s"
  by (simp add: cleans_def)

lemma cleans_trans: "cleans s t \<Longrightarrow> cleans t u \<Longrightarrow> cleans s u"
  by (simp add: cleans_def)

lemma cleans_field:
  assumes "cleans s s'" "\<And>s :: 'z vault_state_scheme. f (wipe s) = f s"
  shows "f s' = f s"
  using arg_cong [of _ _ f, OF assms(1) [unfolded cleans_def]] assms(2) by simp

text \<open>The cleanup of a bucket of histories leaves the checkpoints alone.\<close>

definition same_checkpoints :: "'z vault_state_scheme \<Rightarrow> 'z vault_state_scheme \<Rightarrow> bool" where
  "same_checkpoints s s' \<longleftrightarrow> va_checkpoint_snapshot s' = va_checkpoint_snapshot s
     \<and> va_checkpoint_metadata s' = va_checkpoint_metadata s \<and> va_archived_snapshot s' = va_archived_snapshot s
     \<and> va_archived_metadata s' = va_archived_metadata s"

lemma cleanup_bridge_frame:
  "cleanup_bridge env policy mx b (s, d, a) = (s', d', a') \<Longrightarrow> cleans s s' \<and> same_checkpoints s s'"
  by (auto simp: cleanup_bridge_def Let_def same_checkpoints_def cleans_eq split: prod.splits if_splits)

lemma cleanup_pair_frame:
  "cleanup_pair env policy mx b (s, d, a) = (s', d', a') \<Longrightarrow> cleans s s' \<and> same_checkpoints s s'"
  by (auto simp: cleanup_pair_def Let_def same_checkpoints_def cleans_eq split: prod.splits if_splits)

lemma fold_frame:
  assumes "\<And>b s d a s' d' a'. f b (s, d, a) = (s', d', a') \<Longrightarrow> cleans s s' \<and> same_checkpoints s s'"
  shows "fold f bs (s, d, a) = (s', d', a') \<Longrightarrow> cleans s s' \<and> same_checkpoints s s'"
proof (induction bs arbitrary: s d a)
  case (Cons b bs)
  obtain s1 d1 a1 where one: "f b (s, d, a) = (s1, d1, a1)" by (cases "f b (s, d, a)") auto
  have "cleans s1 s'" "same_checkpoints s1 s'" using Cons one by auto
  then show ?case using assms [OF one] cleans_trans [of s s1 s'] by (auto simp: same_checkpoints_def)
qed (auto simp: same_checkpoints_def)

lemma cleanup_histories_frame:
  "cleanup_supply_mismatches env policy mx s = (s', d', a') \<Longrightarrow> cleans s s' \<and> same_checkpoints s s'"
  "cleanup_liquidity_history env policy mx s = (s', d', a') \<Longrightarrow> cleans s s' \<and> same_checkpoints s s'"
  unfolding cleanup_supply_mismatches_def cleanup_liquidity_history_def
  by (erule fold_frame [rotated], erule cleanup_bridge_frame) (erule fold_frame [rotated], erule cleanup_pair_frame)

lemma drop_snapshot_frame:
  "cleans s (drop_snapshot policy m s)
   \<and> va_checkpoint_snapshot (drop_snapshot policy m s) = (va_checkpoint_snapshot s)(km_checkpoint_id m := None)
   \<and> va_checkpoint_metadata (drop_snapshot policy m s) = va_checkpoint_metadata s
   \<and> va_archived_metadata (drop_snapshot policy m s) = va_archived_metadata s"
  by (auto simp: drop_snapshot_def Let_def cleans_eq split: option.splits)

lemma drop_snapshots_frame:
  "cleans s (fold (drop_snapshot policy) ms s)
   \<and> va_checkpoint_snapshot (fold (drop_snapshot policy) ms s)
       = (\<lambda>i. if i \<in> km_checkpoint_id ` set ms then None else va_checkpoint_snapshot s i)
   \<and> va_checkpoint_metadata (fold (drop_snapshot policy) ms s) = va_checkpoint_metadata s
   \<and> va_archived_metadata (fold (drop_snapshot policy) ms s) = va_archived_metadata s"
proof (induction ms arbitrary: s)
  case (Cons m ms)
  then show ?case using drop_snapshot_frame [of s policy m] cleans_trans [of s "drop_snapshot policy m s"] by (auto simp: fun_eq_iff)
qed simp

text \<open>Dropping listed checkpoints: the list of what stays, and exactly the dropped snapshots are gone.\<close>

definition drops_checkpoints :: "'z vault_state_scheme \<Rightarrow> 'z vault_state_scheme \<Rightarrow> bool" where
  "drops_checkpoints s s' \<longleftrightarrow> (\<exists>removed. subseq (load_checkpoint_metadata s') (load_checkpoint_metadata s)
     \<and> mset (load_checkpoint_metadata s) = mset (load_checkpoint_metadata s') + mset removed
     \<and> va_checkpoint_snapshot s' = (\<lambda>i. if i \<in> km_checkpoint_id ` set removed then None else va_checkpoint_snapshot s i)
     \<and> (load_checkpoint_metadata s \<noteq> [] \<longrightarrow> load_checkpoint_metadata s' \<noteq> []
          \<and> last (load_checkpoint_metadata s') = last (load_checkpoint_metadata s)))"

lemma drops_same: "same_checkpoints s s' \<Longrightarrow> drops_checkpoints s s'"
  by (auto simp: same_checkpoints_def drops_checkpoints_def load_checkpoint_metadata_def)

lemma cleanup_checkpoints_frame:
  assumes "cleanup_checkpoints env policy mx s = (s', d, a)"
  shows "cleans s s' \<and> drops_checkpoints s s'"
proof (cases "length (load_checkpoint_metadata s) \<le> 1")
  case True
  then have "s' = s" using assms by (simp add: cleanup_checkpoints_def Let_def)
  then show ?thesis by (simp add: drops_same same_checkpoints_def)
next
  case False
  obtain d' kept removed where sp: "split_expired (\<lambda>m. is_expired_watch (timestamp env) (km_created_at m) (rp_retention_secs policy))
      mx 0 (load_checkpoint_metadata s) = (d', kept, removed)" by (metis prod_cases3)
  note k = split_expired_kept [OF sp] and r = split_expired_removed [OF sp]
  define s1 where "s1 = fold (drop_snapshot policy) removed s"
  note f = drop_snapshots_frame [of s policy removed, folded s1_def]
  define s2 where "s2 = (if 0 < d' then s1\<lparr> va_checkpoint_metadata := Some kept \<rparr> else s1)"
  have e: "s' = (if rp_archive_before_delete policy \<and> removed \<noteq> []
      then s2\<lparr> va_archived_metadata := Some (unwrap_or (va_archived_metadata s2) [] @ removed) \<rparr> else s2)"
    using assms False sp by (auto simp: cleanup_checkpoints_def Let_def s1_def s2_def)
  have "cleans s1 s2" "cleans s2 s'" unfolding e s2_def by (auto simp: cleans_eq)
  then have c: "cleans s s'" using f cleans_trans by blast
  have ks: "va_checkpoint_snapshot s' = va_checkpoint_snapshot s1" by (simp add: e s2_def)
  have ms: "load_checkpoint_metadata s' = kept"
  proof (cases "removed = []")
    case True
    then have "kept = load_checkpoint_metadata s" using k r by (metis add.right_neutral mset.simps(1) size_mset subseq_same_length)
    then show ?thesis using True r f by (simp add: e s2_def load_checkpoint_metadata_def)
  next
    case False
    then show ?thesis using r by (auto simp: e s2_def load_checkpoint_metadata_def)
  qed
  show ?thesis using c k f by (auto simp: drops_checkpoints_def ms ks)
qed

lemma drops_trans:
  assumes "drops_checkpoints s t" "drops_checkpoints t u"
  shows "drops_checkpoints s u"
proof -
  obtain r1 where r1: "subseq (load_checkpoint_metadata t) (load_checkpoint_metadata s)"
      "mset (load_checkpoint_metadata s) = mset (load_checkpoint_metadata t) + mset r1"
      "va_checkpoint_snapshot t = (\<lambda>i. if i \<in> km_checkpoint_id ` set r1 then None else va_checkpoint_snapshot s i)"
      "load_checkpoint_metadata s \<noteq> [] \<longrightarrow> load_checkpoint_metadata t \<noteq> [] \<and> last (load_checkpoint_metadata t) = last (load_checkpoint_metadata s)"
    using assms(1) unfolding drops_checkpoints_def by blast
  obtain r2 where r2: "subseq (load_checkpoint_metadata u) (load_checkpoint_metadata t)"
      "mset (load_checkpoint_metadata t) = mset (load_checkpoint_metadata u) + mset r2"
      "va_checkpoint_snapshot u = (\<lambda>i. if i \<in> km_checkpoint_id ` set r2 then None else va_checkpoint_snapshot t i)"
      "load_checkpoint_metadata t \<noteq> [] \<longrightarrow> load_checkpoint_metadata u \<noteq> [] \<and> last (load_checkpoint_metadata u) = last (load_checkpoint_metadata t)"
    using assms(2) unfolding drops_checkpoints_def by blast
  have "va_checkpoint_snapshot u = (\<lambda>i. if i \<in> km_checkpoint_id ` set (r1 @ r2) then None else va_checkpoint_snapshot s i)"
    by (auto simp: r1(3) r2(3) fun_eq_iff)
  moreover have "mset (load_checkpoint_metadata s) = mset (load_checkpoint_metadata u) + mset (r1 @ r2)"
    using r1(2) r2(2) by simp
  moreover have "subseq (load_checkpoint_metadata u) (load_checkpoint_metadata s)"
    using r1(1) r2(1) subseq_order.trans by blast
  moreover have "load_checkpoint_metadata s \<noteq> [] \<longrightarrow> load_checkpoint_metadata u \<noteq> []
      \<and> last (load_checkpoint_metadata u) = last (load_checkpoint_metadata s)" using r1(4) r2(4) by auto
  ultimately show ?thesis unfolding drops_checkpoints_def by blast
qed

lemma cleanup_internal_frame:
  "cleanup_data_type_internal env t policy mx s = (s', d, a) \<Longrightarrow> cleans s s' \<and> drops_checkpoints s s'"
  using cleanup_histories_frame [of env policy mx s s' d a] cleanup_checkpoints_frame [of env policy mx s s' d a]
    drops_same [of s s] drops_same [of s s']
  by (auto simp: cleanup_data_type_internal_def same_checkpoints_def split: if_splits retention_data_type.splits)

lemma set_last_cleanup_frame: "cleans s (set_last_cleanup env t s) \<and> drops_checkpoints s (set_last_cleanup env t s)"
  by (auto simp: set_last_cleanup_def cleans_eq intro: drops_same [unfolded same_checkpoints_def])

lemma auto_cleanup_step_frame:
  assumes "auto_cleanup_step env t (s, d, a) = Inr (s', d', a')"
  shows "cleans s s' \<and> drops_checkpoints s s'"
proof -
  obtain s1 x y where c: "cleanup_data_type_internal env t (load_retention_policy t s)
      (rp_max_deletions_per_run (load_retention_policy t s)) s = (s1, x, y)" by (metis prod_cases3)
  have "s' = s \<or> s' = set_last_cleanup env t s1"
    using assms c by (auto simp: auto_cleanup_step_def Let_def split: if_splits)
  then show ?thesis
    using cleanup_internal_frame [OF c] set_last_cleanup_frame [of s1 env t] cleans_trans drops_trans
      drops_same [of s s] by (fastforce simp: same_checkpoints_def)
qed

lemma auto_cleanup_frame:
  assumes "maybe_trigger_auto_cleanup env s = Inr s'"
  shows "cleans s s' \<and> drops_checkpoints s s'"
proof -
  obtain s1 d1 a1 s2 d2 a2 d3 a3 where "auto_cleanup_step env SupplyMismatches (s, 0, 0) = Inr (s1, d1, a1)"
      "auto_cleanup_step env LiquidityHistory (s1, d1, a1) = Inr (s2, d2, a2)"
      "auto_cleanup_step env Checkpoints (s2, d2, a2) = Inr (s', d3, a3)"
    using assms by (auto simp: maybe_trigger_auto_cleanup_def)
  then show ?thesis using auto_cleanup_step_frame cleans_trans drops_trans by metis
qed

section \<open>Pruning\<close>

lemma prune_loop_spec:
  "prune_loop mx ms s = (drop (length ms - mx) ms, s\<lparr> va_checkpoint_snapshot :=
     (\<lambda>i. if i \<in> km_checkpoint_id ` set (take (length ms - mx) ms) then None else va_checkpoint_snapshot s i) \<rparr>)"
proof (induction ms arbitrary: s)
  case (Cons m ms)
  show ?case
  proof (cases "mx < length (m # ms)")
    case True
    then have "length (m # ms) - mx = Suc (length ms - mx)" by simp
    with True show ?thesis by (simp add: Cons.IH fun_eq_iff)
  qed simp
qed simp

lemma prune_frame:
  assumes "0 < kc_max_checkpoints c"
  shows "cleans s (prune_checkpoints c s)" "drops_checkpoints s (prune_checkpoints c s)"
    "length (load_checkpoint_metadata (prune_checkpoints c s)) \<le> kc_max_checkpoints c"
proof -
  let ?ms = "load_checkpoint_metadata s" and ?n = "length (load_checkpoint_metadata s) - kc_max_checkpoints c"
  show "cleans s (prune_checkpoints c s)" by (auto simp: prune_checkpoints_def prune_loop_spec Let_def cleans_eq)
  have ms: "load_checkpoint_metadata (prune_checkpoints c s) = drop ?n ?ms"
    by (auto simp: prune_checkpoints_def prune_loop_spec Let_def load_checkpoint_metadata_def)
  then show "length (load_checkpoint_metadata (prune_checkpoints c s)) \<le> kc_max_checkpoints c" by simp
  have "mset ?ms = mset (drop ?n ?ms) + mset (take ?n ?ms)" by (metis append_take_drop_id mset_append union_commute)
  moreover have "subseq (drop ?n ?ms) ?ms" by (metis append_take_drop_id list_emb_append2 subseq_order.order_refl)
  moreover have "?ms \<noteq> [] \<Longrightarrow> ?n < length ?ms" using assms by (metis diff_less length_greater_0_conv)
  then have "?ms \<noteq> [] \<Longrightarrow> drop ?n ?ms \<noteq> [] \<and> last (drop ?n ?ms) = last ?ms" by (simp add: last_drop)
  moreover have "va_checkpoint_snapshot (prune_checkpoints c s)
      = (\<lambda>i. if i \<in> km_checkpoint_id ` set (take ?n ?ms) then None else va_checkpoint_snapshot s i)"
    by (auto simp: prune_checkpoints_def prune_loop_spec Let_def)
  ultimately show "drops_checkpoints s (prune_checkpoints c s)" unfolding drops_checkpoints_def ms by blast
qed

section \<open>The store of checkpoints\<close>

definition snapshot_ok :: "nat \<Rightarrow> checkpoint_snapshot \<Rightarrow> bool" where
  "snapshot_ok i k \<longleftrightarrow> ks_checkpoint_id k = i \<and> map ka_asset_code (ks_assets k) = ks_monitored_assets k
     \<and> distinct (ks_monitored_assets k)
     \<and> (\<forall>a\<in>set (ks_assets k). (\<not> ka_has_latest_price a \<longrightarrow> ka_latest_price a = absent_price (ka_asset_code a))
          \<and> (\<not> ka_has_health_result a \<longrightarrow> ka_health_result a = absent_result))"

definition listed_ok :: "(bytes \<Rightarrow> bytes) \<Rightarrow> 'z vault_state_scheme \<Rightarrow> checkpoint_metadata \<Rightarrow> bool" where
  "listed_ok sha s m \<longleftrightarrow> (\<exists>k h. va_checkpoint_snapshot s (km_checkpoint_id m) = Some k
     \<and> compute_checkpoint_hash sha k = Inr h \<and> m = metadata_of k h)"

text \<open>The list is ordered by identifier, every listed checkpoint has a snapshot whose hash is the
  recorded one, and every snapshot lists distinct assets.\<close>

definition store_ok :: "(bytes \<Rightarrow> bytes) \<Rightarrow> 'z vault_state_scheme \<Rightarrow> bool" where
  "store_ok sha s \<longleftrightarrow>
     (let ms = load_checkpoint_metadata s in
      sorted_wrt (<) (map km_checkpoint_id ms) \<and> (\<forall>m\<in>set ms. km_checkpoint_id m \<le> unwrap_or (va_checkpoint_counter s) 0)
      \<and> (\<forall>m\<in>set ms. listed_ok sha s m)
      \<and> (\<forall>i k. va_checkpoint_snapshot s i = Some k \<longrightarrow> snapshot_ok i k)
      \<and> distinct (load_registered_assets_raw s))"

text \<open>Between two calls the list is also bounded by the configuration.\<close>

definition checkpoints_ok :: "(bytes \<Rightarrow> bytes) \<Rightarrow> 'z vault_state_scheme \<Rightarrow> bool" where
  "checkpoints_ok sha s \<longleftrightarrow> store_ok sha s \<and> 0 < kc_max_checkpoints (load_checkpoint_config s)
     \<and> length (load_checkpoint_metadata s) \<le> kc_max_checkpoints (load_checkpoint_config s)"

lemma subseq_length_le: "subseq xs ys \<Longrightarrow> length xs \<le> length ys"
  by (rule list_emb_length)

lemma subseq_sorted: "subseq xs ys \<Longrightarrow> sorted_wrt (<) (map f ys) \<Longrightarrow> sorted_wrt (<) (map f xs)"
  by (induction rule: list_emb.induct) (auto dest: list_emb_set)

lemma drops_keep_store:
  assumes "store_ok sha s" "drops_checkpoints s s'" "cleans s s'"
  shows "store_ok sha s'"
proof -
  let ?ms = "load_checkpoint_metadata s" and ?ms' = "load_checkpoint_metadata s'"
  obtain r where r: "subseq ?ms' ?ms" "mset ?ms = mset ?ms' + mset r"
      "va_checkpoint_snapshot s' = (\<lambda>i. if i \<in> km_checkpoint_id ` set r then None else va_checkpoint_snapshot s i)"
    using assms(2) unfolding drops_checkpoints_def by blast
  have f: "va_checkpoint_counter s' = va_checkpoint_counter s"
    "load_registered_assets_raw s' = load_registered_assets_raw s"
    by (rule cleans_field [OF assms(3)], simp add: wipe_def load_registered_assets_raw_def)+
  have sub: "set ?ms' \<subseteq> set ?ms" using r(2) by (metis set_mset_mset set_mset_union Un_upper1)
  have dist: "distinct (map km_checkpoint_id ?ms)" using assms(1) by (auto simp: store_ok_def Let_def strict_sorted_iff)
  have "mset (map km_checkpoint_id ?ms) = mset (map km_checkpoint_id ?ms' @ map km_checkpoint_id r)" using r(2) by simp
  then have "distinct (map km_checkpoint_id ?ms' @ map km_checkpoint_id r)" using dist by (metis mset_eq_imp_distinct_iff)
  then have keep: "va_checkpoint_snapshot s' (km_checkpoint_id m) = va_checkpoint_snapshot s (km_checkpoint_id m)" if "m \<in> set ?ms'" for m
    using that by (auto simp: r(3))
  have "\<forall>m\<in>set ?ms'. listed_ok sha s' m" using assms(1) sub keep by (auto simp: store_ok_def Let_def listed_ok_def)
  moreover have "sorted_wrt (<) (map km_checkpoint_id ?ms')" using subseq_sorted [OF r(1), of km_checkpoint_id] assms(1) by (simp add: store_ok_def Let_def)
  moreover have "\<forall>i k. va_checkpoint_snapshot s' i = Some k \<longrightarrow> snapshot_ok i k"
    using assms(1) by (auto simp: store_ok_def Let_def r(3) split: if_splits)
  ultimately show ?thesis using assms(1) sub unfolding store_ok_def Let_def f by auto
qed

lemma drops_keep_ok:
  assumes "checkpoints_ok sha s" "drops_checkpoints s s'" "cleans s s'"
  shows "checkpoints_ok sha s'"
proof -
  have "load_checkpoint_config s' = load_checkpoint_config s"
    by (rule cleans_field [OF assms(3)], simp add: wipe_def load_checkpoint_config_def)
  moreover have "length (load_checkpoint_metadata s') \<le> length (load_checkpoint_metadata s)"
    using assms(2) subseq_length_le unfolding drops_checkpoints_def by blast
  ultimately show ?thesis using assms drops_keep_store unfolding checkpoints_ok_def by auto
qed

section \<open>What a new checkpoint holds\<close>

lemma capture_asset_fields:
  assumes "capture_asset s code = Inr a"
  shows "ka_asset_code a = code" "va_health s code = Some (ka_health a)"
    "va_price s code = (if ka_has_latest_price a then Some (ka_latest_price a) else None)"
    "va_health_result s code = (if ka_has_health_result a then Some (ka_health_result a) else None)"
  using assms by (auto simp: capture_asset_def load_asset_health_def)

lemma capture_assets_fields:
  assumes "capture_assets s codes = Inr xs"
  shows "map ka_asset_code xs = codes" "list_all2 (\<lambda>c a. capture_asset s c = Inr a) codes xs"
proof -
  show *: "list_all2 (\<lambda>c a. capture_asset s c = Inr a) codes xs"
    using assms by (induction codes arbitrary: xs) auto
  then show "map ka_asset_code xs = codes"
    by (induction rule: list_all2_induct) (auto simp: capture_asset_fields)
qed

lemma capture_assets_absent:
  assumes "capture_assets s codes = Inr xs" "a \<in> set xs"
  shows "(\<not> ka_has_latest_price a \<longrightarrow> ka_latest_price a = absent_price (ka_asset_code a))
    \<and> (\<not> ka_has_health_result a \<longrightarrow> ka_health_result a = absent_result)"
proof -
  obtain c where "capture_asset s c = Inr a"
    using capture_assets_fields(2) [OF assms(1)] assms(2) by (auto simp: list_all2_conv_all_nth in_set_conv_nth)
  then show ?thesis by (auto simp: capture_asset_def)
qed

lemma capture_assets_ok: "capture_assets s codes = Inr xs \<longleftrightarrow> list_all2 (\<lambda>c a. capture_asset s c = Inr a) codes xs"
  by (induction codes arbitrary: xs) (auto simp: list_all2_Cons1)

text \<open>Storing a checkpoint with a fresh identifier keeps the store well formed, but for the bound, which
  pruning restores.\<close>

definition saved_checkpoint :: "nat \<Rightarrow> nat \<Rightarrow> 'z vault_state_scheme \<Rightarrow> 'z vault_state_scheme" where
  "saved_checkpoint next_id now s = s\<lparr> va_checkpoint_counter := Some next_id, va_last_checkpoint_at := Some now,
     va_last_checkpoint_id := Some next_id \<rparr>"

lemma persist_effect:
  assumes "persist_checkpoint sha env caller trigger label from s = Inr (m, s')" "checkpoints_ok sha s"
  obtains k h where "take_snapshot env caller trigger label from (unwrap_or (va_checkpoint_counter s) 0 + 1) s = Inr k"
    "compute_checkpoint_hash sha k = Inr h" "m = metadata_of k h" "checkpoints_ok sha s'"
    "cleans (saved_checkpoint (unwrap_or (va_checkpoint_counter s) 0 + 1) (timestamp env) s) s'"
    "va_checkpoint_snapshot s' (ks_checkpoint_id k) = Some k" "load_checkpoint_metadata s' \<noteq> []"
    "last (load_checkpoint_metadata s') = m"
proof -
  let ?n = "unwrap_or (va_checkpoint_counter s) 0 + 1" and ?c = "load_checkpoint_config s"
  obtain k h where k: "take_snapshot env caller trigger label from ?n s = Inr k"
      and h: "compute_checkpoint_hash sha k = Inr h" and m: "m = metadata_of k h"
      and auto: "maybe_trigger_auto_cleanup env (prune_checkpoints ?c (store_checkpoint k m s)) = Inr s'"
    using assms(1) by (auto simp: persist_checkpoint_def Let_def)
  define s1 where "s1 = store_checkpoint k m s"
  define s2 where "s2 = prune_checkpoints ?c s1"
  have ok: "sorted_wrt (<) (map km_checkpoint_id (load_checkpoint_metadata s))"
      "\<forall>m\<in>set (load_checkpoint_metadata s). km_checkpoint_id m < ?n" "0 < kc_max_checkpoints ?c"
      "\<forall>m\<in>set (load_checkpoint_metadata s). listed_ok sha s m"
      "\<forall>i k. va_checkpoint_snapshot s i = Some k \<longrightarrow> snapshot_ok i k" "distinct (load_registered_assets_raw s)"
    using assms(2) by (auto simp: checkpoints_ok_def store_ok_def Let_def le_imp_less_Suc)
  have kf: "ks_checkpoint_id k = ?n" "snapshot_ok ?n k" "ks_created_at k = timestamp env"
    using k ok(6) by (auto simp: take_snapshot_def snapshot_ok_def capture_assets_fields(1) dest: capture_assets_absent)
  have mf: "km_checkpoint_id m = ?n" by (simp add: m metadata_of_def kf)
  have f1: "load_checkpoint_metadata s1 = load_checkpoint_metadata s @ [m]"
      "va_checkpoint_snapshot s1 = (va_checkpoint_snapshot s)(?n \<mapsto> k)" "va_checkpoint_counter s1 = Some ?n"
      "load_checkpoint_config s1 = ?c" "load_registered_assets_raw s1 = load_registered_assets_raw s"
    by (simp_all add: s1_def store_checkpoint_def load_checkpoint_metadata_def kf load_checkpoint_config_def load_registered_assets_raw_def)
  have c1: "cleans (saved_checkpoint ?n (timestamp env) s) s1"
    by (simp add: cleans_eq saved_checkpoint_def s1_def store_checkpoint_def kf)
  note p = prune_frame [OF ok(3), of s1, folded s2_def]
  note a = auto_cleanup_frame [OF auto [folded s1_def, folded s2_def]]
  have c: "cleans s1 s'" and d: "drops_checkpoints s1 s'" using p a cleans_trans drops_trans by blast+
  have ids: "va_checkpoint_snapshot s1 (km_checkpoint_id x) = va_checkpoint_snapshot s (km_checkpoint_id x)"
    if "x \<in> set (load_checkpoint_metadata s)" for x using ok(2) that by (auto simp: f1)
  have l1: "\<forall>x\<in>set (load_checkpoint_metadata s1). listed_ok sha s1 x"
    using ok(4) ids h kf mf by (auto simp: f1(1) listed_ok_def) (auto simp: f1 m)
  have sn1: "\<forall>i x. va_checkpoint_snapshot s1 i = Some x \<longrightarrow> snapshot_ok i x" using ok(5) kf by (auto simp: f1)
  have st1: "store_ok sha s1"
    unfolding store_ok_def Let_def using l1 sn1 ok(1,2,6) by (auto simp: f1 mf sorted_wrt_append less_imp_le)
  have "store_ok sha s'" by (rule drops_keep_store [OF st1 d c])
  moreover have cf: "load_checkpoint_config s' = load_checkpoint_config s1" "load_checkpoint_config s2 = load_checkpoint_config s1"
    by (rule cleans_field [OF c], simp add: wipe_def load_checkpoint_config_def,
        rule cleans_field [OF p(1)], simp add: wipe_def load_checkpoint_config_def)
  moreover have "length (load_checkpoint_metadata s') \<le> length (load_checkpoint_metadata s2)"
    using a subseq_length_le unfolding drops_checkpoints_def by blast
  ultimately have ok': "checkpoints_ok sha s'" using p(3) ok(3) by (simp add: checkpoints_ok_def f1)
  obtain r where r: "mset (load_checkpoint_metadata s1) = mset (load_checkpoint_metadata s') + mset r"
      "va_checkpoint_snapshot s' = (\<lambda>i. if i \<in> km_checkpoint_id ` set r then None else va_checkpoint_snapshot s1 i)"
      "load_checkpoint_metadata s' \<noteq> []" "last (load_checkpoint_metadata s') = m"
    using d unfolding drops_checkpoints_def by (auto simp: f1)
  have "listed_ok sha s' m" using ok' r(3,4) last_in_set unfolding checkpoints_ok_def store_ok_def Let_def by blast
  then have "va_checkpoint_snapshot s' ?n = Some k" by (auto simp: listed_ok_def mf r(2) f1 split: if_splits)
  with that [OF k h m ok'] kf r c c1 cleans_trans show ?thesis by auto
qed


section \<open>Restoring\<close>

definition bare :: "'z vault_state_scheme \<Rightarrow> 'z vault_state_scheme" where
  "bare s = s\<lparr> va_health := Map.empty, va_price := Map.empty, va_health_result := Map.empty \<rparr>"

lemma bare_field:
  assumes "bare s' = bare s" "\<And>s :: 'z vault_state_scheme. f (bare s) = f s"
  shows "f s' = f s"
  using arg_cong [of _ _ f, OF assms(1)] assms(2) by simp

lemma drop_records_bare: "bare (fold (drop_asset_records keep) cs s) = bare s"
  by (induction cs arbitrary: s) (simp_all add: bare_def drop_asset_records_def)

lemma restore_fold_others: "c \<notin> ka_asset_code ` set xs \<Longrightarrow> va_health (fold restore_asset xs s) c = va_health s c
    \<and> va_price (fold restore_asset xs s) c = va_price s c \<and> va_health_result (fold restore_asset xs s) c = va_health_result s c"
  by (induction xs arbitrary: s) (auto simp: restore_asset_def)

lemma restore_bare: "bare (fold restore_asset xs s) = bare s"
  by (induction xs arbitrary: s) (simp_all add: bare_def restore_asset_def)

lemma restore_asset_self:
  "va_health (restore_asset a s) (ka_asset_code a) = Some (ka_health a)"
  "va_price (restore_asset a s) (ka_asset_code a) = (if ka_has_latest_price a then Some (ka_latest_price a) else None)"
  "va_health_result (restore_asset a s) (ka_asset_code a) = (if ka_has_health_result a then Some (ka_health_result a) else None)"
  by (simp_all add: restore_asset_def)

lemma restore_fold:
  "distinct (map ka_asset_code xs) \<Longrightarrow> a \<in> set xs \<Longrightarrow>
     va_health (fold restore_asset xs s) (ka_asset_code a) = Some (ka_health a)
     \<and> va_price (fold restore_asset xs s) (ka_asset_code a) = (if ka_has_latest_price a then Some (ka_latest_price a) else None)
     \<and> va_health_result (fold restore_asset xs s) (ka_asset_code a) = (if ka_has_health_result a then Some (ka_health_result a) else None)"
proof (induction xs arbitrary: s)
  case (Cons x xs)
  show ?case
  proof (cases "a = x")
    case True
    then show ?thesis using Cons.prems(1) by (simp add: restore_fold_others restore_asset_self)
  next
    case False
    then show ?thesis using Cons by simp
  qed
qed simp

lemma apply_snapshot_split:
  "\<exists>s1. apply_snapshot k s = fold restore_asset (ks_assets k) s1 \<and> bare (apply_snapshot k s)
     = bare s\<lparr> va_monitored_assets := Some (ks_monitored_assets k), va_health_weights := Some (ks_health_weights k),
               va_risk_score_config := Some (ks_risk_score_config k) \<rparr>"
proof -
  let ?d = "fold (drop_asset_records (ks_monitored_assets k)) (load_registered_assets_raw s) s"
  let ?s1 = "?d\<lparr> va_monitored_assets := Some (ks_monitored_assets k), va_health_weights := Some (ks_health_weights k),
        va_risk_score_config := Some (ks_risk_score_config k) \<rparr>"
  have "bare ?s1 = bare ?d\<lparr> va_monitored_assets := Some (ks_monitored_assets k), va_health_weights := Some (ks_health_weights k),
        va_risk_score_config := Some (ks_risk_score_config k) \<rparr>" by (simp add: bare_def)
  then show ?thesis
    by (intro exI [of _ ?s1]) (simp add: apply_snapshot_def restore_bare drop_records_bare)
qed

lemma apply_snapshot_field:
  assumes "\<And>s :: 'z vault_state_scheme. f (bare s) = f s"
  shows "f (apply_snapshot k s) = f (s\<lparr> va_monitored_assets := Some (ks_monitored_assets k),
     va_health_weights := Some (ks_health_weights k), va_risk_score_config := Some (ks_risk_score_config k) \<rparr>)"
proof -
  let ?u = "s\<lparr> va_monitored_assets := Some (ks_monitored_assets k), va_health_weights := Some (ks_health_weights k),
     va_risk_score_config := Some (ks_risk_score_config k) \<rparr>"
  have "bare (apply_snapshot k s) = bare ?u" using apply_snapshot_split [of k s] by (auto simp: bare_def)
  then have "f (bare (apply_snapshot k s)) = f (bare ?u)" by simp
  then show ?thesis by (simp add: assms)
qed

lemma apply_snapshot_fields:
  "load_registered_assets_raw (apply_snapshot k s) = ks_monitored_assets k"
  "load_health_weights (apply_snapshot k s) = ks_health_weights k"
  "load_risk_score_config (apply_snapshot k s) = ks_risk_score_config k"
  "load_checkpoint_config (apply_snapshot k s) = load_checkpoint_config s"
  "va_checkpoint_counter (apply_snapshot k s) = va_checkpoint_counter s"
  "va_checkpoint_snapshot (apply_snapshot k s) = va_checkpoint_snapshot s"
  "load_checkpoint_metadata (apply_snapshot k s) = load_checkpoint_metadata s"
  using apply_snapshot_field [of load_registered_assets_raw] apply_snapshot_field [of load_health_weights]
    apply_snapshot_field [of load_risk_score_config] apply_snapshot_field [of load_checkpoint_config]
    apply_snapshot_field [of va_checkpoint_counter] apply_snapshot_field [of va_checkpoint_snapshot]
    apply_snapshot_field [of load_checkpoint_metadata]
  by (simp_all add: bare_def load_registered_assets_raw_def load_health_weights_def load_risk_score_config_def
      load_checkpoint_config_def load_checkpoint_metadata_def)

lemma apply_snapshot_capture:
  assumes "snapshot_ok i k"
  shows "capture_assets (apply_snapshot k s) (ks_monitored_assets k) = Inr (ks_assets k)"
proof -
  have dist: "distinct (map ka_asset_code (ks_assets k))" and codes: "ks_monitored_assets k = map ka_asset_code (ks_assets k)"
    using assms by (simp_all add: snapshot_ok_def)
  obtain s1 where e: "apply_snapshot k s = fold restore_asset (ks_assets k) s1" using apply_snapshot_split by blast
  have "capture_asset (apply_snapshot k s) (ka_asset_code a) = Inr a" if "a \<in> set (ks_assets k)" for a
    using restore_fold [OF dist that, of s1, folded e] assms that
    by (auto simp: capture_asset_def load_asset_health_def snapshot_ok_def intro: checkpoint_asset_state.equality)
  then show ?thesis
    unfolding capture_assets_ok codes by (simp add: list_all2_conv_all_nth)
qed

section \<open>Every entry point keeps the store well formed\<close>

datatype vault_call =
    VaInitialize address
  | VaSetCheckpointConfig address nat nat nat
  | VaCreateCheckpoint address string
  | VaRestore address nat
  | VaSetRetentionPolicy address retention_data_type nat nat nat bool bool
  | VaSetRetentionOverride address string retention_data_type "nat option"
  | VaCleanupOld address nat
  | VaCleanupType address retention_data_type nat

fun vault_exec :: "(bytes \<Rightarrow> bytes) \<Rightarrow> env \<Rightarrow> vault_call \<Rightarrow> 'z vault_state_scheme \<Rightarrow> 'z vault_state_scheme wres" where
  "vault_exec sha env (VaInitialize a) s = watch_initialize env a s"
| "vault_exec sha env (VaSetCheckpointConfig c i m v) s = set_checkpoint_config env c i m v s"
| "vault_exec sha env (VaCreateCheckpoint c l) s = state_of (create_checkpoint sha env c l s)"
| "vault_exec sha env (VaRestore c i) s = state_of (restore_from_checkpoint sha env c i s)"
| "vault_exec sha env (VaSetRetentionPolicy c t r g m a e) s = set_retention_policy env c t r g m a e s"
| "vault_exec sha env (VaSetRetentionOverride c a t r) s = set_asset_retention_override env c a t r s"
| "vault_exec sha env (VaCleanupOld c m) s = state_of (cleanup_old_data env c m s)"
| "vault_exec sha env (VaCleanupType c t m) s = state_of (cleanup_data_type env c t m s)"

text \<open>The fields the invariant reads.\<close>

definition checkpoint_view :: "'z vault_state_scheme \<Rightarrow> checkpoint_metadata list \<times> (nat \<rightharpoonup> checkpoint_snapshot)
    \<times> nat option \<times> checkpoint_config \<times> string list" where
  "checkpoint_view s = (load_checkpoint_metadata s, va_checkpoint_snapshot s, va_checkpoint_counter s,
     load_checkpoint_config s, load_registered_assets_raw s)"

lemma view_keeps_ok: "checkpoint_view s' = checkpoint_view s \<Longrightarrow> checkpoints_ok sha s \<Longrightarrow> checkpoints_ok sha s'"
  by (simp add: checkpoint_view_def checkpoints_ok_def store_ok_def listed_ok_def Let_def)

lemma store_ok_view: "(load_checkpoint_metadata s', va_checkpoint_snapshot s', va_checkpoint_counter s', load_registered_assets_raw s')
    = (load_checkpoint_metadata s, va_checkpoint_snapshot s, va_checkpoint_counter s, load_registered_assets_raw s)
    \<Longrightarrow> store_ok sha s \<Longrightarrow> store_ok sha s'"
  by (simp add: store_ok_def listed_ok_def Let_def)

lemma persist_keeps_ok:
  "checkpoints_ok sha s \<Longrightarrow> persist_checkpoint sha env c t l r s = Inr (m, s') \<Longrightarrow> checkpoints_ok sha s'"
  by (erule persist_effect)

lemma auto_checkpoint_keeps_ok:
  assumes "checkpoints_ok sha s" "maybe_create_auto_checkpoint sha env c s = Inr s'"
  shows "checkpoints_ok sha s'"
  using assms persist_keeps_ok by (fastforce simp: maybe_create_auto_checkpoint_def Let_def split: if_splits)

lemma auto_cleanup_keeps_ok: "checkpoints_ok sha s \<Longrightarrow> maybe_trigger_auto_cleanup env s = Inr s' \<Longrightarrow> checkpoints_ok sha s'"
  using auto_cleanup_frame drops_keep_ok by blast

lemma initialize_keeps_ok:
  assumes "checkpoints_ok sha s" "watch_initialize env a s = Inr s'"
  shows "checkpoints_ok sha s'"
  using assms by (auto simp: watch_initialize_def core_initialize_def initialize_retention_policies_def retention_data_types_def
    checkpoints_ok_def store_ok_def Let_def load_checkpoint_metadata_def load_checkpoint_config_def
    default_checkpoint_config_def load_registered_assets_raw_def)

lemma config_keeps_ok:
  assumes "checkpoints_ok sha s" "set_checkpoint_config env c i mx v s = Inr s'"
  shows "checkpoints_ok sha s'"
proof -
  define k where "k = \<lparr> kc_interval_secs = i, kc_max_checkpoints = mx, kc_format_version = v \<rparr>"
  let ?s1 = "s\<lparr> va_checkpoint_config := Some k \<rparr>"
  have mx: "0 < kc_max_checkpoints k" and s': "s' = prune_checkpoints k ?s1"
    using assms(2) by (auto simp: set_checkpoint_config_def k_def Let_def)
  have "store_ok sha ?s1" using assms(1)
    by (auto simp: checkpoints_ok_def load_checkpoint_metadata_def load_registered_assets_raw_def elim!: store_ok_view [rotated])
  then have "store_ok sha s'" unfolding s' using prune_frame [OF mx] drops_keep_store by blast
  moreover have "load_checkpoint_config s' = load_checkpoint_config ?s1"
    unfolding s' by (rule cleans_field [OF prune_frame(1) [OF mx]]) (simp add: wipe_def load_checkpoint_config_def)
  ultimately show ?thesis using prune_frame(3) [OF mx, of ?s1] mx by (simp add: checkpoints_ok_def s' load_checkpoint_config_def)
qed

lemma apply_snapshot_ok:
  assumes "checkpoints_ok sha s" "va_checkpoint_snapshot s cid = Some k"
  shows "checkpoints_ok sha (apply_snapshot k s)" "snapshot_ok cid k"
proof -
  show k: "snapshot_ok cid k" using assms by (simp add: checkpoints_ok_def store_ok_def Let_def)
  show "checkpoints_ok sha (apply_snapshot k s)"
    using assms(1) k by (simp add: checkpoints_ok_def store_ok_def Let_def listed_ok_def apply_snapshot_fields snapshot_ok_def)
qed

lemma restore_keeps_ok:
  assumes "checkpoints_ok sha s" "restore_from_checkpoint sha env c cid s = Inr (m, s')"
  shows "checkpoints_ok sha s'"
  using assms apply_snapshot_ok persist_keeps_ok
  by (fastforce simp: restore_from_checkpoint_def get_checkpoint_or_panic_def)

lemma cleanup_old_step_frame:
  assumes "cleanup_old_step env mx t (s, x, d, a) = Inr (s', x', d', a')"
  shows "cleans s s' \<and> drops_checkpoints s s'"
proof -
  let ?p = "load_retention_policy t s"
  let ?b = "if rp_max_deletions_per_run ?p < mx - d then rp_max_deletions_per_run ?p else mx - d"
  obtain s1 y z where c: "cleanup_data_type_internal env t ?p ?b s = (s1, y, z)" by (metis prod_cases3)
  have "s' = s \<or> s' = set_last_cleanup env t s1"
    using assms c by (auto simp: cleanup_old_step_def Let_def split: if_splits)
  then show ?thesis
    using cleanup_internal_frame [OF c] set_last_cleanup_frame [of s1 env t] cleans_trans drops_trans
      drops_same [of s s] by (fastforce simp: same_checkpoints_def)
qed

lemma cleanup_old_frame:
  assumes "cleanup_old_data env c mx s = Inr (r, s')"
  shows "cleans s s' \<and> drops_checkpoints s s'"
proof -
  obtain s1 x1 d1 a1 s2 x2 d2 a2 x3 d3 a3 where steps: "cleanup_old_step env mx SupplyMismatches (s, [], 0, 0) = Inr (s1, x1, d1, a1)"
      "cleanup_old_step env mx LiquidityHistory (s1, x1, d1, a1) = Inr (s2, x2, d2, a2)"
      "cleanup_old_step env mx Checkpoints (s2, x2, d2, a2) = Inr (s', x3, d3, a3)"
    using assms by (auto simp: cleanup_old_data_def)
  show ?thesis
    using steps [THEN cleanup_old_step_frame] by (blast intro: cleans_trans drops_trans)
qed

lemma cleanup_type_frame:
  assumes "cleanup_data_type env c t mx s = Inr (r, s')"
  shows "cleans s s' \<and> drops_checkpoints s s'"
proof -
  let ?p = "load_retention_policy t s"
  let ?b = "if rp_max_deletions_per_run ?p < mx then rp_max_deletions_per_run ?p else mx"
  obtain s1 y z where i: "cleanup_data_type_internal env t ?p ?b s = (s1, y, z)" by (metis prod_cases3)
  have "s' = s \<or> s' = set_last_cleanup env t s1"
    using assms i by (auto simp: cleanup_data_type_def Let_def split: if_splits)
  then show ?thesis
    using cleanup_internal_frame [OF i] set_last_cleanup_frame [of s1 env t] cleans_trans drops_trans
      drops_same [of s s] by (fastforce simp: same_checkpoints_def)
qed

lemma vault_exec_ok:
  assumes "checkpoints_ok sha s" "vault_exec sha env c s = Inr s'"
  shows "checkpoints_ok sha s'"
proof (cases c)
  case (VaSetRetentionPolicy x t r g m a e)
  then show ?thesis using assms(2) by (auto simp: set_retention_policy_def checkpoint_view_def load_checkpoint_metadata_def
      load_checkpoint_config_def load_registered_assets_raw_def intro!: view_keeps_ok [OF _ assms(1)])
next
  case (VaSetRetentionOverride x a t r)
  then show ?thesis using assms(2) by (auto simp: set_asset_retention_override_def checkpoint_view_def load_checkpoint_metadata_def
      load_checkpoint_config_def load_registered_assets_raw_def split: option.splits intro!: view_keeps_ok [OF _ assms(1)])
next
  case (VaCreateCheckpoint x l)
  then show ?thesis using assms persist_keeps_ok by (fastforce simp: create_checkpoint_def)
qed (use assms initialize_keeps_ok config_keeps_ok restore_keeps_ok cleanup_old_frame cleanup_type_frame drops_keep_ok in
      \<open>fastforce+\<close>)

section \<open>A cleanup loses nothing it should keep\<close>

text \<open>
  What a cleanup may do to one list of records: keep a subsequence of it with the newest record among
  them, remove only records that are old enough, and move the removed ones to the archive, or forget
  them and leave the archive alone, as the policy says.
\<close>

definition bucket_safe :: "bool \<Rightarrow> ('r \<Rightarrow> bool) \<Rightarrow> 'r list \<Rightarrow> 'r list \<Rightarrow> 'r list \<Rightarrow> 'r list \<Rightarrow> bool" where
  "bucket_safe archives old live live' arch arch' \<longleftrightarrow> subseq live' live
     \<and> (live \<noteq> [] \<longrightarrow> live' \<noteq> [] \<and> last live' = last live)
     \<and> (\<forall>x. count (mset live') x < count (mset live) x \<longrightarrow> old x)
     \<and> (if archives then mset live' + mset arch' = mset live + mset arch else arch' = arch)"

lemma bucket_safe_refl: "bucket_safe ar old live live arch arch"
  by (simp add: bucket_safe_def)

lemma bucket_safe_trans:
  assumes "bucket_safe ar old xs ys as bs" "bucket_safe ar old ys zs bs cs"
  shows "bucket_safe ar old xs zs as cs"
proof -
  have "old x" if "count (mset zs) x < count (mset xs) x" for x
    using that assms unfolding bucket_safe_def by (cases "count (mset ys) x < count (mset xs) x") auto
  moreover have "subseq zs xs" using assms subseq_order.trans unfolding bucket_safe_def by blast
  ultimately show ?thesis using assms unfolding bucket_safe_def by (auto split: if_splits)
qed

lemma bucket_safe_split:
  assumes "mset live = mset kept + mset removed" "subseq kept live" "live \<noteq> [] \<longrightarrow> kept \<noteq> [] \<and> last kept = last live"
    "\<forall>x\<in>set removed. old x"
  shows "bucket_safe ar old live kept arch (if ar then arch @ removed else arch)"
proof -
  have "old x" if "count (mset kept) x < count (mset live) x" for x
    using that assms(1,4) by (metis add.right_neutral count_mset_0_iff count_union less_irrefl)
  then show ?thesis using assms unfolding bucket_safe_def by (auto simp: ac_simps)
qed

text \<open>
  The interface of a bucket of histories that is cleaned key by key: a step does this to the records
  of its key and counts what it removes against the budget.
\<close>

locale cleaned_bucket =
  fixes step :: "string \<Rightarrow> 's \<times> nat \<times> nat \<Rightarrow> 's \<times> nat \<times> nat"
    and live :: "'s \<Rightarrow> string \<Rightarrow> 'r list" and archive :: "'s \<Rightarrow> string \<Rightarrow> 'r list"
    and mx :: nat and archives :: bool and old :: "'s \<Rightarrow> 'r \<Rightarrow> bool"
  assumes step_spec: "step b (s, d, a) = (s', d', a') \<Longrightarrow> \<exists>kept removed. live s' = (live s)(b := kept)
      \<and> archive s' = (if archives then (archive s)(b := archive s b @ removed) else archive s)
      \<and> mset (live s b) = mset kept + mset removed \<and> subseq kept (live s b)
      \<and> (live s b \<noteq> [] \<longrightarrow> kept \<noteq> [] \<and> last kept = last (live s b)) \<and> (\<forall>x\<in>set removed. old s x) \<and> old s' = old s
      \<and> d' = d + length removed \<and> (d \<le> mx \<longrightarrow> d' \<le> mx) \<and> a' = a + (if archives then length removed else 0)"
begin

definition preserves :: "'s \<Rightarrow> 's \<Rightarrow> bool" where
  "preserves s s' \<longleftrightarrow> old s' = old s
     \<and> (\<forall>b. bucket_safe archives (old s) (live s b) (live s' b) (archive s b) (archive s' b))"

lemma preserves_refl: "preserves s s"
  by (simp add: preserves_def bucket_safe_refl)

lemma preserves_trans: "preserves s t \<Longrightarrow> preserves t u \<Longrightarrow> preserves s u"
  unfolding preserves_def using bucket_safe_trans by metis

lemma step_preserves:
  assumes "step b (s, d, a) = (s', d', a')"
  shows "preserves s s' \<and> (d \<le> mx \<longrightarrow> d' \<le> mx) \<and> (if archives then a' + d = a + d' else a' = a)"
proof -
  obtain kept removed where k: "live s' = (live s)(b := kept)"
      "archive s' = (if archives then (archive s)(b := archive s b @ removed) else archive s)"
      "mset (live s b) = mset kept + mset removed" "subseq kept (live s b)"
      "live s b \<noteq> [] \<longrightarrow> kept \<noteq> [] \<and> last kept = last (live s b)" "\<forall>x\<in>set removed. old s x" "old s' = old s"
      "d' = d + length removed" "d \<le> mx \<longrightarrow> d' \<le> mx" "a' = a + (if archives then length removed else 0)"
    using step_spec [OF assms] by blast
  note safe = bucket_safe_split [OF k(3-6)]
  have "bucket_safe archives (old s) (live s c) (live s' c) (archive s c) (archive s' c)" for c
    using safe [of archives "archive s b"] k(1,2) bucket_safe_refl by (cases "c = b") (auto split: if_splits)
  then show ?thesis using k(7-) by (auto simp: preserves_def)
qed

lemma fold_preserves:
  "fold step bs (s, d, a) = (s', d', a') \<Longrightarrow>
     preserves s s' \<and> (d \<le> mx \<longrightarrow> d' \<le> mx) \<and> (if archives then a' + d = a + d' else a' = a)"
proof (induction bs arbitrary: s d a)
  case (Cons b bs)
  obtain s1 d1 a1 where one: "step b (s, d, a) = (s1, d1, a1)" by (cases "step b (s, d, a)") auto
  have "fold step bs (s1, d1, a1) = (s', d', a')" using Cons.prems one by simp
  note rest = Cons.IH [OF this] and first = step_preserves [OF one]
  have "preserves s s'" using rest first preserves_trans by blast
  with rest first show ?case by (auto split: if_splits)
qed (simp add: preserves_refl)

end

definition live_mismatches :: "'z vault_state_scheme \<Rightarrow> string \<Rightarrow> supply_mismatch list" where
  "live_mismatches s b = unwrap_or (va_mismatches s b) []"

definition archived_mismatches :: "'z vault_state_scheme \<Rightarrow> string \<Rightarrow> supply_mismatch list" where
  "archived_mismatches s b = unwrap_or (va_archived_mismatches s b) []"

definition live_depths :: "'z vault_state_scheme \<Rightarrow> string \<Rightarrow> pair_depth list" where
  "live_depths s b = unwrap_or (va_liquidity_history s b) []"

definition archived_depths :: "'z vault_state_scheme \<Rightarrow> string \<Rightarrow> pair_depth list" where
  "archived_depths s b = unwrap_or (va_archived_liquidity s b) []"

definition archived_metadata :: "'z vault_state_scheme \<Rightarrow> checkpoint_metadata list" where
  "archived_metadata s = unwrap_or (va_archived_metadata s) []"

text \<open>The records of each kind that are past their retention time.\<close>

definition old_mismatch :: "env \<Rightarrow> retention_policy \<Rightarrow> 'z vault_state_scheme \<Rightarrow> supply_mismatch \<Rightarrow> bool" where
  "old_mismatch env p s r \<longleftrightarrow> resolve_retention_secs s SupplyMismatches (Some (sm_asset_code r)) (rp_retention_secs p)
     < timestamp env - sm_timestamp r"

definition old_depth :: "env \<Rightarrow> retention_policy \<Rightarrow> 'z vault_state_scheme \<Rightarrow> pair_depth \<Rightarrow> bool" where
  "old_depth env p s r \<longleftrightarrow> resolve_retention_secs s LiquidityHistory (Some (pd_asset_pair r)) (rp_retention_secs p)
     < timestamp env - pd_timestamp r"

definition old_checkpoint :: "env \<Rightarrow> retention_policy \<Rightarrow> checkpoint_metadata \<Rightarrow> bool" where
  "old_checkpoint env p m \<longleftrightarrow> rp_retention_secs p < timestamp env - km_created_at m"

lemma old_split:
  "split_expired (\<lambda>r. is_expired_watch (timestamp env) (sm_timestamp r)
      (resolve_retention_secs s SupplyMismatches (Some (sm_asset_code r)) (rp_retention_secs p))) = split_expired (old_mismatch env p s)"
  "split_expired (\<lambda>r. is_expired_watch (timestamp env) (pd_timestamp r)
      (resolve_retention_secs s LiquidityHistory (Some (pd_asset_pair r)) (rp_retention_secs p))) = split_expired (old_depth env p s)"
  "split_expired (\<lambda>m. is_expired_watch (timestamp env) (km_created_at m) (rp_retention_secs p)) = split_expired (old_checkpoint env p)"
  by (simp_all add: is_expired_watch_def old_mismatch_def [abs_def] old_depth_def [abs_def] old_checkpoint_def [abs_def])

lemma cleaned_same:
  "\<exists>kept removed. f = f(b := kept) \<and> g = (if c then g(b := g b @ removed) else g) \<and> mset (f b) = mset kept + mset removed
     \<and> subseq kept (f b) \<and> (f b \<noteq> [] \<longrightarrow> kept \<noteq> [] \<and> last kept = last (f b)) \<and> (\<forall>x\<in>set removed. q x) \<and> q = q
     \<and> d = d + length removed \<and> (d \<le> mx \<longrightarrow> d \<le> mx) \<and> a = a + (if c then length removed else 0)"
  by (intro exI [of _ "f b"] exI [of _ "[]"]) auto

interpretation bridges: cleaned_bucket "cleanup_bridge env policy mx" live_mismatches archived_mismatches mx
  "rp_archive_before_delete policy" "old_mismatch env policy" for env policy mx
proof
  fix b s d a s' d' a'
  assume "cleanup_bridge env policy mx b (s, d, a) = (s', d', a')"
  note st' = this [unfolded cleanup_bridge_def old_split prod.case]
  obtain d1 kept removed where sp: "split_expired (old_mismatch env policy s) mx d (unwrap_or (va_mismatches s b) [])
      = (d1, kept, removed)" by (metis prod_cases3)
  show "\<exists>kept removed. live_mismatches s' = (live_mismatches s)(b := kept)
      \<and> archived_mismatches s' = (if rp_archive_before_delete policy then (archived_mismatches s)(b := archived_mismatches s b @ removed)
          else archived_mismatches s)
      \<and> mset (live_mismatches s b) = mset kept + mset removed \<and> subseq kept (live_mismatches s b)
      \<and> (live_mismatches s b \<noteq> [] \<longrightarrow> kept \<noteq> [] \<and> last kept = last (live_mismatches s b))
      \<and> (\<forall>x\<in>set removed. old_mismatch env policy s x) \<and> old_mismatch env policy s' = old_mismatch env policy s
      \<and> d' = d + length removed \<and> (d \<le> mx \<longrightarrow> d' \<le> mx) \<and> a' = a + (if rp_archive_before_delete policy then length removed else 0)"
  proof (cases "mx \<le> d \<or> length (unwrap_or (va_mismatches s b) []) \<le> 1 \<or> removed = []")
    case True
    then have "s' = s" "d' = d" "a' = a" using st' by (auto simp: sp Let_def split: if_splits)
    then show ?thesis by (simp only: cleaned_same)
  next
    case False
    have e: "s' = (if rp_archive_before_delete policy
        then s\<lparr> va_mismatches := (va_mismatches s)(b \<mapsto> kept),
               va_archived_mismatches := (va_archived_mismatches s)(b \<mapsto> unwrap_or (va_archived_mismatches s b) [] @ removed) \<rparr>
        else s\<lparr> va_mismatches := (va_mismatches s)(b \<mapsto> kept) \<rparr>)"
      "d' = d1" "a' = a + (if rp_archive_before_delete policy then length removed else 0)"
      using st' False by (simp_all add: sp Let_def split: if_splits)
    have "live_mismatches s' = (live_mismatches s)(b := kept)"
      "archived_mismatches s' = (if rp_archive_before_delete policy then (archived_mismatches s)(b := archived_mismatches s b @ removed)
          else archived_mismatches s)"
      by (simp_all add: e(1) live_mismatches_def archived_mismatches_def fun_eq_iff)
    moreover have "old_mismatch env policy s' = old_mismatch env policy s"
      by (simp add: e(1) old_mismatch_def [abs_def] resolve_retention_secs_def)
    moreover have "mset (live_mismatches s b) = mset kept + mset removed" "subseq kept (live_mismatches s b)"
      "live_mismatches s b \<noteq> [] \<longrightarrow> kept \<noteq> [] \<and> last kept = last (live_mismatches s b)"
      using split_expired_kept [OF sp] unfolding live_mismatches_def by blast+
    moreover have "\<forall>x\<in>set removed. old_mismatch env policy s x" by (rule split_expired_old [OF sp])
    moreover have "d' = d + length removed" "d \<le> mx \<longrightarrow> d' \<le> mx"
      using split_expired_removed [OF sp] split_expired_budget(1) [OF sp] e(2) by blast+
    ultimately show ?thesis using e(3) by blast
  qed
qed

interpretation pairs: cleaned_bucket "cleanup_pair env policy mx" live_depths archived_depths mx
  "rp_archive_before_delete policy" "old_depth env policy" for env policy mx
proof
  fix b s d a s' d' a'
  assume "cleanup_pair env policy mx b (s, d, a) = (s', d', a')"
  note st' = this [unfolded cleanup_pair_def old_split prod.case]
  obtain d1 kept removed where sp: "split_expired (old_depth env policy s) mx d (unwrap_or (va_liquidity_history s b) [])
      = (d1, kept, removed)" by (metis prod_cases3)
  show "\<exists>kept removed. live_depths s' = (live_depths s)(b := kept)
      \<and> archived_depths s' = (if rp_archive_before_delete policy then (archived_depths s)(b := archived_depths s b @ removed)
          else archived_depths s)
      \<and> mset (live_depths s b) = mset kept + mset removed \<and> subseq kept (live_depths s b)
      \<and> (live_depths s b \<noteq> [] \<longrightarrow> kept \<noteq> [] \<and> last kept = last (live_depths s b))
      \<and> (\<forall>x\<in>set removed. old_depth env policy s x) \<and> old_depth env policy s' = old_depth env policy s
      \<and> d' = d + length removed \<and> (d \<le> mx \<longrightarrow> d' \<le> mx) \<and> a' = a + (if rp_archive_before_delete policy then length removed else 0)"
  proof (cases "mx \<le> d \<or> length (unwrap_or (va_liquidity_history s b) []) \<le> 1 \<or> removed = []")
    case True
    then have "s' = s" "d' = d" "a' = a" using st' by (auto simp: sp Let_def split: if_splits)
    then show ?thesis by (simp only: cleaned_same)
  next
    case False
    have e: "s' = (if rp_archive_before_delete policy
        then s\<lparr> va_liquidity_history := (va_liquidity_history s)(b \<mapsto> kept),
               va_archived_liquidity := (va_archived_liquidity s)(b \<mapsto> unwrap_or (va_archived_liquidity s b) [] @ removed) \<rparr>
        else s\<lparr> va_liquidity_history := (va_liquidity_history s)(b \<mapsto> kept) \<rparr>)"
      "d' = d1" "a' = a + (if rp_archive_before_delete policy then length removed else 0)"
      using st' False by (simp_all add: sp Let_def split: if_splits)
    have "live_depths s' = (live_depths s)(b := kept)"
      "archived_depths s' = (if rp_archive_before_delete policy then (archived_depths s)(b := archived_depths s b @ removed)
          else archived_depths s)"
      by (simp_all add: e(1) live_depths_def archived_depths_def fun_eq_iff)
    moreover have "old_depth env policy s' = old_depth env policy s"
      by (simp add: e(1) old_depth_def [abs_def] resolve_retention_secs_def)
    moreover have "mset (live_depths s b) = mset kept + mset removed" "subseq kept (live_depths s b)"
      "live_depths s b \<noteq> [] \<longrightarrow> kept \<noteq> [] \<and> last kept = last (live_depths s b)"
      using split_expired_kept [OF sp] unfolding live_depths_def by blast+
    moreover have "\<forall>x\<in>set removed. old_depth env policy s x" by (rule split_expired_old [OF sp])
    moreover have "d' = d + length removed" "d \<le> mx \<longrightarrow> d' \<le> mx"
      using split_expired_removed [OF sp] split_expired_budget(1) [OF sp] e(2) by blast+
    ultimately show ?thesis using e(3) by blast
  qed
qed


text \<open>All buckets at once, under the retention rules of the state before, which a cleanup keeps.\<close>

definition retention_rules :: "'z vault_state_scheme \<Rightarrow> (retention_data_type \<rightharpoonup> retention_policy)
    \<times> (string \<times> retention_data_type \<rightharpoonup> nat)" where
  "retention_rules s = (va_retention_policy s, va_retention_override s)"

definition kept_safe :: "env \<Rightarrow> 'z vault_state_scheme \<Rightarrow> 'z vault_state_scheme \<Rightarrow> bool" where
  "kept_safe env s s' \<longleftrightarrow> retention_rules s' = retention_rules s
   \<and> (\<forall>b. bucket_safe (rp_archive_before_delete (load_retention_policy SupplyMismatches s))
            (old_mismatch env (load_retention_policy SupplyMismatches s) s)
            (live_mismatches s b) (live_mismatches s' b) (archived_mismatches s b) (archived_mismatches s' b))
   \<and> (\<forall>b. bucket_safe (rp_archive_before_delete (load_retention_policy LiquidityHistory s))
            (old_depth env (load_retention_policy LiquidityHistory s) s)
            (live_depths s b) (live_depths s' b) (archived_depths s b) (archived_depths s' b))
   \<and> bucket_safe (rp_archive_before_delete (load_retention_policy Checkpoints s))
       (old_checkpoint env (load_retention_policy Checkpoints s))
       (load_checkpoint_metadata s) (load_checkpoint_metadata s') (archived_metadata s) (archived_metadata s')"

lemma kept_safe_refl: "kept_safe env s s"
  by (simp add: kept_safe_def bucket_safe_refl)

lemma same_rules:
  assumes "retention_rules s' = retention_rules s"
  shows "load_retention_policy t s' = load_retention_policy t s" "old_mismatch env p s' = old_mismatch env p s"
    "old_depth env p s' = old_depth env p s"
  using assms by (simp_all add: retention_rules_def load_retention_policy_def old_mismatch_def [abs_def]
      old_depth_def [abs_def] resolve_retention_secs_def fun_eq_iff)

lemma kept_safe_trans:
  assumes "kept_safe env s t" "kept_safe env t u"
  shows "kept_safe env s u"
proof -
  have "retention_rules t = retention_rules s" using assms(1) by (simp add: kept_safe_def)
  note r = same_rules [OF this]
  note a = assms(1) [unfolded kept_safe_def] and b = assms(2) [unfolded kept_safe_def r]
  show ?thesis unfolding kept_safe_def
  proof (intro conjI allI)
    show "retention_rules u = retention_rules s" using a b by simp
  next
    fix c
    show "bucket_safe (rp_archive_before_delete (load_retention_policy SupplyMismatches s))
        (old_mismatch env (load_retention_policy SupplyMismatches s) s)
        (live_mismatches s c) (live_mismatches u c) (archived_mismatches s c) (archived_mismatches u c)"
      by (rule bucket_safe_trans [of _ _ _ "live_mismatches t c" _ "archived_mismatches t c"]) (simp_all only: a b)
    show "bucket_safe (rp_archive_before_delete (load_retention_policy LiquidityHistory s))
        (old_depth env (load_retention_policy LiquidityHistory s) s)
        (live_depths s c) (live_depths u c) (archived_depths s c) (archived_depths u c)"
      by (rule bucket_safe_trans [of _ _ _ "live_depths t c" _ "archived_depths t c"]) (simp_all only: a b)
  next
    show "bucket_safe (rp_archive_before_delete (load_retention_policy Checkpoints s))
        (old_checkpoint env (load_retention_policy Checkpoints s))
        (load_checkpoint_metadata s) (load_checkpoint_metadata u) (archived_metadata s) (archived_metadata u)"
      by (rule bucket_safe_trans [of _ _ _ "load_checkpoint_metadata t" _ "archived_metadata t"]) (simp_all only: a b)
  qed
qed

text \<open>What the cleanup of one bucket leaves alone.\<close>

definition same_but :: "retention_data_type \<Rightarrow> 'z vault_state_scheme \<Rightarrow> 'z vault_state_scheme \<Rightarrow> bool" where
  "same_but t s s' \<longleftrightarrow> retention_rules s' = retention_rules s
     \<and> (t \<noteq> SupplyMismatches \<longrightarrow> live_mismatches s' = live_mismatches s \<and> archived_mismatches s' = archived_mismatches s)
     \<and> (t \<noteq> LiquidityHistory \<longrightarrow> live_depths s' = live_depths s \<and> archived_depths s' = archived_depths s)
     \<and> (t \<noteq> Checkpoints \<longrightarrow> load_checkpoint_metadata s' = load_checkpoint_metadata s \<and> archived_metadata s' = archived_metadata s)"

lemma same_but_fold:
  assumes "\<And>b s d a s' d' a'. f b (s, d, a) = (s', d', a') \<Longrightarrow> same_but t s s'"
  shows "fold f bs (s, d, a) = (s', d', a') \<Longrightarrow> same_but t s s'"
proof (induction bs arbitrary: s d a)
  case (Cons b bs)
  obtain s1 d1 a1 where one: "f b (s, d, a) = (s1, d1, a1)" by (cases "f b (s, d, a)") auto
  have "same_but t s1 s'" using Cons one by auto
  with assms [OF one] show ?case by (simp add: same_but_def)
qed (simp add: same_but_def)

lemma cleanup_supply_safe:
  assumes "cleanup_supply_mismatches env p mx s = (s', d, a)" "p = load_retention_policy SupplyMismatches s"
  shows "kept_safe env s s' \<and> d \<le> mx"
proof -
  have sb: "same_but SupplyMismatches s s'"
    using assms(1) unfolding cleanup_supply_mismatches_def
    by (rule same_but_fold [rotated]) (auto simp: cleanup_bridge_def Let_def same_but_def live_depths_def archived_depths_def
        load_checkpoint_metadata_def archived_metadata_def retention_rules_def split: prod.splits if_splits)
  have "bridges.preserves p env s s' \<and> d \<le> mx"
    using bridges.fold_preserves [OF assms(1) [unfolded cleanup_supply_mismatches_def]] by simp
  with sb assms(2) show ?thesis by (simp add: bridges.preserves_def kept_safe_def same_but_def bucket_safe_refl)
qed

lemma cleanup_liquidity_safe:
  assumes "cleanup_liquidity_history env p mx s = (s', d, a)" "p = load_retention_policy LiquidityHistory s"
  shows "kept_safe env s s' \<and> d \<le> mx"
proof -
  have sb: "same_but LiquidityHistory s s'"
    using assms(1) unfolding cleanup_liquidity_history_def
    by (rule same_but_fold [rotated]) (auto simp: cleanup_pair_def Let_def same_but_def live_mismatches_def archived_mismatches_def
        load_checkpoint_metadata_def archived_metadata_def retention_rules_def split: prod.splits if_splits)
  have "pairs.preserves p env s s' \<and> d \<le> mx"
    using pairs.fold_preserves [OF assms(1) [unfolded cleanup_liquidity_history_def]] by simp
  with sb assms(2) show ?thesis by (simp add: pairs.preserves_def kept_safe_def same_but_def bucket_safe_refl)
qed

lemma drop_snapshot_same:
  "live_mismatches (drop_snapshot p m s) = live_mismatches s" "archived_mismatches (drop_snapshot p m s) = archived_mismatches s"
  "live_depths (drop_snapshot p m s) = live_depths s" "archived_depths (drop_snapshot p m s) = archived_depths s"
  "retention_rules (drop_snapshot p m s) = retention_rules s" "archived_metadata (drop_snapshot p m s) = archived_metadata s"
  by (auto simp: drop_snapshot_def Let_def live_mismatches_def archived_mismatches_def live_depths_def archived_depths_def
      retention_rules_def archived_metadata_def fun_eq_iff split: option.splits)

lemma drop_snapshots_same:
  "live_mismatches (fold (drop_snapshot p) ms s) = live_mismatches s \<and> archived_mismatches (fold (drop_snapshot p) ms s) = archived_mismatches s
   \<and> live_depths (fold (drop_snapshot p) ms s) = live_depths s \<and> archived_depths (fold (drop_snapshot p) ms s) = archived_depths s
   \<and> retention_rules (fold (drop_snapshot p) ms s) = retention_rules s
   \<and> archived_metadata (fold (drop_snapshot p) ms s) = archived_metadata s"
  by (induction ms arbitrary: s) (simp_all add: drop_snapshot_same)

lemma cleanup_checkpoints_safe:
  assumes "cleanup_checkpoints env p mx s = (s', d, a)" "p = load_retention_policy Checkpoints s"
  shows "kept_safe env s s' \<and> d \<le> mx"
proof (cases "length (load_checkpoint_metadata s) \<le> 1")
  case True
  then have "s' = s" "d = 0" using assms(1) by (simp_all add: cleanup_checkpoints_def Let_def)
  then show ?thesis by (simp add: kept_safe_refl)
next
  case False
  obtain d' kept removed where sp: "split_expired (old_checkpoint env p) mx 0 (load_checkpoint_metadata s) = (d', kept, removed)"
    by (metis prod_cases3)
  define s1 where "s1 = fold (drop_snapshot p) removed s"
  note f = drop_snapshots_same [of p removed s, folded s1_def]
  define s2 where "s2 = (if 0 < d' then s1\<lparr> va_checkpoint_metadata := Some kept \<rparr> else s1)"
  have e: "s' = (if rp_archive_before_delete p \<and> removed \<noteq> []
      then s2\<lparr> va_archived_metadata := Some (unwrap_or (va_archived_metadata s2) [] @ removed) \<rparr> else s2)" "d = d'"
    using assms(1) False sp by (auto simp: cleanup_checkpoints_def old_split Let_def s1_def s2_def split: if_splits)
  have others: "live_mismatches s' = live_mismatches s \<and> archived_mismatches s' = archived_mismatches s
      \<and> live_depths s' = live_depths s \<and> archived_depths s' = archived_depths s \<and> retention_rules s' = retention_rules s"
    using f by (simp add: e s2_def live_mismatches_def archived_mismatches_def live_depths_def archived_depths_def
        retention_rules_def fun_eq_iff)
  have k: "mset (load_checkpoint_metadata s) = mset kept + mset removed" "subseq kept (load_checkpoint_metadata s)"
    "load_checkpoint_metadata s \<noteq> [] \<longrightarrow> kept \<noteq> [] \<and> last kept = last (load_checkpoint_metadata s)"
    using split_expired_kept [OF sp] by simp_all
  have "d' = length removed" using split_expired_removed [OF sp] by simp
  moreover have "load_checkpoint_metadata s1 = load_checkpoint_metadata s" using drop_snapshots_frame [of s p removed, folded s1_def]
    by (simp add: load_checkpoint_metadata_def)
  moreover have "kept = load_checkpoint_metadata s" if "removed = []"
    using k(1,2) that subseq_same_length [of kept "load_checkpoint_metadata s"] mset_eq_length by fastforce
  ultimately have "load_checkpoint_metadata s' = kept
      \<and> archived_metadata s' = (if rp_archive_before_delete p then archived_metadata s @ removed else archived_metadata s)"
    using f by (auto simp: e s2_def load_checkpoint_metadata_def archived_metadata_def)
  then have "kept_safe env s s'"
    using others bucket_safe_split [OF k split_expired_old [OF sp], of "rp_archive_before_delete p" "archived_metadata s"] assms(2)
    by (simp add: kept_safe_def bucket_safe_refl)
  then show ?thesis using split_expired_budget(1) [OF sp] by (simp add: e(2))
qed

lemma cleanup_internal_safe:
  assumes "cleanup_data_type_internal env t p mx s = (s', d, a)" "p = load_retention_policy t s"
  shows "kept_safe env s s' \<and> d \<le> mx"
proof (cases "mx = 0")
  case True
  then show ?thesis using assms(1) by (simp add: cleanup_data_type_internal_def kept_safe_refl)
next
  case False
  then show ?thesis
    using assms cleanup_supply_safe [of env p mx s s' d a] cleanup_liquidity_safe [of env p mx s s' d a]
      cleanup_checkpoints_safe [of env p mx s s' d a]
    by (cases t) (simp_all add: cleanup_data_type_internal_def)
qed

lemma cleanup_old_step_safe:
  assumes "cleanup_old_step env mx t (s, x, d, a) = Inr (s', x', d', a')" "d \<le> mx" "d = sum_list (map cd_deleted x)"
  shows "kept_safe env s s' \<and> d' \<le> mx \<and> d' = sum_list (map cd_deleted x')"
proof -
  let ?p = "load_retention_policy t s"
  let ?b = "if rp_max_deletions_per_run ?p < mx - d then rp_max_deletions_per_run ?p else mx - d"
  obtain s1 y z where c: "cleanup_data_type_internal env t ?p ?b s = (s1, y, z)" by (metis prod_cases3)
  note i = cleanup_internal_safe [OF c refl]
  have "(s' = s \<and> d' = d \<and> x' = x) \<or> (s' = set_last_cleanup env t s1 \<and> d' = d + y
      \<and> x' = x @ [\<lparr> cd_data_type = t, cd_deleted = y, cd_archived = z \<rparr>])"
    using assms(1) c by (auto simp: cleanup_old_step_def Let_def split: if_splits)
  moreover have "kept_safe env s (set_last_cleanup env t s1)"
    using i by (simp add: kept_safe_def set_last_cleanup_def live_mismatches_def archived_mismatches_def live_depths_def
        archived_depths_def load_checkpoint_metadata_def archived_metadata_def retention_rules_def)
  moreover have "d + y \<le> mx" using i assms(2) by (auto split: if_splits)
  ultimately show ?thesis using assms(2,3) kept_safe_refl by auto
qed

lemma cleanup_old_safe:
  assumes "cleanup_old_data env c mx s = Inr (r, s')"
  shows "kept_safe env s s' \<and> cu_total_deleted r \<le> mx \<and> cu_total_deleted r = sum_list (map cd_deleted (cu_details r))"
proof -
  obtain s1 x1 d1 a1 s2 x2 d2 a2 x3 d3 a3 where steps: "cleanup_old_step env mx SupplyMismatches (s, [], 0, 0) = Inr (s1, x1, d1, a1)"
      "cleanup_old_step env mx LiquidityHistory (s1, x1, d1, a1) = Inr (s2, x2, d2, a2)"
      "cleanup_old_step env mx Checkpoints (s2, x2, d2, a2) = Inr (s', x3, d3, a3)"
      and r: "cu_total_deleted r = d3" "cu_details r = x3"
    using assms by (auto simp: cleanup_old_data_def)
  have c1: "kept_safe env s s1 \<and> d1 \<le> mx \<and> d1 = sum_list (map cd_deleted x1)"
    by (rule cleanup_old_step_safe [OF steps(1)]) simp_all
  have c2: "kept_safe env s1 s2 \<and> d2 \<le> mx \<and> d2 = sum_list (map cd_deleted x2)"
    by (rule cleanup_old_step_safe [OF steps(2)]) (use c1 in simp_all)
  have c3: "kept_safe env s2 s' \<and> d3 \<le> mx \<and> d3 = sum_list (map cd_deleted x3)"
    by (rule cleanup_old_step_safe [OF steps(3)]) (use c2 in simp_all)
  have "kept_safe env s s'" using c1 c2 c3 kept_safe_trans by blast
  with c3 r show ?thesis by simp
qed

end
