(* ===== verification/Watch_Assets.thy ===== *)
theory Watch_Assets
  imports Watch_Checkpoint
begin

text \<open>
  Assets and submissions of the watch contract (\<open>soroban/src/lib.rs\<close>, \<open>source_trust.rs\<close>):
  registration, pausing and locking of assets, the trusted sources and the per-caller rate limit
  every submission passes, health and price submissions in their plain, calculated, batched and
  signed variants, signature verification with its nonces and cache, and the weighted health view
  over several sources. \<open>asset_state\<close> extends the state of the checkpoints, because every accepted
  submission may create one. SHA-256 stays the parameter \<open>sha\<close>. Lemmas: who may submit what and
  when, strictly increasing nonces, the rate limit window, and what the signature check amounts to.
\<close>

section \<open>Data\<close>

record health_score_batch =
  hb_asset_code :: string
  hb_health_score :: nat
  hb_liquidity_score :: nat
  hb_price_stability_score :: nat
  hb_bridge_uptime_score :: nat

record signer =
  sg_public_key :: bytes
  sg_active :: bool
  sg_registered_at :: nat

record signer_signature =
  sz_signer_id :: string
  sz_signature :: bytes
  sz_nonce :: nat
  sz_expiry :: nat

record asset_lock_state =
  lk_asset_code :: string
  lk_is_locked :: bool
  lk_reason :: string
  lk_locked_by :: address
  lk_locked_at :: nat
  lk_unlocked_by :: "address option"
  lk_unlocked_at :: "nat option"

record asset_lock_record =
  lh_locked :: bool
  lh_reason :: string
  lh_caller :: address
  lh_timestamp :: nat

record submission_limit =
  sl_window_secs :: nat
  sl_max_calls :: nat

record submission_usage =
  sn_window_start :: nat
  sn_count :: nat

record trusted_source =
  tq_source_address :: address
  tq_name :: string
  tq_registered_by :: address
  tq_registered_at :: nat
  tq_is_active :: bool
  tq_revoked_by :: "address option"
  tq_revoked_at :: "nat option"

record source_info =
  si_source_address :: address
  si_name :: string
  si_is_active :: bool
  si_registered_at :: nat

record health_source =
  hs_source_id :: string
  hs_weight_bps :: nat
  hs_trusted :: bool
  hs_registered_at :: nat

record sourced_health_entry =
  he_source_id :: string
  he_asset_code :: string
  he_health_score :: nat
  he_liquidity_score :: nat
  he_price_stability_score :: nat
  he_bridge_uptime_score :: nat
  he_submitted_at :: nat

record aggregated_health =
  ag_asset_code :: string
  ag_weighted_health_score :: nat
  ag_weighted_liquidity_score :: nat
  ag_weighted_price_stability_score :: nat
  ag_weighted_bridge_uptime_score :: nat
  ag_source_count :: nat
  ag_computed_at :: nat

record expiration_policy =
  xp_asset_ttl_secs :: nat
  xp_price_ttl_secs :: nat
  xp_deviation_ttl_secs :: nat
  xp_mismatch_ttl_secs :: nat
  xp_liquidity_ttl_secs :: nat
  xp_preserve_latest_history :: bool
  xp_version :: nat

datatype expiration_kind = AssetKind | PriceKind | DeviationKind | MismatchKind | LiquidityKind | HealthResultKind

record asset_state = vault_state +
  wa_price_history :: "string \<rightharpoonup> price_record list"
  wa_signer :: "string \<rightharpoonup> signer"
  wa_signer_list :: "string list option"
  wa_signature_threshold :: "nat option"
  wa_signer_nonce :: "string \<rightharpoonup> nat"
  wa_signature_cache :: "bytes \<rightharpoonup> bool"
  wa_lock :: "string \<rightharpoonup> asset_lock_state"
  wa_lock_history :: "string \<rightharpoonup> asset_lock_record list"
  wa_rate_limit_config :: "submission_limit option"
  wa_rate_limit :: "address \<rightharpoonup> submission_usage"
  wa_trusted_source :: "address \<rightharpoonup> trusted_source"
  wa_all_sources :: "address list option"
  wa_health_sources :: "health_source list option"
  wa_source_entry :: "string \<times> string \<rightharpoonup> sourced_health_entry"
  wa_expiration_policy :: "expiration_policy option"

section \<open>Expiration of records\<close>

definition load_expiration_policy :: "'z asset_state_scheme \<Rightarrow> expiration_policy" where
  "load_expiration_policy s = unwrap_or (wa_expiration_policy s)
     \<lparr> xp_asset_ttl_secs = 86400, xp_price_ttl_secs = 3600, xp_deviation_ttl_secs = 86400, xp_mismatch_ttl_secs = 604800,
       xp_liquidity_ttl_secs = 86400, xp_preserve_latest_history = True, xp_version = 1 \<rparr>"

text \<open>The asset code is not used: the policy alone decides.\<close>

definition resolve_expiration :: "'z asset_state_scheme \<Rightarrow> string \<Rightarrow> expiration_kind \<Rightarrow> nat \<Rightarrow> nat" where
  "resolve_expiration s code kind now =
     (let policy = load_expiration_policy s in
      sat_u64 (now + (case kind of AssetKind \<Rightarrow> xp_asset_ttl_secs policy | PriceKind \<Rightarrow> xp_price_ttl_secs policy
        | DeviationKind \<Rightarrow> xp_deviation_ttl_secs policy | MismatchKind \<Rightarrow> xp_mismatch_ttl_secs policy
        | LiquidityKind \<Rightarrow> xp_liquidity_ttl_secs policy | HealthResultKind \<Rightarrow> xp_asset_ttl_secs policy)))"

section \<open>The guards of a submission\<close>

definition assert_asset_not_locked :: "string \<Rightarrow> 'z asset_state_scheme \<Rightarrow> unit wres" where
  "assert_asset_not_locked code s = (case wa_lock s code of
     None \<Rightarrow> Inr ()
   | Some l \<Rightarrow> ensure (\<not> lk_is_locked l) (Panic ''asset is locked for maintenance''))"

definition assert_asset_accepting_submissions :: "asset_health \<Rightarrow> unit wres" where
  "assert_asset_accepting_submissions r =
     and_then (ensure (ah_active r) (Panic ''asset is deregistered'')) (\<lambda>_.
     ensure (\<not> ah_paused r) (Panic ''asset monitoring is paused''))"

definition enforce_rate_limit :: "env \<Rightarrow> address \<Rightarrow> 'z asset_state_scheme \<Rightarrow> 'z asset_state_scheme wres" where
  "enforce_rate_limit env caller s = (case wa_rate_limit_config s of
     None \<Rightarrow> Inr s
   | Some config \<Rightarrow>
       let now = timestamp env;
           usage = unwrap_or (wa_rate_limit s caller) \<lparr> sn_window_start = now, sn_count = 0 \<rparr>
       in and_then (add_u64 (sn_window_start usage) (sl_window_secs config)) (\<lambda>window_end.
          let usage = (if window_end \<le> now then usage\<lparr> sn_window_start := now, sn_count := 0 \<rparr> else usage)
          in and_then (ensure (\<not> sl_max_calls config \<le> sn_count usage)
               (Panic ''rate limit exceeded: too many submissions in the current window'')) (\<lambda>_.
             and_then (add_u32 (sn_count usage) 1) (\<lambda>n.
             Inr (s\<lparr> wa_rate_limit := (wa_rate_limit s)(caller \<mapsto> usage\<lparr> sn_count := n \<rparr>) \<rparr>)))))"

definition manage_config_guard :: "env \<Rightarrow> 'z core_state_scheme \<Rightarrow> address \<Rightarrow> unit wres" where
  "manage_config_guard env s caller =
     and_then (assert_not_globally_paused s) (\<lambda>_.
     and_then (check_no_pending_transfer env s) (\<lambda>_.
     and_then (unwrap (ac_admin s)) (\<lambda>admin.
     require_permission env s caller admin ManageConfig)))"

definition set_rate_limit_config :: "env \<Rightarrow> address \<Rightarrow> nat \<Rightarrow> nat \<Rightarrow> 'z asset_state_scheme \<Rightarrow> 'z asset_state_scheme wres" where
  "set_rate_limit_config env caller window max_calls s =
     and_then (manage_config_guard env s caller) (\<lambda>_.
     and_then (ensure (window \<noteq> 0) (Panic ''rate limit window_secs must be greater than zero'')) (\<lambda>_.
     and_then (ensure (max_calls \<noteq> 0) (Panic ''rate limit max_calls must be greater than zero'')) (\<lambda>_.
     Inr (s\<lparr> wa_rate_limit_config := Some \<lparr> sl_window_secs = window, sl_max_calls = max_calls \<rparr> \<rparr>))))"

section \<open>Trusted sources\<close>

definition register_trusted_source :: "env \<Rightarrow> address \<Rightarrow> address \<Rightarrow> string \<Rightarrow> 'z asset_state_scheme \<Rightarrow> 'z asset_state_scheme wres" where
  "register_trusted_source env caller source name s =
     and_then (ensure (name \<noteq> []) (Panic ''source name cannot be empty'')) (\<lambda>_.
     let rec = (case wa_trusted_source s source of
                  Some x \<Rightarrow> x\<lparr> tq_is_active := True, tq_registered_by := caller, tq_registered_at := timestamp env,
                              tq_revoked_by := None, tq_revoked_at := None, tq_name := name \<rparr>
                | None \<Rightarrow> \<lparr> tq_source_address = source, tq_name = name, tq_registered_by = caller,
                            tq_registered_at = timestamp env, tq_is_active = True, tq_revoked_by = None, tq_revoked_at = None \<rparr>);
         all = unwrap_or (wa_all_sources s) []
     in Inr (s\<lparr> wa_trusted_source := (wa_trusted_source s)(source \<mapsto> rec),
               wa_all_sources := (if vec_contains_address all source then wa_all_sources s else Some (all @ [source])) \<rparr>))"

definition revoke_trusted_source :: "env \<Rightarrow> address \<Rightarrow> address \<Rightarrow> 'z asset_state_scheme \<Rightarrow> 'z asset_state_scheme wres" where
  "revoke_trusted_source env caller source s =
     and_then (ok_or (wa_trusted_source s source) (Panic ''source not registered'')) (\<lambda>x.
     and_then (ensure (tq_is_active x) (Panic ''source already revoked'')) (\<lambda>_.
     Inr (s\<lparr> wa_trusted_source := (wa_trusted_source s)(source \<mapsto>
       x\<lparr> tq_is_active := False, tq_revoked_by := Some caller, tq_revoked_at := Some (timestamp env) \<rparr>) \<rparr>)))"

definition is_trusted_source :: "address \<Rightarrow> 'z asset_state_scheme \<Rightarrow> bool" where
  "is_trusted_source source s = (case wa_trusted_source s source of Some x \<Rightarrow> tq_is_active x | None \<Rightarrow> False)"

definition get_all_trusted_sources :: "'z asset_state_scheme \<Rightarrow> source_info list" where
  "get_all_trusted_sources s = List.map_filter (\<lambda>a. map_option (\<lambda>x. \<lparr> si_source_address = tq_source_address x,
     si_name = tq_name x, si_is_active = tq_is_active x, si_registered_at = tq_registered_at x \<rparr>) (wa_trusted_source s a))
     (unwrap_or (wa_all_sources s) [])"

definition get_active_trusted_sources :: "'z asset_state_scheme \<Rightarrow> source_info list" where
  "get_active_trusted_sources s = filter si_is_active (get_all_trusted_sources s)"

definition require_trusted_source :: "address \<Rightarrow> 'z asset_state_scheme \<Rightarrow> unit wres" where
  "require_trusted_source caller s = ensure (is_trusted_source caller s) (Panic ''caller is not a trusted source'')"

text \<open>The entry points of the main contract around them.\<close>

definition source_admin_guard :: "env \<Rightarrow> 'z core_state_scheme \<Rightarrow> address \<Rightarrow> unit wres" where
  "source_admin_guard env s caller =
     and_then (require_auth env caller) (\<lambda>_.
     and_then (ok_or (ac_admin s) (Panic ''contract not initialized'')) (\<lambda>admin.
     if caller \<noteq> admin then require_permission env s caller admin ManageConfig else Inr ()))"

definition add_trusted_source :: "env \<Rightarrow> address \<Rightarrow> address \<Rightarrow> string \<Rightarrow> 'z asset_state_scheme \<Rightarrow> 'z asset_state_scheme wres" where
  "add_trusted_source env caller source name s =
     and_then (source_admin_guard env s caller) (\<lambda>_. register_trusted_source env caller source name s)"

definition drop_trusted_source :: "env \<Rightarrow> address \<Rightarrow> address \<Rightarrow> 'z asset_state_scheme \<Rightarrow> 'z asset_state_scheme wres" where
  "drop_trusted_source env caller source s =
     and_then (source_admin_guard env s caller) (\<lambda>_. revoke_trusted_source env caller source s)"

text \<open>The block both submission kernels share: once a source is active, everyone but the admin must be one.\<close>

definition check_source_trust :: "address \<Rightarrow> 'z asset_state_scheme \<Rightarrow> unit wres" where
  "check_source_trust caller s =
     and_then (unwrap (ac_admin s)) (\<lambda>admin.
     if caller \<noteq> admin \<and> get_active_trusted_sources s \<noteq> [] then require_trusted_source caller s else Inr ())"

section \<open>Registration, pausing and locking of assets\<close>

definition register_asset :: "(bytes \<Rightarrow> bytes) \<Rightarrow> env \<Rightarrow> address \<Rightarrow> string \<Rightarrow> 'z asset_state_scheme \<Rightarrow> 'z asset_state_scheme wres" where
  "register_asset sha env caller code s =
     and_then (assert_not_globally_paused s) (\<lambda>_.
     and_then (check_permission env s caller AssetManager) (\<lambda>_.
     and_then (unwrap (va_monitored_assets s)) (\<lambda>assets.
     and_then (ensure (\<not> list_ex (\<lambda>x. x = code) assets) (Panic ''asset is already registered'')) (\<lambda>_.
     let status = \<lparr> ah_asset_code = code, ah_health_score = 0, ah_liquidity_score = 0, ah_price_stability_score = 0,
                    ah_bridge_uptime_score = 0, ah_paused = False, ah_active = True, ah_timestamp = timestamp env,
                    ah_expires_at = resolve_expiration s code AssetKind (timestamp env) \<rparr>
     in maybe_create_auto_checkpoint sha env caller
          (s\<lparr> va_health := (va_health s)(code \<mapsto> status), va_monitored_assets := Some (assets @ [code]) \<rparr>)))))"

text \<open>\<open>pause_asset_watch\<close> and \<open>unpause_asset\<close> differ in the flag and in their message.\<close>

definition set_asset_paused :: "(bytes \<Rightarrow> bytes) \<Rightarrow> env \<Rightarrow> bool \<Rightarrow> string \<Rightarrow> address \<Rightarrow> string \<Rightarrow> 'z asset_state_scheme
    \<Rightarrow> 'z asset_state_scheme wres" where
  "set_asset_paused sha env flag msg caller code s =
     and_then (check_permission env s caller AssetManager) (\<lambda>_.
     and_then (assert_asset_not_locked code s) (\<lambda>_.
     and_then (load_asset_health code s) (\<lambda>status.
     and_then (ensure (ah_active status) (Panic msg)) (\<lambda>_.
     maybe_create_auto_checkpoint sha env caller
       (s\<lparr> va_health := (va_health s)(code \<mapsto> status\<lparr> ah_paused := flag, ah_timestamp := timestamp env,
          ah_expires_at := resolve_expiration s code AssetKind (timestamp env) \<rparr>) \<rparr>)))))"

definition pause_asset_watch :: "(bytes \<Rightarrow> bytes) \<Rightarrow> env \<Rightarrow> address \<Rightarrow> string \<Rightarrow> 'z asset_state_scheme \<Rightarrow> 'z asset_state_scheme wres" where
  "pause_asset_watch sha env = set_asset_paused sha env True ''cannot pause a deregistered asset''"

definition unpause_asset :: "(bytes \<Rightarrow> bytes) \<Rightarrow> env \<Rightarrow> address \<Rightarrow> string \<Rightarrow> 'z asset_state_scheme \<Rightarrow> 'z asset_state_scheme wres" where
  "unpause_asset sha env = set_asset_paused sha env False ''cannot unpause a deregistered asset''"

definition deregister_asset :: "(bytes \<Rightarrow> bytes) \<Rightarrow> env \<Rightarrow> address \<Rightarrow> string \<Rightarrow> 'z asset_state_scheme \<Rightarrow> 'z asset_state_scheme wres" where
  "deregister_asset sha env caller code s =
     and_then (assert_not_globally_paused s) (\<lambda>_.
     and_then (check_permission env s caller AssetManager) (\<lambda>_.
     and_then (load_asset_health code s) (\<lambda>status.
     maybe_create_auto_checkpoint sha env caller
       (s\<lparr> va_health := (va_health s)(code \<mapsto> status\<lparr> ah_active := False, ah_paused := False, ah_timestamp := timestamp env,
          ah_expires_at := resolve_expiration s code AssetKind (timestamp env) \<rparr>) \<rparr>))))"

definition push_lock_record :: "env \<Rightarrow> string \<Rightarrow> bool \<Rightarrow> string \<Rightarrow> address \<Rightarrow> 'z asset_state_scheme \<Rightarrow> 'z asset_state_scheme" where
  "push_lock_record env code locked reason caller s =
     s\<lparr> wa_lock_history := (wa_lock_history s)(code \<mapsto> unwrap_or (wa_lock_history s code) []
          @ [\<lparr> lh_locked = locked, lh_reason = reason, lh_caller = caller, lh_timestamp = timestamp env \<rparr>]) \<rparr>"

definition lock_asset :: "env \<Rightarrow> address \<Rightarrow> string \<Rightarrow> string \<Rightarrow> 'z asset_state_scheme \<Rightarrow> 'z asset_state_scheme wres" where
  "lock_asset env caller code reason s =
     and_then (assert_not_globally_paused s) (\<lambda>_.
     and_then (check_permission env s caller AssetManager) (\<lambda>_.
     and_then (load_asset_health code s) (\<lambda>status.
     and_then (ensure (ah_active status) (Panic ''cannot lock a deregistered asset'')) (\<lambda>_.
     and_then (case wa_lock s code of None \<Rightarrow> Inr () | Some l \<Rightarrow> ensure (\<not> lk_is_locked l) (Panic ''asset is already locked'')) (\<lambda>_.
     Inr (push_lock_record env code True reason caller
       (s\<lparr> wa_lock := (wa_lock s)(code \<mapsto> \<lparr> lk_asset_code = code, lk_is_locked = True, lk_reason = reason, lk_locked_by = caller,
          lk_locked_at = timestamp env, lk_unlocked_by = None, lk_unlocked_at = None \<rparr>) \<rparr>)))))))"

definition unlock_asset :: "env \<Rightarrow> address \<Rightarrow> string \<Rightarrow> 'z asset_state_scheme \<Rightarrow> 'z asset_state_scheme wres" where
  "unlock_asset env caller code s =
     and_then (assert_not_globally_paused s) (\<lambda>_.
     and_then (check_permission env s caller AssetManager) (\<lambda>_.
     and_then (load_asset_health code s) (\<lambda>status.
     and_then (ensure (ah_active status) (Panic ''cannot unlock a deregistered asset'')) (\<lambda>_.
     and_then (ok_or (wa_lock s code) (Panic ''asset is not locked'')) (\<lambda>l.
     and_then (ensure (lk_is_locked l) (Panic ''asset is not locked'')) (\<lambda>_.
     Inr (push_lock_record env code False ''Unlocked'' caller
       (s\<lparr> wa_lock := (wa_lock s)(code \<mapsto> \<lparr> lk_asset_code = code, lk_is_locked = False, lk_reason = lk_reason l,
          lk_locked_by = lk_locked_by l, lk_locked_at = lk_locked_at l, lk_unlocked_by = Some caller,
          lk_unlocked_at = Some (timestamp env) \<rparr>) \<rparr>))))))))"

definition is_asset_locked :: "string \<Rightarrow> 'z asset_state_scheme \<Rightarrow> bool" where
  "is_asset_locked code s = (case wa_lock s code of Some l \<Rightarrow> lk_is_locked l | None \<Rightarrow> False)"

definition get_monitored_assets :: "'z vault_state_scheme \<Rightarrow> string list wres" where
  "get_monitored_assets s =
     and_then (unwrap (va_monitored_assets s)) (\<lambda>assets.
     Inr (filter (\<lambda>code. case va_health s code of Some r \<Rightarrow> ah_active r \<and> \<not> ah_paused r | None \<Rightarrow> True) assets))"

section \<open>Submissions\<close>

text \<open>The record a submission writes: the flags of the old one, the new scores.\<close>

definition health_record :: "env \<Rightarrow> 'z asset_state_scheme \<Rightarrow> asset_health \<Rightarrow> string \<Rightarrow> nat \<Rightarrow> nat \<Rightarrow> nat \<Rightarrow> nat \<Rightarrow> asset_health" where
  "health_record env s status code health liquidity stability uptime =
     \<lparr> ah_asset_code = code, ah_health_score = health, ah_liquidity_score = liquidity,
       ah_price_stability_score = stability, ah_bridge_uptime_score = uptime, ah_paused = ah_paused status,
       ah_active = ah_active status, ah_timestamp = timestamp env,
       ah_expires_at = resolve_expiration s code AssetKind (timestamp env) \<rparr>"

definition submit_health_internal :: "(bytes \<Rightarrow> bytes) \<Rightarrow> env \<Rightarrow> address \<Rightarrow> string \<Rightarrow> nat \<Rightarrow> nat \<Rightarrow> nat \<Rightarrow> nat
    \<Rightarrow> 'z asset_state_scheme \<Rightarrow> 'z asset_state_scheme wres" where
  "submit_health_internal sha env caller code health liquidity stability uptime s =
     and_then (enforce_rate_limit env caller s) (\<lambda>s.
     and_then (assert_asset_not_locked code s) (\<lambda>_.
     and_then (check_source_trust caller s) (\<lambda>_.
     and_then (load_asset_health code s) (\<lambda>status.
     and_then (assert_asset_accepting_submissions status) (\<lambda>_.
     and_then (append_replay_event env ''health_up'' caller code (int health)
       (s\<lparr> va_health := (va_health s)(code \<mapsto> health_record env s status code health liquidity stability uptime) \<rparr>)) (\<lambda>s1.
     maybe_create_auto_checkpoint sha env caller s1))))))"

definition submit_health :: "(bytes \<Rightarrow> bytes) \<Rightarrow> env \<Rightarrow> address \<Rightarrow> string \<Rightarrow> nat \<Rightarrow> nat \<Rightarrow> nat \<Rightarrow> nat
    \<Rightarrow> 'z asset_state_scheme \<Rightarrow> 'z asset_state_scheme wres" where
  "submit_health sha env caller code health liquidity stability uptime s =
     and_then (check_permission env s caller HealthSubmitter) (\<lambda>_.
     submit_health_internal sha env caller code health liquidity stability uptime s)"

fun store_batch :: "env \<Rightarrow> health_score_batch list \<Rightarrow> 'z asset_state_scheme \<Rightarrow> 'z asset_state_scheme wres" where
  "store_batch env [] s = Inr s"
| "store_batch env (item # rest) s =
     and_then (load_asset_health (hb_asset_code item) s) (\<lambda>status.
     and_then (assert_asset_accepting_submissions status) (\<lambda>_.
     store_batch env rest (s\<lparr> va_health := (va_health s)(hb_asset_code item \<mapsto> health_record env s status (hb_asset_code item)
       (hb_health_score item) (hb_liquidity_score item) (hb_price_stability_score item) (hb_bridge_uptime_score item)) \<rparr>)))"

definition submit_health_batch_internal :: "(bytes \<Rightarrow> bytes) \<Rightarrow> env \<Rightarrow> address \<Rightarrow> health_score_batch list
    \<Rightarrow> 'z asset_state_scheme \<Rightarrow> 'z asset_state_scheme wres" where
  "submit_health_batch_internal sha env caller records s =
     and_then (enforce_rate_limit env caller s) (\<lambda>s.
     and_then (ensure (\<not> 20 < length records) (Panic ''batch size exceeds the maximum of 20 records'')) (\<lambda>_.
     and_then (store_batch env records s) (\<lambda>s1. maybe_create_auto_checkpoint sha env caller s1)))"

definition submit_health_batch :: "(bytes \<Rightarrow> bytes) \<Rightarrow> env \<Rightarrow> address \<Rightarrow> health_score_batch list
    \<Rightarrow> 'z asset_state_scheme \<Rightarrow> 'z asset_state_scheme wres" where
  "submit_health_batch sha env caller records s =
     and_then (check_permission env s caller HealthSubmitter) (\<lambda>_. submit_health_batch_internal sha env caller records s)"

definition submit_price_internal :: "(bytes \<Rightarrow> bytes) \<Rightarrow> env \<Rightarrow> address \<Rightarrow> string \<Rightarrow> int \<Rightarrow> string
    \<Rightarrow> 'z asset_state_scheme \<Rightarrow> 'z asset_state_scheme wres" where
  "submit_price_internal sha env caller code price source s =
     and_then (enforce_rate_limit env caller s) (\<lambda>s.
     and_then (assert_asset_not_locked code s) (\<lambda>_.
     and_then (check_source_trust caller s) (\<lambda>_.
     and_then (load_asset_health code s) (\<lambda>status.
     and_then (assert_asset_accepting_submissions status) (\<lambda>_.
     let rec = \<lparr> pr_asset_code = code, pr_price = price, pr_source = source, pr_timestamp = timestamp env,
                 pr_expires_at = resolve_expiration s code PriceKind (timestamp env) \<rparr>
     in maybe_create_auto_checkpoint sha env caller (s\<lparr> va_price := (va_price s)(code \<mapsto> rec),
          wa_price_history := (wa_price_history s)(code \<mapsto> unwrap_or (wa_price_history s code) [] @ [rec]) \<rparr>))))))"

definition submit_price :: "(bytes \<Rightarrow> bytes) \<Rightarrow> env \<Rightarrow> address \<Rightarrow> string \<Rightarrow> int \<Rightarrow> string
    \<Rightarrow> 'z asset_state_scheme \<Rightarrow> 'z asset_state_scheme wres" where
  "submit_price sha env caller code price source s =
     and_then (check_permission env s caller PriceSubmitter) (\<lambda>_. submit_price_internal sha env caller code price source s)"

definition submit_calculated_health :: "(bytes \<Rightarrow> bytes) \<Rightarrow> env \<Rightarrow> address \<Rightarrow> string \<Rightarrow> nat \<Rightarrow> nat \<Rightarrow> nat \<Rightarrow> nat option
    \<Rightarrow> 'z asset_state_scheme \<Rightarrow> 'z asset_state_scheme wres" where
  "submit_calculated_health sha env caller code liquidity stability uptime manual s =
     and_then (check_permission env s caller HealthSubmitter) (\<lambda>_.
     and_then (enforce_rate_limit env caller s) (\<lambda>s.
     and_then (load_asset_health code s) (\<lambda>status.
     and_then (assert_asset_accepting_submissions status) (\<lambda>_.
     and_then (validate_score_range liquidity ''liquidity_score'') (\<lambda>_.
     and_then (validate_score_range stability ''price_stability_score'') (\<lambda>_.
     and_then (validate_score_range uptime ''bridge_uptime_score'') (\<lambda>_.
     let weights = load_health_weights s in
     and_then (compute_composite liquidity stability uptime weights) (\<lambda>composite.
     and_then (case manual of Some v \<Rightarrow> and_then (validate_score_range v ''manual_override'') (\<lambda>_. Inr v)
               | None \<Rightarrow> Inr composite) (\<lambda>final.
     maybe_create_auto_checkpoint sha env caller
       (s\<lparr> va_health := (va_health s)(code \<mapsto> health_record env s status code final liquidity stability uptime),
          va_health_result := (va_health_result s)(code \<mapsto> \<lparr> hr_composite_score = composite, hr_liquidity_score = liquidity,
            hr_price_stability_score = stability, hr_bridge_uptime_score = uptime, hr_weights = weights,
            hr_timestamp = timestamp env,
            hr_expires_at = resolve_expiration s code HealthResultKind (timestamp env) \<rparr>) \<rparr>))))))))))"

definition set_health_weights :: "(bytes \<Rightarrow> bytes) \<Rightarrow> env \<Rightarrow> address \<Rightarrow> nat \<Rightarrow> nat \<Rightarrow> nat \<Rightarrow> nat
    \<Rightarrow> 'z vault_state_scheme \<Rightarrow> 'z vault_state_scheme wres" where
  "set_health_weights sha env caller liq stab up version s =
     and_then (require_super_admin env s caller ''only admin or SuperAdmin can set health weights'') (\<lambda>_.
     and_then (validate_weights liq stab up) (\<lambda>_.
     and_then (ensure (version \<noteq> 0) (Panic ''methodology version must be greater than 0'')) (\<lambda>_.
     maybe_create_auto_checkpoint sha env caller (s\<lparr> va_health_weights := Some \<lparr> hw_liquidity_weight = liq,
       hw_price_stability_weight = stab, hw_bridge_uptime_weight = up, hw_version = version \<rparr> \<rparr>))))"

definition set_risk_score_config :: "(bytes \<Rightarrow> bytes) \<Rightarrow> env \<Rightarrow> address \<Rightarrow> risk_score_config
    \<Rightarrow> 'z vault_state_scheme \<Rightarrow> 'z vault_state_scheme wres" where
  "set_risk_score_config sha env caller config s =
     and_then (require_super_admin env s caller ''only admin or SuperAdmin can set risk score config'') (\<lambda>_.
     and_then (validate_risk_score_config config) (\<lambda>_.
     maybe_create_auto_checkpoint sha env caller (s\<lparr> va_risk_score_config := Some config \<rparr>)))"

section \<open>Signers and signatures\<close>

definition load_signer :: "string \<Rightarrow> 'z asset_state_scheme \<Rightarrow> signer wres" where
  "load_signer sid s = ok_or (wa_signer s sid) (Panic ''signer not found'')"

definition register_signer :: "env \<Rightarrow> address \<Rightarrow> string \<Rightarrow> bytes \<Rightarrow> 'z asset_state_scheme \<Rightarrow> 'z asset_state_scheme wres" where
  "register_signer env caller sid key s =
     and_then (check_permission env s caller SuperAdminRole) (\<lambda>_.
     and_then (ensure (wa_signer s sid = None) (Panic ''signer already registered'')) (\<lambda>_.
     Inr (s\<lparr> wa_signer := (wa_signer s)(sid \<mapsto> \<lparr> sg_public_key = key, sg_active = True, sg_registered_at = timestamp env \<rparr>),
            wa_signer_list := Some (unwrap_or (wa_signer_list s) [] @ [sid]) \<rparr>)))"

definition remove_signer_watch :: "env \<Rightarrow> address \<Rightarrow> string \<Rightarrow> 'z asset_state_scheme \<Rightarrow> 'z asset_state_scheme wres" where
  "remove_signer_watch env caller sid s =
     and_then (check_permission env s caller SuperAdminRole) (\<lambda>_.
     and_then (load_signer sid s) (\<lambda>x.
     and_then (ensure (sg_active x) (Panic ''signer is already removed'')) (\<lambda>_.
     Inr (s\<lparr> wa_signer := (wa_signer s)(sid \<mapsto> x\<lparr> sg_active := False \<rparr>) \<rparr>))))"

definition set_signature_threshold :: "env \<Rightarrow> address \<Rightarrow> nat \<Rightarrow> 'z asset_state_scheme \<Rightarrow> 'z asset_state_scheme wres" where
  "set_signature_threshold env caller threshold s =
     and_then (check_permission env s caller SuperAdminRole) (\<lambda>_.
     and_then (ensure (threshold \<noteq> 0) (Panic ''signature threshold must be at least 1'')) (\<lambda>_.
     Inr (s\<lparr> wa_signature_threshold := Some threshold \<rparr>)))"

definition get_signature_threshold :: "'z asset_state_scheme \<Rightarrow> nat" where
  "get_signature_threshold s = unwrap_or (wa_signature_threshold s) 1"

text \<open>The bytes under a signature: the message, the signer's identifier and public key, the nonce and
  the expiry.\<close>

definition signed_data :: "bytes \<Rightarrow> signer_signature \<Rightarrow> signer \<Rightarrow> bytes wres" where
  "signed_data message sig x =
     and_then (str_to_bytes (sz_signer_id sig)) (\<lambda>sid.
     Inr (append_u64_watch (sz_expiry sig) (append_u64_watch (sz_nonce sig) (message @ sid @ sg_public_key x))))"

text \<open>The loop over the 32 bytes of the digest: both halves of the signature must equal it.\<close>

definition digest_matches :: "bytes \<Rightarrow> bytes \<Rightarrow> bool" where
  "digest_matches sig_arr digest_arr =
     list_all (\<lambda>j. \<not> (sig_arr ! j \<noteq> digest_arr ! j \<or> sig_arr ! (j + 32) \<noteq> digest_arr ! j)) [0 ..< 32]"

definition set_signer_nonce :: "signer_signature \<Rightarrow> 'z asset_state_scheme \<Rightarrow> 'z asset_state_scheme" where
  "set_signer_nonce sig s = s\<lparr> wa_signer_nonce := (wa_signer_nonce s)(sz_signer_id sig \<mapsto> sz_nonce sig) \<rparr>"

definition verify_signature :: "(bytes \<Rightarrow> bytes) \<Rightarrow> env \<Rightarrow> bytes \<Rightarrow> signer_signature \<Rightarrow> 'z asset_state_scheme
    \<Rightarrow> (bool \<times> 'z asset_state_scheme) wres" where
  "verify_signature sha env message sig s =
     and_then (load_signer (sz_signer_id sig) s) (\<lambda>x.
     and_then (ensure (sg_active x) (Panic ''signer is not active'')) (\<lambda>_.
     and_then (ensure (\<not> (sz_expiry sig \<noteq> 0 \<and> sz_expiry sig < timestamp env)) (Panic ''signature has expired'')) (\<lambda>_.
     and_then (ensure (\<not> sz_nonce sig \<le> unwrap_or (wa_signer_nonce s (sz_signer_id sig)) 0) (Panic ''nonce replay detected'')) (\<lambda>_.
     let payload_hash = sha message in
     if unwrap_or (wa_signature_cache s payload_hash) False then Inr (True, set_signer_nonce sig s)
     else and_then (signed_data message sig x) (\<lambda>data.
          and_then (ensure (digest_matches (sz_signature sig) (sha data)) (Panic ''invalid signature'')) (\<lambda>_.
          let s1 = set_signer_nonce sig s
          in Inr (True, s1\<lparr> wa_signature_cache := (wa_signature_cache s1)(payload_hash \<mapsto> True) \<rparr>)))))))"

fun multi_sig_loop :: "(bytes \<Rightarrow> bytes) \<Rightarrow> env \<Rightarrow> bytes \<Rightarrow> signer_signature list \<Rightarrow> string list \<Rightarrow> nat \<Rightarrow> 'z asset_state_scheme
    \<Rightarrow> (nat \<times> 'z asset_state_scheme) wres" where
  "multi_sig_loop sha env message [] seen valid s = Inr (valid, s)"
| "multi_sig_loop sha env message (sig # rest) seen valid s =
     and_then (ensure (\<not> list_ex (\<lambda>o'. o' = sz_signer_id sig) seen) (Panic ''duplicate signer in multi-sig'')) (\<lambda>_.
     and_then (verify_signature sha env message sig s) (\<lambda>(good, s1).
     multi_sig_loop sha env message rest (seen @ [sz_signer_id sig]) (if good then sat_u32 (valid + 1) else valid) s1))"

definition verify_multi_sig :: "(bytes \<Rightarrow> bytes) \<Rightarrow> env \<Rightarrow> bytes \<Rightarrow> signer_signature list \<Rightarrow> 'z asset_state_scheme
    \<Rightarrow> (bool \<times> 'z asset_state_scheme) wres" where
  "verify_multi_sig sha env message sigs s =
     (let threshold = get_signature_threshold s in
      and_then (ensure (\<not> length sigs < threshold) (Panic ''insufficient signatures'')) (\<lambda>_.
      and_then (multi_sig_loop sha env message sigs [] 0 s) (\<lambda>(valid, s1).
      and_then (ensure (\<not> valid < threshold) (Panic ''signatures below configured threshold'')) (\<lambda>_.
      Inr (True, s1)))))"

section \<open>Signed submissions\<close>

definition build_health_message :: "string \<Rightarrow> nat \<Rightarrow> nat \<Rightarrow> nat \<Rightarrow> nat \<Rightarrow> bytes wres" where
  "build_health_message code health liquidity stability uptime =
     and_then (str_to_bytes code) (\<lambda>b.
     Inr (append_u32_watch uptime (append_u32_watch stability (append_u32_watch liquidity (append_u32_watch health b)))))"

text \<open>The price enters as \<open>price as u64\<close>, which keeps the low 64 bits.\<close>

definition build_price_message :: "string \<Rightarrow> int \<Rightarrow> string \<Rightarrow> bytes wres" where
  "build_price_message code price source =
     and_then (str_to_bytes code) (\<lambda>b.
     and_then (str_to_bytes source) (\<lambda>c.
     Inr (append_u64_watch (nat (price mod 2 ^ 64)) b @ c)))"

fun build_batch_message :: "health_score_batch list \<Rightarrow> bytes \<Rightarrow> bytes wres" where
  "build_batch_message [] buf = Inr buf"
| "build_batch_message (item # rest) buf =
     and_then (build_health_message (hb_asset_code item) (hb_health_score item) (hb_liquidity_score item)
       (hb_price_stability_score item) (hb_bridge_uptime_score item)) (\<lambda>b. build_batch_message rest (buf @ b))"

definition submit_health_signed :: "(bytes \<Rightarrow> bytes) \<Rightarrow> env \<Rightarrow> address \<Rightarrow> string \<Rightarrow> nat \<Rightarrow> nat \<Rightarrow> nat \<Rightarrow> nat \<Rightarrow> signer_signature
    \<Rightarrow> 'z asset_state_scheme \<Rightarrow> 'z asset_state_scheme wres" where
  "submit_health_signed sha env caller code health liquidity stability uptime sig s =
     and_then (check_permission env s caller HealthSubmitter) (\<lambda>_.
     and_then (build_health_message code health liquidity stability uptime) (\<lambda>message.
     and_then (verify_signature sha env message sig s) (\<lambda>(good, s1).
     submit_health_internal sha env caller code health liquidity stability uptime s1)))"

definition submit_price_signed :: "(bytes \<Rightarrow> bytes) \<Rightarrow> env \<Rightarrow> address \<Rightarrow> string \<Rightarrow> int \<Rightarrow> string \<Rightarrow> signer_signature
    \<Rightarrow> 'z asset_state_scheme \<Rightarrow> 'z asset_state_scheme wres" where
  "submit_price_signed sha env caller code price source sig s =
     and_then (check_permission env s caller PriceSubmitter) (\<lambda>_.
     and_then (build_price_message code price source) (\<lambda>message.
     and_then (verify_signature sha env message sig s) (\<lambda>(good, s1).
     submit_price_internal sha env caller code price source s1)))"

definition submit_health_batch_signed :: "(bytes \<Rightarrow> bytes) \<Rightarrow> env \<Rightarrow> address \<Rightarrow> health_score_batch list \<Rightarrow> signer_signature list
    \<Rightarrow> 'z asset_state_scheme \<Rightarrow> 'z asset_state_scheme wres" where
  "submit_health_batch_signed sha env caller records sigs s =
     and_then (check_permission env s caller HealthSubmitter) (\<lambda>_.
     and_then (build_batch_message records []) (\<lambda>message.
     and_then (verify_multi_sig sha env message sigs s) (\<lambda>(good, s1).
     submit_health_batch_internal sha env caller records s1)))"

section \<open>Health from several sources\<close>

definition register_health_source :: "env \<Rightarrow> address \<Rightarrow> string \<Rightarrow> nat \<Rightarrow> 'z asset_state_scheme \<Rightarrow> 'z asset_state_scheme wres" where
  "register_health_source env caller sid weight s =
     and_then (require_contract_admin env s caller ''only admin can register health sources'') (\<lambda>_.
     and_then (ensure (weight \<noteq> 0) (Panic ''weight_bps must be greater than zero'')) (\<lambda>_.
     let source = \<lparr> hs_source_id = sid, hs_weight_bps = weight, hs_trusted = True, hs_registered_at = timestamp env \<rparr>;
         sources = unwrap_or (wa_health_sources s) [];
         updated = map (\<lambda>x. if hs_source_id x = sid then source else x) sources
     in append_admin_activity env AssetRegisteredAct caller sid
          (s\<lparr> wa_health_sources := Some (if list_ex (\<lambda>x. hs_source_id x = sid) sources then updated else updated @ [source]) \<rparr>)))"

definition revoke_health_source :: "env \<Rightarrow> address \<Rightarrow> string \<Rightarrow> 'z asset_state_scheme \<Rightarrow> 'z asset_state_scheme wres" where
  "revoke_health_source env caller sid s =
     and_then (require_contract_admin env s caller ''only admin can revoke health sources'') (\<lambda>_.
     let sources = unwrap_or (wa_health_sources s) [] in
     and_then (ensure (list_ex (\<lambda>x. hs_source_id x = sid) sources) (Panic ''health source not registered'')) (\<lambda>_.
     Inr (s\<lparr> wa_health_sources := Some (map (\<lambda>x. if hs_source_id x = sid then x\<lparr> hs_trusted := False \<rparr> else x) sources) \<rparr>)))"

definition submit_health_multi_source :: "env \<Rightarrow> address \<Rightarrow> string \<Rightarrow> string \<Rightarrow> nat \<Rightarrow> nat \<Rightarrow> nat \<Rightarrow> nat
    \<Rightarrow> 'z asset_state_scheme \<Rightarrow> 'z asset_state_scheme wres" where
  "submit_health_multi_source env caller sid code health liquidity stability uptime s =
     and_then (assert_not_globally_paused s) (\<lambda>_.
     and_then (check_permission env s caller HealthSubmitter) (\<lambda>_.
     and_then (enforce_rate_limit env caller s) (\<lambda>s.
     and_then (ensure (list_ex (\<lambda>x. hs_source_id x = sid \<and> hs_trusted x) (unwrap_or (wa_health_sources s) []))
       (Panic ''source is not registered or not trusted'')) (\<lambda>_.
     and_then (append_replay_event env ''ms_hlth'' caller code (int health)
       (s\<lparr> wa_source_entry := (wa_source_entry s)((sid, code) \<mapsto> \<lparr> he_source_id = sid, he_asset_code = code,
          he_health_score = health, he_liquidity_score = liquidity, he_price_stability_score = stability,
          he_bridge_uptime_score = uptime, he_submitted_at = timestamp env \<rparr>) \<rparr>)) (\<lambda>s1.
     append_admin_activity env HealthSubmittedAct caller code s1)))))"

text \<open>The accumulator of the aggregation: total weight, the four weighted sums (\<open>u64\<close>) and the count (\<open>u32\<close>).\<close>

definition add_weighted :: "'z asset_state_scheme \<Rightarrow> string \<Rightarrow> health_source \<Rightarrow> nat \<times> nat \<times> nat \<times> nat \<times> nat \<times> nat
    \<Rightarrow> (nat \<times> nat \<times> nat \<times> nat \<times> nat \<times> nat) wres" where
  "add_weighted s code source = (\<lambda>(tw, wh, wl, wp, wu, n).
     if \<not> hs_trusted source then Inr (tw, wh, wl, wp, wu, n)
     else (case wa_source_entry s (hs_source_id source, code) of
       None \<Rightarrow> Inr (tw, wh, wl, wp, wu, n)
     | Some e \<Rightarrow>
         let w = hs_weight_bps source in
         and_then (add_u64 tw w) (\<lambda>tw'.
         and_then (and_then (mul_u64 w (he_health_score e)) (add_u64 wh)) (\<lambda>wh'.
         and_then (and_then (mul_u64 w (he_liquidity_score e)) (add_u64 wl)) (\<lambda>wl'.
         and_then (and_then (mul_u64 w (he_price_stability_score e)) (add_u64 wp)) (\<lambda>wp'.
         and_then (and_then (mul_u64 w (he_bridge_uptime_score e)) (add_u64 wu)) (\<lambda>wu'.
         and_then (add_u32 n 1) (\<lambda>n'. Inr (tw', wh', wl', wp', wu', n')))))))))"

fun aggregate_sources :: "'z asset_state_scheme \<Rightarrow> string \<Rightarrow> health_source list \<Rightarrow> nat \<times> nat \<times> nat \<times> nat \<times> nat \<times> nat
    \<Rightarrow> (nat \<times> nat \<times> nat \<times> nat \<times> nat \<times> nat) wres" where
  "aggregate_sources s code [] acc = Inr acc"
| "aggregate_sources s code (x # xs) acc = and_then (add_weighted s code x acc) (aggregate_sources s code xs)"

text \<open>The averages are cast to \<open>u32\<close>.\<close>

definition get_aggregated_health :: "env \<Rightarrow> string \<Rightarrow> 'z asset_state_scheme \<Rightarrow> aggregated_health option wres" where
  "get_aggregated_health env code s =
     and_then (aggregate_sources s code (unwrap_or (wa_health_sources s) []) (0, 0, 0, 0, 0, 0)) (\<lambda>(tw, wh, wl, wp, wu, n).
     Inr (if n = 0 \<or> tw = 0 then None
          else Some \<lparr> ag_asset_code = code, ag_weighted_health_score = wh div tw mod 2 ^ 32,
                ag_weighted_liquidity_score = wl div tw mod 2 ^ 32, ag_weighted_price_stability_score = wp div tw mod 2 ^ 32,
                ag_weighted_bridge_uptime_score = wu div tw mod 2 ^ 32, ag_source_count = n,
                ag_computed_at = timestamp env \<rparr>))"

section \<open>The entry points\<close>

datatype asset_call =
    WaRegisterAsset address string
  | WaPauseAsset address string
  | WaUnpauseAsset address string
  | WaDeregisterAsset address string
  | WaLockAsset address string string
  | WaUnlockAsset address string
  | WaSubmitHealth address string nat nat nat nat
  | WaSubmitHealthBatch address "health_score_batch list"
  | WaSubmitPrice address string int string
  | WaSubmitCalculated address string nat nat nat "nat option"
  | WaSubmitHealthSigned address string nat nat nat nat signer_signature
  | WaSubmitPriceSigned address string int string signer_signature
  | WaSubmitBatchSigned address "health_score_batch list" "signer_signature list"
  | WaVerifySignature bytes signer_signature
  | WaVerifyMultiSig bytes "signer_signature list"
  | WaRegisterSigner address string bytes
  | WaRemoveSigner address string
  | WaSetThreshold address nat
  | WaSetRateLimit address nat nat
  | WaAddTrustedSource address address string
  | WaDropTrustedSource address address
  | WaRegisterHealthSource address string nat
  | WaRevokeHealthSource address string
  | WaSubmitMultiSource address string string nat nat nat nat
  | WaSetHealthWeights address nat nat nat nat
  | WaSetRiskConfig address risk_score_config

fun asset_exec :: "(bytes \<Rightarrow> bytes) \<Rightarrow> env \<Rightarrow> asset_call \<Rightarrow> 'z asset_state_scheme \<Rightarrow> 'z asset_state_scheme wres" where
  "asset_exec sha env (WaRegisterAsset c a) s = register_asset sha env c a s"
| "asset_exec sha env (WaPauseAsset c a) s = pause_asset_watch sha env c a s"
| "asset_exec sha env (WaUnpauseAsset c a) s = unpause_asset sha env c a s"
| "asset_exec sha env (WaDeregisterAsset c a) s = deregister_asset sha env c a s"
| "asset_exec sha env (WaLockAsset c a r) s = lock_asset env c a r s"
| "asset_exec sha env (WaUnlockAsset c a) s = unlock_asset env c a s"
| "asset_exec sha env (WaSubmitHealth c a h l p u) s = submit_health sha env c a h l p u s"
| "asset_exec sha env (WaSubmitHealthBatch c rs) s = submit_health_batch sha env c rs s"
| "asset_exec sha env (WaSubmitPrice c a p src) s = submit_price sha env c a p src s"
| "asset_exec sha env (WaSubmitCalculated c a l p u m) s = submit_calculated_health sha env c a l p u m s"
| "asset_exec sha env (WaSubmitHealthSigned c a h l p u sig) s = submit_health_signed sha env c a h l p u sig s"
| "asset_exec sha env (WaSubmitPriceSigned c a p src sig) s = submit_price_signed sha env c a p src sig s"
| "asset_exec sha env (WaSubmitBatchSigned c rs sigs) s = submit_health_batch_signed sha env c rs sigs s"
| "asset_exec sha env (WaVerifySignature m sig) s = state_of (verify_signature sha env m sig s)"
| "asset_exec sha env (WaVerifyMultiSig m sigs) s = state_of (verify_multi_sig sha env m sigs s)"
| "asset_exec sha env (WaRegisterSigner c i k) s = register_signer env c i k s"
| "asset_exec sha env (WaRemoveSigner c i) s = remove_signer_watch env c i s"
| "asset_exec sha env (WaSetThreshold c n) s = set_signature_threshold env c n s"
| "asset_exec sha env (WaSetRateLimit c w n) s = set_rate_limit_config env c w n s"
| "asset_exec sha env (WaAddTrustedSource c x n) s = add_trusted_source env c x n s"
| "asset_exec sha env (WaDropTrustedSource c x) s = drop_trusted_source env c x s"
| "asset_exec sha env (WaRegisterHealthSource c i w) s = register_health_source env c i w s"
| "asset_exec sha env (WaRevokeHealthSource c i) s = revoke_health_source env c i s"
| "asset_exec sha env (WaSubmitMultiSource c i a h l p u) s = submit_health_multi_source env c i a h l p u s"
| "asset_exec sha env (WaSetHealthWeights c l p u v) s = set_health_weights sha env c l p u v s"
| "asset_exec sha env (WaSetRiskConfig c k) s = set_risk_score_config sha env c k s"

end
