(* ===== verification/Watch_Market.thy ===== *)
theory Watch_Market
  imports Watch_Assets Liquidity_Monitor
begin

text \<open>
  Market data, configuration and expiry of the watch contract (\<open>soroban/src/lib.rs\<close>): price
  deviation thresholds with their overrides and alerts, supply mismatches of bridges, liquidity
  depth of asset pairs, the versioned configuration store with its audit logs, stored statistics,
  expiration policies and the removal of expired records, and the pool wrappers over
  \<open>Liquidity_Monitor\<close>. \<open>market_state\<close> is the whole state of the contract.
\<close>

section \<open>Data\<close>

datatype deviation_severity = LowDeviation | MediumDeviation | HighDeviation

record deviation_alert =
  da_asset_code :: string
  da_current_price :: int
  da_average_price :: int
  da_deviation_bps :: int
  da_severity :: deviation_severity
  da_timestamp :: nat
  da_expires_at :: nat

record deviation_threshold =
  dt_low_bps :: int
  dt_medium_bps :: int
  dt_high_bps :: int

datatype threshold_override_mode = TemporaryOverride | PermanentOverride

record deviation_override =
  do_threshold :: deviation_threshold
  do_mode :: threshold_override_mode
  do_expires_at :: nat
  do_updated_by :: address
  do_updated_at :: nat

record mismatch_override =
  mo_threshold_bps :: int
  mo_mode :: threshold_override_mode
  mo_expires_at :: nat
  mo_updated_by :: address
  mo_updated_at :: nat

record cleanup_stats =
  ce_last_run_at :: nat
  ce_removed_records :: nat
  ce_trimmed_history_records :: nat
  ce_last_actor :: address

datatype stat_period = HourPeriod | DayPeriod | WeekPeriod | MonthPeriod

record statistics =
  sx_period :: stat_period
  sx_timestamp :: nat
  sx_health_avg :: nat
  sx_liquidity_avg :: nat
  sx_price_volatility :: nat
  sx_bridge_uptime :: nat

datatype config_category = ThresholdCategory | TimeoutsCategory | LimitsCategory

record config_value =
  cv_value :: int
  cv_description :: string

record config_entry =
  ce_category :: config_category
  ce_name :: string
  ce_value :: config_value
  ce_version :: nat
  ce_updated_at :: nat
  ce_updated_by :: address

record config_audit_entry =
  cq_old_value :: int
  cq_new_value :: int
  cq_version :: nat
  cq_changed_at :: nat
  cq_changed_by :: address

record bulk_config_update =
  bu_category :: config_category
  bu_name :: string
  bu_value :: int
  bu_description :: string

record all_configs_export =
  ax_entries :: "config_entry list"
  ax_total :: nat
  ax_exported_at :: nat

type_synonym config_key = "config_category \<times> string"

record market_state = asset_state +
  wm_config_entry :: "config_key \<rightharpoonup> config_entry"
  wm_config_keys :: "config_key list option"
  wm_config_audit :: "config_key \<rightharpoonup> config_audit_entry list"
  wm_deviation_threshold :: "string \<rightharpoonup> deviation_threshold"
  wm_deviation_override :: "string \<rightharpoonup> deviation_override"
  wm_deviation_alert :: "string \<rightharpoonup> deviation_alert"
  wm_mismatch_threshold :: "int option"
  wm_mismatch_override :: "string \<rightharpoonup> mismatch_override"
  wm_liquidity_depth :: "string \<rightharpoonup> pair_depth"
  wm_statistics :: "string \<rightharpoonup> statistics list"
  wm_expiration_ttl :: "string \<rightharpoonup> nat"
  wm_cleanup_stats :: "cleanup_stats option"
  wm_pools :: liquidity_state

section \<open>The configuration store\<close>

text \<open>Both audit logs keep their last 50 entries: \<open>while audit_log.len() > 50\<close> drops the oldest.\<close>

fun trim_audit :: "config_audit_entry list \<Rightarrow> config_audit_entry list" where
  "trim_audit [] = []"
| "trim_audit (x # xs) = (if 50 < length (x # xs) then trim_audit xs else x # xs)"

definition push_audit :: "config_key \<Rightarrow> config_audit_entry \<Rightarrow> 'z market_state_scheme \<Rightarrow> 'z market_state_scheme" where
  "push_audit key rec s =
     s\<lparr> wm_config_audit := (wm_config_audit s)(key \<mapsto> trim_audit (unwrap_or (wm_config_audit s key) [] @ [rec])) \<rparr>"

definition config_admin_guard :: "'z core_state_scheme \<Rightarrow> address \<Rightarrow> string \<Rightarrow> unit wres" where
  "config_admin_guard s caller msg =
     and_then (unwrap (ac_admin s)) (\<lambda>admin.
     ensure (\<not> (caller \<noteq> admin \<and> \<not> admin_has_role s caller SuperAdminRole)) (Panic msg))"

definition validate_config :: "config_category \<Rightarrow> string \<Rightarrow> int \<Rightarrow> string \<Rightarrow> unit wres" where
  "validate_config category name v description =
     and_then (ensure (name \<noteq> []) (Panic ''config: name must not be empty'')) (\<lambda>_.
     and_then (ensure (\<not> 64 < length name) (Panic ''config: name too long'')) (\<lambda>_.
     and_then (ensure (description \<noteq> []) (Panic ''config: description must not be empty'')) (\<lambda>_.
     and_then (ensure (\<not> 256 < length description) (Panic ''config: description too long'')) (\<lambda>_.
     case category of
       ThresholdCategory \<Rightarrow> ensure (\<not> v < 0) (Panic ''config: threshold value must be at least 0'')
     | TimeoutsCategory \<Rightarrow> ensure (\<not> v < 1) (Panic ''config: timeout value must be at least 1 second'')
     | LimitsCategory \<Rightarrow> ensure (\<not> v < 1) (Panic ''config: limit value must be at least 1'')))))"

definition set_config_internal :: "env \<Rightarrow> address \<Rightarrow> config_category \<Rightarrow> string \<Rightarrow> int \<Rightarrow> string
    \<Rightarrow> 'z market_state_scheme \<Rightarrow> 'z market_state_scheme wres" where
  "set_config_internal env caller category name v description s =
     and_then (assert_not_globally_paused s) (\<lambda>_.
     and_then (check_no_pending_transfer env s) (\<lambda>_.
     and_then (config_admin_guard s caller ''unauthorized: only admin may modify configuration'') (\<lambda>_.
     and_then (validate_config category name v description) (\<lambda>_.
     and_then (case wm_config_entry s (category, name) of
                 Some old \<Rightarrow> and_then (add_u32 (ce_version old) 1) (\<lambda>n. Inr (cv_value (ce_value old), n))
               | None \<Rightarrow> Inr (0, 1)) (\<lambda>(old_value, version).
     let rec = \<lparr> ce_category = category, ce_name = name, ce_value = \<lparr> cv_value = v, cv_description = description \<rparr>,
                   ce_version = version, ce_updated_at = timestamp env, ce_updated_by = caller \<rparr>;
         keys = unwrap_or (wm_config_keys s) []
     in Inr (push_audit (category, name) \<lparr> cq_old_value = old_value, cq_new_value = v, cq_version = version,
               cq_changed_at = timestamp env, cq_changed_by = caller \<rparr>
          (s\<lparr> wm_config_entry := (wm_config_entry s)((category, name) \<mapsto> rec),
             wm_config_keys := (if list_ex (\<lambda>k. k = (category, name)) keys then wm_config_keys s
                                else Some (keys @ [(category, name)])) \<rparr>)))))))"

definition set_config :: "env \<Rightarrow> address \<Rightarrow> config_category \<Rightarrow> string \<Rightarrow> int \<Rightarrow> string
    \<Rightarrow> 'z market_state_scheme \<Rightarrow> 'z market_state_scheme wres" where
  "set_config env caller category name v description s =
     and_then (require_auth env caller) (\<lambda>_. set_config_internal env caller category name v description s)"

definition get_all_configs :: "env \<Rightarrow> 'z market_state_scheme \<Rightarrow> all_configs_export" where
  "get_all_configs env s =
     (let entries = List.map_filter (wm_config_entry s) (unwrap_or (wm_config_keys s) [])
      in \<lparr> ax_entries = entries, ax_total = length entries, ax_exported_at = timestamp env \<rparr>)"

definition get_config_audit_log :: "config_category \<Rightarrow> string \<Rightarrow> 'z market_state_scheme \<Rightarrow> config_audit_entry list" where
  "get_config_audit_log category name s = unwrap_or (wm_config_audit s (category, name)) []"

fun apply_updates :: "env \<Rightarrow> address \<Rightarrow> bulk_config_update list \<Rightarrow> 'z market_state_scheme \<Rightarrow> 'z market_state_scheme wres" where
  "apply_updates env caller [] s = Inr s"
| "apply_updates env caller (u # us) s =
     and_then (set_config_internal env caller (bu_category u) (bu_name u) (bu_value u) (bu_description u) s)
       (apply_updates env caller us)"

definition set_config_bulk :: "env \<Rightarrow> address \<Rightarrow> bulk_config_update list \<Rightarrow> 'z market_state_scheme \<Rightarrow> 'z market_state_scheme wres" where
  "set_config_bulk env caller updates s =
     and_then (require_auth env caller) (\<lambda>_.
     and_then (assert_not_globally_paused s) (\<lambda>_.
     and_then (check_no_pending_transfer env s) (\<lambda>_.
     and_then (config_admin_guard s caller ''unauthorized: only admin may modify configuration'') (\<lambda>_.
     and_then (ensure (updates \<noteq> []) (Panic ''config: bulk update list must not be empty'')) (\<lambda>_.
     and_then (ensure (\<not> 20 < length updates) (Panic ''config: bulk update list must contain at most 20 items'')) (\<lambda>_.
     apply_updates env caller updates s))))))"

definition default_configs :: "(config_category \<times> string \<times> int \<times> string) list" where
  "default_configs =
     [(ThresholdCategory, ''health_score_min'', 50, ''Minimum acceptable composite health score (0-100)''),
      (ThresholdCategory, ''price_deviation_low_bps'', 200, ''Low-severity price deviation trigger in basis points (default 2%)''),
      (ThresholdCategory, ''price_deviation_medium_bps'', 500, ''Medium-severity price deviation trigger in basis points (default 5%)''),
      (ThresholdCategory, ''price_deviation_high_bps'', 1000, ''High-severity price deviation trigger in basis points (default 10%)''),
      (ThresholdCategory, ''supply_mismatch_bps'', 10, ''Critical supply mismatch threshold in basis points (default 0.1%)''),
      (TimeoutsCategory, ''price_staleness_seconds'', 3600, ''Age in seconds after which a price record is considered stale''),
      (TimeoutsCategory, ''health_staleness_seconds'', 3600, ''Age in seconds after which a health score is considered stale''),
      (TimeoutsCategory, ''pause_timelock_seconds'', 300, ''Minimum seconds that must elapse before an emergency pause can be lifted''),
      (TimeoutsCategory, ''admin_transfer_timeout'', 86400, ''Seconds until a pending admin transfer proposal expires automatically''),
      (LimitsCategory, ''max_monitored_assets'', 100, ''Maximum number of assets that may be registered simultaneously''),
      (LimitsCategory, ''max_batch_size'', 50, ''Maximum number of records in a single batch submit call''),
      (LimitsCategory, ''max_signers'', 20, ''Maximum number of registered signers allowed at one time''),
      (LimitsCategory, ''max_price_history'', 100, ''Maximum number of historical price records retained per asset'')]"

fun seed_configs :: "env \<Rightarrow> address \<Rightarrow> (config_category \<times> string \<times> int \<times> string) list
    \<Rightarrow> 'z market_state_scheme \<Rightarrow> 'z market_state_scheme wres" where
  "seed_configs env caller [] s = Inr s"
| "seed_configs env caller ((category, name, v, description) # rest) s =
     and_then (if wm_config_entry s (category, name) = None
               then set_config_internal env caller category name v description s else Inr s)
       (seed_configs env caller rest)"

definition init_default_config :: "env \<Rightarrow> address \<Rightarrow> 'z market_state_scheme \<Rightarrow> 'z market_state_scheme wres" where
  "init_default_config env caller s =
     and_then (require_auth env caller) (\<lambda>_.
     and_then (assert_not_globally_paused s) (\<lambda>_.
     and_then (config_admin_guard s caller ''unauthorized: only admin may initialise default config'') (\<lambda>_.
     seed_configs env caller default_configs s)))"

section \<open>Price deviation\<close>

definition default_deviation_threshold :: deviation_threshold where
  "default_deviation_threshold = \<lparr> dt_low_bps = 200, dt_medium_bps = 500, dt_high_bps = 1000 \<rparr>"

text \<open>The admin-only setters: the admin's own signature, behind the pause and a pending transfer.\<close>

definition signed_by_admin :: "env \<Rightarrow> 'z core_state_scheme \<Rightarrow> unit wres" where
  "signed_by_admin env s =
     and_then (assert_not_globally_paused s) (\<lambda>_.
     and_then (unwrap (ac_admin s)) (\<lambda>admin.
     and_then (require_auth env admin) (\<lambda>_.
     check_no_pending_transfer env s)))"

definition set_deviation_threshold :: "env \<Rightarrow> string \<Rightarrow> int \<Rightarrow> int \<Rightarrow> int \<Rightarrow> 'z market_state_scheme \<Rightarrow> 'z market_state_scheme wres" where
  "set_deviation_threshold env code low medium high s =
     and_then (signed_by_admin env s) (\<lambda>_.
     Inr (s\<lparr> wm_deviation_threshold := (wm_deviation_threshold s)(code \<mapsto>
       \<lparr> dt_low_bps = low, dt_medium_bps = medium, dt_high_bps = high \<rparr>) \<rparr>))"

definition validate_deviation_threshold_range :: "int \<Rightarrow> int \<Rightarrow> int \<Rightarrow> unit wres" where
  "validate_deviation_threshold_range low medium high =
     and_then (ensure (\<not> low \<le> 0) (Panic ''low_bps must be greater than zero'')) (\<lambda>_.
     and_then (ensure (\<not> medium \<le> low) (Panic ''medium_bps must be greater than low_bps'')) (\<lambda>_.
     ensure (\<not> high \<le> medium) (Panic ''high_bps must be greater than medium_bps'')))"

definition validate_mismatch_threshold_value :: "int \<Rightarrow> unit wres" where
  "validate_mismatch_threshold_value v = ensure (\<not> v \<le> 0) (Panic ''mismatch threshold must be greater than zero'')"

definition resolve_override_expiration :: "nat \<Rightarrow> threshold_override_mode \<Rightarrow> nat option \<Rightarrow> nat wres" where
  "resolve_override_expiration now mode expires_at = (case mode of
     PermanentOverride \<Rightarrow> and_then (ensure (expires_at = None) (Panic ''permanent override must not include expires_at'')) (\<lambda>_. Inr 0)
   | TemporaryOverride \<Rightarrow>
       and_then (ok_or expires_at (Panic ''temporary override requires expires_at'')) (\<lambda>v.
       and_then (ensure (\<not> v \<le> now) (Panic ''temporary override expires_at must be in the future'')) (\<lambda>_. Inr v)))"

text \<open>The audit log of an override lives under its own name in the category of the thresholds.\<close>

definition override_audit_name :: "string \<Rightarrow> string \<Rightarrow> string wres" where
  "override_audit_name start code =
     and_then (ensure (\<not> 256 < length code) (Panic ''asset code too long'')) (\<lambda>_. Inr (start @ code))"

definition append_threshold_override_audit :: "env \<Rightarrow> string \<Rightarrow> int \<Rightarrow> int \<Rightarrow> address
    \<Rightarrow> 'z market_state_scheme \<Rightarrow> 'z market_state_scheme wres" where
  "append_threshold_override_audit env name old_value new_value caller s =
     (let log = unwrap_or (wm_config_audit s (ThresholdCategory, name)) [] in
      and_then (if log = [] then Inr 1 else add_u32 (cq_version (log ! (length log - 1))) 1) (\<lambda>version.
      Inr (push_audit (ThresholdCategory, name) \<lparr> cq_old_value = old_value, cq_new_value = new_value, cq_version = version,
             cq_changed_at = timestamp env, cq_changed_by = caller \<rparr> s)))"

definition set_deviation_threshold_override :: "env \<Rightarrow> address \<Rightarrow> string \<Rightarrow> int \<Rightarrow> int \<Rightarrow> int \<Rightarrow> threshold_override_mode \<Rightarrow> nat option
    \<Rightarrow> 'z market_state_scheme \<Rightarrow> 'z market_state_scheme wres" where
  "set_deviation_threshold_override env caller code low medium high mode expires_at s =
     and_then (manage_config_guard env s caller) (\<lambda>_.
     and_then (validate_deviation_threshold_range low medium high) (\<lambda>_.
     and_then (resolve_override_expiration (timestamp env) mode expires_at) (\<lambda>expires.
     let old_high = (case wm_deviation_override s code of None \<Rightarrow> 0 | Some x \<Rightarrow> dt_high_bps (do_threshold x));
         rec = \<lparr> do_threshold = \<lparr> dt_low_bps = low, dt_medium_bps = medium, dt_high_bps = high \<rparr>, do_mode = mode,
                 do_expires_at = expires, do_updated_by = caller, do_updated_at = timestamp env \<rparr>
     in and_then (override_audit_name ''deviation_override_'' code) (\<lambda>name.
        append_threshold_override_audit env name old_high high caller
          (s\<lparr> wm_deviation_override := (wm_deviation_override s)(code \<mapsto> rec) \<rparr>)))))"

definition clear_dev_threshold_override :: "env \<Rightarrow> address \<Rightarrow> string \<Rightarrow> 'z market_state_scheme \<Rightarrow> 'z market_state_scheme wres" where
  "clear_dev_threshold_override env caller code s =
     and_then (manage_config_guard env s caller) (\<lambda>_.
     let old_high = (case wm_deviation_override s code of None \<Rightarrow> 0 | Some x \<Rightarrow> dt_high_bps (do_threshold x))
     in and_then (override_audit_name ''deviation_override_'' code) (\<lambda>name.
        append_threshold_override_audit env name old_high 0 caller
          (s\<lparr> wm_deviation_override := (wm_deviation_override s)(code := None) \<rparr>)))"

text \<open>Loading an override removes it once it has expired.\<close>

definition load_active_deviation_threshold_override :: "env \<Rightarrow> string \<Rightarrow> 'z market_state_scheme
    \<Rightarrow> deviation_override option \<times> 'z market_state_scheme" where
  "load_active_deviation_threshold_override env code s = (case wm_deviation_override s code of
     None \<Rightarrow> (None, s)
   | Some x \<Rightarrow> if do_mode x = TemporaryOverride \<and> do_expires_at x \<noteq> 0 \<and> do_expires_at x \<le> timestamp env
       then (None, s\<lparr> wm_deviation_override := (wm_deviation_override s)(code := None) \<rparr>) else (Some x, s))"

definition load_active_mismatch_threshold_override :: "env \<Rightarrow> string \<Rightarrow> 'z market_state_scheme
    \<Rightarrow> mismatch_override option \<times> 'z market_state_scheme" where
  "load_active_mismatch_threshold_override env code s = (case wm_mismatch_override s code of
     None \<Rightarrow> (None, s)
   | Some x \<Rightarrow> if mo_mode x = TemporaryOverride \<and> mo_expires_at x \<noteq> 0 \<and> mo_expires_at x \<le> timestamp env
       then (None, s\<lparr> wm_mismatch_override := (wm_mismatch_override s)(code := None) \<rparr>) else (Some x, s))"

definition resolve_deviation_threshold :: "env \<Rightarrow> string \<Rightarrow> 'z market_state_scheme \<Rightarrow> deviation_threshold \<times> 'z market_state_scheme" where
  "resolve_deviation_threshold env code s = (case load_active_deviation_threshold_override env code s of
     (Some x, s1) \<Rightarrow> (do_threshold x, s1)
   | (None, s1) \<Rightarrow> (unwrap_or (wm_deviation_threshold s1 code) default_deviation_threshold, s1))"

definition resolve_mismatch_threshold_bps :: "env \<Rightarrow> string \<Rightarrow> 'z market_state_scheme \<Rightarrow> int \<times> 'z market_state_scheme" where
  "resolve_mismatch_threshold_bps env code s = (case load_active_mismatch_threshold_override env code s of
     (Some x, s1) \<Rightarrow> (mo_threshold_bps x, s1)
   | (None, s1) \<Rightarrow> (unwrap_or (wm_mismatch_threshold s1) 10, s1))"

definition deviation_severity_of :: "deviation_threshold \<Rightarrow> int \<Rightarrow> deviation_severity option" where
  "deviation_severity_of t bps =
     (if dt_high_bps t < bps then Some HighDeviation else if dt_medium_bps t < bps then Some MediumDeviation
      else if dt_low_bps t < bps then Some LowDeviation else None)"

text \<open>The difference of two amounts relative to the second, in basis points.\<close>

definition relative_bps :: "int \<Rightarrow> int \<Rightarrow> int wres" where
  "relative_bps x base =
     and_then (if base < x then sub_i128 x base else sub_i128 base x) (\<lambda>diff.
     and_then (mul_i128 diff 10000) (\<lambda>m. div_i128 m base))"

definition check_price_deviation :: "env \<Rightarrow> string \<Rightarrow> int \<Rightarrow> 'z market_state_scheme
    \<Rightarrow> (deviation_alert option \<times> 'z market_state_scheme) wres" where
  "check_price_deviation env code current s = (case va_price s code of
     None \<Rightarrow> Inr (None, s)
   | Some reference \<Rightarrow>
       let average = pr_price reference in
       if average = 0 then Inr (None, s)
       else and_then (relative_bps current average) (\<lambda>bps.
            let (threshold, s1) = resolve_deviation_threshold env code s
            in case deviation_severity_of threshold bps of
                 None \<Rightarrow> Inr (None, s1)
               | Some severity \<Rightarrow>
                   let alert = \<lparr> da_asset_code = code, da_current_price = current, da_average_price = average,
                                 da_deviation_bps = bps, da_severity = severity, da_timestamp = timestamp env,
                                 da_expires_at = resolve_expiration s1 code DeviationKind (timestamp env) \<rparr>
                   in Inr (Some alert, s1\<lparr> wm_deviation_alert := (wm_deviation_alert s1)(code \<mapsto> alert) \<rparr>)))"

section \<open>Supply mismatches\<close>

definition set_mismatch_threshold :: "env \<Rightarrow> int \<Rightarrow> 'z market_state_scheme \<Rightarrow> 'z market_state_scheme wres" where
  "set_mismatch_threshold env v s =
     and_then (signed_by_admin env s) (\<lambda>_. Inr (s\<lparr> wm_mismatch_threshold := Some v \<rparr>))"

definition set_mismatch_threshold_override :: "env \<Rightarrow> address \<Rightarrow> string \<Rightarrow> int \<Rightarrow> threshold_override_mode \<Rightarrow> nat option
    \<Rightarrow> 'z market_state_scheme \<Rightarrow> 'z market_state_scheme wres" where
  "set_mismatch_threshold_override env caller code v mode expires_at s =
     and_then (manage_config_guard env s caller) (\<lambda>_.
     and_then (validate_mismatch_threshold_value v) (\<lambda>_.
     and_then (resolve_override_expiration (timestamp env) mode expires_at) (\<lambda>expires.
     let old_value = (case wm_mismatch_override s code of None \<Rightarrow> 0 | Some x \<Rightarrow> mo_threshold_bps x);
         rec = \<lparr> mo_threshold_bps = v, mo_mode = mode, mo_expires_at = expires, mo_updated_by = caller,
                 mo_updated_at = timestamp env \<rparr>
     in and_then (override_audit_name ''mismatch_override_'' code) (\<lambda>name.
        append_threshold_override_audit env name old_value v caller
          (s\<lparr> wm_mismatch_override := (wm_mismatch_override s)(code \<mapsto> rec) \<rparr>)))))"

definition clear_mm_threshold_override :: "env \<Rightarrow> address \<Rightarrow> string \<Rightarrow> 'z market_state_scheme \<Rightarrow> 'z market_state_scheme wres" where
  "clear_mm_threshold_override env caller code s =
     and_then (manage_config_guard env s caller) (\<lambda>_.
     let old_value = (case wm_mismatch_override s code of None \<Rightarrow> 0 | Some x \<Rightarrow> mo_threshold_bps x)
     in and_then (override_audit_name ''mismatch_override_'' code) (\<lambda>name.
        append_threshold_override_audit env name old_value 0 caller
          (s\<lparr> wm_mismatch_override := (wm_mismatch_override s)(code := None) \<rparr>)))"

text \<open>The keys seen so far: appended when they are new.\<close>

definition track_key :: "string \<Rightarrow> string list option \<Rightarrow> string list option" where
  "track_key x keys = (let ks = unwrap_or keys [] in if list_ex (\<lambda>k. k = x) ks then keys else Some (ks @ [x]))"

definition record_supply_mismatch :: "env \<Rightarrow> string \<Rightarrow> string \<Rightarrow> int \<Rightarrow> int \<Rightarrow> 'z market_state_scheme \<Rightarrow> 'z market_state_scheme wres" where
  "record_supply_mismatch env bridge code stellar source s =
     and_then (assert_not_globally_paused s) (\<lambda>_.
     and_then (unwrap (ac_admin s)) (\<lambda>admin.
     and_then (require_auth env admin) (\<lambda>_.
     and_then (enforce_rate_limit env admin s) (\<lambda>s.
     and_then (if 0 < source then relative_bps stellar source else Inr 0) (\<lambda>bps.
     let (threshold, s1) = resolve_mismatch_threshold_bps env code s;
         rec = \<lparr> sm_bridge_id = bridge, sm_asset_code = code, sm_stellar_supply = stellar, sm_source_chain_supply = source,
                 sm_mismatch_bps = bps, sm_is_critical = (threshold \<le> bps), sm_timestamp = timestamp env,
                 sm_expires_at = resolve_expiration s1 bridge MismatchKind (timestamp env) \<rparr>
     in maybe_trigger_auto_cleanup env
          (s1\<lparr> va_mismatches := (va_mismatches s1)(bridge \<mapsto> unwrap_or (va_mismatches s1 bridge) [] @ [rec]),
              va_bridge_ids := track_key bridge (va_bridge_ids s1) \<rparr>))))))"

definition get_critical_mismatches :: "'z vault_state_scheme \<Rightarrow> supply_mismatch list" where
  "get_critical_mismatches s =
     concat (map (\<lambda>b. filter sm_is_critical (unwrap_or (va_mismatches s b) [])) (unwrap_or (va_bridge_ids s) []))"

section \<open>Liquidity depth\<close>

definition is_supported_liquidity_pair :: "string \<Rightarrow> bool" where
  "is_supported_liquidity_pair pair = (pair = ''USDC/XLM'' \<or> pair = ''EURC/XLM'' \<or> pair = ''PYUSD/XLM'' \<or> pair = ''FOBXX/USDC'')"

definition validate_liquidity_depth_input :: "string \<Rightarrow> int \<Rightarrow> int \<Rightarrow> int \<Rightarrow> int \<Rightarrow> int \<Rightarrow> string list \<Rightarrow> unit wres" where
  "validate_liquidity_depth_input pair liquidity d01 d05 d1 d5 sources =
     and_then (ensure (is_supported_liquidity_pair pair) (Panic ''unsupported asset pair'')) (\<lambda>_.
     and_then (ensure (\<not> (liquidity < 0 \<or> d01 < 0 \<or> d05 < 0 \<or> d1 < 0 \<or> d5 < 0)) (Panic ''liquidity values must be non-negative'')) (\<lambda>_.
     and_then (ensure (sources \<noteq> []) (Panic ''at least one liquidity source is required'')) (\<lambda>_.
     and_then (ensure (\<not> (d05 < d01 \<or> d1 < d05 \<or> d5 < d1)) (Panic ''liquidity depth levels must be non-decreasing'')) (\<lambda>_.
     ensure (\<not> liquidity < d5) (Panic ''liquidity depth cannot exceed total liquidity'')))))"

definition record_liquidity_depth :: "env \<Rightarrow> string \<Rightarrow> int \<Rightarrow> int \<Rightarrow> int \<Rightarrow> int \<Rightarrow> int \<Rightarrow> string list
    \<Rightarrow> 'z market_state_scheme \<Rightarrow> 'z market_state_scheme wres" where
  "record_liquidity_depth env pair liquidity d01 d05 d1 d5 sources s =
     and_then (assert_not_globally_paused s) (\<lambda>_.
     and_then (unwrap (ac_admin s)) (\<lambda>admin.
     and_then (require_auth env admin) (\<lambda>_.
     and_then (enforce_rate_limit env admin s) (\<lambda>s.
     and_then (validate_liquidity_depth_input pair liquidity d01 d05 d1 d5 sources) (\<lambda>_.
     let rec = \<lparr> pd_asset_pair = pair, pd_total_liquidity = liquidity, pd_depth_0_1_pct = d01, pd_depth_0_5_pct = d05,
                 pd_depth_1_pct = d1, pd_depth_5_pct = d5, pd_sources = sources, pd_timestamp = timestamp env,
                 pd_expires_at = resolve_expiration s pair LiquidityKind (timestamp env) \<rparr>
     in maybe_trigger_auto_cleanup env
          (s\<lparr> wm_liquidity_depth := (wm_liquidity_depth s)(pair \<mapsto> rec),
             va_liquidity_history := (va_liquidity_history s)(pair \<mapsto> unwrap_or (va_liquidity_history s pair) [] @ [rec]),
             va_liquidity_pairs := track_key pair (va_liquidity_pairs s) \<rparr>))))))"

definition get_liquidity_history :: "string \<Rightarrow> nat \<Rightarrow> nat \<Rightarrow> 'z vault_state_scheme \<Rightarrow> pair_depth list" where
  "get_liquidity_history pair from_ts to_ts s =
     filter (\<lambda>x. from_ts \<le> pd_timestamp x \<and> pd_timestamp x \<le> to_ts) (unwrap_or (va_liquidity_history s pair) [])"

definition get_all_liquidity_depths :: "'z market_state_scheme \<Rightarrow> pair_depth list" where
  "get_all_liquidity_depths s = List.map_filter (wm_liquidity_depth s) (unwrap_or (va_liquidity_pairs s) [])"

section \<open>Expiration policies and the removal of expired records\<close>

definition require_admin_or_super :: "env \<Rightarrow> 'z core_state_scheme \<Rightarrow> address \<Rightarrow> string \<Rightarrow> unit wres" where
  "require_admin_or_super env s caller msg =
     and_then (require_auth env caller) (\<lambda>_.
     and_then (unwrap (ac_admin s)) (\<lambda>admin.
     ensure (caller = admin \<or> admin_has_role s caller SuperAdminRole) (Panic msg)))"

definition set_expiration_policy :: "env \<Rightarrow> address \<Rightarrow> expiration_policy \<Rightarrow> 'z market_state_scheme \<Rightarrow> 'z market_state_scheme wres" where
  "set_expiration_policy env caller policy s =
     and_then (require_admin_or_super env s caller ''only admin or SuperAdmin can set expiration policy'') (\<lambda>_.
     and_then (ensure (xp_version policy \<noteq> 0) (Panic ''expiration policy version must be greater than 0'')) (\<lambda>_.
     Inr (s\<lparr> wa_expiration_policy := Some policy \<rparr>)))"

definition set_asset_expiration_ttl :: "env \<Rightarrow> address \<Rightarrow> string \<Rightarrow> nat \<Rightarrow> 'z market_state_scheme \<Rightarrow> 'z market_state_scheme wres" where
  "set_asset_expiration_ttl env caller code ttl s =
     and_then (require_admin_or_super env s caller ''only admin or SuperAdmin can set asset expiration ttl'') (\<lambda>_.
     Inr (s\<lparr> wm_expiration_ttl := (wm_expiration_ttl s)(code \<mapsto> ttl) \<rparr>))"

text \<open>\<open>extend_expiration\<close>: the four current records of an asset, each from its expiry or from now.\<close>

definition extended :: "nat \<Rightarrow> nat \<Rightarrow> nat \<Rightarrow> nat wres" where
  "extended now extra current = (if now < current then add_u64 current extra else add_u64 now extra)"

definition extend_health :: "nat \<Rightarrow> nat \<Rightarrow> string \<Rightarrow> 'z market_state_scheme \<Rightarrow> 'z market_state_scheme wres" where
  "extend_health now extra code s = (case va_health s code of None \<Rightarrow> Inr s
     | Some r \<Rightarrow> and_then (extended now extra (ah_expires_at r)) (\<lambda>t.
         Inr (s\<lparr> va_health := (va_health s)(code \<mapsto> r\<lparr> ah_expires_at := t \<rparr>) \<rparr>)))"

definition extend_price :: "nat \<Rightarrow> nat \<Rightarrow> string \<Rightarrow> 'z market_state_scheme \<Rightarrow> 'z market_state_scheme wres" where
  "extend_price now extra code s = (case va_price s code of None \<Rightarrow> Inr s
     | Some r \<Rightarrow> and_then (extended now extra (pr_expires_at r)) (\<lambda>t.
         Inr (s\<lparr> va_price := (va_price s)(code \<mapsto> r\<lparr> pr_expires_at := t \<rparr>) \<rparr>)))"

definition extend_alert :: "nat \<Rightarrow> nat \<Rightarrow> string \<Rightarrow> 'z market_state_scheme \<Rightarrow> 'z market_state_scheme wres" where
  "extend_alert now extra code s = (case wm_deviation_alert s code of None \<Rightarrow> Inr s
     | Some r \<Rightarrow> and_then (extended now extra (da_expires_at r)) (\<lambda>t.
         Inr (s\<lparr> wm_deviation_alert := (wm_deviation_alert s)(code \<mapsto> r\<lparr> da_expires_at := t \<rparr>) \<rparr>)))"

definition extend_result :: "nat \<Rightarrow> nat \<Rightarrow> string \<Rightarrow> 'z market_state_scheme \<Rightarrow> 'z market_state_scheme wres" where
  "extend_result now extra code s = (case va_health_result s code of None \<Rightarrow> Inr s
     | Some r \<Rightarrow> and_then (extended now extra (hr_expires_at r)) (\<lambda>t.
         Inr (s\<lparr> va_health_result := (va_health_result s)(code \<mapsto> r\<lparr> hr_expires_at := t \<rparr>) \<rparr>)))"

definition extend_expiration :: "env \<Rightarrow> address \<Rightarrow> string \<Rightarrow> nat \<Rightarrow> 'z market_state_scheme \<Rightarrow> 'z market_state_scheme wres" where
  "extend_expiration env caller code extra s =
     and_then (check_permission env s caller AssetManager) (\<lambda>_.
     and_then (extend_health (timestamp env) extra code s) (\<lambda>s1.
     and_then (extend_price (timestamp env) extra code s1) (\<lambda>s2.
     and_then (extend_alert (timestamp env) extra code s2) (\<lambda>s3.
     extend_result (timestamp env) extra code s3))))"

definition is_past :: "nat \<Rightarrow> nat \<Rightarrow> bool" where
  "is_past now expires_at = (expires_at < now)"

text \<open>The loop over a history: what has not expired, or its last entry when all has and the policy
  preserves it; the trimmed entries are counted in a \<open>u32\<close>.\<close>

definition trim_history :: "bool \<Rightarrow> ('a \<Rightarrow> bool) \<Rightarrow> 'a list \<Rightarrow> nat \<Rightarrow> ('a list \<times> nat) wres" where
  "trim_history preserve past history trimmed =
     (let filtered = filter (\<lambda>x. \<not> past x) history in
      and_then (add_u32 trimmed (length history - length filtered)) (\<lambda>t.
      Inr (if filtered = [] \<and> history \<noteq> [] \<and> preserve then ([history ! (length history - 1)], t - 1) else (filtered, t))))"

text \<open>A current record goes when it has expired; every record but the first of an asset also needs
  budget left.\<close>

definition drop_if :: "bool \<Rightarrow> 'a option \<Rightarrow> nat \<Rightarrow> 'a option \<times> nat" where
  "drop_if c r removed = (if c \<and> r \<noteq> None then (None, removed + 1) else (r, removed))"

definition past_record :: "nat \<Rightarrow> ('a \<Rightarrow> nat) \<Rightarrow> 'a option \<Rightarrow> bool" where
  "past_record now expiry r = (case r of None \<Rightarrow> False | Some x \<Rightarrow> is_past now (expiry x))"

definition expire_asset :: "nat \<Rightarrow> bool \<Rightarrow> nat \<Rightarrow> string \<Rightarrow> 'z market_state_scheme \<times> nat \<times> nat
    \<Rightarrow> ('z market_state_scheme \<times> nat \<times> nat) wres" where
  "expire_asset now preserve max_records code = (\<lambda>(s, removed, trimmed).
     let (h, n1) = drop_if (past_record now ah_expires_at (va_health s code)) (va_health s code) removed;
         (p, n2) = drop_if (n1 < max_records \<and> past_record now pr_expires_at (va_price s code)) (va_price s code) n1;
         (d, n3) = drop_if (n2 < max_records \<and> past_record now da_expires_at (wm_deviation_alert s code)) (wm_deviation_alert s code) n2;
         (r, n4) = drop_if (n3 < max_records \<and> past_record now hr_expires_at (va_health_result s code)) (va_health_result s code) n3
     in and_then (trim_history preserve (\<lambda>x. is_past now (pr_expires_at x)) (unwrap_or (wa_price_history s code) []) trimmed) (\<lambda>(hist, t).
        Inr (s\<lparr> va_health := (va_health s)(code := h), va_price := (va_price s)(code := p),
               wm_deviation_alert := (wm_deviation_alert s)(code := d), va_health_result := (va_health_result s)(code := r),
               wa_price_history := (wa_price_history s)(code \<mapsto> hist) \<rparr>, n4, t)))"

fun expire_assets :: "nat \<Rightarrow> bool \<Rightarrow> nat \<Rightarrow> string list \<Rightarrow> 'z market_state_scheme \<times> nat \<times> nat
    \<Rightarrow> ('z market_state_scheme \<times> nat \<times> nat) wres" where
  "expire_assets now preserve max_records [] acc = Inr acc"
| "expire_assets now preserve max_records (code # rest) acc =
     (if max_records \<le> fst (snd acc) then Inr acc
      else and_then (expire_asset now preserve max_records code acc) (expire_assets now preserve max_records rest))"

fun expire_bridges :: "nat \<Rightarrow> bool \<Rightarrow> string list \<Rightarrow> 'z market_state_scheme \<times> nat \<times> nat
    \<Rightarrow> ('z market_state_scheme \<times> nat \<times> nat) wres" where
  "expire_bridges now preserve [] acc = Inr acc"
| "expire_bridges now preserve (b # rest) (s, removed, trimmed) =
     and_then (trim_history preserve (\<lambda>x. is_past now (sm_expires_at x)) (unwrap_or (va_mismatches s b) []) trimmed) (\<lambda>(hist, t).
     expire_bridges now preserve rest (s\<lparr> va_mismatches := (va_mismatches s)(b \<mapsto> hist) \<rparr>, removed, t))"

fun expire_pairs :: "nat \<Rightarrow> bool \<Rightarrow> nat \<Rightarrow> string list \<Rightarrow> 'z market_state_scheme \<times> nat \<times> nat
    \<Rightarrow> ('z market_state_scheme \<times> nat \<times> nat) wres" where
  "expire_pairs now preserve max_records [] acc = Inr acc"
| "expire_pairs now preserve max_records (pair # rest) (s, removed, trimmed) =
     (let (d, n) = drop_if (removed < max_records \<and> past_record now pd_expires_at (wm_liquidity_depth s pair))
                     (wm_liquidity_depth s pair) removed
      in and_then (trim_history preserve (\<lambda>x. is_past now (pd_expires_at x)) (unwrap_or (va_liquidity_history s pair) []) trimmed) (\<lambda>(hist, t).
         expire_pairs now preserve max_records rest
           (s\<lparr> wm_liquidity_depth := (wm_liquidity_depth s)(pair := d),
              va_liquidity_history := (va_liquidity_history s)(pair \<mapsto> hist) \<rparr>, n, t)))"

definition cleanup_expired_data :: "env \<Rightarrow> address \<Rightarrow> nat \<Rightarrow> 'z market_state_scheme \<Rightarrow> (cleanup_stats \<times> 'z market_state_scheme) wres" where
  "cleanup_expired_data env caller max_records s =
     and_then (require_admin_or_super env s caller ''only admin or SuperAdmin can clean expired data'') (\<lambda>_.
     let now = timestamp env; preserve = xp_preserve_latest_history (load_expiration_policy s) in
     and_then (expire_assets now preserve max_records (load_registered_assets_raw s) (s, 0, 0)) (\<lambda>acc1.
     and_then (expire_bridges now preserve (unwrap_or (va_bridge_ids s) []) acc1) (\<lambda>acc2.
     and_then (expire_pairs now preserve max_records (unwrap_or (va_liquidity_pairs s) []) acc2) (\<lambda>(s3, removed, trimmed).
     let stats = \<lparr> ce_last_run_at = now, ce_removed_records = removed, ce_trimmed_history_records = trimmed, ce_last_actor = caller \<rparr>
     in Inr (stats, s3\<lparr> wm_cleanup_stats := Some stats \<rparr>)))))"

section \<open>Stored statistics\<close>

definition stat_period_secs :: "stat_period \<Rightarrow> nat" where
  "stat_period_secs p = (case p of HourPeriod \<Rightarrow> 3600 | DayPeriod \<Rightarrow> 86400 | WeekPeriod \<Rightarrow> 604800 | MonthPeriod \<Rightarrow> 2592000)"

definition collect_prices_for_period :: "env \<Rightarrow> string \<Rightarrow> nat \<Rightarrow> 'z asset_state_scheme \<Rightarrow> int list" where
  "collect_prices_for_period env code period_secs s =
     (let now = timestamp env; start_time = now - period_secs
      in map pr_price (filter (\<lambda>r. start_time \<le> pr_timestamp r \<and> pr_timestamp r \<le> now) (unwrap_or (wa_price_history s code) [])))"

definition get_asset_risk_score :: "env \<Rightarrow> string \<Rightarrow> stat_period \<Rightarrow> 'z market_state_scheme \<Rightarrow> risk_score_result option wres" where
  "get_asset_risk_score env code period s = (case va_health s code of
     None \<Rightarrow> Inr None
   | Some health \<Rightarrow>
       let secs = stat_period_secs period; prices = collect_prices_for_period env code secs s in
       and_then (calculate_latest_price_deviation_bps prices) (\<lambda>deviation.
       and_then (if length prices < 2 then Inr 0
                 else and_then (calculate_volatility prices secs) (\<lambda>v. Inr (clamp_i128_to_u32 v))) (\<lambda>volatility.
       and_then (build_risk_score_result env (load_risk_score_config s) (ah_health_score health) deviation volatility) (\<lambda>r.
       Inr (Some r)))))"

definition compute_statistics :: "env \<Rightarrow> address \<Rightarrow> string \<Rightarrow> stat_period \<Rightarrow> 'z market_state_scheme
    \<Rightarrow> (statistics \<times> 'z market_state_scheme) wres" where
  "compute_statistics env caller code period s =
     and_then (require_contract_admin env s caller ''only admin can compute statistics'') (\<lambda>_.
     let secs = stat_period_secs period; prices = collect_prices_for_period env code secs s in
     and_then (ensure (\<not> length prices < 2) (Panic ''insufficient data points for statistics'')) (\<lambda>_.
     and_then (calculate_average prices) (\<lambda>average.
     and_then (calculate_stddev prices) (\<lambda>stddev.
     and_then (calculate_volatility prices secs) (\<lambda>volatility.
     and_then (calculate_percentiles prices) (\<lambda>_.
     let stats = \<lparr> sx_period = period, sx_timestamp = timestamp env, sx_health_avg = 0, sx_liquidity_avg = 0,
                   sx_price_volatility = nat (volatility mod 2 ^ 32), sx_bridge_uptime = 0 \<rparr>
     in Inr (stats, s\<lparr> wm_statistics := (wm_statistics s)(code \<mapsto> unwrap_or (wm_statistics s code) [] @ [stats]) \<rparr>)))))))"

text \<open>The backward scan for the latest record of a period.\<close>

definition get_statistics :: "string \<Rightarrow> stat_period \<Rightarrow> 'z market_state_scheme \<Rightarrow> statistics option" where
  "get_statistics code period s = List.find (\<lambda>x. sx_period x = period) (rev (unwrap_or (wm_statistics s code) []))"

fun periodic_loop :: "env \<Rightarrow> address \<Rightarrow> string list \<Rightarrow> 'z market_state_scheme \<Rightarrow> 'z market_state_scheme wres" where
  "periodic_loop env caller [] s = Inr s"
| "periodic_loop env caller (code # rest) s =
     (if length (unwrap_or (wa_price_history s code) []) < 2 then periodic_loop env caller rest s
      else let due = (case get_statistics code DayPeriod s of Some x \<Rightarrow> 3600 \<le> timestamp env - sx_timestamp x | None \<Rightarrow> True)
           in if due then and_then (compute_statistics env caller code DayPeriod s) (\<lambda>(_, s1). periodic_loop env caller rest s1)
              else periodic_loop env caller rest s)"

definition trigger_periodic_stats :: "env \<Rightarrow> address \<Rightarrow> 'z market_state_scheme \<Rightarrow> 'z market_state_scheme wres" where
  "trigger_periodic_stats env caller s =
     and_then (require_contract_admin env s caller ''only admin can trigger periodic stats'') (\<lambda>_.
     and_then (get_monitored_assets s) (\<lambda>assets. periodic_loop env caller assets s))"

section \<open>Pools\<close>

definition watch_record_pool :: "env \<Rightarrow> string \<Rightarrow> int \<Rightarrow> int \<Rightarrow> int \<Rightarrow> int \<Rightarrow> int \<Rightarrow> pool_type
    \<Rightarrow> 'z market_state_scheme \<Rightarrow> 'z market_state_scheme wres" where
  "watch_record_pool env pid ra rb shares volume fees ty s =
     and_then (assert_not_globally_paused s) (\<lambda>_.
     and_then (unwrap (ac_admin s)) (\<lambda>admin.
     and_then (require_auth env admin) (\<lambda>_.
     and_then (enforce_rate_limit env admin s) (\<lambda>s.
     and_then (record_pool_state env pid ra rb shares volume fees ty (wm_pools s)) (\<lambda>(_, pools).
     Inr (s\<lparr> wm_pools := pools \<rparr>))))))"

section \<open>The entry points\<close>

datatype market_call =
    WmSetConfig address config_category string int string
  | WmSetConfigBulk address "bulk_config_update list"
  | WmInitConfig address
  | WmSetDeviationThreshold string int int int
  | WmSetDeviationOverride address string int int int threshold_override_mode "nat option"
  | WmClearDeviationOverride address string
  | WmGetDeviationOverride string
  | WmCheckDeviation string int
  | WmSetMismatchThreshold int
  | WmSetMismatchOverride address string int threshold_override_mode "nat option"
  | WmClearMismatchOverride address string
  | WmGetMismatchOverride string
  | WmRecordMismatch string string int int
  | WmRecordDepth string int int int int int "string list"
  | WmSetExpirationPolicy address expiration_policy
  | WmSetExpirationTtl address string nat
  | WmExtendExpiration address string nat
  | WmCleanupExpired address nat
  | WmComputeStatistics address string stat_period
  | WmTriggerStats address
  | WmRecordPool string int int int int int pool_type

fun market_exec :: "env \<Rightarrow> market_call \<Rightarrow> 'z market_state_scheme \<Rightarrow> 'z market_state_scheme wres" where
  "market_exec env (WmSetConfig c k n v d) s = set_config env c k n v d s"
| "market_exec env (WmSetConfigBulk c us) s = set_config_bulk env c us s"
| "market_exec env (WmInitConfig c) s = init_default_config env c s"
| "market_exec env (WmSetDeviationThreshold a l m h) s = set_deviation_threshold env a l m h s"
| "market_exec env (WmSetDeviationOverride c a l m h k e) s = set_deviation_threshold_override env c a l m h k e s"
| "market_exec env (WmClearDeviationOverride c a) s = clear_dev_threshold_override env c a s"
| "market_exec env (WmGetDeviationOverride a) s = Inr (snd (load_active_deviation_threshold_override env a s))"
| "market_exec env (WmCheckDeviation a p) s = state_of (check_price_deviation env a p s)"
| "market_exec env (WmSetMismatchThreshold v) s = set_mismatch_threshold env v s"
| "market_exec env (WmSetMismatchOverride c a v k e) s = set_mismatch_threshold_override env c a v k e s"
| "market_exec env (WmClearMismatchOverride c a) s = clear_mm_threshold_override env c a s"
| "market_exec env (WmGetMismatchOverride a) s = Inr (snd (load_active_mismatch_threshold_override env a s))"
| "market_exec env (WmRecordMismatch b a x y) s = record_supply_mismatch env b a x y s"
| "market_exec env (WmRecordDepth p l a b c d src) s = record_liquidity_depth env p l a b c d src s"
| "market_exec env (WmSetExpirationPolicy c p) s = set_expiration_policy env c p s"
| "market_exec env (WmSetExpirationTtl c a n) s = set_asset_expiration_ttl env c a n s"
| "market_exec env (WmExtendExpiration c a n) s = extend_expiration env c a n s"
| "market_exec env (WmCleanupExpired c n) s = state_of (cleanup_expired_data env c n s)"
| "market_exec env (WmComputeStatistics c a p) s = state_of (compute_statistics env c a p s)"
| "market_exec env (WmTriggerStats c) s = trigger_periodic_stats env c s"
| "market_exec env (WmRecordPool p a b sh v f t) s = watch_record_pool env p a b sh v f t s"

section \<open>The whole contract\<close>

datatype watch_call = AclCall acl_call | CoreCall core_call | VaultCall vault_call | AssetCall asset_call | MarketCall market_call

text \<open>\<open>initialize\<close> is the entry point of \<open>Watch_Checkpoint\<close>, which contains the administrative one.\<close>

fun watch_exec :: "address \<Rightarrow> (bytes \<Rightarrow> bytes) \<Rightarrow> env \<Rightarrow> watch_call \<Rightarrow> 'z market_state_scheme \<Rightarrow> 'z market_state_scheme wres" where
  "watch_exec self sha env (AclCall c) s = acl_exec env c s"
| "watch_exec self sha env (CoreCall c) s = (case c of CoInitialize a \<Rightarrow> watch_initialize env a s | _ \<Rightarrow> core_exec self env c s)"
| "watch_exec self sha env (VaultCall c) s = vault_exec sha env c s"
| "watch_exec self sha env (AssetCall c) s = asset_exec sha env c s"
| "watch_exec self sha env (MarketCall c) s = market_exec env c s"

definition watch_start :: market_state where
  "watch_start = \<lparr> ac_admin = None, ac_global_paused = None, ac_role_grants = None, ac_permission_grants = None, ac_events =
     [], co_role_key = Map.empty, co_roles_list = None, co_pause_guardian = None, co_pause_reason = None,
     co_paused_at = None, co_unpause_available_at = None, co_pause_history = None, co_emergency_contact =
     None, co_pending_transfer = None, co_pending_upgrade = None, co_upgrade_counter = None,
     co_upgrade_history = None, co_contract_version = None, co_current_wasm_hash = None,
     co_rollback_target_hash = None, co_recovery_mode = None, co_recovery_reason = None,
     co_recovery_entered_at = None, co_recovery_entered_by = None, co_recovery_steps = None,
     co_activity_counter = None, co_activity_log = None, co_replay_counter = None, co_replay_log = None,
     va_monitored_assets = None, va_health = Map.empty, va_price = Map.empty, va_health_result = Map.empty,
     va_health_weights = None, va_risk_score_config = None, va_checkpoint_config = None, va_checkpoint_counter
     = None, va_checkpoint_metadata = None, va_checkpoint_snapshot = Map.empty, va_last_checkpoint_at = None,
     va_last_checkpoint_id = None, va_archived_metadata = None, va_archived_snapshot = Map.empty,
     va_retention_policy = Map.empty, va_last_cleanup = Map.empty, va_retention_override = Map.empty,
     va_bridge_ids = None, va_mismatches = Map.empty, va_archived_mismatches = Map.empty, va_liquidity_pairs =
     None, va_liquidity_history = Map.empty, va_archived_liquidity = Map.empty, wa_price_history = Map.empty,
     wa_signer = Map.empty, wa_signer_list = None, wa_signature_threshold = None, wa_signer_nonce = Map.empty,
     wa_signature_cache = Map.empty, wa_lock = Map.empty, wa_lock_history = Map.empty, wa_rate_limit_config =
     None, wa_rate_limit = Map.empty, wa_trusted_source = Map.empty, wa_all_sources = None, wa_health_sources
     = None, wa_source_entry = Map.empty, wa_expiration_policy = None, wm_config_entry = Map.empty,
     wm_config_keys = None, wm_config_audit = Map.empty, wm_deviation_threshold = Map.empty,
     wm_deviation_override = Map.empty, wm_deviation_alert = Map.empty, wm_mismatch_threshold = None,
     wm_mismatch_override = Map.empty, wm_liquidity_depth = Map.empty, wm_statistics = Map.empty,
     wm_expiration_ttl = Map.empty, wm_cleanup_stats = None, wm_pools = liquidity_start \<rparr>"

end
