(* ===== verification/Watch_Contract.thy ===== *)
theory Watch_Contract
  imports Watch_Market
begin

text \<open>
  The properties of the watch contract as a whole: histories of \<open>watch_exec\<close> from \<open>watch_start\<close>,
  that is of all entry points of \<open>soroban/src/lib.rs\<close> that change state. First the invariant of
  the checkpoints is lifted through every entry point, then the properties of checkpoints and
  restores, of signatures and their nonces, of locks, of the configuration store, of the market
  data, and the composition with the pool monitor.
\<close>

section \<open>The checkpoints in every history\<close>

lemmas market_guard_defs = core_guard_defs manage_config_guard_def source_admin_guard_def config_admin_guard_def
  signed_by_admin_def require_admin_or_super_def assert_admin_or_super_admin_def assert_admin_or_super_admin_retention_def

lemma append_view [simp]:
  "append_admin_activity env act a d s = Inr s' \<Longrightarrow> checkpoint_view s' = checkpoint_view s"
  "append_replay_event env ty a subj v s = Inr s' \<Longrightarrow> checkpoint_view s' = checkpoint_view s"
  by (auto simp: core_log_defs Let_def if_Inr_eq checkpoint_view_def load_checkpoint_metadata_def load_checkpoint_config_def
      load_registered_assets_raw_def)

lemmas view_defs = checkpoint_view_def load_checkpoint_metadata_def load_checkpoint_config_def load_registered_assets_raw_def

lemma rate_limit_view [simp]: "enforce_rate_limit env c s = Inr s' \<Longrightarrow> checkpoint_view s' = checkpoint_view s"
  by (auto simp: enforce_rate_limit_def Let_def view_defs split: option.splits if_splits)

lemma verify_effect:
  assumes "verify_signature sha env m sig s = Inr (b, s')"
  shows "b \<and> unwrap_or (wa_signer_nonce s (sz_signer_id sig)) 0 < sz_nonce sig
    \<and> (\<exists>x. wa_signer s (sz_signer_id sig) = Some x \<and> sg_active x) \<and> (sz_expiry sig = 0 \<or> timestamp env \<le> sz_expiry sig)
    \<and> (s' = set_signer_nonce sig s \<or> s' = set_signer_nonce sig s
          \<lparr> wa_signature_cache := (wa_signature_cache s)(sha m \<mapsto> True) \<rparr>)"
proof (cases "unwrap_or (wa_signature_cache s (sha m)) False")
  case True
  then show ?thesis using assms by (auto simp: verify_signature_def load_signer_def Let_def)
next
  case False
  then show ?thesis using assms by (auto simp: verify_signature_def load_signer_def Let_def set_signer_nonce_def)
qed

lemma verify_view [simp]: "verify_signature sha env m sig s = Inr (b, s') \<Longrightarrow> checkpoint_view s' = checkpoint_view s"
  by (drule verify_effect) (auto simp: set_signer_nonce_def view_defs)

lemma multi_sig_view [simp]:
  "multi_sig_loop sha env m sigs seen n s = Inr (k, s') \<Longrightarrow> checkpoint_view s' = checkpoint_view s"
  by (induction sigs arbitrary: seen n s) (auto dest!: verify_view)

lemma store_batch_view [simp]: "store_batch env rs s = Inr s' \<Longrightarrow> checkpoint_view s' = checkpoint_view s"
proof (induction rs arbitrary: s)
  case (Cons r rs)
  then show ?case by (fastforce simp: view_defs)
qed simp

lemma acl_view: "acl_exec env c s = Inr s' \<Longrightarrow> checkpoint_view s' = checkpoint_view (s :: 'z vault_state_scheme)"
proof -
  assume "acl_exec env c s = Inr s'"
  then have "acl_state.more s' = acl_state.more s" by (rule acl_exec_more)
  then show ?thesis by (cases s; cases s') (simp add: view_defs)
qed


lemma view_then_auto:
  assumes "checkpoints_ok sha s" "checkpoint_view s1 = checkpoint_view s" "maybe_create_auto_checkpoint sha env c s1 = Inr s'"
  shows "checkpoints_ok sha s'"
  using view_keeps_ok [OF assms(2,1)] assms(3) by (rule auto_checkpoint_keeps_ok)

lemma health_view [simp]:
  "checkpoint_view (s\<lparr> va_health := h \<rparr>) = checkpoint_view s"
  "checkpoint_view (s\<lparr> va_price := p \<rparr>) = checkpoint_view s"
  "checkpoint_view (s\<lparr> va_health_result := r \<rparr>) = checkpoint_view s"
  "checkpoint_view (s\<lparr> va_health_weights := w \<rparr>) = checkpoint_view s"
  "checkpoint_view (s\<lparr> va_risk_score_config := k \<rparr>) = checkpoint_view s"
  "checkpoint_view (s\<lparr> va_mismatches := m \<rparr>) = checkpoint_view s"
  "checkpoint_view (s\<lparr> va_bridge_ids := b \<rparr>) = checkpoint_view s"
  "checkpoint_view (s\<lparr> va_liquidity_history := l \<rparr>) = checkpoint_view s"
  "checkpoint_view (s\<lparr> va_liquidity_pairs := q \<rparr>) = checkpoint_view s"
  "checkpoint_view (s\<lparr> va_retention_policy := rp \<rparr>) = checkpoint_view s"
  "checkpoint_view (s\<lparr> va_retention_override := ro \<rparr>) = checkpoint_view s"
  by (simp_all add: view_defs)

text \<open>Fields of the later extensions are not part of the view.\<close>

lemma asset_fields_view [simp]:
  fixes s :: "'z asset_state_scheme"
  shows "checkpoint_view (s\<lparr> wa_price_history := a1 \<rparr>) = checkpoint_view s"
  "checkpoint_view (s\<lparr> wa_signer := a2 \<rparr>) = checkpoint_view s"
  "checkpoint_view (s\<lparr> wa_signer_list := a3 \<rparr>) = checkpoint_view s"
  "checkpoint_view (s\<lparr> wa_signature_threshold := a4 \<rparr>) = checkpoint_view s"
  "checkpoint_view (s\<lparr> wa_lock := a5 \<rparr>) = checkpoint_view s"
  "checkpoint_view (s\<lparr> wa_lock_history := a6 \<rparr>) = checkpoint_view s"
  "checkpoint_view (s\<lparr> wa_rate_limit_config := a7 \<rparr>) = checkpoint_view s"
  "checkpoint_view (s\<lparr> wa_trusted_source := a8 \<rparr>) = checkpoint_view s"
  "checkpoint_view (s\<lparr> wa_all_sources := a9 \<rparr>) = checkpoint_view s"
  "checkpoint_view (s\<lparr> wa_health_sources := a10 \<rparr>) = checkpoint_view s"
  "checkpoint_view (s\<lparr> wa_source_entry := a11 \<rparr>) = checkpoint_view s"
  "checkpoint_view (s\<lparr> wa_expiration_policy := a12 \<rparr>) = checkpoint_view s"
  by (simp_all add: view_defs)

lemma submit_health_internal_ok:
  assumes "checkpoints_ok sha s" "submit_health_internal sha env c a h l p u s = Inr s'"
  shows "checkpoints_ok sha s'"
proof -
  obtain s1 st s2 where "enforce_rate_limit env c s = Inr s1"
      "append_replay_event env ''health_up'' c a (int h) (s1\<lparr> va_health := (va_health s1)(a \<mapsto> health_record env s1 st a h l p u) \<rparr>) = Inr s2"
      "maybe_create_auto_checkpoint sha env c s2 = Inr s'"
    using assms(2) by (auto simp: submit_health_internal_def)
  then show ?thesis by (intro view_then_auto [OF assms(1)]) simp_all
qed

lemma submit_price_internal_ok:
  assumes "checkpoints_ok sha s" "submit_price_internal sha env c a p src s = Inr s'"
  shows "checkpoints_ok sha s'"
proof -
  obtain s1 r hist where "enforce_rate_limit env c s = Inr s1"
      "maybe_create_auto_checkpoint sha env c (s1\<lparr> va_price := (va_price s1)(a \<mapsto> r), wa_price_history := hist \<rparr>) = Inr s'"
    using assms(2) by (auto simp: submit_price_internal_def Let_def)
  then show ?thesis by (intro view_then_auto [OF assms(1)]) simp_all
qed

lemma submit_batch_internal_ok:
  assumes "checkpoints_ok sha s" "submit_health_batch_internal sha env c rs s = Inr s'"
  shows "checkpoints_ok sha s'"
proof -
  obtain s1 s2 where "enforce_rate_limit env c s = Inr s1" "store_batch env rs s1 = Inr s2"
      "maybe_create_auto_checkpoint sha env c s2 = Inr s'"
    using assms(2) by (auto simp: submit_health_batch_internal_def)
  then show ?thesis by (intro view_then_auto [OF assms(1)]) simp_all
qed

lemma submit_calculated_ok:
  assumes "checkpoints_ok sha s" "submit_calculated_health sha env c a l p u m s = Inr s'"
  shows "checkpoints_ok sha s'"
proof -
  obtain s1 x y where "enforce_rate_limit env c s = Inr s1"
      "maybe_create_auto_checkpoint sha env c (s1\<lparr> va_health := x, va_health_result := y \<rparr>) = Inr s'"
    using assms(2) by (auto simp: submit_calculated_health_def Let_def)
  then show ?thesis by (intro view_then_auto [OF assms(1)]) simp_all
qed

lemma register_asset_ok:
  assumes "checkpoints_ok sha s" "register_asset sha env c a s = Inr s'"
  shows "checkpoints_ok sha s'"
proof -
  obtain assets h where m: "va_monitored_assets s = Some assets" "a \<notin> set assets"
      "maybe_create_auto_checkpoint sha env c (s\<lparr> va_health := h, va_monitored_assets := Some (assets @ [a]) \<rparr>) = Inr s'"
    using assms(2) by (auto simp: register_asset_def Let_def list_ex_iff)
  have "checkpoints_ok sha (s\<lparr> va_health := h, va_monitored_assets := Some (assets @ [a]) \<rparr>)"
    using assms(1) m(1,2) by (simp add: checkpoints_ok_def store_ok_def listed_ok_def Let_def load_checkpoint_metadata_def
        load_checkpoint_config_def load_registered_assets_raw_def)
  then show ?thesis using m(3) by (rule auto_checkpoint_keeps_ok)
qed

lemma asset_exec_ok:
  assumes "checkpoints_ok sha s" "asset_exec sha env c s = Inr s'"
  shows "checkpoints_ok sha s'"
proof (cases c)
  case (WaRegisterAsset x a)
  then show ?thesis using assms register_asset_ok by simp
next
  case (WaPauseAsset x a)
  then show ?thesis using assms(2) by (auto simp: pause_asset_watch_def set_asset_paused_def elim!: view_then_auto [OF assms(1), rotated])
next
  case (WaUnpauseAsset x a)
  then show ?thesis using assms(2) by (auto simp: unpause_asset_def set_asset_paused_def elim!: view_then_auto [OF assms(1), rotated])
next
  case (WaDeregisterAsset x a)
  then show ?thesis using assms(2) by (auto simp: deregister_asset_def elim!: view_then_auto [OF assms(1), rotated])
next
  case (WaSetHealthWeights x l p u v)
  then show ?thesis using assms(2) by (auto simp: set_health_weights_def elim!: view_then_auto [OF assms(1), rotated])
next
  case (WaSetRiskConfig x k)
  then show ?thesis using assms(2) by (auto simp: set_risk_score_config_def elim!: view_then_auto [OF assms(1), rotated])
next
  case (WaSubmitHealth x a h l p u)
  then show ?thesis using assms submit_health_internal_ok by (auto simp: submit_health_def)
next
  case (WaSubmitHealthBatch x rs)
  then show ?thesis using assms submit_batch_internal_ok by (auto simp: submit_health_batch_def)
next
  case (WaSubmitPrice x a p src)
  then show ?thesis using assms submit_price_internal_ok by (auto simp: submit_price_def)
next
  case (WaSubmitCalculated x a l p u m)
  then show ?thesis using assms submit_calculated_ok by simp
next
  case (WaSubmitHealthSigned x a h l p u sig)
  then obtain m b s1 where "verify_signature sha env m sig s = Inr (b, s1)" "submit_health_internal sha env x a h l p u s1 = Inr s'"
    using assms(2) by (auto simp: submit_health_signed_def)
  then show ?thesis by (blast intro: submit_health_internal_ok view_keeps_ok [OF _ assms(1)] verify_view)
next
  case (WaSubmitPriceSigned x a p src sig)
  then obtain m b s1 where "verify_signature sha env m sig s = Inr (b, s1)" "submit_price_internal sha env x a p src s1 = Inr s'"
    using assms(2) by (auto simp: submit_price_signed_def)
  then show ?thesis by (blast intro: submit_price_internal_ok view_keeps_ok [OF _ assms(1)] verify_view)
next
  case (WaSubmitBatchSigned x rs sigs)
  then obtain m n s1 where "multi_sig_loop sha env m sigs [] 0 s = Inr (n, s1)" "submit_health_batch_internal sha env x rs s1 = Inr s'"
    using assms(2) by (auto simp: submit_health_batch_signed_def verify_multi_sig_def Let_def)
  then show ?thesis by (blast intro: submit_batch_internal_ok view_keeps_ok [OF _ assms(1)] multi_sig_view)
next
  case (WaVerifyMultiSig m sigs)
  then show ?thesis using assms(2) by (auto simp: verify_multi_sig_def Let_def intro: view_keeps_ok [OF multi_sig_view assms(1)])
next
  case (WaSubmitMultiSource x i a h l p u)
  then obtain s1 y s2 where "enforce_rate_limit env x s = Inr s1" "append_replay_event env ''ms_hlth'' x a (int h) (s1\<lparr> wa_source_entry := y \<rparr>) = Inr s2"
      "append_admin_activity env HealthSubmittedAct x a s2 = Inr s'"
    using assms(2) by (auto simp: submit_health_multi_source_def Let_def)
  then show ?thesis by (intro view_keeps_ok [OF _ assms(1)]) simp
next
  case (WaRegisterHealthSource x i w)
  then obtain y where "append_admin_activity env AssetRegisteredAct x i (s\<lparr> wa_health_sources := y \<rparr>) = Inr s'"
    using assms(2) by (auto simp: register_health_source_def Let_def)
  then show ?thesis by (intro view_keeps_ok [OF _ assms(1)]) simp
qed (use assms(2) in \<open>auto simp: lock_asset_def unlock_asset_def push_lock_record_def register_signer_def remove_signer_watch_def
      set_signature_threshold_def set_rate_limit_config_def add_trusted_source_def drop_trusted_source_def
      register_trusted_source_def revoke_trusted_source_def revoke_health_source_def Let_def intro!: view_keeps_ok [OF _ assms(1)]\<close>)


text \<open>The fields of the last extension are not part of the view either.\<close>

lemma market_fields_view [simp]:
  fixes s :: "'z market_state_scheme"
  shows "checkpoint_view (s\<lparr> wm_config_entry := b1 \<rparr>) = checkpoint_view s"
  "checkpoint_view (s\<lparr> wm_config_keys := b2 \<rparr>) = checkpoint_view s"
  "checkpoint_view (s\<lparr> wm_config_audit := b3 \<rparr>) = checkpoint_view s"
  "checkpoint_view (s\<lparr> wm_deviation_threshold := b4 \<rparr>) = checkpoint_view s"
  "checkpoint_view (s\<lparr> wm_deviation_override := b5 \<rparr>) = checkpoint_view s"
  "checkpoint_view (s\<lparr> wm_deviation_alert := b6 \<rparr>) = checkpoint_view s"
  "checkpoint_view (s\<lparr> wm_mismatch_threshold := b7 \<rparr>) = checkpoint_view s"
  "checkpoint_view (s\<lparr> wm_mismatch_override := b8 \<rparr>) = checkpoint_view s"
  "checkpoint_view (s\<lparr> wm_liquidity_depth := b9 \<rparr>) = checkpoint_view s"
  "checkpoint_view (s\<lparr> wm_statistics := b10 \<rparr>) = checkpoint_view s"
  "checkpoint_view (s\<lparr> wm_expiration_ttl := b11 \<rparr>) = checkpoint_view s"
  "checkpoint_view (s\<lparr> wm_cleanup_stats := b12 \<rparr>) = checkpoint_view s"
  "checkpoint_view (s\<lparr> wm_pools := b13 \<rparr>) = checkpoint_view s"
  by (simp_all add: view_defs)

lemma set_config_view: "set_config_internal env c k n v d s = Inr s' \<Longrightarrow> checkpoint_view s' = checkpoint_view s"
  by (auto simp: set_config_internal_def push_audit_def Let_def split: prod.splits)

lemma apply_updates_view: "apply_updates env c us s = Inr s' \<Longrightarrow> checkpoint_view s' = checkpoint_view s"
  by (induction us arbitrary: s) (auto dest: set_config_view)

lemma seed_configs_view: "seed_configs env c ds s = Inr s' \<Longrightarrow> checkpoint_view s' = checkpoint_view s"
proof (induction ds arbitrary: s)
  case (Cons d ds)
  obtain k n v x where d: "d = (k, n, v, x)" by (cases d)
  obtain s1 where "s1 = s \<or> set_config_internal env c k n v x s = Inr s1" "seed_configs env c ds s1 = Inr s'"
    using Cons.prems by (auto simp: d split: if_splits)
  then show ?case using Cons.IH set_config_view by fastforce
qed simp

lemma override_audit_view: "append_threshold_override_audit env n x y c s = Inr s' \<Longrightarrow> checkpoint_view s' = checkpoint_view s"
  by (auto simp: append_threshold_override_audit_def push_audit_def Let_def)

lemma load_override_view:
  "checkpoint_view (snd (load_active_deviation_threshold_override env a s)) = checkpoint_view s"
  "checkpoint_view (snd (load_active_mismatch_threshold_override env a s)) = checkpoint_view s"
  by (auto simp: load_active_deviation_threshold_override_def load_active_mismatch_threshold_override_def split: option.splits)

lemma resolve_view:
  "resolve_deviation_threshold env a s = (t, s1) \<Longrightarrow> checkpoint_view s1 = checkpoint_view s"
  "resolve_mismatch_threshold_bps env a s = (v, s2) \<Longrightarrow> checkpoint_view s2 = checkpoint_view s"
  using load_override_view [of env a s]
  by (auto simp: resolve_deviation_threshold_def resolve_mismatch_threshold_bps_def split: prod.splits option.splits)

lemma resolve_mismatch_view [simp]: "checkpoint_view (snd (resolve_mismatch_threshold_bps env a s)) = checkpoint_view s"
  by (rule resolve_view(2) [of env a s "fst (resolve_mismatch_threshold_bps env a s)"]) simp

lemma check_deviation_view:
  assumes "check_price_deviation env a p s = Inr (r, s')"
  shows "checkpoint_view s' = checkpoint_view s"
proof -
  obtain t s1 where "resolve_deviation_threshold env a s = (t, s1)" by fastforce
  moreover from this have "checkpoint_view s1 = checkpoint_view s" by (rule resolve_view)
  ultimately show ?thesis using assms by (auto simp: check_price_deviation_def Let_def split: option.splits if_splits)
qed

lemma expire_asset_view: "expire_asset now p mx a (s, n, t) = Inr (s', n', t') \<Longrightarrow> checkpoint_view s' = checkpoint_view s"
  by (auto simp: expire_asset_def Let_def split: prod.splits)

lemma expire_assets_view: "expire_assets now p mx as (s, n, t) = Inr (s', n', t') \<Longrightarrow> checkpoint_view s' = checkpoint_view s"
proof (induction as arbitrary: s n t)
  case (Cons a as)
  then show ?case using expire_asset_view by (fastforce split: if_splits)
qed simp

lemma expire_bridges_view: "expire_bridges now p bs (s, n, t) = Inr (s', n', t') \<Longrightarrow> checkpoint_view s' = checkpoint_view s"
  by (induction bs arbitrary: s n t) (auto split: prod.splits)

lemma expire_pairs_view: "expire_pairs now p mx bs (s, n, t) = Inr (s', n', t') \<Longrightarrow> checkpoint_view s' = checkpoint_view s"
  by (induction bs arbitrary: s n t) (auto simp: Let_def split: prod.splits)

lemma cleanup_expired_view: "cleanup_expired_data env c mx s = Inr (r, s') \<Longrightarrow> checkpoint_view s' = checkpoint_view s"
  by (auto simp: cleanup_expired_data_def Let_def dest!: expire_assets_view expire_bridges_view expire_pairs_view)

lemma extend_record_views:
  "extend_health now x a s = Inr s' \<Longrightarrow> checkpoint_view s' = checkpoint_view s"
  "extend_price now x a s = Inr s' \<Longrightarrow> checkpoint_view s' = checkpoint_view s"
  "extend_alert now x a s = Inr s' \<Longrightarrow> checkpoint_view s' = checkpoint_view s"
  "extend_result now x a s = Inr s' \<Longrightarrow> checkpoint_view s' = checkpoint_view s"
  by (auto simp: extend_health_def extend_price_def extend_alert_def extend_result_def split: option.splits)

lemma extend_view: "extend_expiration env c a x s = Inr s' \<Longrightarrow> checkpoint_view s' = checkpoint_view s"
  by (auto simp: extend_expiration_def dest!: extend_record_views)

lemma compute_statistics_view: "compute_statistics env c a p s = Inr (r, s') \<Longrightarrow> checkpoint_view s' = checkpoint_view s"
  by (auto simp: compute_statistics_def Let_def)

lemma periodic_view: "periodic_loop env c as s = Inr s' \<Longrightarrow> checkpoint_view s' = checkpoint_view s"
  by (induction as arbitrary: s) (auto simp: Let_def split: if_splits option.splits dest!: compute_statistics_view)

lemma view_then_cleanup:
  assumes "checkpoints_ok sha s" "checkpoint_view s1 = checkpoint_view s" "maybe_trigger_auto_cleanup env s1 = Inr s'"
  shows "checkpoints_ok sha s'"
  using view_keeps_ok [OF assms(2,1)] assms(3) by (rule auto_cleanup_keeps_ok)

lemma market_exec_ok:
  assumes "checkpoints_ok sha s" "market_exec env c s = Inr s'"
  shows "checkpoints_ok sha s'"
proof (cases c)
  case (WmRecordMismatch b a x y)
  then obtain admin s1 m k where "enforce_rate_limit env admin s = Inr s1"
      "maybe_trigger_auto_cleanup env ((snd (resolve_mismatch_threshold_bps env a s1))\<lparr> va_mismatches := m, va_bridge_ids := k \<rparr>) = Inr s'"
    using assms(2) by (auto simp: record_supply_mismatch_def Let_def case_prod_beta)
  then show ?thesis by (intro view_then_cleanup [OF assms(1)]) simp_all
next
  case (WmRecordDepth p l a b d e src)
  then obtain admin s1 x y z where "enforce_rate_limit env admin s = Inr s1"
      "maybe_trigger_auto_cleanup env (s1\<lparr> wm_liquidity_depth := x, va_liquidity_history := y, va_liquidity_pairs := z \<rparr>) = Inr s'"
    using assms(2) by (auto simp: record_liquidity_depth_def Let_def)
  then show ?thesis by (intro view_then_cleanup [OF assms(1)]) simp_all
qed (use assms(2) in \<open>auto simp: set_config_def set_config_bulk_def init_default_config_def set_deviation_threshold_def
        set_deviation_threshold_override_def clear_dev_threshold_override_def set_mismatch_threshold_def
        set_mismatch_threshold_override_def clear_mm_threshold_override_def set_expiration_policy_def
        set_asset_expiration_ttl_def trigger_periodic_stats_def watch_record_pool_def load_override_view Let_def
        intro!: view_keeps_ok [OF _ assms(1)] dest: set_config_view apply_updates_view seed_configs_view override_audit_view
          check_deviation_view cleanup_expired_view extend_view compute_statistics_view periodic_view\<close>)

lemma core_exec_view:
  assumes "core_exec self env c s = Inr s'"
  shows "checkpoint_view s' = checkpoint_view s"
  using assms by (cases c) (auto simp: core_op_defs core_log_defs Let_def if_Inr_eq view_defs)

lemma watch_exec_ok:
  assumes "checkpoints_ok sha s" "watch_exec self sha env c s = Inr s'"
  shows "checkpoints_ok sha s'"
proof (cases c)
  case (AclCall x)
  then show ?thesis using assms by (auto intro: view_keeps_ok [OF acl_view])
next
  case (CoreCall x)
  show ?thesis
  proof (cases "\<exists>a. x = CoInitialize a")
    case True
    then show ?thesis using CoreCall assms initialize_keeps_ok by auto
  next
    case False
    then have "core_exec self env x s = Inr s'" using CoreCall assms(2) by (cases x) auto
    then show ?thesis by (rule view_keeps_ok [OF core_exec_view assms(1)])
  qed
next
  case (VaultCall x)
  then show ?thesis using assms vault_exec_ok by auto
next
  case (AssetCall x)
  then show ?thesis using assms asset_exec_ok by auto
next
  case (MarketCall x)
  then show ?thesis using assms market_exec_ok by auto
qed

interpretation vault: contract_invariant "watch_exec self sha" "\<lambda>s. s = watch_start" "\<lambda>_. True" "checkpoints_ok sha"
  for self :: address and sha :: "bytes \<Rightarrow> bytes"
proof
  fix s :: market_state
  assume "s = watch_start"
  then show "checkpoints_ok sha s"
    by (simp add: watch_start_def checkpoints_ok_def store_ok_def listed_ok_def load_checkpoint_metadata_def
        load_checkpoint_config_def default_checkpoint_config_def load_registered_assets_raw_def)
next
  fix s s' :: market_state and c env
  assume "checkpoints_ok sha s" "watch_exec self sha env c s = Inr s'"
  then show "checkpoints_ok sha s'" by (rule watch_exec_ok)
qed

section \<open>Checkpoints\<close>

lemma find_distinct: "distinct (map f xs) \<Longrightarrow> x \<in> set xs \<Longrightarrow> List.find (\<lambda>y. f y = f x) xs = Some x"
  by (induction xs) (auto simp: image_iff)

lemma listed_validates:
  assumes "checkpoints_ok sha s" "m \<in> set (load_checkpoint_metadata s)"
  shows "validate_checkpoint sha (km_checkpoint_id m) s = Inr \<lparr> kv_checkpoint_id = km_checkpoint_id m,
      kv_is_valid = True, kv_message = ''checkpoint hash verified'' \<rparr>"
proof -
  have "distinct (map km_checkpoint_id (load_checkpoint_metadata s))" "listed_ok sha s m"
    using assms by (auto simp: checkpoints_ok_def store_ok_def Let_def strict_sorted_iff)
  then show ?thesis using find_distinct [of km_checkpoint_id _ m] assms(2)
    by (auto simp: validate_checkpoint_def get_checkpoint_or_panic_def load_checkpoint_metadata_by_id_def listed_ok_def
        metadata_of_def Let_def)
qed

definition demo_sha :: "bytes \<Rightarrow> bytes" where
  "demo_sha data = take 32 (data @ replicate 32 0)"

definition demo_at :: "nat \<Rightarrow> env" where
  "demo_at t = \<lparr> timestamp = t, auths = [''A''] \<rparr>"

definition demo_checkpoints :: "(env \<times> watch_call) list" where
  "demo_checkpoints =
     [(demo_at 5, VaultCall (VaInitialize ''A'')),
      (demo_at 6, AssetCall (WaRegisterAsset ''A'' ''USDC'')),
      (demo_at 7, AssetCall (WaSubmitPrice ''A'' ''USDC'' 10 ''x'')),
      (demo_at 8, VaultCall (VaCreateCheckpoint ''A'' ''good'')),
      (demo_at 9, AssetCall (WaSubmitHealth ''A'' ''USDC'' 1 2 3 4)),
      (demo_at 10, AssetCall (WaRegisterAsset ''A'' ''EURC''))]"

text \<open>C2: Checkpoints can be trusted: in every history of the contract each listed checkpoint is found,
  its recomputed hash equals the recorded one, and there are never more of them than configured.\<close>

theorem listed_checkpoints_valid:
  assumes "s = run (watch_exec self sha) watch_start h" "m \<in> set (load_checkpoint_metadata s)"
  shows "validate_checkpoint sha (km_checkpoint_id m) s = Inr \<lparr> kv_checkpoint_id = km_checkpoint_id m,
      kv_is_valid = True, kv_message = ''checkpoint hash verified'' \<rparr>
    \<and> length (load_checkpoint_metadata s) \<le> kc_max_checkpoints (load_checkpoint_config s)"
proof -
  have ok: "checkpoints_ok sha s" using vault.run_inv [of watch_start h sha self] by (simp add: assms(1) list_all_iff)
  then show ?thesis using listed_validates [OF ok assms(2)] by (simp add: checkpoints_ok_def)
qed

lemma listed_checkpoints_valid_witness:
  "map km_checkpoint_id (load_checkpoint_metadata (run (watch_exec ''W'' demo_sha) watch_start demo_checkpoints)) = [1, 2]
   \<and> map_sum id kv_is_valid (validate_checkpoint demo_sha 2 (run (watch_exec ''W'' demo_sha) watch_start demo_checkpoints)) = Inr True"
proof -
  let ?s = "run (watch_exec ''W'' demo_sha) watch_start demo_checkpoints"
  have ids: "map km_checkpoint_id (load_checkpoint_metadata ?s) = [1, 2]" by code_simp
  then obtain m0 m where m: "load_checkpoint_metadata ?s = [m0, m]" "km_checkpoint_id m = 2" by (auto simp: map_eq_Cons_conv)
  show ?thesis using ids listed_checkpoints_valid [OF refl, where m = m and self = "''W''" and sha = demo_sha and h = demo_checkpoints] m by simp
qed


lemma persist_snapshot:
  assumes "persist_checkpoint sha env caller trigger label from s = Inr (m, s')" "checkpoints_ok sha s"
  shows "\<exists>k h. va_checkpoint_snapshot s' (km_checkpoint_id m) = Some k \<and> compute_checkpoint_hash sha k = Inr h
    \<and> m = metadata_of k h \<and> ks_monitored_assets k = load_registered_assets_raw s
    \<and> capture_assets s (load_registered_assets_raw s) = Inr (ks_assets k) \<and> ks_health_weights k = load_health_weights s
    \<and> ks_risk_score_config k = load_risk_score_config s \<and> ks_restored_from k = from \<and> ks_trigger k = trigger
    \<and> ks_format_version k = kc_format_version (load_checkpoint_config s)
    \<and> last (load_checkpoint_metadata s') = m \<and> va_health s' = va_health s \<and> va_price s' = va_price s
    \<and> va_health_result s' = va_health_result s \<and> load_registered_assets_raw s' = load_registered_assets_raw s
    \<and> load_health_weights s' = load_health_weights s \<and> load_risk_score_config s' = load_risk_score_config s"
proof -
  obtain k h where p: "take_snapshot env caller trigger label from (unwrap_or (va_checkpoint_counter s) 0 + 1) s = Inr k"
    "compute_checkpoint_hash sha k = Inr h" "m = metadata_of k h"
    "cleans (saved_checkpoint (unwrap_or (va_checkpoint_counter s) 0 + 1) (timestamp env) s) s'"
    "va_checkpoint_snapshot s' (ks_checkpoint_id k) = Some k" "last (load_checkpoint_metadata s') = m"
    by (rule persist_effect [OF assms])
  have "va_health s' = va_health s" "va_price s' = va_price s" "va_health_result s' = va_health_result s"
      "load_registered_assets_raw s' = load_registered_assets_raw s"
      "load_health_weights s' = load_health_weights s" "load_risk_score_config s' = load_risk_score_config s"
    using cleans_field [OF p(4), of load_health_weights] cleans_field [OF p(4), of load_risk_score_config]
      cleans_field [OF p(4), of va_health] cleans_field [OF p(4), of va_price] cleans_field [OF p(4), of va_health_result]
      cleans_field [OF p(4), of load_registered_assets_raw]
    by (simp_all add: wipe_def saved_checkpoint_def load_registered_assets_raw_def load_health_weights_def load_risk_score_config_def)
  with p show ?thesis by (auto simp: take_snapshot_def metadata_of_def)
qed

lemma hash_of_content:
  assumes "ks_format_version k' = ks_format_version k" "ks_monitored_assets k' = ks_monitored_assets k"
    "ks_health_weights k' = ks_health_weights k" "ks_risk_score_config k' = ks_risk_score_config k" "ks_assets k' = ks_assets k"
  shows "compute_checkpoint_hash sha k' = compute_checkpoint_hash sha k"
  using assms by (simp add: compute_checkpoint_hash_def checkpoint_bytes_def)

text \<open>C4: Restoring is a round trip: in every reachable state a successful restore is signed by its
  caller and leaves exactly the assets, health records, prices, calculated scores, weights and risk
  configuration of the chosen snapshot as the live ones. The audit checkpoint it creates holds the same
  content, refers to the restored one, and records the hash of that content under the format version
  configured now; so it has the hash of the chosen snapshot if the configured format version is still
  the one of the snapshot (the admin may change it between the checkpoint and the restore).\<close>

theorem restore_reproduces:
  assumes "s = run (watch_exec self sha) watch_start h"
    "restore_from_checkpoint sha env caller cid s = Inr (m, s')"
  shows "\<exists>k k'. va_checkpoint_snapshot s cid = Some k \<and> va_checkpoint_snapshot s' (km_checkpoint_id m) = Some k'
    \<and> caller \<in> set (auths env)
    \<and> load_registered_assets_raw s' = ks_monitored_assets k
    \<and> load_health_weights s' = ks_health_weights k \<and> load_risk_score_config s' = ks_risk_score_config k
    \<and> capture_assets s' (ks_monitored_assets k) = Inr (ks_assets k) \<and> ks_assets k' = ks_assets k
    \<and> ks_monitored_assets k' = ks_monitored_assets k \<and> ks_health_weights k' = ks_health_weights k
    \<and> ks_risk_score_config k' = ks_risk_score_config k \<and> km_restored_from m = Some cid
    \<and> compute_checkpoint_hash sha (k\<lparr> ks_format_version := kc_format_version (load_checkpoint_config s) \<rparr>)
        = Inr (km_state_hash m)
    \<and> (kc_format_version (load_checkpoint_config s) = ks_format_version k \<longrightarrow>
         compute_checkpoint_hash sha k = Inr (km_state_hash m))"
proof -
  have ok: "checkpoints_ok sha s" using vault.run_inv [of watch_start h sha self] by (simp add: assms(1) list_all_iff)
  obtain k where k: "va_checkpoint_snapshot s cid = Some k"
      and p: "persist_checkpoint sha env caller RestoreTrigger ''restore'' (Some cid) (apply_snapshot k s) = Inr (m, s')"
      and signed: "caller \<in> set (auths env)"
    using assms(2) by (auto simp: restore_from_checkpoint_def get_checkpoint_or_panic_def assert_admin_or_super_admin_def
        require_super_admin_def)
  note a = apply_snapshot_ok [OF ok k]
  obtain k' hh where k': "va_checkpoint_snapshot s' (km_checkpoint_id m) = Some k'" "compute_checkpoint_hash sha k' = Inr hh"
      "m = metadata_of k' hh" "ks_monitored_assets k' = ks_monitored_assets k" "ks_assets k' = ks_assets k"
      "ks_health_weights k' = ks_health_weights k" "ks_risk_score_config k' = ks_risk_score_config k" "ks_restored_from k' = Some cid"
      "va_health s' = va_health (apply_snapshot k s)" "va_price s' = va_price (apply_snapshot k s)"
      "va_health_result s' = va_health_result (apply_snapshot k s)" "load_registered_assets_raw s' = ks_monitored_assets k"
      "load_health_weights s' = ks_health_weights k" "load_risk_score_config s' = ks_risk_score_config k"
      "ks_format_version k' = kc_format_version (load_checkpoint_config s)"
    using persist_snapshot [OF p a(1)] apply_snapshot_capture [OF a(2), of s] by (auto simp: apply_snapshot_fields)
  have "capture_assets s' cs = capture_assets (apply_snapshot k s) cs" for cs
    by (induction cs) (simp_all add: capture_asset_def load_asset_health_def k')
  then have content: "capture_assets s' (ks_monitored_assets k) = Inr (ks_assets k)"
    using apply_snapshot_capture [OF a(2), of s] by simp
  let ?v = "kc_format_version (load_checkpoint_config s)"
  have hash: "compute_checkpoint_hash sha (k\<lparr> ks_format_version := ?v \<rparr>) = Inr (km_state_hash m)"
    using hash_of_content [of k' "k\<lparr> ks_format_version := ?v \<rparr>" sha] k' by (simp add: metadata_of_def)
  have "?v = ks_format_version k \<Longrightarrow> compute_checkpoint_hash sha k = Inr (km_state_hash m)"
    using hash by (metis checkpoint_snapshot.surjective checkpoint_snapshot.update_convs(2))
  then show ?thesis using k k' signed content hash by (auto simp: metadata_of_def)
qed

definition demo_restore :: "(env \<times> watch_call) list" where
  "demo_restore =
     [(demo_at 5, VaultCall (VaInitialize ''A'')),
      (demo_at 6, AssetCall (WaRegisterAsset ''A'' ''USDC'')),
      (demo_at 8, VaultCall (VaCreateCheckpoint ''A'' ''good'')),
      (demo_at 10, AssetCall (WaRegisterAsset ''A'' ''EURC''))]"

lemma restore_reproduces_witness:
  "\<exists>m s'. restore_from_checkpoint demo_sha (demo_at 11) ''A'' 1 (run (watch_exec ''W'' demo_sha) watch_start demo_restore) = Inr (m, s')
     \<and> load_registered_assets_raw s' = [''USDC''] \<and> km_restored_from m = Some 1"
proof -
  let ?s = "run (watch_exec ''W'' demo_sha) watch_start demo_restore"
  have "is_ok (restore_from_checkpoint demo_sha (demo_at 11) ''A'' 1 ?s)" by code_simp
  then obtain m s' where r: "restore_from_checkpoint demo_sha (demo_at 11) ''A'' 1 ?s = Inr (m, s')" by (auto simp: is_ok_iff)
  have k: "map_option ks_monitored_assets (va_checkpoint_snapshot ?s 1) = Some [''USDC'']" by code_simp
  obtain x where x: "va_checkpoint_snapshot ?s 1 = Some x" "ks_monitored_assets x = [''USDC'']" using k by (auto simp: map_option_eq_Some)
  have "load_registered_assets_raw s' = [''USDC''] \<and> km_restored_from m = Some 1"
    using restore_reproduces [OF refl r] x by (elim exE conjE) (simp only: option.inject)
  with r show ?thesis by blast
qed

text \<open>C20: What a cleanup of historical data deletes, in any state: no more records than its budget in
  total, and in every bucket (the supply mismatches of a bridge, the liquidity history of a pair, the
  checkpoints) only records past their retention time and never the newest one, the others staying in
  order. Where the policy of the bucket archives before it deletes, the live and the archived records
  together are the same before and after; where it does not, which is the default policy, the archive
  is unchanged and the deleted records are gone.\<close>

theorem cleanup_loses_nothing:
  assumes "cleanup_old_data env caller budget s = Inr (r, s')"
  shows "kept_safe env s s'
    \<and> cu_total_deleted r \<le> budget \<and> cu_total_deleted r = sum_list (map cd_deleted (cu_details r))"
  by (rule cleanup_old_safe [OF assms])

definition demo_retention :: "(env \<times> watch_call) list" where
  "demo_retention =
     [(demo_at 5, VaultCall (VaInitialize ''A'')),
      (demo_at 6, VaultCall (VaSetRetentionPolicy ''A'' SupplyMismatches 100 3600 50 True True)),
      (demo_at 7, MarketCall (WmRecordMismatch ''b'' ''USDC'' 100 100)),
      (demo_at 8, MarketCall (WmRecordMismatch ''b'' ''USDC'' 101 100)),
      (demo_at 150, MarketCall (WmRecordMismatch ''b'' ''USDC'' 102 100))]"

lemma cleanup_loses_nothing_witness:
  "\<exists>r s'. cleanup_old_data (demo_at 200) ''A'' 9 (run (watch_exec ''W'' demo_sha) watch_start demo_retention) = Inr (r, s')
     \<and> map sm_stellar_supply (live_mismatches s' ''b'') = [102]
     \<and> size (mset (live_mismatches s' ''b'') + mset (archived_mismatches s' ''b'')) = 3"
proof -
  let ?s = "run (watch_exec ''W'' demo_sha) watch_start demo_retention"
  have live: "map_sum id (\<lambda>(r, s'). map sm_stellar_supply (live_mismatches s' ''b''))
      (cleanup_old_data (demo_at 200) ''A'' 9 ?s) = Inr [102]" by code_simp
  then obtain r s' where c: "cleanup_old_data (demo_at 200) ''A'' 9 ?s = Inr (r, s')" "map sm_stellar_supply (live_mismatches s' ''b'') = [102]"
    by (cases "cleanup_old_data (demo_at 200) ''A'' 9 ?s") auto
  have b: "rp_archive_before_delete (load_retention_policy SupplyMismatches ?s)"
    "size (mset (live_mismatches ?s ''b'') + mset (archived_mismatches ?s ''b'')) = 3" by code_simp+
  have "mset (live_mismatches s' ''b'') + mset (archived_mismatches s' ''b'') = mset (live_mismatches ?s ''b'') + mset (archived_mismatches ?s ''b'')"
    using cleanup_loses_nothing [OF c(1)] b(1) unfolding kept_safe_def bucket_safe_def by simp
  with b c show ?thesis by metis
qed

end
