(* ===== verification/Watch_History.thy ===== *)
theory Watch_History
  imports Watch_Contract
begin

text \<open>
  What histories of the watch contract (\<open>soroban/src/lib.rs\<close>) mean for its signers, its locks and
  its pools: the effect of every entry point on that part of the state, and from it the properties of
  nonces, lock records and pool states; then the blocking of all submissions by a lost health record,
  and the bounds of the health aggregated over several sources.
\<close>

section \<open>What the vault leaves alone\<close>

lemma cleans_more: "cleans s s' \<Longrightarrow> vault_state.more s' = vault_state.more s"
  by (erule cleans_field) (simp add: wipe_def)

lemma prune_more: "vault_state.more (prune_checkpoints c s) = vault_state.more s"
  by (rule cleans_more) (auto simp: prune_checkpoints_def prune_loop_spec Let_def cleans_eq)

lemma persist_more:
  assumes "persist_checkpoint sha env c t l r s = Inr (m, s')"
  shows "vault_state.more s' = vault_state.more s"
proof -
  obtain k h where "maybe_trigger_auto_cleanup env (prune_checkpoints (load_checkpoint_config s) (store_checkpoint k h s)) = Inr s'"
    using assms by (auto simp: persist_checkpoint_def Let_def)
  then show ?thesis by (auto dest!: auto_cleanup_frame cleans_more simp: prune_more store_checkpoint_def)
qed

lemma auto_checkpoint_more: "maybe_create_auto_checkpoint sha env c s = Inr s' \<Longrightarrow> vault_state.more s' = vault_state.more s"
  by (auto simp: maybe_create_auto_checkpoint_def Let_def if_Inr_eq dest: persist_more split: if_splits)

lemma acl_more: "acl_exec env c s = Inr s' \<Longrightarrow> vault_state.more s' = vault_state.more (s :: 'z vault_state_scheme)"
  by (drule acl_exec_more) (cases s; cases s'; simp)

lemma core_more: "core_exec self env c s = Inr s' \<Longrightarrow> vault_state.more s' = vault_state.more (s :: 'z vault_state_scheme)"
  by (cases c) (auto simp: core_op_defs core_log_defs Let_def if_Inr_eq)

lemma initialize_more: "watch_initialize env a s = Inr s' \<Longrightarrow> vault_state.more s' = vault_state.more s"
  by (auto simp: watch_initialize_def core_initialize_def initialize_retention_policies_def retention_data_types_def)

lemma apply_snapshot_more: "vault_state.more (apply_snapshot k s) = vault_state.more s"
  using apply_snapshot_field [of vault_state.more k s] by (simp add: bare_def)

lemma vault_more:
  assumes "vault_exec sha env c s = Inr s'"
  shows "vault_state.more s' = vault_state.more s"
proof (cases c)
  case (VaInitialize a)
  then show ?thesis using assms initialize_more by simp
next
  case (VaSetCheckpointConfig x i m v)
  then show ?thesis using assms by (auto simp: set_checkpoint_config_def prune_more Let_def)
next
  case (VaCreateCheckpoint x l)
  then show ?thesis using assms by (auto simp: create_checkpoint_def dest: persist_more)
next
  case (VaRestore x i)
  then show ?thesis using assms by (auto simp: restore_from_checkpoint_def apply_snapshot_more dest!: persist_more)
next
  case (VaCleanupOld x m)
  then show ?thesis using assms by (auto dest: cleanup_old_frame cleans_more)
next
  case (VaCleanupType x t m)
  then show ?thesis using assms by (auto dest: cleanup_type_frame cleans_more)
qed (use assms in \<open>auto simp: set_retention_policy_def set_asset_retention_override_def split: option.splits\<close>)

section \<open>Signers, locks and pools\<close>

text \<open>The part of the state only the signature, lock and pool entry points change.\<close>

definition watch_view :: "market_state \<Rightarrow> (string \<rightharpoonup> nat) \<times> (string \<rightharpoonup> asset_lock_state)
    \<times> (string \<rightharpoonup> asset_lock_record list) \<times> liquidity_state" where
  "watch_view s = (wa_signer_nonce s, wa_lock s, wa_lock_history s, wm_pools s)"

lemma more_view: "vault_state.more s' = vault_state.more s \<Longrightarrow> watch_view s' = watch_view s"
  by (cases s; cases s') (simp add: watch_view_def)

lemmas auto_checkpoint_watch = auto_checkpoint_more [THEN more_view]

lemma append_watch:
  "append_admin_activity env act a d s = Inr s' \<Longrightarrow> watch_view s' = watch_view s"
  "append_replay_event env ty a subj v s = Inr s' \<Longrightarrow> watch_view s' = watch_view s"
  by (auto simp: core_log_defs Let_def if_Inr_eq watch_view_def)

lemma rate_limit_watch: "enforce_rate_limit env c s = Inr s' \<Longrightarrow> watch_view s' = watch_view s"
  by (auto simp: enforce_rate_limit_def Let_def watch_view_def split: option.splits if_splits)

lemma store_batch_watch: "store_batch env rs s = Inr s' \<Longrightarrow> watch_view s' = watch_view s"
proof (induction rs arbitrary: s)
  case (Cons r rs)
  then show ?case by (fastforce simp: watch_view_def)
qed simp

lemma watch_fields [simp]:
  "watch_view (s\<lparr> va_health := x1 \<rparr>) = watch_view s" "watch_view (s\<lparr> va_price := x2 \<rparr>) = watch_view s"
  "watch_view (s\<lparr> va_health_result := x3 \<rparr>) = watch_view s" "watch_view (s\<lparr> va_mismatches := x4 \<rparr>) = watch_view s"
  "watch_view (s\<lparr> va_bridge_ids := x5 \<rparr>) = watch_view s" "watch_view (s\<lparr> va_liquidity_history := x6 \<rparr>) = watch_view s"
  "watch_view (s\<lparr> va_liquidity_pairs := x7 \<rparr>) = watch_view s" "watch_view (s\<lparr> va_health_weights := x8 \<rparr>) = watch_view s"
  "watch_view (s\<lparr> va_risk_score_config := x9 \<rparr>) = watch_view s" "watch_view (s\<lparr> va_monitored_assets := x10 \<rparr>) = watch_view s"
  "watch_view (s\<lparr> wa_price_history := a1 \<rparr>) = watch_view s" "watch_view (s\<lparr> wa_signer := a2 \<rparr>) = watch_view s"
  "watch_view (s\<lparr> wa_signer_list := a3 \<rparr>) = watch_view s" "watch_view (s\<lparr> wa_signature_threshold := a4 \<rparr>) = watch_view s"
  "watch_view (s\<lparr> wa_signature_cache := a5 \<rparr>) = watch_view s" "watch_view (s\<lparr> wa_rate_limit_config := a6 \<rparr>) = watch_view s"
  "watch_view (s\<lparr> wa_trusted_source := a7 \<rparr>) = watch_view s" "watch_view (s\<lparr> wa_all_sources := a8 \<rparr>) = watch_view s"
  "watch_view (s\<lparr> wa_health_sources := a9 \<rparr>) = watch_view s" "watch_view (s\<lparr> wa_source_entry := a10 \<rparr>) = watch_view s"
  "watch_view (s\<lparr> wa_expiration_policy := a11 \<rparr>) = watch_view s"
  "watch_view (s\<lparr> wm_config_entry := b1 \<rparr>) = watch_view s" "watch_view (s\<lparr> wm_config_keys := b2 \<rparr>) = watch_view s"
  "watch_view (s\<lparr> wm_config_audit := b3 \<rparr>) = watch_view s" "watch_view (s\<lparr> wm_deviation_threshold := b4 \<rparr>) = watch_view s"
  "watch_view (s\<lparr> wm_deviation_override := b5 \<rparr>) = watch_view s" "watch_view (s\<lparr> wm_deviation_alert := b6 \<rparr>) = watch_view s"
  "watch_view (s\<lparr> wm_mismatch_threshold := b7 \<rparr>) = watch_view s" "watch_view (s\<lparr> wm_mismatch_override := b8 \<rparr>) = watch_view s"
  "watch_view (s\<lparr> wm_liquidity_depth := b9 \<rparr>) = watch_view s" "watch_view (s\<lparr> wm_statistics := b10 \<rparr>) = watch_view s"
  "watch_view (s\<lparr> wm_expiration_ttl := b11 \<rparr>) = watch_view s" "watch_view (s\<lparr> wm_cleanup_stats := b12 \<rparr>) = watch_view s"
  by (simp_all add: watch_view_def)

lemmas watch_steps = auto_checkpoint_watch append_watch rate_limit_watch store_batch_watch

lemma submissions_watch:
  "submit_health_internal sha env c a h l p u s = Inr s' \<Longrightarrow> watch_view s' = watch_view s"
  "submit_price_internal sha env c a q src s = Inr s' \<Longrightarrow> watch_view s' = watch_view s"
  "submit_health_batch_internal sha env c rs s = Inr s' \<Longrightarrow> watch_view s' = watch_view s"
  by (auto simp: submit_health_internal_def submit_price_internal_def submit_health_batch_internal_def Let_def dest!: watch_steps)

text \<open>The part of the market entry points follows the same pattern as for the checkpoints.\<close>

lemma set_config_watch: "set_config_internal env c k n v d s = Inr s' \<Longrightarrow> watch_view s' = watch_view s"
  by (auto simp: set_config_internal_def push_audit_def Let_def split: prod.splits)

lemma apply_updates_watch: "apply_updates env c us s = Inr s' \<Longrightarrow> watch_view s' = watch_view s"
  by (induction us arbitrary: s) (auto dest: set_config_watch)

lemma seed_configs_watch: "seed_configs env c ds s = Inr s' \<Longrightarrow> watch_view s' = watch_view s"
proof (induction ds arbitrary: s)
  case (Cons d ds)
  obtain k n v x where d: "d = (k, n, v, x)" by (cases d)
  obtain s1 where "s1 = s \<or> set_config_internal env c k n v x s = Inr s1" "seed_configs env c ds s1 = Inr s'"
    using Cons.prems by (auto simp: d split: if_splits)
  then show ?case using Cons.IH set_config_watch by fastforce
qed simp

lemma override_audit_watch: "append_threshold_override_audit env n x y c s = Inr s' \<Longrightarrow> watch_view s' = watch_view s"
  by (auto simp: append_threshold_override_audit_def push_audit_def Let_def)

lemma load_override_watch [simp]:
  "watch_view (snd (load_active_deviation_threshold_override env a s)) = watch_view s"
  "watch_view (snd (load_active_mismatch_threshold_override env a s)) = watch_view s"
  by (auto simp: load_active_deviation_threshold_override_def load_active_mismatch_threshold_override_def split: option.splits)

lemma resolve_watch [simp]:
  "watch_view (snd (resolve_deviation_threshold env a s)) = watch_view s"
  "watch_view (snd (resolve_mismatch_threshold_bps env a s)) = watch_view s"
  using load_override_watch [where env = env and a = a and s = s]
  by (simp_all add: resolve_deviation_threshold_def resolve_mismatch_threshold_bps_def case_prod_beta split: option.splits)

lemma check_deviation_watch:
  assumes "check_price_deviation env a p s = Inr (r, s')"
  shows "watch_view s' = watch_view s"
proof -
  obtain t s1 where r: "resolve_deviation_threshold env a s = (t, s1)" by fastforce
  then have "watch_view s1 = watch_view s" using resolve_watch(1) [of env a s] by simp
  then show ?thesis using assms r by (auto simp: check_price_deviation_def Let_def split: option.splits if_splits)
qed

lemma expire_watch:
  "expire_asset now p mx a (s, n, t) = Inr (s', n', t') \<Longrightarrow> watch_view s' = watch_view s"
  by (auto simp: expire_asset_def Let_def split: prod.splits)

lemma expire_assets_watch: "expire_assets now p mx as (s, n, t) = Inr (s', n', t') \<Longrightarrow> watch_view s' = watch_view s"
proof (induction as arbitrary: s n t)
  case (Cons a as)
  then show ?case using expire_watch by (fastforce split: if_splits)
qed simp

lemma expire_bridges_watch: "expire_bridges now p bs (s, n, t) = Inr (s', n', t') \<Longrightarrow> watch_view s' = watch_view s"
  by (induction bs arbitrary: s n t) (auto split: prod.splits)

lemma expire_pairs_watch: "expire_pairs now p mx bs (s, n, t) = Inr (s', n', t') \<Longrightarrow> watch_view s' = watch_view s"
  by (induction bs arbitrary: s n t) (auto simp: Let_def split: prod.splits)

lemma cleanup_expired_watch: "cleanup_expired_data env c mx s = Inr (r, s') \<Longrightarrow> watch_view s' = watch_view s"
  by (auto simp: cleanup_expired_data_def Let_def dest!: expire_assets_watch expire_bridges_watch expire_pairs_watch)

lemma extend_record_watch:
  "extend_health now x a s = Inr s' \<Longrightarrow> watch_view s' = watch_view s"
  "extend_price now x a s = Inr s' \<Longrightarrow> watch_view s' = watch_view s"
  "extend_alert now x a s = Inr s' \<Longrightarrow> watch_view s' = watch_view s"
  "extend_result now x a s = Inr s' \<Longrightarrow> watch_view s' = watch_view s"
  by (auto simp: extend_health_def extend_price_def extend_alert_def extend_result_def split: option.splits)

lemma extend_watch: "extend_expiration env c a x s = Inr s' \<Longrightarrow> watch_view s' = watch_view s"
  by (auto simp: extend_expiration_def dest!: extend_record_watch)

lemma compute_statistics_watch: "compute_statistics env c a p s = Inr (r, s') \<Longrightarrow> watch_view s' = watch_view s"
  by (auto simp: compute_statistics_def Let_def)

lemma periodic_watch: "periodic_loop env c as s = Inr s' \<Longrightarrow> watch_view s' = watch_view s"
  by (induction as arbitrary: s) (auto simp: Let_def split: if_splits option.splits dest!: compute_statistics_watch)

lemma auto_cleanup_watch: "maybe_trigger_auto_cleanup env s = Inr s' \<Longrightarrow> watch_view s' = watch_view s"
  by (auto dest!: auto_cleanup_frame cleans_more more_view)

section \<open>What each accepted call does to nonces, locks and pools\<close>

text \<open>The signatures a call carries, and the log of nonces they leave.\<close>

fun call_sigs :: "watch_call \<Rightarrow> signer_signature list" where
  "call_sigs (AssetCall (WaSubmitHealthSigned c a h l p u sig)) = [sig]"
| "call_sigs (AssetCall (WaSubmitPriceSigned c a q src sig)) = [sig]"
| "call_sigs (AssetCall (WaSubmitBatchSigned c rs sigs)) = sigs"
| "call_sigs (AssetCall (WaVerifySignature m sig)) = [sig]"
| "call_sigs (AssetCall (WaVerifyMultiSig m sigs)) = sigs"
| "call_sigs _ = []"

definition note_sig :: "signer_signature \<Rightarrow> (string \<rightharpoonup> nat) \<Rightarrow> (string \<rightharpoonup> nat)" where
  "note_sig sig m = m(sz_signer_id sig \<mapsto> sz_nonce sig)"

fun sigs_fresh :: "signer_signature list \<Rightarrow> (string \<rightharpoonup> nat) \<Rightarrow> bool" where
  "sigs_fresh [] m = True"
| "sigs_fresh (sig # sigs) m = (unwrap_or (m (sz_signer_id sig)) 0 < sz_nonce sig \<and> sigs_fresh sigs (note_sig sig m))"

text \<open>The effect on the view: nonces, locks with their history, pools.\<close>

fun view_effect :: "env \<Rightarrow> watch_call \<Rightarrow> market_state \<Rightarrow> market_state \<Rightarrow> bool" where
  "view_effect env (AssetCall (WaLockAsset c a r)) s s' \<longleftrightarrow> wa_signer_nonce s' = wa_signer_nonce s \<and> wm_pools s' = wm_pools s
     \<and> \<not> is_asset_locked a s \<and> (\<exists>l x. lk_is_locked l \<and> lh_locked x \<and> wa_lock s' = (wa_lock s)(a \<mapsto> l)
        \<and> wa_lock_history s' = (wa_lock_history s)(a \<mapsto> unwrap_or (wa_lock_history s a) [] @ [x]))"
| "view_effect env (AssetCall (WaUnlockAsset c a)) s s' \<longleftrightarrow> wa_signer_nonce s' = wa_signer_nonce s \<and> wm_pools s' = wm_pools s
     \<and> is_asset_locked a s \<and> (\<exists>l x. \<not> lk_is_locked l \<and> \<not> lh_locked x \<and> wa_lock s' = (wa_lock s)(a \<mapsto> l)
        \<and> wa_lock_history s' = (wa_lock_history s)(a \<mapsto> unwrap_or (wa_lock_history s a) [] @ [x]))"
| "view_effect env (MarketCall (WmRecordPool p a b sh v f t)) s s' \<longleftrightarrow> wa_signer_nonce s' = wa_signer_nonce s
     \<and> wa_lock s' = wa_lock s \<and> wa_lock_history s' = wa_lock_history s
     \<and> liquidity_exec env (RecordPoolState p a b sh v f t) (wm_pools s) = Inr (wm_pools s')"
| "view_effect env c s s' \<longleftrightarrow> sigs_fresh (call_sigs c) (wa_signer_nonce s)
     \<and> wa_signer_nonce s' = fold note_sig (call_sigs c) (wa_signer_nonce s)
     \<and> wa_lock s' = wa_lock s \<and> wa_lock_history s' = wa_lock_history s \<and> wm_pools s' = wm_pools s"

lemma verify_watch:
  assumes "verify_signature sha env m sig s = Inr (b, s')"
  shows "sigs_fresh [sig] (wa_signer_nonce s)" "watch_view s' = (note_sig sig (wa_signer_nonce s), snd (watch_view s))"
  using verify_effect [OF assms] by (auto simp: watch_view_def set_signer_nonce_def note_sig_def)

lemma multi_sig_watch:
  "multi_sig_loop sha env m sigs seen n s = Inr (k, s') \<Longrightarrow> sigs_fresh sigs (wa_signer_nonce s)
     \<and> watch_view s' = (fold note_sig sigs (wa_signer_nonce s), snd (watch_view s))"
proof (induction sigs arbitrary: seen n s)
  case Nil
  then show ?case by (simp add: watch_view_def)
next
  case (Cons sig sigs)
  then obtain b s1 seen' n' where v: "verify_signature sha env m sig s = Inr (b, s1)"
      and l: "multi_sig_loop sha env m sigs seen' n' s1 = Inr (k, s')" by auto
  note w = verify_watch [OF v]
  have "wa_signer_nonce s1 = note_sig sig (wa_signer_nonce s)" "snd (watch_view s1) = snd (watch_view s)"
    using w(2) by (simp_all add: watch_view_def)
  then show ?case using Cons.IH [OF l] w(1) by simp
qed

lemma plain_effect:
  assumes "watch_view s' = watch_view s"
  shows "sigs_fresh [] (wa_signer_nonce s) \<and> wa_signer_nonce s' = fold note_sig [] (wa_signer_nonce s)
     \<and> wa_lock s' = wa_lock s \<and> wa_lock_history s' = wa_lock_history s \<and> wm_pools s' = wm_pools s"
  using assms by (simp add: watch_view_def)

lemma signed_effect:
  assumes "watch_view s1 = (fold note_sig sigs (wa_signer_nonce s), snd (watch_view s))" "watch_view s' = watch_view s1"
  shows "wa_signer_nonce s' = fold note_sig sigs (wa_signer_nonce s)
     \<and> wa_lock s' = wa_lock s \<and> wa_lock_history s' = wa_lock_history s \<and> wm_pools s' = wm_pools s"
  using assms by (simp add: watch_view_def)

lemma asset_effect:
  assumes "asset_exec sha env c s = Inr s'"
  shows "view_effect env (AssetCall c) s s'"
proof (cases c)
  case (WaLockAsset x a r)
  define l where "l = \<lparr> lk_asset_code = a, lk_is_locked = True, lk_reason = r, lk_locked_by = x,
    lk_locked_at = timestamp env, lk_unlocked_by = None, lk_unlocked_at = None \<rparr>"
  define e where "e = \<lparr> lh_locked = True, lh_reason = r, lh_caller = x, lh_timestamp = timestamp env \<rparr>"
  have "s' = s\<lparr> wa_lock := (wa_lock s)(a \<mapsto> l),
      wa_lock_history := (wa_lock_history s)(a \<mapsto> unwrap_or (wa_lock_history s a) [] @ [e]) \<rparr> \<and> \<not> is_asset_locked a s"
    using assms WaLockAsset by (auto simp: lock_asset_def push_lock_record_def is_asset_locked_def l_def e_def split: option.splits)
  moreover have "lk_is_locked l" "lh_locked e" by (simp_all add: l_def e_def)
  ultimately show ?thesis using WaLockAsset by (simp, blast)
next
  case (WaUnlockAsset x a)
  obtain l0 where l0: "wa_lock s a = Some l0" "lk_is_locked l0" using assms WaUnlockAsset by (auto simp: unlock_asset_def)
  define l where "l = \<lparr> lk_asset_code = a, lk_is_locked = False, lk_reason = lk_reason l0, lk_locked_by = lk_locked_by l0,
    lk_locked_at = lk_locked_at l0, lk_unlocked_by = Some x, lk_unlocked_at = Some (timestamp env) \<rparr>"
  define e where "e = \<lparr> lh_locked = False, lh_reason = ''Unlocked'', lh_caller = x, lh_timestamp = timestamp env \<rparr>"
  have "s' = s\<lparr> wa_lock := (wa_lock s)(a \<mapsto> l),
      wa_lock_history := (wa_lock_history s)(a \<mapsto> unwrap_or (wa_lock_history s a) [] @ [e]) \<rparr> \<and> is_asset_locked a s"
    using assms WaUnlockAsset l0 by (auto simp: unlock_asset_def push_lock_record_def is_asset_locked_def l_def e_def)
  moreover have "\<not> lk_is_locked l" "\<not> lh_locked e" by (simp_all add: l_def e_def)
  ultimately show ?thesis using WaUnlockAsset by (simp, blast)
next
  case (WaSubmitHealthSigned x a h l p u sig)
  then obtain m b s1 where "verify_signature sha env m sig s = Inr (b, s1)" "submit_health_internal sha env x a h l p u s1 = Inr s'"
    using assms by (auto simp: submit_health_signed_def)
  then show ?thesis using WaSubmitHealthSigned signed_effect [of s1 "[sig]" s s'] verify_watch submissions_watch(1) by simp
next
  case (WaSubmitPriceSigned x a p src sig)
  then obtain m b s1 where "verify_signature sha env m sig s = Inr (b, s1)" "submit_price_internal sha env x a p src s1 = Inr s'"
    using assms by (auto simp: submit_price_signed_def)
  then show ?thesis using WaSubmitPriceSigned signed_effect [of s1 "[sig]" s s'] verify_watch submissions_watch(2) by simp
next
  case (WaSubmitBatchSigned x rs sigs)
  then obtain m n s1 where "multi_sig_loop sha env m sigs [] 0 s = Inr (n, s1)" "submit_health_batch_internal sha env x rs s1 = Inr s'"
    using assms by (auto simp: submit_health_batch_signed_def verify_multi_sig_def Let_def)
  then show ?thesis using WaSubmitBatchSigned signed_effect [of s1 sigs s s'] multi_sig_watch submissions_watch(3) by simp
next
  case (WaVerifySignature m sig)
  then obtain b where "verify_signature sha env m sig s = Inr (b, s')" using assms by auto
  then show ?thesis using WaVerifySignature signed_effect [of s' "[sig]" s s'] verify_watch by simp
next
  case (WaVerifyMultiSig m sigs)
  then obtain n where "multi_sig_loop sha env m sigs [] 0 s = Inr (n, s')"
    using assms by (auto simp: verify_multi_sig_def Let_def)
  then show ?thesis using WaVerifyMultiSig signed_effect [of s' sigs s s'] multi_sig_watch by simp
next
  case (WaSubmitHealth x a h l p u)
  then have "watch_view s' = watch_view s" using assms by (auto simp: submit_health_def dest: submissions_watch)
  then show ?thesis using WaSubmitHealth plain_effect [of s' s] by simp
next
  case (WaSubmitHealthBatch x rs)
  then have "watch_view s' = watch_view s" using assms by (auto simp: submit_health_batch_def dest: submissions_watch)
  then show ?thesis using WaSubmitHealthBatch plain_effect [of s' s] by simp
next
  case (WaSubmitPrice x a p src)
  then have "watch_view s' = watch_view s" using assms by (auto simp: submit_price_def dest: submissions_watch)
  then show ?thesis using WaSubmitPrice plain_effect [of s' s] by simp
next
  case (WaSubmitCalculated x a l p u m)
  then have "watch_view s' = watch_view s" using assms by (auto simp: submit_calculated_health_def Let_def dest!: watch_steps)
  then show ?thesis using WaSubmitCalculated plain_effect [of s' s] by simp
next
  case (WaSubmitMultiSource x i a h l p u)
  then have "watch_view s' = watch_view s" using assms by (auto simp: submit_health_multi_source_def dest!: watch_steps)
  then show ?thesis using WaSubmitMultiSource plain_effect [of s' s] by simp
next
  case (WaRegisterHealthSource x i w)
  then have "watch_view s' = watch_view s" using assms by (auto simp: register_health_source_def Let_def dest!: watch_steps)
  then show ?thesis using WaRegisterHealthSource plain_effect [of s' s] by simp
next
  case (WaRegisterAsset x a)
  then have "watch_view s' = watch_view s" using assms by (auto simp: register_asset_def Let_def dest!: watch_steps)
  then show ?thesis using WaRegisterAsset plain_effect [of s' s] by simp
next
  case (WaPauseAsset x a)
  then have "watch_view s' = watch_view s" using assms by (auto simp: pause_asset_watch_def set_asset_paused_def dest!: watch_steps)
  then show ?thesis using WaPauseAsset plain_effect [of s' s] by simp
next
  case (WaUnpauseAsset x a)
  then have "watch_view s' = watch_view s" using assms by (auto simp: unpause_asset_def set_asset_paused_def dest!: watch_steps)
  then show ?thesis using WaUnpauseAsset plain_effect [of s' s] by simp
next
  case (WaDeregisterAsset x a)
  then have "watch_view s' = watch_view s" using assms by (auto simp: deregister_asset_def dest!: watch_steps)
  then show ?thesis using WaDeregisterAsset plain_effect [of s' s] by simp
next
  case (WaSetHealthWeights x l p u v)
  then have "watch_view s' = watch_view s" using assms by (auto simp: set_health_weights_def dest!: watch_steps)
  then show ?thesis using WaSetHealthWeights plain_effect [of s' s] by simp
next
  case (WaSetRiskConfig x k)
  then have "watch_view s' = watch_view s" using assms by (auto simp: set_risk_score_config_def dest!: watch_steps)
  then show ?thesis using WaSetRiskConfig plain_effect [of s' s] by simp
qed (use assms in \<open>auto simp: register_signer_def remove_signer_watch_def
      set_signature_threshold_def set_rate_limit_config_def add_trusted_source_def drop_trusted_source_def
      register_trusted_source_def revoke_trusted_source_def revoke_health_source_def Let_def\<close>)

lemma record_pool_effect:
  assumes "watch_record_pool env p a b sh v f t s = Inr s'"
  shows "view_effect env (MarketCall (WmRecordPool p a b sh v f t)) s s'"
proof -
  obtain admin s1 x pools where r: "enforce_rate_limit env admin s = Inr s1"
      "record_pool_state env p a b sh v f t (wm_pools s1) = Inr (x, pools)" "s' = s1\<lparr> wm_pools := pools \<rparr>"
    using assms by (auto simp: watch_record_pool_def)
  then show ?thesis using rate_limit_watch [OF r(1)] by (simp add: watch_view_def)
qed

lemma market_effect:
  assumes "market_exec env c s = Inr s'"
  shows "view_effect env (MarketCall c) s s'"
proof (cases "\<exists>p a b sh v f t. c = WmRecordPool p a b sh v f t")
  case True
  then show ?thesis using assms record_pool_effect by auto
next
  case False
  have "watch_view s' = watch_view s"
  proof (cases c)
    case (WmRecordMismatch b a x y)
    then obtain admin s1 m k where "enforce_rate_limit env admin s = Inr s1"
        "maybe_trigger_auto_cleanup env ((snd (resolve_mismatch_threshold_bps env a s1))\<lparr> va_mismatches := m, va_bridge_ids := k \<rparr>) = Inr s'"
      using assms by (auto simp: record_supply_mismatch_def Let_def case_prod_beta)
    then show ?thesis by (auto dest!: rate_limit_watch auto_cleanup_watch)
  next
    case (WmRecordDepth p l a b d e src)
    then obtain admin s1 x y z where "enforce_rate_limit env admin s = Inr s1"
        "maybe_trigger_auto_cleanup env (s1\<lparr> wm_liquidity_depth := x, va_liquidity_history := y, va_liquidity_pairs := z \<rparr>) = Inr s'"
      using assms by (auto simp: record_liquidity_depth_def Let_def)
    then show ?thesis by (auto dest!: rate_limit_watch auto_cleanup_watch)
  qed (use assms False in \<open>auto simp: set_config_def set_config_bulk_def init_default_config_def set_deviation_threshold_def
        set_deviation_threshold_override_def clear_dev_threshold_override_def set_mismatch_threshold_def
        set_mismatch_threshold_override_def clear_mm_threshold_override_def set_expiration_policy_def
        set_asset_expiration_ttl_def trigger_periodic_stats_def Let_def
        dest: set_config_watch apply_updates_watch seed_configs_watch override_audit_watch
          check_deviation_watch cleanup_expired_watch extend_watch compute_statistics_watch periodic_watch\<close>)
  then show ?thesis using False plain_effect [of s' s] by (cases c) auto
qed

lemma watch_effect:
  assumes "watch_exec self sha env c s = Inr s'"
  shows "view_effect env c s s'"
proof (cases c)
  case (AclCall x)
  then have "acl_exec env x s = Inr s'" using assms by simp
  then have "watch_view s' = watch_view s" by (rule acl_more [THEN more_view])
  then show ?thesis using AclCall plain_effect [of s' s] by simp
next
  case (CoreCall x)
  have "vault_state.more s' = vault_state.more s"
  proof (cases "\<exists>a. x = CoInitialize a")
    case True
    then show ?thesis using CoreCall assms initialize_more by auto
  next
    case False
    then have "core_exec self env x s = Inr s'" using CoreCall assms by (cases x) auto
    then show ?thesis by (rule core_more)
  qed
  then have "watch_view s' = watch_view s" by (rule more_view)
  then show ?thesis using CoreCall plain_effect [of s' s] by simp
next
  case (VaultCall x)
  then have "vault_exec sha env x s = Inr s'" using assms by simp
  then have "watch_view s' = watch_view s" by (rule vault_more [THEN more_view])
  then show ?thesis using VaultCall plain_effect [of s' s] by simp
next
  case (AssetCall x)
  then show ?thesis using assms asset_effect by simp
next
  case (MarketCall x)
  then show ?thesis using assms market_effect by simp
qed

section \<open>Nonces\<close>

text \<open>The nonces of one signer in the accepted calls of a history.\<close>

fun used_nonces :: "string \<Rightarrow> address \<Rightarrow> (bytes \<Rightarrow> bytes) \<Rightarrow> market_state \<Rightarrow> (env \<times> watch_call) list \<Rightarrow> nat list" where
  "used_nonces sid self sha s [] = []"
| "used_nonces sid self sha s ((env, c) # h) = (case watch_exec self sha env c s of
     Inl _ \<Rightarrow> used_nonces sid self sha s h
   | Inr s' \<Rightarrow> map sz_nonce (filter (\<lambda>x. sz_signer_id x = sid) (call_sigs c)) @ used_nonces sid self sha s' h)"

lemma effect_sigs:
  "view_effect env c s s' \<Longrightarrow> sigs_fresh (call_sigs c) (wa_signer_nonce s) \<and> wa_signer_nonce s' = fold note_sig (call_sigs c) (wa_signer_nonce s)"
  by (induction env c s s' rule: view_effect.induct) simp_all

lemma fresh_sorted:
  "sigs_fresh sigs m \<Longrightarrow> sorted_wrt (<) (unwrap_or (m sid) 0 # map sz_nonce (filter (\<lambda>x. sz_signer_id x = sid) sigs))
     \<and> unwrap_or (fold note_sig sigs m sid) 0 = last (unwrap_or (m sid) 0 # map sz_nonce (filter (\<lambda>x. sz_signer_id x = sid) sigs))"
proof (induction sigs arbitrary: m)
  case (Cons g sigs)
  then have "sigs_fresh sigs (note_sig g m)" "unwrap_or (m (sz_signer_id g)) 0 < sz_nonce g" by auto
  with Cons.IH [OF this(1)] show ?case by (auto simp: note_sig_def split: if_splits)
qed simp

lemma sorted_join:
  "sorted_wrt (<) (x # ns) \<Longrightarrow> sorted_wrt (<) (last (x # ns) # ms) \<Longrightarrow> sorted_wrt (<) ((x :: nat) # ns @ ms)"
proof (induction ns arbitrary: x)
  case (Cons n ns)
  have "sorted_wrt (<) (n # ns @ ms)" using Cons.IH [of n] Cons.prems by simp
  moreover have "x < y" if "y \<in> set (n # ns @ ms)" for y
    using that calculation Cons.prems(1) by (cases "y = n") (auto intro: order.strict_trans [of x n y])
  ultimately show ?case by simp
qed simp

lemma used_nonces_sorted: "sorted_wrt (<) (unwrap_or (wa_signer_nonce s sid) 0 # used_nonces sid self sha s h)
   \<and> unwrap_or (wa_signer_nonce (run (watch_exec self sha) s h) sid) 0 = last (unwrap_or (wa_signer_nonce s sid) 0 # used_nonces sid self sha s h)"
proof (induction sid self sha s h rule: used_nonces.induct)
  case (2 sid self sha s env c h)
  show ?case
  proof (cases "watch_exec self sha env c s")
    case (Inl e)
    then show ?thesis using 2(1) by (simp add: invoke_def)
  next
    case (Inr s')
    let ?ns = "map sz_nonce (filter (\<lambda>x. sz_signer_id x = sid) (call_sigs c))"
    note f = effect_sigs [OF watch_effect [OF Inr]]
    note g = fresh_sorted [of "call_sigs c" "wa_signer_nonce s" sid]
    have l: "unwrap_or (wa_signer_nonce s' sid) 0 = last (unwrap_or (wa_signer_nonce s sid) 0 # ?ns)" using f g by simp
    show ?thesis using sorted_join [of "unwrap_or (wa_signer_nonce s sid) 0" ?ns] 2(2) [OF Inr] g f l Inr
      by (auto simp: invoke_def)
  qed
qed simp

text \<open>C6: Signatures cannot be replayed: in every history of the contract the nonces a signer has used in
  accepted calls, signed submissions and bare verifications alike, increase strictly, and the stored
  nonce is the last of them.\<close>

theorem signer_nonces_increase:
  "sorted_wrt (<) (0 # used_nonces sid self sha watch_start h)
   \<and> unwrap_or (wa_signer_nonce (run (watch_exec self sha) watch_start h) sid) 0 = last (0 # used_nonces sid self sha watch_start h)"
  using used_nonces_sorted [of watch_start sid self sha h] by (simp add: watch_start_def)

lemma used_nonce_kept:
  fixes s :: market_state
  shows "unwrap_or (wa_signer_nonce s sid) 0 \<le> unwrap_or (wa_signer_nonce (run (watch_exec self sha) s h) sid) 0"
proof -
  let ?n = "unwrap_or (wa_signer_nonce s sid) 0"
  have "sorted_wrt (<) (?n # used_nonces sid self sha s h)" and last: "unwrap_or (wa_signer_nonce (run (watch_exec self sha) s h) sid) 0
      = last (?n # used_nonces sid self sha s h)"
    using used_nonces_sorted [of s sid self sha h] by blast+
  then have "\<forall>m\<in>set (used_nonces sid self sha s h). ?n < m" by simp
  with last show ?thesis by (cases "used_nonces sid self sha s h") (auto intro: less_imp_le)
qed

text \<open>C11: A signature is not evidence of a signer: everything under it is public. In any state, for any
  active signer whose identifier has at most 256 characters and whose last nonce is below 2^64-1, and
  any hash with 32-byte results, anyone can without any authorisation make a signature that the
  verification accepts and that uses up the largest nonce; from then on, after whatever later calls
  of the contract and at whatever time, every signature of that signer is refused.\<close>

theorem signer_lockout:
  fixes s :: market_state
  assumes "wa_signer s sid = Some x" "sg_active x" "length sid \<le> 256" "unwrap_or (wa_signer_nonce s sid) 0 < 2 ^ 64 - 1"
    "\<And>data. length (sha data) = 32"
  shows "\<exists>sig s'. sz_signer_id sig = sid
    \<and> watch_exec self sha \<lparr> timestamp = now, auths = [] \<rparr> (AssetCall (WaVerifySignature message sig)) s = Inr s'
    \<and> (\<forall>h env m sig'. sz_signer_id sig' = sid \<and> sz_nonce sig' < 2 ^ 64 \<longrightarrow>
         \<not> is_ok (verify_signature sha env m sig' (run (watch_exec self sha) s' h)))"
proof -
  define body where "body = \<lparr> sz_signer_id = sid, sz_signature = [], sz_nonce = 2 ^ 64 - 1, sz_expiry = 0 \<rparr>"
  have "is_ok (signed_data message body x)" using assms(3) by (simp add: signed_data_def str_to_bytes_def body_def is_ok_def min_def)
  then obtain data where data: "signed_data message body x = Inr data" by (auto simp: is_ok_iff)
  define sig where "sig = body\<lparr> sz_signature := sha data @ sha data \<rparr>"
  have sig: "sz_signer_id sig = sid" "sz_nonce sig = 2 ^ 64 - 1" "sz_expiry sig = 0" "signed_data message sig x = Inr data"
    "sz_signature sig = sha data @ sha data"
    using data by (simp_all add: sig_def body_def signed_data_def)
  have "digest_matches (sz_signature sig) (sha data)"
    using assms(5) [of data] by (auto simp: digest_matches_def sig list_all_iff nth_append)
  then obtain s' where v: "verify_signature sha \<lparr> timestamp = now, auths = [] \<rparr> message sig s = Inr (True, s')" "wa_signer_nonce s' sid = Some (2 ^ 64 - 1)"
    using assms(1,2,4) sig that by (cases "unwrap_or (wa_signature_cache s (sha message)) False")
      (auto simp: verify_signature_def load_signer_def set_signer_nonce_def Let_def)
  have "\<not> is_ok (verify_signature sha env m sig' (run (watch_exec self sha) s' h))"
    if "sz_signer_id sig' = sid" "sz_nonce sig' < 2 ^ 64" for h env m sig'
  proof
    assume "is_ok (verify_signature sha env m sig' (run (watch_exec self sha) s' h))"
    then obtain b u where "verify_signature sha env m sig' (run (watch_exec self sha) s' h) = Inr (b, u)" by (auto simp: is_ok_iff)
    from verify_effect [OF this] show False using that v(2) used_nonce_kept [of s' sid self sha h] by simp
  qed
  moreover have "watch_exec self sha \<lparr> timestamp = now, auths = [] \<rparr> (AssetCall (WaVerifySignature message sig)) s = Inr s'" using v(1) by auto
  ultimately show ?thesis using sig(1) by blast
qed

definition demo_signer :: "(env \<times> watch_call) list" where
  "demo_signer = [(demo_at 5, VaultCall (VaInitialize ''A'')), (demo_at 6, AssetCall (WaRegisterSigner ''A'' ''bot'' (replicate 32 7)))]"

lemma signer_lockout_witness:
  "\<exists>sig s'. watch_exec ''W'' demo_sha \<lparr> timestamp = 7, auths = [] \<rparr> (AssetCall (WaVerifySignature [1] sig))
     (run (watch_exec ''W'' demo_sha) watch_start demo_signer) = Inr s' \<and> sz_signer_id sig = ''bot''"
proof -
  let ?s = "run (watch_exec ''W'' demo_sha) watch_start demo_signer"
  have "map_option sg_active (wa_signer ?s ''bot'') = Some True" "unwrap_or (wa_signer_nonce ?s ''bot'') 0 = 0" by code_simp+
  moreover from this(1) obtain x where "wa_signer ?s ''bot'' = Some x" "sg_active x" by (auto simp: map_option_eq_Some)
  moreover have "length (demo_sha data) = 32" for data by (simp add: demo_sha_def)
  ultimately show ?thesis
    using signer_lockout [where s = ?s and sid = "''bot''" and sha = demo_sha and self = "''W''" and now = 7 and message = "[1]" and x = x]
    by fastforce
qed

section \<open>Locks\<close>

definition lock_log :: "market_state \<Rightarrow> string \<Rightarrow> asset_lock_record list" where
  "lock_log s a = unwrap_or (wa_lock_history s a) []"

definition locks_ok :: "market_state \<Rightarrow> bool" where
  "locks_ok s \<longleftrightarrow> (\<forall>a. map lh_locked (lock_log s a) = map even [0 ..< length (lock_log s a)]
     \<and> is_asset_locked a s = odd (length (lock_log s a)))"

lemma locks_same: "wa_lock s' = wa_lock s \<Longrightarrow> wa_lock_history s' = wa_lock_history s \<Longrightarrow> locks_ok s' = locks_ok s"
  by (simp add: locks_ok_def lock_log_def is_asset_locked_def)

lemma lock_step:
  assumes "locks_ok s" "is_asset_locked a s = (\<not> lk_is_locked l)" "lh_locked x = lk_is_locked l"
    "wa_lock s' = (wa_lock s)(a \<mapsto> l)" "wa_lock_history s' = (wa_lock_history s)(a \<mapsto> unwrap_or (wa_lock_history s a) [] @ [x])"
  shows "locks_ok s'"
  unfolding locks_ok_def
proof (intro allI)
  fix b
  show "map lh_locked (lock_log s' b) = map even [0 ..< length (lock_log s' b)] \<and> is_asset_locked b s' = odd (length (lock_log s' b))"
    using assms(1) [unfolded locks_ok_def, rule_format, of b] assms(2-)
    by (cases "b = a") (simp_all add: lock_log_def is_asset_locked_def)
qed

lemma effect_locks:
  assumes "view_effect env c s s'" "locks_ok s"
  shows "locks_ok s'"
proof (cases "wa_lock s' = wa_lock s \<and> wa_lock_history s' = wa_lock_history s")
  case True
  then show ?thesis using locks_same [of s' s] assms(2) by simp
next
  case False
  have "\<exists>a l x. is_asset_locked a s = (\<not> lk_is_locked l) \<and> lh_locked x = lk_is_locked l \<and> wa_lock s' = (wa_lock s)(a \<mapsto> l)
      \<and> wa_lock_history s' = (wa_lock_history s)(a \<mapsto> unwrap_or (wa_lock_history s a) [] @ [x])"
    using assms(1) False by (induction env c s s' rule: view_effect.induct) (simp_all, blast+)
  then show ?thesis using lock_step [OF assms(2)] by blast
qed

interpretation locks: contract_invariant "watch_exec self sha" "\<lambda>s. s = watch_start" "\<lambda>_. True" locks_ok
  for self :: address and sha :: "bytes \<Rightarrow> bytes"
proof
  fix s :: market_state
  assume "s = watch_start"
  then show "locks_ok s" by (simp add: watch_start_def locks_ok_def lock_log_def is_asset_locked_def)
next
  fix s s' :: market_state and c env
  assume "locks_ok s" "watch_exec self sha env c s = Inr s'"
  then show "locks_ok s'" using effect_locks watch_effect by blast
qed

text \<open>C35: In every history the lock records of an asset alternate, beginning with a lock, and the asset is
  locked exactly when the last record is one.\<close>

theorem lock_history_alternates:
  assumes "s = run (watch_exec self sha) watch_start h"
  shows "map lh_locked (lock_log s a) = map even [0 ..< length (lock_log s a)]
    \<and> is_asset_locked a s = (lock_log s a \<noteq> [] \<and> lh_locked (last (lock_log s a)))"
proof -
  have "locks_ok s" using locks.run_inv [of watch_start h self sha] assms by (simp add: list_all_iff)
  then have m: "map lh_locked (lock_log s a) = map even [0 ..< length (lock_log s a)]" "is_asset_locked a s = odd (length (lock_log s a))"
    by (auto simp: locks_ok_def)
  show ?thesis
  proof (cases "lock_log s a" rule: rev_cases)
    case (snoc ys y)
    then show ?thesis using m by simp
  qed (use m in simp)
qed

definition demo_locks :: "(env \<times> watch_call) list" where
  "demo_locks = [(demo_at 5, VaultCall (VaInitialize ''A'')), (demo_at 6, AssetCall (WaRegisterAsset ''A'' ''USDC'')),
     (demo_at 7, AssetCall (WaLockAsset ''A'' ''USDC'' ''audit'')), (demo_at 8, AssetCall (WaLockAsset ''A'' ''USDC'' ''again'')),
     (demo_at 9, AssetCall (WaUnlockAsset ''A'' ''USDC'')), (demo_at 9, AssetCall (WaLockAsset ''A'' ''USDC'' ''third''))]"

lemma lock_history_alternates_witness:
  "map lh_locked (lock_log (run (watch_exec ''W'' demo_sha) watch_start demo_locks) ''USDC'') = [True, False, True]
   \<and> is_asset_locked ''USDC'' (run (watch_exec ''W'' demo_sha) watch_start demo_locks)"
proof -
  let ?s = "run (watch_exec ''W'' demo_sha) watch_start demo_locks"
  have "length (lock_log ?s ''USDC'') = 3" by code_simp
  then show ?thesis using lock_history_alternates [OF refl, of "''W''" demo_sha demo_locks "''USDC''"]
    by (cases "lock_log ?s ''USDC''" rule: rev_cases) (auto simp: upt_rec)
qed

section \<open>Pools\<close>

text \<open>What the contract lets through to the pool monitor, stated without its functions: the call is signed
  by the admin of the state, the contract is not paused, and the admin has made fewer calls in the
  current window than the configured limit (the end of the window and the count fit their types).\<close>

definition rate_limit_free :: "env \<Rightarrow> address \<Rightarrow> market_state \<Rightarrow> bool" where
  "rate_limit_free env caller s \<longleftrightarrow> (case wa_rate_limit_config s of
     None \<Rightarrow> True
   | Some config \<Rightarrow> (case wa_rate_limit s caller of
       None \<Rightarrow> timestamp env + sl_window_secs config \<le> u64_max \<and> 0 < sl_max_calls config
     | Some usage \<Rightarrow> sn_window_start usage + sl_window_secs config \<le> u64_max
         \<and> (if sn_window_start usage + sl_window_secs config \<le> timestamp env then 0 < sl_max_calls config
            else sn_count usage < sl_max_calls config \<and> sn_count usage < u32_max)))"

definition pool_update_allowed :: "env \<Rightarrow> market_state \<Rightarrow> bool" where
  "pool_update_allowed env s \<longleftrightarrow> \<not> unwrap_or (ac_global_paused s) False
     \<and> (\<exists>admin. ac_admin s = Some admin \<and> admin \<in> set (auths env) \<and> rate_limit_free env admin s)"

lemma rate_limit_iff: "(\<exists>s'. enforce_rate_limit env caller s = Inr s') \<longleftrightarrow> rate_limit_free env caller s"
  by (cases "wa_rate_limit_config s"; cases "wa_rate_limit s caller")
    (auto simp: enforce_rate_limit_def rate_limit_free_def Let_def u32_max_def)

lemma record_pool_iff:
  "is_ok (watch_record_pool env p a b sh v f t s) \<longleftrightarrow>
     pool_update_allowed env s \<and> is_ok (record_pool_state env p a b sh v f t (wm_pools s))"
proof -
  have pools: "wm_pools s1 = wm_pools s" if "enforce_rate_limit env c s = Inr s1" for c s1
    using rate_limit_watch [OF that] by (simp add: watch_view_def)
  have "is_ok (watch_record_pool env p a b sh v f t s) \<longleftrightarrow> \<not> unwrap_or (ac_global_paused s) False
      \<and> (\<exists>admin s1 x y. ac_admin s = Some admin \<and> admin \<in> set (auths env) \<and> enforce_rate_limit env admin s = Inr s1
          \<and> record_pool_state env p a b sh v f t (wm_pools s1) = Inr (x, y))"
    by (auto simp: is_ok_iff watch_record_pool_def assert_not_globally_paused_def)
  also have "\<dots> \<longleftrightarrow> \<not> unwrap_or (ac_global_paused s) False
      \<and> (\<exists>admin. ac_admin s = Some admin \<and> admin \<in> set (auths env) \<and> (\<exists>s1. enforce_rate_limit env admin s = Inr s1))
      \<and> is_ok (record_pool_state env p a b sh v f t (wm_pools s))"
    using pools by (auto simp: is_ok_iff)
  finally show ?thesis by (auto simp: pool_update_allowed_def rate_limit_iff)
qed

text \<open>The pool updates of a history that pass these conditions in the state they meet.\<close>

fun pool_calls :: "address \<Rightarrow> (bytes \<Rightarrow> bytes) \<Rightarrow> market_state \<Rightarrow> (env \<times> watch_call) list \<Rightarrow> (env \<times> liquidity_call) list" where
  "pool_calls self sha s [] = []"
| "pool_calls self sha s ((env, c) # h) =
     (let rest = pool_calls self sha (invoke (watch_exec self sha) env c s) h
      in case c of
           MarketCall (WmRecordPool p a b sh v f t) \<Rightarrow>
             if pool_update_allowed env s then (env, RecordPoolState p a b sh v f t) # rest else rest
         | _ \<Rightarrow> rest)"

lemma effect_pools:
  "view_effect env c s s' \<Longrightarrow> wm_pools s' = (case c of MarketCall (WmRecordPool p a b sh v f t) \<Rightarrow>
     invoke liquidity_exec env (RecordPoolState p a b sh v f t) (wm_pools s) | _ \<Rightarrow> wm_pools s)"
  by (induction env c s s' rule: view_effect.induct) (auto simp: invoke_def state_of_def)

lemma pools_step:
  "wm_pools (invoke (watch_exec self sha) env c s) = (case c of
     MarketCall (WmRecordPool p a b sh v f t) \<Rightarrow>
       if pool_update_allowed env s then invoke liquidity_exec env (RecordPoolState p a b sh v f t) (wm_pools s)
       else wm_pools s
   | _ \<Rightarrow> wm_pools s)"
proof (cases "watch_exec self sha env c s")
  case (Inl e)
  have "\<not> is_ok (liquidity_exec env (RecordPoolState p a b sh v f t) (wm_pools s))"
    if "c = MarketCall (WmRecordPool p a b sh v f t)" "pool_update_allowed env s" for p a b sh v f t
    using Inl that record_pool_iff [of env p a b sh v f t s] by (auto simp: is_ok_iff)
  then have "invoke liquidity_exec env (RecordPoolState p a b sh v f t) (wm_pools s) = wm_pools s"
    if "c = MarketCall (WmRecordPool p a b sh v f t)" "pool_update_allowed env s" for p a b sh v f t
    using that unfolding invoke_def is_ok_def by (metis sum.case_eq_if sum.exhaust_sel)
  then show ?thesis using Inl by (simp add: invoke_def split: watch_call.split market_call.split)
next
  case (Inr s')
  have "pool_update_allowed env s" if "c = MarketCall (WmRecordPool p a b sh v f t)" for p a b sh v f t
    using Inr that record_pool_iff [of env p a b sh v f t s] by (auto simp: is_ok_iff)
  then show ?thesis using Inr effect_pools [OF watch_effect [OF Inr]]
    by (auto simp: invoke_def split: watch_call.split market_call.split)
qed

text \<open>C13: The pools of the contract refine the pool monitor behind its guards: in every history from
  deployment they are in exactly the state the monitor reaches on those pool updates, and only those,
  that are signed by the admin of their moment, find the contract not paused and are within the rate
  limit; every other call leaves the pools alone. So every property of the monitor holds of the
  contract, and nobody but the admin can change a pool.\<close>

theorem pools_refine_monitor:
  "wm_pools (run (watch_exec self sha) watch_start h) = run liquidity_exec liquidity_start (pool_calls self sha watch_start h)"
proof -
  have "wm_pools (run (watch_exec self sha) s h) = run liquidity_exec (wm_pools s) (pool_calls self sha s h)" for s
  proof (induction self sha s h rule: pool_calls.induct)
    case (2 self sha s env c h)
    then show ?case using pools_step [of self sha env c s]
      by (auto simp: Let_def split: watch_call.split market_call.split)
  qed simp
  from this [of watch_start] show ?thesis by (simp add: watch_start_def)
qed

section \<open>A lost health record\<close>

text \<open>A monitored asset without a health record, at a time when an automatic checkpoint is due.\<close>

definition blocked :: "string \<Rightarrow> env \<Rightarrow> market_state \<Rightarrow> bool" where
  "blocked a env s \<longleftrightarrow> a \<in> set (load_registered_assets_raw s) \<and> va_health s a = None
     \<and> (let t = unwrap_or (va_last_checkpoint_at s) 0
        in t = 0 \<or> t + kc_interval_secs (load_checkpoint_config s) \<le> timestamp env)"

lemma capture_blocked: "a \<in> set codes \<Longrightarrow> va_health s a = None \<Longrightarrow> \<exists>e. capture_assets s codes = Inl e"
proof (induction codes)
  case (Cons c codes)
  show ?case
  proof (cases "c = a")
    case True
    then show ?thesis using Cons.prems by (simp add: capture_asset_def load_asset_health_def)
  next
    case False
    then obtain e where "capture_assets s codes = Inl e" using Cons by auto
    then show ?thesis by (cases "capture_asset s c") simp_all
  qed
qed simp

lemma blocked_checkpoint: "blocked a env s \<Longrightarrow> maybe_create_auto_checkpoint sha env c s \<noteq> Inr s'"
  using capture_blocked [of a "load_registered_assets_raw s" s]
  by (auto simp: blocked_def maybe_create_auto_checkpoint_def persist_checkpoint_def take_snapshot_def Let_def split: if_splits)

lemma blocked_rate_limit: "blocked a env s \<Longrightarrow> enforce_rate_limit env c s = Inr s' \<Longrightarrow> blocked a env s'"
  by (auto simp: enforce_rate_limit_def Let_def blocked_def load_registered_assets_raw_def load_checkpoint_config_def split: option.splits if_splits)

lemma blocked_append: "blocked a env s \<Longrightarrow> append_replay_event env ty c b v s = Inr s' \<Longrightarrow> blocked a env s'"
  by (auto simp: core_log_defs Let_def if_Inr_eq blocked_def load_registered_assets_raw_def load_checkpoint_config_def)

lemma blocked_fields [simp]:
  "b \<noteq> a \<Longrightarrow> blocked a env (s\<lparr> va_health := (va_health s)(b \<mapsto> x) \<rparr>) = blocked a env s"
  "blocked a env (s\<lparr> va_price := p, wa_price_history := q \<rparr>) = blocked a env s"
  "blocked a env (s\<lparr> va_health := (va_health s)(b \<mapsto> x), va_health_result := r \<rparr>)
     = blocked a env (s\<lparr> va_health := (va_health s)(b \<mapsto> x) \<rparr>)"
  by (auto simp: blocked_def load_registered_assets_raw_def load_checkpoint_config_def)

lemma blocked_load: "blocked a env s \<Longrightarrow> load_asset_health b s = Inr x \<Longrightarrow> b \<noteq> a"
  by (auto simp: blocked_def load_asset_health_def)

lemma blocked_batch: "blocked a env s \<Longrightarrow> store_batch e rs s = Inr s' \<Longrightarrow> blocked a env s'"
proof (induction rs arbitrary: s)
  case (Cons r rs)
  then obtain x y where "load_asset_health (hb_asset_code r) s = Inr x"
      "store_batch e rs (s\<lparr> va_health := (va_health s)(hb_asset_code r \<mapsto> y) \<rparr>) = Inr s'" by auto
  moreover have "hb_asset_code r \<noteq> a" using blocked_load [OF Cons.prems(1) calculation(1)] .
  ultimately show ?case using Cons.IH [of "s\<lparr> va_health := (va_health s)(hb_asset_code r \<mapsto> y) \<rparr>"] Cons.prems(1) by simp
qed simp

lemma blocked_same:
  "checkpoint_view s' = checkpoint_view s \<Longrightarrow> va_health s' = va_health s
     \<Longrightarrow> va_last_checkpoint_at s' = va_last_checkpoint_at s \<Longrightarrow> blocked a env s' = blocked a env s"
  by (simp add: blocked_def checkpoint_view_def)

lemma blocked_nonce:
  assumes "verify_signature sha e m sig s = Inr (b, s')"
  shows "blocked a env s' = blocked a env s"
proof (rule blocked_same)
  have "s' = set_signer_nonce sig s \<or> s' = set_signer_nonce sig s
          \<lparr> wa_signature_cache := (wa_signature_cache s)(sha m \<mapsto> True) \<rparr>"
    using verify_effect [OF assms] by blast
  then show "va_health s' = va_health s" "va_last_checkpoint_at s' = va_last_checkpoint_at s"
    by (auto simp: set_signer_nonce_def)
qed (rule verify_view [OF assms])

lemma blocked_multi_sig:
  "multi_sig_loop sha e m sigs seen n s = Inr (k, s') \<Longrightarrow> blocked a env s' = blocked a env s"
proof (induction sigs arbitrary: seen n s)
  case (Cons sig sigs)
  then obtain b s1 seen' n' where v: "verify_signature sha e m sig s = Inr (b, s1)"
      and l: "multi_sig_loop sha e m sigs seen' n' s1 = Inr (k, s')" by auto
  show ?case using Cons.IH [OF l] blocked_nonce [OF v, of a env] by simp
qed simp

lemma blocked_health: "blocked a env s \<Longrightarrow> submit_health_internal sha env c b h l p u s \<noteq> Inr s'"
proof
  assume bl: "blocked a env s" and "submit_health_internal sha env c b h l p u s = Inr s'"
  then obtain s1 st s2 where "enforce_rate_limit env c s = Inr s1" "load_asset_health b s1 = Inr st"
      "append_replay_event env ''health_up'' c b (int h) (s1\<lparr> va_health := (va_health s1)(b \<mapsto> health_record env s1 st b h l p u) \<rparr>) = Inr s2"
      "maybe_create_auto_checkpoint sha env c s2 = Inr s'"
    by (auto simp: submit_health_internal_def)
  then show False using bl blocked_rate_limit blocked_load blocked_append blocked_checkpoint blocked_fields(1) by metis
qed

lemma blocked_price: "blocked a env s \<Longrightarrow> submit_price_internal sha env c b q src s \<noteq> Inr s'"
proof
  assume bl: "blocked a env s" and "submit_price_internal sha env c b q src s = Inr s'"
  then obtain s1 x y where e: "enforce_rate_limit env c s = Inr s1"
      "maybe_create_auto_checkpoint sha env c (s1\<lparr> va_price := x, wa_price_history := y \<rparr>) = Inr s'"
    by (auto simp: submit_price_internal_def Let_def)
  have "blocked a env (s1\<lparr> va_price := x, wa_price_history := y \<rparr>)" using blocked_rate_limit [OF bl e(1)] by simp
  then show False using e(2) blocked_checkpoint by blast
qed

lemma blocked_batches: "blocked a env s \<Longrightarrow> submit_health_batch_internal sha env c rs s \<noteq> Inr s'"
proof
  assume bl: "blocked a env s" and "submit_health_batch_internal sha env c rs s = Inr s'"
  then obtain s1 s2 where e: "enforce_rate_limit env c s = Inr s1" "store_batch env rs s1 = Inr s2"
      "maybe_create_auto_checkpoint sha env c s2 = Inr s'"
    by (auto simp: submit_health_batch_internal_def)
  then show False using blocked_checkpoint [OF blocked_batch [OF blocked_rate_limit [OF bl e(1)] e(2)]] by blast
qed

text \<open>C10: A lost health record blocks the contract: when the record of a monitored asset is gone (as
  cleanup_expired_data removes it) and an automatic checkpoint is due, that is none was made yet or the
  configured interval since the last one has passed, then no health or price submission succeeds for
  any asset, plain, in a batch, calculated or signed; no checkpoint can be created, and the lost asset
  cannot be registered again. (Before the checkpoint is
  due, submissions for other assets still succeed; health reported to
  submit_health_multi_source is never blocked by this, it is kept apart from the health records.)\<close>

theorem expired_record_blocks:
  fixes s :: market_state
  assumes "a \<in> set (load_registered_assets_raw s)" "va_health s a = None"
    "unwrap_or (va_last_checkpoint_at s) 0 = 0
       \<or> unwrap_or (va_last_checkpoint_at s) 0 + kc_interval_secs (load_checkpoint_config s) \<le> timestamp env"
  shows "\<not> is_ok (watch_exec self sha env (AssetCall (WaSubmitHealth c b h l p u)) s)
    \<and> \<not> is_ok (watch_exec self sha env (AssetCall (WaSubmitHealthBatch c rs)) s)
    \<and> \<not> is_ok (watch_exec self sha env (AssetCall (WaSubmitPrice c b q src)) s)
    \<and> \<not> is_ok (watch_exec self sha env (AssetCall (WaSubmitCalculated c b l p u m)) s)
    \<and> \<not> is_ok (watch_exec self sha env (AssetCall (WaSubmitHealthSigned c b h l p u sig)) s)
    \<and> \<not> is_ok (watch_exec self sha env (AssetCall (WaSubmitPriceSigned c b q src sig)) s)
    \<and> \<not> is_ok (watch_exec self sha env (AssetCall (WaSubmitBatchSigned c rs sigs)) s)
    \<and> \<not> is_ok (watch_exec self sha env (VaultCall (VaCreateCheckpoint c lab)) s)
    \<and> \<not> is_ok (watch_exec self sha env (AssetCall (WaRegisterAsset c a)) s)"
proof -
  have bl: "blocked a env s" using assms by (simp add: blocked_def Let_def)
  have "submit_health sha env c b h l p u s \<noteq> Inr s'" for s'
    using blocked_health [OF bl] by (auto simp: submit_health_def)
  moreover have "submit_health_batch sha env c rs s \<noteq> Inr s'" for s'
    using blocked_batches [OF bl] by (auto simp: submit_health_batch_def)
  moreover have "submit_price sha env c b q src s \<noteq> Inr s'" for s'
    using blocked_price [OF bl] by (auto simp: submit_price_def)
  moreover have "submit_health_signed sha env c b h l p u sig s \<noteq> Inr s'" for s'
    using blocked_health bl blocked_nonce by (auto simp: submit_health_signed_def)
  moreover have "submit_price_signed sha env c b q src sig s \<noteq> Inr s'" for s'
    using blocked_price bl blocked_nonce by (auto simp: submit_price_signed_def)
  moreover have "submit_health_batch_signed sha env c rs sigs s \<noteq> Inr s'" for s'
    using blocked_batches bl blocked_multi_sig
    by (auto simp: submit_health_batch_signed_def verify_multi_sig_def Let_def)
  moreover have "persist_checkpoint sha env c trig lab from s \<noteq> Inr r" for trig "from" r
    using capture_blocked [OF assms(1,2)] by (auto simp: persist_checkpoint_def take_snapshot_def)
  then have "create_checkpoint sha env c lab s \<noteq> Inr r" for r
    by (auto simp: create_checkpoint_def)
  moreover have "submit_calculated_health sha env c b l p u m s \<noteq> Inr s'" for s'
  proof
    assume "submit_calculated_health sha env c b l p u m s = Inr s'"
    then obtain s1 st x r where e: "enforce_rate_limit env c s = Inr s1" "load_asset_health b s1 = Inr st"
        "maybe_create_auto_checkpoint sha env c (s1\<lparr> va_health := (va_health s1)(b \<mapsto> x), va_health_result := r \<rparr>) = Inr s'"
      by (auto simp: submit_calculated_health_def Let_def)
    have "blocked a env (s1\<lparr> va_health := (va_health s1)(b \<mapsto> x), va_health_result := r \<rparr>)"
      using blocked_rate_limit [OF bl e(1)] blocked_load [OF blocked_rate_limit [OF bl e(1)] e(2)] by simp
    then show False using e(3) blocked_checkpoint by blast
  qed
  moreover have "register_asset sha env c a s \<noteq> Inr s'" for s'
    using assms(1) by (auto simp: register_asset_def load_registered_assets_raw_def list_ex_iff Let_def)
  ultimately show ?thesis by (simp add: is_ok_iff)
qed

definition demo_expired :: "(env \<times> watch_call) list" where
  "demo_expired = [(demo_at 5, VaultCall (VaInitialize ''A'')), (demo_at 10, AssetCall (WaRegisterAsset ''A'' ''USDC'')),
     (demo_at 80000, AssetCall (WaRegisterAsset ''A'' ''EURC'')), (demo_at 86412, MarketCall (WmCleanupExpired ''A'' 5))]"

lemma expired_record_blocks_witness:
  "\<not> is_ok (watch_exec ''W'' demo_sha (demo_at 86413) (AssetCall (WaSubmitPrice ''A'' ''EURC'' 5 ''x''))
     (run (watch_exec ''W'' demo_sha) watch_start demo_expired))"
proof -
  let ?s = "run (watch_exec ''W'' demo_sha) watch_start demo_expired"
  have "list_ex (\<lambda>x. x = ''USDC'') (load_registered_assets_raw ?s)
      \<and> map_option ah_asset_code (va_health ?s ''USDC'') = None
      \<and> unwrap_or (va_last_checkpoint_at ?s) 0 + kc_interval_secs (load_checkpoint_config ?s) \<le> 86413" by code_simp
  then show ?thesis
    using expired_record_blocks [of "''USDC''" ?s "demo_at 86413" "''W''" demo_sha "''A''" "''EURC''" 0 0 0 0 "[]" 5 "''x''" None]
    by (auto simp: list_ex_iff demo_at_def)
qed

section \<open>Aggregated health\<close>

lemma add_weighted_bounds:
  assumes "add_weighted s code x (tw, wh, wl, wp, wu, n) = Inr (tw', wh', wl', wp', wu', n')"
    "\<And>e. hs_trusted x \<Longrightarrow> wa_source_entry s (hs_source_id x, code) = Some e \<Longrightarrow> lo \<le> he_health_score e \<and> he_health_score e \<le> hi"
    "tw * lo \<le> wh" "wh \<le> tw * hi"
  shows "tw' * lo \<le> wh' \<and> wh' \<le> tw' * hi"
proof (cases "hs_trusted x \<and> wa_source_entry s (hs_source_id x, code) \<noteq> None")
  case True
  then obtain e where e: "wa_source_entry s (hs_source_id x, code) = Some e" "lo \<le> he_health_score e" "he_health_score e \<le> hi" using assms(2) by auto
  then have "tw' = tw + hs_weight_bps x" "wh' = wh + hs_weight_bps x * he_health_score e"
    using assms(1) True by (auto simp: add_weighted_def Let_def)
  moreover have "hs_weight_bps x * lo \<le> hs_weight_bps x * he_health_score e" "hs_weight_bps x * he_health_score e \<le> hs_weight_bps x * hi"
    using e by simp_all
  ultimately show ?thesis using assms(3,4) by (simp add: distrib_right add_mono)
next
  case False
  then show ?thesis using assms by (auto simp: add_weighted_def split: if_splits)
qed

lemma aggregate_bounds:
  assumes "aggregate_sources s code xs (tw, wh, wl, wp, wu, n) = Inr (tw', wh', wl', wp', wu', n')"
    "\<And>x e. x \<in> set xs \<Longrightarrow> hs_trusted x \<Longrightarrow> wa_source_entry s (hs_source_id x, code) = Some e \<Longrightarrow> lo \<le> he_health_score e \<and> he_health_score e \<le> hi"
    "tw * lo \<le> wh" "wh \<le> tw * hi"
  shows "tw' * lo \<le> wh' \<and> wh' \<le> tw' * hi"
  using assms
proof (induction xs arbitrary: tw wh wl wp wu n)
  case (Cons x xs)
  then obtain a b c d e k where w: "add_weighted s code x (tw, wh, wl, wp, wu, n) = Inr (a, b, c, d, e, k)"
      "aggregate_sources s code xs (a, b, c, d, e, k) = Inr (tw', wh', wl', wp', wu', n')" by auto
  have ab: "a * lo \<le> b \<and> b \<le> a * hi" by (rule add_weighted_bounds [OF w(1)]) (use Cons.prems in auto)
  show ?case by (rule Cons.IH [OF w(2)]) (use Cons.prems(2) ab in auto)
qed simp

text \<open>Also: The aggregated health score of an asset lies between the smallest and the largest score the
  trusted sources have on record for it.\<close>

theorem aggregate_between:
  assumes "get_aggregated_health env code s = Inr (Some r)" "hi < 2 ^ 32"
    "\<And>x e. x \<in> set (unwrap_or (wa_health_sources s) []) \<Longrightarrow> hs_trusted x \<Longrightarrow> wa_source_entry s (hs_source_id x, code) = Some e
       \<Longrightarrow> lo \<le> he_health_score e \<and> he_health_score e \<le> hi"
  shows "lo \<le> ag_weighted_health_score r \<and> ag_weighted_health_score r \<le> hi"
proof -
  obtain tw wh wl wp wu n where a: "aggregate_sources s code (unwrap_or (wa_health_sources s) []) (0, 0, 0, 0, 0, 0) = Inr (tw, wh, wl, wp, wu, n)"
      and r: "0 < tw" "ag_weighted_health_score r = wh div tw mod 2 ^ 32"
    using assms(1) by (auto simp: get_aggregated_health_def split: if_splits)
  have "tw * lo \<le> wh" "wh \<le> tw * hi" using aggregate_bounds [OF a assms(3)] by simp_all
  then have "lo \<le> wh div tw" "wh div tw \<le> hi"
    using r(1) div_le_mono [of "tw * lo" wh tw] div_le_mono [of wh "tw * hi" tw] by simp_all
  then show ?thesis using r(2) assms(2) by simp
qed

definition demo_sources :: "(env \<times> watch_call) list" where
  "demo_sources = [(demo_at 5, VaultCall (VaInitialize ''A'')),
     (demo_at 6, AssetCall (WaRegisterHealthSource ''A'' ''p'' 6000)), (demo_at 6, AssetCall (WaRegisterHealthSource ''A'' ''q'' 3000)),
     (demo_at 7, AssetCall (WaSubmitMultiSource ''A'' ''p'' ''USDC'' 90 1 1 1)),
     (demo_at 8, AssetCall (WaSubmitMultiSource ''A'' ''q'' ''USDC'' 60 2 2 2))]"

lemma aggregate_between_witness:
  "map_sum id (map_option ag_weighted_health_score) (get_aggregated_health (demo_at 9) ''USDC''
     (run (watch_exec ''W'' demo_sha) watch_start demo_sources)) = Inr (Some 80) \<and> (60 :: nat) \<le> 80 \<and> (80 :: nat) \<le> 90"
proof -
  let ?s = "run (watch_exec ''W'' demo_sha) watch_start demo_sources"
  have v: "map_sum id (map_option ag_weighted_health_score) (get_aggregated_health (demo_at 9) ''USDC'' ?s) = Inr (Some 80)" by code_simp
  have "list_all (\<lambda>x. case wa_source_entry ?s (hs_source_id x, ''USDC'') of None \<Rightarrow> False | Some e \<Rightarrow> 60 \<le> he_health_score e \<and> he_health_score e \<le> 90)
      (unwrap_or (wa_health_sources ?s) [])" by code_simp
  then have b: "60 \<le> he_health_score e \<and> he_health_score e \<le> 90" if "x \<in> set (unwrap_or (wa_health_sources ?s) [])"
      "wa_source_entry ?s (hs_source_id x, ''USDC'') = Some e" for x e
    using that by (fastforce simp: list_all_iff)
  obtain r where r: "get_aggregated_health (demo_at 9) ''USDC'' ?s = Inr (Some r)" "ag_weighted_health_score r = 80"
    using v by (cases "get_aggregated_health (demo_at 9) ''USDC'' ?s") (auto simp: map_option_eq_Some)
  have "60 \<le> ag_weighted_health_score r \<and> ag_weighted_health_score r \<le> 90"
    by (rule aggregate_between [OF r(1)]) (use b in auto)
  then show ?thesis using v r(2) by simp
qed

end
