(* ===== verification/Asset_Registry.thy ===== *)
theory Asset_Registry
  imports Soroban
begin

text \<open>
  \<open>soroban/src/asset_registry.rs\<close>: the metadata of the monitored assets with its version history,
  their life cycle, compliance records, links to chains, oracle feeds, bridges and pools, the
  whitelist and the frozen assets. One record field per constructor of \<open>DataKey\<close>; events are not
  part of the state. The indexes by category and by status are stored lists, as in the code; the
  invariants show that they are exact.
\<close>

section \<open>Data\<close>

definition max_versions :: nat where "max_versions = 50"
definition max_chains :: nat where "max_chains = 20"
definition max_oracle_feeds :: nat where "max_oracle_feeds = 10"
definition max_bridges :: nat where "max_bridges = 10"
definition max_pools :: nat where "max_pools = 20"

datatype registry_error =
    RgNotAuthorized | RgAlreadyInitialized | RgAssetAlreadyRegistered | RgAssetNotFound | RgInvalidAssetData
  | RgInvalidRiskRating | RgInvalidLifecycleTransition | RgMaxChainsExceeded | RgMaxOracleFeedsExceeded
  | RgMaxBridgesExceeded | RgMaxPoolsExceeded | RgDuplicateChainLink | RgDuplicateOracleFeed | RgDuplicateBridge
  | RgDuplicatePool | RgAssetPaused | RgAssetDeprecated | RgAssetNotWhitelisted | RgAssetAlreadyWhitelisted
  | RgAssetFrozen | RgAssetAlreadyActive | RgAssetNotDeactivated

type_synonym 'a arres = "(registry_error, 'a) res"

datatype asset_category = Stablecoin | RealWorldAsset | NativeAsset | BridgedAsset | WrappedAsset | OtherAsset

datatype asset_status = ActiveAsset | PausedAsset | DeprecatedAsset | PendingReviewAsset | DeactivatedAsset

datatype compliance_status = Compliant | UnderReview | NonCompliant | PendingCompliance | ExemptCompliance

datatype risk_rating = LowRisk | MediumRisk | HighRisk | CriticalRisk

record asset_metadata =
  mt_asset_code :: string
  mt_name :: string
  mt_symbol :: string
  mt_issuer :: string
  mt_decimals :: nat
  mt_category :: asset_category
  mt_status :: asset_status
  mt_compliance :: compliance_status
  mt_risk_rating :: risk_rating
  mt_risk_score_bps :: nat
  mt_description :: string
  mt_url :: string
  mt_version :: nat
  mt_registered_at :: nat
  mt_updated_at :: nat
  mt_registered_by :: address

record chain_link =
  ch_chain_id :: string
  ch_contract_address :: string
  ch_is_canonical :: bool
  ch_linked_at :: nat

record oracle_feed =
  of_feed_id :: string
  of_provider :: string
  of_chain_id :: string
  of_contract_address :: string
  of_is_active :: bool
  of_registered_at :: nat

record bridge_association =
  ba_bridge_id :: string
  ba_contract_address :: string
  ba_source_chain :: string
  ba_dest_chain :: string
  ba_is_active :: bool
  ba_created_at :: nat

record pool_association =
  pa_pool_id :: string
  pa_paired_asset :: string
  pa_is_active :: bool
  pa_created_at :: nat

record compliance_record =
  cr_status :: compliance_status
  cr_jurisdiction :: string
  cr_framework :: string
  cr_last_audit_date :: nat
  cr_next_audit_date :: nat
  cr_notes :: string
  cr_updated_at :: nat

record metadata_version =
  mv_version :: nat
  mv_metadata :: asset_metadata
  mv_changed_by :: address
  mv_change_reason :: string
  mv_timestamp :: nat

record frozen_asset =
  fz_asset_code :: string
  fz_is_frozen :: bool
  fz_frozen_by :: address
  fz_frozen_at :: nat
  fz_freeze_reason :: string

record registry_state =
  ar_admin :: "address option"
  ar_meta :: "string \<rightharpoonup> asset_metadata"
  ar_chain_links :: "string \<rightharpoonup> chain_link list"
  ar_oracle_feeds :: "string \<rightharpoonup> oracle_feed list"
  ar_bridge_assocs :: "string \<rightharpoonup> bridge_association list"
  ar_pool_assocs :: "string \<rightharpoonup> pool_association list"
  ar_compliance :: "string \<rightharpoonup> compliance_record list"
  ar_versions :: "string \<rightharpoonup> metadata_version list"
  ar_asset_list :: "string list option"
  ar_category_index :: "asset_category \<rightharpoonup> string list"
  ar_status_index :: "asset_status \<rightharpoonup> string list"
  ar_whitelist :: "string list option"
  ar_frozen :: "string \<rightharpoonup> frozen_asset"

section \<open>Helpers\<close>

definition registry_admin :: "env \<Rightarrow> address \<Rightarrow> registry_state \<Rightarrow> unit arres" where
  "registry_admin env caller s =
     and_then (require_auth env caller) (\<lambda>_.
     and_then (ok_or (ar_admin s) (Err RgNotAuthorized)) (\<lambda>admin.
     ensure (caller = admin) (Err RgNotAuthorized)))"

definition require_asset_exists :: "string \<Rightarrow> registry_state \<Rightarrow> unit arres" where
  "require_asset_exists code s = ensure (ar_meta s code \<noteq> None) (Err RgAssetNotFound)"

definition get_asset_or_err :: "string \<Rightarrow> registry_state \<Rightarrow> asset_metadata arres" where
  "get_asset_or_err code s = ok_or (ar_meta s code) (Err RgAssetNotFound)"

text \<open>The history keeps the last 50 versions: a full one loses its oldest entry first.\<close>

definition push_version :: "metadata_version \<Rightarrow> metadata_version list \<Rightarrow> metadata_version list" where
  "push_version v versions = (if max_versions \<le> length versions then drop 1 versions else versions) @ [v]"

definition save_with_version :: "string \<Rightarrow> asset_metadata \<Rightarrow> address \<Rightarrow> string \<Rightarrow> nat \<Rightarrow> registry_state \<Rightarrow> registry_state" where
  "save_with_version code m admin reason now s =
     s\<lparr> ar_meta := (ar_meta s)(code \<mapsto> m),
        ar_versions := (ar_versions s)(code \<mapsto> push_version \<lparr> mv_version = mt_version m, mv_metadata = m,
          mv_changed_by = admin, mv_change_reason = reason, mv_timestamp = now \<rparr> (unwrap_or (ar_versions s code) [])) \<rparr>"

definition add_to_index :: "'k \<Rightarrow> string \<Rightarrow> ('k \<rightharpoonup> string list) \<Rightarrow> ('k \<rightharpoonup> string list)" where
  "add_to_index key code index = (let xs = unwrap_or (index key) [] in
     if list_ex (\<lambda>item. item = code) xs then index else index(key \<mapsto> xs @ [code]))"

definition remove_from_index :: "'k \<Rightarrow> string \<Rightarrow> ('k \<rightharpoonup> string list) \<Rightarrow> ('k \<rightharpoonup> string list)" where
  "remove_from_index key code index = index(key \<mapsto> filter (\<lambda>item. item \<noteq> code) (unwrap_or (index key) []))"

section \<open>Operations\<close>

definition registry_initialize :: "env \<Rightarrow> address \<Rightarrow> registry_state \<Rightarrow> registry_state arres" where
  "registry_initialize env admin s =
     and_then (require_auth env admin) (\<lambda>_.
     and_then (ensure (ar_admin s = None) (Err RgAlreadyInitialized)) (\<lambda>_.
     Inr (s\<lparr> ar_admin := Some admin, ar_asset_list := Some [] \<rparr>)))"

definition registry_register_asset :: "env \<Rightarrow> address \<Rightarrow> string \<Rightarrow> string \<Rightarrow> string \<Rightarrow> string \<Rightarrow> nat \<Rightarrow> asset_category \<Rightarrow> string
    \<Rightarrow> string \<Rightarrow> registry_state \<Rightarrow> registry_state arres" where
  "registry_register_asset env admin code name symbol issuer decimals category description url s =
     and_then (registry_admin env admin s) (\<lambda>_.
     let whitelist = unwrap_or (ar_whitelist s) [] in
     and_then (ensure (whitelist = [] \<or> list_ex (\<lambda>item. item = code) whitelist) (Err RgAssetNotWhitelisted)) (\<lambda>_.
     and_then (ensure (ar_meta s code = None) (Err RgAssetAlreadyRegistered)) (\<lambda>_.
     let now = timestamp env;
         m = \<lparr> mt_asset_code = code, mt_name = name, mt_symbol = symbol, mt_issuer = issuer, mt_decimals = decimals,
               mt_category = category, mt_status = PendingReviewAsset, mt_compliance = PendingCompliance,
               mt_risk_rating = MediumRisk, mt_risk_score_bps = 5000, mt_description = description, mt_url = url,
               mt_version = 1, mt_registered_at = now, mt_updated_at = now, mt_registered_by = admin \<rparr>;
         v = \<lparr> mv_version = 1, mv_metadata = m, mv_changed_by = admin, mv_change_reason = ''Initial registration'', mv_timestamp = now \<rparr>
     in Inr (s\<lparr> ar_meta := (ar_meta s)(code \<mapsto> m), ar_versions := (ar_versions s)(code \<mapsto> [v]),
          ar_chain_links := (ar_chain_links s)(code \<mapsto> []), ar_oracle_feeds := (ar_oracle_feeds s)(code \<mapsto> []),
          ar_bridge_assocs := (ar_bridge_assocs s)(code \<mapsto> []), ar_pool_assocs := (ar_pool_assocs s)(code \<mapsto> []),
          ar_compliance := (ar_compliance s)(code \<mapsto> []),
          ar_asset_list := Some (unwrap_or (ar_asset_list s) [] @ [code]),
          ar_category_index := add_to_index category code (ar_category_index s),
          ar_status_index := add_to_index PendingReviewAsset code (ar_status_index s) \<rparr>))))"

definition is_asset_frozen :: "string \<Rightarrow> registry_state \<Rightarrow> bool" where
  "is_asset_frozen code s = (case ar_frozen s code of Some f \<Rightarrow> fz_is_frozen f | None \<Rightarrow> False)"

definition update_metadata :: "env \<Rightarrow> address \<Rightarrow> string \<Rightarrow> string \<Rightarrow> string \<Rightarrow> string \<Rightarrow> string \<Rightarrow> string \<Rightarrow> string
    \<Rightarrow> registry_state \<Rightarrow> registry_state arres" where
  "update_metadata env admin code name symbol issuer description url reason s =
     and_then (registry_admin env admin s) (\<lambda>_.
     and_then (get_asset_or_err code s) (\<lambda>m.
     and_then (ensure (\<not> is_asset_frozen code s) (Err RgAssetFrozen)) (\<lambda>_.
     and_then (ensure (mt_status m \<noteq> DeprecatedAsset) (Err RgAssetDeprecated)) (\<lambda>_.
     and_then (add_u32 (mt_version m) 1) (\<lambda>v.
     Inr (save_with_version code (m\<lparr> mt_name := name, mt_symbol := symbol, mt_issuer := issuer, mt_description := description,
       mt_url := url, mt_version := v, mt_updated_at := timestamp env \<rparr>) admin reason (timestamp env) s))))))"

definition update_category :: "env \<Rightarrow> address \<Rightarrow> string \<Rightarrow> asset_category \<Rightarrow> registry_state \<Rightarrow> registry_state arres" where
  "update_category env admin code category s =
     and_then (registry_admin env admin s) (\<lambda>_.
     and_then (get_asset_or_err code s) (\<lambda>m.
     and_then (add_u32 (mt_version m) 1) (\<lambda>v.
     Inr (save_with_version code (m\<lparr> mt_category := category, mt_version := v, mt_updated_at := timestamp env \<rparr>)
       admin ''Category updated'' (timestamp env)
       (s\<lparr> ar_category_index := add_to_index category code (remove_from_index (mt_category m) code (ar_category_index s)) \<rparr>)))))"

definition update_risk :: "env \<Rightarrow> address \<Rightarrow> string \<Rightarrow> risk_rating \<Rightarrow> nat \<Rightarrow> registry_state \<Rightarrow> registry_state arres" where
  "update_risk env admin code rating score s =
     and_then (registry_admin env admin s) (\<lambda>_.
     and_then (ensure (\<not> 10000 < score) (Err RgInvalidRiskRating)) (\<lambda>_.
     and_then (get_asset_or_err code s) (\<lambda>m.
     and_then (add_u32 (mt_version m) 1) (\<lambda>v.
     Inr (save_with_version code (m\<lparr> mt_risk_rating := rating, mt_risk_score_bps := score, mt_version := v,
       mt_updated_at := timestamp env \<rparr>) admin ''Risk updated'' (timestamp env) s)))))"

text \<open>The \<open>matches!\<close> of \<open>update_status\<close>.\<close>

definition valid_transition :: "asset_status \<Rightarrow> asset_status \<Rightarrow> bool" where
  "valid_transition old new \<longleftrightarrow> (old, new) \<in> set
     [(PendingReviewAsset, ActiveAsset), (ActiveAsset, PausedAsset), (PausedAsset, ActiveAsset),
      (ActiveAsset, DeprecatedAsset), (PausedAsset, DeprecatedAsset), (ActiveAsset, DeactivatedAsset),
      (PausedAsset, DeactivatedAsset)]"

text \<open>The three entry points that change the status share the index update and the new version.\<close>

definition move_status :: "env \<Rightarrow> address \<Rightarrow> string \<Rightarrow> string \<Rightarrow> asset_metadata \<Rightarrow> asset_status \<Rightarrow> registry_state
    \<Rightarrow> registry_state arres" where
  "move_status env admin code reason m new s =
     and_then (add_u32 (mt_version m) 1) (\<lambda>v.
     Inr (save_with_version code (m\<lparr> mt_status := new, mt_version := v, mt_updated_at := timestamp env \<rparr>)
       admin reason (timestamp env)
       (s\<lparr> ar_status_index := add_to_index new code (remove_from_index (mt_status m) code (ar_status_index s)) \<rparr>)))"

definition update_status :: "env \<Rightarrow> address \<Rightarrow> string \<Rightarrow> asset_status \<Rightarrow> registry_state \<Rightarrow> registry_state arres" where
  "update_status env admin code new s =
     and_then (registry_admin env admin s) (\<lambda>_.
     and_then (get_asset_or_err code s) (\<lambda>m.
     and_then (ensure (valid_transition (mt_status m) new) (Err RgInvalidLifecycleTransition)) (\<lambda>_.
     move_status env admin code ''Status updated'' m new s)))"

definition deactivate_asset :: "env \<Rightarrow> address \<Rightarrow> string \<Rightarrow> string \<Rightarrow> registry_state \<Rightarrow> registry_state arres" where
  "deactivate_asset env admin code reason s =
     and_then (registry_admin env admin s) (\<lambda>_.
     and_then (get_asset_or_err code s) (\<lambda>m.
     and_then (ensure (mt_status m = ActiveAsset) (Err RgAssetAlreadyActive)) (\<lambda>_.
     move_status env admin code reason m DeactivatedAsset s)))"

definition restore_registered_asset :: "env \<Rightarrow> address \<Rightarrow> string \<Rightarrow> registry_state \<Rightarrow> registry_state arres" where
  "restore_registered_asset env admin code s =
     and_then (registry_admin env admin s) (\<lambda>_.
     and_then (get_asset_or_err code s) (\<lambda>m.
     and_then (ensure (mt_status m = DeactivatedAsset) (Err RgAssetNotDeactivated)) (\<lambda>_.
     move_status env admin code ''Asset restored'' m ActiveAsset s)))"

definition update_compliance :: "env \<Rightarrow> address \<Rightarrow> string \<Rightarrow> compliance_status \<Rightarrow> string \<Rightarrow> string \<Rightarrow> nat \<Rightarrow> nat \<Rightarrow> string
    \<Rightarrow> registry_state \<Rightarrow> registry_state arres" where
  "update_compliance env admin code status jurisdiction framework last_audit next_audit notes s =
     and_then (registry_admin env admin s) (\<lambda>_.
     and_then (get_asset_or_err code s) (\<lambda>m.
     and_then (add_u32 (mt_version m) 1) (\<lambda>v.
     let rec = \<lparr> cr_status = status, cr_jurisdiction = jurisdiction, cr_framework = framework, cr_last_audit_date = last_audit,
                 cr_next_audit_date = next_audit, cr_notes = notes, cr_updated_at = timestamp env \<rparr>
     in Inr (save_with_version code (m\<lparr> mt_compliance := status, mt_version := v, mt_updated_at := timestamp env \<rparr>)
          admin ''Compliance updated'' (timestamp env)
          (s\<lparr> ar_compliance := (ar_compliance s)(code \<mapsto> unwrap_or (ar_compliance s code) [] @ [rec]) \<rparr>)))))"

definition link_chain :: "env \<Rightarrow> address \<Rightarrow> string \<Rightarrow> string \<Rightarrow> string \<Rightarrow> bool \<Rightarrow> registry_state \<Rightarrow> registry_state arres" where
  "link_chain env admin code chain contract canonical s =
     and_then (registry_admin env admin s) (\<lambda>_.
     and_then (require_asset_exists code s) (\<lambda>_.
     let chains = unwrap_or (ar_chain_links s code) [] in
     and_then (ensure (\<not> max_chains \<le> length chains) (Err RgMaxChainsExceeded)) (\<lambda>_.
     and_then (ensure (\<not> list_ex (\<lambda>c. ch_chain_id c = chain) chains) (Err RgDuplicateChainLink)) (\<lambda>_.
     Inr (s\<lparr> ar_chain_links := (ar_chain_links s)(code \<mapsto> chains @ [\<lparr> ch_chain_id = chain, ch_contract_address = contract,
       ch_is_canonical = canonical, ch_linked_at = timestamp env \<rparr>]) \<rparr>)))))"

definition link_bridge_contract :: "env \<Rightarrow> address \<Rightarrow> string \<Rightarrow> string \<Rightarrow> string \<Rightarrow> string \<Rightarrow> string \<Rightarrow> registry_state
    \<Rightarrow> registry_state arres" where
  "link_bridge_contract env admin code bridge contract source dest s =
     and_then (registry_admin env admin s) (\<lambda>_.
     and_then (require_asset_exists code s) (\<lambda>_.
     let bridges = unwrap_or (ar_bridge_assocs s code) [] in
     and_then (ensure (\<not> max_bridges \<le> length bridges) (Err RgMaxBridgesExceeded)) (\<lambda>_.
     and_then (ensure (\<not> list_ex (\<lambda>b. ba_bridge_id b = bridge) bridges) (Err RgDuplicateBridge)) (\<lambda>_.
     Inr (s\<lparr> ar_bridge_assocs := (ar_bridge_assocs s)(code \<mapsto> bridges @ [\<lparr> ba_bridge_id = bridge, ba_contract_address = contract,
       ba_source_chain = source, ba_dest_chain = dest, ba_is_active = True, ba_created_at = timestamp env \<rparr>]) \<rparr>)))))"

definition register_oracle_feed :: "env \<Rightarrow> address \<Rightarrow> string \<Rightarrow> string \<Rightarrow> string \<Rightarrow> string \<Rightarrow> string \<Rightarrow> registry_state
    \<Rightarrow> registry_state arres" where
  "register_oracle_feed env admin code feed provider chain contract s =
     and_then (registry_admin env admin s) (\<lambda>_.
     and_then (require_asset_exists code s) (\<lambda>_.
     let feeds = unwrap_or (ar_oracle_feeds s code) [] in
     and_then (ensure (\<not> max_oracle_feeds \<le> length feeds) (Err RgMaxOracleFeedsExceeded)) (\<lambda>_.
     and_then (ensure (\<not> list_ex (\<lambda>f. of_feed_id f = feed) feeds) (Err RgDuplicateOracleFeed)) (\<lambda>_.
     Inr (s\<lparr> ar_oracle_feeds := (ar_oracle_feeds s)(code \<mapsto> feeds @ [\<lparr> of_feed_id = feed, of_provider = provider,
       of_chain_id = chain, of_contract_address = contract, of_is_active = True, of_registered_at = timestamp env \<rparr>]) \<rparr>)))))"

definition add_liquidity_pool :: "env \<Rightarrow> address \<Rightarrow> string \<Rightarrow> string \<Rightarrow> string \<Rightarrow> registry_state \<Rightarrow> registry_state arres" where
  "add_liquidity_pool env admin code pool paired s =
     and_then (registry_admin env admin s) (\<lambda>_.
     and_then (require_asset_exists code s) (\<lambda>_.
     let pools = unwrap_or (ar_pool_assocs s code) [] in
     and_then (ensure (\<not> max_pools \<le> length pools) (Err RgMaxPoolsExceeded)) (\<lambda>_.
     and_then (ensure (\<not> list_ex (\<lambda>p. pa_pool_id p = pool) pools) (Err RgDuplicatePool)) (\<lambda>_.
     Inr (s\<lparr> ar_pool_assocs := (ar_pool_assocs s)(code \<mapsto> pools @ [\<lparr> pa_pool_id = pool, pa_paired_asset = paired,
       pa_is_active = True, pa_created_at = timestamp env \<rparr>]) \<rparr>)))))"

section \<open>Whitelist and frozen assets\<close>

definition whitelist_add :: "env \<Rightarrow> address \<Rightarrow> string \<Rightarrow> registry_state \<Rightarrow> registry_state arres" where
  "whitelist_add env admin code s =
     and_then (registry_admin env admin s) (\<lambda>_.
     let whitelist = unwrap_or (ar_whitelist s) [] in
     and_then (ensure (\<not> list_ex (\<lambda>item. item = code) whitelist) (Err RgAssetAlreadyWhitelisted)) (\<lambda>_.
     Inr (s\<lparr> ar_whitelist := Some (whitelist @ [code]) \<rparr>)))"

definition whitelist_remove :: "env \<Rightarrow> address \<Rightarrow> string \<Rightarrow> registry_state \<Rightarrow> registry_state arres" where
  "whitelist_remove env admin code s =
     and_then (registry_admin env admin s) (\<lambda>_.
     let whitelist = unwrap_or (ar_whitelist s) [] in
     and_then (ensure (list_ex (\<lambda>item. item = code) whitelist) (Err RgAssetNotWhitelisted)) (\<lambda>_.
     Inr (s\<lparr> ar_whitelist := Some (filter (\<lambda>item. item \<noteq> code) whitelist) \<rparr>)))"

definition is_whitelisted :: "string \<Rightarrow> registry_state \<Rightarrow> bool" where
  "is_whitelisted code s = list_ex (\<lambda>item. item = code) (unwrap_or (ar_whitelist s) [])"

definition freeze_asset :: "env \<Rightarrow> address \<Rightarrow> string \<Rightarrow> string \<Rightarrow> registry_state \<Rightarrow> registry_state arres" where
  "freeze_asset env admin code reason s =
     and_then (registry_admin env admin s) (\<lambda>_.
     and_then (require_asset_exists code s) (\<lambda>_.
     Inr (s\<lparr> ar_frozen := (ar_frozen s)(code \<mapsto> \<lparr> fz_asset_code = code, fz_is_frozen = True, fz_frozen_by = admin,
       fz_frozen_at = timestamp env, fz_freeze_reason = reason \<rparr>) \<rparr>)))"

definition unfreeze_asset :: "env \<Rightarrow> address \<Rightarrow> string \<Rightarrow> registry_state \<Rightarrow> registry_state arres" where
  "unfreeze_asset env admin code s =
     and_then (registry_admin env admin s) (\<lambda>_.
     and_then (require_asset_exists code s) (\<lambda>_.
     Inr (s\<lparr> ar_frozen := (ar_frozen s)(code \<mapsto> \<lparr> fz_asset_code = code, fz_is_frozen = False, fz_frozen_by = admin,
       fz_frozen_at = timestamp env, fz_freeze_reason = ''Unfrozen'' \<rparr>) \<rparr>)))"

section \<open>Queries\<close>

definition get_all_assets :: "registry_state \<Rightarrow> string list" where
  "get_all_assets s = unwrap_or (ar_asset_list s) []"

definition get_assets_by_category :: "asset_category \<Rightarrow> registry_state \<Rightarrow> string list" where
  "get_assets_by_category c s = unwrap_or (ar_category_index s c) []"

definition get_assets_by_status :: "asset_status \<Rightarrow> registry_state \<Rightarrow> string list" where
  "get_assets_by_status x s = unwrap_or (ar_status_index s x) []"

definition get_metadata_versions :: "string \<Rightarrow> registry_state \<Rightarrow> metadata_version list" where
  "get_metadata_versions code s = unwrap_or (ar_versions s code) []"

definition get_metadata_at_version :: "string \<Rightarrow> nat \<Rightarrow> registry_state \<Rightarrow> metadata_version option" where
  "get_metadata_at_version code v s = List.find (\<lambda>x. mv_version x = v) (get_metadata_versions code s)"

section \<open>The entry points\<close>

datatype registry_call =
    RgInitialize address
  | RgRegister address string string string string nat asset_category string string
  | RgUpdateMetadata address string string string string string string string
  | RgUpdateCategory address string asset_category
  | RgUpdateRisk address string risk_rating nat
  | RgUpdateStatus address string asset_status
  | RgDeactivate address string string
  | RgRestore address string
  | RgUpdateCompliance address string compliance_status string string nat nat string
  | RgLinkChain address string string string bool
  | RgLinkBridge address string string string string string
  | RgRegisterFeed address string string string string string
  | RgAddPool address string string string
  | RgWhitelistAdd address string
  | RgWhitelistRemove address string
  | RgFreeze address string string
  | RgUnfreeze address string

fun registry_exec :: "env \<Rightarrow> registry_call \<Rightarrow> registry_state \<Rightarrow> registry_state arres" where
  "registry_exec env (RgInitialize a) s = registry_initialize env a s"
| "registry_exec env (RgRegister a c n y i d k x u) s = registry_register_asset env a c n y i d k x u s"
| "registry_exec env (RgUpdateMetadata a c n y i x u r) s = update_metadata env a c n y i x u r s"
| "registry_exec env (RgUpdateCategory a c k) s = update_category env a c k s"
| "registry_exec env (RgUpdateRisk a c r x) s = update_risk env a c r x s"
| "registry_exec env (RgUpdateStatus a c x) s = update_status env a c x s"
| "registry_exec env (RgDeactivate a c r) s = deactivate_asset env a c r s"
| "registry_exec env (RgRestore a c) s = restore_registered_asset env a c s"
| "registry_exec env (RgUpdateCompliance a c x j f l n t) s = update_compliance env a c x j f l n t s"
| "registry_exec env (RgLinkChain a c h k b) s = link_chain env a c h k b s"
| "registry_exec env (RgLinkBridge a c b k x y) s = link_bridge_contract env a c b k x y s"
| "registry_exec env (RgRegisterFeed a c f p h k) s = register_oracle_feed env a c f p h k s"
| "registry_exec env (RgAddPool a c p q) s = add_liquidity_pool env a c p q s"
| "registry_exec env (RgWhitelistAdd a c) s = whitelist_add env a c s"
| "registry_exec env (RgWhitelistRemove a c) s = whitelist_remove env a c s"
| "registry_exec env (RgFreeze a c r) s = freeze_asset env a c r s"
| "registry_exec env (RgUnfreeze a c) s = unfreeze_asset env a c s"

definition registry_start :: registry_state where
  "registry_start = \<lparr> ar_admin = None, ar_meta = Map.empty, ar_chain_links = Map.empty, ar_oracle_feeds = Map.empty,
     ar_bridge_assocs = Map.empty, ar_pool_assocs = Map.empty, ar_compliance = Map.empty, ar_versions = Map.empty,
     ar_asset_list = None, ar_category_index = Map.empty, ar_status_index = Map.empty, ar_whitelist = None, ar_frozen = Map.empty \<rparr>"

section \<open>Exact indexes\<close>

text \<open>A stored index is exact when it lists, without repetition, the assets whose metadata have the key.\<close>

definition index_ok :: "(asset_metadata \<Rightarrow> 'k) \<Rightarrow> ('k \<rightharpoonup> string list) \<Rightarrow> (string \<rightharpoonup> asset_metadata) \<Rightarrow> bool" where
  "index_ok f index meta \<longleftrightarrow> (\<forall>k. distinct (unwrap_or (index k) [])
     \<and> set (unwrap_or (index k) []) = {c. \<exists>m. meta c = Some m \<and> f m = k})"

lemma index_keep: "index_ok f index meta \<Longrightarrow> meta c = Some m \<Longrightarrow> f m' = f m \<Longrightarrow> index_ok f index (meta(c \<mapsto> m'))"
  by (fastforce simp: index_ok_def)

lemma index_new:
  assumes "index_ok f index meta" "meta c = None"
  shows "index_ok f (add_to_index (f m) c index) (meta(c \<mapsto> m))"
proof -
  have "c \<notin> set (unwrap_or (index (f m)) [])" using assms by (auto simp: index_ok_def)
  then show ?thesis using assms by (auto simp: index_ok_def add_to_index_def list_ex_iff Let_def)
qed

lemma remove_index:
  "unwrap_or (remove_from_index k c index k') [] = (if k' = k then filter (\<lambda>x. x \<noteq> c) (unwrap_or (index k) []) else unwrap_or (index k') [])"
  by (simp add: remove_from_index_def)

lemma index_move:
  assumes "index_ok f index meta" "meta c = Some m"
  shows "index_ok f (add_to_index (f m') c (remove_from_index (f m) c index)) (meta(c \<mapsto> m'))"
proof -
  let ?i = "remove_from_index (f m) c index"
  have i: "distinct (unwrap_or (?i k) [])" "set (unwrap_or (?i k) []) = {x. x \<noteq> c \<and> (\<exists>m. meta x = Some m \<and> f m = k)}" for k
    using assms by (auto simp: remove_index index_ok_def)
  have a: "unwrap_or (add_to_index (f m') c ?i k) [] = unwrap_or (?i k) [] @ (if k = f m' then [c] else [])" for k
    using i(2) [of "f m'"] by (auto simp: add_to_index_def list_ex_iff Let_def)
  show ?thesis unfolding index_ok_def a using i by auto
qed

section \<open>The version history\<close>

text \<open>The history holds the newest versions, 50 at most, with consecutive numbers, each with its own snapshot.\<close>

definition versions_ok :: "asset_metadata \<Rightarrow> metadata_version list \<Rightarrow> bool" where
  "versions_ok m vs \<longleftrightarrow> 0 < mt_version m \<and> length vs = min max_versions (mt_version m)
     \<and> map mv_version vs = [Suc (mt_version m) - length vs ..< Suc (mt_version m)]
     \<and> vs \<noteq> [] \<and> mv_metadata (last vs) = m \<and> list_all (\<lambda>x. mt_version (mv_metadata x) = mv_version x) vs"

lemma drop_upt_1: "drop 1 [a ..< b] = [Suc a ..< b]"
  by (simp add: drop_upt)

lemma push_version_ok:
  assumes "versions_ok m vs" "mt_version m' = Suc (mt_version m)" "mv_version x = mt_version m'" "mv_metadata x = m'"
  shows "versions_ok m' (push_version x vs)"
proof -
  define v where "v = mt_version m"
  have vs: "0 < v" "length vs = min 50 v" "map mv_version vs = [Suc v - length vs ..< Suc v]"
      "list_all (\<lambda>x. mt_version (mv_metadata x) = mv_version x) vs"
    using assms(1) by (simp_all add: versions_ok_def v_def max_versions_def del: upt_Suc)
  show ?thesis
  proof (cases "50 \<le> length vs")
    case True
    then have l: "length vs = 50" "50 \<le> v" using vs(2) by simp_all
    have "Suc (v - 49) = v - 48" using l by simp
    then have "map mv_version (drop 1 vs) = [v - 48 ..< Suc v]" using vs(3) l by (simp add: drop_map [symmetric] drop_upt_1 del: upt_Suc)
    moreover have "list_all (\<lambda>x. mt_version (mv_metadata x) = mv_version x) (drop 1 vs)"
      using vs(4) by (auto simp: list_all_iff dest: in_set_dropD)
    ultimately show ?thesis using l assms(2-4) by (simp add: versions_ok_def push_version_def max_versions_def v_def)
  next
    case False
    then have "length vs = v" "v < 50" using vs(2) by simp_all
    then show ?thesis using vs(3,4) assms(2-4) by (simp add: versions_ok_def push_version_def max_versions_def v_def)
  qed
qed

section \<open>The invariant\<close>

definition list_limits :: "registry_state \<Rightarrow> string \<Rightarrow> bool" where
  "list_limits s c \<longleftrightarrow>
     (let h = unwrap_or (ar_chain_links s c) []; f = unwrap_or (ar_oracle_feeds s c) [];
          b = unwrap_or (ar_bridge_assocs s c) []; p = unwrap_or (ar_pool_assocs s c) []
      in distinct (map ch_chain_id h) \<and> length h \<le> 20 \<and> distinct (map of_feed_id f) \<and> length f \<le> 10
       \<and> distinct (map ba_bridge_id b) \<and> length b \<le> 10 \<and> distinct (map pa_pool_id p) \<and> length p \<le> 20)"

definition asset_books_ok :: "registry_state \<Rightarrow> bool" where
  "asset_books_ok s \<longleftrightarrow> (ar_admin s = None \<longrightarrow> ar_meta s = Map.empty) \<and> index_ok mt_category (ar_category_index s) (ar_meta s) \<and> index_ok mt_status (ar_status_index s) (ar_meta s)
     \<and> distinct (get_all_assets s) \<and> set (get_all_assets s) = dom (ar_meta s)
     \<and> (\<forall>c m. ar_meta s c = Some m \<longrightarrow> versions_ok m (get_metadata_versions c s) \<and> mt_asset_code m = c)
     \<and> (\<forall>c. list_limits s c)"

lemma asset_books_okI:
  assumes "asset_books_ok s" "ar_meta s c = Some m" "mt_version m' = Suc (mt_version m)" "mt_asset_code m' = mt_asset_code m"
    "index_ok mt_category (ar_category_index t) ((ar_meta s)(c \<mapsto> m'))" "index_ok mt_status (ar_status_index t) ((ar_meta s)(c \<mapsto> m'))"
    "ar_meta t = ar_meta s" "ar_versions t = ar_versions s" "ar_asset_list t = ar_asset_list s" "list_limits t = list_limits s"
    "ar_admin t = ar_admin s"
  shows "asset_books_ok (save_with_version c m' admin reason now t)"
proof -
  let ?x = "\<lparr> mv_version = mt_version m', mv_metadata = m', mv_changed_by = admin, mv_change_reason = reason, mv_timestamp = now \<rparr>"
  have ok: "versions_ok n (get_metadata_versions b s) \<and> mt_asset_code n = b" if "ar_meta s b = Some n" for b n
    using assms(1) that unfolding asset_books_ok_def by blast
  have p: "versions_ok m' (push_version ?x (get_metadata_versions c s))"
    by (rule push_version_ok [of m]) (use ok [OF assms(2)] assms(3) in simp_all)
  have g: "get_metadata_versions b (save_with_version c m' admin reason now t)
      = (if b = c then push_version ?x (get_metadata_versions c s) else get_metadata_versions b s)" for b
    using assms(8) by (simp add: get_metadata_versions_def save_with_version_def)
  have v: "versions_ok n (get_metadata_versions b (save_with_version c m' admin reason now t)) \<and> mt_asset_code n = b"
    if "((ar_meta s)(c \<mapsto> m')) b = Some n" for b n
  proof (cases "b = c")
    case True
    then have "n = m'" using that by simp
    then show ?thesis using ok [OF assms(2)] p assms(4) True by (simp add: g)
  next
    case False
    then show ?thesis using ok [of b n] that by (simp add: g)
  qed
  have l: "list_limits (save_with_version c m' admin reason now t) b = list_limits t b" for b
    by (simp add: list_limits_def save_with_version_def)
  let ?u = "save_with_version c m' admin reason now t"
  have f: "ar_meta ?u = (ar_meta s)(c \<mapsto> m')" "ar_category_index ?u = ar_category_index t" "ar_status_index ?u = ar_status_index t"
      "ar_admin ?u = ar_admin t" "get_all_assets ?u = get_all_assets s"
    using assms(7,9) by (simp_all add: save_with_version_def get_all_assets_def)
  have d: "distinct (get_all_assets s)" "set (get_all_assets s) = dom ((ar_meta s)(c \<mapsto> m'))" "ar_admin t \<noteq> None"
    using assms(1,2,11) by (auto simp: asset_books_ok_def)
  have "list_limits ?u b" for b using assms(1,10) l by (simp add: asset_books_ok_def)
  then show ?thesis unfolding asset_books_ok_def f using assms(5,6) d v by blast
qed

text \<open>An operation that changes only the lists of one asset keeps the invariant when it keeps the limits.\<close>

lemma asset_books_ok_lists:
  assumes "asset_books_ok s" "ar_meta t = ar_meta s" "ar_versions t = ar_versions s" "ar_asset_list t = ar_asset_list s"
    "ar_category_index t = ar_category_index s" "ar_status_index t = ar_status_index s" "ar_admin t = ar_admin s" "\<And>c. list_limits s c \<Longrightarrow> list_limits t c"
  shows "asset_books_ok t"
  using assms by (simp add: asset_books_ok_def get_all_assets_def get_metadata_versions_def)

lemma register_ok:
  assumes "asset_books_ok s" "registry_register_asset env a c n y i d k x u s = Inr s'"
  shows "asset_books_ok s'"
proof -
  define m where "m = \<lparr> mt_asset_code = c, mt_name = n, mt_symbol = y, mt_issuer = i, mt_decimals = d,
    mt_category = k, mt_status = PendingReviewAsset, mt_compliance = PendingCompliance,
    mt_risk_rating = MediumRisk, mt_risk_score_bps = 5000, mt_description = x, mt_url = u,
    mt_version = 1, mt_registered_at = timestamp env, mt_updated_at = timestamp env, mt_registered_by = a \<rparr>"
  define v where "v = \<lparr> mv_version = 1, mv_metadata = m, mv_changed_by = a, mv_change_reason = ''Initial registration'', mv_timestamp = timestamp env \<rparr>"
  have new: "ar_meta s c = None" "ar_admin s \<noteq> None" and s': "s' = s\<lparr> ar_meta := (ar_meta s)(c \<mapsto> m), ar_versions := (ar_versions s)(c \<mapsto> [v]),
          ar_chain_links := (ar_chain_links s)(c \<mapsto> []), ar_oracle_feeds := (ar_oracle_feeds s)(c \<mapsto> []),
          ar_bridge_assocs := (ar_bridge_assocs s)(c \<mapsto> []), ar_pool_assocs := (ar_pool_assocs s)(c \<mapsto> []),
          ar_compliance := (ar_compliance s)(c \<mapsto> []), ar_asset_list := Some (unwrap_or (ar_asset_list s) [] @ [c]),
          ar_category_index := add_to_index k c (ar_category_index s),
          ar_status_index := add_to_index PendingReviewAsset c (ar_status_index s) \<rparr>"
    using assms(2) by (auto simp: registry_register_asset_def registry_admin_def m_def v_def Let_def)
  have m: "mt_version m = 1" "mt_category m = k" "mt_status m = PendingReviewAsset" "mt_asset_code m = c"
      and v: "mv_version v = 1" "mv_metadata v = m" by (simp_all add: m_def v_def)
  have "versions_ok m [v]" using m v by (simp add: versions_ok_def max_versions_def)
  moreover have "index_ok mt_category (ar_category_index s') (ar_meta s')" "index_ok mt_status (ar_status_index s') (ar_meta s')"
    using assms(1) new(1) index_new [of mt_category _ _ c m] index_new [of mt_status _ _ c m] m by (simp_all add: s' asset_books_ok_def)
  moreover have "distinct (get_all_assets s')" "set (get_all_assets s') = dom (ar_meta s')"
    using assms(1) new by (auto simp: s' asset_books_ok_def get_all_assets_def)
  moreover have "list_limits s' b" for b using assms(1) by (simp add: s' asset_books_ok_def list_limits_def)
  moreover have "versions_ok x (get_metadata_versions b s') \<and> mt_asset_code x = b" if "ar_meta s' b = Some x" for b x
    using calculation(1) m that assms(1) by (cases "b = c") (simp_all add: s' get_metadata_versions_def asset_books_ok_def)
  moreover have "ar_admin s' \<noteq> None" using new(2) by (simp add: s')
  ultimately show ?thesis unfolding asset_books_ok_def by blast
qed

text \<open>The three kinds of new version: the indexed fields are kept, or the category or the status moves.\<close>

lemma save_keep:
  assumes "asset_books_ok s" "ar_meta s c = Some m" "mt_version m' = Suc (mt_version m)" "mt_asset_code m' = mt_asset_code m"
    "mt_category m' = mt_category m" "mt_status m' = mt_status m"
  shows "asset_books_ok (save_with_version c m' admin reason now s)"
    "asset_books_ok (save_with_version c m' admin reason now (s\<lparr> ar_compliance := x \<rparr>))"
proof -
  have i: "index_ok mt_category (ar_category_index s) ((ar_meta s)(c \<mapsto> m'))" "index_ok mt_status (ar_status_index s) ((ar_meta s)(c \<mapsto> m'))"
    using assms(1,2,5,6) index_keep unfolding asset_books_ok_def by metis+
  then show "asset_books_ok (save_with_version c m' admin reason now s)" by (intro asset_books_okI [OF assms(1-4)]) simp_all
  from i show "asset_books_ok (save_with_version c m' admin reason now (s\<lparr> ar_compliance := x \<rparr>))"
    by (intro asset_books_okI [OF assms(1-4)]) (simp_all add: list_limits_def fun_eq_iff)
qed

lemma save_category:
  assumes "asset_books_ok s" "ar_meta s c = Some m" "mt_version m' = Suc (mt_version m)" "mt_asset_code m' = mt_asset_code m"
    "mt_status m' = mt_status m"
  shows "asset_books_ok (save_with_version c m' admin reason now
    (s\<lparr> ar_category_index := add_to_index (mt_category m') c (remove_from_index (mt_category m) c (ar_category_index s)) \<rparr>))"
proof -
  have "index_ok mt_category (add_to_index (mt_category m') c (remove_from_index (mt_category m) c (ar_category_index s))) ((ar_meta s)(c \<mapsto> m'))"
    "index_ok mt_status (ar_status_index s) ((ar_meta s)(c \<mapsto> m'))"
    using assms(1,2,5) index_keep index_move unfolding asset_books_ok_def by metis+
  then show ?thesis by (intro asset_books_okI [OF assms(1-4)]) (simp_all add: list_limits_def fun_eq_iff)
qed

lemma save_status:
  assumes "asset_books_ok s" "ar_meta s c = Some m" "mt_version m' = Suc (mt_version m)" "mt_asset_code m' = mt_asset_code m"
    "mt_category m' = mt_category m"
  shows "asset_books_ok (save_with_version c m' admin reason now
    (s\<lparr> ar_status_index := add_to_index (mt_status m') c (remove_from_index (mt_status m) c (ar_status_index s)) \<rparr>))"
proof -
  have "index_ok mt_status (add_to_index (mt_status m') c (remove_from_index (mt_status m) c (ar_status_index s))) ((ar_meta s)(c \<mapsto> m'))"
    "index_ok mt_category (ar_category_index s) ((ar_meta s)(c \<mapsto> m'))"
    using assms(1,2,5) index_keep index_move unfolding asset_books_ok_def by metis+
  then show ?thesis by (intro asset_books_okI [OF assms(1-4)]) (simp_all add: list_limits_def fun_eq_iff)
qed

lemma move_status_ok:
  assumes "asset_books_ok s" "ar_meta s c = Some m" "move_status env a c r m new s = Inr s'"
  shows "asset_books_ok s'"
  using save_status [OF assms(1,2), of "m\<lparr> mt_status := new, mt_version := Suc (mt_version m), mt_updated_at := timestamp env \<rparr>" a r "timestamp env"]
    assms(3) by (auto simp: move_status_def)

lemma registry_exec_ok:
  assumes "asset_books_ok s" "registry_exec env c s = Inr s'"
  shows "asset_books_ok s'"
proof (cases c)
  case (RgInitialize a)
  then show ?thesis using assms by (auto simp: registry_initialize_def asset_books_ok_def get_all_assets_def get_metadata_versions_def list_limits_def)
next
  case (RgRegister a c n y i d k x u)
  then show ?thesis using assms register_ok by simp
next
  case (RgUpdateMetadata a c n y i x u r)
  then show ?thesis using assms by (auto simp: update_metadata_def get_asset_or_err_def intro!: save_keep(1))
next
  case (RgUpdateRisk a c r x)
  then show ?thesis using assms by (auto simp: update_risk_def get_asset_or_err_def intro!: save_keep(1))
next
  case (RgUpdateCompliance a c x j f l n t)
  then show ?thesis using assms by (auto simp: update_compliance_def get_asset_or_err_def Let_def intro!: save_keep(2))
next
  case (RgUpdateCategory a c k)
  then obtain m where m: "ar_meta s c = Some m" and s': "s' = save_with_version c (m\<lparr> mt_category := k, mt_version := Suc (mt_version m),
      mt_updated_at := timestamp env \<rparr>) a ''Category updated'' (timestamp env)
      (s\<lparr> ar_category_index := add_to_index k c (remove_from_index (mt_category m) c (ar_category_index s)) \<rparr>)"
    using assms(2) by (auto simp: update_category_def get_asset_or_err_def)
  show ?thesis unfolding s' using save_category [OF assms(1) m, of "m\<lparr> mt_category := k, mt_version := Suc (mt_version m),
      mt_updated_at := timestamp env \<rparr>"] by simp
next
  case (RgUpdateStatus a c x)
  then show ?thesis using assms by (auto simp: update_status_def get_asset_or_err_def intro: move_status_ok)
next
  case (RgDeactivate a c r)
  then show ?thesis using assms by (auto simp: deactivate_asset_def get_asset_or_err_def intro: move_status_ok)
next
  case (RgRestore a c)
  then show ?thesis using assms by (auto simp: restore_registered_asset_def get_asset_or_err_def intro: move_status_ok)
next
  case (RgLinkChain a c h k b)
  then show ?thesis using assms by (auto simp: link_chain_def Let_def max_chains_def list_limits_def list_ex_iff intro!: asset_books_ok_lists [of s])
next
  case (RgLinkBridge a c b k x y)
  then show ?thesis using assms by (auto simp: link_bridge_contract_def Let_def max_bridges_def list_limits_def list_ex_iff intro!: asset_books_ok_lists [of s])
next
  case (RgRegisterFeed a c f p h k)
  then show ?thesis using assms by (auto simp: register_oracle_feed_def Let_def max_oracle_feeds_def list_limits_def list_ex_iff intro!: asset_books_ok_lists [of s])
next
  case (RgAddPool a c p q)
  then show ?thesis using assms by (auto simp: add_liquidity_pool_def Let_def max_pools_def list_limits_def list_ex_iff intro!: asset_books_ok_lists [of s])
qed (use assms in \<open>auto simp: whitelist_add_def whitelist_remove_def freeze_asset_def unfreeze_asset_def Let_def list_limits_def
      intro!: asset_books_ok_lists [of s]\<close>)

interpretation registry: contract_invariant registry_exec "\<lambda>s. s = registry_start" "\<lambda>_. True" asset_books_ok
proof
  show "asset_books_ok s" if "s = registry_start" for s
    using that by (simp add: registry_start_def asset_books_ok_def index_ok_def get_all_assets_def list_limits_def)
qed (rule registry_exec_ok)

lemma registry_reachable: "asset_books_ok (run registry_exec registry_start h)"
  by (rule registry.run_inv) (simp_all add: list_all_iff)

section \<open>What never changes\<close>

text \<open>Every change of an asset is a new version; its identity stays, deprecation is final and an asset
  never returns to the review.\<close>

definition later_metadata :: "asset_metadata \<Rightarrow> asset_metadata \<Rightarrow> bool" where
  "later_metadata m m' \<longleftrightarrow> m' = m \<or> (mt_version m < mt_version m' \<and> mt_asset_code m' = mt_asset_code m
     \<and> mt_decimals m' = mt_decimals m \<and> mt_registered_at m' = mt_registered_at m \<and> mt_registered_by m' = mt_registered_by m
     \<and> (mt_status m = DeprecatedAsset \<longrightarrow> mt_status m' = DeprecatedAsset)
     \<and> (mt_status m \<noteq> PendingReviewAsset \<longrightarrow> mt_status m' \<noteq> PendingReviewAsset))"

definition registry_later :: "registry_state \<Rightarrow> registry_state \<Rightarrow> bool" where
  "registry_later s t \<longleftrightarrow> (\<forall>c m. ar_meta s c = Some m \<longrightarrow> (\<exists>m'. ar_meta t c = Some m' \<and> later_metadata m m'))"

lemma later_metadata_trans: "later_metadata m n \<Longrightarrow> later_metadata n k \<Longrightarrow> later_metadata m k"
  by (auto simp: later_metadata_def)

lemma later_same: "ar_meta t = ar_meta s \<Longrightarrow> registry_later s t"
  by (simp add: registry_later_def later_metadata_def)

lemma later_save:
  assumes "ar_meta s c = Some m" "later_metadata m m'" "ar_meta t = ar_meta s"
  shows "registry_later s (save_with_version c m' admin reason now t)"
  using assms by (auto simp: registry_later_def save_with_version_def later_metadata_def)

lemma move_status_later:
  assumes "ar_meta s c = Some m" "move_status env a c r m new s = Inr s'" "mt_status m \<noteq> DeprecatedAsset" "new \<noteq> PendingReviewAsset"
  shows "registry_later s s'"
  using assms(2) by (auto simp: move_status_def later_metadata_def assms intro!: later_save [OF assms(1)])

lemma valid_transition_facts: "valid_transition x y \<Longrightarrow> x \<noteq> DeprecatedAsset \<and> y \<noteq> PendingReviewAsset"
  by (auto simp: valid_transition_def)

lemma registry_exec_later:
  assumes "registry_exec env c s = Inr s'"
  shows "registry_later s s'"
proof (cases c)
  case (RgUpdateStatus a c x)
  then show ?thesis using assms
    by (auto simp: update_status_def get_asset_or_err_def dest!: valid_transition_facts intro: move_status_later)
next
  case (RgUpdateMetadata a c n y i x u r)
  then show ?thesis using assms by (auto simp: update_metadata_def get_asset_or_err_def later_metadata_def intro!: later_save)
next
  case (RgUpdateCategory a c k)
  then show ?thesis using assms by (auto simp: update_category_def get_asset_or_err_def later_metadata_def intro!: later_save)
next
  case (RgUpdateRisk a c r x)
  then show ?thesis using assms by (auto simp: update_risk_def get_asset_or_err_def later_metadata_def intro!: later_save)
next
  case (RgUpdateCompliance a c x j f l n t)
  then show ?thesis using assms by (auto simp: update_compliance_def get_asset_or_err_def later_metadata_def Let_def intro!: later_save)
next
  case (RgRegister a c n y i d k x u)
  then show ?thesis using assms by (auto simp: registry_register_asset_def registry_later_def later_metadata_def Let_def)
next
  case (RgDeactivate a c r)
  then show ?thesis using assms by (auto simp: deactivate_asset_def get_asset_or_err_def intro: move_status_later)
next
  case (RgRestore a c)
  then show ?thesis using assms by (auto simp: restore_registered_asset_def get_asset_or_err_def intro: move_status_later)
qed (use assms in \<open>auto simp: registry_initialize_def
    link_chain_def link_bridge_contract_def register_oracle_feed_def add_liquidity_pool_def whitelist_add_def
    whitelist_remove_def freeze_asset_def unfreeze_asset_def Let_def intro!: later_same\<close>)

interpretation registry_history: contract_progress registry_exec "\<lambda>_. True" registry_later
proof
  show "registry_later s s" for s by (rule later_same) simp
  show "registry_later s u" if "registry_later s t" "registry_later t u" for s t u
    using that unfolding registry_later_def by (meson later_metadata_trans)
qed (auto intro: registry_exec_later)

section \<open>Properties\<close>

definition demo_registry :: "(env \<times> registry_call) list" where
  "demo_registry =
     (let e = \<lambda>t. \<lparr> timestamp = t, auths = [''A''] \<rparr>
      in [(e 1, RgInitialize ''A''), (e 2, RgRegister ''A'' ''USDC'' ''n'' ''s'' ''i'' 7 Stablecoin '''' ''''),
          (e 3, RgRegister ''A'' ''XLM'' ''n'' ''s'' ''i'' 7 NativeAsset '''' ''''), (e 4, RgUpdateStatus ''A'' ''USDC'' ActiveAsset),
          (e 5, RgUpdateStatus ''A'' ''USDC'' PausedAsset), (e 6, RgUpdateRisk ''A'' ''XLM'' HighRisk 9000),
          (e 7, RgUpdateStatus ''A'' ''USDC'' DeprecatedAsset), (e 8, RgUpdateCategory ''A'' ''USDC'' OtherAsset)])"

text \<open>C39: The stored indexes of the registry are exact: in every history the list of a status, and the list
  of a category, names each asset with that status or category once and no other, and the list of
  all assets names each registered one once.\<close>

theorem registry_indexes_exact:
  assumes "s = run registry_exec registry_start h"
  shows "set (get_assets_by_status x s) = {c. map_option mt_status (ar_meta s c) = Some x}
    \<and> set (get_assets_by_category k s) = {c. map_option mt_category (ar_meta s c) = Some k}
    \<and> set (get_all_assets s) = dom (ar_meta s)
    \<and> distinct (get_assets_by_status x s) \<and> distinct (get_assets_by_category k s) \<and> distinct (get_all_assets s)"
proof -
  have "index_ok mt_category (ar_category_index s) (ar_meta s)" "index_ok mt_status (ar_status_index s) (ar_meta s)"
    "distinct (get_all_assets s)" "set (get_all_assets s) = dom (ar_meta s)"
    using registry_reachable [of h] assms by (simp_all add: asset_books_ok_def)
  then show ?thesis by (simp add: index_ok_def get_assets_by_status_def get_assets_by_category_def map_option_eq_Some)
qed

lemma registry_indexes_exact_witness:
  "set (get_assets_by_status DeprecatedAsset (run registry_exec registry_start demo_registry)) = {''USDC''}
   \<and> ''USDC'' \<in> {c. map_option mt_category (ar_meta (run registry_exec registry_start demo_registry) c) = Some OtherAsset}"
proof -
  let ?s = "run registry_exec registry_start demo_registry"
  have "get_assets_by_status DeprecatedAsset ?s = [''USDC'']" "get_assets_by_category OtherAsset ?s = [''USDC'']" by code_simp+
  then show ?thesis using registry_indexes_exact [OF refl, where h = demo_registry and x = DeprecatedAsset and k = OtherAsset] by auto
qed

text \<open>Also: The version history of an asset is complete up to its limit: each of its newest fifty versions is
  found under its number, with the snapshot taken then, and the newest snapshot is the current
  metadata.\<close>

theorem registry_versions_found:
  assumes "s = run registry_exec registry_start h" "ar_meta s c = Some m" "0 < v" "v \<le> mt_version m" "mt_version m < v + 50"
  shows "\<exists>x. get_metadata_at_version c v s = Some x \<and> mt_version (mv_metadata x) = v \<and> (v = mt_version m \<longrightarrow> mv_metadata x = m)"
proof -
  define vs where "vs = get_metadata_versions c s"
  have "versions_ok m vs" using registry_reachable [of h] assms(1,2) by (auto simp: asset_books_ok_def vs_def)
  then have ok: "length vs = min 50 (mt_version m)" "map mv_version vs = [Suc (mt_version m) - length vs ..< Suc (mt_version m)]"
      "vs \<noteq> []" "mv_metadata (last vs) = m" "list_all (\<lambda>x. mt_version (mv_metadata x) = mv_version x) vs"
    by (simp_all add: versions_ok_def max_versions_def del: upt_Suc)
  have "v \<in> set (map mv_version vs)" unfolding ok(2) using assms(3-5) ok(1) by (simp del: upt_Suc)
  then obtain x where x: "get_metadata_at_version c v s = Some x"
    by (cases "get_metadata_at_version c v s") (auto simp: get_metadata_at_version_def find_None_iff vs_def)
  then have xs: "x \<in> set vs" "mv_version x = v" by (auto simp: get_metadata_at_version_def find_Some_iff vs_def)
  moreover have "distinct (map mv_version vs)" unfolding ok(2) by (simp del: upt_Suc)
  moreover have "mt_version (mv_metadata (last vs)) = mv_version (last vs)" using ok(3,5) by (simp add: list_all_iff)
  ultimately have "mv_metadata x = m" if "v = mt_version m"
    using that ok(3,4) by (metis distinct_map inj_onD last_in_set)
  with x xs ok(5) show ?thesis by (auto simp: list_all_iff)
qed

lemma registry_versions_found_witness:
  "\<exists>x. get_metadata_at_version ''USDC'' 3 (run registry_exec registry_start demo_registry) = Some x \<and> mt_version (mv_metadata x) = 3"
proof -
  let ?s = "run registry_exec registry_start demo_registry"
  have "map_option mt_version (ar_meta ?s ''USDC'') = Some 5" by code_simp
  then obtain m where m: "ar_meta ?s ''USDC'' = Some m" "mt_version m = 5" by (auto simp: map_option_eq_Some)
  show ?thesis using registry_versions_found [OF refl m(1), of 3] m(2) by auto
qed

text \<open>Also: Assets only move forward: whatever is called after an asset has been registered, it stays
  registered under the same code, decimals, registration time and registrant, every change to it is a
  new version, a deprecated asset stays deprecated, and none returns to the review.\<close>

theorem registry_assets_move_forward:
  assumes "ar_meta s c = Some m" "ar_meta (run registry_exec s h) c = Some m'"
  shows "mt_version m \<le> mt_version m' \<and> (mt_version m' = mt_version m \<longrightarrow> m' = m)
    \<and> mt_asset_code m' = mt_asset_code m \<and> mt_decimals m' = mt_decimals m
    \<and> mt_registered_at m' = mt_registered_at m \<and> mt_registered_by m' = mt_registered_by m
    \<and> (mt_status m = DeprecatedAsset \<longrightarrow> mt_status m' = DeprecatedAsset)
    \<and> (mt_status m \<noteq> PendingReviewAsset \<longrightarrow> mt_status m' \<noteq> PendingReviewAsset)"
proof -
  have "later_metadata m m'" using registry_history.run_rel [of s h] assms unfolding registry_later_def by fastforce
  then show ?thesis by (auto simp: later_metadata_def)
qed

lemma registry_assets_move_forward_witness:
  "\<exists>m m'. ar_meta (run registry_exec registry_start (take 7 demo_registry)) ''USDC'' = Some m \<and> mt_status m = DeprecatedAsset
     \<and> ar_meta (run registry_exec (run registry_exec registry_start (take 7 demo_registry)) (drop 7 demo_registry)) ''USDC'' = Some m'
     \<and> mt_status m' = DeprecatedAsset \<and> mt_category m' = OtherAsset"
proof -
  let ?s = "run registry_exec registry_start (take 7 demo_registry)" and ?h = "drop 7 demo_registry"
  have "map_option mt_status (ar_meta ?s ''USDC'') = Some DeprecatedAsset" "map_option mt_category (ar_meta (run registry_exec ?s ?h) ''USDC'') = Some OtherAsset"
    by code_simp+
  then obtain m m' where m: "ar_meta ?s ''USDC'' = Some m" "ar_meta (run registry_exec ?s ?h) ''USDC'' = Some m'"
      "mt_status m = DeprecatedAsset" "mt_category m' = OtherAsset" by (auto simp: map_option_eq_Some)
  show ?thesis using registry_assets_move_forward [OF m(1,2)] m by auto
qed

end
