(* ===== verification/Reputation.thy ===== *)
theory Reputation
  imports Soroban "HOL-Library.Multiset"
begin

text \<open>
  \<open>soroban/src/reputation_system.rs\<close>: the reputation of bridge operators, oracle nodes and relay
  operators: registration with a stake, performance reports averaged into a score, penalties and
  rewards, decay over time, and a leaderboard per type that is sorted when it is read. Two kinds of
  value are written under the key of an entity's reputation, so a slot is a tagged union and a read
  at the other type traps, as the conversion in the host does.
\<close>

section \<open>Data\<close>

definition reputation_scale :: nat where "reputation_scale = 10000"
definition max_history_records :: nat where "max_history_records = 100"
definition time_decay_halflife :: nat where "time_decay_halflife = 90 * 24 * 60 * 60"
definition min_reputation_threshold :: nat where "min_reputation_threshold = 5000"

type_synonym 'a repres = "(unit, 'a) res"

datatype entity_type = BridgeOperator | OracleNode | RelayOperator

datatype badge_level = NoBadge | BronzeBadge | SilverBadge | GoldBadge | PlatinumBadge | DiamondBadge

record reputation_factors =
  rf_accuracy :: nat
  rf_uptime :: nat
  rf_response_time :: nat
  rf_dispute_history :: nat

record performance_record =
  pf_timestamp :: nat
  pf_entity_type :: entity_type
  pf_accuracy :: nat
  pf_uptime :: nat
  pf_response_time :: nat
  pf_disputes_won :: nat
  pf_disputes_lost :: nat
  pf_total_operations :: nat
  pf_successful_operations :: nat
  pf_penalty_amount :: int
  pf_reward_amount :: int

record reputation_data =
  rd_entity :: address
  rd_type :: entity_type
  rd_score :: nat
  rd_factors :: reputation_factors
  rd_total_operations :: nat
  rd_successful_operations :: nat
  rd_stake :: int
  rd_penalties :: int
  rd_rewards :: int
  rd_last_update :: nat
  rd_registered :: nat
  rd_slashed :: bool
  rd_badge :: badge_level

record reputation_weights =
  rv_accuracy :: nat
  rv_uptime :: nat
  rv_response_time :: nat
  rv_dispute_history :: nat

record reputation_config =
  rn_weights :: reputation_weights
  rn_min_stake :: int
  rn_slashing_percentage :: nat
  rn_reward_percentage :: nat
  rn_decay_enabled :: bool
  rn_recovery_enabled :: bool
  rn_recovery_period :: nat

record leaderboard_entry =
  rt_entity :: address
  rt_score :: nat
  rt_badge :: badge_level
  rt_operations :: nat

definition default_weights :: reputation_weights where
  "default_weights = \<lparr> rv_accuracy = 30, rv_uptime = 25, rv_response_time = 20, rv_dispute_history = 25 \<rparr>"

definition default_reputation_config :: reputation_config where
  "default_reputation_config = \<lparr> rn_weights = default_weights, rn_min_stake = 1000, rn_slashing_percentage = 10,
     rn_reward_percentage = 5, rn_decay_enabled = True, rn_recovery_enabled = True, rn_recovery_period = 30 * 24 * 60 * 60 \<rparr>"

datatype reputation_slot = ReputationSlot reputation_data | HistorySlot "performance_record list"

record reputation_state =
  rx_admin :: "address option"
  rx_config :: "reputation_config option"
  rx_reputation :: "address \<rightharpoonup> reputation_slot"
  rx_history :: "address \<rightharpoonup> performance_record list"
  rx_board :: "entity_type \<rightharpoonup> leaderboard_entry list"
  rx_total :: "entity_type \<rightharpoonup> nat"

section \<open>Scores\<close>

text \<open>A read of the reputation key at the type of the data: a history stored there does not convert.\<close>

definition read_reputation :: "address \<Rightarrow> reputation_state \<Rightarrow> reputation_data option repres" where
  "read_reputation e s = (case rx_reputation s e of None \<Rightarrow> Inr None
     | Some (ReputationSlot d) \<Rightarrow> Inr (Some d) | Some (HistorySlot h) \<Rightarrow> Inl Trap)"

definition put_reputation :: "address \<Rightarrow> reputation_data \<Rightarrow> reputation_state \<Rightarrow> reputation_state" where
  "put_reputation e d s = s\<lparr> rx_reputation := (rx_reputation s)(e \<mapsto> ReputationSlot d) \<rparr>"

definition ema_update :: "nat \<Rightarrow> nat \<Rightarrow> nat \<Rightarrow> nat repres" where
  "ema_update current new alpha =
     and_then (u_sub 100 alpha) (\<lambda>beta.
     and_then (mul_u64 current beta) (\<lambda>x.
     and_then (mul_u64 new alpha) (\<lambda>y.
     and_then (add_u64 x y) (\<lambda>z. Inr (z div 100 mod 2 ^ 32)))))"

primrec decay_loop :: "nat \<Rightarrow> nat \<Rightarrow> nat" where
  "decay_loop 0 factor = factor"
| "decay_loop (Suc n) factor = (if factor div 2 = 0 then 0 else decay_loop n (factor div 2))"

definition calculate_decay_factor :: "nat \<Rightarrow> nat" where
  "calculate_decay_factor time_since_update =
     (if time_since_update = 0 then reputation_scale
      else decay_loop (time_since_update div time_decay_halflife) reputation_scale)"

definition calculate_badge_level :: "nat \<Rightarrow> badge_level" where
  "calculate_badge_level score =
     (if score \<le> 2499 then NoBadge else if score \<le> 4999 then BronzeBadge else if score \<le> 7499 then SilverBadge
      else if score \<le> 8999 then GoldBadge else if score \<le> 9499 then PlatinumBadge
      else if score \<le> reputation_scale then DiamondBadge else NoBadge)"

definition overall_score :: "reputation_factors \<Rightarrow> reputation_weights \<Rightarrow> nat repres" where
  "overall_score f w =
     and_then (mul_u64 (rf_accuracy f) (rv_accuracy w)) (\<lambda>a.
     and_then (mul_u64 (rf_uptime f) (rv_uptime w)) (\<lambda>u.
     and_then (add_u64 a u) (\<lambda>au.
     and_then (mul_u64 (rf_response_time f) (rv_response_time w)) (\<lambda>r.
     and_then (add_u64 au r) (\<lambda>aur.
     and_then (mul_u64 (rf_dispute_history f) (rv_dispute_history w)) (\<lambda>d.
     and_then (add_u64 aur d) (\<lambda>t. Inr (t div 100 mod 2 ^ 32))))))))"

definition dispute_score :: "nat \<Rightarrow> nat \<Rightarrow> nat repres" where
  "dispute_score won lost =
     and_then (add_u32 won lost) (\<lambda>total.
     and_then (mul_u32 won reputation_scale) (\<lambda>n. Inr (if total = 0 then 7500 else n div total)))"

definition update_reputation_internal ::
  "address \<Rightarrow> nat \<Rightarrow> nat \<Rightarrow> nat \<Rightarrow> nat \<Rightarrow> nat \<Rightarrow> reputation_state \<Rightarrow> reputation_state repres" where
  "update_reputation_internal e accuracy uptime response_time won lost s =
     and_then (read_reputation e s) (\<lambda>r.
     and_then (unwrap r) (\<lambda>d.
     and_then (unwrap (rx_config s)) (\<lambda>cfg.
     and_then (dispute_score won lost) (\<lambda>ds.
     and_then (ema_update (rf_accuracy (rd_factors d)) (min accuracy reputation_scale) 20) (\<lambda>a.
     and_then (ema_update (rf_uptime (rd_factors d)) (min uptime reputation_scale) 20) (\<lambda>u.
     and_then (ema_update (rf_response_time (rd_factors d)) (min response_time reputation_scale) 20) (\<lambda>t.
     and_then (ema_update (rf_dispute_history (rd_factors d)) ds 20) (\<lambda>h.
       let f = \<lparr> rf_accuracy = a, rf_uptime = u, rf_response_time = t, rf_dispute_history = h \<rparr> in
       and_then (overall_score f (rn_weights cfg)) (\<lambda>o'.
       Inr (put_reputation e (d\<lparr> rd_factors := f, rd_score := o' \<rparr>) s))))))))))"

definition update_leaderboard_internal ::
  "address \<Rightarrow> nat \<Rightarrow> badge_level \<Rightarrow> reputation_state \<Rightarrow> reputation_state repres" where
  "update_leaderboard_internal e score badge s =
     and_then (read_reputation e s) (\<lambda>r.
     and_then (unwrap r) (\<lambda>d.
       let entry = \<lparr> rt_entity = e, rt_score = score, rt_badge = badge, rt_operations = rd_total_operations d \<rparr>;
           board = unwrap_or (rx_board s (rd_type d)) []
       in Inr (s\<lparr> rx_board := (rx_board s)(rd_type d \<mapsto> upsert (\<lambda>x. rt_entity x = e) (\<lambda>_. entry) entry board) \<rparr>)))"

section \<open>Operations\<close>

definition reputation_initialize :: "env \<Rightarrow> address \<Rightarrow> reputation_config \<Rightarrow> reputation_state \<Rightarrow> reputation_state repres" where
  "reputation_initialize env admin cfg s =
     and_then (require_auth env admin) (\<lambda>_.
     Inr (s\<lparr> rx_admin := Some admin, rx_config := Some cfg,
             rx_board := (rx_board s)(BridgeOperator \<mapsto> [], OracleNode \<mapsto> [], RelayOperator \<mapsto> []),
             rx_total := (rx_total s)(BridgeOperator \<mapsto> 0, OracleNode \<mapsto> 0, RelayOperator \<mapsto> 0) \<rparr>))"

definition register_entity :: "env \<Rightarrow> address \<Rightarrow> entity_type \<Rightarrow> int \<Rightarrow> reputation_state \<Rightarrow> reputation_state repres" where
  "register_entity env e ty stake s =
     and_then (ensure (rx_reputation s e = None) (Panic ''Entity already registered'')) (\<lambda>_.
     and_then (unwrap (rx_config s)) (\<lambda>cfg.
     and_then (ensure (rn_min_stake cfg \<le> stake) (Panic ''Stake amount below minimum requirement'')) (\<lambda>_.
       let d = \<lparr> rd_entity = e, rd_type = ty, rd_score = 7500,
                 rd_factors = \<lparr> rf_accuracy = 7500, rf_uptime = 7500, rf_response_time = 7500, rf_dispute_history = 7500 \<rparr>,
                 rd_total_operations = 0, rd_successful_operations = 0, rd_stake = stake, rd_penalties = 0, rd_rewards = 0,
                 rd_last_update = timestamp env, rd_registered = timestamp env, rd_slashed = False, rd_badge = NoBadge \<rparr>;
           s1 = (put_reputation e d s)\<lparr> rx_history := (rx_history s)(e \<mapsto> []) \<rparr>
       in
       and_then (unwrap (rx_total s1 ty)) (\<lambda>total.
       and_then (add_u64 total 1) (\<lambda>total'.
       update_leaderboard_internal e (rd_score d) NoBadge (s1\<lparr> rx_total := (rx_total s1)(ty \<mapsto> total') \<rparr>))))))"

text \<open>The clean-up of a long history keeps the records of the last year, however many they are.\<close>

definition clean_history :: "nat \<Rightarrow> performance_record list \<Rightarrow> performance_record list" where
  "clean_history now h =
     (if max_history_records < length h then filter (\<lambda>x. now - 365 * 24 * 60 * 60 \<le> pf_timestamp x) h else h)"

definition record_performance ::
  "env \<Rightarrow> address \<Rightarrow> nat \<Rightarrow> nat \<Rightarrow> nat \<Rightarrow> nat \<Rightarrow> nat \<Rightarrow> nat \<Rightarrow> nat \<Rightarrow> reputation_state \<Rightarrow> reputation_state repres" where
  "record_performance env e accuracy uptime response_time won lost ops_count successful s =
     and_then (require_auth env e) (\<lambda>_.
     and_then (read_reputation e s) (\<lambda>r.
     and_then (ok_or r (Panic ''Entity not registered'')) (\<lambda>d.
       let p = \<lparr> pf_timestamp = timestamp env, pf_entity_type = rd_type d, pf_accuracy = accuracy, pf_uptime = uptime,
                 pf_response_time = response_time, pf_disputes_won = won, pf_disputes_lost = lost,
                 pf_total_operations = ops_count, pf_successful_operations = successful, pf_penalty_amount = 0, pf_reward_amount = 0 \<rparr>;
           h = clean_history (timestamp env) (unwrap_or (rx_history s e) [] @ [p])
       in
       and_then (update_reputation_internal e accuracy uptime response_time won lost
                  (s\<lparr> rx_history := (rx_history s)(e \<mapsto> h) \<rparr>)) (\<lambda>s1.
       and_then (read_reputation e s1) (\<lambda>r1.
       and_then (unwrap r1) (\<lambda>d1.
       and_then (add_u64 (rd_total_operations d1) ops_count) (\<lambda>ops.
       and_then (add_u64 (rd_successful_operations d1) successful) (\<lambda>succ.
       Inr (put_reputation e (d1\<lparr> rd_total_operations := ops, rd_successful_operations := succ,
              rd_last_update := timestamp env, rd_badge := calculate_badge_level (rd_score d1) \<rparr>) s1)))))))))"

text \<open>\<open>as u32\<close> keeps the low 32 bits of the amount.\<close>

definition i128_as_u32 :: "int \<Rightarrow> nat" where
  "i128_as_u32 x = nat (x mod 2 ^ 32)"

definition event_record :: "env \<Rightarrow> entity_type \<Rightarrow> nat \<Rightarrow> nat \<Rightarrow> int \<Rightarrow> int \<Rightarrow> performance_record" where
  "event_record env ty won lost penalty reward =
     \<lparr> pf_timestamp = timestamp env, pf_entity_type = ty, pf_accuracy = 0, pf_uptime = 0, pf_response_time = 0,
       pf_disputes_won = won, pf_disputes_lost = lost, pf_total_operations = 0, pf_successful_operations = 0,
       pf_penalty_amount = penalty, pf_reward_amount = reward \<rparr>"

definition apply_penalty :: "env \<Rightarrow> address \<Rightarrow> int \<Rightarrow> reputation_state \<Rightarrow> reputation_state repres" where
  "apply_penalty env e amount s =
     and_then (unwrap (rx_admin s)) (\<lambda>admin.
     and_then (require_auth env admin) (\<lambda>_.
     and_then (read_reputation e s) (\<lambda>r.
     and_then (ok_or r (Panic ''Entity not registered'')) (\<lambda>d.
     and_then (unwrap (rx_config s)) (\<lambda>cfg.
     and_then (mul_u32 (i128_as_u32 amount) (rn_slashing_percentage cfg)) (\<lambda>x.
       let score = rd_score d - x div 100 in
     and_then (add_i128 (rd_penalties d) amount) (\<lambda>penalties.
       let d' = d\<lparr> rd_score := score, rd_penalties := penalties, rd_stake := sat_i128 (rd_stake d - amount),
                   rd_slashed := True, rd_badge := NoBadge, rd_last_update := timestamp env \<rparr>;
           s1 = put_reputation e d' s;
           h = unwrap_or (rx_history s1 e) [] @ [event_record env (rd_type d') 0 1 amount 0];
           s2 = s1\<lparr> rx_reputation := (rx_reputation s1)(e \<mapsto> HistorySlot h) \<rparr>
       in update_leaderboard_internal e score NoBadge s2)))))))"

definition grant_reward :: "env \<Rightarrow> address \<Rightarrow> int \<Rightarrow> reputation_state \<Rightarrow> reputation_state repres" where
  "grant_reward env e amount s =
     and_then (unwrap (rx_admin s)) (\<lambda>admin.
     and_then (require_auth env admin) (\<lambda>_.
     and_then (read_reputation e s) (\<lambda>r.
     and_then (ok_or r (Panic ''Entity not registered'')) (\<lambda>d.
     and_then (unwrap (rx_config s)) (\<lambda>cfg.
     and_then (mul_u32 (i128_as_u32 amount) (rn_reward_percentage cfg)) (\<lambda>x.
     and_then (add_u32 (rd_score d) (x div 100)) (\<lambda>y.
       let score = min y reputation_scale in
     and_then (add_i128 (rd_rewards d) amount) (\<lambda>rewards.
     and_then (add_i128 (rd_stake d) amount) (\<lambda>stake.
       let d1 = d\<lparr> rd_score := score, rd_rewards := rewards, rd_stake := stake, rd_last_update := timestamp env \<rparr>;
           d' = (if rd_slashed d1 \<and> min_reputation_threshold \<le> score
                 then d1\<lparr> rd_slashed := False, rd_badge := calculate_badge_level score \<rparr> else d1);
           s1 = put_reputation e d' s;
           h = unwrap_or (rx_history s1 e) [] @ [event_record env (rd_type d') 1 0 0 amount];
           s2 = s1\<lparr> rx_reputation := (rx_reputation s1)(e \<mapsto> HistorySlot h) \<rparr>
       in update_leaderboard_internal e score (rd_badge d') s2)))))))))"

definition decay_entry :: "env \<Rightarrow> leaderboard_entry \<Rightarrow> reputation_state \<Rightarrow> reputation_state repres" where
  "decay_entry env x s =
     and_then (read_reputation (rt_entity x) s) (\<lambda>r.
     and_then (unwrap r) (\<lambda>d.
     and_then (u_sub (timestamp env) (rd_last_update d)) (\<lambda>since.
     and_then (mul_u64 (rd_score d) (calculate_decay_factor since)) (\<lambda>p.
       let decayed = p div reputation_scale mod 2 ^ 32 in
       if decayed \<noteq> rd_score d
       then let d' = d\<lparr> rd_score := decayed, rd_badge := calculate_badge_level decayed, rd_last_update := timestamp env \<rparr>
            in update_leaderboard_internal (rt_entity x) decayed (rd_badge d') (put_reputation (rt_entity x) d' s)
       else Inr s))))"

fun decay_entries :: "env \<Rightarrow> leaderboard_entry list \<Rightarrow> reputation_state \<Rightarrow> reputation_state repres" where
  "decay_entries env [] s = Inr s"
| "decay_entries env (x # xs) s = and_then (decay_entry env x s) (decay_entries env xs)"

fun decay_types :: "env \<Rightarrow> entity_type list \<Rightarrow> reputation_state \<Rightarrow> reputation_state repres" where
  "decay_types env [] s = Inr s"
| "decay_types env (ty # tys) s = and_then (decay_entries env (unwrap_or (rx_board s ty) []) s) (decay_types env tys)"

definition apply_time_decay :: "env \<Rightarrow> reputation_state \<Rightarrow> reputation_state repres" where
  "apply_time_decay env s =
     and_then (unwrap (rx_admin s)) (\<lambda>admin.
     and_then (require_auth env admin) (\<lambda>_.
     and_then (unwrap (rx_config s)) (\<lambda>cfg.
       if \<not> rn_decay_enabled cfg then Inr s
       else decay_types env [BridgeOperator, OracleNode, RelayOperator] s)))"

definition update_reputation_config :: "env \<Rightarrow> reputation_config \<Rightarrow> reputation_state \<Rightarrow> reputation_state repres" where
  "update_reputation_config env cfg s =
     and_then (unwrap (rx_admin s)) (\<lambda>admin.
     and_then (require_auth env admin) (\<lambda>_.
     and_then (add_u32 (rv_accuracy (rn_weights cfg)) (rv_uptime (rn_weights cfg))) (\<lambda>x.
     and_then (add_u32 x (rv_response_time (rn_weights cfg))) (\<lambda>y.
     and_then (add_u32 y (rv_dispute_history (rn_weights cfg))) (\<lambda>total.
     and_then (ensure (total = 100) (Panic ''Weights must sum to 100'')) (\<lambda>_.
     Inr (s\<lparr> rx_config := Some cfg \<rparr>)))))))"

section \<open>Queries\<close>

definition get_reputation :: "address \<Rightarrow> reputation_state \<Rightarrow> reputation_data option repres" where
  "get_reputation e s = read_reputation e s"

definition get_performance_history :: "address \<Rightarrow> reputation_state \<Rightarrow> performance_record list" where
  "get_performance_history e s = unwrap_or (rx_history s e) []"

text \<open>The bubble sort of \<open>get_leaderboard\<close>, by index as in the code.\<close>

definition bubble_step :: "leaderboard_entry list \<Rightarrow> nat \<Rightarrow> leaderboard_entry list" where
  "bubble_step xs j = (if rt_score (xs ! j) < rt_score (xs ! (j + 1)) then xs[j := xs ! (j + 1), j + 1 := xs ! j] else xs)"

definition bubble_pass :: "nat \<Rightarrow> leaderboard_entry list \<Rightarrow> nat \<Rightarrow> leaderboard_entry list" where
  "bubble_pass len xs i = foldl bubble_step xs [0..<len - i - 1]"

definition bubble_sort :: "leaderboard_entry list \<Rightarrow> leaderboard_entry list" where
  "bubble_sort xs = foldl (bubble_pass (length xs)) xs [0..<length xs]"

definition get_leaderboard :: "entity_type \<Rightarrow> nat \<Rightarrow> reputation_state \<Rightarrow> leaderboard_entry list" where
  "get_leaderboard ty limit s =
     (let board = unwrap_or (rx_board s ty) []; sorted_board = bubble_sort board
      in map (\<lambda>i. sorted_board ! i) [0..<min limit (length board)])"

definition check_access_control :: "address \<Rightarrow> nat \<Rightarrow> reputation_state \<Rightarrow> bool repres" where
  "check_access_control e threshold s =
     and_then (read_reputation e s) (\<lambda>r.
     Inr (case r of Some d \<Rightarrow> \<not> rd_slashed d \<and> threshold \<le> rd_score d | None \<Rightarrow> False))"

definition get_reputation_config :: "reputation_state \<Rightarrow> reputation_config" where
  "get_reputation_config s = unwrap_or (rx_config s) default_reputation_config"

section \<open>Histories\<close>

datatype reputation_call =
    RepInitialize address reputation_config
  | RepRegister address entity_type int
  | RepPerformance address nat nat nat nat nat nat nat
  | RepPenalty address int
  | RepReward address int
  | RepDecay
  | RepConfig reputation_config

fun reputation_exec :: "env \<Rightarrow> reputation_call \<Rightarrow> reputation_state \<Rightarrow> reputation_state repres" where
  "reputation_exec env (RepInitialize a c) s = reputation_initialize env a c s"
| "reputation_exec env (RepRegister e t k) s = register_entity env e t k s"
| "reputation_exec env (RepPerformance e a u r w l t k) s = record_performance env e a u r w l t k s"
| "reputation_exec env (RepPenalty e x) s = apply_penalty env e x s"
| "reputation_exec env (RepReward e x) s = grant_reward env e x s"
| "reputation_exec env RepDecay s = apply_time_decay env s"
| "reputation_exec env (RepConfig c) s = update_reputation_config env c s"

definition reputation_start :: reputation_state where
  "reputation_start = \<lparr> rx_admin = None, rx_config = None, rx_reputation = Map.empty, rx_history = Map.empty,
     rx_board = Map.empty, rx_total = Map.empty \<rparr>"

section \<open>The leaderboard's sort\<close>

text \<open>A pass moves the smallest score of the unsorted part to its end and keeps the order of entries with
  equal scores, so the loops compute the stable sort by descending score.\<close>

definition same_scores :: "leaderboard_entry list \<Rightarrow> leaderboard_entry list \<Rightarrow> bool" where
  "same_scores xs ys \<longleftrightarrow> mset ys = mset xs \<and> (\<forall>k. filter (\<lambda>x. rt_score x = k) ys = filter (\<lambda>x. rt_score x = k) xs)"

lemma same_scores_trans: "same_scores xs ys \<Longrightarrow> same_scores ys zs \<Longrightarrow> same_scores xs zs"
  by (simp add: same_scores_def)

lemma same_scores_length: "same_scores xs ys \<Longrightarrow> length ys = length xs"
  unfolding same_scores_def by (metis size_mset)

lemma split_at_pair:
  assumes "Suc j < length xs"
  obtains us a b vs where "xs = us @ [a, b] @ vs" "length us = j"
proof
  show "xs = take j xs @ [xs ! j, xs ! Suc j] @ drop (Suc (Suc j)) xs"
    using assms by (metis Cons_nth_drop_Suc Suc_lessD append_Cons append_Nil append_take_drop_id)
  show "length (take j xs) = j" using assms by simp
qed

lemma bubble_step_append:
  "bubble_step (us @ a # b # vs) (length us) = us @ (if rt_score a < rt_score b then b # a # vs else a # b # vs)"
  by (simp add: bubble_step_def nth_append list_update_append)

lemma bubble_step_split:
  assumes "Suc j < length xs"
  shows "bubble_step xs j = take j xs @ (if rt_score (xs ! j) < rt_score (xs ! Suc j) then [xs ! Suc j, xs ! j] else [xs ! j, xs ! Suc j])
           @ drop (Suc (Suc j)) xs"
  using assms by (rule split_at_pair) (auto simp: bubble_step_append nth_append)

lemma bubble_step_same:
  assumes "Suc j < length xs"
  shows "same_scores xs (bubble_step xs j)"
  using assms by (rule split_at_pair) (auto simp: bubble_step_append same_scores_def)

text \<open>The part of a pass up to index \<open>m\<close>: the suffix from \<open>m + 1\<close> is untouched and the entry at \<open>m\<close> is
  smallest of the prefix.\<close>

lemma bubble_prefix:
  assumes "m < length xs"
  defines "ys \<equiv> foldl bubble_step xs [0..<m]"
  shows "same_scores xs ys \<and> drop (Suc m) ys = drop (Suc m) xs \<and> (\<forall>x\<in>set (take (Suc m) ys). rt_score (ys ! m) \<le> rt_score x)"
  using assms(1) unfolding ys_def
proof (induction m)
  case 0
  then show ?case by (cases xs) (simp_all add: same_scores_def)
next
  case (Suc m)
  define ys where "ys = foldl bubble_step xs [0..<m]"
  have IH: "same_scores xs ys" "drop (Suc m) ys = drop (Suc m) xs" "\<forall>x\<in>set (take (Suc m) ys). rt_score (ys ! m) \<le> rt_score x"
    using Suc by (auto simp: ys_def)
  have len: "Suc m < length ys" using same_scores_length [OF IH(1)] Suc.prems by simp
  define us where "us = take m ys"
  have us: "length us = m" "take (Suc m) ys = us @ [ys ! m]" using len by (simp_all add: us_def take_Suc_conv_app_nth)
  have "drop (Suc (Suc m)) (bubble_step ys m) = drop (Suc (Suc m)) xs"
    using bubble_step_split [OF len] us(1) arg_cong [OF IH(2), where f = "drop 1"] by (simp add: us_def)
  moreover have "same_scores xs (bubble_step ys m)" using same_scores_trans [OF IH(1) bubble_step_same [OF len]] .
  moreover have "\<forall>x\<in>set (take (Suc (Suc m)) (bubble_step ys m)). rt_score (bubble_step ys m ! Suc m) \<le> rt_score x"
    using bubble_step_split [OF len, folded us_def] us IH(3) by (auto simp: nth_append dest!: bspec split: if_splits)
  ultimately show ?case by (simp add: ys_def)
qed

text \<open>After \<open>i\<close> passes the last \<open>i\<close> entries are in their place.\<close>

definition tail_sorted :: "nat \<Rightarrow> leaderboard_entry list \<Rightarrow> bool" where
  "tail_sorted i xs \<longleftrightarrow> (let n = length xs - i in sorted_wrt (\<lambda>x y. rt_score y \<le> rt_score x) (drop n xs)
     \<and> (\<forall>x\<in>set (take n xs). \<forall>y\<in>set (drop n xs). rt_score y \<le> rt_score x))"

lemma bubble_pass_tail:
  assumes "i < length xs" "tail_sorted i xs"
  shows "same_scores xs (bubble_pass (length xs) xs i) \<and> tail_sorted (Suc i) (bubble_pass (length xs) xs i)"
proof -
  define m where "m = length xs - i - 1"
  define ys where "ys = bubble_pass (length xs) xs i"
  have m: "m < length xs" "length xs - i = Suc m" "length xs - Suc i = m" using assms(1) by (simp_all add: m_def)
  have p: "same_scores xs ys" "drop (Suc m) ys = drop (Suc m) xs" "\<forall>x\<in>set (take (Suc m) ys). rt_score (ys ! m) \<le> rt_score x"
    using bubble_prefix [OF m(1)] by (simp_all add: ys_def bubble_pass_def m_def)
  have len: "length ys = length xs" by (rule same_scores_length [OF p(1)])
  have "mset (take (Suc m) ys) + mset (drop (Suc m) ys) = mset (take (Suc m) xs) + mset (drop (Suc m) xs)"
    using p(1) unfolding same_scores_def by (metis append_take_drop_id mset_append)
  then have pre: "set (take (Suc m) ys) = set (take (Suc m) xs)" using p(2) by (metis add_right_cancel set_mset_mset)
  have sorted: "sorted_wrt (\<lambda>x y. rt_score y \<le> rt_score x) (drop (Suc m) ys)"
      "\<forall>x\<in>set (take (Suc m) ys). \<forall>y\<in>set (drop (Suc m) ys). rt_score y \<le> rt_score x"
    using assms(2) by (simp_all add: tail_sorted_def m(2) p(2) pre)
  have ys: "take (Suc m) ys = take m ys @ [ys ! m]" "drop m ys = ys ! m # drop (Suc m) ys"
    using m(1) len by (simp_all add: take_Suc_conv_app_nth Cons_nth_drop_Suc)
  have "tail_sorted (Suc i) ys" unfolding tail_sorted_def len m(3) using sorted p(3) by (auto simp: ys)
  with p(1) show ?thesis by (simp add: ys_def)
qed

lemma bubble_passes:
  assumes "i \<le> length xs"
  shows "same_scores xs (foldl (bubble_pass (length xs)) xs [0..<i]) \<and> tail_sorted i (foldl (bubble_pass (length xs)) xs [0..<i])"
  using assms
proof (induction i)
  case (Suc i)
  define ys where "ys = foldl (bubble_pass (length xs)) xs [0..<i]"
  have IH: "same_scores xs ys" "tail_sorted i ys" "length ys = length xs" using Suc same_scores_length by (auto simp: ys_def)
  have "same_scores ys (bubble_pass (length xs) ys i) \<and> tail_sorted (Suc i) (bubble_pass (length xs) ys i)"
    using bubble_pass_tail [of i ys] Suc.prems IH by simp
  then show ?case using same_scores_trans [OF IH(1)] by (simp add: ys_def)
qed (simp add: same_scores_def tail_sorted_def)

lemma bubble_sort_is_sort: "bubble_sort xs = sort_key (\<lambda>x. - int (rt_score x)) xs"
proof -
  have p: "same_scores xs (bubble_sort xs)" "tail_sorted (length xs) (bubble_sort xs)"
    using bubble_passes [of "length xs" xs] by (simp_all add: bubble_sort_def)
  have "sorted_wrt (\<lambda>x y. rt_score y \<le> rt_score x) (bubble_sort xs)"
    using p(2) same_scores_length [OF p(1)] by (simp add: tail_sorted_def)
  then have "sorted (map (\<lambda>x. - int (rt_score x)) (bubble_sort xs))" by (simp add: sorted_wrt_map)
  then show ?thesis
    using p(1) by (intro properties_for_sort_key [symmetric]) (auto simp: same_scores_def eq_commute)
qed

section \<open>Bounds of the scores\<close>

lemma average_between:
  fixes a b w v :: nat
  assumes "a \<le> m" "b \<le> m" "w + v = 100"
  shows "(a * w + b * v) div 100 \<le> m"
proof -
  have "a * w + b * v \<le> m * w + m * v" using assms by (intro add_mono mult_le_mono) auto
  also have "\<dots> = m * 100" by (simp only: add_mult_distrib2 [symmetric] assms(3))
  finally show ?thesis by simp
qed

lemma mod_width: "x \<le> 10000 \<Longrightarrow> x mod 4294967296 = (x :: nat)"
  by simp

lemma ema_le:
  assumes "ema_update c n 20 = Inr z" "c \<le> 10000" "n \<le> 10000"
  shows "z \<le> 10000"
proof -
  have z: "z = (c * 80 + n * 20) div 100 mod 4294967296" using assms(1) by (simp add: ema_update_def)
  have le: "(c * 80 + n * 20) div 100 \<le> 10000" using average_between [OF assms(2,3), of 80 20] by simp
  show ?thesis unfolding z mod_width [OF le] by (rule le)
qed

definition weights_total :: "reputation_weights \<Rightarrow> nat" where
  "weights_total w = rv_accuracy w + rv_uptime w + rv_response_time w + rv_dispute_history w"

definition factors_ok :: "reputation_factors \<Rightarrow> bool" where
  "factors_ok f \<longleftrightarrow> rf_accuracy f \<le> 10000 \<and> rf_uptime f \<le> 10000 \<and> rf_response_time f \<le> 10000 \<and> rf_dispute_history f \<le> 10000"

lemma overall_le:
  assumes "overall_score f w = Inr z" "factors_ok f" "weights_total w = 100"
  shows "z \<le> 10000"
proof -
  define t where "t = rf_accuracy f * rv_accuracy w + rf_uptime f * rv_uptime w + rf_response_time f * rv_response_time w
                      + rf_dispute_history f * rv_dispute_history w"
  have z: "z = t div 100 mod 4294967296" using assms(1) by (simp add: overall_score_def t_def)
  have "t \<le> 10000 * rv_accuracy w + 10000 * rv_uptime w + 10000 * rv_response_time w + 10000 * rv_dispute_history w"
    unfolding t_def using assms(2) by (intro add_mono mult_le_mono1) (auto simp: factors_ok_def)
  also have "\<dots> = 10000 * weights_total w" by (simp add: weights_total_def algebra_simps)
  finally have le: "t div 100 \<le> 10000" using assms(3) by simp
  show ?thesis unfolding z mod_width [OF le] by (rule le)
qed

lemma dispute_score_le: "dispute_score w l = Inr z \<Longrightarrow> z \<le> 10000"
proof -
  assume "dispute_score w l = Inr z"
  moreover have "w * 10000 div (w + l) \<le> 10000" if "0 < w + l"
  proof -
    have "w * 10000 div (w + l) \<le> (w + l) * 10000 div (w + l)" by (rule div_le_mono) simp
    also have "\<dots> = 10000" using that by (simp only: nonzero_mult_div_cancel_left)
    finally show ?thesis .
  qed
  ultimately show ?thesis by (auto simp: dispute_score_def reputation_scale_def split: if_splits)
qed

lemma decay_loop_is: "decay_loop n f = f div 2 ^ n"
proof (induction n arbitrary: f)
  case (Suc n)
  have "f div 2 ^ Suc n = f div 2 div 2 ^ n" by (simp add: div_mult2_eq)
  with Suc show ?case by simp
qed simp

lemma decay_factor_is: "calculate_decay_factor t = 10000 div 2 ^ (t div time_decay_halflife)"
  by (simp add: calculate_decay_factor_def decay_loop_is reputation_scale_def)

lemma decay_factor_le: "calculate_decay_factor t \<le> 10000"
  by (simp add: decay_factor_is)

section \<open>The invariant\<close>

text \<open>What holds of the data of an entity: penalties and rewards never reach it, because both
  operations fail.\<close>

definition entity_ok :: "address \<Rightarrow> reputation_data \<Rightarrow> bool" where
  "entity_ok e d \<longleftrightarrow> rd_entity d = e \<and> rd_score d \<le> 10000 \<and> factors_ok (rd_factors d) \<and> \<not> rd_slashed d
     \<and> rd_penalties d = 0 \<and> rd_rewards d = 0 \<and> rd_badge d \<in> {NoBadge, calculate_badge_level (rd_score d)}"

definition board_of :: "entity_type \<Rightarrow> reputation_state \<Rightarrow> leaderboard_entry list" where
  "board_of ty s = unwrap_or (rx_board s ty) []"

definition board_entry_ok :: "reputation_state \<Rightarrow> entity_type \<Rightarrow> leaderboard_entry \<Rightarrow> bool" where
  "board_entry_ok s ty x \<longleftrightarrow> rt_score x \<le> 10000 \<and> (\<exists>d. rx_reputation s (rt_entity x) = Some (ReputationSlot d) \<and> rd_type d = ty)"

definition slots_ok :: "reputation_state \<Rightarrow> bool" where
  "slots_ok s \<longleftrightarrow> (\<forall>e v. rx_reputation s e = Some v \<longrightarrow> (\<exists>d. v = ReputationSlot d \<and> entity_ok e d))"

definition boards_ok :: "reputation_state \<Rightarrow> bool" where
  "boards_ok s \<longleftrightarrow> (\<forall>ty. distinct (map rt_entity (board_of ty s)) \<and> list_all (board_entry_ok s ty) (board_of ty s)
     \<and> (\<forall>n. rx_total s ty = Some n \<longrightarrow> n = length (board_of ty s)))"

definition reputation_ok :: "reputation_state \<Rightarrow> bool" where
  "reputation_ok s \<longleftrightarrow> (\<forall>c. rx_config s = Some c \<longrightarrow> weights_total (rn_weights c) = 100) \<and> slots_ok s \<and> boards_ok s"

lemma read_Some: "read_reputation e s = Inr (Some d) \<longleftrightarrow> rx_reputation s e = Some (ReputationSlot d)"
  by (simp add: read_reputation_def split: option.splits reputation_slot.splits)

lemma board_put [simp]: "board_of ty (put_reputation e d s) = board_of ty s"
  by (simp add: board_of_def put_reputation_def)

lemma slot_put [simp]: "rx_reputation (put_reputation e d s) = (rx_reputation s)(e \<mapsto> ReputationSlot d)"
  by (simp add: put_reputation_def)

lemma put_fields [simp]:
  "rx_admin (put_reputation e d s) = rx_admin s" "rx_config (put_reputation e d s) = rx_config s"
  "rx_history (put_reputation e d s) = rx_history s" "rx_total (put_reputation e d s) = rx_total s"
  "rx_board (put_reputation e d s) = rx_board s"
  by (simp_all add: put_reputation_def)

lemma reputation_ok_cong:
  assumes "reputation_ok s" "rx_reputation t = rx_reputation s" "rx_board t = rx_board s" "rx_total t = rx_total s"
    "rx_config t = rx_config s"
  shows "reputation_ok t"
  using assms by (simp add: reputation_ok_def slots_ok_def boards_ok_def board_of_def board_entry_ok_def [abs_def])

lemma put_ok:
  assumes "reputation_ok s" "rx_reputation s e = Some (ReputationSlot d)" "rd_type d' = rd_type d" "entity_ok e d'"
  shows "reputation_ok (put_reputation e d' s)"
proof -
  have "board_entry_ok (put_reputation e d' s) ty x" if "board_entry_ok s ty x" for ty x
    using that assms(2,3) by (auto simp: board_entry_ok_def)
  then show ?thesis using assms(1,4)
    by (auto simp: reputation_ok_def boards_ok_def slots_ok_def list_all_iff)
qed

text \<open>An update of the leaderboard, for an entity on it or not.\<close>

lemma board_keys: "rt_entity ` set (upsert (\<lambda>x. rt_entity x = e) (\<lambda>_. y) y b) = rt_entity ` set b \<union> {rt_entity y}"
  if "rt_entity y = e"
  using that by (induction b) auto

lemma board_distinct: "distinct (map rt_entity b) \<Longrightarrow> rt_entity y = e \<Longrightarrow> distinct (map rt_entity (upsert (\<lambda>x. rt_entity x = e) (\<lambda>_. y) y b))"
  by (induction b) (auto simp: board_keys image_iff)

lemma board_length: "length (upsert (\<lambda>x. rt_entity x = e) (\<lambda>_. y) y b) = (if e \<in> rt_entity ` set b then length b else Suc (length b))"
  by (induction b) auto

lemma board_set: "x \<in> set (upsert (\<lambda>x. rt_entity x = e) (\<lambda>_. y) y b) \<Longrightarrow> x = y \<or> x \<in> set b"
  by (induction b) (auto split: if_splits)

lemma board_map: "e \<in> rt_entity ` set b \<Longrightarrow> rt_entity y = e \<Longrightarrow> map rt_entity (upsert (\<lambda>x. rt_entity x = e) (\<lambda>_. y) y b) = map rt_entity b"
  by (induction b) auto

lemma leaderboard_is:
  fixes score :: nat and badge :: badge_level
  assumes "rx_reputation s e = Some (ReputationSlot d)"
  defines "y \<equiv> \<lparr> rt_entity = e, rt_score = score, rt_badge = badge, rt_operations = rd_total_operations d \<rparr>"
  shows "update_leaderboard_internal e score badge s =
    Inr (s\<lparr> rx_board := (rx_board s)(rd_type d \<mapsto> upsert (\<lambda>x. rt_entity x = e) (\<lambda>_. y) y (board_of (rd_type d) s)) \<rparr>)"
  using assms(1) by (simp add: update_leaderboard_internal_def read_reputation_def board_of_def Let_def y_def)

lemma leaderboard_cases:
  assumes "update_leaderboard_internal e score badge s = Inr s'"
  obtains d y where "rx_reputation s e = Some (ReputationSlot d)" "rt_entity y = e" "rt_score y = score"
    "s' = s\<lparr> rx_board := (rx_board s)(rd_type d \<mapsto> upsert (\<lambda>x. rt_entity x = e) (\<lambda>_. y) y (board_of (rd_type d) s)) \<rparr>"
proof -
  from assms obtain d where d: "rx_reputation s e = Some (ReputationSlot d)"
    by (auto simp: update_leaderboard_internal_def read_Some)
  define y where "y = \<lparr> rt_entity = e, rt_score = score, rt_badge = badge, rt_operations = rd_total_operations d \<rparr>"
  have "s' = s\<lparr> rx_board := (rx_board s)(rd_type d \<mapsto> upsert (\<lambda>x. rt_entity x = e) (\<lambda>_. y) y (board_of (rd_type d) s)) \<rparr>"
    using assms leaderboard_is [OF d, of score badge] by (simp add: y_def)
  then show thesis by (rule that [OF d, rotated 2]) (simp_all add: y_def)
qed

lemma board_of_upd [simp]:
  "board_of ty (s\<lparr> rx_board := (rx_board s)(k \<mapsto> b) \<rparr>) = (if ty = k then b else board_of ty s)"
  by (simp add: board_of_def)

lemma leaderboard_ok:
  assumes "reputation_ok s" "update_leaderboard_internal e score badge s = Inr s'" "score \<le> 10000"
    "rx_reputation s e = Some (ReputationSlot d)" "e \<in> rt_entity ` set (board_of (rd_type d) s)"
  shows "reputation_ok s' \<and> (\<forall>ty. map rt_entity (board_of ty s') = map rt_entity (board_of ty s))"
proof -
  obtain d' y where d': "rx_reputation s e = Some (ReputationSlot d')" and y: "rt_entity y = e" "rt_score y = score"
      "s' = s\<lparr> rx_board := (rx_board s)(rd_type d' \<mapsto> upsert (\<lambda>x. rt_entity x = e) (\<lambda>_. y) y (board_of (rd_type d') s)) \<rparr>"
    using assms(2) by (rule leaderboard_cases)
  have [simp]: "d' = d" using d' assms(4) by simp
  have "board_entry_ok s' ty x = board_entry_ok s ty x" for ty x by (simp add: board_entry_ok_def y(3))
  moreover have "board_entry_ok s (rd_type d) y" using assms(3,4) y(1,2) by (simp add: board_entry_ok_def)
  ultimately have entries: "list_all (board_entry_ok s' ty) (board_of ty s')" for ty
    using assms(1) by (auto simp: reputation_ok_def boards_ok_def y(3) list_all_iff dest!: board_set)
  have b: "distinct (map rt_entity (board_of ty s))" "rx_total s ty = Some n \<Longrightarrow> n = length (board_of ty s)" for ty n
    using assms(1) by (simp_all add: reputation_ok_def boards_ok_def)
  have same: "map rt_entity (board_of ty s') = map rt_entity (board_of ty s)" for ty
    using assms(5) y(1) by (simp add: y(3) board_map)
  have "length (board_of ty s') = length (board_of ty s)" for ty using arg_cong [OF same [of ty], where f = length] by simp
  then have "boards_ok s'" using entries b same by (auto simp: boards_ok_def y(3))
  with assms(1) same show ?thesis by (simp add: reputation_ok_def slots_ok_def y(3))
qed

lemma board_type:
  assumes "reputation_ok s" "e \<in> rt_entity ` set (board_of ty s)" "rx_reputation s e = Some (ReputationSlot d)"
  shows "rd_type d = ty"
proof -
  have "list_all (board_entry_ok s ty) (board_of ty s)" using assms(1) by (simp add: reputation_ok_def boards_ok_def)
  with assms(2,3) show ?thesis by (auto simp: list_all_iff board_entry_ok_def dest!: bspec)
qed

section \<open>Decay\<close>

text \<open>The data of an entity after a decay, as a function of the data before it.\<close>

definition decayed :: "nat \<Rightarrow> reputation_data \<Rightarrow> reputation_data" where
  "decayed now d =
     (let x = rd_score d * calculate_decay_factor (now - rd_last_update d) div 10000
      in if x = rd_score d then d else d\<lparr> rd_score := x, rd_badge := calculate_badge_level x, rd_last_update := now \<rparr>)"

lemma decayed_le: "rd_score d * calculate_decay_factor t div 10000 \<le> rd_score d"
proof -
  have "rd_score d * calculate_decay_factor t \<le> rd_score d * 10000" by (simp add: decay_factor_le)
  then have "rd_score d * calculate_decay_factor t div 10000 \<le> rd_score d * 10000 div 10000" by (rule div_le_mono)
  then show ?thesis by simp
qed

lemma decayed_twice [simp]: "decayed now (decayed now d) = decayed now d"
  by (simp add: decayed_def Let_def calculate_decay_factor_def reputation_scale_def)

lemma decayed_ok: "entity_ok e d \<Longrightarrow> entity_ok e (decayed now d) \<and> rd_type (decayed now d) = rd_type d"
  using decayed_le [of d "now - rd_last_update d"] by (auto simp: decayed_def entity_ok_def Let_def)

lemma decay_entry_effect:
  assumes "reputation_ok s" "decay_entry env x s = Inr s'" "rt_entity x \<in> rt_entity ` set (board_of ty s)"
    "rx_reputation s (rt_entity x) = Some (ReputationSlot d)"
  shows "rx_reputation s' = (rx_reputation s)(rt_entity x \<mapsto> ReputationSlot (decayed (timestamp env) d))
    \<and> rd_last_update d \<le> timestamp env \<and> reputation_ok s' \<and> rx_config s' = rx_config s \<and> rx_admin s' = rx_admin s
    \<and> (\<forall>ty. map rt_entity (board_of ty s') = map rt_entity (board_of ty s))"
proof -
  let ?e = "rt_entity x"
  define y where "y = rd_score d * calculate_decay_factor (timestamp env - rd_last_update d) div 10000"
  have ok: "entity_ok ?e d" using assms(1,4) by (auto simp: reputation_ok_def slots_ok_def)
  have le: "y \<le> 10000" using decayed_le [of d] ok by (auto simp: y_def entity_ok_def intro: order_trans)
  have read: "read_reputation ?e s = Inr (Some d)" by (simp add: read_Some assms(4))
  have time: "rd_last_update d \<le> timestamp env"
    and eq: "s' = s \<and> y = rd_score d \<or> y \<noteq> rd_score d \<and> update_leaderboard_internal ?e y (calculate_badge_level y)
               (put_reputation ?e (decayed (timestamp env) d) s) = Inr s'"
    using assms(2) mod_width [OF le] by (auto simp: decay_entry_def read reputation_scale_def Let_def y_def decayed_def split: if_splits)
  have ty: "rd_type d = ty" using board_type [OF assms(1,3,4)] .
  from eq show ?thesis
  proof
    assume "s' = s \<and> y = rd_score d"
    then show ?thesis using assms(1,4) time by (auto simp: decayed_def y_def)
  next
    assume upd: "y \<noteq> rd_score d \<and> update_leaderboard_internal ?e y (calculate_badge_level y)
                   (put_reputation ?e (decayed (timestamp env) d) s) = Inr s'"
    let ?t = "put_reputation ?e (decayed (timestamp env) d) s"
    have t: "reputation_ok ?t" using put_ok [OF assms(1,4)] decayed_ok [OF ok] by simp
    have slot: "rx_reputation ?t ?e = Some (ReputationSlot (decayed (timestamp env) d))" by simp
    have "reputation_ok s' \<and> (\<forall>ty. map rt_entity (board_of ty s') = map rt_entity (board_of ty ?t))"
      using upd leaderboard_ok [OF t _ le slot] assms(3) decayed_ok [OF ok] ty by auto
    moreover have "rx_reputation s' = rx_reputation ?t \<and> rx_config s' = rx_config ?t \<and> rx_admin s' = rx_admin ?t"
      using upd by (auto elim!: leaderboard_cases)
    ultimately show ?thesis using time by simp
  qed
qed

text \<open>What the loops of a decay have done so far: every slot is as it was or decayed, and the entities of the
  entries that were visited are decayed.\<close>

definition decaying :: "nat \<Rightarrow> reputation_state \<Rightarrow> reputation_state \<Rightarrow> bool" where
  "decaying now s t \<longleftrightarrow> reputation_ok t \<and> rx_config t = rx_config s \<and> rx_admin t = rx_admin s
     \<and> (\<forall>ty. map rt_entity (board_of ty t) = map rt_entity (board_of ty s))
     \<and> (\<forall>e. rx_reputation t e = rx_reputation s e \<or>
          (\<exists>d. rx_reputation s e = Some (ReputationSlot d) \<and> rx_reputation t e = Some (ReputationSlot (decayed now d))))"

definition settled :: "nat \<Rightarrow> reputation_state \<Rightarrow> address \<Rightarrow> bool" where
  "settled now t e \<longleftrightarrow> (\<exists>d. rx_reputation t e = Some (ReputationSlot d) \<and> decayed now d = d \<and> rd_last_update d \<le> now)"

lemma decaying_refl: "reputation_ok s \<Longrightarrow> decaying now s s"
  by (simp add: decaying_def)

lemma decaying_trans: "decaying now s t \<Longrightarrow> decaying now t u \<Longrightarrow> decaying now s u"
  unfolding decaying_def by (metis decayed_twice option.inject reputation_slot.inject(1))

lemma settled_keep: "decaying now s t \<Longrightarrow> settled now s e \<Longrightarrow> settled now t e"
  unfolding decaying_def settled_def by (metis option.inject reputation_slot.inject(1))

lemma decayed_time: "rd_last_update d \<le> now \<Longrightarrow> rd_last_update (decayed now d) \<le> now"
  by (simp add: decayed_def Let_def)

lemma decay_entry_decaying:
  assumes "reputation_ok s" "decay_entry env x s = Inr s'" "rt_entity x \<in> rt_entity ` set (board_of ty s)"
  shows "decaying (timestamp env) s s' \<and> settled (timestamp env) s' (rt_entity x)"
proof -
  obtain d where d: "rx_reputation s (rt_entity x) = Some (ReputationSlot d)"
    using assms(2) by (auto simp: decay_entry_def read_Some)
  from decay_entry_effect [OF assms d] show ?thesis
    by (auto simp: decaying_def settled_def d decayed_time)
qed

lemma decay_entries_decaying:
  "reputation_ok s \<Longrightarrow> decay_entries env xs s = Inr s' \<Longrightarrow> rt_entity ` set xs \<subseteq> rt_entity ` set (board_of ty s) \<Longrightarrow>
     decaying (timestamp env) s s' \<and> (\<forall>x\<in>set xs. settled (timestamp env) s' (rt_entity x))"
proof (induction xs arbitrary: s)
  case (Cons x xs)
  then obtain s1 where s1: "decay_entry env x s = Inr s1" "decay_entries env xs s1 = Inr s'" by auto
  have one: "decaying (timestamp env) s s1" "settled (timestamp env) s1 (rt_entity x)"
    using decay_entry_decaying [OF Cons.prems(1) s1(1), of ty] Cons.prems(3) by auto
  have "map rt_entity (board_of ty s1) = map rt_entity (board_of ty s)" "reputation_ok s1" using one(1) by (simp_all add: decaying_def)
  moreover from this(1) have "rt_entity ` set (board_of ty s1) = rt_entity ` set (board_of ty s)" by (metis set_map)
  ultimately have "decaying (timestamp env) s1 s' \<and> (\<forall>x\<in>set xs. settled (timestamp env) s' (rt_entity x))"
    using Cons.IH [OF _ s1(2)] Cons.prems(3) by auto
  then show ?case using one decaying_trans settled_keep by (metis set_ConsD)
qed (simp add: decaying_refl)

lemma decay_types_decaying:
  "reputation_ok s \<Longrightarrow> decay_types env tys s = Inr s' \<Longrightarrow>
     decaying (timestamp env) s s' \<and> (\<forall>ty\<in>set tys. \<forall>x\<in>set (board_of ty s'). settled (timestamp env) s' (rt_entity x))"
proof (induction tys arbitrary: s)
  case (Cons ty tys)
  then obtain s1 where s1: "decay_entries env (board_of ty s) s = Inr s1" "decay_types env tys s1 = Inr s'"
    by (auto simp: board_of_def)
  have one: "decaying (timestamp env) s s1" "\<forall>x\<in>set (board_of ty s). settled (timestamp env) s1 (rt_entity x)"
    using decay_entries_decaying [OF Cons.prems(1) s1(1)] by auto
  have two: "decaying (timestamp env) s1 s'" "\<forall>ty\<in>set tys. \<forall>x\<in>set (board_of ty s'). settled (timestamp env) s' (rt_entity x)"
    using Cons.IH [OF _ s1(2)] one(1) by (auto simp: decaying_def)
  have "decaying (timestamp env) s s'" using decaying_trans one(1) two(1) by blast
  moreover from this have "rt_entity ` set (board_of ty s') = rt_entity ` set (board_of ty s)"
    unfolding decaying_def by (metis set_map)
  then have "settled (timestamp env) s' (rt_entity x)" if "x \<in> set (board_of ty s')" for x
    using one(2) settled_keep [OF two(1)] that by (metis (no_types, lifting) imageE imageI)
  ultimately show ?case using two(2) by auto
qed (simp add: decaying_refl)

lemma settled_entry:
  assumes "reputation_ok s" "settled (timestamp env) s (rt_entity x)"
  shows "decay_entry env x s = Inr s"
proof -
  obtain d where d: "rx_reputation s (rt_entity x) = Some (ReputationSlot d)" "decayed (timestamp env) d = d" "rd_last_update d \<le> timestamp env"
    using assms(2) by (auto simp: settled_def)
  define f where "f = calculate_decay_factor (timestamp env - rd_last_update d)"
  have "rd_score d \<le> 10000" using assms(1) d(1) by (auto simp: reputation_ok_def slots_ok_def entity_ok_def)
  moreover have "f \<le> 10000" by (simp add: f_def decay_factor_le)
  ultimately have "rd_score d * f \<le> 10000 * 10000" by (rule mult_le_mono)
  then have fits: "rd_score d * f \<le> u64_max" by (simp add: u64_max_def)
  have "rd_score d * f div 10000 = rd_score d"
  proof (rule ccontr)
    assume ne: "rd_score d * f div 10000 \<noteq> rd_score d"
    then have "rd_score (decayed (timestamp env) d) = rd_score d * f div 10000" by (simp add: decayed_def Let_def f_def)
    with ne d(2) show False by simp
  qed
  then show ?thesis using \<open>rd_score d \<le> 10000\<close> d fits
    by (simp add: decay_entry_def read_Some [THEN iffD2] u_sub_def u_checked_def reputation_scale_def Let_def f_def [symmetric])
qed

lemma settled_entries: "reputation_ok s \<Longrightarrow> \<forall>x\<in>set xs. settled (timestamp env) s (rt_entity x) \<Longrightarrow> decay_entries env xs s = Inr s"
  by (induction xs) (auto simp: settled_entry)

lemma settled_types:
  "reputation_ok s \<Longrightarrow> \<forall>ty\<in>set tys. \<forall>x\<in>set (board_of ty s). settled (timestamp env) s (rt_entity x) \<Longrightarrow> decay_types env tys s = Inr s"
  by (induction tys) (auto simp: settled_entries board_of_def)

lemma decay_cases:
  assumes "apply_time_decay env s = Inr t"
  obtains cfg where "rx_config s = Some cfg" "\<not> rn_decay_enabled cfg" "t = s"
    | cfg where "rx_config s = Some cfg" "rn_decay_enabled cfg" "decay_types env [BridgeOperator, OracleNode, RelayOperator] s = Inr t"
  using assms by (auto simp: apply_time_decay_def split: if_splits)

section \<open>Preservation\<close>

lemma penalty_fails: "apply_penalty env e x s \<noteq> Inr s'"
  by (auto simp: apply_penalty_def update_leaderboard_internal_def read_reputation_def Let_def)

lemma reward_fails: "grant_reward env e x s \<noteq> Inr s'"
  by (auto simp: grant_reward_def update_leaderboard_internal_def read_reputation_def Let_def)

lemma register_keeps:
  assumes "reputation_ok s" "register_entity env e ty stake s = Inr s'"
  shows "reputation_ok s'"
proof -
  define d where "d = \<lparr> rd_entity = e, rd_type = ty, rd_score = 7500,
       rd_factors = \<lparr> rf_accuracy = 7500, rf_uptime = 7500, rf_response_time = 7500, rf_dispute_history = 7500 \<rparr>,
       rd_total_operations = 0, rd_successful_operations = 0, rd_stake = stake, rd_penalties = 0, rd_rewards = 0,
       rd_last_update = timestamp env, rd_registered = timestamp env, rd_slashed = False, rd_badge = NoBadge \<rparr>"
  define s1 where "s1 = (put_reputation e d s)\<lparr> rx_history := (rx_history s)(e \<mapsto> []) \<rparr>"
  obtain n where n: "rx_reputation s e = None" "rx_total s ty = Some n"
      "update_leaderboard_internal e 7500 NoBadge (s1\<lparr> rx_total := (rx_total s)(ty \<mapsto> Suc n) \<rparr>) = Inr s'"
    using assms(2) by (auto simp: register_entity_def Let_def s1_def d_def)
  define s2 where "s2 = s1\<lparr> rx_total := (rx_total s)(ty \<mapsto> Suc n) \<rparr>"
  have slot: "rx_reputation s2 e = Some (ReputationSlot d)" by (simp add: s2_def s1_def)
  obtain d' y where y: "rx_reputation s2 e = Some (ReputationSlot d')" "rt_entity y = e" "rt_score y = 7500"
      "s' = s2\<lparr> rx_board := (rx_board s2)(rd_type d' \<mapsto> upsert (\<lambda>x. rt_entity x = e) (\<lambda>_. y) y (board_of (rd_type d') s2)) \<rparr>"
    using n(3) unfolding s2_def [symmetric] by (rule leaderboard_cases)
  have [simp]: "d' = d" "rd_type d = ty" using slot y(1) by (simp_all add: d_def)
  have board2: "board_of k s2 = board_of k s" for k by (simp add: s2_def s1_def board_of_def)
  have b: "distinct (map rt_entity (board_of k s))" "list_all (board_entry_ok s k) (board_of k s)" "rx_total s k = Some m \<Longrightarrow> m = length (board_of k s)" for k m
    using assms(1) by (simp_all add: reputation_ok_def boards_ok_def)
  have new: "e \<notin> rt_entity ` set (board_of k s)" for k using b(2) [of k] n(1) by (auto simp: list_all_iff board_entry_ok_def)
  have reps: "rx_reputation s' = (rx_reputation s)(e \<mapsto> ReputationSlot d)" by (simp add: y(4) s2_def s1_def)
  have more: "board_entry_ok s k x \<Longrightarrow> board_entry_ok s' k x" for k x using n(1) by (auto simp: board_entry_ok_def reps)
  have ey: "board_entry_ok s' ty y" using y(2,3) by (simp add: board_entry_ok_def reps)
  have totals: "rx_total s' = (rx_total s)(ty \<mapsto> Suc n)" by (simp add: y(4) s2_def)
  have boards: "board_of k s' = (if k = ty then upsert (\<lambda>x. rt_entity x = e) (\<lambda>_. y) y (board_of ty s) else board_of k s)" for k
    by (simp add: y(4) board2)
  have "list_all (board_entry_ok s' k) (board_of k s')" for k
    using b(2) [of k] more ey by (auto simp: boards list_all_iff dest!: board_set)
  moreover have "distinct (map rt_entity (board_of k s'))" for k
    using b(1) y(2) by (simp add: boards board_distinct)
  moreover have "rx_total s' k = Some m \<Longrightarrow> m = length (board_of k s')" for k m
    using b(3) [of k m] b(3) [of ty n] n(2) new [of ty] totals by (auto simp: boards board_length split: if_splits)
  ultimately have "boards_ok s'" by (simp add: boards_ok_def)
  moreover have "slots_ok s'" using assms(1) by (auto simp: reputation_ok_def slots_ok_def reps entity_ok_def factors_ok_def d_def)
  moreover have "rx_config s' = rx_config s" by (simp add: y(4) s2_def s1_def)
  ultimately show ?thesis using assms(1) by (simp add: reputation_ok_def)
qed

lemma performance_cases:
  assumes "record_performance env e a u r w l ops_count successful s = Inr s'"
  obtains h d f sc d' cfg where "rx_reputation s e = Some (ReputationSlot d)" "rx_config s = Some cfg"
    "factors_ok (rd_factors d) \<Longrightarrow> factors_ok f" "overall_score f (rn_weights cfg) = Inr sc"
    "d' = d\<lparr> rd_factors := f, rd_score := sc, rd_total_operations := rd_total_operations d + ops_count,
              rd_successful_operations := rd_successful_operations d + successful,
              rd_last_update := timestamp env, rd_badge := calculate_badge_level sc \<rparr>"
    "s' = put_reputation e d' (s\<lparr> rx_history := (rx_history s)(e \<mapsto> h) \<rparr>)"
proof -
  from assms obtain d where x1: "rx_reputation s e = Some (ReputationSlot d)"
    by (auto simp: record_performance_def read_Some)
  define p where "p = \<lparr> pf_timestamp = timestamp env, pf_entity_type = rd_type d, pf_accuracy = a, pf_uptime = u, pf_response_time = r,
    pf_disputes_won = w, pf_disputes_lost = l, pf_total_operations = ops_count, pf_successful_operations = successful,
    pf_penalty_amount = 0, pf_reward_amount = 0 \<rparr>"
  define h where "h = clean_history (timestamp env) (unwrap_or (rx_history s e) [] @ [p])"
  from assms obtain cfg ds fa fu fr fd sc where x: "rx_reputation s e = Some (ReputationSlot d)" "rx_config s = Some cfg"
      "dispute_score w l = Inr ds"
      "ema_update (rf_accuracy (rd_factors d)) (min a reputation_scale) 20 = Inr fa"
      "ema_update (rf_uptime (rd_factors d)) (min u reputation_scale) 20 = Inr fu"
      "ema_update (rf_response_time (rd_factors d)) (min r reputation_scale) 20 = Inr fr"
      "ema_update (rf_dispute_history (rd_factors d)) ds 20 = Inr fd"
      "overall_score \<lparr> rf_accuracy = fa, rf_uptime = fu, rf_response_time = fr, rf_dispute_history = fd \<rparr> (rn_weights cfg) = Inr sc"
      "s' = put_reputation e (d\<lparr> rd_factors := \<lparr> rf_accuracy = fa, rf_uptime = fu, rf_response_time = fr, rf_dispute_history = fd \<rparr>, rd_score := sc,
              rd_total_operations := rd_total_operations d + ops_count, rd_successful_operations := rd_successful_operations d + successful,
              rd_last_update := timestamp env, rd_badge := calculate_badge_level sc \<rparr>) (s\<lparr> rx_history := (rx_history s)(e \<mapsto> h) \<rparr>)"
    by (auto simp: record_performance_def update_reputation_internal_def read_reputation_def put_reputation_def Let_def x1 h_def p_def)
  have "factors_ok \<lparr> rf_accuracy = fa, rf_uptime = fu, rf_response_time = fr, rf_dispute_history = fd \<rparr>" if "factors_ok (rd_factors d)"
    using that ema_le [OF x(4)] ema_le [OF x(5)] ema_le [OF x(6)] ema_le [OF x(7)] dispute_score_le [OF x(3)]
    by (simp add: factors_ok_def reputation_scale_def)
  then show thesis by (rule that [OF x(1,2) _ x(8) refl x(9)])
qed

definition reputation_allowed :: "reputation_call \<Rightarrow> bool" where
  "reputation_allowed c = (case c of RepInitialize a cfg \<Rightarrow> weights_total (rn_weights cfg) = 100 | _ \<Rightarrow> True)"

lemma reputation_exec_ok:
  assumes "reputation_ok s" "reputation_allowed c" "reputation_exec env c s = Inr s'"
  shows "reputation_ok s'"
proof (cases c)
  case (RepInitialize a cfg)
  have "board_of ty s' = []" "rx_total s' ty = Some 0" for ty
    using assms(3) RepInitialize by (cases ty; auto simp: reputation_initialize_def board_of_def)+
  then show ?thesis using assms RepInitialize
    by (auto simp: reputation_initialize_def reputation_ok_def boards_ok_def slots_ok_def reputation_allowed_def)
next
  case (RepRegister e t k)
  then show ?thesis using assms register_keeps by simp
next
  case (RepPerformance e a u r w l t k)
  then have p: "record_performance env e a u r w l t k s = Inr s'" using assms(3) by simp
  show ?thesis
  proof (rule performance_cases [OF p])
    fix h d f sc d' cfg
    assume x: "rx_reputation s e = Some (ReputationSlot d)" "rx_config s = Some cfg" "factors_ok (rd_factors d) \<Longrightarrow> factors_ok f"
      "overall_score f (rn_weights cfg) = Inr sc"
      "d' = d\<lparr> rd_factors := f, rd_score := sc, rd_total_operations := rd_total_operations d + t,
              rd_successful_operations := rd_successful_operations d + k,
              rd_last_update := timestamp env, rd_badge := calculate_badge_level sc \<rparr>"
      "s' = put_reputation e d' (s\<lparr> rx_history := (rx_history s)(e \<mapsto> h) \<rparr>)"
    have d: "entity_ok e d" and w: "weights_total (rn_weights cfg) = 100" using assms(1) x(1,2) by (auto simp: reputation_ok_def slots_ok_def)
    then have "sc \<le> 10000" "factors_ok f" using overall_le [OF x(4)] x(3) by (auto simp: entity_ok_def)
    then have d': "entity_ok e d'" using d by (simp add: x(5) entity_ok_def)
    have h: "reputation_ok (s\<lparr> rx_history := (rx_history s)(e \<mapsto> h) \<rparr>)" by (rule reputation_ok_cong [OF assms(1)]) simp_all
    show ?thesis unfolding x(6) by (rule put_ok [OF h _ _ d', of d]) (simp_all add: x(1,5))
  qed
next
  case RepDecay
  then have "apply_time_decay env s = Inr s'" using assms(3) by simp
  then show ?thesis
    by (rule decay_cases) (use assms(1) decay_types_decaying [OF assms(1)] in \<open>auto simp: decaying_def simp del: decay_types.simps\<close>)
next
  case (RepConfig cfg)
  then show ?thesis using assms
    by (auto simp: update_reputation_config_def reputation_ok_def slots_ok_def boards_ok_def board_of_def board_entry_ok_def [abs_def] weights_total_def)
qed (use assms penalty_fails reward_fails in auto)

interpretation reputation: contract_invariant reputation_exec "\<lambda>s. s = reputation_start" reputation_allowed reputation_ok
proof
  show "reputation_ok s" if "s = reputation_start" for s
    using that by (simp add: reputation_start_def reputation_ok_def slots_ok_def boards_ok_def board_of_def)
qed (rule reputation_exec_ok)

section \<open>Properties\<close>

definition demo_reputation :: "(env \<times> reputation_call) list" where
  "demo_reputation =
     (let e = \<lambda>t. \<lparr> timestamp = t, auths = [''A'', ''E'', ''F''] \<rparr>
      in [(e 1, RepInitialize ''A'' default_reputation_config), (e 2, RepRegister ''E'' BridgeOperator 2000),
          (e 3, RepRegister ''F'' BridgeOperator 1000), (e 4, RepRegister ''G'' OracleNode 1000),
          (e 5, RepPerformance ''F'' 10000 10000 10000 1 0 10 9), (e 6, RepPenalty ''E'' 100),
          (e 8000000, RepDecay)])"

text \<open>Also: The scores of reputation are percentages in basis points: if the configurations passed to
  \<open>initialize\<close> have weights that sum to 100, then in every history the overall score and every factor of
  every entity is at most 10000, the badge is none or the one of the score, and the data is stored
  under the entity's own address.\<close>

theorem reputation_scores_bounded:
  assumes "s = run reputation_exec reputation_start h" "list_all (reputation_allowed \<circ> snd) h"
    "get_reputation e s = Inr (Some d)"
  shows "rd_entity d = e \<and> rd_score d \<le> reputation_scale \<and> rf_accuracy (rd_factors d) \<le> reputation_scale
    \<and> rf_uptime (rd_factors d) \<le> reputation_scale \<and> rf_response_time (rd_factors d) \<le> reputation_scale
    \<and> rf_dispute_history (rd_factors d) \<le> reputation_scale
    \<and> rd_badge d \<in> {NoBadge, calculate_badge_level (rd_score d)}"
proof -
  have "reputation_ok s" unfolding assms(1) by (rule reputation.run_inv [OF refl assms(2)])
  then have "entity_ok e d" using assms(3) by (auto simp: reputation_ok_def slots_ok_def get_reputation_def read_Some)
  then show ?thesis by (simp add: entity_ok_def factors_ok_def reputation_scale_def)
qed

lemma reputation_scores_bounded_witness:
  "\<exists>d. get_reputation ''F'' (run reputation_exec reputation_start (take 5 demo_reputation)) = Inr (Some d)
     \<and> rd_score d = 8000 \<and> rd_score d \<le> reputation_scale"
proof -
  let ?h = "take 5 demo_reputation"
  have "map_option rd_score (case get_reputation ''F'' (run reputation_exec reputation_start ?h) of Inr r \<Rightarrow> r | _ \<Rightarrow> None) = Some 8000"
    by code_simp
  then obtain d where d: "get_reputation ''F'' (run reputation_exec reputation_start ?h) = Inr (Some d)" "rd_score d = 8000"
    by (auto split: sum.splits)
  have "list_all (reputation_allowed \<circ> snd) ?h" by code_simp
  from reputation_scores_bounded [OF refl this d(1)] d show ?thesis by blast
qed

text \<open>Also: The leaderboard of a type is sound: its entries are distinct registered entities of that type with
  scores of at most 10000, and the stored count of entities is its length.\<close>

theorem reputation_leaderboard_sound:
  assumes "s = run reputation_exec reputation_start h" "list_all (reputation_allowed \<circ> snd) h"
    "rx_board s ty = Some board" "x \<in> set board"
  shows "rt_score x \<le> reputation_scale \<and> distinct (map rt_entity board) \<and> rx_total s ty \<in> {None, Some (length board)}
    \<and> (\<exists>d. get_reputation (rt_entity x) s = Inr (Some d) \<and> rd_type d = ty)"
proof -
  have "reputation_ok s" unfolding assms(1) by (rule reputation.run_inv [OF refl assms(2)])
  then have "distinct (map rt_entity board)" "board_entry_ok s ty x" "\<forall>n. rx_total s ty = Some n \<longrightarrow> n = length board"
    using assms(3,4) by (auto simp: reputation_ok_def boards_ok_def board_of_def list_all_iff dest: spec [of _ ty])
  then show ?thesis by (cases "rx_total s ty") (auto simp: board_entry_ok_def get_reputation_def read_Some reputation_scale_def)
qed

lemma reputation_leaderboard_sound_witness:
  "\<exists>board. rx_board (run reputation_exec reputation_start demo_reputation) BridgeOperator = Some board
     \<and> length board = 2 \<and> distinct (map rt_entity board)"
proof -
  let ?s = "run reputation_exec reputation_start demo_reputation"
  have "map_option length (rx_board ?s BridgeOperator) = Some 2" by code_simp
  then obtain board where b: "rx_board ?s BridgeOperator = Some board" "length board = 2" by auto
  then obtain x where x: "x \<in> set board" by (cases board) auto
  have "list_all (reputation_allowed \<circ> snd) demo_reputation" by code_simp
  from reputation_leaderboard_sound [OF refl this b(1) x] b show ?thesis by blast
qed

text \<open>C40: The index loops of \<open>get_leaderboard\<close> compute the stable sort of the stored board by descending score,
  cut to the limit.\<close>

theorem leaderboard_is_sorted:
  "get_leaderboard ty limit s = take limit (sort_key (\<lambda>x. - int (rt_score x)) (unwrap_or (rx_board s ty) []))"
proof -
  have "map (\<lambda>i. xs ! i) [0..<min limit (length xs)] = take limit xs" for xs :: "leaderboard_entry list"
    by (rule nth_equalityI) auto
  from this [of "bubble_sort (unwrap_or (rx_board s ty) [])"] show ?thesis
    by (simp add: get_leaderboard_def Let_def bubble_sort_is_sort)
qed

text \<open>Also: A decay halves a score once for every 90 days since the last update of the entity, for every entity on a
  leaderboard, and decaying twice at the same time changes nothing more.\<close>

theorem decay_halves_once:
  assumes "s = run reputation_exec reputation_start h" "list_all (reputation_allowed \<circ> snd) h"
    "apply_time_decay env s = Inr t" "rx_config s = Some cfg" "rn_decay_enabled cfg"
    "rx_board s ty = Some board" "x \<in> set board" "get_reputation (rt_entity x) s = Inr (Some d)"
  shows "(\<exists>d'. get_reputation (rt_entity x) t = Inr (Some d')
      \<and> rd_score d' = rd_score d * (10000 div 2 ^ ((timestamp env - rd_last_update d) div time_decay_halflife)) div 10000)
    \<and> apply_time_decay env t = Inr t"
proof -
  let ?tys = "[BridgeOperator, OracleNode, RelayOperator]"
  have s: "reputation_ok s" unfolding assms(1) by (rule reputation.run_inv [OF refl assms(2)])
  have run: "decay_types env ?tys s = Inr t" using assms(3-5) by (auto simp: apply_time_decay_def)
  have all: "set ?tys = UNIV" using entity_type.exhaust by auto
  have dec: "decaying (timestamp env) s t" and fin: "settled (timestamp env) t (rt_entity y)" if "y \<in> set (board_of k t)" for k y
    using decay_types_decaying [OF s run] that unfolding all by blast+
  have dec: "decaying (timestamp env) s t" using decay_types_decaying [OF s run] by blast
  then have t: "reputation_ok t" "rx_config t = rx_config s" "rx_admin t = rx_admin s"
      "map rt_entity (board_of ty t) = map rt_entity (board_of ty s)" by (simp_all add: decaying_def)
  have "decay_types env ?tys t = Inr t" by (rule settled_types [OF t(1)]) (use fin in blast)
  then have twice: "apply_time_decay env t = Inr t" using assms(3-5) t(2,3) by (auto simp: apply_time_decay_def)
  have "rt_entity x \<in> rt_entity ` set (board_of ty t)" using t(4) assms(6,7) by (metis board_of_def imageI set_map unwrap_or_simps(2))
  then have "settled (timestamp env) t (rt_entity x)" using fin by auto
  moreover have d: "rx_reputation s (rt_entity x) = Some (ReputationSlot d)" using assms(8) by (simp add: get_reputation_def read_Some)
  ultimately have "rx_reputation t (rt_entity x) = Some (ReputationSlot (decayed (timestamp env) d))"
    using dec unfolding decaying_def settled_def by (metis option.inject reputation_slot.inject(1))
  moreover have "rd_score (decayed (timestamp env) d) = rd_score d * (10000 div 2 ^ ((timestamp env - rd_last_update d) div time_decay_halflife)) div 10000"
    by (simp add: decayed_def Let_def decay_factor_is)
  ultimately show ?thesis using twice by (auto simp: get_reputation_def read_Some)
qed

lemma decay_halves_once_witness:
  "\<exists>t d'. apply_time_decay \<lparr> timestamp = 8000000, auths = [''A''] \<rparr> (run reputation_exec reputation_start (take 6 demo_reputation)) = Inr t
     \<and> get_reputation ''F'' t = Inr (Some d') \<and> rd_score d' = 4000"
proof -
  let ?h = "take 6 demo_reputation" and ?e = "\<lparr> timestamp = 8000000, auths = [''A''] \<rparr> :: env"
  let ?s = "run reputation_exec reputation_start ?h"
  have "is_ok (apply_time_decay ?e ?s)" by code_simp
  then obtain t where t: "apply_time_decay ?e ?s = Inr t" by (auto simp: is_ok_iff)
  have cfg: "rx_config ?s = Some default_reputation_config" "rn_decay_enabled default_reputation_config" by code_simp+
  have "map_option (map rt_entity) (rx_board ?s BridgeOperator) = Some [''E'', ''F'']" by code_simp
  then obtain board where b: "rx_board ?s BridgeOperator = Some board" "map rt_entity board = [''E'', ''F'']" by auto
  then obtain x where x: "x \<in> set board" "rt_entity x = ''F''" by (cases board; cases "tl board") auto
  have "map_option (\<lambda>d. (rd_score d, rd_last_update d)) (case get_reputation ''F'' ?s of Inr r \<Rightarrow> r | _ \<Rightarrow> None) = Some (8000, 5)"
    by code_simp
  then obtain d where d: "get_reputation ''F'' ?s = Inr (Some d)" "rd_score d = 8000" "rd_last_update d = 5"
    by (auto split: sum.splits)
  have "list_all (reputation_allowed \<circ> snd) ?h" by code_simp
  from decay_halves_once [OF refl this t cfg b(1) x(1), of d] d x(2) t show ?thesis
    by (auto simp: time_decay_halflife_def)
qed

text \<open>Also: Penalties and rewards never take effect: whatever the state, the caller and the amount, both calls fail,
  because they overwrite the reputation data of the entity with its performance history before the
  leaderboard reads it back.\<close>

theorem penalties_never_applied:
  "\<not> is_ok (apply_penalty env e amount s) \<and> \<not> is_ok (grant_reward env e amount s)"
  using penalty_fails reward_fails by (auto simp: is_ok_iff)

text \<open>Also: \<open>initialize\<close> is not protected: at any time anyone can call it with an address of their own, becomes the
  administrator, empties every leaderboard and resets the counts, while the reputation data stays.\<close>

theorem reputation_reinitialized_by_anyone:
  assumes "a \<in> set (auths env)"
  shows "\<exists>t. reputation_initialize env a cfg s = Inr t \<and> rx_admin t = Some a \<and> get_leaderboard ty n t = []
    \<and> rx_total t ty = Some 0 \<and> rx_reputation t = rx_reputation s"
proof -
  obtain t where t: "reputation_initialize env a cfg s = Inr t" using assms by (simp add: reputation_initialize_def)
  then have "rx_board t ty = Some []" "rx_total t ty = Some 0" by (cases ty; auto simp: reputation_initialize_def)+
  then show ?thesis using t by (auto simp: reputation_initialize_def get_leaderboard_def Let_def)
qed

lemma reputation_reinitialized_by_anyone_witness:
  "\<exists>t. reputation_initialize \<lparr> timestamp = 9, auths = [''X''] \<rparr> ''X'' default_reputation_config
         (run reputation_exec reputation_start (take 4 demo_reputation)) = Inr t
     \<and> rx_admin t = Some ''X'' \<and> get_leaderboard OracleNode 5 t = []"
  using reputation_reinitialized_by_anyone [of "''X''" "\<lparr> timestamp = 9, auths = [''X''] \<rparr>" default_reputation_config
      "run reputation_exec reputation_start (take 4 demo_reputation)" OracleNode 5] by auto

end
