(* ===== verification/Emergency_Recovery.thy ===== *)
theory Emergency_Recovery
  imports Soroban
begin

text \<open>
  \<open>soroban/src/emergency_fund_recovery.rs\<close>: recoveries of the contract's funds, initiated, approved,
  executed after a time lock and cancelled by addresses with separate permissions. The token
  contracts are not part of the repository: a transfer is appended to the log \<open>ef_transfers\<close>, and
  whether the token lets it pass is the parameter \<open>accepts\<close>. Recoveries and authorisations are stored
  under tuple keys of different types, so they are two maps.
\<close>

section \<open>Data\<close>

definition default_recovery_timelock :: nat where "default_recovery_timelock = 172800"

datatype recovery_error =
    EmNotAuthorized | EmInvalidAmount | EmInvalidDestination | EmRecoveryNotFound | EmAlreadyApproved
  | EmInsufficientApprovals | EmTimelockNotElapsed | EmAlreadyExecuted | EmAlreadyCancelled | EmInvalidRecoveryState
  | EmEmergencyModeDisabled | EmNoFundsToRecover | EmTokenTransferFailed | EmInvalidTimelock

type_synonym 'a emres = "(recovery_error, 'a) res"

datatype recovery_status = RecoveryPending | RecoveryApproved | RecoveryExecuted | RecoveryCancelled

record emergency_recovery =
  ey_id :: nat
  ey_initiator :: address
  ey_destination :: address
  ey_token :: address
  ey_amount :: int
  ey_reason :: string
  ey_initiated_at :: nat
  ey_timelock_until :: nat
  ey_status :: recovery_status
  ey_approvals :: "address list"
  ey_required :: nat
  ey_executed_at :: nat
  ey_executed_by :: address

record recovery_authorization =
  eh_address :: address
  eh_can_initiate :: bool
  eh_can_approve :: bool
  eh_can_execute :: bool
  eh_can_cancel :: bool
  eh_added_at :: nat

text \<open>A transfer out of the contract: the token, the destination and the amount.\<close>

type_synonym outgoing = "address \<times> address \<times> int"

record emergency_state =
  ef_admin :: "address option"
  ef_enabled :: "bool option"
  ef_seq :: "nat option"
  ef_recoveries :: "nat \<rightharpoonup> emergency_recovery"
  ef_history :: "nat list option"
  ef_recoverers :: "address list option"
  ef_timelock :: "nat option"
  ef_total :: "int option"
  ef_auths :: "address \<rightharpoonup> recovery_authorization"
  ef_transfers :: "outgoing list"

section \<open>Operations\<close>

definition initialize_recovery :: "env \<Rightarrow> address \<Rightarrow> nat \<Rightarrow> emergency_state \<Rightarrow> emergency_state emres" where
  "initialize_recovery env admin timelock s =
     and_then (require_auth env admin) (\<lambda>_.
     and_then (ensure (\<not> (timelock = 0 \<or> 31536000 < timelock)) (Err EmInvalidTimelock)) (\<lambda>_.
     Inr (s\<lparr> ef_admin := Some admin, ef_enabled := Some False, ef_seq := Some 0, ef_timelock := Some timelock,
             ef_total := Some 0, ef_recoverers := Some [], ef_history := Some [] \<rparr>)))"

definition require_recovery_admin :: "env \<Rightarrow> address \<Rightarrow> emergency_state \<Rightarrow> unit emres" where
  "require_recovery_admin env admin s =
     and_then (require_auth env admin) (\<lambda>_.
     and_then (ok_or (ef_admin s) (Err EmNotAuthorized)) (\<lambda>stored.
     ensure (admin = stored) (Err EmNotAuthorized)))"

definition enable_emergency_recovery :: "env \<Rightarrow> address \<Rightarrow> emergency_state \<Rightarrow> emergency_state emres" where
  "enable_emergency_recovery env admin s =
     and_then (require_recovery_admin env admin s) (\<lambda>_. Inr (s\<lparr> ef_enabled := Some True \<rparr>))"

definition disable_emergency_recovery :: "env \<Rightarrow> address \<Rightarrow> emergency_state \<Rightarrow> emergency_state emres" where
  "disable_emergency_recovery env admin s =
     and_then (require_recovery_admin env admin s) (\<lambda>_. Inr (s\<lparr> ef_enabled := Some False \<rparr>))"

definition add_recovery_authorizer ::
  "env \<Rightarrow> address \<Rightarrow> address \<Rightarrow> bool \<Rightarrow> bool \<Rightarrow> bool \<Rightarrow> bool \<Rightarrow> emergency_state \<Rightarrow> emergency_state emres" where
  "add_recovery_authorizer env admin user can_initiate can_approve can_execute can_cancel s =
     and_then (require_recovery_admin env admin s) (\<lambda>_.
     Inr (s\<lparr> ef_auths := (ef_auths s)(user \<mapsto>
            \<lparr> eh_address = user, eh_can_initiate = can_initiate, eh_can_approve = can_approve,
              eh_can_execute = can_execute, eh_can_cancel = can_cancel, eh_added_at = timestamp env \<rparr>) \<rparr>))"

text \<open>The permission check of the four steps of a recovery.\<close>

definition require_recovery_permission :: "(recovery_authorization \<Rightarrow> bool) \<Rightarrow> address \<Rightarrow> emergency_state \<Rightarrow> unit emres" where
  "require_recovery_permission can a s =
     (case ef_auths s a of
        Some p \<Rightarrow> ensure (can p) (Err EmNotAuthorized)
      | None \<Rightarrow> Inl (Err EmNotAuthorized))"

definition initiate_recovery ::
  "env \<Rightarrow> address \<Rightarrow> address \<Rightarrow> address \<Rightarrow> int \<Rightarrow> string \<Rightarrow> emergency_state \<Rightarrow> (nat \<times> emergency_state) emres" where
  "initiate_recovery env initiator destination token amount reason s =
     and_then (require_auth env initiator) (\<lambda>_.
     and_then (ok_or (ef_enabled s) (Err EmEmergencyModeDisabled)) (\<lambda>enabled.
     and_then (ensure enabled (Err EmEmergencyModeDisabled)) (\<lambda>_.
     and_then (require_recovery_permission eh_can_initiate initiator s) (\<lambda>_.
     and_then (ensure (\<not> amount \<le> 0) (Err EmInvalidAmount)) (\<lambda>_.
     and_then (ensure (destination \<noteq> initiator) (Err EmInvalidDestination)) (\<lambda>_.
     and_then (add_u64 (unwrap_or (ef_seq s) 0) 1) (\<lambda>rid.
     and_then (add_u64 (timestamp env) (unwrap_or (ef_timelock s) default_recovery_timelock)) (\<lambda>until.
       let r = \<lparr> ey_id = rid, ey_initiator = initiator, ey_destination = destination, ey_token = token,
                 ey_amount = amount, ey_reason = reason, ey_initiated_at = timestamp env, ey_timelock_until = until,
                 ey_status = RecoveryPending, ey_approvals = [], ey_required = 1, ey_executed_at = 0,
                 ey_executed_by = initiator \<rparr>
       in Inr (rid, s\<lparr> ef_seq := Some rid, ef_recoveries := (ef_recoveries s)(rid \<mapsto> r),
                       ef_history := Some (unwrap_or (ef_history s) [] @ [rid]) \<rparr>)))))))))"

definition approve_fund_recovery :: "env \<Rightarrow> address \<Rightarrow> nat \<Rightarrow> emergency_state \<Rightarrow> emergency_state emres" where
  "approve_fund_recovery env approver rid s =
     and_then (require_auth env approver) (\<lambda>_.
     and_then (ok_or (ef_recoveries s rid) (Err EmRecoveryNotFound)) (\<lambda>r.
     and_then (ensure (ey_status r = RecoveryPending) (Err EmInvalidRecoveryState)) (\<lambda>_.
     and_then (require_recovery_permission eh_can_approve approver s) (\<lambda>_.
     and_then (ensure (\<not> list_ex (\<lambda>a. a = approver) (ey_approvals r)) (Err EmAlreadyApproved)) (\<lambda>_.
       let approvals = ey_approvals r @ [approver];
           status = (if ey_required r \<le> length approvals then RecoveryApproved else ey_status r)
       in Inr (s\<lparr> ef_recoveries := (ef_recoveries s)(rid \<mapsto> r\<lparr> ey_approvals := approvals, ey_status := status \<rparr>) \<rparr>))))))"

definition execute_fund_recovery ::
  "(outgoing list \<Rightarrow> outgoing \<Rightarrow> bool) \<Rightarrow> env \<Rightarrow> address \<Rightarrow> nat \<Rightarrow> emergency_state \<Rightarrow> emergency_state emres" where
  "execute_fund_recovery accepts env executor rid s =
     and_then (require_auth env executor) (\<lambda>_.
     and_then (ok_or (ef_recoveries s rid) (Err EmRecoveryNotFound)) (\<lambda>r.
     and_then (ensure (ey_status r \<noteq> RecoveryExecuted) (Err EmAlreadyExecuted)) (\<lambda>_.
     and_then (ensure (ey_status r \<noteq> RecoveryCancelled) (Err EmAlreadyCancelled)) (\<lambda>_.
     and_then (ensure (ey_status r = RecoveryApproved) (Err EmInvalidRecoveryState)) (\<lambda>_.
     and_then (ensure (\<not> timestamp env < ey_timelock_until r) (Err EmTimelockNotElapsed)) (\<lambda>_.
     and_then (require_recovery_permission eh_can_execute executor s) (\<lambda>_.
       let t = (ey_token r, ey_destination r, ey_amount r) in
     and_then (ensure (accepts (ef_transfers s) t) (Panic ''token transfer'')) (\<lambda>_.
     and_then (add_i128 (unwrap_or (ef_total s) 0) (ey_amount r)) (\<lambda>total'.
     Inr (s\<lparr> ef_transfers := ef_transfers s @ [t],
             ef_recoveries := (ef_recoveries s)(rid \<mapsto>
               r\<lparr> ey_status := RecoveryExecuted, ey_executed_at := timestamp env, ey_executed_by := executor \<rparr>),
             ef_total := Some total' \<rparr>))))))))))"

definition cancel_recovery :: "env \<Rightarrow> address \<Rightarrow> nat \<Rightarrow> emergency_state \<Rightarrow> emergency_state emres" where
  "cancel_recovery env canceller rid s =
     and_then (require_auth env canceller) (\<lambda>_.
     and_then (ok_or (ef_recoveries s rid) (Err EmRecoveryNotFound)) (\<lambda>r.
     and_then (ensure (ey_status r \<noteq> RecoveryExecuted) (Err EmAlreadyExecuted)) (\<lambda>_.
     and_then (ensure (ey_status r \<noteq> RecoveryCancelled) (Err EmAlreadyCancelled)) (\<lambda>_.
     and_then (require_recovery_permission eh_can_cancel canceller s) (\<lambda>_.
     Inr (s\<lparr> ef_recoveries := (ef_recoveries s)(rid \<mapsto> r\<lparr> ey_status := RecoveryCancelled \<rparr>) \<rparr>))))))"

definition get_recovery :: "nat \<Rightarrow> emergency_state \<Rightarrow> emergency_recovery emres" where
  "get_recovery rid s = ok_or (ef_recoveries s rid) (Err EmRecoveryNotFound)"



section \<open>Histories\<close>

datatype emergency_call =
    EmInitialize address nat
  | EmEnable address
  | EmDisable address
  | EmAuthorize address address bool bool bool bool
  | EmInitiate address address address int string
  | EmApprove address nat
  | EmExecute address nat
  | EmCancel address nat

fun emergency_exec ::
  "(outgoing list \<Rightarrow> outgoing \<Rightarrow> bool) \<Rightarrow> env \<Rightarrow> emergency_call \<Rightarrow> emergency_state \<Rightarrow> emergency_state emres" where
  "emergency_exec accepts env (EmInitialize a t) s = initialize_recovery env a t s"
| "emergency_exec accepts env (EmEnable a) s = enable_emergency_recovery env a s"
| "emergency_exec accepts env (EmDisable a) s = disable_emergency_recovery env a s"
| "emergency_exec accepts env (EmAuthorize a u i p x c) s = add_recovery_authorizer env a u i p x c s"
| "emergency_exec accepts env (EmInitiate a d k x r) s = state_of (initiate_recovery env a d k x r s)"
| "emergency_exec accepts env (EmApprove a n) s = approve_fund_recovery env a n s"
| "emergency_exec accepts env (EmExecute a n) s = execute_fund_recovery accepts env a n s"
| "emergency_exec accepts env (EmCancel a n) s = cancel_recovery env a n s"

definition emergency_start :: emergency_state where
  "emergency_start = \<lparr> ef_admin = None, ef_enabled = None, ef_seq = None, ef_recoveries = Map.empty, ef_history = None,
     ef_recoverers = None, ef_timelock = None, ef_total = None, ef_auths = Map.empty, ef_transfers = [] \<rparr>"

text \<open>A deployment: the state after the first \<open>initialize_recovery\<close>; \<open>not_initialize\<close> leaves out later ones.\<close>

definition emergency_deployed :: "emergency_state \<Rightarrow> bool" where
  "emergency_deployed s \<longleftrightarrow> (\<exists>env a t. initialize_recovery env a t emergency_start = Inr s)"

definition not_initialize :: "emergency_call \<Rightarrow> bool" where
  "not_initialize c = (case c of EmInitialize a t \<Rightarrow> False | _ \<Rightarrow> True)"

section \<open>The invariant\<close>

definition recovery_ok :: "nat \<Rightarrow> emergency_recovery \<Rightarrow> bool" where
  "recovery_ok rid r \<longleftrightarrow> ey_id r = rid \<and> 0 < ey_amount r \<and> ey_destination r \<noteq> ey_initiator r \<and> ey_required r = 1
     \<and> ey_initiated_at r < ey_timelock_until r \<and> distinct (ey_approvals r)
     \<and> (ey_status r = RecoveryPending \<longrightarrow> ey_approvals r = [])
     \<and> (ey_status r = RecoveryApproved \<longrightarrow> ey_approvals r \<noteq> [])
     \<and> (ey_status r = RecoveryExecuted \<longrightarrow> ey_approvals r \<noteq> [] \<and> ey_timelock_until r \<le> ey_executed_at r)"

text \<open>The amounts of the executed recoveries, in the order of their identifiers.\<close>

definition executed_amount :: "emergency_state \<Rightarrow> nat \<Rightarrow> int" where
  "executed_amount s rid = (case ef_recoveries s rid of
     Some r \<Rightarrow> if ey_status r = RecoveryExecuted then ey_amount r else 0 | None \<Rightarrow> 0)"

definition recoveries_ok :: "emergency_state \<Rightarrow> bool" where
  "recoveries_ok s \<longleftrightarrow> (\<exists>n t. ef_seq s = Some n \<and> ef_timelock s = Some t \<and> 0 < t
     \<and> dom (ef_recoveries s) = {1..n} \<and> ef_history s = Some [1..<Suc n]
     \<and> (\<forall>rid r. ef_recoveries s rid = Some r \<longrightarrow> recovery_ok rid r)
     \<and> ef_total s = Some (sum_list (map (\<lambda>(k, d, x). x) (ef_transfers s)))
     \<and> sum_list (map (\<lambda>(k, d, x). x) (ef_transfers s)) = sum_list (map (executed_amount s) [1..<Suc n]))"

lemma permission_eq [simp]: "require_recovery_permission can a s = Inr u \<longleftrightarrow> (\<exists>p. ef_auths s a = Some p \<and> can p)"
  by (simp add: require_recovery_permission_def split: option.splits)

lemma sum_list_upd:
  assumes "distinct xs" "k \<in> set xs" "\<And>j. j \<noteq> k \<Longrightarrow> g j = f j"
  shows "sum_list (map g xs) = sum_list (map f xs) - f k + (g k :: int)"
  using assms(1,2)
proof (induction xs)
  case (Cons x xs)
  have "sum_list (map g xs) = sum_list (map f xs)" if "k \<notin> set xs"
    using that assms(3) by (intro arg_cong [where f = sum_list] map_cong) metis+
  then show ?case using Cons assms(3) [of x] by (cases "x = k") auto
qed simp

text \<open>A step of one recovery: the sum of the executed amounts moves with its status.\<close>

lemma executed_upd:
  assumes "ef_recoveries s rid = Some r" "dom (ef_recoveries s) = {1..n}" "ef_recoveries s' = (ef_recoveries s)(rid \<mapsto> r')"
  shows "sum_list (map (executed_amount s') [1..<Suc n]) =
    sum_list (map (executed_amount s) [1..<Suc n]) - executed_amount s rid + executed_amount s' rid"
proof (rule sum_list_upd)
  show "rid \<in> set [1..<Suc n]" using assms(1) domI [of "ef_recoveries s" rid r] unfolding assms(2) by (simp del: upt_Suc)
qed (simp_all add: executed_amount_def assms(3) del: upt_Suc)

lemma step_ok:
  assumes "recoveries_ok s" "ef_recoveries s rid = Some r" "ey_status r \<noteq> RecoveryExecuted" "recovery_ok rid r'"
    "s' = s\<lparr> ef_recoveries := (ef_recoveries s)(rid \<mapsto> r') \<rparr>" "ey_status r' \<noteq> RecoveryExecuted"
  shows "recoveries_ok s'"
proof -
  obtain n t where s: "ef_seq s = Some n" "ef_timelock s = Some t" "0 < t" "dom (ef_recoveries s) = {1..n}" "ef_history s = Some [1..<Suc n]"
      "\<forall>rid r. ef_recoveries s rid = Some r \<longrightarrow> recovery_ok rid r"
      "ef_total s = Some (sum_list (map (\<lambda>(k, d, x). x) (ef_transfers s)))"
      "sum_list (map (\<lambda>(k, d, x). x) (ef_transfers s)) = sum_list (map (executed_amount s) [1..<Suc n])"
    using assms(1) unfolding recoveries_ok_def by blast
  have "sum_list (map (executed_amount s') [1..<Suc n]) = sum_list (map (executed_amount s) [1..<Suc n])"
    using executed_upd [OF assms(2) s(4), of s' r'] assms(2,3,6) by (simp add: assms(5) executed_amount_def del: upt_Suc)
  moreover have "dom (ef_recoveries s') = {1..n}" using s(4) assms(2) by (auto simp: assms(5))
  moreover have "\<forall>k x. ef_recoveries s' k = Some x \<longrightarrow> recovery_ok k x" using s(6) assms(4) by (auto simp: assms(5))
  ultimately show ?thesis unfolding recoveries_ok_def
    using s by (intro exI [of _ n] exI [of _ t]) (simp add: assms(5) del: upt_Suc)
qed

lemma execute_fund_ok:
  assumes "recoveries_ok s" "execute_fund_recovery accepts env a rid s = Inr s'"
  shows "recoveries_ok s'"
proof -
  obtain n t where s: "ef_seq s = Some n" "ef_timelock s = Some t" "0 < t" "dom (ef_recoveries s) = {1..n}" "ef_history s = Some [1..<Suc n]"
      "\<forall>rid r. ef_recoveries s rid = Some r \<longrightarrow> recovery_ok rid r"
      "ef_total s = Some (sum_list (map (\<lambda>(k, d, x). x) (ef_transfers s)))"
      "sum_list (map (\<lambda>(k, d, x). x) (ef_transfers s)) = sum_list (map (executed_amount s) [1..<Suc n])"
    using assms(1) unfolding recoveries_ok_def by blast
  obtain r where r: "ef_recoveries s rid = Some r" "ey_status r = RecoveryApproved" "ey_timelock_until r \<le> timestamp env"
    using assms(2) by (auto simp: execute_fund_recovery_def Let_def)
  define r' where "r' = r\<lparr> ey_status := RecoveryExecuted, ey_executed_at := timestamp env, ey_executed_by := a \<rparr>"
  have s': "s' = s\<lparr> ef_transfers := ef_transfers s @ [(ey_token r, ey_destination r, ey_amount r)],
      ef_recoveries := (ef_recoveries s)(rid \<mapsto> r'), ef_total := Some (the (ef_total s) + ey_amount r) \<rparr>"
    using assms(2) r(1) s(7) by (auto simp: execute_fund_recovery_def r'_def Let_def)
  have "recovery_ok rid r" using s(6) r(1) by blast
  then have "recovery_ok rid r'" using r(2,3) by (simp add: recovery_ok_def r'_def)
  then have "\<forall>k x. ef_recoveries s' k = Some x \<longrightarrow> recovery_ok k x" using s(6) by (auto simp: s')
  moreover have "sum_list (map (executed_amount s') [1..<Suc n]) = sum_list (map (executed_amount s) [1..<Suc n]) + ey_amount r"
    using executed_upd [OF r(1) s(4), of s' r'] r(1,2) by (simp add: s' executed_amount_def r'_def del: upt_Suc)
  moreover have "dom (ef_recoveries s') = {1..n}" using s(4) r(1) by (auto simp: s')
  ultimately show ?thesis unfolding recoveries_ok_def using s
    by (intro exI [of _ n] exI [of _ t]) (simp add: s' del: upt_Suc)
qed

lemma initiate_ok:
  assumes "recoveries_ok s" "initiate_recovery env a d k x reason s = Inr (rid, s')"
  shows "recoveries_ok s'"
proof -
  obtain n t where s: "ef_seq s = Some n" "ef_timelock s = Some t" "0 < t" "dom (ef_recoveries s) = {1..n}" "ef_history s = Some [1..<Suc n]"
      "\<forall>rid r. ef_recoveries s rid = Some r \<longrightarrow> recovery_ok rid r"
      "ef_total s = Some (sum_list (map (\<lambda>(k, d, x). x) (ef_transfers s)))"
      "sum_list (map (\<lambda>(k, d, x). x) (ef_transfers s)) = sum_list (map (executed_amount s) [1..<Suc n])"
    using assms(1) unfolding recoveries_ok_def by blast
  define r where "r = \<lparr> ey_id = Suc n, ey_initiator = a, ey_destination = d, ey_token = k,
       ey_amount = x, ey_reason = reason, ey_initiated_at = timestamp env, ey_timelock_until = timestamp env + t,
       ey_status = RecoveryPending, ey_approvals = [], ey_required = 1, ey_executed_at = 0, ey_executed_by = a \<rparr>"
  have s': "s' = s\<lparr> ef_seq := Some (Suc n), ef_recoveries := (ef_recoveries s)(Suc n \<mapsto> r), ef_history := Some ([1..<Suc n] @ [Suc n]) \<rparr>"
    and x: "0 < x" "d \<noteq> a"
    using assms(2) s(1,2,5) by (auto simp: initiate_recovery_def Let_def r_def simp del: upt_Suc)
  have "recovery_ok (Suc n) r" using x s(3) by (simp add: recovery_ok_def r_def)
  then have recs: "\<forall>k x. ef_recoveries s' k = Some x \<longrightarrow> recovery_ok k x" using s(6) by (auto simp: s')
  have "sum_list (map (executed_amount s') [1..<Suc n]) = sum_list (map (executed_amount s) [1..<Suc n])"
    by (intro arg_cong [where f = sum_list] map_cong) (auto simp: executed_amount_def s')
  moreover have "executed_amount s' (Suc n) = 0" by (simp add: executed_amount_def s' r_def)
  moreover have "[1..<Suc (Suc n)] = [1..<Suc n] @ [Suc n]" by simp
  moreover have "dom (ef_recoveries s') = {1..Suc n}" using s(4) by (auto simp: s')
  ultimately have "\<exists>m. ef_seq s' = Some m \<and> dom (ef_recoveries s') = {1..m} \<and> ef_history s' = Some [1..<Suc m]
      \<and> sum_list (map (\<lambda>(k, d, x). x) (ef_transfers s')) = sum_list (map (executed_amount s') [1..<Suc m])"
    using s by (intro exI [of _ "Suc n"]) (simp add: s' del: upt_Suc)
  moreover have "ef_timelock s' = Some t" "ef_total s' = Some (sum_list (map (\<lambda>(k, d, x). x) (ef_transfers s')))"
    using s(2,7) by (simp_all add: s')
  ultimately show ?thesis unfolding recoveries_ok_def using s(3) recs by blast
qed

lemma recoveries_ok_admin:
  assumes "recoveries_ok s"
  shows "recoveries_ok (s\<lparr> ef_enabled := b \<rparr>)" "recoveries_ok (s\<lparr> ef_auths := m \<rparr>)"
  using assms by (simp_all add: recoveries_ok_def executed_amount_def [abs_def])

lemma emergency_exec_ok:
  assumes "recoveries_ok s" "not_initialize c" "emergency_exec accepts env c s = Inr s'"
  shows "recoveries_ok s'"
proof (cases c)
  case (EmApprove a rid)
  then obtain r where r: "ef_recoveries s rid = Some r" "ey_status r = RecoveryPending"
    using assms(3) by (auto simp: approve_fund_recovery_def Let_def)
  have "recovery_ok rid r" using assms(1) r(1) by (auto simp: recoveries_ok_def)
  then have "recovery_ok rid (r\<lparr> ey_approvals := ey_approvals r @ [a], ey_status := RecoveryApproved \<rparr>)"
      "s' = s\<lparr> ef_recoveries := (ef_recoveries s)(rid \<mapsto> r\<lparr> ey_approvals := ey_approvals r @ [a], ey_status := RecoveryApproved \<rparr>) \<rparr>"
    using EmApprove assms(3) r by (auto simp: recovery_ok_def approve_fund_recovery_def Let_def)
  from step_ok [OF assms(1) r(1) _ this] r(2) show ?thesis by simp
next
  case (EmCancel a rid)
  then obtain r where r: "ef_recoveries s rid = Some r" "ey_status r \<noteq> RecoveryExecuted"
      "s' = s\<lparr> ef_recoveries := (ef_recoveries s)(rid \<mapsto> r\<lparr> ey_status := RecoveryCancelled \<rparr>) \<rparr>"
    using assms(3) by (auto simp: cancel_recovery_def)
  have "recovery_ok rid (r\<lparr> ey_status := RecoveryCancelled \<rparr>)" using assms(1) r(1) by (auto simp: recoveries_ok_def recovery_ok_def)
  from step_ok [OF assms(1) r(1,2) this r(3)] show ?thesis by simp
next
  case (EmExecute a rid)
  then show ?thesis using assms execute_fund_ok by simp
next
  case (EmInitiate a d k x r)
  then show ?thesis using assms(1,3) initiate_ok by auto
qed (use assms in \<open>auto simp: not_initialize_def enable_emergency_recovery_def disable_emergency_recovery_def
      add_recovery_authorizer_def recoveries_ok_admin\<close>)

interpretation emergency: contract_invariant "emergency_exec accepts" emergency_deployed not_initialize recoveries_ok
proof
  show "recoveries_ok s" if "emergency_deployed s" for s
    using that by (auto simp: emergency_deployed_def initialize_recovery_def emergency_start_def recoveries_ok_def)
qed (rule emergency_exec_ok)

section \<open>The life cycle\<close>

text \<open>What a recovery keeps: its terms never change, the status only moves forward, and a recovery that was
  executed or cancelled stays as it is.\<close>

fun recovery_rank :: "recovery_status \<Rightarrow> nat" where
  "recovery_rank RecoveryPending = 0"
| "recovery_rank RecoveryApproved = 1"
| "recovery_rank RecoveryExecuted = 2"
| "recovery_rank RecoveryCancelled = 2"

definition later_recovery :: "emergency_recovery \<Rightarrow> emergency_recovery \<Rightarrow> bool" where
  "later_recovery r r' \<longleftrightarrow> ey_id r' = ey_id r \<and> ey_initiator r' = ey_initiator r \<and> ey_destination r' = ey_destination r
     \<and> ey_token r' = ey_token r \<and> ey_amount r' = ey_amount r \<and> ey_timelock_until r' = ey_timelock_until r
     \<and> recovery_rank (ey_status r) \<le> recovery_rank (ey_status r')
     \<and> (ey_status r \<in> {RecoveryExecuted, RecoveryCancelled} \<longrightarrow> r' = r)"

text \<open>The relation of two states of a deployment: \<open>initialize_recovery\<close> is left out of the calls, as it would
  restart the identifiers.\<close>

definition emergency_later :: "emergency_state \<Rightarrow> emergency_state \<Rightarrow> bool" where
  "emergency_later s t \<longleftrightarrow> (\<forall>rid r. ef_recoveries s rid = Some r \<longrightarrow> (\<exists>r'. ef_recoveries t rid = Some r' \<and> later_recovery r r'))
     \<and> (\<exists>ts. ef_transfers t = ef_transfers s @ ts)"

definition deployed_exec ::
  "(outgoing list \<Rightarrow> outgoing \<Rightarrow> bool) \<Rightarrow> env \<Rightarrow> emergency_call \<Rightarrow> emergency_state \<Rightarrow> emergency_state emres" where
  "deployed_exec accepts env c s = (if not_initialize c then emergency_exec accepts env c s else Inl Trap)"

lemma later_recovery_trans: "later_recovery r1 r2 \<Longrightarrow> later_recovery r2 r3 \<Longrightarrow> later_recovery r1 r3"
  by (auto simp: later_recovery_def)

lemma later_upd:
  assumes "ef_recoveries s rid = Some r" "later_recovery r r'" "ef_recoveries t = (ef_recoveries s)(rid \<mapsto> r')"
    "\<exists>ts. ef_transfers t = ef_transfers s @ ts"
  shows "emergency_later s t"
  using assms by (auto simp: emergency_later_def later_recovery_def)

lemma deployed_later:
  assumes "recoveries_ok s" "deployed_exec accepts env c s = Inr s'"
  shows "emergency_later s s'"
proof (cases c)
  case (EmInitiate a d k x r)
  obtain n where n: "ef_seq s = Some n" "dom (ef_recoveries s) = {1..n}" using assms(1) by (auto simp: recoveries_ok_def)
  have "ef_recoveries s (Suc n) = None" using n(2) by (metis Suc_n_not_le_n atLeastAtMost_iff domIff)
  moreover have "\<exists>r'. ef_recoveries s' = (ef_recoveries s)(Suc n \<mapsto> r')" "ef_transfers s' = ef_transfers s"
    using EmInitiate assms(2) n(1) by (auto simp: deployed_exec_def not_initialize_def initiate_recovery_def Let_def)
  ultimately show ?thesis by (auto simp: emergency_later_def later_recovery_def)
next
  case (EmApprove a rid)
  then obtain r where r: "ef_recoveries s rid = Some r" "ey_status r = RecoveryPending"
      "s' = s\<lparr> ef_recoveries := (ef_recoveries s)(rid \<mapsto> r\<lparr> ey_approvals := ey_approvals r @ [a],
         ey_status := if ey_required r \<le> Suc (length (ey_approvals r)) then RecoveryApproved else ey_status r \<rparr>) \<rparr>"
    using assms(2) by (auto simp: deployed_exec_def not_initialize_def approve_fund_recovery_def Let_def)
  show ?thesis by (rule later_upd [OF r(1)]) (auto simp: r(2,3) later_recovery_def)
next
  case (EmExecute a rid)
  then obtain r total' where r: "ef_recoveries s rid = Some r" "ey_status r = RecoveryApproved"
      "s' = s\<lparr> ef_transfers := ef_transfers s @ [(ey_token r, ey_destination r, ey_amount r)],
         ef_recoveries := (ef_recoveries s)(rid \<mapsto> r\<lparr> ey_status := RecoveryExecuted, ey_executed_at := timestamp env, ey_executed_by := a \<rparr>),
         ef_total := Some total' \<rparr>"
    using assms(2) by (auto simp: deployed_exec_def not_initialize_def execute_fund_recovery_def Let_def)
  show ?thesis by (rule later_upd [OF r(1)]) (auto simp: r(2,3) later_recovery_def)
next
  case (EmCancel a rid)
  then obtain r where r: "ef_recoveries s rid = Some r" "ey_status r \<noteq> RecoveryExecuted" "ey_status r \<noteq> RecoveryCancelled"
      "s' = s\<lparr> ef_recoveries := (ef_recoveries s)(rid \<mapsto> r\<lparr> ey_status := RecoveryCancelled \<rparr>) \<rparr>"
    using assms(2) by (auto simp: deployed_exec_def not_initialize_def cancel_recovery_def)
  have "later_recovery r (r\<lparr> ey_status := RecoveryCancelled \<rparr>)" using r(2,3) by (cases "ey_status r") (simp_all add: later_recovery_def)
  then show ?thesis by (rule later_upd [OF r(1)]) (simp_all add: r(4))
qed (use assms(2) in \<open>auto simp: deployed_exec_def not_initialize_def enable_emergency_recovery_def disable_emergency_recovery_def
      add_recovery_authorizer_def emergency_later_def later_recovery_def\<close>)

interpretation emergency_history: contract_progress "deployed_exec accepts" recoveries_ok emergency_later
proof
  show "emergency_later s s" for s by (simp add: emergency_later_def later_recovery_def)
  show "emergency_later s u" if "emergency_later s t" "emergency_later t u" for s t u
    using that unfolding emergency_later_def by (metis append.assoc later_recovery_trans)
  show "recoveries_ok s'" if "recoveries_ok s" "deployed_exec accepts env c s = Inr s'" for s c env s'
    using that by (auto simp: deployed_exec_def intro: emergency_exec_ok split: if_splits)
qed (rule deployed_later)

section \<open>Properties\<close>

definition demo_emergency :: "(env \<times> emergency_call) list" where
  "demo_emergency =
     (let e = \<lambda>t. \<lparr> timestamp = t, auths = [''A'', ''B''] \<rparr>
      in [(e 2, EmEnable ''A''), (e 3, EmAuthorize ''A'' ''B'' True True True True), (e 4, EmInitiate ''B'' ''D'' ''K'' 500 ''leak''),
          (e 5, EmApprove ''B'' 1), (e 6, EmInitiate ''B'' ''D'' ''K'' 7 ''other''), (e 7, EmCancel ''B'' 2),
          (e 9, EmExecute ''B'' 1), (e 200, EmExecute ''B'' 1), (e 201, EmExecute ''B'' 1)])"

definition demo_deployed :: emergency_state where
  "demo_deployed = invoke (emergency_exec (\<lambda>_ _. True)) \<lparr> timestamp = 1, auths = [''A''] \<rparr> (EmInitialize ''A'' 100) emergency_start"

lemma demo_deployed_ok: "emergency_deployed demo_deployed"
  unfolding emergency_deployed_def
  by (intro exI [of _ "\<lparr> timestamp = 1, auths = [''A''] \<rparr>"] exI [of _ "''A''"] exI [of _ 100])
     (simp add: demo_deployed_def invoke_def initialize_recovery_def)



text \<open>Also: A recovery keeps its destination, token, amount and time lock, its status only moves from pending over approved
  to executed or cancelled, and once it was executed or cancelled it never changes again, so it pays
  out at most once.\<close>

theorem recovery_moves_forward:
  assumes "emergency_deployed s0" "list_all (not_initialize \<circ> snd) h" "s = run (emergency_exec accepts) s0 h"
    "get_recovery rid s = Inr r"
  shows "\<exists>r'. get_recovery rid (run (deployed_exec accepts) s h') = Inr r' \<and> later_recovery r r'"
proof -
  have "recoveries_ok s" unfolding assms(3) by (rule emergency.run_inv [OF assms(1,2)])
  then have "emergency_later s (run (deployed_exec accepts) s h')" by (rule emergency_history.run_rel)
  then show ?thesis using assms(4) by (auto simp: emergency_later_def get_recovery_def)
qed

lemma recovery_moves_forward_witness:
  "\<exists>r r'. get_recovery 1 (run (emergency_exec (\<lambda>_ _. True)) demo_deployed (take 8 demo_emergency)) = Inr r
     \<and> get_recovery 1 (run (deployed_exec (\<lambda>_ _. True)) (run (emergency_exec (\<lambda>_ _. True)) demo_deployed (take 8 demo_emergency)) (drop 8 demo_emergency)) = Inr r'
     \<and> later_recovery r r' \<and> ey_status r = RecoveryExecuted"
proof -
  let ?s = "run (emergency_exec (\<lambda>_ _. True)) demo_deployed (take 8 demo_emergency)"
  have "map_option ey_status (ef_recoveries ?s 1) = Some RecoveryExecuted" by code_simp
  then obtain r where r: "get_recovery 1 ?s = Inr r" "ey_status r = RecoveryExecuted" by (auto simp: get_recovery_def)
  have "list_all (not_initialize \<circ> snd) (take 8 demo_emergency)" by code_simp
  from recovery_moves_forward [OF demo_deployed_ok this refl r(1), of "drop 8 demo_emergency"] r show ?thesis by blast
qed

text \<open>C29: \<open>initialize_recovery\<close> is not protected, so anyone can drain the contract: whatever the state, an address that
  authorises its own calls becomes the administrator, authorises itself, initiates and approves a
  recovery of any positive amount to a destination other than itself, and one second later the
  transfer is made, as long as the token contract accepts it and the ledger clock is not at its
  maximum.\<close>

definition drain :: "nat \<Rightarrow> address \<Rightarrow> outgoing \<Rightarrow> (env \<times> emergency_call) list" where
  "drain now a t = (case t of (token, destination, amount) \<Rightarrow>
     let e = \<lparr> timestamp = now, auths = [a] \<rparr>
     in [(e, EmInitialize a 1), (e, EmEnable a), (e, EmAuthorize a a True True True True),
         (e, EmInitiate a destination token amount []), (e, EmApprove a 1),
         (\<lparr> timestamp = now + 1, auths = [a] \<rparr>, EmExecute a 1)])"

theorem funds_drained_by_anyone:
  assumes "0 < amount" "amount \<le> i128_max" "destination \<noteq> a" "now < u64_max" "accepts (ef_transfers s) (token, destination, amount)"
  shows "ef_transfers (run (emergency_exec accepts) s (drain now a (token, destination, amount)))
    = ef_transfers s @ [(token, destination, amount)]"
  using assms
  by (simp add: drain_def Let_def invoke_def initialize_recovery_def enable_emergency_recovery_def require_recovery_admin_def
      add_recovery_authorizer_def initiate_recovery_def approve_fund_recovery_def execute_fund_recovery_def require_recovery_permission_def
      state_of_def u_checked_def i_checked_def in_i128_def i128_min_def u64_max_def)

lemma funds_drained_by_anyone_witness:
  "ef_transfers (run (emergency_exec (\<lambda>_ _. True)) demo_deployed (drain 50 ''X'' (''K'', ''Y'', 1000000))) = [(''K'', ''Y'', 1000000)]"
proof -
  have "ef_transfers demo_deployed = []" by code_simp
  then show ?thesis using funds_drained_by_anyone [of 1000000 "''Y''" "''X''" 50 "\<lambda>_ _. True" demo_deployed "''K''"]
    by (simp add: width_defs)
qed

end
