(* ===== verification/Reserve_Verifier.thy ===== *)
theory Reserve_Verifier
  imports Soroban
begin

text \<open>
  \<open>soroban/src/bridge_reserve_verifier.rs\<close>: bridge operators commit to their reserves by the root of a
  Merkle tree; commitments are open to challenges for a number of ledgers, then verified by inclusion
  proofs; a lost challenge slashes the operator. SHA-256 is the parameter \<open>sha\<close> on byte lists, the
  ledger sequence number is an argument of the operations that read it, times to live are not
  modelled.
\<close>

section \<open>Data\<close>

type_synonym hash32 = "nat list"

datatype reserve_error =
    BvNotInitialized | BvAlreadyInitialized | BvUnauthorized | BvBridgeNotFound | BvBridgeAlreadyRegistered
  | BvOperatorNotFound | BvCommitmentNotFound | BvInvalidProof | BvChallengePeriodActive | BvChallengePeriodExpired
  | BvInsufficientStake | BvOperatorInactive | BvInvalidInput | BvNotChallengeable | BvNotResolvable

type_synonym 'a bvres = "(reserve_error, 'a) res"

datatype commitment_status = CommitPending | CommitVerified | CommitChallenged | CommitSlashed | CommitResolved

record reserve_config =
  rz_admin :: address
  rz_challenge_period :: nat
  rz_slash_amount :: int
  rz_min_stake :: int

record bridge_operator =
  bo_bridge_id :: string
  bo_operator :: address
  bo_stake :: int
  bo_is_active :: bool
  bo_slash_count :: nat
  bo_registered_at :: nat

record reserve_commitment =
  rw_bridge_id :: string
  rw_sequence :: nat
  rw_merkle_root :: hash32
  rw_total_reserves :: int
  rw_committed_at :: nat
  rw_committed_ledger :: nat
  rw_status :: commitment_status
  rw_challenger :: "address option"

record merkle_proof =
  mp_leaf :: hash32
  mp_path :: "hash32 list"
  mp_index :: nat

record reserve_state =
  bv_config :: "reserve_config option"
  bv_operators :: "string \<rightharpoonup> bridge_operator"
  bv_commitments :: "string \<times> nat \<rightharpoonup> reserve_commitment"
  bv_seq :: "string \<rightharpoonup> nat"
  bv_bridges :: "string list option"

section \<open>Merkle proofs\<close>

definition hash_pair :: "(nat list \<Rightarrow> hash32) \<Rightarrow> nat \<Rightarrow> hash32 \<Rightarrow> hash32 \<Rightarrow> hash32" where
  "hash_pair sha index computed sibling =
     (if index mod 2 = 0 then sha (computed @ sibling) else sha (sibling @ computed))"

fun merkle_root_of :: "(nat list \<Rightarrow> hash32) \<Rightarrow> nat \<Rightarrow> hash32 \<Rightarrow> hash32 list \<Rightarrow> hash32" where
  "merkle_root_of sha index computed [] = computed"
| "merkle_root_of sha index computed (sibling # path) =
     merkle_root_of sha (index div 2) (hash_pair sha index computed sibling) path"

definition verify_merkle_proof :: "(nat list \<Rightarrow> hash32) \<Rightarrow> merkle_proof \<Rightarrow> hash32 \<Rightarrow> bool" where
  "verify_merkle_proof sha p root \<longleftrightarrow> merkle_root_of sha (mp_index p) (mp_leaf p) (mp_path p) = root"

section \<open>Operations\<close>

definition load_reserve_config :: "reserve_state \<Rightarrow> reserve_config bvres" where
  "load_reserve_config s = ok_or (bv_config s) (Err BvNotInitialized)"

definition reserve_initialize :: "env \<Rightarrow> address \<Rightarrow> nat \<Rightarrow> int \<Rightarrow> int \<Rightarrow> reserve_state \<Rightarrow> reserve_state bvres" where
  "reserve_initialize env admin period slash_amount min_stake s =
     and_then (ensure (bv_config s = None) (Err BvAlreadyInitialized)) (\<lambda>_.
     and_then (require_auth env admin) (\<lambda>_.
     Inr (s\<lparr> bv_config := Some \<lparr> rz_admin = admin, rz_challenge_period = period, rz_slash_amount = slash_amount,
                                 rz_min_stake = min_stake \<rparr>,
             bv_bridges := Some [] \<rparr>)))"

definition update_reserve_config :: "env \<Rightarrow> nat \<Rightarrow> int \<Rightarrow> int \<Rightarrow> reserve_state \<Rightarrow> reserve_state bvres" where
  "update_reserve_config env period slash_amount min_stake s =
     and_then (load_reserve_config s) (\<lambda>cfg.
     and_then (require_auth env (rz_admin cfg)) (\<lambda>_.
     and_then (ensure (\<not> (slash_amount < 0 \<or> min_stake < 0)) (Err BvInvalidInput)) (\<lambda>_.
     Inr (s\<lparr> bv_config := Some (cfg\<lparr> rz_challenge_period := period, rz_slash_amount := slash_amount,
                                    rz_min_stake := min_stake \<rparr>) \<rparr>))))"

definition register_bridge :: "env \<Rightarrow> string \<Rightarrow> address \<Rightarrow> int \<Rightarrow> reserve_state \<Rightarrow> reserve_state bvres" where
  "register_bridge env bridge operator stake s =
     and_then (load_reserve_config s) (\<lambda>cfg.
     and_then (require_auth env (rz_admin cfg)) (\<lambda>_.
     and_then (ensure (bv_operators s bridge = None) (Err BvBridgeAlreadyRegistered)) (\<lambda>_.
     and_then (ensure (\<not> stake < rz_min_stake cfg) (Err BvInsufficientStake)) (\<lambda>_.
       let op = \<lparr> bo_bridge_id = bridge, bo_operator = operator, bo_stake = stake, bo_is_active = True,
                  bo_slash_count = 0, bo_registered_at = timestamp env \<rparr>
       in Inr (s\<lparr> bv_operators := (bv_operators s)(bridge \<mapsto> op), bv_seq := (bv_seq s)(bridge \<mapsto> 0),
                  bv_bridges := Some (unwrap_or (bv_bridges s) [] @ [bridge]) \<rparr>)))))"

definition commit_reserves :: "env \<Rightarrow> nat \<Rightarrow> string \<Rightarrow> hash32 \<Rightarrow> int \<Rightarrow> reserve_state \<Rightarrow> (nat \<times> reserve_state) bvres" where
  "commit_reserves env ledger bridge root total_reserves s =
     and_then (ok_or (bv_operators s bridge) (Err BvBridgeNotFound)) (\<lambda>op.
     and_then (ensure (bo_is_active op) (Err BvOperatorInactive)) (\<lambda>_.
     and_then (require_auth env (bo_operator op)) (\<lambda>_.
     and_then (ensure (\<not> total_reserves < 0) (Err BvInvalidInput)) (\<lambda>_.
     and_then (add_u64 (unwrap_or (bv_seq s bridge) 0) 1) (\<lambda>new_seq.
       let c = \<lparr> rw_bridge_id = bridge, rw_sequence = new_seq, rw_merkle_root = root, rw_total_reserves = total_reserves,
                 rw_committed_at = timestamp env, rw_committed_ledger = ledger, rw_status = CommitPending, rw_challenger = None \<rparr>
       in Inr (new_seq, s\<lparr> bv_seq := (bv_seq s)(bridge \<mapsto> new_seq),
                           bv_commitments := (bv_commitments s)((bridge, new_seq) \<mapsto> c) \<rparr>))))))"

definition find_commitment :: "string \<Rightarrow> nat \<Rightarrow> reserve_state \<Rightarrow> reserve_commitment bvres" where
  "find_commitment bridge n s = ok_or (bv_commitments s (bridge, n)) (Err BvCommitmentNotFound)"

definition put_commitment :: "string \<Rightarrow> nat \<Rightarrow> reserve_commitment \<Rightarrow> reserve_state \<Rightarrow> reserve_state" where
  "put_commitment bridge n c s = s\<lparr> bv_commitments := (bv_commitments s)((bridge, n) \<mapsto> c) \<rparr>"

definition reserve_verify_proof ::
  "(nat list \<Rightarrow> hash32) \<Rightarrow> nat \<Rightarrow> string \<Rightarrow> nat \<Rightarrow> merkle_proof \<Rightarrow> reserve_state \<Rightarrow> (bool \<times> reserve_state) bvres" where
  "reserve_verify_proof sha ledger bridge n p s =
     and_then (find_commitment bridge n s) (\<lambda>c.
       let valid = verify_merkle_proof sha p (rw_merkle_root c) in
       if valid \<and> rw_status c = CommitPending
       then and_then (load_reserve_config s) (\<lambda>cfg.
            and_then (add_u32 (rw_committed_ledger c) (rz_challenge_period cfg)) (\<lambda>end_ledger.
            Inr (valid, if end_ledger < ledger then put_commitment bridge n (c\<lparr> rw_status := CommitVerified \<rparr>) s else s)))
       else Inr (valid, s))"

definition batch_verify_proofs :: "(nat list \<Rightarrow> hash32) \<Rightarrow> string \<Rightarrow> nat \<Rightarrow> merkle_proof list \<Rightarrow> reserve_state \<Rightarrow> bool list bvres" where
  "batch_verify_proofs sha bridge n ps s =
     and_then (find_commitment bridge n s) (\<lambda>c.
     Inr (map (\<lambda>p. verify_merkle_proof sha p (rw_merkle_root c)) ps))"

definition challenge_commitment ::
  "(nat list \<Rightarrow> hash32) \<Rightarrow> env \<Rightarrow> nat \<Rightarrow> string \<Rightarrow> nat \<Rightarrow> address \<Rightarrow> merkle_proof \<Rightarrow> reserve_state \<Rightarrow> reserve_state bvres" where
  "challenge_commitment sha env ledger bridge n challenger p s =
     and_then (require_auth env challenger) (\<lambda>_.
     and_then (find_commitment bridge n s) (\<lambda>c.
     and_then (ensure (rw_status c = CommitPending) (Err BvNotChallengeable)) (\<lambda>_.
     and_then (load_reserve_config s) (\<lambda>cfg.
     and_then (add_u32 (rw_committed_ledger c) (rz_challenge_period cfg)) (\<lambda>end_ledger.
     and_then (ensure (\<not> end_ledger < ledger) (Err BvChallengePeriodExpired)) (\<lambda>_.
     Inr (if \<not> verify_merkle_proof sha p (rw_merkle_root c)
          then put_commitment bridge n (c\<lparr> rw_status := CommitChallenged, rw_challenger := Some challenger \<rparr>) s
          else s)))))))"

definition slash_operator_internal :: "string \<Rightarrow> reserve_config \<Rightarrow> reserve_state \<Rightarrow> reserve_state bvres" where
  "slash_operator_internal bridge cfg s =
     and_then (ok_or (bv_operators s bridge) (Err BvOperatorNotFound)) (\<lambda>op.
     and_then (add_u32 (bo_slash_count op) 1) (\<lambda>slashes.
     and_then (if rz_slash_amount cfg \<le> bo_stake op then sub_i128 (bo_stake op) (rz_slash_amount cfg) else Inr 0) (\<lambda>stake.
     Inr (s\<lparr> bv_operators := (bv_operators s)(bridge \<mapsto> op\<lparr> bo_slash_count := slashes, bo_stake := stake,
            bo_is_active := (if stake < rz_min_stake cfg then False else bo_is_active op) \<rparr>) \<rparr>))))"

definition resolve_reserve_challenge :: "env \<Rightarrow> string \<Rightarrow> nat \<Rightarrow> bool \<Rightarrow> reserve_state \<Rightarrow> reserve_state bvres" where
  "resolve_reserve_challenge env bridge n commitment_valid s =
     and_then (load_reserve_config s) (\<lambda>cfg.
     and_then (require_auth env (rz_admin cfg)) (\<lambda>_.
     and_then (find_commitment bridge n s) (\<lambda>c.
     and_then (ensure (rw_status c = CommitChallenged) (Err BvNotResolvable)) (\<lambda>_.
     and_then (if commitment_valid then Inr s else slash_operator_internal bridge cfg s) (\<lambda>s1.
     Inr (put_commitment bridge n (c\<lparr> rw_status := (if commitment_valid then CommitResolved else CommitSlashed) \<rparr>) s1))))))"

definition reserve_slash_operator :: "env \<Rightarrow> string \<Rightarrow> reserve_state \<Rightarrow> reserve_state bvres" where
  "reserve_slash_operator env bridge s =
     and_then (load_reserve_config s) (\<lambda>cfg.
     and_then (require_auth env (rz_admin cfg)) (\<lambda>_. slash_operator_internal bridge cfg s))"

definition get_commitment :: "string \<Rightarrow> nat \<Rightarrow> reserve_state \<Rightarrow> reserve_commitment option" where
  "get_commitment bridge n s = bv_commitments s (bridge, n)"

definition get_registered_bridges :: "reserve_state \<Rightarrow> string list" where
  "get_registered_bridges s = unwrap_or (bv_bridges s) []"

definition get_latest_sequence :: "string \<Rightarrow> reserve_state \<Rightarrow> nat" where
  "get_latest_sequence bridge s = unwrap_or (bv_seq s bridge) 0"

section \<open>Histories\<close>

datatype reserve_call =
    BvInitialize address nat int int
  | BvConfig nat int int
  | BvRegister string address int
  | BvCommit nat string hash32 int
  | BvVerify nat string nat merkle_proof
  | BvChallenge nat string nat address merkle_proof
  | BvResolve string nat bool
  | BvSlash string

fun reserve_exec :: "(nat list \<Rightarrow> hash32) \<Rightarrow> env \<Rightarrow> reserve_call \<Rightarrow> reserve_state \<Rightarrow> reserve_state bvres" where
  "reserve_exec sha env (BvInitialize a p x m) s = reserve_initialize env a p x m s"
| "reserve_exec sha env (BvConfig p x m) s = update_reserve_config env p x m s"
| "reserve_exec sha env (BvRegister b a k) s = register_bridge env b a k s"
| "reserve_exec sha env (BvCommit l b r t) s = state_of (commit_reserves env l b r t s)"
| "reserve_exec sha env (BvVerify l b n p) s = state_of (reserve_verify_proof sha l b n p s)"
| "reserve_exec sha env (BvChallenge l b n a p) s = challenge_commitment sha env l b n a p s"
| "reserve_exec sha env (BvResolve b n v) s = resolve_reserve_challenge env b n v s"
| "reserve_exec sha env (BvSlash b) s = reserve_slash_operator env b s"

definition reserve_start :: reserve_state where
  "reserve_start = \<lparr> bv_config = None, bv_operators = Map.empty, bv_commitments = Map.empty, bv_seq = Map.empty, bv_bridges = None \<rparr>"

section \<open>The abstract view: Merkle trees\<close>

text \<open>A tree over leaf hashes, its root, the leaf under an index read from the lowest bit at the bottom, and the
  siblings on the path to it, from the leaf to the root.\<close>

datatype merkle_tree = MLeaf hash32 | MNode merkle_tree merkle_tree

fun tree_root :: "(nat list \<Rightarrow> hash32) \<Rightarrow> merkle_tree \<Rightarrow> hash32" where
  "tree_root sha (MLeaf h) = h"
| "tree_root sha (MNode l r) = sha (tree_root sha l @ tree_root sha r)"

fun perfect :: "nat \<Rightarrow> merkle_tree \<Rightarrow> bool" where
  "perfect 0 (MLeaf h) \<longleftrightarrow> True"
| "perfect (Suc n) (MNode l r) \<longleftrightarrow> perfect n l \<and> perfect n r"
| "perfect _ _ \<longleftrightarrow> False"

fun leaves_of :: "merkle_tree \<Rightarrow> hash32 list" where
  "leaves_of (MLeaf h) = [h]"
| "leaves_of (MNode l r) = leaves_of l @ leaves_of r"

fun path_to :: "(nat list \<Rightarrow> hash32) \<Rightarrow> nat \<Rightarrow> merkle_tree \<Rightarrow> nat \<Rightarrow> hash32 list" where
  "path_to sha n (MLeaf h) i = []"
| "path_to sha n (MNode l r) i =
     (if n = 0 then []
      else if i < 2 ^ (n - 1) then path_to sha (n - 1) l i @ [tree_root sha r]
      else path_to sha (n - 1) r (i - 2 ^ (n - 1)) @ [tree_root sha l])"

lemma perfect_length: "perfect n t \<Longrightarrow> length (leaves_of t) = 2 ^ n"
  by (induction n t rule: perfect.induct) auto

lemma path_length: "perfect n t \<Longrightarrow> length (path_to sha n t i) = n"
  by (induction n t arbitrary: i rule: perfect.induct) auto

lemma merkle_root_append:
  "merkle_root_of sha i h (p @ q) = merkle_root_of sha (i div 2 ^ length p) (merkle_root_of sha i h p) q"
  by (induction p arbitrary: i h) (simp_all add: div_mult2_eq)

lemma merkle_root_index:
  "length p \<le> n \<Longrightarrow> merkle_root_of sha (i + k * 2 ^ n) h p = merkle_root_of sha i h p"
proof (induction p arbitrary: i h n)
  case (Cons x p)
  then obtain m where n: "n = Suc m" "length p \<le> m" by (cases n) auto
  have eq: "i + k * 2 ^ n = i + 2 * (k * 2 ^ m)" by (simp add: n)
  have "(i + k * 2 ^ n) mod 2 = i mod 2" unfolding eq by simp
  moreover have "(i + k * 2 ^ n) div 2 = i div 2 + k * 2 ^ m" unfolding eq by simp
  ultimately show ?case using Cons.IH [OF n(2)] by (simp add: hash_pair_def)
qed simp

lemma path_verifies:
  "perfect n t \<Longrightarrow> i < 2 ^ n \<Longrightarrow> merkle_root_of sha i (leaves_of t ! i) (path_to sha n t i) = tree_root sha t"
proof (induction n t arbitrary: i rule: perfect.induct)
  case (2 n l r)
  then have len: "length (leaves_of l) = 2 ^ n" "length (path_to sha n l j) = n" "length (path_to sha n r j) = n" for j
    by (simp_all add: perfect_length path_length)
  show ?case
  proof (cases "i < 2 ^ n")
    case True
    then have "merkle_root_of sha i (leaves_of l ! i) (path_to sha n l i) = tree_root sha l" using 2 by simp
    then show ?thesis using True len by (simp add: merkle_root_append nth_append hash_pair_def)
  next
    case False
    define j where "j = i - 2 ^ n"
    have j: "i = j + 1 * 2 ^ n" "j < 2 ^ n" using False 2(4) by (simp_all add: j_def)
    have "merkle_root_of sha j (leaves_of r ! j) (path_to sha n r j) = tree_root sha r" using 2 j(2) by simp
    then have "merkle_root_of sha i (leaves_of r ! j) (path_to sha n r j) = tree_root sha r"
      using merkle_root_index [of "path_to sha n r j" n sha j 1] len j(1) by simp
    moreover have "i div 2 ^ n = 1" using j div_add_self2 [of "2 ^ n" j] by simp
    ultimately show ?thesis using False len by (simp add: merkle_root_append nth_append hash_pair_def j_def [symmetric])
  qed
qed auto

text \<open>Soundness: with a hash that is injective on the inputs used, two proofs of one root along the same index
  and length have the same leaf.\<close>

lemma merkle_sound:
  assumes "\<And>x y. sha x = sha y \<Longrightarrow> length x = 64 \<Longrightarrow> length y = 64 \<Longrightarrow> x = y" "\<And>x. length (sha x) = 32"
  shows "merkle_root_of sha i h p = merkle_root_of sha i h' p' \<Longrightarrow> length p = length p' \<Longrightarrow>
     length h = 32 \<Longrightarrow> length h' = 32 \<Longrightarrow> list_all (\<lambda>x. length x = 32) p \<Longrightarrow> list_all (\<lambda>x. length x = 32) p' \<Longrightarrow>
     h = h' \<and> p = p'"
proof (induction p arbitrary: i h h' p')
  case (Cons x p)
  then obtain y q where p': "p' = y # q" by (cases p') auto
  have step: "hash_pair sha i h x = hash_pair sha i h' y" "p = q"
    using Cons.IH [of "i div 2" "hash_pair sha i h x" "hash_pair sha i h' y" q] Cons.prems assms(2) p'
    by (simp_all add: hash_pair_def)
  have len: "length x = 32" "length y = 32" using Cons.prems p' by simp_all
  have "i mod 2 = 0 \<Longrightarrow> h @ x = h' @ y" "i mod 2 \<noteq> 0 \<Longrightarrow> x @ h = y @ h'"
    using step(1) assms(1) len Cons.prems(3,4) by (simp_all add: hash_pair_def)
  then show ?case using len Cons.prems(3,4) p' step(2) by (cases "i mod 2 = 0") auto
qed simp

lemma merkle_sound_or_collision:
  assumes "\<And>x. length (sha x) = 32" "merkle_root_of sha i h p = merkle_root_of sha i h' p'" "length p = length p'"
    "length h = 32" "length h' = 32" "list_all (\<lambda>x. length x = 32) p" "list_all (\<lambda>x. length x = 32) p'"
  shows "h = h' \<or> (\<exists>x y. x \<noteq> y \<and> length x = 64 \<and> length y = 64 \<and> sha x = sha y)"
  using merkle_sound [of sha i h p h' p'] assms by blast

lemma tree_hashes:
  assumes "\<And>x. length (sha x) = 32"
  shows "list_all (\<lambda>h. length h = 32) (leaves_of t) \<Longrightarrow> length (tree_root sha t) = 32"
  by (cases t) (simp_all add: assms)

lemma path_hashes:
  assumes "\<And>x. length (sha x) = 32"
  shows "list_all (\<lambda>h. length h = 32) (leaves_of t) \<Longrightarrow> list_all (\<lambda>h. length h = 32) (path_to sha n t i)"
proof (induction t arbitrary: n i)
  case (MNode l r)
  then show ?case using tree_hashes [OF assms, of l] tree_hashes [OF assms, of r] by simp
qed simp

section \<open>The invariant\<close>

definition commitment_ok :: "string \<Rightarrow> nat \<Rightarrow> reserve_commitment \<Rightarrow> bool" where
  "commitment_ok b n c \<longleftrightarrow> rw_bridge_id c = b \<and> rw_sequence c = n \<and> 0 \<le> rw_total_reserves c
     \<and> (rw_challenger c = None \<longleftrightarrow> rw_status c \<in> {CommitPending, CommitVerified})"

definition reserve_ok :: "reserve_state \<Rightarrow> bool" where
  "reserve_ok s \<longleftrightarrow> distinct (get_registered_bridges s) \<and> set (get_registered_bridges s) = dom (bv_operators s)
     \<and> dom (bv_seq s) = dom (bv_operators s)
     \<and> (bv_config s = None \<longrightarrow> bv_operators s = Map.empty)
     \<and> (\<forall>b n. (b, n) \<in> dom (bv_commitments s) \<longleftrightarrow> 0 < n \<and> n \<le> get_latest_sequence b s)
     \<and> (\<forall>b n c. bv_commitments s (b, n) = Some c \<longrightarrow> commitment_ok b n c)
     \<and> (\<forall>b op. bv_operators s b = Some op \<longrightarrow> bo_bridge_id op = b)"

lemma find_commitment_eq [simp]: "find_commitment b n s = Inr c \<longleftrightarrow> bv_commitments s (b, n) = Some c"
  by (simp add: find_commitment_def)

lemma load_config_eq [simp]: "load_reserve_config s = Inr c \<longleftrightarrow> bv_config s = Some c"
  by (simp add: load_reserve_config_def)

lemma put_commitment_ok:
  assumes "reserve_ok s" "bv_commitments s (b, n) = Some c" "commitment_ok b n c'"
  shows "reserve_ok (put_commitment b n c' s)"
proof -
  have "dom (bv_commitments (put_commitment b n c' s)) = dom (bv_commitments s)"
    using assms(2) by (auto simp: put_commitment_def)
  then show ?thesis using assms(1,3)
    by (simp add: reserve_ok_def put_commitment_def get_registered_bridges_def get_latest_sequence_def)
qed

lemma slash_cases:
  assumes "slash_operator_internal b cfg s = Inr s'"
  obtains op op' where "bv_operators s b = Some op" "bo_bridge_id op' = bo_bridge_id op" "bo_operator op' = bo_operator op"
    "bo_slash_count op' = Suc (bo_slash_count op)" "bo_is_active op' \<longrightarrow> bo_is_active op \<and> rz_min_stake cfg \<le> bo_stake op'"
    "s' = s\<lparr> bv_operators := (bv_operators s)(b \<mapsto> op') \<rparr>"
proof -
  from assms obtain op stake where op: "bv_operators s b = Some op"
      "s' = s\<lparr> bv_operators := (bv_operators s)(b \<mapsto> op\<lparr> bo_slash_count := Suc (bo_slash_count op), bo_stake := stake,
            bo_is_active := (if stake < rz_min_stake cfg then False else bo_is_active op) \<rparr>) \<rparr>"
    by (auto simp: slash_operator_internal_def)
  show thesis by (rule that [OF op(1) _ _ _ _ op(2)]) simp_all
qed

lemma slash_ok:
  assumes "reserve_ok s" "slash_operator_internal b cfg s = Inr s'"
  shows "reserve_ok s' \<and> bv_commitments s' = bv_commitments s"
proof -
  obtain op op' where op: "bv_operators s b = Some op" "bo_bridge_id op' = bo_bridge_id op"
      "s' = s\<lparr> bv_operators := (bv_operators s)(b \<mapsto> op') \<rparr>"
    using assms(2) by (rule slash_cases)
  have "dom (bv_operators s') = dom (bv_operators s)" using op(1) by (auto simp: op(3))
  moreover have "bv_config s' = None \<longrightarrow> bv_operators s' = Map.empty" using assms(1) op(1) by (auto simp: op(3) reserve_ok_def)
  moreover have "\<forall>k x. bv_operators s' k = Some x \<longrightarrow> bo_bridge_id x = k" using assms(1) op(1,2) by (auto simp: op(3) reserve_ok_def)
  moreover have f: "bv_commitments s' = bv_commitments s" "bv_seq s' = bv_seq s" "bv_bridges s' = bv_bridges s"
    by (simp_all add: op(3))
  ultimately show ?thesis using assms(1)
    unfolding reserve_ok_def get_registered_bridges_def get_latest_sequence_def f by simp
qed

lemma register_bridge_ok:
  assumes "reserve_ok s" "register_bridge env b a k s = Inr s'"
  shows "reserve_ok s'"
proof -
  define op where "op = \<lparr> bo_bridge_id = b, bo_operator = a, bo_stake = k, bo_is_active = True, bo_slash_count = 0,
    bo_registered_at = timestamp env \<rparr>"
  then have op: "bv_operators s b = None" "bo_bridge_id op = b" "bv_config s \<noteq> None"
      "s' = s\<lparr> bv_operators := (bv_operators s)(b \<mapsto> op), bv_seq := (bv_seq s)(b \<mapsto> 0),
               bv_bridges := Some (unwrap_or (bv_bridges s) [] @ [b]) \<rparr>"
    using assms(2) by (auto simp: register_bridge_def Let_def)
  have seq: "get_latest_sequence k s' = get_latest_sequence k s" for k
  proof -
    have "bv_seq s b = None" using assms(1) op(1) by (metis domIff reserve_ok_def)
    then show ?thesis by (simp add: get_latest_sequence_def op(4))
  qed
  have bridges: "get_registered_bridges s' = get_registered_bridges s @ [b]" by (simp add: get_registered_bridges_def op(4))
  have "b \<notin> set (get_registered_bridges s)" using assms(1) op(1) by (auto simp: reserve_ok_def)
  then show ?thesis using assms(1) op(1,2,3) unfolding reserve_ok_def bridges seq by (auto simp: op(4))
qed

lemma commit_ok:
  assumes "reserve_ok s" "commit_reserves env l b r t s = Inr (n, s')"
  shows "reserve_ok s'"
proof -
  define c where "c = \<lparr> rw_bridge_id = b, rw_sequence = n, rw_merkle_root = r, rw_total_reserves = t,
    rw_committed_at = timestamp env, rw_committed_ledger = l, rw_status = CommitPending, rw_challenger = None \<rparr>"
  then have c: "n = Suc (get_latest_sequence b s)" "commitment_ok b n c" "bv_operators s b \<noteq> None"
      "s' = s\<lparr> bv_seq := (bv_seq s)(b \<mapsto> n), bv_commitments := (bv_commitments s)((b, n) \<mapsto> c) \<rparr>"
    using assms(2) by (auto simp: commit_reserves_def Let_def get_latest_sequence_def commitment_ok_def)
  have seq: "get_latest_sequence k s' = (if k = b then Suc (get_latest_sequence b s) else get_latest_sequence k s)" for k
    by (simp add: get_latest_sequence_def c(1,4))
  have dom: "(k, m) \<in> dom (bv_commitments s') \<longleftrightarrow> (k, m) = (b, n) \<or> (k, m) \<in> dom (bv_commitments s)" for k m
    by (auto simp: c(4))
  have ok: "(k, m) \<in> dom (bv_commitments s) \<longleftrightarrow> 0 < m \<and> m \<le> get_latest_sequence k s" for k m
    using assms(1) by (simp add: reserve_ok_def)
  have "(k, m) \<in> dom (bv_commitments s') \<longleftrightarrow> 0 < m \<and> m \<le> get_latest_sequence k s'" for k m
    unfolding dom ok seq c(1) by auto
  moreover have "\<forall>k m x. bv_commitments s' (k, m) = Some x \<longrightarrow> commitment_ok k m x"
    using assms(1) c(2) by (auto simp: c(4) reserve_ok_def)
  moreover have "dom (bv_seq s') = dom (bv_operators s')" using assms(1) c(3) by (auto simp: c(4) reserve_ok_def)
  moreover have "get_registered_bridges s' = get_registered_bridges s" by (simp add: get_registered_bridges_def c(4))
  ultimately show ?thesis using assms(1) by (simp add: reserve_ok_def c(4))
qed

lemma reserve_ok_config: "reserve_ok s \<Longrightarrow> reserve_ok (s\<lparr> bv_config := Some c \<rparr>)"
  by (simp add: reserve_ok_def get_registered_bridges_def get_latest_sequence_def)

lemma reserve_exec_ok:
  assumes "reserve_ok s" "reserve_exec sha env c s = Inr s'"
  shows "reserve_ok s'"
proof (cases c)
  case (BvInitialize a p x m)
  then have i: "bv_config s = None" "bv_operators s' = bv_operators s" "bv_commitments s' = bv_commitments s" "bv_seq s' = bv_seq s"
      "bv_config s' \<noteq> None" "get_registered_bridges s' = []"
    using assms(2) by (auto simp: reserve_initialize_def get_registered_bridges_def)
  have "bv_operators s = Map.empty" using assms(1) i(1) by (simp add: reserve_ok_def)
  then show ?thesis using assms(1) i(5) unfolding reserve_ok_def i(2-4,6) get_latest_sequence_def by simp
next
  case (BvConfig p x m)
  then show ?thesis using assms by (auto simp: update_reserve_config_def intro: reserve_ok_config)
next
  case (BvRegister b a k)
  then show ?thesis using assms register_bridge_ok by simp
next
  case (BvCommit l b r t)
  then show ?thesis using assms commit_ok by auto
next
  case (BvVerify l b n p)
  then obtain r where r: "reserve_verify_proof sha l b n p s = Inr (r, s')" using assms(2) by auto
  then obtain c where c: "bv_commitments s (b, n) = Some c" by (auto simp: reserve_verify_proof_def)
  with assms(1) have "commitment_ok b n c" by (auto simp: reserve_ok_def)
  then have "rw_status c = CommitPending \<Longrightarrow> reserve_ok (put_commitment b n (c\<lparr> rw_status := CommitVerified \<rparr>) s)"
    by (intro put_commitment_ok [OF assms(1) c]) (simp add: commitment_ok_def)
  then show ?thesis using r assms(1) c by (auto simp: reserve_verify_proof_def Let_def split: if_splits)
next
  case (BvChallenge l b n a p)
  then obtain c where c: "bv_commitments s (b, n) = Some c" using assms(2) by (auto simp: challenge_commitment_def)
  with assms(1) have "commitment_ok b n c" by (auto simp: reserve_ok_def)
  then have "reserve_ok (put_commitment b n (c\<lparr> rw_status := CommitChallenged, rw_challenger := Some a \<rparr>) s)"
    by (intro put_commitment_ok [OF assms(1) c]) (simp add: commitment_ok_def)
  then show ?thesis using BvChallenge assms c by (auto simp: challenge_commitment_def split: if_splits)
next
  case (BvResolve b n v)
  then obtain c cfg s1 where c: "bv_commitments s (b, n) = Some c" "rw_status c = CommitChallenged"
      "(if v then Inr s else slash_operator_internal b cfg s) = Inr s1"
      "s' = put_commitment b n (c\<lparr> rw_status := (if v then CommitResolved else CommitSlashed) \<rparr>) s1"
    using assms(2) by (auto simp: resolve_reserve_challenge_def)
  have s1: "reserve_ok s1" "bv_commitments s1 (b, n) = Some c"
    using c(1,3) assms(1) slash_ok [OF assms(1)] by (auto split: if_splits)
  have "commitment_ok b n c" using assms(1) c(1) by (auto simp: reserve_ok_def)
  then show ?thesis unfolding c(4) using c(2) by (intro put_commitment_ok [OF s1]) (simp add: commitment_ok_def)
next
  case (BvSlash b)
  then show ?thesis using assms slash_ok by (auto simp: reserve_slash_operator_def)
qed

interpretation reserve: contract_invariant "reserve_exec sha" "\<lambda>s. s = reserve_start" "\<lambda>_. True" reserve_ok
proof
  show "reserve_ok s" if "s = reserve_start" for s
    using that by (auto simp: reserve_start_def reserve_ok_def get_registered_bridges_def get_latest_sequence_def)
qed (rule reserve_exec_ok)

section \<open>What never changes\<close>

fun commitment_rank :: "commitment_status \<Rightarrow> nat" where
  "commitment_rank CommitPending = 0"
| "commitment_rank CommitChallenged = 1"
| "commitment_rank CommitVerified = 2"
| "commitment_rank CommitSlashed = 2"
| "commitment_rank CommitResolved = 2"

definition later_commitment :: "reserve_commitment \<Rightarrow> reserve_commitment \<Rightarrow> bool" where
  "later_commitment c c' \<longleftrightarrow> c' = c \<or> (commitment_rank (rw_status c) < commitment_rank (rw_status c')
     \<and> rw_merkle_root c' = rw_merkle_root c \<and> rw_total_reserves c' = rw_total_reserves c
     \<and> rw_committed_ledger c' = rw_committed_ledger c \<and> rw_committed_at c' = rw_committed_at c
     \<and> (rw_status c = CommitChallenged \<longrightarrow> rw_challenger c' = rw_challenger c))"

definition later_operator :: "bridge_operator \<Rightarrow> bridge_operator \<Rightarrow> bool" where
  "later_operator o1 o2 \<longleftrightarrow> bo_operator o2 = bo_operator o1 \<and> bo_slash_count o1 \<le> bo_slash_count o2
     \<and> (bo_is_active o2 \<longrightarrow> bo_is_active o1)"

definition reserve_later :: "reserve_state \<Rightarrow> reserve_state \<Rightarrow> bool" where
  "reserve_later s t \<longleftrightarrow>
     (\<forall>k c. bv_commitments s k = Some c \<longrightarrow> (\<exists>c'. bv_commitments t k = Some c' \<and> later_commitment c c'))
   \<and> (\<forall>b x. bv_operators s b = Some x \<longrightarrow> (\<exists>y. bv_operators t b = Some y \<and> later_operator x y))"

lemma later_commitment_trans: "later_commitment c d \<Longrightarrow> later_commitment d e \<Longrightarrow> later_commitment c e"
  by (cases "rw_status c"; cases "rw_status d"; cases "rw_status e") (auto simp: later_commitment_def)

lemma later_operator_refl [simp]: "later_operator x x"
  by (simp add: later_operator_def)

lemma later_operator_trans: "later_operator x y \<Longrightarrow> later_operator y z \<Longrightarrow> later_operator x z"
  by (auto simp: later_operator_def)

lemma reserve_later_refl: "reserve_later s s"
  by (simp add: reserve_later_def later_commitment_def)

lemma put_commitment_later:
  "bv_commitments s (b, n) = Some c \<Longrightarrow> later_commitment c c' \<Longrightarrow> reserve_later s (put_commitment b n c' s)"
  by (auto simp: reserve_later_def put_commitment_def later_commitment_def)

lemma slash_later: "slash_operator_internal b cfg s = Inr s' \<Longrightarrow> reserve_later s s' \<and> bv_commitments s' = bv_commitments s"
  by (erule slash_cases) (auto simp: reserve_later_def later_commitment_def later_operator_def)

lemma reserve_later_trans: "reserve_later s t \<Longrightarrow> reserve_later t u \<Longrightarrow> reserve_later s u"
  unfolding reserve_later_def by (meson later_commitment_trans later_operator_trans)

lemma reserve_exec_later:
  assumes "reserve_ok s" "reserve_exec sha env c s = Inr s'"
  shows "reserve_later s s'"
proof (cases c)
  case (BvRegister b a k)
  then show ?thesis using assms(2) by (auto simp: register_bridge_def reserve_later_def later_commitment_def Let_def)
next
  case (BvCommit l b r t)
  have "bv_commitments s (b, Suc (get_latest_sequence b s)) = None"
    using assms(1) by (metis Suc_n_not_le_n domIff reserve_ok_def)
  then show ?thesis using BvCommit assms(2)
    by (auto simp: commit_reserves_def reserve_later_def later_commitment_def Let_def get_latest_sequence_def)
next
  case (BvVerify l b n p)
  then obtain r where r: "reserve_verify_proof sha l b n p s = Inr (r, s')" using assms(2) by auto
  then obtain c where c: "bv_commitments s (b, n) = Some c" by (auto simp: reserve_verify_proof_def)
  have "rw_status c = CommitPending \<Longrightarrow> reserve_later s (put_commitment b n (c\<lparr> rw_status := CommitVerified \<rparr>) s)"
    by (rule put_commitment_later [OF c]) (simp add: later_commitment_def)
  then show ?thesis using r c reserve_later_refl by (auto simp: reserve_verify_proof_def Let_def split: if_splits)
next
  case (BvChallenge l b n a p)
  then obtain c where c: "bv_commitments s (b, n) = Some c" using assms(2) by (auto simp: challenge_commitment_def)
  have "rw_status c = CommitPending \<Longrightarrow> reserve_later s (put_commitment b n (c\<lparr> rw_status := CommitChallenged, rw_challenger := Some a \<rparr>) s)"
    by (rule put_commitment_later [OF c]) (simp add: later_commitment_def)
  then show ?thesis using BvChallenge assms c reserve_later_refl by (auto simp: challenge_commitment_def split: if_splits)
next
  case (BvResolve b n v)
  then obtain c cfg s1 where c: "bv_commitments s (b, n) = Some c" "rw_status c = CommitChallenged"
      "(if v then Inr s else slash_operator_internal b cfg s) = Inr s1"
      "s' = put_commitment b n (c\<lparr> rw_status := (if v then CommitResolved else CommitSlashed) \<rparr>) s1"
    using assms(2) by (auto simp: resolve_reserve_challenge_def)
  have s1: "reserve_later s s1" "bv_commitments s1 (b, n) = Some c"
    using c(1,3) slash_later reserve_later_refl by (auto split: if_splits)
  have "reserve_later s1 s'" unfolding c(4) using c(2) by (intro put_commitment_later [OF s1(2)]) (simp add: later_commitment_def)
  then show ?thesis using s1(1) reserve_later_trans by blast
next
  case (BvSlash b)
  then show ?thesis using assms slash_later by (auto simp: reserve_slash_operator_def)
qed (use assms in \<open>auto simp: reserve_initialize_def update_reserve_config_def reserve_later_def later_commitment_def\<close>)

interpretation reserve_history: contract_progress "reserve_exec sha" reserve_ok reserve_later
  by unfold_locales (auto intro: reserve_later_refl reserve_later_trans reserve_exec_ok reserve_exec_later)

section \<open>Properties\<close>

text \<open>A hash for the examples: the first bytes of both halves, padded.\<close>

definition demo_hash :: "nat list \<Rightarrow> hash32" where
  "demo_hash x = [x ! 0 * 7 + x ! 32 * 3 + 1] @ replicate 31 0"

definition demo_leaf :: "nat \<Rightarrow> hash32" where
  "demo_leaf n = [n] @ replicate 31 0"

definition demo_tree :: merkle_tree where
  "demo_tree = MNode (MNode (MLeaf (demo_leaf 1)) (MLeaf (demo_leaf 2))) (MNode (MLeaf (demo_leaf 3)) (MLeaf (demo_leaf 4)))"

definition demo_proof :: merkle_proof where
  "demo_proof = \<lparr> mp_leaf = demo_leaf 3, mp_path = path_to demo_hash 2 demo_tree 2, mp_index = 2 \<rparr>"

definition demo_reserve :: "(env \<times> reserve_call) list" where
  "demo_reserve =
     (let e = \<lambda>t. \<lparr> timestamp = t, auths = [''A'', ''O''] \<rparr>; root = tree_root demo_hash demo_tree
      in [(e 1, BvInitialize ''A'' 10 500 1000), (e 2, BvRegister ''br'' ''O'' 1200),
          (e 3, BvCommit 100 ''br'' root 5000), (e 4, BvCommit 103 ''br'' root 5001),
          (e 5, BvChallenge 108 ''br'' 1 ''A'' (demo_proof\<lparr> mp_leaf := demo_leaf 9 \<rparr>)), (e 6, BvResolve ''br'' 1 False),
          (e 7, BvVerify 120 ''br'' 2 demo_proof)])"

text \<open>Also: Inclusion proofs are complete: for a perfect tree of any depth, the proof of the leaf at any position, with the
  siblings on its path, is accepted against the root of the tree.\<close>

theorem merkle_proofs_complete:
  assumes "perfect n t" "i < 2 ^ n"
  shows "verify_merkle_proof sha \<lparr> mp_leaf = leaves_of t ! i, mp_path = path_to sha n t i, mp_index = i \<rparr> (tree_root sha t)"
  using path_verifies [OF assms] by (simp add: verify_merkle_proof_def)

lemma merkle_proofs_complete_witness:
  "verify_merkle_proof demo_hash \<lparr> mp_leaf = leaves_of demo_tree ! 2, mp_path = path_to demo_hash 2 demo_tree 2, mp_index = 2 \<rparr>
     (tree_root demo_hash demo_tree)"
proof -
  have "perfect 2 demo_tree" by (simp add: demo_tree_def numeral_2_eq_2)
  from merkle_proofs_complete [OF this, of 2 demo_hash] show ?thesis by simp
qed

text \<open>C19: Inclusion proofs are sound up to collisions of the hash: a proof with as many siblings as the tree is deep and
  an index below the number of leaves that is accepted either carries the leaf at that index, or two
  different inputs of 64 bytes have the same hash.\<close>

theorem merkle_proofs_sound:
  assumes "\<And>x. length (sha x) = 32" "perfect n t" "list_all (\<lambda>h. length h = 32) (leaves_of t)"
    "verify_merkle_proof sha p (tree_root sha t)" "length (mp_path p) = n" "mp_index p < 2 ^ n"
    "length (mp_leaf p) = 32" "list_all (\<lambda>h. length h = 32) (mp_path p)"
  shows "mp_leaf p = leaves_of t ! mp_index p \<or> (\<exists>x y. x \<noteq> y \<and> length x = 64 \<and> length y = 64 \<and> sha x = sha y)"
proof (rule merkle_sound_or_collision [OF assms(1)])
  show "merkle_root_of sha (mp_index p) (mp_leaf p) (mp_path p)
      = merkle_root_of sha (mp_index p) (leaves_of t ! mp_index p) (path_to sha n t (mp_index p))"
    using path_verifies [OF assms(2,6)] assms(4) by (simp add: verify_merkle_proof_def)
  show "length (mp_path p) = length (path_to sha n t (mp_index p))" using path_length [OF assms(2)] assms(5) by simp
  show "length (leaves_of t ! mp_index p) = 32"
    using assms(3,6) perfect_length [OF assms(2)] by (simp add: list_all_length)
  show "list_all (\<lambda>x. length x = 32) (path_to sha n t (mp_index p))" by (rule path_hashes [OF assms(1,3)])
qed (use assms(7,8) in simp_all)

lemma merkle_proofs_sound_witness:
  "mp_leaf demo_proof = leaves_of demo_tree ! 2 \<or> (\<exists>x y. x \<noteq> y \<and> length x = 64 \<and> length y = 64 \<and> demo_hash x = demo_hash y)"
proof -
  have "length (demo_hash x) = 32" for x by (simp add: demo_hash_def)
  moreover have "perfect 2 demo_tree" by (simp add: demo_tree_def numeral_2_eq_2)
  moreover have "list_all (\<lambda>h. length h = 32) (leaves_of demo_tree)" by (simp add: demo_tree_def demo_leaf_def)
  moreover have "verify_merkle_proof demo_hash demo_proof (tree_root demo_hash demo_tree)" by code_simp
  moreover have "length (mp_path demo_proof) = 2" "mp_index demo_proof = 2" "length (mp_leaf demo_proof) = 32" by code_simp+
  moreover have "list_all (\<lambda>h. length h = 32) (mp_path demo_proof)" by code_simp
  ultimately show ?thesis using merkle_proofs_sound [of demo_hash 2 demo_tree demo_proof] by simp
qed

text \<open>Also: The depth of a proof and the range of its index are not checked: from an accepted proof, the inner node above
  the leaf is accepted as a leaf itself, and so is the same leaf under an index beyond the tree.\<close>

theorem inner_nodes_accepted:
  assumes "verify_merkle_proof sha p root" "mp_path p = x # path"
  shows "verify_merkle_proof sha \<lparr> mp_leaf = hash_pair sha (mp_index p) (mp_leaf p) x, mp_path = path, mp_index = mp_index p div 2 \<rparr> root
    \<and> verify_merkle_proof sha (p\<lparr> mp_index := mp_index p + k * 2 ^ length (mp_path p) \<rparr>) root"
  using assms merkle_root_index [of "mp_path p" "length (mp_path p)" sha "mp_index p" k]
  by (simp add: verify_merkle_proof_def)

lemma inner_nodes_accepted_witness:
  "verify_merkle_proof demo_hash (demo_proof\<lparr> mp_index := 6 \<rparr>) (tree_root demo_hash demo_tree)"
proof -
  have "verify_merkle_proof demo_hash demo_proof (tree_root demo_hash demo_tree)" by code_simp
  moreover have "mp_path demo_proof = hd (mp_path demo_proof) # tl (mp_path demo_proof)" by code_simp
  moreover have "length (mp_path demo_proof) = 2" "mp_index demo_proof = 2" by code_simp+
  ultimately show ?thesis using inner_nodes_accepted [of demo_hash demo_proof _ "hd (mp_path demo_proof)" "tl (mp_path demo_proof)" 1] by simp
qed

text \<open>Also: The books of the verifier: in every history the registered bridges are listed once, the commitments of a bridge
  are numbered from 1 to its latest sequence number without gaps, each is stored under its own bridge
  and number with non-negative reserves, and it has a challenger exactly when it was challenged.\<close>

theorem commitments_numbered:
  assumes "s = run (reserve_exec sha) reserve_start h"
  shows "distinct (get_registered_bridges s) \<and> set (get_registered_bridges s) = dom (bv_operators s)
    \<and> (get_commitment b n s \<noteq> None \<longleftrightarrow> 0 < n \<and> n \<le> get_latest_sequence b s)
    \<and> (case get_commitment b n s of None \<Rightarrow> True | Some c \<Rightarrow> commitment_ok b n c)"
proof -
  have "reserve_ok s" unfolding assms by (rule reserve.run_inv) (simp_all add: list_all_iff)
  then have ok: "distinct (get_registered_bridges s)" "set (get_registered_bridges s) = dom (bv_operators s)"
      "(b, n) \<in> dom (bv_commitments s) \<longleftrightarrow> 0 < n \<and> n \<le> get_latest_sequence b s"
      "\<And>c. bv_commitments s (b, n) = Some c \<Longrightarrow> commitment_ok b n c" by (simp_all add: reserve_ok_def)
  then show ?thesis by (auto simp: get_commitment_def domIff split: option.split)
qed

lemma commitments_numbered_witness:
  "get_latest_sequence ''br'' (run (reserve_exec demo_hash) reserve_start demo_reserve) = 2
   \<and> get_commitment ''br'' 2 (run (reserve_exec demo_hash) reserve_start demo_reserve) \<noteq> None"
proof -
  have "get_latest_sequence ''br'' (run (reserve_exec demo_hash) reserve_start demo_reserve) = 2" by code_simp
  then show ?thesis using commitments_numbered [OF refl, where sha = demo_hash and h = demo_reserve and b = "''br''" and n = 2] by simp
qed

text \<open>Also: A commitment never changes its root, reserves or time, its status only moves from pending to verified or over
  challenged to slashed or resolved, a settled commitment is final; the operator of a bridge is never
  replaced, its slashes are counted up and once inactive it stays so.\<close>

theorem commitments_move_forward:
  assumes "s = run (reserve_exec sha) reserve_start h" "get_commitment b n s = Some c" "bv_operators s b = Some x"
  shows "\<exists>c' y. get_commitment b n (run (reserve_exec sha) s h') = Some c' \<and> later_commitment c c'
    \<and> bv_operators (run (reserve_exec sha) s h') b = Some y \<and> later_operator x y"
proof -
  have "reserve_ok s" unfolding assms(1) by (rule reserve.run_inv) (simp_all add: list_all_iff)
  then have "reserve_later s (run (reserve_exec sha) s h')" by (rule reserve_history.run_rel)
  then show ?thesis using assms(2,3) unfolding reserve_later_def get_commitment_def by meson
qed

lemma commitments_move_forward_witness:
  "\<exists>c c'. get_commitment ''br'' 1 (run (reserve_exec demo_hash) reserve_start (take 5 demo_reserve)) = Some c
     \<and> get_commitment ''br'' 1 (run (reserve_exec demo_hash) (run (reserve_exec demo_hash) reserve_start (take 5 demo_reserve)) (drop 5 demo_reserve)) = Some c'
     \<and> later_commitment c c' \<and> rw_status c = CommitChallenged \<and> rw_status c' = CommitSlashed"
proof -
  let ?s = "run (reserve_exec demo_hash) reserve_start (take 5 demo_reserve)" and ?h = "drop 5 demo_reserve"
  have "map_option rw_status (get_commitment ''br'' 1 ?s) = Some CommitChallenged" by code_simp
  then obtain c where c: "get_commitment ''br'' 1 ?s = Some c" "rw_status c = CommitChallenged" by auto
  have "bv_operators ?s ''br'' \<noteq> None" by code_simp
  then obtain x where x: "bv_operators ?s ''br'' = Some x" by auto
  have "map_option rw_status (get_commitment ''br'' 1 (run (reserve_exec demo_hash) ?s ?h)) = Some CommitSlashed" by code_simp
  with commitments_move_forward [OF refl c(1) x, of ?h] c show ?thesis by force
qed

text \<open>Also: The fate of a pending commitment needs no evidence: within its challenge period any caller can have it challenged with
  an arbitrary leaf and an empty path, and after the period anyone, without authorisation, can have it
  verified by presenting its public root as the leaf of an empty path.\<close>

theorem commitment_fate_needs_no_proof:
  assumes "get_commitment b n s = Some c" "rw_status c = CommitPending" "bv_config s = Some cfg"
    "rw_committed_ledger c + rz_challenge_period cfg \<le> u32_max"
  shows "if ledger \<le> rw_committed_ledger c + rz_challenge_period cfg
    then leaf = rw_merkle_root c \<or> challenger \<notin> set (auths env)
      \<or> challenge_commitment sha env ledger b n challenger \<lparr> mp_leaf = leaf, mp_path = [], mp_index = 0 \<rparr> s
          = Inr (put_commitment b n (c\<lparr> rw_status := CommitChallenged, rw_challenger := Some challenger \<rparr>) s)
    else reserve_verify_proof sha ledger b n \<lparr> mp_leaf = rw_merkle_root c, mp_path = [], mp_index = 0 \<rparr> s
          = Inr (True, put_commitment b n (c\<lparr> rw_status := CommitVerified \<rparr>) s)"
  using assms by (auto simp: challenge_commitment_def reserve_verify_proof_def find_commitment_def get_commitment_def
      load_reserve_config_def u_checked_def verify_merkle_proof_def)

lemma commitment_fate_needs_no_proof_witness:
  "\<exists>s'. challenge_commitment demo_hash \<lparr> timestamp = 9, auths = [''X''] \<rparr> 105 ''br'' 2 ''X'' \<lparr> mp_leaf = [], mp_path = [], mp_index = 0 \<rparr>
     (run (reserve_exec demo_hash) reserve_start (take 4 demo_reserve)) = Inr s'"
proof -
  let ?s = "run (reserve_exec demo_hash) reserve_start (take 4 demo_reserve)"
  have "map_option (\<lambda>c. (rw_status c, rw_committed_ledger c, rw_merkle_root c = [])) (get_commitment ''br'' 2 ?s) = Some (CommitPending, 103, False)"
    "map_option rz_challenge_period (bv_config ?s) = Some 10" by code_simp+
  then obtain c cfg where c: "get_commitment ''br'' 2 ?s = Some c" "rw_status c = CommitPending" "bv_config ?s = Some cfg"
      "rw_committed_ledger c = 103" "rz_challenge_period cfg = 10" "rw_merkle_root c \<noteq> []" by auto
  with commitment_fate_needs_no_proof [OF c(1-3), of 105 "[]" "''X''" "\<lparr> timestamp = 9, auths = [''X''] \<rparr>" demo_hash]
  show ?thesis by (simp add: u32_max_def)
qed

end
