(* ===== verification/Alert_System.thy ===== *)
theory Alert_System
  imports Soroban
begin

text \<open>
  \<open>soroban/src/alert_system.rs\<close>: alert rules on the metrics of assets, with conditions joined by AND or
  OR, a cooldown, and a bounded list of the alerts per asset. The published events are not part of
  the state.
\<close>

section \<open>Data\<close>

datatype alert_type = PriceDeviation | SupplyMismatch | BridgeDowntime | HealthScoreDrop | VolumeAnomaly | ReserveRatioBreach

datatype compare_op = GreaterThan | LessThan | EqualTo

datatype condition_op = AndConditions | OrConditions

datatype alert_priority = CriticalAlert | HighAlert | MediumAlert | LowAlert

record alert_condition =
  an_metric :: string
  an_alert_type :: alert_type
  an_compare_op :: compare_op
  an_threshold :: int

record alert_rule =
  ak_rule_id :: nat
  ak_owner :: address
  ak_name :: string
  ak_asset_code :: string
  ak_conditions :: "alert_condition list"
  ak_condition_op :: condition_op
  ak_priority :: alert_priority
  ak_cooldown :: nat
  ak_is_active :: bool
  ak_created_at :: nat
  ak_last_triggered :: nat

record alert_event =
  ae_event_id :: nat
  ae_rule_id :: nat
  ae_asset_code :: string
  ae_alert_type :: alert_type
  ae_value :: int
  ae_threshold :: int
  ae_priority :: alert_priority
  ae_timestamp :: nat

type_synonym metric_value = "string \<times> int"

record alert_state =
  al_admin :: "address option"
  al_rules :: "nat \<rightharpoonup> alert_rule"
  al_user_rules :: "address \<rightharpoonup> nat list"
  al_asset_alerts :: "string \<rightharpoonup> alert_event list"
  al_rule_count :: "nat option"
  al_alert_count :: "nat option"

definition max_events_per_asset :: nat where "max_events_per_asset = 100"

type_synonym 'a alres = "(unit, 'a) res"

section \<open>Conditions\<close>

primrec find_metric :: "string \<Rightarrow> metric_value list \<Rightarrow> int" where
  "find_metric metric [] = 0"
| "find_metric metric (mv # mvs) = (if fst mv = metric then snd mv else find_metric metric mvs)"

definition compare_metric :: "alert_condition \<Rightarrow> int \<Rightarrow> bool" where
  "compare_metric c v = (case an_compare_op c of
     GreaterThan \<Rightarrow> an_threshold c < v | LessThan \<Rightarrow> v < an_threshold c | EqualTo \<Rightarrow> v = an_threshold c)"

text \<open>The loop over the conditions: whether the rule fires so far, and the value, threshold and type of the
  first condition that held, if any.\<close>

fun condition_loop ::
  "condition_op \<Rightarrow> metric_value list \<Rightarrow> alert_condition list \<Rightarrow> bool \<Rightarrow> (int \<times> int \<times> alert_type) option
     \<Rightarrow> bool \<times> (int \<times> int \<times> alert_type) option" where
  "condition_loop op metrics [] fires first = (fires, first)"
| "condition_loop op metrics (c # cs) fires first =
     (let v = find_metric (an_metric c) metrics;
          result = compare_metric c v;
          first' = (if result \<and> first = None then Some (v, an_threshold c, an_alert_type c) else first);
          fires' = (case op of AndConditions \<Rightarrow> fires \<and> result | OrConditions \<Rightarrow> fires \<or> result)
      in condition_loop op metrics cs fires' first')"

definition evaluate_conditions :: "alert_rule \<Rightarrow> metric_value list \<Rightarrow> bool \<times> int \<times> int \<times> alert_type" where
  "evaluate_conditions r metrics =
     (if length (ak_conditions r) = 0 then (False, 0, 0, PriceDeviation)
      else let (fires, first) = condition_loop (ak_condition_op r) metrics (ak_conditions r)
                 (case ak_condition_op r of AndConditions \<Rightarrow> True | OrConditions \<Rightarrow> False) None
           in (fires, unwrap_or first (0, 0, PriceDeviation)))"

section \<open>Operations\<close>

definition alert_initialize :: "env \<Rightarrow> address \<Rightarrow> alert_state \<Rightarrow> alert_state alres" where
  "alert_initialize env admin s =
     and_then (require_auth env admin) (\<lambda>_.
     Inr (s\<lparr> al_admin := Some admin, al_rule_count := Some 0, al_alert_count := Some 0 \<rparr>))"

definition get_rule_count :: "alert_state \<Rightarrow> nat" where
  "get_rule_count s = unwrap_or (al_rule_count s) 0"

definition get_alert_count :: "alert_state \<Rightarrow> nat" where
  "get_alert_count s = unwrap_or (al_alert_count s) 0"

definition get_user_rules :: "address \<Rightarrow> alert_state \<Rightarrow> nat list" where
  "get_user_rules owner s = unwrap_or (al_user_rules s owner) []"

definition get_asset_alerts :: "string \<Rightarrow> alert_state \<Rightarrow> alert_event list" where
  "get_asset_alerts code s = unwrap_or (al_asset_alerts s code) []"

definition get_rule :: "nat \<Rightarrow> alert_state \<Rightarrow> alert_rule option" where
  "get_rule i s = al_rules s i"

definition register_rule ::
  "env \<Rightarrow> address \<Rightarrow> string \<Rightarrow> string \<Rightarrow> alert_condition list \<Rightarrow> condition_op \<Rightarrow> alert_priority \<Rightarrow> nat
     \<Rightarrow> alert_state \<Rightarrow> (nat \<times> alert_state) alres" where
  "register_rule env owner name code conditions op priority cooldown s =
     and_then (require_auth env owner) (\<lambda>_.
     and_then (add_u64 (get_rule_count s) 1) (\<lambda>i.
       let r = \<lparr> ak_rule_id = i, ak_owner = owner, ak_name = name, ak_asset_code = code, ak_conditions = conditions,
                 ak_condition_op = op, ak_priority = priority, ak_cooldown = cooldown, ak_is_active = True,
                 ak_created_at = timestamp env, ak_last_triggered = 0 \<rparr>
       in Inr (i, s\<lparr> al_rules := (al_rules s)(i \<mapsto> r),
                     al_user_rules := (al_user_rules s)(owner \<mapsto> get_user_rules owner s @ [i]),
                     al_rule_count := Some i \<rparr>)))"

definition update_rule ::
  "env \<Rightarrow> nat \<Rightarrow> string \<Rightarrow> alert_condition list \<Rightarrow> condition_op \<Rightarrow> alert_priority \<Rightarrow> nat \<Rightarrow> alert_state \<Rightarrow> alert_state alres" where
  "update_rule env i name conditions op priority cooldown s =
     and_then (unwrap (al_rules s i)) (\<lambda>r.
     and_then (require_auth env (ak_owner r)) (\<lambda>_.
     Inr (s\<lparr> al_rules := (al_rules s)(i \<mapsto> r\<lparr> ak_name := name, ak_conditions := conditions, ak_condition_op := op,
            ak_priority := priority, ak_cooldown := cooldown \<rparr>) \<rparr>)))"

definition set_rule_active :: "env \<Rightarrow> nat \<Rightarrow> bool \<Rightarrow> alert_state \<Rightarrow> alert_state alres" where
  "set_rule_active env i is_active s =
     and_then (unwrap (al_rules s i)) (\<lambda>r.
     and_then (unwrap (al_admin s)) (\<lambda>admin.
       let caller_is_admin = (ak_owner r = admin) in
     and_then (if \<not> caller_is_admin then require_auth env (ak_owner r) else require_auth env admin) (\<lambda>_.
     Inr (s\<lparr> al_rules := (al_rules s)(i \<mapsto> r\<lparr> ak_is_active := is_active \<rparr>) \<rparr>))))"

text \<open>Whether the cooldown of a rule lets it fire: the sum is only computed, and can only trap, for a rule
  with a cooldown that has fired before.\<close>

definition cooling_down :: "nat \<Rightarrow> alert_rule \<Rightarrow> bool alres" where
  "cooling_down now r =
     (if 0 < ak_cooldown r \<and> 0 < ak_last_triggered r
      then and_then (add_u64 (ak_last_triggered r) (ak_cooldown r)) (\<lambda>until. Inr (now < until))
      else Inr False)"

definition push_alert :: "alert_event \<Rightarrow> alert_event list \<Rightarrow> alert_event list" where
  "push_alert e h = (if max_events_per_asset \<le> length h then tl h else h) @ [e]"

text \<open>One rule of the evaluation: the state of the loop is the list of triggered events, the counter and the
  contract's state.\<close>

definition evaluate_rule ::
  "env \<Rightarrow> string \<Rightarrow> metric_value list \<Rightarrow> nat \<Rightarrow> alert_event list \<times> nat \<times> alert_state
     \<Rightarrow> (alert_event list \<times> nat \<times> alert_state) alres" where
  "evaluate_rule env code metrics i = (\<lambda>(triggered, n, s).
     case al_rules s i of
       None \<Rightarrow> Inr (triggered, n, s)
     | Some r \<Rightarrow>
         if \<not> ak_is_active r then Inr (triggered, n, s)
         else if ak_asset_code r \<noteq> code then Inr (triggered, n, s)
         else and_then (cooling_down (timestamp env) r) (\<lambda>cool.
           if cool then Inr (triggered, n, s)
           else let (fires, v, threshold, ty) = evaluate_conditions r metrics in
             if fires
             then and_then (add_u64 n 1) (\<lambda>n'.
               let e = \<lparr> ae_event_id = n', ae_rule_id = ak_rule_id r, ae_asset_code = code, ae_alert_type = ty,
                         ae_value = v, ae_threshold = threshold, ae_priority = ak_priority r, ae_timestamp = timestamp env \<rparr>;
                   s1 = s\<lparr> al_asset_alerts := (al_asset_alerts s)(code \<mapsto> push_alert e (get_asset_alerts code s)) \<rparr>
               in and_then (unwrap (al_rules s1 (ak_rule_id r))) (\<lambda>r1.
                  Inr (triggered @ [e], n',
                       s1\<lparr> al_rules := (al_rules s1)(ak_rule_id r \<mapsto> r1\<lparr> ak_last_triggered := timestamp env \<rparr>) \<rparr>)))
             else Inr (triggered, n, s)))"

fun evaluate_rules ::
  "env \<Rightarrow> string \<Rightarrow> metric_value list \<Rightarrow> nat list \<Rightarrow> alert_event list \<times> nat \<times> alert_state
     \<Rightarrow> (alert_event list \<times> nat \<times> alert_state) alres" where
  "evaluate_rules env code metrics [] st = Inr st"
| "evaluate_rules env code metrics (i # is) st =
     and_then (evaluate_rule env code metrics i st) (evaluate_rules env code metrics is)"

definition evaluate_asset_internal ::
  "env \<Rightarrow> string \<Rightarrow> metric_value list \<Rightarrow> alert_state \<Rightarrow> (alert_event list \<times> alert_state) alres" where
  "evaluate_asset_internal env code metrics s =
     and_then (evaluate_rules env code metrics [1..<Suc (get_rule_count s)] ([], get_alert_count s, s)) (\<lambda>(triggered, n, s1).
     Inr (triggered, s1\<lparr> al_alert_count := Some n \<rparr>))"

definition evaluate_asset ::
  "env \<Rightarrow> string \<Rightarrow> metric_value list \<Rightarrow> alert_state \<Rightarrow> (alert_event list \<times> alert_state) alres" where
  "evaluate_asset env code metrics s =
     and_then (unwrap (al_admin s)) (\<lambda>admin.
     and_then (require_auth env admin) (\<lambda>_.
     and_then (evaluate_rules env code metrics [1..<Suc (get_rule_count s)] ([], get_alert_count s, s)) (\<lambda>(triggered, n, s1).
     Inr (triggered, s1\<lparr> al_alert_count := Some n \<rparr>))))"

fun batch_assets ::
  "env \<Rightarrow> (string \<times> metric_value list) list \<Rightarrow> alert_event list \<Rightarrow> alert_state \<Rightarrow> (alert_event list \<times> alert_state) alres" where
  "batch_assets env [] all_events s = Inr (all_events, s)"
| "batch_assets env (p # ps) all_events s =
     and_then (evaluate_asset_internal env (fst p) (snd p) s) (\<lambda>(events, s1). batch_assets env ps (all_events @ events) s1)"

definition batch_evaluate ::
  "env \<Rightarrow> (string \<times> metric_value list) list \<Rightarrow> alert_state \<Rightarrow> (alert_event list \<times> alert_state) alres" where
  "batch_evaluate env ps s =
     and_then (unwrap (al_admin s)) (\<lambda>admin.
     and_then (require_auth env admin) (\<lambda>_. batch_assets env ps [] s))"

section \<open>Histories\<close>

datatype alert_call =
    AlInitialize address
  | AlRegister address string string "alert_condition list" condition_op alert_priority nat
  | AlUpdate nat string "alert_condition list" condition_op alert_priority nat
  | AlActive nat bool
  | AlEvaluate string "metric_value list"
  | AlBatch "(string \<times> metric_value list) list"

fun alert_exec :: "env \<Rightarrow> alert_call \<Rightarrow> alert_state \<Rightarrow> alert_state alres" where
  "alert_exec env (AlInitialize a) s = alert_initialize env a s"
| "alert_exec env (AlRegister a n k c x p d) s = state_of (register_rule env a n k c x p d s)"
| "alert_exec env (AlUpdate i n c x p d) s = update_rule env i n c x p d s"
| "alert_exec env (AlActive i b) s = set_rule_active env i b s"
| "alert_exec env (AlEvaluate k ms) s = state_of (evaluate_asset env k ms s)"
| "alert_exec env (AlBatch ps) s = state_of (batch_evaluate env ps s)"

definition alert_start :: alert_state where
  "alert_start = \<lparr> al_admin = None, al_rules = Map.empty, al_user_rules = Map.empty, al_asset_alerts = Map.empty,
     al_rule_count = None, al_alert_count = None \<rparr>"

text \<open>The histories of a deployment: \<open>initialize\<close> is called once, first.\<close>

definition alert_deployed :: "alert_state \<Rightarrow> bool" where
  "alert_deployed s \<longleftrightarrow> (\<exists>env a. alert_initialize env a alert_start = Inr s)"

definition alert_allowed :: "alert_call \<Rightarrow> bool" where
  "alert_allowed c = (case c of AlInitialize a \<Rightarrow> False | _ \<Rightarrow> True)"

section \<open>Conditions: what the loop computes\<close>

definition condition_holds :: "metric_value list \<Rightarrow> alert_condition \<Rightarrow> bool" where
  "condition_holds metrics c = compare_metric c (find_metric (an_metric c) metrics)"

lemma condition_loop_is:
  "condition_loop op metrics cs fires first =
     ((case op of AndConditions \<Rightarrow> fires \<and> list_all (condition_holds metrics) cs | OrConditions \<Rightarrow> fires \<or> list_ex (condition_holds metrics) cs),
      (case first of Some x \<Rightarrow> Some x | None \<Rightarrow>
         map_option (\<lambda>c. (find_metric (an_metric c) metrics, an_threshold c, an_alert_type c)) (List.find (condition_holds metrics) cs)))"
  by (induction cs arbitrary: fires first) (auto simp: condition_holds_def Let_def split: condition_op.splits option.splits)

definition fires_on :: "metric_value list \<Rightarrow> alert_rule \<Rightarrow> bool" where
  "fires_on metrics r \<longleftrightarrow> ak_conditions r \<noteq> [] \<and>
     (case ak_condition_op r of AndConditions \<Rightarrow> list_all (condition_holds metrics) (ak_conditions r)
      | OrConditions \<Rightarrow> list_ex (condition_holds metrics) (ak_conditions r))"

lemma evaluate_conditions_fst: "fst (evaluate_conditions r metrics) = fires_on metrics r"
  by (auto simp: evaluate_conditions_def fires_on_def condition_loop_is split: condition_op.split)

section \<open>Evaluation: what the loop over the rules computes\<close>

text \<open>A rule is due when it is active, of the asset, not cooling down, and its conditions fire.\<close>

definition rule_due :: "nat \<Rightarrow> string \<Rightarrow> metric_value list \<Rightarrow> alert_state \<Rightarrow> nat \<Rightarrow> bool" where
  "rule_due now code metrics s i = (case al_rules s i of None \<Rightarrow> False | Some r \<Rightarrow>
     ak_is_active r \<and> ak_asset_code r = code
     \<and> (ak_cooldown r = 0 \<or> ak_last_triggered r = 0 \<or> ak_last_triggered r + ak_cooldown r \<le> now) \<and> fires_on metrics r)"

definition rules_ok :: "alert_state \<Rightarrow> bool" where
  "rules_ok s \<longleftrightarrow> (\<forall>i r. al_rules s i = Some r \<longrightarrow> ak_rule_id r = i)"

text \<open>One step of the loop: a due rule adds its event, any other rule adds nothing.\<close>

definition event_of :: "nat \<Rightarrow> string \<Rightarrow> metric_value list \<Rightarrow> nat \<Rightarrow> alert_rule \<Rightarrow> alert_event" where
  "event_of now code metrics n r =
     (let (_, v, threshold, ty) = evaluate_conditions r metrics
      in \<lparr> ae_event_id = n, ae_rule_id = ak_rule_id r, ae_asset_code = code, ae_alert_type = ty, ae_value = v,
           ae_threshold = threshold, ae_priority = ak_priority r, ae_timestamp = now \<rparr>)"

lemma evaluate_rule_is:
  assumes "rules_ok s" "evaluate_rule env code metrics i (tr, n, s) = Inr st"
  shows "st = (if rule_due (timestamp env) code metrics s i
    then let r = the (al_rules s i); e = event_of (timestamp env) code metrics (Suc n) r
         in (tr @ [e], Suc n, s\<lparr> al_asset_alerts := (al_asset_alerts s)(code \<mapsto> push_alert e (get_asset_alerts code s)),
               al_rules := (al_rules s)(i \<mapsto> r\<lparr> ak_last_triggered := timestamp env \<rparr>) \<rparr>)
    else (tr, n, s))"
proof (cases "al_rules s i")
  case None
  then show ?thesis using assms(2) by (simp add: evaluate_rule_def rule_due_def)
next
  case (Some r)
  have i: "ak_rule_id r = i" using assms(1) Some by (simp add: rules_ok_def)
  obtain f v k ty where ev: "evaluate_conditions r metrics = (f, v, k, ty)" by (cases "evaluate_conditions r metrics")
  have f: "fires_on metrics r = f" using evaluate_conditions_fst [of r metrics] by (simp add: ev)
  show ?thesis using assms(2)
    by (auto simp: evaluate_rule_def rule_due_def Some i ev f cooling_down_def event_of_def Let_def get_asset_alerts_def split: if_splits)
qed

fun events_for :: "nat \<Rightarrow> string \<Rightarrow> metric_value list \<Rightarrow> alert_state \<Rightarrow> nat \<Rightarrow> nat list \<Rightarrow> alert_event list" where
  "events_for now code metrics s n [] = []"
| "events_for now code metrics s n (i # is) =
     (if rule_due now code metrics s i
      then event_of now code metrics (Suc n) (the (al_rules s i)) # events_for now code metrics s (Suc n) is
      else events_for now code metrics s n is)"

lemma events_for_cong:
  "(\<And>i. i \<in> set is \<Longrightarrow> al_rules t i = al_rules s i) \<Longrightarrow> events_for now code metrics t n is = events_for now code metrics s n is"
  by (induction "is" arbitrary: n) (simp_all add: rule_due_def)

lemma event_of_fields [simp]:
  "ae_event_id (event_of now code metrics n r) = n" "ae_rule_id (event_of now code metrics n r) = ak_rule_id r"
  "ae_asset_code (event_of now code metrics n r) = code" "ae_timestamp (event_of now code metrics n r) = now"
  by (simp_all add: event_of_def Let_def split: prod.split)

lemma due_Some: "rule_due now code metrics s i \<Longrightarrow> \<exists>r. al_rules s i = Some r"
  by (simp add: rule_due_def split: option.splits)

lemma events_for_rules: "rules_ok s \<Longrightarrow> map ae_rule_id (events_for now code metrics s n is) = filter (rule_due now code metrics s) is"
  by (induction "is" arbitrary: n) (auto simp: rules_ok_def dest!: due_Some)

lemma events_for_length: "length (events_for now code metrics s n is) = length (filter (rule_due now code metrics s) is)"
  by (induction "is" arbitrary: n) simp_all

lemma events_for_ids: "map ae_event_id (events_for now code metrics s n is) = [Suc n..<Suc n + length (events_for now code metrics s n is)]"
proof (induction "is" arbitrary: n)
  case (Cons i "is")
  then show ?case by (cases "rule_due now code metrics s i") (simp_all add: upt_conv_Cons del: upt_Suc)
qed simp

lemma events_for_asset: "e \<in> set (events_for now code metrics s n is) \<Longrightarrow> ae_asset_code e = code \<and> ae_timestamp e = now"
  by (induction "is" arbitrary: n) (auto split: if_splits)

text \<open>The state after the loop.\<close>

definition alerts_after :: "nat \<Rightarrow> string \<Rightarrow> nat list \<Rightarrow> alert_event list \<Rightarrow> alert_state \<Rightarrow> alert_state \<Rightarrow> bool" where
  "alerts_after now code due es s s' \<longleftrightarrow>
     (\<forall>i. al_rules s' i = (if i \<in> set due then map_option (\<lambda>r. r\<lparr> ak_last_triggered := now \<rparr>) (al_rules s i) else al_rules s i))
     \<and> get_asset_alerts code s' = foldl (\<lambda>h e. push_alert e h) (get_asset_alerts code s) es
     \<and> (\<forall>k. k \<noteq> code \<longrightarrow> get_asset_alerts k s' = get_asset_alerts k s)
     \<and> al_admin s' = al_admin s \<and> al_user_rules s' = al_user_rules s \<and> al_rule_count s' = al_rule_count s
     \<and> al_alert_count s' = al_alert_count s"

lemma evaluate_rules_is:
  "rules_ok s \<Longrightarrow> distinct is \<Longrightarrow> evaluate_rules env code metrics is (tr, n, s) = Inr (tr', n', s') \<Longrightarrow>
     (let es = events_for (timestamp env) code metrics s n is in
      tr' = tr @ es \<and> n' = n + length es
      \<and> alerts_after (timestamp env) code (filter (rule_due (timestamp env) code metrics s) is) es s s')"
proof (induction "is" arbitrary: tr n s)
  case (Cons i "is")
  then obtain st where st: "evaluate_rule env code metrics i (tr, n, s) = Inr st" "evaluate_rules env code metrics is st = Inr (tr', n', s')"
    by auto
  let ?now = "timestamp env"
  show ?case
  proof (cases "rule_due ?now code metrics s i")
    case False
    then have "st = (tr, n, s)" using evaluate_rule_is [OF Cons.prems(1) st(1)] by simp
    then show ?thesis using Cons.IH [of s tr n] Cons.prems st(2) False by simp
  next
    case True
    define r where "r = the (al_rules s i)"
    define e where "e = event_of ?now code metrics (Suc n) r"
    define s1 where "s1 = s\<lparr> al_asset_alerts := (al_asset_alerts s)(code \<mapsto> push_alert e (get_asset_alerts code s)),
               al_rules := (al_rules s)(i \<mapsto> r\<lparr> ak_last_triggered := ?now \<rparr>) \<rparr>"
    have r: "al_rules s i = Some r" using due_Some [OF True] by (auto simp: r_def)
    have st1: "st = (tr @ [e], Suc n, s1)"
      using evaluate_rule_is [OF Cons.prems(1) st(1)] True by (simp add: Let_def r_def e_def s1_def)
    have ok: "rules_ok s1" using Cons.prems(1) r by (auto simp: rules_ok_def s1_def)
    have same: "al_rules s1 j = al_rules s j" if "j \<in> set is" for j using that Cons.prems(2) by (auto simp: s1_def)
    have ev: "events_for ?now code metrics s1 m is = events_for ?now code metrics s m is" for m
      by (rule events_for_cong) (rule same)
    have due: "filter (rule_due ?now code metrics s1) is = filter (rule_due ?now code metrics s) is"
      by (rule filter_cong) (simp_all add: rule_due_def same)
    have al: "get_asset_alerts k s1 = (if k = code then push_alert e (get_asset_alerts code s) else get_asset_alerts k s)" for k
      by (simp add: get_asset_alerts_def s1_def)
    have "evaluate_rules env code metrics is (tr @ [e], Suc n, s1) = Inr (tr', n', s')" using st(2) st1 by simp
    from Cons.IH [OF ok _ this] Cons.prems(2)
    have "tr' = (tr @ [e]) @ events_for ?now code metrics s (Suc n) is" "n' = Suc n + length (events_for ?now code metrics s (Suc n) is)"
      "alerts_after ?now code (filter (rule_due ?now code metrics s) is) (events_for ?now code metrics s (Suc n) is) s1 s'"
      by (simp_all add: Let_def ev due)
    then show ?thesis using True r Cons.prems(2)
      by (simp add: Let_def alerts_after_def al e_def [symmetric] r_def [symmetric]) (simp add: s1_def)
  qed
qed (simp add: alerts_after_def)

text \<open>The bounded list is the last hundred of all alerts.\<close>

lemma push_alerts:
  "length h \<le> 100 \<Longrightarrow> foldl (\<lambda>h e. push_alert e h) h es = drop (length (h @ es) - 100) (h @ es)"
proof (induction es arbitrary: h)
  case (Cons e es)
  define g where "g = push_alert e h"
  have g: "length g \<le> 100" "length g = min 100 (Suc (length h))" "g = drop (Suc (length h) - 100) (h @ [e])"
    using Cons.prems by (cases h; auto simp: g_def push_alert_def max_events_per_asset_def)+
  have "foldl (\<lambda>h e. push_alert e h) h (e # es) = drop (length (g @ es) - 100) (g @ es)" using Cons.IH [OF g(1)] by (simp add: g_def)
  also have "\<dots> = drop (length (h @ e # es) - 100) (h @ e # es)"
  proof (cases "length h = 100")
    case True
    then obtain x t where h: "h = x # t" by (cases h) auto
    then have "g = t @ [e]" using True by (simp add: g(3))
    then show ?thesis using True h by simp
  next
    case False
    then have "g = h @ [e]" using Cons.prems by (simp add: g(3))
    then show ?thesis by simp
  qed
  finally show ?case .
qed simp

section \<open>The invariant\<close>

definition alerts_listed :: "alert_state \<Rightarrow> string \<Rightarrow> bool" where
  "alerts_listed s code \<longleftrightarrow> length (get_asset_alerts code s) \<le> 100
     \<and> sorted_wrt (<) (map ae_event_id (get_asset_alerts code s))
     \<and> (\<forall>e\<in>set (get_asset_alerts code s). ae_event_id e \<le> get_alert_count s \<and> ae_asset_code e = code)"

definition owner_of :: "alert_state \<Rightarrow> nat \<Rightarrow> address option" where
  "owner_of s i = map_option ak_owner (al_rules s i)"

definition alert_ok :: "alert_state \<Rightarrow> bool" where
  "alert_ok s \<longleftrightarrow> rules_ok s \<and> dom (al_rules s) = {1..get_rule_count s}
     \<and> (\<forall>a. get_user_rules a s = filter (\<lambda>i. owner_of s i = Some a) [1..<Suc (get_rule_count s)])
     \<and> (\<forall>code. alerts_listed s code)"

lemma alerts_listed_push:
  assumes "alerts_listed s code" "map ae_event_id es = [Suc (get_alert_count s)..<Suc (get_alert_count s) + length es]"
    "\<forall>e\<in>set es. ae_asset_code e = code"
    "get_asset_alerts code s' = foldl (\<lambda>h e. push_alert e h) (get_asset_alerts code s) es"
    "get_alert_count s' = get_alert_count s + length es"
  shows "alerts_listed s' code"
proof -
  let ?h = "get_asset_alerts code s" and ?n = "get_alert_count s"
  have h: "length ?h \<le> 100" "sorted_wrt (<) (map ae_event_id ?h)" "\<forall>e\<in>set ?h. ae_event_id e \<le> ?n \<and> ae_asset_code e = code"
    using assms(1) by (simp_all add: alerts_listed_def)
  have eq: "get_asset_alerts code s' = drop (length (?h @ es) - 100) (?h @ es)" unfolding assms(4) by (rule push_alerts [OF h(1)])
  have ids: "ae_event_id e \<in> {Suc ?n..<Suc ?n + length es}" if "e \<in> set es" for e
    using that assms(2) by (metis image_eqI set_map set_upt)
  have "sorted_wrt (<) (map ae_event_id (?h @ es))"
    using h(2,3) ids assms(2) by (fastforce simp: sorted_wrt_append simp del: upt_Suc)
  then have "sorted_wrt (<) (map ae_event_id (get_asset_alerts code s'))" unfolding eq drop_map [symmetric] by (rule sorted_wrt_drop)
  moreover have "\<forall>e\<in>set (?h @ es). ae_event_id e \<le> ?n + length es \<and> ae_asset_code e = code" using h(3) ids assms(3) by force
  moreover have "set (get_asset_alerts code s') \<subseteq> set (?h @ es)" unfolding eq by (rule set_drop_subset)
  moreover have "length (get_asset_alerts code s') \<le> 100" unfolding eq length_drop by simp
  ultimately show ?thesis unfolding alerts_listed_def assms(5) by blast
qed

lemma alert_ok_rules:
  assumes "alert_ok s" "\<And>i. map_option (\<lambda>r. (ak_rule_id r, ak_owner r)) (al_rules s' i) = map_option (\<lambda>r. (ak_rule_id r, ak_owner r)) (al_rules s i)"
    "al_user_rules s' = al_user_rules s" "al_rule_count s' = al_rule_count s" "\<And>code. alerts_listed s' code"
  shows "alert_ok s'"
proof -
  have c: "get_rule_count s' = get_rule_count s" by (simp add: get_rule_count_def assms(4))
  have o: "owner_of s' i = owner_of s i" for i
    using arg_cong [OF assms(2) [of i], where f = "map_option snd"] by (simp add: owner_of_def option.map_comp comp_def)
  have d: "al_rules s' i = None \<longleftrightarrow> al_rules s i = None" for i
    using assms(2) [of i] by (cases "al_rules s' i"; cases "al_rules s i") simp_all
  have "dom (al_rules s') = dom (al_rules s)" unfolding dom_def using d by simp
  moreover have "rules_ok s'"
  proof (unfold rules_ok_def, intro allI impI)
    fix i r assume r: "al_rules s' i = Some r"
    then obtain r0 where "al_rules s i = Some r0" "ak_rule_id r0 = ak_rule_id r" using assms(2) [of i] by (cases "al_rules s i") auto
    then show "ak_rule_id r = i" using assms(1) unfolding alert_ok_def rules_ok_def by metis
  qed
  moreover have "get_user_rules a s' = get_user_rules a s" for a by (simp add: get_user_rules_def assms(3))
  moreover have "\<forall>code. alerts_listed s' code" using assms(5) by blast
  ultimately show ?thesis using assms(1) unfolding alert_ok_def c o by simp
qed

lemma evaluate_internal_ok:
  assumes "alert_ok s" "evaluate_asset_internal env code metrics s = Inr (es, s')"
  shows "alert_ok s' \<and> es = events_for (timestamp env) code metrics s (get_alert_count s) [1..<Suc (get_rule_count s)]
    \<and> get_alert_count s' = get_alert_count s + length es
    \<and> get_asset_alerts code s' = drop (length (get_asset_alerts code s @ es) - 100) (get_asset_alerts code s @ es)
    \<and> (\<forall>i. al_rules s' i = (if i \<in> set (map ae_rule_id es) then map_option (\<lambda>r. r\<lparr> ak_last_triggered := timestamp env \<rparr>) (al_rules s i) else al_rules s i))
    \<and> al_admin s' = al_admin s"
proof -
  let ?is = "[1..<Suc (get_rule_count s)]"
  obtain n s1 where n: "evaluate_rules env code metrics ?is ([], get_alert_count s, s) = Inr (es, n, s1)" "s' = s1\<lparr> al_alert_count := Some n \<rparr>"
    using assms(2) by (auto simp: evaluate_asset_internal_def simp del: upt_Suc)
  have ok: "rules_ok s" using assms(1) by (simp add: alert_ok_def)
  from evaluate_rules_is [OF ok _ n(1)]
  have es: "es = events_for (timestamp env) code metrics s (get_alert_count s) ?is" "n = get_alert_count s + length es"
    and after: "alerts_after (timestamp env) code (filter (rule_due (timestamp env) code metrics s) ?is) es s s1"
    by (simp_all add: Let_def del: upt_Suc)
  have ids: "map ae_event_id es = [Suc (get_alert_count s)..<Suc (get_alert_count s) + length es]"
    unfolding es(1) by (rule events_for_ids)
  have count: "get_alert_count s' = get_alert_count s + length es" by (simp add: n(2) get_alert_count_def es(2) [unfolded get_alert_count_def])
  have listed: "alerts_listed s k" for k using assms(1) by (simp add: alert_ok_def)
  have alerts: "get_asset_alerts k s' = get_asset_alerts k s1" for k by (simp add: n(2) get_asset_alerts_def)
  have "alerts_listed s' k" for k
  proof (cases "k = code")
    case True
    then show ?thesis using after alerts_listed_push [OF listed ids _ _ count] events_for_asset
      by (simp add: alerts alerts_after_def es(1) del: upt_Suc)
  next
    case False
    then show ?thesis using listed [of k] after count by (auto simp: alerts_listed_def alerts alerts_after_def)
  qed
  moreover have rules: "al_rules s' i = (if i \<in> set (filter (rule_due (timestamp env) code metrics s) ?is)
      then map_option (\<lambda>r. r\<lparr> ak_last_triggered := timestamp env \<rparr>) (al_rules s i) else al_rules s i)" for i
    using after by (simp add: alerts_after_def n(2) del: upt_Suc set_filter)
  then have "map_option (\<lambda>r. (ak_rule_id r, ak_owner r)) (al_rules s' i) = map_option (\<lambda>r. (ak_rule_id r, ak_owner r)) (al_rules s i)" for i
    by (cases "al_rules s i") (simp_all del: upt_Suc set_filter)
  moreover have "al_user_rules s' = al_user_rules s" "al_rule_count s' = al_rule_count s" "al_admin s' = al_admin s"
    using after by (simp_all add: alerts_after_def n(2))
  ultimately have "alert_ok s'" by (intro alert_ok_rules [OF assms(1)])
  moreover have "length (get_asset_alerts code s) \<le> 100" using listed [of code] by (simp add: alerts_listed_def)
  then have "get_asset_alerts code s' = drop (length (get_asset_alerts code s @ es) - 100) (get_asset_alerts code s @ es)"
    using after push_alerts by (simp add: alerts alerts_after_def)
  moreover have "map ae_rule_id es = filter (rule_due (timestamp env) code metrics s) ?is"
    unfolding es(1) by (rule events_for_rules [OF ok])
  ultimately show ?thesis using es(1) count rules \<open>al_admin s' = al_admin s\<close> by metis
qed

lemma evaluate_asset_eq:
  "evaluate_asset env code metrics s =
     and_then (unwrap (al_admin s)) (\<lambda>admin. and_then (require_auth env admin) (\<lambda>_. evaluate_asset_internal env code metrics s))"
  by (simp add: evaluate_asset_def evaluate_asset_internal_def)

lemma batch_assets_ok:
  "alert_ok s \<Longrightarrow> batch_assets env ps es s = Inr (es', s') \<Longrightarrow> alert_ok s' \<and> al_admin s' = al_admin s"
proof (induction ps arbitrary: es s)
  case (Cons p ps)
  then obtain e1 s1 where s1: "evaluate_asset_internal env (fst p) (snd p) s = Inr (e1, s1)" "batch_assets env ps (es @ e1) s1 = Inr (es', s')"
    by auto
  with Cons.IH [OF _ s1(2)] evaluate_internal_ok [OF Cons.prems(1) s1(1)] show ?case by simp
qed simp

lemma register_rule_ok:
  assumes "alert_ok s" "register_rule env a n k c x p d s = Inr (i, s')"
  shows "alert_ok s'"
proof -
  define r where "r = \<lparr> ak_rule_id = i, ak_owner = a, ak_name = n, ak_asset_code = k, ak_conditions = c,
                 ak_condition_op = x, ak_priority = p, ak_cooldown = d, ak_is_active = True,
                 ak_created_at = timestamp env, ak_last_triggered = 0 \<rparr>"
  have i: "i = Suc (get_rule_count s)"
    and s': "s' = s\<lparr> al_rules := (al_rules s)(i \<mapsto> r), al_user_rules := (al_user_rules s)(a \<mapsto> get_user_rules a s @ [i]), al_rule_count := Some i \<rparr>"
    using assms(2) by (auto simp: register_rule_def Let_def r_def)
  have ok: "rules_ok s" "dom (al_rules s) = {1..get_rule_count s}"
      "get_user_rules b s = filter (\<lambda>j. owner_of s j = Some b) [1..<Suc (get_rule_count s)]" "alerts_listed s code" for b code
    using assms(1) by (simp_all add: alert_ok_def del: upt_Suc)
  have count: "get_rule_count s' = i" by (simp add: get_rule_count_def s')
  have own: "owner_of s' j = (if j = i then Some a else owner_of s j)" for j by (simp add: owner_of_def s' r_def)
  have same: "filter (\<lambda>j. owner_of s' j = Some b) [1..<i] = filter (\<lambda>j. owner_of s j = Some b) [1..<i]" for b
    by (rule filter_cong) (auto simp: own)
  have upt: "[1..<Suc i] = [1..<i] @ [i]" by (simp add: i)
  have "get_user_rules b s' = get_user_rules b s @ (if b = a then [i] else [])" for b by (simp add: get_user_rules_def s')
  then have "get_user_rules b s' = filter (\<lambda>j. owner_of s' j = Some b) [1..<Suc (get_rule_count s')]" for b
    using ok(3) [of b, folded i] unfolding count upt filter_append same by (simp add: own)
  moreover have "rules_ok s'" using ok(1) by (simp add: rules_ok_def s' r_def)
  moreover have "dom (al_rules s') = {1..get_rule_count s'}" unfolding count using ok(2) by (auto simp: s' i)
  moreover have "alerts_listed s' code" for code
    using ok(4) [of code] by (simp add: alerts_listed_def get_asset_alerts_def get_alert_count_def s')
  ultimately show ?thesis by (simp add: alert_ok_def)
qed

lemma alerts_listed_cong: "al_asset_alerts t = al_asset_alerts s \<Longrightarrow> al_alert_count t = al_alert_count s \<Longrightarrow> alerts_listed t code = alerts_listed s code"
  by (simp add: alerts_listed_def get_asset_alerts_def get_alert_count_def)

lemma alert_exec_ok:
  assumes "alert_ok s" "alert_allowed c" "alert_exec env c s = Inr s'"
  shows "alert_ok s'"
proof (cases c)
  case (AlRegister a n k c x p d)
  then show ?thesis using assms register_rule_ok by auto
next
  case (AlUpdate i n c x p d)
  then show ?thesis using assms(1,3)
    by (auto simp: update_rule_def alert_ok_def [of s] intro!: alert_ok_rules [OF assms(1)] cong: alerts_listed_cong)
next
  case (AlActive i b)
  then show ?thesis using assms(1,3)
    by (auto simp: set_rule_active_def alert_ok_def [of s] Let_def intro!: alert_ok_rules [OF assms(1)] cong: alerts_listed_cong)
next
  case (AlEvaluate k ms)
  then show ?thesis using assms(1,3) evaluate_internal_ok by (auto simp: evaluate_asset_eq)
next
  case (AlBatch ps)
  then show ?thesis using assms(1,3) batch_assets_ok by (auto simp: batch_evaluate_def)
qed (use assms in \<open>auto simp: alert_allowed_def\<close>)

interpretation alerts: contract_invariant alert_exec alert_deployed alert_allowed alert_ok
proof
  show "alert_ok s" if "alert_deployed s" for s
    using that by (auto simp: alert_deployed_def alert_initialize_def alert_start_def alert_ok_def rules_ok_def
        alerts_listed_def get_rule_count_def get_user_rules_def get_asset_alerts_def)
qed (rule alert_exec_ok)

section \<open>Properties\<close>

definition demo_alerts :: "(env \<times> alert_call) list" where
  "demo_alerts =
     (let e = \<lambda>t a. \<lparr> timestamp = t, auths = [a] \<rparr>;
          low = \<lparr> an_metric = ''health'', an_alert_type = HealthScoreDrop, an_compare_op = LessThan, an_threshold = 50 \<rparr>;
          dev = \<lparr> an_metric = ''dev'', an_alert_type = PriceDeviation, an_compare_op = GreaterThan, an_threshold = 200 \<rparr>
      in [(e 2 ''U'', AlRegister ''U'' ''n1'' ''XLM'' [low] AndConditions HighAlert 100),
          (e 3 ''V'', AlRegister ''V'' ''n2'' ''XLM'' [low, dev] OrConditions LowAlert 0),
          (e 4 ''U'', AlRegister ''U'' ''n3'' ''USD'' [low, dev] AndConditions LowAlert 0),
          (e 10 ''A'', AlEvaluate ''XLM'' [(''health'', 40), (''dev'', 300)]),
          (e 20 ''A'', AlEvaluate ''XLM'' [(''health'', 40), (''dev'', 300)])])"

definition demo_alert_deployed :: alert_state where
  "demo_alert_deployed = alert_start\<lparr> al_admin := Some ''A'', al_rule_count := Some 0, al_alert_count := Some 0 \<rparr>"

lemma demo_alert_deployed_ok: "alert_deployed demo_alert_deployed"
  unfolding alert_deployed_def
  by (intro exI [of _ "\<lparr> timestamp = 1, auths = [''A''] \<rparr>"] exI [of _ "''A''"])
     (simp add: demo_alert_deployed_def alert_initialize_def)

text \<open>Also: A rule fires exactly when it has conditions and all of them hold, or one of them for an OR rule, where a metric
  that is not supplied counts as zero; the reported value, threshold and type are those of its first
  condition that holds.\<close>

theorem conditions_evaluated:
  "evaluate_conditions r metrics = (fires_on metrics r,
     (case List.find (condition_holds metrics) (ak_conditions r) of
        None \<Rightarrow> (0, 0, PriceDeviation)
      | Some c \<Rightarrow> (find_metric (an_metric c) metrics, an_threshold c, an_alert_type c)))"
  by (cases "ak_conditions r")
     (auto simp: evaluate_conditions_def fires_on_def condition_loop_is unwrap_or_def split: condition_op.split option.split)

text \<open>C30: In every history that begins right after \<open>initialize\<close> and does not call it again (it has no guard
  and sets the rule counter back to 0, so that older rules above the counter would not be looked at),
  a successful evaluation triggers exactly the rules that are due, in the order of their numbers: those active for the asset,
  not cooling down and whose conditions fire; the alerts are numbered consecutively and the list kept for
  the asset is the last hundred of all its alerts.\<close>

theorem evaluation_triggers_due_rules:
  assumes "alert_deployed s0" "list_all (alert_allowed \<circ> snd) h" "s = run alert_exec s0 h"
    "evaluate_asset env code metrics s = Inr (events, s')"
  shows "map ae_rule_id events = filter (rule_due (timestamp env) code metrics s) [1..<Suc (get_rule_count s)]
    \<and> map ae_event_id events = [Suc (get_alert_count s)..<Suc (get_alert_count s) + length events]
    \<and> get_alert_count s' = get_alert_count s + length events
    \<and> get_asset_alerts code s' = drop (length (get_asset_alerts code s @ events) - 100) (get_asset_alerts code s @ events)"
proof -
  have ok: "alert_ok s" unfolding assms(3) by (rule alerts.run_inv [OF assms(1,2)])
  have ev: "evaluate_asset_internal env code metrics s = Inr (events, s')" using assms(4) by (auto simp: evaluate_asset_eq)
  have "rules_ok s" using ok by (simp add: alert_ok_def)
  with evaluate_internal_ok [OF ok ev] show ?thesis using events_for_rules events_for_ids by (metis events_for_length)
qed

lemma evaluation_triggers_due_rules_witness:
  "\<exists>events s'. evaluate_asset \<lparr> timestamp = 30, auths = [''A''] \<rparr> ''XLM'' [(''health'', 10)] (run alert_exec demo_alert_deployed demo_alerts) = Inr (events, s')
     \<and> map ae_rule_id events = [2] \<and> map ae_event_id events = [4]"
proof -
  let ?s = "run alert_exec demo_alert_deployed demo_alerts" and ?e = "\<lparr> timestamp = 30, auths = [''A''] \<rparr> :: env"
  let ?m = "[(''health'', 10 :: int)]"
  have all: "list_all (alert_allowed \<circ> snd) demo_alerts" by code_simp
  have "is_ok (evaluate_asset ?e ''XLM'' ?m ?s)" by code_simp
  then obtain events s' where ev: "evaluate_asset ?e ''XLM'' ?m ?s = Inr (events, s')" by (auto simp: is_ok_iff)
  have due: "filter (rule_due (timestamp ?e) ''XLM'' ?m ?s) [1..<Suc (get_rule_count ?s)] = [2]" by code_simp
  have count: "get_alert_count ?s = 3" by code_simp
  note facts = evaluation_triggers_due_rules [OF demo_alert_deployed_ok all refl ev]
  have ids: "map ae_rule_id events = [2]" using facts unfolding due by (rule conjunct1)
  have "map ae_event_id events = [Suc 3..<Suc 3 + length events]" using facts unfolding count by (elim conjE)
  moreover have "length events = 1" using arg_cong [OF ids, where f = length] by simp
  ultimately have fin: "map ae_event_id events = [4]" by (simp add: upt_rec)
  show ?thesis by (rule exI [of _ events], rule exI [of _ s'], rule conjI [OF ev conjI [OF ids fin]])
qed

text \<open>Also: The books of the alerts: in every history the rules are numbered from 1 without gaps, the list of an owner
  holds the numbers of all its rules, and the alerts of an asset are at most a hundred, of that asset,
  with strictly increasing numbers up to the counter.\<close>

theorem alert_books:
  assumes "alert_deployed s0" "list_all (alert_allowed \<circ> snd) h" "s = run alert_exec s0 h"
  shows "(get_rule i s \<noteq> None \<longleftrightarrow> 1 \<le> i \<and> i \<le> get_rule_count s)
    \<and> get_user_rules a s = filter (\<lambda>i. owner_of s i = Some a) [1..<Suc (get_rule_count s)]
    \<and> length (get_asset_alerts code s) \<le> 100
    \<and> sorted_wrt (<) (map ae_event_id (get_asset_alerts code s))
    \<and> list_all (\<lambda>e. ae_event_id e \<le> get_alert_count s \<and> ae_asset_code e = code) (get_asset_alerts code s)"
proof -
  have ok: "alert_ok s" unfolding assms(3) by (rule alerts.run_inv [OF assms(1,2)])
  have "get_rule i s \<noteq> None \<longleftrightarrow> i \<in> dom (al_rules s)" by (auto simp: get_rule_def)
  with ok show ?thesis by (simp add: alert_ok_def alerts_listed_def list_all_iff del: upt_Suc)
qed

lemma alert_books_witness:
  "get_user_rules ''U'' (run alert_exec demo_alert_deployed demo_alerts) = [1, 3]
   \<and> sorted_wrt (<) (map ae_event_id (get_asset_alerts ''XLM'' (run alert_exec demo_alert_deployed demo_alerts)))"
proof -
  have "list_all (alert_allowed \<circ> snd) demo_alerts" by code_simp
  moreover have "get_user_rules ''U'' (run alert_exec demo_alert_deployed demo_alerts) = [1, 3]" by code_simp
  ultimately show ?thesis
    using alert_books [OF demo_alert_deployed_ok _ refl, where h = demo_alerts and i = 1 and a = "''U''" and code = "''XLM''"] by simp
qed

text \<open>Also: A batch evaluation is the sequence of the evaluations of its assets: the events are theirs in order and the
  state is the one they leave.\<close>

theorem batch_is_sequence:
  assumes "alert_deployed s0" "list_all (alert_allowed \<circ> snd) h" "s = run alert_exec s0 h" "batch_evaluate env ps s = Inr (events, t)"
  shows "t = run alert_exec s (map (\<lambda>p. (env, AlEvaluate (fst p) (snd p))) ps)"
proof -
  have ok: "alert_ok s" unfolding assms(3) by (rule alerts.run_inv [OF assms(1,2)])
  have "batch_assets env ps es s = Inr (events, t) \<Longrightarrow> alert_ok s \<Longrightarrow> al_admin s = Some admin \<Longrightarrow> admin \<in> set (auths env) \<Longrightarrow>
      t = run alert_exec s (map (\<lambda>p. (env, AlEvaluate (fst p) (snd p))) ps)" for es admin s
  proof (induction ps arbitrary: es s)
    case (Cons p ps)
    then obtain e1 s1 where s1: "evaluate_asset_internal env (fst p) (snd p) s = Inr (e1, s1)" "batch_assets env ps (es @ e1) s1 = Inr (events, t)"
      by auto
    have "evaluate_asset env (fst p) (snd p) s = Inr (e1, s1)" using s1(1) Cons.prems by (simp add: evaluate_asset_eq)
    then show ?case using Cons.IH [OF s1(2)] evaluate_internal_ok [OF Cons.prems(2) s1(1)] Cons.prems
      by (simp add: invoke_def state_of_def)
  qed simp
  with ok assms(4) show ?thesis by (auto simp: batch_evaluate_def)
qed

lemma batch_is_sequence_witness:
  "\<exists>events t. batch_evaluate \<lparr> timestamp = 30, auths = [''A''] \<rparr> [(''XLM'', [(''health'', 10)]), (''USD'', [])] (run alert_exec demo_alert_deployed demo_alerts) = Inr (events, t)
     \<and> t = run alert_exec (run alert_exec demo_alert_deployed demo_alerts)
         [(\<lparr> timestamp = 30, auths = [''A''] \<rparr>, AlEvaluate ''XLM'' [(''health'', 10)]), (\<lparr> timestamp = 30, auths = [''A''] \<rparr>, AlEvaluate ''USD'' [])]"
proof -
  let ?s = "run alert_exec demo_alert_deployed demo_alerts" and ?e = "\<lparr> timestamp = 30, auths = [''A''] \<rparr> :: env"
  let ?ps = "[(''XLM'', [(''health'', 10 :: int)]), (''USD'', [])]"
  have all: "list_all (alert_allowed \<circ> snd) demo_alerts" by code_simp
  have "is_ok (batch_evaluate ?e ?ps ?s)" by code_simp
  then obtain events t where b: "batch_evaluate ?e ?ps ?s = Inr (events, t)" by (auto simp: is_ok_iff)
  from batch_is_sequence [OF demo_alert_deployed_ok all refl b] b show ?thesis by auto
qed

text \<open>Also: One rule can stop all evaluations of an asset: an active rule of the asset that has fired once and whose
  cooldown overflows when it is added to the time of that alert makes every later evaluation of the asset
  fail, and anyone may register such a rule.\<close>

theorem one_rule_blocks_asset:
  assumes "alert_deployed s0" "list_all (alert_allowed \<circ> snd) h" "s = run alert_exec s0 h"
    "get_rule i s = Some r" "ak_is_active r" "ak_asset_code r = code" "0 < ak_last_triggered r"
    "u64_max < ak_last_triggered r + ak_cooldown r" "ak_last_triggered r \<le> u64_max"
  shows "\<not> is_ok (evaluate_asset env code metrics s)"
proof -
  have ok: "alert_ok s" unfolding assms(3) by (rule alerts.run_inv [OF assms(1,2)])
  have rules: "rules_ok s" and i: "i \<in> set [1..<Suc (get_rule_count s)]"
    using ok domI [of "al_rules s" i r] assms(4) by (simp_all add: alert_ok_def get_rule_def less_Suc_eq_le del: upt_Suc)
  have stuck: "evaluate_rule env code metrics i (tr, n, s) = Inl Trap" if "al_rules s i = Some r" for tr n s
    using that assms(5-9) by (auto simp: evaluate_rule_def cooling_down_def u_checked_def)
  have "evaluate_rules env code metrics is (tr, n, s) \<noteq> Inr st" if "rules_ok s" "al_rules s i = Some r" "i \<in> set is" for "is" tr n s st
    using that
  proof (induction "is" arbitrary: tr n s)
    case (Cons j "is")
    show ?case
    proof (cases "j = i")
      case True
      then show ?thesis using stuck [OF Cons.prems(2)] by simp
    next
      case False
      show ?thesis
      proof
        assume "evaluate_rules env code metrics (j # is) (tr, n, s) = Inr st"
        then obtain st1 where st1: "evaluate_rule env code metrics j (tr, n, s) = Inr st1" "evaluate_rules env code metrics is st1 = Inr st"
          by auto
        obtain tr1 n1 s1 where eq: "st1 = (tr1, n1, s1)" by (cases st1)
        have "rules_ok s1 \<and> al_rules s1 i = Some r"
          using evaluate_rule_is [OF Cons.prems(1) st1(1)] eq Cons.prems False
          by (auto simp: Let_def rules_ok_def dest!: due_Some split: if_splits)
        then show False using Cons.IH [of s1 tr1 n1] Cons.prems(3) False st1(2) eq by simp
      qed
    qed
  qed simp
  with rules i assms(4) show ?thesis by (auto simp: is_ok_iff evaluate_asset_def get_rule_def simp del: upt_Suc)
qed

lemma one_rule_blocks_asset_witness:
  "\<not> is_ok (evaluate_asset \<lparr> timestamp = 99, auths = [''A''] \<rparr> ''XLM'' []
     (run alert_exec demo_alert_deployed
       (demo_alerts @ [(\<lparr> timestamp = 21, auths = [''U''] \<rparr>, AlUpdate 1 ''n1'' [] AndConditions HighAlert 18446744073709551615)])))"
proof -
  let ?h = "demo_alerts @ [(\<lparr> timestamp = 21, auths = [''U''] \<rparr>, AlUpdate 1 ''n1'' [] AndConditions HighAlert 18446744073709551615)]"
  have all: "list_all (alert_allowed \<circ> snd) ?h" by code_simp
  have "map_option (\<lambda>r. (ak_is_active r, ak_asset_code r, ak_last_triggered r, ak_cooldown r)) (get_rule 1 (run alert_exec demo_alert_deployed ?h))
      = Some (True, ''XLM'', 10, 18446744073709551615)" by code_simp
  then obtain r where r: "get_rule 1 (run alert_exec demo_alert_deployed ?h) = Some r" "ak_is_active r" "ak_asset_code r = ''XLM''"
      "ak_last_triggered r = 10" "ak_cooldown r = 18446744073709551615" by auto
  show ?thesis by (rule one_rule_blocks_asset [OF demo_alert_deployed_ok all refl r(1,2,3)]) (simp_all add: r(4,5) u64_max_def)
qed

end
