(* ===== verification/Migration.thy ===== *)
theory Migration
  imports Soroban "HOL-Library.Product_Lexorder"
begin

text \<open>
  \<open>soroban/src/version_migration_helper.rs\<close> and \<open>soroban/src/migration.rs\<close>: the version of the stored state,
  its upgrade policy, the migration flag, history, snapshots and rollbacks. Both modules keep their
  version and history under the same two keys, so they act on one state here. The helpers are called
  from other contracts, which propagate their errors, so an error carries no state.
\<close>

section \<open>Data\<close>

record migration_version =
  vm_major :: nat
  vm_minor :: nat
  vm_patch :: nat

record migration_record =
  md_from :: migration_version
  md_to :: migration_version
  md_migrated_at :: nat
  md_migrated_by :: address
  md_success :: bool
  md_notes :: string

record state_snapshot =
  sh_version :: migration_version
  sh_snapshot_at :: nat
  sh_snapshot_by :: address
  sh_hash :: string
  sh_description :: string
  sh_data :: "(string \<times> string) list"
  sh_rollback_available :: bool
  sh_expiration :: nat

datatype validation_checkpoint = PreMigration | PostMigration | RollbackPrep

record validation_result =
  vl_checkpoint :: validation_checkpoint
  vl_passed :: bool
  vl_errors :: "string list"
  vl_warnings :: "string list"
  vl_checked_at :: nat

record dry_run_report =
  dy_current_version :: migration_version
  dy_target_version :: migration_version
  dy_would_succeed :: bool
  dy_issues :: "string list"
  dy_warnings :: "string list"

datatype migration_error =
    MgAlreadyAtVersion | MgVersionDowngradeNotAllowed | MgVersionSkipNotAllowed | MgUnauthorizedMigrator | MgValidationFailed
  | MgRollbackNotAvailable | MgInvalidStateSnapshot | MgSnapshotExpired | MgNoValidationResults | MgMigrationInProgress
  | MgNoMigrationInProgress | MgStateIntegrityCheckFailed

type_synonym 'a mgres = "(migration_error, 'a) res"

record migration_state =
  mg_version :: "migration_version option"
  mg_history :: "migration_record list option"
  mg_snapshots :: "state_snapshot list option"
  mg_validations :: "validation_result list option"
  mg_in_progress :: "bool option"
  mg_migrators :: "address list option"
  mg_timeout :: "nat option"

section \<open>The basic helper of \<open>migration.rs\<close>\<close>

definition version_zero :: migration_version where
  "version_zero = \<lparr> vm_major = 0, vm_minor = 0, vm_patch = 0 \<rparr>"

definition basic_get_version :: "migration_state \<Rightarrow> migration_version" where
  "basic_get_version s = unwrap_or (mg_version s) version_zero"

definition basic_set_version :: "migration_version \<Rightarrow> migration_state \<Rightarrow> migration_state" where
  "basic_set_version v s = s\<lparr> mg_version := Some v \<rparr>"

definition basic_validate_upgrade :: "migration_version \<Rightarrow> migration_version \<Rightarrow> bool \<Rightarrow> unit mgres" where
  "basic_validate_upgrade from to force =
     and_then (ensure (from \<noteq> to) (Err MgAlreadyAtVersion)) (\<lambda>_.
       let is_forward = (if vm_major to \<noteq> vm_major from then vm_major from < vm_major to
                         else if vm_minor to \<noteq> vm_minor from then vm_minor from < vm_minor to
                         else vm_patch from < vm_patch to) in
     and_then (ensure (\<not> (\<not> is_forward \<and> \<not> force)) (Err MgVersionDowngradeNotAllowed)) (\<lambda>_.
       if is_forward
       then and_then (add_u32 (vm_major from) 1) (\<lambda>next_major.
            ensure (\<not> (next_major < vm_major to \<and> \<not> force)) (Err MgVersionSkipNotAllowed))
       else Inr ()))"

definition basic_record_migration :: "migration_record \<Rightarrow> migration_state \<Rightarrow> migration_state" where
  "basic_record_migration r s = s\<lparr> mg_history := Some (unwrap_or (mg_history s) [] @ [r]) \<rparr>"

definition basic_get_history :: "migration_state \<Rightarrow> migration_record list" where
  "basic_get_history s = unwrap_or (mg_history s) []"

section \<open>The helper of \<open>version_migration_helper.rs\<close>\<close>

definition migration_initialize :: "env \<Rightarrow> address \<Rightarrow> migration_version \<Rightarrow> migration_state \<Rightarrow> migration_state mgres" where
  "migration_initialize env admin v s =
     and_then (require_auth env admin) (\<lambda>_.
     Inr (s\<lparr> mg_version := Some v, mg_migrators := Some [admin], mg_timeout := Some 3600 \<rparr>))"

definition get_version :: "migration_state \<Rightarrow> migration_version" where
  "get_version s = unwrap_or (mg_version s) \<lparr> vm_major = 0, vm_minor = 0, vm_patch = 0 \<rparr>"

definition create_state_snapshot ::
  "env \<Rightarrow> address \<Rightarrow> string \<Rightarrow> (string \<times> string) list \<Rightarrow> migration_state \<Rightarrow> (state_snapshot \<times> migration_state) mgres" where
  "create_state_snapshot env by description data s =
     and_then (add_u64 (timestamp env) (7 * 24 * 3600)) (\<lambda>expiration.
       let x = \<lparr> sh_version = get_version s, sh_snapshot_at = timestamp env, sh_snapshot_by = by, sh_hash = ''sha256_placeholder'',
                 sh_description = description, sh_data = data, sh_rollback_available = True, sh_expiration = expiration \<rparr>
       in Inr (x, s\<lparr> mg_snapshots := Some (unwrap_or (mg_snapshots s) [] @ [x]) \<rparr>))"

definition validate_upgrade :: "migration_version \<Rightarrow> migration_version \<Rightarrow> bool \<Rightarrow> unit mgres" where
  "validate_upgrade from to force =
     and_then (ensure (from \<noteq> to) (Err MgAlreadyAtVersion)) (\<lambda>_.
       let is_forward = (if vm_major to \<noteq> vm_major from then vm_major from < vm_major to
                         else if vm_minor to \<noteq> vm_minor from then vm_minor from < vm_minor to
                         else vm_patch from < vm_patch to) in
     and_then (ensure (\<not> (\<not> is_forward \<and> \<not> force)) (Err MgVersionDowngradeNotAllowed)) (\<lambda>_.
       if is_forward
       then and_then (add_u32 (vm_major from) 1) (\<lambda>next_major.
            ensure (\<not> (next_major < vm_major to \<and> \<not> force)) (Err MgVersionSkipNotAllowed))
       else Inr ()))"

definition is_authorized_migrator :: "address \<Rightarrow> migration_state \<Rightarrow> bool mgres" where
  "is_authorized_migrator migrator s =
     and_then (ok_or (mg_migrators s) (Err MgUnauthorizedMigrator)) (\<lambda>ms.
     Inr (list_ex (\<lambda>a. a = migrator) ms))"

definition is_migration_in_progress :: "migration_state \<Rightarrow> bool" where
  "is_migration_in_progress s = unwrap_or (mg_in_progress s) False"

definition begin_migration :: "env \<Rightarrow> address \<Rightarrow> migration_version \<Rightarrow> bool \<Rightarrow> migration_state \<Rightarrow> migration_state mgres" where
  "begin_migration env migrator target force s =
     and_then (require_auth env migrator) (\<lambda>_.
     and_then (is_authorized_migrator migrator s) (\<lambda>authorized.
     and_then (ensure authorized (Err MgUnauthorizedMigrator)) (\<lambda>_.
     and_then (ensure (\<not> is_migration_in_progress s) (Err MgMigrationInProgress)) (\<lambda>_.
     and_then (validate_upgrade (get_version s) target force) (\<lambda>_.
     Inr (s\<lparr> mg_in_progress := Some True \<rparr>))))))"

definition cancel_migration :: "env \<Rightarrow> address \<Rightarrow> migration_state \<Rightarrow> migration_state mgres" where
  "cancel_migration env migrator s =
     and_then (require_auth env migrator) (\<lambda>_.
     and_then (is_authorized_migrator migrator s) (\<lambda>authorized.
     and_then (ensure authorized (Err MgUnauthorizedMigrator)) (\<lambda>_.
     and_then (ensure (is_migration_in_progress s) (Err MgNoMigrationInProgress)) (\<lambda>_.
     Inr (s\<lparr> mg_in_progress := None \<rparr>)))))"

text \<open>The issues of a dry run, in the order of the checks. A trap in the version check traps the dry run.\<close>

definition upgrade_issues :: "unit mgres \<Rightarrow> string list mgres" where
  "upgrade_issues check = (case check of
     Inr _ \<Rightarrow> Inr []
   | Inl f \<Rightarrow> (case f of
       Err e \<Rightarrow> (case e of
         MgAlreadyAtVersion \<Rightarrow> Inr [''target version equals the current version'']
       | MgVersionDowngradeNotAllowed \<Rightarrow> Inr [''target version is a downgrade (pass force to override)'']
       | MgVersionSkipNotAllowed \<Rightarrow> Inr [''target version skips one or more major versions (pass force to override)'']
       | _ \<Rightarrow> Inr [])
     | _ \<Rightarrow> Inl f))"

definition migrator_issues :: "bool mgres \<Rightarrow> string list" where
  "migrator_issues auth = (if auth = Inr True then [] else [''migrator is not in the authorized-migrators list''])"

definition dry_run_migration ::
  "address \<Rightarrow> migration_version \<Rightarrow> string list \<Rightarrow> string list \<Rightarrow> bool \<Rightarrow> migration_state \<Rightarrow> dry_run_report mgres" where
  "dry_run_migration migrator target storage_errors storage_warnings force s =
     (let i1 = migrator_issues (is_authorized_migrator migrator s);
          i2 = (if is_migration_in_progress s then [''a migration is already in progress''] else [])
      in and_then (upgrade_issues (validate_upgrade (get_version s) target force)) (\<lambda>i3.
           let issues = i1 @ i2 @ i3 @ storage_errors in
           Inr \<lparr> dy_current_version = get_version s, dy_target_version = target,
                 dy_would_succeed = (issues = []), dy_issues = issues, dy_warnings = storage_warnings \<rparr>))"

definition complete_migration ::
  "env \<Rightarrow> migration_version \<Rightarrow> migration_version \<Rightarrow> address \<Rightarrow> string \<Rightarrow> bool \<Rightarrow> migration_state \<Rightarrow> migration_state mgres" where
  "complete_migration env from to migrator notes force s =
     and_then (validate_upgrade from to force) (\<lambda>_.
       let r = \<lparr> md_from = from, md_to = to, md_migrated_at = timestamp env, md_migrated_by = migrator,
                 md_success = True, md_notes = notes \<rparr>
       in Inr (s\<lparr> mg_version := Some to, mg_history := Some (unwrap_or (mg_history s) [] @ [r]), mg_in_progress := None \<rparr>))"

definition validate_state ::
  "env \<Rightarrow> validation_checkpoint \<Rightarrow> string list \<Rightarrow> string list \<Rightarrow> migration_state \<Rightarrow> (validation_result \<times> migration_state) mgres" where
  "validate_state env checkpoint errors warnings s =
     (let passed = (errors = []);
          r = \<lparr> vl_checkpoint = checkpoint, vl_passed = passed, vl_errors = errors, vl_warnings = warnings,
                vl_checked_at = timestamp env \<rparr>;
          s1 = s\<lparr> mg_validations := Some (unwrap_or (mg_validations s) [] @ [r]) \<rparr>
      in and_then (ensure passed (Err MgValidationFailed)) (\<lambda>_. Inr (r, s1)))"

definition get_migration_history :: "migration_state \<Rightarrow> migration_record list" where
  "get_migration_history s = unwrap_or (mg_history s) []"

definition get_snapshots :: "migration_state \<Rightarrow> state_snapshot list" where
  "get_snapshots s = unwrap_or (mg_snapshots s) []"

definition rollback_to_snapshot :: "env \<Rightarrow> address \<Rightarrow> string \<Rightarrow> migration_state \<Rightarrow> migration_state mgres" where
  "rollback_to_snapshot env admin hash s =
     and_then (require_auth env admin) (\<lambda>_.
     and_then (ok_or (mg_snapshots s) (Err MgRollbackNotAvailable)) (\<lambda>xs.
     and_then (ok_or (List.find (\<lambda>x. sh_hash x = hash) xs) (Err MgInvalidStateSnapshot)) (\<lambda>x.
     and_then (ensure (\<not> sh_expiration x < timestamp env) (Err MgSnapshotExpired)) (\<lambda>_.
     and_then (ensure (sh_rollback_available x) (Err MgRollbackNotAvailable)) (\<lambda>_.
     Inr (s\<lparr> mg_version := Some (sh_version x) \<rparr>))))))"

definition add_migrator :: "env \<Rightarrow> address \<Rightarrow> address \<Rightarrow> migration_state \<Rightarrow> migration_state mgres" where
  "add_migrator env admin new_migrator s =
     and_then (require_auth env admin) (\<lambda>_.
       let ms = unwrap_or (mg_migrators s) [] in
       if list_ex (\<lambda>a. a = new_migrator) ms then Inr s
       else Inr (s\<lparr> mg_migrators := Some (ms @ [new_migrator]) \<rparr>))"

definition remove_migrator :: "env \<Rightarrow> address \<Rightarrow> address \<Rightarrow> migration_state \<Rightarrow> migration_state mgres" where
  "remove_migrator env admin migrator s =
     and_then (require_auth env admin) (\<lambda>_.
     and_then (ok_or (mg_migrators s) (Err MgUnauthorizedMigrator)) (\<lambda>ms.
     Inr (s\<lparr> mg_migrators := Some (filter (\<lambda>a. a \<noteq> migrator) ms) \<rparr>)))"

section \<open>Histories\<close>

datatype migration_call =
    MgInitialize address migration_version
  | MgSnapshot address string "(string \<times> string) list"
  | MgBegin address migration_version bool
  | MgCancel address
  | MgComplete migration_version migration_version address string bool
  | MgValidate validation_checkpoint "string list" "string list"
  | MgRollback address string
  | MgAddMigrator address address
  | MgRemoveMigrator address address

fun migration_exec :: "env \<Rightarrow> migration_call \<Rightarrow> migration_state \<Rightarrow> migration_state mgres" where
  "migration_exec env (MgInitialize a v) s = migration_initialize env a v s"
| "migration_exec env (MgSnapshot a d x) s = state_of (create_state_snapshot env a d x s)"
| "migration_exec env (MgBegin a v f) s = begin_migration env a v f s"
| "migration_exec env (MgCancel a) s = cancel_migration env a s"
| "migration_exec env (MgComplete v w a n f) s = complete_migration env v w a n f s"
| "migration_exec env (MgValidate c e w) s = state_of (validate_state env c e w s)"
| "migration_exec env (MgRollback a h) s = rollback_to_snapshot env a h s"
| "migration_exec env (MgAddMigrator a m) s = add_migrator env a m s"
| "migration_exec env (MgRemoveMigrator a m) s = remove_migrator env a m s"

definition migration_start :: migration_state where
  "migration_start = \<lparr> mg_version = None, mg_history = None, mg_snapshots = None, mg_validations = None,
     mg_in_progress = None, mg_migrators = None, mg_timeout = None \<rparr>"

section \<open>The version order\<close>

definition version_key :: "migration_version \<Rightarrow> nat \<times> nat \<times> nat" where
  "version_key v = (vm_major v, vm_minor v, vm_patch v)"

lemma version_key_eq [simp]: "version_key v = version_key w \<longleftrightarrow> v = w"
  by (cases v; cases w) (simp add: version_key_def)

lemma validate_upgrade_is:
  "validate_upgrade from to force =
     (if from = to then Inl (Err MgAlreadyAtVersion)
      else if version_key to < version_key from then (if force then Inr () else Inl (Err MgVersionDowngradeNotAllowed))
      else if vm_major from = u32_max \<or> u32_max < vm_major from then Inl Trap
      else if force \<or> vm_major to \<le> vm_major from + 1 then Inr () else Inl (Err MgVersionSkipNotAllowed))"
proof -
  define fwd where "fwd = (if vm_major to \<noteq> vm_major from then vm_major from < vm_major to
                         else if vm_minor to \<noteq> vm_minor from then vm_minor from < vm_minor to
                         else vm_patch from < vm_patch to)"
  have fwd: "fwd \<longleftrightarrow> version_key from < version_key to" by (auto simp: fwd_def version_key_def)
  have tri: "\<not> version_key to < version_key from \<longleftrightarrow> version_key from < version_key to" if "from \<noteq> to"
    using that by (metis not_less_iff_gr_or_eq version_key_eq)
  show ?thesis unfolding validate_upgrade_def fwd_def [symmetric] Let_def fwd
    using tri by (auto simp: ensure_def u_checked_def)
qed

section \<open>Invariants of histories\<close>

definition migration_ok :: "migration_state \<Rightarrow> bool" where
  "migration_ok s \<longleftrightarrow> distinct (unwrap_or (mg_migrators s) [])
     \<and> list_all (\<lambda>x. sh_hash x = ''sha256_placeholder'' \<and> sh_rollback_available x \<and> sh_expiration x = sh_snapshot_at x + 604800) (get_snapshots s)
     \<and> list_all vl_passed (unwrap_or (mg_validations s) [])"

lemma migration_exec_ok:
  "migration_ok s \<Longrightarrow> migration_exec env c s = Inr s' \<Longrightarrow> migration_ok s'"
  by (cases c) (auto simp: migration_ok_def get_snapshots_def migration_initialize_def create_state_snapshot_def begin_migration_def
      cancel_migration_def complete_migration_def validate_state_def rollback_to_snapshot_def add_migrator_def remove_migrator_def
      list_ex_iff Let_def split: if_splits)

interpretation migration: contract_invariant migration_exec "\<lambda>s. s = migration_start" "\<lambda>_. True" migration_ok
proof
  show "migration_ok s" if "s = migration_start" for s
    using that by (simp add: migration_start_def migration_ok_def get_snapshots_def)
qed (rule migration_exec_ok)

text \<open>Snapshots are only ever appended.\<close>

definition snapshots_grow :: "migration_state \<Rightarrow> migration_state \<Rightarrow> bool" where
  "snapshots_grow s t \<longleftrightarrow> (\<exists>xs. get_snapshots t = get_snapshots s @ xs)
     \<and> (\<exists>rs. get_migration_history t = get_migration_history s @ rs)"

lemma migration_exec_grows: "migration_exec env c s = Inr s' \<Longrightarrow> snapshots_grow s s'"
  by (cases c) (auto simp: snapshots_grow_def get_snapshots_def get_migration_history_def migration_initialize_def create_state_snapshot_def
      begin_migration_def cancel_migration_def complete_migration_def validate_state_def rollback_to_snapshot_def add_migrator_def
      remove_migrator_def Let_def split: if_splits)

lemma snapshots_grow_trans: "snapshots_grow s t \<Longrightarrow> snapshots_grow t u \<Longrightarrow> snapshots_grow s u"
  unfolding snapshots_grow_def by (metis append.assoc)

interpretation migration_history: contract_progress migration_exec "\<lambda>_. True" snapshots_grow
proof
  show "snapshots_grow s s" for s by (simp add: snapshots_grow_def)
qed (auto intro: migration_exec_grows snapshots_grow_trans)

section \<open>Properties\<close>

definition ver :: "nat \<Rightarrow> nat \<Rightarrow> nat \<Rightarrow> migration_version" where
  "ver a b c = \<lparr> vm_major = a, vm_minor = b, vm_patch = c \<rparr>"

definition demo_migration :: "(env \<times> migration_call) list" where
  "demo_migration =
     (let e = \<lambda>t. \<lparr> timestamp = t, auths = [''A''] \<rparr>
      in [(e 1, MgInitialize ''A'' (ver 1 0 0)), (e 2, MgSnapshot ''A'' ''first'' []), (e 3, MgBegin ''A'' (ver 1 1 0) False),
          (e 4, MgComplete (ver 1 0 0) (ver 1 1 0) ''A'' ''n'' False), (e 500000, MgSnapshot ''A'' ''second'' []),
          (e 500001, MgBegin ''A'' (ver 2 0 0) False)])"

text \<open>Also: The upgrade policy is the order of versions: without \<open>force\<close> an upgrade is accepted exactly when the target is
  greater lexicographically and its major version at most one more; with \<open>force\<close> only the equal version
  is refused; the two helpers agree, and an upgrade from the largest major version traps.\<close>

theorem upgrade_policy:
  "basic_validate_upgrade from to force = validate_upgrade from to force
   \<and> (validate_upgrade from to False = Inr () \<longleftrightarrow> vm_major from < u32_max \<and> version_key from < version_key to \<and> vm_major to \<le> vm_major from + 1)
   \<and> (validate_upgrade from to True = Inr () \<longleftrightarrow> version_key to < version_key from \<or> from \<noteq> to \<and> vm_major from < u32_max)"
proof -
  have basic: "basic_validate_upgrade from to force = validate_upgrade from to force"
    by (simp add: basic_validate_upgrade_def validate_upgrade_def)
  have neq: "from \<noteq> to" if "version_key from < version_key to \<or> version_key to < version_key from" using that by auto
  show ?thesis
  proof (cases "version_key from" "version_key to" rule: linorder_cases)
    case less
    then have "\<not> version_key to < version_key from" by simp
    with less neq basic show ?thesis by (auto simp: validate_upgrade_is)
  next
    case equal
    with basic show ?thesis by (simp add: validate_upgrade_is)
  next
    case greater
    then have "\<not> version_key from < version_key to" by simp
    with greater neq basic show ?thesis by (simp add: validate_upgrade_is)
  qed
qed

text \<open>Also: A dry run predicts the migration: when it reports, it reports success exactly when \<open>begin_migration\<close> with the same
  arguments would succeed for a migrator that authorises the call, given no storage errors.\<close>

theorem dry_run_predicts:
  assumes "dry_run_migration migrator target [] warnings force s = Inr r" "migrator \<in> set (auths env)"
  shows "dy_would_succeed r \<longleftrightarrow> is_ok (begin_migration env migrator target force s)"
proof -
  define check where "check = validate_upgrade (get_version s) target force"
  obtain i3 where i3: "upgrade_issues check = Inr i3"
      "dy_would_succeed r \<longleftrightarrow> is_authorized_migrator migrator s = Inr True \<and> \<not> is_migration_in_progress s \<and> i3 = []"
    using assms(1) by (auto simp: dry_run_migration_def migrator_issues_def check_def Let_def)
  have "check \<in> {Inr (), Inl (Err MgAlreadyAtVersion), Inl (Err MgVersionDowngradeNotAllowed), Inl (Err MgVersionSkipNotAllowed), Inl Trap}"
    by (simp add: check_def validate_upgrade_is)
  then have "i3 = [] \<longleftrightarrow> check = Inr ()" using i3(1) by (auto simp: upgrade_issues_def)
  moreover have "is_ok (begin_migration env migrator target force s) \<longleftrightarrow>
      is_authorized_migrator migrator s = Inr True \<and> \<not> is_migration_in_progress s \<and> check = Inr ()"
    using assms(2) by (auto simp: begin_migration_def check_def is_ok_iff)
  ultimately show ?thesis using i3(2) by blast
qed

lemma dry_run_predicts_witness:
  "is_ok (begin_migration \<lparr> timestamp = 500001, auths = [''A''] \<rparr> ''A'' (ver 2 0 0) False (run migration_exec migration_start (take 5 demo_migration)))"
proof -
  let ?s = "run migration_exec migration_start (take 5 demo_migration)"
  have "is_ok (dry_run_migration ''A'' (ver 2 0 0) [] [] False ?s)" by code_simp
  then obtain r where r: "dry_run_migration ''A'' (ver 2 0 0) [] [] False ?s = Inr r" by (auto simp: is_ok_iff)
  have "(case dry_run_migration ''A'' (ver 2 0 0) [] [] False ?s of Inr r \<Rightarrow> dy_would_succeed r | _ \<Rightarrow> False)" by code_simp
  then have "dy_would_succeed r" by (simp add: r)
  then show ?thesis using dry_run_predicts [OF r, of "\<lparr> timestamp = 500001, auths = [''A''] \<rparr>"] by simp
qed

text \<open>Also: Only the oldest snapshot can be rolled back to, as all snapshots have the same hash: in every history a rollback
  restores the version of the first snapshot, and once that one has expired every rollback fails, however
  many newer snapshots there are.\<close>

theorem rollback_only_oldest:
  assumes "s = run migration_exec migration_start h" "get_snapshots s = x # xs"
  shows "(rollback_to_snapshot env a hash s = Inr s' \<longrightarrow> get_version s' = sh_version x)
    \<and> (sh_snapshot_at x + 604800 < timestamp env \<longrightarrow> \<not> is_ok (rollback_to_snapshot env a hash (run migration_exec s h')))"
proof -
  let ?t = "run migration_exec s h'"
  have all: "list_all (\<lambda>x. sh_hash x = ''sha256_placeholder'' \<and> sh_rollback_available x \<and> sh_expiration x = sh_snapshot_at x + 604800) (get_snapshots s)"
    using migration.run_inv [OF refl, of h] assms(1) by (simp add: migration_ok_def list_all_iff)
  obtain ys where t: "get_snapshots ?t = x # xs @ ys"
    using migration_history.run_rel [of s h'] assms(2) by (auto simp: snapshots_grow_def)
  have s: "mg_snapshots s = Some (x # xs)" using assms(2) by (cases "mg_snapshots s") (auto simp: get_snapshots_def)
  have t': "mg_snapshots ?t = Some (x # xs @ ys)" using t by (cases "mg_snapshots ?t") (auto simp: get_snapshots_def)
  have x: "sh_hash x = ''sha256_placeholder''" "sh_expiration x = sh_snapshot_at x + 604800" using all assms(2) by simp_all
  have later: "list_all (\<lambda>x. sh_hash x = ''sha256_placeholder'') (get_snapshots ?t)"
    using migration.run_inv [OF refl, of "h @ h'"] assms(1) by (simp add: migration_ok_def list_all_iff run_append)
  have only: "List.find (\<lambda>y. sh_hash y = hash) (get_snapshots u) = (if hash = ''sha256_placeholder'' then Some x else None)"
    if "list_all (\<lambda>x. sh_hash x = ''sha256_placeholder'') (get_snapshots u)" "get_snapshots u = x # zs" for u zs
    using that by (auto simp: find_None_iff list_all_iff)
  have "list_all (\<lambda>x. sh_hash x = ''sha256_placeholder'') (get_snapshots s)" using all by (simp add: list_all_iff)
  from only [OF this assms(2)] only [OF later t] show ?thesis
    by (auto simp: rollback_to_snapshot_def s t' x get_version_def is_ok_iff get_snapshots_def split: if_splits)
qed

lemma rollback_only_oldest_witness:
  "\<not> is_ok (rollback_to_snapshot \<lparr> timestamp = 700000, auths = [''A''] \<rparr> ''A'' ''sha256_placeholder''
      (run migration_exec (run migration_exec migration_start (take 4 demo_migration)) (drop 4 demo_migration)))"
proof -
  let ?s = "run migration_exec migration_start (take 4 demo_migration)"
  have "map sh_snapshot_at (get_snapshots ?s) = [2]" by code_simp
  then obtain x where x: "get_snapshots ?s = [x]" "sh_snapshot_at x = 2" by auto
  show ?thesis using rollback_only_oldest [OF refl x(1), of "\<lparr> timestamp = 700000, auths = [''A''] \<rparr>" "''A''"] x(2) by simp
qed

text \<open>Also: The flag excludes a second migration but protects nothing else: while a migration is in progress every
  \<open>begin_migration\<close> fails; yet in any state anyone, without authorisation, completes a migration to any
  version of its choice, and anyone that authorises its own call makes itself a migrator.\<close>

theorem migration_guards:
  assumes "a \<in> set (auths env)"
  shows "(is_migration_in_progress s \<longrightarrow> \<not> is_ok (begin_migration env m target force s))
    \<and> (\<exists>from t. complete_migration env from target m notes True s = Inr t \<and> get_version t = target \<and> \<not> is_migration_in_progress t)
    \<and> (\<exists>t. add_migrator env a a s = Inr t \<and> is_authorized_migrator a t = Inr True)"
proof (intro conjI)
  show "is_migration_in_progress s \<longrightarrow> \<not> is_ok (begin_migration env m target force s)"
    by (auto simp: begin_migration_def is_ok_iff)
  define v where "v = (if target = ver 0 0 0 then ver 0 0 1 else ver 0 0 0)"
  have "validate_upgrade v target True = Inr ()"
    by (auto simp: validate_upgrade_is v_def ver_def version_key_def u32_max_def)
  then show "\<exists>from t. complete_migration env from target m notes True s = Inr t \<and> get_version t = target \<and> \<not> is_migration_in_progress t"
    by (intro exI [of _ v]) (simp add: complete_migration_def get_version_def is_migration_in_progress_def)
  show "\<exists>t. add_migrator env a a s = Inr t \<and> is_authorized_migrator a t = Inr True"
    using assms by (cases "mg_migrators s") (auto simp: add_migrator_def is_authorized_migrator_def list_ex_iff Let_def)
qed

lemma migration_guards_witness:
  "\<not> is_ok (begin_migration \<lparr> timestamp = 500002, auths = [''A''] \<rparr> ''A'' (ver 1 2 0) False (run migration_exec migration_start demo_migration))"
proof -
  have "is_migration_in_progress (run migration_exec migration_start demo_migration)" by code_simp
  then show ?thesis using migration_guards [of "''A''" "\<lparr> timestamp = 500002, auths = [''A''] \<rparr>"] by simp
qed

end
