(* ===== verification/Spec2Isabelle.thy ===== *)
theory Spec2Isabelle
  imports
    Soroban Escrow Transfer_Machine Access_Control Operator_Rotation Threshold_Window
    Message_Relay Int_Sqrt Governance Multisig_Treasury Circuit_Breaker Insurance_Pool
    Liquidity_Monitor Fee_Distribution Rate_Limiter Statistics Watch_Core Watch_Checkpoint
    Watch_Assets Watch_Market Watch_Contract Watch_History Asset_Registry Reputation
    Emergency_Recovery Reserve_Verifier Alert_System Migration
begin

text \<open>
  The repository holds a set of Soroban smart contracts that watch and operate asset bridges: an
  escrow, a bridge transfer state machine, and the main crate \<open>soroban\<close> with the watch contract
  itself (\<open>lib.rs\<close>) and its modules and sibling contracts. This library models them one theory per
  contract or module, on the prelude \<open>Soroban\<close>.

  \<^bold>\<open>How a contract is modelled.\<close> A contract's storage is one record with a field per storage key; a
  persistent key with an argument is a partial map. An entry point is a definition that takes the
  invocation environment \<open>env\<close> (ledger timestamp, addresses that authorised the call), its
  arguments and the state, and returns a fault or the result with the new state. \<open><contract>_call\<close>
  lists the entry points that change state, \<open><contract>_exec\<close> dispatches them, and \<open>run\<close> executes a
  history of invocations in which a failing call is rolled back, as the host does. The properties
  speak about every history from the empty contract, or about every reachable state.

  \<^bold>\<open>Arithmetic.\<close> The release profile has \<open>overflow-checks = true\<close>, so every \<open>+ - *\<close> of the source
  is an operation that traps outside its width, \<open>checked_\<close> and \<open>saturating_\<close> operations are
  separate, and \<open>as\<close> casts wrap. Unsigned integers are \<open>nat\<close> and signed ones \<open>int\<close> with the bound of
  their width in the checks. Rust's \<open>/\<close> truncates towards zero (\<open>sdiv\<close>).

  \<^bold>\<open>Theories and sources.\<close>
  \<^item> \<open>Soroban\<close>: results, faults, authorisation, checked integers, histories; the interfaces
    \<open>contract_invariant\<close> (an invariant kept by every successful call holds in every history) and
    \<open>contract_progress\<close> (a reflexive and transitive relation of states holds along every history);
    \<open>keyed_list\<close>, the update-or-append list as a map.
  \<^item> \<open>Escrow\<close> (\<open>escrow_contract/src/lib.rs\<close>): deposits, partial and batch releases, refunds,
    disputes and the emergency path; conservation against the ledger of published payments.
  \<^item> \<open>Transfer_Machine\<close> (\<open>transfer_state_machine/src/lib.rs\<close>): the transfer life cycle; an abstract
    machine given as an inductive step relation and a simulation of it.
  \<^item> \<open>Access_Control\<close> (\<open>soroban/src/acl.rs\<close> and the entry points of \<open>lib.rs\<close> over it): roles and
    direct permissions with expiry, refined to maps.
  \<^item> \<open>Operator_Rotation\<close> (\<open>operator_rotation.rs\<close>): registry of operators, time-locked rotation.
  \<^item> \<open>Threshold_Window\<close> (\<open>threshold_window.rs\<close>): named deviation windows and their evaluation.
  \<^item> \<open>Message_Relay\<close> (\<open>relay/mod.rs\<close>, \<open>types.rs\<close>, \<open>errors.rs\<close>, \<open>events.rs\<close>): the cross-chain message
    queue, nonces, signatures and relaying.
  \<^item> \<open>Int_Sqrt\<close>: the three Newton square roots of \<open>governance.rs\<close>, \<open>liquidity_pool.rs\<close> and \<open>lib.rs\<close>
    behind one interface \<open>floor_root\<close>.
  \<^item> \<open>Governance\<close> (\<open>governance.rs\<close>): voting power, delegation, proposals, timelock, guardians.
  \<^item> \<open>Multisig_Treasury\<close> (\<open>multisig_treasury.rs\<close>), \<open>Circuit_Breaker\<close> (\<open>circuit_breaker.rs\<close>),
    \<open>Insurance_Pool\<close> (\<open>insurance_pool.rs\<close>), \<open>Liquidity_Monitor\<close> (\<open>liquidity_pool.rs\<close>),
    \<open>Fee_Distribution\<close> (\<open>fee_distribution.rs\<close>), \<open>Rate_Limiter\<close> (\<open>rate_limiter.rs\<close>): one contract
    each, with all its entry points.
  \<^item> \<open>Statistics\<close> (\<open>lib.rs\<close>): the scores and the statistics of price series.
  \<^item> \<open>Watch_Core\<close> (\<open>lib.rs\<close>): the administration of the main contract: roles, the global pause,
    the transfer of the administration, upgrades, recovery, the activity and replay logs.
  \<^item> \<open>Watch_Checkpoint\<close> (\<open>lib.rs\<close>): the stored records of the assets, checkpoints with their byte
    serialisation and hash, their comparison, pruning and restore, the retention rules with their
    archives and the storage statistics.
  \<^item> \<open>Watch_Assets\<close> (\<open>lib.rs\<close>, \<open>source_trust.rs\<close>): registration, pausing and locking of assets, the
    submissions (direct, batch, calculated, signed, multi-source), signers and signatures, trusted
    sources, the submission rate limit.
  \<^item> \<open>Watch_Market\<close> (\<open>lib.rs\<close>): the configuration store and its audit logs, deviation and mismatch
    thresholds, supply mismatches, liquidity depth, expiration, stored statistics, the pool entry
    points; \<open>watch_exec\<close> puts all entry points of the contract together.
  \<^item> \<open>Watch_Contract\<close>, \<open>Watch_History\<close>: the properties of histories of all these entry points:
    checkpoints and restores in the first; nonces, locks, pools and lost records in the second. SHA-256 is a parameter
    \<open>sha\<close>; the events, which no entry point reads, are not part of the state, and the refusal of a
    second \<open>require_auth\<close> of the same address within a call by the host is not modelled.
  \<^item> \<open>Asset_Registry\<close> (\<open>asset_registry.rs\<close>): metadata of assets with versions, life cycle, compliance, links,
    whitelist and frozen assets; the stored indexes are shown to be exact.
  \<^item> \<open>Reputation\<close> (\<open>reputation_system.rs\<close>): scores, badges, decay and leaderboards; the bubble sort is the
    stable sort, scores stay in range, penalties and rewards always fail.
  \<^item> \<open>Emergency_Recovery\<close> (\<open>emergency_fund_recovery.rs\<close>): every transfer is an executed recovery of the
    deployment, and anyone can redeploy it. \<open>Reserve_Verifier\<close> (\<open>bridge_reserve_verifier.rs\<close>): Merkle
    proofs against trees of any depth, commitments, challenges and slashes.
  \<^item> \<open>Alert_System\<close> (\<open>alert_system.rs\<close>): rules, conditions, cooldowns and alerts; an evaluation is shown to
    trigger exactly the due rules. \<open>Migration\<close> (\<open>version_migration_helper.rs\<close>, \<open>migration.rs\<close>): the
    upgrade policy as an order, dry runs against real ones, snapshots and rollbacks.

  \<^bold>\<open>What the lemmas show.\<close> Each contract theory first defines data and operations in the order of
  the code, then an invariant of its state with one preservation lemma per operation, the
  interpretation of the history interfaces on its dispatcher, and last the properties: books that
  balance and payments that are covered (escrow, insurance, fees), windows and rings that refine a
  log (rate limiter, liquidity), state machines whose reachable states follow the documented
  transitions (transfers, proposals, relayed messages), exact conditions under which an operation
  succeeds, bounds of computed scores, and equivalence of optimised routines with a reference
  (square roots, quickselect, the ring scans). Some properties record behaviour that deserves
  attention, such as a guard the code does not have, in general or on a concrete history.

  \<^bold>\<open>Loops.\<close> Bounded loops are structural recursion or folds over the vector. The Newton iterations
  and quickselect are recursive functions with a termination proof; the rolling window of
  \<open>Statistics\<close> is a \<open>while\<close> loop kept as a partial function, whose termination is a theorem. No
  definition uses fuel.

  \<^bold>\<open>Parameters.\<close> Code that is not in the repository is an argument of the definitions: the hash
  \<open>sha256\<close> of the relay and of the commitments (where a property needs it, it must differ on the finitely many inputs a history
  hashes, or the conclusion names two colliding inputs),
  the parser behind \<open>Address::from_string\<close>, the contract's own address, and the token contract of
  the fee distributor, a function that says which transfers are accepted. Each property with such
  an assumption has a witness on a concrete instance.

  \<^bold>\<open>Bounds.\<close> Where a counter of 64 bits could run out, the property says so: nonces of a sender and
  escrow numbers stay below \<open>u64_max\<close>. Address strings used as keys of the relay encoding have 56
  characters, as Stellar addresses do. A history starts from deployment unless the text of a
  property says that it begins right after a successful \<open>initialize\<close>; those properties say what a
  repeated or late \<open>initialize\<close> would break.

  \<^bold>\<open>Not modelled.\<close> Storage lifetimes (\<open>extend_ttl\<close>), resource limits of the host, and the host's
  refusal to authorise the same address twice in one frame. Published events are modelled where a
  property uses them as the record of what a contract did, and left out elsewhere. Queries that
  only return a stored field are the field itself. The tests and benchmarks are not part of the
  program. Of the main contract \<open>lib.rs\<close>, the status rollups (\<open>update_asset_rollup\<close> and its helpers), which no
  entry point calls, and the export of asset snapshots are not modelled. The smaller
  stores of sources and reports are not modelled yet.
\<close>

end
